(* ===== verification/FwPrelude.thy ===== *)
theory FwPrelude
  imports "HOL-Library.Word"
begin

text \<open>
  The vocabulary every component shares: the C integer types as words, byte buffers as lists with
  the block operations of \<^verbatim>\<open>string.h\<close> the firmware uses (\<open>memmove\<close>/\<open>memcpy\<close> into a
  buffer, a read of a block, \<open>memset\<close>), and the library facts about them. Lengths and
  offsets that the C code keeps in an \<open>int\<close> or \<open>size_t\<close> and never lets go negative are
  \<open>nat\<close>; wherever a width matters the value is a word.
\<close>

unbundle bit_operations_syntax

type_synonym u8 = "8 word"
type_synonym u16 = "16 word"
type_synonym u32 = "32 word"
type_synonym u64 = "64 word"
type_synonym bytes = "8 word list"

named_theorems buf_simps
  \<open>rewriting reads and writes of byte buffers\<close>

subsection \<open>Runs that can stop\<close>

text \<open>Sequencing for code that may stop early: an \<open>Inl\<close> ends the run.\<close>

definition seqE :: "'e + 'a \<Rightarrow> ('a \<Rightarrow> 'e + 'b) \<Rightarrow> 'e + 'b" where
  "seqE m f = (case m of Inl e \<Rightarrow> Inl e | Inr x \<Rightarrow> f x)"

lemma seqE_simps [simp]: "seqE (Inl e) f = Inl e" "seqE (Inr x) f = f x"
  by (simp_all add: seqE_def)

lemma seqE_Inr: "seqE m f = Inr y \<longleftrightarrow> (\<exists>x. m = Inr x \<and> f x = Inr y)"
  by (cases m) auto

subsection \<open>Buffers\<close>

text \<open>
  \<open>blit dst off src\<close> is \<open>memmove(dst + off, src, length src)\<close>. In C a write that does not fit is
  undefined behaviour; here it would lengthen the list, so "the length is unchanged" is what a
  memory-safety lemma says of a model that uses it.
\<close>

definition blit :: "'a list \<Rightarrow> nat \<Rightarrow> 'a list \<Rightarrow> 'a list" where
  "blit dst off src = take off dst @ src @ drop (off + length src) dst"

text \<open>\<open>block b off n\<close> reads the \<open>n\<close> cells of \<open>b\<close> from \<open>off\<close>.\<close>

definition block :: "'a list \<Rightarrow> nat \<Rightarrow> nat \<Rightarrow> 'a list" where
  "block b off n = take n (drop off b)"

definition memset :: "'a list \<Rightarrow> nat \<Rightarrow> 'a \<Rightarrow> nat \<Rightarrow> 'a list" where
  "memset dst off c n = blit dst off (replicate n c)"

lemma length_blit [simp]:
  "off + length src \<le> length dst \<Longrightarrow> length (blit dst off src) = length dst"
  by (simp add: blit_def)

lemma length_block [simp]: "off + n \<le> length b \<Longrightarrow> length (block b off n) = n"
  by (simp add: block_def)

lemma length_memset [simp]:
  "off + n \<le> length dst \<Longrightarrow> length (memset dst off c n) = length dst"
  by (simp add: memset_def)

lemma blit_Nil [simp]: "blit dst off [] = dst"
  by (simp add: blit_def)

lemma nth_blit:
  assumes "off + length src \<le> length dst" "i < length dst"
  shows "blit dst off src ! i = (if off \<le> i \<and> i < off + length src then src ! (i - off) else dst ! i)"
  using assms by (auto simp: blit_def nth_append min_def)

lemma nth_block: "i < n \<Longrightarrow> off + n \<le> length b \<Longrightarrow> block b off n ! i = b ! (off + i)"
  by (simp add: block_def)

lemma block_blit_same [buf_simps]:
  "off + length src \<le> length dst \<Longrightarrow> n = length src \<Longrightarrow> block (blit dst off src) off n = src"
  by (simp add: block_def blit_def)

lemma block_blit_other [buf_simps]:
  assumes "off + length src \<le> length dst" "o2 + n \<le> length dst"
    and "o2 + n \<le> off \<or> off + length src \<le> o2"
  shows "block (blit dst off src) o2 n = block dst o2 n"
  using assms by (intro nth_equalityI) (auto simp: nth_block nth_blit)

lemma block_full [simp]: "n = length b \<Longrightarrow> block b 0 n = b"
  by (simp add: block_def)

lemma block_zero [simp]: "block b off 0 = []"
  by (simp add: block_def)

lemma take_blit_before [buf_simps]:
  "k \<le> off \<Longrightarrow> off \<le> length dst \<Longrightarrow> take k (blit dst off src) = take k dst"
  by (simp add: blit_def)

lemma take_blit_through [buf_simps]:
  "off \<le> length dst \<Longrightarrow> k = off + length src \<Longrightarrow> take k (blit dst off src) = take off dst @ src"
  by (simp add: blit_def)

lemma blit_append_fill:
  assumes "off \<le> length dst" "k = off + length xs"
  shows "blit (blit dst off xs) k ys = blit dst off (xs @ ys)"
  using assms by (simp add: blit_def min_def ac_simps)

subsection \<open>Multi-byte integers\<close>

text \<open>The byte order of the Cortex-M4 for a \<open>uint16_t\<close> or \<open>uint32_t\<close> accessed through memory is
  little endian; the wire formats of CTAPHID, APDU and U2F are big endian.\<close>

definition le16 :: "u8 \<Rightarrow> u8 \<Rightarrow> u16" where
  "le16 b0 b1 = ucast b0 OR push_bit 8 (ucast b1)"

definition be16 :: "u8 \<Rightarrow> u8 \<Rightarrow> u16" where
  "be16 hi lo = push_bit 8 (ucast hi) OR ucast lo"

definition le32 :: "u8 \<Rightarrow> u8 \<Rightarrow> u8 \<Rightarrow> u8 \<Rightarrow> u32" where
  "le32 b0 b1 b2 b3 =
     ucast b0 OR push_bit 8 (ucast b1) OR push_bit 16 (ucast b2) OR push_bit 24 (ucast b3)"

definition be32 :: "u8 \<Rightarrow> u8 \<Rightarrow> u8 \<Rightarrow> u8 \<Rightarrow> u32" where
  "be32 b3 b2 b1 b0 = le32 b0 b1 b2 b3"

definition u32_le_bytes :: "u32 \<Rightarrow> bytes" where
  "u32_le_bytes w = [ucast w, ucast (drop_bit 8 w), ucast (drop_bit 16 w), ucast (drop_bit 24 w)]"

definition u32_be_bytes :: "u32 \<Rightarrow> bytes" where
  "u32_be_bytes w = rev (u32_le_bytes w)"

lemma length_u32_bytes [simp]: "length (u32_le_bytes w) = 4" "length (u32_be_bytes w) = 4"
  by (simp_all add: u32_le_bytes_def u32_be_bytes_def)

lemma bit_u8_high: "8 \<le> n \<Longrightarrow> \<not> bit (b :: u8) n"
  using bit_imp_le_length[of b n] by auto

lemma le16_split [simp]: "le16 (ucast w) (ucast (drop_bit 8 w)) = w"
  by (rule bit_word_eqI)
     (auto simp: le16_def bit_simps bit_u8_high)

lemma be16_split [simp]: "be16 (ucast (drop_bit 8 w)) (ucast w) = w"
  by (rule bit_word_eqI)
     (auto simp: be16_def bit_simps bit_u8_high)

lemma le32_split [simp]:
  "le32 (ucast w) (ucast (drop_bit 8 w)) (ucast (drop_bit 16 w)) (ucast (drop_bit 24 w)) = w"
proof (rule bit_word_eqI)
  fix n assume "n < LENGTH(32)"
  then consider "n < 8" | "8 \<le> n" "n < 16" | "16 \<le> n" "n < 24" | "24 \<le> n" "n < 32"
    by fastforce
  then show "bit (le32 (ucast w) (ucast (drop_bit 8 w)) (ucast (drop_bit 16 w))
                    (ucast (drop_bit 24 w))) n = bit w n"
    by cases (auto simp: le32_def bit_simps bit_u8_high)
qed

lemma unat_u8_lt: "unat (b :: u8) < 256"
  using unsigned_less[of b] by simp

lemma unat_u16_lt: "unat (b :: u16) < 65536"
  using unsigned_less[of b] by simp

lemma unat_u32_lt: "unat (b :: u32) < 4294967296"
  using unsigned_less[of b] by simp

lemma unat_ucast_widen [simp]:
  "unat (ucast (b :: u8) :: u16) = unat b"
  "unat (ucast (b :: u8) :: u32) = unat b"
  "unat (ucast (h :: u16) :: u32) = unat h"
  using unat_u8_lt[of b] unat_u16_lt[of h]
  by (simp_all add: unsigned_ucast_eq take_bit_nat_eq_self)

lemma ucast_widen_eq_0 [simp]:
  "(ucast (b :: u8) :: u16) = 0 \<longleftrightarrow> b = 0"
  "(ucast (b :: u8) :: u32) = 0 \<longleftrightarrow> b = 0"
  "(ucast (h :: u16) :: u32) = 0 \<longleftrightarrow> h = 0"
  by (metis unat_eq_0 unat_ucast_widen)+

lemma be16_sum: "be16 hi lo = 256 * ucast hi + ucast lo"
proof -
  have "push_bit 8 (ucast hi) OR ucast lo = (push_bit 8 (ucast hi) + ucast lo :: u16)"
    by (rule disjunctive_add [symmetric]) (auto simp: bit_simps bit_u8_high)
  then show ?thesis by (simp add: be16_def push_bit_eq_mult mult.commute)
qed

lemma unat_be16: "unat (be16 hi lo) = 256 * unat hi + unat lo"
proof -
  have b: "256 * unat hi + unat lo < 2 ^ LENGTH(16)"
    using unat_u8_lt[of hi] unat_u8_lt[of lo] by simp
  have "unat (256 * ucast hi :: u16) = 256 * unat hi"
    using unat_u8_lt[of hi] by (simp add: unat_word_ariths)
  with b show ?thesis by (simp add: be16_sum unat_word_ariths)
qed

lemma unat_of_nat_u8 [simp]: "n < 256 \<Longrightarrow> unat (of_nat n :: u8) = n"
  by (simp add: unat_of_nat)

lemma unat_of_nat_u16 [simp]: "n < 65536 \<Longrightarrow> unat (of_nat n :: u16) = n"
  by (simp add: unat_of_nat)

lemma of_nat_u8_eq_0: "n < 256 \<Longrightarrow> (of_nat n :: u8) = 0 \<longleftrightarrow> n = 0"
  by (metis unat_of_nat_u8 unat_eq_0 of_nat_0)

lemma of_nat_u16_eq_0: "n < 65536 \<Longrightarrow> (of_nat n :: u16) = 0 \<longleftrightarrow> n = 0"
  by (metis unat_of_nat_u16 unat_eq_0 of_nat_0)

lemma and_ff_u8: "(w :: u8) AND 0xff = w"
proof -
  have e: "(0xff :: u8) = mask LENGTH(8)" by (simp add: mask_eq_exp_minus_1)
  show ?thesis unfolding e by (rule bit_word_eqI) (simp add: bit_simps)
qed

lemma u16_low_byte: "ucast ((w :: u16) AND 0xff) = (ucast w :: u8)"
  by (simp add: unsigned_and_eq and_ff_u8)

lemma u16_high_byte: "ucast (drop_bit 8 ((w :: u16) AND 0xff00)) = (ucast (drop_bit 8 w) :: u8)"
  by (simp add: unsigned_and_eq and_ff_u8)

lemma of_nat_low_byte: "ucast (of_nat n :: u16) = (of_nat n :: u8)"
  by (rule bit_word_eqI) (simp add: bit_simps)

lemma of_nat_high_byte: "ucast (drop_bit 8 (of_nat n :: u16)) = (of_nat (n div 256) :: u8)"
proof -
  have "n div 256 = drop_bit 8 n" by (simp add: drop_bit_eq_div)
  then show ?thesis by (intro bit_word_eqI) (simp add: bit_simps)
qed

end
