(* ===== verification/Fifo.thy ===== *)
theory Fifo
  imports FwPrelude
begin

text \<open>
  The ring buffers of \<^verbatim>\<open>targets/stm32l432/src/fifo.h\<close>, which carry the HID reports from the USB
  interrupt to the main loop (\<open>hidmsg\<close>, 100 slots of 64 bytes) and the debug output. The macro
  \<open>FIFO_CREATE(NAME,LENGTH,BYTES)\<close> is modelled once, with LENGTH and BYTES as arguments.
\<close>

subsection \<open>What a client of a bounded queue relies on\<close>

locale bounded_queue =
  fixes q_ok :: "'q \<Rightarrow> bool"
    and items :: "'q \<Rightarrow> 'a list"
    and item_ok :: "'a \<Rightarrow> bool"
    and capacity :: nat
    and enq :: "'q \<Rightarrow> 'a \<Rightarrow> int \<times> 'q"
    and deq :: "'q \<Rightarrow> int \<times> 'a \<times> 'q"
  assumes enq_room: "\<lbrakk>q_ok q; item_ok x; length (items q) < capacity; enq q x = (r, q')\<rbrakk>
            \<Longrightarrow> r = 0 \<and> q_ok q' \<and> items q' = items q @ [x]"
    and enq_full: "\<lbrakk>q_ok q; length (items q) = capacity; enq q x = (r, q')\<rbrakk>
            \<Longrightarrow> r = -1 \<and> q' = q"
    and deq_some: "\<lbrakk>q_ok q; items q = x # xs; deq q = (r, y, q')\<rbrakk>
            \<Longrightarrow> r = 0 \<and> y = x \<and> q_ok q' \<and> items q' = xs"
    and deq_none: "\<lbrakk>q_ok q; items q = []; deq q = (r, y, q')\<rbrakk> \<Longrightarrow> r = -1 \<and> q' = q"
    and q_bound: "q_ok q \<Longrightarrow> length (items q) \<le> capacity"
    and q_items: "q_ok q \<Longrightarrow> list_all item_ok (items q)"

primrec enq_list :: "('q \<Rightarrow> 'a \<Rightarrow> int \<times> 'q) \<Rightarrow> 'q \<Rightarrow> 'a list \<Rightarrow> int list \<times> 'q" where
  "enq_list enq q [] = ([], q)"
| "enq_list enq q (x # xs) =
     (let (r, q1) = enq q x; (rs, q2) = enq_list enq q1 xs in (r # rs, q2))"

primrec deq_list :: "('q \<Rightarrow> int \<times> 'a \<times> 'q) \<Rightarrow> nat \<Rightarrow> 'q \<Rightarrow> int list \<times> 'a list \<times> 'q" where
  "deq_list deq 0 q = ([], [], q)"
| "deq_list deq (Suc n) q =
     (let (r, x, q1) = deq q; (rs, xs, q2) = deq_list deq n q1 in (r # rs, x # xs, q2))"

context bounded_queue
begin

lemma enq_all:
  "\<lbrakk>q_ok q; list_all item_ok xs; length (items q) + length xs \<le> capacity;
    enq_list enq q xs = (rs, q')\<rbrakk>
   \<Longrightarrow> rs = replicate (length xs) 0 \<and> q_ok q' \<and> items q' = items q @ xs"
proof (induction xs arbitrary: q q' rs)
  case (Cons x xs)
  obtain r q1 where e: "enq q x = (r, q1)" by fastforce
  obtain rs1 q2 where f: "enq_list enq q1 xs = (rs1, q2)" by fastforce
  from enq_room[OF _ _ _ e] Cons.prems have "r = 0 \<and> q_ok q1 \<and> items q1 = items q @ [x]" by simp
  moreover from this Cons.IH[OF _ _ _ f] Cons.prems
  have "rs1 = replicate (length xs) 0 \<and> q_ok q2 \<and> items q2 = items q1 @ xs" by simp
  ultimately show ?case using Cons.prems e f by simp
qed simp

lemma deq_all:
  "\<lbrakk>q_ok q; items q = xs @ ys; deq_list deq (length xs) q = (rs, zs, q')\<rbrakk>
   \<Longrightarrow> rs = replicate (length xs) 0 \<and> zs = xs \<and> q_ok q' \<and> items q' = ys"
proof (induction xs arbitrary: q q' rs zs)
  case (Cons x xs)
  obtain r y q1 where e: "deq q = (r, y, q1)" by (metis prod_cases3)
  obtain rs1 zs1 q2 where f: "deq_list deq (length xs) q1 = (rs1, zs1, q2)" by (metis prod_cases3)
  from deq_some[OF _ _ e] Cons.prems have "r = 0 \<and> y = x \<and> q_ok q1 \<and> items q1 = xs @ ys" by simp
  moreover from this Cons.IH[OF _ _ f]
  have "rs1 = replicate (length xs) 0 \<and> zs1 = xs \<and> q_ok q2 \<and> items q2 = ys" by simp
  ultimately show ?case using Cons.prems e f by auto
qed simp

text \<open>First in, first out: what is put in comes out in the same order, after what was there.\<close>

lemma enq_then_deq:
  assumes "q_ok q" "list_all item_ok xs" "length (items q) + length xs \<le> capacity"
    and "enq_list enq q xs = (rs, q1)"
    and "deq_list deq (length (items q) + length xs) q1 = (ss, ys, q2)"
  shows "ys = items q @ xs \<and> q_ok q2 \<and> items q2 = []
         \<and> rs = replicate (length xs) 0 \<and> ss = replicate (length (items q) + length xs) 0"
  using enq_all[OF assms(1-4)] deq_all[of q1 "items q @ xs" "[]" ss ys q2] assms(5) by simp

end

subsection \<open>The ring buffer\<close>

record fifo =
  f_wptr :: nat
  f_rptr :: nat
  f_size :: nat
  f_buf  :: bytes

definition fifo_empty :: "nat \<Rightarrow> nat \<Rightarrow> fifo" where
  "fifo_empty LEN BYTES =
     \<lparr>f_wptr = 0, f_rptr = 0, f_size = 0, f_buf = replicate (BYTES * LEN) 0\<rparr>"

definition fifo_add :: "nat \<Rightarrow> nat \<Rightarrow> fifo \<Rightarrow> bytes \<Rightarrow> int \<times> fifo" where
  "fifo_add LEN BYTES q c =
     (if f_size q < LEN then
        let w = f_wptr q + 1 in
        (0, q\<lparr>f_buf := blit (f_buf q) (f_wptr q * BYTES) (take BYTES c),
              f_wptr := (if w \<ge> LEN then 0 else w),
              f_size := f_size q + 1\<rparr>)
      else (-1, q))"

text \<open>The take copies the slot at the read pointer out before it looks at the size, so the
  caller's buffer is overwritten (with stale bytes) also when the queue is empty.\<close>

definition fifo_take :: "nat \<Rightarrow> nat \<Rightarrow> fifo \<Rightarrow> int \<times> bytes \<times> fifo" where
  "fifo_take LEN BYTES q =
     (let c = block (f_buf q) (f_rptr q * BYTES) BYTES in
      if f_size q > 0 then
        let r = f_rptr q + 1 in
        (0, c, q\<lparr>f_rptr := (if r \<ge> LEN then 0 else r), f_size := f_size q - 1\<rparr>)
      else (-1, c, q))"

definition fifo_rhead :: "fifo \<Rightarrow> u32" where "fifo_rhead q = of_nat (f_rptr q)"
definition fifo_whead :: "fifo \<Rightarrow> u32" where "fifo_whead q = of_nat (f_wptr q)"
definition fifo_count :: "fifo \<Rightarrow> u32" where "fifo_count q = of_nat (f_size q)"

text \<open>The abstract content: the \<open>f_size\<close> slots from the read pointer on, around the ring.\<close>

definition fifo_slot :: "nat \<Rightarrow> fifo \<Rightarrow> nat \<Rightarrow> bytes" where
  "fifo_slot BYTES q i = block (f_buf q) (i * BYTES) BYTES"

definition fifo_items :: "nat \<Rightarrow> nat \<Rightarrow> fifo \<Rightarrow> bytes list" where
  "fifo_items LEN BYTES q =
     map (\<lambda>k. fifo_slot BYTES q ((f_rptr q + k) mod LEN)) [0..<f_size q]"

definition fifo_ok :: "nat \<Rightarrow> nat \<Rightarrow> fifo \<Rightarrow> bool" where
  "fifo_ok LEN BYTES q \<longleftrightarrow>
     f_size q \<le> LEN \<and> f_rptr q < LEN \<and> f_wptr q = (f_rptr q + f_size q) mod LEN
     \<and> length (f_buf q) = BYTES * LEN"

lemma slot_in_range: "i < LEN \<Longrightarrow> i * BYTES + BYTES \<le> BYTES * (LEN::nat)"
proof -
  assume "i < LEN"
  then have "Suc i * BYTES \<le> LEN * BYTES" by (intro mult_le_mono1) simp
  then show ?thesis by (simp add: ac_simps)
qed

lemma fifo_empty_ok: "0 < LEN \<Longrightarrow> fifo_ok LEN BYTES (fifo_empty LEN BYTES)"
  by (simp add: fifo_ok_def fifo_empty_def)

lemma fifo_empty_items [simp]: "fifo_items LEN BYTES (fifo_empty LEN BYTES) = []"
  by (simp add: fifo_items_def fifo_empty_def)

lemma length_fifo_items [simp]: "length (fifo_items LEN BYTES q) = f_size q"
  by (simp add: fifo_items_def)

lemma fifo_items_width:
  assumes "fifo_ok LEN BYTES q"
  shows "list_all (\<lambda>x. length x = BYTES) (fifo_items LEN BYTES q)"
proof -
  have "0 < LEN" using assms by (auto simp: fifo_ok_def)
  then have "\<And>k. length (fifo_slot BYTES q ((f_rptr q + k) mod LEN)) = BYTES"
    using assms by (simp add: fifo_slot_def fifo_ok_def slot_in_range)
  then show ?thesis by (simp add: fifo_items_def list_all_iff)
qed

lemma wrap_next: "i < (LEN::nat) \<Longrightarrow> (if i + 1 \<ge> LEN then 0 else i + 1) = (i + 1) mod LEN"
  by (metis Suc_eq_plus1 Suc_leI le_antisym linorder_not_le mod_less mod_self)

lemma ring_distinct:
  assumes "(r::nat) < L" "k < s" "s < L"
  shows "(r + k) mod L \<noteq> (r + s) mod L"
proof
  assume "(r + k) mod L = (r + s) mod L"
  then have "(r + s) mod L = (r + k) mod L" by simp
  then have "L dvd (r + s) - (r + k)" using assms by (subst (asm) mod_eq_dvd_iff_nat) simp_all
  then show False using assms by (auto dest: dvd_imp_le)
qed

lemma slot_blit_other:
  assumes "i < LEN" "j < LEN" "i \<noteq> j" "length b = BYTES * LEN" "length c = BYTES"
  shows "block (blit b (j * BYTES) c) (i * BYTES) BYTES = block b (i * BYTES) BYTES"
proof (rule block_blit_other)
  show "j * BYTES + length c \<le> length b" "i * BYTES + BYTES \<le> length b"
    using assms slot_in_range[of j LEN BYTES] slot_in_range[of i LEN BYTES] by simp_all
  show "i * BYTES + BYTES \<le> j * BYTES \<or> j * BYTES + length c \<le> i * BYTES"
    using assms slot_in_range[of i j BYTES] slot_in_range[of j i BYTES]
    by (cases "i < j") (auto simp: mult.commute)
qed

lemma fifo_add_room:
  assumes ok: "fifo_ok LEN BYTES q" and len: "length x = BYTES" and room: "f_size q < LEN"
    and step: "fifo_add LEN BYTES q x = (r, q')"
  shows "r = 0 \<and> fifo_ok LEN BYTES q' \<and> fifo_items LEN BYTES q' = fifo_items LEN BYTES q @ [x]"
proof -
  let ?w = "f_wptr q"
  have w: "?w < LEN" "?w = (f_rptr q + f_size q) mod LEN" and rd: "f_rptr q < LEN"
    and lb: "length (f_buf q) = BYTES * LEN"
    using ok room by (auto simp: fifo_ok_def)
  have fit: "?w * BYTES + length x \<le> length (f_buf q)" using w(1) len lb slot_in_range by simp
  have q': "q' = q\<lparr>f_buf := blit (f_buf q) (?w * BYTES) x, f_wptr := (?w + 1) mod LEN,
                   f_size := f_size q + 1\<rparr>" and r: "r = 0"
    using step room len w(1) wrap_next[OF w(1)] by (auto simp: fifo_add_def Let_def)
  have old: "fifo_slot BYTES q' ((f_rptr q + k) mod LEN) = fifo_slot BYTES q ((f_rptr q + k) mod LEN)"
    if "k < f_size q" for k
    unfolding fifo_slot_def q' using that rd room w lb len ring_distinct[OF rd that room]
    by (simp add: slot_blit_other[of _ LEN])
  have new: "fifo_slot BYTES q' ((f_rptr q + f_size q) mod LEN) = x"
    unfolding fifo_slot_def q' using w(2) fit len by (simp add: block_blit_same)
  have "fifo_items LEN BYTES q' = fifo_items LEN BYTES q @ [x]"
    using old new by (simp add: fifo_items_def q' map_eq_conv del: upt_Suc)
                     (simp add: fifo_slot_def)
  moreover have "fifo_ok LEN BYTES q'"
    using ok room fit w by (simp add: fifo_ok_def q' mod_Suc_eq)
  ultimately show ?thesis using r by simp
qed

lemma fifo_add_full:
  "\<lbrakk>f_size q = LEN; fifo_add LEN BYTES q x = (r, q')\<rbrakk> \<Longrightarrow> r = -1 \<and> q' = q"
  by (simp add: fifo_add_def)

lemma fifo_take_some:
  assumes ok: "fifo_ok LEN BYTES q" and it: "fifo_items LEN BYTES q = x # xs"
    and step: "fifo_take LEN BYTES q = (r, y, q')"
  shows "r = 0 \<and> y = x \<and> fifo_ok LEN BYTES q' \<and> fifo_items LEN BYTES q' = xs"
proof -
  have s: "f_size q = Suc (length xs)" using it length_fifo_items[of LEN BYTES q] by simp
  have rd: "f_rptr q < LEN" using ok by (simp add: fifo_ok_def)
  have q': "q' = q\<lparr>f_rptr := (f_rptr q + 1) mod LEN, f_size := length xs\<rparr>" and r: "r = 0"
    and y: "y = fifo_slot BYTES q (f_rptr q)"
    using step s wrap_next[OF rd] by (auto simp: fifo_take_def fifo_slot_def Let_def)
  have "fifo_items LEN BYTES q =
          fifo_slot BYTES q (f_rptr q) #
          map (\<lambda>k. fifo_slot BYTES q ((f_rptr q + Suc k) mod LEN)) [0..<length xs]"
    using rd by (simp add: fifo_items_def s upt_conv_Cons map_Suc_upt[symmetric] comp_def
        del: upt_Suc)
  moreover have "fifo_items LEN BYTES q' =
          map (\<lambda>k. fifo_slot BYTES q ((f_rptr q + Suc k) mod LEN)) [0..<length xs]"
    by (simp add: fifo_items_def q' fifo_slot_def mod_add_left_eq)
  ultimately have "y = x" "fifo_items LEN BYTES q' = xs" using it y by simp_all
  moreover have "fifo_ok LEN BYTES q'"
    using ok s by (simp add: fifo_ok_def q' mod_add_left_eq)
  ultimately show ?thesis using r by simp
qed

lemma fifo_take_none:
  "\<lbrakk>fifo_items LEN BYTES q = []; fifo_take LEN BYTES q = (r, y, q')\<rbrakk> \<Longrightarrow> r = -1 \<and> q' = q"
  by (auto simp: fifo_take_def fifo_items_def)

lemma fifo_queue_laws:
  "bounded_queue (fifo_ok LEN BYTES) (fifo_items LEN BYTES) (\<lambda>x. length x = BYTES) LEN
     (fifo_add LEN BYTES) (fifo_take LEN BYTES)"
proof
  fix q x r q' y xs
  assume ok: "fifo_ok LEN BYTES q"
  show "r = 0 \<and> fifo_ok LEN BYTES q' \<and> fifo_items LEN BYTES q' = fifo_items LEN BYTES q @ [x]"
    if "length x = BYTES" "length (fifo_items LEN BYTES q) < LEN" "fifo_add LEN BYTES q x = (r, q')"
    using fifo_add_room[OF ok] that by simp
  show "r = -1 \<and> q' = q"
    if "length (fifo_items LEN BYTES q) = LEN" "fifo_add LEN BYTES q x = (r, q')"
    using fifo_add_full that by simp
  show "r = 0 \<and> y = x \<and> fifo_ok LEN BYTES q' \<and> fifo_items LEN BYTES q' = xs"
    if "fifo_items LEN BYTES q = x # xs" "fifo_take LEN BYTES q = (r, y, q')"
    by (rule fifo_take_some[OF ok that])
  show "r = -1 \<and> q' = q"
    if "fifo_items LEN BYTES q = []" "fifo_take LEN BYTES q = (r, y, q')"
    by (rule fifo_take_none[OF that])
  show "length (fifo_items LEN BYTES q) \<le> LEN" using ok by (simp add: fifo_ok_def)
  show "list_all (\<lambda>x. length x = BYTES) (fifo_items LEN BYTES q)" by (rule fifo_items_width[OF ok])
qed

text \<open>The three queues the firmware creates.\<close>

interpretation hidmsg: bounded_queue "fifo_ok 100 64" "fifo_items 100 64" "\<lambda>x. length x = 64" 100
  "fifo_add 100 64" "fifo_take 100 64"
  by (rule fifo_queue_laws)

interpretation debugq: bounded_queue "fifo_ok 4096 1" "fifo_items 4096 1" "\<lambda>x. length x = 1" 4096
  "fifo_add 4096 1" "fifo_take 4096 1"
  by (rule fifo_queue_laws)

interpretation testq: bounded_queue "fifo_ok 10 100" "fifo_items 10 100" "\<lambda>x. length x = 100" 10
  "fifo_add 10 100" "fifo_take 10 100"
  by (rule fifo_queue_laws)


subsection \<open>A take that is interrupted\<close>

text \<open>The USB interrupt adds reports at any moment, and the main loop does not mask it while it takes one. What it adds between the steps of
  a take: after the caller's test of the size, after the copy of the slot, after the read pointer moved, and between the load and the store of
  \<open>SIZE --\<close>. (The copy itself is one step: an add writes to another slot, or finds the buffer full.)\<close>

record take_irq =
  ti_checked :: "bytes list"
  ti_copied :: "bytes list"
  ti_moved :: "bytes list"
  ti_torn :: "bytes list"

definition no_irq :: take_irq where
  "no_irq = \<lparr>ti_checked = [], ti_copied = [], ti_moved = [], ti_torn = []\<rparr>"

definition fifo_adds :: "nat \<Rightarrow> nat \<Rightarrow> bytes list \<Rightarrow> fifo \<Rightarrow> fifo" where
  "fifo_adds LEN BYTES ps q = fold (\<lambda>p q. snd (fifo_add LEN BYTES q p)) ps q"

definition fifo_take_irq :: "nat \<Rightarrow> nat \<Rightarrow> take_irq \<Rightarrow> fifo \<Rightarrow> int \<times> bytes \<times> fifo" where
  "fifo_take_irq LEN BYTES i q =
     (let c = block (f_buf q) (f_rptr q * BYTES) BYTES;
          q = fifo_adds LEN BYTES (ti_copied i) q in
      if f_size q > 0 then
        let r = f_rptr q + 1;
            q = fifo_adds LEN BYTES (ti_moved i) (q\<lparr>f_rptr := (if r \<ge> LEN then 0 else r)\<rparr>);
            loaded = f_size q;
            q = fifo_adds LEN BYTES (ti_torn i) q in
        (0, c, q\<lparr>f_size := loaded - 1\<rparr>)
      else (-1, c, q))"

lemma fifo_adds_simps [simp]:
  "fifo_adds LEN BYTES [] q = q"
  "fifo_adds LEN BYTES (p # ps) q = fifo_adds LEN BYTES ps (snd (fifo_add LEN BYTES q p))"
  "fifo_adds LEN BYTES (ps @ ps') q = fifo_adds LEN BYTES ps' (fifo_adds LEN BYTES ps q)"
  by (simp_all add: fifo_adds_def)

lemma take_undisturbed: "fifo_take_irq LEN BYTES no_irq q = fifo_take LEN BYTES q"
  by (simp add: fifo_take_irq_def fifo_take_def no_irq_def Let_def)

text \<open>The adds on the content.\<close>

primrec add_all :: "nat \<Rightarrow> 'a list \<Rightarrow> 'a list \<Rightarrow> 'a list" where
  "add_all n [] xs = xs"
| "add_all n (p # ps) xs = add_all n ps (if length xs < n then xs @ [p] else xs)"

lemma add_all_head: "\<exists>ys. add_all n ps (x # xs) = x # ys"
proof (induction ps arbitrary: xs)
  case (Cons p ps)
  show ?case using Cons[of "xs @ [p]"] Cons[of xs] by simp
qed simp

lemma add_all_room: "length xs + length ps \<le> n \<Longrightarrow> add_all n ps xs = xs @ ps"
  by (induction ps arbitrary: xs) simp_all

lemma add_all_append [simp]: "add_all n (ps @ ps') xs = add_all n ps' (add_all n ps xs)"
  by (induction ps arbitrary: xs) simp_all

lemma adds_items:
  "fifo_ok LEN BYTES q \<Longrightarrow> list_all (\<lambda>p. length p = BYTES) ps
   \<Longrightarrow> fifo_ok LEN BYTES (fifo_adds LEN BYTES ps q) \<and> fifo_items LEN BYTES (fifo_adds LEN BYTES ps q) = add_all LEN ps (fifo_items LEN BYTES q)"
proof (induction ps arbitrary: q)
  case (Cons p ps)
  obtain r q' where e: "fifo_add LEN BYTES q p = (r, q')" by fastforce
  have "fifo_ok LEN BYTES q' \<and> fifo_items LEN BYTES q' = (if f_size q < LEN then fifo_items LEN BYTES q @ [p] else fifo_items LEN BYTES q)"
  proof (cases "f_size q < LEN")
    case True
    then show ?thesis using fifo_add_room[OF Cons.prems(1) _ True e] Cons.prems(2) by simp
  next
    case False
    then have "f_size q = LEN" using Cons.prems(1) by (simp add: fifo_ok_def)
    then show ?thesis using fifo_add_full[OF _ e] Cons.prems(1) by simp
  qed
  then show ?case using Cons.IH[of q'] Cons.prems(2) by (simp add: e)
qed simp

lemma adds_rptr:
  "fifo_adds LEN BYTES ps (q\<lparr>f_rptr := r\<rparr>) = (fifo_adds LEN BYTES ps q)\<lparr>f_rptr := r\<rparr>"
  "f_rptr (fifo_adds LEN BYTES ps q) = f_rptr q"
proof -
  have a: "snd (fifo_add LEN BYTES (q\<lparr>f_rptr := r\<rparr>) p) = (snd (fifo_add LEN BYTES q p))\<lparr>f_rptr := r\<rparr>" for q p
    by (cases q) (simp add: fifo_add_def Let_def)
  show "fifo_adds LEN BYTES ps (q\<lparr>f_rptr := r\<rparr>) = (fifo_adds LEN BYTES ps q)\<lparr>f_rptr := r\<rparr>"
    by (induction ps arbitrary: q) (simp_all add: a)
  have b: "f_rptr (snd (fifo_add LEN BYTES q p)) = f_rptr q" for q p by (simp add: fifo_add_def Let_def)
  show "f_rptr (fifo_adds LEN BYTES ps q) = f_rptr q" by (induction ps arbitrary: q) (simp_all add: b)
qed

text \<open>Outside the window in the decrement the interrupts do no harm: the take is one that comes after them.\<close>

lemma take_untorn:
  assumes ok: "fifo_ok LEN BYTES q" and it: "fifo_items LEN BYTES q = x # xs" and n: "ti_torn i = []"
    and len: "list_all (\<lambda>p. length p = BYTES) (ti_copied i @ ti_moved i)"
  obtains q' where "fifo_take_irq LEN BYTES i q = (0, x, q')" "fifo_ok LEN BYTES q'"
    "fifo_items LEN BYTES q' = tl (add_all LEN (ti_copied i @ ti_moved i) (x # xs))"
proof -
  define ps where "ps = ti_copied i @ ti_moved i"
  define Q where "Q = fifo_adds LEN BYTES ps q"
  have Q: "fifo_ok LEN BYTES Q" "fifo_items LEN BYTES Q = add_all LEN ps (x # xs)"
    using adds_items[OF ok len] it by (simp_all add: Q_def ps_def)
  obtain ys where ys: "add_all LEN ps (x # xs) = x # ys" using add_all_head[of LEN ps x xs] by blast
  obtain r y q' where e: "fifo_take LEN BYTES Q = (r, y, q')" by (metis prod_cases3)
  note t = fifo_take_some[OF Q(1) Q(2)[unfolded ys] e]
  have l: "list_all (\<lambda>p. length p = BYTES) (ti_copied i)" using len by simp
  obtain zs where "add_all LEN (ti_copied i) (x # xs) = x # zs" using add_all_head[of LEN "ti_copied i" x xs] by blast
  then have s: "0 < f_size (fifo_adds LEN BYTES (ti_copied i) q)"
    using adds_items[OF ok l] it length_fifo_items[of LEN BYTES "fifo_adds LEN BYTES (ti_copied i) q"] by simp
  have rd: "f_rptr q < LEN" using ok by (simp add: fifo_ok_def)
  have sq: "f_size q = Suc (length xs)" using it length_fifo_items[of LEN BYTES q] by simp
  have "fifo_items LEN BYTES q = fifo_slot BYTES q (f_rptr q) # map (\<lambda>k. fifo_slot BYTES q ((f_rptr q + Suc k) mod LEN)) [0..<length xs]"
    using rd by (simp add: fifo_items_def sq upt_conv_Cons map_Suc_upt[symmetric] comp_def del: upt_Suc)
  then have c: "block (f_buf q) (f_rptr q * BYTES) BYTES = x" using it by (simp add: fifo_slot_def)
  have "0 < f_size Q" using Q(2) ys length_fifo_items[of LEN BYTES Q] by simp
  then have "q' = Q\<lparr>f_rptr := (if f_rptr q + 1 \<ge> LEN then 0 else f_rptr q + 1), f_size := f_size Q - 1\<rparr>"
    using e by (auto simp: fifo_take_def Let_def Q_def adds_rptr)
  then have "fifo_take_irq LEN BYTES i q = (0, x, q')"
    using s c by (simp add: fifo_take_irq_def n Let_def adds_rptr Q_def ps_def)
  then show thesis using that t ys by (simp add: ps_def)
qed

text \<open>Inside it one report is taken off the count without having been taken: what the queue shows lags behind by one report.\<close>

definition lagging :: "fifo \<Rightarrow> fifo" where
  "lagging q = q\<lparr>f_size := f_size q - 1\<rparr>"

lemma lagging_items: "fifo_items LEN BYTES (lagging q) = butlast (fifo_items LEN BYTES q)"
proof (cases "f_size q")
  case (Suc n)
  have "butlast (map f [0..<Suc n]) = map f [0..<n]" for f :: "nat \<Rightarrow> bytes" by (simp add: butlast_append)
  then show ?thesis unfolding fifo_items_def lagging_def Suc by (simp add: fifo_slot_def)
qed (simp add: fifo_items_def lagging_def)

lemma torn_take:
  assumes ok: "fifo_ok LEN BYTES q" and it: "fifo_items LEN BYTES q = x # xs" and room: "length xs + 1 < LEN" and len: "length p = BYTES"
  obtains q' where "fifo_take_irq LEN BYTES (no_irq\<lparr>ti_torn := [p]\<rparr>) q = (0, x, lagging q')" "fifo_ok LEN BYTES q'"
    "fifo_items LEN BYTES q' = xs @ [p]" "fifo_items LEN BYTES (lagging q') = xs"
proof -
  have sq: "f_size q = Suc (length xs)" using it length_fifo_items[of LEN BYTES q] by simp
  obtain q' where q': "fifo_take_irq LEN BYTES (no_irq\<lparr>ti_moved := [p]\<rparr>) q = (0, x, q')" "fifo_ok LEN BYTES q'"
      "fifo_items LEN BYTES q' = xs @ [p]"
    by (rule take_untorn[OF ok it, of "no_irq\<lparr>ti_moved := [p]\<rparr>"]) (use len room in \<open>auto simp: no_irq_def\<close>)
  have "fifo_take_irq LEN BYTES (no_irq\<lparr>ti_torn := [p]\<rparr>) q = (0, x, lagging q')"
    using q'(1) sq room by (auto simp: fifo_take_irq_def no_irq_def lagging_def Let_def fifo_add_def)
  then show thesis using that q'(2,3) lagging_items[of LEN BYTES q'] by simp
qed

text \<open>The next report that arrives shows the hidden one, and is hidden itself.\<close>

lemma lagging_add:
  assumes "fifo_ok LEN BYTES q" "fifo_items LEN BYTES q \<noteq> []" "f_size q < LEN" "length p = BYTES"
  shows "fifo_items LEN BYTES (snd (fifo_add LEN BYTES (lagging q) p)) = fifo_items LEN BYTES q"
proof -
  obtain r q' where e: "fifo_add LEN BYTES q p = (r, q')" by fastforce
  have "0 < f_size q" using assms(2) length_fifo_items[of LEN BYTES q] by (cases "f_size q") (simp_all add: fifo_items_def)
  then have "snd (fifo_add LEN BYTES (lagging q) p) = lagging q'"
    using e assms(3) by (auto simp: fifo_add_def lagging_def Let_def)
  then show ?thesis using fifo_add_room[OF assms(1,4,3) e] by (simp add: lagging_items)
qed

text \<open>What holds of the buffer whatever the interrupts do: both pointers stay inside, so every message taken is a slot of it.\<close>

definition ring_ok :: "nat \<Rightarrow> nat \<Rightarrow> fifo \<Rightarrow> bool" where
  "ring_ok LEN BYTES q \<longleftrightarrow> f_rptr q < LEN \<and> f_wptr q < LEN \<and> length (f_buf q) = BYTES * LEN"

lemma fifo_ok_ring: "fifo_ok LEN BYTES q \<Longrightarrow> ring_ok LEN BYTES q"
  by (auto simp: fifo_ok_def ring_ok_def)

lemma ring_slot: "ring_ok LEN BYTES q \<Longrightarrow> length (block (f_buf q) (f_rptr q * BYTES) BYTES) = BYTES"
  using slot_in_range[of "f_rptr q" LEN BYTES] by (simp add: ring_ok_def)

lemma ring_adds: "ring_ok LEN BYTES q \<Longrightarrow> ring_ok LEN BYTES (fifo_adds LEN BYTES ps q)"
proof (induction ps arbitrary: q)
  case (Cons p ps)
  have "f_wptr q * BYTES + length (take BYTES p) \<le> length (f_buf q)"
    using Cons.prems slot_in_range[of "f_wptr q" LEN BYTES] by (simp add: ring_ok_def)
  then have "ring_ok LEN BYTES (snd (fifo_add LEN BYTES q p))" using Cons.prems by (simp add: ring_ok_def fifo_add_def Let_def)
  then show ?case using Cons.IH by simp
qed simp

lemma ring_take: "ring_ok LEN BYTES q \<Longrightarrow> fifo_take_irq LEN BYTES i q = (r, c, q') \<Longrightarrow> length c = BYTES \<and> ring_ok LEN BYTES q'"
proof -
  assume q: "ring_ok LEN BYTES q" and e: "fifo_take_irq LEN BYTES i q = (r, c, q')"
  have u: "ring_ok LEN BYTES (x\<lparr>f_size := n\<rparr>) = ring_ok LEN BYTES x" for x n by (simp add: ring_ok_def)
  have v: "ring_ok LEN BYTES x \<Longrightarrow> ring_ok LEN BYTES (x\<lparr>f_rptr := if Suc (f_rptr x) \<ge> LEN then 0 else Suc (f_rptr x)\<rparr>)" for x
    by (auto simp: ring_ok_def)
  define x where "x = fifo_adds LEN BYTES (ti_copied i) q"
  have x: "ring_ok LEN BYTES x" using q by (simp add: x_def ring_adds)
  have "f_rptr x = f_rptr q" by (simp add: x_def adds_rptr)
  then have "ring_ok LEN BYTES q'"
    using e x ring_adds[OF ring_adds[OF v[OF x], of "ti_moved i"], of "ti_torn i"]
    by (auto simp: fifo_take_irq_def Let_def u x_def[symmetric] split: if_splits)
  moreover have "c = block (f_buf q) (f_rptr q * BYTES) BYTES" using e by (auto simp: fifo_take_irq_def Let_def split: if_splits)
  ultimately show "length c = BYTES \<and> ring_ok LEN BYTES q'" using ring_slot[OF q] by simp
qed


subsection \<open>The self test of fifo.c\<close>

text \<open>\<open>fifo_test\<close> fills a queue of ten 100-byte slots, empties it comparing every element, fills
  it again (the pointers having wrapped), checks that an eleventh element is refused, empties it
  again and checks that a further take fails. None stands for the \<open>fail\<close> label, an endless loop.\<close>

primrec fifo_test_add_loop :: "fifo \<Rightarrow> bytes list \<Rightarrow> fifo option" where
  "fifo_test_add_loop q [] = Some q"
| "fifo_test_add_loop q (d # ds) =
     (let (ret, q') = fifo_add 10 100 q d in
      if ret \<noteq> 0 then None else fifo_test_add_loop q' ds)"

primrec fifo_test_take_loop :: "fifo \<Rightarrow> bytes list \<Rightarrow> fifo option" where
  "fifo_test_take_loop q [] = Some q"
| "fifo_test_take_loop q (d # ds) =
     (let (ret, v, q') = fifo_take 10 100 q in
      if ret \<noteq> 0 then None else if v \<noteq> d then None else fifo_test_take_loop q' ds)"

definition fifo_test_data :: "bytes list" where
  "fifo_test_data = map (\<lambda>i. replicate 100 (of_nat i)) [0..<10]"

definition fifo_test :: "fifo \<Rightarrow> fifo option" where
  "fifo_test q0 =
     (case fifo_test_add_loop q0 fifo_test_data of None \<Rightarrow> None | Some q1 \<Rightarrow>
      case fifo_test_take_loop q1 fifo_test_data of None \<Rightarrow> None | Some q2 \<Rightarrow>
      case fifo_test_add_loop q2 fifo_test_data of None \<Rightarrow> None | Some q3 \<Rightarrow>
      let (ret, q4) = fifo_add 10 100 q3 (hd fifo_test_data) in
      if ret = 0 then None else
      case fifo_test_take_loop q4 fifo_test_data of None \<Rightarrow> None | Some q5 \<Rightarrow>
      let (ret, v, q6) = fifo_take 10 100 q5 in
      if ret = 0 then None else Some q6)"

lemma test_add_loop_ok:
  "\<lbrakk>fifo_ok 10 100 q; list_all (\<lambda>x. length x = 100) ds; f_size q + length ds \<le> 10\<rbrakk>
   \<Longrightarrow> \<exists>q'. fifo_test_add_loop q ds = Some q' \<and> fifo_ok 10 100 q'
          \<and> fifo_items 10 100 q' = fifo_items 10 100 q @ ds"
proof (induction ds arbitrary: q)
  case (Cons d ds)
  obtain r q1 where e: "fifo_add 10 100 q d = (r, q1)" by fastforce
  with testq.enq_room[OF _ _ _ e] Cons.prems
  have h: "r = 0" "fifo_ok 10 100 q1" "fifo_items 10 100 q1 = fifo_items 10 100 q @ [d]" by simp_all
  then have "f_size q1 = f_size q + 1" using length_fifo_items by (metis length_append_singleton Suc_eq_plus1)
  with Cons.IH[of q1] Cons.prems h show ?case by (simp add: e)
qed simp

lemma test_take_loop_ok:
  "\<lbrakk>fifo_ok 10 100 q; fifo_items 10 100 q = ds\<rbrakk>
   \<Longrightarrow> \<exists>q'. fifo_test_take_loop q ds = Some q' \<and> fifo_ok 10 100 q' \<and> fifo_items 10 100 q' = []"
proof (induction ds arbitrary: q)
  case (Cons d ds)
  obtain r y q1 where e: "fifo_take 10 100 q = (r, y, q1)" by (metis prod_cases3)
  with testq.deq_some[OF _ _ e] Cons.prems Cons.IH[of q1] show ?case by (simp add: e)
qed simp

text \<open>The self test passes whatever wrap position it starts from.\<close>

lemma fifo_self_test:
  assumes ok: "fifo_ok 10 100 q0" and empty: "fifo_items 10 100 q0 = []"
  shows "\<exists>q. fifo_test q0 = Some q \<and> fifo_items 10 100 q = []"
proof -
  let ?D = "fifo_test_data"
  have D: "list_all (\<lambda>x. length x = 100) ?D" "length ?D = 10"
    by (simp_all add: fifo_test_data_def list_all_iff)
  have s0: "f_size q0 = 0" using empty length_fifo_items[of 10 100 q0] by simp
  obtain q1 where 1: "fifo_test_add_loop q0 ?D = Some q1" "fifo_ok 10 100 q1" "fifo_items 10 100 q1 = ?D"
    using test_add_loop_ok[OF ok D(1)] s0 D(2) empty by auto
  obtain q2 where 2: "fifo_test_take_loop q1 ?D = Some q2" "fifo_ok 10 100 q2" "fifo_items 10 100 q2 = []"
    using test_take_loop_ok[OF 1(2,3)] by blast
  have s2: "f_size q2 = 0" using 2(3) length_fifo_items[of 10 100 q2] by simp
  obtain q3 where 3: "fifo_test_add_loop q2 ?D = Some q3" "fifo_ok 10 100 q3" "fifo_items 10 100 q3 = ?D"
    using test_add_loop_ok[OF 2(2) D(1)] s2 D(2) 2(3) by auto
  have s3: "f_size q3 = 10" using 3(3) length_fifo_items[of 10 100 q3] D(2) by simp
  obtain q4 where 4: "fifo_test_take_loop q3 ?D = Some q4" "fifo_ok 10 100 q4" "fifo_items 10 100 q4 = []"
    using test_take_loop_ok[OF 3(2,3)] by blast
  have s4: "f_size q4 = 0" using 4(3) length_fifo_items[of 10 100 q4] by simp
  show ?thesis using s3 s4 4(3)
    by (simp add: fifo_test_def 1 2 3 4 fifo_add_def fifo_take_def)
qed

end
