(* ===== verification/Apdu.thy ===== *)
theory Apdu
  imports FwPrelude
begin

text \<open>
  \<^verbatim>\<open>fido2/apdu.c\<close>: the ISO 7816-4 command decoder used by the NFC transport and by U2F over
  HID. The buffer is the memory the \<open>data\<close> pointer addresses (at least the seven bytes of an
  extended header are readable whatever \<open>len\<close> says), \<open>len\<close> the number of bytes received, and the
  decoded \<open>data\<close> pointer an offset into that buffer, None for NULL.
\<close>

definition SW_SUCCESS :: u16 where "SW_SUCCESS = 0x9000"
definition SW_GET_RESPONSE :: u16 where "SW_GET_RESPONSE = 0x6100"
definition SW_WRONG_LENGTH :: u16 where "SW_WRONG_LENGTH = 0x6700"
definition SW_COND_USE_NOT_SATISFIED :: u16 where "SW_COND_USE_NOT_SATISFIED = 0x6985"
definition SW_FILE_NOT_FOUND :: u16 where "SW_FILE_NOT_FOUND = 0x6a82"
definition SW_INCORRECT_P1P2 :: u16 where "SW_INCORRECT_P1P2 = 0x6a86"
definition SW_INS_INVALID :: u16 where "SW_INS_INVALID = 0x6d00"
definition SW_CLA_INVALID :: u16 where "SW_CLA_INVALID = 0x6e00"
definition SW_INTERNAL_EXCEPTION :: u16 where "SW_INTERNAL_EXCEPTION = 0x6f00"

lemmas sw_defs = SW_SUCCESS_def SW_GET_RESPONSE_def SW_WRONG_LENGTH_def
  SW_COND_USE_NOT_SATISFIED_def SW_FILE_NOT_FOUND_def SW_INCORRECT_P1P2_def SW_INS_INVALID_def
  SW_CLA_INVALID_def SW_INTERNAL_EXCEPTION_def

record apdu_struct =
  a_cla :: u8
  a_ins :: u8
  a_p1 :: u8
  a_p2 :: u8
  a_lc :: u16
  a_data :: "nat option"
  a_le :: u32
  a_ext :: bool
  a_case :: u8

text \<open>The four steps of the decoder: the header, the short cases, the extended cases, the data
  pointer. Several of the \<open>if\<close>s of one group can fire in turn, as in the C code.\<close>

definition apdu_header :: "bytes \<Rightarrow> apdu_struct" where
  "apdu_header d =
     \<lparr>a_cla = d ! 0 AND 0xef, a_ins = d ! 1, a_p1 = d ! 2, a_p2 = d ! 3,
      a_lc = 0, a_data = None, a_le = 0, a_ext = False, a_case = 0\<rparr>"

definition le_or :: "u32 \<Rightarrow> u32 \<Rightarrow> u32" where
  "le_or full le = (if le = 0 then full else le)"

definition apdu_short :: "bytes \<Rightarrow> nat \<Rightarrow> apdu_struct \<Rightarrow> apdu_struct" where
  "apdu_short d len a =
     (let b0 = unat (d ! 4);
          a = (if len = 4 then a\<lparr>a_case := 0x01\<rparr> else a);
          a = (if len = 5 then a\<lparr>a_case := 0x02, a_le := le_or 0x100 (ucast (d ! 4))\<rparr> else a);
          a = (if len = 5 + b0 \<and> b0 \<noteq> 0 then a\<lparr>a_case := 0x03, a_lc := ucast (d ! 4)\<rparr> else a);
          a = (if len = 5 + b0 + 1 \<and> b0 \<noteq> 0
               then a\<lparr>a_case := 0x04, a_lc := ucast (d ! 4),
                      a_le := le_or 0x100 (ucast (d ! (len - 1)))\<rparr> else a)
      in a)"

definition apdu_ext :: "bytes \<Rightarrow> nat \<Rightarrow> u16 \<Rightarrow> apdu_struct \<Rightarrow> apdu_struct" where
  "apdu_ext d len extlen a =
     (let n = unat extlen;
          le2 = le_or 0x10000 (ucast (be16 (d ! (len - 2)) (d ! (len - 1))));
          a = (if len = 7
               then a\<lparr>a_case := 0x12, a_ext := True, a_le := le_or 0x10000 (ucast extlen)\<rparr> else a);
          a = (if len = 7 + n then a\<lparr>a_case := 0x13, a_ext := True, a_lc := extlen\<rparr> else a);
          a = (if len = 7 + n + 2
               then a\<lparr>a_case := 0x14, a_ext := True, a_lc := extlen, a_le := le2\<rparr> else a);
          a = (if len = 7 + n + 3 \<and> d ! (len - 3) = 0
               then a\<lparr>a_case := 0x24, a_ext := True, a_lc := extlen, a_le := le2\<rparr> else a)
      in a)"

definition apdu_finish :: "apdu_struct \<Rightarrow> u16 \<times> apdu_struct" where
  "apdu_finish a =
     (if a_case a = 0 then (SW_COND_USE_NOT_SATISFIED, a)
      else if a_lc a \<noteq> 0 then (0, a\<lparr>a_data := Some (if a_ext a then 7 else 5)\<rparr>)
      else (0, a))"

definition apdu_decode :: "bytes \<Rightarrow> nat \<Rightarrow> u16 \<times> apdu_struct" where
  "apdu_decode d len =
     (let a = apdu_short d len (apdu_header d);
          b0 = d ! 4 in
      if len \<ge> 7 \<and> b0 = 0 then
        let extlen = be16 (d ! 5) (d ! 6) in
        if len - 7 < unat extlen then (SW_WRONG_LENGTH, a)
        else apdu_finish (apdu_ext d len extlen a)
      else if len > 5 \<and> len - 5 < unat b0 then (SW_WRONG_LENGTH, a)
      else apdu_finish a)"

text \<open>An encoder for the well-formed commands, written from the standard: a class without the
  chaining bit, a body and an optional Le (0 stands for the maximum, 256 or 65536).\<close>

definition encode_short :: "u8 \<Rightarrow> u8 \<Rightarrow> u8 \<Rightarrow> u8 \<Rightarrow> bytes \<Rightarrow> u8 option \<Rightarrow> bytes" where
  "encode_short cla ins p1 p2 body le =
     [cla, ins, p1, p2] @ (if body = [] then [] else of_nat (length body) # body)
     @ (case le of None \<Rightarrow> [] | Some b \<Rightarrow> [b])"

datatype ext_le = No_Le | Le2 u16 | Le3 u16

definition ext_le_bytes :: "ext_le \<Rightarrow> bytes" where
  "ext_le_bytes le = (case le of No_Le \<Rightarrow> []
     | Le2 w \<Rightarrow> [ucast (drop_bit 8 w), ucast w]
     | Le3 w \<Rightarrow> [0, ucast (drop_bit 8 w), ucast w])"

definition encode_ext :: "u8 \<Rightarrow> u8 \<Rightarrow> u8 \<Rightarrow> u8 \<Rightarrow> bytes \<Rightarrow> ext_le \<Rightarrow> bytes" where
  "encode_ext cla ins p1 p2 body le =
     (let n = (of_nat (length body) :: u16) in
      [cla, ins, p1, p2, 0, ucast (drop_bit 8 n), ucast n] @ body @ ext_le_bytes le)"

definition ext_le_value :: "ext_le \<Rightarrow> u32" where
  "ext_le_value le = (case le of No_Le \<Rightarrow> 0 | Le2 w \<Rightarrow> le_or 0x10000 (ucast w)
     | Le3 w \<Rightarrow> le_or 0x10000 (ucast w))"

definition ext_case :: "ext_le \<Rightarrow> u8" where
  "ext_case le = (case le of No_Le \<Rightarrow> 0x13 | Le2 _ \<Rightarrow> 0x14 | Le3 _ \<Rightarrow> 0x24)"

definition short_case :: "bytes \<Rightarrow> u8 option \<Rightarrow> u8" where
  "short_case body le =
     (if body = [] then (if le = None then 1 else 2) else (if le = None then 3 else 4))"

lemmas apdu_defs = apdu_decode_def apdu_header_def apdu_short_def apdu_ext_def apdu_finish_def
  le_or_def Let_def

subsection \<open>What the decoder guarantees\<close>

lemma apdu_finish_lc:
  "apdu_finish a = (0, a') \<Longrightarrow> a_lc a' = a_lc a \<and> a_ext a' = a_ext a \<and> a_le a' = a_le a
     \<and> a_case a' = a_case a
     \<and> (a_lc a \<noteq> 0 \<longrightarrow> a_data a' = Some (if a_ext a then 7 else 5))
     \<and> (a_lc a = 0 \<longrightarrow> a_data a' = a_data a)"
  by (auto simp: apdu_finish_def SW_COND_USE_NOT_SATISFIED_def split: if_splits)

lemma apdu_short_lc:
  assumes "a_lc a = 0" "a_ext a = False" "a_data a = None" "unat (a_le a) \<le> 65536"
  shows "5 + unat (a_lc (apdu_short d len a)) \<le> len \<or> a_lc (apdu_short d len a) = 0"
    and "a_ext (apdu_short d len a) = False" "a_data (apdu_short d len a) = None"
    and "unat (a_le (apdu_short d len a)) \<le> 65536"
    and "len \<ge> 7 \<Longrightarrow> d ! 4 = 0 \<Longrightarrow> apdu_short d len a = a"
  using assms unat_u8_lt[of "d ! 4"] unat_u8_lt[of "d ! (len - 1)"]
  by (auto simp: apdu_short_def Let_def le_or_def unat_eq_0)

lemma apdu_ext_lc:
  assumes "a_lc a = 0" "a_ext a = False" "a_data a = None" "a_le a = 0" "a_case a = 0" "len \<ge> 7"
  shows "a_case (apdu_ext d len n a) = 0 \<or> a_ext (apdu_ext d len n a)"
    and "7 + unat (a_lc (apdu_ext d len n a)) \<le> len \<or> a_lc (apdu_ext d len n a) = 0"
    and "a_data (apdu_ext d len n a) = None"
    and "unat (a_le (apdu_ext d len n a)) \<le> 65536"
  using assms unat_u16_lt[of n] unat_u16_lt[of "be16 (d ! (len - 2)) (d ! (len - 1))"]
  by (auto simp: apdu_ext_def Let_def le_or_def less_imp_le)

lemma apdu_decode_case: "apdu_decode d len = (0, a) \<Longrightarrow> a_case a \<noteq> 0"
  by (auto simp: apdu_decode_def apdu_finish_def SW_COND_USE_NOT_SATISFIED_def SW_WRONG_LENGTH_def Let_def split: if_splits)

text \<open>No command is longer than an extended one.\<close>

lemma apdu_decode_len:
  assumes "apdu_decode d len = (0, a)" shows "len < 65546"
proof (rule ccontr)
  assume "\<not> len < 65546"
  then have l: "65546 \<le> len" by simp
  have "a_case (apdu_short d len (apdu_header d)) = 0"
    using l unat_u8_lt[of "d ! 4"] by (auto simp: apdu_short_def apdu_header_def Let_def)
  moreover have "a_case x = 0 \<Longrightarrow> a_case (apdu_ext d len w x) = 0" for w x
    using l unat_u16_lt[of w] by (auto simp: apdu_ext_def Let_def)
  ultimately show False using assms
    by (auto simp: apdu_decode_def apdu_finish_def SW_COND_USE_NOT_SATISFIED_def SW_WRONG_LENGTH_def Let_def split: if_splits)
qed

lemma apdu_decode_bounds:
  assumes "apdu_decode d len = (0, a)"
  shows "unat (a_le a) \<le> 65536
       \<and> (case a_data a of None \<Rightarrow> a_lc a = 0
          | Some off \<Rightarrow> a_lc a \<noteq> 0 \<and> off + unat (a_lc a) \<le> len \<and> off = (if a_ext a then 7 else 5))"
proof -
  let ?h = "apdu_header d" and ?s = "apdu_short d len (apdu_header d)"
  have h: "a_lc ?h = 0" "a_ext ?h = False" "a_data ?h = None" "a_le ?h = 0" "a_case ?h = 0"
    by (simp_all add: apdu_header_def)
  note s = apdu_short_lc[OF h(1-3)]
  show ?thesis
  proof (cases "len \<ge> 7 \<and> d ! 4 = 0")
    case True
    then have sh: "?s = ?h" using s(5) h by simp
    with True assms have fin: "apdu_finish (apdu_ext d len (be16 (d ! 5) (d ! 6)) ?h) = (0, a)"
      by (auto simp: apdu_decode_def Let_def SW_WRONG_LENGTH_def split: if_splits)
    then have "a_case (apdu_ext d len (be16 (d ! 5) (d ! 6)) ?h) \<noteq> 0"
      by (auto simp: apdu_finish_def SW_COND_USE_NOT_SATISFIED_def split: if_splits)
    with apdu_finish_lc[OF fin] apdu_ext_lc[OF h, of len d "be16 (d ! 5) (d ! 6)"] True
    show ?thesis by (auto split: option.splits)
  next
    case False
    with assms have fin: "apdu_finish ?s = (0, a)"
      by (auto simp: apdu_decode_def Let_def SW_WRONG_LENGTH_def split: if_splits)
    with apdu_finish_lc[OF fin] s(1)[of d len] s(2)[of d len] s(3)[of d len] s(4)[of d len] h show ?thesis by (auto split: option.splits)
  qed
qed

text \<open>Every well-formed short command, with or without a body and an Le, decodes
  to itself: the same header, the body at offset 5, the right ISO case and an Le of 0 read as 256.
  \<open>rest\<close> is whatever the receive buffer holds behind the command.\<close>

theorem apdu_short_roundtrip:
  assumes "cla AND 0xef = cla" "length body < 256"
  shows "apdu_decode (encode_short cla ins p1 p2 body le @ rest)
                     (length (encode_short cla ins p1 p2 body le)) =
    (0, \<lparr>a_cla = cla, a_ins = ins, a_p1 = p1, a_p2 = p2, a_lc = of_nat (length body),
         a_data = (if body = [] then None else Some 5),
         a_le = (case le of None \<Rightarrow> 0 | Some b \<Rightarrow> le_or 0x100 (ucast b)),
         a_ext = False, a_case = short_case body le\<rparr>)"
proof (cases "body = []")
  case True
  then show ?thesis using assms(1)
    by (cases le) (auto simp: encode_short_def apdu_defs short_case_def unat_eq_0)
next
  case False
  then have "(of_nat (length body) :: u16) \<noteq> 0" "(of_nat (length body) :: u8) \<noteq> 0"
    "ucast (of_nat (length body) :: u8) = (of_nat (length body) :: u16)"
    using assms(2) by (auto simp: of_nat_u16_eq_0 of_nat_u8_eq_0 word_unat_eq_iff)
  with False assms show ?thesis
    by (cases le) (simp_all add: encode_short_def apdu_defs short_case_def nth_append)
qed

theorem apdu_short_roundtrip_witness:
  "apdu_decode (encode_short 0x80 1 2 3 [7, 8] (Some 0) @ [0]) 8 =
    (0, \<lparr>a_cla = 0x80, a_ins = 1, a_p1 = 2, a_p2 = 3, a_lc = 2, a_data = Some 5, a_le = 256,
         a_ext = False, a_case = 4\<rparr>)"
  using apdu_short_roundtrip[of "0x80" "[7, 8]" 1 2 3 "Some 0" "[0]"]
  by (simp add: numeral_2_eq_2[symmetric] encode_short_def short_case_def le_or_def)

lemma apdu_ext_roundtrip_aux:
  assumes "cla AND 0xef = cla" "length body < 65536" "body \<noteq> []"
  shows "apdu_decode (encode_ext cla ins p1 p2 body le @ rest)
                     (length (encode_ext cla ins p1 p2 body le)) =
    (0, \<lparr>a_cla = cla, a_ins = ins, a_p1 = p1, a_p2 = p2, a_lc = of_nat (length body),
         a_data = Some 7, a_le = ext_le_value le, a_ext = True, a_case = ext_case le\<rparr>)"
proof -
  have n: "(of_nat (length body) :: u16) \<noteq> 0" "unat (of_nat (length body) :: u16) = length body"
    using assms(2,3) by (auto simp: of_nat_u16_eq_0)
  show ?thesis
    by (cases le) (use n assms in \<open>simp_all add: encode_ext_def apdu_defs ext_le_bytes_def
        ext_le_value_def ext_case_def nth_append\<close>)
qed


text \<open>Every extended command with a
  non-empty body decodes to itself, with no Le, a two-byte or a three-byte Le. An extended command
  without a body (case 2E) does not: with a non-zero Le it is refused as a wrong length, and with
  Le = 0 it is reported as case 3E with an empty body.\<close>

theorem apdu_ext_roundtrip:
  assumes "cla AND 0xef = cla" "length body < 65536" "body \<noteq> []"
  shows "apdu_decode (encode_ext cla ins p1 p2 body le @ rest)
                     (length (encode_ext cla ins p1 p2 body le)) =
    (0, \<lparr>a_cla = cla, a_ins = ins, a_p1 = p1, a_p2 = p2, a_lc = of_nat (length body),
         a_data = Some 7, a_le = ext_le_value le, a_ext = True, a_case = ext_case le\<rparr>)
    \<and> block (encode_ext cla ins p1 p2 body le @ rest) 7 (length body) = body"
  using apdu_ext_roundtrip_aux[OF assms] by (simp add: encode_ext_def Let_def block_def)

theorem apdu_ext_roundtrip_witness:
  "apdu_decode (encode_ext 0 1 2 3 [7, 8] (Le2 0) @ []) 11 =
    (0, \<lparr>a_cla = 0, a_ins = 1, a_p1 = 2, a_p2 = 3, a_lc = 2, a_data = Some 7, a_le = 0x10000,
         a_ext = True, a_case = 0x14\<rparr>)"
  using apdu_ext_roundtrip[of 0 "[7, 8]" 1 2 3 "Le2 0" "[]"]
  by (simp add: numeral_2_eq_2[symmetric] encode_ext_def ext_case_def ext_le_value_def le_or_def ext_le_bytes_def Let_def)

theorem apdu_case_2E_misread:
  "apdu_decode ([cla, ins, p1, p2, 0, hi, lo] @ rest) 7 =
     (if be16 hi lo \<noteq> 0 then (SW_WRONG_LENGTH, apdu_header [cla, ins, p1, p2])
      else (0, (apdu_header [cla, ins, p1, p2])\<lparr>a_case := 0x13, a_ext := True, a_le := 0x10000\<rparr>))"
  using unat_eq_0[of "be16 hi lo"] by (auto simp: apdu_defs)

end
