(* ===== verification/DerSig.thy ===== *)
theory DerSig
  imports FwPrelude
begin

text \<open>
  \<open>ctap_encode_der_sig\<close> of \<^verbatim>\<open>fido2/ctap.c\<close>: the raw 64-byte ECDSA signature (r then s, big endian)
  rewritten as the DER sequence of two integers that FIDO2 and U2F responses carry.
\<close>

primrec lead_zeros :: "bytes \<Rightarrow> nat" where
  "lead_zeros [] = 0"
| "lead_zeros (b # bs) = (if b = 0 then Suc (lead_zeros bs) else 0)"

text \<open>The top bit of the byte after the leading zeros decides the padding; for \<open>s = 0\<close> that byte is
  \<open>in_sigbuf[64]\<close>, one past the signature.\<close>

definition der_pad :: "u8 \<Rightarrow> nat" where
  "der_pad b = (if b AND 0x80 = 0x80 then 1 else 0)"

definition ctap_encode_der_sig :: "bytes \<Rightarrow> int \<times> bytes" where
  "ctap_encode_der_sig sig =
     (let lead_r = lead_zeros (block sig 0 32);
          lead_s = lead_zeros (block sig 32 32);
          pad_s = der_pad (sig ! (32 + lead_s));
          pad_r = der_pad (sig ! (0 + lead_r));
          out = replicate 72 (0 :: u8);
          out = out[0 := 0x30];
          out = out[1 := of_nat (0x44 + pad_s + pad_r - lead_s - lead_r)];
          out = out[2 := 0x02];
          out = out[3 + pad_r := 0];
          out = out[3 := of_nat (0x20 + pad_r - lead_r)];
          out = blit out (4 + pad_r) (block sig lead_r (32 - lead_r));
          out = out[4 + 32 + pad_r - lead_r := 0x02];
          out = out[5 + 32 + pad_r + pad_s - lead_r := 0];
          out = out[5 + 32 + pad_r - lead_r := of_nat (0x20 + pad_s - lead_s)];
          out = blit out (6 + 32 + pad_r + pad_s - lead_r) (block sig (32 + lead_s) (32 - lead_s))
      in (int (0x46 + pad_s + pad_r - lead_r - lead_s), out))"

subsection \<open>The DER encoding it has to produce\<close>

text \<open>The minimal two's complement content octets of a non-negative integer, the TLV of it, and the
  sequence; and a parser that accepts exactly this form.\<close>

definition der_content :: "bytes \<Rightarrow> bytes" where
  "der_content n = (let t = dropWhile (\<lambda>b. b = 0) n in
     if t \<noteq> [] \<and> hd t AND 0x80 = 0x80 then 0 # t else t)"

definition der_int :: "bytes \<Rightarrow> bytes" where
  "der_int n = 0x02 # of_nat (length (der_content n)) # der_content n"

definition der_sig :: "bytes \<Rightarrow> bytes \<Rightarrow> bytes" where
  "der_sig r s = (let body = der_int r @ der_int s in 0x30 # of_nat (length body) # body)"

definition der_read_int :: "bytes \<Rightarrow> (bytes \<times> bytes) option" where
  "der_read_int b = (case b of t # l # rest \<Rightarrow>
       if t = 0x02 \<and> 0 < unat l \<and> unat l \<le> 33 \<and> unat l \<le> length rest
       then let c = take (unat l) rest;
                m = (if hd c = 0 then tl c else c) in
            if length m \<le> 32 then Some (replicate (32 - length m) 0 @ m, drop (unat l) rest) else None
       else None
     | _ \<Rightarrow> None)"

definition der_parse :: "bytes \<Rightarrow> (bytes \<times> bytes) option" where
  "der_parse b = (case b of t # l # body \<Rightarrow>
       if t = 0x30 \<and> unat l = length body
       then case der_read_int body of None \<Rightarrow> None
          | Some (r, rest) \<Rightarrow> (case der_read_int rest of None \<Rightarrow> None
             | Some (s, rest2) \<Rightarrow> if rest2 = [] then Some (r, s) else None)
       else None
     | _ \<Rightarrow> None)"

subsection \<open>Lemmas\<close>

lemma lead_zeros_drop: "drop (lead_zeros bs) bs = dropWhile (\<lambda>b. b = 0) bs"
  by (induction bs) auto

lemma lead_zeros_split: "replicate (lead_zeros bs) 0 @ dropWhile (\<lambda>b. b = 0) bs = bs"
  by (induction bs) auto

lemma lead_zeros_le: "lead_zeros bs \<le> length bs"
  by (induction bs) auto

lemma lead_zeros_lt: "list_ex (\<lambda>b. b \<noteq> 0) bs \<Longrightarrow> lead_zeros bs < length bs"
  by (induction bs) auto

lemma list_update_blit: "i < length dst \<Longrightarrow> dst[i := v] = blit dst i [v]"
  by (simp add: blit_def upd_conv_take_nth_drop)

lemma update_pair_pad:
  assumes "i + 1 < length dst" "p = 0 \<or> p = 1"
  shows "(dst[i + p := 0])[i := v] = blit dst i (v # replicate p 0)"
  using assms by (auto simp: list_update_blit intro!: nth_equalityI simp: nth_blit nth_Cons')

lemma length_der_content:
  "list_ex (\<lambda>b. b \<noteq> 0) n \<Longrightarrow>
   length (der_content n) = length n - lead_zeros n + der_pad (n ! lead_zeros n)"
proof -
  assume "list_ex (\<lambda>b. b \<noteq> 0) n"
  then have lt: "lead_zeros n < length n" by (rule lead_zeros_lt)
  then have "dropWhile (\<lambda>b. b = 0) n = n ! lead_zeros n # drop (Suc (lead_zeros n)) n"
    by (metis Cons_nth_drop_Suc lead_zeros_drop)
  with lt show ?thesis by (auto simp: der_content_def der_pad_def)
qed

lemma der_content_eq:
  assumes "list_ex (\<lambda>b. b \<noteq> 0) n"
  shows "der_content n = replicate (der_pad (n ! lead_zeros n)) 0 @ drop (lead_zeros n) n"
proof -
  have "drop (lead_zeros n) n = n ! lead_zeros n # drop (Suc (lead_zeros n)) n"
    by (metis Cons_nth_drop_Suc assms lead_zeros_lt)
  then show ?thesis by (simp add: der_content_def der_pad_def flip: lead_zeros_drop)
qed

lemma der_pad_le: "der_pad b \<le> 1"
  by (simp add: der_pad_def)

text \<open>The writes are contiguous: together they are one write of the whole encoding at offset 0.\<close>

lemma encode_der_sig_eq:
  assumes len: "length r = 32" "length s = 32" and nz: "list_ex (\<lambda>b. b \<noteq> 0) r" "list_ex (\<lambda>b. b \<noteq> 0) s"
  shows "ctap_encode_der_sig (r @ s) =
     (int (length (der_sig r s)), blit (replicate 72 0) 0 (der_sig r s))"
proof -
  define lr ls pr ps where defs: "lr = lead_zeros r" "ls = lead_zeros s"
    "pr = der_pad (r ! lr)" "ps = der_pad (s ! ls)"
  have lt: "lr < 32" "ls < 32" using lead_zeros_lt[OF nz(1)] lead_zeros_lt[OF nz(2)] len by (simp_all add: defs)
  have pads: "pr = 0 \<or> pr = 1" "ps = 0 \<or> ps = 1" by (auto simp: defs der_pad_def)
  define R S where RS: "R = drop lr r" "S = drop ls s"
  have RSlen: "length R = 32 - lr" "length S = 32 - ls" by (simp_all add: RS len)
  have blocks: "block (r @ s) 0 32 = r" "block (r @ s) 32 32 = s"
    "block (r @ s) lr (32 - lr) = R" "block (r @ s) (32 + ls) (32 - ls) = S"
    "(r @ s) ! (0 + lr) = r ! lr" "(r @ s) ! (32 + ls) = s ! ls"
    using lt len by (simp_all add: block_def RS nth_append)
  let ?Z = "replicate 72 (0::u8)"
  let ?h = "[0x30, of_nat (0x44 + ps + pr - ls - lr), 0x02 :: u8]"
  let ?r = "of_nat (0x20 + pr - lr) # replicate pr 0 @ R"
  let ?s = "0x02 # of_nat (0x20 + ps - ls) # replicate ps 0 @ S"
  have 1: "((?Z[0 := 0x30])[1 := of_nat (0x44 + ps + pr - ls - lr)])[2 := 0x02] = blit ?Z 0 ?h"
    by (simp add: blit_def numeral_eq_Suc)
  have 2: "((blit ?Z 0 ?h)[3 + pr := 0])[3 := of_nat (0x20 + pr - lr)]
      = blit ?Z 0 (?h @ of_nat (0x20 + pr - lr) # replicate pr 0)"
    using update_pair_pad[of 3 "blit ?Z 0 ?h" pr] pads(1) by (simp add: blit_append_fill)
  have 3: "blit (blit ?Z 0 (?h @ of_nat (0x20 + pr - lr) # replicate pr 0)) (4 + pr) R
      = blit ?Z 0 (?h @ ?r)"
    by (subst blit_append_fill) simp_all
  have n3: "length (?h @ ?r) = 4 + 32 + pr - lr" using RSlen lt by simp
  have 4: "(blit ?Z 0 (?h @ ?r))[4 + 32 + pr - lr := 0x02] = blit ?Z 0 ((?h @ ?r) @ [0x02])"
    using n3 pads lt RSlen by (subst list_update_blit) (auto simp: blit_append_fill)
  have 5: "((blit ?Z 0 ((?h @ ?r) @ [0x02]))[5 + 32 + pr + ps - lr := 0])
        [5 + 32 + pr - lr := of_nat (0x20 + ps - ls)]
      = blit ?Z 0 ((?h @ ?r) @ 0x02 # of_nat (0x20 + ps - ls) # replicate ps 0)"
  proof -
    let ?i = "5 + 32 + pr - lr" and ?B = "blit ?Z 0 ((?h @ ?r) @ [0x02])"
    have i: "5 + 32 + pr + ps - lr = ?i + ps" "?i + 1 < length ?B" using lt pads RSlen by auto
    have "(?B[?i + ps := 0])[?i := of_nat (0x20 + ps - ls)]
        = blit ?B ?i (of_nat (0x20 + ps - ls) # replicate ps 0)"
      by (rule update_pair_pad[OF i(2) pads(2)])
    also have "\<dots> = blit ?Z 0 (((?h @ ?r) @ [0x02]) @ of_nat (0x20 + ps - ls) # replicate ps 0)"
      using lt RSlen by (intro blit_append_fill) simp_all
    finally show ?thesis unfolding i(1) by simp
  qed
  have 6: "blit (blit ?Z 0 ((?h @ ?r) @ 0x02 # of_nat (0x20 + ps - ls) # replicate ps 0))
        (6 + 32 + pr + ps - lr) S = blit ?Z 0 ((?h @ ?r) @ ?s)"
    using RSlen lt by (subst blit_append_fill) simp_all
  have sig: "der_sig r s = (?h @ ?r) @ ?s"
    using der_content_eq[OF nz(1)] der_content_eq[OF nz(2)] RSlen lt
    by (simp add: der_sig_def der_int_def Let_def defs RS add.commute)
  have ret: "0x46 + ps + pr - lr - ls = length (der_sig r s)"
    using RSlen lt by (simp add: sig)
  show ?thesis
    unfolding ctap_encode_der_sig_def Let_def blocks(1,2) defs(1,2)[symmetric] blocks(5,6)
      defs(3,4)[symmetric] blocks(3,4)
    using 1 2 3 4 5 6 ret sig by simp
qed


lemma dropWhile_zero_pad:
  "replicate (length n - length (dropWhile (\<lambda>b. b = 0) n)) 0 @ dropWhile (\<lambda>b. b = 0) n = (n :: bytes)"
  using lead_zeros_split[of n] lead_zeros_drop[of n] lead_zeros_le[of n]
  by (metis add_diff_cancel_right' length_append length_replicate)

text \<open>The parser reads an integer back, whatever follows it.\<close>

lemma der_read_int_content:
  assumes "length n = 32" "list_ex (\<lambda>b. b \<noteq> 0) n"
  shows "der_read_int (der_int n @ rest) = Some (n, rest)"
proof -
  let ?t = "dropWhile (\<lambda>b. b = 0) n"
  have t: "?t \<noteq> []" using assms(2) by (auto simp: dropWhile_eq_Nil_conv list_ex_iff)
  have tl: "length ?t \<le> 32" using length_dropWhile_le[of "\<lambda>b. b = 0" n] assms(1) by simp
  have hd: "hd ?t \<noteq> 0" using hd_dropWhile[OF t] by simp
  have len: "length (der_content n) \<le> 33" "0 < length (der_content n)"
    using t tl by (auto simp: der_content_def Let_def)
  then have u: "unat (of_nat (length (der_content n)) :: u8) = length (der_content n)"
    by (simp add: unat_of_nat)
  have m: "(if hd (der_content n) = 0 then tl (der_content n) else der_content n) = ?t"
    using hd by (simp add: der_content_def Let_def)
  have "replicate (32 - length ?t) 0 @ ?t = n" using dropWhile_zero_pad[of n] assms(1) by simp
  then show ?thesis using u len tl m by (simp add: der_read_int_def der_int_def Let_def)
qed

lemma length_der_int:
  "\<lbrakk>length n = 32; list_ex (\<lambda>b. b \<noteq> 0) n\<rbrakk> \<Longrightarrow> 3 \<le> length (der_int n) \<and> length (der_int n) \<le> 35"
  using length_der_content[of n] lead_zeros_lt[of n] der_pad_le[of "n ! lead_zeros n"]
  by (simp add: der_int_def) linarith

text \<open>C17 (round trip). For every signature with non-zero r and s the function writes the minimal DER
  sequence of the two integers, returns its length (8 to 72, so the 72-byte output is never
  overrun), leaves the rest of the output zero, and a DER parser reads r and s back.\<close>

theorem der_sig_roundtrip:
  assumes len: "length r = 32" "length s = 32"
    and nz: "list_ex (\<lambda>b. b \<noteq> 0) r" "list_ex (\<lambda>b. b \<noteq> 0) s"
  shows "\<exists>n out. ctap_encode_der_sig (r @ s) = (int n, out) \<and> 8 \<le> n \<and> n \<le> 72
    \<and> out = der_sig r s @ replicate (72 - n) 0 \<and> length (der_sig r s) = n
    \<and> der_parse (take n out) = Some (r, s)"
proof -
  let ?n = "length (der_sig r s)"
  have b: "8 \<le> ?n" "?n \<le> 72"
    using length_der_int[OF len(1) nz(1)] length_der_int[OF len(2) nz(2)]
    by (simp_all add: der_sig_def Let_def)
  then have "unat (of_nat (length (der_int r @ der_int s)) :: u8) = length (der_int r @ der_int s)"
    by (intro unat_of_nat_u8) (simp add: der_sig_def)
  then have "der_parse (der_sig r s) = Some (r, s)"
    using der_read_int_content[OF len(1) nz(1), of "der_int s"]
      der_read_int_content[OF len(2) nz(2), of "[]"]
    by (simp add: der_parse_def der_sig_def Let_def)
  moreover have "blit (replicate 72 0) 0 (der_sig r s) = der_sig r s @ replicate (72 - ?n) 0"
    using b by (simp add: blit_def)
  ultimately show ?thesis using encode_der_sig_eq[OF len nz] b by simp
qed

theorem der_sig_roundtrip_witness:
  "\<exists>n out. ctap_encode_der_sig (replicate 31 0 @ [0x81] @ 0x7f # replicate 31 1) = (int n, out)
     \<and> n \<le> 72 \<and> der_parse (take n out) = Some (replicate 31 0 @ [0x81], 0x7f # replicate 31 1)"
  using der_sig_roundtrip[of "replicate 31 0 @ [0x81]" "0x7f # replicate 31 1"] by auto

end
