(* ===== verification/Sha256.thy ===== *)
theory Sha256
  imports FwPrelude
begin

text \<open>
  \<^verbatim>\<open>crypto/sha256/sha256.c\<close>: SHA-256 as the firmware computes it when the hardware does not,
  with its streaming context (64-byte buffer, fill count, bit count, eight state words), and the
  theorem that any way of feeding a message gives the FIPS 180-4 digest of it.
\<close>

subsection \<open>The compression function\<close>

definition ROTRIGHT :: "u32 \<Rightarrow> nat \<Rightarrow> u32" where
  "ROTRIGHT a b = drop_bit b a OR push_bit (32 - b) a"

definition sha_CH :: "u32 \<Rightarrow> u32 \<Rightarrow> u32 \<Rightarrow> u32" where
  "sha_CH x y z = (x AND y) XOR (NOT x AND z)"
definition sha_MAJ :: "u32 \<Rightarrow> u32 \<Rightarrow> u32 \<Rightarrow> u32" where
  "sha_MAJ x y z = (x AND y) XOR (x AND z) XOR (y AND z)"
definition sha_EP0 :: "u32 \<Rightarrow> u32" where
  "sha_EP0 x = ROTRIGHT x 2 XOR ROTRIGHT x 13 XOR ROTRIGHT x 22"
definition sha_EP1 :: "u32 \<Rightarrow> u32" where
  "sha_EP1 x = ROTRIGHT x 6 XOR ROTRIGHT x 11 XOR ROTRIGHT x 25"
definition sha_SIG0 :: "u32 \<Rightarrow> u32" where
  "sha_SIG0 x = ROTRIGHT x 7 XOR ROTRIGHT x 18 XOR drop_bit 3 x"
definition sha_SIG1 :: "u32 \<Rightarrow> u32" where
  "sha_SIG1 x = ROTRIGHT x 17 XOR ROTRIGHT x 19 XOR drop_bit 10 x"

definition sha_k :: "u32 list" where
  "sha_k =
     [0x428a2f98, 0x71374491, 0xb5c0fbcf, 0xe9b5dba5, 0x3956c25b, 0x59f111f1, 0x923f82a4, 0xab1c5ed5] @
     [0xd807aa98, 0x12835b01, 0x243185be, 0x550c7dc3, 0x72be5d74, 0x80deb1fe, 0x9bdc06a7, 0xc19bf174] @
     [0xe49b69c1, 0xefbe4786, 0x0fc19dc6, 0x240ca1cc, 0x2de92c6f, 0x4a7484aa, 0x5cb0a9dc, 0x76f988da] @
     [0x983e5152, 0xa831c66d, 0xb00327c8, 0xbf597fc7, 0xc6e00bf3, 0xd5a79147, 0x06ca6351, 0x14292967] @
     [0x27b70a85, 0x2e1b2138, 0x4d2c6dfc, 0x53380d13, 0x650a7354, 0x766a0abb, 0x81c2c92e, 0x92722c85] @
     [0xa2bfe8a1, 0xa81a664b, 0xc24b8b70, 0xc76c51a3, 0xd192e819, 0xd6990624, 0xf40e3585, 0x106aa070] @
     [0x19a4c116, 0x1e376c08, 0x2748774c, 0x34b0bcb5, 0x391c0cb3, 0x4ed8aa4a, 0x5b9cca4f, 0x682e6ff3] @
     [0x748f82ee, 0x78a5636f, 0x84c87814, 0x8cc70208, 0x90befffa, 0xa4506ceb, 0xbef9a3f7, 0xc67178f2]"

text \<open>The message schedule: sixteen words of the block, then 48 computed ones.\<close>

definition sha_words :: "bytes \<Rightarrow> u32 list" where
  "sha_words d = map (\<lambda>i. be32 (d ! (4*i)) (d ! (4*i + 1)) (d ! (4*i + 2)) (d ! (4*i + 3))) [0..<16]"

primrec sha_extend :: "nat \<Rightarrow> u32 list \<Rightarrow> u32 list" where
  "sha_extend 0 m = m"
| "sha_extend (Suc n) m =
     (let i = length m in
      sha_extend n (m @ [sha_SIG1 (m ! (i - 2)) + m ! (i - 7) + sha_SIG0 (m ! (i - 15)) + m ! (i - 16)]))"

type_synonym sha_vars = "u32 \<times> u32 \<times> u32 \<times> u32 \<times> u32 \<times> u32 \<times> u32 \<times> u32"

definition sha_round :: "sha_vars \<Rightarrow> u32 \<times> u32 \<Rightarrow> sha_vars" where
  "sha_round v km = (case v of (a, b, c, d, e, f, g, h) \<Rightarrow>
     let t1 = h + sha_EP1 e + sha_CH e f g + fst km + snd km;
         t2 = sha_EP0 a + sha_MAJ a b c
     in (t1 + t2, a, b, c, d + t1, e, f, g))"

definition sha256_transform :: "u32 list \<Rightarrow> bytes \<Rightarrow> u32 list" where
  "sha256_transform st data =
     (let m = sha_extend 48 (sha_words data);
          (a, b, c, d, e, f, g, h) =
            foldl sha_round (st!0, st!1, st!2, st!3, st!4, st!5, st!6, st!7) (zip sha_k m)
      in [st!0 + a, st!1 + b, st!2 + c, st!3 + d, st!4 + e, st!5 + f, st!6 + g, st!7 + h])"

subsection \<open>The streaming interface\<close>

record sha256_ctx =
  sc_data :: bytes
  sc_datalen :: nat
  sc_bitlen :: u64
  sc_state :: "u32 list"

definition sha256_init :: "sha256_ctx \<Rightarrow> sha256_ctx" where
  "sha256_init ctx = ctx\<lparr>sc_datalen := 0, sc_bitlen := 0,
     sc_state := [0x6a09e667, 0xbb67ae85, 0x3c6ef372, 0xa54ff53a,
                  0x510e527f, 0x9b05688c, 0x1f83d9ab, 0x5be0cd19]\<rparr>"

definition sha256_push :: "sha256_ctx \<Rightarrow> u8 \<Rightarrow> sha256_ctx" where
  "sha256_push ctx b =
     (let ctx = ctx\<lparr>sc_data := (sc_data ctx)[sc_datalen ctx := b], sc_datalen := sc_datalen ctx + 1\<rparr> in
      if sc_datalen ctx = 64 then
        ctx\<lparr>sc_state := sha256_transform (sc_state ctx) (sc_data ctx),
            sc_bitlen := sc_bitlen ctx + 512, sc_datalen := 0\<rparr>
      else ctx)"

definition sha256_update :: "sha256_ctx \<Rightarrow> bytes \<Rightarrow> sha256_ctx" where
  "sha256_update ctx data = foldl sha256_push ctx data"

definition u64_be_bytes :: "u64 \<Rightarrow> bytes" where
  "u64_be_bytes w = map (\<lambda>i. ucast (drop_bit (56 - 8 * i) w)) [0..<8]"

definition sha256_hash_out :: "u32 list \<Rightarrow> bytes" where
  "sha256_hash_out st =
     map (\<lambda>k. ucast (drop_bit (24 - (k mod 4) * 8) (st ! (k div 4)) AND 0xff)) [0..<32]"

definition sha256_final :: "sha256_ctx \<Rightarrow> bytes \<times> sha256_ctx" where
  "sha256_final ctx =
     (let n = sc_datalen ctx;
          ctx = (if n < 56 then
                   ctx\<lparr>sc_data := memset ((sc_data ctx)[n := 0x80]) (n + 1) 0 (56 - (n + 1))\<rparr>
                 else
                   let d = memset ((sc_data ctx)[n := 0x80]) (n + 1) 0 (64 - (n + 1)) in
                   ctx\<lparr>sc_state := sha256_transform (sc_state ctx) d, sc_data := memset d 0 0 56\<rparr>);
          bl = sc_bitlen ctx + of_nat (n * 8);
          d = blit (sc_data ctx) 56 (u64_be_bytes bl);
          st = sha256_transform (sc_state ctx) d
      in (sha256_hash_out st, ctx\<lparr>sc_bitlen := bl, sc_data := d, sc_state := st\<rparr>))"

subsection \<open>FIPS 180-4\<close>

definition sha256_H0 :: "u32 list" where
  "sha256_H0 = [0x6a09e667, 0xbb67ae85, 0x3c6ef372, 0xa54ff53a,
                0x510e527f, 0x9b05688c, 0x1f83d9ab, 0x5be0cd19]"

definition blocks64 :: "bytes \<Rightarrow> bytes list" where
  "blocks64 m = map (\<lambda>i. block m (64 * i) 64) [0..<length m div 64]"

definition sha256_pad :: "bytes \<Rightarrow> bytes" where
  "sha256_pad m = m @ [0x80] @ replicate ((119 - length m mod 64) mod 64) 0
                   @ u64_be_bytes (of_nat (8 * length m))"

definition sha256 :: "bytes \<Rightarrow> bytes" where
  "sha256 m = sha256_hash_out (foldl sha256_transform sha256_H0 (blocks64 (sha256_pad m)))"

subsection \<open>The context after a message\<close>

definition sha_absorbed :: "sha256_ctx \<Rightarrow> bytes \<Rightarrow> bool" where
  "sha_absorbed ctx m \<longleftrightarrow>
     length (sc_data ctx) = 64 \<and> sc_datalen ctx = length m mod 64
     \<and> take (sc_datalen ctx) (sc_data ctx) = drop (64 * (length m div 64)) m
     \<and> sc_bitlen ctx = of_nat (512 * (length m div 64))
     \<and> sc_state ctx = foldl sha256_transform sha256_H0 (blocks64 m)"

lemma length_u64_be [simp]: "length (u64_be_bytes w) = 8"
  by (simp add: u64_be_bytes_def)

lemma length_sha256_hash_out [simp]: "length (sha256_hash_out st) = 32"
  by (simp add: sha256_hash_out_def)

lemma length_sha256 [simp]: "length (sha256 m) = 32"
  by (simp add: sha256_def)

lemma block_append_left: "off + n \<le> length a \<Longrightarrow> block (a @ b) off n = block a off n"
  by (simp add: block_def)

lemma take_drop_grow: "k \<le> length m \<Longrightarrow> take k m @ drop k (m @ x) = m @ x"
  by (simp flip: append_assoc)

lemma length_full_blocks [simp]:
  "length (take (64 * (length m div 64)) m) = 64 * (length m div 64)"
  by (metis length_take min.absorb2 times_div_less_eq_dividend)

lemma blocks64_append_full:
  assumes "length a = 64 * k"
  shows "blocks64 (a @ b) = blocks64 a @ blocks64 b"
proof -
  have "length (a @ b) div 64 = k + length b div 64" using assms by simp
  moreover have "block (a @ b) (64 * i) 64 = block a (64 * i) 64" if "i < k" for i
    using that assms by (intro block_append_left) simp
  moreover have "block (a @ b) (64 * (k + i)) 64 = block b (64 * i) 64" for i
    using assms by (simp add: block_def algebra_simps)
  ultimately show ?thesis using assms
    by (auto simp: blocks64_def upt_add_eq_append[of 0 k, simplified] intro!: nth_equalityI)
qed

lemma blocks64_single: "length b = 64 \<Longrightarrow> blocks64 b = [b]"
  by (simp add: blocks64_def)

lemma blocks64_short: "length b < 64 \<Longrightarrow> blocks64 b = []"
  by (simp add: blocks64_def)

lemma blocks64_prefix: "blocks64 m = blocks64 (take (64 * (length m div 64)) m)"
proof -
  let ?n = "64 * (length m div 64)"
  have "blocks64 (take ?n m @ drop ?n m) = blocks64 (take ?n m) @ blocks64 (drop ?n m)"
    by (rule blocks64_append_full[OF length_full_blocks])
  moreover have "length (drop ?n m) < 64"
    by (metis length_drop minus_mult_div_eq_mod mod_less_divisor zero_less_numeral)
  ultimately show ?thesis by (simp add: blocks64_short)
qed

lemma sha_absorbed_init: "length (sc_data c) = 64 \<Longrightarrow> sha_absorbed (sha256_init c) []"
  by (simp add: sha_absorbed_def sha256_init_def blocks64_def sha256_H0_def)


lemma last_block_empty: "n mod 64 = 0 \<Longrightarrow> n \<le> 64 * (n div (64::nat))"
  by (metis add_0_right mult_div_mod_eq order_refl)

lemma sha_absorbed_push:
  assumes "sha_absorbed c m"
  shows "sha_absorbed (sha256_push c b) (m @ [b])"
proof -
  let ?n = "length m" and ?d = "(sc_data c)[sc_datalen c := b]"
  let ?q = "64 * (?n div 64)"
  have a: "length (sc_data c) = 64" "sc_datalen c = ?n mod 64" "take (?n mod 64) (sc_data c) = drop ?q m"
    "sc_bitlen c = of_nat (512 * (?n div 64))" "sc_state c = foldl sha256_transform sha256_H0 (blocks64 m)"
    using assms by (auto simp: sha_absorbed_def)
  have q: "?q + ?n mod 64 = ?n" "?n mod 64 < 64" by simp_all
  have tk: "take (Suc (?n mod 64)) ?d = drop ?q (m @ [b])"
    using a(1-3) q by (simp add: take_Suc_conv_app_nth)
  show ?thesis
  proof (cases "?n mod 64 = 63")
    case True
    then have d: "?d = drop ?q (m @ [b])" using tk a(1) by simp
    have ln: "Suc ?n mod 64 = 0" "Suc ?n div 64 = Suc (?n div 64)"
      using True by (simp_all add: mod_Suc div_Suc)
    have "blocks64 (m @ [b]) = blocks64 (take ?q m @ ?d)"
      unfolding d by (simp only: take_drop_grow times_div_less_eq_dividend)
    also have "\<dots> = blocks64 (take ?q m) @ blocks64 ?d"
      by (rule blocks64_append_full[OF length_full_blocks])
    also have "\<dots> = blocks64 m @ [?d]" using blocks64_prefix[of m] a(1) by (simp add: blocks64_single)
    finally show ?thesis using True a(1,2,4,5) ln
      by (simp add: sha_absorbed_def sha256_push_def Let_def ring_distribs last_block_empty)
  next
    case False
    then have ln: "Suc ?n mod 64 = Suc (?n mod 64)" "Suc ?n div 64 = ?n div 64"
      using q by (simp_all add: mod_Suc div_Suc)
    have tail: "length (drop ?q (m @ [b])) < 64" 
    proof -
      have "?n mod 64 < 63" using False q(2) by simp
      moreover have "?n - ?q = ?n mod 64" by (simp add: minus_mult_div_eq_mod)
      ultimately show ?thesis by simp
    qed
    have "blocks64 (m @ [b]) = blocks64 (take ?q m @ drop ?q (m @ [b]))" by (simp only: take_drop_grow times_div_less_eq_dividend)
    also have "\<dots> = blocks64 (take ?q m) @ blocks64 (drop ?q (m @ [b]))"
      by (rule blocks64_append_full[OF length_full_blocks])
    also have "\<dots> = blocks64 m"
      using blocks64_prefix[of m] blocks64_short[of "drop ?q (m @ [b])"] tail by simp
    finally show ?thesis using a tk ln False
      by (simp add: sha_absorbed_def sha256_push_def Let_def)
  qed
qed

lemma sha_absorbed_update:
  "sha_absorbed c m \<Longrightarrow> sha_absorbed (sha256_update c d) (m @ d)"
proof (induction d arbitrary: c m)
  case (Cons b d)
  from Cons.IH[OF sha_absorbed_push[OF Cons.prems, of b]] show ?case
    by (simp add: sha256_update_def)
qed (simp add: sha256_update_def)

lemma pad_zeros:
  assumes "r < 64"
  shows "(119 - r) mod 64 = (if r < 56 then 55 - r else 63 - r + (56::nat))"
proof (cases "r < 56")
  case True
  then have "119 - r = (55 - r) + 64" by simp
  then have "(119 - r) mod 64 = (55 - r) mod 64" by (simp only: mod_add_self2)
  with True show ?thesis by simp
qed (use assms in simp)

lemma pad_write:
  assumes "take r D = t" "r < k" "k \<le> length D"
  shows "memset (D[r := v]) (r + 1) c (k - (r + 1)) = t @ [v] @ replicate (k - 1 - r) c @ drop k D"
proof -
  have "length t = r" using assms by auto
  with assms show ?thesis
    by (simp add: memset_def blit_def upd_conv_take_nth_drop drop_Cons' Suc_diff_Suc)
qed

lemma blit_tail: "length a = k \<Longrightarrow> length x = length y \<Longrightarrow> blit (a @ x) k y = a @ y"
  by (simp add: blit_def)

text \<open>The padding the code writes into the context is the padding of the standard.\<close>

lemma sha256_final_digest:
  assumes abs: "sha_absorbed c m"
  shows "fst (sha256_final c) = sha256 m"
proof -
  let ?n = "length m" and ?r = "length m mod 64" and ?q = "64 * (length m div 64)"
  let ?bits = "u64_be_bytes (of_nat (8 * ?n))"
  have a: "length (sc_data c) = 64" "sc_datalen c = ?r" "take ?r (sc_data c) = drop ?q m"
    "sc_bitlen c = of_nat (512 * (?n div 64))" "sc_state c = foldl sha256_transform sha256_H0 (blocks64 m)"
    using abs by (auto simp: sha_absorbed_def)
  have q: "?q + ?r = ?n" "?r < 64" by simp_all
  have "8 * ?n = 512 * (?n div 64) + ?r * 8" using q by linarith
  then have bl: "sc_bitlen c + of_nat (?r * 8) = of_nat (8 * ?n)" using a(4) by (metis of_nat_add)
  have pre: "blocks64 (take ?q m @ x) = blocks64 m @ blocks64 x" for x
    using blocks64_append_full[OF length_full_blocks, of m x] blocks64_prefix[of m] by simp
  have lq: "length (drop ?q m) = ?r" by (simp add: minus_mult_div_eq_mod)
  show ?thesis
  proof (cases "?r < 56")
    case True
    let ?last = "drop ?q m @ [0x80] @ replicate (55 - ?r) 0 @ ?bits"
    have z: "(119 - ?r) mod 64 = 55 - ?r" using pad_zeros[OF q(2)] True by simp
    have ll: "length (drop ?q m @ [0x80] @ replicate (55 - ?r) 0) = 56"
      using True lq by (simp del: length_drop)
    have d: "blit (memset ((sc_data c)[?r := 0x80]) (?r + 1) 0 (56 - (?r + 1))) 56 ?bits = ?last"
      using pad_write[OF a(3), of 56 "0x80" 0] a(1) True blit_tail[OF ll, of "drop 56 (sc_data c)" ?bits]
      by simp
    have "sha256_pad m = take ?q m @ ?last" using z by (simp add: sha256_pad_def)
    moreover have "length ?last = 64" using True lq by (simp del: length_drop)
    ultimately have "blocks64 (sha256_pad m) = blocks64 m @ [?last]"
      using pre blocks64_single by metis
    then show ?thesis using True a bl d by (simp add: sha256_final_def Let_def sha256_def)
  next
    case False
    let ?b1 = "drop ?q m @ [0x80] @ replicate (63 - ?r) 0"
    let ?b2 = "replicate 56 0 @ ?bits"
    have z: "(119 - ?r) mod 64 = 63 - ?r + 56" using pad_zeros[OF q(2)] False by simp
    have d1: "memset ((sc_data c)[?r := 0x80]) (?r + 1) 0 (64 - (?r + 1)) = ?b1"
      using pad_write[OF a(3), of 64 "0x80" 0] a(1) q(2) by simp
    have l1: "length ?b1 = 64" "length ?b2 = 64" using q(2) lq by (simp_all del: length_drop)
    have d2: "blit (memset b 0 0 56) 56 ?bits = ?b2" if "length b = 64" for b
      using that by (simp add: memset_def blit_def)
    have "sha256_pad m = take ?q m @ ?b1 @ ?b2"
      unfolding sha256_pad_def z replicate_add by (simp flip: append_assoc)
    then have "blocks64 (sha256_pad m) = blocks64 m @ [?b1, ?b2]"
      using pre[of "?b1 @ ?b2"] blocks64_append_full[of ?b1 1 ?b2] l1 blocks64_single by simp
    then show ?thesis using False a bl d1 d2[OF l1(1)] by (simp add: sha256_final_def Let_def sha256_def)
  qed
qed

subsection \<open>Streaming hashes as an interface\<close>

text \<open>What HMAC and the signature code rely on: start, feed any pieces, finish; the digest is that of
  the concatenation.\<close>

locale stream_hash =
  fixes hinit :: "'c \<Rightarrow> 'c"
    and hupdate :: "'c \<Rightarrow> bytes \<Rightarrow> 'c"
    and hfinal :: "'c \<Rightarrow> bytes \<times> 'c"
    and wf :: "'c \<Rightarrow> bool"
    and absorbed :: "'c \<Rightarrow> bytes \<Rightarrow> bool"
    and digest :: "bytes \<Rightarrow> bytes"
  assumes h_init: "wf c \<Longrightarrow> absorbed (hinit c) []"
    and h_update: "absorbed c m \<Longrightarrow> absorbed (hupdate c d) (m @ d)"
    and h_final: "absorbed c m \<Longrightarrow> fst (hfinal c) = digest m"
    and h_wf: "absorbed c m \<Longrightarrow> wf c \<and> wf (snd (hfinal c))"

context stream_hash
begin

lemma update_pieces: "absorbed c m \<Longrightarrow> absorbed (foldl hupdate c ds) (m @ concat ds)"
proof (induction ds arbitrary: c m)
  case (Cons d ds)
  from Cons.IH[OF h_update[OF Cons.prems, of d]] show ?case by simp
qed simp

lemma digest_of_pieces: "wf c \<Longrightarrow> fst (hfinal (foldl hupdate (hinit c) ds)) = digest (concat ds)"
  using h_final[OF update_pieces[OF h_init]] by simp

end

lemma sha256_final_wf: "sha_absorbed c m \<Longrightarrow> length (sc_data (snd (sha256_final c))) = 64"
  by (auto simp: sha_absorbed_def sha256_final_def Let_def)

lemma sha_absorbed_wf: "sha_absorbed c m \<Longrightarrow> length (sc_data c) = 64"
  by (simp add: sha_absorbed_def)

interpretation sha: stream_hash sha256_init sha256_update sha256_final "\<lambda>c. length (sc_data c) = 64"
  sha_absorbed sha256
  by unfold_locales
     (simp_all add: sha_absorbed_init sha_absorbed_update sha256_final_digest sha256_final_wf
       sha_absorbed_wf)


text \<open>C15 (functional). However a message is cut into \<open>sha256_update\<close> calls, and whatever an earlier use
  left in the context, init / update / final return the FIPS 180-4 digest of the concatenation:
  the padding written into the 64-byte buffer is the padding of the standard on both branches
  (below and above 56 pending bytes), the bit count the length of the message.\<close>

theorem sha256_streaming:
  assumes "length (sc_data c) = 64"
  shows "fst (sha256_final (foldl sha256_update (sha256_init c) ds)) = sha256 (concat ds)"
  by (rule sha.digest_of_pieces[OF assms])

definition sha_ctx0 :: sha256_ctx where
  "sha_ctx0 = \<lparr>sc_data = replicate 64 0xaa, sc_datalen = 3, sc_bitlen = 7, sc_state = []\<rparr>"

theorem sha256_streaming_witness:
  "fst (sha256_final (foldl sha256_update (sha256_init sha_ctx0) [[0x61], [], [0x62, 0x63]]))
   = sha256 [0x61, 0x62, 0x63]"
  using sha256_streaming[of sha_ctx0 "[[0x61], [], [0x62, 0x63]]"] by (simp add: sha_ctx0_def)

end
