(* ===== verification/Flash.thy ===== *)
theory Flash
  imports FwPrelude
begin

text \<open>
  \<^verbatim>\<open>targets/stm32l432/src/flash.c\<close> and \<^verbatim>\<open>memory_layout.h\<close>: the internal flash of the
  microcontroller as the firmware drives it. The flash is a function from byte offsets (from
  0x08000000) to bytes; the two things the hardware does, erasing a 2 KiB page and programming an
  aligned 8-byte double word, are the \<open>flash_op\<close>s, so that every routine that writes flash is a
  list of them and a power cut is a prefix of that list. What programming a double word does to a
  cell that is not erased is the hardware's business: the parameter \<open>prog\<close> (old contents, new data).
\<close>

type_synonym flash = "nat \<Rightarrow> u8"
type_synonym prog_fn = "bytes \<Rightarrow> bytes \<Rightarrow> bytes"

definition FLASH_PAGE_SIZE :: nat where "FLASH_PAGE_SIZE = 2048"

definition flash_addr :: "nat \<Rightarrow> nat" where "flash_addr page = page * FLASH_PAGE_SIZE"

text \<open>The layout of a 128-page device (\<open>PAGES == 128\<close>).\<close>

definition ATTESTATION_PAGE :: nat where "ATTESTATION_PAGE = 128 - 15"
definition APPLICATION_START_PAGE :: nat where "APPLICATION_START_PAGE = 10"
definition APPLICATION_END_PAGE :: nat where "APPLICATION_END_PAGE = 128 - 20"
definition COUNTER2_PAGE :: nat where "COUNTER2_PAGE = 128 - 4"
definition COUNTER1_PAGE :: nat where "COUNTER1_PAGE = 128 - 3"
definition STATE2_PAGE :: nat where "STATE2_PAGE = 128 - 2"
definition STATE1_PAGE :: nat where "STATE1_PAGE = 128 - 1"
definition RK_NUM_PAGES :: nat where "RK_NUM_PAGES = 10"
definition RK_START_PAGE :: nat where "RK_START_PAGE = 128 - 14"

lemmas page_defs = ATTESTATION_PAGE_def COUNTER2_PAGE_def COUNTER1_PAGE_def STATE2_PAGE_def
  STATE1_PAGE_def RK_NUM_PAGES_def RK_START_PAGE_def flash_addr_def FLASH_PAGE_SIZE_def

subsection \<open>The two operations of the hardware\<close>

datatype flash_op = FErase nat | FProgram nat bytes

definition flash_read :: "flash \<Rightarrow> nat \<Rightarrow> nat \<Rightarrow> bytes" where
  "flash_read f a n = map f [a..<a + n]"

definition flash_erase_page :: "nat \<Rightarrow> flash \<Rightarrow> flash" where
  "flash_erase_page p f = (\<lambda>x. if x div FLASH_PAGE_SIZE = p then 0xff else f x)"

definition flash_write_dword :: "prog_fn \<Rightarrow> nat \<Rightarrow> bytes \<Rightarrow> flash \<Rightarrow> flash" where
  "flash_write_dword prog a d f =
     (let new = prog (flash_read f a 8) d in
      (\<lambda>x. if a \<le> x \<and> x < a + 8 then new ! (x - a) else f x))"

fun flash_exec :: "prog_fn \<Rightarrow> flash_op \<Rightarrow> flash \<Rightarrow> flash" where
  "flash_exec prog (FErase p) f = flash_erase_page p f"
| "flash_exec prog (FProgram a d) f = flash_write_dword prog a d f"

definition flash_run :: "prog_fn \<Rightarrow> flash_op list \<Rightarrow> flash \<Rightarrow> flash" where
  "flash_run prog ops f = foldl (\<lambda>f op. flash_exec prog op f) f ops"

text \<open>\<open>flash_write\<close>: the address is aligned down, the data goes out eight bytes at a time and the last
  double word is filled up with 0xff.\<close>

fun flash_write_loop :: "nat \<Rightarrow> bytes \<Rightarrow> flash_op list" where
  "flash_write_loop a data =
     (if data = [] then []
      else FProgram a (take 8 data @ replicate (8 - length data) 0xff)
           # flash_write_loop (a + 8) (drop 8 data))"

declare flash_write_loop.simps [simp del]

lemma flash_write_loop_Nil [simp]: "flash_write_loop a [] = []"
  by (simp add: flash_write_loop.simps)

definition flash_write_ops :: "nat \<Rightarrow> bytes \<Rightarrow> flash_op list" where
  "flash_write_ops addr data = flash_write_loop (addr - addr mod 8) data"

definition flash_write :: "prog_fn \<Rightarrow> nat \<Rightarrow> bytes \<Rightarrow> flash \<Rightarrow> flash" where
  "flash_write prog addr data f = flash_run prog (flash_write_ops addr data) f"

text \<open>What the reference manual promises of the hardware: an erased double word takes the data.\<close>

definition prog_ok :: "prog_fn \<Rightarrow> bool" where
  "prog_ok prog \<longleftrightarrow> (\<forall>d. length d = 8 \<longrightarrow> prog (replicate 8 0xff) d = d)"

text \<open>One hardware with that property, for the examples: a double word that is not erased is left as
  it is, except that it can always be cleared to zero.\<close>

definition stm_prog :: prog_fn where
  "stm_prog old d = (if old = replicate 8 0xff \<or> d = replicate 8 0 then d else old)"

lemma stm_prog_ok: "prog_ok stm_prog"
  by (simp add: prog_ok_def stm_prog_def)

subsection \<open>Reading back\<close>

definition erased :: "flash \<Rightarrow> nat \<Rightarrow> nat \<Rightarrow> bool" where
  "erased f a n \<longleftrightarrow> (\<forall>x\<in>{a..<a + n}. f x = 0xff)"

lemma flash_run_Nil [simp]: "flash_run prog [] f = f"
  by (simp add: flash_run_def)

lemma flash_run_Cons [simp]: "flash_run prog (op # ops) f = flash_run prog ops (flash_exec prog op f)"
  by (simp add: flash_run_def)

lemma flash_run_append [simp]:
  "flash_run prog (a @ b) f = flash_run prog b (flash_run prog a f)"
  by (simp add: flash_run_def)

lemma length_flash_read [simp]: "length (flash_read f a n) = n"
  by (simp add: flash_read_def)

lemma flash_read_nth: "i < n \<Longrightarrow> flash_read f a n ! i = f (a + i)"
  by (simp add: flash_read_def)

lemma flash_read_eqI: "(\<And>x. a \<le> x \<Longrightarrow> x < a + n \<Longrightarrow> f x = g x) \<Longrightarrow> flash_read f a n = flash_read g a n"
  by (simp add: flash_read_def)

lemma erased_mono: "erased f a n \<Longrightarrow> a \<le> b \<Longrightarrow> b + m \<le> a + n \<Longrightarrow> erased f b m"
  by (auto simp: erased_def)

lemma erased_read: "erased f a 8 \<Longrightarrow> flash_read f a 8 = replicate 8 0xff"
  by (intro nth_equalityI) (auto simp: flash_read_nth erased_def)

lemma erase_page_erased: "erased (flash_erase_page p f) (flash_addr p) FLASH_PAGE_SIZE"
  by (auto simp: erased_def flash_erase_page_def page_defs div_nat_eqI)

lemma write_dword_erased:
  assumes "prog_ok prog" "erased f a 8" "length d = 8"
  shows "flash_write_dword prog a d f = (\<lambda>x. if a \<le> x \<and> x < a + 8 then d ! (x - a) else f x)"
  using assms by (simp add: flash_write_dword_def erased_read prog_ok_def Let_def)

text \<open>Writing into erased flash stores exactly the data and touches nothing else; the fill bytes of
  the last double word are those of erased flash.\<close>

lemma write_loop_erased:
  assumes "prog_ok prog" "erased f a (8 * ((length data + 7) div 8))"
  shows "flash_run prog (flash_write_loop a data) f
         = (\<lambda>x. if a \<le> x \<and> x < a + length data then data ! (x - a) else f x)"
  using assms
proof (induction a data arbitrary: f rule: flash_write_loop.induct)
  case (1 a data)
  show ?case
  proof (cases "data = []")
    case True
    then show ?thesis by (auto simp: flash_write_loop.simps fun_eq_iff)
  next
    case False
    let ?n = "length data" and ?d = "take 8 data @ replicate (8 - length data) (0xff::u8)"
    have n: "8 * ((?n + 7) div 8) = 8 + 8 * ((?n - 8 + 7) div 8)"
      using False by (cases "?n \<le> 8") (auto simp: le_div_geq Suc_le_eq)
    have e0: "erased f a 8" using erased_mono[OF 1(3), of a 8] n by simp
    have d: "length ?d = 8" by simp
    let ?f = "flash_write_dword prog a ?d f"
    have f: "?f = (\<lambda>x. if a \<le> x \<and> x < a + 8 then ?d ! (x - a) else f x)"
      by (rule write_dword_erased[OF 1(2) e0 d])
    have e: "erased ?f (a + 8) (8 * ((length (drop 8 data) + 7) div 8))"
      using 1(3) n by (auto simp: erased_def f)
    note ih = 1(1)[OF False 1(2) e]
    show ?thesis
    proof
      fix x
      have ff: "f x = 0xff" if "a \<le> x" "x < a + 8" using that e0 by (auto simp: erased_def)
      show "flash_run prog (flash_write_loop a data) f x
            = (if a \<le> x \<and> x < a + length data then data ! (x - a) else f x)"
        using False ih ff
        by (subst flash_write_loop.simps) (auto simp: f nth_append)
    qed
  qed
qed

lemma flash_write_erased:
  assumes "prog_ok prog" "a mod 8 = 0" "erased f a n" "length data \<le> n" "n mod 8 = 0"
  shows "flash_write prog a data f
         = (\<lambda>x. if a \<le> x \<and> x < a + length data then data ! (x - a) else f x)"
proof -
  obtain k where k: "n = 8 * k" using assms(5) by (metis mod_0_imp_dvd dvdE)
  have "(length data + 7) div 8 \<le> (8 * k + 7) div 8" using assms(4) k by (intro div_le_mono) simp
  then have "8 * ((length data + 7) div 8) \<le> n" using k by simp
  then have "erased f a (8 * ((length data + 7) div 8))" using erased_mono[OF assms(3)] by simp
  with write_loop_erased[OF assms(1)] show ?thesis
    by (simp add: flash_write_def flash_write_ops_def assms(2))
qed


subsection \<open>Pages as an interface\<close>

text \<open>What the counter, the authenticator state and the resident-key store rely on: an erased page can
  be written and read back, and other pages do not change.\<close>

locale page_store =
  fixes erase :: "nat \<Rightarrow> 's \<Rightarrow> 's"
    and wr :: "nat \<Rightarrow> bytes \<Rightarrow> 's \<Rightarrow> 's"
    and rd :: "'s \<Rightarrow> nat \<Rightarrow> nat \<Rightarrow> bytes"
    and blank :: "'s \<Rightarrow> nat \<Rightarrow> nat \<Rightarrow> bool"
  assumes erase_blank: "blank (erase p s) (flash_addr p) FLASH_PAGE_SIZE"
    and erase_frame: "a + n \<le> flash_addr p \<or> flash_addr (Suc p) \<le> a \<Longrightarrow> rd (erase p s) a n = rd s a n"
    and wr_read: "\<lbrakk>blank s a n; a mod 8 = 0; n mod 8 = 0; length d \<le> n\<rbrakk>
          \<Longrightarrow> rd (wr a d s) a (length d) = d"
    and wr_frame: "\<lbrakk>blank s a n; a mod 8 = 0; n mod 8 = 0; length d \<le> n;
            b + m \<le> a \<or> a + length d \<le> b\<rbrakk> \<Longrightarrow> rd (wr a d s) b m = rd s b m"

context page_store
begin

lemma page_aligned: "flash_addr p mod 8 = 0" "FLASH_PAGE_SIZE mod 8 = 0"
  by (simp_all add: flash_addr_def FLASH_PAGE_SIZE_def mod_mult_right_eq[symmetric])

text \<open>The erase-then-write the firmware replaces a page's content with.\<close>

lemma rewrite_read:
  "length d \<le> FLASH_PAGE_SIZE \<Longrightarrow> rd (wr (flash_addr p) d (erase p s)) (flash_addr p) (length d) = d"
  by (rule wr_read[OF erase_blank page_aligned])

lemma rewrite_frame:
  assumes "length d \<le> FLASH_PAGE_SIZE" "a + n \<le> flash_addr p \<or> flash_addr (Suc p) \<le> a"
  shows "rd (wr (flash_addr p) d (erase p s)) a n = rd s a n"
proof -
  have "a + n \<le> flash_addr p \<or> flash_addr p + length d \<le> a"
    using assms by (auto simp: flash_addr_def)
  then show ?thesis
    using wr_frame[OF erase_blank page_aligned assms(1)] erase_frame[OF assms(2)] by simp
qed

end

lemma flash_page_store:
  assumes "prog_ok prog"
  shows "page_store flash_erase_page (flash_write prog) flash_read erased"
proof
  fix p s a n d b m
  show "erased (flash_erase_page p s) (flash_addr p) FLASH_PAGE_SIZE" by (rule erase_page_erased)
  show "flash_read (flash_erase_page p s) a n = flash_read s a n"
    if "a + n \<le> flash_addr p \<or> flash_addr (Suc p) \<le> a"
  proof (rule flash_read_eqI)
    fix x assume "a \<le> x" "x < a + n"
    then have "x < flash_addr p \<or> flash_addr (Suc p) \<le> x" using that by auto
    then have "x div FLASH_PAGE_SIZE \<noteq> p"
      by (auto simp: flash_addr_def FLASH_PAGE_SIZE_def)
    then show "flash_erase_page p s x = s x" by (simp add: flash_erase_page_def)
  qed
  show "flash_read (flash_write prog a d s) a (length d) = d"
    if "erased s a n" "a mod 8 = 0" "n mod 8 = 0" "length d \<le> n"
    using flash_write_erased[OF assms that(2,1,4,3)] by (intro nth_equalityI) (auto simp: flash_read_nth)
  show "flash_read (flash_write prog a d s) b m = flash_read s b m"
    if "erased s a n" "a mod 8 = 0" "n mod 8 = 0" "length d \<le> n" "b + m \<le> a \<or> a + length d \<le> b"
    using flash_write_erased[OF assms that(2,1,4,3)] that(5) by (intro flash_read_eqI) auto
qed

interpretation stm: page_store flash_erase_page "flash_write stm_prog" flash_read erased
  by (rule flash_page_store[OF stm_prog_ok])

end
