(* ===== verification/Counter.thy ===== *)
theory Counter
  imports Flash
begin

text \<open>
  \<open>ctap_atomic_count\<close> of \<^verbatim>\<open>targets/stm32l432/src/device.c\<close>: the signature counter, logged in
  flash as a wear-levelled sequence of double words (page COUNTER1) with an erase mark on a second
  page (COUNTER2), so that a power cut at any flash operation never lets it go back.
\<close>

definition rd32 :: "flash \<Rightarrow> nat \<Rightarrow> u32" where
  "rd32 f a = le32 (f a) (f (a + 1)) (f (a + 2)) (f (a + 3))"

text \<open>The scan for the first free slot; every other 32-bit word is looked at.\<close>

function count_scan :: "flash \<Rightarrow> nat \<Rightarrow> u32 \<Rightarrow> nat \<times> u32" where
  "count_scan f offset lastc =
     (if offset < FLASH_PAGE_SIZE div 4 then
        let w = rd32 f (flash_addr COUNTER1_PAGE + offset * 4) in
        if w \<noteq> 0xffffffff then count_scan f (offset + 2) w else (offset, lastc)
      else (offset, lastc))"

  by pat_completeness auto
termination by (relation "measure (\<lambda>(f, offset, lastc). FLASH_PAGE_SIZE div 4 - offset)") auto

declare count_scan.simps [simp del]

definition rewrite_word :: "nat \<Rightarrow> u32 \<Rightarrow> flash_op list" where
  "rewrite_word page w = FErase page # flash_write_ops (flash_addr page) (u32_le_bytes w)"

text \<open>The flash operations of one call, its return value (None: the final self check spins) and the
  new value of the static variable \<open>sc\<close>.\<close>

definition atomic_count_ops ::
    "u32 \<Rightarrow> u8 \<Rightarrow> flash \<Rightarrow> u32 \<Rightarrow> flash_op list \<times> u32 option \<times> u32" where
  "atomic_count_ops amount rng f sc =
     (let erases0 = rd32 f (flash_addr COUNTER2_PAGE);
          (ops0, erases) = (if erases0 = 0xffffffff then (rewrite_word COUNTER2_PAGE 1, 1)
                            else ([], erases0));
          amount = (if amount = 0 then ucast (rng AND 0x0f) + 1 else amount);
          (offset, lastc) = count_scan f 0 0 in
      if lastc = 0 then
        let lastc = erases * 256 + 1 in
        (ops0 @ rewrite_word COUNTER1_PAGE lastc @ rewrite_word COUNTER2_PAGE (erases + 1),
         Some lastc, sc)
      else
        let lastc = (if amount > 256 then amount else lastc + amount);
            (ops1, erases) = (if lastc div 256 > erases
                              then (rewrite_word COUNTER2_PAGE (lastc div 256), lastc div 256)
                              else ([], erases));
            (ops2, offset) = (if offset = FLASH_PAGE_SIZE div 4
                              then (rewrite_word COUNTER2_PAGE (lastc div 256 + 1)
                                    @ [FErase COUNTER1_PAGE], 0)
                              else ([], offset));
            ops3 = flash_write_ops (flash_addr COUNTER1_PAGE + offset * 4) (u32_le_bytes lastc)
        in if lastc = sc then (ops0 @ ops1 @ ops2 @ ops3, None, sc)
           else (ops0 @ ops1 @ ops2 @ ops3, Some lastc, lastc))"

definition ctap_atomic_count ::
    "prog_fn \<Rightarrow> u32 \<Rightarrow> u8 \<Rightarrow> flash \<times> u32 \<Rightarrow> u32 option \<times> flash \<times> u32" where
  "ctap_atomic_count prog amount rng st =
     (let (ops, r, sc) = atomic_count_ops amount rng (fst st) (snd st) in
      (r, flash_run prog ops (fst st), sc))"

subsection \<open>What the two pages hold\<close>

text \<open>\<open>ctr_view f cs e\<close>: page COUNTER1 logs the counts \<open>cs\<close>, in increasing order, followed by erased
  cells, and the first word of page COUNTER2 is \<open>e\<close>.\<close>

definition ctr_view :: "flash \<Rightarrow> u32 list \<Rightarrow> u32 \<Rightarrow> bool" where
  "ctr_view f cs e \<longleftrightarrow>
     length cs \<le> 256 \<and> (\<forall>i<length cs. rd32 f (flash_addr COUNTER1_PAGE + 8 * i) = cs ! i)
     \<and> erased f (flash_addr COUNTER1_PAGE + 8 * length cs) (FLASH_PAGE_SIZE - 8 * length cs)
     \<and> (\<forall>c\<in>set cs. c \<noteq> 0 \<and> c \<noteq> 0xffffffff) \<and> sorted_wrt (<) cs
     \<and> rd32 f (flash_addr COUNTER2_PAGE) = e"

definition ctr_ok :: "flash \<Rightarrow> bool" where
  "ctr_ok f \<longleftrightarrow> (\<exists>cs e. ctr_view f cs e)"

text \<open>The value below which no later count can be: the last one logged, or what the erase mark stands
  for when the log is empty.\<close>

definition floor_of :: "u32 list \<Rightarrow> u32 \<Rightarrow> nat" where
  "floor_of cs e = (if cs \<noteq> [] then unat (last cs) else if e = 0xffffffff then 256 else 256 * unat e)"

definition counter_floor :: "flash \<Rightarrow> nat" where
  "counter_floor f =
     (let (offset, lastc) = count_scan f 0 0; e = rd32 f (flash_addr COUNTER2_PAGE) in
      if lastc \<noteq> 0 then unat lastc else if e = 0xffffffff then 256 else 256 * unat e)"

lemma rd32_cong: "(\<And>x. a \<le> x \<Longrightarrow> x < a + 4 \<Longrightarrow> f x = g x) \<Longrightarrow> rd32 f a = rd32 g a"
  by (simp add: rd32_def)

lemma rd32_erased: "erased f a 4 \<Longrightarrow> rd32 f a = 0xffffffff"
  by (simp add: rd32_def erased_def le32_def)

lemma rd32_write:
  assumes "\<And>x. f x = (if a \<le> x \<and> x < a + 4 then u32_le_bytes w ! (x - a) else g x)"
  shows "rd32 f a = w"
  by (simp add: rd32_def assms u32_le_bytes_def)

lemma u32_word_ops: "a mod 8 = 0 \<Longrightarrow> flash_write_ops a (u32_le_bytes w) = [FProgram a (u32_le_bytes w @ replicate 4 0xff)]"
  by (simp add: flash_write_ops_def flash_write_loop.simps u32_le_bytes_def)

declare flash_exec.simps(2) [simp del]

lemma program_word:
  assumes "prog_ok prog" "a mod 8 = 0" "erased f a 8"
  shows "flash_exec prog (FProgram a (u32_le_bytes w @ replicate 4 0xff)) f
         = (\<lambda>x. if a \<le> x \<and> x < a + 4 then u32_le_bytes w ! (x - a) else f x)"
  using flash_write_erased[OF assms(1,2,3), of "u32_le_bytes w"]
  by (simp add: flash_write_def u32_word_ops[OF assms(2)])

text \<open>The effect of each flash operation of the counter on the view.\<close>

lemma view_erase2:
  "ctr_view f cs e \<Longrightarrow> ctr_view (flash_erase_page COUNTER2_PAGE f) cs 0xffffffff
     \<and> erased (flash_erase_page COUNTER2_PAGE f) (flash_addr COUNTER2_PAGE) 8"
proof -
  assume v: "ctr_view f cs e"
  let ?g = "flash_erase_page COUNTER2_PAGE f"
  have e: "erased ?g (flash_addr COUNTER2_PAGE) 8"
    using erased_mono[OF erase_page_erased, of COUNTER2_PAGE "flash_addr COUNTER2_PAGE" 8]
    by (simp add: FLASH_PAGE_SIZE_def)
  have s: "?g x = f x" if "flash_addr COUNTER1_PAGE \<le> x" for x
    using that by (auto simp: flash_erase_page_def page_defs)
  have "rd32 ?g (flash_addr COUNTER1_PAGE + 8 * i) = rd32 f (flash_addr COUNTER1_PAGE + 8 * i)" for i
    by (rule rd32_cong) (simp add: s)
  moreover have "rd32 ?g (flash_addr COUNTER2_PAGE) = 0xffffffff"
    by (rule rd32_erased) (rule erased_mono[OF e], simp_all)
  ultimately show ?thesis using v e by (auto simp: ctr_view_def erased_def s)
qed

lemma view_program2:
  assumes "prog_ok prog" "ctr_view f cs e" "erased f (flash_addr COUNTER2_PAGE) 8"
  shows "ctr_view (flash_exec prog (FProgram (flash_addr COUNTER2_PAGE) (u32_le_bytes w @ replicate 4 0xff)) f) cs w"
proof -
  let ?a = "flash_addr COUNTER2_PAGE"
  let ?g = "flash_exec prog (FProgram ?a (u32_le_bytes w @ replicate 4 0xff)) f"
  have al: "?a mod 8 = 0" by (simp add: page_defs)
  have g: "?g = (\<lambda>x. if ?a \<le> x \<and> x < ?a + 4 then u32_le_bytes w ! (x - ?a) else f x)"
    by (rule program_word[OF assms(1) al assms(3)])
  have s: "?g x = f x" if "flash_addr COUNTER1_PAGE \<le> x" for x
    using that unfolding g by (auto simp: page_defs)
  have "rd32 ?g (flash_addr COUNTER1_PAGE + 8 * i) = rd32 f (flash_addr COUNTER1_PAGE + 8 * i)" for i
    by (rule rd32_cong) (rule s, simp)
  moreover have "rd32 ?g ?a = w" unfolding g by (rule rd32_write[where g = f]) simp
  moreover have "erased ?g (flash_addr COUNTER1_PAGE + 8 * length cs) n
      = erased f (flash_addr COUNTER1_PAGE + 8 * length cs) n" for n
    unfolding erased_def using s by (metis add_leD1 atLeastLessThan_iff)
  ultimately show ?thesis using assms(2) by (simp add: ctr_view_def)
qed

lemma view_erase1:
  assumes "ctr_view f cs e"
  shows "ctr_view (flash_erase_page COUNTER1_PAGE f) [] e"
proof -
  have "flash_erase_page COUNTER1_PAGE f x = f x" if "x < flash_addr COUNTER1_PAGE" for x
    using that by (auto simp: flash_erase_page_def page_defs)
  then have "rd32 (flash_erase_page COUNTER1_PAGE f) (flash_addr COUNTER2_PAGE)
      = rd32 f (flash_addr COUNTER2_PAGE)"
    by (intro rd32_cong) (simp add: page_defs)
  then show ?thesis using assms erase_page_erased[of COUNTER1_PAGE f] by (simp add: ctr_view_def)
qed

lemma sorted_wrt_le_last: "sorted_wrt (<) cs \<Longrightarrow> (c :: u32) \<in> set cs \<Longrightarrow> c \<le> last cs"
  by (induction cs rule: rev_induct) (auto simp: sorted_wrt_append less_imp_le)

lemma view_program1:
  assumes "prog_ok prog" "ctr_view f cs e" "length cs < 256" "w \<noteq> 0" "w \<noteq> 0xffffffff"
    and "cs \<noteq> [] \<Longrightarrow> last cs < w"
  shows "ctr_view (flash_exec prog (FProgram (flash_addr COUNTER1_PAGE + 8 * length cs)
           (u32_le_bytes w @ replicate 4 0xff)) f) (cs @ [w]) e"
proof -
  let ?a = "flash_addr COUNTER1_PAGE + 8 * length cs"
  let ?g = "flash_exec prog (FProgram ?a (u32_le_bytes w @ replicate 4 0xff)) f"
  have er: "erased f ?a (FLASH_PAGE_SIZE - 8 * length cs)" using assms(2) by (simp add: ctr_view_def)
  have g: "?g = (\<lambda>x. if ?a \<le> x \<and> x < ?a + 4 then u32_le_bytes w ! (x - ?a) else f x)"
  proof (rule program_word[OF assms(1)])
    show "?a mod 8 = 0" by (simp add: page_defs)
    show "erased f ?a 8" using assms(3) by (intro erased_mono[OF er]) (simp_all add: FLASH_PAGE_SIZE_def)
  qed
  have "rd32 ?g (flash_addr COUNTER1_PAGE + 8 * i) = (cs @ [w]) ! i" if "i < Suc (length cs)" for i
  proof (cases "i = length cs")
    case True
    moreover have "rd32 ?g ?a = w" unfolding g by (rule rd32_write[where g = f]) simp
    ultimately show ?thesis by simp
  next
    case False
    then have "rd32 ?g (flash_addr COUNTER1_PAGE + 8 * i) = rd32 f (flash_addr COUNTER1_PAGE + 8 * i)"
      using that by (intro rd32_cong) (auto simp: g)
    then show ?thesis using assms(2) that False by (simp add: ctr_view_def nth_append)
  qed
  moreover have "erased ?g (?a + 8) (FLASH_PAGE_SIZE - 8 * Suc (length cs))"
    using er assms(3) by (auto simp: erased_def g FLASH_PAGE_SIZE_def)
  moreover have "sorted_wrt (<) (cs @ [w])"
  proof -
    have "c < w" if "c \<in> set cs" for c
    proof -
      have "cs \<noteq> []" using that by auto
      moreover have "c \<le> last cs"
        using that assms(2) by (auto simp: ctr_view_def intro: sorted_wrt_le_last)
      ultimately show ?thesis using assms(6) by (meson order.strict_trans1)
    qed
    then show ?thesis using assms(2) by (simp add: ctr_view_def sorted_wrt_append)
  qed
  moreover have "rd32 ?g (flash_addr COUNTER2_PAGE) = rd32 f (flash_addr COUNTER2_PAGE)"
    unfolding g by (rule rd32_cong) (auto simp: page_defs)
  ultimately show ?thesis using assms(2,3,4,5)
    by (auto simp: ctr_view_def ac_simps)
qed


lemma scan_view:
  assumes "ctr_view f cs e" "i \<le> length cs"
  shows "count_scan f (2 * i) c = (2 * length cs, if i = length cs then c else last cs)"
  using assms(2)
proof (induction "length cs - i" arbitrary: i c)
  case 0
  then have i: "i = length cs" by simp
  have "rd32 f (flash_addr COUNTER1_PAGE + 2 * i * 4) = 0xffffffff" if "2 * i < FLASH_PAGE_SIZE div 4"
  proof -
    have "erased f (flash_addr COUNTER1_PAGE + 8 * length cs) (FLASH_PAGE_SIZE - 8 * length cs)"
      using assms(1) by (simp add: ctr_view_def)
    then have "erased f (flash_addr COUNTER1_PAGE + 2 * i * 4) 4"
      by (rule erased_mono) (use that i in \<open>simp_all add: FLASH_PAGE_SIZE_def\<close>)
    then show ?thesis by (rule rd32_erased)
  qed
  then show ?case using i by (subst count_scan.simps) (simp add: Let_def)
next
  case (Suc n)
  then have i: "i < length cs" by simp
  have "rd32 f (flash_addr COUNTER1_PAGE + 2 * i * 4) = cs ! i" "cs ! i \<noteq> 0xffffffff" "length cs \<le> 256"
    using assms(1) i by (auto simp: ctr_view_def mult.commute)
  then have "count_scan f (2 * i) c = count_scan f (2 * Suc i) (cs ! i)"
    using i by (subst count_scan.simps) (simp add: Let_def FLASH_PAGE_SIZE_def)
  also have "\<dots> = (2 * length cs, if Suc i = length cs then cs ! i else last cs)"
    using Suc(2) i by (intro Suc(1)) auto
  moreover have "cs ! i = last cs" if "Suc i = length cs"
    using that by (metis diff_Suc_1 last_conv_nth length_0_conv nat.distinct(1))
  ultimately show ?case using i by auto
qed

lemma scan_start:
  assumes "ctr_view f cs e"
  shows "count_scan f 0 0 = (2 * length cs, if cs = [] then 0 else last cs)"
  using scan_view[OF assms, of 0 0] by auto

lemma view_last: "ctr_view f cs e \<Longrightarrow> cs \<noteq> [] \<Longrightarrow> last cs \<noteq> 0 \<and> last cs \<noteq> 0xffffffff"
  by (simp add: ctr_view_def)

lemma counter_floor_view: "ctr_view f cs e \<Longrightarrow> counter_floor f = floor_of cs e"
  using scan_start[of f cs e] view_last[of f cs e]
  by (auto simp: counter_floor_def floor_of_def ctr_view_def)

subsection \<open>Every prefix of the operations\<close>

fun always :: "prog_fn \<Rightarrow> (flash \<Rightarrow> bool) \<Rightarrow> flash_op list \<Rightarrow> flash \<Rightarrow> bool" where
  "always prog P [] f = P f"
| "always prog P (op # ops) f = (P f \<and> always prog P ops (flash_exec prog op f))"

lemma always_append:
  "always prog P (a @ b) f \<longleftrightarrow> always prog P a f \<and> always prog P b (flash_run prog a f)"
proof (induction a arbitrary: f)
  case Nil
  show ?case by (cases b) auto
qed auto

lemma always_take: "always prog P ops f \<Longrightarrow> P (flash_run prog (take k ops) f)"
proof (induction ops arbitrary: f k)
  case (Cons op ops)
  then show ?case by (cases k) auto
qed simp

definition at_least :: "nat \<Rightarrow> flash \<Rightarrow> bool" where
  "at_least n f \<longleftrightarrow> (\<exists>cs e. ctr_view f cs e \<and> n \<le> floor_of cs e)"

lemma at_leastI: "ctr_view f cs e \<Longrightarrow> n \<le> floor_of cs e \<Longrightarrow> at_least n f"
  by (auto simp: at_least_def)

lemma at_least_ok: "at_least n f \<longleftrightarrow> ctr_ok f \<and> n \<le> counter_floor f"
  unfolding at_least_def ctr_ok_def by (metis counter_floor_view)

lemma rewrite_word_ops:
  "rewrite_word p w = [FErase p, FProgram (flash_addr p) (u32_le_bytes w @ replicate 4 0xff)]"
proof -
  have "flash_addr p mod 8 = 0" by (simp add: flash_addr_def FLASH_PAGE_SIZE_def mod_mult_right_eq[symmetric])
  then show ?thesis by (simp add: rewrite_word_def u32_word_ops)
qed

lemma rewrite2:
  assumes hw: "prog_ok prog" and v: "ctr_view f cs e"
    and n: "n \<le> floor_of cs e" "n \<le> floor_of cs 0xffffffff" "n \<le> floor_of cs w"
  shows "always prog (at_least n) (rewrite_word COUNTER2_PAGE w) f
    \<and> ctr_view (flash_run prog (rewrite_word COUNTER2_PAGE w) f) cs w"
  using v n view_erase2[OF v] view_program2[OF hw, of "flash_erase_page COUNTER2_PAGE f" cs "0xffffffff" w]
  by (auto simp: rewrite_word_ops at_least_def)

lemma rewrite1_empty:
  assumes hw: "prog_ok prog" and v: "ctr_view f [] e"
    and n: "n \<le> floor_of [] e" "n \<le> unat w" "w \<noteq> 0" "w \<noteq> 0xffffffff"
  shows "always prog (at_least n) (rewrite_word COUNTER1_PAGE w) f
    \<and> ctr_view (flash_run prog (rewrite_word COUNTER1_PAGE w) f) [w] e"
proof -
  note v1 = view_erase1[OF v]
  have v2: "ctr_view (flash_exec prog (FProgram (flash_addr COUNTER1_PAGE) (u32_le_bytes w @ replicate 4 0xff))
      (flash_erase_page COUNTER1_PAGE f)) [w] e"
    using view_program1[OF hw v1, of w] n(3,4) by simp
  have "at_least n f" "at_least n (flash_erase_page COUNTER1_PAGE f)"
    using v v1 n(1) by (auto simp: at_least_def)
  moreover have "n \<le> floor_of [w] e" using n(2) by (simp add: floor_of_def)
  ultimately show ?thesis using v2
    by (auto simp: rewrite_word_ops at_least_def)
qed


subsection \<open>One call\<close>

lemma u32_of_u8_nibble: "unat (ucast (r AND 0x0f :: u8) + 1 :: u32) \<le> 16 \<and> 0 < unat (ucast (r AND 0x0f :: u8) + 1 :: u32)"
proof -
  have "unat (r AND 0x0f) < 16"
    using word_and_le1[of r "0x0f"] by (simp add: word_le_nat_alt)
  moreover have "unat (ucast (r AND 0x0f) + 1 :: u32) = unat (r AND 0x0f) + 1"
    using unat_u8_lt[of "r AND 0x0f"] by (simp add: unat_word_ariths)
  ultimately show ?thesis by simp
qed

lemma u32_plus: "unat (a :: u32) + unat b < 4294967296 \<Longrightarrow> unat (a + b) = unat a + unat b"
  by (simp add: unat_word_ariths)

lemma u32_mark: "unat (e :: u32) < 16777215 \<Longrightarrow> unat (e * 256 + 1) = 256 * unat e + 1"
  by (simp add: unat_word_ariths)

lemma u32_div: "unat ((a :: u32) div 256) = unat a div 256"
  by (simp add: unat_div_distrib)

text \<open>A call from a good state with room below \<open>2 ^ 31\<close>: its flash operations keep the floor at
  every point, and end with the returned value as the floor.\<close>

lemma atomic_count_call:
  assumes hw: "prog_ok prog" and v: "ctr_view f cs e" and b: "floor_of cs e < 2 ^ 31"
    and amt: "amount \<le> 256" and sc: "unat sc \<le> floor_of cs e"
    and step: "atomic_count_ops amount rng f sc = (ops, r, sc')"
  shows "\<exists>w cs' e'. r = Some w \<and> always prog (at_least (floor_of cs e)) ops f
     \<and> ctr_view (flash_run prog ops f) cs' e' \<and> cs' \<noteq> [] \<and> last cs' = w
     \<and> floor_of cs e < unat w \<and> unat w \<le> floor_of cs e + 256 \<and> unat sc' \<le> unat w"
proof -
  let ?n = "floor_of cs e"
  define e0 where "e0 = (if e = 0xffffffff then 1 else e)"
  define ops0 where "ops0 = (if e = 0xffffffff then rewrite_word COUNTER2_PAGE 1 else [])"
  define f0 where "f0 = flash_run prog ops0 f"
  have fl0: "floor_of cs e0 = ?n" by (simp add: e0_def floor_of_def)
  have r0: "always prog (at_least ?n) ops0 f" "ctr_view f0 cs e0"
    using rewrite2[OF hw v, of ?n 1] v fl0
    by (auto simp: ops0_def f0_def e0_def at_least_def floor_of_def)
  define am where "am = (if amount = 0 then ucast (rng AND 0x0f) + 1 else amount)"
  have "unat amount \<le> 256" using amt by (simp add: word_le_nat_alt)
  then have am: "0 < unat am" "unat am \<le> 256" "\<not> am > 256"
    using u32_of_u8_nibble[of rng] unat_eq_0[of amount] by (auto simp: am_def word_less_nat_alt)
  have rd2: "rd32 f (flash_addr COUNTER2_PAGE) = e" using v by (simp add: ctr_view_def)
  note scan = scan_start[OF v]
  show ?thesis
  proof (cases "cs = []")
    case True
    have e0n: "e0 \<noteq> 0xffffffff" "?n = 256 * unat e0"
      by (auto simp: e0_def floor_of_def True)
    then have ub: "unat e0 < 16777215" using b by simp
    let ?w = "e0 * 256 + 1"
    have w: "unat ?w = ?n + 1" using u32_mark[OF ub] e0n by simp
    have wn: "?w \<noteq> 0" "?w \<noteq> 0xffffffff" using w b by (auto simp flip: unat_eq_0)
    have ops: "ops = ops0 @ rewrite_word COUNTER1_PAGE ?w @ rewrite_word COUNTER2_PAGE (e0 + 1)"
      "r = Some ?w" "sc' = sc"
      using step True scan rd2 by (auto simp: atomic_count_ops_def ops0_def e0_def Let_def split: if_splits)
    have r1: "always prog (at_least ?n) (rewrite_word COUNTER1_PAGE ?w) f0"
      "ctr_view (flash_run prog (rewrite_word COUNTER1_PAGE ?w) f0) [?w] e0"
      using rewrite1_empty[OF hw r0(2)[unfolded True], of ?n ?w] w wn fl0 True by auto
    have "?n \<le> floor_of [?w] x" for x using w by (simp add: floor_of_def)
    note r2 = rewrite2[OF hw r1(2) this this this, of "e0 + 1"]
    show ?thesis
      using r0(1) r1(1) r2 w wn ops sc
      by (intro exI[of _ ?w] exI[of _ "[?w]"] exI[of _ "e0 + 1"]) (simp add: always_append f0_def)
  next
    case False
    let ?l = "last cs"
    have n: "?n = unat ?l" using False by (simp add: floor_of_def)
    have l: "?l \<noteq> 0" "?l \<noteq> 0xffffffff" using view_last[OF v False] by auto
    let ?w = "?l + am"
    have w: "unat ?w = ?n + unat am" using am b n by (subst u32_plus) simp_all
    have wn: "?w \<noteq> 0" "?w \<noteq> 0xffffffff" "?l < ?w" "?w \<noteq> sc"
      using w b am n sc by (auto simp: word_less_nat_alt simp flip: unat_eq_0)
    define ops1 where "ops1 = (if ?w div 256 > e0 then rewrite_word COUNTER2_PAGE (?w div 256) else [])"
    define e1 where "e1 = (if ?w div 256 > e0 then ?w div 256 else e0)"
    define f1 where "f1 = flash_run prog ops1 f0"
    have fl: "?n \<le> floor_of cs x" for x using False by (simp add: floor_of_def)
    have r1: "always prog (at_least ?n) ops1 f0" "ctr_view f1 cs e1"
      using rewrite2[OF hw r0(2) fl fl fl] r0(2) fl
      by (auto simp: ops1_def f1_def e1_def at_least_def)
    have len: "length cs \<le> 256" using v by (simp add: ctr_view_def)
    show ?thesis
    proof (cases "length cs = 256")
      case True
      let ?e2 = "?w div 256 + 1"
      let ?ops2 = "rewrite_word COUNTER2_PAGE ?e2 @ [FErase COUNTER1_PAGE]"
      let ?ops3 = "flash_write_ops (flash_addr COUNTER1_PAGE) (u32_le_bytes ?w)"
      have ops: "ops = ops0 @ ops1 @ ?ops2 @ ?ops3" "r = Some ?w" "sc' = ?w"
        using step True False scan rd2 l am(3) wn(4)
        by (auto simp: atomic_count_ops_def ops0_def ops1_def e0_def am_def FLASH_PAGE_SIZE_def
            Let_def split: if_splits)
      define f2 where "f2 = flash_run prog (rewrite_word COUNTER2_PAGE ?e2) f1"
      have r2: "always prog (at_least ?n) (rewrite_word COUNTER2_PAGE ?e2) f1" "ctr_view f2 cs ?e2"
        using rewrite2[OF hw r1(2) fl fl fl] by (auto simp: f2_def)
      have ue2: "unat ?e2 = unat ?w div 256 + 1"
        using w b am by (subst u32_plus) (simp_all add: u32_div)
      then have "?e2 \<noteq> 0xffffffff" using w b am by auto
      then have fle: "unat ?w < floor_of [] ?e2" using ue2 by (simp add: floor_of_def)
      note v3 = view_erase1[OF r2(2)]
      have al: "flash_addr COUNTER1_PAGE mod 8 = 0" by (simp add: page_defs)
      have v4: "ctr_view (flash_exec prog (FProgram (flash_addr COUNTER1_PAGE)
          (u32_le_bytes ?w @ replicate 4 0xff)) (flash_erase_page COUNTER1_PAGE f2)) [?w] ?e2"
        using view_program1[OF hw v3, of ?w] wn by simp
      have p: "at_least ?n f2" "at_least ?n (flash_erase_page COUNTER1_PAGE f2)"
        using at_leastI[OF r2(2) fl] at_leastI[OF v3, of ?n] fle w by simp_all
      have p4: "at_least ?n (flash_exec prog (FProgram (flash_addr COUNTER1_PAGE)
          (u32_le_bytes ?w @ replicate 4 0xff)) (flash_erase_page COUNTER1_PAGE f2))"
        by (rule at_leastI[OF v4]) (use w n in \<open>simp add: floor_of_def\<close>)
      show ?thesis
        using r0(1) r1(1) r2(1) p p4 v4 w am ops
        by (intro exI[of _ ?w] exI[of _ "[?w]"] exI[of _ ?e2])
           (simp add: always_append f0_def f1_def f2_def u32_word_ops[OF al])
    next
      case neq: False
      let ?a = "flash_addr COUNTER1_PAGE + 8 * length cs"
      have ops: "ops = ops0 @ ops1 @ flash_write_ops ?a (u32_le_bytes ?w)" "r = Some ?w" "sc' = ?w"
        using step neq False scan rd2 l am(3) wn(4)
        by (auto simp: atomic_count_ops_def ops0_def ops1_def e0_def am_def FLASH_PAGE_SIZE_def
            Let_def split: if_splits)
      have al: "?a mod 8 = 0" by (simp add: page_defs)
      have v4: "ctr_view (flash_exec prog (FProgram ?a (u32_le_bytes ?w @ replicate 4 0xff)) f1)
          (cs @ [?w]) e1"
        using view_program1[OF hw r1(2), of ?w] wn neq len by simp
      have p4: "at_least ?n (flash_exec prog (FProgram ?a (u32_le_bytes ?w @ replicate 4 0xff)) f1)"
        by (rule at_leastI[OF v4]) (use w n in \<open>simp add: floor_of_def\<close>)
      have p: "at_least ?n f1" using r1(2) fl by (auto simp: at_least_def)
      show ?thesis
        using r0(1) r1(1) p p4 v4 w am ops
        by (intro exI[of _ ?w] exI[of _ "cs @ [?w]"] exI[of _ e1])
           (simp add: always_append f0_def f1_def u32_word_ops[OF al])
    qed
  qed
qed


lemma ctr_ok_fresh: "erased f (flash_addr COUNTER2_PAGE) 4096 \<Longrightarrow> ctr_view f [] 0xffffffff"
  by (auto simp: ctr_view_def page_defs intro!: rd32_erased elim: erased_mono)

lemma atomic_count_safe:
  assumes "prog_ok prog" "ctr_ok f" "counter_floor f < 2 ^ 31" "amount \<le> 256"
    and "unat sc \<le> counter_floor f" "atomic_count_ops amount rng f sc = (ops, r, sc')"
  shows "(\<forall>k. ctr_ok (flash_run prog (take k ops) f)
              \<and> counter_floor f \<le> counter_floor (flash_run prog (take k ops) f))
    \<and> (\<exists>w f'. ctap_atomic_count prog amount rng (f, sc) = (Some w, f', sc')
         \<and> counter_floor f < unat w \<and> unat w \<le> counter_floor f + 256
         \<and> ctr_ok f' \<and> counter_floor f' = unat w \<and> unat sc' \<le> unat w)"
proof -
  obtain cs e where v: "ctr_view f cs e" using assms(2) by (auto simp: ctr_ok_def)
  have fl: "counter_floor f = floor_of cs e" by (rule counter_floor_view[OF v])
  obtain w cs' e' where c: "r = Some w" "always prog (at_least (floor_of cs e)) ops f"
    "ctr_view (flash_run prog ops f) cs' e'" "cs' \<noteq> []" "last cs' = w"
    "floor_of cs e < unat w" "unat w \<le> floor_of cs e + 256" "unat sc' \<le> unat w"
    using atomic_count_call[OF assms(1) v _ assms(4) _ assms(6)] assms(3,5) fl by auto
  have "counter_floor (flash_run prog ops f) = unat w"
    using counter_floor_view[OF c(3)] c(4,5) by (simp add: floor_of_def)
  moreover have "ctr_ok (flash_run prog ops f)" using c(3) by (auto simp: ctr_ok_def)
  ultimately show ?thesis
    using always_take[OF c(2)] c(1,6-8) fl assms(6) by (simp add: ctap_atomic_count_def at_least_ok)
qed

text \<open>C14 (safety, power cuts). Below 2^31 counts, a call with an amount of at most 256 (0 asks for a
  random one) always returns, returns more than any value the flash stood for before, at most 256
  more, and leaves that value in the flash; and wherever the power is cut between two of its flash
  operations, the flash it leaves is again a valid counter that stands for no less than before.\<close>

theorem atomic_count_power_safe:
  assumes "prog_ok prog" "ctr_ok f" "counter_floor f < 2 ^ 31" "amount \<le> 256"
    and "unat sc \<le> counter_floor f" "atomic_count_ops amount rng f sc = (ops, r, sc')"
  shows "(\<forall>k. ctr_ok (flash_run prog (take k ops) f)
              \<and> counter_floor f \<le> counter_floor (flash_run prog (take k ops) f))
    \<and> (\<exists>w f'. ctap_atomic_count prog amount rng (f, sc) = (Some w, f', sc')
         \<and> counter_floor f < unat w \<and> unat w \<le> counter_floor f + 256
         \<and> ctr_ok f' \<and> counter_floor f' = unat w \<and> unat sc' \<le> unat w)"
  by (rule atomic_count_safe[OF assms])

definition blank_flash :: flash where "blank_flash = (\<lambda>_. 0xff)"

lemma blank_counter: "ctr_ok blank_flash" "counter_floor blank_flash = 256"
proof -
  have "ctr_view blank_flash [] 0xffffffff" by (rule ctr_ok_fresh) (simp add: erased_def blank_flash_def)
  then show "ctr_ok blank_flash" "counter_floor blank_flash = 256"
    by (auto simp: ctr_ok_def counter_floor_view floor_of_def)
qed

theorem atomic_count_power_safe_witness:
  "\<exists>w f' sc'. ctap_atomic_count stm_prog 1 0 (blank_flash, 0) = (Some w, f', sc') \<and> 256 < unat w
     \<and> ctr_ok f' \<and> counter_floor f' = unat w"
proof -
  obtain ops r sc' where "atomic_count_ops 1 0 blank_flash 0 = (ops, r, sc')" by (metis prod_cases3)
  from atomic_count_power_safe[OF stm_prog_ok blank_counter(1) _ _ _ this] show ?thesis
    by (auto simp: blank_counter(2))
qed

text \<open>The life of a device: completed calls, whose results the relation collects, and calls cut
  after any number of flash operations (the static variable starts again from 0 after the reboot).\<close>

inductive counter_run :: "prog_fn \<Rightarrow> flash \<times> u32 \<Rightarrow> nat list \<Rightarrow> flash \<times> u32 \<Rightarrow> bool"
  for prog st0 where
  start: "counter_run prog st0 [] st0"
| count: "\<lbrakk>counter_run prog st0 vs (f, sc); counter_floor f < 2 ^ 31; amount \<le> 256;
           ctap_atomic_count prog amount rng (f, sc) = (Some v, st')\<rbrakk>
          \<Longrightarrow> counter_run prog st0 (vs @ [unat v]) st'"
| cut: "\<lbrakk>counter_run prog st0 vs (f, sc); counter_floor f < 2 ^ 31; amount \<le> 256;
         atomic_count_ops amount rng f sc = (ops, r, sc')\<rbrakk>
        \<Longrightarrow> counter_run prog st0 vs (flash_run prog (take k ops) f, 0)"

inductive_cases counter_run_empty: "counter_run prog st0 [] st"

lemma counter_run_inv:
  assumes run: "counter_run prog st0 vs st" and hw: "prog_ok prog"
    and i: "ctr_ok (fst st0)" "unat (snd st0) \<le> counter_floor (fst st0)"
  shows "ctr_ok (fst st) \<and> unat (snd st) \<le> counter_floor (fst st)
     \<and> (\<forall>v\<in>set vs. v \<le> counter_floor (fst st)) \<and> sorted_wrt (<) vs"
  using run
proof induction
  case start
  then show ?case using i by simp
next
  case (count vs f sc amount rng v st')
  obtain ops r sc' where s: "atomic_count_ops amount rng f sc = (ops, r, sc')" by (metis prod_cases3)
  have "ctr_ok f" "unat sc \<le> counter_floor f" using count by simp_all
  from atomic_count_safe[OF hw this(1) count(2,3) this(2) s] count
  show ?case by (force simp: sorted_wrt_append)
next
  case (cut vs f sc amount rng ops r sc' k)
  then have "ctr_ok f" "unat sc \<le> counter_floor f" by simp_all
  from atomic_count_safe[OF hw this(1) cut(2,3) this(2) cut(4)] cut
  show ?case by (auto intro: order_trans)
qed

text \<open>C13 (safety, whole histories). From any valid flash, whatever sequence of counts and power cuts
  the device goes through below 2^31, the counts it hands out are strictly increasing, and the next
  call still returns, with a count above all of them.\<close>

theorem counter_history_increasing:
  assumes "prog_ok prog" "ctr_ok f0" "counter_run prog (f0, 0) vs (f, sc)"
    and "counter_floor f < 2 ^ 31" "amount \<le> 256"
  shows "sorted_wrt (<) vs
    \<and> (\<exists>w st'. ctap_atomic_count prog amount rng (f, sc) = (Some w, st') \<and> (\<forall>v\<in>set vs. v < unat w))"
proof -
  have i: "ctr_ok f" "unat sc \<le> counter_floor f" "\<forall>v\<in>set vs. v \<le> counter_floor f" "sorted_wrt (<) vs"
    using counter_run_inv[OF assms(3,1)] assms(2) by auto
  obtain ops r sc' where s: "atomic_count_ops amount rng f sc = (ops, r, sc')" by (metis prod_cases3)
  from atomic_count_safe[OF assms(1) i(1) assms(4,5) i(2) s] i(3,4) show ?thesis by fastforce
qed

theorem counter_history_increasing_witness:
  "\<exists>w st'. ctap_atomic_count stm_prog 0 7 (blank_flash, 0) = (Some w, st')"
  using counter_history_increasing[OF stm_prog_ok blank_counter(1) counter_run.start, of 0 7]
  by (simp add: blank_counter(2))

end
