(* ===== verification/HidChannel.thy ===== *)
theory HidChannel
  imports FwPrelude
begin

text \<open>
  \<^verbatim>\<open>fido2/ctaphid.c\<close>: the CTAPHID transport. Reports of 64 bytes are reassembled into one message
  buffer for one channel at a time, dispatched by command, and the response is cut into reports.
  Part 1 is the writer, part 2 the channel table and the reassembly buffer, part 3 the dispatcher.
\<close>

definition HID_MESSAGE_SIZE :: nat where "HID_MESSAGE_SIZE = 64"
definition CTAPHID_INIT_PAYLOAD_SIZE :: nat where "CTAPHID_INIT_PAYLOAD_SIZE = HID_MESSAGE_SIZE - 7"
definition CTAPHID_CONT_PAYLOAD_SIZE :: nat where "CTAPHID_CONT_PAYLOAD_SIZE = HID_MESSAGE_SIZE - 5"
definition CTAPHID_BUFFER_SIZE :: nat where "CTAPHID_BUFFER_SIZE = 7609"

lemmas hid_sizes = HID_MESSAGE_SIZE_def CTAPHID_INIT_PAYLOAD_SIZE_def CTAPHID_CONT_PAYLOAD_SIZE_def
  CTAPHID_BUFFER_SIZE_def

definition CTAPHID_BROADCAST_CID :: u32 where "CTAPHID_BROADCAST_CID = 0xffffffff"
definition TYPE_INIT :: u8 where "TYPE_INIT = 0x80"
definition CTAPHID_PING :: u8 where "CTAPHID_PING = 0x81"
definition CTAPHID_MSG :: u8 where "CTAPHID_MSG = 0x83"
definition CTAPHID_INIT :: u8 where "CTAPHID_INIT = 0x86"
definition CTAPHID_WINK :: u8 where "CTAPHID_WINK = 0x88"
definition CTAPHID_CBOR :: u8 where "CTAPHID_CBOR = 0x90"
definition CTAPHID_CANCEL :: u8 where "CTAPHID_CANCEL = 0x91"
definition CTAPHID_ERROR :: u8 where "CTAPHID_ERROR = 0xbf"
definition CTAPHID_KEEPALIVE :: u8 where "CTAPHID_KEEPALIVE = 0xbb"
definition CTAPHID_ENTERBOOT :: u8 where "CTAPHID_ENTERBOOT = 0xd1"
definition CTAPHID_REBOOT :: u8 where "CTAPHID_REBOOT = 0xd3"
definition CTAPHID_GETRNG :: u8 where "CTAPHID_GETRNG = 0xe0"
definition CTAPHID_GETVERSION :: u8 where "CTAPHID_GETVERSION = 0xe1"
definition CTAPHID_GETSTATUS :: u8 where "CTAPHID_GETSTATUS = 0xf1"
definition ERR_INVALID_COMMAND :: u8 where "ERR_INVALID_COMMAND = 0x01"
definition ERR_INVALID_LENGTH :: u8 where "ERR_INVALID_LENGTH = 0x03"
definition ERR_INVALID_SEQ :: u8 where "ERR_INVALID_SEQ = 0x04"
definition ERR_TIMEOUT :: u8 where "ERR_TIMEOUT = 0x05"
definition ERR_CHANNEL_BUSY :: u8 where "ERR_CHANNEL_BUSY = 0x06"
definition ERR_INVALID_CHANNEL :: u8 where "ERR_INVALID_CHANNEL = 0x0b"

lemmas hid_cmds = TYPE_INIT_def CTAPHID_PING_def CTAPHID_MSG_def CTAPHID_INIT_def CTAPHID_WINK_def
  CTAPHID_CBOR_def CTAPHID_CANCEL_def CTAPHID_ERROR_def CTAPHID_KEEPALIVE_def CTAPHID_ENTERBOOT_def
  CTAPHID_REBOOT_def CTAPHID_GETRNG_def CTAPHID_GETVERSION_def CTAPHID_GETSTATUS_def

lemmas hid_errs = ERR_INVALID_COMMAND_def ERR_INVALID_LENGTH_def ERR_INVALID_SEQ_def ERR_TIMEOUT_def
  ERR_CHANNEL_BUSY_def ERR_INVALID_CHANNEL_def

subsection \<open>The writer\<close>

record wbuf =
  w_cmd :: u8
  w_cid :: u32
  w_bcnt :: u16
  w_off :: nat
  w_written :: nat
  w_seq :: u8
  w_buf :: bytes

definition ctaphid_write_buffer_init :: wbuf where
  "ctaphid_write_buffer_init =
     \<lparr>w_cmd = 0, w_cid = 0, w_bcnt = 0, w_off = 0, w_written = 0, w_seq = 0, w_buf = replicate 64 0\<rparr>"

definition wb_put_init :: "wbuf \<Rightarrow> wbuf" where
  "wb_put_init wb = wb\<lparr>w_buf := blit (w_buf wb) 0
      (u32_le_bytes (w_cid wb) @ [w_cmd wb, ucast (drop_bit 8 (w_bcnt wb AND 0xff00)), ucast (w_bcnt wb AND 0xff)]),
      w_off := 7\<rparr>"

definition wb_put_cont :: "wbuf \<Rightarrow> wbuf" where
  "wb_put_cont wb = wb\<lparr>w_buf := blit (w_buf wb) 0 (u32_le_bytes (w_cid wb) @ [w_seq wb]),
      w_seq := w_seq wb + 1, w_off := 5\<rparr>"

text \<open>The body of the write loop for one byte; the reports sent are returned in order.\<close>

definition wb_put_byte :: "wbuf \<Rightarrow> u8 \<Rightarrow> bytes list \<times> wbuf" where
  "wb_put_byte wb b =
     (let wb = (if w_off wb = 0 then (if w_written wb = 0 then wb_put_init wb else wb_put_cont wb)
                else wb);
          wb = wb\<lparr>w_buf := (w_buf wb)[w_off wb := b], w_off := w_off wb + 1,
                  w_written := w_written wb + 1\<rparr> in
      if w_off wb = 64 then ([w_buf wb], wb\<lparr>w_off := 0\<rparr>) else ([], wb))"

primrec ctaphid_write :: "wbuf \<Rightarrow> bytes \<Rightarrow> bytes list \<times> wbuf" where
  "ctaphid_write wb [] = ([], wb)"
| "ctaphid_write wb (b # bs) =
     (let (rs, wb) = wb_put_byte wb b; (rs', wb) = ctaphid_write wb bs in (rs @ rs', wb))"

definition ctaphid_flush :: "wbuf \<Rightarrow> bytes list \<times> wbuf" where
  "ctaphid_flush wb =
     (let wb = (if w_off wb = 0 \<and> w_written wb = 0 then wb_put_init wb else wb) in
      if w_off wb > 0 then
        let wb = wb\<lparr>w_buf := memset (w_buf wb) (w_off wb) 0 (64 - w_off wb)\<rparr> in ([w_buf wb], wb)
      else ([], wb))"

text \<open>A response is written with a call per piece and a flush.\<close>

definition write_message :: "wbuf \<Rightarrow> bytes \<Rightarrow> bytes list \<times> wbuf" where
  "write_message wb d = (let (rs, wb) = ctaphid_write wb d; (rs', wb) = ctaphid_flush wb in (rs @ rs', wb))"

text \<open>The reports of a message, from the CTAPHID specification: one initialization packet, then
  continuation packets numbered from 0, each padded with zeros.\<close>

function cont_packets :: "u32 \<Rightarrow> u8 \<Rightarrow> bytes \<Rightarrow> bytes list" where
  "cont_packets cid seq d =
     (if d = [] then []
      else (u32_le_bytes cid @ [seq] @ take 59 d @ replicate (59 - length d) 0)
           # cont_packets cid (seq + 1) (drop 59 d))"
  by pat_completeness auto
termination by (relation "measure (\<lambda>(cid, seq, d). length d)") auto

declare cont_packets.simps [simp del]

lemma cont_packets_Nil [simp]: "cont_packets cid seq [] = []"
  by (simp add: cont_packets.simps)

definition hid_packets :: "u32 \<Rightarrow> u8 \<Rightarrow> bytes \<Rightarrow> bytes list" where
  "hid_packets cid cmd d =
     (u32_le_bytes cid @ [cmd, of_nat (length d div 256), of_nat (length d)]
      @ take 57 d @ replicate (57 - length d) 0) # cont_packets cid 0 (drop 57 d)"

lemma ctaphid_write_append:
  "ctaphid_write wb (a @ b) =
     (let (rs, wb) = ctaphid_write wb a; (rs', wb) = ctaphid_write wb b in (rs @ rs', wb))"
  by (induction a arbitrary: wb) (auto split: prod.splits simp: Let_def)

text \<open>Inside one report: the bytes are appended, and the report goes out when it is full.\<close>

lemma write_within:
  assumes "0 < w_off wb" "w_off wb + length d \<le> 64" "length (w_buf wb) = 64" "d \<noteq> []"
  shows "ctaphid_write wb d =
    (let wb' = wb\<lparr>w_buf := blit (w_buf wb) (w_off wb) d, w_off := w_off wb + length d,
                  w_written := w_written wb + length d\<rparr>
     in if w_off wb' = 64 then ([w_buf wb'], wb'\<lparr>w_off := 0\<rparr>) else ([], wb'))"
  using assms
proof (induction d arbitrary: wb)
  case (Cons b d)
  let ?w = "wb\<lparr>w_buf := (w_buf wb)[w_off wb := b], w_off := w_off wb + 1, w_written := w_written wb + 1\<rparr>"
  have b: "(w_buf wb)[w_off wb := b] = blit (w_buf wb) (w_off wb) [b]"
    using Cons.prems by (simp add: blit_def upd_conv_take_nth_drop)
  show ?case
  proof (cases "d = []")
    case True
    then show ?thesis using Cons.prems b by (auto simp: wb_put_byte_def Let_def)
  next
    case False
    then have off: "w_off wb + 1 \<noteq> 64" using Cons.prems(2) by (cases d) auto
    have bb: "blit ((w_buf wb)[w_off wb := b]) (Suc (w_off wb)) d = blit (w_buf wb) (w_off wb) (b # d)"
      unfolding b using Cons.prems by (subst blit_append_fill) auto
    have "ctaphid_write ?w d = (let wb' = ?w\<lparr>w_buf := blit (w_buf ?w) (w_off ?w) d,
         w_off := w_off ?w + length d, w_written := w_written ?w + length d\<rparr>
       in if w_off wb' = 64 then ([w_buf wb'], wb'\<lparr>w_off := 0\<rparr>) else ([], wb'))"
      using Cons.prems False by (intro Cons.IH) simp_all
    then show ?thesis using Cons.prems(1) off bb by (simp add: wb_put_byte_def Let_def)
  qed
qed simp

lemma write_starts:
  assumes "d \<noteq> []" "w_off wb = 0"
  shows "ctaphid_write wb d = ctaphid_write (if w_written wb = 0 then wb_put_init wb else wb_put_cont wb) d"
  using assms by (cases d) (simp_all add: wb_put_byte_def Let_def wb_put_init_def wb_put_cont_def)

lemma blit_whole: "length xs = length dst \<Longrightarrow> blit dst 0 xs = xs"
  by (simp add: blit_def)

text \<open>A fresh report: header, then at most a report's worth of data.\<close>

lemma write_report:
  assumes "w_off wb = 0" "length (w_buf wb) = 64" "c \<noteq> []"
    and h: "h = (if w_written wb = 0 then wb_put_init wb else wb_put_cont wb)"
    and hd: "w_buf h = blit (w_buf wb) 0 hdr" "w_off h = length hdr"
    and fit: "length hdr + length c \<le> 64" "0 < length hdr" "length (w_buf h) = 64" "w_written h = w_written wb"
  shows "ctaphid_write wb c =
    (let wb' = h\<lparr>w_buf := blit (w_buf wb) 0 (hdr @ c), w_off := length hdr + length c,
                 w_written := w_written wb + length c\<rparr>
     in if length hdr + length c = 64 then ([hdr @ c], wb'\<lparr>w_off := 0\<rparr>) else ([], wb'))"
proof -
  have w: "ctaphid_write wb c = ctaphid_write h c"
    using write_starts[OF assms(3,1)] h by simp
  have b: "blit (w_buf h) (length hdr) c = blit (w_buf wb) 0 (hdr @ c)"
    unfolding hd(1) by (rule blit_append_fill) simp_all
  have f: "length hdr + length c = 64 \<Longrightarrow> blit (w_buf wb) 0 (hdr @ c) = hdr @ c"
    using assms(2) by (intro blit_whole) simp
  show ?thesis
    unfolding w using write_within[of h c] fit assms(3) hd(2) b f by (simp add: Let_def)
qed

lemma flush_report:
  assumes "length (w_buf wb) = 64" "w_buf wb = blit b 0 (hdr @ c)" "w_off wb = length hdr + length c"
    and "0 < w_off wb" "w_off wb \<le> 64" "length b = 64"
  shows "ctaphid_flush wb =
     ([hdr @ c @ replicate (64 - (length hdr + length c)) 0],
      wb\<lparr>w_buf := hdr @ c @ replicate (64 - (length hdr + length c)) 0\<rparr>)"
proof -
  have "memset (w_buf wb) (w_off wb) 0 (64 - w_off wb)
      = blit b 0 ((hdr @ c) @ replicate (64 - (length hdr + length c)) 0)"
    unfolding memset_def assms(2,3) by (rule blit_append_fill) simp_all
  also have "\<dots> = (hdr @ c) @ replicate (64 - (length hdr + length c)) 0"
    using assms(3,5,6) by (intro blit_whole) simp
  finally show ?thesis using assms(4) by (simp add: ctaphid_flush_def)
qed

text \<open>Continuation packets.\<close>

lemma write_conts:
  assumes "w_off wb = 0" "0 < w_written wb" "length (w_buf wb) = 64" "w_cid wb = cid" "w_seq wb = seq"
  shows "fst (write_message wb d) = cont_packets cid seq d"
  using assms
proof (induction cid seq d arbitrary: wb rule: cont_packets.induct)
  case (1 cid seq d wb)
  show ?case
  proof (cases "d = []")
    case True
    then show ?thesis using 1(2,3) by (simp add: write_message_def ctaphid_flush_def)
  next
    case False
    define c r where "c = take 59 d" and "r = drop 59 d"
    let ?h = "u32_le_bytes cid @ [seq]"
    have c: "c \<noteq> []" "length c \<le> 59" using False by (simp_all add: c_def)
    have d: "d = c @ r" by (simp add: c_def r_def)
    let ?w2 = "(wb_put_cont wb)\<lparr>w_buf := blit (w_buf wb) 0 (?h @ c), w_off := 5 + length c,
               w_written := w_written wb + length c\<rparr>"
    have wr: "ctaphid_write wb c = (if length c = 59 then ([?h @ c], ?w2\<lparr>w_off := 0\<rparr>) else ([], ?w2))"
      using write_report[of wb c "wb_put_cont wb" ?h] 1(2-6) c by (simp add: wb_put_cont_def Let_def)
    show ?thesis
    proof (cases "length c = 59")
      case True
      let ?w3 = "?w2\<lparr>w_off := 0\<rparr>"
      have "fst (write_message ?w3 r) = cont_packets cid (seq + 1) r"
        unfolding r_def by (rule 1(1)[OF False]) (use 1(3-6) True in \<open>simp_all add: wb_put_cont_def\<close>)
      moreover have "fst (write_message wb d) = [?h @ c] @ fst (write_message ?w3 r)"
        using ctaphid_write_append[of wb c r] wr True
        by (simp add: write_message_def Let_def d split: prod.splits)
      moreover have "cont_packets cid seq d = (?h @ c) # cont_packets cid (seq + 1) r"
        using False True by (subst cont_packets.simps) (simp add: d)
      ultimately show ?thesis by simp
    next
      case short: False
      then have s: "r = []" "c = d" "length c < 59" using c(2) by (auto simp: c_def r_def)
      have "ctaphid_flush ?w2 = ([?h @ c @ replicate (64 - (length ?h + length c)) 0],
          ?w2\<lparr>w_buf := ?h @ c @ replicate (64 - (length ?h + length c)) 0\<rparr>)"
        using flush_report[of ?w2 "w_buf wb" ?h c] 1(4) c by simp
      moreover have "cont_packets cid seq d = [?h @ c @ replicate (59 - length c) 0]"
        using False s by (simp add: cont_packets.simps[of cid seq d])
      ultimately show ?thesis using wr short s by (simp add: write_message_def)
    qed
  qed
qed

text \<open>A response written from a fresh write buffer is the packet sequence of the specification. The
  byte count field is taken from the buffer, so it has to be the length.\<close>

lemma write_message_packets:
  assumes "w_off wb = 0" "w_written wb = 0" "w_seq wb = 0" "length (w_buf wb) = 64"
    and "w_bcnt wb = of_nat (length d)" "length d < 65536"
  shows "fst (write_message wb d) = hid_packets (w_cid wb) (w_cmd wb) d"
proof -
  have hi: "ucast (drop_bit 8 (w_bcnt wb AND 0xff00)) = (of_nat (length d div 256) :: u8)"
    and lo: "ucast (w_bcnt wb AND 0xff) = (of_nat (length d) :: u8)"
    by (simp_all only: assms(5) u16_low_byte u16_high_byte of_nat_low_byte of_nat_high_byte)
  let ?h = "u32_le_bytes (w_cid wb) @ [w_cmd wb, of_nat (length d div 256), of_nat (length d)]"
  have put: "wb_put_init wb = wb\<lparr>w_buf := blit (w_buf wb) 0 ?h, w_off := 7\<rparr>"
    unfolding wb_put_init_def hi lo by (rule refl)
  show ?thesis
  proof (cases "d = []")
    case True
    have "ctaphid_flush (wb_put_init wb) = ([?h @ replicate 57 0], (wb_put_init wb)\<lparr>w_buf := ?h @ replicate 57 0\<rparr>)"
      using flush_report[of "wb_put_init wb" "w_buf wb" ?h "[]"] assms(4) by (simp add: put)
    moreover have "ctaphid_flush wb = ctaphid_flush (wb_put_init wb)"
      using assms(1,2) by (simp add: ctaphid_flush_def put)
    ultimately show ?thesis using True by (simp add: write_message_def hid_packets_def)
  next
    case False
    define c r where "c = take 57 d" and "r = drop 57 d"
    have c: "c \<noteq> []" "length c \<le> 57" using False by (simp_all add: c_def)
    have d: "d = c @ r" by (simp add: c_def r_def)
    let ?w2 = "(wb_put_init wb)\<lparr>w_buf := blit (w_buf wb) 0 (?h @ c), w_off := 7 + length c,
               w_written := length c\<rparr>"
    have wr: "ctaphid_write wb c = (if length c = 57 then ([?h @ c], ?w2\<lparr>w_off := 0\<rparr>) else ([], ?w2))"
      using write_report[of wb c "wb_put_init wb" ?h] assms(1,2,4) c put by (simp add: Let_def)
    show ?thesis
    proof (cases "length c = 57")
      case True
      let ?w3 = "?w2\<lparr>w_off := 0\<rparr>"
      have "fst (write_message ?w3 r) = cont_packets (w_cid wb) 0 r"
        by (rule write_conts) (use assms True in \<open>simp_all add: put\<close>)
      moreover have "fst (write_message wb d) = [?h @ c] @ fst (write_message ?w3 r)"
        using ctaphid_write_append[of wb c r] wr True
        by (simp add: write_message_def Let_def d split: prod.splits)
      moreover have "hid_packets (w_cid wb) (w_cmd wb) d = (?h @ c) # cont_packets (w_cid wb) 0 r"
        using True by (simp add: hid_packets_def d)
      ultimately show ?thesis by simp
    next
      case short: False
      then have s: "r = []" "c = d" "length c < 57" using c(2) by (auto simp: c_def r_def)
      have "ctaphid_flush ?w2 = ([?h @ c @ replicate (64 - (length ?h + length c)) 0],
          ?w2\<lparr>w_buf := ?h @ c @ replicate (64 - (length ?h + length c)) 0\<rparr>)"
        using flush_report[of ?w2 "w_buf wb" ?h c] assms(4) c by simp
      then show ?thesis using wr short s by (simp add: write_message_def hid_packets_def)
    qed
  qed
qed


subsection \<open>Channels and the reassembly buffer\<close>

record cid_ent =
  ce_cid :: u32
  ce_last_used :: u64
  ce_busy :: bool
  ce_last_cmd :: u8

text \<open>What leaves the transport: reports on the USB endpoint, and the board-level effects of the
  vendor commands.\<close>

datatype hid_out = Report bytes | Wink | EnterBoot | Reboot | LockDevice

record 'a hid =
  h_cids :: "cid_ent list"
  h_cid_seq :: u32
  h_buf :: bytes
  h_bcid :: u32
  h_bcmd :: u8
  h_bcnt :: u16
  h_off :: nat
  h_seq :: int
  h_active_ts :: u64
  h_busy :: bool
  h_wb :: wbuf
  h_out :: "hid_out list"
  h_heard :: "bytes list"
  h_app :: 'a

definition CID_MAX :: nat where "CID_MAX = 10"

definition p_cid :: "bytes \<Rightarrow> u32" where "p_cid p = le32 (p ! 0) (p ! 1) (p ! 2) (p ! 3)"
definition p_cmd :: "bytes \<Rightarrow> u8" where "p_cmd p = p ! 4"
definition ctaphid_packet_len :: "bytes \<Rightarrow> u16" where "ctaphid_packet_len p = be16 (p ! 5) (p ! 6)"

definition is_broadcast :: "bytes \<Rightarrow> bool" where "is_broadcast p \<longleftrightarrow> p_cid p = CTAPHID_BROADCAST_CID"
definition is_init_pkt :: "bytes \<Rightarrow> bool" where "is_init_pkt p \<longleftrightarrow> p_cmd p = CTAPHID_INIT"
definition is_cont_pkt :: "bytes \<Rightarrow> bool" where "is_cont_pkt p \<longleftrightarrow> p_cmd p AND TYPE_INIT = 0"

definition buffer_reset :: "'a hid \<Rightarrow> 'a hid" where
  "buffer_reset h = h\<lparr>h_bcnt := 0, h_off := 0, h_seq := 0, h_bcid := 0\<rparr>"

definition ctaphid_init :: "'a hid \<Rightarrow> 'a hid" where
  "ctaphid_init h = buffer_reset h"

text \<open>The counter skips 0 and the broadcast channel.\<close>

function next_cid :: "u32 \<Rightarrow> u32" where
  "next_cid c = (let c' = c + 1 in if c' = 0 \<or> c' = 0xffffffff then next_cid c' else c')"
  by pat_completeness auto
termination
proof (relation "measure (\<lambda>c :: u32. if c = 0xfffffffe then 2 else if c = 0xffffffff then 1 else 0)")
  fix c x :: u32
  assume x: "x = c + 1" and "x = 0 \<or> x = 0xffffffff"
  then have "c = - 1 \<or> c = 0xffffffff - 1" by (metis add_diff_cancel_right' diff_0)
  then show "(x, c) \<in> measure (\<lambda>c :: u32. if c = 0xfffffffe then 2 else if c = 0xffffffff then 1 else 0)"
    using x by auto
qed simp

declare next_cid.simps [simp del]

definition get_new_cid :: "'a hid \<Rightarrow> u32 \<times> 'a hid" where
  "get_new_cid h = (let c = next_cid (h_cid_seq h) in (c, h\<lparr>h_cid_seq := c\<rparr>))"

text \<open>The table operations walk the first nine of the ten entries (\<open>CID_MAX-1\<close>).\<close>

primrec add_cid_in :: "u32 \<Rightarrow> u64 \<Rightarrow> cid_ent list \<Rightarrow> int \<times> cid_ent list" where
  "add_cid_in cid now [] = (-1, [])"
| "add_cid_in cid now (e # es) =
     (if \<not> ce_busy e then (0, e\<lparr>ce_cid := cid, ce_busy := True, ce_last_used := now\<rparr> # es)
      else let (r, es') = add_cid_in cid now es in (r, e # es'))"

primrec cid_refresh_in :: "u32 \<Rightarrow> u64 \<Rightarrow> cid_ent list \<Rightarrow> int \<times> cid_ent list" where
  "cid_refresh_in cid now [] = (-1, [])"
| "cid_refresh_in cid now (e # es) =
     (if ce_cid e = cid then (0, e\<lparr>ce_last_used := now, ce_busy := True\<rparr> # es)
      else let (r, es') = cid_refresh_in cid now es in (r, e # es'))"

primrec cid_del_in :: "u32 \<Rightarrow> cid_ent list \<Rightarrow> int \<times> cid_ent list" where
  "cid_del_in cid [] = (-1, [])"
| "cid_del_in cid (e # es) =
     (if ce_cid e = cid then (0, e\<lparr>ce_busy := False\<rparr> # es)
      else let (r, es') = cid_del_in cid es in (r, e # es'))"

definition on_table :: "(cid_ent list \<Rightarrow> int \<times> cid_ent list) \<Rightarrow> 'a hid \<Rightarrow> int \<times> 'a hid" where
  "on_table op h = (let (r, es) = op (take (CID_MAX - 1) (h_cids h)) in
      (r, h\<lparr>h_cids := es @ drop (CID_MAX - 1) (h_cids h)\<rparr>))"

definition add_cid :: "u32 \<Rightarrow> u64 \<Rightarrow> 'a hid \<Rightarrow> int \<times> 'a hid" where
  "add_cid cid now = on_table (add_cid_in cid now)"
definition cid_refresh :: "u32 \<Rightarrow> u64 \<Rightarrow> 'a hid \<Rightarrow> int \<times> 'a hid" where
  "cid_refresh cid now = on_table (cid_refresh_in cid now)"
definition cid_del :: "u32 \<Rightarrow> 'a hid \<Rightarrow> int \<times> 'a hid" where
  "cid_del cid = on_table (cid_del_in cid)"
definition cid_exists :: "u32 \<Rightarrow> 'a hid \<Rightarrow> bool" where
  "cid_exists cid h = list_ex (\<lambda>e. ce_cid e = cid) (take (CID_MAX - 1) (h_cids h))"

datatype buf_status = EMPTY | BUFFERING | BUFFERED | HID_ERROR | HID_IGNORE

definition buffer_status :: "'a hid \<Rightarrow> buf_status" where
  "buffer_status h = (if h_bcnt h = 0 then EMPTY
     else if h_off h = unat (h_bcnt h) then BUFFERED else BUFFERING)"

text \<open>\<open>buffer_packet\<close>: True is SEQUENCE_ERROR. The lengths are C ints; a negative \<open>leftover\<close> would be
  a wild \<open>memmove\<close>, and the invariant below excludes it.\<close>

definition buffer_packet :: "bytes \<Rightarrow> 'a hid \<Rightarrow> bool \<times> 'a hid" where
  "buffer_packet p h =
     (if p_cmd p AND TYPE_INIT \<noteq> 0 then
        let bcnt = ctaphid_packet_len p;
            n = (if unat bcnt < CTAPHID_INIT_PAYLOAD_SIZE then unat bcnt else CTAPHID_INIT_PAYLOAD_SIZE) in
        (False, h\<lparr>h_bcnt := bcnt, h_bcmd := p_cmd p, h_bcid := p_cid p, h_off := n, h_seq := -1,
                  h_buf := blit (h_buf h) 0 (block p 7 n)\<rparr>)
      else
        let leftover = int (unat (h_bcnt h)) - int (h_off h);
            diff = leftover - int CTAPHID_CONT_PAYLOAD_SIZE;
            h = h\<lparr>h_seq := h_seq h + 1\<rparr> in
        if h_seq h \<noteq> int (unat (p ! 4)) then (True, h)
        else
          let n = (if diff \<le> 0 then nat leftover else CTAPHID_CONT_PAYLOAD_SIZE) in
          (False, h\<lparr>h_buf := blit (h_buf h) (h_off h) (block p 5 n), h_off := h_off h + n\<rparr>))"

subsection \<open>Messages the transport sends by itself\<close>

definition send_reports :: "bytes list \<Rightarrow> 'a hid \<Rightarrow> 'a hid" where
  "send_reports rs h = h\<lparr>h_out := h_out h @ map Report rs\<rparr>"

definition ctaphid_send_error :: "u32 \<Rightarrow> u8 \<Rightarrow> 'a hid \<Rightarrow> 'a hid" where
  "ctaphid_send_error cid err h =
     send_reports (fst (write_message
       (ctaphid_write_buffer_init\<lparr>w_cid := cid, w_cmd := CTAPHID_ERROR, w_bcnt := 1\<rparr>) [err])) h"

definition send_init_response :: "u32 \<Rightarrow> u32 \<Rightarrow> bytes \<Rightarrow> 'a hid \<Rightarrow> 'a hid" where
  "send_init_response oldcid newcid nonce h =
     send_reports (fst (write_message
       (ctaphid_write_buffer_init\<lparr>w_cid := oldcid, w_cmd := CTAPHID_INIT, w_bcnt := 17\<rparr>)
       (nonce @ u32_le_bytes newcid @ [2, 0, 0, 0, 0x05]))) h"

definition ctaphid_update_status :: "u8 \<Rightarrow> 'a hid \<Rightarrow> 'a hid" where
  "ctaphid_update_status st h =
     send_reports (fst (write_message
       (ctaphid_write_buffer_init\<lparr>w_cid := h_bcid h, w_cmd := CTAPHID_KEEPALIVE, w_bcnt := 1\<rparr>) [st])) h"

text \<open>The clock \<open>now\<close> is the 32-bit \<open>millis()\<close>, widened for the comparison. All ten entries are walked.\<close>

definition check_timeout_at :: "u64 \<Rightarrow> 'a hid \<Rightarrow> nat \<Rightarrow> 'a hid" where
  "check_timeout_at now h i =
     (let e = h_cids h ! i in
      if ce_busy e \<and> now - ce_last_used e \<ge> 750 then
        let h = ctaphid_send_error (ce_cid e) ERR_TIMEOUT h;
            h = h\<lparr>h_cids := (h_cids h)[i := e\<lparr>ce_busy := False\<rparr>]\<rparr>
        in if ce_cid e = h_bcid h then buffer_reset h else h
      else h)"

definition ctaphid_check_timeouts :: "u64 \<Rightarrow> 'a hid \<Rightarrow> 'a hid" where
  "ctaphid_check_timeouts now h = foldl (check_timeout_at now) h [0..<CID_MAX]"

subsection \<open>One incoming report\<close>

datatype hid_stop = Exit | Deep

text \<open>\<open>ctaphid_buffer_packet\<close> returns the buffer status, the command (or error) byte and the length.\<close>

definition ctaphid_buffer_init :: "u64 \<Rightarrow> bytes \<Rightarrow> 'a hid \<Rightarrow> buf_status \<times> u8 \<times> int \<times> 'a hid" where
  "ctaphid_buffer_init now p h =
     (if ctaphid_packet_len p \<noteq> 8 then (HID_ERROR, ERR_INVALID_LENGTH, 0, h)
      else if p_cid p = 0 then (HID_ERROR, ERR_INVALID_CHANNEL, 0, h)
      else
        let h = ctaphid_init h;
            (ret, oldcid, newcid, h) =
              (if is_broadcast p then
                 let (newcid, h) = get_new_cid h; (r, h) = add_cid newcid now h
                 in (r, CTAPHID_BROADCAST_CID, newcid, h)
               else
                 let (r, h) = (if cid_exists (p_cid p) h then cid_refresh (p_cid p) now h
                               else add_cid (p_cid p) now h)
                 in (r, p_cid p, p_cid p, h)) in
        if ret = -1 then (HID_ERROR, ERR_CHANNEL_BUSY, 0, h)
        else (HID_IGNORE, 0, 0, snd (cid_del newcid (send_init_response oldcid newcid (block p 7 8) h))))"

definition ctaphid_buffer_data ::
    "u64 \<Rightarrow> bytes \<Rightarrow> 'a hid \<Rightarrow> hid_stop + (buf_status \<times> u8 \<times> int \<times> 'a hid)" where
  "ctaphid_buffer_data now p h =
     (if p_cid p = CTAPHID_BROADCAST_CID then Inr (HID_ERROR, ERR_INVALID_CHANNEL, 0, h)
      else
        let h = (if \<not> cid_exists (p_cid p) h \<and> \<not> is_cont_pkt p \<and> buffer_status h = EMPTY
                 then snd (add_cid (p_cid p) now h) else h) in
        if cid_exists (p_cid p) h then
          if buffer_status h = BUFFERING \<and> p_cid p = h_bcid h \<and> \<not> is_cont_pkt p
          then Inr (HID_ERROR, ERR_INVALID_SEQ, 0, h)
          else if buffer_status h = BUFFERING \<and> p_cid p \<noteq> h_bcid h
          then (if \<not> is_cont_pkt p then Inr (HID_ERROR, ERR_CHANNEL_BUSY, 0, h)
                else Inr (HID_IGNORE, 0, 0, h))
          else if \<not> is_cont_pkt p \<and> unat (ctaphid_packet_len p) > CTAPHID_BUFFER_SIZE
          then Inr (HID_ERROR, ERR_INVALID_LENGTH, 0, h)
          else if is_cont_pkt p \<and> (buffer_status h = EMPTY \<or> p_cid p \<noteq> h_bcid h)
          then Inr (HID_IGNORE, 0, 0, h)
          else
            let (seq_error, h) = buffer_packet p h in
            if seq_error then Inr (HID_ERROR, ERR_INVALID_SEQ, 0, h)
            else
              let (ret, h) = cid_refresh (p_cid p) now h in
              if ret \<noteq> 0 then Inl Exit
              else Inr (buffer_status h, h_bcmd h, int (unat (h_bcnt h)), h)
        else if is_cont_pkt p then Inr (HID_IGNORE, 0, 0, h)
        else Inr (HID_ERROR, ERR_CHANNEL_BUSY, 0, h))"

definition ctaphid_buffer_packet ::
    "u64 \<Rightarrow> bytes \<Rightarrow> 'a hid \<Rightarrow> hid_stop + (buf_status \<times> u8 \<times> int \<times> 'a hid)" where
  "ctaphid_buffer_packet now p h =
     (if is_init_pkt p then Inr (ctaphid_buffer_init now p h) else ctaphid_buffer_data now p h)"

end
