(* ===== verification/HidDispatch.thy ===== *)
theory HidDispatch
  imports HidChannel
begin

text \<open>
  The dispatcher of \<^verbatim>\<open>fido2/ctaphid.c\<close> (\<open>ctaphid_handle_packet\<close>, \<open>ctaphid_custom_command\<close>) and
  the user-presence wait of \<^verbatim>\<open>targets/stm32l432/src/device.c\<close> that calls it again for the reports
  arriving meanwhile. The CTAP2 and U2F applications are behind the record \<open>hid_app\<close>: a request
  gives the reports handled during the request, a status and a response. The recursion through the
  nested reports is on a depth; each level is one nested \<open>ctaphid_handle_packet\<close> activation.
\<close>

text \<open>One round of the wait loop: whether the button driver reports the touch, and the report that
  \<open>usbhid_recv\<close> finds, if any. The end of the list is the end of the waiting time.\<close>

type_synonym up_round = "bool \<times> bytes option"

record 'a hid_app =
  ap_cbor :: "'a \<Rightarrow> bytes \<Rightarrow> bytes list \<times> u8 \<times> bytes \<times> 'a"
  ap_msg :: "'a \<Rightarrow> bytes \<Rightarrow> bytes list \<times> bytes \<times> 'a"
  ap_up :: "'a \<Rightarrow> up_round list \<times> 'a"
  ap_up_skip :: "'a \<Rightarrow> int option"
  ap_rng :: "'a \<Rightarrow> nat \<Rightarrow> bytes \<times> 'a"
  ap_status :: "'a \<Rightarrow> bytes"
  ap_version :: bytes
  ap_locked :: "'a \<Rightarrow> u8"
  ap_lock :: "'a \<Rightarrow> 'a"

type_synonym 'a handler = "bytes \<Rightarrow> 'a hid \<Rightarrow> hid_stop + (u8 \<times> 'a hid)"

text \<open>\<open>handle_packets\<close> of device.c: -1 for a CANCEL, 0 otherwise.\<close>

definition handle_packets :: "'a handler \<Rightarrow> bytes option \<Rightarrow> 'a hid \<Rightarrow> hid_stop + (int \<times> 'a hid)" where
  "handle_packets sub msg h =
     (case msg of None \<Rightarrow> Inr (0, h)
      | Some p \<Rightarrow> seqE (sub p h) (\<lambda>(r, h). Inr (if r = CTAPHID_CANCEL then -1 else 0, h)))"

text \<open>\<open>ctap_user_presence_test_feedback\<close>.\<close>

primrec up_wait :: "'a handler \<Rightarrow> up_round list \<Rightarrow> 'a hid \<Rightarrow> hid_stop + (int \<times> 'a hid)" where
  "up_wait sub [] h = Inr (0, h)"
| "up_wait sub (ev # evs) h =
     (if fst ev then Inr (1, h)
      else seqE (handle_packets sub (snd ev) h)
             (\<lambda>(ret, h). if ret \<noteq> 0 then Inr (ret, h) else up_wait sub evs h))"

definition ctap_user_presence_test_config ::
    "'a hid_app \<Rightarrow> 'a handler \<Rightarrow> 'a hid \<Rightarrow> hid_stop + (int \<times> 'a hid)" where
  "ctap_user_presence_test_config app sub h =
     (case ap_up_skip app (h_app h) of Some r \<Rightarrow> Inr (r, h)
      | None \<Rightarrow> let (evs, a) = ap_up app (h_app h) in up_wait sub evs (h\<lparr>h_app := a\<rparr>))"

primrec run_packets :: "'a handler \<Rightarrow> bytes list \<Rightarrow> 'a hid \<Rightarrow> hid_stop + 'a hid" where
  "run_packets sub [] h = Inr h"
| "run_packets sub (p # ps) h = seqE (sub p h) (\<lambda>(r, h). run_packets sub ps h)"

text \<open>\<open>ctaphid_write\<close> on the static write buffer, with the reports going out.\<close>

definition wb_write :: "bytes \<Rightarrow> 'a hid \<Rightarrow> 'a hid" where
  "wb_write d h = (let (rs, wb) = ctaphid_write (h_wb h) d in send_reports rs (h\<lparr>h_wb := wb\<rparr>))"

definition wb_flush :: "'a hid \<Rightarrow> 'a hid" where
  "wb_flush h = (let (rs, wb) = ctaphid_flush (h_wb h) in send_reports rs (h\<lparr>h_wb := wb\<rparr>))"

definition wb_set_bcnt :: "u16 \<Rightarrow> 'a hid \<Rightarrow> 'a hid" where
  "wb_set_bcnt n h = h\<lparr>h_wb := (h_wb h)\<lparr>w_bcnt := n\<rparr>\<rparr>"

definition emit :: "hid_out \<Rightarrow> 'a hid \<Rightarrow> 'a hid" where
  "emit ev h = h\<lparr>h_out := h_out h @ [ev]\<rparr>"

text \<open>\<open>ctaphid_custom_command\<close> of the application build. True is the return value 1.\<close>

definition ctaphid_custom_command ::
    "'a hid_app \<Rightarrow> 'a handler \<Rightarrow> 'a hid \<Rightarrow> hid_stop + (bool \<times> 'a hid)" where
  "ctaphid_custom_command app sub h =
     (let cmd = w_cmd (h_wb h) in
      if cmd = CTAPHID_ENTERBOOT then
        seqE (ctap_user_presence_test_config app sub h) (\<lambda>(r, h).
          if r \<noteq> 0 then Inr (True, wb_flush (wb_set_bcnt 0 (emit EnterBoot h))) else Inr (False, h))
      else if cmd = CTAPHID_REBOOT then
        seqE (ctap_user_presence_test_config app sub h) (\<lambda>(r, h).
          if r \<noteq> 0 then Inr (True, emit Reboot h) else Inr (True, wb_flush (wb_set_bcnt 0 h)))
      else if cmd = CTAPHID_GETRNG then
        let n = (if h_buf h ! 0 = 0 then 57 else unat (h_buf h ! 0));
            (rnd, a) = ap_rng app (h_app h) n;
            h = wb_set_bcnt (of_nat n) (h\<lparr>h_buf := blit (memset (h_buf h) 0 0 n) 0 (take n rnd), h_app := a\<rparr>)
        in Inr (True, wb_flush (wb_write (take n (h_buf h)) h))
      else if cmd = CTAPHID_GETSTATUS then
        let n = (if h_buf h ! 0 = 0 then 8 else unat (h_buf h ! 0));
            h = wb_set_bcnt (of_nat n)
                  (h\<lparr>h_buf := blit (memset (h_buf h) 0 0 n) 0 (take 8 (ap_status app (h_app h)))\<rparr>)
        in Inr (True, wb_flush (wb_write (take n (h_buf h)) h))
      else if cmd = CTAPHID_GETVERSION then
        let h = wb_set_bcnt 4 (h\<lparr>h_buf := blit (h_buf h) 0 (take 3 (ap_version app) @ [ap_locked app (h_app h)])\<rparr>)
        in Inr (True, wb_flush (wb_write (take 4 (h_buf h)) h))
      else if cmd = 0x99 then
        Inr (True, wb_flush (wb_set_bcnt 0 (emit LockDevice (h\<lparr>h_app := ap_lock app (h_app h)\<rparr>))))
      else Inr (False, h))"

text \<open>The common end of the command switch.\<close>

definition handle_done :: "u32 \<Rightarrow> u8 \<Rightarrow> 'a hid \<Rightarrow> hid_stop + (u8 \<times> 'a hid)" where
  "handle_done cid cmd h =
     (let h = buffer_reset (snd (cid_del cid h)) in
      Inr (if \<not> h_busy h then cmd else 0, h))"

definition dispatch_app ::
    "u32 \<Rightarrow> u8 \<Rightarrow> int \<Rightarrow> ('a hid \<Rightarrow> hid_stop + (u8 \<times> 'a hid)) \<Rightarrow> 'a hid \<Rightarrow> hid_stop + (u8 \<times> 'a hid)" where
  "dispatch_app cid cmd len run h =
     (if len = 0 then Inr (0, ctaphid_send_error cid ERR_INVALID_LENGTH h)
      else if h_busy h then Inr (0, ctaphid_send_error cid ERR_CHANNEL_BUSY h)
      else run (h\<lparr>h_busy := True\<rparr>))"

definition run_cbor ::
    "'a hid_app \<Rightarrow> 'a handler \<Rightarrow> u32 \<Rightarrow> u8 \<Rightarrow> int \<Rightarrow> 'a hid \<Rightarrow> hid_stop + (u8 \<times> 'a hid)" where
  "run_cbor app sub cid cmd len h =
     (let (ps, status, resp, a) = ap_cbor app (h_app h) (take (nat len) (h_buf h)) in
      seqE (run_packets sub ps (h\<lparr>h_app := a\<rparr>)) (\<lambda>h.
        let h = h\<lparr>h_wb := (h_wb h)\<lparr>w_bcnt := of_nat (length resp + 1), w_cid := cid, w_cmd := cmd\<rparr>\<rparr>;
            h = wb_flush (wb_write resp (wb_write [status] h))
        in handle_done cid cmd (h\<lparr>h_busy := False\<rparr>)))"

definition run_msg ::
    "'a hid_app \<Rightarrow> 'a handler \<Rightarrow> u32 \<Rightarrow> u8 \<Rightarrow> 'a hid \<Rightarrow> hid_stop + (u8 \<times> 'a hid)" where
  "run_msg app sub cid cmd h =
     (let (ps, resp, a) = ap_msg app (h_app h) (h_buf h) in
      seqE (run_packets sub ps (h\<lparr>h_app := a\<rparr>)) (\<lambda>h.
        let h = h\<lparr>h_wb := (h_wb h)\<lparr>w_bcnt := of_nat (length resp), w_cid := cid, w_cmd := cmd\<rparr>\<rparr>;
            h = wb_flush (wb_write resp h)
        in handle_done cid cmd (h\<lparr>h_busy := False\<rparr>)))"

definition dispatch ::
    "'a hid_app \<Rightarrow> 'a handler \<Rightarrow> u32 \<Rightarrow> u8 \<Rightarrow> int \<Rightarrow> 'a hid \<Rightarrow> hid_stop + (u8 \<times> 'a hid)" where
  "dispatch app sub cid cmd len h =
     (if cmd = CTAPHID_INIT then Inl Exit
      else if cmd = CTAPHID_PING then
        let h = wb_set_bcnt (of_int len) h in
        handle_done cid cmd (wb_flush (wb_write (take (nat len) (h_buf h)) h))
      else if cmd = CTAPHID_WINK then handle_done cid cmd (wb_flush (emit Wink h))
      else if cmd = CTAPHID_CBOR then dispatch_app cid cmd len (run_cbor app sub cid cmd len) h
      else if cmd = CTAPHID_MSG then dispatch_app cid cmd len (run_msg app sub cid cmd) h
      else if cmd = CTAPHID_CANCEL then handle_done cid cmd (h\<lparr>h_busy := False\<rparr>)
      else seqE (ctaphid_custom_command app sub h) (\<lambda>(handled, h).
        if handled then handle_done cid cmd (h\<lparr>h_busy := False\<rparr>)
        else handle_done cid cmd (ctaphid_send_error cid ERR_INVALID_COMMAND h)))"

text \<open>\<open>h_heard\<close> is a history variable: the reports handled so far, at any nesting.\<close>

definition handle_with :: "'a hid_app \<Rightarrow> u64 \<Rightarrow> 'a handler \<Rightarrow> 'a handler" where
  "handle_with app now sub p h =
     seqE (ctaphid_buffer_packet now p h) (\<lambda>(st, cmd, len, h).
       let cid = p_cid p;
           h = h\<lparr>h_wb := ctaphid_write_buffer_init\<lparr>w_cid := cid, w_cmd := cmd\<rparr>, h_heard := h_heard h @ [p]\<rparr> in
       if st = HID_IGNORE then Inr (0, h)
       else if st = HID_ERROR then
         let h = snd (cid_del cid h);
             h = (if cmd = ERR_INVALID_SEQ then buffer_reset h else h)
         in Inr (0, ctaphid_send_error cid cmd h)
       else if st = BUFFERING then Inr (0, h\<lparr>h_active_ts := now\<rparr>)
       else dispatch app sub cid cmd len h)"

primrec ctaphid_handle_packet :: "nat \<Rightarrow> 'a hid_app \<Rightarrow> u64 \<Rightarrow> 'a handler" where
  "ctaphid_handle_packet 0 app now = (\<lambda>p h. Inl Deep)"
| "ctaphid_handle_packet (Suc n) app now = handle_with app now (ctaphid_handle_packet n app now)"

text \<open>The main loop: reports handled one after the other.\<close>

definition feed :: "nat \<Rightarrow> 'a hid_app \<Rightarrow> u64 \<Rightarrow> bytes list \<Rightarrow> 'a hid \<Rightarrow> hid_stop + 'a hid" where
  "feed n app now ps h = run_packets (ctaphid_handle_packet n app now) ps h"

subsection \<open>The state invariant\<close>

definition report_ok :: "hid_out \<Rightarrow> bool" where
  "report_ok x = (case x of Report r \<Rightarrow> length r = 64 | _ \<Rightarrow> True)"

definition wb_ok :: "wbuf \<Rightarrow> bool" where
  "wb_ok wb \<longleftrightarrow> length (w_buf wb) = 64 \<and> w_off wb < 64"

definition buf_ok :: "'a hid \<Rightarrow> bool" where
  "buf_ok h \<longleftrightarrow> length (h_cids h) = CID_MAX \<and> length (h_buf h) = CTAPHID_BUFFER_SIZE
     \<and> h_off h \<le> unat (h_bcnt h) \<and> unat (h_bcnt h) \<le> CTAPHID_BUFFER_SIZE
     \<and> (h_bcnt h \<noteq> 0 \<longrightarrow> h_bcmd h AND TYPE_INIT \<noteq> 0 \<and> h_bcmd h \<noteq> CTAPHID_INIT)
     \<and> -1 \<le> h_seq h"

definition hid_ok :: "'a hid \<Rightarrow> bool" where
  "hid_ok h \<longleftrightarrow> buf_ok h \<and> wb_ok (h_wb h) \<and> list_all report_ok (h_out h)"

lemmas hid_ok_defs = hid_ok_def buf_ok_def

text \<open>Writers produce whole reports.\<close>

lemma wb_put_byte_ok:
  "wb_ok wb \<Longrightarrow> wb_ok (snd (wb_put_byte wb b)) \<and> (\<forall>r\<in>set (fst (wb_put_byte wb b)). length r = 64)"
  by (auto simp: wb_ok_def wb_put_byte_def Let_def wb_put_init_def wb_put_cont_def)

lemma ctaphid_write_ok:
  "wb_ok wb \<Longrightarrow> wb_ok (snd (ctaphid_write wb d)) \<and> (\<forall>r\<in>set (fst (ctaphid_write wb d)). length r = 64)"
proof (induction d arbitrary: wb)
  case (Cons b d)
  from wb_put_byte_ok[OF Cons.prems, of b] Cons.IH[of "snd (wb_put_byte wb b)"]
  show ?case by (auto split: prod.splits simp: Let_def)
qed simp

lemma ctaphid_flush_ok:
  "wb_ok wb \<Longrightarrow> wb_ok (snd (ctaphid_flush wb)) \<and> (\<forall>r\<in>set (fst (ctaphid_flush wb)). length r = 64)"
  by (auto simp: wb_ok_def ctaphid_flush_def Let_def wb_put_init_def)

lemma write_message_ok: "wb_ok wb \<Longrightarrow> \<forall>r\<in>set (fst (write_message wb d)). length r = 64"
  using ctaphid_write_ok[of wb d] ctaphid_flush_ok[of "snd (ctaphid_write wb d)"]
  by (auto simp: write_message_def Let_def split: prod.splits)

lemma wb_ok_updates [simp]:
  "wb_ok ctaphid_write_buffer_init"
  "wb_ok (wb\<lparr>w_cid := c\<rparr>) = wb_ok wb" "wb_ok (wb\<lparr>w_cmd := k\<rparr>) = wb_ok wb" "wb_ok (wb\<lparr>w_bcnt := n\<rparr>) = wb_ok wb"
  by (simp_all add: wb_ok_def ctaphid_write_buffer_init_def)

lemma send_reports_ok: "hid_ok h \<Longrightarrow> \<forall>r\<in>set rs. length r = 64 \<Longrightarrow> hid_ok (send_reports rs h)"
  by (auto simp: hid_ok_defs send_reports_def list_all_iff report_ok_def)

lemma send_error_ok: "hid_ok h \<Longrightarrow> hid_ok (ctaphid_send_error c e h)"
  unfolding ctaphid_send_error_def by (intro send_reports_ok write_message_ok) simp_all

lemma send_init_ok: "hid_ok h \<Longrightarrow> hid_ok (send_init_response a b n h)"
  unfolding send_init_response_def by (intro send_reports_ok write_message_ok) simp_all

lemma update_status_ok: "hid_ok h \<Longrightarrow> hid_ok (ctaphid_update_status st h)"
  unfolding ctaphid_update_status_def by (intro send_reports_ok write_message_ok) simp_all

lemma wb_write_ok: "hid_ok h \<Longrightarrow> hid_ok (wb_write d h)"
  using ctaphid_write_ok[of "h_wb h" d]
  by (auto simp: wb_write_def Let_def hid_ok_defs send_reports_def list_all_iff report_ok_def split: prod.splits)

lemma wb_flush_ok: "hid_ok h \<Longrightarrow> hid_ok (wb_flush h)"
  using ctaphid_flush_ok[of "h_wb h"]
  by (auto simp: wb_flush_def Let_def hid_ok_defs send_reports_def list_all_iff report_ok_def split: prod.splits)

lemma wb_set_ok: "hid_ok h \<Longrightarrow> hid_ok (wb_set_bcnt n h)"
  by (simp add: wb_set_bcnt_def hid_ok_defs wb_ok_def)

lemma emit_ok: "hid_ok h \<Longrightarrow> (\<And>r. ev \<noteq> Report r) \<Longrightarrow> hid_ok (emit ev h)"
  by (cases ev) (auto simp: emit_def hid_ok_defs report_ok_def)

lemma buffer_reset_ok: "hid_ok h \<Longrightarrow> hid_ok (buffer_reset h)"
  by (simp add: buffer_reset_def hid_ok_defs)

text \<open>The table operations keep the table's size and touch nothing else.\<close>

lemma table_lengths:
  "length (snd (add_cid_in cid now es)) = length es"
  "length (snd (cid_refresh_in cid now es)) = length es"
  "length (snd (cid_del_in cid es)) = length es"
  by (induction es) (auto split: prod.splits)

lemma on_table_same:
  "snd (on_table op h) = h\<lparr>h_cids := h_cids (snd (on_table op h))\<rparr>"
  by (simp add: on_table_def split: prod.splits)

lemma on_table_length:
  "(\<And>es. length (snd (op es)) = length es) \<Longrightarrow> length (h_cids (snd (on_table op h))) = length (h_cids h)"
proof -
  assume "\<And>es. length (snd (op es)) = length es"
  then have "length (snd (op (take (CID_MAX - 1) (h_cids h)))) = min (length (h_cids h)) (CID_MAX - 1)" by simp
  then show ?thesis by (auto simp: on_table_def min_def split: prod.splits)
qed

lemma table_ok:
  assumes "hid_ok h" "\<And>es. length (snd (op es)) = length es"
  shows "hid_ok (snd (on_table op h))"
proof -
  obtain es where e: "snd (on_table op h) = h\<lparr>h_cids := es\<rparr>" "es = h_cids (snd (on_table op h))"
    using on_table_same by blast
  then have "length es = length (h_cids h)" using on_table_length[of op h] assms(2) by simp
  then show ?thesis using assms(1) by (simp add: e(1) hid_ok_defs)
qed

lemma table_ops_ok:
  "hid_ok h \<Longrightarrow> hid_ok (snd (add_cid c now h))"
  "hid_ok h \<Longrightarrow> hid_ok (snd (cid_refresh c now h))"
  "hid_ok h \<Longrightarrow> hid_ok (snd (cid_del c h))"
  by (simp_all add: add_cid_def cid_refresh_def cid_del_def table_ok table_lengths)

lemma cid_refresh_found:
  "cid_exists c h \<Longrightarrow> fst (cid_refresh c now h) = 0"
proof -
  have "list_ex (\<lambda>e. ce_cid e = c) es \<Longrightarrow> fst (cid_refresh_in c now es) = 0" for es
    by (induction es) (auto split: prod.splits)
  then show "cid_exists c h \<Longrightarrow> ?thesis"
    by (metis (no_types, lifting) cid_exists_def cid_refresh_def fst_conv on_table_def prod.case_eq_if)
qed

lemma table_frame [simp]:
  "h_buf (snd (add_cid c now h)) = h_buf h" "h_bcnt (snd (add_cid c now h)) = h_bcnt h"
  "h_off (snd (add_cid c now h)) = h_off h" "h_bcid (snd (add_cid c now h)) = h_bcid h"
  "h_bcmd (snd (add_cid c now h)) = h_bcmd h" "h_seq (snd (add_cid c now h)) = h_seq h"
  "h_out (snd (add_cid c now h)) = h_out h" "h_busy (snd (add_cid c now h)) = h_busy h"
  "h_wb (snd (add_cid c now h)) = h_wb h" "h_app (snd (add_cid c now h)) = h_app h"
  "h_buf (snd (cid_refresh c now h)) = h_buf h" "h_bcnt (snd (cid_refresh c now h)) = h_bcnt h"
  "h_off (snd (cid_refresh c now h)) = h_off h" "h_bcid (snd (cid_refresh c now h)) = h_bcid h"
  "h_bcmd (snd (cid_refresh c now h)) = h_bcmd h" "h_seq (snd (cid_refresh c now h)) = h_seq h"
  "h_out (snd (cid_refresh c now h)) = h_out h" "h_busy (snd (cid_refresh c now h)) = h_busy h"
  "h_wb (snd (cid_refresh c now h)) = h_wb h" "h_app (snd (cid_refresh c now h)) = h_app h"
  "h_buf (snd (cid_del c h)) = h_buf h" "h_bcnt (snd (cid_del c h)) = h_bcnt h"
  "h_off (snd (cid_del c h)) = h_off h" "h_bcid (snd (cid_del c h)) = h_bcid h"
  "h_bcmd (snd (cid_del c h)) = h_bcmd h" "h_seq (snd (cid_del c h)) = h_seq h"
  "h_out (snd (cid_del c h)) = h_out h" "h_busy (snd (cid_del c h)) = h_busy h"
  "h_wb (snd (cid_del c h)) = h_wb h" "h_app (snd (cid_del c h)) = h_app h"
  by (simp_all add: add_cid_def cid_refresh_def cid_del_def on_table_def split: prod.splits)

lemma buffer_status_iff [simp]:
  "buffer_status h = EMPTY \<longleftrightarrow> h_bcnt h = 0"
  "buffer_status h = BUFFERED \<longleftrightarrow> h_bcnt h \<noteq> 0 \<and> h_off h = unat (h_bcnt h)"
  "buffer_status h = BUFFERING \<longleftrightarrow> h_bcnt h \<noteq> 0 \<and> h_off h \<noteq> unat (h_bcnt h)"
  "buffer_status h \<noteq> HID_ERROR" "buffer_status h \<noteq> HID_IGNORE"
  by (auto simp: buffer_status_def)

text \<open>With the offset below the count, the C arithmetic on \<open>leftover\<close> is a minimum.\<close>

lemma buffer_packet_cont:
  assumes "p_cmd p AND TYPE_INIT = 0" "h_off h \<le> unat (h_bcnt h)"
  shows "buffer_packet p h =
    (if h_seq h + 1 \<noteq> int (unat (p ! 4)) then (True, h\<lparr>h_seq := h_seq h + 1\<rparr>)
     else let n = min (unat (h_bcnt h) - h_off h) 59 in
       (False, h\<lparr>h_seq := h_seq h + 1, h_buf := blit (h_buf h) (h_off h) (block p 5 n), h_off := h_off h + n\<rparr>))"
proof -
  let ?k = "unat (h_bcnt h) - h_off h"
  have l: "int (unat (h_bcnt h)) - int (h_off h) = int ?k" using assms(2) by (rule of_nat_diff[symmetric])
  have n: "(if int ?k - int 59 \<le> 0 then nat (int ?k) else 59) = min ?k 59" by (auto simp: min_def)
  show ?thesis
    unfolding buffer_packet_def Let_def l using n assms(1)
    by (simp add: CTAPHID_CONT_PAYLOAD_SIZE_def HID_MESSAGE_SIZE_def del: of_nat_diff of_nat_unat)
qed

text \<open>Storing a packet stays inside the message buffer, for any packet the guards let through.\<close>

lemma buffer_packet_ok:
  assumes ok: "hid_ok h" and len: "length p = 64"
    and init: "p_cmd p AND TYPE_INIT \<noteq> 0 \<Longrightarrow> unat (ctaphid_packet_len p) \<le> CTAPHID_BUFFER_SIZE \<and> p_cmd p \<noteq> CTAPHID_INIT"
  shows "hid_ok (snd (buffer_packet p h))"
proof (cases "p_cmd p AND TYPE_INIT = 0")
  case True
  define n where "n = min (unat (h_bcnt h) - h_off h) 59"
  have n: "n \<le> unat (h_bcnt h) - h_off h" "n \<le> 59" by (simp_all add: n_def)
  have o: "h_off h \<le> unat (h_bcnt h)" using ok by (simp add: hid_ok_defs)
  have "length (blit (h_buf h) (h_off h) (block p 5 n)) = length (h_buf h)"
    using n o ok len by (intro length_blit) (auto simp: hid_ok_defs hid_sizes)
  then show ?thesis using ok n o
    by (auto simp: buffer_packet_cont[OF True o] Let_def n_def[symmetric] hid_ok_defs)
next
  case False
  then show ?thesis using ok len init[OF False]
    by (auto simp: buffer_packet_def hid_ok_defs Let_def hid_sizes)
qed

lemma buffer_packet_frame:
  "h_cids (snd (buffer_packet p h)) = h_cids h" "h_out (snd (buffer_packet p h)) = h_out h"
  "h_busy (snd (buffer_packet p h)) = h_busy h" "h_app (snd (buffer_packet p h)) = h_app h"
  by (auto simp: buffer_packet_def Let_def)


lemma buffer_packet_bcmd:
  assumes "hid_ok h" "is_cont_pkt p \<Longrightarrow> h_bcnt h \<noteq> 0" "p_cmd p \<noteq> CTAPHID_INIT" "\<not> fst (buffer_packet p h)"
  shows "h_bcmd (snd (buffer_packet p h)) AND TYPE_INIT \<noteq> 0 \<and> h_bcmd (snd (buffer_packet p h)) \<noteq> CTAPHID_INIT"
  using assms by (auto simp: buffer_packet_def is_cont_pkt_def hid_ok_defs Let_def split: if_splits)

lemma buffer_init_ok:
  assumes "hid_ok h" "ctaphid_buffer_init now p h = (st, cmd, len, h')"
  shows "hid_ok h' \<and> (st = HID_ERROR \<or> st = HID_IGNORE)"
proof -
  have r: "hid_ok (ctaphid_init h)" using assms(1) by (simp add: ctaphid_init_def buffer_reset_ok)
  have n: "hid_ok (snd (get_new_cid x))" if "hid_ok x" for x :: "'a hid"
    using that by (simp add: get_new_cid_def Let_def hid_ok_defs)
  have d: "hid_ok (snd (cid_del c (send_init_response a b e x)))" if "hid_ok x" for x :: "'a hid" and a b c e
    by (rule table_ops_ok(3)[OF send_init_ok[OF that]])
  show ?thesis
  proof (cases "is_broadcast p")
    case True
    obtain c h1 where g: "get_new_cid (ctaphid_init h) = (c, h1)" by fastforce
    obtain rr h2 where a: "add_cid c now h1 = (rr, h2)" by fastforce
    have "hid_ok h2" using n[OF r] table_ops_ok(1)[of h1 c now] g a by simp
    then show ?thesis using assms True g a d[of h2]
      by (auto simp: ctaphid_buffer_init_def Let_def split: if_splits)
  next
    case False
    obtain rr h2 where a: "(if cid_exists (p_cid p) (ctaphid_init h) then cid_refresh (p_cid p) now (ctaphid_init h)
        else add_cid (p_cid p) now (ctaphid_init h)) = (rr, h2)" by fastforce
    have "hid_ok h2" using table_ops_ok(1,2)[OF r, of "p_cid p" now] a by (auto split: if_splits)
    then show ?thesis using assms False a d[of h2]
      by (auto simp: ctaphid_buffer_init_def Let_def split: if_splits)
  qed
qed

lemma buffer_data_ok:
  assumes ok: "hid_ok h" and len: "length p = 64" and ni: "p_cmd p \<noteq> CTAPHID_INIT"
  shows "\<exists>st cmd len h'. ctaphid_buffer_data now p h = Inr (st, cmd, len, h') \<and> hid_ok h'
     \<and> (st \<noteq> HID_ERROR \<and> st \<noteq> HID_IGNORE \<longrightarrow>
          cmd AND TYPE_INIT \<noteq> 0 \<and> cmd \<noteq> CTAPHID_INIT \<and> len = int (unat (h_bcnt h')) \<and> st = buffer_status h')"
proof -
  define h1 where "h1 = (if \<not> cid_exists (p_cid p) h \<and> \<not> is_cont_pkt p \<and> buffer_status h = EMPTY
                 then snd (add_cid (p_cid p) now h) else h)"
  have ok1: "hid_ok h1" using ok by (simp add: h1_def table_ops_ok)
  obtain e h2 where bp: "buffer_packet p h1 = (e, h2)" by fastforce
  obtain rr h3 where rf: "cid_refresh (p_cid p) now h2 = (rr, h3)" by fastforce
  have ok2: "hid_ok h2" if "\<not> is_cont_pkt p \<Longrightarrow> \<not> unat (ctaphid_packet_len p) > CTAPHID_BUFFER_SIZE"
    using buffer_packet_ok[OF ok1 len] that ni bp by (auto simp: is_cont_pkt_def not_less)
  have ok3: "hid_ok h3" if "hid_ok h2" using table_ops_ok(2)[OF that, of "p_cid p" now] rf by simp
  have cmd: "h_bcmd h2 AND TYPE_INIT \<noteq> 0 \<and> h_bcmd h2 \<noteq> CTAPHID_INIT" if "\<not> e" "is_cont_pkt p \<Longrightarrow> h_bcnt h1 \<noteq> 0"
    using buffer_packet_bcmd[OF ok1 that(2) ni] that(1) bp by simp
  have fr: "h_bcmd h3 = h_bcmd h2"
    using table_frame(15)[of "p_cid p" now h2] unfolding rf by simp
  have rr: "rr = 0" if "cid_exists (p_cid p) h1"
    using cid_refresh_found[of "p_cid p" h2 now] that rf buffer_packet_frame(1)[of p h1] bp
    by (simp add: cid_exists_def)
  show ?thesis
    using ok ok1 ok2 ok3 cmd rr bp rf fr
    unfolding ctaphid_buffer_data_def Let_def h1_def[symmetric]
    by (auto split: if_splits)
qed

lemma ctaphid_buffer_packet_ok:
  assumes ok: "hid_ok h" and len: "length p = 64"
  shows "\<exists>st cmd len h'. ctaphid_buffer_packet now p h = Inr (st, cmd, len, h') \<and> hid_ok h'
     \<and> (st \<noteq> HID_ERROR \<and> st \<noteq> HID_IGNORE \<longrightarrow>
          cmd AND TYPE_INIT \<noteq> 0 \<and> cmd \<noteq> CTAPHID_INIT \<and> len = int (unat (h_bcnt h')) \<and> st = buffer_status h')"
proof (cases "is_init_pkt p")
  case True
  obtain st cmd len h' where "ctaphid_buffer_init now p h = (st, cmd, len, h')" by (metis prod_cases4)
  with buffer_init_ok[OF ok this] True show ?thesis by (auto simp: ctaphid_buffer_packet_def)
next
  case False
  with buffer_data_ok[OF assms] show ?thesis by (simp add: ctaphid_buffer_packet_def is_init_pkt_def)
qed


subsection \<open>The dispatcher keeps the invariant and never stops the device\<close>

definition res_ok :: "hid_stop + ('b \<times> 'a hid) \<Rightarrow> bool" where
  "res_ok R = (case R of Inl e \<Rightarrow> e \<noteq> Exit | Inr (r, h) \<Rightarrow> hid_ok h)"

definition sub_ok :: "'a handler \<Rightarrow> bool" where
  "sub_ok sub \<longleftrightarrow> (\<forall>p h. length p = 64 \<longrightarrow> hid_ok h \<longrightarrow> res_ok (sub p h))"

text \<open>The reports an application run hands to the transport are 64 bytes long.\<close>

definition app_ok :: "'a hid_app \<Rightarrow> bool" where
  "app_ok app \<longleftrightarrow> (\<forall>a r. \<forall>p\<in>set (fst (ap_cbor app a r)). length p = 64)
     \<and> (\<forall>a r. \<forall>p\<in>set (fst (ap_msg app a r)). length p = 64)
     \<and> (\<forall>a. \<forall>ev\<in>set (fst (ap_up app a)). \<forall>p. snd ev = Some p \<longrightarrow> length p = 64)"

lemma res_ok_simps [simp]: "res_ok (Inr (r, h)) = hid_ok h" "res_ok (Inl e) = (e \<noteq> Exit)"
  by (simp_all add: res_ok_def)

lemma res_ok_seqE:
  "res_ok m \<Longrightarrow> (\<And>r h. hid_ok h \<Longrightarrow> res_ok (f (r, h))) \<Longrightarrow> res_ok (seqE m f)"
  by (cases m) auto

lemma sub_okD: "sub_ok sub \<Longrightarrow> length p = 64 \<Longrightarrow> hid_ok h \<Longrightarrow> res_ok (sub p h)"
  by (auto simp: sub_ok_def)

lemma handle_packets_ok:
  "sub_ok sub \<Longrightarrow> hid_ok h \<Longrightarrow> (\<And>p. msg = Some p \<Longrightarrow> length p = 64) \<Longrightarrow> res_ok (handle_packets sub msg h)"
  by (auto simp: handle_packets_def split: option.splits intro!: res_ok_seqE sub_okD)

lemma up_wait_ok:
  "\<lbrakk>sub_ok sub; hid_ok h; \<forall>ev\<in>set evs. \<forall>p. snd ev = Some p \<longrightarrow> length p = 64\<rbrakk> \<Longrightarrow> res_ok (up_wait sub evs h)"
proof (induction evs arbitrary: h)
  case (Cons ev evs)
  have "res_ok (handle_packets sub (snd ev) h)"
    using Cons.prems by (intro handle_packets_ok) auto
  then show ?case using Cons by (auto intro!: res_ok_seqE)
qed simp

lemma up_config_ok:
  assumes "app_ok app" "sub_ok sub" "hid_ok h"
  shows "res_ok (ctap_user_presence_test_config app sub h)"
proof -
  obtain evs a where e: "ap_up app (h_app h) = (evs, a)" by fastforce
  have "\<forall>ev\<in>set evs. \<forall>p. snd ev = Some p \<longrightarrow> length p = 64"
    using assms(1) e unfolding app_ok_def by (metis fst_conv)
  then have "res_ok (up_wait sub evs (h\<lparr>h_app := a\<rparr>))"
    using assms by (intro up_wait_ok) (simp_all add: hid_ok_defs)
  then show ?thesis using assms(3) e
    by (simp add: ctap_user_presence_test_config_def split: option.splits)
qed

lemma run_packets_ok:
  "\<lbrakk>sub_ok sub; hid_ok h; \<forall>p\<in>set ps. length p = 64\<rbrakk>
   \<Longrightarrow> case run_packets sub ps h of Inl e \<Rightarrow> e \<noteq> Exit | Inr h' \<Rightarrow> hid_ok h'"
proof (induction ps arbitrary: h)
  case (Cons p ps)
  then have "res_ok (sub p h)" by (simp add: sub_okD)
  then show ?case using Cons by (cases "sub p h") auto
qed simp

lemma handle_done_ok: "hid_ok h \<Longrightarrow> res_ok (handle_done cid cmd h)"
  by (simp add: handle_done_def Let_def buffer_reset_ok table_ops_ok)

lemma busy_ok [simp]: "hid_ok (h\<lparr>h_busy := b\<rparr>) = hid_ok h" "hid_ok (h\<lparr>h_app := a\<rparr>) = hid_ok h"
  "hid_ok (h\<lparr>h_active_ts := t\<rparr>) = hid_ok h" "hid_ok (h\<lparr>h_heard := ps\<rparr>) = hid_ok h"
  by (simp_all add: hid_ok_defs)

lemma wb_replace_ok: "hid_ok h \<Longrightarrow> wb_ok wb \<Longrightarrow> hid_ok (h\<lparr>h_wb := wb\<rparr>)"
  by (simp add: hid_ok_defs)

lemma buf_replace_ok: "hid_ok h \<Longrightarrow> length b = length (h_buf h) \<Longrightarrow> hid_ok (h\<lparr>h_buf := b\<rparr>)"
  by (simp add: hid_ok_defs)

lemma hid_ok_wb: "hid_ok h \<Longrightarrow> wb_ok (h_wb h)"
  by (simp add: hid_ok_def)

lemma custom_command_ok:
  assumes "app_ok app" "sub_ok sub" "hid_ok h"
  shows "res_ok (ctaphid_custom_command app sub h)"
proof -
  note up = up_config_ok[OF assms]
  have lb: "length (h_buf h) = 7609" using assms(3) by (simp add: hid_ok_defs CTAPHID_BUFFER_SIZE_def)
  have n: "unat (h_buf h ! 0) < 256" by (rule unat_u8_lt)
  have b: "length (blit (memset (h_buf h) 0 0 k) 0 (take k d)) = length (h_buf h)" if "k < 256" for k d
    using that lb by simp
  have b8: "length (blit (memset (h_buf h) 0 0 k) 0 (take 8 d)) = length (h_buf h)" if "k < 256" for k d
    using that lb by simp
  have b4: "length (blit (h_buf h) 0 (take 3 d @ [x])) = length (h_buf h)" for d x
    using lb by simp
  show ?thesis
    unfolding ctaphid_custom_command_def Let_def
    using assms(3) up n b b8 b4
    by (auto split: prod.splits intro!: res_ok_seqE wb_flush_ok wb_write_ok wb_set_ok emit_ok buf_replace_ok)
qed

lemma dispatch_ok:
  assumes a: "app_ok app" and sb: "sub_ok sub" and h: "hid_ok h" and c: "cmd \<noteq> CTAPHID_INIT"
  shows "res_ok (dispatch app sub cid cmd len h)"
proof -
  have cb: "res_ok (run_cbor app sub cid cmd len x)" if x: "hid_ok x" for x
  proof -
    obtain ps st resp ap where e: "ap_cbor app (h_app x) (take (nat len) (h_buf x)) = (ps, st, resp, ap)"
      by (metis prod_cases4)
    have "\<forall>p\<in>set ps. length p = 64" using a e unfolding app_ok_def by (metis fst_conv)
    with run_packets_ok[OF sb, of "x\<lparr>h_app := ap\<rparr>" ps] x e show ?thesis
      by (cases "run_packets sub ps (x\<lparr>h_app := ap\<rparr>)")
         (auto simp: run_cbor_def Let_def intro!: handle_done_ok wb_flush_ok wb_write_ok wb_replace_ok simp: hid_ok_wb)
  qed
  have ms: "res_ok (run_msg app sub cid cmd x)" if x: "hid_ok x" for x
  proof -
    obtain ps resp ap where e: "ap_msg app (h_app x) (h_buf x) = (ps, resp, ap)" by (metis prod_cases3)
    have "\<forall>p\<in>set ps. length p = 64" using a e unfolding app_ok_def by (metis fst_conv)
    with run_packets_ok[OF sb, of "x\<lparr>h_app := ap\<rparr>" ps] x e show ?thesis
      by (cases "run_packets sub ps (x\<lparr>h_app := ap\<rparr>)")
         (auto simp: run_msg_def Let_def intro!: handle_done_ok wb_flush_ok wb_write_ok wb_replace_ok simp: hid_ok_wb)
  qed
  note cc = custom_command_ok[OF a sb h]
  show ?thesis
    unfolding dispatch_def dispatch_app_def Let_def using h c cb ms cc
    by (auto intro!: handle_done_ok wb_flush_ok wb_write_ok wb_set_ok emit_ok send_error_ok res_ok_seqE)
qed

lemma handle_with_ok:
  assumes a: "app_ok app" and sb: "sub_ok sub"
  shows "sub_ok (handle_with app now sub)"
  unfolding sub_ok_def
proof (intro allI impI)
  fix p h
  assume l: "length (p :: bytes) = 64" and h: "hid_ok (h :: 'a hid)"
  obtain st cmd len h' where e: "ctaphid_buffer_packet now p h = Inr (st, cmd, len, h')" "hid_ok h'"
    "st \<noteq> HID_ERROR \<and> st \<noteq> HID_IGNORE \<longrightarrow> cmd \<noteq> CTAPHID_INIT"
    using ctaphid_buffer_packet_ok[OF h l, of now] by blast
  let ?h = "h'\<lparr>h_wb := ctaphid_write_buffer_init\<lparr>w_cid := p_cid p, w_cmd := cmd\<rparr>, h_heard := h_heard h' @ [p]\<rparr>"
  have ok: "hid_ok ?h" using e(2) wb_replace_ok[of h'] by simp
  show "res_ok (handle_with app now sub p h)"
    unfolding handle_with_def e(1) seqE_simps Let_def prod.case
    using ok e(3) dispatch_ok[OF a sb ok]
    by (auto intro!: send_error_ok buffer_reset_ok table_ops_ok)
qed

lemma handle_packet_ok:
  assumes "app_ok app"
  shows "sub_ok (ctaphid_handle_packet n app now)"
proof (induction n)
  case 0
  then show ?case by (simp add: sub_ok_def)
next
  case (Suc n)
  then show ?case using handle_with_ok[OF assms] by simp
qed

lemma check_timeouts_ok: "hid_ok h \<Longrightarrow> hid_ok (ctaphid_check_timeouts now h)"
proof -
  have step: "hid_ok (check_timeout_at now x i)" if "hid_ok x" for x :: "'a hid" and i
  proof -
    let ?y = "ctaphid_send_error (ce_cid (h_cids x ! i)) ERR_TIMEOUT x"
    have "hid_ok ?y" by (rule send_error_ok[OF that])
    then have "hid_ok (?y\<lparr>h_cids := (h_cids ?y)[i := e]\<rparr>)" for e by (simp add: hid_ok_defs)
    then show ?thesis using that by (auto simp: check_timeout_at_def Let_def intro!: buffer_reset_ok)
  qed
  have "hid_ok x \<Longrightarrow> hid_ok (foldl (check_timeout_at now) x is)" for x :: "'a hid" and "is"
    by (induction "is" arbitrary: x) (simp_all add: step)
  then show "hid_ok h \<Longrightarrow> ?thesis" by (simp add: ctaphid_check_timeouts_def)
qed

end
