(* ===== verification/HidProps.thy ===== *)
theory HidProps
  imports HidDispatch
begin

text \<open>
  What the CTAPHID transport guarantees end to end: a message cut into packets is dispatched once,
  with exactly its bytes, and the answer is the packet sequence of the response.
\<close>

subsection \<open>Packets on the wire\<close>

lemma low_seq_byte: "unat (w :: u8) < 128 \<Longrightarrow> w AND TYPE_INIT = 0"
proof -
  assume "unat w < 128"
  then have "\<not> bit (unat w) 7" by (simp add: bit_iff_odd)
  then have b: "\<not> bit w 7" by (simp add: bit_unsigned_iff)
  have e: "TYPE_INIT = push_bit 7 1" by (simp add: TYPE_INIT_def)
  show ?thesis unfolding e using b by (metis bit_iff_and_push_bit_not_eq_0)
qed

lemma p_cid_wire [simp]: "p_cid (u32_le_bytes cid @ rest) = cid"
  by (simp add: p_cid_def u32_le_bytes_def)

lemma p_cmd_wire [simp]: "p_cmd (u32_le_bytes cid @ b # rest) = b" "(u32_le_bytes cid @ b # rest) ! 4 = b"
  by (simp_all add: p_cmd_def u32_le_bytes_def)

lemma packet_len_wire:
  "n < 65536 \<Longrightarrow> ctaphid_packet_len (u32_le_bytes cid @ b # of_nat (n div 256) # of_nat n # rest) = of_nat n"
proof -
  assume "n < 65536"
  have "be16 (of_nat (n div 256)) (of_nat n) = (of_nat n :: u16)"
    using be16_split[of "of_nat n"] by (simp only: of_nat_low_byte of_nat_high_byte)
  then show ?thesis by (simp add: ctaphid_packet_len_def u32_le_bytes_def)
qed

lemma init_payload: "k \<le> length d \<Longrightarrow> block (u32_le_bytes cid @ a # b # c # d) 7 k = take k d"
  by (simp add: block_def u32_le_bytes_def)

lemma cont_payload: "k \<le> length d \<Longrightarrow> block (u32_le_bytes cid @ a # d) 5 k = take k d"
  by (simp add: block_def u32_le_bytes_def)

subsection \<open>Collecting a message\<close>

definition collecting :: "u32 \<Rightarrow> u8 \<Rightarrow> bytes \<Rightarrow> nat \<Rightarrow> int \<Rightarrow> 'a hid \<Rightarrow> bool" where
  "collecting cid cmd d k s h \<longleftrightarrow> hid_ok h \<and> h_bcnt h = of_nat (length d) \<and> h_bcid h = cid
     \<and> h_bcmd h = cmd \<and> h_off h = k \<and> k \<le> length d \<and> take k (h_buf h) = take k d \<and> h_seq h = s
     \<and> cid_exists cid h"

definition same_world :: "'a hid \<Rightarrow> 'a hid \<Rightarrow> bool" where
  "same_world h h' \<longleftrightarrow> h_out h' = h_out h \<and> h_app h' = h_app h \<and> h_busy h' = h_busy h"

definition can_use :: "u32 \<Rightarrow> 'a hid \<Rightarrow> bool" where
  "can_use cid h \<longleftrightarrow> cid_exists cid h \<or> list_ex (\<lambda>e. \<not> ce_busy e) (take (CID_MAX - 1) (h_cids h))"

lemma add_cid_exists:
  assumes "can_use cid h" "\<not> cid_exists cid h" "length (h_cids h) = CID_MAX"
  shows "cid_exists cid (snd (add_cid cid now h))"
proof -
  have *: "list_ex (\<lambda>e. \<not> ce_busy e) es \<Longrightarrow> list_ex (\<lambda>e. ce_cid e = cid) (snd (add_cid_in cid now es))" for es
    by (induction es) (auto split: prod.splits)
  let ?t = "take (CID_MAX - 1) (h_cids h)"
  have "length (snd (add_cid_in cid now ?t)) = CID_MAX - 1" using assms(3) by (simp add: table_lengths)
  with * [of ?t] assms show ?thesis
    by (auto simp: cid_exists_def add_cid_def on_table_def can_use_def split: prod.splits)
qed

lemma refresh_exists:
  assumes "cid_exists cid h" "length (h_cids h) = CID_MAX"
  shows "cid_exists cid (snd (cid_refresh c now h))"
proof -
  have *: "map ce_cid (snd (cid_refresh_in c now es)) = map ce_cid es" for es
    by (induction es) (auto split: prod.splits)
  let ?t = "take (CID_MAX - 1) (h_cids h)"
  have l: "length (snd (cid_refresh_in c now ?t)) = CID_MAX - 1" using assms(2) by (simp add: table_lengths)
  have "cid \<in> ce_cid ` set ?t" using assms(1) by (auto simp: cid_exists_def list_ex_iff)
  then have "cid \<in> ce_cid ` set (snd (cid_refresh_in c now ?t))" using *[of ?t] by (metis set_map)
  then show ?thesis using l
    by (auto simp: cid_exists_def cid_refresh_def on_table_def list_ex_iff image_iff split: prod.splits)
qed

lemma start_packet:
  assumes ok: "hid_ok h" and idle: "h_bcnt h = 0" and cid: "cid \<noteq> CTAPHID_BROADCAST_CID" "can_use cid h"
    and cmd: "cmd AND TYPE_INIT \<noteq> 0" "cmd \<noteq> CTAPHID_INIT" and len: "length d \<le> CTAPHID_BUFFER_SIZE"
    and p: "p = u32_le_bytes cid @ [cmd, of_nat (length d div 256), of_nat (length d)]
                @ take 57 d @ replicate (57 - length d) 0"
  shows "\<exists>h'. ctaphid_buffer_packet now p h = Inr (buffer_status h', cmd, int (length d), h')
     \<and> collecting cid cmd d (min (length d) 57) (-1) h' \<and> same_world h h'"
proof -
  have lp: "length p = 64" by (simp add: p)
  have pc: "p_cid p = cid" "p_cmd p = cmd" "\<not> is_cont_pkt p" "\<not> is_init_pkt p"
    using cmd by (simp_all add: p is_cont_pkt_def is_init_pkt_def)
  have l16: "length d < 65536" using len by (simp add: CTAPHID_BUFFER_SIZE_def)
  have pl: "ctaphid_packet_len p = of_nat (length d)" using l16 by (simp add: p packet_len_wire)
  have ul: "unat (ctaphid_packet_len p) = length d" using l16 by (simp add: pl)
  define h1 where "h1 = (if \<not> cid_exists (p_cid p) h \<and> \<not> is_cont_pkt p \<and> buffer_status h = EMPTY
                 then snd (add_cid (p_cid p) now h) else h)"
  have ok1: "hid_ok h1" using ok by (simp add: h1_def table_ops_ok)
  have ex1: "cid_exists cid h1"
    using add_cid_exists[OF cid(2)] ok idle pc by (auto simp: h1_def hid_ok_defs)
  have w1: "h_bcnt h1 = 0" "h_out h1 = h_out h" "h_app h1 = h_app h" "h_busy h1 = h_busy h"
    using idle by (simp_all add: h1_def)
  let ?n = "min (length d) 57"
  have pay: "block p 7 ?n = take ?n d"
    unfolding p by (simp add: init_payload)
  define h2 where "h2 = h1\<lparr>h_bcnt := of_nat (length d), h_bcmd := cmd, h_bcid := cid, h_off := ?n,
      h_seq := -1, h_buf := blit (h_buf h1) 0 (take ?n d)\<rparr>"
  have bp: "buffer_packet p h1 = (False, h2)"
  proof -
    have n: "(if unat (ctaphid_packet_len p) < CTAPHID_INIT_PAYLOAD_SIZE
        then unat (ctaphid_packet_len p) else CTAPHID_INIT_PAYLOAD_SIZE) = ?n"
      unfolding ul by (simp add: min_def CTAPHID_INIT_PAYLOAD_SIZE_def HID_MESSAGE_SIZE_def)
    show ?thesis
      unfolding buffer_packet_def Let_def unfolding n pay unfolding pl pc(1,2) h2_def using cmd(1) by simp
  qed
  obtain rr h3 where rf: "cid_refresh cid now h2 = (rr, h3)" by fastforce
  have ex2: "cid_exists cid h2" using ex1 by (simp add: cid_exists_def h2_def)
  have rr: "rr = 0" using cid_refresh_found[OF ex2, of now] rf by simp
  have h3: "h3 = snd (cid_refresh cid now h2)" by (simp add: rf)
  have ok3: "hid_ok h3"
    using buffer_packet_ok[OF ok1 lp] pc ul len table_ops_ok(2)[of h2 cid now] bp cmd(2) by (simp add: h3)
  have col: "collecting cid cmd d ?n (-1) h3"
  proof -
    have "length (h_cids h2) = CID_MAX" using ok1 by (simp add: h2_def hid_ok_defs)
    then have "cid_exists cid h3" unfolding h3 by (rule refresh_exists[OF ex2])
    moreover have "h_bcnt h3 = of_nat (length d)" "h_bcid h3 = cid" "h_bcmd h3 = cmd" "h_off h3 = ?n"
      "h_seq h3 = -1" "h_buf h3 = blit (h_buf h1) 0 (take ?n d)"
      unfolding h3 by (simp_all add: h2_def)
    moreover have "take ?n (blit (h_buf h1) 0 (take ?n d)) = take ?n d"
      using take_blit_through[of 0 "h_buf h1" ?n "take ?n d"] by simp
    ultimately show ?thesis using ok3 by (simp add: collecting_def)
  qed
  have "ctaphid_buffer_data now p h = Inr (buffer_status h3, h_bcmd h3, int (unat (h_bcnt h3)), h3)"
    unfolding ctaphid_buffer_data_def Let_def h1_def[symmetric]
    using pc cid(1) ex1 w1 ul len bp rf rr by simp
  moreover have "h_bcmd h3 = cmd" "unat (h_bcnt h3) = length d"
    using col l16 by (simp_all add: collecting_def)
  moreover have "same_world h h3" using w1 by (simp add: same_world_def h3 h2_def)
  ultimately show ?thesis using col pc by (auto simp: ctaphid_buffer_packet_def)
qed

lemma next_packet:
  assumes c: "collecting cid cmd d k s h" and k: "k < length d" and cid: "cid \<noteq> CTAPHID_BROADCAST_CID"
    and seq: "int (unat w) = s + 1" "unat w < 128"
    and len: "length d \<le> CTAPHID_BUFFER_SIZE"
    and p: "p = u32_le_bytes cid @ [w] @ take 59 (drop k d) @ replicate (59 - (length d - k)) 0"
  shows "\<exists>h'. ctaphid_buffer_packet now p h = Inr (buffer_status h', cmd, int (length d), h')
     \<and> collecting cid cmd d (min (length d) (k + 59)) (s + 1) h' \<and> same_world h h'"
proof -
  have h: "hid_ok h" "h_bcnt h = of_nat (length d)" "h_bcid h = cid" "h_bcmd h = cmd" "h_off h = k"
    "take k (h_buf h) = take k d" "h_seq h = s" "cid_exists cid h"
    using c by (auto simp: collecting_def)
  have l16: "length d < 65536" using len by (simp add: CTAPHID_BUFFER_SIZE_def)
  have ub: "unat (h_bcnt h) = length d" "h_bcnt h \<noteq> 0"
    using l16 k h(2) by (auto simp: of_nat_u16_eq_0)
  have lp: "length p = 64" using k by (simp add: p)
  have pc: "p_cid p = cid" "p_cmd p = w" "is_cont_pkt p" "\<not> is_init_pkt p" "p ! 4 = w"
    using low_seq_byte[OF seq(2)]
    by (auto simp: p is_cont_pkt_def is_init_pkt_def TYPE_INIT_def CTAPHID_INIT_def)
  let ?n = "min (length d - k) 59"
  have pay: "block p 5 ?n = take ?n (drop k d)"
    unfolding p by (simp add: cont_payload)
  define h2 where "h2 = h\<lparr>h_seq := s + 1, h_buf := blit (h_buf h) k (take ?n (drop k d)), h_off := k + ?n\<rparr>"
  have bp: "buffer_packet p h = (False, h2)"
    using buffer_packet_cont[of p h] pc low_seq_byte[OF seq(2)] ub k h pay seq(1)
    by (simp add: h2_def Let_def)
  obtain rr h3 where rf: "cid_refresh cid now h2 = (rr, h3)" by fastforce
  have ex2: "cid_exists cid h2" using h(8) by (simp add: cid_exists_def h2_def)
  have rr: "rr = 0" using cid_refresh_found[OF ex2, of now] rf by simp
  have h3: "h3 = snd (cid_refresh cid now h2)" by (simp add: rf)
  have w0: "p_cmd p AND TYPE_INIT = 0" using low_seq_byte[OF seq(2)] pc by simp
  have ok3: "hid_ok h3"
    using buffer_packet_ok[OF h(1) lp] w0 table_ops_ok(2)[of h2 cid now] bp by (simp add: h3)
  have lb: "length (h_buf h) = CTAPHID_BUFFER_SIZE" using h(1) by (simp add: hid_ok_defs)
  have tk: "take (k + ?n) (blit (h_buf h) k (take ?n (drop k d))) = take (k + ?n) d"
  proof -
    have "take (k + ?n) (blit (h_buf h) k (take ?n (drop k d))) = take k (h_buf h) @ take ?n (drop k d)"
      using k lb len by (intro take_blit_through) auto
    then show ?thesis by (simp only: h(6) take_add)
  qed
  have col: "collecting cid cmd d (min (length d) (k + 59)) (s + 1) h3"
  proof -
    have e: "min (length d) (k + 59) = k + ?n" using k by (auto simp: min_def)
    show ?thesis unfolding e
      using ok3 refresh_exists[OF ex2, of cid now] tk h k ok3
      by (simp add: collecting_def h3 h2_def hid_ok_defs)
  qed
  have "ctaphid_buffer_data now p h = Inr (buffer_status h3, h_bcmd h3, int (unat (h_bcnt h3)), h3)"
    unfolding ctaphid_buffer_data_def Let_def
    using pc cid h ub bp rf rr by simp
  moreover have "h_bcmd h3 = cmd" "unat (h_bcnt h3) = length d"
    using col l16 by (simp_all add: collecting_def)
  moreover have "same_world h h3" by (simp add: same_world_def h3 h2_def)
  ultimately show ?thesis using col pc by (auto simp: ctaphid_buffer_packet_def)
qed


subsection \<open>A whole message\<close>

definition dispatch_state :: "u32 \<Rightarrow> u8 \<Rightarrow> bytes \<Rightarrow> 'a hid \<Rightarrow> 'a hid \<Rightarrow> bool" where
  "dispatch_state cid cmd d h g \<longleftrightarrow> hid_ok g \<and> take (length d) (h_buf g) = d \<and> same_world h g
     \<and> h_bcid g = cid \<and> h_bcnt g = of_nat (length d) \<and> cid_exists cid g
     \<and> h_wb g = ctaphid_write_buffer_init\<lparr>w_cid := cid, w_cmd := cmd\<rparr>"

lemma same_world_trans: "same_world a b \<Longrightarrow> same_world b c \<Longrightarrow> same_world a c"
  by (simp add: same_world_def)

text \<open>What the handler does with a packet that leaves the message incomplete or completes it.\<close>

lemma handle_collecting:
  assumes b: "ctaphid_buffer_packet now p h = Inr (buffer_status h', cmd, int (length d), h')"
    and c: "collecting cid cmd d k s h'" and sw: "same_world h h'" and pc: "p_cid p = cid"
    and len: "length d \<le> CTAPHID_BUFFER_SIZE"
  shows "k < length d \<Longrightarrow> \<exists>g. handle_with app now sub p h = Inr (0, g) \<and> collecting cid cmd d k s g \<and> same_world h g"
    and "k = length d \<Longrightarrow> \<exists>g. handle_with app now sub p h = dispatch app sub cid cmd (int (length d)) g
           \<and> dispatch_state cid cmd d h g"
proof -
  let ?g = "h'\<lparr>h_wb := ctaphid_write_buffer_init\<lparr>w_cid := cid, w_cmd := cmd\<rparr>, h_heard := h_heard h' @ [p]\<rparr>"
  have l16: "length d < 65536" using len by (simp add: CTAPHID_BUFFER_SIZE_def)
  have ok: "hid_ok ?g" using c wb_replace_ok[of h'] by (simp add: collecting_def)
  have ub: "unat (h_bcnt h') = length d" "(h_bcnt h' = 0) = (d = [])"
    using c l16 by (auto simp: collecting_def of_nat_u16_eq_0)
  have col: "collecting cid cmd d k s (?g\<lparr>h_active_ts := t\<rparr>)" for t
    using c ok by (auto simp: collecting_def cid_exists_def)
  have h: "handle_with app now sub p h
      = (if buffer_status h' = BUFFERING then Inr (0, ?g\<lparr>h_active_ts := now\<rparr>)
         else dispatch app sub cid cmd (int (length d)) ?g)"
    by (simp add: handle_with_def b pc Let_def)
  have off: "h_off h' = k" using c by (simp add: collecting_def)
  {
    assume k: "k < length d"
    then have "d \<noteq> []" by auto
    then have "buffer_status h' = BUFFERING" using ub off k by simp
    then show "\<exists>g. handle_with app now sub p h = Inr (0, g) \<and> collecting cid cmd d k s g \<and> same_world h g"
      using h col sw by (intro exI[of _ "?g\<lparr>h_active_ts := now\<rparr>"]) (simp add: same_world_def)
  }
  {
    assume k: "k = length d"
    then have "buffer_status h' \<noteq> BUFFERING" using ub off by simp
    moreover have "dispatch_state cid cmd d h ?g"
      using c ok sw k by (simp add: dispatch_state_def collecting_def same_world_def cid_exists_def)
    ultimately show "\<exists>g. handle_with app now sub p h = dispatch app sub cid cmd (int (length d)) g
           \<and> dispatch_state cid cmd d h g"
      using h by auto
  }
qed

lemma feed_conts:
  assumes "collecting cid cmd d (57 + 59 * i) (int i - 1) h" "57 + 59 * i < length d"
    and cid: "cid \<noteq> CTAPHID_BROADCAST_CID" and len: "length d \<le> CTAPHID_BUFFER_SIZE"
  shows "\<exists>g. run_packets (handle_with app now sub) (cont_packets cid (of_nat i) (drop (57 + 59 * i) d)) h
           = seqE (dispatch app sub cid cmd (int (length d)) g) (\<lambda>(r, h). Inr h)
         \<and> dispatch_state cid cmd d h g"
  using assms(1,2)
proof (induction "length d - 59 * i" arbitrary: i h rule: less_induct)
  case (less i h)
  let ?k = "57 + 59 * i" and ?d = "drop (57 + 59 * i) d"
  let ?p = "u32_le_bytes cid @ [of_nat i] @ take 59 ?d @ replicate (59 - length ?d) 0"
  have i: "i < 128" using less(3) len by (simp add: CTAPHID_BUFFER_SIZE_def)
  then have seq: "int (unat (of_nat i :: u8)) = int i - 1 + 1" "unat (of_nat i :: u8) < 128"
    by (simp_all add: unat_of_nat_u8 del: of_nat_unat)
  have "length ?d = length d - ?k" by simp
  then obtain h' where n: "ctaphid_buffer_packet now ?p h = Inr (buffer_status h', cmd, int (length d), h')"
    "collecting cid cmd d (min (length d) (?k + 59)) (int i - 1 + 1) h'" "same_world h h'"
    using next_packet[OF less(2,3) cid seq len, of ?p now] by auto
  have pc: "p_cid ?p = cid" by simp
  have cp: "cont_packets cid (of_nat i) ?d = ?p # cont_packets cid (of_nat (Suc i)) (drop (57 + 59 * Suc i) d)"
    using less(3) by (subst cont_packets.simps) (simp add: add.commute)
  show ?case
  proof (cases "?k + 59 < length d")
    case True
    have m: "min (length d) (?k + 59) = 57 + 59 * Suc i" using True by simp
    obtain g where g: "handle_with app now sub ?p h = Inr (0, g)" "collecting cid cmd d (57 + 59 * Suc i) (int i) g"
      "same_world h g"
      using handle_collecting(1)[OF n(1) n(2)[unfolded m] n(3) pc len, of app sub] True by auto
    obtain g' where g': "run_packets (handle_with app now sub) (cont_packets cid (of_nat (Suc i)) (drop (57 + 59 * Suc i) d)) g
           = seqE (dispatch app sub cid cmd (int (length d)) g') (\<lambda>(r, h). Inr h)" "dispatch_state cid cmd d g g'"
    proof -
      have "length d - 59 * Suc i < length d - 59 * i" "57 + 59 * Suc i < length d" using True less(3) by simp_all
      moreover have "collecting cid cmd d (57 + 59 * Suc i) (int (Suc i) - 1) g" using g(2) by simp
      ultimately show ?thesis using less(1)[of "Suc i" g] that by blast
    qed
    have "dispatch_state cid cmd d h g'" using g'(2) g(3) same_world_trans by (auto simp: dispatch_state_def)
    then show ?thesis unfolding cp using g'(1) g(1) by auto
  next
    case False
    have m: "min (length d) (?k + 59) = length d" using False by simp
    obtain g where g: "handle_with app now sub ?p h = dispatch app sub cid cmd (int (length d)) g" "dispatch_state cid cmd d h g"
      using handle_collecting(2)[OF n(1) n(2)[unfolded m] n(3) pc len refl, of app sub] by auto
    have "drop (57 + 59 * Suc i) d = []" using False by simp
    then show ?thesis unfolding cp using g by (intro exI[of _ g]) (simp add: run_packets_def)
  qed
qed

text \<open>The packets of a message, fed to an idle transport, end in exactly one dispatch, with the bytes
  of the message.\<close>

lemma feed_message:
  assumes ok: "hid_ok h" and idle: "h_bcnt h = 0" and cid: "cid \<noteq> CTAPHID_BROADCAST_CID" "can_use cid h"
    and cmd: "cmd AND TYPE_INIT \<noteq> 0" "cmd \<noteq> CTAPHID_INIT" and len: "length d \<le> CTAPHID_BUFFER_SIZE"
  shows "\<exists>g. feed (Suc n) app now (hid_packets cid cmd d) h
           = seqE (dispatch app (ctaphid_handle_packet n app now) cid cmd (int (length d)) g) (\<lambda>(r, h). Inr h)
         \<and> dispatch_state cid cmd d h g"
proof -
  let ?sub = "ctaphid_handle_packet n app now"
  let ?p = "u32_le_bytes cid @ [cmd, of_nat (length d div 256), of_nat (length d)]
                @ take 57 d @ replicate (57 - length d) 0"
  obtain h' where n: "ctaphid_buffer_packet now ?p h = Inr (buffer_status h', cmd, int (length d), h')"
    "collecting cid cmd d (min (length d) 57) (-1) h'" "same_world h h'"
    using start_packet[OF ok idle cid cmd len refl, of now] by auto
  have pc: "p_cid ?p = cid" by simp
  show ?thesis
  proof (cases "57 < length d")
    case True
    have m: "min (length d) 57 = 57 + 59 * 0" using True by simp
    obtain g where g: "handle_with app now ?sub ?p h = Inr (0, g)" "collecting cid cmd d (57 + 59 * 0) (int 0 - 1) g"
      "same_world h g"
      using handle_collecting(1)[OF n(1) n(2)[unfolded m] n(3) pc len, of app ?sub] True by auto
    obtain g' where g': "run_packets (handle_with app now ?sub) (cont_packets cid (of_nat 0) (drop (57 + 59 * 0) d)) g
           = seqE (dispatch app ?sub cid cmd (int (length d)) g') (\<lambda>(r, h). Inr h)" "dispatch_state cid cmd d g g'"
      using feed_conts[OF g(2) _ cid(1) len, of app now ?sub] True by auto
    have "dispatch_state cid cmd d h g'" using g'(2) g(3) same_world_trans by (auto simp: dispatch_state_def)
    then show ?thesis using g'(1) g(1) by (intro exI[of _ g']) (simp add: feed_def hid_packets_def)
  next
    case False
    have m: "min (length d) 57 = length d" using False by simp
    obtain g where g: "handle_with app now ?sub ?p h = dispatch app ?sub cid cmd (int (length d)) g" "dispatch_state cid cmd d h g"
      using handle_collecting(2)[OF n(1) n(2)[unfolded m] n(3) pc len refl, of app ?sub] by auto
    show ?thesis using g False by (intro exI[of _ g]) (simp add: feed_def hid_packets_def)
  qed
qed


subsection \<open>Responses\<close>

lemma wb_write_write: "wb_write b (wb_write a h) = wb_write (a @ b) h"
  using ctaphid_write_append[of "h_wb h" a b]
  by (auto simp: wb_write_def send_reports_def Let_def split: prod.splits)

lemma wb_flush_write:
  "wb_flush (wb_write d h) = (let (rs, wb) = write_message (h_wb h) d in send_reports rs (h\<lparr>h_wb := wb\<rparr>))"
  by (auto simp: wb_write_def wb_flush_def write_message_def send_reports_def Let_def split: prod.splits)

lemma wb_flush_only: "wb_flush h = wb_flush (wb_write [] h)"
  by (simp add: wb_write_def send_reports_def)

lemma respond:
  assumes "h_wb h = ctaphid_write_buffer_init\<lparr>w_cid := cid, w_cmd := cmd, w_bcnt := of_nat (length d)\<rparr>"
    and "length d < 65536"
  shows "h_out (wb_flush (wb_write d h)) = h_out h @ map Report (hid_packets cid cmd d)
     \<and> h_app (wb_flush (wb_write d h)) = h_app h \<and> h_busy (wb_flush (wb_write d h)) = h_busy h
     \<and> h_cids (wb_flush (wb_write d h)) = h_cids h"
  using write_message_packets[of "h_wb h" d] assms
  by (auto simp: wb_flush_write send_reports_def ctaphid_write_buffer_init_def split: prod.splits)

lemma reset_frame [simp]:
  "h_out (buffer_reset h) = h_out h" "h_app (buffer_reset h) = h_app h" "h_busy (buffer_reset h) = h_busy h"
  "h_bcnt (buffer_reset h) = 0" "h_wb (buffer_reset h) = h_wb h" "h_buf (buffer_reset h) = h_buf h"
  by (simp_all add: buffer_reset_def)

lemma handle_done_result:
  "handle_done cid cmd h = Inr (if \<not> h_busy h then cmd else 0, buffer_reset (snd (cid_del cid h)))"
  by (simp add: handle_done_def Let_def)

lemma wb_set_buf [simp]: "h_buf (wb_set_bcnt n h) = h_buf h"
  by (simp add: wb_set_bcnt_def)

definition idle_on :: "u32 \<Rightarrow> 'a hid \<Rightarrow> bool" where
  "idle_on cid h \<longleftrightarrow> hid_ok h \<and> h_bcnt h = 0 \<and> cid \<noteq> CTAPHID_BROADCAST_CID \<and> can_use cid h"

lemma ping_echo_message:
  assumes "idle_on cid h" "length d \<le> CTAPHID_BUFFER_SIZE"
  shows "\<exists>h'. feed (Suc n) app now (hid_packets cid CTAPHID_PING d) h = Inr h'
     \<and> h_out h' = h_out h @ map Report (hid_packets cid CTAPHID_PING d)
     \<and> h_app h' = h_app h \<and> h_busy h' = h_busy h \<and> h_bcnt h' = 0"
proof -
  let ?sub = "ctaphid_handle_packet n app now"
  obtain g where g: "feed (Suc n) app now (hid_packets cid CTAPHID_PING d) h
      = seqE (dispatch app ?sub cid CTAPHID_PING (int (length d)) g) (\<lambda>(r, h). Inr h)"
    "dispatch_state cid CTAPHID_PING d h g"
    using feed_message[of h cid CTAPHID_PING d n app now] assms
    by (auto simp: idle_on_def hid_cmds)
  let ?g = "wb_set_bcnt (of_nat (length d)) g"
  have l: "length d < 65536" using assms(2) by (simp add: CTAPHID_BUFFER_SIZE_def)
  have w: "h_wb ?g = ctaphid_write_buffer_init\<lparr>w_cid := cid, w_cmd := CTAPHID_PING, w_bcnt := of_nat (length d)\<rparr>"
    using g(2) by (simp add: dispatch_state_def wb_set_bcnt_def)
  have sw: "h_out ?g = h_out h" "h_app ?g = h_app h" "h_busy ?g = h_busy h" "take (length d) (h_buf g) = d"
    using g(2) by (simp_all add: dispatch_state_def same_world_def wb_set_bcnt_def)
  show ?thesis
    using respond[OF w l] sw g(1)
    by (simp add: dispatch_def handle_done_result hid_cmds Let_def)
qed

definition hid_start :: "'a \<Rightarrow> 'a hid" where
  "hid_start a = \<lparr>h_cids = replicate CID_MAX \<lparr>ce_cid = 0, ce_last_used = 0, ce_busy = False, ce_last_cmd = 0\<rparr>,
     h_cid_seq = 1, h_buf = replicate CTAPHID_BUFFER_SIZE 0, h_bcid = 0, h_bcmd = 0, h_bcnt = 0,
     h_off = 0, h_seq = 0, h_active_ts = 0, h_busy = False, h_wb = ctaphid_write_buffer_init,
     h_out = [], h_heard = [], h_app = a\<rparr>"

lemma hid_start_ok: "hid_ok (hid_start a)"
  by (simp add: hid_ok_defs hid_start_def)

lemma hid_start_idle: "cid \<noteq> CTAPHID_BROADCAST_CID \<Longrightarrow> idle_on cid (hid_start a)"
  using hid_start_ok[of a] by (simp add: idle_on_def hid_start_def can_use_def CID_MAX_def list_ex_iff)

text \<open>An application for the examples: it answers every request with status 0 and the request, is
  never interrupted, and waits in vain for a touch.\<close>

definition echo_app :: "unit hid_app" where
  "echo_app = \<lparr>ap_cbor = (\<lambda>a r. ([], 0, r, a)), ap_msg = (\<lambda>a r. ([], take 2 r, a)),
     ap_up = (\<lambda>a. ([(False, None)], a)), ap_up_skip = (\<lambda>a. None), ap_rng = (\<lambda>a n. (replicate n 7, a)),
     ap_status = (\<lambda>a. replicate 8 0), ap_version = [2, 4, 1], ap_locked = (\<lambda>a. 0), ap_lock = (\<lambda>a. a)\<rparr>"

text \<open>A CBOR request of 1 to 7609 bytes reaches the CTAP2 application once, as
  exactly those bytes; when no further report is handled meanwhile, the host receives the packets
  of the status byte followed by the response, and the busy flag is clear again.\<close>

lemma cbor_message:
  assumes "idle_on cid h" "0 < length d" "length d \<le> CTAPHID_BUFFER_SIZE" "\<not> h_busy h"
    and "ap_cbor app (h_app h) d = ([], status, resp, a)" "length resp < CTAPHID_BUFFER_SIZE"
  shows "\<exists>h'. feed (Suc n) app now (hid_packets cid CTAPHID_CBOR d) h = Inr h'
     \<and> h_out h' = h_out h @ map Report (hid_packets cid CTAPHID_CBOR (status # resp))
     \<and> h_app h' = a \<and> \<not> h_busy h' \<and> h_bcnt h' = 0"
proof -
  let ?sub = "ctaphid_handle_packet n app now"
  obtain g where g: "feed (Suc n) app now (hid_packets cid CTAPHID_CBOR d) h
      = seqE (dispatch app ?sub cid CTAPHID_CBOR (int (length d)) g) (\<lambda>(r, h). Inr h)"
    "dispatch_state cid CTAPHID_CBOR d h g"
    using feed_message[of h cid CTAPHID_CBOR d n app now] assms(1,3)
    by (auto simp: idle_on_def hid_cmds)
  have sw: "h_out g = h_out h" "h_app g = h_app h" "h_busy g = h_busy h" "take (length d) (h_buf g) = d"
    using g(2) by (simp_all add: dispatch_state_def same_world_def)
  let ?g = "g\<lparr>h_busy := True, h_app := a,
      h_wb := (h_wb g)\<lparr>w_bcnt := of_nat (length resp + 1), w_cid := cid, w_cmd := CTAPHID_CBOR\<rparr>\<rparr>"
  have w: "h_wb ?g = ctaphid_write_buffer_init\<lparr>w_cid := cid, w_cmd := CTAPHID_CBOR,
      w_bcnt := of_nat (length (status # resp))\<rparr>"
    using g(2) by (simp add: dispatch_state_def)
  have l: "length (status # resp) < 65536" using assms(6) by (simp add: CTAPHID_BUFFER_SIZE_def)
  have "dispatch app ?sub cid CTAPHID_CBOR (int (length d)) g
      = handle_done cid CTAPHID_CBOR ((wb_flush (wb_write (status # resp) ?g))\<lparr>h_busy := False\<rparr>)"
    using assms(2,4,5) sw
    by (simp add: dispatch_def dispatch_app_def run_cbor_def hid_cmds Let_def wb_write_write)
  then show ?thesis using respond[OF w l] sw(1) g(1)
    by (simp add: handle_done_result)
qed

subsection \<open>Any traffic\<close>

text \<open>An application that is never interrupted by reports.\<close>

definition app_quiet :: "'a hid_app \<Rightarrow> bool" where
  "app_quiet app \<longleftrightarrow> (\<forall>a r. fst (ap_cbor app a r) = []) \<and> (\<forall>a r. fst (ap_msg app a r) = [])
     \<and> (\<forall>a. \<forall>ev\<in>set (fst (ap_up app a)). snd ev = None)"

lemma app_quiet_ok: "app_quiet app \<Longrightarrow> app_ok app"
  unfolding app_quiet_def app_ok_def by (metis empty_iff list.set(1) option.distinct(1))

lemma quiet_up_wait: "\<forall>ev\<in>set evs. snd ev = None \<Longrightarrow> up_wait sub evs h = Inr (if \<exists>ev\<in>set evs. fst ev then 1 else 0, h)"
  by (induction evs) (auto simp: handle_packets_def)

lemma quiet_up_config:
  assumes "app_quiet app"
  shows "\<exists>r h'. ctap_user_presence_test_config app sub h = Inr (r, h')"
proof -
  obtain evs a where e: "ap_up app (h_app h) = (evs, a)" by fastforce
  then have "\<forall>ev\<in>set evs. snd ev = None" using assms unfolding app_quiet_def by (metis fst_conv)
  then show ?thesis using e
    by (auto simp: ctap_user_presence_test_config_def quiet_up_wait split: option.splits)
qed

lemma quiet_returns:
  assumes q: "app_quiet app" and h: "hid_ok h" and l: "length p = 64"
  shows "\<exists>r h'. handle_with app now sub p h = Inr (r, h')"
proof -
  obtain st cmd len h1 where e: "ctaphid_buffer_packet now p h = Inr (st, cmd, len, h1)"
    "st \<noteq> HID_ERROR \<and> st \<noteq> HID_IGNORE \<longrightarrow> cmd \<noteq> CTAPHID_INIT"
    using ctaphid_buffer_packet_ok[OF h l, of now] by blast
  have cc: "\<exists>r h'. ctaphid_custom_command app sub x = Inr (r, h')" for x
    using quiet_up_config[OF q, of sub x]
    by (auto simp: ctaphid_custom_command_def Let_def split: prod.splits)
  have cb: "\<exists>r h'. run_cbor app sub c k n x = Inr (r, h')" for c k n x
  proof -
    obtain ps st resp ap where e: "ap_cbor app (h_app x) (take (nat n) (h_buf x)) = (ps, st, resp, ap)"
      by (metis prod_cases4)
    then have "ps = []" using q unfolding app_quiet_def by (metis fst_conv)
    with e show ?thesis by (simp add: run_cbor_def handle_done_def Let_def)
  qed
  have ms: "\<exists>r h'. run_msg app sub c k x = Inr (r, h')" for c k x
  proof -
    obtain ps resp ap where e: "ap_msg app (h_app x) (h_buf x) = (ps, resp, ap)" by (metis prod_cases3)
    then have "ps = []" using q unfolding app_quiet_def by (metis fst_conv)
    with e show ?thesis by (simp add: run_msg_def handle_done_def Let_def)
  qed
  have "\<exists>r h'. dispatch app sub c cmd n x = Inr (r, h')" if "cmd \<noteq> CTAPHID_INIT" for c n x
    using that cb ms cc[of x]
    by (auto simp: dispatch_def dispatch_app_def handle_done_def Let_def split: if_splits)
  then show ?thesis using e by (auto simp: handle_with_def Let_def)
qed

text \<open>Whatever reports arrive, also in the middle of requests, no \<open>exit(1)\<close> of the transport is reached and its buffers stay within bounds.\<close>

lemma feed_safe:
  assumes "app_ok app" "hid_ok h" "\<forall>p\<in>set ps. length p = 64"
  shows "case feed n app now ps h of Inl e \<Rightarrow> e = Deep | Inr h' \<Rightarrow> hid_ok h'"
  using run_packets_ok[OF handle_packet_ok[OF assms(1), of n now] assms(2,3)]
  by (auto simp: feed_def split: sum.splits intro: hid_stop.exhaust)

lemma feed_returns:
  assumes "app_quiet app" "hid_ok h" "\<forall>p\<in>set ps. length p = 64"
  shows "\<exists>h'. feed (Suc n) app now ps h = Inr h'"
  using assms(2,3)
proof (induction ps arbitrary: h)
  case (Cons p ps)
  note ok = app_quiet_ok[OF assms(1)]
  have "length p = 64" using Cons.prems by simp
  from quiet_returns[OF assms(1) Cons.prems(1) this]
  obtain r h' where e: "handle_with app now (ctaphid_handle_packet n app now) p h = Inr (r, h')" by blast
  moreover have "hid_ok h'"
    using sub_okD[OF handle_with_ok[OF ok handle_packet_ok[OF ok]], of p h] Cons.prems e
    by (metis list.set_intros(1) res_ok_simps(1))
  ultimately show ?case using Cons by (simp add: feed_def)
qed (simp add: feed_def)

lemma echo_quiet: "app_quiet echo_app"
  by (simp add: app_quiet_def echo_app_def)

subsection \<open>Other channels\<close>

lemma cid_del_exists: "length (h_cids h) = CID_MAX \<Longrightarrow> cid_exists c (snd (cid_del b h)) = cid_exists c h"
proof -
  assume l: "length (h_cids h) = CID_MAX"
  have *: "map ce_cid (snd (cid_del_in b es)) = map ce_cid es" for es
    by (induction es) (auto split: prod.splits)
  let ?t = "take (CID_MAX - 1) (h_cids h)"
  have "length (snd (cid_del_in b ?t)) = CID_MAX - 1" using l by (simp add: table_lengths)
  moreover have "ce_cid ` set (snd (cid_del_in b ?t)) = ce_cid ` set ?t" using *[of ?t] by (metis set_map)
  then have "(c \<in> ce_cid ` set (snd (cid_del_in b ?t))) = (c \<in> ce_cid ` set ?t)" by simp
  ultimately show ?thesis
    by (auto simp: cid_exists_def cid_del_def on_table_def list_ex_iff image_iff split: prod.splits)
qed

lemma foreign_buffer_data:
  assumes c: "collecting cid cmd d k s h" and k: "k < length d" and other: "p_cid p \<noteq> cid"
    and len: "length d \<le> CTAPHID_BUFFER_SIZE"
  shows "ctaphid_buffer_data now p h = Inr (HID_IGNORE, 0, 0, h)
     \<or> (\<exists>e. ctaphid_buffer_data now p h = Inr (HID_ERROR, e, 0, h) \<and> e \<noteq> ERR_INVALID_SEQ
          \<and> (e = ERR_CHANNEL_BUSY \<or> p_cid p = CTAPHID_BROADCAST_CID))"
proof -
  have "h_bcnt h \<noteq> 0" "h_off h = k" "unat (h_bcnt h) = length d" "h_bcid h = cid"
    using c k len by (auto simp: collecting_def CTAPHID_BUFFER_SIZE_def of_nat_u16_eq_0)
  then show ?thesis using k other
    by (auto simp: ctaphid_buffer_data_def Let_def hid_errs)
qed

text \<open>C11 (isolation). While a message is being collected for one channel, a report on any other
  channel that is not an INIT leaves the collected message exactly as it was; the other channel
  gets no answer (a stray continuation) or one error message, busy unless it is the broadcast
  channel.\<close>

theorem hid_channel_isolation:
  assumes c: "collecting cid cmd d k s h" and k: "k < length d" and len: "length d \<le> CTAPHID_BUFFER_SIZE"
    and other: "p_cid p \<noteq> cid" and ni: "\<not> is_init_pkt p"
  shows "\<exists>h'. ctaphid_handle_packet (Suc n) app now p h = Inr (0, h')
     \<and> collecting cid cmd d k s h' \<and> h_buf h' = h_buf h \<and> h_app h' = h_app h
     \<and> (h_out h' = h_out h
        \<or> (\<exists>e. h_out h' = h_out h @ map Report (hid_packets (p_cid p) CTAPHID_ERROR [e])
               \<and> (e = ERR_CHANNEL_BUSY \<or> p_cid p = CTAPHID_BROADCAST_CID)))"
proof -
  let ?w = "\<lambda>x. h\<lparr>h_wb := ctaphid_write_buffer_init\<lparr>w_cid := p_cid p, w_cmd := x\<rparr>, h_heard := h_heard h @ [p]\<rparr>"
  have col: "collecting cid cmd d k s (?w x)" for x
    using c wb_replace_ok[of h] by (auto simp: collecting_def cid_exists_def)
  from foreign_buffer_data[OF c k other len, of now]
  consider (ign) "ctaphid_buffer_data now p h = Inr (HID_IGNORE, 0, 0, h)"
    | (err) e where "ctaphid_buffer_data now p h = Inr (HID_ERROR, e, 0, h)" "e \<noteq> ERR_INVALID_SEQ"
      "e = ERR_CHANNEL_BUSY \<or> p_cid p = CTAPHID_BROADCAST_CID" by blast
  then show ?thesis
  proof cases
    case ign
    then have "ctaphid_handle_packet (Suc n) app now p h = Inr (0, ?w 0)"
      using ni by (simp add: handle_with_def ctaphid_buffer_packet_def Let_def)
    then show ?thesis using col[of 0] by (intro exI[of _ "?w 0"]) simp
  next
    case e: err
    let ?g = "snd (cid_del (p_cid p) (?w e))"
    let ?h = "ctaphid_send_error (p_cid p) e ?g"
    have r: "ctaphid_handle_packet (Suc n) app now p h = Inr (0, ?h)"
      using ni e(1,2) by (simp add: handle_with_def ctaphid_buffer_packet_def Let_def)
    have out: "h_out ?h = h_out h @ map Report (hid_packets (p_cid p) CTAPHID_ERROR [e])"
      using write_message_packets[of "ctaphid_write_buffer_init\<lparr>w_cid := p_cid p, w_cmd := CTAPHID_ERROR, w_bcnt := 1\<rparr>" "[e]"]
      by (simp add: ctaphid_send_error_def send_reports_def ctaphid_write_buffer_init_def)
    have ok: "hid_ok ?h" using col[of e] by (intro send_error_ok table_ops_ok(3)) (simp add: collecting_def)
    have "length (h_cids (?w e)) = CID_MAX" using c by (simp add: collecting_def hid_ok_defs)
    then have "cid_exists cid ?g" using cid_del_exists[of "?w e" cid "p_cid p"] col[of e] by (simp add: collecting_def)
    then have "collecting cid cmd d k s ?h" using ok c
      by (simp add: collecting_def ctaphid_send_error_def send_reports_def cid_exists_def)
    then show ?thesis using r out e(3)
      by (intro exI[of _ ?h]) (auto simp: ctaphid_send_error_def send_reports_def)
  qed
qed


definition hid_mid :: "unit hid" where
  "hid_mid = (hid_start ())\<lparr>h_cids := \<lparr>ce_cid = 5, ce_last_used = 0, ce_busy = True, ce_last_cmd = 0\<rparr>
       # replicate 9 \<lparr>ce_cid = 0, ce_last_used = 0, ce_busy = False, ce_last_cmd = 0\<rparr>,
     h_bcnt := 60, h_bcid := 5, h_bcmd := CTAPHID_CBOR, h_off := 57, h_seq := -1\<rparr>"

lemma hid_mid_collecting: "collecting 5 CTAPHID_CBOR (replicate 60 0) 57 (-1) hid_mid"
proof -
  have "hid_ok hid_mid"
    using hid_start_ok[of "()"] by (simp add: hid_ok_defs hid_mid_def hid_start_def CID_MAX_def hid_cmds hid_sizes)
  then show ?thesis
    by (simp add: collecting_def hid_mid_def hid_start_def cid_exists_def CID_MAX_def hid_sizes)
qed

theorem hid_channel_isolation_witness:
  "\<exists>h'. ctaphid_handle_packet 1 echo_app 0 (u32_le_bytes 7 @ 0x90 # replicate 59 0) hid_mid = Inr (0, h')
     \<and> collecting 5 CTAPHID_CBOR (replicate 60 0) 57 (-1) h'"
proof -
  have "\<not> is_init_pkt (u32_le_bytes 7 @ 0x90 # replicate 59 0)"
    by (simp add: is_init_pkt_def CTAPHID_INIT_def)
  with hid_channel_isolation[OF hid_mid_collecting, of "u32_le_bytes 7 @ 0x90 # replicate 59 0" 0 echo_app 0]
  show ?thesis by (auto simp: CTAPHID_BUFFER_SIZE_def)
qed

subsection \<open>User presence for the vendor commands\<close>

lemma enterboot_feed:
  assumes "idle_on cid h" "length d \<le> CTAPHID_BUFFER_SIZE" "ap_up_skip app (h_app h) = None"
    and "ap_up app (h_app h) = (evs, a)"
  shows "\<exists>g. feed (Suc n) app now (hid_packets cid CTAPHID_ENTERBOOT d) h
      = seqE (seqE (up_wait (ctaphid_handle_packet n app now) evs g) (\<lambda>(r, h).
          if r \<noteq> 0 then handle_done cid CTAPHID_ENTERBOOT ((wb_flush (wb_set_bcnt 0 (emit EnterBoot h)))\<lparr>h_busy := False\<rparr>)
          else handle_done cid CTAPHID_ENTERBOOT (ctaphid_send_error cid ERR_INVALID_COMMAND h))) (\<lambda>(r, h). Inr h)
     \<and> dispatch_state cid CTAPHID_ENTERBOOT d h (g\<lparr>h_app := h_app h\<rparr>) \<and> h_app g = a"
proof -
  let ?sub = "ctaphid_handle_packet n app now"
  obtain g where g: "feed (Suc n) app now (hid_packets cid CTAPHID_ENTERBOOT d) h
      = seqE (dispatch app ?sub cid CTAPHID_ENTERBOOT (int (length d)) g) (\<lambda>(r, h). Inr h)"
    "dispatch_state cid CTAPHID_ENTERBOOT d h g"
    using feed_message[of h cid CTAPHID_ENTERBOOT d n app now] assms(1,2)
    by (auto simp: idle_on_def hid_cmds)
  have sw: "h_app g = h_app h" "w_cmd (h_wb g) = CTAPHID_ENTERBOOT"
    using g(2) by (simp_all add: dispatch_state_def same_world_def)
  have "dispatch app ?sub cid CTAPHID_ENTERBOOT (int (length d)) g
      = seqE (up_wait ?sub evs (g\<lparr>h_app := a\<rparr>)) (\<lambda>(r, h).
          if r \<noteq> 0 then handle_done cid CTAPHID_ENTERBOOT ((wb_flush (wb_set_bcnt 0 (emit EnterBoot h)))\<lparr>h_busy := False\<rparr>)
          else handle_done cid CTAPHID_ENTERBOOT (ctaphid_send_error cid ERR_INVALID_COMMAND h))"
    using assms(3,4) sw
    by (cases "up_wait ?sub evs (g\<lparr>h_app := a\<rparr>)")
       (auto simp: dispatch_def ctaphid_custom_command_def ctap_user_presence_test_config_def hid_cmds Let_def
         split: prod.splits)
  then show ?thesis using g sw
    by (intro exI[of _ "g\<lparr>h_app := a\<rparr>"])
       (auto simp: dispatch_state_def same_world_def hid_ok_defs cid_exists_def)
qed

lemma flush_out: "wb_ok (h_wb x) \<Longrightarrow> \<exists>rs. h_out (wb_flush x) = h_out x @ map Report rs \<and> h_cids (wb_flush x) = h_cids x"
  by (auto simp: wb_flush_def send_reports_def Let_def split: prod.splits)

lemma set_bcnt_out [simp]: "h_out (wb_set_bcnt n h) = h_out h"
  by (simp add: wb_set_bcnt_def)

lemma emit_out [simp]: "h_out (emit ev h) = h_out h @ [ev]"
  by (simp add: emit_def)

lemma flush_keeps: "EnterBoot \<in> set (h_out (wb_flush x)) \<longleftrightarrow> EnterBoot \<in> set (h_out x)"
  by (auto simp: wb_flush_def send_reports_def Let_def split: prod.splits)

lemma error_keeps: "EnterBoot \<in> set (h_out (ctaphid_send_error c e x)) \<longleftrightarrow> EnterBoot \<in> set (h_out x)"
  by (auto simp: ctaphid_send_error_def send_reports_def)

text \<open>C12 (safety). With no report arriving during the wait, the ENTERBOOT command starts the
  bootloader exactly when the button driver reports a touch in one of the rounds of the wait.\<close>

theorem enterboot_iff_touched:
  assumes "idle_on cid h" "length d \<le> CTAPHID_BUFFER_SIZE" "ap_up_skip app (h_app h) = None"
    and "ap_up app (h_app h) = (evs, a)" "\<forall>ev\<in>set evs. snd ev = None" "EnterBoot \<notin> set (h_out h)"
  shows "\<exists>h'. feed (Suc n) app now (hid_packets cid CTAPHID_ENTERBOOT d) h = Inr h'
     \<and> (EnterBoot \<in> set (h_out h') \<longleftrightarrow> (\<exists>ev\<in>set evs. fst ev))"
proof -
  obtain g where g: "feed (Suc n) app now (hid_packets cid CTAPHID_ENTERBOOT d) h
      = seqE (seqE (up_wait (ctaphid_handle_packet n app now) evs g) (\<lambda>(r, h).
          if r \<noteq> 0 then handle_done cid CTAPHID_ENTERBOOT ((wb_flush (wb_set_bcnt 0 (emit EnterBoot h)))\<lparr>h_busy := False\<rparr>)
          else handle_done cid CTAPHID_ENTERBOOT (ctaphid_send_error cid ERR_INVALID_COMMAND h))) (\<lambda>(r, h). Inr h)"
    "dispatch_state cid CTAPHID_ENTERBOOT d h (g\<lparr>h_app := h_app h\<rparr>)"
    using enterboot_feed[OF assms(1-4), of n now] by blast
  have "EnterBoot \<notin> set (h_out g)" using g(2) assms(6) by (simp add: dispatch_state_def same_world_def)
  then show ?thesis using g(1) quiet_up_wait[OF assms(5), of "ctaphid_handle_packet n app now" g]
    by (auto simp: handle_done_result flush_keeps error_keeps)
qed

theorem enterboot_iff_touched_witness:
  "\<exists>h'. feed 1 echo_app 0 (hid_packets 5 CTAPHID_ENTERBOOT []) (hid_start ()) = Inr h'
     \<and> EnterBoot \<notin> set (h_out h')"
  using enterboot_iff_touched[OF hid_start_idle[of 5 "()"], of "[]" echo_app "[(False, None)]" "()" 0 0]
  by (auto simp: CTAPHID_BROADCAST_CID_def hid_start_def echo_app_def)

text \<open>But the test for the touch is \<open>if (ctap_user_presence_test_config(...))\<close>, and the wait returns -1
  when a CANCEL arrives: a CANCEL from the host counts as the touch.\<close>

lemma cancel_returns_cancel:
  assumes "cid \<noteq> CTAPHID_BROADCAST_CID" "cid_exists cid g" "h_bcnt g = 0"
  shows "\<exists>g'. ctaphid_handle_packet (Suc n) app now (hd (hid_packets cid CTAPHID_CANCEL [])) g
           = Inr (CTAPHID_CANCEL, g')"
proof -
  let ?p = "hd (hid_packets cid CTAPHID_CANCEL [])"
  have p: "?p = u32_le_bytes cid @ [CTAPHID_CANCEL, 0, 0] @ replicate 57 0"
    by (simp add: hid_packets_def)
  have pc: "p_cid ?p = cid" "p_cmd ?p = CTAPHID_CANCEL" "ctaphid_packet_len ?p = 0"
    unfolding p using packet_len_wire[of 0 cid CTAPHID_CANCEL "replicate 57 0"] by simp_all
  have np: "\<not> is_cont_pkt ?p" "\<not> is_init_pkt ?p"
    unfolding is_cont_pkt_def is_init_pkt_def pc by (simp_all add: hid_cmds)
  obtain e g1 where bp: "buffer_packet ?p g = (e, g1)" by fastforce
  have e: "\<not> e" "h_bcnt g1 = 0" "h_bcmd g1 = CTAPHID_CANCEL" "h_cids g1 = h_cids g"
    using bp pc by (auto simp: buffer_packet_def Let_def hid_cmds)
  obtain r g2 where rf: "cid_refresh cid now g1 = (r, g2)" by fastforce
  have "cid_exists cid g1" using assms(2) e(4) by (simp add: cid_exists_def)
  then have r: "r = 0" using cid_refresh_found[of cid g1 now] rf by simp
  have g2: "h_bcnt g2 = 0" "h_bcmd g2 = CTAPHID_CANCEL" "buffer_status g2 = EMPTY"
    using e table_frame(12,15)[of cid now g1] unfolding rf by simp_all
  have "ctaphid_buffer_packet now ?p g = Inr (EMPTY, CTAPHID_CANCEL, 0, g2)"
    using assms pc np bp e rf r g2
    by (simp add: ctaphid_buffer_packet_def ctaphid_buffer_data_def Let_def)
  then show ?thesis
    by (simp add: handle_with_def Let_def dispatch_def handle_done_def hid_cmds pc)
qed

lemma enterboot_cancel_boots:
  assumes "idle_on cid h" "ap_up_skip app (h_app h) = None"
    and "ap_up app (h_app h) = ((False, Some (hd (hid_packets cid CTAPHID_CANCEL []))) # evs, a)"
  shows "\<exists>h'. feed (Suc (Suc n)) app now (hid_packets cid CTAPHID_ENTERBOOT []) h = Inr h'
     \<and> EnterBoot \<in> set (h_out h')"
proof -
  let ?sub = "ctaphid_handle_packet (Suc n) app now"
  let ?evs = "(False, Some (hd (hid_packets cid CTAPHID_CANCEL []))) # evs"
  obtain g where g: "feed (Suc (Suc n)) app now (hid_packets cid CTAPHID_ENTERBOOT []) h
      = seqE (seqE (up_wait ?sub ?evs g) (\<lambda>(r, h).
          if r \<noteq> 0 then handle_done cid CTAPHID_ENTERBOOT ((wb_flush (wb_set_bcnt 0 (emit EnterBoot h)))\<lparr>h_busy := False\<rparr>)
          else handle_done cid CTAPHID_ENTERBOOT (ctaphid_send_error cid ERR_INVALID_COMMAND h))) (\<lambda>(r, h). Inr h)"
    "dispatch_state cid CTAPHID_ENTERBOOT [] h (g\<lparr>h_app := h_app h\<rparr>)"
    using enterboot_feed[OF assms(1) _ assms(2,3), of "[]" "Suc n" now] by auto
  have "cid_exists cid g" "h_bcnt g = 0" using g(2) by (auto simp: dispatch_state_def cid_exists_def)
  then obtain g' where "?sub (hd (hid_packets cid CTAPHID_CANCEL [])) g = Inr (CTAPHID_CANCEL, g')"
    using cancel_returns_cancel[of cid g n app now] assms(1) unfolding idle_on_def by blast
  then have "up_wait ?sub ?evs g = Inr (-1, g')"
    by (simp add: handle_packets_def)
  then show ?thesis using g(1) by (auto simp: handle_done_result flush_keeps)
qed

text \<open>The channel table starts out as ten entries for channel 0, and \<open>cid_exists\<close> does not look at
  the busy mark: requests on the reserved channel 0 are served (only INIT refuses it).\<close>

lemma reserved_channel_zero_served:
  "length d \<le> CTAPHID_BUFFER_SIZE \<Longrightarrow>
   \<exists>h'. feed (Suc n) app now (hid_packets 0 CTAPHID_PING d) (hid_start a) = Inr h'
     \<and> h_out h' = map Report (hid_packets 0 CTAPHID_PING d)"
proof -
  have "idle_on 0 (hid_start a)" by (rule hid_start_idle) (simp add: CTAPHID_BROADCAST_CID_def)
  moreover assume "length d \<le> CTAPHID_BUFFER_SIZE"
  ultimately show ?thesis using ping_echo_message[of 0 "hid_start a" d n app now]
    by (auto simp: hid_start_def)
qed

end
