(* ===== verification/AuthState.thy ===== *)
theory AuthState
  imports Flash
begin

text \<open>
  The persistent authenticator state (\<^verbatim>\<open>fido2/storage.h\<close>) and how
  \<^verbatim>\<open>targets/stm32l432/src/device.c\<close> keeps it: two flash pages, the second a backup, each the
  memory image of the structure. The image follows the ARM layout of the structure (the \<open>int\<close> at
  offset 68, 208 bytes in all); padding bytes are 0xff, as \<open>ctap_state_init\<close> fills them.
\<close>

record auth_state =
  as_init :: u8
  as_pin_set :: u8
  as_pin_hash :: bytes
  as_salt :: bytes
  as_reserved :: u32
  as_tries :: u8
  as_rk_stored :: u16
  as_key_len :: u16
  as_key_space :: bytes
  as_version :: u8

definition INITIALIZED_MARKER :: u8 where "INITIALIZED_MARKER = 0xA5"
definition STATE_VERSION :: u8 where "STATE_VERSION = 2"
definition PIN_LOCKOUT_ATTEMPTS :: u8 where "PIN_LOCKOUT_ATTEMPTS = 8"
definition KEY_SPACE_BYTES :: nat where "KEY_SPACE_BYTES = 128"
definition STATE_SIZE :: nat where "STATE_SIZE = 208"

definition u16_le_bytes :: "u16 \<Rightarrow> bytes" where
  "u16_le_bytes w = [ucast w, ucast (drop_bit 8 w)]"

definition state_wf :: "auth_state \<Rightarrow> bool" where
  "state_wf s \<longleftrightarrow> length (as_pin_hash s) = 32 \<and> length (as_salt s) = 32
     \<and> length (as_key_space s) = KEY_SPACE_BYTES"

definition state_image :: "auth_state \<Rightarrow> bytes" where
  "state_image s = [as_init s, as_pin_set s] @ as_pin_hash s @ as_salt s @ [0xff, 0xff]
     @ u32_le_bytes (as_reserved s) @ [as_tries s, 0xff] @ u16_le_bytes (as_rk_stored s)
     @ u16_le_bytes (as_key_len s) @ as_key_space s @ [as_version s, 0xff]"

definition state_of_image :: "bytes \<Rightarrow> auth_state" where
  "state_of_image b =
     \<lparr>as_init = b ! 0, as_pin_set = b ! 1, as_pin_hash = block b 2 32, as_salt = block b 34 32,
      as_reserved = le32 (b ! 68) (b ! 69) (b ! 70) (b ! 71), as_tries = b ! 72,
      as_rk_stored = le16 (b ! 74) (b ! 75), as_key_len = le16 (b ! 76) (b ! 77),
      as_key_space = block b 78 128, as_version = b ! 206\<rparr>"

subsection \<open>Reading and writing\<close>

definition authenticator_write_ops :: "auth_state \<Rightarrow> flash_op list" where
  "authenticator_write_ops s =
     FErase STATE1_PAGE # flash_write_ops (flash_addr STATE1_PAGE) (state_image s)
     @ FErase STATE2_PAGE # flash_write_ops (flash_addr STATE2_PAGE) (state_image s)"

definition authenticator_write_state :: "prog_fn \<Rightarrow> auth_state \<Rightarrow> flash \<Rightarrow> flash" where
  "authenticator_write_state prog s f = flash_run prog (authenticator_write_ops s) f"

definition authenticator_is_backup_initialized :: "flash \<Rightarrow> bool" where
  "authenticator_is_backup_initialized f \<longleftrightarrow> flash_read f (flash_addr STATE2_PAGE) 16 ! 0 = INITIALIZED_MARKER"

definition authenticator_read_state :: "prog_fn \<Rightarrow> flash \<Rightarrow> int \<times> auth_state \<times> flash" where
  "authenticator_read_state prog f =
     (let a = state_of_image (flash_read f (flash_addr STATE1_PAGE) STATE_SIZE) in
      if as_init a \<noteq> INITIALIZED_MARKER then
        if authenticator_is_backup_initialized f then
          let a = state_of_image (flash_read f (flash_addr STATE2_PAGE) STATE_SIZE)
          in (1, a, authenticator_write_state prog a f)
        else (0, a, f)
      else (1, a, f))"

subsection \<open>The image is a faithful copy\<close>

lemma length_state_image: "state_wf s \<Longrightarrow> length (state_image s) = STATE_SIZE"
  by (simp add: state_wf_def state_image_def STATE_SIZE_def KEY_SPACE_BYTES_def u16_le_bytes_def)

lemma block_append_skip:
  "length a = k \<Longrightarrow> block (a @ b) (k + i) n = block b i n"
  by (simp add: block_def)

lemma state_image_roundtrip:
  assumes "state_wf s"
  shows "state_of_image (state_image s) = s"
proof -
  have l: "length (as_pin_hash s) = 32" "length (as_salt s) = 32" "length (as_key_space s) = 128"
    using assms by (simp_all add: state_wf_def KEY_SPACE_BYTES_def)
  show ?thesis
    using l by (simp add: state_of_image_def state_image_def u16_le_bytes_def u32_le_bytes_def
        nth_append block_def nth_Cons')
qed


subsection \<open>Prefixes of a write\<close>

lemma write_loop_take:
  "length d mod 8 = 0 \<Longrightarrow> take k (flash_write_loop a d) = flash_write_loop a (take (8 * k) d)"
proof (induction a d arbitrary: k rule: flash_write_loop.induct)
  case (1 a d)
  show ?case
  proof (cases "d = [] \<or> k = 0")
    case True
    then show ?thesis by auto
  next
    case False
    then obtain j where k: "k = Suc j" by (cases k) auto
    have l: "8 \<le> length d" using 1(2) False by (cases "length d < 8") auto
    have m: "length (drop 8 d) mod 8 = 0" using 1(2) l by (simp add: le_mod_geq)
    have "take j (flash_write_loop (a + 8) (drop 8 d)) = flash_write_loop (a + 8) (take (8 * j) (drop 8 d))"
      using 1(1)[of j] False m by simp
    moreover have "take 8 (take (8 * Suc j) d) = take 8 d" by (simp add: min_def)
    moreover have "length (take (8 * Suc j) d) \<ge> 8" using l by simp
    then have "replicate (8 - length (take (8 * Suc j) d)) 0xff = ([] :: bytes)"
      "replicate (8 - length d) 0xff = ([] :: bytes)" using l by simp_all
    moreover have "drop 8 (take (8 * Suc j) d) = take (8 * j) (drop 8 d)" by (simp add: drop_take)
    moreover have "take (8 * Suc j) d \<noteq> []" using False by simp
    moreover have "d \<noteq> []" using False by simp
    ultimately show ?thesis unfolding k
      flash_write_loop.simps[of a d] flash_write_loop.simps[of a "take (8 * Suc j) d"]
      by (simp only: if_False take_Suc_Cons)
  qed
qed

lemma length_write_loop: "length d mod 8 = 0 \<Longrightarrow> length (flash_write_loop a d) = length d div 8"
proof (induction a d rule: flash_write_loop.induct)
  case (1 a d)
  show ?case
  proof (cases "d = []")
    case False
    have l: "8 \<le> length d" using 1(2) False by (cases "length d < 8") auto
    then have m: "length (drop 8 d) mod 8 = 0" using 1(2) by (simp add: le_mod_geq)
    have "length d div 8 = Suc (length (drop 8 d) div 8)" using l by (simp add: le_div_geq)
    then show ?thesis using 1(1)[OF False m] False by (subst flash_write_loop.simps) simp
  qed simp
qed

lemma state_page_ops:
  assumes "state_wf s"
  shows "take k (flash_write_ops (flash_addr p) (state_image s))
      = flash_write_loop (flash_addr p) (take (8 * k) (state_image s))"
    and "length (flash_write_ops (flash_addr p) (state_image s)) = 26"
proof -
  have a: "flash_addr p mod 8 = 0" by (simp add: flash_addr_def FLASH_PAGE_SIZE_def mod_mult_right_eq[symmetric])
  have l: "length (state_image s) mod 8 = 0" by (simp add: length_state_image[OF assms] STATE_SIZE_def)
  show "take k (flash_write_ops (flash_addr p) (state_image s))
      = flash_write_loop (flash_addr p) (take (8 * k) (state_image s))"
    using write_loop_take[OF l] a by (simp add: flash_write_ops_def)
  show "length (flash_write_ops (flash_addr p) (state_image s)) = 26"
    using length_write_loop[OF l, of "flash_addr p"] a
    by (simp add: flash_write_ops_def length_state_image[OF assms] STATE_SIZE_def)
qed

text \<open>A page after its erase and the first \<open>k\<close> double words of the image, and any other page.\<close>

lemma partial_page:
  assumes hw: "prog_ok prog" and wf: "state_wf s"
    and g0: "g = flash_run prog (flash_write_loop (flash_addr p) (take (8 * k) (state_image s)))
                   (flash_erase_page p f)"
  shows "flash_read g (flash_addr p) STATE_SIZE
      = take (8 * k) (state_image s) @ replicate (STATE_SIZE - 8 * k) 0xff"
    and "q \<noteq> p \<Longrightarrow> n \<le> FLASH_PAGE_SIZE \<Longrightarrow> flash_read g (flash_addr q) n = flash_read f (flash_addr q) n"
proof -
  let ?d = "take (8 * k) (state_image s)" and ?e = "flash_erase_page p f"
  have ld: "length ?d \<le> STATE_SIZE" using length_state_image[OF wf] by simp
  have er: "erased ?e (flash_addr p) FLASH_PAGE_SIZE" by (rule erase_page_erased)
  have "erased ?e (flash_addr p) (8 * ((length ?d + 7) div 8))"
  proof (rule erased_mono[OF er])
    have "(length ?d + 7) div 8 \<le> (STATE_SIZE + 7) div 8" using ld by (intro div_le_mono) simp
    then show "flash_addr p + 8 * ((length ?d + 7) div 8) \<le> flash_addr p + FLASH_PAGE_SIZE"
      by (simp add: STATE_SIZE_def FLASH_PAGE_SIZE_def)
  qed simp
  from write_loop_erased[OF hw this]
  have g: "g = (\<lambda>x. if flash_addr p \<le> x \<and> x < flash_addr p + length ?d then ?d ! (x - flash_addr p) else ?e x)"
    by (simp add: g0)
  show "flash_read g (flash_addr p) STATE_SIZE = ?d @ replicate (STATE_SIZE - 8 * k) 0xff"
  proof (rule nth_equalityI)
    show "length (flash_read g (flash_addr p) STATE_SIZE) = length (?d @ replicate (STATE_SIZE - 8 * k) 0xff)"
      using length_state_image[OF wf] by simp
    fix i assume i: "i < length (flash_read g (flash_addr p) STATE_SIZE)"
    then have "?e (flash_addr p + i) = 0xff"
      using er by (auto simp: erased_def STATE_SIZE_def FLASH_PAGE_SIZE_def)
    then show "flash_read g (flash_addr p) STATE_SIZE ! i = (?d @ replicate (STATE_SIZE - 8 * k) 0xff) ! i"
      using i ld length_state_image[OF wf] by (auto simp: flash_read_nth g nth_append)
  qed
  show "flash_read g (flash_addr q) n = flash_read f (flash_addr q) n" if "q \<noteq> p" "n \<le> FLASH_PAGE_SIZE"
  proof (rule flash_read_eqI)
    fix x assume x: "flash_addr q \<le> x" "x < flash_addr q + n"
    have dx: "x div FLASH_PAGE_SIZE = q"
      using x that(2) by (auto simp: flash_addr_def FLASH_PAGE_SIZE_def intro!: div_nat_eqI)
    have "\<not> (flash_addr p \<le> x \<and> x < flash_addr p + length ?d)"
    proof
      assume "flash_addr p \<le> x \<and> x < flash_addr p + length ?d"
      then have "x div FLASH_PAGE_SIZE = p"
        using ld by (auto simp: flash_addr_def FLASH_PAGE_SIZE_def STATE_SIZE_def intro!: div_nat_eqI)
      with dx that(1) show False by simp
    qed
    then show "g x = f x" using dx that(1) by (auto simp: g flash_erase_page_def)
  qed
qed

text \<open>What the start-up code finds when a write of \<open>s\<close> over an old state stops after \<open>k\<close> operations.\<close>

definition stored_twice :: "auth_state \<Rightarrow> flash \<Rightarrow> bool" where
  "stored_twice s f \<longleftrightarrow> flash_read f (flash_addr STATE1_PAGE) STATE_SIZE = state_image s
     \<and> flash_read f (flash_addr STATE2_PAGE) STATE_SIZE = state_image s"

definition found_state :: "prog_fn \<Rightarrow> flash \<Rightarrow> int \<times> auth_state" where
  "found_state prog f = (let (r, a, f') = authenticator_read_state prog f in (r, a))"

lemma page1_after:
  assumes hw: "prog_ok prog" and wf: "state_wf s" and k: "k \<le> 27"
    and g_def: "g = flash_run prog (take k (authenticator_write_ops s)) f"
  shows "flash_read g (flash_addr STATE2_PAGE) STATE_SIZE = flash_read f (flash_addr STATE2_PAGE) STATE_SIZE"
    and "0 < k \<Longrightarrow> flash_read g (flash_addr STATE1_PAGE) STATE_SIZE
       = take (8 * (k - 1)) (state_image s) @ replicate (STATE_SIZE - 8 * (k - 1)) 0xff"
proof -
  have ne: "STATE2_PAGE \<noteq> STATE1_PAGE" by (simp add: page_defs)
  have sz: "STATE_SIZE \<le> FLASH_PAGE_SIZE" by (simp add: STATE_SIZE_def FLASH_PAGE_SIZE_def)
  have e: "g = (case k of 0 \<Rightarrow> f | Suc j \<Rightarrow>
      flash_run prog (flash_write_loop (flash_addr STATE1_PAGE) (take (8 * j) (state_image s))) (flash_erase_page STATE1_PAGE f))"
    using state_page_ops(1)[OF wf, of _ STATE1_PAGE] state_page_ops(2)[OF wf, of STATE1_PAGE] k
    by (cases k) (simp_all add: g_def authenticator_write_ops_def)
  show "flash_read g (flash_addr STATE2_PAGE) STATE_SIZE = flash_read f (flash_addr STATE2_PAGE) STATE_SIZE"
    using partial_page(2)[OF hw wf refl ne sz] by (auto simp: e split: nat.splits)
  show "0 < k \<Longrightarrow> flash_read g (flash_addr STATE1_PAGE) STATE_SIZE
       = take (8 * (k - 1)) (state_image s) @ replicate (STATE_SIZE - 8 * (k - 1)) 0xff"
    using partial_page(1)[OF hw wf refl] by (auto simp: e split: nat.splits)
qed

lemma page2_after:
  assumes hw: "prog_ok prog" and wf: "state_wf s" and k: "27 \<le> k"
    and g_def: "g = flash_run prog (take k (authenticator_write_ops s)) f"
  shows "flash_read g (flash_addr STATE1_PAGE) STATE_SIZE = state_image s"
proof -
  have ne: "STATE1_PAGE \<noteq> STATE2_PAGE" by (simp add: page_defs)
  have sz: "STATE_SIZE \<le> FLASH_PAGE_SIZE" by (simp add: STATE_SIZE_def FLASH_PAGE_SIZE_def)
  let ?one = "FErase STATE1_PAGE # flash_write_ops (flash_addr STATE1_PAGE) (state_image s)"
  let ?two = "FErase STATE2_PAGE # flash_write_ops (flash_addr STATE2_PAGE) (state_image s)"
  have l1: "length ?one = 27" using state_page_ops(2)[OF wf, of STATE1_PAGE] by simp
  have "take 27 (authenticator_write_ops s) = ?one" using l1 by (simp add: authenticator_write_ops_def)
  then have one: "flash_read (flash_run prog ?one f) (flash_addr STATE1_PAGE) STATE_SIZE = state_image s"
    using page1_after(2)[OF hw wf _ refl, where k = 27] length_state_image[OF wf] by (simp add: STATE_SIZE_def)
  have t: "take k (authenticator_write_ops s) = ?one @ take (k - 27) ?two"
    using k l1 by (simp add: authenticator_write_ops_def take_Cons')
  have two: "take (k - 27) ?two = (case k - 27 of 0 \<Rightarrow> [] | Suc j \<Rightarrow>
     FErase STATE2_PAGE # flash_write_loop (flash_addr STATE2_PAGE) (take (8 * j) (state_image s)))"
    using state_page_ops(1)[OF wf, of _ STATE2_PAGE] by (simp split: nat.splits)
  show ?thesis
    unfolding g_def t two
    using one partial_page(2)[OF hw wf refl ne sz] by (simp split: nat.splits)
qed


lemma found_primary:
  "flash_read g (flash_addr STATE1_PAGE) STATE_SIZE = b \<Longrightarrow> b ! 0 = INITIALIZED_MARKER
   \<Longrightarrow> found_state prog g = (1, state_of_image b)"
  by (simp add: found_state_def authenticator_read_state_def state_of_image_def)

lemma flash_read_first: "0 < n \<Longrightarrow> 0 < m \<Longrightarrow> flash_read f a n ! 0 = flash_read f a m ! 0"
  by (simp add: flash_read_nth)

lemma found_backup:
  assumes "flash_read g (flash_addr STATE1_PAGE) STATE_SIZE = b" "b ! 0 \<noteq> INITIALIZED_MARKER"
    and "flash_read g (flash_addr STATE2_PAGE) STATE_SIZE = c" "c ! 0 = INITIALIZED_MARKER"
  shows "found_state prog g = (1, state_of_image c)"
  using assms flash_read_first[of 16 STATE_SIZE g "flash_addr STATE2_PAGE"]
  by (simp add: found_state_def authenticator_read_state_def state_of_image_def Let_def
      authenticator_is_backup_initialized_def STATE_SIZE_def)

lemma image_first: "state_image s ! 0 = as_init s" "8 \<le> k \<Longrightarrow> take k (state_image s) ! 0 = as_init s"
  by (simp_all add: state_image_def)

lemma image_ne: "state_image s \<noteq> []"
  by (simp add: state_image_def)

text \<open>A complete write leaves both pages with the new state.\<close>

lemma write_state_stored:
  assumes hw: "prog_ok prog" and wf: "state_wf s"
  shows "stored_twice s (authenticator_write_state prog s f)"
proof -
  have l: "length (authenticator_write_ops s) = 54"
    using state_page_ops(2)[OF wf] by (simp add: authenticator_write_ops_def)
  let ?one = "FErase STATE1_PAGE # flash_write_ops (flash_addr STATE1_PAGE) (state_image s)"
  let ?g = "flash_run prog ?one f"
  have a: "flash_addr p mod 8 = 0" for p by (simp add: flash_addr_def FLASH_PAGE_SIZE_def mod_mult_right_eq[symmetric])
  have "authenticator_write_state prog s f
     = flash_run prog (flash_write_loop (flash_addr STATE2_PAGE) (take (8 * 26) (state_image s))) (flash_erase_page STATE2_PAGE ?g)"
    using length_state_image[OF wf] a[of STATE2_PAGE]
    by (simp add: authenticator_write_state_def authenticator_write_ops_def flash_write_ops_def STATE_SIZE_def)
  from partial_page(1)[OF hw wf this] have
    "flash_read (authenticator_write_state prog s f) (flash_addr STATE2_PAGE) STATE_SIZE = state_image s"
    using length_state_image[OF wf] by (simp add: STATE_SIZE_def)
  moreover have "flash_read (authenticator_write_state prog s f) (flash_addr STATE1_PAGE) STATE_SIZE = state_image s"
    using page2_after[OF hw wf _ refl, where k = 54] l by (simp add: authenticator_write_state_def)
  ultimately show ?thesis by (simp add: stored_twice_def)
qed

lemma stored_found:
  assumes "stored_twice s f" "state_wf s" "as_init s = INITIALIZED_MARKER"
  shows "authenticator_read_state prog f = (1, s, f)"
  using assms state_image_roundtrip[OF assms(2)]
  by (simp add: stored_twice_def authenticator_read_state_def)

lemma state_write_keeps_old:
  assumes hw: "prog_ok prog" and wf: "state_wf old" "state_wf new"
    and ini: "as_init old = INITIALIZED_MARKER" "as_init new = INITIALIZED_MARKER" and st: "stored_twice old f"
    and k1: "k \<le> 1"
  shows "found_state prog (flash_run prog (take k (authenticator_write_ops new)) f) = (1, old)"
proof (cases "k = 0")
  case True
  then show ?thesis using st ini found_primary[of f "state_image old" prog] state_image_roundtrip[OF wf(1)]
    by (simp add: stored_twice_def image_first)
next
  case False
  then have k: "k = 1" using k1 by simp
  let ?g = "flash_run prog (take 1 (authenticator_write_ops new)) f"
  have "flash_read ?g (flash_addr STATE2_PAGE) STATE_SIZE = state_image old"
    using page1_after(1)[OF hw wf(2) _ refl, where k = 1] st by (simp add: stored_twice_def)
  moreover have "flash_read ?g (flash_addr STATE1_PAGE) STATE_SIZE = replicate STATE_SIZE 0xff"
    using page1_after(2)[OF hw wf(2) _ refl, where k = 1] by simp
  ultimately show ?thesis
    using found_backup[of ?g "replicate STATE_SIZE 0xff" "state_image old"] state_image_roundtrip[OF wf(1)] ini k
    by (simp add: image_first STATE_SIZE_def INITIALIZED_MARKER_def)
qed

text \<open>C18 (safety, power cuts). Saving a new state over an old one that both pages hold: when the
  power fails before the first double word of the primary page is programmed, the next start finds
  the old state (from the backup page once the primary one is erased); when it fails after the
  primary page is complete, and when it does not fail at all, the next start finds the new state.\<close>

theorem state_write_power_cut:
  assumes hw: "prog_ok prog" and wf: "state_wf old" "state_wf new"
    and ini: "as_init old = INITIALIZED_MARKER" "as_init new = INITIALIZED_MARKER" and st: "stored_twice old f"
  shows "(\<forall>k. k \<le> 1 \<longrightarrow> found_state prog (flash_run prog (take k (authenticator_write_ops new)) f) = (1, old))
    \<and> (\<forall>k. 27 \<le> k \<longrightarrow> found_state prog (flash_run prog (take k (authenticator_write_ops new)) f) = (1, new))
    \<and> authenticator_read_state prog (authenticator_write_state prog new f)
        = (1, new, authenticator_write_state prog new f)"
proof (intro conjI allI impI)
  fix k :: nat
  show "found_state prog (flash_run prog (take k (authenticator_write_ops new)) f) = (1, old)" if "k \<le> 1"
    by (rule state_write_keeps_old[OF assms that])
  show "found_state prog (flash_run prog (take k (authenticator_write_ops new)) f) = (1, new)" if "27 \<le> k"
    using found_primary[OF page2_after[OF hw wf(2) that refl]] ini state_image_roundtrip[OF wf(2)]
    by (simp add: image_first)
  show "authenticator_read_state prog (authenticator_write_state prog new f)
        = (1, new, authenticator_write_state prog new f)"
    by (rule stored_found[OF write_state_stored[OF hw wf(2)] wf(2) ini(2)])
qed

definition state0 :: auth_state where
  "state0 = \<lparr>as_init = INITIALIZED_MARKER, as_pin_set = 0, as_pin_hash = replicate 32 0xff, as_salt = replicate 32 7,
     as_reserved = 0xffffffff, as_tries = 8, as_rk_stored = 0, as_key_len = 0xffff,
     as_key_space = replicate 128 9, as_version = 2\<rparr>"

lemma state0_wf [simp]: "state_wf state0" "as_init state0 = INITIALIZED_MARKER"
  by (simp_all add: state_wf_def state0_def KEY_SPACE_BYTES_def)

definition flash0 :: flash where
  "flash0 = authenticator_write_state stm_prog state0 (\<lambda>_. 0xff)"

theorem state_write_power_cut_witness:
  "found_state stm_prog (flash_run stm_prog (take 1 (authenticator_write_ops (state0\<lparr>as_tries := 7\<rparr>))) flash0) = (1, state0)
   \<and> found_state stm_prog (flash_run stm_prog (take 30 (authenticator_write_ops (state0\<lparr>as_tries := 7\<rparr>))) flash0)
       = (1, state0\<lparr>as_tries := 7\<rparr>)"
proof -
  have "state_wf (state0\<lparr>as_tries := 7\<rparr>)" using state0_wf(1) by (simp add: state_wf_def)
  moreover have "as_init (state0\<lparr>as_tries := 7\<rparr>) = INITIALIZED_MARKER" by (simp add: state0_def)
  moreover have "stored_twice state0 flash0" unfolding flash0_def by (rule write_state_stored[OF stm_prog_ok state0_wf(1)])
  ultimately show ?thesis
    using state_write_power_cut[OF stm_prog_ok state0_wf(1) _ state0_wf(2)] by simp
qed

text \<open>The marker that \<open>authenticator_read_state\<close> trusts is in the first double word that is written:
  a power cut right after it leaves a primary page that is taken for a state, with the attempt
  counter at -1 (a locked device) and a key space of 0xff bytes, although the backup is intact.\<close>

lemma state_write_torn:
  assumes hw: "prog_ok prog" and wf: "state_wf new" and ini: "as_init new = INITIALIZED_MARKER"
  shows "\<exists>s. found_state prog (flash_run prog (take 2 (authenticator_write_ops new)) f) = (1, s)
     \<and> as_tries s = 0xff \<and> as_key_space s = replicate 128 0xff"
proof -
  let ?b = "take 8 (state_image new) @ replicate 200 0xff"
  have "flash_read (flash_run prog (take 2 (authenticator_write_ops new)) f) (flash_addr STATE1_PAGE) STATE_SIZE = ?b"
    using page1_after(2)[OF hw wf _ refl, where k = 2] by (simp add: STATE_SIZE_def)
  moreover have "length (take 8 (state_image new)) = 8" using length_state_image[OF wf] by (simp add: STATE_SIZE_def)
  then have "?b ! 72 = 0xff" "block ?b 78 128 = replicate 128 0xff" "?b ! 0 = as_init new"
    by (simp_all add: nth_append block_def image_first)
  ultimately show ?thesis using found_primary[of _ ?b prog] ini by (auto simp: state_of_image_def)
qed

end
