(* ===== verification/CtapTypes.thy ===== *)
theory CtapTypes
  imports FwPrelude
begin

text \<open>
  The data structures of \<^verbatim>\<open>fido2/ctap.h\<close>: each packed C structure is a record, and the ones
  that are stored or copied as memory have their image. A fixed array is a list of that length (the
  \<open>_ok\<close> predicates), a pointer into an array is an index (\<open>hs_credential\<close>: into \<open>getAssertionState.creds\<close>,
  None for NULL).
\<close>

subsection \<open>Credentials and resident keys\<close>

record user_entity =
  u_id :: bytes
  u_id_size :: u8
  u_name :: bytes
  u_display :: bytes
  u_icon :: bytes

record credential_id =
  ci_tag :: bytes
  ci_nonce :: bytes
  ci_rpIdHash :: bytes
  ci_count :: u32

record credential =
  cr_id :: credential_id
  cr_user :: user_entity

record resident_key =
  rk_id :: credential_id
  rk_user :: user_entity
  rk_rpId :: bytes
  rk_rpIdSize :: u8

record cred_desc =
  cd_type :: u8
  cd_credential :: credential

definition RK_SIZE :: nat where "RK_SIZE = 409"

definition user_ok :: "user_entity \<Rightarrow> bool" where
  "user_ok u \<longleftrightarrow> length (u_id u) = 64 \<and> length (u_name u) = 65 \<and> length (u_display u) = 32
     \<and> length (u_icon u) = 128"

definition cid_ok :: "credential_id \<Rightarrow> bool" where
  "cid_ok c \<longleftrightarrow> length (ci_tag c) = 16 \<and> length (ci_nonce c) = 18 \<and> length (ci_rpIdHash c) = 32"

definition rk_ok :: "resident_key \<Rightarrow> bool" where
  "rk_ok k \<longleftrightarrow> cid_ok (rk_id k) \<and> user_ok (rk_user k) \<and> length (rk_rpId k) = 48"

definition user_image :: "user_entity \<Rightarrow> bytes" where
  "user_image u = u_id u @ [u_id_size u] @ u_name u @ u_display u @ u_icon u"

definition cid_image :: "credential_id \<Rightarrow> bytes" where
  "cid_image c = ci_tag c @ ci_nonce c @ ci_rpIdHash c @ u32_le_bytes (ci_count c)"

definition rk_image :: "resident_key \<Rightarrow> bytes" where
  "rk_image k = cid_image (rk_id k) @ user_image (rk_user k) @ rk_rpId k @ [rk_rpIdSize k]"

definition user_of_image :: "bytes \<Rightarrow> user_entity" where
  "user_of_image b = \<lparr>u_id = block b 0 64, u_id_size = b ! 64, u_name = block b 65 65,
     u_display = block b 130 32, u_icon = block b 162 128\<rparr>"

definition cid_of_image :: "bytes \<Rightarrow> credential_id" where
  "cid_of_image b = \<lparr>ci_tag = block b 0 16, ci_nonce = block b 16 18, ci_rpIdHash = block b 34 32,
     ci_count = le32 (b ! 66) (b ! 67) (b ! 68) (b ! 69)\<rparr>"

definition rk_of_image :: "bytes \<Rightarrow> resident_key" where
  "rk_of_image b = \<lparr>rk_id = cid_of_image (block b 0 70), rk_user = user_of_image (block b 70 290),
     rk_rpId = block b 360 48, rk_rpIdSize = b ! 408\<rparr>"

lemma length_user_image: "user_ok u \<Longrightarrow> length (user_image u) = 290"
  by (simp add: user_ok_def user_image_def)

lemma length_cid_image: "cid_ok c \<Longrightarrow> length (cid_image c) = 70"
  by (simp add: cid_ok_def cid_image_def)

lemma length_rk_image: "rk_ok k \<Longrightarrow> length (rk_image k) = RK_SIZE"
  by (simp add: rk_ok_def rk_image_def RK_SIZE_def length_cid_image length_user_image)

lemma user_image_roundtrip: "user_ok u \<Longrightarrow> user_of_image (user_image u) = u"
  by (simp add: user_ok_def user_image_def user_of_image_def block_def nth_append)

lemma cid_image_roundtrip: "cid_ok c \<Longrightarrow> cid_of_image (cid_image c) = c"
  by (simp add: cid_ok_def cid_image_def cid_of_image_def block_def nth_append u32_le_bytes_def)

lemma rk_image_roundtrip: "rk_ok k \<Longrightarrow> rk_of_image (rk_image k) = k"
  using length_cid_image [of "rk_id k"] length_user_image [of "rk_user k"]
  by (simp add: rk_ok_def rk_image_def rk_of_image_def block_def nth_append cid_image_roundtrip
      user_image_roundtrip)

subsection \<open>Requests\<close>

record cose_key =
  ck_x :: bytes
  ck_y :: bytes
  ck_kty :: int
  ck_crv :: int

record hmac_secret =
  hs_saltLen :: u8
  hs_saltEnc :: bytes
  hs_saltAuth :: bytes
  hs_keyAgreement :: cose_key
  hs_credential :: "nat option"

record ctap_extensions =
  ex_hmac_present :: u8
  ex_hmac :: hmac_secret
  ex_cred_protect :: u32

record rp_id =
  rp_id :: bytes
  rp_size :: nat
  rp_name :: bytes

record cred_info =
  in_user :: user_entity
  in_type :: u8
  in_alg :: int
  in_rk :: u8

record make_credential =
  mc_parsed :: u32
  mc_clientDataHash :: bytes
  mc_rp :: rp_id
  mc_credInfo :: cred_info
  mc_uv :: u8
  mc_up :: u8
  mc_pinAuth :: bytes
  mc_pinAuthPresent :: u8
  mc_pinAuthEmpty :: u8
  mc_pinProtocol :: int
  mc_extensions :: ctap_extensions

record get_assertion =
  ga_parsed :: u32
  ga_clientDataHash :: bytes
  ga_clientDataHashPresent :: u8
  ga_rp :: rp_id
  ga_credLen :: int
  ga_rk :: u8
  ga_uv :: u8
  ga_up :: u8
  ga_pinAuth :: bytes
  ga_pinAuthPresent :: u8
  ga_pinAuthEmpty :: u8
  ga_pinProtocol :: int
  ga_allowListPresent :: u8
  ga_extensions :: ctap_extensions

record cred_mgmt =
  cm_cmd :: int
  cm_rpIdHash :: bytes
  cm_desc :: cred_desc
  cm_hashedCmd :: u8
  cm_hashed :: bytes
  cm_cborSize :: nat
  cm_pinAuth :: bytes
  cm_pinAuthPresent :: u8
  cm_pinProtocol :: int

record client_pin =
  cp_pinProtocol :: int
  cp_subCommand :: int
  cp_keyAgreement :: cose_key
  cp_keyAgreementPresent :: u8
  cp_pinAuth :: bytes
  cp_pinAuthPresent :: u8
  cp_newPinEnc :: bytes
  cp_newPinEncSize :: int
  cp_pinHashEnc :: bytes
  cp_pinHashEncPresent :: u8
  cp_getKeyAgreement :: bool
  cp_getRetries :: bool

record auth_header =
  ah_rpIdHash :: bytes
  ah_flags :: u8
  ah_signCount :: bytes

text \<open>The state between getAssertion and getNextAssertion. \<open>gs_extbuf\<close> is the \<open>buf.extensions\<close> area that
  follows the header in memory.\<close>

record ga_state =
  gs_head :: auth_header
  gs_extbuf :: bytes
  gs_extensions :: ctap_extensions
  gs_clientDataHash :: bytes
  gs_creds :: "cred_desc list"
  gs_lastcmd :: u8
  gs_count :: u32
  gs_index :: u32
  gs_time :: u32
  gs_user_verified :: u8
  gs_customCredId :: bytes
  gs_customCredIdSize :: u8

subsection \<open>Zeroed structures\<close>

definition zeros :: "nat \<Rightarrow> bytes" where "zeros n = replicate n 0"

lemma length_zeros [simp]: "length (zeros n) = n"
  by (simp add: zeros_def)

definition user_zero :: user_entity where
  "user_zero = \<lparr>u_id = zeros 64, u_id_size = 0, u_name = zeros 65, u_display = zeros 32, u_icon = zeros 128\<rparr>"

definition cid_zero :: credential_id where
  "cid_zero = \<lparr>ci_tag = zeros 16, ci_nonce = zeros 18, ci_rpIdHash = zeros 32, ci_count = 0\<rparr>"

definition cred_desc_zero :: cred_desc where
  "cred_desc_zero = \<lparr>cd_type = 0, cd_credential = \<lparr>cr_id = cid_zero, cr_user = user_zero\<rparr>\<rparr>"

definition cose_zero :: cose_key where
  "cose_zero = \<lparr>ck_x = zeros 32, ck_y = zeros 32, ck_kty = 0, ck_crv = 0\<rparr>"

definition ext_zero :: ctap_extensions where
  "ext_zero = \<lparr>ex_hmac_present = 0, ex_hmac = \<lparr>hs_saltLen = 0, hs_saltEnc = zeros 64, hs_saltAuth = zeros 32,
     hs_keyAgreement = cose_zero, hs_credential = None\<rparr>, ex_cred_protect = 0\<rparr>"

definition ALLOW_LIST_MAX_SIZE :: nat where "ALLOW_LIST_MAX_SIZE = 20"

definition ga_state_zero :: ga_state where
  "ga_state_zero = \<lparr>gs_head = \<lparr>ah_rpIdHash = zeros 32, ah_flags = 0, ah_signCount = zeros 4\<rparr>,
     gs_extbuf = zeros 80, gs_extensions = ext_zero, gs_clientDataHash = zeros 32,
     gs_creds = replicate ALLOW_LIST_MAX_SIZE cred_desc_zero, gs_lastcmd = 0, gs_count = 0, gs_index = 0,
     gs_time = 0, gs_user_verified = 0, gs_customCredId = zeros 256, gs_customCredIdSize = 0\<rparr>"

lemma zero_ok [simp]: "user_ok user_zero" "cid_ok cid_zero"
  by (simp_all add: user_ok_def user_zero_def cid_ok_def cid_zero_def)

end
