(* ===== verification/RkStore.thy ===== *)
theory RkStore
  imports Flash CtapTypes
begin

text \<open>
  The resident-key store of \<^verbatim>\<open>targets/stm32l432/src/device.c\<close> (50 slots of 409 bytes, five to a
  page) and the helpers of \<^verbatim>\<open>fido2/ctap.c\<close> that search it. Replacing a slot erases its page and
  writes the page back from a copy in RAM.
\<close>

definition RKS_PER_PAGE :: nat where "RKS_PER_PAGE = FLASH_PAGE_SIZE div RK_SIZE"

definition rk_page :: "nat \<Rightarrow> nat" where "rk_page index = index div RKS_PER_PAGE"

definition rk_offset :: "nat \<Rightarrow> nat" where "rk_offset index = RK_SIZE * (index mod RKS_PER_PAGE)"

definition ctap_reset_rk :: "flash \<Rightarrow> flash" where
  "ctap_reset_rk f = fold (\<lambda>i. flash_erase_page (RK_START_PAGE + i)) [0..<RK_NUM_PAGES] f"

definition ctap_rk_size :: nat where
  "ctap_rk_size = RK_NUM_PAGES * (FLASH_PAGE_SIZE div RK_SIZE)"

text \<open>Out of range, the caller's structure keeps what it had.\<close>

definition ctap_load_rk :: "flash \<Rightarrow> nat \<Rightarrow> resident_key \<Rightarrow> resident_key" where
  "ctap_load_rk f index rk =
     (if rk_page index < RK_NUM_PAGES
      then rk_of_image (flash_read f (flash_addr (rk_page index + RK_START_PAGE) + rk_offset index) RK_SIZE)
      else rk)"

definition rk_put :: "prog_fn \<Rightarrow> nat \<Rightarrow> bytes \<Rightarrow> flash \<Rightarrow> flash" where
  "rk_put prog index img f =
     (if rk_page index < RK_NUM_PAGES then
        let page = RK_START_PAGE + rk_page index;
            tmppage = flash_read f (flash_addr page) FLASH_PAGE_SIZE;
            tmppage = blit tmppage (rk_offset index) img;
            f = flash_erase_page page f
        in flash_write prog (flash_addr page) tmppage f
      else f)"

definition ctap_overwrite_rk :: "prog_fn \<Rightarrow> nat \<Rightarrow> resident_key \<Rightarrow> flash \<Rightarrow> flash" where
  "ctap_overwrite_rk prog index rk f = rk_put prog index (rk_image rk) f"

definition ctap_store_rk :: "prog_fn \<Rightarrow> nat \<Rightarrow> resident_key \<Rightarrow> flash \<Rightarrow> flash" where
  "ctap_store_rk prog index rk f = ctap_overwrite_rk prog index rk f"

definition ctap_delete_rk :: "prog_fn \<Rightarrow> nat \<Rightarrow> flash \<Rightarrow> flash" where
  "ctap_delete_rk prog index f =
     (let rk = rk_of_image (replicate RK_SIZE 0xff) in ctap_overwrite_rk prog index rk f)"

definition ctap_rk_is_valid :: "resident_key \<Rightarrow> bool" where
  "ctap_rk_is_valid rk \<longleftrightarrow> ci_count (rk_id rk) > 0 \<and> ci_count (rk_id rk) \<noteq> 0xffffffff"

text \<open>The search for the \<open>n\<close>-th valid slot; the structure holds the last slot that was read. The fuel
  counts the slots that are left.\<close>

fun load_nth_from :: "flash \<Rightarrow> nat \<Rightarrow> nat \<Rightarrow> nat \<Rightarrow> nat \<Rightarrow> resident_key \<Rightarrow> int \<times> resident_key" where
  "load_nth_from f 0 i valid_count n rk = (-1, rk)"
| "load_nth_from f (Suc k) i valid_count n rk =
     (let rk = ctap_load_rk f i rk in
      if ctap_rk_is_valid rk then
        if valid_count = n then (int i, rk) else load_nth_from f k (i + 1) (valid_count + 1) n rk
      else load_nth_from f k (i + 1) valid_count n rk)"

definition load_nth_valid_rk :: "flash \<Rightarrow> nat \<Rightarrow> resident_key \<Rightarrow> int \<times> resident_key" where
  "load_nth_valid_rk f n rk = load_nth_from f ctap_rk_size 0 0 n rk"

text \<open>\<open>memcmp\<close> over \<open>id_size\<close> bytes may read past the 64 bytes of the id into what follows it in the
  packed structure; \<open>user_mem\<close> is that memory.\<close>

definition user_mem :: "resident_key \<Rightarrow> bytes" where
  "user_mem rk = user_image (rk_user rk) @ rk_rpId rk @ [rk_rpIdSize rk]"

definition is_matching_rk :: "resident_key \<Rightarrow> resident_key \<Rightarrow> bool" where
  "is_matching_rk rk rk2 \<longleftrightarrow> ci_rpIdHash (rk_id rk) = ci_rpIdHash (rk_id rk2)
     \<and> take (unat (u_id_size (rk_user rk))) (user_mem rk) = take (unat (u_id_size (rk_user rk))) (user_mem rk2)
     \<and> u_id_size (rk_user rk) = u_id_size (rk_user rk2)"

lemmas rk_dims = RKS_PER_PAGE_def RK_SIZE_def FLASH_PAGE_SIZE_def RK_NUM_PAGES_def

lemma ctap_rk_size_50: "ctap_rk_size = 50"
  by (simp add: ctap_rk_size_def rk_dims)

lemma rk_page_range: "rk_page i < RK_NUM_PAGES \<longleftrightarrow> i < ctap_rk_size"
  by (simp add: ctap_rk_size_50 rk_page_def rk_dims div_less_iff_less_mult)

lemma rk_offset_fits: "rk_offset i + RK_SIZE \<le> FLASH_PAGE_SIZE"
proof -
  have "i mod 5 \<le> 4" using mod_less_divisor[of 5 i] by linarith
  then show ?thesis by (simp add: rk_offset_def rk_dims)
qed

lemma rk_slots_disjoint:
  assumes "rk_page i = rk_page j" "i \<noteq> j"
  shows "rk_offset i + RK_SIZE \<le> rk_offset j \<or> rk_offset j + RK_SIZE \<le> rk_offset i"
proof -
  have "i mod 5 \<noteq> j mod 5"
    using assms div_mult_mod_eq[of i 5] div_mult_mod_eq[of j 5] by (auto simp: rk_page_def rk_dims)
  then show ?thesis by (auto simp: rk_offset_def rk_dims)
qed

lemma flash_read_block:
  "o1 + n \<le> m \<Longrightarrow> flash_read f (a + o1) n = block (flash_read f a m) o1 n"
  by (intro nth_equalityI) (simp_all add: flash_read_nth nth_block add.assoc)

text \<open>What one slot of the store reads after another one is replaced.\<close>

lemma rk_put_slot:
  assumes hw: "prog_ok prog" and l: "length img = RK_SIZE" and i: "i < ctap_rk_size"
  shows "flash_read (rk_put prog i img f) (flash_addr (rk_page j + RK_START_PAGE) + rk_offset j) RK_SIZE
    = (if j = i then img
       else flash_read f (flash_addr (rk_page j + RK_START_PAGE) + rk_offset j) RK_SIZE)"
proof -
  note ps = flash_page_store[OF hw]
  let ?p = "RK_START_PAGE + rk_page i" and ?q = "rk_page j + RK_START_PAGE"
  let ?old = "flash_read f (flash_addr ?p) FLASH_PAGE_SIZE"
  let ?new = "blit ?old (rk_offset i) img"
  have ln: "length ?new = FLASH_PAGE_SIZE" using rk_offset_fits[of i] l by simp
  have g: "rk_put prog i img f = flash_write prog (flash_addr ?p) ?new (flash_erase_page ?p f)"
    using i by (simp add: rk_put_def rk_page_range Let_def)
  show ?thesis
  proof (cases "rk_page i = rk_page j")
    case True
    have pg: "flash_read (rk_put prog i img f) (flash_addr ?q) FLASH_PAGE_SIZE = ?new"
      using page_store.rewrite_read[OF ps, of ?new ?p f] ln True by (simp add: g add.commute)
    have "flash_read (rk_put prog i img f) (flash_addr ?q + rk_offset j) RK_SIZE = block ?new (rk_offset j) RK_SIZE"
      using flash_read_block[OF rk_offset_fits[of j]] pg by simp
    also have "\<dots> = (if j = i then img else block ?old (rk_offset j) RK_SIZE)"
      using rk_offset_fits[of i] rk_offset_fits[of j] l rk_slots_disjoint[OF True]
      by (auto simp: block_blit_same block_blit_other)
    also have "block ?old (rk_offset j) RK_SIZE = flash_read f (flash_addr ?q + rk_offset j) RK_SIZE"
      using flash_read_block[OF rk_offset_fits[of j], of f "flash_addr ?q"] True by (simp add: add.commute)
    finally show ?thesis .
  next
    case False
    have "flash_addr ?q + FLASH_PAGE_SIZE \<le> flash_addr ?p \<or> flash_addr (Suc ?p) \<le> flash_addr ?q"
    proof (cases "rk_page j < rk_page i")
      case True
      then have "(Suc ?q) * FLASH_PAGE_SIZE \<le> ?p * FLASH_PAGE_SIZE" by (intro mult_le_mono1) simp
      then show ?thesis by (simp add: flash_addr_def)
    next
      case f: False
      with False have "Suc ?p * FLASH_PAGE_SIZE \<le> ?q * FLASH_PAGE_SIZE" by (intro mult_le_mono1) simp
      then show ?thesis by (simp add: flash_addr_def)
    qed
    then have "flash_addr ?q + rk_offset j + RK_SIZE \<le> flash_addr ?p \<or> flash_addr (Suc ?p) \<le> flash_addr ?q + rk_offset j"
      using rk_offset_fits[of j] by linarith
    then have "flash_read (rk_put prog i img f) (flash_addr ?q + rk_offset j) RK_SIZE
        = flash_read f (flash_addr ?q + rk_offset j) RK_SIZE"
      using page_store.rewrite_frame[OF ps, of ?new "flash_addr ?q + rk_offset j" RK_SIZE ?p f] ln
      by (simp add: g)
    then show ?thesis using False by auto
  qed
qed

text \<open>A slot store and a deletion seen through loads.\<close>

lemma load_after_store:
  assumes "prog_ok prog" "rk_ok rk" "i < ctap_rk_size"
  shows "ctap_load_rk (ctap_store_rk prog i rk f) j d = (if j = i then rk else ctap_load_rk f j d)"
  using assms(3) by (simp add: ctap_load_rk_def ctap_store_rk_def ctap_overwrite_rk_def rk_page_range
      rk_put_slot[OF assms(1) length_rk_image[OF assms(2)]] rk_image_roundtrip[OF assms(2)])

definition rk_blank :: resident_key where
  "rk_blank = rk_of_image (replicate RK_SIZE 0xff)"

lemma rk_blank_props:
  "rk_ok rk_blank" "\<not> ctap_rk_is_valid rk_blank"
  by (simp_all add: rk_blank_def rk_of_image_def rk_ok_def cid_ok_def user_ok_def cid_of_image_def
      user_of_image_def block_def RK_SIZE_def ctap_rk_is_valid_def le32_def)

lemma load_after_delete:
  assumes "prog_ok prog" "i < ctap_rk_size"
  shows "ctap_load_rk (ctap_delete_rk prog i f) j d = (if j = i then rk_blank else ctap_load_rk f j d)"
  using load_after_store[OF assms(1) rk_blank_props(1) assms(2)]
  by (simp add: ctap_delete_rk_def ctap_store_rk_def rk_blank_def)

lemma store_out_of_range:
  "\<not> i < ctap_rk_size \<Longrightarrow> ctap_store_rk prog i rk f = f \<and> ctap_delete_rk prog i f = f \<and> ctap_load_rk f i d = d"
  by (simp add: ctap_store_rk_def ctap_delete_rk_def ctap_overwrite_rk_def rk_put_def rk_page_range
      ctap_load_rk_def)

subsection \<open>The store as a list of slots\<close>

definition rk_slots :: "flash \<Rightarrow> resident_key list" where
  "rk_slots f = map (\<lambda>i. ctap_load_rk f i rk_blank) [0..<ctap_rk_size]"

lemma length_rk_slots [simp]: "length (rk_slots f) = 50"
  by (simp add: rk_slots_def ctap_rk_size_50)

lemma load_rk_slot: "i < 50 \<Longrightarrow> ctap_load_rk f i d = rk_slots f ! i"
  by (simp add: rk_slots_def ctap_rk_size_50 ctap_load_rk_def rk_page_range)

lemma slots_store:
  assumes "prog_ok prog" "rk_ok rk"
  shows "rk_slots (ctap_store_rk prog i rk f) = (rk_slots f)[i := rk]"
proof (cases "i < ctap_rk_size")
  case True
  show ?thesis
    by (intro nth_equalityI)
       (simp_all add: rk_slots_def load_after_store[OF assms True] nth_list_update ctap_rk_size_50)
qed (simp add: store_out_of_range ctap_rk_size_50 list_update_beyond)

lemma slots_delete:
  assumes "prog_ok prog"
  shows "rk_slots (ctap_delete_rk prog i f) = (rk_slots f)[i := rk_blank]"
  using slots_store[OF assms rk_blank_props(1)]
  by (simp add: ctap_delete_rk_def ctap_store_rk_def rk_blank_def)

lemma fold_erase_read:
  "fold (\<lambda>i. flash_erase_page (b + i)) [0..<n] f x
     = (if b \<le> x div FLASH_PAGE_SIZE \<and> x div FLASH_PAGE_SIZE < b + n then 0xff else f x)"
  by (induction n) (auto simp: flash_erase_page_def)

lemma reset_rk_erased: "x div FLASH_PAGE_SIZE - RK_START_PAGE < RK_NUM_PAGES \<Longrightarrow> RK_START_PAGE \<le> x div FLASH_PAGE_SIZE
   \<Longrightarrow> ctap_reset_rk f x = 0xff"
  by (auto simp: ctap_reset_rk_def fold_erase_read)

lemma slots_reset: "rk_slots (ctap_reset_rk f) = replicate 50 rk_blank"
proof (rule nth_equalityI)
  fix i assume "i < length (rk_slots (ctap_reset_rk f))"
  then have i: "i < 50" by simp
  have "flash_read (ctap_reset_rk f) (flash_addr (rk_page i + RK_START_PAGE) + rk_offset i) RK_SIZE = replicate RK_SIZE 0xff"
  proof (rule nth_equalityI)
    fix k assume "k < length (flash_read (ctap_reset_rk f) (flash_addr (rk_page i + RK_START_PAGE) + rk_offset i) RK_SIZE)"
    then have k: "k < RK_SIZE" by simp
    have "(flash_addr (rk_page i + RK_START_PAGE) + rk_offset i + k) div FLASH_PAGE_SIZE = rk_page i + RK_START_PAGE"
      using rk_offset_fits[of i] k by (intro div_nat_eqI) (simp_all add: flash_addr_def algebra_simps)
    moreover have "rk_page i < RK_NUM_PAGES" using i by (simp add: rk_page_range ctap_rk_size_50)
    ultimately show "flash_read (ctap_reset_rk f) (flash_addr (rk_page i + RK_START_PAGE) + rk_offset i) RK_SIZE ! k
        = replicate RK_SIZE 0xff ! k"
      using k by (simp add: flash_read_nth reset_rk_erased)
  qed simp
  moreover have "rk_page i < RK_NUM_PAGES" using i by (simp add: rk_page_range ctap_rk_size_50)
  ultimately show "rk_slots (ctap_reset_rk f) ! i = replicate 50 rk_blank ! i"
    using i load_rk_slot[OF i, of "ctap_reset_rk f" rk_blank] by (simp add: ctap_load_rk_def rk_blank_def)
qed simp

definition valid_slots :: "resident_key list \<Rightarrow> nat list" where
  "valid_slots ks = filter (\<lambda>i. ctap_rk_is_valid (ks ! i)) [0..<length ks]"

lemma load_nth_from_slots:
  "i + k = 50 \<Longrightarrow> v \<le> n \<Longrightarrow> k = 0 \<longrightarrow> rk = rk_slots f ! 49 \<Longrightarrow>
   load_nth_from f k i v n rk =
    (case drop (n - v) (filter (\<lambda>j. ctap_rk_is_valid (rk_slots f ! j)) [i..<50]) of
       [] \<Rightarrow> (-1, rk_slots f ! 49) | j # _ \<Rightarrow> (int j, rk_slots f ! j))"
proof (induction k arbitrary: i v rk)
  case 0
  then show ?case by simp
next
  case (Suc k)
  then have i: "i < 50" "[i..<50] = i # [Suc i..<50]" by (simp_all add: upt_conv_Cons)
  have k0: "k = 0 \<longrightarrow> ctap_load_rk f i rk = rk_slots f ! 49" using Suc(2) i(1) by (auto simp: load_rk_slot)
  show ?case
  proof (cases "ctap_rk_is_valid (rk_slots f ! i)")
    case True
    show ?thesis
    proof (cases "v = n")
      case False
      then have "n - v = Suc (n - Suc v)" using Suc(3) by simp
      then show ?thesis using Suc(1)[of "Suc i" "Suc v" "ctap_load_rk f i rk"] Suc(2,3) True False i k0
        by (simp add: load_rk_slot Let_def)
    qed (use True i in \<open>simp add: load_rk_slot Let_def\<close>)
  next
    case False
    then show ?thesis using Suc(1)[of "Suc i" v "ctap_load_rk f i rk"] Suc(2,3) i k0
      by (simp add: load_rk_slot Let_def)
  qed
qed

lemma load_nth_slots:
  "load_nth_valid_rk f n rk = (case drop n (valid_slots (rk_slots f)) of
     [] \<Rightarrow> (-1, rk_slots f ! 49) | j # _ \<Rightarrow> (int j, rk_slots f ! j))"
  using load_nth_from_slots[of 0 50 0 n rk f]
  by (simp add: load_nth_valid_rk_def ctap_rk_size_50 valid_slots_def)

text \<open>C4 (refinement). The flash store is a list of 50 slots: storing is list update, deleting writes
  the blank (invalid) key, reset blanks every slot, and indexes past the end do nothing; the search
  for the \<open>n\<close>-th valid key finds the \<open>n\<close>-th valid slot, or answers -1.\<close>

theorem rk_store_refines:
  assumes "prog_ok prog" "rk_ok rk"
  shows "rk_slots (ctap_store_rk prog i rk f) = (rk_slots f)[i := rk]
    \<and> rk_slots (ctap_delete_rk prog i f) = (rk_slots f)[i := rk_blank] \<and> \<not> ctap_rk_is_valid rk_blank
    \<and> rk_slots (ctap_reset_rk f) = replicate 50 rk_blank
    \<and> fst (load_nth_valid_rk f n d) = (case drop n (valid_slots (rk_slots f)) of [] \<Rightarrow> -1 | j # _ \<Rightarrow> int j)"
  using assms by (simp add: slots_store slots_delete slots_reset load_nth_slots rk_blank_props split: list.split)

definition rk1 :: resident_key where
  "rk1 = \<lparr>rk_id = cid_zero\<lparr>ci_count := 5\<rparr>, rk_user = user_zero, rk_rpId = zeros 48, rk_rpIdSize = 3\<rparr>"

lemma rk1_ok: "rk_ok rk1" "ctap_rk_is_valid rk1"
  using zero_ok by (simp_all add: rk_ok_def rk1_def cid_ok_def ctap_rk_is_valid_def)

theorem rk_store_refines_witness:
  "rk_slots (ctap_store_rk stm_prog 7 rk1 (ctap_reset_rk (\<lambda>_. 0))) = (replicate 50 rk_blank)[7 := rk1]"
  using rk_store_refines[OF stm_prog_ok rk1_ok(1), of 7 "ctap_reset_rk (\<lambda>_. 0)"] by (simp add: slots_reset)

text \<open>Erase-then-write has a window: a power cut after the erase loses the other keys of the page.\<close>

lemma rk_store_window:
  assumes "j < 50" "rk_page j = rk_page i"
  shows "\<not> ctap_rk_is_valid (ctap_load_rk (flash_erase_page (RK_START_PAGE + rk_page i) f) j d)"
proof -
  let ?g = "flash_erase_page (RK_START_PAGE + rk_page i) f"
  have "flash_read ?g (flash_addr (rk_page j + RK_START_PAGE) + rk_offset j) RK_SIZE = replicate RK_SIZE 0xff"
  proof (rule nth_equalityI)
    fix k assume "k < length (flash_read ?g (flash_addr (rk_page j + RK_START_PAGE) + rk_offset j) RK_SIZE)"
    then have k: "k < RK_SIZE" by simp
    have "(flash_addr (rk_page j + RK_START_PAGE) + rk_offset j + k) div FLASH_PAGE_SIZE = rk_page j + RK_START_PAGE"
      using rk_offset_fits[of j] k by (intro div_nat_eqI) (simp_all add: flash_addr_def algebra_simps)
    then show "flash_read ?g (flash_addr (rk_page j + RK_START_PAGE) + rk_offset j) RK_SIZE ! k = replicate RK_SIZE 0xff ! k"
      using k assms(2) by (simp add: flash_read_nth flash_erase_page_def add.commute)
  qed simp
  moreover have "rk_page j < RK_NUM_PAGES" using assms(1) by (simp add: rk_page_range ctap_rk_size_50)
  ultimately show ?thesis using rk_blank_props(2) by (simp add: ctap_load_rk_def rk_blank_def)
qed

end
