(* ===== verification/Crypto.thy ===== *)
theory Crypto
  imports Sha256
begin

text \<open>
  \<^verbatim>\<open>fido2/crypto.c\<close>: the firmware's static cryptographic state (hash context, master and
  transport secrets, the signing key pointer, the AES context) and its operations. The elliptic
  curve code (micro-ecc) and the AES code (tiny-AES-c) are submodules of the repository: they are
  the parameter \<open>lib\<close>. \<open>exit(1)\<close> is None.
\<close>

datatype ecc_curve = P192 | P224 | P256 | K256

text \<open>The submodules. The random numbers micro-ecc draws are the last argument: the position in the
  random stream at the call.\<close>

record crypto_lib =
  l_sign :: "ecc_curve \<Rightarrow> bytes \<Rightarrow> bytes \<Rightarrow> nat \<Rightarrow> bytes option"
  l_pubkey :: "bytes \<Rightarrow> bytes"
  l_make_key :: "nat \<Rightarrow> (bytes \<times> bytes) option"
  l_shared :: "bytes \<Rightarrow> bytes \<Rightarrow> bytes option"
  l_cbc_enc :: "bytes \<Rightarrow> bytes \<Rightarrow> bytes \<Rightarrow> bytes"
  l_cbc_dec :: "bytes \<Rightarrow> bytes \<Rightarrow> bytes \<Rightarrow> bytes"

record crypto_state =
  c_sha :: sha256_ctx
  c_master :: bytes
  c_transport :: bytes
  c_signing_key :: bytes
  c_key_len :: int
  c_curve :: ecc_curve
  c_aes_key :: bytes
  c_aes_iv :: bytes
  c_rng :: nat

definition crypto_ok :: "crypto_state \<Rightarrow> bool" where
  "crypto_ok s \<longleftrightarrow> length (sc_data (c_sha s)) = 64 \<and> length (c_master s) = 64
     \<and> length (c_transport s) = 32"

subsection \<open>Secrets and hashing\<close>

definition crypto_sha256_init :: "crypto_state \<Rightarrow> crypto_state" where
  "crypto_sha256_init s = s\<lparr>c_sha := sha256_init (c_sha s)\<rparr>"

definition crypto_load_master_secret :: "bytes \<Rightarrow> crypto_state \<Rightarrow> crypto_state" where
  "crypto_load_master_secret key s = s\<lparr>c_master := block key 0 64, c_transport := block key 64 32\<rparr>"

definition crypto_reset_master_secret :: "(nat \<Rightarrow> u8) \<Rightarrow> crypto_state \<Rightarrow> crypto_state" where
  "crypto_reset_master_secret rng s =
     s\<lparr>c_master := map (\<lambda>i. rng (c_rng s + i)) [0..<64],
       c_transport := map (\<lambda>i. rng (c_rng s + 64 + i)) [0..<32],
       c_rng := c_rng s + 96\<rparr>"

definition crypto_sha256_update :: "bytes \<Rightarrow> crypto_state \<Rightarrow> crypto_state" where
  "crypto_sha256_update d s = s\<lparr>c_sha := sha256_update (c_sha s) d\<rparr>"

definition crypto_sha256_update_secret :: "crypto_state \<Rightarrow> crypto_state" where
  "crypto_sha256_update_secret s = s\<lparr>c_sha := sha256_update (c_sha s) (take 32 (c_master s))\<rparr>"

definition crypto_sha256_final :: "crypto_state \<Rightarrow> bytes \<times> crypto_state" where
  "crypto_sha256_final s = (let (h, c) = sha256_final (c_sha s) in (h, s\<lparr>c_sha := c\<rparr>))"

subsection \<open>HMAC\<close>

text \<open>A key argument is one of the reserved pointer values (0, 1, 2) or a real pointer.\<close>

datatype key_arg = Master_Key | Transport_Key | Transport_Key2 | Key_Ptr bytes

text \<open>The bytes \<open>memmove(buf, key, klen)\<close> copies when the pointer is not replaced: nothing for a
  reserved value, which every caller passes with \<open>klen = 0\<close>.\<close>

definition key_bytes :: "key_arg \<Rightarrow> nat \<Rightarrow> bytes" where
  "key_bytes k klen = (case k of Key_Ptr b \<Rightarrow> take klen b | _ \<Rightarrow> [])"

definition crypto_sha256_hmac_init :: "key_arg \<Rightarrow> nat \<Rightarrow> crypto_state \<Rightarrow> crypto_state option" where
  "crypto_sha256_hmac_init k klen s =
     (let (key, klen) = (if k = Master_Key then (take 32 (c_master s), 32)
                         else if k = Transport_Key then (take 32 (c_transport s), 32)
                         else (key_bytes k klen, klen)) in
      if klen > 64 then None
      else
        let buf = blit (replicate 64 (0 :: u8)) 0 key;
            buf = map (\<lambda>b. b XOR 0x36) buf
        in Some (crypto_sha256_update buf (crypto_sha256_init s)))"

definition crypto_sha256_hmac_final ::
    "key_arg \<Rightarrow> nat \<Rightarrow> crypto_state \<Rightarrow> (bytes \<times> crypto_state) option" where
  "crypto_sha256_hmac_final k klen s =
     (let (hmac, s) = crypto_sha256_final s;
          (key, klen) = (if k = Master_Key then (take 32 (c_master s), 32)
                         else if k = Transport_Key2 then (take 32 (c_transport s), 32)
                         else (key_bytes k klen, klen)) in
      if klen > 64 then None
      else
        let buf = blit (replicate 64 (0 :: u8)) 0 key;
            buf = map (\<lambda>b. b XOR 0x5c) buf;
            s = crypto_sha256_init s;
            s = crypto_sha256_update buf s;
            s = crypto_sha256_update hmac s
        in Some (crypto_sha256_final s))"

subsection \<open>Keys, signatures, AES\<close>

definition crypto_ecc256_init :: "crypto_state \<Rightarrow> crypto_state" where
  "crypto_ecc256_init s = s\<lparr>c_curve := P256\<rparr>"

definition crypto_ecc256_load_attestation_key :: "bytes \<Rightarrow> crypto_state \<Rightarrow> crypto_state" where
  "crypto_ecc256_load_attestation_key att s = s\<lparr>c_signing_key := att, c_key_len := 32\<rparr>"

definition crypto_ecc256_sign ::
    "crypto_lib \<Rightarrow> bytes \<Rightarrow> crypto_state \<Rightarrow> (bytes \<times> crypto_state) option" where
  "crypto_ecc256_sign lib data s =
     (case l_sign lib (c_curve s) (c_signing_key s) data (c_rng s) of
        None \<Rightarrow> None | Some sig \<Rightarrow> Some (sig, s\<lparr>c_rng := c_rng s + 1\<rparr>))"

definition crypto_aes256_init :: "key_arg \<Rightarrow> bytes option \<Rightarrow> crypto_state \<Rightarrow> crypto_state" where
  "crypto_aes256_init k nonce s =
     s\<lparr>c_aes_key := (case k of Transport_Key \<Rightarrow> c_transport s | Key_Ptr b \<Rightarrow> take 32 b | _ \<Rightarrow> []),
       c_aes_iv := (case nonce of None \<Rightarrow> replicate 16 0 | Some n \<Rightarrow> take 16 n)\<rparr>"

definition crypto_aes256_reset_iv :: "bytes option \<Rightarrow> crypto_state \<Rightarrow> crypto_state" where
  "crypto_aes256_reset_iv nonce s =
     s\<lparr>c_aes_iv := (case nonce of None \<Rightarrow> replicate 16 0 | Some n \<Rightarrow> take 16 n)\<rparr>"

text \<open>CBC leaves the last ciphertext block in the context as the next IV.\<close>

definition crypto_aes256_encrypt :: "crypto_lib \<Rightarrow> bytes \<Rightarrow> crypto_state \<Rightarrow> bytes \<times> crypto_state" where
  "crypto_aes256_encrypt lib buf s =
     (let c = l_cbc_enc lib (c_aes_key s) (c_aes_iv s) buf in
      (c, s\<lparr>c_aes_iv := (if length buf < 16 then c_aes_iv s else drop (length c - 16) c)\<rparr>))"

definition crypto_aes256_decrypt :: "crypto_lib \<Rightarrow> bytes \<Rightarrow> crypto_state \<Rightarrow> bytes \<times> crypto_state" where
  "crypto_aes256_decrypt lib buf s =
     (l_cbc_dec lib (c_aes_key s) (c_aes_iv s) buf,
      s\<lparr>c_aes_iv := (if length buf < 16 then c_aes_iv s else drop (length buf - 16) buf)\<rparr>)"

definition generate_private_key ::
    "crypto_lib \<Rightarrow> bytes \<Rightarrow> bytes \<Rightarrow> crypto_state \<Rightarrow> (bytes \<times> crypto_state) option" where
  "generate_private_key lib data data2 s =
     (case crypto_sha256_hmac_init Master_Key 0 s of None \<Rightarrow> None | Some s \<Rightarrow>
      let s = crypto_sha256_update data s;
          s = crypto_sha256_update data2 s;
          s = crypto_sha256_update (take 32 (c_master s)) s in
      case crypto_sha256_hmac_final Master_Key 0 s of None \<Rightarrow> None | Some (privkey, s) \<Rightarrow>
      let s = crypto_aes256_init (Key_Ptr (drop 32 (c_master s))) None s in
      Some (crypto_aes256_encrypt lib privkey s))"

definition crypto_ecc256_load_key ::
    "crypto_lib \<Rightarrow> bytes \<Rightarrow> bytes \<Rightarrow> crypto_state \<Rightarrow> crypto_state option" where
  "crypto_ecc256_load_key lib data data2 s =
     (case generate_private_key lib data data2 s of None \<Rightarrow> None
      | Some (privkey, s) \<Rightarrow> Some (s\<lparr>c_signing_key := privkey, c_key_len := 32\<rparr>))"

text \<open>The numbers are those of the \<open>mbedtls_ecp_group_id\<close> enumeration.\<close>

definition crypto_ecdsa_sign ::
    "crypto_lib \<Rightarrow> bytes \<Rightarrow> int \<Rightarrow> crypto_state \<Rightarrow> (bytes \<times> crypto_state) option" where
  "crypto_ecdsa_sign lib data curve_id s =
     (let sel = (if curve_id = 1 then if c_key_len s \<noteq> 24 then None else Some P192
                 else if curve_id = 2 then if c_key_len s \<noteq> 28 then None else Some P224
                 else if curve_id = 3 then if c_key_len s \<noteq> 32 then None else Some P256
                 else if curve_id = 12 then if c_key_len s \<noteq> 32 then None else Some K256
                 else None) in
      case sel of None \<Rightarrow> None | Some curve \<Rightarrow>
      case l_sign lib curve (c_signing_key s) data (c_rng s) of
        None \<Rightarrow> None | Some sig \<Rightarrow> Some (sig, s\<lparr>c_rng := c_rng s + 1\<rparr>))"

definition crypto_ecc256_derive_public_key ::
    "crypto_lib \<Rightarrow> bytes \<Rightarrow> crypto_state \<Rightarrow> ((bytes \<times> bytes) \<times> crypto_state) option" where
  "crypto_ecc256_derive_public_key lib data s =
     (case generate_private_key lib data [] s of None \<Rightarrow> None
      | Some (privkey, s) \<Rightarrow>
        let pub = l_pubkey lib privkey in Some ((block pub 0 32, block pub 32 32), s))"

definition crypto_ecc256_compute_public_key :: "crypto_lib \<Rightarrow> bytes \<Rightarrow> bytes" where
  "crypto_ecc256_compute_public_key lib privkey = l_pubkey lib privkey"

definition crypto_load_external_key :: "bytes \<Rightarrow> int \<Rightarrow> crypto_state \<Rightarrow> crypto_state" where
  "crypto_load_external_key key len s = s\<lparr>c_signing_key := key, c_key_len := len\<rparr>"

definition crypto_ecc256_make_key_pair ::
    "crypto_lib \<Rightarrow> crypto_state \<Rightarrow> ((bytes \<times> bytes) \<times> crypto_state) option" where
  "crypto_ecc256_make_key_pair lib s =
     (case l_make_key lib (c_rng s) of None \<Rightarrow> None
      | Some kp \<Rightarrow> Some (kp, s\<lparr>c_rng := c_rng s + 1\<rparr>))"

definition crypto_ecc256_shared_secret :: "crypto_lib \<Rightarrow> bytes \<Rightarrow> bytes \<Rightarrow> bytes option" where
  "crypto_ecc256_shared_secret lib pubkey privkey = l_shared lib pubkey privkey"

subsection \<open>RFC 2104\<close>

definition hmac_pad :: "u8 \<Rightarrow> bytes \<Rightarrow> bytes" where
  "hmac_pad c key = map (\<lambda>b. b XOR c) (key @ replicate (64 - length key) 0)"

definition hmac_sha256 :: "bytes \<Rightarrow> bytes \<Rightarrow> bytes" where
  "hmac_sha256 key msg = sha256 (hmac_pad 0x5c key @ sha256 (hmac_pad 0x36 key @ msg))"

definition sha_feed :: "bytes list \<Rightarrow> crypto_state \<Rightarrow> crypto_state" where
  "sha_feed ds s = foldl (\<lambda>s d. crypto_sha256_update d s) s ds"

text \<open>What the inner and the outer pass use as their key: the reserved transport values are known to
  one of the two passes only.\<close>

definition inner_key :: "crypto_state \<Rightarrow> key_arg \<Rightarrow> nat \<Rightarrow> bytes" where
  "inner_key s k klen = (case k of Master_Key \<Rightarrow> take 32 (c_master s)
     | Transport_Key \<Rightarrow> c_transport s | Transport_Key2 \<Rightarrow> [] | Key_Ptr b \<Rightarrow> take klen b)"

definition outer_key :: "crypto_state \<Rightarrow> key_arg \<Rightarrow> nat \<Rightarrow> bytes" where
  "outer_key s k klen = (case k of Master_Key \<Rightarrow> take 32 (c_master s)
     | Transport_Key \<Rightarrow> [] | Transport_Key2 \<Rightarrow> c_transport s | Key_Ptr b \<Rightarrow> take klen b)"

lemma sha_feed_sha: "sha_feed ds s = s\<lparr>c_sha := foldl sha256_update (c_sha s) ds\<rparr>"
  by (induction ds arbitrary: s) (simp_all add: sha_feed_def crypto_sha256_update_def)

lemma sha_feed_Nil [simp]: "sha_feed [] s = s"
  by (simp add: sha_feed_def)

lemma sha_feed_Cons: "sha_feed (d # ds) s = sha_feed ds (crypto_sha256_update d s)"
  by (simp add: sha_feed_def)

lemma blit_pad: "length key \<le> 64 \<Longrightarrow> blit (replicate 64 0) 0 key = key @ replicate (64 - length key) 0"
  by (simp add: blit_def)

lemma sha256_final_digest_of: "wf_c = length (sc_data c) \<Longrightarrow> wf_c = 64 \<Longrightarrow>
   fst (sha256_final (foldl sha256_update (sha256_init c) ds)) = sha256 (concat ds)"
  using sha.digest_of_pieces[of c ds] by simp

text \<open>Any HMAC call pair, whatever key argument and pieces of data.\<close>

lemma hmac_general:
  assumes ok: "crypto_ok s" and k: "klen \<le> 64"
  shows "\<exists>s0 s1. crypto_sha256_hmac_init k klen s = Some s0
     \<and> crypto_sha256_hmac_final k klen (sha_feed ds s0) =
         Some (sha256 (hmac_pad 0x5c (outer_key s k klen)
                       @ sha256 (hmac_pad 0x36 (inner_key s k klen) @ concat ds)), s1)
     \<and> crypto_ok s1 \<and> s1 = s\<lparr>c_sha := c_sha s1\<rparr>"
proof -
  define IK OK where keys: "IK = hmac_pad 0x36 (inner_key s k klen)"
    "OK = hmac_pad 0x5c (outer_key s k klen)"
  have w: "length (sc_data (c_sha s)) = 64" "length (c_master s) = 64" "length (c_transport s) = 32"
    using ok by (auto simp: crypto_ok_def)
  define c0 where "c0 = sha256_update (sha256_init (c_sha s)) IK"
  have i: "crypto_sha256_hmac_init k klen s = Some (s\<lparr>c_sha := c0\<rparr>)"
    using k w by (cases k) (simp_all add: crypto_sha256_hmac_init_def c0_def keys blit_pad hmac_pad_def
        inner_key_def key_bytes_def crypto_sha256_init_def crypto_sha256_update_def)
  define c1 where "c1 = foldl sha256_update c0 ds"
  have f: "sha_feed ds (s\<lparr>c_sha := c0\<rparr>) = s\<lparr>c_sha := c1\<rparr>" by (simp add: sha_feed_sha c1_def)
  have a1: "sha_absorbed c1 (IK @ concat ds)"
    unfolding c1_def c0_def using sha.update_pieces[OF sha.h_init[OF w(1)], of "IK # ds"] by simp
  obtain h c2 where e: "sha256_final c1 = (h, c2)" by fastforce
  have h: "h = sha256 (IK @ concat ds)" and w2: "length (sc_data c2) = 64"
    using sha.h_final[OF a1] sha.h_wf[OF a1] e by simp_all
  define c3 where "c3 = sha256_update (sha256_update (sha256_init c2) OK) h"
  have a3: "sha_absorbed c3 (OK @ h)"
    unfolding c3_def using sha.update_pieces[OF sha.h_init[OF w2], of "[OK, h]"] by simp
  obtain r c4 where e3: "sha256_final c3 = (r, c4)" by fastforce
  have r: "r = sha256 (OK @ h)" and w4: "length (sc_data c4) = 64"
    using sha.h_final[OF a3] sha.h_wf[OF a3] e3 by simp_all
  have "crypto_sha256_hmac_final k klen (s\<lparr>c_sha := c1\<rparr>) = Some (r, s\<lparr>c_sha := c4\<rparr>)"
    using k w e e3 by (cases k) (simp_all add: crypto_sha256_hmac_final_def crypto_sha256_final_def keys
        blit_pad hmac_pad_def outer_key_def key_bytes_def crypto_sha256_init_def
        crypto_sha256_update_def c3_def)
  with i f r h w w4 show ?thesis by (auto simp: keys crypto_ok_def)
qed


text \<open>C16 (functional). With the master secret or with a caller's key of at most 64 bytes, the pair
  \<open>crypto_sha256_hmac_init\<close> / \<open>crypto_sha256_hmac_final\<close> around any updates returns the RFC 2104
  HMAC-SHA-256 of the concatenated data, and changes nothing but the hash context.\<close>

theorem hmac_is_rfc2104:
  assumes "crypto_ok s" "klen \<le> 64"
    and "k = Master_Key \<and> key = take 32 (c_master s) \<or> k = Key_Ptr b \<and> key = take klen b"
  shows "\<exists>s0 s1. crypto_sha256_hmac_init k klen s = Some s0
      \<and> crypto_sha256_hmac_final k klen (sha_feed ds s0) = Some (hmac_sha256 key (concat ds), s1)
      \<and> crypto_ok s1 \<and> s1 = s\<lparr>c_sha := c_sha s1\<rparr>"
proof -
  have "inner_key s k klen = key" "outer_key s k klen = key"
    using assms(3) by (auto simp: inner_key_def outer_key_def)
  then show ?thesis using hmac_general[OF assms(1,2), of k ds] by (simp add: hmac_sha256_def)
qed

lemma hmac_long_key_aborts:
  "klen > 64 \<Longrightarrow> crypto_sha256_hmac_init (Key_Ptr b) klen s = None
     \<and> crypto_sha256_hmac_final (Key_Ptr b) klen s = None"
  by (simp add: crypto_sha256_hmac_init_def crypto_sha256_hmac_final_def split: prod.splits)

definition crypto0 :: crypto_state where
  "crypto0 = \<lparr>c_sha = sha_ctx0, c_master = replicate 64 1, c_transport = replicate 32 2,
     c_signing_key = [], c_key_len = 0, c_curve = P256, c_aes_key = [], c_aes_iv = [], c_rng = 0\<rparr>"

lemma crypto0_ok [simp]: "crypto_ok crypto0"
  by (simp add: crypto_ok_def crypto0_def sha_ctx0_def)

theorem hmac_is_rfc2104_witness:
  "\<exists>s0 s1. crypto_sha256_hmac_init (Key_Ptr [5, 6]) 2 crypto0 = Some s0
     \<and> crypto_sha256_hmac_final (Key_Ptr [5, 6]) 2 (sha_feed [[1], [2]] s0)
         = Some (hmac_sha256 [5, 6] [1, 2], s1)"
  using hmac_is_rfc2104[of crypto0 2 "Key_Ptr [5, 6]" "[5, 6]" "[5, 6]" "[[1], [2]]"] by auto

text \<open>The transport secret keys only one of the two passes: the inner one for
  \<open>CRYPTO_TRANSPORT_KEY\<close> (masks and credential tags), the outer one for \<open>CRYPTO_TRANSPORT_KEY2\<close>
  (the hmac-secret \<open>credRandom\<close>). The other pass runs with the all-zero key block.\<close>

lemma hmac_transport_keys_one_pass:
  assumes "crypto_ok s"
  shows "\<exists>s0 s1. crypto_sha256_hmac_init Transport_Key 0 s = Some s0
     \<and> crypto_sha256_hmac_final Transport_Key 0 (sha_feed ds s0)
       = Some (sha256 (replicate 64 0x5c @ sha256 (hmac_pad 0x36 (c_transport s) @ concat ds)), s1)
     \<and> crypto_ok s1 \<and> s1 = s\<lparr>c_sha := c_sha s1\<rparr>"
    and "\<exists>s0 s1. crypto_sha256_hmac_init Transport_Key2 0 s = Some s0
     \<and> crypto_sha256_hmac_final Transport_Key2 0 (sha_feed ds s0)
       = Some (sha256 (hmac_pad 0x5c (c_transport s) @ sha256 (replicate 64 0x36 @ concat ds)), s1)
     \<and> crypto_ok s1 \<and> s1 = s\<lparr>c_sha := c_sha s1\<rparr>"
  using hmac_general[OF assms, of 0 Transport_Key ds] hmac_general[OF assms, of 0 Transport_Key2 ds]
  by (auto simp: inner_key_def outer_key_def hmac_pad_def)

text \<open>The derived key, and what the derivation leaves alone.\<close>

lemma private_key_value:
  assumes "crypto_ok s"
  shows "\<exists>s1. generate_private_key lib d1 d2 s =
     Some (l_cbc_enc lib (drop 32 (c_master s)) (replicate 16 0)
             (hmac_sha256 (take 32 (c_master s)) (d1 @ d2 @ take 32 (c_master s))), s1)
     \<and> crypto_ok s1 \<and> s1\<lparr>c_sha := c_sha s, c_aes_key := c_aes_key s, c_aes_iv := c_aes_iv s\<rparr> = s"
proof -
  let ?M = "take 32 (c_master s)"
  obtain s0 s1 where h: "crypto_sha256_hmac_init Master_Key 0 s = Some s0"
    "crypto_sha256_hmac_final Master_Key 0 (sha_feed [d1, d2, ?M] s0)
       = Some (hmac_sha256 ?M (d1 @ d2 @ ?M), s1)" "crypto_ok s1" "s1 = s\<lparr>c_sha := c_sha s1\<rparr>"
    using hmac_general[OF assms, of 0 Master_Key "[d1, d2, ?M]"]
    by (auto simp: hmac_sha256_def inner_key_def outer_key_def)
  have m: "c_master s1 = c_master s" "c_transport s1 = c_transport s" by (subst h(4), simp)+
  have m0: "c_master s0 = c_master s"
    using h(1) by (auto simp: crypto_sha256_hmac_init_def crypto_sha256_update_def
        crypto_sha256_init_def split: if_splits)
  have l: "length (drop 32 (c_master s)) = 32" using assms by (simp add: crypto_ok_def)
  define s2 where "s2 = snd (crypto_aes256_encrypt lib (hmac_sha256 ?M (d1 @ d2 @ ?M)) (crypto_aes256_init (Key_Ptr (drop 32 (c_master s1))) None s1))"
  have "generate_private_key lib d1 d2 s = Some (l_cbc_enc lib (drop 32 (c_master s)) (replicate 16 0) (hmac_sha256 ?M (d1 @ d2 @ ?M)), s2)"
    using h m m0 l by (simp add: generate_private_key_def sha_feed_Cons crypto_aes256_init_def Let_def
        crypto_sha256_update_def crypto_aes256_encrypt_def s2_def)
  moreover have "s2\<lparr>c_sha := c_sha s, c_aes_key := c_aes_key s, c_aes_iv := c_aes_iv s\<rparr> = s\<lparr>c_sha := c_sha s, c_aes_key := c_aes_key s, c_aes_iv := c_aes_iv s\<rparr>"
    using arg_cong[OF h(4), of "\<lambda>x. x\<lparr>c_sha := c_sha s, c_aes_key := c_aes_key s, c_aes_iv := c_aes_iv s\<rparr>"]
    by (simp add: s2_def crypto_aes256_init_def crypto_aes256_encrypt_def Let_def)
  moreover have "crypto_ok s2"
    using h(3) by (simp add: s2_def crypto_aes256_init_def crypto_aes256_encrypt_def Let_def crypto_ok_def)
  ultimately show ?thesis by simp
qed

text \<open>A private key is derived from the credential data and the two halves of the
  master secret only: HMAC under the first half, over the two pieces of data and that half again,
  encrypted under the second half with a zero IV. So the same device secret and credential always
  give the same key.\<close>

theorem generate_private_key_value:
  assumes "crypto_ok s"
  shows "\<exists>s1. generate_private_key lib d1 d2 s =
     Some (l_cbc_enc lib (drop 32 (c_master s)) (replicate 16 0)
             (hmac_sha256 (take 32 (c_master s)) (d1 @ d2 @ take 32 (c_master s))), s1)
     \<and> crypto_ok s1 \<and> c_master s1 = c_master s \<and> c_transport s1 = c_transport s"
proof -
  obtain s1 where s: "generate_private_key lib d1 d2 s =
     Some (l_cbc_enc lib (drop 32 (c_master s)) (replicate 16 0)
             (hmac_sha256 (take 32 (c_master s)) (d1 @ d2 @ take 32 (c_master s))), s1)" "crypto_ok s1"
    "s1\<lparr>c_sha := c_sha s, c_aes_key := c_aes_key s, c_aes_iv := c_aes_iv s\<rparr> = s"
    using private_key_value[OF assms] by blast
  have "c_master s1 = c_master s" "c_transport s1 = c_transport s"
    using arg_cong[OF s(3), of c_master] arg_cong[OF s(3), of c_transport] by simp_all
  with s show ?thesis by blast
qed

definition toy_lib :: crypto_lib where
  "toy_lib = \<lparr>l_sign = (\<lambda>_ k d n. Some (take 64 (k @ d @ replicate 64 (of_nat n)))),
     l_pubkey = (\<lambda>k. take 64 (k @ k @ replicate 64 0)), l_make_key = (\<lambda>n. Some (replicate 64 (of_nat n), replicate 32 (of_nat n))),
     l_shared = (\<lambda>p k. Some (take 32 (p @ k))),
     l_cbc_enc = (\<lambda>_ _ b. b), l_cbc_dec = (\<lambda>_ _ b. b)\<rparr>"

theorem generate_private_key_value_witness:
  "\<exists>s1. generate_private_key toy_lib [1] [2] crypto0 =
     Some (hmac_sha256 (replicate 32 1) ([1, 2] @ replicate 32 1), s1)"
proof -
  have "l_cbc_enc toy_lib k iv b = b" "take 32 (c_master crypto0) = replicate 32 1" for k iv b
    by (simp_all add: toy_lib_def crypto0_def)
  with generate_private_key_value[OF crypto0_ok, of toy_lib "[1]" "[2]"] show ?thesis by auto
qed

end
