(* ===== verification/CborEnc.thy ===== *)
theory CborEnc
  imports Crypto
begin

text \<open>
  The CBOR responses of \<^verbatim>\<open>fido2/ctap.c\<close>. The encoder (tinycbor) is a submodule: what the firmware
  does with it is the sequence of calls it makes, so a response is the list of those calls, and the
  error code of a call (for instance when the buffer is full) is a parameter: a function of the
  calls made so far and of the call. A container call opens a container and \<open>EClose\<close> closes the
  innermost one. \<open>enc_wf\<close> is what the encoder's documentation asks of its caller: every container gets
  exactly the number of items it was opened for, and is closed.
\<close>

datatype enc = EMap nat | EArr nat | EInt int | EBytes bytes | EText string | EBool bool | EClose

type_synonym enc_err = "enc list \<Rightarrow> enc \<Rightarrow> int"

definition CTAP2_ERR_CBOR_PARSING :: int where "CTAP2_ERR_CBOR_PARSING = 0x12"

text \<open>A run of encoder calls, each followed by \<open>check_ret\<close>.\<close>

fun emits :: "enc_err \<Rightarrow> enc list \<Rightarrow> enc list \<Rightarrow> int + enc list" where
  "emits err [] tr = Inr tr"
| "emits err (x # xs) tr = (if err tr x \<noteq> 0 then Inl CTAP2_ERR_CBOR_PARSING else emits err xs (tr @ [x]))"

lemma emits_append: "emits err (xs @ ys) tr = seqE (emits err xs tr) (emits err ys)"
  by (induction xs arbitrary: tr) auto

lemma emits_Inr: "emits err xs tr = Inr tr' \<Longrightarrow> tr' = tr @ xs"
  by (induction xs arbitrary: tr) (force split: if_splits)+

lemma emits_Inl: "emits err xs tr = Inl e \<Longrightarrow> e = CTAP2_ERR_CBOR_PARSING"
  by (induction xs arbitrary: tr) (auto split: if_splits)

lemma emits_no_err: "emits (\<lambda>_ _. 0) xs tr = Inr (tr @ xs)"
  by (induction xs arbitrary: tr) auto

subsection \<open>Well-formed sequences of calls\<close>

text \<open>The numbers of items still missing in the open containers, innermost first.\<close>

fun enc_step :: "nat list \<Rightarrow> enc \<Rightarrow> nat list option" where
  "enc_step [] _ = None"
| "enc_step (n # st) EClose = (if n = 0 \<and> st \<noteq> [] then Some st else None)"
| "enc_step (n # st) (EMap k) = (if n = 0 then None else Some (2 * k # (n - 1) # st))"
| "enc_step (n # st) (EArr k) = (if n = 0 then None else Some (k # (n - 1) # st))"
| "enc_step (n # st) _ = (if n = 0 then None else Some ((n - 1) # st))"

fun enc_run :: "nat list \<Rightarrow> enc list \<Rightarrow> nat list option" where
  "enc_run st [] = Some st"
| "enc_run st (x # xs) = (case enc_step st x of None \<Rightarrow> None | Some st \<Rightarrow> enc_run st xs)"

text \<open>The calls write exactly \<open>n\<close> complete items.\<close>

definition enc_items :: "nat \<Rightarrow> enc list \<Rightarrow> bool" where
  "enc_items n xs \<longleftrightarrow> (\<forall>k st. enc_run ((n + k) # st) xs = Some (k # st))"

definition enc_wf :: "enc list \<Rightarrow> bool" where
  "enc_wf xs \<longleftrightarrow> enc_run [1] xs = Some [0]"

lemma enc_run_append: "enc_run st (xs @ ys) = (case enc_run st xs of None \<Rightarrow> None | Some st \<Rightarrow> enc_run st ys)"
  by (induction xs arbitrary: st) (auto split: option.splits)

lemma enc_items_Nil: "enc_items 0 []"
  by (simp add: enc_items_def)

lemma enc_items_append: "enc_items m xs \<Longrightarrow> enc_items n ys \<Longrightarrow> enc_items (m + n) (xs @ ys)"
  by (simp add: enc_items_def enc_run_append add.assoc)

lemma enc_items_scalar:
  "enc_items 1 [EInt i]" "enc_items 1 [EBytes b]" "enc_items 1 [EText t]" "enc_items 1 [EBool c]"
  by (simp_all add: enc_items_def)

lemma enc_items_map: "enc_items (2 * k) xs \<Longrightarrow> enc_items 1 (EMap k # xs @ [EClose])"
  by (auto simp: enc_items_def enc_run_append dest: spec [of _ 0])

lemma enc_items_arr: "enc_items k xs \<Longrightarrow> enc_items 1 (EArr k # xs @ [EClose])"
  by (auto simp: enc_items_def enc_run_append dest: spec [of _ 0])

lemma enc_items_wf: "enc_items 1 xs \<Longrightarrow> enc_wf xs"
  by (auto simp: enc_items_def enc_wf_def dest: spec [of _ 0])

text \<open>One more item in front of some.\<close>

lemma enc_items_Cons: "enc_items 1 [x] \<Longrightarrow> enc_items n ys \<Longrightarrow> enc_items (Suc n) (x # ys)"
  using enc_items_append [of 1 "[x]" n ys] by simp

lemma enc_items_item: "enc_items 1 xs \<Longrightarrow> enc_items n ys \<Longrightarrow> enc_items (Suc n) (xs @ ys)"
  using enc_items_append [of 1 xs n ys] by simp

subsection \<open>The bytes of a sequence of calls\<close>

text \<open>A concrete instance of the encoder: the definite-length encoding of RFC 8949.\<close>

definition cbor_head :: "nat \<Rightarrow> nat \<Rightarrow> bytes" where
  "cbor_head major n =
     (if n < 24 then [of_nat (32 * major + n)]
      else if n < 256 then [of_nat (32 * major + 24), of_nat n]
      else if n < 65536 then [of_nat (32 * major + 25), of_nat (n div 256), of_nat n]
      else [of_nat (32 * major + 26), of_nat (n div 2 ^ 24), of_nat (n div 2 ^ 16), of_nat (n div 256), of_nat n])"

fun enc_one :: "enc \<Rightarrow> bytes" where
  "enc_one (EMap k) = cbor_head 5 k"
| "enc_one (EArr k) = cbor_head 4 k"
| "enc_one (EInt i) = (if i \<ge> 0 then cbor_head 0 (nat i) else cbor_head 1 (nat (-1 - i)))"
| "enc_one (EBytes b) = cbor_head 2 (length b) @ b"
| "enc_one (EText t) = cbor_head 3 (length t) @ map of_char t"
| "enc_one (EBool b) = [if b then 0xf5 else 0xf4]"
| "enc_one EClose = []"

definition enc_bytes :: "enc list \<Rightarrow> bytes" where
  "enc_bytes xs = concat (map enc_one xs)"

subsection \<open>COSE keys\<close>

definition cose_key_calls :: "bytes \<Rightarrow> bytes \<Rightarrow> int \<Rightarrow> enc list" where
  "cose_key_calls x y algtype =
     [EMap 5, EInt 1, EInt 2, EInt 3, EInt algtype, EInt (-1), EInt 1,
      EInt (-2), EBytes x, EInt (-3), EBytes y, EClose]"

definition ctap_add_cose_key :: "enc_err \<Rightarrow> bytes \<Rightarrow> bytes \<Rightarrow> int \<Rightarrow> enc list \<Rightarrow> int + enc list" where
  "ctap_add_cose_key err x y algtype tr = emits err (cose_key_calls x y algtype) tr"

definition PUB_KEY_CRED_PUB_KEY :: int where "PUB_KEY_CRED_PUB_KEY = 1"
definition COSE_ALG_ES256 :: int where "COSE_ALG_ES256 = -7"
definition COSE_ALG_ECDH_ES_HKDF_256 :: int where "COSE_ALG_ECDH_ES_HKDF_256 = -25"

text \<open>None is the abnormal end of the key derivation.\<close>

definition ctap_generate_cose_key ::
    "crypto_lib \<Rightarrow> enc_err \<Rightarrow> bytes \<Rightarrow> int \<Rightarrow> int \<Rightarrow> enc list \<Rightarrow> crypto_state
     \<Rightarrow> ((int + enc list) \<times> crypto_state) option" where
  "ctap_generate_cose_key lib err hmac_input credtype algtype tr cr =
     (if credtype \<noteq> PUB_KEY_CRED_PUB_KEY then Some (Inl (-1), cr)
      else if algtype = COSE_ALG_ES256 then
        case crypto_ecc256_derive_public_key lib hmac_input cr of
          None \<Rightarrow> None
        | Some ((x, y), cr) \<Rightarrow> Some (ctap_add_cose_key err x y algtype tr, cr)
      else Some (Inl (-1), cr))"

lemma cose_key_items: "enc_items 1 (cose_key_calls x y a)"
  by (simp add: enc_items_def cose_key_calls_def)

subsection \<open>getInfo\<close>

definition ctap_get_info :: "enc_err \<Rightarrow> bytes \<Rightarrow> bool \<Rightarrow> enc list \<Rightarrow> int + enc list" where
  "ctap_get_info err aaguid pin_set tr = emits err
     ([EMap 8,
       EInt 1, EArr 3, EText ''U2F_V2'', EText ''FIDO_2_0'', EText ''FIDO_2_1_PRE'', EClose,
       EInt 2, EArr 2, EText ''credProtect'', EText ''hmac-secret'', EClose,
       EInt 3, EBytes aaguid,
       EInt 4, EMap 5,
         EText ''rk'', EBool True, EText ''up'', EBool True, EText ''plat'', EBool False,
         EText ''clientPin'', EBool pin_set, EText ''credentialMgmtPreview'', EBool True, EClose,
       EInt 5, EInt 1200,
       EInt 6, EArr 1, EInt 1, EClose,
       EInt 7, EInt 20,
       EInt 8, EInt 128, EClose]) tr"

lemma get_info_wf: "ctap_get_info err aaguid ps [] = Inr tr \<Longrightarrow> enc_wf tr"
  unfolding ctap_get_info_def by (drule emits_Inr) (simp add: enc_wf_def)

end
