(* ===== verification/DevState.thy ===== *)
theory DevState
  imports AuthState RkStore CborEnc
begin

text \<open>
  The authenticator's global state in \<^verbatim>\<open>fido2/ctap.c\<close> (\<open>STATE\<close>, the PIN token, the key agreement
  pair, the per-boot attempt counter, the getAssertion state, the cryptographic state) together with
  the flash, and the operations on it: first start, attempts and locking, the external key store,
  reset, the migration of old state formats (\<^verbatim>\<open>fido2/data_migration.c\<close>) and the start-up.
\<close>

text \<open>What the firmware runs on: the cryptographic submodules, the random stream, the flash hardware; the
  constants and the attestation page of the device; the CBOR encoder's bytes for a sequence of calls
  and its error codes on a buffer of a given size; what is in memory at address 0 and in the
  uninitialised parts of the stack; the version numbers; \<open>qsort\<close>, of which the C standard promises little
  (\<open>qsort_ok\<close> below).\<close>

record environ =
  env_lib :: crypto_lib
  env_rng :: "nat \<Rightarrow> u8"
  env_prog :: prog_fn
  env_aaguid :: bytes
  env_cert :: bytes
  env_att_key :: bytes
  env_enc :: "enc list \<Rightarrow> bytes"
  env_enc_err :: "nat \<Rightarrow> enc_err"
  env_null :: bytes
  env_stack :: bytes
  env_version :: "u8 \<times> u8 \<times> u8"
  env_qsort :: "(cred_desc \<Rightarrow> cred_desc \<Rightarrow> int) \<Rightarrow> cred_desc list \<Rightarrow> cred_desc list"

text \<open>The static variables of \<open>ctap_cred_mgmt\<close>.\<close>

record cm_cursor =
  cs_rp_ind :: int
  cs_rk_ind :: int
  cs_rp_auth :: bool
  cs_rk_auth :: bool

text \<open>\<open>d_sc\<close> is the static variable of the signature counter, \<open>d_up_off\<close> is \<open>_up_disabled\<close>.\<close>

record ctap_dev =
  d_st :: auth_state
  d_flash :: flash
  d_pin_token :: bytes
  d_ka_priv :: bytes
  d_ka_pub :: bytes
  d_boot :: u8
  d_ga :: ga_state
  d_cr :: crypto_state
  d_sc :: u32
  d_cm :: cm_cursor
  d_up_off :: bool

text \<open>A run that ends in \<open>exit(1)\<close> or a failed assertion is \<open>Inl\<close> with the device as it was then: the flash
  survives. \<open>halt\<close> ends it when a call of the cryptographic layer did.\<close>

definition halt :: "ctap_dev \<Rightarrow> 'a option \<Rightarrow> ctap_dev + 'a" where
  "halt d m = (case m of None \<Rightarrow> Inl d | Some x \<Rightarrow> Inr x)"

lemma halt_simps [simp]: "halt d None = Inl d" "halt d (Some x) = Inr x"
  by (simp_all add: halt_def)

definition PIN_BOOT_ATTEMPTS :: u8 where "PIN_BOOT_ATTEMPTS = 3"
definition PIN_TOKEN_SIZE :: nat where "PIN_TOKEN_SIZE = 16"

subsection \<open>Random numbers and saving\<close>

definition ctap_generate_rng :: "environ \<Rightarrow> nat \<Rightarrow> ctap_dev \<Rightarrow> bytes \<times> ctap_dev" where
  "ctap_generate_rng env n d =
     (let p = c_rng (d_cr d) in
      (map (\<lambda>i. env_rng env (p + i)) [0..<n], d\<lparr>d_cr := (d_cr d)\<lparr>c_rng := p + n\<rparr>\<rparr>))"

definition ctap_flush_state :: "environ \<Rightarrow> ctap_dev \<Rightarrow> ctap_dev" where
  "ctap_flush_state env d =
     d\<lparr>d_flash := authenticator_write_state (env_prog env) (d_st d) (d_flash d)\<rparr>"

definition ctap_reset_key_agreement :: "environ \<Rightarrow> ctap_dev \<Rightarrow> ctap_dev" where
  "ctap_reset_key_agreement env d = (let (k, d) = ctap_generate_rng env 32 d in d\<lparr>d_ka_priv := k\<rparr>)"

definition state_ff :: auth_state where
  "state_ff = state_of_image (replicate STATE_SIZE 0xff)"

definition ctap_state_init :: "environ \<Rightarrow> ctap_dev \<Rightarrow> ctap_dev" where
  "ctap_state_init env d =
     (let d = d\<lparr>d_st := state_ff\<rparr>;
          (ks, d) = ctap_generate_rng env KEY_SPACE_BYTES d;
          d = d\<lparr>d_st := (d_st d)\<lparr>as_key_space := ks, as_init := INITIALIZED_MARKER,
                 as_tries := PIN_LOCKOUT_ATTEMPTS, as_pin_set := 0, as_rk_stored := 0,
                 as_version := STATE_VERSION\<rparr>\<rparr>;
          d = d\<lparr>d_flash := ctap_reset_rk (d_flash d)\<rparr>;
          (salt, d) = ctap_generate_rng env 32 d
      in d\<lparr>d_st := (d_st d)\<lparr>as_salt := salt\<rparr>\<rparr>)"

definition ctap_load_external_keys :: "environ \<Rightarrow> bytes \<Rightarrow> ctap_dev \<Rightarrow> ctap_dev" where
  "ctap_load_external_keys env keybytes d =
     (let d = d\<lparr>d_st := (d_st d)\<lparr>as_key_space := take KEY_SPACE_BYTES keybytes\<rparr>\<rparr>;
          d = ctap_flush_state env d
      in d\<lparr>d_cr := crypto_load_master_secret (as_key_space (d_st d)) (d_cr d)\<rparr>)"

subsection \<open>PIN attempts\<close>

definition ctap_is_pin_set :: "ctap_dev \<Rightarrow> bool" where
  "ctap_is_pin_set d \<longleftrightarrow> as_pin_set (d_st d) = 1"

definition ctap_device_locked :: "ctap_dev \<Rightarrow> bool" where
  "ctap_device_locked d \<longleftrightarrow> sint (as_tries (d_st d)) \<le> 0"

definition ctap_device_boot_locked :: "ctap_dev \<Rightarrow> bool" where
  "ctap_device_boot_locked d \<longleftrightarrow> sint (d_boot d) \<le> 0"

definition ctap_leftover_pin_attempts :: "ctap_dev \<Rightarrow> int" where
  "ctap_leftover_pin_attempts d = sint (as_tries (d_st d))"

definition lock_device_permanently :: "environ \<Rightarrow> ctap_dev \<Rightarrow> ctap_dev" where
  "lock_device_permanently env d =
     ctap_flush_state env (d\<lparr>d_pin_token := zeros PIN_TOKEN_SIZE,
                             d_st := (d_st d)\<lparr>as_pin_hash := zeros 32\<rparr>\<rparr>)"

definition ctap_decrement_pin_attempts :: "environ \<Rightarrow> ctap_dev \<Rightarrow> u8 \<times> ctap_dev" where
  "ctap_decrement_pin_attempts env d =
     (let d = (if sint (d_boot d) > 0 then d\<lparr>d_boot := d_boot d - 1\<rparr> else d) in
      if \<not> ctap_device_locked d then
        let d = d\<lparr>d_st := (d_st d)\<lparr>as_tries := as_tries (d_st d) - 1\<rparr>\<rparr>;
            d = ctap_flush_state env d
        in (0, if ctap_device_locked d then lock_device_permanently env d else d)
      else (-1, d))"

definition ctap_reset_pin_attempts :: "environ \<Rightarrow> ctap_dev \<Rightarrow> ctap_dev" where
  "ctap_reset_pin_attempts env d =
     ctap_flush_state env (d\<lparr>d_st := (d_st d)\<lparr>as_tries := PIN_LOCKOUT_ATTEMPTS\<rparr>, d_boot := PIN_BOOT_ATTEMPTS\<rparr>)"

definition ctap_increment_rk_store :: "environ \<Rightarrow> ctap_dev \<Rightarrow> ctap_dev" where
  "ctap_increment_rk_store env d =
     ctap_flush_state env (d\<lparr>d_st := (d_st d)\<lparr>as_rk_stored := as_rk_stored (d_st d) + 1\<rparr>\<rparr>)"

definition ctap_decrement_rk_store :: "environ \<Rightarrow> ctap_dev \<Rightarrow> ctap_dev" where
  "ctap_decrement_rk_store env d =
     ctap_flush_state env (d\<lparr>d_st := (d_st d)\<lparr>as_rk_stored := as_rk_stored (d_st d) - 1\<rparr>\<rparr>)"

subsection \<open>The external key store\<close>

text \<open>\<open>MAX_KEYS\<close> is 1, so \<open>key_lens\<close> is one number.\<close>

definition MAX_KEYS :: nat where "MAX_KEYS = 1"
definition ERR_NO_KEY_SPACE :: int where "ERR_NO_KEY_SPACE = -1"
definition ERR_KEY_SPACE_TAKEN :: int where "ERR_KEY_SPACE_TAKEN = -2"
definition ERR_KEY_SPACE_EMPTY :: int where "ERR_KEY_SPACE_EMPTY = -2"

definition key_lens :: "ctap_dev \<Rightarrow> u16 list" where
  "key_lens d = [as_key_len (d_st d)]"

definition ctap_keys_stored :: "ctap_dev \<Rightarrow> nat" where
  "ctap_keys_stored d = length (takeWhile (\<lambda>l. l \<noteq> 0xffff) (key_lens d))"

definition key_addr_offset :: "nat \<Rightarrow> ctap_dev \<Rightarrow> u16" where
  "key_addr_offset index d = sum_list (filter (\<lambda>l. l \<noteq> 0xffff) (take index (key_lens d)))"

definition ctap_key_len :: "nat \<Rightarrow> ctap_dev \<Rightarrow> u16" where
  "ctap_key_len index d =
     (if index \<ge> ctap_keys_stored d \<or> index \<ge> MAX_KEYS then 0
      else if key_lens d ! index = 0xffff then 0 else key_lens d ! index)"

definition ctap_store_key :: "environ \<Rightarrow> nat \<Rightarrow> bytes \<Rightarrow> u16 \<Rightarrow> ctap_dev \<Rightarrow> int \<times> ctap_dev" where
  "ctap_store_key env index key len d =
     (if ctap_keys_stored d \<ge> MAX_KEYS \<or> index \<ge> MAX_KEYS \<or> len = 0 then (ERR_NO_KEY_SPACE, d)
      else if key_lens d ! index \<noteq> 0xffff then (ERR_KEY_SPACE_TAKEN, d)
      else
        let offset = unat (key_addr_offset index d) in
        if offset + unat len > KEY_SPACE_BYTES then (ERR_NO_KEY_SPACE, d)
        else
          let d = d\<lparr>d_st := (d_st d)\<lparr>as_key_len := len,
                   as_key_space := blit (as_key_space (d_st d)) offset (take (unat len) key)\<rparr>\<rparr>
          in (0, ctap_flush_state env d))"

definition ctap_load_key :: "nat \<Rightarrow> ctap_dev \<Rightarrow> int + bytes" where
  "ctap_load_key index d =
     (if index \<ge> ctap_keys_stored d \<or> index \<ge> MAX_KEYS then Inl ERR_NO_KEY_SPACE
      else if key_lens d ! index = 0xffff then Inl ERR_KEY_SPACE_EMPTY
      else
        let offset = unat (key_addr_offset index d); len = unat (ctap_key_len index d) in
        if offset + len > KEY_SPACE_BYTES then Inl ERR_NO_KEY_SPACE
        else Inr (block (as_key_space (d_st d)) offset len))"

subsection \<open>Reset\<close>

definition ctap_reset_state :: "ctap_dev \<Rightarrow> ctap_dev" where
  "ctap_reset_state d = d\<lparr>d_ga := ga_state_zero\<rparr>"

definition ctap_reset :: "environ \<Rightarrow> ctap_dev \<Rightarrow> ctap_dev" where
  "ctap_reset env d =
     (let d = ctap_state_init env d;
          d = ctap_flush_state env d;
          (t, d) = ctap_generate_rng env PIN_TOKEN_SIZE d;
          d = d\<lparr>d_pin_token := t\<rparr>;
          d = ctap_reset_state d;
          d = ctap_reset_key_agreement env d
      in d\<lparr>d_cr := crypto_load_master_secret (as_key_space (d_st d)) (d_cr d)\<rparr>)"

subsection \<open>Migration\<close>

text \<open>The old format 0xFF overlays the image of the new one: a 64-byte PIN where hash and salt are now, its
  length in place of \<open>_reserved\<close>, and the version byte in its padding. \<open>prev\<close> is that image.\<close>

definition hash2 :: "bytes \<Rightarrow> bytes \<Rightarrow> crypto_state \<Rightarrow> bytes \<times> crypto_state" where
  "hash2 pin salt cr =
     (let cr = crypto_sha256_init cr;
          cr = crypto_sha256_update pin cr;
          (h, cr) = crypto_sha256_final cr;
          cr = crypto_sha256_init cr;
          cr = crypto_sha256_update (take 16 h) cr;
          cr = crypto_sha256_update salt cr
      in crypto_sha256_final cr)"

definition migrate_from_FF_to_01 ::
    "environ \<Rightarrow> bytes \<Rightarrow> auth_state \<Rightarrow> ctap_dev \<Rightarrow> ctap_dev + (bool \<times> auth_state \<times> ctap_dev)" where
  "migrate_from_FF_to_01 env prev tmp d =
     (if as_version tmp \<noteq> 0xff then Inr (False, tmp, d)
      else
        let (salt, d) = ctap_generate_rng env 32 d;
            tmp = tmp\<lparr>as_salt := salt\<rparr>;
            prev_pin_set = prev ! 1;
            prev_len = le32 (prev ! 68) (prev ! 69) (prev ! 70) (prev ! 71);
            (tmp, d) = (if prev_pin_set \<noteq> 0 then
               let (h, cr) = hash2 (take (unat prev_len) (drop 2 prev)) (as_salt tmp) (d_cr d)
               in (tmp\<lparr>as_pin_hash := h\<rparr>, d\<lparr>d_cr := cr\<rparr>) else (tmp, d))
        in if as_reserved tmp \<noteq> prev_len then Inl d
           else
             let tmp = tmp\<lparr>as_reserved := 0xff, as_version := 1\<rparr> in
             if prev ! 0 = as_init tmp \<and> prev ! 1 = as_pin_set tmp \<and> prev ! 72 = as_tries tmp
                \<and> le16 (prev ! 74) (prev ! 75) = as_rk_stored tmp \<and> le16 (prev ! 76) (prev ! 77) = as_key_len tmp
                \<and> block prev 78 128 = as_key_space tmp \<and> as_version tmp \<noteq> 0xff
             then Inr (True, tmp, d) else Inl d)"

definition save_migrated_state :: "environ \<Rightarrow> auth_state \<Rightarrow> ctap_dev \<Rightarrow> ctap_dev" where
  "save_migrated_state env tmp d =
     d\<lparr>d_st := tmp, d_flash := authenticator_write_state (env_prog env) tmp (d_flash d)\<rparr>"

text \<open>\<open>state_current\<close> is \<open>&STATE\<close>.\<close>

definition do_migration_if_required :: "environ \<Rightarrow> ctap_dev \<Rightarrow> ctap_dev + ctap_dev" where
  "do_migration_if_required env d =
     (if as_init (d_st d) = 0 \<or> as_version (d_st d) = STATE_VERSION then Inr d
      else
        let (_, state_previous, f) = authenticator_read_state (env_prog env) (d_flash d);
            (_, state_tmp, f) = authenticator_read_state (env_prog env) f;
            d = d\<lparr>d_flash := f\<rparr> in
        if as_version (d_st d) = 0xff then
          seqE (migrate_from_FF_to_01 env (state_image state_previous) state_tmp d)
            (\<lambda>(success, state_tmp, d).
               if \<not> success then Inr d
               else
                 let d = save_migrated_state env state_tmp d in
                 if as_version (d_st d) = STATE_VERSION then Inr d else Inl d)
        else if as_version (d_st d) = 1 then
          let d = d\<lparr>d_flash := ctap_reset_rk (d_flash d), d_st := (d_st d)\<lparr>as_version := 2\<rparr>\<rparr>;
              d = save_migrated_state env (d_st d) d
          in if as_version (d_st d) = STATE_VERSION then Inr d else Inl d
        else Inl d)"

subsection \<open>Start-up\<close>

text \<open>RAM at power-up: the initialised statics; the random stream goes on.\<close>

definition power_up :: "flash \<Rightarrow> nat \<Rightarrow> ctap_dev" where
  "power_up f p =
     \<lparr>d_st = state_of_image (zeros STATE_SIZE), d_flash = f, d_pin_token = zeros 16, d_ka_priv = zeros 32,
      d_ka_pub = zeros 64, d_boot = PIN_BOOT_ATTEMPTS, d_ga = ga_state_zero,
      d_cr = \<lparr>c_sha = \<lparr>sc_data = zeros 64, sc_datalen = 0, sc_bitlen = 0, sc_state = replicate 8 0\<rparr>,
        c_master = zeros 64, c_transport = zeros 32, c_signing_key = [], c_key_len = 0, c_curve = P256,
        c_aes_key = [], c_aes_iv = zeros 16, c_rng = p\<rparr>,
      d_sc = 0, d_cm = \<lparr>cs_rp_ind = 0, cs_rk_ind = 0, cs_rp_auth = False, cs_rk_auth = False\<rparr>, d_up_off = False\<rparr>"

definition ctap_init :: "environ \<Rightarrow> ctap_dev \<Rightarrow> ctap_dev + ctap_dev" where
  "ctap_init env d =
     (let d = d\<lparr>d_cr := crypto_ecc256_init (d_cr d)\<rparr>;
          (is_init, st, f) = authenticator_read_state (env_prog env) (d_flash d);
          d = d\<lparr>d_st := st, d_flash := f\<rparr>;
          d = (if is_init \<noteq> 0 then d else ctap_flush_state env (ctap_state_init env d))
      in seqE (do_migration_if_required env d) (\<lambda>d.
        let d = d\<lparr>d_cr := crypto_load_master_secret (as_key_space (d_st d)) (d_cr d)\<rparr>;
            (t, d) = ctap_generate_rng env PIN_TOKEN_SIZE d;
            d = d\<lparr>d_pin_token := t\<rparr>
        in Inr (ctap_reset_key_agreement env d)))"

subsection \<open>Invariants and helpers\<close>

definition dev_ok :: "ctap_dev \<Rightarrow> bool" where
  "dev_ok d \<longleftrightarrow> state_wf (d_st d) \<and> as_init (d_st d) = INITIALIZED_MARKER \<and> as_version (d_st d) = STATE_VERSION
     \<and> stored_twice (d_st d) (d_flash d) \<and> crypto_ok (d_cr d) \<and> length (d_pin_token d) = 16"

definition env_ok :: "environ \<Rightarrow> bool" where
  "env_ok env \<longleftrightarrow> prog_ok (env_prog env)"

lemma rng_len [simp]: "length (fst (ctap_generate_rng env n d)) = n"
  by (simp add: ctap_generate_rng_def Let_def)

lemma rng_frame [simp]:
  "d_st (snd (ctap_generate_rng env n d)) = d_st d" "d_flash (snd (ctap_generate_rng env n d)) = d_flash d"
  "d_boot (snd (ctap_generate_rng env n d)) = d_boot d" "d_pin_token (snd (ctap_generate_rng env n d)) = d_pin_token d"
  "crypto_ok (d_cr (snd (ctap_generate_rng env n d))) = crypto_ok (d_cr d)"
  "c_master (d_cr (snd (ctap_generate_rng env n d))) = c_master (d_cr d)"
  "c_transport (d_cr (snd (ctap_generate_rng env n d))) = c_transport (d_cr d)"
  "d_ga (snd (ctap_generate_rng env n d)) = d_ga d" "c_sha (d_cr (snd (ctap_generate_rng env n d))) = c_sha (d_cr d)"
  by (simp_all add: ctap_generate_rng_def Let_def crypto_ok_def)

lemma flush_frame [simp]:
  "d_st (ctap_flush_state env d) = d_st d" "d_boot (ctap_flush_state env d) = d_boot d"
  "d_pin_token (ctap_flush_state env d) = d_pin_token d" "d_cr (ctap_flush_state env d) = d_cr d"
  "d_ka_priv (ctap_flush_state env d) = d_ka_priv d" "d_ga (ctap_flush_state env d) = d_ga d"
  by (simp_all add: ctap_flush_state_def)

lemma flush_stored: "env_ok env \<Longrightarrow> state_wf (d_st d) \<Longrightarrow> stored_twice (d_st d) (d_flash (ctap_flush_state env d))"
  by (simp add: ctap_flush_state_def write_state_stored env_ok_def)

lemma ka_frame [simp]:
  "d_st (ctap_reset_key_agreement env d) = d_st d" "d_flash (ctap_reset_key_agreement env d) = d_flash d"
  "d_boot (ctap_reset_key_agreement env d) = d_boot d" "d_pin_token (ctap_reset_key_agreement env d) = d_pin_token d"
  "crypto_ok (d_cr (ctap_reset_key_agreement env d)) = crypto_ok (d_cr d)"
  "c_master (d_cr (ctap_reset_key_agreement env d)) = c_master (d_cr d)"
  "c_transport (d_cr (ctap_reset_key_agreement env d)) = c_transport (d_cr d)"
  "d_ga (ctap_reset_key_agreement env d) = d_ga d" "c_sha (d_cr (ctap_reset_key_agreement env d)) = c_sha (d_cr d)"
  by (simp_all add: ctap_reset_key_agreement_def split_beta)

lemma dev_ok_ka [simp]: "dev_ok (ctap_reset_key_agreement env d) = dev_ok d"
  by (simp add: dev_ok_def)

lemma load_master_ok:
  "crypto_ok cr \<Longrightarrow> length ks = KEY_SPACE_BYTES \<Longrightarrow> crypto_ok (crypto_load_master_secret ks cr)"
  by (simp add: crypto_ok_def crypto_load_master_secret_def KEY_SPACE_BYTES_def)

text \<open>A state write touches no other page, so no resident key.\<close>

lemma state_write_page:
  assumes hw: "prog_ok prog" and wf: "state_wf s" and q: "q \<noteq> STATE1_PAGE" "q \<noteq> STATE2_PAGE"
  shows "flash_read (authenticator_write_state prog s f) (flash_addr q) FLASH_PAGE_SIZE = flash_read f (flash_addr q) FLASH_PAGE_SIZE"
proof -
  let ?one = "\<lambda>p f. flash_run prog (flash_write_loop (flash_addr p) (take (8 * 26) (state_image s))) (flash_erase_page p f)"
  have a: "flash_addr p mod 8 = 0" for p by (simp add: flash_addr_def FLASH_PAGE_SIZE_def mod_mult_right_eq[symmetric])
  have w: "authenticator_write_state prog s f = ?one STATE2_PAGE (?one STATE1_PAGE f)"
    using length_state_image[OF wf] a
    by (simp add: authenticator_write_state_def authenticator_write_ops_def flash_write_ops_def STATE_SIZE_def)
  have r: "flash_read (?one p g) (flash_addr q) FLASH_PAGE_SIZE = flash_read g (flash_addr q) FLASH_PAGE_SIZE"
    if "q \<noteq> p" for p q g by (rule partial_page(2)[OF hw wf refl that order_refl])
  show ?thesis unfolding w using r q by simp
qed

lemma state_write_cell:
  assumes "prog_ok prog" "state_wf s" "x < flash_addr STATE2_PAGE"
  shows "authenticator_write_state prog s f x = f x"
proof -
  let ?q = "x div FLASH_PAGE_SIZE" and ?o = "x mod FLASH_PAGE_SIZE"
  have q: "?q \<noteq> STATE1_PAGE" "?q \<noteq> STATE2_PAGE" using assms(3) by (auto simp: page_defs)
  have o: "?o < FLASH_PAGE_SIZE" "flash_addr ?q + ?o = x" by (simp_all add: flash_addr_def FLASH_PAGE_SIZE_def)
  show ?thesis
    using arg_cong[OF state_write_page[OF assms(1,2) q, of f], of "\<lambda>l. l ! ?o"] o by (simp add: flash_read_nth)
qed

lemma state_write_rk:
  assumes hw: "prog_ok prog" and wf: "state_wf s"
  shows "rk_slots (authenticator_write_state prog s f) = rk_slots f"
proof -
  have sz: "RK_SIZE \<le> FLASH_PAGE_SIZE" by (simp add: RK_SIZE_def FLASH_PAGE_SIZE_def)
  have "ctap_load_rk (authenticator_write_state prog s f) i rk_blank = ctap_load_rk f i rk_blank" for i
  proof (cases "rk_page i < RK_NUM_PAGES")
    case True
    let ?q = "rk_page i + RK_START_PAGE"
    have q: "?q \<noteq> STATE1_PAGE" "?q \<noteq> STATE2_PAGE" using True by (simp_all add: page_defs)
    have "flash_read (authenticator_write_state prog s f) (flash_addr ?q) FLASH_PAGE_SIZE
        = flash_read f (flash_addr ?q) FLASH_PAGE_SIZE" by (rule state_write_page[OF hw wf q])
    then have "flash_read (authenticator_write_state prog s f) (flash_addr ?q + rk_offset i) RK_SIZE
        = flash_read f (flash_addr ?q + rk_offset i) RK_SIZE"
      by (simp add: flash_read_block[OF rk_offset_fits])
    then show ?thesis by (simp add: ctap_load_rk_def)
  qed (simp add: ctap_load_rk_def)
  then show ?thesis by (simp add: rk_slots_def)
qed

lemma flush_rk: "env_ok env \<Longrightarrow> state_wf (d_st d) \<Longrightarrow> rk_slots (d_flash (ctap_flush_state env d)) = rk_slots (d_flash d)"
  by (simp add: ctap_flush_state_def state_write_rk env_ok_def)

subsection \<open>Reset and start-up\<close>

definition fresh_state :: "environ \<Rightarrow> nat \<Rightarrow> auth_state" where
  "fresh_state env p = state_ff\<lparr>as_key_space := map (\<lambda>i. env_rng env (p + i)) [0..<KEY_SPACE_BYTES],
     as_init := INITIALIZED_MARKER, as_tries := PIN_LOCKOUT_ATTEMPTS, as_pin_set := 0, as_rk_stored := 0,
     as_version := STATE_VERSION, as_salt := map (\<lambda>i. env_rng env (p + KEY_SPACE_BYTES + i)) [0..<32]\<rparr>"

lemma fresh_state_wf: "state_wf (fresh_state env p)" "as_init (fresh_state env p) = INITIALIZED_MARKER"
    "as_version (fresh_state env p) = STATE_VERSION"
  by (simp_all add: fresh_state_def state_wf_def state_ff_def state_of_image_def block_def STATE_SIZE_def)

lemma state_init_fresh:
  "d_st (ctap_state_init env d) = fresh_state env (c_rng (d_cr d))"
  "d_flash (ctap_state_init env d) = ctap_reset_rk (d_flash d)"
  "crypto_ok (d_cr (ctap_state_init env d)) = crypto_ok (d_cr d)"
  "d_boot (ctap_state_init env d) = d_boot d"
  by (simp_all add: ctap_state_init_def ctap_generate_rng_def fresh_state_def Let_def crypto_ok_def)

lemma init_stored:
  assumes st: "stored_twice s f" "state_wf s" "as_init s = INITIALIZED_MARKER" "as_version s = STATE_VERSION"
  shows "\<exists>d. ctap_init env (power_up f p) = Inr d \<and> d_st d = s \<and> d_flash d = f \<and> d_boot d = PIN_BOOT_ATTEMPTS
     \<and> c_master (d_cr d) = take 64 (as_key_space s) \<and> c_transport (d_cr d) = block (as_key_space s) 64 32
     \<and> d_ga d = ga_state_zero \<and> crypto_ok (d_cr d) \<and> length (d_pin_token d) = 16"
proof -
  have "length (as_key_space s) = 128" using st(2) by (simp add: state_wf_def KEY_SPACE_BYTES_def)
  then show ?thesis
    using stored_found[OF st(1-3), of "env_prog env"] st(4)
    by (simp add: ctap_init_def power_up_def do_migration_if_required_def split_beta Let_def crypto_ecc256_init_def
        crypto_load_master_secret_def PIN_TOKEN_SIZE_def crypto_ok_def block_def)
qed

lemma reset_facts:
  assumes "env_ok env" "crypto_ok (d_cr d)"
  shows "dev_ok (ctap_reset env d) \<and> d_st (ctap_reset env d) = fresh_state env (c_rng (d_cr d))
    \<and> rk_slots (d_flash (ctap_reset env d)) = replicate 50 rk_blank
    \<and> d_ga (ctap_reset env d) = ga_state_zero \<and> d_boot (ctap_reset env d) = d_boot d
    \<and> (\<exists>d'. ctap_init env (power_up (d_flash (ctap_reset env d)) p) = Inr d'
         \<and> d_st d' = d_st (ctap_reset env d) \<and> \<not> ctap_is_pin_set d' \<and> ctap_leftover_pin_attempts d' = 8
         \<and> c_master (d_cr d') = c_master (d_cr (ctap_reset env d)))"
proof -
  let ?i = "ctap_state_init env d" and ?r = "ctap_reset env d"
  let ?s = "fresh_state env (c_rng (d_cr d))"
  have fl: "d_flash ?r = d_flash (ctap_flush_state env ?i)"
    by (simp add: ctap_reset_def split_beta Let_def ctap_reset_state_def)
  have st: "d_st ?r = ?s" by (simp add: ctap_reset_def split_beta Let_def ctap_reset_state_def state_init_fresh)
  have wf: "state_wf (d_st ?i)" by (simp add: state_init_fresh fresh_state_wf)
  have tw: "stored_twice ?s (d_flash ?r)"
    using flush_stored[OF assms(1) wf] by (simp add: fl state_init_fresh)
  have rk: "rk_slots (d_flash ?r) = replicate 50 rk_blank"
    using flush_rk[OF assms(1) wf] by (simp add: fl state_init_fresh slots_reset)
  have ks: "length (as_key_space ?s) = KEY_SPACE_BYTES" using fresh_state_wf(1) by (simp add: state_wf_def)
  have cm: "c_master (d_cr ?r) = take 64 (as_key_space ?s)"
    by (simp add: ctap_reset_def split_beta Let_def ctap_reset_state_def state_init_fresh crypto_load_master_secret_def block_def)
  have ok: "crypto_ok (d_cr ?r)" "length (d_pin_token ?r) = 16" "d_ga ?r = ga_state_zero"
    using assms(2) ks by (simp_all add: ctap_reset_def split_beta Let_def ctap_reset_state_def state_init_fresh load_master_ok
        PIN_TOKEN_SIZE_def)
  have bt: "d_boot ?r = d_boot d"
    by (simp add: ctap_reset_def split_beta Let_def ctap_reset_state_def state_init_fresh)
  have "\<not> as_pin_set ?s = 1" "sint (as_tries ?s) = 8" by (simp_all add: fresh_state_def PIN_LOCKOUT_ATTEMPTS_def)
  then show ?thesis
    using init_stored[OF tw fresh_state_wf, of env p] st tw rk ok cm bt
    by (auto simp: dev_ok_def fresh_state_wf ctap_is_pin_set_def ctap_leftover_pin_attempts_def)
qed

text \<open>C19 (functional). A reset leaves no credential, no PIN, eight attempts and a fresh master secret, on the
  device and in both flash pages: the next power-up starts with that very state and key.\<close>

theorem reset_then_power_up:
  assumes "env_ok env" "crypto_ok (d_cr d)"
  shows "dev_ok (ctap_reset env d) \<and> d_st (ctap_reset env d) = fresh_state env (c_rng (d_cr d))
    \<and> rk_slots (d_flash (ctap_reset env d)) = replicate 50 rk_blank
    \<and> d_ga (ctap_reset env d) = ga_state_zero
    \<and> (\<exists>d'. ctap_init env (power_up (d_flash (ctap_reset env d)) p) = Inr d'
         \<and> d_st d' = d_st (ctap_reset env d) \<and> \<not> ctap_is_pin_set d' \<and> ctap_leftover_pin_attempts d' = 8
         \<and> c_master (d_cr d') = c_master (d_cr (ctap_reset env d)))"
  using reset_facts[OF assms] by blast

text \<open>\<open>qsort\<close> permutes, and sorts when the comparison is a total preorder of the elements; the order of equal
  elements is open. Insertion sort is an instance.\<close>

definition cmp_total :: "('a \<Rightarrow> 'a \<Rightarrow> int) \<Rightarrow> 'a list \<Rightarrow> bool" where
  "cmp_total cmp xs \<longleftrightarrow> (\<forall>a\<in>set xs. \<forall>b\<in>set xs. (cmp a b \<le> 0 \<or> cmp b a \<le> 0)
     \<and> (\<forall>c\<in>set xs. cmp a b \<le> 0 \<and> cmp b c \<le> 0 \<longrightarrow> cmp a c \<le> 0))"

definition qsort_ok :: "(('a \<Rightarrow> 'a \<Rightarrow> int) \<Rightarrow> 'a list \<Rightarrow> 'a list) \<Rightarrow> bool" where
  "qsort_ok q \<longleftrightarrow> (\<forall>cmp xs. (\<forall>x. count_list (q cmp xs) x = count_list xs x) \<and> (cmp_total cmp xs \<longrightarrow> sorted_wrt (\<lambda>a b. cmp a b \<le> 0) (q cmp xs)))"

fun cmp_insert :: "('a \<Rightarrow> 'a \<Rightarrow> int) \<Rightarrow> 'a \<Rightarrow> 'a list \<Rightarrow> 'a list" where
  "cmp_insert cmp x [] = [x]"
| "cmp_insert cmp x (y # ys) = (if cmp x y \<le> 0 then x # y # ys else y # cmp_insert cmp x ys)"

definition cmp_isort :: "('a \<Rightarrow> 'a \<Rightarrow> int) \<Rightarrow> 'a list \<Rightarrow> 'a list" where
  "cmp_isort cmp xs = foldr (cmp_insert cmp) xs []"

lemma cmp_insert_count [simp]: "count_list (cmp_insert cmp x xs) y = (if x = y then 1 else 0) + count_list xs y"
  by (induction xs) auto

lemma count_list_set: "(\<And>x. count_list xs x = count_list ys x) \<Longrightarrow> set xs = set ys"
  by (metis count_list_0_iff subsetI subset_antisym)

lemma cmp_insert_set [simp]: "set (cmp_insert cmp x xs) = insert x (set xs)"
  by (induction xs) auto

lemma cmp_total_mono: "cmp_total cmp xs \<Longrightarrow> set ys \<subseteq> set xs \<Longrightarrow> cmp_total cmp ys"
  unfolding cmp_total_def by blast

lemma cmp_totalD:
  "cmp_total cmp xs \<Longrightarrow> a \<in> set xs \<Longrightarrow> b \<in> set xs \<Longrightarrow> c \<in> set xs \<Longrightarrow> cmp a b \<le> 0 \<Longrightarrow> cmp b c \<le> 0 \<Longrightarrow> cmp a c \<le> 0"
  unfolding cmp_total_def by blast

lemma cmp_insert_sorted:
  "cmp_total cmp (x # xs) \<Longrightarrow> sorted_wrt (\<lambda>a b. cmp a b \<le> 0) xs \<Longrightarrow> sorted_wrt (\<lambda>a b. cmp a b \<le> 0) (cmp_insert cmp x xs)"
proof (induction xs)
  case (Cons y ys)
  have t: "cmp_total cmp (x # ys)" by (rule cmp_total_mono[OF Cons(2)]) auto
  have tr: "cmp x z \<le> 0" if "cmp x y \<le> 0" "z \<in> set ys" for z
    by (rule cmp_totalD[OF Cons(2), of x y z]) (use that Cons(3) in auto)
  have xy: "cmp x y \<le> 0 \<or> cmp y x \<le> 0" using Cons(2) by (simp add: cmp_total_def)
  show ?case using Cons(1)[OF t] Cons(3) xy tr by auto
qed simp

lemma cmp_isort_ok [simp]: "qsort_ok (cmp_isort :: ('b \<Rightarrow> 'b \<Rightarrow> int) \<Rightarrow> 'b list \<Rightarrow> 'b list)"
proof -
  have m: "count_list (cmp_isort cmp xs) y = count_list xs y" for cmp :: "'b \<Rightarrow> 'b \<Rightarrow> int" and xs y
    by (induction xs) (simp_all add: cmp_isort_def)
  have "sorted_wrt (\<lambda>a b. cmp a b \<le> 0) (cmp_isort cmp xs)" if "cmp_total cmp xs" for cmp :: "'b \<Rightarrow> 'b \<Rightarrow> int" and xs
    using that
  proof (induction xs)
    case (Cons x xs)
    have s: "set (cmp_isort cmp xs) = set xs" using m[of cmp xs] by (intro count_list_set)
    have "cmp_total cmp xs" "cmp_total cmp (x # cmp_isort cmp xs)"
      by (rule cmp_total_mono[OF Cons(2)]; use s in auto)+
    then show ?case using Cons(1) cmp_insert_sorted[of cmp x "cmp_isort cmp xs"] by (simp add: cmp_isort_def)
  qed (simp add: cmp_isort_def)
  then show ?thesis using m by (simp add: qsort_ok_def)
qed

definition env0 :: environ where
  "env0 = \<lparr>env_lib = toy_lib, env_rng = (\<lambda>i. of_nat i), env_prog = stm_prog,
     env_aaguid = zeros 16, env_cert = replicate 500 0x30, env_att_key = replicate 32 9,
     env_enc = enc_bytes, env_enc_err = (\<lambda>n tr x. if length (enc_bytes (tr @ [x])) \<le> n then 0 else 1), env_null = zeros 512,
     env_stack = zeros 512, env_version = (2, 4, 1), env_qsort = cmp_isort\<rparr>"

lemma env0_ok [simp]: "env_ok env0"
  by (simp add: env_ok_def env0_def stm_prog_ok)

definition dev0 :: ctap_dev where
  "dev0 = ctap_reset env0 (power_up (\<lambda>_. 0xff) 0)"

lemma power_up_ok [simp]: "crypto_ok (d_cr (power_up f p))"
  by (simp add: power_up_def crypto_ok_def)

lemma dev0_ok: "dev_ok dev0" "\<not> ctap_is_pin_set dev0" "ctap_leftover_pin_attempts dev0 = 8" "sint (d_boot dev0) = 3"
proof -
  note r = reset_facts[OF env0_ok power_up_ok, of "\<lambda>_. 0xff" 0, folded dev0_def]
  show "dev_ok dev0" using r by blast
  show "sint (d_boot dev0) = 3" using r by (simp add: power_up_def PIN_BOOT_ATTEMPTS_def)
  show "\<not> ctap_is_pin_set dev0" using r by (auto simp: ctap_is_pin_set_def fresh_state_def)
  have "d_st dev0 = fresh_state env0 (c_rng (d_cr (power_up (\<lambda>_. 0xff) 0)))" using r by blast
  then show "ctap_leftover_pin_attempts dev0 = 8"
    by (simp add: ctap_leftover_pin_attempts_def fresh_state_def PIN_LOCKOUT_ATTEMPTS_def)
qed

lemma reset_rk_blank: "ctap_reset_rk (\<lambda>_. 0xff) = (\<lambda>_. 0xff)"
proof -
  have "flash_erase_page p (\<lambda>_. 0xff) = (\<lambda>_. 0xff)" for p by (simp add: flash_erase_page_def)
  then have "fold (\<lambda>i. flash_erase_page (RK_START_PAGE + i)) xs (\<lambda>_. 0xff) = (\<lambda>_. 0xff)" for xs
    by (induction xs) simp_all
  then show ?thesis by (simp add: ctap_reset_rk_def)
qed

text \<open>Only the two state pages of the example device are written.\<close>

lemma dev0_blank: "x < flash_addr STATE2_PAGE \<Longrightarrow> d_flash dev0 x = 0xff"
proof -
  assume x: "x < flash_addr STATE2_PAGE"
  let ?i = "ctap_state_init env0 (power_up (\<lambda>_. 0xff) 0)"
  have "d_flash dev0 = d_flash (ctap_flush_state env0 ?i)"
    by (simp add: dev0_def ctap_reset_def split_beta Let_def ctap_reset_state_def)
  moreover have "state_wf (d_st ?i)" by (simp add: state_init_fresh fresh_state_wf)
  ultimately show ?thesis
    using state_write_cell[OF _ _ x, of "env_prog env0" "d_st ?i" "\<lambda>_. 0xff"] env0_ok
    by (simp add: ctap_flush_state_def state_init_fresh power_up_def reset_rk_blank env_ok_def)
qed

theorem reset_then_power_up_witness:
  "dev_ok dev0 \<and> (\<exists>d'. ctap_init env0 (power_up (d_flash dev0) 500) = Inr d' \<and> ctap_leftover_pin_attempts d' = 8)"
  using reset_then_power_up[OF env0_ok power_up_ok] unfolding dev0_def by blast

end
