(* ===== verification/PinProtocol.thy ===== *)
theory PinProtocol
  imports DevState
begin

text \<open>
  The PIN protocol of \<^verbatim>\<open>fido2/ctap.c\<close>: authClientPin with its five subcommands, setting and
  checking the PIN, the PIN token and its MACs. The parsed request and the parser's return code are
  inputs (the parser is the theory of its own), and so are the error codes of the CBOR encoder. A run is
  \<open>Inl\<close> when it ends in \<open>exit(1)\<close>, and also when the code uses an encoder it has not initialised.
\<close>

definition CTAP1_ERR_OTHER :: int where "CTAP1_ERR_OTHER = 0x7f"
definition CTAP2_ERR_MISSING_PARAMETER :: int where "CTAP2_ERR_MISSING_PARAMETER = 0x14"
definition CTAP2_ERR_NOT_ALLOWED :: int where "CTAP2_ERR_NOT_ALLOWED = 0x30"
definition CTAP2_ERR_PIN_INVALID :: int where "CTAP2_ERR_PIN_INVALID = 0x31"
definition CTAP2_ERR_PIN_BLOCKED :: int where "CTAP2_ERR_PIN_BLOCKED = 0x32"
definition CTAP2_ERR_PIN_AUTH_INVALID :: int where "CTAP2_ERR_PIN_AUTH_INVALID = 0x33"
definition CTAP2_ERR_PIN_AUTH_BLOCKED :: int where "CTAP2_ERR_PIN_AUTH_BLOCKED = 0x34"
definition CTAP2_ERR_PIN_NOT_SET :: int where "CTAP2_ERR_PIN_NOT_SET = 0x35"
definition CTAP2_ERR_PIN_POLICY_VIOLATION :: int where "CTAP2_ERR_PIN_POLICY_VIOLATION = 0x37"

lemmas pin_codes = CTAP1_ERR_OTHER_def CTAP2_ERR_MISSING_PARAMETER_def CTAP2_ERR_NOT_ALLOWED_def
  CTAP2_ERR_PIN_INVALID_def CTAP2_ERR_PIN_BLOCKED_def CTAP2_ERR_PIN_AUTH_INVALID_def
  CTAP2_ERR_PIN_AUTH_BLOCKED_def CTAP2_ERR_PIN_NOT_SET_def CTAP2_ERR_PIN_POLICY_VIOLATION_def
  CTAP2_ERR_CBOR_PARSING_def

subsection \<open>MACs under the PIN token\<close>

definition verify_pin_auth_ex :: "bytes \<Rightarrow> bytes \<Rightarrow> ctap_dev \<Rightarrow> ctap_dev + (int \<times> ctap_dev)" where
  "verify_pin_auth_ex pinAuth buf d =
     seqE (halt d (crypto_sha256_hmac_init (Key_Ptr (d_pin_token d)) PIN_TOKEN_SIZE (d_cr d))) (\<lambda>cr.
     let cr = crypto_sha256_update buf cr in
     seqE (halt d (crypto_sha256_hmac_final (Key_Ptr (d_pin_token d)) PIN_TOKEN_SIZE cr)) (\<lambda>(hmac, cr).
     Inr (if take 16 pinAuth = take 16 hmac then 0 else CTAP2_ERR_PIN_AUTH_INVALID, d\<lparr>d_cr := cr\<rparr>)))"

definition verify_pin_auth :: "bytes \<Rightarrow> bytes \<Rightarrow> ctap_dev \<Rightarrow> ctap_dev + (int \<times> ctap_dev)" where
  "verify_pin_auth pinAuth clientDataHash d = verify_pin_auth_ex pinAuth (take 32 clientDataHash) d"

subsection \<open>Setting a PIN\<close>

fun trailing_zeros :: "bytes \<Rightarrow> nat \<Rightarrow> nat" where
  "trailing_zeros buf 0 = 0"
| "trailing_zeros buf (Suc i) = (if buf ! Suc i = 0 then Suc (trailing_zeros buf i) else 0)"

definition ctap_update_pin :: "environ \<Rightarrow> bytes \<Rightarrow> nat \<Rightarrow> ctap_dev \<Rightarrow> ctap_dev + ctap_dev" where
  "ctap_update_pin env pin len d =
     (if len \<ge> 64 \<or> len < 4 then Inl d
      else
        let (h, cr) = hash2 (take len pin) (as_salt (d_st d)) (d_cr d);
            d = d\<lparr>d_cr := cr, d_st := (d_st d)\<lparr>as_pin_hash := h, as_pin_set := 1\<rparr>\<rparr>
        in Inr (ctap_flush_state env d))"

text \<open>The shared secret of a request: SHA-256 of the Diffie-Hellman point.\<close>

definition session_key :: "environ \<Rightarrow> bytes \<Rightarrow> ctap_dev \<Rightarrow> ctap_dev + (bytes \<times> ctap_dev)" where
  "session_key env pubkey d =
     seqE (halt d (crypto_ecc256_shared_secret (env_lib env) pubkey (d_ka_priv d))) (\<lambda>z.
     let cr = crypto_sha256_init (d_cr d);
         cr = crypto_sha256_update (take 32 z) cr;
         (key, cr) = crypto_sha256_final cr
     in Inr (key, d\<lparr>d_cr := cr\<rparr>))"

text \<open>The current PIN of a request, as both subcommands compare it: hashed with the salt, 16 bytes.\<close>

definition salted_pin_hash :: "bytes \<Rightarrow> ctap_dev \<Rightarrow> bytes \<times> ctap_dev" where
  "salted_pin_hash pinHash d =
     (let cr = crypto_sha256_init (d_cr d);
          cr = crypto_sha256_update (take 16 pinHash) cr;
          cr = crypto_sha256_update (as_salt (d_st d)) cr;
          (h, cr) = crypto_sha256_final cr
      in (h, d\<lparr>d_cr := cr\<rparr>))"

text \<open>What both do when it does not match.\<close>

definition pin_mismatch :: "environ \<Rightarrow> ctap_dev \<Rightarrow> int \<times> ctap_dev" where
  "pin_mismatch env d =
     (let d = ctap_reset_key_agreement env d;
          (_, d) = ctap_decrement_pin_attempts env d
      in (if ctap_device_boot_locked d then CTAP2_ERR_PIN_AUTH_BLOCKED else CTAP2_ERR_PIN_INVALID, d))"

definition round16 :: "nat \<Rightarrow> nat" where
  "round16 len = (if len mod 16 = 0 then len else len + (16 - len mod 16))"

text \<open>The MAC over the encrypted PIN and, for a change, the encrypted hash of the current one.\<close>

definition update_pin_mac :: "bytes \<Rightarrow> bytes \<Rightarrow> nat \<Rightarrow> bytes option \<Rightarrow> ctap_dev \<Rightarrow> ctap_dev + (bytes \<times> ctap_dev)" where
  "update_pin_mac shared_secret pinEnc len pinHashEnc d =
     seqE (halt d (crypto_sha256_hmac_init (Key_Ptr shared_secret) 32 (d_cr d))) (\<lambda>cr.
     let cr = crypto_sha256_update (take len pinEnc) cr;
         cr = (case pinHashEnc of None \<Rightarrow> cr | Some h \<Rightarrow> crypto_sha256_update (take 16 h) cr) in
     seqE (halt d (crypto_sha256_hmac_final (Key_Ptr shared_secret) 32 cr)) (\<lambda>(hmac, cr).
     Inr (hmac, d\<lparr>d_cr := cr\<rparr>)))"

text \<open>The rest, once the new PIN is decrypted: its length, the comparison with the current PIN, the store.\<close>

definition update_pin_checked ::
    "environ \<Rightarrow> bytes \<Rightarrow> bytes option \<Rightarrow> ctap_dev \<Rightarrow> ctap_dev + (int \<times> ctap_dev)" where
  "update_pin_checked env pin pinHashEnc d =
     (let ret = 64 - trailing_zeros pin 63 in
      if ret < 4 \<or> ret \<ge> 64 then Inr (CTAP2_ERR_PIN_POLICY_VIOLATION, d)
      else if ctap_is_pin_set d then
        if ctap_device_locked d then Inr (CTAP2_ERR_PIN_BLOCKED, d)
        else if ctap_device_boot_locked d then Inr (CTAP2_ERR_PIN_AUTH_BLOCKED, d)
        else
          let cr = crypto_aes256_reset_iv None (d_cr d);
              (pinHash, cr) = crypto_aes256_decrypt (env_lib env) (case pinHashEnc of None \<Rightarrow> [] | Some h \<Rightarrow> take 16 h) cr;
              (salted, d) = salted_pin_hash pinHash (d\<lparr>d_cr := cr\<rparr>) in
          if take 16 salted \<noteq> take 16 (as_pin_hash (d_st d)) then Inr (pin_mismatch env d)
          else seqE (ctap_update_pin env pin ret (ctap_reset_pin_attempts env d)) (\<lambda>d. Inr (0, d))
      else seqE (ctap_update_pin env pin ret d) (\<lambda>d. Inr (0, d)))"

definition ctap_update_pin_if_verified ::
    "environ \<Rightarrow> bytes \<Rightarrow> int \<Rightarrow> bytes \<Rightarrow> bytes \<Rightarrow> bytes option \<Rightarrow> ctap_dev \<Rightarrow> ctap_dev + (int \<times> ctap_dev)" where
  "ctap_update_pin_if_verified env pinEnc len platform_pubkey pinAuth pinHashEnc d =
     (if len < 64 then Inr (CTAP1_ERR_OTHER, d)
      else if ctap_is_pin_set d \<and> ctap_device_locked d then Inr (CTAP2_ERR_PIN_BLOCKED, d)
      else if ctap_is_pin_set d \<and> ctap_device_boot_locked d then Inr (CTAP2_ERR_PIN_AUTH_BLOCKED, d)
      else
        seqE (session_key env platform_pubkey d) (\<lambda>(shared_secret, d).
        seqE (update_pin_mac shared_secret pinEnc (nat len) pinHashEnc d) (\<lambda>(hmac, d).
        if take 16 hmac \<noteq> take 16 pinAuth then Inr (CTAP2_ERR_PIN_AUTH_INVALID, d)
        else
          let cr = crypto_aes256_init (Key_Ptr shared_secret) None (d_cr d);
              (pin, cr) = crypto_aes256_decrypt (env_lib env) (take (round16 (nat len)) pinEnc) cr
          in update_pin_checked env pin pinHashEnc (d\<lparr>d_cr := cr\<rparr>))))"

subsection \<open>Handing out the PIN token\<close>

definition ctap_add_pin_if_verified ::
    "environ \<Rightarrow> bytes \<Rightarrow> bytes \<Rightarrow> ctap_dev \<Rightarrow> ctap_dev + (int \<times> bytes \<times> ctap_dev)" where
  "ctap_add_pin_if_verified env platform_pubkey pinHashEnc d =
     seqE (session_key env platform_pubkey d) (\<lambda>(shared_secret, d).
     let cr = crypto_aes256_init (Key_Ptr shared_secret) None (d_cr d);
         (pinHash, cr) = crypto_aes256_decrypt (env_lib env) (take 16 pinHashEnc) cr;
         (salted, d) = salted_pin_hash pinHash (d\<lparr>d_cr := cr\<rparr>) in
     if take 16 salted \<noteq> take 16 (as_pin_hash (d_st d)) then
       let (code, d) = pin_mismatch env d in Inr (code, [], d)
     else
       let d = ctap_reset_pin_attempts env d;
           cr = crypto_aes256_reset_iv None (d_cr d);
           (pinTokenEnc, cr) = crypto_aes256_encrypt (env_lib env) (take PIN_TOKEN_SIZE (d_pin_token d)) cr
       in Inr (0, pinTokenEnc, d\<lparr>d_cr := cr\<rparr>))"

subsection \<open>The command\<close>

definition CP_cmdGetRetries :: int where "CP_cmdGetRetries = 1"
definition CP_cmdGetKeyAgreement :: int where "CP_cmdGetKeyAgreement = 2"
definition CP_cmdSetPin :: int where "CP_cmdSetPin = 3"
definition CP_cmdChangePin :: int where "CP_cmdChangePin = 4"
definition CP_cmdGetPinToken :: int where "CP_cmdGetPinToken = 5"
definition RESP_keyAgreement :: int where "RESP_keyAgreement = 1"
definition RESP_pinToken :: int where "RESP_pinToken = 2"
definition RESP_retries :: int where "RESP_retries = 3"

lemmas cp_nums = CP_cmdGetRetries_def CP_cmdGetKeyAgreement_def CP_cmdSetPin_def CP_cmdChangePin_def
  CP_cmdGetPinToken_def RESP_keyAgreement_def RESP_pinToken_def RESP_retries_def

text \<open>An encoder error ends the command with its code.\<close>

definition enc_then :: "int + enc list \<Rightarrow> ctap_dev \<Rightarrow> (enc list \<Rightarrow> ctap_dev + (int \<times> enc list \<times> ctap_dev))
     \<Rightarrow> ctap_dev + (int \<times> enc list \<times> ctap_dev)" where
  "enc_then m d k = (case m of Inl e \<Rightarrow> Inr (e, [], d) | Inr tr \<Rightarrow> k tr)"

lemma enc_then_simps [simp]: "enc_then (Inl e) d k = Inr (e, [], d)" "enc_then (Inr tr) d k = k tr"
  by (simp_all add: enc_then_def)

text \<open>The end of the command, after the switch: \<open>mp\<close> (the map encoder) is None when no container was created.\<close>

definition client_pin_end :: "enc_err \<Rightarrow> bool \<Rightarrow> nat \<Rightarrow> enc list option \<Rightarrow> ctap_dev
     \<Rightarrow> ctap_dev + (int \<times> enc list \<times> ctap_dev)" where
  "client_pin_end err getRetries num_map mp d =
     (if getRetries \<or> num_map \<noteq> 0 then
        case mp of None \<Rightarrow> Inl d
        | Some tr \<Rightarrow>
          enc_then (if getRetries then emits err [EInt RESP_retries, EInt (ctap_leftover_pin_attempts d)] tr
                    else Inr tr) d (\<lambda>tr.
          enc_then (emits err [EClose] tr) d (\<lambda>tr. Inr (0, tr, d)))
      else Inr (0, case mp of None \<Rightarrow> [] | Some tr \<Rightarrow> tr, d))"

definition cp_pubkey :: "client_pin \<Rightarrow> bytes" where
  "cp_pubkey CP = ck_x (cp_keyAgreement CP) @ ck_y (cp_keyAgreement CP)"

text \<open>The cases of the switch.\<close>

definition cp_get_retries :: "enc_err \<Rightarrow> nat \<Rightarrow> ctap_dev \<Rightarrow> ctap_dev + (int \<times> enc list \<times> ctap_dev)" where
  "cp_get_retries err num_map d =
     enc_then (emits err [EMap 1] []) d (\<lambda>tr. client_pin_end err True num_map (Some tr) d)"

definition cp_get_key_agreement ::
    "environ \<Rightarrow> enc_err \<Rightarrow> bool \<Rightarrow> nat \<Rightarrow> ctap_dev \<Rightarrow> ctap_dev + (int \<times> enc list \<times> ctap_dev)" where
  "cp_get_key_agreement env err getRetries num_map d =
     enc_then (emits err [EMap (num_map + 1)] []) d (\<lambda>tr.
     enc_then (emits err [EInt RESP_keyAgreement] tr) d (\<lambda>tr.
       let pub = crypto_ecc256_compute_public_key (env_lib env) (d_ka_priv d);
           d = d\<lparr>d_ka_pub := pub\<rparr> in
       enc_then (ctap_add_cose_key err (block pub 0 32) (block pub 32 32) COSE_ALG_ECDH_ES_HKDF_256 tr) d (\<lambda>tr.
       client_pin_end err getRetries (num_map + 1) (Some tr) d)))"

definition cp_set_pin ::
    "environ \<Rightarrow> enc_err \<Rightarrow> client_pin \<Rightarrow> nat \<Rightarrow> ctap_dev \<Rightarrow> ctap_dev + (int \<times> enc list \<times> ctap_dev)" where
  "cp_set_pin env err CP num_map d =
     (if ctap_is_pin_set d then Inr (CTAP2_ERR_NOT_ALLOWED, [], d)
      else if cp_newPinEncSize CP = 0 \<or> cp_pinAuthPresent CP = 0 \<or> cp_keyAgreementPresent CP = 0
      then Inr (CTAP2_ERR_MISSING_PARAMETER, [], d)
      else
        seqE (ctap_update_pin_if_verified env (cp_newPinEnc CP) (cp_newPinEncSize CP) (cp_pubkey CP)
                (cp_pinAuth CP) None d) (\<lambda>(ret, d).
        if ret \<noteq> 0 then Inr (ret, [], d)
        else client_pin_end err (cp_getRetries CP) num_map None d))"

definition cp_change_pin ::
    "environ \<Rightarrow> enc_err \<Rightarrow> client_pin \<Rightarrow> nat \<Rightarrow> ctap_dev \<Rightarrow> ctap_dev + (int \<times> enc list \<times> ctap_dev)" where
  "cp_change_pin env err CP num_map d =
     (if \<not> ctap_is_pin_set d then Inr (CTAP2_ERR_PIN_NOT_SET, [], d)
      else if cp_newPinEncSize CP = 0 \<or> cp_pinAuthPresent CP = 0 \<or> cp_keyAgreementPresent CP = 0
        \<or> cp_pinHashEncPresent CP = 0
      then Inr (CTAP2_ERR_MISSING_PARAMETER, [], d)
      else
        seqE (ctap_update_pin_if_verified env (cp_newPinEnc CP) (cp_newPinEncSize CP) (cp_pubkey CP)
                (cp_pinAuth CP) (Some (cp_pinHashEnc CP)) d) (\<lambda>(ret, d).
        if ret \<noteq> 0 then Inr (ret, [], d)
        else client_pin_end err (cp_getRetries CP) num_map None d))"

definition cp_get_pin_token ::
    "environ \<Rightarrow> enc_err \<Rightarrow> client_pin \<Rightarrow> nat \<Rightarrow> ctap_dev \<Rightarrow> ctap_dev + (int \<times> enc list \<times> ctap_dev)" where
  "cp_get_pin_token env err CP num_map d =
     (if \<not> ctap_is_pin_set d then Inr (CTAP2_ERR_PIN_NOT_SET, [], d)
      else
        enc_then (emits err [EMap (num_map + 1)] []) d (\<lambda>tr.
        if cp_keyAgreementPresent CP = 0 \<or> cp_pinHashEncPresent CP = 0
        then Inr (CTAP2_ERR_MISSING_PARAMETER, [], d)
        else
          enc_then (emits err [EInt RESP_pinToken] tr) d (\<lambda>tr.
          seqE (ctap_add_pin_if_verified env (cp_pubkey CP) (cp_pinHashEnc CP) d) (\<lambda>(ret, pinTokenEnc, d).
          if ret \<noteq> 0 then Inr (ret, [], d)
          else
            enc_then (emits err [EBytes pinTokenEnc] tr) d (\<lambda>tr.
            client_pin_end err (cp_getRetries CP) (num_map + 1) (Some tr) d)))))"

definition ctap_client_pin ::
    "environ \<Rightarrow> enc_err \<Rightarrow> int \<Rightarrow> client_pin \<Rightarrow> ctap_dev \<Rightarrow> ctap_dev + (int \<times> enc list \<times> ctap_dev)" where
  "ctap_client_pin env err ret CP d =
     (let cmd = cp_subCommand CP in
      if cmd \<in> {CP_cmdSetPin, CP_cmdChangePin, CP_cmdGetPinToken} \<and> ctap_device_locked d
      then Inr (CTAP2_ERR_PIN_BLOCKED, [], d)
      else if cmd \<in> {CP_cmdSetPin, CP_cmdChangePin, CP_cmdGetPinToken} \<and> ctap_device_boot_locked d
      then Inr (CTAP2_ERR_PIN_AUTH_BLOCKED, [], d)
      else if ret \<noteq> 0 then Inr (ret, [], d)
      else if cp_pinProtocol CP \<noteq> 1 \<or> cmd = 0 then Inr (CTAP1_ERR_OTHER, [], d)
      else
        let num_map = (if cp_getRetries CP then 1 else 0) in
        if cmd = CP_cmdGetRetries then cp_get_retries err num_map d
        else if cmd = CP_cmdGetKeyAgreement then cp_get_key_agreement env err (cp_getRetries CP) num_map d
        else if cmd = CP_cmdSetPin then cp_set_pin env err CP num_map d
        else if cmd = CP_cmdChangePin then cp_change_pin env err CP num_map d
        else if cmd = CP_cmdGetPinToken then cp_get_pin_token env err CP num_map d
        else Inr (CTAP1_ERR_OTHER, [], d))"

end
