(* ===== verification/CryptoRuns.thy ===== *)
theory CryptoRuns
  imports Crypto
begin

text \<open>
  What the callers of the cryptographic layer need of it: hash, MAC and AES runs as values, with the
  state they leave behind. \<open>cr_sim\<close> says that only the scratch parts (hash context, AES key and IV)
  differ.
\<close>

definition cr_sim :: "crypto_state \<Rightarrow> crypto_state \<Rightarrow> bool" where
  "cr_sim cr cr' \<longleftrightarrow> crypto_ok cr' \<and>
     cr'\<lparr>c_sha := c_sha cr, c_aes_key := c_aes_key cr, c_aes_iv := c_aes_iv cr\<rparr> = cr"

lemma cr_sim_refl [simp]: "crypto_ok cr \<Longrightarrow> cr_sim cr cr"
  by (simp add: cr_sim_def)

lemma cr_sim_ok: "cr_sim cr cr' \<Longrightarrow> crypto_ok cr'"
  by (simp add: cr_sim_def)

lemma cr_sim_fields:
  assumes "cr_sim cr cr'"
  shows "c_master cr' = c_master cr" "c_transport cr' = c_transport cr" "c_rng cr' = c_rng cr"
    "c_signing_key cr' = c_signing_key cr" "c_key_len cr' = c_key_len cr" "c_curve cr' = c_curve cr"
  using assms by (cases cr; cases cr'; simp add: cr_sim_def)+

lemma cr_sim_trans: "cr_sim a b \<Longrightarrow> cr_sim b c \<Longrightarrow> cr_sim a c"
  by (cases a; cases b; cases c; simp add: cr_sim_def)

lemma cr_sim_sha: "cr_sim a b \<Longrightarrow> length (sc_data x) = 64 \<Longrightarrow> cr_sim a (b\<lparr>c_sha := x\<rparr>)"
  by (cases a; cases b; simp add: cr_sim_def crypto_ok_def)

lemma cr_sim_aes: "cr_sim a b \<Longrightarrow> cr_sim a (b\<lparr>c_aes_key := k, c_aes_iv := i\<rparr>)" "cr_sim a b \<Longrightarrow> cr_sim a (b\<lparr>c_aes_iv := i\<rparr>)"
  by (cases a; cases b; simp add: cr_sim_def crypto_ok_def)+

lemma sha_run:
  assumes "crypto_ok cr"
  shows "\<exists>cr'. crypto_sha256_final (sha_feed ds (crypto_sha256_init cr)) = (sha256 (concat ds), cr') \<and> cr_sim cr cr'"
proof -
  have w: "length (sc_data (c_sha cr)) = 64" using assms by (simp add: crypto_ok_def)
  let ?c = "foldl sha256_update (sha256_init (c_sha cr)) ds"
  have f: "sha_feed ds (crypto_sha256_init cr) = cr\<lparr>c_sha := ?c\<rparr>"
    by (simp add: sha_feed_sha crypto_sha256_init_def)
  have d: "fst (sha256_final ?c) = sha256 (concat ds)" by (rule sha.digest_of_pieces[OF w])
  have "sha_absorbed ?c (concat ds)" using sha.update_pieces[OF sha.h_init[OF w], of ds] by simp
  then have "length (sc_data (snd (sha256_final ?c))) = 64" using sha.h_wf by blast
  then have "cr_sim cr (cr\<lparr>c_sha := snd (sha256_final ?c)\<rparr>)" by (rule cr_sim_sha[OF cr_sim_refl[OF assms]])
  with d show ?thesis by (auto simp: f crypto_sha256_final_def split_beta Let_def)
qed

lemma sha_run1: "crypto_ok cr \<Longrightarrow> \<exists>cr'. crypto_sha256_final (crypto_sha256_update a (crypto_sha256_init cr)) = (sha256 a, cr') \<and> cr_sim cr cr'"
  using sha_run[of cr "[a]"] by (simp add: sha_feed_Cons)

lemma sha_run2: "crypto_ok cr \<Longrightarrow> \<exists>cr'. crypto_sha256_final (crypto_sha256_update b (crypto_sha256_update a (crypto_sha256_init cr)))
    = (sha256 (a @ b), cr') \<and> cr_sim cr cr'"
  using sha_run[of cr "[a, b]"] by (simp add: sha_feed_Cons)

text \<open>An HMAC run under any key argument.\<close>

lemma hmac_run:
  assumes "crypto_ok cr" "klen \<le> 64"
  shows "\<exists>s0 cr'. crypto_sha256_hmac_init k klen cr = Some s0
     \<and> crypto_sha256_hmac_final k klen (sha_feed ds s0) =
         Some (sha256 (hmac_pad 0x5c (outer_key cr k klen)
                 @ sha256 (hmac_pad 0x36 (inner_key cr k klen) @ concat ds)), cr')
     \<and> cr_sim cr cr'"
proof -
  obtain s0 s1 where h: "crypto_sha256_hmac_init k klen cr = Some s0"
    "crypto_sha256_hmac_final k klen (sha_feed ds s0) =
         Some (sha256 (hmac_pad 0x5c (outer_key cr k klen)
                 @ sha256 (hmac_pad 0x36 (inner_key cr k klen) @ concat ds)), s1)"
    "crypto_ok s1" "s1 = cr\<lparr>c_sha := c_sha s1\<rparr>"
    using hmac_general[OF assms] by blast
  have "length (sc_data (c_sha s1)) = 64" using h(3) by (simp add: crypto_ok_def)
  then have "cr_sim cr s1" by (subst h(4)) (rule cr_sim_sha[OF cr_sim_refl[OF assms(1)]])
  with h show ?thesis by blast
qed

lemma hmac_run_ptr:
  assumes "crypto_ok cr" "length key = klen" "klen \<le> 64"
  shows "\<exists>s0 cr'. crypto_sha256_hmac_init (Key_Ptr key) klen cr = Some s0
     \<and> crypto_sha256_hmac_final (Key_Ptr key) klen (sha_feed ds s0) = Some (hmac_sha256 key (concat ds), cr')
     \<and> cr_sim cr cr'"
  using hmac_run[OF assms(1,3), of "Key_Ptr key" ds] assms(2)
  by (simp add: hmac_sha256_def outer_key_def inner_key_def)

text \<open>A MAC under the transport secret, as the code computes it: the secret in the inner pass only.\<close>

definition transport_mac :: "bytes \<Rightarrow> bytes \<Rightarrow> bytes" where
  "transport_mac secret msg = sha256 (hmac_pad 0x5c [] @ sha256 (hmac_pad 0x36 secret @ msg))"

lemma hmac_run_transport:
  assumes "crypto_ok cr"
  shows "\<exists>s0 cr'. crypto_sha256_hmac_init Transport_Key 0 cr = Some s0
     \<and> crypto_sha256_hmac_final Transport_Key 0 (sha_feed ds s0) = Some (transport_mac (c_transport cr) (concat ds), cr')
     \<and> cr_sim cr cr'"
  using hmac_run[OF assms, of 0 Transport_Key ds]
  by (simp add: transport_mac_def outer_key_def inner_key_def)

lemma length_transport_mac [simp]: "length (transport_mac s m) = 32"
  by (simp add: transport_mac_def)

lemma length_hmac_sha256 [simp]: "length (hmac_sha256 k m) = 32"
  by (simp add: hmac_sha256_def)

lemma aes_run:
  assumes "crypto_ok cr" "length key = 32"
  shows "\<exists>cr'. crypto_aes256_decrypt lib buf (crypto_aes256_init (Key_Ptr key) None cr)
      = (l_cbc_dec lib key (replicate 16 0) buf, cr') \<and> cr_sim cr cr' \<and> c_aes_key cr' = key"
  using assms(2) cr_sim_aes[OF cr_sim_refl[OF assms(1)]]
  by (simp add: crypto_aes256_decrypt_def crypto_aes256_init_def)

end
