(* ===== verification/PinProps.thy ===== *)
theory PinProps
  imports PinProtocol CryptoRuns
begin

text \<open>
  The properties of the PIN protocol: the values of its pieces, the effect of every authClientPin
  command on the attempt counters, and what that means over a history of commands and power cycles.
\<close>

subsection \<open>Values of the pieces\<close>

text \<open>\<open>d'\<close> differs from \<open>d\<close> in the scratch part of the cryptographic state only.\<close>

definition dev_sim :: "ctap_dev \<Rightarrow> ctap_dev \<Rightarrow> bool" where
  "dev_sim d d' \<longleftrightarrow> d'\<lparr>d_cr := d_cr d\<rparr> = d \<and> cr_sim (d_cr d) (d_cr d')"

lemma dev_sim_fields:
  assumes "dev_sim d d'"
  shows "d_st d' = d_st d" "d_flash d' = d_flash d" "d_pin_token d' = d_pin_token d" "d_boot d' = d_boot d"
    "d_ka_priv d' = d_ka_priv d" "d_ga d' = d_ga d" "crypto_ok (d_cr d')"
    "c_master (d_cr d') = c_master (d_cr d)" "c_transport (d_cr d') = c_transport (d_cr d)"
    "c_rng (d_cr d') = c_rng (d_cr d)" "d_ka_pub d' = d_ka_pub d" "d_sc d' = d_sc d" "d_cm d' = d_cm d" "d_up_off d' = d_up_off d"
  using assms by (cases d; cases d'; simp add: dev_sim_def cr_sim_ok cr_sim_fields)+

lemma dev_sim_refl [simp]: "crypto_ok (d_cr d) \<Longrightarrow> dev_sim d d"
  by (simp add: dev_sim_def)

lemma dev_sim_cr: "dev_sim d d' \<Longrightarrow> cr_sim (d_cr d') cr \<Longrightarrow> dev_sim d (d'\<lparr>d_cr := cr\<rparr>)"
  by (cases d; cases d') (auto simp: dev_sim_def intro: cr_sim_trans)

lemma dev_sim_trans: "dev_sim a b \<Longrightarrow> dev_sim b c \<Longrightarrow> dev_sim a c"
  by (cases a; cases b; cases c) (auto simp: dev_sim_def intro: cr_sim_trans)

lemma dev_sim_ok: "dev_ok d \<Longrightarrow> dev_sim d d' \<Longrightarrow> dev_ok d'"
  by (simp add: dev_ok_def dev_sim_fields)

lemma dev_sim_pred:
  assumes "dev_sim d d'"
  shows "ctap_device_locked d' = ctap_device_locked d" "ctap_device_boot_locked d' = ctap_device_boot_locked d"
    "ctap_is_pin_set d' = ctap_is_pin_set d"
  using dev_sim_fields[OF assms]
  by (simp_all add: ctap_device_locked_def ctap_device_boot_locked_def ctap_is_pin_set_def)

lemma dev_ok_crypto: "dev_ok d \<Longrightarrow> crypto_ok (d_cr d)"
  by (simp add: dev_ok_def)

definition pin_digest :: "bytes \<Rightarrow> bytes \<Rightarrow> bytes" where
  "pin_digest pin salt = sha256 (take 16 (sha256 pin) @ salt)"

lemma hash2_value:
  assumes "crypto_ok cr"
  shows "\<exists>cr'. hash2 pin salt cr = (pin_digest pin salt, cr') \<and> cr_sim cr cr'"
proof -
  obtain c1 where 1: "crypto_sha256_final (crypto_sha256_update pin (crypto_sha256_init cr)) = (sha256 pin, c1)" "cr_sim cr c1"
    using sha_run1[OF assms] by blast
  obtain c2 where "crypto_sha256_final (crypto_sha256_update salt (crypto_sha256_update (take 16 (sha256 pin)) (crypto_sha256_init c1)))
      = (sha256 (take 16 (sha256 pin) @ salt), c2)" "cr_sim c1 c2"
    using sha_run2[OF cr_sim_ok[OF 1(2)]] by blast
  with 1 show ?thesis by (auto simp: hash2_def pin_digest_def intro: cr_sim_trans)
qed

definition session_secret :: "environ \<Rightarrow> bytes \<Rightarrow> ctap_dev \<Rightarrow> bytes option" where
  "session_secret env pubkey d = map_option (\<lambda>z. sha256 (take 32 z)) (l_shared (env_lib env) pubkey (d_ka_priv d))"

lemma session_key_value:
  assumes "crypto_ok (d_cr d)"
  shows "case session_secret env pubkey d of None \<Rightarrow> session_key env pubkey d = Inl d
     | Some key \<Rightarrow> length key = 32 \<and> (\<exists>d'. session_key env pubkey d = Inr (key, d') \<and> dev_sim d d')"
proof (cases "l_shared (env_lib env) pubkey (d_ka_priv d)")
  case (Some z)
  obtain c where "crypto_sha256_final (crypto_sha256_update (take 32 z) (crypto_sha256_init (d_cr d))) = (sha256 (take 32 z), c)"
    "cr_sim (d_cr d) c" using sha_run1[OF assms] by blast
  then show ?thesis using Some dev_sim_cr[OF dev_sim_refl[OF assms]]
    by (auto simp: session_key_def session_secret_def crypto_ecc256_shared_secret_def)
qed (simp add: session_key_def session_secret_def crypto_ecc256_shared_secret_def)

lemma salted_value:
  assumes "crypto_ok (d_cr d)"
  shows "\<exists>d'. salted_pin_hash h d = (sha256 (take 16 h @ as_salt (d_st d)), d') \<and> dev_sim d d'"
proof -
  obtain c where "crypto_sha256_final (crypto_sha256_update (as_salt (d_st d)) (crypto_sha256_update (take 16 h) (crypto_sha256_init (d_cr d))))
     = (sha256 (take 16 h @ as_salt (d_st d)), c)" "cr_sim (d_cr d) c" using sha_run2[OF assms] by blast
  then show ?thesis using dev_sim_cr[OF dev_sim_refl[OF assms]] by (auto simp: salted_pin_hash_def)
qed

text \<open>The PIN of a request is right when the decrypted hash, salted, has the stored first 16 bytes.\<close>

definition pin_right :: "environ \<Rightarrow> bytes \<Rightarrow> bytes \<Rightarrow> ctap_dev \<Rightarrow> bool" where
  "pin_right env key pinHashEnc d \<longleftrightarrow>
     take 16 (sha256 (take 16 (l_cbc_dec (env_lib env) key (replicate 16 0) (take 16 pinHashEnc)) @ as_salt (d_st d)))
     = take 16 (as_pin_hash (d_st d))"

subsection \<open>The attempt counters\<close>

lemma sint_dec:
  assumes "0 < sint (w :: u8)"
  shows "sint (w - 1) = sint w - 1"
proof -
  have "sint w < 2 ^ (LENGTH(8) - 1)" by (rule sint_lt)
  then show ?thesis using assms by (simp add: sint_word_diff signed_take_bit_int_eq_self)
qed

text \<open>A wrong PIN costs one attempt of both counters and the session's key agreement key; the last
  one wipes the PIN token and the stored PIN hash.\<close>

definition charged :: "ctap_dev \<Rightarrow> ctap_dev \<Rightarrow> bool" where
  "charged d d' \<longleftrightarrow> dev_ok d' \<and> ctap_leftover_pin_attempts d' = ctap_leftover_pin_attempts d - 1
     \<and> sint (d_boot d') = sint (d_boot d) - 1 \<and> as_pin_set (d_st d') = as_pin_set (d_st d) \<and> as_salt (d_st d') = as_salt (d_st d)
     \<and> (ctap_device_locked d' \<longrightarrow> d_pin_token d' = zeros 16 \<and> as_pin_hash (d_st d') = zeros 32)
     \<and> (\<not> ctap_device_locked d' \<longrightarrow> d_pin_token d' = d_pin_token d \<and> as_pin_hash (d_st d') = as_pin_hash (d_st d))"

lemma dev_ok_flush:
  "env_ok env \<Longrightarrow> state_wf (d_st d) \<Longrightarrow> as_init (d_st d) = INITIALIZED_MARKER \<Longrightarrow> as_version (d_st d) = STATE_VERSION
   \<Longrightarrow> crypto_ok (d_cr d) \<Longrightarrow> length (d_pin_token d) = 16 \<Longrightarrow> dev_ok (ctap_flush_state env d)"
  by (simp add: dev_ok_def flush_stored)

lemma decrement_charged:
  assumes "env_ok env" "dev_ok d" "\<not> ctap_device_locked d" "\<not> ctap_device_boot_locked d"
  shows "charged d (snd (ctap_decrement_pin_attempts env d))"
proof -
  have t: "0 < sint (as_tries (d_st d))" and b: "0 < sint (d_boot d)"
    using assms(3,4) by (simp_all add: ctap_device_locked_def ctap_device_boot_locked_def)
  let ?d1 = "d\<lparr>d_boot := d_boot d - 1, d_st := (d_st d)\<lparr>as_tries := as_tries (d_st d) - 1\<rparr>\<rparr>"
  let ?d2 = "ctap_flush_state env ?d1"
  have ok: "state_wf (d_st d)" "as_init (d_st d) = INITIALIZED_MARKER" "as_version (d_st d) = STATE_VERSION"
    "crypto_ok (d_cr d)" "length (d_pin_token d) = 16" using assms(2) by (simp_all add: dev_ok_def)
  have ok2: "dev_ok ?d2" using ok by (intro dev_ok_flush[OF assms(1)]) (simp_all add: state_wf_def)
  have e: "snd (ctap_decrement_pin_attempts env d) = (if ctap_device_locked ?d2 then lock_device_permanently env ?d2 else ?d2)"
    using assms(3) b by (simp add: ctap_decrement_pin_attempts_def Let_def ctap_device_locked_def)
  show ?thesis
  proof (cases "ctap_device_locked ?d2")
    case True
    have "dev_ok (lock_device_permanently env ?d2)"
      using ok unfolding lock_device_permanently_def
      by (intro dev_ok_flush[OF assms(1)]) (simp_all add: state_wf_def PIN_TOKEN_SIZE_def)
    then show ?thesis using True t b
      by (simp add: e charged_def lock_device_permanently_def ctap_leftover_pin_attempts_def sint_dec PIN_TOKEN_SIZE_def
          ctap_device_locked_def)
  next
    case False
    then show ?thesis using ok2 t b by (simp add: e charged_def ctap_leftover_pin_attempts_def sint_dec)
  qed
qed

lemma mismatch_charged:
  assumes "env_ok env" "dev_ok d" "\<not> ctap_device_locked d" "\<not> ctap_device_boot_locked d" "dev_sim d d0"
  shows "charged d (snd (pin_mismatch env d0))"
    "fst (pin_mismatch env d0) = (if sint (d_boot d) = 1 then CTAP2_ERR_PIN_AUTH_BLOCKED else CTAP2_ERR_PIN_INVALID)"
proof -
  let ?k = "ctap_reset_key_agreement env d0"
  have l: "dev_ok ?k" "\<not> ctap_device_locked ?k" "\<not> ctap_device_boot_locked ?k"
    using assms(3,4) dev_sim_ok[OF assms(2,5)] dev_sim_pred[OF assms(5)]
    by (simp_all add: ctap_device_locked_def ctap_device_boot_locked_def)
  from decrement_charged[OF assms(1) this] show c: "charged d (snd (pin_mismatch env d0))"
    using dev_sim_fields[OF assms(5)]
    by (simp add: pin_mismatch_def split_beta Let_def charged_def ctap_leftover_pin_attempts_def)
  have "0 < sint (d_boot d)" using assms(4) by (simp add: ctap_device_boot_locked_def)
  then show "fst (pin_mismatch env d0) = (if sint (d_boot d) = 1 then CTAP2_ERR_PIN_AUTH_BLOCKED else CTAP2_ERR_PIN_INVALID)"
    using c by (auto simp: pin_mismatch_def split_beta Let_def charged_def ctap_device_boot_locked_def)
qed

text \<open>The right PIN restores both counters.\<close>

definition restored :: "ctap_dev \<Rightarrow> ctap_dev \<Rightarrow> bool" where
  "restored d d' \<longleftrightarrow> dev_ok d' \<and> ctap_leftover_pin_attempts d' = 8 \<and> sint (d_boot d') = 3
     \<and> d_pin_token d' = d_pin_token d \<and> as_pin_set (d_st d') = as_pin_set (d_st d) \<and> as_salt (d_st d') = as_salt (d_st d)"

lemma reset_attempts:
  assumes "env_ok env" "dev_ok d"
  shows "restored d (ctap_reset_pin_attempts env d)" "crypto_ok (d_cr (ctap_reset_pin_attempts env d))"
    "d_cr (ctap_reset_pin_attempts env d) = d_cr d"
    "as_salt (d_st (ctap_reset_pin_attempts env d)) = as_salt (d_st d)"
    "as_pin_hash (d_st (ctap_reset_pin_attempts env d)) = as_pin_hash (d_st d)"
proof -
  have ok: "state_wf (d_st d)" "as_init (d_st d) = INITIALIZED_MARKER" "as_version (d_st d) = STATE_VERSION"
    "crypto_ok (d_cr d)" "length (d_pin_token d) = 16" using assms(2) by (simp_all add: dev_ok_def)
  have "dev_ok (ctap_reset_pin_attempts env d)" unfolding ctap_reset_pin_attempts_def
    using ok by (intro dev_ok_flush[OF assms(1)]) (simp_all add: state_wf_def)
  then show "restored d (ctap_reset_pin_attempts env d)" "crypto_ok (d_cr (ctap_reset_pin_attempts env d))"
    "d_cr (ctap_reset_pin_attempts env d) = d_cr d"
    "as_salt (d_st (ctap_reset_pin_attempts env d)) = as_salt (d_st d)"
    "as_pin_hash (d_st (ctap_reset_pin_attempts env d)) = as_pin_hash (d_st d)"
    by (simp_all add: restored_def ctap_reset_pin_attempts_def ctap_leftover_pin_attempts_def PIN_LOCKOUT_ATTEMPTS_def
        PIN_BOOT_ATTEMPTS_def dev_ok_def)
qed

lemma restored_sim: "restored d0 d' \<Longrightarrow> dev_sim d d0 \<Longrightarrow> restored d d'"
  by (simp add: restored_def dev_sim_fields)

lemma restored_cr: "restored d d' \<Longrightarrow> cr_sim (d_cr d') c \<Longrightarrow> restored d (d'\<lparr>d_cr := c\<rparr>)"
  by (auto simp: restored_def dev_ok_def cr_sim_ok ctap_leftover_pin_attempts_def)

subsection \<open>getPinToken\<close>

lemma add_pin_value:
  assumes "env_ok env" "dev_ok d" "\<not> ctap_device_locked d" "\<not> ctap_device_boot_locked d"
    and key: "session_secret env pubkey d = Some key"
  shows "if pin_right env key h d
    then \<exists>d'. ctap_add_pin_if_verified env pubkey h d
           = Inr (0, l_cbc_enc (env_lib env) key (replicate 16 0) (d_pin_token d), d') \<and> restored d d'
           \<and> as_pin_hash (d_st d') = as_pin_hash (d_st d)
    else \<exists>d'. ctap_add_pin_if_verified env pubkey h d
           = Inr (if sint (d_boot d) = 1 then CTAP2_ERR_PIN_AUTH_BLOCKED else CTAP2_ERR_PIN_INVALID, [], d') \<and> charged d d'"
proof -
  have ok: "crypto_ok (d_cr d)" "length (d_pin_token d) = 16" using assms(2) by (simp_all add: dev_ok_def)
  obtain d1 where k: "length key = 32" "session_key env pubkey d = Inr (key, d1)" and s1: "dev_sim d d1"
    using session_key_value[OF ok(1), of env pubkey] key by auto
  note ok1 = dev_sim_fields(7)[OF s1]
  let ?dec = "l_cbc_dec (env_lib env) key (replicate 16 0) (take 16 h)"
  obtain c where c: "crypto_aes256_decrypt (env_lib env) (take 16 h) (crypto_aes256_init (Key_Ptr key) None (d_cr d1)) = (?dec, c)"
    "cr_sim (d_cr d1) c" "c_aes_key c = key" using aes_run[OF ok1 k(1)] by blast
  let ?d2 = "d1\<lparr>d_cr := c\<rparr>"
  have s2: "dev_sim d ?d2" by (rule dev_sim_cr[OF s1 c(2)])
  obtain d3 where d3: "salted_pin_hash ?dec ?d2 = (sha256 (take 16 ?dec @ as_salt (d_st d)), d3)" "dev_sim ?d2 d3"
    using salted_value[OF dev_sim_fields(7)[OF s2], of ?dec] dev_sim_fields[OF s2] by auto
  have s3: "dev_sim d d3" by (rule dev_sim_trans[OF s2 d3(2)])
  have k3: "c_aes_key (d_cr d3) = key" using d3(1) c(3)
    by (auto simp: salted_pin_hash_def crypto_sha256_final_def crypto_sha256_init_def crypto_sha256_update_def split_beta Let_def)
  note f3 = dev_sim_fields[OF s3]
  show ?thesis
  proof (cases "pin_right env key h d")
    case True
    let ?r = "ctap_reset_pin_attempts env d3"
    note r = reset_attempts[OF assms(1) dev_sim_ok[OF assms(2) s3]]
    have t: "d_pin_token ?r = d_pin_token d" using r(1) f3 by (simp add: restored_def)
    let ?cr = "crypto_aes256_reset_iv None (d_cr ?r)"
    let ?enc = "crypto_aes256_encrypt (env_lib env) (d_pin_token d) ?cr"
    have e: "fst ?enc = l_cbc_enc (env_lib env) key (replicate 16 0) (d_pin_token d)"
      using k3 r(3) by (simp add: crypto_aes256_encrypt_def crypto_aes256_reset_iv_def Let_def)
    have sim: "cr_sim (d_cr ?r) (snd ?enc)"
      by (simp add: crypto_aes256_encrypt_def crypto_aes256_reset_iv_def Let_def cr_sim_aes(2)[OF cr_sim_refl[OF r(2)]])
    have run: "ctap_add_pin_if_verified env pubkey h d = Inr (0, fst ?enc, ?r\<lparr>d_cr := snd ?enc\<rparr>)"
      using True k(2) c(1) d3(1) f3 t ok(2)
      by (simp add: ctap_add_pin_if_verified_def pin_right_def split_beta Let_def PIN_TOKEN_SIZE_def)
    have "restored d (?r\<lparr>d_cr := snd ?enc\<rparr>)" by (rule restored_cr[OF restored_sim[OF r(1) s3] sim])
    then show ?thesis using True run e f3 r(5) by auto
  next
    case False
    have run: "ctap_add_pin_if_verified env pubkey h d = Inr (fst (pin_mismatch env d3), [], snd (pin_mismatch env d3))"
      using False k(2) c(1) d3(1) f3
      by (simp add: ctap_add_pin_if_verified_def pin_right_def split_beta Let_def)
    show ?thesis using False run mismatch_charged[OF assms(1-4) s3] by auto
  qed
qed


subsection \<open>Setting and changing the PIN\<close>

definition update_mac_ok :: "bytes \<Rightarrow> bytes \<Rightarrow> int \<Rightarrow> bytes \<Rightarrow> bytes option \<Rightarrow> bool" where
  "update_mac_ok key pinEnc len pinAuth h \<longleftrightarrow>
     take 16 (hmac_sha256 key (take (nat len) pinEnc @ (case h of None \<Rightarrow> [] | Some h \<Rightarrow> take 16 h))) = take 16 pinAuth"

definition new_pin :: "environ \<Rightarrow> bytes \<Rightarrow> bytes \<Rightarrow> int \<Rightarrow> bytes" where
  "new_pin env key pinEnc len = l_cbc_dec (env_lib env) key (replicate 16 0) (take (round16 (nat len)) pinEnc)"

definition pin_len :: "bytes \<Rightarrow> nat" where
  "pin_len pin = 64 - trailing_zeros pin 63"

text \<open>The device after a PIN was stored: hash of the new PIN, the PIN set, everything else as in \<open>d\<close>.\<close>

definition pin_stored :: "bytes \<Rightarrow> ctap_dev \<Rightarrow> ctap_dev \<Rightarrow> bool" where
  "pin_stored pin d d' \<longleftrightarrow> dev_ok d' \<and> d_st d' = (d_st d)\<lparr>as_pin_hash := pin_digest pin (as_salt (d_st d)), as_pin_set := 1\<rparr>
     \<and> d_pin_token d' = d_pin_token d \<and> d_boot d' = d_boot d \<and> d_ka_priv d' = d_ka_priv d"

lemma update_pin_value:
  assumes "env_ok env" "dev_ok d"
  shows "if 4 \<le> len \<and> len < 64
     then \<exists>d'. ctap_update_pin env pin len d = Inr d' \<and> pin_stored (take len pin) d d'
     else ctap_update_pin env pin len d = Inl d"
proof (cases "4 \<le> len \<and> len < 64")
  case True
  have ok: "state_wf (d_st d)" "as_init (d_st d) = INITIALIZED_MARKER" "as_version (d_st d) = STATE_VERSION"
    "crypto_ok (d_cr d)" "length (d_pin_token d) = 16" using assms(2) by (simp_all add: dev_ok_def)
  obtain c where c: "hash2 (take len pin) (as_salt (d_st d)) (d_cr d) = (pin_digest (take len pin) (as_salt (d_st d)), c)"
    "cr_sim (d_cr d) c" using hash2_value[OF ok(4)] by blast
  let ?d = "d\<lparr>d_cr := c, d_st := (d_st d)\<lparr>as_pin_hash := pin_digest (take len pin) (as_salt (d_st d)), as_pin_set := 1\<rparr>\<rparr>"
  have "dev_ok (ctap_flush_state env ?d)"
    using ok cr_sim_ok[OF c(2)] by (intro dev_ok_flush[OF assms(1)]) (simp_all add: state_wf_def pin_digest_def)
  then have "pin_stored (take len pin) d (ctap_flush_state env ?d)"
    by (simp add: pin_stored_def)
  moreover have "ctap_update_pin env pin len d = Inr (ctap_flush_state env ?d)"
    using True c(1) by (simp add: ctap_update_pin_def)
  ultimately show ?thesis using True by auto
qed (auto simp: ctap_update_pin_def)

lemma pin_stored_sim: "pin_stored p d0 d' \<Longrightarrow> dev_sim d d0 \<Longrightarrow> pin_stored p d d'"
  by (simp add: pin_stored_def dev_sim_fields)

lemma update_mac_value:
  assumes "crypto_ok (d_cr d)" "length key = 32"
  shows "\<exists>hmac d'. update_pin_mac key pinEnc (nat len) h d = Inr (hmac, d') \<and> dev_sim d d'
     \<and> (take 16 hmac = take 16 pinAuth \<longleftrightarrow> update_mac_ok key pinEnc len pinAuth h)"
proof -
  let ?ds = "take (nat len) pinEnc # (case h of None \<Rightarrow> [] | Some h \<Rightarrow> [take 16 h])"
  obtain s0 c where m: "crypto_sha256_hmac_init (Key_Ptr key) 32 (d_cr d) = Some s0"
    "crypto_sha256_hmac_final (Key_Ptr key) 32 (sha_feed ?ds s0) = Some (hmac_sha256 key (concat ?ds), c)"
    "cr_sim (d_cr d) c" using hmac_run_ptr[OF assms, of ?ds] by auto
  have s: "dev_sim d (d\<lparr>d_cr := c\<rparr>)" by (rule dev_sim_cr[OF dev_sim_refl[OF assms(1)] m(3)])
  show ?thesis using m(1,2) s
    by (cases h) (simp_all add: update_pin_mac_def sha_feed_Cons Let_def update_mac_ok_def)
qed

lemma update_checked_value:
  assumes "env_ok env" "dev_ok d" "dev_sim d d0" "c_aes_key (d_cr d0) = key"
    and open': "\<not> (ctap_is_pin_set d \<and> (ctap_device_locked d \<or> ctap_device_boot_locked d))"
  shows "if \<not> (4 \<le> pin_len pin \<and> pin_len pin < 64)
    then update_pin_checked env pin h d0 = Inr (CTAP2_ERR_PIN_POLICY_VIOLATION, d0)
    else if \<not> ctap_is_pin_set d
    then \<exists>d'. update_pin_checked env pin h d0 = Inr (0, d') \<and> pin_stored (take (pin_len pin) pin) d d'
    else if pin_right env key (case h of None \<Rightarrow> [] | Some h \<Rightarrow> h) d
    then \<exists>d'. update_pin_checked env pin h d0 = Inr (0, d') \<and> restored d d'
         \<and> as_pin_hash (d_st d') = pin_digest (take (pin_len pin) pin) (as_salt (d_st d)) \<and> as_salt (d_st d') = as_salt (d_st d)
    else \<exists>d'. update_pin_checked env pin h d0
           = Inr (if sint (d_boot d) = 1 then CTAP2_ERR_PIN_AUTH_BLOCKED else CTAP2_ERR_PIN_INVALID, d') \<and> charged d d'"
proof -
  note p0 = dev_sim_pred[OF assms(3)] and f0 = dev_sim_fields[OF assms(3)] and ok0 = dev_sim_ok[OF assms(2,3)]
  consider (pol) "\<not> (4 \<le> pin_len pin \<and> pin_len pin < 64)"
    | (unset) "4 \<le> pin_len pin \<and> pin_len pin < 64" "\<not> ctap_is_pin_set d"
    | (set) "4 \<le> pin_len pin \<and> pin_len pin < 64" "ctap_is_pin_set d" by blast
  then show ?thesis
  proof cases
    case pol
    then show ?thesis by (auto simp: update_pin_checked_def pin_len_def)
  next
    case unset
    obtain d' where "ctap_update_pin env pin (pin_len pin) d0 = Inr d'" "pin_stored (take (pin_len pin) pin) d0 d'"
      using update_pin_value[OF assms(1) ok0, of "pin_len pin" pin] unset(1) by auto
    then show ?thesis using unset p0 pin_stored_sim[OF _ assms(3)]
      by (auto simp: update_pin_checked_def pin_len_def)
  next
    case set
    have op: "\<not> ctap_device_locked d" "\<not> ctap_device_boot_locked d" using set(2) open' by auto
    let ?h = "case h of None \<Rightarrow> [] | Some h \<Rightarrow> take 16 h"
    let ?raw = "case h of None \<Rightarrow> [] | Some h \<Rightarrow> h"
    have hh: "?h = take 16 ?raw" by (cases h) simp_all
    let ?x = "crypto_aes256_decrypt (env_lib env) ?h (crypto_aes256_reset_iv None (d_cr d0))"
    have x: "fst ?x = l_cbc_dec (env_lib env) key (replicate 16 0) (take 16 ?raw)"
      using assms(4) by (simp add: crypto_aes256_decrypt_def crypto_aes256_reset_iv_def hh)
    have sx: "cr_sim (d_cr d0) (snd ?x)"
      by (simp add: crypto_aes256_decrypt_def crypto_aes256_reset_iv_def cr_sim_aes(2)[OF cr_sim_refl[OF f0(7)]])
    let ?d1 = "d0\<lparr>d_cr := snd ?x\<rparr>"
    have s1: "dev_sim d ?d1" by (rule dev_sim_cr[OF assms(3) sx])
    obtain d3 where d3: "salted_pin_hash (fst ?x) ?d1 = (sha256 (take 16 (fst ?x) @ as_salt (d_st d)), d3)" "dev_sim ?d1 d3"
      using salted_value[OF dev_sim_fields(7)[OF s1], of "fst ?x"] dev_sim_fields[OF s1] by auto
    have s3: "dev_sim d d3" by (rule dev_sim_trans[OF s1 d3(2)])
    note f3 = dev_sim_fields[OF s3]
    have run: "update_pin_checked env pin h d0 = (if \<not> pin_right env key ?raw d then Inr (pin_mismatch env d3)
        else seqE (ctap_update_pin env pin (pin_len pin) (ctap_reset_pin_attempts env d3)) (\<lambda>d. Inr (0, d)))"
      using set op p0 d3(1) f3
      by (simp add: update_pin_checked_def pin_len_def[symmetric] split_beta Let_def pin_right_def x)
    show ?thesis
    proof (cases "pin_right env key ?raw d")
      case True
      note r = reset_attempts[OF assms(1) dev_sim_ok[OF assms(2) s3]]
      obtain d' where u: "ctap_update_pin env pin (pin_len pin) (ctap_reset_pin_attempts env d3) = Inr d'"
        "pin_stored (take (pin_len pin) pin) (ctap_reset_pin_attempts env d3) d'"
        using update_pin_value[OF assms(1), of "ctap_reset_pin_attempts env d3" "pin_len pin" pin] r(1) set(1)
        by (auto simp: restored_def)
      have "restored d d'" using u(2) r(1) f3 set(2)
        by (auto simp: pin_stored_def restored_def ctap_leftover_pin_attempts_def ctap_is_pin_set_def)
      then show ?thesis using True set run u r(4) f3 by (auto simp: pin_stored_def)
    next
      case False
      then show ?thesis using run set mismatch_charged[OF assms(1,2) op s3]
        by (cases "pin_mismatch env d3") auto
    qed
  qed
qed

text \<open>The whole of \<open>ctap_update_pin_if_verified\<close>, on every branch.\<close>

lemma update_pin_cases:
  assumes "env_ok env" "dev_ok d"
    and open': "\<not> (ctap_is_pin_set d \<and> (ctap_device_locked d \<or> ctap_device_boot_locked d))"
  shows "if len < 64 then ctap_update_pin_if_verified env pinEnc len pubkey pinAuth h d = Inr (CTAP1_ERR_OTHER, d)
    else case session_secret env pubkey d of
      None \<Rightarrow> ctap_update_pin_if_verified env pinEnc len pubkey pinAuth h d = Inl d
    | Some key \<Rightarrow>
       if \<not> update_mac_ok key pinEnc len pinAuth h
       then \<exists>d'. ctap_update_pin_if_verified env pinEnc len pubkey pinAuth h d = Inr (CTAP2_ERR_PIN_AUTH_INVALID, d') \<and> dev_sim d d'
       else \<exists>d0. dev_sim d d0 \<and> c_aes_key (d_cr d0) = key
         \<and> ctap_update_pin_if_verified env pinEnc len pubkey pinAuth h d = update_pin_checked env (new_pin env key pinEnc len) h d0"
proof (cases "len < 64")
  case True
  then show ?thesis by (simp add: ctap_update_pin_if_verified_def)
next
  case len: False
  have ok: "crypto_ok (d_cr d)" using assms(2) by (simp add: dev_ok_def)
  show ?thesis
  proof (cases "session_secret env pubkey d")
    case None
    then show ?thesis using session_key_value[OF ok, of env pubkey] len open'
      by (auto simp: ctap_update_pin_if_verified_def)
  next
    case (Some key)
    obtain d1 where k: "length key = 32" "session_key env pubkey d = Inr (key, d1)" and s1: "dev_sim d d1"
      using session_key_value[OF ok, of env pubkey] Some by auto
    obtain hmac d2 where m: "update_pin_mac key pinEnc (nat len) h d1 = Inr (hmac, d2)" "dev_sim d1 d2"
      "take 16 hmac = take 16 pinAuth \<longleftrightarrow> update_mac_ok key pinEnc len pinAuth h"
      using update_mac_value[OF dev_sim_fields(7)[OF s1] k(1)] by blast
    have s2: "dev_sim d d2" by (rule dev_sim_trans[OF s1 m(2)])
    obtain c where a: "crypto_aes256_decrypt (env_lib env) (take (round16 (nat len)) pinEnc) (crypto_aes256_init (Key_Ptr key) None (d_cr d2))
       = (new_pin env key pinEnc len, c)" "cr_sim (d_cr d2) c" "c_aes_key c = key"
      using aes_run[OF dev_sim_fields(7)[OF s2] k(1)] unfolding new_pin_def by blast
    have s3: "dev_sim d (d2\<lparr>d_cr := c\<rparr>)" by (rule dev_sim_cr[OF s2 a(2)])
    have run: "ctap_update_pin_if_verified env pinEnc len pubkey pinAuth h d =
      (if \<not> update_mac_ok key pinEnc len pinAuth h then Inr (CTAP2_ERR_PIN_AUTH_INVALID, d2)
       else update_pin_checked env (new_pin env key pinEnc len) h (d2\<lparr>d_cr := c\<rparr>))"
      using len open' k(2) m(1,3) a(1) by (auto simp: ctap_update_pin_if_verified_def)
    show ?thesis
    proof (cases "update_mac_ok key pinEnc len pinAuth h")
      case True
      then show ?thesis using Some len run s3 a(3) by (auto intro!: exI[of _ "d2\<lparr>d_cr := c\<rparr>"])
    next
      case False
      then show ?thesis using Some len run s2 by auto
    qed
  qed
qed

subsection \<open>The effect of a command on the attempts\<close>

definition final_dev :: "ctap_dev + (int \<times> enc list \<times> ctap_dev) \<Rightarrow> ctap_dev" where
  "final_dev r = (case r of Inl d \<Rightarrow> d | Inr (_, _, d) \<Rightarrow> d)"

lemma final_dev_simps [simp]: "final_dev (Inl d) = d" "final_dev (Inr (a, b, d)) = d"
  by (simp_all add: final_dev_def)

text \<open>Whether a command gets to the comparison with the stored PIN, and its result: the device is open,
  the request parsed, complete and (for a change) authentic and long enough.\<close>

definition pin_compared :: "environ \<Rightarrow> enc_err \<Rightarrow> int \<Rightarrow> client_pin \<Rightarrow> ctap_dev \<Rightarrow> bool option" where
  "pin_compared env err ret CP d =
     (if ctap_device_locked d \<or> ctap_device_boot_locked d \<or> ret \<noteq> 0 \<or> cp_pinProtocol CP \<noteq> 1
         \<or> \<not> ctap_is_pin_set d \<or> cp_keyAgreementPresent CP = 0 \<or> cp_pinHashEncPresent CP = 0 then None
      else case session_secret env (cp_pubkey CP) d of None \<Rightarrow> None | Some key \<Rightarrow>
        if cp_subCommand CP = CP_cmdGetPinToken then
          case emits err [EMap (if cp_getRetries CP then 2 else 1), EInt RESP_pinToken] [] of
            Inl _ \<Rightarrow> None | Inr _ \<Rightarrow> Some (pin_right env key (cp_pinHashEnc CP) d)
        else if cp_subCommand CP = CP_cmdChangePin then
          let len = cp_newPinEncSize CP; pin = new_pin env key (cp_newPinEnc CP) len in
          if cp_pinAuthPresent CP \<noteq> 0 \<and> 64 \<le> len
             \<and> update_mac_ok key (cp_newPinEnc CP) len (cp_pinAuth CP) (Some (cp_pinHashEnc CP))
             \<and> 4 \<le> pin_len pin \<and> pin_len pin < 64
          then Some (pin_right env key (cp_pinHashEnc CP) d) else None
        else None)"

text \<open>Nothing of the attempt counters, the token or a set PIN changes.\<close>

definition unmoved :: "ctap_dev \<Rightarrow> ctap_dev \<Rightarrow> bool" where
  "unmoved d d' \<longleftrightarrow> dev_ok d' \<and> ctap_leftover_pin_attempts d' = ctap_leftover_pin_attempts d
     \<and> d_boot d' = d_boot d \<and> d_pin_token d' = d_pin_token d
     \<and> (ctap_is_pin_set d \<longrightarrow> d_st d' = d_st d)"

lemma unmoved_refl: "dev_ok d \<Longrightarrow> unmoved d d"
  by (simp add: unmoved_def)

lemma unmoved_sim: "dev_ok d \<Longrightarrow> dev_sim d d' \<Longrightarrow> unmoved d d'"
  by (simp add: unmoved_def dev_sim_ok dev_sim_fields ctap_leftover_pin_attempts_def)

lemma unmoved_stored: "pin_stored p d d' \<Longrightarrow> \<not> ctap_is_pin_set d \<Longrightarrow> unmoved d d'"
  by (simp add: pin_stored_def unmoved_def ctap_leftover_pin_attempts_def)

lemma unmoved_ka_pub: "dev_ok d \<Longrightarrow> unmoved d (d\<lparr>d_ka_pub := p\<rparr>)"
  by (simp add: unmoved_def dev_ok_def ctap_leftover_pin_attempts_def)

lemma enc_then_final:
  "(\<And>tr. final_dev (k tr) = d) \<Longrightarrow> final_dev (enc_then m d k) = d"
  by (cases m) simp_all

lemma client_pin_end_final [simp]: "final_dev (client_pin_end err g n mp d) = d"
  by (auto simp: client_pin_end_def intro!: enc_then_final split: option.split)

definition att_effect :: "bool option \<Rightarrow> ctap_dev \<Rightarrow> ctap_dev \<Rightarrow> bool" where
  "att_effect c d d' = (case c of None \<Rightarrow> unmoved d d' | Some False \<Rightarrow> charged d d' | Some True \<Rightarrow> restored d d')"

lemma change_pin_effect:
  assumes "env_ok env" "dev_ok d" "\<not> ctap_device_locked d" "\<not> ctap_device_boot_locked d" "ctap_is_pin_set d"
  shows "att_effect (case session_secret env pubkey d of None \<Rightarrow> None | Some key \<Rightarrow>
      if 64 \<le> len \<and> update_mac_ok key pinEnc len pinAuth (Some h)
         \<and> 4 \<le> pin_len (new_pin env key pinEnc len) \<and> pin_len (new_pin env key pinEnc len) < 64
      then Some (pin_right env key h d) else None) d
    (final_dev (seqE (ctap_update_pin_if_verified env pinEnc len pubkey pinAuth (Some h) d)
       (\<lambda>(ret, d). if ret \<noteq> 0 then Inr (ret, [], d) else client_pin_end err g n None d)))"
proof (cases "len < 64")
  case True
  then show ?thesis using update_pin_cases[OF assms(1,2), of len pinEnc pubkey pinAuth "Some h"] assms
    by (auto simp: att_effect_def unmoved_refl CTAP1_ERR_OTHER_def split: option.split)
next
  case len: False
  note u = update_pin_cases[OF assms(1,2), of len pinEnc pubkey pinAuth "Some h"]
  show ?thesis
  proof (cases "session_secret env pubkey d")
    case None
    then show ?thesis using u assms len by (simp add: att_effect_def unmoved_refl)
  next
    case (Some key)
    show ?thesis
    proof (cases "update_mac_ok key pinEnc len pinAuth (Some h)")
      case False
      then obtain d' where "ctap_update_pin_if_verified env pinEnc len pubkey pinAuth (Some h) d = Inr (CTAP2_ERR_PIN_AUTH_INVALID, d')"
        "dev_sim d d'" using u assms len Some by auto
      then show ?thesis using False Some unmoved_sim[OF assms(2)] by (auto simp: att_effect_def pin_codes)
    next
      case True
      then obtain d0 where d0: "dev_sim d d0" "c_aes_key (d_cr d0) = key"
        "ctap_update_pin_if_verified env pinEnc len pubkey pinAuth (Some h) d
          = update_pin_checked env (new_pin env key pinEnc len) (Some h) d0" using u assms len Some by auto
      have "\<not> (ctap_is_pin_set d \<and> (ctap_device_locked d \<or> ctap_device_boot_locked d))" using assms by simp
      note c = update_checked_value[OF assms(1,2) d0(1,2) this, of "new_pin env key pinEnc len" "Some h"]
      let ?pol = "4 \<le> pin_len (new_pin env key pinEnc len) \<and> pin_len (new_pin env key pinEnc len) < 64"
      consider "\<not> ?pol" | "?pol" "pin_right env key h d" | "?pol" "\<not> pin_right env key h d" by blast
      then show ?thesis
      proof cases
        case 1
        then show ?thesis using c True Some d0(3) unmoved_sim[OF assms(2) d0(1)]
          by (auto simp: att_effect_def pin_codes)
      next
        case 2
        then obtain d' where "update_pin_checked env (new_pin env key pinEnc len) (Some h) d0 = Inr (0, d')" "restored d d'"
          using c assms(5) by auto
        then show ?thesis using 2 True Some d0(3) len by (simp add: att_effect_def)
      next
        case 3
        then obtain d' where "update_pin_checked env (new_pin env key pinEnc len) (Some h) d0
          = Inr (if sint (d_boot d) = 1 then CTAP2_ERR_PIN_AUTH_BLOCKED else CTAP2_ERR_PIN_INVALID, d')" "charged d d'"
          using c assms(5) by auto
        then show ?thesis using 3 True Some d0(3) len by (simp add: att_effect_def pin_codes)
      qed
    qed
  qed
qed

lemma set_pin_effect:
  assumes "env_ok env" "dev_ok d" "\<not> ctap_is_pin_set d"
  shows "unmoved d (final_dev (seqE (ctap_update_pin_if_verified env pinEnc len pubkey pinAuth None d)
       (\<lambda>(ret, d). if ret \<noteq> 0 then Inr (ret, [], d) else client_pin_end err g n None d)))"
proof -
  note u = update_pin_cases[OF assms(1,2), of len pinEnc pubkey pinAuth None]
  consider "len < 64" | "\<not> len < 64" "session_secret env pubkey d = None"
    | key where "\<not> len < 64" "session_secret env pubkey d = Some key" "\<not> update_mac_ok key pinEnc len pinAuth None"
    | key where "\<not> len < 64" "session_secret env pubkey d = Some key" "update_mac_ok key pinEnc len pinAuth None"
    by (cases "session_secret env pubkey d") auto
  then show ?thesis
  proof cases
    case 1
    then show ?thesis using u assms by (simp add: unmoved_refl CTAP1_ERR_OTHER_def)
  next
    case 2
    then show ?thesis using u assms by (simp add: unmoved_refl)
  next
    case 3
    then show ?thesis using u assms unmoved_sim[OF assms(2)] by (auto simp: pin_codes)
  next
    case 4
    then obtain d0 where d0: "dev_sim d d0" "c_aes_key (d_cr d0) = key"
        "ctap_update_pin_if_verified env pinEnc len pubkey pinAuth None d
          = update_pin_checked env (new_pin env key pinEnc len) None d0" using u assms by auto
    have "\<not> (ctap_is_pin_set d \<and> (ctap_device_locked d \<or> ctap_device_boot_locked d))" using assms by simp
    note c = update_checked_value[OF assms(1,2) d0(1,2) this, of "new_pin env key pinEnc len" None]
    show ?thesis
    proof (cases "4 \<le> pin_len (new_pin env key pinEnc len) \<and> pin_len (new_pin env key pinEnc len) < 64")
      case True
      then show ?thesis using c assms(3) d0(3) unmoved_stored[OF _ assms(3)] by auto
    next
      case False
      then show ?thesis using c d0(3) unmoved_sim[OF assms(2) d0(1)] by (auto simp: pin_codes)
    qed
  qed
qed

end
