(* ===== verification/PinHistory.thy ===== *)
theory PinHistory
  imports PinProps
begin

text \<open>
  authClientPin as a whole: the effect of one command, the release of the PIN token, and histories of
  commands and power cycles.
\<close>

subsection \<open>One command\<close>

lemma pin_token_effect:
  assumes "env_ok env" "dev_ok d" "\<not> ctap_device_locked d" "\<not> ctap_device_boot_locked d"
  shows "att_effect (case session_secret env pubkey d of None \<Rightarrow> None | Some key \<Rightarrow> Some (pin_right env key h d)) d
    (final_dev (seqE (ctap_add_pin_if_verified env pubkey h d) (\<lambda>(ret, t, d).
       if ret \<noteq> 0 then Inr (ret, [], d)
       else enc_then (emits err [EBytes t] tr) d (\<lambda>tr. client_pin_end err g n (Some tr) d))))"
proof (cases "session_secret env pubkey d")
  case None
  have "ctap_add_pin_if_verified env pubkey h d = Inl d"
    using session_key_value[OF dev_ok_crypto[OF assms(2)], of env pubkey] None
    by (simp add: ctap_add_pin_if_verified_def)
  then show ?thesis using None by (simp add: att_effect_def unmoved_refl[OF assms(2)])
next
  case (Some key)
  note a = add_pin_value[OF assms Some, of h]
  show ?thesis
  proof (cases "pin_right env key h d")
    case True
    then show ?thesis using a Some by (auto simp: att_effect_def enc_then_final)
  next
    case False
    then show ?thesis using a Some by (auto simp: att_effect_def pin_codes)
  qed
qed

lemma cp_retries_effect: "dev_ok d \<Longrightarrow> unmoved d (final_dev (cp_get_retries err n d))"
  by (cases "emits err [EMap 1] []") (simp_all add: cp_get_retries_def unmoved_refl)

lemma cp_key_agreement_effect:
  assumes "dev_ok d"
  shows "unmoved d (final_dev (cp_get_key_agreement env err g n d))"
proof (cases "emits err [EMap (n + 1), EInt RESP_keyAgreement] []")
  case (Inl e)
  then show ?thesis using assms
    by (auto simp: cp_get_key_agreement_def unmoved_refl enc_then_def split: if_splits)
next
  case (Inr tr)
  let ?p = "crypto_ecc256_compute_public_key (env_lib env) (d_ka_priv d)"
  have "final_dev (cp_get_key_agreement env err g n d) = d\<lparr>d_ka_pub := ?p\<rparr>"
    using Inr by (auto simp: cp_get_key_agreement_def Let_def intro!: enc_then_final split: if_splits)
  then show ?thesis by (simp add: unmoved_ka_pub[OF assms])
qed

lemma cp_set_effect:
  "env_ok env \<Longrightarrow> dev_ok d \<Longrightarrow> unmoved d (final_dev (cp_set_pin env err CP n d))"
  using set_pin_effect[of env d] by (simp add: cp_set_pin_def unmoved_refl)

definition change_complete :: "client_pin \<Rightarrow> ctap_dev \<Rightarrow> bool" where
  "change_complete CP d \<longleftrightarrow> ctap_is_pin_set d \<and> cp_newPinEncSize CP \<noteq> 0 \<and> cp_pinAuthPresent CP \<noteq> 0
     \<and> cp_keyAgreementPresent CP \<noteq> 0 \<and> cp_pinHashEncPresent CP \<noteq> 0"

lemma cp_change_effect:
  assumes "env_ok env" "dev_ok d" "\<not> ctap_device_locked d" "\<not> ctap_device_boot_locked d"
    and cp: "cp_pinProtocol CP = 1" "cp_subCommand CP = CP_cmdChangePin"
  shows "att_effect (pin_compared env err 0 CP d) d (final_dev (cp_change_pin env err CP n d))"
proof (cases "change_complete CP d")
  case True
  let ?len = "cp_newPinEncSize CP"
  have "pin_compared env err 0 CP d = (case session_secret env (cp_pubkey CP) d of None \<Rightarrow> None | Some key \<Rightarrow>
     if 64 \<le> ?len \<and> update_mac_ok key (cp_newPinEnc CP) ?len (cp_pinAuth CP) (Some (cp_pinHashEnc CP))
       \<and> 4 \<le> pin_len (new_pin env key (cp_newPinEnc CP) ?len) \<and> pin_len (new_pin env key (cp_newPinEnc CP) ?len) < 64
     then Some (pin_right env key (cp_pinHashEnc CP) d) else None)"
    using True assms(3,4) cp
    by (simp add: pin_compared_def cp_nums Let_def change_complete_def split: option.split)
  then show ?thesis using True change_pin_effect[OF assms(1-4), where pubkey = "cp_pubkey CP" and len = ?len
      and pinEnc = "cp_newPinEnc CP" and pinAuth = "cp_pinAuth CP" and h = "cp_pinHashEnc CP" and err = err
      and g = "cp_getRetries CP" and n = n]
    by (simp add: cp_change_pin_def change_complete_def)
next
  case False
  then have "pin_compared env err 0 CP d = None"
    using cp by (auto simp: pin_compared_def cp_nums Let_def change_complete_def split: option.split)
  moreover have "final_dev (cp_change_pin env err CP n d) = d"
    using False by (auto simp: cp_change_pin_def change_complete_def)
  ultimately show ?thesis by (simp add: att_effect_def unmoved_refl[OF assms(2)])
qed

definition token_complete :: "enc_err \<Rightarrow> client_pin \<Rightarrow> nat \<Rightarrow> ctap_dev \<Rightarrow> bool" where
  "token_complete err CP n d \<longleftrightarrow> ctap_is_pin_set d \<and> cp_keyAgreementPresent CP \<noteq> 0 \<and> cp_pinHashEncPresent CP \<noteq> 0
     \<and> err [] (EMap (n + 1)) = 0 \<and> err [EMap (n + 1)] (EInt RESP_pinToken) = 0"

lemma token_run:
  "final_dev (cp_get_pin_token env err CP n d) =
    (if token_complete err CP n d then
       final_dev (seqE (ctap_add_pin_if_verified env (cp_pubkey CP) (cp_pinHashEnc CP) d) (\<lambda>(ret, t, d).
         if ret \<noteq> 0 then Inr (ret, [], d)
         else enc_then (emits err [EBytes t] [EMap (Suc n), EInt RESP_pinToken]) d
                (\<lambda>tr. client_pin_end err (cp_getRetries CP) (n + 1) (Some tr) d)))
     else d)"
  by (auto simp: cp_get_pin_token_def token_complete_def)

lemma token_compared:
  assumes "\<not> ctap_device_locked d" "\<not> ctap_device_boot_locked d" "cp_pinProtocol CP = 1" "cp_subCommand CP = CP_cmdGetPinToken"
  shows "pin_compared env err 0 CP d = (if token_complete err CP (if cp_getRetries CP then 1 else 0) d then
      case session_secret env (cp_pubkey CP) d of None \<Rightarrow> None | Some key \<Rightarrow> Some (pin_right env key (cp_pinHashEnc CP) d)
    else None)"
proof -
  define n where "n = (if cp_getRetries CP then 1 else (0 :: nat))"
  have k: "(if cp_getRetries CP then 2 else 1) = n + 1" by (simp add: n_def)
  show ?thesis
    unfolding pin_compared_def k n_def[symmetric] using assms by (auto simp: token_complete_def split: option.split)
qed

lemma cp_token_effect:
  assumes "env_ok env" "dev_ok d" "\<not> ctap_device_locked d" "\<not> ctap_device_boot_locked d"
    and cp: "cp_pinProtocol CP = 1" "cp_subCommand CP = CP_cmdGetPinToken"
  shows "att_effect (pin_compared env err 0 CP d) d
    (final_dev (cp_get_pin_token env err CP (if cp_getRetries CP then 1 else 0) d))"
proof -
  define n where "n = (if cp_getRetries CP then 1 else (0 :: nat))"
  note p = token_compared[OF assms(3,4) cp, of env err, folded n_def]
  have "att_effect (pin_compared env err 0 CP d) d (final_dev (cp_get_pin_token env err CP n d))"
  proof (cases "token_complete err CP n d")
    case True
    then show ?thesis unfolding token_run p if_P[OF True] by (intro pin_token_effect assms)
  qed (simp add: token_run p att_effect_def unmoved_refl[OF assms(2)])
  then show ?thesis by (simp add: n_def)
qed

lemma client_pin_effect:
  assumes "env_ok env" "dev_ok d"
  shows "att_effect (pin_compared env err ret CP d) d (final_dev (ctap_client_pin env err ret CP d))"
proof -
  let ?c = "cp_subCommand CP" and ?n = "if cp_getRetries CP then 1 else (0::nat)"
  have kept: ?thesis if "pin_compared env err ret CP d = None" "unmoved d (final_dev (ctap_client_pin env err ret CP d))"
    using that by (simp add: att_effect_def)
  note u = unmoved_refl[OF assms(2)] cp_retries_effect[OF assms(2)] cp_key_agreement_effect[OF assms(2)]
    cp_set_effect[OF assms]
  consider (early) "ret \<noteq> 0 \<or> cp_pinProtocol CP \<noteq> 1 \<or> ?c = 0
      \<or> (ctap_device_locked d \<or> ctap_device_boot_locked d) \<and> ?c \<in> {CP_cmdSetPin, CP_cmdChangePin, CP_cmdGetPinToken}"
    | (other) "ret = 0" "cp_pinProtocol CP = 1" "?c \<noteq> 0" "?c \<noteq> CP_cmdChangePin" "?c \<noteq> CP_cmdGetPinToken"
       "?c = CP_cmdSetPin \<longrightarrow> \<not> ctap_device_locked d \<and> \<not> ctap_device_boot_locked d"
    | (change) "ret = 0" "cp_pinProtocol CP = 1" "?c = CP_cmdChangePin" "\<not> ctap_device_locked d" "\<not> ctap_device_boot_locked d"
    | (token) "ret = 0" "cp_pinProtocol CP = 1" "?c = CP_cmdGetPinToken" "\<not> ctap_device_locked d" "\<not> ctap_device_boot_locked d"
    by blast
  then show ?thesis
  proof cases
    case early
    have "final_dev (ctap_client_pin env err ret CP d) = d" using early by (auto simp: ctap_client_pin_def Let_def)
    moreover have "pin_compared env err ret CP d = None" using early
      by (auto simp: pin_compared_def cp_nums split: option.split)
    ultimately show ?thesis using kept u(1) by simp
  next
    case other
    have "pin_compared env err ret CP d = None" using other by (simp add: pin_compared_def split: option.split)
    moreover have "unmoved d (final_dev (ctap_client_pin env err ret CP d))"
      using other u by (simp add: ctap_client_pin_def Let_def cp_nums)
    ultimately show ?thesis using kept by blast
  next
    case change
    then have "ctap_client_pin env err ret CP d = cp_change_pin env err CP ?n d"
      by (simp add: ctap_client_pin_def Let_def cp_nums)
    then show ?thesis using cp_change_effect[OF assms] change by simp
  next
    case token
    then have "ctap_client_pin env err ret CP d = cp_get_pin_token env err CP ?n d"
      by (simp add: ctap_client_pin_def Let_def cp_nums)
    then show ?thesis using cp_token_effect[OF assms] token by simp
  qed
qed

subsection \<open>Histories\<close>

text \<open>\<open>pin_hist env d n m d'\<close>: commands and clean power cycles lead from \<open>d\<close> to \<open>d'\<close>, no right PIN was
  entered, \<open>n\<close> wrong ones were, \<open>m\<close> of them since the last power-up. A command that ends in \<open>exit(1)\<close>
  leaves the device as it was then.\<close>

inductive pin_hist :: "environ \<Rightarrow> ctap_dev \<Rightarrow> nat \<Rightarrow> nat \<Rightarrow> ctap_dev \<Rightarrow> bool" for env d where
  start: "pin_hist env d 0 0 d"
| no_test: "\<lbrakk>pin_hist env d n m d1; pin_compared env err ret CP d1 = None\<rbrakk>
      \<Longrightarrow> pin_hist env d n m (final_dev (ctap_client_pin env err ret CP d1))"
| wrong: "\<lbrakk>pin_hist env d n m d1; pin_compared env err ret CP d1 = Some False\<rbrakk>
      \<Longrightarrow> pin_hist env d (Suc n) (Suc m) (final_dev (ctap_client_pin env err ret CP d1))"
| power: "\<lbrakk>pin_hist env d n m d1; ctap_init env (power_up (d_flash d1) p) = Inr d2\<rbrakk>
      \<Longrightarrow> pin_hist env d n 0 d2"

lemma pin_hist_counts:
  assumes env: "env_ok env" and hist: "pin_hist env d n m d'" and d: "dev_ok d" and b: "sint (d_boot d) = 3"
  shows "dev_ok d' \<and> ctap_leftover_pin_attempts d' = ctap_leftover_pin_attempts d - int n \<and> sint (d_boot d') = 3 - int m"
  using hist
proof (induction rule: pin_hist.induct)
  case start
  then show ?case using d b by simp
next
  case (no_test n m d1 err ret CP)
  then show ?case using client_pin_effect[OF env, of d1 err ret CP]
    by (auto simp: att_effect_def unmoved_def)
next
  case (wrong n m d1 err ret CP)
  then show ?case using client_pin_effect[OF env, of d1 err ret CP]
    by (auto simp: att_effect_def charged_def)
next
  case (power n m d1 p d2)
  then have "dev_ok d1" by simp
  then have s: "stored_twice (d_st d1) (d_flash d1)" "state_wf (d_st d1)" "as_init (d_st d1) = INITIALIZED_MARKER"
    "as_version (d_st d1) = STATE_VERSION" by (simp_all add: dev_ok_def)
  obtain d3 where "ctap_init env (power_up (d_flash d1) p) = Inr d3" "d_st d3 = d_st d1" "d_flash d3 = d_flash d1"
    "d_boot d3 = PIN_BOOT_ATTEMPTS" "crypto_ok (d_cr d3)" "length (d_pin_token d3) = 16"
    using init_stored[OF s, of env p] by blast
  then show ?case using power s
    by (auto simp: dev_ok_def ctap_leftover_pin_attempts_def PIN_BOOT_ATTEMPTS_def)
qed

lemma wrong_only_open:
  "pin_compared env err ret CP d = Some b \<Longrightarrow> \<not> ctap_device_locked d \<and> \<not> ctap_device_boot_locked d"
  by (auto simp: pin_compared_def split: if_splits)

lemma pin_hist_bounds:
  assumes env: "env_ok env" and hist: "pin_hist env d n m d'" and d: "dev_ok d" and b: "sint (d_boot d) = 3"
    and t: "0 \<le> ctap_leftover_pin_attempts d"
  shows "int n \<le> ctap_leftover_pin_attempts d \<and> m \<le> 3"
  using hist
proof (induction rule: pin_hist.induct)
  case (wrong n m d1 err ret CP)
  have "\<not> ctap_device_locked d1" "\<not> ctap_device_boot_locked d1" using wrong_only_open[OF wrong(2)] by auto
  then show ?case using pin_hist_counts[OF env wrong(1) d b]
    by (auto simp: ctap_device_locked_def ctap_device_boot_locked_def ctap_leftover_pin_attempts_def)
qed (use t in auto)

text \<open>C1 (safety). Guessing is bounded: over any sequence of authClientPin commands, well formed or not,
  and power cycles, in which the right PIN is never entered, at most as many wrong PINs are tested as
  attempts were left (eight after a reset), and at most three in one power period; every wrong test is
  charged to the counter in flash, and once it is used up no further PIN is tested.\<close>

theorem pin_guesses_bounded:
  assumes "env_ok env" "dev_ok d" "sint (d_boot d) = 3" "0 \<le> ctap_leftover_pin_attempts d" "pin_hist env d n m d'"
  shows "int n \<le> ctap_leftover_pin_attempts d \<and> m \<le> 3
    \<and> sint (as_tries (d_st d')) = ctap_leftover_pin_attempts d - int n \<and> stored_twice (d_st d') (d_flash d')
    \<and> (int n = ctap_leftover_pin_attempts d \<longrightarrow> pin_compared env err ret CP d' = None)"
proof -
  note c = pin_hist_counts[OF assms(1,5,2,3)]
  have "ctap_device_locked d'" if "int n = ctap_leftover_pin_attempts d"
    using c that by (simp add: ctap_device_locked_def ctap_leftover_pin_attempts_def)
  then show ?thesis using pin_hist_bounds[OF assms(1,5,2,3,4)] c
    by (auto simp: ctap_leftover_pin_attempts_def dev_ok_def pin_compared_def)
qed

text \<open>A token request for the examples, and a device with a given stored hash.\<close>

definition token_req :: "bytes \<Rightarrow> client_pin" where
  "token_req h = \<lparr>cp_pinProtocol = 1, cp_subCommand = 5, cp_keyAgreement = cose_zero, cp_keyAgreementPresent = 1,
     cp_pinAuth = zeros 16, cp_pinAuthPresent = 0, cp_newPinEnc = zeros 256, cp_newPinEncSize = 0,
     cp_pinHashEnc = h, cp_pinHashEncPresent = 1, cp_getKeyAgreement = False, cp_getRetries = False\<rparr>"

definition dev_with_hash :: "bytes \<Rightarrow> ctap_dev" where
  "dev_with_hash h = ctap_flush_state env0 (dev0\<lparr>d_st := (d_st dev0)\<lparr>as_pin_set := 1, as_pin_hash := h\<rparr>\<rparr>)"

lemma dev_with_hash_ok:
  assumes "length h = 32"
  shows "dev_ok (dev_with_hash h)" "ctap_is_pin_set (dev_with_hash h)" "ctap_leftover_pin_attempts (dev_with_hash h) = 8"
    "sint (d_boot (dev_with_hash h)) = 3" "as_pin_hash (d_st (dev_with_hash h)) = h"
    "as_salt (d_st (dev_with_hash h)) = as_salt (d_st dev0)"
proof -
  have ok: "state_wf (d_st dev0)" "as_init (d_st dev0) = INITIALIZED_MARKER" "as_version (d_st dev0) = STATE_VERSION"
    "crypto_ok (d_cr dev0)" "length (d_pin_token dev0) = 16" using dev0_ok(1) by (simp_all add: dev_ok_def)
  show "dev_ok (dev_with_hash h)" unfolding dev_with_hash_def
    using ok assms by (intro dev_ok_flush[OF env0_ok]) (simp_all add: state_wf_def)
  show "ctap_is_pin_set (dev_with_hash h)" "ctap_leftover_pin_attempts (dev_with_hash h) = 8"
    "sint (d_boot (dev_with_hash h)) = 3" "as_pin_hash (d_st (dev_with_hash h)) = h"
    "as_salt (d_st (dev_with_hash h)) = as_salt (d_st dev0)"
    using dev0_ok(3,4) by (simp_all add: dev_with_hash_def ctap_is_pin_set_def ctap_leftover_pin_attempts_def)
qed

lemma token_req_compared:
  assumes "length h = 32" "length e = 16"
  shows "pin_compared env0 (\<lambda>_ _. 0) 0 (token_req e) (dev_with_hash h)
     = Some (take 16 (sha256 (e @ as_salt (d_st dev0))) = take 16 h)"
proof -
  note k = dev_with_hash_ok[OF assms(1)]
  have "\<not> ctap_device_locked (dev_with_hash h)" "\<not> ctap_device_boot_locked (dev_with_hash h)"
    using k(3,4) by (simp_all add: ctap_device_locked_def ctap_device_boot_locked_def ctap_leftover_pin_attempts_def)
  moreover have "env_lib env0 = toy_lib" by (simp add: env0_def)
  ultimately show ?thesis using k assms(2)
    by (simp add: pin_compared_def token_req_def cp_nums session_secret_def toy_lib_def pin_right_def)
qed

theorem pin_guesses_bounded_witness:
  "\<exists>d d'. pin_hist env0 d 1 1 d' \<and> sint (as_tries (d_st d')) = 7"
proof -
  define x where "x = sha256 (zeros 16 @ as_salt (d_st dev0))"
  define h where "h = map (\<lambda>b. NOT b) x"
  have l: "length h = 32" by (simp add: h_def x_def)
  have "bit (NOT (x ! 0)) 0 \<noteq> bit (x ! 0) 0" by (simp add: bit_not_iff)
  then have "take 16 x ! 0 \<noteq> take 16 h ! 0" using l by (auto simp: h_def)
  then have "take 16 x \<noteq> take 16 h" by metis
  then have c: "pin_compared env0 (\<lambda>_ _. 0) 0 (token_req (zeros 16)) (dev_with_hash h) = Some False"
    using token_req_compared[OF l, of "zeros 16"] by (simp add: x_def)
  note k = dev_with_hash_ok[OF l]
  have p: "pin_hist env0 (dev_with_hash h) 1 1 (final_dev (ctap_client_pin env0 (\<lambda>_ _. 0) 0 (token_req (zeros 16)) (dev_with_hash h)))"
    using pin_hist.wrong[OF pin_hist.start c] by simp
  then show ?thesis using pin_guesses_bounded[OF env0_ok k(1,4) _ p] k(3) by auto
qed


subsection \<open>Release of the token\<close>

text \<open>C3 (functional). On an open device with a PIN, getPinToken answers with the PIN token encrypted under
  the session key exactly when the request carries the right PIN hash under that key, and restores both
  counters; a wrong one is answered with PIN_INVALID, or PIN_AUTH_BLOCKED when it was the third of this
  power period, with no data, and costs one attempt.\<close>

theorem pin_token_release:
  assumes "env_ok env" "dev_ok d" "\<not> ctap_device_locked d" "\<not> ctap_device_boot_locked d" "ctap_is_pin_set d"
    and "cp_pinProtocol CP = 1" "cp_subCommand CP = CP_cmdGetPinToken"
    and "cp_keyAgreementPresent CP \<noteq> 0" "cp_pinHashEncPresent CP \<noteq> 0"
    and "session_secret env (cp_pubkey CP) d = Some key"
  shows "if pin_right env key (cp_pinHashEnc CP) d
    then \<exists>d'. ctap_client_pin env (\<lambda>_ _. 0) 0 CP d = Inr (0,
        (if cp_getRetries CP then [EMap 2] else [EMap 1])
          @ [EInt RESP_pinToken, EBytes (l_cbc_enc (env_lib env) key (replicate 16 0) (d_pin_token d))]
          @ (if cp_getRetries CP then [EInt RESP_retries, EInt 8] else []) @ [EClose], d') \<and> restored d d'
    else \<exists>d'. ctap_client_pin env (\<lambda>_ _. 0) 0 CP d
      = Inr (if sint (d_boot d) = 1 then CTAP2_ERR_PIN_AUTH_BLOCKED else CTAP2_ERR_PIN_INVALID, [], d') \<and> charged d d'"
proof -
  note a = add_pin_value[OF assms(1-4,10), of "cp_pinHashEnc CP"]
  have run: "ctap_client_pin env (\<lambda>_ _. 0) 0 CP d = cp_get_pin_token env (\<lambda>_ _. 0) CP (if cp_getRetries CP then 1 else 0) d"
    using assms(3,4,6,7) by (simp add: ctap_client_pin_def Let_def cp_nums)
  show ?thesis
  proof (cases "pin_right env key (cp_pinHashEnc CP) d")
    case True
    then obtain d' where "ctap_add_pin_if_verified env (cp_pubkey CP) (cp_pinHashEnc CP) d
       = Inr (0, l_cbc_enc (env_lib env) key (replicate 16 0) (d_pin_token d), d')" "restored d d'" using a by auto
    then show ?thesis using True assms(5,8,9)
      by (cases "cp_getRetries CP") (simp_all add: run cp_get_pin_token_def client_pin_end_def restored_def numeral_2_eq_2)
  next
    case False
    then obtain d' where "ctap_add_pin_if_verified env (cp_pubkey CP) (cp_pinHashEnc CP) d
       = Inr (if sint (d_boot d) = 1 then CTAP2_ERR_PIN_AUTH_BLOCKED else CTAP2_ERR_PIN_INVALID, [], d')" "charged d d'" using a by auto
    then show ?thesis using False assms(5,8,9) by (simp add: run cp_get_pin_token_def pin_codes)
  qed
qed

theorem pin_token_release_witness:
  "\<exists>d d' tr. ctap_client_pin env0 (\<lambda>_ _. 0) 0 (token_req (zeros 16)) d = Inr (0, tr, d') \<and> EBytes (d_pin_token d) \<in> set tr"
proof -
  define h where "h = sha256 (zeros 16 @ as_salt (d_st dev0))"
  have l: "length h = 32" by (simp add: h_def)
  note k = dev_with_hash_ok[OF l]
  let ?d = "dev_with_hash h"
  have op: "\<not> ctap_device_locked ?d" "\<not> ctap_device_boot_locked ?d"
    using k(3,4) by (simp_all add: ctap_device_locked_def ctap_device_boot_locked_def ctap_leftover_pin_attempts_def)
  have e: "env_lib env0 = toy_lib" by (simp add: env0_def)
  have s: "\<exists>key. session_secret env0 (cp_pubkey (token_req (zeros 16))) ?d = Some key"
    by (simp add: session_secret_def e toy_lib_def)
  then obtain key where s: "session_secret env0 (cp_pubkey (token_req (zeros 16))) ?d = Some key" by blast
  have "pin_right env0 key (cp_pinHashEnc (token_req (zeros 16))) ?d"
    using k(5,6) by (simp add: pin_right_def e toy_lib_def token_req_def h_def)
  then obtain d' where "ctap_client_pin env0 (\<lambda>_ _. 0) 0 (token_req (zeros 16)) ?d
      = Inr (0, [EMap 1, EInt 2, EBytes (d_pin_token ?d), EClose], d')"
    using pin_token_release[OF env0_ok k(1) op k(2) _ _ _ _ s] by (auto simp: token_req_def cp_nums e toy_lib_def)
  then show ?thesis by (intro exI conjI, assumption) simp
qed

text \<open>A locked device answers setPIN, changePIN and getPinToken with PIN_BLOCKED, and one that
  has used its three attempts of this power period with PIN_AUTH_BLOCKED, whatever the request, and
  changes nothing.\<close>

lemma pin_blocked:
  assumes "cp_subCommand CP \<in> {CP_cmdSetPin, CP_cmdChangePin, CP_cmdGetPinToken}"
    and "ctap_device_locked d \<or> ctap_device_boot_locked d"
  shows "ctap_client_pin env err ret CP d
     = Inr (if ctap_device_locked d then CTAP2_ERR_PIN_BLOCKED else CTAP2_ERR_PIN_AUTH_BLOCKED, [], d)"
  using assms by (auto simp: ctap_client_pin_def Let_def)

end
