(* ===== verification/PinSet.thy ===== *)
theory PinSet
  imports PinHistory
begin

text \<open>
  Setting a PIN and using it: the padding of the new PIN, the round trip from setPIN to getPinToken, and
  the MACs under the PIN token that guard the other commands.
\<close>

subsection \<open>Padding\<close>

lemma trailing_zeros_val:
  "\<lbrakk>j \<le> i; \<And>k. j < k \<Longrightarrow> k \<le> i \<Longrightarrow> buf ! k = 0; j = 0 \<or> buf ! j \<noteq> 0\<rbrakk> \<Longrightarrow> trailing_zeros buf i = i - j"
proof (induction i)
  case (Suc i)
  show ?case
  proof (cases "j = Suc i")
    case False
    then have "buf ! Suc i = 0" "j \<le> i" using Suc(2,3) by auto
    then show ?thesis using Suc(1)[OF _ Suc(3) Suc(4)] by simp
  qed (use Suc(4) in simp)
qed simp

definition pad_pin :: "bytes \<Rightarrow> bytes" where
  "pad_pin p = p @ zeros (64 - length p)"

lemma pin_len_pad:
  assumes "p \<noteq> []" "last p \<noteq> 0" "length p < 64"
  shows "pin_len (pad_pin p) = length p" "take (length p) (pad_pin p) = p"
proof -
  have l: "last p = p ! (length p - 1)" by (rule last_conv_nth[OF assms(1)])
  have n: "0 < length p" using assms(1) by simp
  have "trailing_zeros (pad_pin p) 63 = 63 - (length p - 1)"
  proof (rule trailing_zeros_val)
    fix k assume "length p - 1 < k" "k \<le> 63"
    then show "pad_pin p ! k = 0" using assms(3) by (auto simp: pad_pin_def nth_append zeros_def)
  next
    show "length p - 1 = 0 \<or> pad_pin p ! (length p - 1) \<noteq> 0"
      using assms(2) l n by (auto simp: pad_pin_def nth_append)
  qed (use assms(3) in simp)
  then show "pin_len (pad_pin p) = length p" using n assms(3) by (simp add: pin_len_def)
  show "take (length p) (pad_pin p) = p" by (simp add: pad_pin_def)
qed

text \<open>What AES-256-CBC promises on whole blocks.\<close>

definition cbc_ok :: "crypto_lib \<Rightarrow> bool" where
  "cbc_ok lib \<longleftrightarrow> (\<forall>k iv b. length k = 32 \<longrightarrow> length iv = 16 \<longrightarrow> length b mod 16 = 0 \<longrightarrow>
     l_cbc_dec lib k iv (l_cbc_enc lib k iv b) = b \<and> length (l_cbc_enc lib k iv b) = length b)"

lemma session_secret_len: "session_secret env pub d = Some key \<Longrightarrow> length key = 32"
  by (auto simp: session_secret_def)

lemma cbc_okD:
  assumes "cbc_ok lib" "length k = 32" "length b mod 16 = 0"
  shows "l_cbc_dec lib k (replicate 16 0) (l_cbc_enc lib k (replicate 16 0) b) = b"
    "length (l_cbc_enc lib k (replicate 16 0) b) = length b"
  using assms by (simp_all add: cbc_ok_def)

lemma right_after_store:
  assumes "cbc_ok (env_lib env)" "length key = 32" "as_pin_hash (d_st d) = pin_digest p (as_salt (d_st d))"
  shows "pin_right env key (l_cbc_enc (env_lib env) key (replicate 16 0) (take 16 (sha256 p))) d"
  using cbc_okD[OF assms(1,2), of "take 16 (sha256 p)"] assms(3)
  by (simp add: pin_right_def pin_digest_def)

subsection \<open>Round trip\<close>

text \<open>The requests of a platform that knows the session key.\<close>

definition set_req :: "environ \<Rightarrow> bytes \<Rightarrow> cose_key \<Rightarrow> bytes \<Rightarrow> client_pin" where
  "set_req env key pub p =
     (let enc = l_cbc_enc (env_lib env) key (replicate 16 0) (pad_pin p) in
      (token_req [])\<lparr>cp_subCommand := 3, cp_keyAgreement := pub, cp_newPinEnc := enc, cp_newPinEncSize := 64,
        cp_pinAuth := take 16 (hmac_sha256 key enc), cp_pinAuthPresent := 1\<rparr>)"

definition get_req :: "environ \<Rightarrow> bytes \<Rightarrow> cose_key \<Rightarrow> bytes \<Rightarrow> client_pin" where
  "get_req env key pub p =
     (token_req (l_cbc_enc (env_lib env) key (replicate 16 0) (take 16 (sha256 p))))\<lparr>cp_keyAgreement := pub\<rparr>"

lemma set_pin_run:
  assumes "env_ok env" "cbc_ok (env_lib env)" "dev_ok d" "\<not> ctap_is_pin_set d"
    and "\<not> ctap_device_locked d" "\<not> ctap_device_boot_locked d"
    and p: "4 \<le> length p" "length p < 64" "last p \<noteq> 0"
    and key: "session_secret env (ck_x pub @ ck_y pub) d = Some key"
  shows "\<exists>d'. ctap_client_pin env err 0 (set_req env key pub p) d = Inr (0, [], d') \<and> pin_stored p d d'"
proof -
  let ?CP = "set_req env key pub p" and ?enc = "l_cbc_enc (env_lib env) key (replicate 16 0) (pad_pin p)"
  have kl: "length key = 32" by (rule session_secret_len[OF key])
  have pp: "length (pad_pin p) = 64" using p by (simp add: pad_pin_def)
  then have e: "l_cbc_dec (env_lib env) key (replicate 16 0) ?enc = pad_pin p" "length ?enc = 64"
    using cbc_okD[OF assms(2) kl, of "pad_pin p"] by simp_all
  have mac: "update_mac_ok key ?enc 64 (take 16 (hmac_sha256 key ?enc)) None" using e(2) by (simp add: update_mac_ok_def)
  have np: "new_pin env key ?enc 64 = pad_pin p" using e by (simp add: new_pin_def round16_def)
  note pl = pin_len_pad[OF _ p(3,2)]
  have ne: "p \<noteq> []" using p(1) by auto
  have op: "\<not> (ctap_is_pin_set d \<and> (ctap_device_locked d \<or> ctap_device_boot_locked d))" using assms(4) by simp
  obtain d0 where d0: "dev_sim d d0" "c_aes_key (d_cr d0) = key"
    "ctap_update_pin_if_verified env ?enc 64 (ck_x pub @ ck_y pub) (take 16 (hmac_sha256 key ?enc)) None d
       = update_pin_checked env (pad_pin p) None d0"
    using update_pin_cases[OF assms(1,3) op, of 64 ?enc "ck_x pub @ ck_y pub" "take 16 (hmac_sha256 key ?enc)" None] key mac np
    by auto
  obtain d' where "update_pin_checked env (pad_pin p) None d0 = Inr (0, d')" "pin_stored p d d'"
    using update_checked_value[OF assms(1,3) d0(1,2) op, of "pad_pin p" None] assms(4) pl[OF ne] p by auto
  then show ?thesis using assms(4-6) d0(3)
    by (simp add: ctap_client_pin_def Let_def cp_nums set_req_def token_req_def cp_set_pin_def cp_pubkey_def client_pin_end_def)
qed

text \<open>\<open>pin_life env d d'\<close>: any authClientPin commands and power cycles lead from \<open>d\<close> to \<open>d'\<close>, except a change of the PIN that proved
  the old one.\<close>

inductive pin_life :: "environ \<Rightarrow> ctap_dev \<Rightarrow> ctap_dev \<Rightarrow> bool" for env d where
  life_start: "pin_life env d d"
| life_command: "\<lbrakk>pin_life env d d1; pin_compared env err ret CP d1 = Some True \<Longrightarrow> cp_subCommand CP = CP_cmdGetPinToken\<rbrakk>
      \<Longrightarrow> pin_life env d (final_dev (ctap_client_pin env err ret CP d1))"
| life_power: "\<lbrakk>pin_life env d d1; ctap_init env (power_up (d_flash d1) pos) = Inr d2\<rbrakk> \<Longrightarrow> pin_life env d d2"

text \<open>The device knows the PIN \<open>p\<close> (a device that locked itself has wiped the hash).\<close>

definition knows_pin :: "bytes \<Rightarrow> ctap_dev \<Rightarrow> bool" where
  "knows_pin p d \<longleftrightarrow> dev_ok d \<and> ctap_is_pin_set d \<and> (ctap_device_locked d \<or> as_pin_hash (d_st d) = pin_digest p (as_salt (d_st d)))"

lemma right_token_keeps:
  assumes "env_ok env" "dev_ok d" "pin_compared env err ret CP d = Some True" "cp_subCommand CP = CP_cmdGetPinToken"
  shows "restored d (final_dev (ctap_client_pin env err ret CP d))
    \<and> as_pin_hash (d_st (final_dev (ctap_client_pin env err ret CP d))) = as_pin_hash (d_st d)"
proof -
  let ?n = "if cp_getRetries CP then 1 else (0 :: nat)"
  have cp: "ret = 0" "cp_pinProtocol CP = 1" "\<not> ctap_device_locked d" "\<not> ctap_device_boot_locked d"
    using assms(3) by (auto simp: pin_compared_def split: if_splits)
  obtain key where key: "session_secret env (cp_pubkey CP) d = Some key" "pin_right env key (cp_pinHashEnc CP) d"
      "token_complete err CP ?n d"
    using assms(3) cp(1) token_compared[OF cp(3,4,2) assms(4), of env err] by (auto split: option.splits if_splits)
  obtain t d' where a: "ctap_add_pin_if_verified env (cp_pubkey CP) (cp_pinHashEnc CP) d = Inr (0, t, d')" "restored d d'"
      "as_pin_hash (d_st d') = as_pin_hash (d_st d)"
    using add_pin_value[OF assms(1,2) cp(3,4) key(1), of "cp_pinHashEnc CP"] key(2) by auto
  have "ctap_client_pin env err ret CP d = cp_get_pin_token env err CP ?n d"
    using cp assms(4) by (simp add: ctap_client_pin_def Let_def cp_nums)
  then have "final_dev (ctap_client_pin env err ret CP d) = d'"
    using key(3) a(1) by (simp add: token_run enc_then_final)
  then show ?thesis using a by simp
qed

lemma unmoved_knows: "unmoved d d' \<Longrightarrow> knows_pin p d \<Longrightarrow> knows_pin p d'"
  by (simp add: unmoved_def knows_pin_def ctap_is_pin_set_def ctap_device_locked_def)

lemma charged_knows: "charged d d' \<Longrightarrow> \<not> ctap_device_locked d \<Longrightarrow> knows_pin p d \<Longrightarrow> knows_pin p d'"
  by (auto simp: charged_def knows_pin_def ctap_is_pin_set_def)

lemma pin_life_knows:
  assumes env: "env_ok env" and start: "knows_pin p d" and life: "pin_life env d d'"
  shows "knows_pin p d'"
  using life
proof (induction rule: pin_life.induct)
  case (life_command d1 err ret CP)
  have ok: "dev_ok d1" using life_command.IH by (simp add: knows_pin_def)
  note e = client_pin_effect[OF env ok, of err ret CP]
  consider "pin_compared env err ret CP d1 = None" | "pin_compared env err ret CP d1 = Some False" | "pin_compared env err ret CP d1 = Some True"
    by (metis (full_types) option.exhaust)
  then show ?case
  proof cases
    case 1
    then show ?thesis using e life_command.IH unmoved_knows by (simp add: att_effect_def)
  next
    case 2
    then show ?thesis using e life_command.IH charged_knows wrong_only_open[OF 2] by (simp add: att_effect_def)
  next
    case 3
    then have "ctap_device_locked d1 = False" using wrong_only_open[OF 3] by simp
    then show ?thesis using right_token_keeps[OF env ok 3] life_command.hyps(2)[OF 3] life_command.IH
      by (simp add: knows_pin_def restored_def ctap_is_pin_set_def)
  qed
next
  case (life_power d1 pos d2)
  have ok: "dev_ok d1" using life_power.IH by (simp add: knows_pin_def)
  then have s: "stored_twice (d_st d1) (d_flash d1)" "state_wf (d_st d1)" "as_init (d_st d1) = INITIALIZED_MARKER"
    "as_version (d_st d1) = STATE_VERSION" by (simp_all add: dev_ok_def)
  show ?case using init_stored[OF s, of env pos] life_power s
    by (auto simp: knows_pin_def dev_ok_def ctap_is_pin_set_def ctap_device_locked_def ctap_leftover_pin_attempts_def)
qed (rule start)

lemma token_answer:
  assumes "env_ok env" "cbc_ok (env_lib env)" "knows_pin p d" "\<not> ctap_device_locked d" "\<not> ctap_device_boot_locked d"
    and "session_secret env (ck_x pub @ ck_y pub) d = Some key"
  shows "\<exists>d'. ctap_client_pin env (\<lambda>_ _. 0) 0 (get_req env key pub p) d
     = Inr (0, [EMap 1, EInt RESP_pinToken, EBytes (l_cbc_enc (env_lib env) key (replicate 16 0) (d_pin_token d)), EClose], d')"
proof -
  let ?R = "get_req env key pub p"
  have s: "dev_ok d" "ctap_is_pin_set d" "as_pin_hash (d_st d) = pin_digest p (as_salt (d_st d))"
    using assms(3,4) by (simp_all add: knows_pin_def)
  have k: "session_secret env (cp_pubkey ?R) d = Some key" using assms(6) by (simp add: get_req_def cp_pubkey_def)
  have r: "pin_right env key (cp_pinHashEnc ?R) d"
    using right_after_store[OF assms(2) session_secret_len[OF assms(6)] s(3)] by (simp add: get_req_def token_req_def)
  have f: "cp_pinProtocol ?R = 1" "cp_subCommand ?R = CP_cmdGetPinToken" "cp_keyAgreementPresent ?R \<noteq> 0"
    "cp_pinHashEncPresent ?R \<noteq> 0" "\<not> cp_getRetries ?R" by (simp_all add: get_req_def token_req_def cp_nums)
  show ?thesis
    using s add_pin_value[OF assms(1) s(1) assms(4,5) k, of "cp_pinHashEnc ?R"] r f assms(4,5)
    by (auto simp: ctap_client_pin_def cp_get_pin_token_def Let_def cp_nums client_pin_end_def)
qed

text \<open>C2 (roundtrip). A PIN of 4 to 63 bytes that does not end in a zero byte, set by a platform on an open device without a PIN, is stored in flash
  and is the PIN from then on: after any authClientPin commands and power cycles other than a change of the PIN that proved this one, a getPinToken with
  it, under any session of that moment, is answered with the PIN token, unless the attempts are used up. The padding, encryption, MAC, hash and salt
  on the device agree with the platform's side, and nothing of it is lost at power-up.\<close>

theorem set_pin_then_token:
  assumes "env_ok env" "cbc_ok (env_lib env)" "dev_ok d" "\<not> ctap_is_pin_set d"
    and "\<not> ctap_device_locked d" "\<not> ctap_device_boot_locked d"
    and "4 \<le> length p" "length p < 64" "last p \<noteq> 0"
    and "session_secret env (ck_x pub @ ck_y pub) d = Some key"
  shows "\<exists>d'. ctap_client_pin env (\<lambda>_ _. 0) 0 (set_req env key pub p) d = Inr (0, [], d')
     \<and> ctap_is_pin_set d' \<and> stored_twice (d_st d') (d_flash d')
     \<and> (\<forall>d1 pub2 key2. pin_life env d' d1 \<and> \<not> ctap_device_locked d1 \<and> \<not> ctap_device_boot_locked d1
           \<and> session_secret env (ck_x pub2 @ ck_y pub2) d1 = Some key2
         \<longrightarrow> (\<exists>d''. ctap_client_pin env (\<lambda>_ _. 0) 0 (get_req env key2 pub2 p) d1
              = Inr (0, [EMap 1, EInt RESP_pinToken, EBytes (l_cbc_enc (env_lib env) key2 (replicate 16 0) (d_pin_token d1)), EClose], d'')))"
proof -
  obtain d' where d': "ctap_client_pin env (\<lambda>_ _. 0) 0 (set_req env key pub p) d = Inr (0, [], d')" "pin_stored p d d'"
    using set_pin_run[OF assms(1-10)] by blast
  have ok: "dev_ok d'" using d'(2) by (simp add: pin_stored_def)
  then have s: "stored_twice (d_st d') (d_flash d')" unfolding dev_ok_def by blast
  have k: "knows_pin p d'" using d'(2) by (simp add: pin_stored_def knows_pin_def ctap_is_pin_set_def)
  then have "ctap_is_pin_set d'" by (simp add: knows_pin_def)
  then show ?thesis using d'(1) s pin_life_knows[OF assms(1) k] token_answer[OF assms(1,2)] by blast
qed

lemma toy_cbc: "cbc_ok (env_lib env0)"
  by (simp add: cbc_ok_def env0_def toy_lib_def)

text \<open>The device of the examples is given the PIN 1234, is switched off and on, and the PIN is right.\<close>

theorem set_pin_then_token_witness:
  "\<exists>key d' d1 key1 d'' tr. ctap_client_pin env0 (\<lambda>_ _. 0) 0 (set_req env0 key cose_zero [49, 50, 51, 52]) dev0 = Inr (0, [], d')
     \<and> ctap_init env0 (power_up (d_flash d') 0) = Inr d1
     \<and> ctap_client_pin env0 (\<lambda>_ _. 0) 0 (get_req env0 key1 cose_zero [49, 50, 51, 52]) d1 = Inr (0, tr, d'')"
proof -
  have s: "\<exists>key. session_secret env0 (ck_x cose_zero @ ck_y cose_zero) d = Some key" for d
    by (simp add: session_secret_def env0_def toy_lib_def)
  obtain key where key: "session_secret env0 (ck_x cose_zero @ ck_y cose_zero) dev0 = Some key" using s by blast
  have o: "\<not> ctap_device_locked dev0" "\<not> ctap_device_boot_locked dev0"
    using dev0_ok by (simp_all add: ctap_device_locked_def ctap_device_boot_locked_def ctap_leftover_pin_attempts_def)
  have p: "4 \<le> length [49, 50, 51, 52 :: u8]" "length [49, 50, 51, 52 :: u8] < 64" "last [49, 50, 51, 52 :: u8] \<noteq> 0" by simp_all
  obtain d' where d': "ctap_client_pin env0 (\<lambda>_ _. 0) 0 (set_req env0 key cose_zero [49, 50, 51, 52]) dev0 = Inr (0, [], d')"
      "pin_stored [49, 50, 51, 52] dev0 d'"
    using set_pin_run[OF env0_ok toy_cbc dev0_ok(1,2) o p key] by blast
  have "dev_ok d'" using d'(2) by (simp add: pin_stored_def)
  then have st: "stored_twice (d_st d') (d_flash d')" "state_wf (d_st d')" "as_init (d_st d') = INITIALIZED_MARKER" "as_version (d_st d') = STATE_VERSION"
    by (simp_all add: dev_ok_def)
  obtain d1 where d1: "ctap_init env0 (power_up (d_flash d') 0) = Inr d1" "d_st d1 = d_st d'" "d_boot d1 = PIN_BOOT_ATTEMPTS"
    using init_stored[OF st, of env0 0] by blast
  have n: "\<not> ctap_device_locked d1" "\<not> ctap_device_boot_locked d1"
    using d'(2) o d1 by (simp_all add: pin_stored_def ctap_device_locked_def ctap_device_boot_locked_def ctap_leftover_pin_attempts_def PIN_BOOT_ATTEMPTS_def)
  obtain key1 where k1: "session_secret env0 (ck_x cose_zero @ ck_y cose_zero) d1 = Some key1" using s by blast
  have l: "pin_life env0 d' d1" by (rule life_power[OF life_start d1(1)])
  obtain e where e: "ctap_client_pin env0 (\<lambda>_ _. 0) 0 (set_req env0 key cose_zero [49, 50, 51, 52]) dev0 = Inr (0, [], e)"
      "\<forall>d1 pub2 key2. pin_life env0 e d1 \<and> \<not> ctap_device_locked d1 \<and> \<not> ctap_device_boot_locked d1
         \<and> session_secret env0 (ck_x pub2 @ ck_y pub2) d1 = Some key2
       \<longrightarrow> (\<exists>d''. ctap_client_pin env0 (\<lambda>_ _. 0) 0 (get_req env0 key2 pub2 [49, 50, 51, 52]) d1
            = Inr (0, [EMap 1, EInt RESP_pinToken, EBytes (l_cbc_enc (env_lib env0) key2 (replicate 16 0) (d_pin_token d1)), EClose], d''))"
    using set_pin_then_token[OF env0_ok toy_cbc dev0_ok(1,2) o p key] by blast
  then have "e = d'" using d'(1) by simp
  then show ?thesis using e(2) l n k1 d'(1) d1(1) by blast
qed

subsection \<open>MACs under the token\<close>

lemma verify_mac_value:
  assumes "crypto_ok (d_cr d)" "length (d_pin_token d) = 16"
  shows "\<exists>d'. verify_pin_auth_ex auth buf d
      = Inr (if take 16 auth = take 16 (hmac_sha256 (d_pin_token d) buf) then 0 else CTAP2_ERR_PIN_AUTH_INVALID, d')
     \<and> dev_sim d d'"
proof -
  obtain s0 c where m: "crypto_sha256_hmac_init (Key_Ptr (d_pin_token d)) 16 (d_cr d) = Some s0"
    "crypto_sha256_hmac_final (Key_Ptr (d_pin_token d)) 16 (crypto_sha256_update buf s0) = Some (hmac_sha256 (d_pin_token d) buf, c)"
    "cr_sim (d_cr d) c"
    using hmac_run_ptr[OF assms, of "[buf]"] by (auto simp: sha_feed_Cons)
  then show ?thesis using dev_sim_cr[OF dev_sim_refl[OF assms(1)] m(3)]
    by (simp add: verify_pin_auth_ex_def PIN_TOKEN_SIZE_def)
qed

text \<open>A request that carries a MAC is accepted exactly when the MAC is the first half of
  HMAC-SHA-256 of the first 32 bytes under the current PIN token; the check leaves the device as it was.\<close>

theorem pin_auth_checks_mac:
  assumes "dev_ok d"
  shows "\<exists>r d'. verify_pin_auth auth cdh d = Inr (r, d')
     \<and> (r = 0 \<longleftrightarrow> take 16 auth = take 16 (hmac_sha256 (d_pin_token d) (take 32 cdh)))
     \<and> (r = 0 \<or> r = CTAP2_ERR_PIN_AUTH_INVALID) \<and> dev_ok d' \<and> d_st d' = d_st d \<and> d_pin_token d' = d_pin_token d"
proof -
  have "crypto_ok (d_cr d)" "length (d_pin_token d) = 16" using assms by (simp_all add: dev_ok_def)
  from verify_mac_value[OF this, of auth "take 32 cdh"] show ?thesis
    using dev_sim_ok[OF assms] dev_sim_fields by (fastforce simp: verify_pin_auth_def CTAP2_ERR_PIN_AUTH_INVALID_def)
qed

theorem pin_auth_checks_mac_witness:
  "\<exists>d'. verify_pin_auth (take 16 (hmac_sha256 (d_pin_token dev0) (zeros 32))) (zeros 32) dev0 = Inr (0, d')"
  using pin_auth_checks_mac[OF dev0_ok(1), of "take 16 (hmac_sha256 (d_pin_token dev0) (zeros 32))" "zeros 32"] by auto

end
