(* ===== verification/DevProps.thy ===== *)
theory DevProps
  imports PinSet
begin

text \<open>
  Start-up over flash contents of older firmware (\<^verbatim>\<open>fido2/data_migration.c\<close>), and facts about the
  external key store and the order of the PIN check that callers should know.
\<close>

subsection \<open>Migration\<close>

lemma image_fields:
  assumes "state_wf s"
  shows "state_image s ! 0 = as_init s" "state_image s ! 1 = as_pin_set s" "state_image s ! 72 = as_tries s"
    "le32 (state_image s ! 68) (state_image s ! 69) (state_image s ! 70) (state_image s ! 71) = as_reserved s"
    "le16 (state_image s ! 74) (state_image s ! 75) = as_rk_stored s"
    "le16 (state_image s ! 76) (state_image s ! 77) = as_key_len s"
    "block (state_image s) 78 128 = as_key_space s"
  using arg_cong[OF state_image_roundtrip[OF assms], of as_init] arg_cong[OF state_image_roundtrip[OF assms], of as_pin_set]
    arg_cong[OF state_image_roundtrip[OF assms], of as_tries] arg_cong[OF state_image_roundtrip[OF assms], of as_reserved]
    arg_cong[OF state_image_roundtrip[OF assms], of as_rk_stored] arg_cong[OF state_image_roundtrip[OF assms], of as_key_len]
    arg_cong[OF state_image_roundtrip[OF assms], of as_key_space]
  unfolding state_of_image_def by simp_all

lemma image_pin:
  assumes "state_wf s" "n \<le> 64"
  shows "take n (drop 2 (state_image s)) = take n (as_pin_hash s @ as_salt s)"
  using assms by (simp add: state_wf_def state_image_def)

text \<open>The PIN that an 0xFF-format state holds in the clear.\<close>

definition old_pin :: "auth_state \<Rightarrow> bytes" where
  "old_pin s = take (unat (as_reserved s)) (as_pin_hash s @ as_salt s)"

definition migrated :: "bytes \<Rightarrow> auth_state \<Rightarrow> auth_state" where
  "migrated salt s = s\<lparr>as_salt := salt, as_pin_hash := (if as_pin_set s \<noteq> 0 then pin_digest (old_pin s) salt else as_pin_hash s),
     as_reserved := 0xff, as_version := 1\<rparr>"

lemma migrate_value:
  assumes wf: "state_wf s" and v: "as_version s = 0xff" and n: "unat (as_reserved s) \<le> 64" and ok: "crypto_ok (d_cr d)"
  shows "\<exists>d' salt. migrate_from_FF_to_01 env (state_image s) s d = Inr (True, migrated salt s, d')
     \<and> length salt = 32 \<and> d_flash d' = d_flash d"
proof -
  obtain salt d1 where r: "ctap_generate_rng env 32 d = (salt, d1)" by fastforce
  have d1: "crypto_ok (d_cr d1)" "d_flash d1 = d_flash d" "length salt = 32"
    using ok rng_frame(2,5)[of env 32 d] rng_len[of env 32 d] by (simp_all add: r)
  obtain c where c: "hash2 (old_pin s) salt (d_cr d1) = (pin_digest (old_pin s) salt, c)"
    using hash2_value[OF d1(1)] by blast
  have p: "take (unat (as_reserved s)) (drop 2 (state_image s)) = old_pin s"
    using image_pin[OF wf n] by (simp add: old_pin_def)
  note i = image_fields[OF wf]
  show ?thesis
    using v d1 c r i p
    by (cases "as_pin_set s = 0") (auto simp: migrate_from_FF_to_01_def migrated_def Let_def)
qed

text \<open>C20 (functional). A device whose flash holds a state of the first format (the PIN in the clear) needs
  two starts: the first replaces the PIN by its salted hash in both flash pages and then stops at the
  final assertion, which compares the version 1 just written with 2; the next one finds version 1,
  clears the resident keys and comes up. Attempts, master secret and PIN are those of before: the PIN
  is the one the stored hash belongs to.\<close>

theorem migration_two_starts:
  assumes "env_ok env" "stored_twice s f" "state_wf s" "as_init s = INITIALIZED_MARKER" "as_version s = 0xff"
    and "unat (as_reserved s) \<le> 64"
  shows "\<exists>d1 d2 salt. ctap_init env (power_up f p) = Inl d1 \<and> stored_twice (migrated salt s) (d_flash d1)
     \<and> ctap_init env (power_up (d_flash d1) q) = Inr d2 \<and> d_st d2 = (migrated salt s)\<lparr>as_version := 2\<rparr>
     \<and> dev_ok d2 \<and> rk_slots (d_flash d2) = replicate 50 rk_blank"
proof -
  have hw: "prog_ok (env_prog env)" using assms(1) by (simp add: env_ok_def)
  let ?d = "(power_up f p)\<lparr>d_cr := crypto_ecc256_init (d_cr (power_up f p)), d_st := s, d_flash := f\<rparr>"
  have okd: "crypto_ok (d_cr ?d)" using power_up_ok[of f p] by (simp add: crypto_ecc256_init_def crypto_ok_def)
  obtain d' salt where m: "migrate_from_FF_to_01 env (state_image s) s ?d = Inr (True, migrated salt s, d')"
    "length salt = 32" "d_flash d' = f"
    using migrate_value[OF assms(3,5,6) okd, of env] by auto
  have r: "authenticator_read_state (env_prog env) f = (1, s, f)" by (rule stored_found[OF assms(2-4)])
  let ?m = "migrated salt s"
  have wfm: "state_wf ?m" using assms(3) m(2) by (simp add: state_wf_def migrated_def pin_digest_def)
  let ?d1 = "save_migrated_state env ?m d'"
  have f1: "ctap_init env (power_up f p) = Inl ?d1"
    using r m(1) assms(4,5)
    by (simp add: ctap_init_def do_migration_if_required_def power_up_def Let_def INITIALIZED_MARKER_def STATE_VERSION_def
        save_migrated_state_def migrated_def)
  have st1: "stored_twice ?m (d_flash ?d1)" using write_state_stored[OF hw wfm] by (simp add: save_migrated_state_def)
  have im: "as_init ?m = INITIALIZED_MARKER" "as_version ?m = 1" using assms(4) by (simp_all add: migrated_def)
  have r1: "authenticator_read_state (env_prog env) (d_flash ?d1) = (1, ?m, d_flash ?d1)"
    by (rule stored_found[OF st1 wfm im(1)])
  let ?s2 = "?m\<lparr>as_version := 2\<rparr>"
  have wf2: "state_wf ?s2" using wfm by (simp add: state_wf_def)
  let ?f2 = "authenticator_write_state (env_prog env) ?s2 (ctap_reset_rk (d_flash ?d1))"
  obtain d2 where d2: "ctap_init env (power_up (d_flash ?d1) q) = Inr d2" "d_st d2 = ?s2" "d_flash d2 = ?f2"
    "crypto_ok (d_cr d2)" "length (d_pin_token d2) = 16"
    using r1 im power_up_ok[of "d_flash ?d1" q] wf2
    by (simp add: ctap_init_def do_migration_if_required_def power_up_def Let_def INITIALIZED_MARKER_def STATE_VERSION_def
        save_migrated_state_def split_beta PIN_TOKEN_SIZE_def crypto_load_master_secret_def block_def KEY_SPACE_BYTES_def state_wf_def crypto_ecc256_init_def crypto_ok_def)
  have "stored_twice ?s2 ?f2" by (rule write_state_stored[OF hw wf2])
  moreover have "rk_slots ?f2 = replicate 50 rk_blank" by (simp add: state_write_rk[OF hw wf2] slots_reset)
  ultimately have "dev_ok d2 \<and> rk_slots (d_flash d2) = replicate 50 rk_blank"
    using d2 wf2 im by (simp add: dev_ok_def STATE_VERSION_def)
  then show ?thesis using f1 st1 d2 by blast
qed

theorem migration_two_starts_witness:
  "\<exists>d1 d2. ctap_init env0 (power_up (authenticator_write_state stm_prog (state0\<lparr>as_version := 0xff, as_reserved := 4\<rparr>) flash0) 0) = Inl d1
     \<and> ctap_init env0 (power_up (d_flash d1) 0) = Inr d2"
proof -
  let ?s = "state0\<lparr>as_version := 0xff, as_reserved := 4\<rparr>"
  have wf: "state_wf ?s" using state0_wf(1) by (simp add: state_wf_def)
  have st: "stored_twice ?s (authenticator_write_state stm_prog ?s flash0)" by (rule write_state_stored[OF stm_prog_ok wf])
  show ?thesis using migration_two_starts[OF env0_ok st wf, of 0 0] state0_wf(2) by auto
qed

text \<open>That the first start stops is the fact behind the finding.\<close>

lemma migration_asserts:
  assumes "env_ok env" "stored_twice s f" "state_wf s" "as_init s = INITIALIZED_MARKER" "as_version s = 0xff"
    and "unat (as_reserved s) \<le> 64" "crypto_ok (d_cr d)" "d_st d = s" "d_flash d = f"
  shows "\<exists>d1. do_migration_if_required env d = Inl d1 \<and> as_version (d_st d1) = 1"
proof -
  have r: "authenticator_read_state (env_prog env) f = (1, s, f)" by (rule stored_found[OF assms(2-4)])
  have c: "crypto_ok (d_cr (d\<lparr>d_flash := f\<rparr>))" using assms(7) by simp
  obtain d' salt where m: "migrate_from_FF_to_01 env (state_image s) s (d\<lparr>d_flash := f\<rparr>) = Inr (True, migrated salt s, d')"
    using migrate_value[OF assms(3,5,6) c, of env] by blast
  then show ?thesis using r assms(4,5,8,9)
    by (simp add: do_migration_if_required_def Let_def INITIALIZED_MARKER_def STATE_VERSION_def save_migrated_state_def migrated_def)
qed

subsection \<open>The key store shares its bytes with the master secret\<close>

lemma store_key_overwrites_secret:
  assumes "env_ok env" "dev_ok d" "as_key_len (d_st d) = 0xffff" "length key = 32"
  shows "\<exists>d'. ctap_store_key env 0 key 32 d = (0, d') \<and> ctap_load_key 0 d' = Inr key
    \<and> (\<exists>d2. ctap_init env (power_up (d_flash d') p) = Inr d2 \<and> take 32 (c_master (d_cr d2)) = key)"
proof -
  have ok: "state_wf (d_st d)" "as_init (d_st d) = INITIALIZED_MARKER" "as_version (d_st d) = STATE_VERSION"
    using assms(2) by (simp_all add: dev_ok_def)
  have l: "length (as_key_space (d_st d)) = 128" using ok(1) by (simp add: state_wf_def KEY_SPACE_BYTES_def)
  let ?s = "(d_st d)\<lparr>as_key_len := 32, as_key_space := blit (as_key_space (d_st d)) 0 key\<rparr>"
  have wf: "state_wf ?s" using ok(1) assms(4) l by (simp add: state_wf_def KEY_SPACE_BYTES_def)
  let ?d = "ctap_flush_state env (d\<lparr>d_st := ?s\<rparr>)"
  have st: "stored_twice ?s (d_flash ?d)" using flush_stored[OF assms(1), of "d\<lparr>d_st := ?s\<rparr>"] wf by simp
  have k: "ctap_store_key env 0 key 32 d = (0, ?d)"
    using assms(3,4) by (simp add: ctap_store_key_def ctap_keys_stored_def key_lens_def MAX_KEYS_def key_addr_offset_def
        KEY_SPACE_BYTES_def)
  have ld: "ctap_load_key 0 ?d = Inr key"
    using assms(4) l by (simp add: ctap_load_key_def ctap_keys_stored_def key_lens_def MAX_KEYS_def key_addr_offset_def
        KEY_SPACE_BYTES_def ctap_key_len_def block_blit_same)
  obtain d2 where "ctap_init env (power_up (d_flash ?d) p) = Inr d2" "c_master (d_cr d2) = take 64 (as_key_space ?s)"
    using init_stored[OF st wf] ok by auto
  moreover have "take 32 (take 64 (as_key_space ?s)) = key" using assms(4) l by (simp add: blit_def)
  ultimately show ?thesis using k ld by metis
qed

subsection \<open>The check comes before the charge\<close>

text \<open>A wrong PIN is compared before the attempt is taken off the counter in flash: when the power fails
  before the primary page is programmed, the next start has the old count.\<close>

lemma charge_after_check:
  assumes "env_ok env" "dev_ok d" "state_wf s" "as_init s = INITIALIZED_MARKER" "k \<le> 1"
  shows "found_state (env_prog env) (flash_run (env_prog env) (take k (authenticator_write_ops s)) (d_flash d)) = (1, d_st d)"
proof -
  have hw: "prog_ok (env_prog env)" using assms(1) by (simp add: env_ok_def)
  show ?thesis using assms state_write_keeps_old[OF hw] by (auto simp: dev_ok_def)
qed

end
