(* ===== verification/CborRead.thy ===== *)
theory CborRead
  imports CtapTypes
begin

text \<open>
  Reading CBOR: the interface of the decoder (tinycbor, a submodule) as \<^verbatim>\<open>fido2/ctap_parse.c\<close>
  uses it, and what the parsers share: the error macros, the loop over a map or an array, C strings.
  The decoder is a record of functions over an abstract cursor type; \<open>cbor_ok\<close> is the only promise
  the memory-safety properties need of it.
\<close>

datatype cbor_type = CborInteger | CborByteString | CborTextString | CborArray | CborMap | CborBoolean | CborOther

text \<open>The copy functions get the size of the destination and answer an error code, the bytes they wrote
  at its start, and the size they report back.\<close>

record 'v cbor =
  cb_init :: "bytes \<Rightarrow> int \<times> 'v"
  cb_type :: "'v \<Rightarrow> cbor_type"
  cb_enter :: "'v \<Rightarrow> int \<times> 'v"
  cb_map_length :: "'v \<Rightarrow> int \<times> nat"
  cb_array_length :: "'v \<Rightarrow> int \<times> nat"
  cb_advance :: "'v \<Rightarrow> int \<times> 'v"
  cb_int :: "'v \<Rightarrow> int \<times> int"
  cb_int_checked :: "'v \<Rightarrow> int \<times> int"
  cb_boolean :: "'v \<Rightarrow> int \<times> bool"
  cb_copy_bytes :: "'v \<Rightarrow> nat \<Rightarrow> int \<times> bytes \<times> nat"
  cb_copy_text :: "'v \<Rightarrow> nat \<Rightarrow> int \<times> bytes \<times> nat"
  cb_find :: "'v \<Rightarrow> string \<Rightarrow> int \<times> 'v"
  cb_string_length :: "'v \<Rightarrow> int \<times> nat"
  cb_calc_length :: "'v \<Rightarrow> int \<times> nat"
  cb_next_byte :: "'v \<Rightarrow> nat"

text \<open>tinycbor's code for a destination that is too small.\<close>

definition CborErrorOutOfMemory :: int where "CborErrorOutOfMemory = -2147483648"

text \<open>The documented contract of the copies: never more than the buffer, and on success the bytes of the
  reported size were written (a NUL may follow them where there is room).\<close>

definition cbor_ok :: "'v cbor \<Rightarrow> bool" where
  "cbor_ok cb \<longleftrightarrow>
     (\<forall>v n. length (fst (snd (cb_copy_bytes cb v n))) \<le> n \<and> length (fst (snd (cb_copy_text cb v n))) \<le> n)
     \<and> (\<forall>v n. fst (cb_copy_bytes cb v n) = 0 \<longrightarrow> snd (snd (cb_copy_bytes cb v n)) \<le> length (fst (snd (cb_copy_bytes cb v n))))
     \<and> (\<forall>v n. fst (cb_copy_text cb v n) = 0 \<longrightarrow> snd (snd (cb_copy_text cb v n)) \<le> length (fst (snd (cb_copy_text cb v n))))"

subsection \<open>Error codes\<close>

definition CTAP2_ERR_INVALID_CBOR_TYPE :: int where "CTAP2_ERR_INVALID_CBOR_TYPE = 0x12"
definition CTAP2_ERR_CBOR_UNEXPECTED_TYPE :: int where "CTAP2_ERR_CBOR_UNEXPECTED_TYPE = 0x11"
definition CTAP2_ERR_LIMIT_EXCEEDED :: int where "CTAP2_ERR_LIMIT_EXCEEDED = 0x15"
definition CTAP1_ERR_INVALID_LENGTH :: int where "CTAP1_ERR_INVALID_LENGTH = 3"
definition CTAP2_ERR_TOO_MANY_ELEMENTS :: int where "CTAP2_ERR_TOO_MANY_ELEMENTS = 0x17"
definition CTAP2_ERR_UNSUPPORTED_ALGORITHM :: int where "CTAP2_ERR_UNSUPPORTED_ALGORITHM = 0x26"
definition CTAP2_ERR_INVALID_OPTION :: int where "CTAP2_ERR_INVALID_OPTION = 0x2c"
definition ERR_PARSING :: int where "ERR_PARSING = 0x12"
definition ERR_MISSING :: int where "ERR_MISSING = 0x14"

lemmas parse_codes = CTAP2_ERR_INVALID_CBOR_TYPE_def CTAP2_ERR_CBOR_UNEXPECTED_TYPE_def CTAP2_ERR_LIMIT_EXCEEDED_def
  CTAP1_ERR_INVALID_LENGTH_def CTAP2_ERR_TOO_MANY_ELEMENTS_def CTAP2_ERR_UNSUPPORTED_ALGORITHM_def
  CTAP2_ERR_INVALID_OPTION_def ERR_PARSING_def ERR_MISSING_def

text \<open>A parser answers its code and the structure as far as it got.\<close>

definition check_ret :: "int \<Rightarrow> 's \<Rightarrow> int \<times> 's \<Rightarrow> int \<times> 's" where
  "check_ret r s k = (if r \<noteq> 0 then (ERR_PARSING, s) else k)"

definition check_retr :: "int \<Rightarrow> 's \<Rightarrow> int \<times> 's \<Rightarrow> int \<times> 's" where
  "check_retr r s k = (if r \<noteq> 0 then (r, s) else k)"

text \<open>What a \<open>uint8_t\<close> result keeps of a decoder's code.\<close>

definition u8_code :: "int \<Rightarrow> int" where "u8_code r = r mod 256"

subsection \<open>Loops\<close>

text \<open>One pass handles an element and moves the cursor; the first code that is not 0 ends the loop.\<close>

fun parse_loop :: "('v \<Rightarrow> 's \<Rightarrow> int \<times> 'v \<times> 's) \<Rightarrow> nat \<Rightarrow> 'v \<Rightarrow> 's \<Rightarrow> int \<times> 'v \<times> 's" where
  "parse_loop body 0 v s = (0, v, s)"
| "parse_loop body (Suc n) v s =
     (case body v s of (r, v, s) \<Rightarrow> if r \<noteq> 0 then (r, v, s) else parse_loop body n v s)"

definition loop_code :: "int \<times> 'v \<times> 's \<Rightarrow> int \<times> 's" where
  "loop_code x = (case x of (r, _, s) \<Rightarrow> (r, s))"

text \<open>The end of every pass: \<open>cbor_value_advance\<close> and its check.\<close>

definition advance_end :: "'v cbor \<Rightarrow> 'v \<Rightarrow> 's \<Rightarrow> int \<times> 'v \<times> 's" where
  "advance_end cb v s = (case cb_advance cb v of (r, v') \<Rightarrow> if r \<noteq> 0 then (ERR_PARSING, v', s) else (0, v', s))"

text \<open>A value handler between two cursor moves: its code ends the pass, a success advances.\<close>

definition with_value :: "'v cbor \<Rightarrow> 'v \<Rightarrow> int \<times> 's \<Rightarrow> int \<times> 'v \<times> 's" where
  "with_value cb v x = (case x of (r, s) \<Rightarrow> if r \<noteq> 0 then (r, v, s) else advance_end cb v s)"

text \<open>The start of a pass over a map with text keys: type check, copy into the key buffer (the buffer
  always ends in a NUL), advance to the value. \<open>big\<close> is what the code does with a key that is too long.\<close>

definition cstr :: "nat \<Rightarrow> bytes \<Rightarrow> bytes" where
  "cstr n ws = takeWhile (\<lambda>b. b \<noteq> 0) (take (n - 1) ws)"

definition chars :: "string \<Rightarrow> bytes" where
  "chars s = map of_char s"

definition with_text_key ::
    "'v cbor \<Rightarrow> nat \<Rightarrow> ('v \<Rightarrow> 's \<Rightarrow> int \<times> 'v \<times> 's) \<Rightarrow> (bytes \<Rightarrow> 'v \<Rightarrow> 's \<Rightarrow> int \<times> 'v \<times> 's)
     \<Rightarrow> 'v \<Rightarrow> 's \<Rightarrow> int \<times> 'v \<times> 's" where
  "with_text_key cb n big k v s =
     (if cb_type cb v \<noteq> CborTextString then (CTAP2_ERR_INVALID_CBOR_TYPE, v, s)
      else
        case cb_copy_text cb v n of (r, ws, sz) \<Rightarrow>
        if r = CborErrorOutOfMemory then big v s
        else if r \<noteq> 0 then (ERR_PARSING, v, s)
        else
          case cb_advance cb v of (r, v) \<Rightarrow>
          if r \<noteq> 0 then (ERR_PARSING, v, s) else k (cstr n ws) v s)"

definition big_key_error :: "'v \<Rightarrow> 's \<Rightarrow> int \<times> 'v \<times> 's" where
  "big_key_error v s = (CTAP2_ERR_LIMIT_EXCEEDED, v, s)"

text \<open>The same for integer keys; the getter (checked or not) and the type error differ.\<close>

definition with_int_key ::
    "'v cbor \<Rightarrow> ('v \<Rightarrow> int \<times> int) \<Rightarrow> int \<Rightarrow> (int \<Rightarrow> 'v \<Rightarrow> 's \<Rightarrow> int \<times> 'v \<times> 's) \<Rightarrow> 'v \<Rightarrow> 's \<Rightarrow> int \<times> 'v \<times> 's" where
  "with_int_key cb get_int type_err k v s =
     (if cb_type cb v \<noteq> CborInteger then (type_err, v, s)
      else
        case get_int v of (r, key) \<Rightarrow>
        if r \<noteq> 0 then (ERR_PARSING, v, s)
        else
          case cb_advance cb v of (r, v) \<Rightarrow>
          if r \<noteq> 0 then (ERR_PARSING, v, s) else k key v s)"

text \<open>A map: type check, enter, length, then the loop.\<close>

definition parse_map ::
    "'v cbor \<Rightarrow> int \<Rightarrow> ('v \<Rightarrow> 's \<Rightarrow> int \<times> 'v \<times> 's) \<Rightarrow> 'v \<Rightarrow> 's \<Rightarrow> int \<times> 'v \<times> 's" where
  "parse_map cb type_err body val s =
     (if cb_type cb val \<noteq> CborMap then (type_err, val, s)
      else
        case cb_enter cb val of (r, mp) \<Rightarrow>
        if r \<noteq> 0 then (ERR_PARSING, mp, s)
        else
          case cb_map_length cb val of (r, n) \<Rightarrow>
          if r \<noteq> 0 then (ERR_PARSING, mp, s) else parse_loop body n mp s)"

subsection \<open>Invariants of loops\<close>

lemma parse_loop_inv:
  assumes "\<And>v s. P s \<Longrightarrow> P (snd (snd (body v s)))" "P s"
  shows "P (snd (snd (parse_loop body n v s)))"
  using assms(2)
proof (induction n arbitrary: v s)
  case (Suc n)
  show ?case using Suc(1)[of "snd (snd (body v s))" "fst (snd (body v s))"] assms(1)[OF Suc(2), of v]
    by (simp add: split_beta)
qed simp

lemma parse_map_inv:
  assumes "\<And>v s. P s \<Longrightarrow> P (snd (snd (body v s)))" "P s"
  shows "P (snd (snd (parse_map cb e body v s)))"
  using parse_loop_inv[where P = P, OF assms(1)] assms(2)
  by (simp add: parse_map_def split_beta)

lemma advance_end_inv [simp]: "snd (snd (advance_end cb v s)) = s"
  by (simp add: advance_end_def split_beta)

lemma with_value_inv [simp]: "snd (snd (with_value cb v x)) = snd x"
  by (simp add: with_value_def split_beta)

lemma text_key_inv:
  assumes "\<And>v s. P s \<Longrightarrow> P (snd (snd (big v s)))" "\<And>key v s. P s \<Longrightarrow> P (snd (snd (k key v s)))" "P s"
  shows "P (snd (snd (with_text_key cb n big k v s)))"
  using assms by (simp add: with_text_key_def split_beta)

lemma int_key_inv:
  assumes "\<And>key v s. P s \<Longrightarrow> P (snd (snd (k key v s)))" "P s"
  shows "P (snd (snd (with_int_key cb g e k v s)))"
  using assms by (simp add: with_int_key_def split_beta)

lemma big_key_inv [simp]: "snd (snd (big_key_error v s)) = s"
  by (simp add: big_key_error_def)

text \<open>The two loops over a map, with the handler of one value.\<close>

lemma int_loop_inv:
  assumes "\<And>key v s. P s \<Longrightarrow> P (snd (f key v s))" "P s"
  shows "P (snd (snd (parse_map cb e (with_int_key cb g e2 (\<lambda>key v s. with_value cb v (f key v s))) v s)))"
    "P (snd (snd (parse_loop (with_int_key cb g e2 (\<lambda>key v s. with_value cb v (f key v s))) n v s)))"
  by (rule parse_map_inv[where P = P] parse_loop_inv[where P = P];
      (rule int_key_inv[where P = P])?; simp add: assms)+

lemma text_loop_inv:
  assumes "\<And>key v s. P s \<Longrightarrow> P (snd (f key v s))" "\<And>v s. snd (snd (big v s)) = s" "P s"
  shows "P (snd (snd (parse_map cb e (with_text_key cb m big (\<lambda>key v s. with_value cb v (f key v s))) v s)))"
    "P (snd (snd (parse_loop (with_text_key cb m big (\<lambda>key v s. with_value cb v (f key v s))) n v s)))"
  by (rule parse_map_inv[where P = P] parse_loop_inv[where P = P];
      (rule text_key_inv[where P = P])?; simp add: assms)+

text \<open>The same for what holds as long as no pass fails.\<close>

lemma parse_loop_good:
  assumes "\<And>v s. P s \<Longrightarrow> fst (body v s) = 0 \<Longrightarrow> P (snd (snd (body v s)))" "P s" "fst (parse_loop body n v s) = 0"
  shows "P (snd (snd (parse_loop body n v s)))"
  using assms(2,3)
proof (induction n arbitrary: v s)
  case (Suc n)
  then show ?case using Suc.IH[of "snd (snd (body v s))" "fst (snd (body v s))"] assms(1)[OF Suc.prems(1), of v]
    by (auto simp: split_beta split: if_splits)
qed simp

lemma value_good: "fst (with_value cb v x) = 0 \<Longrightarrow> fst x = 0"
  by (auto simp: with_value_def split_beta split: if_splits)

lemma text_key_good:
  assumes "\<And>v s. fst (big v s) \<noteq> 0" "\<And>key v s. P s \<Longrightarrow> fst (f key v s) = 0 \<Longrightarrow> P (snd (f key v s))" "P s"
    and "fst (with_text_key cb n big (\<lambda>key v s. with_value cb v (f key v s)) v s) = 0"
  shows "P (snd (snd (with_text_key cb n big (\<lambda>key v s. with_value cb v (f key v s)) v s)))"
  using assms(4) assms(1)[of v s] by (auto simp: with_text_key_def split_beta parse_codes split: if_splits intro!: assms(2,3) dest: value_good)

lemma int_key_good:
  assumes "e \<noteq> 0" "\<And>key v s. P s \<Longrightarrow> fst (f key v s) = 0 \<Longrightarrow> P (snd (f key v s))" "P s"
    and "fst (with_int_key cb g e (\<lambda>key v s. with_value cb v (f key v s)) v s) = 0"
  shows "P (snd (snd (with_int_key cb g e (\<lambda>key v s. with_value cb v (f key v s)) v s)))"
  using assms(1,4) by (auto simp: with_int_key_def split_beta parse_codes split: if_splits intro!: assms(2,3) dest: value_good)

lemma map_good:
  assumes "e \<noteq> 0" "\<And>v s. P s \<Longrightarrow> fst (body v s) = 0 \<Longrightarrow> P (snd (snd (body v s)))" "P s" "fst (parse_map cb e body v s) = 0"
  shows "P (snd (snd (parse_map cb e body v s)))"
  using assms(1,4) by (auto simp: parse_map_def split_beta parse_codes split: if_splits intro!: parse_loop_good[where P = P, OF assms(2,3)])

lemma cbor_okD:
  assumes "cbor_ok cb"
  shows "length (fst (snd (cb_copy_bytes cb v n))) \<le> n" "length (fst (snd (cb_copy_text cb v n))) \<le> n"
    "fst (cb_copy_bytes cb v n) = 0 \<Longrightarrow> snd (snd (cb_copy_bytes cb v n)) \<le> n"
    "fst (cb_copy_text cb v n) = 0 \<Longrightarrow> snd (snd (cb_copy_text cb v n)) \<le> n"
  using assms unfolding cbor_ok_def by (meson le_trans)+

end
