(* ===== verification/CtapParse.thy ===== *)
theory CtapParse
  imports CborRead
begin

text \<open>
  The request parsers of \<^verbatim>\<open>fido2/ctap_parse.c\<close>, over any decoder: one definition per C
  function, the switch or if-chain of a map in a definition of its own. A parser answers a code and the
  structure as it stands; buffers keep their C size (\<open>blit\<close> puts what the decoder wrote at their start).
\<close>

definition CPARAM :: "nat \<Rightarrow> u32 \<Rightarrow> u32" where "CPARAM i w = w OR push_bit i 1"

subsection \<open>Common pieces\<close>

definition parse_fixed_byte_string :: "'v cbor \<Rightarrow> 'v \<Rightarrow> nat \<Rightarrow> bytes \<Rightarrow> int \<times> bytes" where
  "parse_fixed_byte_string cb mp len dst =
     (if cb_type cb mp = CborByteString then
        case cb_copy_bytes cb mp len of (r, ws, sz) \<Rightarrow>
        let dst = blit dst 0 ws in
        check_ret r dst (if sz \<noteq> len then (CTAP1_ERR_INVALID_LENGTH, dst) else (0, dst))
      else (CTAP2_ERR_INVALID_CBOR_TYPE, dst))"

text \<open>A text that may be cut: the copy into an \<open>n\<close>-byte buffer, which then ends in a NUL.\<close>

definition copy_cut :: "'v cbor \<Rightarrow> 'v \<Rightarrow> nat \<Rightarrow> bytes \<Rightarrow> int \<times> bytes" where
  "copy_cut cb v n dst =
     (if cb_type cb v \<noteq> CborTextString then (CTAP2_ERR_INVALID_CBOR_TYPE, dst)
      else
        case cb_copy_text cb v n of (r, ws, sz) \<Rightarrow>
        let dst = blit dst 0 ws in
        if r \<noteq> CborErrorOutOfMemory \<and> r \<noteq> 0 then (ERR_PARSING, dst) else (0, dst[n - 1 := 0]))"

subsection \<open>makeCredential: the user\<close>

definition set_user :: "user_entity \<Rightarrow> 'a make_credential_scheme \<Rightarrow> 'a make_credential_scheme" where
  "set_user u MC = MC\<lparr>mc_credInfo := (mc_credInfo MC)\<lparr>in_user := u\<rparr>\<rparr>"

definition get_user :: "'a make_credential_scheme \<Rightarrow> user_entity" where
  "get_user MC = in_user (mc_credInfo MC)"

definition user_id_value :: "'v cbor \<Rightarrow> 'v \<Rightarrow> user_entity \<Rightarrow> int \<times> user_entity" where
  "user_id_value cb v u =
     (if cb_type cb v \<noteq> CborByteString then (CTAP2_ERR_INVALID_CBOR_TYPE, u)
      else
        case cb_copy_bytes cb v 64 of (r, ws, sz) \<Rightarrow>
        let u = u\<lparr>u_id := blit (u_id u) 0 ws\<rparr> in
        if r = CborErrorOutOfMemory then (CTAP2_ERR_LIMIT_EXCEEDED, u)
        else
          let u = u\<lparr>u_id_size := of_nat sz\<rparr> in
          check_ret r u (0, u))"

definition user_value :: "'v cbor \<Rightarrow> bytes \<Rightarrow> 'v \<Rightarrow> user_entity \<Rightarrow> int \<times> user_entity" where
  "user_value cb key v u =
     (if key = chars ''id'' then user_id_value cb v u
      else if key = chars ''name'' then
        case copy_cut cb v 65 (u_name u) of (r, b) \<Rightarrow> (r, u\<lparr>u_name := b\<rparr>)
      else if key = chars ''displayName'' then
        case copy_cut cb v 32 (u_display u) of (r, b) \<Rightarrow> (r, u\<lparr>u_display := b\<rparr>)
      else if key = chars ''icon'' then
        case copy_cut cb v 128 (u_icon u) of (r, b) \<Rightarrow> (r, u\<lparr>u_icon := b\<rparr>)
      else (0, u))"

definition parse_user :: "'v cbor \<Rightarrow> 'v \<Rightarrow> 'a make_credential_scheme \<Rightarrow> int \<times> 'a make_credential_scheme" where
  "parse_user cb val MC =
     (case loop_code (parse_map cb CTAP2_ERR_INVALID_CBOR_TYPE
             (with_text_key cb 24 big_key_error (\<lambda>key v u. with_value cb v (user_value cb key v u))) val (get_user MC))
      of (r, u) \<Rightarrow>
        let MC = set_user u MC in
        if r \<noteq> 0 then (r, MC) else (0, MC\<lparr>mc_parsed := CPARAM 2 (mc_parsed MC)\<rparr>))"

subsection \<open>makeCredential: the algorithms\<close>

definition PK_CRED :: u8 where "PK_CRED = 1"
definition CTAP1_CRED :: u8 where "CTAP1_CRED = 0x41"
definition CUSTOM_CRED :: u8 where "CUSTOM_CRED = 0x42"
definition UNKNOWN_CRED :: u8 where "UNKNOWN_CRED = 0x3f"

definition parse_pub_key_cred_param :: "'v cbor \<Rightarrow> 'v \<Rightarrow> u8 \<times> int \<Rightarrow> int \<times> (u8 \<times> int)" where
  "parse_pub_key_cred_param cb val out =
     (if cb_type cb val \<noteq> CborMap then (CTAP2_ERR_INVALID_CBOR_TYPE, out)
      else case cb_find cb val ''type'' of (r, cred) \<Rightarrow> check_ret r out (
           case cb_find cb val ''alg'' of (r, alg) \<Rightarrow> check_ret r out (
      if cb_type cb cred \<noteq> CborTextString then (ERR_MISSING, out)
      else if cb_type cb alg \<noteq> CborInteger then (ERR_MISSING, out)
      else
        case cb_copy_text cb cred 16 of (r, ws, sz) \<Rightarrow> check_ret r out (
        let ty = (if cstr 16 ws = chars ''public-key'' then PK_CRED else UNKNOWN_CRED); out = (ty, snd out) in
        case cb_int_checked cb alg of (r, a) \<Rightarrow> check_ret r out (0, (ty, a))))))"

definition pub_key_cred_param_supported :: "u8 \<Rightarrow> int \<Rightarrow> bool" where
  "pub_key_cred_param_supported cred alg \<longleftrightarrow> cred = PK_CRED \<and> alg = -7"

text \<open>The first pass only validates.\<close>

definition param_validate :: "'v cbor \<Rightarrow> 'v \<Rightarrow> u8 \<times> int \<Rightarrow> int \<times> 'v \<times> (u8 \<times> int)" where
  "param_validate cb v out = with_value cb v (parse_pub_key_cred_param cb v out)"

text \<open>The second pass stops at the first supported pair (code 1 here), and skips broken ones.\<close>

definition param_choose :: "'v cbor \<Rightarrow> 'v \<Rightarrow> (u8 \<times> int) \<times> bool \<Rightarrow> int \<times> 'v \<times> ((u8 \<times> int) \<times> bool)" where
  "param_choose cb v s =
     (case parse_pub_key_cred_param cb v (fst s) of (r, out) \<Rightarrow>
      if r = 0 \<and> pub_key_cred_param_supported (fst out) (snd out) then (1, v, (out, True))
      else advance_end cb v (out, False))"

definition parse_pub_key_cred_params ::
    "'v cbor \<Rightarrow> 'v \<Rightarrow> 'a make_credential_scheme \<Rightarrow> int \<times> 'a make_credential_scheme" where
  "parse_pub_key_cred_params cb val MC =
     (if cb_type cb val \<noteq> CborArray then (CTAP2_ERR_INVALID_CBOR_TYPE, MC)
      else
        case cb_enter cb val of (r, arr) \<Rightarrow> check_ret r MC (
        case cb_array_length cb val of (r, n) \<Rightarrow> check_ret r MC (
        case parse_loop (param_validate cb) n arr (0, 0) of (r, _, out) \<Rightarrow>
        if r \<noteq> 0 then (r, MC)
        else
          case cb_enter cb val of (r, arr) \<Rightarrow> check_ret r MC (
          case parse_loop (param_choose cb) n arr (out, False) of (r, _, ((ty, alg), found)) \<Rightarrow>
          if found then
            (0, MC\<lparr>mc_credInfo := (mc_credInfo MC)\<lparr>in_type := ty, in_alg := alg\<rparr>, mc_parsed := CPARAM 3 (mc_parsed MC)\<rparr>)
          else if r \<noteq> 0 then (r, MC)
          else (CTAP2_ERR_UNSUPPORTED_ALGORITHM, MC)))))"

subsection \<open>Relying party and options\<close>

definition parse_rp_id :: "'v cbor \<Rightarrow> 'v \<Rightarrow> rp_id \<Rightarrow> int \<times> rp_id" where
  "parse_rp_id cb val rp =
     (if cb_type cb val \<noteq> CborTextString then (CTAP2_ERR_INVALID_CBOR_TYPE, rp)
      else
        case cb_copy_text cb val 253 of (r, ws, sz) \<Rightarrow>
        let rp = rp\<lparr>rp_id := blit (rp_id rp) 0 ws\<rparr> in
        if r = CborErrorOutOfMemory then (CTAP2_ERR_LIMIT_EXCEEDED, rp)
        else check_ret r rp (0, rp\<lparr>rp_id := (rp_id rp)[253 := 0], rp_size := sz\<rparr>))"

definition rp_value :: "'v cbor \<Rightarrow> bytes \<Rightarrow> 'v \<Rightarrow> rp_id \<Rightarrow> int \<times> rp_id" where
  "rp_value cb key v rp =
     (if cb_type cb v \<noteq> CborTextString then (CTAP2_ERR_INVALID_CBOR_TYPE, rp)
      else if key = chars ''id'' then parse_rp_id cb v rp
      else if key = chars ''name'' then
        case copy_cut cb v 32 (rp_name rp) of (r, b) \<Rightarrow> (r, rp\<lparr>rp_name := b\<rparr>)
      else (0, rp))"

definition parse_rp :: "'v cbor \<Rightarrow> 'v \<Rightarrow> rp_id \<Rightarrow> int \<times> rp_id" where
  "parse_rp cb val rp =
     (if cb_type cb val \<noteq> CborMap then (CTAP2_ERR_INVALID_CBOR_TYPE, rp)
      else
        case cb_enter cb val of (r, mp) \<Rightarrow> check_ret r rp (
        case cb_map_length cb val of (r, n) \<Rightarrow> check_ret r rp (
        case loop_code (parse_loop (with_text_key cb 8 big_key_error (\<lambda>key v rp. with_value cb v (rp_value cb key v rp)))
                          n mp (rp\<lparr>rp_size := 0\<rparr>)) of (r, rp) \<Rightarrow>
        if r \<noteq> 0 then (r, rp) else if rp_size rp = 0 then (ERR_MISSING, rp) else (0, rp))))"

text \<open>\<open>strncmp(key, "rk", 2)\<close>: the two first characters decide.\<close>

definition options_value :: "'v cbor \<Rightarrow> bytes \<Rightarrow> 'v \<Rightarrow> u8 \<times> u8 \<times> u8 \<Rightarrow> int \<times> (u8 \<times> u8 \<times> u8)" where
  "options_value cb key v s =
     (case s of (rk, uv, up) \<Rightarrow>
      if cb_type cb v \<noteq> CborBoolean then (CTAP2_ERR_INVALID_CBOR_TYPE, s)
      else
        case cb_boolean cb v of (r, b) \<Rightarrow>
        if take 2 key = chars ''rk'' then check_ret r s (0, (of_bool b, uv, up))
        else if take 2 key = chars ''uv'' then check_ret r s (0, (rk, of_bool b, up))
        else if take 2 key = chars ''up'' then check_ret r s (0, (rk, uv, of_bool b))
        else (0, s))"

definition parse_options :: "'v cbor \<Rightarrow> 'v \<Rightarrow> u8 \<times> u8 \<times> u8 \<Rightarrow> int \<times> (u8 \<times> u8 \<times> u8)" where
  "parse_options cb val s =
     loop_code (parse_map cb CTAP2_ERR_INVALID_CBOR_TYPE
       (with_text_key cb 8 big_key_error (\<lambda>key v s. with_value cb v (options_value cb key v s))) val s)"


subsection \<open>COSE keys and extensions\<close>

text \<open>The flags are \<open>xkey\<close> and \<open>ykey\<close>.\<close>

definition int_value :: "'v cbor \<Rightarrow> 'v \<Rightarrow> int \<Rightarrow> int \<times> int" where
  "int_value cb v old =
     (if cb_type cb v = CborInteger then case cb_int_checked cb v of (r, x) \<Rightarrow> check_ret r old (0, x)
      else (CTAP2_ERR_INVALID_CBOR_TYPE, old))"

definition cose_value :: "'v cbor \<Rightarrow> int \<Rightarrow> 'v \<Rightarrow> cose_key \<times> bool \<times> bool \<Rightarrow> int \<times> (cose_key \<times> bool \<times> bool)" where
  "cose_value cb key v s =
     (case s of (cose, x, y) \<Rightarrow>
      if key = 1 then case int_value cb v (ck_kty cose) of (r, k) \<Rightarrow> (r, (cose\<lparr>ck_kty := k\<rparr>, x, y))
      else if key = -1 then case int_value cb v (ck_crv cose) of (r, k) \<Rightarrow> (r, (cose\<lparr>ck_crv := k\<rparr>, x, y))
      else if key = -2 then case parse_fixed_byte_string cb v 32 (ck_x cose) of (r, b) \<Rightarrow>
        (r, (cose\<lparr>ck_x := b\<rparr>, x \<or> r = 0, y))
      else if key = -3 then case parse_fixed_byte_string cb v 32 (ck_y cose) of (r, b) \<Rightarrow>
        (r, (cose\<lparr>ck_y := b\<rparr>, x, y \<or> r = 0))
      else (0, s))"

definition parse_cose_key :: "'v cbor \<Rightarrow> 'v \<Rightarrow> cose_key \<Rightarrow> int \<times> cose_key" where
  "parse_cose_key cb it cose =
     (case loop_code (parse_map cb CTAP2_ERR_INVALID_CBOR_TYPE
             (with_int_key cb (cb_int_checked cb) CTAP2_ERR_INVALID_CBOR_TYPE
                (\<lambda>key v s. with_value cb v (cose_value cb key v s))) it (cose\<lparr>ck_kty := 0, ck_crv := 0\<rparr>, False, False))
      of (r, (cose, x, y)) \<Rightarrow>
        if r \<noteq> 0 then (r, cose)
        else if \<not> x \<or> \<not> y \<or> ck_kty cose = 0 \<or> ck_crv cose = 0 then (ERR_MISSING, cose) else (0, cose))"

text \<open>The number counts the parameters seen; a repeated one counts again.\<close>

definition hmac_value :: "'v cbor \<Rightarrow> int \<Rightarrow> 'v \<Rightarrow> hmac_secret \<times> u8 \<Rightarrow> int \<times> (hmac_secret \<times> u8)" where
  "hmac_value cb key v s =
     (case s of (hs, n) \<Rightarrow>
      if key = 1 then
        case parse_cose_key cb v (hs_keyAgreement hs) of (r, k) \<Rightarrow>
        let hs = hs\<lparr>hs_keyAgreement := k\<rparr> in check_retr r (hs, n) (0, (hs, n + 1))
      else if key = 2 then
        case cb_copy_bytes cb v 64 of (r, ws, salt_len) \<Rightarrow>
        let hs = hs\<lparr>hs_saltEnc := blit (hs_saltEnc hs) 0 ws\<rparr> in
        if (salt_len \<noteq> 32 \<and> salt_len \<noteq> 64) \<or> r = CborErrorOutOfMemory then (CTAP1_ERR_INVALID_LENGTH, (hs, n))
        else check_ret r (hs, n) (0, (hs\<lparr>hs_saltLen := of_nat salt_len\<rparr>, n + 1))
      else if key = 3 then
        case cb_copy_bytes cb v 32 of (r, ws, salt_len) \<Rightarrow>
        let hs = hs\<lparr>hs_saltAuth := blit (hs_saltAuth hs) 0 ws\<rparr> in
        check_ret r (hs, n) (0, (hs, n + 1))
      else (0, s))"

definition ctap_parse_hmac_secret :: "'v cbor \<Rightarrow> 'v \<Rightarrow> hmac_secret \<Rightarrow> int \<times> hmac_secret" where
  "ctap_parse_hmac_secret cb val hs =
     (case loop_code (parse_map cb CTAP2_ERR_INVALID_CBOR_TYPE
             (with_int_key cb (cb_int cb) CTAP2_ERR_INVALID_CBOR_TYPE
                (\<lambda>key v s. with_value cb v (hmac_value cb key v s))) val (hs, 0))
      of (r, (hs, n)) \<Rightarrow> if r \<noteq> 0 then (r, hs) else if n \<noteq> 3 then (ERR_MISSING, hs) else (0, hs))"

definition ext_value :: "'v cbor \<Rightarrow> bytes \<Rightarrow> 'v \<Rightarrow> ctap_extensions \<Rightarrow> int \<times> ctap_extensions" where
  "ext_value cb key v ext =
     (if take 11 key = chars ''hmac-secret'' then
        if cb_type cb v = CborBoolean then
          case cb_boolean cb v of (r, b) \<Rightarrow> check_ret r ext (0, if b then ext\<lparr>ex_hmac_present := 1\<rparr> else ext)
        else if cb_type cb v = CborMap then
          case ctap_parse_hmac_secret cb v (ex_hmac ext) of (r, hs) \<Rightarrow>
          let ext = ext\<lparr>ex_hmac := hs\<rparr> in check_retr r ext (0, ext\<lparr>ex_hmac_present := 2\<rparr>)
        else (0, ext)
      else if take 11 key = chars ''credProtect'' then
        if cb_type cb v = CborInteger then
          case cb_int cb v of (r, x) \<Rightarrow> check_ret r ext (0, ext\<lparr>ex_cred_protect := of_int x\<rparr>)
        else (0, ext)
      else (0, ext))"

text \<open>A key that is too long is skipped together with its value.\<close>

definition skip_entry :: "'v cbor \<Rightarrow> 'v \<Rightarrow> 's \<Rightarrow> int \<times> 'v \<times> 's" where
  "skip_entry cb v s = (case cb_advance cb v of (r, v) \<Rightarrow> if r \<noteq> 0 then (ERR_PARSING, v, s) else advance_end cb v s)"

definition ctap_parse_extensions :: "'v cbor \<Rightarrow> 'v \<Rightarrow> ctap_extensions \<Rightarrow> int \<times> ctap_extensions" where
  "ctap_parse_extensions cb val ext =
     loop_code (parse_map cb CTAP2_ERR_INVALID_CBOR_TYPE
       (with_text_key cb 16 (skip_entry cb) (\<lambda>key v ext. with_value cb v (ext_value cb key v ext))) val ext)"

subsection \<open>Credential descriptors\<close>

text \<open>The descriptor and, for a credential id of another length, the custom id in \<open>getAssertionState\<close>.\<close>

type_synonym desc_state = "cred_desc \<times> bytes \<times> u8"

definition desc_id :: "'v cbor \<Rightarrow> 'v \<Rightarrow> desc_state \<Rightarrow> int \<times> desc_state" where
  "desc_id cb val s =
     (case s of (cred, custom, csize) \<Rightarrow>
      case cb_copy_bytes cb val 70 of (r, ws, buflen) \<Rightarrow>
      let c = cd_credential cred;
          cred = cred\<lparr>cd_credential := c\<lparr>cr_id := cid_of_image (blit (cid_image (cr_id c)) 0 ws)\<rparr>\<rparr> in
      if buflen = 48 then check_ret r (cred\<lparr>cd_type := CTAP1_CRED\<rparr>, custom, csize) (0, (cred\<lparr>cd_type := CTAP1_CRED\<rparr>, custom, csize))
      else if buflen \<noteq> 70 then
        case cb_copy_bytes cb val 256 of (r, ws, buflen) \<Rightarrow>
        let s = (cred\<lparr>cd_type := CUSTOM_CRED\<rparr>, blit custom 0 ws, of_nat buflen) in check_ret r s (0, s)
      else check_ret r (cred, custom, csize) (0, (cred, custom, csize)))"

definition desc_type :: "'v cbor \<Rightarrow> 'v \<Rightarrow> desc_state \<Rightarrow> int \<times> desc_state" where
  "desc_type cb val s =
     (case s of (cred, custom, csize) \<Rightarrow>
      if cb_type cb val \<noteq> CborTextString then (ERR_MISSING, s)
      else
        case cb_copy_text cb val 12 of (r, ws, sz) \<Rightarrow>
        if r = CborErrorOutOfMemory then (0, (cred\<lparr>cd_type := UNKNOWN_CRED\<rparr>, custom, csize))
        else check_ret r s (
          if takeWhile (\<lambda>b. b \<noteq> 0) (take 11 ws) = chars ''public-key'' then
            (0, (if cd_type cred = 0 then cred\<lparr>cd_type := PK_CRED\<rparr> else cred, custom, csize))
          else (0, (cred\<lparr>cd_type := UNKNOWN_CRED\<rparr>, custom, csize))))"

definition parse_credential_descriptor :: "'v cbor \<Rightarrow> 'v \<Rightarrow> desc_state \<Rightarrow> int \<times> desc_state" where
  "parse_credential_descriptor cb arr s =
     (case s of (cred, custom, csize) \<Rightarrow>
      let s = (cred\<lparr>cd_type := 0\<rparr>, custom, csize) in
      if cb_type cb arr \<noteq> CborMap then (CTAP2_ERR_INVALID_CBOR_TYPE, s)
      else
        case cb_find cb arr ''id'' of (r, val) \<Rightarrow> check_ret r s (
        if cb_type cb val \<noteq> CborByteString then (ERR_MISSING, s)
        else
          case desc_id cb val s of (r, s) \<Rightarrow>
          if r \<noteq> 0 then (r, s)
          else case cb_find cb arr ''type'' of (r, val) \<Rightarrow> check_ret r s (desc_type cb val s)))"

definition parse_verify_exclude_list :: "'v cbor \<Rightarrow> 'v \<Rightarrow> desc_state \<Rightarrow> int \<times> desc_state" where
  "parse_verify_exclude_list cb val s =
     (if cb_type cb val \<noteq> CborArray then (CTAP2_ERR_INVALID_CBOR_TYPE, s)
      else
        case cb_array_length cb val of (r, n) \<Rightarrow> check_ret r s (
        case cb_enter cb val of (r, arr) \<Rightarrow> check_ret r s (
        loop_code (parse_loop (\<lambda>v s. case parse_credential_descriptor cb v s of (r, s) \<Rightarrow>
          with_value cb v (if r \<noteq> 0 then ERR_PARSING else 0, s)) n arr s))))"


subsection \<open>makeCredential\<close>

text \<open>The structure, the cursor of the exclude list with its length, and the custom id.\<close>

record 'v mc_parse = make_credential +
  mp_excludeList :: "'v option"
  mp_excludeListSize :: nat

definition mc_zero :: "'v mc_parse" where
  "mc_zero = \<lparr>mc_parsed = 0, mc_clientDataHash = zeros 32, mc_rp = \<lparr>rp_id = zeros 254, rp_size = 0, rp_name = zeros 32\<rparr>,
     mc_credInfo = \<lparr>in_user = user_zero, in_type = 0, in_alg = 0, in_rk = 0\<rparr>, mc_uv = 0, mc_up = 0,
     mc_pinAuth = zeros 16, mc_pinAuthPresent = 0, mc_pinAuthEmpty = 0, mc_pinProtocol = 0, mc_extensions = ext_zero,
     mp_excludeList = None, mp_excludeListSize = 0\<rparr>"

text \<open>pinAuth: an empty string asks for a touch; a wrong length is let through.\<close>

definition pin_auth_empty :: "'v cbor \<Rightarrow> 'v \<Rightarrow> bool" where
  "pin_auth_empty cb v \<longleftrightarrow> cb_type cb v = CborByteString \<and> cb_string_length cb v = (0, 0)"

definition pin_auth_value :: "'v cbor \<Rightarrow> 'v \<Rightarrow> bytes \<Rightarrow> int \<times> bytes" where
  "pin_auth_value cb v dst =
     (case parse_fixed_byte_string cb v 16 dst of (r, b) \<Rightarrow> (if r = CTAP1_ERR_INVALID_LENGTH then 0 else r, b))"

definition mc_exclude_value :: "'v cbor \<Rightarrow> 'v \<Rightarrow> 'v mc_parse \<times> bytes \<times> u8 \<Rightarrow> int \<times> ('v mc_parse \<times> bytes \<times> u8)" where
  "mc_exclude_value cb v s =
     (case s of (MC, custom, csize) \<Rightarrow>
      case parse_verify_exclude_list cb v (cred_desc_zero, custom, csize) of (r, (_, custom, csize)) \<Rightarrow>
      let s = (MC, custom, csize) in
      check_ret r s (
      case cb_enter cb v of (r, lst) \<Rightarrow>
      let MC = MC\<lparr>mp_excludeList := Some lst\<rparr>; s = (MC, custom, csize) in
      check_ret r s (
      case cb_array_length cb v of (r, n) \<Rightarrow>
      check_ret r s (0, (MC\<lparr>mp_excludeListSize := n\<rparr>, custom, csize)))))"

definition mc_value :: "'v cbor \<Rightarrow> int \<Rightarrow> 'v \<Rightarrow> 'v mc_parse \<times> bytes \<times> u8 \<Rightarrow> int \<times> ('v mc_parse \<times> bytes \<times> u8)" where
  "mc_value cb key v s =
     (case s of (MC, custom, csize) \<Rightarrow>
      if key = 1 then
        case parse_fixed_byte_string cb v 32 (mc_clientDataHash MC) of (r, b) \<Rightarrow>
        (r, (MC\<lparr>mc_clientDataHash := b, mc_parsed := (if r = 0 then CPARAM 0 (mc_parsed MC) else mc_parsed MC)\<rparr>, custom, csize))
      else if key = 2 then
        case parse_rp cb v (mc_rp MC) of (r, rp) \<Rightarrow>
        (r, (MC\<lparr>mc_rp := rp, mc_parsed := (if r = 0 then CPARAM 1 (mc_parsed MC) else mc_parsed MC)\<rparr>, custom, csize))
      else if key = 3 then case parse_user cb v MC of (r, MC) \<Rightarrow> (r, (MC, custom, csize))
      else if key = 4 then case parse_pub_key_cred_params cb v MC of (r, MC) \<Rightarrow> (r, (MC, custom, csize))
      else if key = 5 then mc_exclude_value cb v s
      else if key = 6 then
        if cb_type cb v \<noteq> CborMap then (CTAP2_ERR_INVALID_CBOR_TYPE, s)
        else case ctap_parse_extensions cb v (mc_extensions MC) of (r, e) \<Rightarrow> (r, (MC\<lparr>mc_extensions := e\<rparr>, custom, csize))
      else if key = 7 then
        case parse_options cb v (in_rk (mc_credInfo MC), mc_uv MC, mc_up MC) of (r, (rk, uv, up)) \<Rightarrow>
        (r, (MC\<lparr>mc_credInfo := (mc_credInfo MC)\<lparr>in_rk := rk\<rparr>, mc_uv := uv, mc_up := up\<rparr>, custom, csize))
      else if key = 8 then
        if pin_auth_empty cb v then (0, (MC\<lparr>mc_pinAuthEmpty := 1\<rparr>, custom, csize))
        else case pin_auth_value cb v (mc_pinAuth MC) of (r, b) \<Rightarrow>
          (r, (if r \<noteq> 0 then MC\<lparr>mc_pinAuth := b\<rparr> else MC\<lparr>mc_pinAuth := b, mc_pinAuthPresent := 1\<rparr>, custom, csize))
      else if key = 9 then
        case int_value cb v (mc_pinProtocol MC) of (r, p) \<Rightarrow> (r, (MC\<lparr>mc_pinProtocol := p\<rparr>, custom, csize))
      else (0, s))"

definition ctap_parse_make_credential ::
    "'v cbor \<Rightarrow> bytes \<Rightarrow> bytes \<times> u8 \<Rightarrow> int \<times> ('v mc_parse \<times> bytes \<times> u8)" where
  "ctap_parse_make_credential cb request custom =
     (let s = (mc_zero\<lparr>mc_up := 0xff\<rparr>, custom) in
      case cb_init cb request of (r, it) \<Rightarrow>
      if r \<noteq> 0 then (u8_code r, s)
      else loop_code (parse_map cb CTAP2_ERR_CBOR_UNEXPECTED_TYPE
             (with_int_key cb (cb_int_checked cb) CTAP2_ERR_CBOR_UNEXPECTED_TYPE
                (\<lambda>key v s. with_value cb v (mc_value cb key v s))) it s))"

subsection \<open>getAssertion\<close>

text \<open>The credentials of the allow list go into \<open>getAssertionState\<close>; \<open>credLen\<close> counts them.\<close>

definition allow_step :: "'v cbor \<Rightarrow> 'v \<Rightarrow> get_assertion \<times> ga_state \<Rightarrow> int \<times> 'v \<times> (get_assertion \<times> ga_state)" where
  "allow_step cb v s =
     (case s of (GA, gs) \<Rightarrow>
      let i = nat (ga_credLen GA) in
      if i \<ge> ALLOW_LIST_MAX_SIZE then (CTAP2_ERR_TOO_MANY_ELEMENTS, v, s)
      else
        let GA = GA\<lparr>ga_credLen := ga_credLen GA + 1\<rparr> in
        case parse_credential_descriptor cb v (gs_creds gs ! i, gs_customCredId gs, gs_customCredIdSize gs) of
          (r, (cred, custom, csize)) \<Rightarrow>
        with_value cb v (r, (GA, gs\<lparr>gs_creds := (gs_creds gs)[i := cred], gs_customCredId := custom, gs_customCredIdSize := csize\<rparr>)))"

definition parse_allow_list :: "'v cbor \<Rightarrow> 'v \<Rightarrow> get_assertion \<times> ga_state \<Rightarrow> int \<times> (get_assertion \<times> ga_state)" where
  "parse_allow_list cb it s =
     (if cb_type cb it \<noteq> CborArray then (CTAP2_ERR_INVALID_CBOR_TYPE, s)
      else
        case cb_enter cb it of (r, arr) \<Rightarrow> check_ret r s (
        case cb_array_length cb it of (r, n) \<Rightarrow> check_ret r s (
        loop_code (parse_loop (allow_step cb) n arr ((fst s)\<lparr>ga_credLen := 0\<rparr>, snd s)))))"

definition ga_zero :: get_assertion where
  "ga_zero = \<lparr>ga_parsed = 0, ga_clientDataHash = zeros 32, ga_clientDataHashPresent = 0,
     ga_rp = \<lparr>rp_id = zeros 254, rp_size = 0, rp_name = zeros 32\<rparr>, ga_credLen = 0, ga_rk = 0, ga_uv = 0, ga_up = 0,
     ga_pinAuth = zeros 16, ga_pinAuthPresent = 0, ga_pinAuthEmpty = 0, ga_pinProtocol = 0, ga_allowListPresent = 0,
     ga_extensions = ext_zero\<rparr>"

definition ga_value :: "'v cbor \<Rightarrow> int \<Rightarrow> 'v \<Rightarrow> get_assertion \<times> ga_state \<Rightarrow> int \<times> (get_assertion \<times> ga_state)" where
  "ga_value cb key v s =
     (case s of (GA, gs) \<Rightarrow>
      if key = 2 then
        case parse_fixed_byte_string cb v 32 (ga_clientDataHash GA) of (r, b) \<Rightarrow>
        (r, (GA\<lparr>ga_clientDataHash := b, ga_clientDataHashPresent := (if r = 0 then 1 else ga_clientDataHashPresent GA)\<rparr>, gs))
      else if key = 1 then case parse_rp_id cb v (ga_rp GA) of (r, rp) \<Rightarrow> (r, (GA\<lparr>ga_rp := rp\<rparr>, gs))
      else if key = 3 then
        case parse_allow_list cb v s of (r, (GA, gs)) \<Rightarrow>
        check_ret r (GA, gs) (0, (GA\<lparr>ga_allowListPresent := 1\<rparr>, gs))
      else if key = 4 then
        case ctap_parse_extensions cb v (ga_extensions GA) of (r, e) \<Rightarrow> (r, (GA\<lparr>ga_extensions := e\<rparr>, gs))
      else if key = 5 then
        case parse_options cb v (ga_rk GA, ga_uv GA, ga_up GA) of (r, (rk, uv, up)) \<Rightarrow>
        (r, (GA\<lparr>ga_rk := rk, ga_uv := uv, ga_up := up\<rparr>, gs))
      else if key = 6 then
        if pin_auth_empty cb v then (0, (GA\<lparr>ga_pinAuthEmpty := 1\<rparr>, gs))
        else case pin_auth_value cb v (ga_pinAuth GA) of (r, b) \<Rightarrow>
          (r, (if r \<noteq> 0 then GA\<lparr>ga_pinAuth := b\<rparr> else GA\<lparr>ga_pinAuth := b, ga_pinAuthPresent := 1\<rparr>, gs))
      else if key = 7 then
        case int_value cb v (ga_pinProtocol GA) of (r, p) \<Rightarrow> (r, (GA\<lparr>ga_pinProtocol := p\<rparr>, gs))
      else (0, s))"

definition ctap_parse_get_assertion :: "'v cbor \<Rightarrow> bytes \<Rightarrow> ga_state \<Rightarrow> int \<times> (get_assertion \<times> ga_state)" where
  "ctap_parse_get_assertion cb request gs =
     (let s = (ga_zero\<lparr>ga_up := 0xff\<rparr>, gs) in
      case cb_init cb request of (r, it) \<Rightarrow> check_ret r s (
      loop_code (parse_map cb CTAP2_ERR_INVALID_CBOR_TYPE
             (with_int_key cb (cb_int_checked cb) CTAP2_ERR_INVALID_CBOR_TYPE
                (\<lambda>key v s. with_value cb v (ga_value cb key v s))) it s)))"

subsection \<open>credentialManagement\<close>

definition CM_COPY_SIZE :: nat where "CM_COPY_SIZE = 377"

text \<open>The state holds \<open>sz\<close>, which is set once before the loop.\<close>

definition cm_param_value :: "'v cbor \<Rightarrow> int \<Rightarrow> 'v \<Rightarrow> cred_mgmt \<times> nat \<times> bytes \<times> u8 \<Rightarrow> int \<times> (cred_mgmt \<times> nat \<times> bytes \<times> u8)" where
  "cm_param_value cb key v s =
     (case s of (CM, sz, custom, csize) \<Rightarrow>
      if key = 1 then
        case cb_copy_bytes cb v sz of (r, ws, sz) \<Rightarrow>
        let s = (CM\<lparr>cm_rpIdHash := blit (cm_rpIdHash CM) 0 ws\<rparr>, sz, custom, csize) in
        if r = CborErrorOutOfMemory then (CTAP2_ERR_LIMIT_EXCEEDED, s) else check_ret r s (0, s)
      else if key = 2 then
        case parse_credential_descriptor cb v (cm_desc CM, custom, csize) of (r, (cred, custom, csize)) \<Rightarrow>
        let s = (CM\<lparr>cm_desc := cred\<rparr>, sz, custom, csize) in check_ret r s (0, s)
      else (CTAP2_ERR_INVALID_OPTION, s))"

definition parse_cred_mgmt_subcommandparams ::
    "'v cbor \<Rightarrow> bytes \<Rightarrow> 'v \<Rightarrow> cred_mgmt \<times> bytes \<times> u8 \<Rightarrow> int \<times> (cred_mgmt \<times> bytes \<times> u8)" where
  "parse_cred_mgmt_subcommandparams cb request val s =
     (case s of (CM, custom) \<Rightarrow>
      if cb_type cb val \<noteq> CborMap then (CTAP2_ERR_INVALID_CBOR_TYPE, s)
      else
        case cb_enter cb val of (r, mp) \<Rightarrow> check_ret r s (
        let start = int (cb_next_byte cb mp) - 1 in
        case cb_map_length cb val of (r, n) \<Rightarrow> check_ret r s (
        case parse_loop (with_int_key cb (cb_int cb) CTAP2_ERR_INVALID_CBOR_TYPE
               (\<lambda>key v s. with_value cb v (cm_param_value cb key v s))) n mp (CM, 32, custom) of
          (r, mp, (CM, sz, custom)) \<Rightarrow>
        if r \<noteq> 0 then (r, (CM, custom))
        else
          let len = nat ((int (cb_next_byte cb mp) - start) mod 2 ^ 32) in
          if len > CM_COPY_SIZE then (CTAP2_ERR_LIMIT_EXCEEDED, (CM, custom))
          else (0, (CM\<lparr>cm_hashed := blit (cm_hashed CM) 0 (block request (nat start) len), cm_cborSize := len\<rparr>, custom)))))"

definition cm_value :: "'v cbor \<Rightarrow> bytes \<Rightarrow> int \<Rightarrow> 'v \<Rightarrow> cred_mgmt \<times> bytes \<times> u8 \<Rightarrow> int \<times> (cred_mgmt \<times> bytes \<times> u8)" where
  "cm_value cb request key v s =
     (case s of (CM, custom) \<Rightarrow>
      if key = 1 then
        case int_value cb v (cm_cmd CM) of (r, c) \<Rightarrow>
        (r, (if r \<noteq> 0 then CM\<lparr>cm_cmd := c\<rparr> else CM\<lparr>cm_cmd := c, cm_hashedCmd := of_int c\<rparr>, custom))
      else if key = 2 then
        case parse_cred_mgmt_subcommandparams cb request v s of (r, s) \<Rightarrow> check_ret r s (0, s)
      else if key = 3 then
        case int_value cb v (cm_pinProtocol CM) of (r, p) \<Rightarrow> (r, (CM\<lparr>cm_pinProtocol := p\<rparr>, custom))
      else if key = 4 then
        case parse_fixed_byte_string cb v 16 (cm_pinAuth CM) of (r, b) \<Rightarrow>
        (r, (if r \<noteq> 0 then CM\<lparr>cm_pinAuth := b\<rparr> else CM\<lparr>cm_pinAuth := b, cm_pinAuthPresent := 1\<rparr>, custom))
      else (0, s))"

definition cm_zero :: cred_mgmt where
  "cm_zero = \<lparr>cm_cmd = 0, cm_rpIdHash = zeros 32, cm_desc = cred_desc_zero, cm_hashedCmd = 0, cm_hashed = zeros CM_COPY_SIZE,
     cm_cborSize = 0, cm_pinAuth = zeros 16, cm_pinAuthPresent = 0, cm_pinProtocol = 0\<rparr>"

definition ctap_parse_cred_mgmt :: "'v cbor \<Rightarrow> bytes \<Rightarrow> bytes \<times> u8 \<Rightarrow> int \<times> (cred_mgmt \<times> bytes \<times> u8)" where
  "ctap_parse_cred_mgmt cb request custom =
     (let s = (cm_zero, custom) in
      case cb_init cb request of (r, it) \<Rightarrow> check_ret r s (
      loop_code (parse_map cb CTAP2_ERR_INVALID_CBOR_TYPE
             (with_int_key cb (cb_int_checked cb) CTAP2_ERR_INVALID_CBOR_TYPE
                (\<lambda>key v s. with_value cb v (cm_value cb request key v s))) it s)))"

subsection \<open>clientPIN\<close>

text \<open>The first two getters are called without a check of their code: a number out of range leaves the
  field as it was.\<close>

definition int_unchecked :: "'v cbor \<Rightarrow> 'v \<Rightarrow> int \<Rightarrow> int \<times> int" where
  "int_unchecked cb v old =
     (if cb_type cb v = CborInteger then case cb_int_checked cb v of (r, x) \<Rightarrow> (0, if r = 0 then x else old)
      else (CTAP2_ERR_INVALID_CBOR_TYPE, old))"

definition bool_value :: "'v cbor \<Rightarrow> 'v \<Rightarrow> bool \<Rightarrow> int \<times> bool" where
  "bool_value cb v old =
     (if cb_type cb v \<noteq> CborBoolean then (CTAP2_ERR_INVALID_CBOR_TYPE, old)
      else case cb_boolean cb v of (r, b) \<Rightarrow> check_ret r old (0, b))"

definition new_pin_value :: "'v cbor \<Rightarrow> 'v \<Rightarrow> client_pin \<Rightarrow> int \<times> client_pin" where
  "new_pin_value cb v CP =
     (if cb_type cb v \<noteq> CborByteString then (CTAP2_ERR_INVALID_CBOR_TYPE, CP)
      else
        case cb_calc_length cb v of (r, sz) \<Rightarrow> check_ret r CP (
        if sz > 256 \<or> sz < 64 then (0x37, CP)
        else
          let CP = CP\<lparr>cp_newPinEncSize := int sz\<rparr> in
          case cb_copy_bytes cb v 256 of (r, ws, sz) \<Rightarrow>
          let CP = CP\<lparr>cp_newPinEnc := blit (cp_newPinEnc CP) 0 ws\<rparr> in
          check_ret r CP (0, CP)))"

definition cp_value :: "'v cbor \<Rightarrow> int \<Rightarrow> 'v \<Rightarrow> client_pin \<Rightarrow> int \<times> client_pin" where
  "cp_value cb key v CP =
     (if key = 1 then case int_unchecked cb v (cp_pinProtocol CP) of (r, x) \<Rightarrow> (r, CP\<lparr>cp_pinProtocol := x\<rparr>)
      else if key = 2 then case int_unchecked cb v (cp_subCommand CP) of (r, x) \<Rightarrow> (r, CP\<lparr>cp_subCommand := x\<rparr>)
      else if key = 3 then
        case parse_cose_key cb v (cp_keyAgreement CP) of (r, k) \<Rightarrow>
        (r, if r \<noteq> 0 then CP\<lparr>cp_keyAgreement := k\<rparr> else CP\<lparr>cp_keyAgreement := k, cp_keyAgreementPresent := 1\<rparr>)
      else if key = 4 then
        case parse_fixed_byte_string cb v 16 (cp_pinAuth CP) of (r, b) \<Rightarrow>
        (r, if r \<noteq> 0 then CP\<lparr>cp_pinAuth := b\<rparr> else CP\<lparr>cp_pinAuth := b, cp_pinAuthPresent := 1\<rparr>)
      else if key = 5 then new_pin_value cb v CP
      else if key = 6 then
        case parse_fixed_byte_string cb v 16 (cp_pinHashEnc CP) of (r, b) \<Rightarrow>
        (r, if r \<noteq> 0 then CP\<lparr>cp_pinHashEnc := b\<rparr> else CP\<lparr>cp_pinHashEnc := b, cp_pinHashEncPresent := 1\<rparr>)
      else if key = 7 then case bool_value cb v (cp_getKeyAgreement CP) of (r, b) \<Rightarrow> (r, CP\<lparr>cp_getKeyAgreement := b\<rparr>)
      else if key = 8 then case bool_value cb v (cp_getRetries CP) of (r, b) \<Rightarrow> (r, CP\<lparr>cp_getRetries := b\<rparr>)
      else (0, CP))"

definition cp_zero :: client_pin where
  "cp_zero = \<lparr>cp_pinProtocol = 0, cp_subCommand = 0, cp_keyAgreement = cose_zero, cp_keyAgreementPresent = 0,
     cp_pinAuth = zeros 16, cp_pinAuthPresent = 0, cp_newPinEnc = zeros 256, cp_newPinEncSize = 0,
     cp_pinHashEnc = zeros 16, cp_pinHashEncPresent = 0, cp_getKeyAgreement = False, cp_getRetries = False\<rparr>"

definition ctap_parse_client_pin :: "'v cbor \<Rightarrow> bytes \<Rightarrow> int \<times> client_pin" where
  "ctap_parse_client_pin cb request =
     (case cb_init cb request of (r, it) \<Rightarrow> check_ret r cp_zero (
      loop_code (parse_map cb CTAP2_ERR_INVALID_CBOR_TYPE
             (with_int_key cb (cb_int_checked cb) CTAP2_ERR_INVALID_CBOR_TYPE
                (\<lambda>key v s. with_value cb v (cp_value cb key v s))) it cp_zero)))"

end
