(* ===== verification/CtapParseSafe.thy ===== *)
theory CtapParseSafe
  imports CtapParse
begin

text \<open>
  Memory safety of the request parsers for arbitrary input and any decoder that keeps the contract
  \<open>cbor_ok\<close>: every buffer keeps its size, every stored length fits the buffer it belongs to.
\<close>

named_theorems parse_safe \<open>the parsers keep their structures in bounds\<close>

subsection \<open>Bounds of the structures\<close>

definition rp_ok :: "rp_id \<Rightarrow> bool" where
  "rp_ok rp \<longleftrightarrow> length (rp_id rp) = 254 \<and> rp_size rp \<le> 253 \<and> length (rp_name rp) = 32"

definition cose_ok :: "cose_key \<Rightarrow> bool" where
  "cose_ok k \<longleftrightarrow> length (ck_x k) = 32 \<and> length (ck_y k) = 32"

definition hs_ok :: "hmac_secret \<Rightarrow> bool" where
  "hs_ok h \<longleftrightarrow> length (hs_saltEnc h) = 64 \<and> length (hs_saltAuth h) = 32 \<and> cose_ok (hs_keyAgreement h)
     \<and> hs_saltLen h \<in> {0, 32, 64}"

definition ext_ok :: "ctap_extensions \<Rightarrow> bool" where
  "ext_ok e \<longleftrightarrow> hs_ok (ex_hmac e)"

definition mc_ok :: "'a make_credential_scheme \<Rightarrow> bool" where
  "mc_ok MC \<longleftrightarrow> length (mc_clientDataHash MC) = 32 \<and> rp_ok (mc_rp MC) \<and> user_ok (get_user MC)
     \<and> length (mc_pinAuth MC) = 16 \<and> ext_ok (mc_extensions MC)"

definition desc_ok :: "cred_desc \<Rightarrow> bool" where
  "desc_ok c \<longleftrightarrow> cid_ok (cr_id (cd_credential c)) \<and> user_ok (cr_user (cd_credential c))"

definition gs_ok :: "ga_state \<Rightarrow> bool" where
  "gs_ok gs \<longleftrightarrow> length (gs_creds gs) = ALLOW_LIST_MAX_SIZE \<and> (\<forall>c\<in>set (gs_creds gs). desc_ok c)
     \<and> length (gs_customCredId gs) = 256 \<and> ext_ok (gs_extensions gs) \<and> unat (gs_count gs) < ALLOW_LIST_MAX_SIZE"

definition ga_ok :: "get_assertion \<Rightarrow> bool" where
  "ga_ok GA \<longleftrightarrow> length (ga_clientDataHash GA) = 32 \<and> rp_ok (ga_rp GA) \<and> length (ga_pinAuth GA) = 16
     \<and> ext_ok (ga_extensions GA) \<and> 0 \<le> ga_credLen GA \<and> ga_credLen GA \<le> int ALLOW_LIST_MAX_SIZE"

definition cm_ok :: "cred_mgmt \<Rightarrow> bool" where
  "cm_ok CM \<longleftrightarrow> length (cm_rpIdHash CM) = 32 \<and> desc_ok (cm_desc CM) \<and> length (cm_hashed CM) = CM_COPY_SIZE
     \<and> cm_cborSize CM \<le> CM_COPY_SIZE \<and> length (cm_pinAuth CM) = 16"

definition cp_ok :: "client_pin \<Rightarrow> bool" where
  "cp_ok CP \<longleftrightarrow> cose_ok (cp_keyAgreement CP) \<and> length (cp_pinAuth CP) = 16 \<and> length (cp_newPinEnc CP) = 256
     \<and> length (cp_pinHashEnc CP) = 16 \<and> (cp_newPinEncSize CP = 0 \<or> 64 \<le> cp_newPinEncSize CP \<and> cp_newPinEncSize CP \<le> 256)"

subsection \<open>The pieces\<close>

lemma check_ret_snd [simp]: "snd (check_ret r s k) = (if r \<noteq> 0 then s else snd k)" "snd (check_retr r s k) = (if r \<noteq> 0 then s else snd k)"
  by (simp_all add: check_ret_def check_retr_def)

lemma loop_code_snd [simp]: "snd (loop_code x) = snd (snd x)" "fst (loop_code x) = fst x"
  by (simp_all add: loop_code_def split_beta)

lemma fixed_len [parse_safe]:
  "cbor_ok cb \<Longrightarrow> n \<le> length dst \<Longrightarrow> length (snd (parse_fixed_byte_string cb v n dst)) = length dst"
  using cbor_okD(1)[of cb v n] by (simp add: parse_fixed_byte_string_def split_beta Let_def)

lemma copy_cut_len [parse_safe]:
  "cbor_ok cb \<Longrightarrow> n \<le> length dst \<Longrightarrow> length (snd (copy_cut cb v n dst)) = length dst"
  using cbor_okD(2)[of cb v n] by (simp add: copy_cut_def split_beta Let_def)

lemma user_id_ok: "cbor_ok cb \<Longrightarrow> user_ok u \<Longrightarrow> user_ok (snd (user_id_value cb v u))"
  using cbor_okD(1)[of cb v 64] by (simp add: user_id_value_def split_beta Let_def user_ok_def)

lemma user_ok_upd:
  "user_ok u \<Longrightarrow> length b = length (u_name u) \<Longrightarrow> user_ok (u\<lparr>u_name := b\<rparr>)"
  "user_ok u \<Longrightarrow> length b = length (u_display u) \<Longrightarrow> user_ok (u\<lparr>u_display := b\<rparr>)"
  "user_ok u \<Longrightarrow> length b = length (u_icon u) \<Longrightarrow> user_ok (u\<lparr>u_icon := b\<rparr>)"
  by (simp_all add: user_ok_def)

lemma user_value_ok:
  assumes "cbor_ok cb" "user_ok u"
  shows "user_ok (snd (user_value cb key v u))"
proof -
  have l: "length (u_name u) = 65" "length (u_display u) = 32" "length (u_icon u) = 128"
    using assms(2) by (simp_all add: user_ok_def)
  have "user_ok (u\<lparr>u_name := snd (copy_cut cb v 65 (u_name u))\<rparr>)" "user_ok (u\<lparr>u_display := snd (copy_cut cb v 32 (u_display u))\<rparr>)"
    "user_ok (u\<lparr>u_icon := snd (copy_cut cb v 128 (u_icon u))\<rparr>)"
    using l copy_cut_len[OF assms(1)] by (auto intro: user_ok_upd[OF assms(2)])
  then show ?thesis using assms(2) user_id_ok[OF assms]
    by (simp add: user_value_def split_beta)
qed

lemma parse_user_ok [parse_safe]:
  assumes "cbor_ok cb" "mc_ok MC"
  shows "mc_ok (snd (parse_user cb v MC))"
proof -
  have "user_ok (snd (snd (parse_map cb CTAP2_ERR_INVALID_CBOR_TYPE
      (with_text_key cb 24 big_key_error (\<lambda>key v u. with_value cb v (user_value cb key v u))) v (get_user MC))))"
    by (rule text_loop_inv) (use assms in \<open>simp_all add: user_value_ok mc_ok_def\<close>)
  then show ?thesis using assms(2)
    by (simp add: parse_user_def split_beta Let_def mc_ok_def set_user_def get_user_def)
qed

lemma parse_params_ok [parse_safe]: "mc_ok MC \<Longrightarrow> mc_ok (snd (parse_pub_key_cred_params cb v MC))"
  by (simp add: parse_pub_key_cred_params_def split_beta Let_def mc_ok_def get_user_def)

lemma parse_rp_id_ok [parse_safe]:
  assumes "cbor_ok cb" "rp_ok rp"
  shows "rp_ok (snd (parse_rp_id cb v rp))"
  using assms cbor_okD(2)[OF assms(1), of v 253] cbor_okD(4)[OF assms(1), of v 253]
  by (simp add: parse_rp_id_def split_beta Let_def rp_ok_def)

lemma rp_value_ok:
  assumes "cbor_ok cb" "rp_ok rp"
  shows "rp_ok (snd (rp_value cb key v rp))"
proof -
  have "rp_ok (rp\<lparr>rp_name := snd (copy_cut cb v 32 (rp_name rp))\<rparr>)"
    using assms(2) copy_cut_len[OF assms(1), of 32 "rp_name rp"] by (simp add: rp_ok_def)
  then show ?thesis using assms(2) parse_rp_id_ok[OF assms] by (simp add: rp_value_def split_beta)
qed

lemma parse_rp_ok [parse_safe]:
  assumes "cbor_ok cb" "rp_ok rp"
  shows "rp_ok (snd (parse_rp cb v rp))"
proof -
  have z: "rp_ok (rp\<lparr>rp_size := 0\<rparr>)" using assms(2) by (simp add: rp_ok_def)
  have "rp_ok (snd (snd (parse_loop (with_text_key cb 8 big_key_error (\<lambda>key v rp. with_value cb v (rp_value cb key v rp))) n mp (rp\<lparr>rp_size := 0\<rparr>))))" for n mp
    by (rule text_loop_inv) (use z in \<open>simp_all add: rp_value_ok[OF assms(1)]\<close>)
  then show ?thesis using assms(2) by (simp add: parse_rp_def split_beta)
qed

lemma cose_value_ok:
  assumes "cbor_ok cb" "cose_ok (fst s)"
  shows "cose_ok (fst (snd (cose_value cb key v s)))"
proof (cases s)
  case (fields k x y)
  have "cose_ok (k\<lparr>ck_x := snd (parse_fixed_byte_string cb v 32 (ck_x k))\<rparr>)" "cose_ok (k\<lparr>ck_y := snd (parse_fixed_byte_string cb v 32 (ck_y k))\<rparr>)"
    "cose_ok (k\<lparr>ck_kty := n\<rparr>)" "cose_ok (k\<lparr>ck_crv := n\<rparr>)" for n
    using assms(2) fixed_len[OF assms(1), of 32] fields by (simp_all add: cose_ok_def)
  then show ?thesis using assms(2) by (simp add: fields cose_value_def split_beta)
qed

lemma parse_cose_ok [parse_safe]:
  assumes "cbor_ok cb" "cose_ok k"
  shows "cose_ok (snd (parse_cose_key cb v k))"
proof -
  have z: "cose_ok (k\<lparr>ck_kty := 0, ck_crv := 0\<rparr>)" using assms(2) by (simp add: cose_ok_def)
  have "cose_ok (fst (snd (snd (parse_map cb CTAP2_ERR_INVALID_CBOR_TYPE (with_int_key cb (cb_int_checked cb) CTAP2_ERR_INVALID_CBOR_TYPE
                (\<lambda>key v s. with_value cb v (cose_value cb key v s))) v (k\<lparr>ck_kty := 0, ck_crv := 0\<rparr>, False, False)))))"
    by (rule int_loop_inv[where P = "\<lambda>s. cose_ok (fst s)"]) (use z in \<open>simp_all add: cose_value_ok[OF assms(1)]\<close>)
  then show ?thesis by (simp add: parse_cose_key_def split_beta)
qed

lemma hmac_value_ok:
  assumes "cbor_ok cb" "hs_ok (fst s)"
  shows "hs_ok (fst (snd (hmac_value cb key v s)))"
proof (cases s)
  case (Pair h n)
  have l: "length (fst (snd (cb_copy_bytes cb v 64))) \<le> 64" "length (fst (snd (cb_copy_bytes cb v 32))) \<le> 32"
    using cbor_okD(1)[OF assms(1)] by blast+
  have h: "hs_ok h" using assms(2) Pair by simp
  have k: "hs_ok (h\<lparr>hs_keyAgreement := snd (parse_cose_key cb v (hs_keyAgreement h))\<rparr>)"
    using h parse_cose_ok[OF assms(1)] by (simp add: hs_ok_def)
  have e: "hs_ok (h\<lparr>hs_saltEnc := blit (hs_saltEnc h) 0 (fst (snd (cb_copy_bytes cb v 64)))\<rparr>)"
    "hs_ok (h\<lparr>hs_saltAuth := blit (hs_saltAuth h) 0 (fst (snd (cb_copy_bytes cb v 32)))\<rparr>)"
    using h l by (simp_all add: hs_ok_def)
  have s: "hs_ok x \<Longrightarrow> sl = 32 \<or> sl = 64 \<Longrightarrow> hs_ok (x\<lparr>hs_saltLen := of_nat sl\<rparr>)" for x sl by (auto simp: hs_ok_def)
  show ?thesis using h k e s[OF e(1)] by (auto simp: Pair hmac_value_def split_beta Let_def)
qed

lemma parse_hmac_ok [parse_safe]:
  assumes "cbor_ok cb" "hs_ok h"
  shows "hs_ok (snd (ctap_parse_hmac_secret cb v h))"
proof -
  have "hs_ok (fst (snd (snd (parse_map cb CTAP2_ERR_INVALID_CBOR_TYPE (with_int_key cb (cb_int cb) CTAP2_ERR_INVALID_CBOR_TYPE
                (\<lambda>key v s. with_value cb v (hmac_value cb key v s))) v (h, 0)))))"
    by (rule int_loop_inv[where P = "\<lambda>s. hs_ok (fst s)"]) (use assms in \<open>simp_all add: hmac_value_ok[OF assms(1)]\<close>)
  then show ?thesis by (simp add: ctap_parse_hmac_secret_def split_beta)
qed

lemma parse_ext_ok [parse_safe]:
  assumes "cbor_ok cb" "ext_ok e"
  shows "ext_ok (snd (ctap_parse_extensions cb v e))"
proof -
  have c: "ext_ok e \<Longrightarrow> ext_ok (snd (ext_value cb key v e))" for key v e
    using parse_hmac_ok[OF assms(1)] by (simp add: ext_value_def split_beta Let_def ext_ok_def)
  have k: "snd (snd (skip_entry cb v s)) = s" for v and s :: ctap_extensions by (simp add: skip_entry_def split_beta)
  show ?thesis unfolding ctap_parse_extensions_def loop_code_snd
    by (rule text_loop_inv) (use assms c k in simp_all)
qed

lemma cid_of_image_ok: "length b = 70 \<Longrightarrow> cid_ok (cid_of_image b)"
  by (simp add: cid_ok_def cid_of_image_def)

lemma parse_desc_ok [parse_safe]:
  assumes "cbor_ok cb" "desc_ok c" "length custom = 256"
  shows "desc_ok (fst (snd (parse_credential_descriptor cb v (c, custom, n))))
    \<and> length (fst (snd (snd (parse_credential_descriptor cb v (c, custom, n))))) = 256"
proof -
  have l: "length (fst (snd (cb_copy_bytes cb w 70))) \<le> 70" "length (fst (snd (cb_copy_bytes cb w 256))) \<le> 256" for w
    using cbor_okD(1)[OF assms(1)] by blast+
  have i: "desc_ok (fst s) \<and> length (fst (snd s)) = 256
     \<Longrightarrow> desc_ok (fst (snd (desc_id cb w s))) \<and> length (fst (snd (snd (desc_id cb w s)))) = 256" for w s
    using l[of w] by (cases s) (simp add: desc_id_def split_beta Let_def desc_ok_def cid_of_image_ok length_cid_image)
  have t: "desc_ok (fst s) \<and> length (fst (snd s)) = 256
     \<Longrightarrow> desc_ok (fst (snd (desc_type cb w s))) \<and> length (fst (snd (snd (desc_type cb w s)))) = 256" for w s
    by (cases s) (simp add: desc_type_def split_beta desc_ok_def)
  show ?thesis using assms(2,3) i t
    by (simp add: parse_credential_descriptor_def split_beta Let_def desc_ok_def)
qed


subsection \<open>Whole requests\<close>

lemma verify_list_ok:
  assumes "cbor_ok cb" "desc_ok (fst s)" "length (fst (snd s)) = 256"
  shows "desc_ok (fst (snd (parse_verify_exclude_list cb v s))) \<and> length (fst (snd (snd (parse_verify_exclude_list cb v s)))) = 256"
proof -
  let ?P = "\<lambda>s :: desc_state. desc_ok (fst s) \<and> length (fst (snd s)) = 256"
  have b: "?P s \<Longrightarrow> ?P (snd (snd (case parse_credential_descriptor cb v s of (r, s) \<Rightarrow> with_value cb v (if r \<noteq> 0 then ERR_PARSING else 0, s))))" for v s
    using parse_desc_ok[OF assms(1)] by (cases s) (simp add: split_beta)
  have "?P (snd (snd (parse_loop (\<lambda>v s. case parse_credential_descriptor cb v s of (r, s) \<Rightarrow>
          with_value cb v (if r \<noteq> 0 then ERR_PARSING else 0, s)) n a s)))" for n a
    by (rule parse_loop_inv[where P = ?P, OF b]) (use assms in simp_all)
  then show ?thesis using assms(2,3) by (simp add: parse_verify_exclude_list_def split_beta)
qed

lemma ok_zero [simp]: "desc_ok cred_desc_zero" "rp_ok \<lparr>rp_id = zeros 254, rp_size = 0, rp_name = zeros 32\<rparr>" "ext_ok ext_zero" "cose_ok cose_zero"
  by (simp_all add: desc_ok_def cred_desc_zero_def rp_ok_def ext_ok_def ext_zero_def hs_ok_def cose_ok_def cose_zero_def)

text \<open>makeCredential.\<close>

definition mcs_ok :: "'v mc_parse \<times> bytes \<times> u8 \<Rightarrow> bool" where
  "mcs_ok s \<longleftrightarrow> mc_ok (fst s) \<and> length (fst (snd s)) = 256"

lemma mc_fields:
  assumes "mc_ok MC"
  shows "length b = 32 \<Longrightarrow> mc_ok (MC\<lparr>mc_clientDataHash := b, mc_parsed := w\<rparr>)" "rp_ok rp \<Longrightarrow> mc_ok (MC\<lparr>mc_rp := rp, mc_parsed := w\<rparr>)"
    "ext_ok e \<Longrightarrow> mc_ok (MC\<lparr>mc_extensions := e\<rparr>)" "mc_ok (MC\<lparr>mc_credInfo := (mc_credInfo MC)\<lparr>in_rk := x\<rparr>, mc_uv := y, mc_up := z\<rparr>)"
    "mc_ok (MC\<lparr>mc_pinAuthEmpty := x\<rparr>)" "length b2 = 16 \<Longrightarrow> mc_ok (MC\<lparr>mc_pinAuth := b2\<rparr>)"
    "length b2 = 16 \<Longrightarrow> mc_ok (MC\<lparr>mc_pinAuth := b2, mc_pinAuthPresent := x\<rparr>)" "mc_ok (MC\<lparr>mc_pinProtocol := p\<rparr>)"
  using assms by (simp_all add: mc_ok_def get_user_def)

lemma mc_fields2:
  assumes "mc_ok (MC :: 'v mc_parse)"
  shows "mc_ok (MC\<lparr>mp_excludeList := l\<rparr>)" "mc_ok (MC\<lparr>mp_excludeList := l, mp_excludeListSize := n\<rparr>)"
  using assms by (simp_all add: mc_ok_def get_user_def)

lemma mc_exclude_ok:
  assumes "cbor_ok cb" "mcs_ok s"
  shows "mcs_ok (snd (mc_exclude_value cb v s))"
proof (cases s)
  case (fields MC custom csize)
  have "length (fst (snd (snd (parse_verify_exclude_list cb v (cred_desc_zero, custom, csize))))) = 256"
    using verify_list_ok[OF assms(1), of "(cred_desc_zero, custom, csize)"] assms(2) fields by (simp add: mcs_ok_def)
  then show ?thesis using assms(2) mc_fields2[of MC]
    by (simp add: fields mc_exclude_value_def split_beta Let_def mcs_ok_def)
qed

lemma pin_auth_len: "cbor_ok cb \<Longrightarrow> length b = 16 \<Longrightarrow> length (snd (pin_auth_value cb v b)) = 16"
  using fixed_len[of cb 16 b v] by (simp add: pin_auth_value_def split_beta)

lemma mc_value_ok:
  assumes "cbor_ok cb" "mcs_ok s"
  shows "mcs_ok (snd (mc_value cb key v s))"
proof (cases s)
  case (fields MC custom csize)
  have m: "mc_ok MC" "length custom = 256" using assms(2) by (simp_all add: fields mcs_ok_def)
  have l: "length (mc_clientDataHash MC) = 32" "length (mc_pinAuth MC) = 16" "rp_ok (mc_rp MC)" "ext_ok (mc_extensions MC)"
    using m(1) by (simp_all add: mc_ok_def)
  have p: "length (snd (parse_fixed_byte_string cb v 32 (mc_clientDataHash MC))) = 32"
    "length (snd (pin_auth_value cb v (mc_pinAuth MC))) = 16"
    using fixed_len[OF assms(1), of 32 "mc_clientDataHash MC"] l pin_auth_len[OF assms(1)] by simp_all
  show ?thesis
    using m mc_fields[OF m(1)] p parse_rp_ok[OF assms(1) l(3)] parse_ext_ok[OF assms(1) l(4)]
      parse_user_ok[OF assms(1) m(1)] parse_params_ok[OF m(1), of cb v] mc_exclude_ok[OF assms, of v]
    by (simp add: mc_value_def fields split_beta mcs_ok_def)
qed

lemma parse_mc_ok:
  fixes cb :: "'v cbor"
  assumes "cbor_ok cb" "length (fst custom) = 256"
  shows "mcs_ok (snd (ctap_parse_make_credential cb request custom))"
proof -
  have z: "mcs_ok ((mc_zero :: 'v mc_parse)\<lparr>mc_up := 0xff\<rparr>, custom)"
    using assms(2) by (simp add: mcs_ok_def mc_zero_def mc_ok_def get_user_def)
  show ?thesis using z int_loop_inv(1)[where P = mcs_ok and f = "mc_value cb", OF mc_value_ok[OF assms(1)] z]
    by (simp add: ctap_parse_make_credential_def split_beta Let_def)
qed

text \<open>The user id of a request that was read to its end fits its buffer. (On an error other than a short buffer the size is whatever the
  decoder left there, and the request is refused.)\<close>

definition user_fits :: "user_entity \<Rightarrow> bool" where
  "user_fits u \<longleftrightarrow> unat (u_id_size u) \<le> length (u_id u)"

lemma user_zero_fits [simp]: "user_fits user_zero"
  by (simp add: user_fits_def user_zero_def)

lemma user_value_fits:
  assumes "cbor_ok cb" "user_ok u \<and> user_fits u" "fst (user_value cb key v u) = 0"
  shows "user_ok (snd (user_value cb key v u)) \<and> user_fits (snd (user_value cb key v u))"
proof -
  have "fst (user_id_value cb v u) = 0 \<Longrightarrow> user_fits (snd (user_id_value cb v u))"
    using assms(2) cbor_okD(1,3)[OF assms(1), of v 64]
    by (auto simp: user_id_value_def user_fits_def user_ok_def split_beta Let_def check_ret_def parse_codes unat_of_nat_u8 split: if_splits)
  then have "user_fits (snd (user_value cb key v u))"
    using assms(2,3) by (auto simp: user_value_def user_fits_def split_beta split: if_splits)
  then show ?thesis using user_value_ok[OF assms(1), of u key v] assms(2) by simp
qed

lemma parse_user_fits:
  assumes "cbor_ok cb" "user_ok (get_user MC) \<and> user_fits (get_user MC)" "fst (parse_user cb v MC) = 0"
  shows "user_fits (get_user (snd (parse_user cb v MC)))"
proof -
  let ?m = "parse_map cb CTAP2_ERR_INVALID_CBOR_TYPE (with_text_key cb 24 big_key_error (\<lambda>key v u. with_value cb v (user_value cb key v u))) v (get_user MC)"
  have z: "fst ?m = 0" using assms(3) by (auto simp: parse_user_def split_beta Let_def split: if_splits)
  have "user_ok (snd (snd ?m)) \<and> user_fits (snd (snd ?m))"
    by (rule map_good[where P = "\<lambda>u. user_ok u \<and> user_fits u", OF _ _ assms(2) z]; (rule text_key_good[where P = "\<lambda>u. user_ok u \<and> user_fits u"])?)
       (simp_all add: parse_codes big_key_error_def user_value_fits[OF assms(1)])
  then show ?thesis by (simp add: parse_user_def split_beta Let_def set_user_def get_user_def)
qed

lemma mc_value_fits:
  assumes "cbor_ok cb" "mcs_ok s \<and> user_fits (get_user (fst s))" "fst (mc_value cb key v s) = 0"
  shows "mcs_ok (snd (mc_value cb key v s)) \<and> user_fits (get_user (fst (snd (mc_value cb key v s))))"
proof (cases s)
  case (fields MC custom csize)
  have u: "user_ok (get_user MC) \<and> user_fits (get_user MC)" using assms(2) by (simp add: fields mcs_ok_def mc_ok_def)
  have "user_fits (get_user (fst (snd (mc_value cb key v s))))"
    using u assms(3) parse_user_fits[OF assms(1) u, of v]
    by (auto simp: mc_value_def fields split_beta get_user_def mc_exclude_value_def Let_def parse_pub_key_cred_params_def check_ret_def split: if_splits)
  then show ?thesis using mc_value_ok[OF assms(1), of s key v] assms(2) by simp
qed

lemma parse_mc_fits:
  fixes cb :: "'v cbor"
  assumes "cbor_ok cb" "length (fst custom) = 256" "fst (ctap_parse_make_credential cb request custom) = 0"
  shows "user_fits (get_user (fst (snd (ctap_parse_make_credential cb request custom))))"
proof -
  let ?P = "\<lambda>s. mcs_ok s \<and> user_fits (get_user (fst s))"
  let ?z = "((mc_zero :: 'v mc_parse)\<lparr>mc_up := 0xff\<rparr>, custom)"
  let ?m = "\<lambda>it. parse_map cb CTAP2_ERR_CBOR_UNEXPECTED_TYPE
      (with_int_key cb (cb_int_checked cb) CTAP2_ERR_CBOR_UNEXPECTED_TYPE (\<lambda>key v s. with_value cb v (mc_value cb key v s))) it ?z"
  have z: "?P ?z" using assms(2) by (simp add: mcs_ok_def mc_zero_def mc_ok_def get_user_def)
  have "?P (snd (snd (?m it)))" if "fst (?m it) = 0" for it
    by (rule map_good[where P = ?P, OF _ _ z that]; (rule int_key_good[where P = ?P])?) (simp_all add: parse_codes mc_value_fits[OF assms(1)])
  then show ?thesis using assms(3) z by (auto simp: ctap_parse_make_credential_def split_beta Let_def split: if_splits)
qed

text \<open>getAssertion.\<close>

definition gas_ok :: "get_assertion \<times> ga_state \<Rightarrow> bool" where
  "gas_ok s \<longleftrightarrow> ga_ok (fst s) \<and> gs_ok (snd s)"

lemma allow_step_ok:
  assumes "cbor_ok cb" "gas_ok s"
  shows "gas_ok (snd (snd (allow_step cb v s)))"
proof (cases s)
  case (Pair GA gs)
  let ?i = "nat (ga_credLen GA)"
  show ?thesis
  proof (cases "?i \<ge> ALLOW_LIST_MAX_SIZE")
    case False
    have g: "ga_ok GA" "gs_ok gs" using assms(2) by (simp_all add: Pair gas_ok_def)
    have i: "?i < length (gs_creds gs)" using False g(2) by (simp add: gs_ok_def)
    then have d: "desc_ok (gs_creds gs ! ?i)" "length (gs_customCredId gs) = 256"
      using g(2) by (auto simp: gs_ok_def)
    note p = parse_desc_ok[OF assms(1) d, of v "gs_customCredIdSize gs"]
    have a: "\<forall>c\<in>set ((gs_creds gs)[?i := x]). desc_ok c" if "desc_ok x" for x
      using that g(2) set_update_subset_insert[of "gs_creds gs" ?i x] by (auto simp: gs_ok_def)
    show ?thesis using False g p a
      by (auto simp: Pair allow_step_def Let_def split_beta gas_ok_def ga_ok_def gs_ok_def ALLOW_LIST_MAX_SIZE_def)
  qed (use assms(2) in \<open>simp add: Pair allow_step_def\<close>)
qed

lemma parse_allow_ok:
  assumes "cbor_ok cb" "gas_ok s"
  shows "gas_ok (snd (parse_allow_list cb v s))"
proof -
  have z: "gas_ok ((fst s)\<lparr>ga_credLen := 0\<rparr>, snd s)" using assms(2) by (simp add: gas_ok_def ga_ok_def)
  show ?thesis using assms(2) parse_loop_inv[where P = gas_ok, OF allow_step_ok[OF assms(1)] z]
    by (simp add: parse_allow_list_def split_beta)
qed

lemma ga_fields:
  assumes "ga_ok GA"
  shows "length b = 32 \<Longrightarrow> ga_ok (GA\<lparr>ga_clientDataHash := b, ga_clientDataHashPresent := w\<rparr>)" "rp_ok rp \<Longrightarrow> ga_ok (GA\<lparr>ga_rp := rp\<rparr>)"
    "ext_ok e \<Longrightarrow> ga_ok (GA\<lparr>ga_extensions := e\<rparr>)" "ga_ok (GA\<lparr>ga_rk := x, ga_uv := y, ga_up := z\<rparr>)"
    "ga_ok (GA\<lparr>ga_pinAuthEmpty := x\<rparr>)" "length b2 = 16 \<Longrightarrow> ga_ok (GA\<lparr>ga_pinAuth := b2\<rparr>)"
    "length b2 = 16 \<Longrightarrow> ga_ok (GA\<lparr>ga_pinAuth := b2, ga_pinAuthPresent := x\<rparr>)" "ga_ok (GA\<lparr>ga_pinProtocol := p\<rparr>)"
    "ga_ok (GA\<lparr>ga_allowListPresent := x\<rparr>)"
  using assms by (simp_all add: ga_ok_def)

lemma ga_value_ok:
  assumes "cbor_ok cb" "gas_ok s"
  shows "gas_ok (snd (ga_value cb key v s))"
proof (cases s)
  case (Pair GA gs)
  have m: "ga_ok GA" "gs_ok gs" using assms(2) by (simp_all add: Pair gas_ok_def)
  have l: "length (ga_clientDataHash GA) = 32" "length (ga_pinAuth GA) = 16" "rp_ok (ga_rp GA)" "ext_ok (ga_extensions GA)"
    using m(1) by (simp_all add: ga_ok_def)
  have p: "length (snd (parse_fixed_byte_string cb v 32 (ga_clientDataHash GA))) = 32"
    "length (snd (pin_auth_value cb v (ga_pinAuth GA))) = 16"
    using fixed_len[OF assms(1), of 32 "ga_clientDataHash GA"] l pin_auth_len[OF assms(1)] by simp_all
  have al: "gas_ok (snd (parse_allow_list cb v (GA, gs)))" using parse_allow_ok[OF assms, of v] Pair by simp
  then have "ga_ok ((fst (snd (parse_allow_list cb v (GA, gs))))\<lparr>ga_allowListPresent := 1\<rparr>)"
    by (intro ga_fields(9)) (simp add: gas_ok_def)
  then show ?thesis
    using m ga_fields[OF m(1)] p parse_rp_id_ok[OF assms(1) l(3)] parse_ext_ok[OF assms(1) l(4)] al
    by (simp add: ga_value_def Pair split_beta gas_ok_def)
qed

lemma parse_ga_ok:
  assumes "cbor_ok cb" "gs_ok gs"
  shows "gas_ok (snd (ctap_parse_get_assertion cb request gs))"
proof -
  have z: "gas_ok (ga_zero\<lparr>ga_up := 0xff\<rparr>, gs)" using assms(2) by (simp add: gas_ok_def ga_zero_def ga_ok_def)
  show ?thesis using z int_loop_inv(1)[where P = gas_ok and f = "ga_value cb", OF ga_value_ok[OF assms(1)] z]
    by (simp add: ctap_parse_get_assertion_def split_beta Let_def)
qed

text \<open>clientPIN.\<close>

lemma new_pin_ok: "cbor_ok cb \<Longrightarrow> cp_ok CP \<Longrightarrow> cp_ok (snd (new_pin_value cb v CP))"
  using cbor_okD(1)[of cb v 256] by (simp add: new_pin_value_def split_beta Let_def cp_ok_def)

lemma cp_fields:
  assumes "cp_ok CP"
  shows "cp_ok (CP\<lparr>cp_pinProtocol := x\<rparr>)" "cp_ok (CP\<lparr>cp_subCommand := x\<rparr>)" "cose_ok k \<Longrightarrow> cp_ok (CP\<lparr>cp_keyAgreement := k\<rparr>)"
    "cose_ok k \<Longrightarrow> cp_ok (CP\<lparr>cp_keyAgreement := k, cp_keyAgreementPresent := w\<rparr>)" "length b = 16 \<Longrightarrow> cp_ok (CP\<lparr>cp_pinAuth := b\<rparr>)"
    "length b = 16 \<Longrightarrow> cp_ok (CP\<lparr>cp_pinAuth := b, cp_pinAuthPresent := w\<rparr>)" "length b = 16 \<Longrightarrow> cp_ok (CP\<lparr>cp_pinHashEnc := b\<rparr>)"
    "length b = 16 \<Longrightarrow> cp_ok (CP\<lparr>cp_pinHashEnc := b, cp_pinHashEncPresent := w\<rparr>)" "cp_ok (CP\<lparr>cp_getKeyAgreement := q\<rparr>)"
    "cp_ok (CP\<lparr>cp_getRetries := q\<rparr>)"
  using assms by (simp_all add: cp_ok_def)

lemma cp_value_ok:
  assumes "cbor_ok cb" "cp_ok CP"
  shows "cp_ok (snd (cp_value cb key v CP))"
proof -
  have l: "length (cp_pinAuth CP) = 16" "length (cp_pinHashEnc CP) = 16" "cose_ok (cp_keyAgreement CP)"
    using assms(2) by (simp_all add: cp_ok_def)
  have p: "length (snd (parse_fixed_byte_string cb v 16 (cp_pinAuth CP))) = 16"
    "length (snd (parse_fixed_byte_string cb v 16 (cp_pinHashEnc CP))) = 16"
    using fixed_len[OF assms(1), of 16] l by simp_all
  show ?thesis
    using assms(2) cp_fields[OF assms(2)] p parse_cose_ok[OF assms(1) l(3)] new_pin_ok[OF assms]
    by (simp add: cp_value_def split_beta)
qed

lemma parse_cp_ok:
  assumes "cbor_ok cb"
  shows "cp_ok (snd (ctap_parse_client_pin cb request))"
proof -
  have z: "cp_ok cp_zero" by (simp add: cp_ok_def cp_zero_def)
  show ?thesis using z int_loop_inv(1)[where P = cp_ok and f = "cp_value cb", OF cp_value_ok[OF assms] z]
    by (simp add: ctap_parse_client_pin_def split_beta)
qed

text \<open>credentialManagement.\<close>

definition cms_ok :: "cred_mgmt \<times> bytes \<times> u8 \<Rightarrow> bool" where
  "cms_ok s \<longleftrightarrow> cm_ok (fst s) \<and> length (fst (snd s)) = 256"

text \<open>\<open>sz\<close> stays within the destination as long as the loop goes on.\<close>

lemma parse_loop_inv2:
  assumes "\<And>v s. A s \<Longrightarrow> B s \<Longrightarrow> A (snd (snd (body v s))) \<and> (fst (body v s) = 0 \<longrightarrow> B (snd (snd (body v s))))" "A s" "B s"
  shows "A (snd (snd (parse_loop body n v s)))"
  using assms(2,3)
proof (induction n arbitrary: v s)
  case (Suc n)
  show ?case using Suc(1)[of "snd (snd (body v s))" "fst (snd (body v s))"] assms(1)[OF Suc(2,3), of v] Suc(2)
    by (simp add: split_beta)
qed simp

definition cmp_ok :: "cred_mgmt \<times> nat \<times> bytes \<times> u8 \<Rightarrow> bool" where
  "cmp_ok s \<longleftrightarrow> cm_ok (fst s) \<and> length (fst (snd (snd s))) = 256"

lemma cm_param_ok:
  assumes "cbor_ok cb" "cmp_ok s" "fst (snd s) \<le> 32"
  shows "cmp_ok (snd (cm_param_value cb key v s)) \<and> (fst (cm_param_value cb key v s) = 0 \<longrightarrow> fst (snd (snd (cm_param_value cb key v s))) \<le> 32)"
proof (cases s)
  case (fields CM sz custom csize)
  have m: "cm_ok CM" "length custom = 256" "sz \<le> 32" using assms(2,3) by (simp_all add: fields cmp_ok_def)
  have c: "length (fst (snd (cb_copy_bytes cb v sz))) \<le> 32"
    "fst (cb_copy_bytes cb v sz) = 0 \<Longrightarrow> snd (snd (cb_copy_bytes cb v sz)) \<le> 32"
    using cbor_okD(1,3)[OF assms(1), of v sz] m(3) by auto
  have r: "cm_ok (CM\<lparr>cm_rpIdHash := blit (cm_rpIdHash CM) 0 (fst (snd (cb_copy_bytes cb v sz)))\<rparr>)"
    using m(1) c(1) by (simp add: cm_ok_def)
  have d: "desc_ok (cm_desc CM)" using m(1) by (simp add: cm_ok_def)
  note p = parse_desc_ok[OF assms(1) d m(2), of v csize]
  then have r2: "cm_ok (CM\<lparr>cm_desc := fst (snd (parse_credential_descriptor cb v (cm_desc CM, custom, csize)))\<rparr>)"
    using m(1) by (simp add: cm_ok_def)
  show ?thesis using m r r2 p c
    by (auto simp: fields cm_param_value_def split_beta Let_def cmp_ok_def check_ret_def parse_codes)
qed

lemma cm_params_loop:
  assumes "cbor_ok cb" "cmp_ok s" "fst (snd s) \<le> 32"
  shows "cmp_ok (snd (snd (parse_loop (with_int_key cb (cb_int cb) CTAP2_ERR_INVALID_CBOR_TYPE
               (\<lambda>key v s. with_value cb v (cm_param_value cb key v s))) n mp s)))"
proof (rule parse_loop_inv2[where A = cmp_ok and B = "\<lambda>s. fst (snd s) \<le> 32", OF _ assms(2,3)])
  fix v s assume "cmp_ok s" "fst (snd s) \<le> 32"
  then show "cmp_ok (snd (snd (with_int_key cb (cb_int cb) CTAP2_ERR_INVALID_CBOR_TYPE (\<lambda>key v s. with_value cb v (cm_param_value cb key v s)) v s)))
     \<and> (fst (with_int_key cb (cb_int cb) CTAP2_ERR_INVALID_CBOR_TYPE (\<lambda>key v s. with_value cb v (cm_param_value cb key v s)) v s) = 0 \<longrightarrow>
        fst (snd (snd (snd (with_int_key cb (cb_int cb) CTAP2_ERR_INVALID_CBOR_TYPE (\<lambda>key v s. with_value cb v (cm_param_value cb key v s)) v s)))) \<le> 32)"
    using cm_param_ok[OF assms(1)] by (simp add: with_int_key_def split_beta with_value_def advance_end_def)
qed

lemma cm_params_ok:
  assumes "cbor_ok cb" "cms_ok s"
  shows "cms_ok (snd (parse_cred_mgmt_subcommandparams cb request v s))"
proof (cases s)
  case (fields CM custom csize)
  define body where "body = with_int_key cb (cb_int cb) CTAP2_ERR_INVALID_CBOR_TYPE (\<lambda>key v s. with_value cb v (cm_param_value cb key v s))"
  define x where "x = parse_loop body (snd (cb_map_length cb v)) (snd (cb_enter cb v)) (CM, 32, custom, csize)"
  have "cmp_ok (CM, 32, custom, csize)" using assms(2) by (simp add: fields cms_ok_def cmp_ok_def)
  then have "cmp_ok (snd (snd x))" unfolding x_def body_def by (rule cm_params_loop[OF assms(1)]) simp
  then have x: "cm_ok (fst (snd (snd x)))" "length (fst (snd (snd (snd (snd x))))) = 256" by (simp_all add: cmp_ok_def)
  have h: "cm_ok (C\<lparr>cm_hashed := blit (cm_hashed C) 0 (block r a n), cm_cborSize := n\<rparr>)"
    if "cm_ok C" "\<not> n > CM_COPY_SIZE" for C r a n
    using that by (simp add: cm_ok_def block_def)
  show ?thesis
    using assms(2) x h[OF x(1)]
    by (simp add: fields parse_cred_mgmt_subcommandparams_def split_beta Let_def cms_ok_def body_def[symmetric] x_def[symmetric])
qed

lemma cm_fields:
  assumes "cm_ok CM"
  shows "cm_ok (CM\<lparr>cm_cmd := x\<rparr>)" "cm_ok (CM\<lparr>cm_cmd := x, cm_hashedCmd := y\<rparr>)" "cm_ok (CM\<lparr>cm_pinProtocol := p\<rparr>)"
    "length b = 16 \<Longrightarrow> cm_ok (CM\<lparr>cm_pinAuth := b\<rparr>)" "length b = 16 \<Longrightarrow> cm_ok (CM\<lparr>cm_pinAuth := b, cm_pinAuthPresent := w\<rparr>)"
  using assms by (simp_all add: cm_ok_def)

lemma cm_value_ok:
  assumes "cbor_ok cb" "cms_ok s"
  shows "cms_ok (snd (cm_value cb request key v s))"
proof (cases s)
  case (fields CM custom csize)
  have m: "cm_ok CM" "length custom = 256" using assms(2) by (simp_all add: fields cms_ok_def)
  then have "length (snd (parse_fixed_byte_string cb v 16 (cm_pinAuth CM))) = 16"
    using fixed_len[OF assms(1), of 16 "cm_pinAuth CM"] by (simp add: cm_ok_def)
  then show ?thesis
    using m cm_fields[OF m(1)] cm_params_ok[OF assms]
    by (simp add: cm_value_def fields split_beta cms_ok_def)
qed

lemma parse_cm_ok:
  assumes "cbor_ok cb" "length (fst custom) = 256"
  shows "cms_ok (snd (ctap_parse_cred_mgmt cb request custom))"
proof -
  have z: "cms_ok (cm_zero, custom)" using assms(2) by (simp add: cms_ok_def cm_zero_def cm_ok_def)
  show ?thesis using z int_loop_inv(1)[where P = cms_ok and f = "cm_value cb request", OF cm_value_ok[OF assms(1)] z]
    by (simp add: ctap_parse_cred_mgmt_def split_beta Let_def)
qed

end
