(* ===== verification/CtapParseProps.thy ===== *)
theory CtapParseProps
  imports CtapParseSafe
begin

text \<open>
  A concrete decoder over item trees, which meets \<open>cbor_ok\<close>, and what the parsers do with it: the
  fields of a clientPIN request come back from its CBOR map whatever subset is present, and the
  hmac-secret parameters are counted, not told apart.
\<close>

subsection \<open>A decoder over item trees\<close>

datatype item = IInt int | IBytes bytes | IText string | IList "item list" | IMap "item list" | IBool bool

fun tree_type :: "item list \<Rightarrow> cbor_type" where
  "tree_type (IInt _ # _) = CborInteger"
| "tree_type (IBytes _ # _) = CborByteString"
| "tree_type (IText _ # _) = CborTextString"
| "tree_type (IList _ # _) = CborArray"
| "tree_type (IMap _ # _) = CborMap"
| "tree_type (IBool _ # _) = CborBoolean"
| "tree_type [] = CborOther"

fun tree_enter :: "item list \<Rightarrow> int \<times> item list" where
  "tree_enter (IList xs # _) = (0, xs)"
| "tree_enter (IMap xs # _) = (0, xs)"
| "tree_enter v = (1, v)"

fun tree_map_length :: "item list \<Rightarrow> int \<times> nat" where
  "tree_map_length (IMap xs # _) = (0, length xs div 2)"
| "tree_map_length _ = (1, 0)"

fun tree_array_length :: "item list \<Rightarrow> int \<times> nat" where
  "tree_array_length (IList xs # _) = (0, length xs)"
| "tree_array_length _ = (1, 0)"

fun tree_advance :: "item list \<Rightarrow> int \<times> item list" where
  "tree_advance (_ # v) = (0, v)"
| "tree_advance [] = (1, [])"

fun tree_int :: "item list \<Rightarrow> int \<times> int" where
  "tree_int (IInt i # _) = (0, i)"
| "tree_int _ = (1, 0)"

definition int32 :: "int \<Rightarrow> bool" where
  "int32 i \<longleftrightarrow> - (2 ^ 31) \<le> i \<and> i < 2 ^ 31"

fun tree_int_checked :: "item list \<Rightarrow> int \<times> int" where
  "tree_int_checked (IInt i # _) = (if int32 i then (0, i) else (1, 0))"
| "tree_int_checked _ = (1, 0)"

fun tree_boolean :: "item list \<Rightarrow> int \<times> bool" where
  "tree_boolean (IBool b # _) = (0, b)"
| "tree_boolean _ = (1, False)"

definition copy_out :: "bytes \<Rightarrow> nat \<Rightarrow> int \<times> bytes \<times> nat" where
  "copy_out b n = (if length b \<le> n then (0, b, length b) else (CborErrorOutOfMemory, take n b, length b))"

fun tree_copy_bytes :: "item list \<Rightarrow> nat \<Rightarrow> int \<times> bytes \<times> nat" where
  "tree_copy_bytes (IBytes b # _) n = copy_out b n"
| "tree_copy_bytes _ _ = (1, [], 0)"

fun tree_copy_text :: "item list \<Rightarrow> nat \<Rightarrow> int \<times> bytes \<times> nat" where
  "tree_copy_text (IText s # _) n = copy_out (chars s) n"
| "tree_copy_text _ _ = (1, [], 0)"

fun find_key :: "item list \<Rightarrow> string \<Rightarrow> item list" where
  "find_key (IText k # x # r) s = (if k = s then x # r else find_key r s)"
| "find_key (_ # _ # r) s = find_key r s"
| "find_key _ _ = []"

fun tree_find :: "item list \<Rightarrow> string \<Rightarrow> int \<times> item list" where
  "tree_find (IMap xs # _) s = (0, find_key xs s)"
| "tree_find v _ = (1, v)"

fun tree_size :: "item list \<Rightarrow> int \<times> nat" where
  "tree_size (IBytes b # _) = (0, length b)"
| "tree_size (IText s # _) = (0, length s)"
| "tree_size _ = (1, 0)"

definition tree_cbor :: "item \<Rightarrow> item list cbor" where
  "tree_cbor root = \<lparr>cb_init = (\<lambda>_. (0, [root])), cb_type = tree_type, cb_enter = tree_enter, cb_map_length = tree_map_length,
     cb_array_length = tree_array_length, cb_advance = tree_advance, cb_int = tree_int, cb_int_checked = tree_int_checked,
     cb_boolean = tree_boolean, cb_copy_bytes = tree_copy_bytes, cb_copy_text = tree_copy_text, cb_find = tree_find,
     cb_string_length = tree_size, cb_calc_length = tree_size, cb_next_byte = (\<lambda>_. 1)\<rparr>"

lemma tree_simps [simp]:
  "cb_init (tree_cbor root) r = (0, [root])" "cb_type (tree_cbor root) = tree_type" "cb_enter (tree_cbor root) = tree_enter"
  "cb_map_length (tree_cbor root) = tree_map_length" "cb_array_length (tree_cbor root) = tree_array_length"
  "cb_advance (tree_cbor root) = tree_advance" "cb_int (tree_cbor root) = tree_int" "cb_int_checked (tree_cbor root) = tree_int_checked"
  "cb_boolean (tree_cbor root) = tree_boolean" "cb_copy_bytes (tree_cbor root) = tree_copy_bytes"
  "cb_copy_text (tree_cbor root) = tree_copy_text" "cb_find (tree_cbor root) = tree_find"
  "cb_string_length (tree_cbor root) = tree_size" "cb_calc_length (tree_cbor root) = tree_size"
  by (simp_all add: tree_cbor_def)

lemma copy_out_bound [simp]:
  "length (fst (snd (copy_out b n))) \<le> n"
  "fst (copy_out b n) = 0 \<longrightarrow> snd (snd (copy_out b n)) \<le> length (fst (snd (copy_out b n)))"
  by (simp_all add: copy_out_def CborErrorOutOfMemory_def)

lemma tree_copy_bytes_out: "(\<exists>b. tree_copy_bytes v n = copy_out b n) \<or> tree_copy_bytes v n = (1, [], 0)"
  by (cases "(v, n)" rule: tree_copy_bytes.cases) auto

lemma tree_copy_text_out: "(\<exists>b. tree_copy_text v n = copy_out b n) \<or> tree_copy_text v n = (1, [], 0)"
  by (cases "(v, n)" rule: tree_copy_text.cases) auto

lemma tree_copy_bound:
  "length (fst (snd (tree_copy_bytes v n))) \<le> n \<and> (fst (tree_copy_bytes v n) = 0 \<longrightarrow> snd (snd (tree_copy_bytes v n)) \<le> length (fst (snd (tree_copy_bytes v n))))"
  "length (fst (snd (tree_copy_text v n))) \<le> n \<and> (fst (tree_copy_text v n) = 0 \<longrightarrow> snd (snd (tree_copy_text v n)) \<le> length (fst (snd (tree_copy_text v n))))"
  using tree_copy_bytes_out[of v n] tree_copy_text_out[of v n] copy_out_bound by force+

lemma tree_cbor_ok [simp]: "cbor_ok (tree_cbor root)"
  unfolding cbor_ok_def by (simp add: tree_copy_bound)

subsection \<open>Loops over a map with integer keys\<close>

text \<open>The entries one after the other; handlers look at the value only.\<close>

fun run_fields :: "(int \<Rightarrow> item \<Rightarrow> 's \<Rightarrow> int \<times> 's) \<Rightarrow> (int \<times> item) list \<Rightarrow> 's \<Rightarrow> int \<times> 's" where
  "run_fields g [] s = (0, s)"
| "run_fields g ((k, x) # kvs) s = (case g k x s of (r, s') \<Rightarrow> if r \<noteq> 0 then (r, s') else run_fields g kvs s')"

definition flat :: "(int \<times> item) list \<Rightarrow> item list" where
  "flat kvs = concat (map (\<lambda>(k, x). [IInt k, x]) kvs)"

lemma flat_simps [simp]: "flat [] = []" "flat ((k, x) # kvs) = IInt k # x # flat kvs" "length (flat kvs) = 2 * length kvs"
  by (simp_all add: flat_def) (induction kvs, auto)

lemma run_fields_append:
  "run_fields g (xs @ ys) s = (case run_fields g xs s of (r, s') \<Rightarrow> if r \<noteq> 0 then (r, s') else run_fields g ys s')"
  by (induction xs arbitrary: s) (auto simp: split_beta)

lemma run_field_opt:
  assumes "\<And>x. v = Some x \<Longrightarrow> g k (h x) s = (0, s')" "v = None \<Longrightarrow> s' = s"
  shows "run_fields g ((case v of None \<Rightarrow> [] | Some x \<Rightarrow> [(k, h x)]) @ ys) s = run_fields g ys s'"
  using assms by (cases v) auto

lemma tree_int_loop:
  assumes "\<And>key x rest s. f key (x # rest) s = g key x s" "\<forall>(k, x)\<in>set kvs. int32 k"
  shows "loop_code (parse_map (tree_cbor root) e (with_int_key (tree_cbor root) (cb_int_checked (tree_cbor root)) e2
           (\<lambda>key v s. with_value (tree_cbor root) v (f key v s))) (IMap (flat kvs) # r) s) = run_fields g kvs s"
proof -
  have "loop_code (parse_loop (with_int_key (tree_cbor root) tree_int_checked e2
           (\<lambda>key v s. with_value (tree_cbor root) v (f key v s))) (length kvs) (flat kvs) s) = run_fields g kvs s"
    using assms(2)
  proof (induction kvs arbitrary: s)
    case (Cons p kvs)
    then show ?case
      by (cases p) (auto simp: loop_code_def with_int_key_def with_value_def advance_end_def assms(1) split_beta)
  qed (simp add: loop_code_def)
  then show ?thesis by (simp add: parse_map_def)
qed

subsection \<open>A clientPIN request\<close>

definition cose_item :: "cose_key \<Rightarrow> item" where
  "cose_item k = IMap (flat [(1, IInt (ck_kty k)), (3, IInt (-25)), (-1, IInt (ck_crv k)), (-2, IBytes (ck_x k)), (-3, IBytes (ck_y k))])"

definition cose_wf :: "cose_key \<Rightarrow> bool" where
  "cose_wf k \<longleftrightarrow> cose_ok k \<and> int32 (ck_kty k) \<and> int32 (ck_crv k) \<and> ck_kty k \<noteq> 0 \<and> ck_crv k \<noteq> 0"

definition opt_field :: "int \<Rightarrow> ('a \<Rightarrow> item) \<Rightarrow> 'a option \<Rightarrow> (int \<times> item) list" where
  "opt_field k h v = (case v of None \<Rightarrow> [] | Some x \<Rightarrow> [(k, h x)])"

text \<open>A clientPIN request with any subset of the optional members.\<close>

record pin_request =
  pr_protocol :: int
  pr_subCommand :: int
  pr_key :: "cose_key option"
  pr_auth :: "bytes option"
  pr_new :: "bytes option"
  pr_hash :: "bytes option"
  pr_getKey :: "bool option"
  pr_getRetries :: "bool option"

definition pin_fields :: "pin_request \<Rightarrow> (int \<times> item) list" where
  "pin_fields q = (1, IInt (pr_protocol q)) # (2, IInt (pr_subCommand q)) #
     opt_field 3 cose_item (pr_key q) @ opt_field 4 IBytes (pr_auth q) @ opt_field 5 IBytes (pr_new q)
     @ opt_field 6 IBytes (pr_hash q) @ opt_field 7 IBool (pr_getKey q) @ opt_field 8 IBool (pr_getRetries q)"

definition pin_request_wf :: "pin_request \<Rightarrow> bool" where
  "pin_request_wf q \<longleftrightarrow> int32 (pr_protocol q) \<and> int32 (pr_subCommand q) \<and> pred_option cose_wf (pr_key q)
     \<and> pred_option (\<lambda>b. length b = 16) (pr_auth q) \<and> pred_option (\<lambda>b. 64 \<le> length b \<and> length b \<le> 256) (pr_new q)
     \<and> pred_option (\<lambda>b. length b = 16) (pr_hash q)"

definition present :: "'a option \<Rightarrow> u8" where
  "present v = (if v = None then 0 else 1)"

definition opt_default :: "'a \<Rightarrow> 'a option \<Rightarrow> 'a" where
  "opt_default d v = (case v of None \<Rightarrow> d | Some x \<Rightarrow> x)"

text \<open>The C structure that holds it.\<close>

definition pin_struct :: "pin_request \<Rightarrow> client_pin" where
  "pin_struct q = \<lparr>cp_pinProtocol = pr_protocol q, cp_subCommand = pr_subCommand q,
     cp_keyAgreement = opt_default cose_zero (pr_key q), cp_keyAgreementPresent = present (pr_key q),
     cp_pinAuth = opt_default (zeros 16) (pr_auth q), cp_pinAuthPresent = present (pr_auth q),
     cp_newPinEnc = blit (zeros 256) 0 (opt_default [] (pr_new q)), cp_newPinEncSize = int (length (opt_default [] (pr_new q))),
     cp_pinHashEnc = opt_default (zeros 16) (pr_hash q), cp_pinHashEncPresent = present (pr_hash q),
     cp_getKeyAgreement = opt_default False (pr_getKey q), cp_getRetries = opt_default False (pr_getRetries q)\<rparr>"

text \<open>What the handlers do depends on the first item only.\<close>

definition cose_step :: "item \<Rightarrow> int \<Rightarrow> item \<Rightarrow> cose_key \<times> bool \<times> bool \<Rightarrow> int \<times> (cose_key \<times> bool \<times> bool)" where
  "cose_step root k x s = cose_value (tree_cbor root) k [x] s"

lemma fixed_head: "parse_fixed_byte_string (tree_cbor root) (x # rest) n b = parse_fixed_byte_string (tree_cbor root) [x] n b"
  by (cases x) (simp_all add: parse_fixed_byte_string_def)

lemma int_head: "int_value (tree_cbor root) (x # rest) o1 = int_value (tree_cbor root) [x] o1"
  "int_unchecked (tree_cbor root) (x # rest) o1 = int_unchecked (tree_cbor root) [x] o1"
  "bool_value (tree_cbor root) (x # rest) o2 = bool_value (tree_cbor root) [x] o2"
  by (cases x; simp add: int_value_def int_unchecked_def bool_value_def)+

lemma cose_head: "cose_value (tree_cbor root) k (x # rest) s = cose_step root k x s"
  unfolding cose_step_def cose_value_def by (simp only: fixed_head[of root x rest] int_head[of root x rest])

lemma blit_full: "length src = length dst \<Longrightarrow> blit dst 0 src = src"
  by (simp add: blit_def)

lemma fixed_tree [simp]:
  "length b = n \<Longrightarrow> length dst = n \<Longrightarrow> parse_fixed_byte_string (tree_cbor root) [IBytes b] n dst = (0, b)"
  by (simp add: parse_fixed_byte_string_def copy_out_def check_ret_def blit_full)

lemma int_tree [simp]:
  "int32 i \<Longrightarrow> int_value (tree_cbor root) [IInt i] o1 = (0, i)" "int32 i \<Longrightarrow> int_unchecked (tree_cbor root) [IInt i] o1 = (0, i)"
  "bool_value (tree_cbor root) [IBool b] o2 = (0, b)"
  by (simp_all add: int_value_def int_unchecked_def bool_value_def check_ret_def)

lemma int32_small [simp]: "int32 0" "int32 1" "int32 (-1)" "int32 (numeral n) = (numeral n < (2 ^ 31 :: int))" "int32 (- numeral n) = (numeral n \<le> (2 ^ 31 :: int))"
  by (auto simp: int32_def)

lemma cose_tree:
  assumes "cose_wf k"
  shows "parse_cose_key (tree_cbor root) (cose_item k # rest) cose_zero = (0, k)"
proof -
  let ?f = "[(1, IInt (ck_kty k)), (3, IInt (-25)), (-1, IInt (ck_crv k)), (-2, IBytes (ck_x k)), (-3, IBytes (ck_y k))]"
  have "run_fields (cose_step root) ?f (cose_zero\<lparr>ck_kty := 0, ck_crv := 0\<rparr>, False, False) = (0, (k, True, True))"
    using assms by (simp add: cose_step_def cose_value_def cose_wf_def cose_ok_def cose_zero_def)
  moreover note tree_int_loop[where f = "cose_value (tree_cbor root)" and g = "cose_step root" and kvs = ?f, OF cose_head, simplified]
  ultimately show ?thesis using assms
    by (simp add: parse_cose_key_def cose_item_def cose_wf_def)
qed

definition cp_step :: "item \<Rightarrow> int \<Rightarrow> item \<Rightarrow> client_pin \<Rightarrow> int \<times> client_pin" where
  "cp_step root k x s = cp_value (tree_cbor root) k [x] s"

lemma cose_key_head: "parse_cose_key (tree_cbor root) (x # rest) c = parse_cose_key (tree_cbor root) [x] c"
  by (cases x) (simp_all add: parse_cose_key_def parse_map_def loop_code_def)

lemma new_pin_head: "new_pin_value (tree_cbor root) (x # rest) c = new_pin_value (tree_cbor root) [x] c"
  by (cases x) (simp_all add: new_pin_value_def)

lemma cp_head: "cp_value (tree_cbor root) k (x # rest) s = cp_step root k x s"
  unfolding cp_step_def cp_value_def
  by (simp only: fixed_head[of root x rest] int_head[of root x rest] cose_key_head[of root x rest] new_pin_head[of root x rest])

text \<open>One member each: present, it is stored and marked; absent, nothing happens.\<close>

lemma run_opt:
  assumes "\<And>x. v = Some x \<Longrightarrow> g k (h x) s = (0, s')" "v = None \<Longrightarrow> s' = s"
  shows "run_fields g (opt_field k h v @ ys) s = run_fields g ys s'"
  using assms by (cases v) (auto simp: opt_field_def)

lemma new_pin_tree:
  assumes "64 \<le> length b" "length b \<le> 256"
  shows "new_pin_value (tree_cbor root) [IBytes b] CP = (0, CP\<lparr>cp_newPinEnc := blit (cp_newPinEnc CP) 0 b, cp_newPinEncSize := int (length b)\<rparr>)"
  using assms by (simp add: new_pin_value_def copy_out_def check_ret_def)

lemma pin_fields_run:
  assumes "pin_request_wf q"
  shows "run_fields (cp_step root) (pin_fields q) cp_zero = (0, pin_struct q)"
proof -
  let ?g = "cp_step root"
  define s2 where "s2 = cp_zero\<lparr>cp_pinProtocol := pr_protocol q, cp_subCommand := pr_subCommand q\<rparr>"
  define s3 where "s3 = s2\<lparr>cp_keyAgreement := opt_default cose_zero (pr_key q), cp_keyAgreementPresent := present (pr_key q)\<rparr>"
  define s4 where "s4 = s3\<lparr>cp_pinAuth := opt_default (zeros 16) (pr_auth q), cp_pinAuthPresent := present (pr_auth q)\<rparr>"
  define s5 where "s5 = s4\<lparr>cp_newPinEnc := blit (zeros 256) 0 (opt_default [] (pr_new q)), cp_newPinEncSize := int (length (opt_default [] (pr_new q)))\<rparr>"
  define s6 where "s6 = s5\<lparr>cp_pinHashEnc := opt_default (zeros 16) (pr_hash q), cp_pinHashEncPresent := present (pr_hash q)\<rparr>"
  define s7 where "s7 = s6\<lparr>cp_getKeyAgreement := opt_default False (pr_getKey q)\<rparr>"
  define s8 where "s8 = s7\<lparr>cp_getRetries := opt_default False (pr_getRetries q)\<rparr>"
  note d = s2_def s3_def s4_def s5_def s6_def s7_def s8_def cp_zero_def
  have "run_fields ?g (pin_fields q) cp_zero = run_fields ?g (opt_field 3 cose_item (pr_key q) @ opt_field 4 IBytes (pr_auth q)
      @ opt_field 5 IBytes (pr_new q) @ opt_field 6 IBytes (pr_hash q) @ opt_field 7 IBool (pr_getKey q) @ opt_field 8 IBool (pr_getRetries q) @ []) s2"
    using assms by (simp add: pin_fields_def cp_step_def cp_value_def pin_request_wf_def d)
  also have "\<dots> = run_fields ?g [] s8"
  proof -
    have 3: "?g 3 (cose_item k) s2 = (0, s3)" if "pr_key q = Some k" for k
      using assms that cose_tree[of k root "[]"]
      by (simp add: cp_step_def cp_value_def pin_request_wf_def d opt_default_def present_def)
    have 4: "?g 4 (IBytes b) s3 = (0, s4)" if "pr_auth q = Some b" for b
      using assms that by (simp add: cp_step_def cp_value_def pin_request_wf_def d opt_default_def present_def)
    have 5: "?g 5 (IBytes b) s4 = (0, s5)" if "pr_new q = Some b" for b
      using assms that by (simp add: cp_step_def cp_value_def new_pin_tree pin_request_wf_def d opt_default_def)
    have 6: "?g 6 (IBytes b) s5 = (0, s6)" if "pr_hash q = Some b" for b
      using assms that by (simp add: cp_step_def cp_value_def pin_request_wf_def d opt_default_def present_def)
    have 7: "?g 7 (IBool b) s6 = (0, s7)" if "pr_getKey q = Some b" for b
      using that by (simp add: cp_step_def cp_value_def d opt_default_def)
    have 8: "?g 8 (IBool b) s7 = (0, s8)" if "pr_getRetries q = Some b" for b
      using that by (simp add: cp_step_def cp_value_def d opt_default_def)
    have n: "pr_key q = None \<Longrightarrow> s3 = s2" "pr_auth q = None \<Longrightarrow> s4 = s3" "pr_new q = None \<Longrightarrow> s5 = s4" "pr_hash q = None \<Longrightarrow> s6 = s5"
      "pr_getKey q = None \<Longrightarrow> s7 = s6" "pr_getRetries q = None \<Longrightarrow> s8 = s7"
      by (simp_all add: d opt_default_def present_def)
    show ?thesis
      by (simp only: run_opt[where g = ?g, OF 3 n(1)] run_opt[where g = ?g, OF 4 n(2)] run_opt[where g = ?g, OF 5 n(3)]
          run_opt[where g = ?g, OF 6 n(4)] run_opt[where g = ?g, OF 7 n(5)] run_opt[where g = ?g, OF 8 n(6)])
  qed
  also have "\<dots> = (0, pin_struct q)"
    by (simp add: d pin_struct_def)
  finally show ?thesis .
qed

text \<open>hmac-secret counts its parameters without telling them apart: two salts and an authenticator, no key
  agreement key, are three.\<close>

definition hmac_step :: "item \<Rightarrow> int \<Rightarrow> item \<Rightarrow> hmac_secret \<times> u8 \<Rightarrow> int \<times> (hmac_secret \<times> u8)" where
  "hmac_step root k x s = hmac_value (tree_cbor root) k [x] s"

lemma hmac_head: "hmac_value (tree_cbor root) k (x # rest) s = hmac_step root k x s"
proof -
  have "tree_copy_bytes (x # rest) n = tree_copy_bytes [x] n" for n by (cases x) simp_all
  then show ?thesis unfolding hmac_step_def hmac_value_def by (simp only: cose_key_head[of root x rest] tree_simps)
qed

lemma hmac_secret_without_key:
  assumes "length salt = 32" "length auth = 16" "hs_ok hs"
  shows "ctap_parse_hmac_secret (tree_cbor root) [IMap (flat [(2, IBytes salt), (2, IBytes salt), (3, IBytes auth)])] hs
    = (0, hs\<lparr>hs_saltEnc := blit (hs_saltEnc hs) 0 salt, hs_saltLen := 32, hs_saltAuth := blit (hs_saltAuth hs) 0 auth\<rparr>)"
proof -
  let ?f = "[(2, IBytes salt), (2, IBytes salt), (3, IBytes auth)]"
  have "run_fields (hmac_step root) ?f (hs, 0)
      = (0, (hs\<lparr>hs_saltEnc := blit (hs_saltEnc hs) 0 salt, hs_saltLen := 32, hs_saltAuth := blit (hs_saltAuth hs) 0 auth\<rparr>, 3))"
    using assms by (simp add: hmac_step_def hmac_value_def copy_out_def check_ret_def CborErrorOutOfMemory_def blit_def hs_ok_def)
  moreover have "tree_int_checked (IInt k # r) = tree_int (IInt k # r)" if "int32 k" for k r using that by simp
  moreover have "loop_code (parse_map (tree_cbor root) e (with_int_key (tree_cbor root) tree_int e2
           (\<lambda>key v s. with_value (tree_cbor root) v (hmac_value (tree_cbor root) key v s))) [IMap (flat ?f)] s) = run_fields (hmac_step root) ?f s" for e e2 s
    by (simp add: parse_map_def loop_code_def with_int_key_def with_value_def advance_end_def hmac_head split_beta numeral_3_eq_3)
  ultimately show ?thesis by (simp add: ctap_parse_hmac_secret_def)
qed

subsection \<open>The properties\<close>

text \<open>C22 (bounds). Whatever the request and however the decoder answers within its contract, the four request
  parsers leave every buffer of their structures, and of the assertion state, at its size, and every stored
  length within the buffer it belongs to: the relying party's id size, the salt length, the number of
  allow-list entries, the hashed subcommand parameters, the encrypted new PIN, and, when the request is accepted, the size of the user id.\<close>

theorem parsers_stay_in_bounds:
  assumes "cbor_ok cb" "length (fst custom) = 256" "gs_ok gs"
  shows "mcs_ok (snd (ctap_parse_make_credential cb request custom)) \<and> gas_ok (snd (ctap_parse_get_assertion cb request gs))
    \<and> cms_ok (snd (ctap_parse_cred_mgmt cb request custom)) \<and> cp_ok (snd (ctap_parse_client_pin cb request))
    \<and> (fst (ctap_parse_make_credential cb request custom) = 0 \<longrightarrow> user_fits (get_user (fst (snd (ctap_parse_make_credential cb request custom)))))"
  using parse_mc_ok[OF assms(1,2)] parse_ga_ok[OF assms(1,3)] parse_cm_ok[OF assms(1,2)] parse_cp_ok[OF assms(1)] parse_mc_fits[OF assms(1,2)] by blast

text \<open>A request with a user id of three bytes.\<close>

definition user_request :: item where
  "user_request = IMap [IInt 3, IMap [IText ''id'', IBytes [7, 8, 9]]]"

lemma user_request_parses: "fst (ctap_parse_make_credential (tree_cbor user_request) [] (zeros 256, 0)) = 0"
  by code_simp

lemma parsers_stay_in_bounds_witness:
  "cp_ok (snd (ctap_parse_client_pin (tree_cbor (IMap [IInt 5, IBytes (replicate 64 7)])) [])) \<and>
   user_fits (get_user (fst (snd (ctap_parse_make_credential (tree_cbor user_request) [] (zeros 256, 0)))))"
proof -
  have g: "gs_ok ga_state_zero" by (simp add: gs_ok_def ga_state_zero_def ALLOW_LIST_MAX_SIZE_def)
  show ?thesis
    using parsers_stay_in_bounds[of "tree_cbor (IMap [IInt 5, IBytes (replicate 64 7)])" "(zeros 256, 0)" ga_state_zero "[]"]
      parsers_stay_in_bounds[of "tree_cbor user_request" "(zeros 256, 0)" ga_state_zero "[]"] g user_request_parses
    by simp
qed

text \<open>C23 (roundtrip). A clientPIN request is read back from its CBOR map exactly, whatever subset of the optional members
  it has: each member lands in its field and marks it present, absent ones keep the zeroed structure's
  values, and the algorithm member of the key is skipped.\<close>

theorem client_pin_request_parses:
  assumes "pin_request_wf q"
  shows "ctap_parse_client_pin (tree_cbor (IMap (flat (pin_fields q)))) request = (0, pin_struct q)"
proof -
  have "\<forall>(k, x)\<in>set (pin_fields q). int32 k"
    by (auto simp: pin_fields_def opt_field_def split: option.splits)
  then show ?thesis
    using tree_int_loop[where f = "cp_value (tree_cbor (IMap (flat (pin_fields q))))", OF cp_head] pin_fields_run[OF assms]
    by (simp add: ctap_parse_client_pin_def check_ret_def)
qed

definition pin_request0 :: pin_request where
  "pin_request0 = \<lparr>pr_protocol = 1, pr_subCommand = 3,
     pr_key = Some \<lparr>ck_x = replicate 32 1, ck_y = replicate 32 2, ck_kty = 2, ck_crv = 1\<rparr>,
     pr_auth = Some (replicate 16 3), pr_new = Some (replicate 64 4), pr_hash = None, pr_getKey = None, pr_getRetries = Some True\<rparr>"

lemma client_pin_request_parses_witness:
  "ctap_parse_client_pin (tree_cbor (IMap (flat (pin_fields pin_request0)))) [] = (0, pin_struct pin_request0)"
  by (rule client_pin_request_parses) (simp add: pin_request_wf_def pin_request0_def cose_wf_def cose_ok_def)

end
