(* ===== verification/Credential.thy ===== *)
theory Credential
  imports PinProps Counter
begin

text \<open>
  Credentials: hashing and MACs on the device state, the signature counter, the masked metadata in a
  credential id (\<^verbatim>\<open>fido2/ctap.c\<close>), the authentication tags of FIDO2 credential ids and of U2F key
  handles (\<^verbatim>\<open>fido2/u2f.c\<close>), extension requests (\<^verbatim>\<open>fido2/extensions/extensions.c\<close>), and the
  test that a credential belongs to this token.
\<close>

subsection \<open>Hashing, MACs, the counter\<close>

definition dev_sha :: "bytes list \<Rightarrow> ctap_dev \<Rightarrow> bytes \<times> ctap_dev" where
  "dev_sha ds d =
     (let cr = sha_feed ds (crypto_sha256_init (d_cr d));
          (h, cr) = crypto_sha256_final cr
      in (h, d\<lparr>d_cr := cr\<rparr>))"

definition dev_hmac :: "key_arg \<Rightarrow> nat \<Rightarrow> bytes list \<Rightarrow> ctap_dev \<Rightarrow> ctap_dev + (bytes \<times> ctap_dev)" where
  "dev_hmac k klen ds d =
     seqE (halt d (crypto_sha256_hmac_init k klen (d_cr d))) (\<lambda>cr.
     seqE (halt d (crypto_sha256_hmac_final k klen (sha_feed ds cr))) (\<lambda>(mac, cr).
     Inr (mac, d\<lparr>d_cr := cr\<rparr>)))"

text \<open>\<open>ctap_atomic_count\<close> draws its random byte from the device's stream; its self check can spin for
  ever (\<open>Inl\<close>).\<close>

definition dev_atomic_count :: "environ \<Rightarrow> u32 \<Rightarrow> ctap_dev \<Rightarrow> ctap_dev + (u32 \<times> ctap_dev)" where
  "dev_atomic_count env amount d =
     (let (rng, d) = (if amount = 0 then ctap_generate_rng env 1 d else ([0], d));
          (r, f, sc) = ctap_atomic_count (env_prog env) amount (rng ! 0) (d_flash d, d_sc d);
          d = d\<lparr>d_flash := f, d_sc := sc\<rparr>
      in case r of None \<Rightarrow> Inl d | Some w \<Rightarrow> Inr (w, d))"

definition u32_be_bytes :: "u32 \<Rightarrow> bytes" where
  "u32_be_bytes w = [ucast (drop_bit 24 w), ucast (drop_bit 16 w), ucast (drop_bit 8 w), ucast w]"

text \<open>The count and the \<open>signCount\<close> it leaves in the header.\<close>

definition auth_data_update_count ::
    "environ \<Rightarrow> auth_header \<Rightarrow> ctap_dev \<Rightarrow> ctap_dev + (u32 \<times> auth_header \<times> ctap_dev)" where
  "auth_data_update_count env h d =
     seqE (dev_atomic_count env 0 d) (\<lambda>(count, d).
     seqE (if count = 0 then dev_atomic_count env 0 d else Inr (count, d)) (\<lambda>(count, d).
     Inr (count, h\<lparr>ah_signCount := u32_be_bytes count\<rparr>, d)))"

subsection \<open>Masked metadata\<close>

definition metadata_value :: "credential_id \<Rightarrow> u32" where
  "metadata_value c = le32 (ci_nonce c ! 14) (ci_nonce c ! 15) (ci_nonce c ! 16) (ci_nonce c ! 17)"

definition set_metadata :: "u32 \<Rightarrow> credential_id \<Rightarrow> credential_id" where
  "set_metadata w c = c\<lparr>ci_nonce := blit (ci_nonce c) 14 (u32_le_bytes w)\<rparr>"

definition credential_mask :: "credential_id \<Rightarrow> ctap_dev \<Rightarrow> ctap_dev + (u32 \<times> ctap_dev)" where
  "credential_mask c d =
     seqE (dev_hmac Transport_Key 0 [take (18 - 4) (ci_nonce c)] d) (\<lambda>(mask, d).
     Inr (le32 (mask ! 0) (mask ! 1) (mask ! 2) (mask ! 3), d))"

definition add_masked_metadata_for_credential ::
    "credential_id \<Rightarrow> u32 \<Rightarrow> ctap_dev \<Rightarrow> ctap_dev + (credential_id \<times> ctap_dev)" where
  "add_masked_metadata_for_credential c cred_protect d =
     seqE (credential_mask c d) (\<lambda>(mask, d). Inr (set_metadata (mask XOR cred_protect) c, d))"

definition read_metadata_from_masked_credential ::
    "credential_id \<Rightarrow> ctap_dev \<Rightarrow> ctap_dev + (u32 \<times> ctap_dev)" where
  "read_metadata_from_masked_credential c d =
     seqE (credential_mask c d) (\<lambda>(mask, d). Inr (metadata_value c XOR mask, d))"

definition CTAP2_ERR_NOT_ALLOWED :: int where "CTAP2_ERR_NOT_ALLOWED = 0x30"

definition check_credential_metadata ::
    "credential_id \<Rightarrow> bool \<Rightarrow> bool \<Rightarrow> ctap_dev \<Rightarrow> ctap_dev + (int \<times> ctap_dev)" where
  "check_credential_metadata c is_verified is_from_credid_list d =
     seqE (read_metadata_from_masked_credential c d) (\<lambda>(cred_protect, d).
     Inr (if cred_protect = 2 then
            if \<not> is_from_credid_list then if \<not> is_verified then CTAP2_ERR_NOT_ALLOWED else 0 else 0
          else if cred_protect = 3 then if \<not> is_verified then CTAP2_ERR_NOT_ALLOWED else 0
          else 0, d))"

subsection \<open>Tags\<close>

definition make_auth_tag :: "bytes \<Rightarrow> bytes \<Rightarrow> u32 \<Rightarrow> ctap_dev \<Rightarrow> ctap_dev + (bytes \<times> ctap_dev)" where
  "make_auth_tag rpIdHash nonce count d =
     seqE (dev_hmac Transport_Key 0 [take 32 rpIdHash, take 18 nonce, u32_le_bytes count] d) (\<lambda>(hashbuf, d).
     Inr (take 16 hashbuf, d))"

text \<open>U2F key handles: a tag and a 32-byte random key.\<close>

record key_handle =
  kh_tag :: bytes
  kh_key :: bytes

definition kh_image :: "key_handle \<Rightarrow> bytes" where
  "kh_image kh = kh_tag kh @ kh_key kh"

definition kh_of_image :: "bytes \<Rightarrow> key_handle" where
  "kh_of_image b = \<lparr>kh_tag = block b 0 16, kh_key = block b 16 32\<rparr>"

definition u2f_make_auth_tag :: "key_handle \<Rightarrow> bytes \<Rightarrow> ctap_dev \<Rightarrow> ctap_dev + (bytes \<times> ctap_dev)" where
  "u2f_make_auth_tag kh appid d =
     seqE (dev_hmac Master_Key 0 [kh_key kh, take 32 appid] d) (\<lambda>(hashbuf, d).
     Inr (take 16 hashbuf, d))"

text \<open>The key handle is memory: a CTAP2 credential id or a U2F key handle, by its length.\<close>

definition u2f_authenticate_credential ::
    "bytes \<Rightarrow> nat \<Rightarrow> bytes \<Rightarrow> ctap_dev \<Rightarrow> ctap_dev + (bool \<times> ctap_dev)" where
  "u2f_authenticate_credential khmem key_handle_len appid d =
     (if key_handle_len = 70 then
        let cred = cid_of_image khmem in
        if ci_rpIdHash cred \<noteq> take 32 appid then Inr (False, d)
        else
          seqE (make_auth_tag appid (ci_nonce cred) (ci_count cred) d) (\<lambda>(tag, d).
          Inr (ci_tag cred = tag, d))
      else if key_handle_len = 48 then
        let kh = kh_of_image khmem in
        seqE (u2f_make_auth_tag kh appid d) (\<lambda>(tag, d). Inr (kh_tag kh = tag, d))
      else Inr (False, d))"

definition WALLET_MIN_LENGTH :: nat where "WALLET_MIN_LENGTH = 24"
definition WALLET_TAG :: bytes where "WALLET_TAG = [0x8C, 0x27, 0x90, 0xf6]"

definition is_extension_request :: "bytes \<Rightarrow> nat \<Rightarrow> bool" where
  "is_extension_request kh len \<longleftrightarrow> \<not> len < WALLET_MIN_LENGTH \<and> block kh 4 4 = WALLET_TAG"

definition ctap_authenticate_credential :: "rp_id \<Rightarrow> cred_desc \<Rightarrow> ctap_dev \<Rightarrow> ctap_dev + (bool \<times> ctap_dev)" where
  "ctap_authenticate_credential rp desc d =
     (let c = cr_id (cd_credential desc) in
      if cd_type desc = 0x01 then
        let (rpIdHash, d) = dev_sha [take (rp_size rp) (rp_id rp)] d in
        if ci_rpIdHash c \<noteq> rpIdHash then Inr (False, d)
        else
          seqE (make_auth_tag rpIdHash (ci_nonce c) (ci_count c) d) (\<lambda>(tag, d).
          Inr (ci_tag c = tag, d))
      else if cd_type desc = 0x41 then
        let (rpIdHash, d) = dev_sha [take (rp_size rp) (rp_id rp)] d in
        u2f_authenticate_credential (cid_image c) 48 rpIdHash d
      else if cd_type desc = 0x42 then
        Inr (is_extension_request (gs_customCredId (d_ga d)) (unat (gs_customCredIdSize (d_ga d))), d)
      else Inr (False, d))"

definition get_credential_id_size :: "u8 \<Rightarrow> ctap_dev \<Rightarrow> nat" where
  "get_credential_id_size ty d =
     (if ty = 0x41 then 48 else if ty = 0x42 then unat (gs_customCredIdSize (d_ga d)) else 70)"

subsection \<open>Values\<close>

lemma dev_sha_value:
  assumes "crypto_ok (d_cr d)"
  obtains d' where "dev_sha ds d = (sha256 (concat ds), d')" "dev_sim d d'"
proof -
  obtain cr where "crypto_sha256_final (sha_feed ds (crypto_sha256_init (d_cr d))) = (sha256 (concat ds), cr)" "cr_sim (d_cr d) cr"
    using sha_run[OF assms] by blast
  then have "dev_sha ds d = (sha256 (concat ds), d\<lparr>d_cr := cr\<rparr>)" "dev_sim d (d\<lparr>d_cr := cr\<rparr>)"
    using dev_sim_cr[OF dev_sim_refl[OF assms]] by (simp_all add: dev_sha_def)
  then show ?thesis by (rule that)
qed

definition mac_value :: "crypto_state \<Rightarrow> key_arg \<Rightarrow> nat \<Rightarrow> bytes \<Rightarrow> bytes" where
  "mac_value cr k klen msg = sha256 (hmac_pad 0x5c (outer_key cr k klen) @ sha256 (hmac_pad 0x36 (inner_key cr k klen) @ msg))"

lemma length_mac_value [simp]: "length (mac_value cr k klen msg) = 32"
  by (simp add: mac_value_def)

lemma mac_value_simps:
  "mac_value cr Transport_Key 0 msg = transport_mac (c_transport cr) msg"
  "mac_value cr Master_Key 0 msg = hmac_sha256 (take 32 (c_master cr)) msg"
  "length key = klen \<Longrightarrow> mac_value cr (Key_Ptr key) klen msg = hmac_sha256 key msg"
  by (simp_all add: mac_value_def transport_mac_def hmac_sha256_def inner_key_def outer_key_def)

lemma dev_hmac_value:
  assumes "crypto_ok (d_cr d)" "klen \<le> 64"
  obtains d' where "dev_hmac k klen ds d = Inr (mac_value (d_cr d) k klen (concat ds), d')" "dev_sim d d'"
proof -
  obtain s0 cr where "crypto_sha256_hmac_init k klen (d_cr d) = Some s0"
    "crypto_sha256_hmac_final k klen (sha_feed ds s0) = Some (mac_value (d_cr d) k klen (concat ds), cr)" "cr_sim (d_cr d) cr"
    using hmac_run[OF assms] unfolding mac_value_def by blast
  then have "dev_hmac k klen ds d = Inr (mac_value (d_cr d) k klen (concat ds), d\<lparr>d_cr := cr\<rparr>)" "dev_sim d (d\<lparr>d_cr := cr\<rparr>)"
    using dev_sim_cr[OF dev_sim_refl[OF assms(1)]] by (simp_all add: dev_hmac_def)
  then show ?thesis by (rule that)
qed

lemma dev_sim_crypto: "dev_sim d d' \<Longrightarrow> crypto_ok (d_cr d')"
  by (simp add: dev_sim_fields)

text \<open>The tag of a credential id for a relying party.\<close>

definition cred_tag :: "bytes \<Rightarrow> bytes \<Rightarrow> bytes \<Rightarrow> u32 \<Rightarrow> bytes" where
  "cred_tag secret rpIdHash nonce count = take 16 (transport_mac secret (rpIdHash @ nonce @ u32_le_bytes count))"

lemma make_auth_tag_value:
  assumes "crypto_ok (d_cr d)" "length h = 32" "length n = 18"
  obtains d' where "make_auth_tag h n c d = Inr (cred_tag (c_transport (d_cr d)) h n c, d')" "dev_sim d d'"
proof -
  obtain d' where "dev_hmac Transport_Key 0 [h, n, u32_le_bytes c] d
      = Inr (mac_value (d_cr d) Transport_Key 0 (concat [h, n, u32_le_bytes c]), d')" "dev_sim d d'"
    using dev_hmac_value[OF assms(1), of 0 Transport_Key "[h, n, u32_le_bytes c]"] by blast
  with assms(2,3) show ?thesis by (intro that[of d']) (simp_all add: make_auth_tag_def cred_tag_def mac_value_simps)
qed

definition mask_word :: "bytes \<Rightarrow> credential_id \<Rightarrow> u32" where
  "mask_word secret c =
     (let m = transport_mac secret (take 14 (ci_nonce c)) in le32 (m ! 0) (m ! 1) (m ! 2) (m ! 3))"

lemma credential_mask_value:
  assumes "crypto_ok (d_cr d)"
  obtains d' where "credential_mask c d = Inr (mask_word (c_transport (d_cr d)) c, d')" "dev_sim d d'"
proof -
  obtain d' where "dev_hmac Transport_Key 0 [take 14 (ci_nonce c)] d
      = Inr (mac_value (d_cr d) Transport_Key 0 (concat [take 14 (ci_nonce c)]), d')" "dev_sim d d'"
    using dev_hmac_value[OF assms, of 0 Transport_Key "[take 14 (ci_nonce c)]"] by blast
  then show ?thesis by (intro that[of d']) (simp_all add: credential_mask_def mask_word_def mac_value_simps Let_def)
qed

lemma set_metadata_props:
  assumes "length (ci_nonce c) = 18"
  shows "metadata_value (set_metadata w c) = w" "take 14 (ci_nonce (set_metadata w c)) = take 14 (ci_nonce c)"
    "length (ci_nonce (set_metadata w c)) = 18"
proof -
  obtain p q r s where w: "u32_le_bytes w = [p, q, r, s]" by (simp add: u32_le_bytes_def)
  show "metadata_value (set_metadata w c) = w"
    using assms by (simp add: metadata_value_def set_metadata_def blit_def nth_append u32_le_bytes_def)
  show "take 14 (ci_nonce (set_metadata w c)) = take 14 (ci_nonce c)" "length (ci_nonce (set_metadata w c)) = 18"
    using assms by (simp_all add: set_metadata_def w blit_def)
qed

text \<open>What was masked is what is read.\<close>

definition metadata_of :: "bytes \<Rightarrow> credential_id \<Rightarrow> u32" where
  "metadata_of secret c = metadata_value c XOR mask_word secret c"

lemma read_metadata_value:
  assumes "crypto_ok (d_cr d)"
  obtains d' where "read_metadata_from_masked_credential c d = Inr (metadata_of (c_transport (d_cr d)) c, d')" "dev_sim d d'"
proof -
  obtain d' where "credential_mask c d = Inr (mask_word (c_transport (d_cr d)) c, d')" "dev_sim d d'"
    using credential_mask_value[OF assms] .
  then show ?thesis by (intro that[of d']) (simp_all add: read_metadata_from_masked_credential_def metadata_of_def)
qed

lemma xor_cancel: "(m XOR w) XOR m = (w :: 'a::len word)"
  by (simp add: bit_eq_iff bit_simps) blast

lemma add_metadata_value:
  assumes "crypto_ok (d_cr d)" "length (ci_nonce c) = 18"
  obtains d' c' where "add_masked_metadata_for_credential c w d = Inr (c', d')" "dev_sim d d'"
    "metadata_of (c_transport (d_cr d)) c' = w" "c' = set_metadata (mask_word (c_transport (d_cr d)) c XOR w) c"
proof -
  let ?m = "mask_word (c_transport (d_cr d)) c"
  obtain d' where 1: "credential_mask c d = Inr (?m, d')" "dev_sim d d'" using credential_mask_value[OF assms(1)] .
  have "mask_word (c_transport (d_cr d)) (set_metadata (?m XOR w) c) = ?m"
    using set_metadata_props(2)[OF assms(2)] by (simp add: mask_word_def)
  then have "metadata_of (c_transport (d_cr d)) (set_metadata (?m XOR w) c) = w"
    using set_metadata_props(1)[OF assms(2)] xor_cancel[of ?m w] by (simp add: metadata_of_def)
  with 1 show ?thesis by (intro that) (simp_all add: add_masked_metadata_for_credential_def)
qed

text \<open>The protection policy: level 2 wants a verified user or an explicit list, level 3 a verified user.\<close>

definition protection_lets :: "u32 \<Rightarrow> bool \<Rightarrow> bool \<Rightarrow> bool" where
  "protection_lets p verified listed \<longleftrightarrow> (p = 2 \<longrightarrow> verified \<or> listed) \<and> (p = 3 \<longrightarrow> verified)"

lemma check_metadata_value:
  assumes "crypto_ok (d_cr d)"
  obtains d' where "check_credential_metadata c v l d =
      Inr (if protection_lets (metadata_of (c_transport (d_cr d)) c) v l then 0 else CTAP2_ERR_NOT_ALLOWED, d')" "dev_sim d d'"
proof -
  obtain d' where "read_metadata_from_masked_credential c d = Inr (metadata_of (c_transport (d_cr d)) c, d')" "dev_sim d d'"
    using read_metadata_value[OF assms] .
  then show ?thesis
    by (intro that[of d']) (simp_all add: check_credential_metadata_def protection_lets_def)
qed

lemma authenticate_value:
  assumes "crypto_ok (d_cr d)" "cd_type desc = 0x01" "cid_ok (cr_id (cd_credential desc))"
  obtains d' where "ctap_authenticate_credential rp desc d = Inr
      (ci_rpIdHash (cr_id (cd_credential desc)) = sha256 (take (rp_size rp) (rp_id rp))
       \<and> ci_tag (cr_id (cd_credential desc)) = cred_tag (c_transport (d_cr d)) (ci_rpIdHash (cr_id (cd_credential desc)))
            (ci_nonce (cr_id (cd_credential desc))) (ci_count (cr_id (cd_credential desc))), d')" "dev_sim d d'"
proof -
  let ?c = "cr_id (cd_credential desc)"
  obtain d1 where 1: "dev_sha [take (rp_size rp) (rp_id rp)] d = (sha256 (take (rp_size rp) (rp_id rp)), d1)" "dev_sim d d1"
    using dev_sha_value[OF assms(1), of "[take (rp_size rp) (rp_id rp)]"] by auto
  have n: "length (ci_nonce ?c) = 18" using assms(3) by (simp add: cid_ok_def)
  obtain d2 where 2: "make_auth_tag (sha256 (take (rp_size rp) (rp_id rp))) (ci_nonce ?c) (ci_count ?c) d1
      = Inr (cred_tag (c_transport (d_cr d1)) (sha256 (take (rp_size rp) (rp_id rp))) (ci_nonce ?c) (ci_count ?c), d2)" "dev_sim d1 d2"
    using make_auth_tag_value[OF dev_sim_crypto[OF 1(2)] length_sha256 n] .
  have t: "c_transport (d_cr d1) = c_transport (d_cr d)" using 1(2) by (simp add: dev_sim_fields)
  show ?thesis
  proof (cases "ci_rpIdHash ?c = sha256 (take (rp_size rp) (rp_id rp))")
    case True
    then show ?thesis using 1 2 t assms(2) dev_sim_trans[OF 1(2) 2(2)]
      by (intro that[of d2]) (simp_all add: ctap_authenticate_credential_def Let_def)
  next
    case False
    then show ?thesis using 1 assms(2)
      by (intro that[of d1]) (simp_all add: ctap_authenticate_credential_def Let_def)
  qed
qed

end
