(* ===== verification/Presence.thy ===== *)
theory Presence
  imports DevState
begin

text \<open>
  The user presence test as the commands call it (\<^verbatim>\<open>targets/stm32l432/src/device.c\<close> and
  \<open>ctap2_user_presence_test\<close> of \<^verbatim>\<open>fido2/ctap.c\<close>). The wait itself, with the reports it handles,
  is in HidDispatch; here its result is an input: 1 a touch, 0 a timeout, -1 a cancel.
\<close>

record presence =
  ps_nfc :: bool
  ps_first10 :: bool
  ps_wait :: int

definition ctap_user_presence_test :: "presence \<Rightarrow> ctap_dev \<Rightarrow> int" where
  "ctap_user_presence_test ps d = (if ps_nfc ps then 1 else if d_up_off d then 2 else ps_wait ps)"

definition CTAP_RESET :: u8 where "CTAP_RESET = 0x07"
definition CTAP2_ERR_PROCESSING :: int where "CTAP2_ERR_PROCESSING = 0x21"
definition CTAP2_ERR_KEEPALIVE_CANCEL :: int where "CTAP2_ERR_KEEPALIVE_CANCEL = 0x2d"
definition CTAP2_ERR_ACTION_TIMEOUT :: int where "CTAP2_ERR_ACTION_TIMEOUT = 0x3a"

definition ctap2_user_presence_test :: "u8 \<Rightarrow> presence \<Rightarrow> ctap_dev \<Rightarrow> int" where
  "ctap2_user_presence_test cmd ps d =
     (if cmd = CTAP_RESET \<and> \<not> ps_first10 ps then 0x30
      else
        let ret = ctap_user_presence_test ps d in
        if ret > 1 then CTAP2_ERR_PROCESSING
        else if ret > 0 then 0
        else if ret < 0 then CTAP2_ERR_KEEPALIVE_CANCEL
        else CTAP2_ERR_ACTION_TIMEOUT)"

definition device_disable_up :: "bool \<Rightarrow> ctap_dev \<Rightarrow> ctap_dev" where
  "device_disable_up disable d = d\<lparr>d_up_off := disable\<rparr>"

text \<open>A touch, or the reader's field over NFC.\<close>

definition user_present :: "presence \<Rightarrow> bool" where
  "user_present ps \<longleftrightarrow> ps_nfc ps \<or> ps_wait ps = 1"

definition presence_ok :: "presence \<Rightarrow> bool" where
  "presence_ok ps \<longleftrightarrow> ps_wait ps \<in> {-1, 0, 1}"

lemma presence_test_zero:
  "presence_ok ps \<Longrightarrow> ctap2_user_presence_test cmd ps d = 0 \<longleftrightarrow>
     (cmd = CTAP_RESET \<longrightarrow> ps_first10 ps) \<and> (ps_nfc ps \<or> \<not> d_up_off d \<and> ps_wait ps = 1)"
  by (auto simp: presence_ok_def ctap2_user_presence_test_def ctap_user_presence_test_def Let_def
      CTAP2_ERR_PROCESSING_def CTAP2_ERR_KEEPALIVE_CANCEL_def CTAP2_ERR_ACTION_TIMEOUT_def)

lemma presence_test_processing:
  "presence_ok ps \<Longrightarrow> ctap2_user_presence_test cmd ps d = CTAP2_ERR_PROCESSING \<longleftrightarrow>
     (cmd = CTAP_RESET \<longrightarrow> ps_first10 ps) \<and> \<not> ps_nfc ps \<and> d_up_off d"
  by (auto simp: presence_ok_def ctap2_user_presence_test_def ctap_user_presence_test_def Let_def
      CTAP2_ERR_PROCESSING_def CTAP2_ERR_KEEPALIVE_CANCEL_def CTAP2_ERR_ACTION_TIMEOUT_def)

end
