(* ===== verification/U2f.thy ===== *)
theory U2f
  imports Credential Presence DerSig
begin

text \<open>
  \<^verbatim>\<open>fido2/u2f.c\<close> with the extension bridge (\<^verbatim>\<open>fido2/extensions/extensions.c\<close>,
  \<^verbatim>\<open>solo.c\<close>): registration, authentication, version and the vendor requests tunnelled in key handles.
  The response is the list of the bytes written so far; the buffer has 4096. A status word is a
  number; \<open>payload\<close> is the memory from the payload's first byte on.
\<close>

type_synonym ctap_response = bytes

definition CTAP_RESPONSE_BUFFER_SIZE :: nat where "CTAP_RESPONSE_BUFFER_SIZE = 4096"

definition ctap_response_init :: ctap_response where "ctap_response_init = []"

definition u2f_response_writeback :: "bytes \<Rightarrow> ctap_response \<Rightarrow> ctap_response" where
  "u2f_response_writeback buf resp =
     (if length resp + length buf > CTAP_RESPONSE_BUFFER_SIZE then resp else resp @ buf)"

definition U2F_SW_NO_ERROR :: u16 where "U2F_SW_NO_ERROR = 0x9000"
definition U2F_SW_CONDITIONS_NOT_SATISFIED :: u16 where "U2F_SW_CONDITIONS_NOT_SATISFIED = 0x6985"
definition U2F_SW_INS_NOT_SUPPORTED :: u16 where "U2F_SW_INS_NOT_SUPPORTED = 0x6d00"
definition U2F_SW_WRONG_LENGTH :: u16 where "U2F_SW_WRONG_LENGTH = 0x6700"
definition U2F_SW_CLASS_NOT_SUPPORTED :: u16 where "U2F_SW_CLASS_NOT_SUPPORTED = 0x6E00"
definition U2F_SW_WRONG_DATA :: u16 where "U2F_SW_WRONG_DATA = 0x6a80"
definition U2F_SW_INSUFFICIENT_MEMORY :: u16 where "U2F_SW_INSUFFICIENT_MEMORY = 0x9210"

lemmas sw_codes = U2F_SW_NO_ERROR_def U2F_SW_CONDITIONS_NOT_SATISFIED_def U2F_SW_INS_NOT_SUPPORTED_def
  U2F_SW_WRONG_LENGTH_def U2F_SW_CLASS_NOT_SUPPORTED_def U2F_SW_WRONG_DATA_def U2F_SW_INSUFFICIENT_MEMORY_def

text \<open>The members of the two request structures.\<close>

definition req_chal :: "bytes \<Rightarrow> bytes" where "req_chal p = block p 0 32"
definition req_app :: "bytes \<Rightarrow> bytes" where "req_app p = block p 32 32"
definition req_khl :: "bytes \<Rightarrow> u8" where "req_khl p = p ! 64"
definition req_kh :: "bytes \<Rightarrow> bytes" where "req_kh p = drop 65 p"

subsection \<open>Keys and signatures\<close>

definition dev_sign :: "environ \<Rightarrow> bytes \<Rightarrow> ctap_dev \<Rightarrow> ctap_dev + (bytes \<times> ctap_dev)" where
  "dev_sign env data d =
     seqE (halt d (crypto_ecc256_sign (env_lib env) data (d_cr d))) (\<lambda>(sig, cr). Inr (sig, d\<lparr>d_cr := cr\<rparr>))"

definition dev_load_key :: "environ \<Rightarrow> bytes \<Rightarrow> ctap_dev \<Rightarrow> ctap_dev + ctap_dev" where
  "dev_load_key env data d =
     seqE (halt d (crypto_ecc256_load_key (env_lib env) data [] (d_cr d))) (\<lambda>cr. Inr (d\<lparr>d_cr := cr\<rparr>))"

definition dump_signature_der :: "bytes \<Rightarrow> ctap_response \<Rightarrow> ctap_response" where
  "dump_signature_der sig resp =
     (case ctap_encode_der_sig sig of (len, sigder) \<Rightarrow> u2f_response_writeback (take (nat len) sigder) resp)"

definition u2f_load_key :: "environ \<Rightarrow> bytes \<Rightarrow> nat \<Rightarrow> ctap_dev \<Rightarrow> ctap_dev + (int \<times> ctap_dev)" where
  "u2f_load_key env kh khl d = seqE (dev_load_key env (take khl kh) d) (\<lambda>d. Inr (0, d))"

definition u2f_new_keypair :: "environ \<Rightarrow> bytes \<Rightarrow> ctap_dev \<Rightarrow> ctap_dev + (key_handle \<times> bytes \<times> ctap_dev)" where
  "u2f_new_keypair env appid d =
     (let (key, d) = ctap_generate_rng env 32 d;
          kh = \<lparr>kh_tag = [], kh_key = key\<rparr> in
      seqE (u2f_make_auth_tag kh appid d) (\<lambda>(tag, d).
      let kh = kh\<lparr>kh_tag := tag\<rparr> in
      seqE (halt d (crypto_ecc256_derive_public_key (env_lib env) (kh_image kh) (d_cr d))) (\<lambda>((x, y), cr).
      Inr (kh, x @ y, d\<lparr>d_cr := cr\<rparr>))))"

subsection \<open>Commands\<close>

definition U2F_AUTHENTICATE_CHECK :: u8 where "U2F_AUTHENTICATE_CHECK = 0x7"
definition U2F_AUTHENTICATE_SIGN :: u8 where "U2F_AUTHENTICATE_SIGN = 0x3"
definition U2F_AUTHENTICATE_SIGN_NO_USER :: u8 where "U2F_AUTHENTICATE_SIGN_NO_USER = 0x8"

text \<open>The signing half, after the checks.\<close>

definition u2f_sign ::
    "environ \<Rightarrow> u8 \<Rightarrow> bytes \<Rightarrow> ctap_response \<Rightarrow> ctap_dev \<Rightarrow> ctap_dev + (u16 \<times> ctap_response \<times> ctap_dev)" where
  "u2f_sign env up p resp d =
     seqE (dev_atomic_count env 0 d) (\<lambda>(count, d).
     let (hash, d) = dev_sha [req_app p, [up], u32_be_bytes count, req_chal p] d in
     seqE (dev_sign env hash d) (\<lambda>(sig, d).
     let resp = u2f_response_writeback [up] resp;
         resp = u2f_response_writeback (u32_be_bytes count) resp;
         resp = dump_signature_der sig resp
     in Inr (U2F_SW_NO_ERROR, resp, d)))"

definition u2f_authenticate ::
    "environ \<Rightarrow> presence \<Rightarrow> bytes \<Rightarrow> u8 \<Rightarrow> ctap_response \<Rightarrow> ctap_dev \<Rightarrow> ctap_dev + (u16 \<times> ctap_response \<times> ctap_dev)" where
  "u2f_authenticate env ps p control resp d =
     (if control = U2F_AUTHENTICATE_CHECK then
        seqE (u2f_authenticate_credential (req_kh p) (unat (req_khl p)) (req_app p) d) (\<lambda>(ok, d).
        Inr (if ok then U2F_SW_CONDITIONS_NOT_SATISFIED else U2F_SW_WRONG_DATA, resp, d))
      else if control \<noteq> U2F_AUTHENTICATE_SIGN \<and> control \<noteq> U2F_AUTHENTICATE_SIGN_NO_USER then
        Inr (U2F_SW_WRONG_DATA, resp, d)
      else
        seqE (u2f_authenticate_credential (req_kh p) (unat (req_khl p)) (req_app p) d) (\<lambda>(ok, d).
        if \<not> ok then Inr (U2F_SW_WRONG_DATA, resp, d)
        else
          seqE (u2f_load_key env (req_kh p) (unat (req_khl p)) d) (\<lambda>(r, d).
          if r \<noteq> 0 then Inr (U2F_SW_WRONG_DATA, resp, d)
          else
            let up = (if control = U2F_AUTHENTICATE_SIGN_NO_USER then 0 else 1) in
            if up = 1 \<and> ctap_user_presence_test ps d = 0 then Inr (U2F_SW_CONDITIONS_NOT_SATISFIED, resp, d)
            else u2f_sign env up p resp d)))"

definition u2f_register ::
    "environ \<Rightarrow> presence \<Rightarrow> bytes \<Rightarrow> ctap_response \<Rightarrow> ctap_dev \<Rightarrow> ctap_dev + (u16 \<times> ctap_response \<times> ctap_dev)" where
  "u2f_register env ps p resp d =
     (let attest_size = length (env_cert env) in
      if attest_size > 1024 then Inr (U2F_SW_INSUFFICIENT_MEMORY, resp, d)
      else if ctap_user_presence_test ps d = 0 then Inr (U2F_SW_CONDITIONS_NOT_SATISFIED, resp, d)
      else
        seqE (u2f_new_keypair env (req_app p) d) (\<lambda>(kh, pubkey, d).
        let (hash, d) = dev_sha [[0x0], req_app p, req_chal p, kh_image kh, [0x04], pubkey] d;
            d = d\<lparr>d_cr := crypto_ecc256_load_attestation_key (env_att_key env) (d_cr d)\<rparr> in
        seqE (dev_sign env hash d) (\<lambda>(sig, d).
        let resp = u2f_response_writeback [0x5, 0x04] resp;
            resp = u2f_response_writeback pubkey resp;
            resp = u2f_response_writeback [48] resp;
            resp = u2f_response_writeback (kh_image kh) resp;
            resp = u2f_response_writeback (env_cert env) resp;
            resp = dump_signature_der sig resp
        in Inr (U2F_SW_NO_ERROR, resp, d))))"

definition u2f_version :: "ctap_response \<Rightarrow> u16 \<times> ctap_response" where
  "u2f_version resp = (U2F_SW_NO_ERROR, u2f_response_writeback (map of_char ''U2F_V2'') resp)"

subsection \<open>Extensions\<close>

datatype req_src = REQ_SRC_UNKNOWN | REQ_SRC_U2F | REQ_SRC_FIDO2

definition WalletSign :: u8 where "WalletSign = 0x10"
definition WalletRegister :: u8 where "WalletRegister = 0x11"
definition WalletVersion :: u8 where "WalletVersion = 0x14"
definition WalletRng :: u8 where "WalletRng = 0x15"
definition WalletBootloader :: u8 where "WalletBootloader = 0x20"

definition extension_needs_atomic_count :: "bytes \<Rightarrow> bool" where
  "extension_needs_atomic_count keyh \<longleftrightarrow> keyh ! 0 = WalletRegister \<or> keyh ! 0 = WalletSign"

text \<open>\<open>output\<close> is the caller's buffer; a confirmed reboot into the bootloader ends the run.\<close>

definition bridge_u2f_to_solo ::
    "environ \<Rightarrow> presence \<Rightarrow> req_src \<Rightarrow> bytes \<Rightarrow> bytes \<Rightarrow> ctap_dev \<Rightarrow> ctap_dev + (int \<times> bytes \<times> ctap_dev)" where
  "bridge_u2f_to_solo env ps src output keyh d =
     (let op = keyh ! 0 in
      if op = WalletVersion then
        case env_version env of (maj, mn, patch) \<Rightarrow> Inr (0, blit output 0 [maj, mn, patch], d)
      else if op = WalletBootloader then
        let feedback = (case src of
              REQ_SRC_U2F \<Rightarrow> ctap_user_presence_test ps d = 1
            | REQ_SRC_FIDO2 \<Rightarrow> ctap2_user_presence_test WalletBootloader ps d = 0
            | REQ_SRC_UNKNOWN \<Rightarrow> False)
        in if feedback then Inl d else Inr (0x27, output, d)
      else if op = WalletRng then
        let (r, d) = ctap_generate_rng env 71 d in Inr (0, blit output 0 r, d)
      else Inr (1, output, d))"

definition bridge_u2f_to_extensions ::
    "environ \<Rightarrow> presence \<Rightarrow> bytes \<Rightarrow> ctap_response \<Rightarrow> ctap_dev \<Rightarrow> ctap_dev + (u16 \<times> ctap_response \<times> ctap_dev)" where
  "bridge_u2f_to_extensions env ps keyh resp d =
     seqE (if extension_needs_atomic_count keyh then dev_atomic_count env 0 d else Inr (10, d)) (\<lambda>(count, d).
     let resp = u2f_response_writeback [1] resp;
         resp = u2f_response_writeback (u32_be_bytes count) resp;
         resp = u2f_response_writeback [0] resp in
     seqE (bridge_u2f_to_solo env ps REQ_SRC_U2F (take 72 (env_stack env)) keyh d) (\<lambda>(ret, sig, d).
     let resp = u2f_response_writeback sig resp in
     if ret \<noteq> 0 then
       let resp = ctap_response_init;
           resp = u2f_response_writeback [1] resp;
           resp = u2f_response_writeback (u32_be_bytes count) resp;
           sig = (replicate 72 0)[0 := of_int ret];
           resp = u2f_response_writeback sig resp
       in Inr (U2F_SW_NO_ERROR, resp, d)
     else Inr (U2F_SW_NO_ERROR, resp, d)))"

definition extend_fido2 ::
    "environ \<Rightarrow> presence \<Rightarrow> bytes \<Rightarrow> bytes \<Rightarrow> ctap_dev \<Rightarrow> ctap_dev + (bool \<times> bytes \<times> ctap_dev)" where
  "extend_fido2 env ps credid output d =
     (if is_extension_request credid 70 then
        seqE (bridge_u2f_to_solo env ps REQ_SRC_FIDO2 (drop 1 output) credid d) (\<lambda>(ret, out, d).
        Inr (True, of_int ret # out, d))
      else Inr (False, output, d))"

definition U2F_REGISTER :: u8 where "U2F_REGISTER = 1"
definition U2F_AUTHENTICATE :: u8 where "U2F_AUTHENTICATE = 2"
definition U2F_VERSION :: u8 where "U2F_VERSION = 3"

definition extend_u2f ::
    "environ \<Rightarrow> presence \<Rightarrow> u8 \<Rightarrow> u8 \<Rightarrow> bytes \<Rightarrow> nat \<Rightarrow> ctap_response \<Rightarrow> ctap_dev \<Rightarrow> ctap_dev + (u16 \<times> ctap_response \<times> ctap_dev)" where
  "extend_u2f env ps ins p1 p len resp d =
     (if ins = U2F_AUTHENTICATE then
        if p1 = U2F_AUTHENTICATE_CHECK then
          Inr (if is_extension_request (req_kh p) (unat (req_khl p)) then U2F_SW_CONDITIONS_NOT_SATISFIED
               else U2F_SW_WRONG_DATA, resp, d)
        else if \<not> is_extension_request (req_kh p) (unat (req_khl p)) then Inr (U2F_SW_WRONG_DATA, resp, d)
        else bridge_u2f_to_extensions env ps (req_kh p) resp d
      else if ins = U2F_VERSION then
        if len \<noteq> 0 then Inr (U2F_SW_WRONG_LENGTH, resp, d)
        else case u2f_version resp of (sw, resp) \<Rightarrow> Inr (sw, resp, d)
      else Inr (U2F_SW_INS_NOT_SUPPORTED, resp, d))"

subsection \<open>Requests\<close>

record apdu_header =
  ah_cla :: u8
  ah_ins :: u8
  ah_p1 :: u8

definition u2f_native ::
    "environ \<Rightarrow> presence \<Rightarrow> apdu_header \<Rightarrow> bytes \<Rightarrow> nat \<Rightarrow> ctap_response \<Rightarrow> ctap_dev \<Rightarrow> ctap_dev + (u16 \<times> ctap_response \<times> ctap_dev)" where
  "u2f_native env ps req p len resp d =
     (if ah_ins req = U2F_REGISTER then
        if len \<noteq> 64 then Inr (U2F_SW_WRONG_LENGTH, resp, d) else u2f_register env ps p resp d
      else if ah_ins req = U2F_AUTHENTICATE then u2f_authenticate env ps p (ah_p1 req) resp d
      else if ah_ins req = U2F_VERSION then
        if len \<noteq> 0 then Inr (U2F_SW_WRONG_LENGTH, resp, d)
        else case u2f_version resp of (sw, resp) \<Rightarrow> Inr (sw, resp, d)
      else if ah_ins req = 0xc0 \<or> ah_ins req = 0xff then Inr (U2F_SW_NO_ERROR, resp, d)
      else Inr (U2F_SW_INS_NOT_SUPPORTED, resp, d))"

text \<open>The end of every request: an error empties the response, then the status word.\<close>

definition u2f_end :: "u16 \<Rightarrow> ctap_response \<Rightarrow> ctap_response" where
  "u2f_end rcode resp =
     (let resp = (if rcode \<noteq> U2F_SW_NO_ERROR then ctap_response_init else resp);
          resp = u2f_response_writeback [ucast (drop_bit 8 rcode)] resp
      in u2f_response_writeback [ucast rcode] resp)"

definition u2f_request_ex ::
    "environ \<Rightarrow> presence \<Rightarrow> apdu_header \<Rightarrow> bytes \<Rightarrow> nat \<Rightarrow> ctap_dev \<Rightarrow> ctap_dev + (ctap_response \<times> ctap_dev)" where
  "u2f_request_ex env ps req p len d =
     (let resp = ctap_response_init in
      if ah_cla req \<noteq> 0 then Inr (u2f_end U2F_SW_CLASS_NOT_SUPPORTED resp, d)
      else
        seqE (extend_u2f env ps (ah_ins req) (ah_p1 req) p len resp d) (\<lambda>(rcode, resp, d).
        seqE (if rcode \<noteq> U2F_SW_NO_ERROR \<and> rcode \<noteq> U2F_SW_CONDITIONS_NOT_SATISFIED
              then u2f_native env ps req p len resp d else Inr (rcode, resp, d)) (\<lambda>(rcode, resp, d).
        Inr (u2f_end rcode resp, d))))"

definition u2f_request_nfc ::
    "environ \<Rightarrow> presence \<Rightarrow> apdu_header \<Rightarrow> bytes \<Rightarrow> nat \<Rightarrow> ctap_dev \<Rightarrow> ctap_dev + (ctap_response \<times> ctap_dev)" where
  "u2f_request_nfc env ps req p len d =
     (let d = device_disable_up True d in
      seqE (u2f_request_ex env ps req p len d) (\<lambda>(resp, d). Inr (resp, device_disable_up False d)))"

text \<open>Over HID the extended length is read from the APDU.\<close>

definition u2f_request ::
    "environ \<Rightarrow> presence \<Rightarrow> bytes \<Rightarrow> ctap_dev \<Rightarrow> ctap_dev + (ctap_response \<times> ctap_dev)" where
  "u2f_request env ps apdu d =
     (let len = unat (apdu ! 6) + unat (apdu ! 5) * 2 ^ 8 + unat (apdu ! 4) * 2 ^ 16;
          req = \<lparr>ah_cla = apdu ! 0, ah_ins = apdu ! 1, ah_p1 = apdu ! 2\<rparr>
      in u2f_request_ex env ps req (drop 7 apdu) len d)"

end
