(* ===== verification/CountDev.thy ===== *)
theory CountDev
  imports Credential
begin

text \<open>
  The signature counter inside the device: what a call leaves alone, and its value. A call writes the
  two counter pages only, so the authenticator state and the resident keys in flash stay.
\<close>

subsection \<open>Operations confined to some pages\<close>

fun op_clear :: "nat \<Rightarrow> flash_op \<Rightarrow> bool" where
  "op_clear x (FErase p) \<longleftrightarrow> x div FLASH_PAGE_SIZE \<noteq> p"
| "op_clear x (FProgram a d) \<longleftrightarrow> x < a \<or> a + 8 \<le> x"

lemma exec_clear: "op_clear x op \<Longrightarrow> flash_exec prog op f x = f x"
  by (cases op) (auto simp: flash_erase_page_def flash_write_dword_def flash_exec.simps)

lemma run_clear: "\<forall>op\<in>set ops. op_clear x op \<Longrightarrow> flash_run prog ops f x = f x"
  by (induction ops arbitrary: f) (simp_all add: exec_clear)

definition counter_cell :: "nat \<Rightarrow> bool" where
  "counter_cell x \<longleftrightarrow> flash_addr COUNTER2_PAGE \<le> x \<and> x < flash_addr STATE2_PAGE"

lemma scan_bound:
  "even offset \<Longrightarrow> offset \<le> FLASH_PAGE_SIZE div 4 \<Longrightarrow>
     even (fst (count_scan f offset c)) \<and> fst (count_scan f offset c) \<le> FLASH_PAGE_SIZE div 4"
proof (induction f offset c rule: count_scan.induct)
  case (1 f offset c)
  show ?case
  proof (cases "offset < FLASH_PAGE_SIZE div 4 \<and> rd32 f (flash_addr COUNTER1_PAGE + offset * 4) \<noteq> 0xffffffff")
    case True
    then have "offset + 2 \<le> FLASH_PAGE_SIZE div 4" using 1(2) by (auto simp: FLASH_PAGE_SIZE_def)
    then show ?thesis using 1(1)[of "rd32 f (flash_addr COUNTER1_PAGE + offset * 4)"] 1(2) True
      by (subst (1 2) count_scan.simps) (simp add: Let_def)
  next
    case False
    then show ?thesis using 1(2,3) by (subst (1 2) count_scan.simps) (auto simp: Let_def)
  qed
qed

lemma rewrite_clear:
  "\<not> counter_cell x \<Longrightarrow> p \<in> {COUNTER1_PAGE, COUNTER2_PAGE} \<Longrightarrow> op \<in> set (rewrite_word p w) \<Longrightarrow> op_clear x op"
  by (auto simp: rewrite_word_ops counter_cell_def page_defs)

lemma count_ops_clear:
  assumes "\<not> counter_cell x" "op \<in> set (fst (atomic_count_ops amount rng f sc))"
  shows "op_clear x op"
proof -
  obtain off lastc where s: "count_scan f 0 0 = (off, lastc)" by fastforce
  have b: "even off" "off \<le> FLASH_PAGE_SIZE div 4" using scan_bound[of 0 f 0] s by simp_all
  note rc = rewrite_clear[OF assms(1)]
  have w: "op_clear x op'" if "o2 = 0 \<or> o2 = off \<and> off \<noteq> FLASH_PAGE_SIZE div 4"
    "op' \<in> set (flash_write_ops (flash_addr COUNTER1_PAGE + o2 * 4) (u32_le_bytes v))" for o2 v op'
  proof -
    have e: "even o2" "o2 + 2 \<le> FLASH_PAGE_SIZE div 4" using that(1) b by (auto simp: FLASH_PAGE_SIZE_def elim!: evenE)
    then have "(flash_addr COUNTER1_PAGE + o2 * 4) mod 8 = 0" by (auto simp: page_defs elim!: evenE)
    from u32_word_ops[OF this, of v] that(2) have "op' = FProgram (flash_addr COUNTER1_PAGE + o2 * 4) (u32_le_bytes v @ replicate 4 0xff)" by simp
    then show ?thesis using e(2) assms(1) by (auto simp: counter_cell_def page_defs)
  qed
  have er: "op_clear x (FErase COUNTER1_PAGE)" using assms(1) by (auto simp: counter_cell_def page_defs)
  define A where "A = {op. op_clear x op}"
  have r: "set (rewrite_word COUNTER1_PAGE v) \<subseteq> A" "set (rewrite_word COUNTER2_PAGE v) \<subseteq> A" for v
    using rc by (auto simp: A_def)
  have w0: "set (flash_write_ops (flash_addr COUNTER1_PAGE) (u32_le_bytes v)) \<subseteq> A" for v
    using w[of 0] by (auto simp: A_def)
  have wo: "set (flash_write_ops (flash_addr COUNTER1_PAGE + off * 4) (u32_le_bytes v)) \<subseteq> A" if "off \<noteq> FLASH_PAGE_SIZE div 4" for v
    using w[of off] that by (auto simp: A_def)
  have "set (fst (atomic_count_ops amount rng f sc)) \<subseteq> A"
    using er by (simp add: atomic_count_ops_def Let_def split_beta s r w0 wo A_def[symmetric])
      (simp add: A_def)
  then show ?thesis using assms(2) by (auto simp: A_def)
qed

lemma count_frame_cell:
  "\<not> counter_cell x \<Longrightarrow> fst (snd (ctap_atomic_count prog amount rng st)) x = fst st x"
  unfolding ctap_atomic_count_def split_beta Let_def snd_conv fst_conv
  by (rule run_clear) (auto intro: count_ops_clear)

subsection \<open>On the device\<close>

text \<open>\<open>d'\<close> differs from \<open>d\<close> in the counter, the loaded signing key, the position in the random stream and
  the scratch part of the cryptographic state.\<close>

definition cr_loose :: "crypto_state \<Rightarrow> crypto_state \<Rightarrow> bool" where
  "cr_loose a b \<longleftrightarrow> cr_sim (a\<lparr>c_rng := c_rng b, c_signing_key := c_signing_key b, c_key_len := c_key_len b\<rparr>) b"

definition count_sim :: "ctap_dev \<Rightarrow> ctap_dev \<Rightarrow> bool" where
  "count_sim d d' \<longleftrightarrow> (\<forall>x. \<not> counter_cell x \<longrightarrow> d_flash d' x = d_flash d x) \<and> cr_loose (d_cr d) (d_cr d')
     \<and> d'\<lparr>d_flash := d_flash d, d_sc := d_sc d, d_cr := d_cr d\<rparr> = d"

lemma cr_loose_fields:
  assumes "cr_loose a b"
  shows "crypto_ok b" "c_master b = c_master a" "c_transport b = c_transport a" "c_curve b = c_curve a"
  using cr_sim_ok[OF assms[unfolded cr_loose_def]] cr_sim_fields[OF assms[unfolded cr_loose_def]] by simp_all

lemma cr_loose_sim: "cr_sim a b \<Longrightarrow> cr_loose a b"
  by (cases a; cases b) (simp add: cr_loose_def cr_sim_def)

lemma cr_loose_trans: "cr_loose a b \<Longrightarrow> cr_loose b c \<Longrightarrow> cr_loose a c"
  by (cases a; cases b; cases c) (simp add: cr_loose_def cr_sim_def)

lemma count_sim_fields:
  assumes "count_sim d d'"
  shows "d_st d' = d_st d" "d_pin_token d' = d_pin_token d" "d_boot d' = d_boot d" "d_ka_priv d' = d_ka_priv d"
    "d_ka_pub d' = d_ka_pub d" "d_ga d' = d_ga d" "d_cm d' = d_cm d" "d_up_off d' = d_up_off d" "crypto_ok (d_cr d')"
    "c_master (d_cr d') = c_master (d_cr d)" "c_transport (d_cr d') = c_transport (d_cr d)" "c_curve (d_cr d') = c_curve (d_cr d)"
proof -
  have e: "d'\<lparr>d_flash := d_flash d, d_sc := d_sc d, d_cr := d_cr d\<rparr> = d" and c: "cr_loose (d_cr d) (d_cr d')"
    using assms by (simp_all add: count_sim_def)
  show "d_st d' = d_st d" "d_pin_token d' = d_pin_token d" "d_boot d' = d_boot d" "d_ka_priv d' = d_ka_priv d"
    "d_ka_pub d' = d_ka_pub d" "d_ga d' = d_ga d" "d_cm d' = d_cm d" "d_up_off d' = d_up_off d"
    using arg_cong[OF e, of d_st] arg_cong[OF e, of d_pin_token] arg_cong[OF e, of d_boot] arg_cong[OF e, of d_ka_priv]
      arg_cong[OF e, of d_ka_pub] arg_cong[OF e, of d_ga] arg_cong[OF e, of d_cm] arg_cong[OF e, of d_up_off] by simp_all
  show "crypto_ok (d_cr d')" "c_master (d_cr d') = c_master (d_cr d)" "c_transport (d_cr d') = c_transport (d_cr d)"
    "c_curve (d_cr d') = c_curve (d_cr d)"
    using cr_loose_fields[OF c] by simp_all
qed

lemma count_sim_refl [simp]: "crypto_ok (d_cr d) \<Longrightarrow> count_sim d d"
  by (simp add: count_sim_def cr_loose_sim)

lemma count_sim_trans: "count_sim a b \<Longrightarrow> count_sim b c \<Longrightarrow> count_sim a c"
  by (cases a; cases b; cases c) (auto simp: count_sim_def intro: cr_loose_trans)

lemma count_sim_cr: "count_sim d d' \<Longrightarrow> cr_loose (d_cr d') cr \<Longrightarrow> count_sim d (d'\<lparr>d_cr := cr\<rparr>)"
  by (cases d; cases d') (auto simp: count_sim_def intro: cr_loose_trans)

lemma dev_sim_count: "dev_sim d d' \<Longrightarrow> count_sim d d'"
  by (cases d; cases d') (auto simp: dev_sim_def count_sim_def intro: cr_loose_sim)

lemma rng_count_sim: "crypto_ok (d_cr d) \<Longrightarrow> count_sim d (snd (ctap_generate_rng env n d))"
  by (simp add: ctap_generate_rng_def Let_def count_sim_def crypto_ok_def cr_loose_def cr_sim_def)

definition counter_inv :: "ctap_dev \<Rightarrow> bool" where
  "counter_inv d \<longleftrightarrow> ctr_ok (d_flash d) \<and> unat (d_sc d) \<le> counter_floor (d_flash d)"

lemma dev_count_value:
  assumes "env_ok env" "counter_inv d" "crypto_ok (d_cr d)" "counter_floor (d_flash d) < 2 ^ 31" "amount \<le> 256"
  obtains w d' where "dev_atomic_count env amount d = Inr (w, d')" "count_sim d d'" "counter_inv d'"
    "counter_floor (d_flash d) < unat w" "counter_floor (d_flash d') = unat w" "unat w \<le> counter_floor (d_flash d) + 256"
    "c_signing_key (d_cr d') = c_signing_key (d_cr d)"
proof -
  define p where "p = (if amount = 0 then ctap_generate_rng env 1 d else ([0], d))"
  let ?d = "snd p"
  have d1: "d_flash ?d = d_flash d" "d_sc ?d = d_sc d" "c_signing_key (d_cr ?d) = c_signing_key (d_cr d)" by (simp_all add: p_def ctap_generate_rng_def Let_def)
  have s1: "count_sim d ?d" using rng_count_sim[OF assms(3)] assms(3) by (simp add: p_def)
  obtain ops r sc where o: "atomic_count_ops amount (fst p ! 0) (d_flash d) (d_sc d) = (ops, r, sc)" by (metis prod_cases3)
  obtain w f where c: "ctap_atomic_count (env_prog env) amount (fst p ! 0) (d_flash d, d_sc d) = (Some w, f, sc)"
    "counter_floor (d_flash d) < unat w" "unat w \<le> counter_floor (d_flash d) + 256" "ctr_ok f" "counter_floor f = unat w" "unat sc \<le> unat w"
    using atomic_count_safe[OF _ _ assms(4,5) _ o, of "env_prog env"] assms(1,2) by (auto simp: env_ok_def counter_inv_def)
  let ?e = "?d\<lparr>d_flash := f, d_sc := sc\<rparr>"
  have "dev_atomic_count env amount d = Inr (w, ?e)"
    unfolding dev_atomic_count_def p_def[symmetric] split_beta Let_def using c(1) d1 by simp
  moreover have "count_sim d ?e"
    using s1 count_frame_cell[of _ "env_prog env" amount "fst p ! 0" "(d_flash d, d_sc d)"] c(1)
    by (cases d; cases ?d) (auto simp: count_sim_def)
  moreover have "counter_inv ?e" using c by (simp add: counter_inv_def)
  ultimately show ?thesis using c that d1(3) by simp
qed

text \<open>The stored state survives.\<close>

lemma count_sim_read:
  "count_sim d d' \<Longrightarrow> a + n \<le> flash_addr COUNTER2_PAGE \<or> flash_addr STATE2_PAGE \<le> a \<Longrightarrow>
     flash_read (d_flash d') a n = flash_read (d_flash d) a n"
  by (rule flash_read_eqI) (auto simp: count_sim_def counter_cell_def)

lemma count_sim_ok:
  assumes "dev_ok d" "count_sim d d'"
  shows "dev_ok d'"
proof -
  have "flash_addr STATE2_PAGE \<le> flash_addr STATE1_PAGE" by (simp add: page_defs)
  then have "stored_twice (d_st d') (d_flash d')"
    using assms count_sim_read[OF assms(2)] by (simp add: dev_ok_def stored_twice_def count_sim_fields)
  then show ?thesis using assms by (simp add: dev_ok_def count_sim_fields)
qed

lemma count_sim_slots:
  assumes "count_sim d d'"
  shows "ctap_load_rk (d_flash d') i r = ctap_load_rk (d_flash d) i r"
proof (cases "rk_page i < RK_NUM_PAGES")
  case True
  have "flash_addr (rk_page i + RK_START_PAGE) + rk_offset i + RK_SIZE \<le> flash_addr COUNTER2_PAGE"
    using True rk_offset_fits[of i] by (simp add: page_defs)
  then show ?thesis using count_sim_read[OF assms] by (simp add: ctap_load_rk_def)
qed (simp add: ctap_load_rk_def)

lemma dev0_crypto [simp]: "crypto_ok (d_cr dev0)"
  using dev0_ok by (simp add: dev_ok_def)

lemma dev0_counter: "counter_inv dev0" "counter_floor (d_flash dev0) = 256"
proof -
  have "ctr_view (d_flash dev0) [] 0xffffffff"
    by (rule ctr_ok_fresh) (simp add: erased_def dev0_blank page_defs)
  then have "ctr_ok (d_flash dev0)" "counter_floor (d_flash dev0) = 256"
    by (auto simp: ctr_ok_def counter_floor_view floor_of_def)
  moreover have "d_sc dev0 = 0"
    by (simp add: dev0_def ctap_reset_def split_beta Let_def ctap_reset_state_def ctap_reset_key_agreement_def
        ctap_flush_state_def ctap_state_init_def ctap_generate_rng_def power_up_def)
  ultimately show "counter_inv dev0" "counter_floor (d_flash dev0) = 256" by (simp_all add: counter_inv_def)
qed

end
