(* ===== verification/U2fProps.thy ===== *)
theory U2fProps
  imports U2f CountDev
begin

text \<open>
  U2F: which key handles the token accepts, what a registration promises to later authentications, and
  the outcome of every authentication request.
\<close>

subsection \<open>Keys\<close>

text \<open>The private key of a credential, from the device secret and the credential's bytes.\<close>

definition cred_key :: "crypto_lib \<Rightarrow> bytes \<Rightarrow> bytes \<Rightarrow> bytes" where
  "cred_key lib master data = l_cbc_enc lib (drop 32 master) (replicate 16 0) (hmac_sha256 (take 32 master) (data @ take 32 master))"

lemma cr_loose_key: "cr_sim cr cr' \<Longrightarrow> cr_loose cr (cr'\<lparr>c_signing_key := k, c_key_len := n\<rparr>)"
  by (cases cr; cases cr') (simp add: cr_loose_def cr_sim_def crypto_ok_def)

lemma private_key_sim:
  assumes "crypto_ok cr"
  obtains cr' where "generate_private_key lib data [] cr = Some (cred_key lib (c_master cr) data, cr')" "cr_sim cr cr'"
  using private_key_value[OF assms, of lib data "[]"] by (auto simp: cred_key_def cr_sim_def)

lemma dev_load_key_value:
  assumes "crypto_ok (d_cr d)"
  obtains d' where "dev_load_key env data d = Inr d'" "count_sim d d'" "d_flash d' = d_flash d" "d_sc d' = d_sc d"
    "c_signing_key (d_cr d') = cred_key (env_lib env) (c_master (d_cr d)) data"
proof -
  obtain cr' where c: "generate_private_key (env_lib env) data [] (d_cr d)
      = Some (cred_key (env_lib env) (c_master (d_cr d)) data, cr')" "cr_sim (d_cr d) cr'"
    using private_key_sim[OF assms] .
  show ?thesis
    by (rule that[of "d\<lparr>d_cr := cr'\<lparr>c_signing_key := cred_key (env_lib env) (c_master (d_cr d)) data, c_key_len := 32\<rparr>\<rparr>"])
      (use c count_sim_cr[OF count_sim_refl[OF assms] cr_loose_key[OF c(2)]] in
        \<open>simp_all add: dev_load_key_def crypto_ecc256_load_key_def\<close>)
qed

lemma dev_sign_value:
  assumes "crypto_ok (d_cr d)"
  shows "dev_sign env data d = Inl d \<and> l_sign (env_lib env) (c_curve (d_cr d)) (c_signing_key (d_cr d)) data (c_rng (d_cr d)) = None
    \<or> (\<exists>sig d'. dev_sign env data d = Inr (sig, d') \<and> count_sim d d' \<and> d_flash d' = d_flash d \<and> d_sc d' = d_sc d
         \<and> l_sign (env_lib env) (c_curve (d_cr d)) (c_signing_key (d_cr d)) data (c_rng (d_cr d)) = Some sig)"
proof -
  have "cr_loose (d_cr d) ((d_cr d)\<lparr>c_rng := n\<rparr>)" for n
    using assms by (simp add: cr_loose_def cr_sim_def crypto_ok_def)
  then show ?thesis using count_sim_cr[OF count_sim_refl[OF assms]]
    by (auto simp: dev_sign_def crypto_ecc256_sign_def split: option.splits)
qed

lemma derive_value:
  assumes "crypto_ok cr" "\<And>k. length (l_pubkey lib k) = 64"
  obtains x y cr' where "crypto_ecc256_derive_public_key lib data cr = Some ((x, y), cr')" "cr_sim cr cr'"
    "x @ y = l_pubkey lib (cred_key lib (c_master cr) data)" "length x = 32" "length y = 32"
proof -
  obtain cr' where c: "generate_private_key lib data [] cr = Some (cred_key lib (c_master cr) data, cr')" "cr_sim cr cr'"
    using private_key_sim[OF assms(1)] .
  let ?p = "l_pubkey lib (cred_key lib (c_master cr) data)"
  have "block ?p 0 32 @ block ?p 32 32 = ?p"
    using assms(2)[of "cred_key lib (c_master cr) data"] append_take_drop_id[of 32 ?p] by (simp add: block_def)
  then show ?thesis using c assms(2)
    by (intro that[of "block ?p 0 32" "block ?p 32 32" cr']) (simp_all add: crypto_ecc256_derive_public_key_def Let_def)
qed

subsection \<open>Accepted key handles\<close>

definition kh_tag_of :: "bytes \<Rightarrow> bytes \<Rightarrow> bytes \<Rightarrow> bytes" where
  "kh_tag_of master key app = take 16 (hmac_sha256 (take 32 master) (key @ app))"

text \<open>A key handle of 48 bytes carries the tag of its key for the application; one of 70 bytes is a FIDO2
  credential id of this application with its tag.\<close>

definition handle_valid :: "crypto_state \<Rightarrow> bytes \<Rightarrow> nat \<Rightarrow> bytes \<Rightarrow> bool" where
  "handle_valid cr kh len app \<longleftrightarrow>
     len = 48 \<and> block kh 0 16 = kh_tag_of (c_master cr) (block kh 16 32) app
   \<or> len = 70 \<and> ci_rpIdHash (cid_of_image kh) = app
       \<and> ci_tag (cid_of_image kh) = cred_tag (c_transport cr) app (ci_nonce (cid_of_image kh)) (ci_count (cid_of_image kh))"

lemma u2f_tag_value:
  assumes "crypto_ok (d_cr d)" "length app = 32"
  obtains d' where "u2f_make_auth_tag kh app d = Inr (kh_tag_of (c_master (d_cr d)) (kh_key kh) app, d')" "dev_sim d d'"
proof -
  obtain d' where "dev_hmac Master_Key 0 [kh_key kh, app] d = Inr (mac_value (d_cr d) Master_Key 0 (concat [kh_key kh, app]), d')" "dev_sim d d'"
    using dev_hmac_value[OF assms(1), of 0 Master_Key "[kh_key kh, app]"] by blast
  then show ?thesis using assms(2)
    by (intro that[of d']) (simp_all add: u2f_make_auth_tag_def kh_tag_of_def mac_value_simps)
qed

lemma u2f_authenticate_value:
  assumes "crypto_ok (d_cr d)" "length app = 32" "70 \<le> length kh"
  obtains d' where "u2f_authenticate_credential kh len app d = Inr (handle_valid (d_cr d) kh len app, d')" "dev_sim d d'"
proof -
  consider "len = 70" "ci_rpIdHash (cid_of_image kh) = app" | "len = 70" "ci_rpIdHash (cid_of_image kh) \<noteq> app"
    | "len = 48" | "len \<noteq> 70" "len \<noteq> 48" by blast
  then show ?thesis
  proof cases
    case 1
    then have n: "length (ci_nonce (cid_of_image kh)) = 18" using assms(3) by (simp add: cid_of_image_def)
    obtain d' where "make_auth_tag app (ci_nonce (cid_of_image kh)) (ci_count (cid_of_image kh)) d
        = Inr (cred_tag (c_transport (d_cr d)) app (ci_nonce (cid_of_image kh)) (ci_count (cid_of_image kh)), d')" "dev_sim d d'"
      using make_auth_tag_value[OF assms(1,2) n] .
    then show ?thesis using 1 assms(2)
      by (intro that[of d']) (simp_all add: u2f_authenticate_credential_def handle_valid_def Let_def)
  next
    case 2
    then show ?thesis using assms(1,2)
      by (intro that[of d]) (simp_all add: u2f_authenticate_credential_def handle_valid_def Let_def)
  next
    case 3
    obtain d' where "u2f_make_auth_tag (kh_of_image kh) app d = Inr (kh_tag_of (c_master (d_cr d)) (kh_key (kh_of_image kh)) app, d')" "dev_sim d d'"
      using u2f_tag_value[OF assms(1,2)] .
    then show ?thesis using 3
      by (intro that[of d']) (simp_all add: u2f_authenticate_credential_def handle_valid_def kh_of_image_def Let_def)
  next
    case 4
    then show ?thesis using assms(1)
      by (intro that[of d]) (simp_all add: u2f_authenticate_credential_def handle_valid_def)
  qed
qed

subsection \<open>Registration\<close>

text \<open>What the elliptic-curve library documents of its results.\<close>

definition lib_ok :: "crypto_lib \<Rightarrow> bool" where
  "lib_ok lib \<longleftrightarrow> (\<forall>k. length (l_pubkey lib k) = 64) \<and> (\<forall>c k h n s. l_sign lib c k h n = Some s \<longrightarrow> length s = 64)"

lemma lead_zeros_bound: "lead_zeros xs \<le> length xs"
  by (induction xs) auto

lemma der_sig_len:
  assumes "length sig = 64"
  shows "length (snd (ctap_encode_der_sig sig)) = 72"
proof -
  define a b c e where d: "a = lead_zeros (block sig 0 32)" "b = lead_zeros (block sig 32 32)"
    "c = der_pad (sig ! (32 + b))" "e = der_pad (sig ! (0 + a))"
  have l: "a \<le> 32" "b \<le> 32" "c \<le> 1" "e \<le> 1"
    using lead_zeros_bound[of "block sig 0 32"] lead_zeros_bound[of "block sig 32 32"] assms by (simp_all add: d der_pad_def)
  show ?thesis using l assms
    unfolding ctap_encode_der_sig_def Let_def d(1,2)[symmetric] d(3,4)[symmetric] snd_conv
    by simp
qed

definition der_bytes :: "bytes \<Rightarrow> bytes" where
  "der_bytes sig = (case ctap_encode_der_sig sig of (len, sigder) \<Rightarrow> take (nat len) sigder)"

lemma der_bytes_len: "length sig = 64 \<Longrightarrow> length (der_bytes sig) \<le> 72"
  using der_sig_len[of sig] by (simp add: der_bytes_def split_beta)

lemma writeback_fits: "length resp + length b \<le> 4096 \<Longrightarrow> u2f_response_writeback b resp = resp @ b"
  by (simp add: u2f_response_writeback_def CTAP_RESPONSE_BUFFER_SIZE_def)

lemma dump_fits: "length sig = 64 \<Longrightarrow> length resp \<le> 4000 \<Longrightarrow> dump_signature_der sig resp = resp @ der_bytes sig"
  using der_bytes_len[of sig] by (simp add: dump_signature_der_def der_bytes_def split_beta writeback_fits)

lemma new_keypair_value:
  assumes "crypto_ok (d_cr d)" "length app = 32" "lib_ok (env_lib env)"
  obtains kh d' where "u2f_new_keypair env app d = Inr (kh, l_pubkey (env_lib env) (cred_key (env_lib env) (c_master (d_cr d)) (kh_image kh)), d')"
    "count_sim d d'" "length (kh_image kh) = 48" "handle_valid (d_cr d) (kh_image kh) 48 app" "d_flash d' = d_flash d" "d_sc d' = d_sc d"
proof -
  define key where "key = fst (ctap_generate_rng env 32 d)"
  define d1 where "d1 = snd (ctap_generate_rng env 32 d)"
  have r: "ctap_generate_rng env 32 d = (key, d1)" "length key = 32" "count_sim d d1" "d_flash d1 = d_flash d" "d_sc d1 = d_sc d"
    using rng_count_sim[OF assms(1), of env 32] by (simp_all add: key_def d1_def ctap_generate_rng_def Let_def)
  note c1 = count_sim_fields[OF r(3)]
  let ?t = "kh_tag_of (c_master (d_cr d)) key app"
  let ?kh = "\<lparr>kh_tag = ?t, kh_key = key\<rparr>"
  obtain d2 where t: "u2f_make_auth_tag \<lparr>kh_tag = [], kh_key = key\<rparr> app d1 = Inr (?t, d2)" "dev_sim d1 d2"
    using u2f_tag_value[OF c1(9) assms(2), of "\<lparr>kh_tag = [], kh_key = key\<rparr>"] c1(10) by auto
  have m2: "c_master (d_cr d2) = c_master (d_cr d)" "crypto_ok (d_cr d2)" using dev_sim_fields[OF t(2)] c1(10) by simp_all
  have lp: "length (l_pubkey (env_lib env) k) = 64" for k using assms(3) by (simp add: lib_ok_def)
  obtain x y cr' where p: "crypto_ecc256_derive_public_key (env_lib env) (kh_image ?kh) (d_cr d2) = Some ((x, y), cr')"
    "cr_sim (d_cr d2) cr'" "x @ y = l_pubkey (env_lib env) (cred_key (env_lib env) (c_master (d_cr d2)) (kh_image ?kh))"
    using derive_value[OF m2(2) lp, of "kh_image ?kh"] by blast
  note p = p(1,2) p(3)[unfolded m2(1)]
  let ?d' = "d2\<lparr>d_cr := cr'\<rparr>"
  have tl: "length ?t = 16" by (simp add: kh_tag_of_def)
  show ?thesis
  proof (rule that[of ?kh ?d'])
    show "u2f_new_keypair env app d = Inr (?kh, l_pubkey (env_lib env) (cred_key (env_lib env) (c_master (d_cr d)) (kh_image ?kh)), ?d')"
      using r(1) t(1) p(1,3) by (simp add: u2f_new_keypair_def Let_def)
    show "count_sim d ?d'" using count_sim_cr[OF count_sim_trans[OF r(3) dev_sim_count[OF t(2)]] cr_loose_sim[OF p(2)]] .
    show "length (kh_image ?kh) = 48" using tl r(2) by (simp add: kh_image_def)
    show "handle_valid (d_cr d) (kh_image ?kh) 48 app"
      using tl r(2) by (simp add: handle_valid_def kh_image_def block_def)
    show "d_flash ?d' = d_flash d" "d_sc ?d' = d_sc d" using dev_sim_fields[OF t(2)] r(4,5) by simp_all
  qed
qed

text \<open>A registration: it ends in the library, or its response is made of these pieces.\<close>

lemma register_run:
  assumes "crypto_ok (d_cr d)" "length (req_app p) = 32" "lib_ok (env_lib env)"
    and "length (env_cert env) \<le> 1024" "ctap_user_presence_test ps d \<noteq> 0"
  shows "(\<exists>dx c k h n. u2f_register env ps p [] d = Inl dx \<and> l_sign (env_lib env) c k h n = None)
    \<or> (\<exists>kh sig d'. u2f_register env ps p [] d = Inr (U2F_SW_NO_ERROR, [0x5, 0x04] @ l_pubkey (env_lib env)
          (cred_key (env_lib env) (c_master (d_cr d)) kh) @ [48] @ kh @ env_cert env @ der_bytes sig, d')
        \<and> length kh = 48 \<and> handle_valid (d_cr d) kh 48 (req_app p) \<and> count_sim d d')"
proof -
  obtain kh d1 where k: "u2f_new_keypair env (req_app p) d
      = Inr (kh, l_pubkey (env_lib env) (cred_key (env_lib env) (c_master (d_cr d)) (kh_image kh)), d1)"
    "count_sim d d1" "length (kh_image kh) = 48" "handle_valid (d_cr d) (kh_image kh) 48 (req_app p)"
    using new_keypair_value[OF assms(1-3)] .
  let ?pub = "l_pubkey (env_lib env) (cred_key (env_lib env) (c_master (d_cr d)) (kh_image kh))"
  have pl: "length ?pub = 64" using assms(3) by (simp add: lib_ok_def)
  obtain h d2 where s: "dev_sha [[0x0], req_app p, req_chal p, kh_image kh, [0x04], ?pub] d1 = (h, d2)" "dev_sim d1 d2"
    using dev_sha_value[OF count_sim_fields(9)[OF k(2)]] by metis
  define d3 where "d3 = d2\<lparr>d_cr := crypto_ecc256_load_attestation_key (env_att_key env) (d_cr d2)\<rparr>"
  have "cr_loose (d_cr d2) (crypto_ecc256_load_attestation_key (env_att_key env) (d_cr d2))"
    using dev_sim_crypto[OF s(2)] cr_loose_key[OF cr_sim_refl] by (simp add: crypto_ecc256_load_attestation_key_def)
  then have c3: "count_sim d d3"
    using count_sim_cr[OF count_sim_trans[OF k(2) dev_sim_count[OF s(2)]]] by (simp add: d3_def)
  have u: "u2f_register env ps p [] d = seqE (dev_sign env h d3) (\<lambda>(sig, d).
      Inr (U2F_SW_NO_ERROR, dump_signature_der sig ([0x5, 0x04] @ ?pub @ [48] @ kh_image kh @ env_cert env), d))"
    using assms(4,5) k(1,3) s(1) pl by (simp add: u2f_register_def Let_def d3_def[symmetric] writeback_fits)
  from dev_sign_value[OF count_sim_fields(9)[OF c3], of env h] show ?thesis
  proof (elim disjE exE conjE)
    fix sig d4 assume g: "dev_sign env h d3 = Inr (sig, d4)" "count_sim d3 d4"
      "l_sign (env_lib env) (c_curve (d_cr d3)) (c_signing_key (d_cr d3)) h (c_rng (d_cr d3)) = Some sig"
    have "length sig = 64" using g(3) assms(3) by (auto simp: lib_ok_def)
    then have "u2f_register env ps p [] d = Inr (U2F_SW_NO_ERROR, [0x5, 0x04] @ ?pub @ [48] @ kh_image kh @ env_cert env @ der_bytes sig, d4)"
      using u g(1) k(3) pl assms(4) by (simp add: dump_fits)
    then show ?thesis using k(3,4) count_sim_trans[OF c3 g(2)] by blast
  qed (use u in auto)
qed

lemma register_value:
  assumes "crypto_ok (d_cr d)" "length (req_app p) = 32" "lib_ok (env_lib env)"
    and "u2f_register env ps p [] d = Inr (U2F_SW_NO_ERROR, resp, d')"
  obtains kh sig where "resp = [0x5, 0x04] @ l_pubkey (env_lib env) (cred_key (env_lib env) (c_master (d_cr d)) kh)
      @ [48] @ kh @ env_cert env @ der_bytes sig" "length kh = 48" "handle_valid (d_cr d) kh 48 (req_app p)" "count_sim d d'"
proof -
  have c: "length (env_cert env) \<le> 1024" "ctap_user_presence_test ps d \<noteq> 0"
    using assms(4) by (auto simp: u2f_register_def sw_codes Let_def split: if_splits)
  show ?thesis using register_run[OF assms(1-3) c] assms(4) that by auto
qed

subsection \<open>Authentication\<close>

definition u2f_signed :: "environ \<Rightarrow> bytes \<Rightarrow> bytes \<Rightarrow> u8 \<Rightarrow> bytes \<Rightarrow> u32 \<Rightarrow> bytes \<Rightarrow> ecc_curve \<Rightarrow> bool" where
  "u2f_signed env key p up r w sig curve \<longleftrightarrow>
     r = [up] @ u32_be_bytes w @ der_bytes sig
     \<and> (\<exists>n. l_sign (env_lib env) curve key (sha256 (req_app p @ [up] @ u32_be_bytes w @ req_chal p)) n = Some sig)"

lemma u2f_sign_value:
  assumes "env_ok env" "lib_ok (env_lib env)" "crypto_ok (d_cr d)" "counter_inv d" "counter_floor (d_flash d) < 2 ^ 31"
    and "\<And>h n. l_sign (env_lib env) (c_curve (d_cr d)) (c_signing_key (d_cr d)) h n \<noteq> None"
  obtains w sig r d' where "u2f_sign env up p [] d = Inr (U2F_SW_NO_ERROR, r, d')" "count_sim d d'" "counter_inv d'"
    "u2f_signed env (c_signing_key (d_cr d)) p up r w sig (c_curve (d_cr d))"
    "counter_floor (d_flash d) < unat w" "counter_floor (d_flash d') = unat w"
proof -
  obtain w d1 where c: "dev_atomic_count env 0 d = Inr (w, d1)" "count_sim d d1" "counter_inv d1"
    "counter_floor (d_flash d) < unat w" "counter_floor (d_flash d1) = unat w" "c_signing_key (d_cr d1) = c_signing_key (d_cr d)"
    using dev_count_value[OF assms(1,4,3,5) word_zero_le] by blast
  let ?m = "req_app p @ [up] @ u32_be_bytes w @ req_chal p"
  obtain d2 where s: "dev_sha [req_app p, [up], u32_be_bytes w, req_chal p] d1 = (sha256 ?m, d2)" "dev_sim d1 d2"
    using dev_sha_value[OF count_sim_fields(9)[OF c(2)], of "[req_app p, [up], u32_be_bytes w, req_chal p]"] by auto
  have k2: "c_signing_key (d_cr d2) = c_signing_key (d_cr d)" "c_curve (d_cr d2) = c_curve (d_cr d)"
    using s(2) c(6) count_sim_fields(12)[OF c(2)] cr_sim_fields[of "d_cr d1" "d_cr d2"] by (simp_all add: dev_sim_def)
  obtain sig d3 where g: "dev_sign env (sha256 ?m) d2 = Inr (sig, d3)" "count_sim d2 d3" "d_flash d3 = d_flash d2" "d_sc d3 = d_sc d2"
    "l_sign (env_lib env) (c_curve (d_cr d)) (c_signing_key (d_cr d)) (sha256 ?m) (c_rng (d_cr d2)) = Some sig"
    using dev_sign_value[OF dev_sim_crypto[OF s(2)], of env "sha256 ?m"] assms(6) k2 by auto
  have l: "length sig = 64" using g(5) assms(2) by (auto simp: lib_ok_def)
  have f: "d_flash d3 = d_flash d1" "d_sc d3 = d_sc d1" using g(3,4) dev_sim_fields[OF s(2)] by simp_all
  show ?thesis
  proof (rule that[of "[up] @ u32_be_bytes w @ der_bytes sig" d3 w sig])
    show "u2f_sign env up p [] d = Inr (U2F_SW_NO_ERROR, [up] @ u32_be_bytes w @ der_bytes sig, d3)"
      using c(1) s(1) g(1) l by (simp add: u2f_sign_def writeback_fits dump_fits u32_be_bytes_def)
    show "count_sim d d3" using count_sim_trans[OF count_sim_trans[OF c(2) dev_sim_count[OF s(2)]] g(2)] .
    show "u2f_signed env (c_signing_key (d_cr d)) p up ([up] @ u32_be_bytes w @ der_bytes sig) w sig (c_curve (d_cr d))"
      using g(5) unfolding u2f_signed_def by blast
  qed (use c(3-5) f in \<open>simp_all add: counter_inv_def\<close>)
qed

text \<open>The outcome of an authentication request.\<close>

lemma u2f_authenticate_cases:
  assumes "env_ok env" "lib_ok (env_lib env)" "crypto_ok (d_cr d)" "counter_inv d" "counter_floor (d_flash d) < 2 ^ 31"
    and "135 \<le> length p" "\<And>c k h n. l_sign (env_lib env) c k h n \<noteq> None"
    and "ok = handle_valid (d_cr d) (req_kh p) (unat (req_khl p)) (req_app p)"
    and "key = cred_key (env_lib env) (c_master (d_cr d)) (take (unat (req_khl p)) (req_kh p))"
    and "up = (if control = U2F_AUTHENTICATE_SIGN_NO_USER then 0 else 1)"
  shows "\<exists>sw r d'. u2f_authenticate env ps p control [] d = Inr (sw, r, d') \<and> count_sim d d' \<and> counter_inv d' \<and>
     (if control = U2F_AUTHENTICATE_CHECK then sw = (if ok then U2F_SW_CONDITIONS_NOT_SATISFIED else U2F_SW_WRONG_DATA) \<and> r = [] \<and> d_flash d' = d_flash d
      else if control \<notin> {U2F_AUTHENTICATE_SIGN, U2F_AUTHENTICATE_SIGN_NO_USER} \<or> \<not> ok
      then sw = U2F_SW_WRONG_DATA \<and> r = [] \<and> d_flash d' = d_flash d
      else if control = U2F_AUTHENTICATE_SIGN \<and> ctap_user_presence_test ps d = 0
      then sw = U2F_SW_CONDITIONS_NOT_SATISFIED \<and> r = [] \<and> d_flash d' = d_flash d
      else sw = U2F_SW_NO_ERROR \<and> (\<exists>w sig. u2f_signed env key p up r w sig (c_curve (d_cr d))
             \<and> counter_floor (d_flash d) < unat w \<and> counter_floor (d_flash d') = unat w))"
proof -
  have a: "length (req_app p) = 32" "70 \<le> length (req_kh p)" using assms(6) by (simp_all add: req_app_def req_kh_def)
  obtain d1 where v: "u2f_authenticate_credential (req_kh p) (unat (req_khl p)) (req_app p) d = Inr (ok, d1)" "dev_sim d d1"
    using u2f_authenticate_value[OF assms(3) a] assms(8) by auto
  note f1 = dev_sim_fields[OF v(2)] dev_sim_count[OF v(2)]
  obtain d2 where k: "dev_load_key env (take (unat (req_khl p)) (req_kh p)) d1 = Inr d2" "count_sim d1 d2" "d_flash d2 = d_flash d1"
    "d_sc d2 = d_sc d1" "c_signing_key (d_cr d2) = key"
    using dev_load_key_value[OF dev_sim_crypto[OF v(2)]] assms(9) f1(8) by metis
  have c2: "count_sim d d2" using count_sim_trans[OF f1(15) k(2)] .
  note f2 = count_sim_fields[OF c2]
  have i: "counter_inv d1" "counter_inv d2" "counter_floor (d_flash d2) < 2 ^ 31"
    using assms(4,5) f1 k(3,4) by (simp_all add: counter_inv_def)
  obtain w sig r d3 where s0: "u2f_sign env up p [] d2 = Inr (U2F_SW_NO_ERROR, r, d3)" "count_sim d2 d3" "counter_inv d3"
    "u2f_signed env (c_signing_key (d_cr d2)) p up r w sig (c_curve (d_cr d2))" "counter_floor (d_flash d2) < unat w"
    "counter_floor (d_flash d3) = unat w"
    by (rule u2f_sign_value[OF assms(1,2) f2(9) i(2,3) assms(7), of up p])
  note s = s0(1-3) s0(4)[unfolded k(5) f2(12)] s0(5)[unfolded k(3) f1(2)] s0(6)
  have t: "ctap_user_presence_test ps d2 = ctap_user_presence_test ps d"
    using f2(8) by (simp add: ctap_user_presence_test_def)
  have c3: "count_sim d d3" using count_sim_trans[OF c2 s(2)] .
  show ?thesis
    using v(1) k(1,3) s(1,3-6) c2 c3 t i(1,2) f1(2,15) assms(4,10) count_sim_refl[OF assms(3)]
    by (auto simp: u2f_authenticate_def u2f_load_key_def U2F_AUTHENTICATE_SIGN_def U2F_AUTHENTICATE_SIGN_NO_USER_def
        U2F_AUTHENTICATE_CHECK_def Let_def split: if_splits)
qed

text \<open>C24 (functional). Every U2F authentication request, in full: a check only says whether the key handle is one of this
  token's for the application; a wrong handle or control byte and a missing touch change neither the
  counter nor the response; otherwise the response is the presence byte, a counter above every earlier
  one, and the DER signature by the handle's own key over application, presence byte, counter and
  challenge.\<close>

theorem u2f_authenticate_outcome:
  assumes "env_ok env" "lib_ok (env_lib env)" "crypto_ok (d_cr d)" "counter_inv d" "counter_floor (d_flash d) < 2 ^ 31"
    and "135 \<le> length p" "\<And>c k h n. l_sign (env_lib env) c k h n \<noteq> None"
    and "ok = handle_valid (d_cr d) (req_kh p) (unat (req_khl p)) (req_app p)"
    and "key = cred_key (env_lib env) (c_master (d_cr d)) (take (unat (req_khl p)) (req_kh p))"
    and "up = (if control = U2F_AUTHENTICATE_SIGN_NO_USER then 0 else 1)"
  shows "\<exists>sw r d'. u2f_authenticate env ps p control [] d = Inr (sw, r, d') \<and> count_sim d d' \<and> counter_inv d' \<and>
     (if control = U2F_AUTHENTICATE_CHECK then sw = (if ok then U2F_SW_CONDITIONS_NOT_SATISFIED else U2F_SW_WRONG_DATA) \<and> r = [] \<and> d_flash d' = d_flash d
      else if control \<notin> {U2F_AUTHENTICATE_SIGN, U2F_AUTHENTICATE_SIGN_NO_USER} \<or> \<not> ok
      then sw = U2F_SW_WRONG_DATA \<and> r = [] \<and> d_flash d' = d_flash d
      else if control = U2F_AUTHENTICATE_SIGN \<and> ctap_user_presence_test ps d = 0
      then sw = U2F_SW_CONDITIONS_NOT_SATISFIED \<and> r = [] \<and> d_flash d' = d_flash d
      else sw = U2F_SW_NO_ERROR \<and> (\<exists>w sig. u2f_signed env key p up r w sig (c_curve (d_cr d))
             \<and> counter_floor (d_flash d) < unat w \<and> counter_floor (d_flash d') = unat w))"
  by (rule u2f_authenticate_cases[OF assms])

subsection \<open>Registration, then authentication\<close>

lemma handle_valid_prefix:
  assumes "take 48 a = take 48 b"
  shows "handle_valid cr a 48 app = handle_valid cr b 48 app"
proof -
  have "block a 0 16 = block b 0 16" "block a 16 32 = block b 16 32"
    using arg_cong[OF assms, of "take 16"] arg_cong[OF assms, of "drop 16"] by (simp_all add: block_def take_drop)
  then show ?thesis by (simp add: handle_valid_def)
qed

text \<open>C25 (roundtrip). The key handle a registration returns is accepted for the same application by every later
  authentication on a device with the same master secret, whose signing key is the private half of the
  public key returned; for another application it is accepted only where the two MACs agree.\<close>

theorem u2f_register_then_authenticate:
  assumes "crypto_ok (d_cr d)" "lib_ok (env_lib env)" "64 \<le> length p"
    and "u2f_register env ps p [] d = Inr (U2F_SW_NO_ERROR, resp, d')"
    and "crypto_ok (d_cr d2)" "c_master (d_cr d2) = c_master (d_cr d)"
    and "135 \<le> length p2" "req_khl p2 = 48" "take 48 (req_kh p2) = block resp 67 48"
  shows "(\<exists>d3. u2f_authenticate env ps2 p2 U2F_AUTHENTICATE_CHECK [] d2 =
        Inr (if req_app p2 = req_app p \<or> kh_tag_of (c_master (d_cr d)) (block resp 83 32) (req_app p2) = block resp 67 16
             then U2F_SW_CONDITIONS_NOT_SATISFIED else U2F_SW_WRONG_DATA, [], d3))
    \<and> l_pubkey (env_lib env) (cred_key (env_lib env) (c_master (d_cr d2)) (take 48 (req_kh p2))) = block resp 2 64"
proof -
  have a: "length (req_app p) = 32" "length (req_app p2) = 32" "70 \<le> length (req_kh p2)"
    using assms(3,7) by (simp_all add: req_app_def req_kh_def)
  obtain kh sig where r: "resp = [0x5, 0x04] @ l_pubkey (env_lib env) (cred_key (env_lib env) (c_master (d_cr d)) kh)
      @ [48] @ kh @ env_cert env @ der_bytes sig" "length kh = 48" "handle_valid (d_cr d) kh 48 (req_app p)"
    using register_value[OF assms(1) a(1) assms(2,4)] .
  have pl: "length (l_pubkey (env_lib env) k) = 64" for k using assms(2) by (simp add: lib_ok_def)
  have b: "block resp 67 48 = kh" "block resp 2 64 = l_pubkey (env_lib env) (cred_key (env_lib env) (c_master (d_cr d)) kh)"
    "block resp 83 32 = block kh 16 32" "block resp 67 16 = block kh 0 16"
    using r(2) pl by (simp_all add: r(1) block_def)
  have k: "take 48 (req_kh p2) = take 48 kh" using assms(9) b(1) r(2) by simp
  have v: "handle_valid (d_cr d2) (req_kh p2) 48 (req_app p2)
      \<longleftrightarrow> req_app p2 = req_app p \<or> kh_tag_of (c_master (d_cr d)) (block resp 83 32) (req_app p2) = block resp 67 16"
    using handle_valid_prefix[OF k] r(3) assms(6) b(3,4) by (auto simp: handle_valid_def)
  obtain d3 where "u2f_authenticate_credential (req_kh p2) 48 (req_app p2) d2 = Inr (handle_valid (d_cr d2) (req_kh p2) 48 (req_app p2), d3)"
    using u2f_authenticate_value[OF assms(5) a(2,3)] by blast
  then show ?thesis using v b(2) k r(2) assms(6,8)
    by (auto simp: u2f_authenticate_def U2F_AUTHENTICATE_CHECK_def)
qed

definition touch :: presence where "touch = \<lparr>ps_nfc = False, ps_first10 = False, ps_wait = 1\<rparr>"

lemma env0_lib [simp]: "lib_ok (env_lib env0)" "env_lib env0 = toy_lib" "length (env_cert env0) = 500"
  by (auto simp: lib_ok_def env0_def toy_lib_def min_def)

lemma toy_sign: "l_sign toy_lib c k h n \<noteq> None"
  by (simp add: toy_lib_def)

lemma touch_test: "ctap_user_presence_test touch d \<noteq> 0"
  by (simp add: ctap_user_presence_test_def touch_def)

lemma u2f_register_then_authenticate_witness:
  "\<exists>resp d' d3. u2f_register env0 touch (replicate 64 5) [] dev0 = Inr (U2F_SW_NO_ERROR, resp, d') \<and>
     u2f_authenticate env0 touch (replicate 64 5 @ [48] @ block resp 67 48 @ replicate 30 0) U2F_AUTHENTICATE_CHECK [] dev0
       = Inr (U2F_SW_CONDITIONS_NOT_SATISFIED, [], d3)"
proof -
  have a: "req_app (replicate 64 5) = replicate 32 5" by (simp add: req_app_def block_def)
  have c: "length (req_app (replicate 64 (5 :: u8))) = 32" "length (env_cert env0) \<le> 1024" by (simp_all add: a env0_lib(3))
  have n: "l_sign (env_lib env0) c k h n \<noteq> None" for c k h n using toy_sign by simp
  obtain kh sig d' where r0: "u2f_register env0 touch (replicate 64 5) [] dev0 = Inr (U2F_SW_NO_ERROR,
      [0x5, 0x04] @ l_pubkey (env_lib env0) (cred_key (env_lib env0) (c_master (d_cr dev0)) kh) @ [48] @ kh @ env_cert env0 @ der_bytes sig, d')"
    "length kh = 48"
    using register_run[OF dev0_crypto c(1) env0_lib(1) c(2) touch_test] n by blast
  note r = r0[unfolded env0_lib(2)]
  let ?resp = "[0x5, 0x04] @ l_pubkey toy_lib (cred_key toy_lib (c_master (d_cr dev0)) kh) @ [48] @ kh @ env_cert env0 @ der_bytes sig"
  have l: "length (l_pubkey toy_lib k) = 64" for k using env0_lib by (simp add: lib_ok_def)
  have b: "block ?resp 67 48 = kh" using l r(2) by (simp add: block_def)
  let ?p2 = "replicate 64 5 @ [48] @ block ?resp 67 48 @ replicate 30 (0 :: u8)"
  have q: "135 \<le> length ?p2" "req_khl ?p2 = 48" "take 48 (req_kh ?p2) = block ?resp 67 48" "req_app ?p2 = replicate 32 5"
    using b r(2) by (simp_all add: req_khl_def req_kh_def req_app_def block_def nth_append)
  show ?thesis
    using u2f_register_then_authenticate[OF dev0_crypto env0_lib(1) _ r(1) dev0_crypto refl q(1-3), of touch] r(1) a q(4) by auto
qed

text \<open>A request with a valid handle for the examples.\<close>

definition auth_req :: bytes where
  "auth_req = (let key = replicate 32 3; app = replicate 32 5 in
     replicate 32 7 @ app @ [48] @ kh_tag_of (c_master (d_cr dev0)) key app @ key @ replicate 30 0)"

lemma auth_req_props:
  "135 \<le> length auth_req" "handle_valid (d_cr dev0) (req_kh auth_req) (unat (req_khl auth_req)) (req_app auth_req)"
proof -
  have l: "length (kh_tag_of m k a) = 16" for m k a by (simp add: kh_tag_of_def)
  show "135 \<le> length auth_req" "handle_valid (d_cr dev0) (req_kh auth_req) (unat (req_khl auth_req)) (req_app auth_req)"
    using l by (simp_all add: auth_req_def Let_def handle_valid_def req_kh_def req_khl_def req_app_def block_def nth_append)
qed

lemma u2f_authenticate_outcome_witness:
  "\<exists>r d' key w sig. u2f_authenticate env0 touch auth_req U2F_AUTHENTICATE_SIGN [] dev0 = Inr (U2F_SW_NO_ERROR, r, d')
     \<and> u2f_signed env0 key auth_req 1 r w sig (c_curve (d_cr dev0)) \<and> 256 < unat w"
proof -
  have f: "counter_floor (d_flash dev0) < 2 ^ 31" by (simp add: dev0_counter)
  have s: "l_sign (env_lib env0) c k h n \<noteq> None" for c k h n using toy_sign by simp
  show ?thesis
    using u2f_authenticate_outcome[OF env0_ok env0_lib(1) dev0_crypto dev0_counter(1) f auth_req_props(1) s refl refl refl,
        of touch U2F_AUTHENTICATE_SIGN] auth_req_props(2) touch_test
    by (auto simp: dev0_counter U2F_AUTHENTICATE_SIGN_def U2F_AUTHENTICATE_CHECK_def U2F_AUTHENTICATE_SIGN_NO_USER_def)
qed

subsection \<open>What the code does not mean to do\<close>

text \<open>A cancelled wait (-1) counts as a touch: the request is signed with the presence byte set.\<close>

lemma u2f_cancel_signs:
  assumes "env_ok env" "lib_ok (env_lib env)" "crypto_ok (d_cr d)" "counter_inv d" "counter_floor (d_flash d) < 2 ^ 31"
    and "135 \<le> length p" "\<And>c k h n. l_sign (env_lib env) c k h n \<noteq> None"
    and "handle_valid (d_cr d) (req_kh p) (unat (req_khl p)) (req_app p)"
    and "\<not> ps_nfc ps" "\<not> d_up_off d" "ps_wait ps = -1"
  shows "\<exists>r d' key w sig. u2f_authenticate env ps p U2F_AUTHENTICATE_SIGN [] d = Inr (U2F_SW_NO_ERROR, r, d')
     \<and> u2f_signed env key p 1 r w sig (c_curve (d_cr d))"
proof -
  have "ctap_user_presence_test ps d \<noteq> 0" using assms(9-11) by (simp add: ctap_user_presence_test_def)
  then show ?thesis
    using u2f_authenticate_cases[OF assms(1-7) refl refl refl, of ps U2F_AUTHENTICATE_SIGN] assms(8)
    by (auto simp: U2F_AUTHENTICATE_SIGN_def U2F_AUTHENTICATE_CHECK_def U2F_AUTHENTICATE_SIGN_NO_USER_def)
qed

text \<open>The version request answers 69 bytes of uninitialised stack after the three version bytes.\<close>

lemma u2f_version_leaks_stack:
  assumes "keyh ! 0 = WalletVersion" "env_version env = (a, b, c)" "72 \<le> length (env_stack env)"
  shows "bridge_u2f_to_extensions env ps keyh [] d = Inr (U2F_SW_NO_ERROR,
      [1] @ u32_be_bytes 10 @ [0] @ [a, b, c] @ block (env_stack env) 3 69, d)"
  using assms by (simp add: bridge_u2f_to_extensions_def extension_needs_atomic_count_def WalletVersion_def WalletRegister_def
      WalletSign_def bridge_u2f_to_solo_def writeback_fits blit_def block_def u32_be_bytes_def drop_take numeral_3_eq_3)

end
