(* ===== verification/MakeCred.thy ===== *)
theory MakeCred
  imports U2f CtapParse
begin

text \<open>
  authenticatorMakeCredential of \<^verbatim>\<open>fido2/ctap.c\<close>: extensions, authenticator data, resident keys,
  signature and attestation statement, and the command. A command answers a code (\<open>Inl\<close>) or the calls
  it made on the response encoder (\<open>Inr\<close>).
\<close>

type_synonym reply = "(int + enc list) \<times> ctap_dev"

subsection \<open>Extensions\<close>

text \<open>The 70 bytes at \<open>hmac_secret.credential\<close>: an entry of the assertion state, or address 0.\<close>

definition hs_cred_bytes :: "environ \<Rightarrow> hmac_secret \<Rightarrow> ctap_dev \<Rightarrow> bytes" where
  "hs_cred_bytes env hs d =
     (case hs_credential hs of None \<Rightarrow> take 70 (env_null env)
      | Some i \<Rightarrow> cid_image (cr_id (cd_credential (gs_creds (d_ga d) ! i))))"

definition aes_dec :: "environ \<Rightarrow> bytes \<Rightarrow> bytes \<Rightarrow> ctap_dev \<Rightarrow> bytes \<times> ctap_dev" where
  "aes_dec env key buf d =
     (let (p, cr) = crypto_aes256_decrypt (env_lib env) buf (crypto_aes256_init (Key_Ptr key) None (d_cr d))
      in (p, d\<lparr>d_cr := cr\<rparr>))"

definition aes_enc :: "environ \<Rightarrow> bytes \<Rightarrow> bytes \<Rightarrow> ctap_dev \<Rightarrow> bytes \<times> ctap_dev" where
  "aes_enc env key buf d =
     (let (c, cr) = crypto_aes256_encrypt (env_lib env) buf (crypto_aes256_init (Key_Ptr key) None (d_cr d))
      in (c, d\<lparr>d_cr := cr\<rparr>))"

definition CTAP2_ERR_EXTENSION_FIRST :: int where "CTAP2_ERR_EXTENSION_FIRST = 0xE0"

definition hmac_secret_output :: "environ \<Rightarrow> hmac_secret \<Rightarrow> ctap_dev \<Rightarrow> ctap_dev + ((int + bytes) \<times> ctap_dev)" where
  "hmac_secret_output env hs d =
     (let n = unat (hs_saltLen hs);
          pubkey = ck_x (hs_keyAgreement hs) @ ck_y (hs_keyAgreement hs) in
      seqE (halt d (crypto_ecc256_shared_secret (env_lib env) pubkey (d_ka_priv d))) (\<lambda>z.
      let (shared_secret, d) = dev_sha [take 32 z] d in
      seqE (dev_hmac (Key_Ptr shared_secret) 32 [take n (hs_saltEnc hs)] d) (\<lambda>(hmac, d).
      if take 16 (hs_saltAuth hs) \<noteq> take 16 hmac then Inr (Inl CTAP2_ERR_EXTENSION_FIRST, d)
      else
        seqE (dev_hmac Transport_Key2 0 [hs_cred_bytes env hs d, [gs_user_verified (d_ga d)]] d) (\<lambda>(credRandom, d).
        let (salts, d) = aes_dec env shared_secret (take n (hs_saltEnc hs)) d;
            saltEnc = blit (hs_saltEnc hs) 0 salts in
        seqE (dev_hmac (Key_Ptr credRandom) 32 [take 32 saltEnc] d) (\<lambda>(o1, d).
        seqE (if n = 64 then dev_hmac (Key_Ptr credRandom) 32 [block saltEnc 32 32] d else Inr ([], d)) (\<lambda>(o2, d).
        let (output, d) = aes_enc env shared_secret (take n (o1 @ o2)) d
        in Inr (Inr output, d)))))))"

text \<open>The pairs of the extension map: the output, the protection level, a plain request's \<open>true\<close>.\<close>

definition extension_calls :: "bytes option \<Rightarrow> u32 option \<Rightarrow> bool \<Rightarrow> enc list" where
  "extension_calls out protect requested =
     (case out of None \<Rightarrow> [] | Some b \<Rightarrow> [EText ''hmac-secret'', EBytes b])
     @ (case protect of None \<Rightarrow> [] | Some p \<Rightarrow> [EText ''credProtect'', EInt (uint p)])
     @ (if requested then [EText ''hmac-secret'', EBool True] else [])"

definition extensions_used :: "bytes option \<Rightarrow> u32 option \<Rightarrow> bool \<Rightarrow> nat" where
  "extensions_used out protect requested =
     (if out \<noteq> None then 1 else 0) + (if protect \<noteq> None then 1 else 0) + (if requested then 1 else 0)"

definition ctap_make_extensions ::
    "environ \<Rightarrow> ctap_extensions \<Rightarrow> nat \<Rightarrow> ctap_dev \<Rightarrow> ctap_dev + ((int + bytes) \<times> ctap_dev)" where
  "ctap_make_extensions env ext buf_size d =
     seqE (if ex_hmac_present ext = 2 then hmac_secret_output env (ex_hmac ext) d else Inr (Inr [], d)) (\<lambda>(r, d).
     case r of Inl e \<Rightarrow> Inr (Inl e, d)
     | Inr output \<Rightarrow>
         let out = (if ex_hmac_present ext = 2 then Some output else None);
             requested = (ex_hmac_present ext = 1);
             protect = (if ex_cred_protect ext \<in> {1, 2, 3} then Some (ex_cred_protect ext) else None);
             used = extensions_used out protect requested in
         if used > 0 then
           case emits (env_enc_err env buf_size) (EMap used # extension_calls out protect requested @ [EClose]) [] of
             Inl e \<Rightarrow> Inr (Inl e, d)
           | Inr tr \<Rightarrow> Inr (Inr (env_enc env tr), d)
         else Inr (Inr [], d))"

subsection \<open>Resident keys\<close>

definition rk_zero :: resident_key where
  "rk_zero = \<lparr>rk_id = cid_zero, rk_user = user_zero, rk_rpId = zeros 48, rk_rpIdSize = 0\<rparr>"

text \<open>The relying party's id is cropped.\<close>

definition rk_of_request :: "rp_id \<Rightarrow> user_entity \<Rightarrow> credential_id \<Rightarrow> resident_key" where
  "rk_of_request rp user c =
     (let rp_id_size = (if rp_size rp < 48 then rp_size rp else 48) in
      rk_zero\<lparr>rk_id := c, rk_user := user, rk_rpId := blit (zeros 48) 0 (take rp_id_size (rp_id rp)),
        rk_rpIdSize := of_nat rp_id_size\<rparr>)"

text \<open>The first of the given ordinals whose key has the same relying party and user.\<close>

fun match_rk :: "flash \<Rightarrow> resident_key \<Rightarrow> resident_key \<Rightarrow> nat list \<Rightarrow> int option" where
  "match_rk f rk rk2 [] = None"
| "match_rk f rk rk2 (i # is) =
     (case load_nth_valid_rk f i rk2 of (raw_i, rk2) \<Rightarrow>
      if is_matching_rk rk rk2 then Some raw_i else match_rk f rk rk2 is)"

fun free_rk :: "flash \<Rightarrow> resident_key \<Rightarrow> nat list \<Rightarrow> nat option" where
  "free_rk f rk2 [] = None"
| "free_rk f rk2 (i # is) =
     (let rk2 = ctap_load_rk f i rk2 in if \<not> ctap_rk_is_valid rk2 then Some i else free_rk f rk2 is)"

definition CTAP2_ERR_KEY_STORE_FULL :: int where "CTAP2_ERR_KEY_STORE_FULL = 0x28"

definition store_resident :: "environ \<Rightarrow> resident_key \<Rightarrow> ctap_dev \<Rightarrow> int \<times> ctap_dev" where
  "store_resident env rk d =
     (case match_rk (d_flash d) rk rk_zero [0..<unat (as_rk_stored (d_st d))] of
        Some raw_i \<Rightarrow> (0, d\<lparr>d_flash := ctap_overwrite_rk (env_prog env) (nat (raw_i mod 2 ^ 32)) rk (d_flash d)\<rparr>)
      | None \<Rightarrow>
          case free_rk (d_flash d) rk_zero [0..<ctap_rk_size] of
            Some i \<Rightarrow>
              let d = ctap_increment_rk_store env d
              in (0, d\<lparr>d_flash := ctap_store_rk (env_prog env) i rk (d_flash d)\<rparr>)
          | None \<Rightarrow> (CTAP2_ERR_KEY_STORE_FULL, d))"

subsection \<open>Authenticator data\<close>

definition head_image :: "auth_header \<Rightarrow> bytes" where
  "head_image h = ah_rpIdHash h @ [ah_flags h] @ ah_signCount h"

text \<open>The attested part: the id, the resident key, the public key in CBOR (in a buffer of 185 bytes, which
  always suffices: the code does not look at the encoder's result).\<close>

definition make_credential_id ::
    "environ \<Rightarrow> auth_header \<Rightarrow> u32 \<Rightarrow> u32 \<Rightarrow> ctap_dev \<Rightarrow> ctap_dev + (credential_id \<times> ctap_dev)" where
  "make_credential_id env head count cred_protect d =
     (let (nonce, d) = ctap_generate_rng env 18 d;
          c = cid_zero\<lparr>ci_nonce := nonce\<rparr> in
      seqE (add_masked_metadata_for_credential c cred_protect d) (\<lambda>(c, d).
      let c = c\<lparr>ci_count := count, ci_rpIdHash := ah_rpIdHash head\<rparr> in
      seqE (make_auth_tag (ah_rpIdHash head) (ci_nonce c) count d) (\<lambda>(tag, d).
      Inr (c\<lparr>ci_tag := tag\<rparr>, d))))"

definition attested_data ::
    "environ \<Rightarrow> rp_id \<Rightarrow> nat \<Rightarrow> auth_header \<Rightarrow> u32 \<Rightarrow> cred_info \<Rightarrow> u32 \<Rightarrow> ctap_dev
     \<Rightarrow> ctap_dev + (int \<times> credential_id \<times> bytes \<times> ctap_dev)" where
  "attested_data env rp len head count ci cred_protect d =
     seqE (make_credential_id env head count cred_protect d) (\<lambda>(c, d).
     let (r, d) = (if in_rk ci \<noteq> 0 then store_resident env (rk_of_request rp (in_user ci) c) d else (0, d)) in
     if r \<noteq> 0 then Inr (r, c, [], d)
     else
       seqE (halt d (ctap_generate_cose_key (env_lib env) (env_enc_err env (len - 125)) (cid_image c) (uint (in_type ci)) (in_alg ci) [] (d_cr d)))
         (\<lambda>(k, cr). Inr (0, c, (case k of Inl _ \<Rightarrow> [] | Inr tr \<Rightarrow> env_enc env tr), d\<lparr>d_cr := cr\<rparr>)))"

definition ctap_make_auth_data ::
    "environ \<Rightarrow> presence \<Rightarrow> rp_id \<Rightarrow> nat \<Rightarrow> auth_header \<Rightarrow> cred_info option \<Rightarrow> u32 \<Rightarrow> ctap_dev
     \<Rightarrow> ctap_dev + (int \<times> auth_header \<times> (credential_id \<times> bytes) option \<times> ctap_dev)" where
  "ctap_make_auth_data env ps rp len head credInfo cred_protect d =
     (if 37 > len then Inl d
      else
        let (h, d) = dev_sha [take (rp_size rp) (rp_id rp)] d;
            head = head\<lparr>ah_rpIdHash := h\<rparr> in
        seqE (auth_data_update_count env head d) (\<lambda>(count, head, d).
        let but = ctap2_user_presence_test 1 ps d in
        if but \<noteq> CTAP2_ERR_PROCESSING \<and> but \<noteq> 0 then Inr (but, head, None, d)
        else
          let head = head\<lparr>ah_flags := (if but = CTAP2_ERR_PROCESSING then 0 else 1)\<rparr>;
              head = head\<lparr>ah_flags := ah_flags head OR (if ctap_is_pin_set d then 4 else 0)\<rparr> in
          case credInfo of None \<Rightarrow> Inr (0, head, None, d)
          | Some ci \<Rightarrow>
              let head = head\<lparr>ah_flags := ah_flags head OR 0x40\<rparr> in
              seqE (attested_data env rp len head count ci cred_protect d) (\<lambda>(r, c, cose, d).
              Inr (r, head, Some (c, cose), d))))"

text \<open>The bytes of the authenticator data.\<close>

definition auth_data_image :: "environ \<Rightarrow> auth_header \<Rightarrow> (credential_id \<times> bytes) option \<Rightarrow> bytes" where
  "auth_data_image env head att =
     head_image head @ (case att of None \<Rightarrow> []
       | Some (c, cose) \<Rightarrow> env_aaguid env @ [0, 70] @ cid_image c @ cose)"

definition ctap_calculate_signature ::
    "environ \<Rightarrow> bytes \<Rightarrow> bytes \<Rightarrow> ctap_dev \<Rightarrow> ctap_dev + (bytes \<times> (int \<times> bytes) \<times> ctap_dev)" where
  "ctap_calculate_signature env data clientDataHash d =
     (let (hash, d) = dev_sha [data, take 32 clientDataHash] d in
      seqE (dev_sign env hash d) (\<lambda>(sig, d). Inr (hash, ctap_encode_der_sig sig, d)))"

definition ctap_add_attest_statement :: "environ \<Rightarrow> enc_err \<Rightarrow> bytes \<Rightarrow> enc list \<Rightarrow> int + enc list" where
  "ctap_add_attest_statement env err sigder tr =
     (if length (env_cert env) > 1024 then Inl CTAP2_ERR_PROCESSING
      else emits err [EInt 3, EMap 3, EText ''alg'', EInt COSE_ALG_ES256, EText ''sig'', EBytes sigder,
             EText ''x5c'', EArr 1, EBytes (env_cert env), EClose, EClose] tr)"

subsection \<open>The command\<close>

definition CTAP2_ERR_CREDENTIAL_EXCLUDED :: int where "CTAP2_ERR_CREDENTIAL_EXCLUDED = 0x19"
definition CTAP2_ERR_PIN_REQUIRED :: int where "CTAP2_ERR_PIN_REQUIRED = 0x36"
definition MC_requiredMask :: u32 where "MC_requiredMask = 0x0f"

definition set_custom :: "bytes \<Rightarrow> u8 \<Rightarrow> ctap_dev \<Rightarrow> ctap_dev" where
  "set_custom custom csize d = d\<lparr>d_ga := (d_ga d)\<lparr>gs_customCredId := custom, gs_customCredIdSize := csize\<rparr>\<rparr>"

text \<open>The exclude list, once more from the request; 0 lets the command go on. \<open>cred\<close> lies in the
  uninitialised \<open>auth_data_buf\<close>.\<close>

fun exclude_loop ::
    "'v cbor \<Rightarrow> presence \<Rightarrow> 'v mc_parse \<Rightarrow> nat \<Rightarrow> 'v \<Rightarrow> cred_desc \<Rightarrow> ctap_dev \<Rightarrow> ctap_dev + (int \<times> ctap_dev)" where
  "exclude_loop cb ps MC 0 v cred d = Inr (0, d)"
| "exclude_loop cb ps MC (Suc n) v cred d =
     (case parse_credential_descriptor cb v (cred, gs_customCredId (d_ga d), gs_customCredIdSize (d_ga d)) of
        (ret, (cred, custom, csize)) \<Rightarrow>
      let d = set_custom custom csize d in
      if ret = CTAP2_ERR_CBOR_UNEXPECTED_TYPE then exclude_loop cb ps MC n v cred d
      else if ret \<noteq> 0 then Inr (ret, d)
      else
        seqE (ctap_authenticate_credential (mc_rp MC) cred d) (\<lambda>(ours, d).
        seqE (if ours then check_credential_metadata (cr_id (cd_credential cred)) (mc_pinAuthPresent MC \<noteq> 0) True d
              else Inr (1, d)) (\<lambda>(code, d).
        if ours \<and> code = 0 then
          let ret = ctap2_user_presence_test 1 ps d
          in Inr (if ret \<noteq> 0 then ret else CTAP2_ERR_CREDENTIAL_EXCLUDED, d)
        else
          case cb_advance cb v of (ret, v) \<Rightarrow>
          if ret \<noteq> 0 then Inr (ERR_PARSING, d) else exclude_loop cb ps MC n v cred d)))"

definition mc_exclude :: "'v cbor \<Rightarrow> environ \<Rightarrow> presence \<Rightarrow> 'v mc_parse \<Rightarrow> ctap_dev \<Rightarrow> ctap_dev + (int \<times> ctap_dev)" where
  "mc_exclude cb env ps MC d =
     (case mp_excludeList MC of None \<Rightarrow> Inr (0, d)
      | Some v \<Rightarrow> exclude_loop cb ps MC (mp_excludeListSize MC) v cred_desc_zero d)"

text \<open>From the response map on.\<close>

definition mc_respond :: "environ \<Rightarrow> presence \<Rightarrow> enc_err \<Rightarrow> 'a make_credential_scheme \<Rightarrow> ctap_dev \<Rightarrow> ctap_dev + reply" where
  "mc_respond env ps err MC d =
     (case emits err [EMap 3, EInt 1, EText ''packed''] [] of Inl e \<Rightarrow> Inr (Inl e, d)
      | Inr tr \<Rightarrow>
        let head = \<lparr>ah_rpIdHash = zeros 32, ah_flags = 0, ah_signCount = zeros 4\<rparr> in
        seqE (ctap_make_auth_data env ps (mc_rp MC) 310 head (Some (mc_credInfo MC)) (ex_cred_protect (mc_extensions MC)) d)
          (\<lambda>(ret, head, att, d).
        if ret \<noteq> 0 then Inr (Inl ret, d)
        else
          let auth_data_sz = length (auth_data_image env head att) in
          seqE (ctap_make_extensions env (mc_extensions MC) (310 - auth_data_sz) d) (\<lambda>(r, d).
          case r of Inl e \<Rightarrow> Inr (Inl e, d)
          | Inr ext \<Rightarrow>
            let head = (if ext \<noteq> [] then head\<lparr>ah_flags := ah_flags head OR 0x80\<rparr> else head);
                auth_data = auth_data_image env head att @ ext in
            case emits err [EInt 2, EBytes auth_data] tr of Inl e \<Rightarrow> Inr (Inl e, d)
            | Inr tr \<Rightarrow>
              let d = d\<lparr>d_cr := crypto_ecc256_load_attestation_key (env_att_key env) (d_cr d)\<rparr> in
              seqE (ctap_calculate_signature env auth_data (mc_clientDataHash MC) d) (\<lambda>(_, (sigder_sz, sigder), d).
              Inr (seqE (ctap_add_attest_statement env err (take (nat sigder_sz) sigder) tr) (emits err [EClose]), d)))))"

text \<open>The checks between the parser and the response.\<close>

definition mc_checks :: "presence \<Rightarrow> 'a make_credential_scheme \<Rightarrow> ctap_dev \<Rightarrow> ctap_dev + (int \<times> ctap_dev)" where
  "mc_checks ps MC d =
     (if mc_pinAuthEmpty MC \<noteq> 0 then
        let ret = ctap2_user_presence_test 1 ps d in
        Inr (if ret \<noteq> 0 then ret else if ctap_is_pin_set d then CTAP2_ERR_PIN_AUTH_INVALID else CTAP2_ERR_PIN_NOT_SET, d)
      else if mc_parsed MC AND MC_requiredMask \<noteq> MC_requiredMask then Inr (ERR_MISSING, d)
      else if ctap_is_pin_set d \<and> mc_pinAuthPresent MC = 0 then Inr (CTAP2_ERR_PIN_REQUIRED, d)
      else
        seqE (if ctap_is_pin_set d \<or> mc_pinAuthPresent MC \<noteq> 0
              then verify_pin_auth (mc_pinAuth MC) (mc_clientDataHash MC) d else Inr (0, d)) (\<lambda>(ret, d).
        if ret \<noteq> 0 then Inr (ret, d)
        else if mc_up MC = 1 \<or> mc_up MC = 0 then Inr (CTAP2_ERR_INVALID_OPTION, d)
        else Inr (0, d)))"

definition ctap_make_credential ::
    "'v cbor \<Rightarrow> environ \<Rightarrow> presence \<Rightarrow> enc_err \<Rightarrow> bytes \<Rightarrow> ctap_dev \<Rightarrow> ctap_dev + reply" where
  "ctap_make_credential cb env ps err request d =
     (case ctap_parse_make_credential cb request (gs_customCredId (d_ga d), gs_customCredIdSize (d_ga d)) of
        (ret, (MC, custom, csize)) \<Rightarrow>
      let d = set_custom custom csize d in
      if ret \<noteq> 0 then Inr (Inl ret, d)
      else
        seqE (mc_checks ps MC d) (\<lambda>(ret, d).
        if ret \<noteq> 0 then Inr (Inl ret, d)
        else
          seqE (mc_exclude cb env ps MC d) (\<lambda>(ret, d).
          if ret \<noteq> 0 then Inr (Inl ret, d) else mc_respond env ps err MC d)))"

end
