(* ===== verification/ResidentProps.thy ===== *)
theory ResidentProps
  imports MakeCred CountDev
begin

text \<open>
  The resident keys of the device as a table of fifty slots: \<open>store_resident\<close> replaces the key of the same
  relying party and user or takes the first free slot, and the stored number of keys stays the number
  of valid slots.
\<close>

subsection \<open>Frames\<close>

lemma rk_put_frame:
  assumes "prog_ok prog" "length img = RK_SIZE" "flash_addr COUNTER2_PAGE \<le> a"
  shows "flash_read (rk_put prog i img f) a n = flash_read f a n"
proof (cases "rk_page i < RK_NUM_PAGES")
  case True
  let ?p = "RK_START_PAGE + rk_page i"
  let ?new = "blit (flash_read f (flash_addr ?p) FLASH_PAGE_SIZE) (rk_offset i) img"
  have "flash_addr (Suc ?p) \<le> a"
    using True assms(3) by (simp add: page_defs)
  moreover have "length ?new \<le> FLASH_PAGE_SIZE" using rk_offset_fits[of i] assms(2) by simp
  ultimately show ?thesis
    using page_store.rewrite_frame[OF flash_page_store[OF assms(1)], of ?new a n ?p f] True by (simp add: rk_put_def Let_def)
qed (simp add: rk_put_def)

lemma store_rk_ok:
  assumes "dev_ok d" "env_ok env" "rk_ok rk"
  shows "dev_ok (d\<lparr>d_flash := ctap_store_rk (env_prog env) i rk (d_flash d)\<rparr>)"
proof -
  have "flash_addr COUNTER2_PAGE \<le> flash_addr STATE1_PAGE" "flash_addr COUNTER2_PAGE \<le> flash_addr STATE2_PAGE"
    by (simp_all add: page_defs)
  then show ?thesis
    using assms rk_put_frame[of "env_prog env" "rk_image rk", OF _ length_rk_image[OF assms(3)]]
    by (simp add: dev_ok_def stored_twice_def ctap_store_rk_def ctap_overwrite_rk_def env_ok_def)
qed

lemma delete_rk_ok:
  assumes "dev_ok d" "env_ok env"
  shows "dev_ok (d\<lparr>d_flash := ctap_delete_rk (env_prog env) i (d_flash d)\<rparr>)"
  using store_rk_ok[OF assms rk_blank_props(1), of i] by (simp add: ctap_delete_rk_def ctap_store_rk_def rk_blank_def)

subsection \<open>The number of valid slots\<close>

lemma map_filter_nth: "map ((!) xs) (filter (\<lambda>i. P (xs ! i)) [0..<length xs]) = filter P xs"
proof -
  have "filter P xs = filter P (map ((!) xs) [0..<length xs])" by (simp only: map_nth)
  then show ?thesis by (simp add: filter_map comp_def)
qed

lemma length_valid_slots: "length (valid_slots ks) = length (filter ctap_rk_is_valid ks)"
  using arg_cong[OF map_filter_nth[of ks ctap_rk_is_valid], of length] by (simp add: valid_slots_def)

lemma valid_slots_update:
  assumes "i < length ks"
  shows "length (valid_slots (ks[i := rk])) + (if ctap_rk_is_valid (ks ! i) then 1 else 0)
    = length (valid_slots ks) + (if ctap_rk_is_valid rk then 1 else 0)"
proof -
  have "filter ctap_rk_is_valid ks = filter ctap_rk_is_valid (take i ks @ ks ! i # drop (Suc i) ks)"
    using id_take_nth_drop[OF assms] by simp
  then show ?thesis by (simp add: length_valid_slots upd_conv_take_nth_drop[OF assms])
qed

lemma valid_slots_bound: "length (valid_slots (rk_slots f)) \<le> 50"
  using length_filter_le[of ctap_rk_is_valid "rk_slots f"] by (simp add: length_valid_slots)

definition rk_counted :: "ctap_dev \<Rightarrow> bool" where
  "rk_counted d \<longleftrightarrow> unat (as_rk_stored (d_st d)) = length (valid_slots (rk_slots (d_flash d)))"

lemma count_sim_table: "count_sim d d' \<Longrightarrow> rk_slots (d_flash d') = rk_slots (d_flash d)"
  using count_sim_slots by (simp add: rk_slots_def)

lemma count_sim_counted: "count_sim d d' \<Longrightarrow> rk_counted d \<Longrightarrow> rk_counted d'"
  by (simp add: rk_counted_def count_sim_table count_sim_fields)

subsection \<open>The searches\<close>

definition same_key :: "resident_key \<Rightarrow> resident_key list \<Rightarrow> nat option" where
  "same_key rk ks = List.find (\<lambda>j. is_matching_rk rk (ks ! j)) (valid_slots ks)"

definition free_slot :: "resident_key list \<Rightarrow> nat option" where
  "free_slot ks = List.find (\<lambda>j. \<not> ctap_rk_is_valid (ks ! j)) [0..<length ks]"

lemma match_rk_from:
  "k \<le> length (valid_slots (rk_slots f)) \<Longrightarrow> match_rk f rk rk2 [k..<length (valid_slots (rk_slots f))]
    = map_option int (List.find (\<lambda>j. is_matching_rk rk (rk_slots f ! j)) (drop k (valid_slots (rk_slots f))))"
proof (induction "length (valid_slots (rk_slots f)) - k" arbitrary: k rk2)
  case (Suc m)
  let ?v = "valid_slots (rk_slots f)"
  have k: "k < length ?v" using Suc(2) by linarith
  then have d: "drop k ?v = ?v ! k # drop (Suc k) ?v" by (simp add: Cons_nth_drop_Suc)
  have "m = length ?v - Suc k" "Suc k \<le> length ?v" using Suc(2) k by linarith+
  then show ?case using Suc(1)[of "Suc k"] k
    by (simp add: upt_conv_Cons load_nth_slots d)
qed simp

lemma match_rk_value:
  "rk_counted d \<Longrightarrow> match_rk (d_flash d) rk rk2 [0..<unat (as_rk_stored (d_st d))] = map_option int (same_key rk (rk_slots (d_flash d)))"
  using match_rk_from[of 0 "d_flash d" rk rk2] by (simp add: rk_counted_def same_key_def)

lemma free_rk_value: "set is \<subseteq> {..<50} \<Longrightarrow> free_rk f rk2 is = List.find (\<lambda>j. \<not> ctap_rk_is_valid (rk_slots f ! j)) is"
  by (induction "is" arbitrary: rk2) (simp_all add: load_rk_slot Let_def)

lemma same_key_slot: "same_key rk ks = Some j \<Longrightarrow> j < length ks \<and> ctap_rk_is_valid (ks ! j) \<and> is_matching_rk rk (ks ! j)"
  by (auto simp: same_key_def find_Some_iff valid_slots_def dest: nth_mem)

lemma free_slot_slot: "free_slot ks = Some j \<Longrightarrow> j < length ks \<and> \<not> ctap_rk_is_valid (ks ! j)"
  by (auto simp: free_slot_def find_Some_iff)

subsection \<open>Storing\<close>

text \<open>What \<open>store_resident\<close> does to the table: None when it is full.\<close>

definition upsert :: "resident_key \<Rightarrow> resident_key list \<Rightarrow> resident_key list option" where
  "upsert rk ks =
     (case same_key rk ks of Some j \<Rightarrow> Some (ks[j := rk])
      | None \<Rightarrow> map_option (\<lambda>j. ks[j := rk]) (free_slot ks))"

lemma increment_store:
  assumes "dev_ok d" "env_ok env"
  shows "dev_ok (ctap_increment_rk_store env d)" "rk_slots (d_flash (ctap_increment_rk_store env d)) = rk_slots (d_flash d)"
    "as_rk_stored (d_st (ctap_increment_rk_store env d)) = as_rk_stored (d_st d) + 1"
    "d_cr (ctap_increment_rk_store env d) = d_cr d"
proof -
  have "state_wf (d_st d)" using assms(1) by (simp add: dev_ok_def)
  then have w: "state_wf ((d_st d)\<lparr>as_rk_stored := as_rk_stored (d_st d) + 1\<rparr>)" by (simp add: state_wf_def)
  show "dev_ok (ctap_increment_rk_store env d)" unfolding ctap_increment_rk_store_def
    by (rule dev_ok_flush) (use assms w in \<open>simp_all add: dev_ok_def\<close>)
  show "rk_slots (d_flash (ctap_increment_rk_store env d)) = rk_slots (d_flash d)" unfolding ctap_increment_rk_store_def
    by (subst flush_rk) (use assms w in simp_all)
  show "as_rk_stored (d_st (ctap_increment_rk_store env d)) = as_rk_stored (d_st d) + 1" "d_cr (ctap_increment_rk_store env d) = d_cr d"
    by (simp_all add: ctap_increment_rk_store_def)
qed

lemma store_resident_upsert:
  assumes "dev_ok d" "env_ok env" "rk_counted d" "rk_ok rk" "ctap_rk_is_valid rk"
  shows "\<exists>d'. store_resident env rk d = (if upsert rk (rk_slots (d_flash d)) = None then CTAP2_ERR_KEY_STORE_FULL else 0, d')
    \<and> rk_slots (d_flash d') = (case upsert rk (rk_slots (d_flash d)) of None \<Rightarrow> rk_slots (d_flash d) | Some ks \<Rightarrow> ks)
    \<and> dev_ok d' \<and> rk_counted d'"
proof -
  let ?ks = "rk_slots (d_flash d)"
  have p: "prog_ok (env_prog env)" using assms(2) by (simp add: env_ok_def)
  note m = match_rk_value[OF assms(3), of rk rk_zero]
  have fr: "free_rk (d_flash d) rk_zero [0..<ctap_rk_size] = free_slot ?ks"
    using free_rk_value[of "[0..<50]" "d_flash d" rk_zero] by (simp add: ctap_rk_size_50 free_slot_def atLeast0LessThan)
  consider (same) j where "same_key rk ?ks = Some j" | (free) j where "same_key rk ?ks = None" "free_slot ?ks = Some j"
    | (full) "same_key rk ?ks = None" "free_slot ?ks = None" by (meson option.exhaust)
  then show ?thesis
  proof cases
    case same
    note j = same_key_slot[OF same]
    have "nat (int j mod 2 ^ 32) = j" using j by simp
    then show ?thesis
      using m same j store_rk_ok[OF assms(1,2,4), of j] slots_store[OF p assms(4), of j "d_flash d"] valid_slots_update[of j ?ks rk] assms(3,5)
      by (simp add: store_resident_def upsert_def ctap_store_rk_def rk_counted_def)
  next
    case free
    note j = free_slot_slot[OF free(2)]
    note i = increment_store[OF assms(1,2)]
    have b: "unat (as_rk_stored (d_st d)) \<le> 50" using valid_slots_bound assms(3) by (simp add: rk_counted_def)
    then have "unat (as_rk_stored (d_st d) + 1) = Suc (unat (as_rk_stored (d_st d)))"
      by (subst unat_word_ariths) simp
    then show ?thesis
      using m free fr j store_rk_ok[OF i(1) assms(2,4), of j] slots_store[OF p assms(4), of j] valid_slots_update[of j ?ks rk] assms(3,5) i
      by (simp add: store_resident_def upsert_def rk_counted_def Let_def)
  next
    case full
    then show ?thesis using m fr assms by (simp add: store_resident_def upsert_def CTAP2_ERR_KEY_STORE_FULL_def)
  qed
qed

text \<open>C29 (invariant). A discoverable credential takes the slot of the same relying party and user, or else the
  first free slot; every other slot stays, the stored number of keys stays the number of valid slots,
  and only a full table without a matching key answers an error, and then nothing changes.\<close>

theorem resident_store_upserts:
  assumes "dev_ok d" "env_ok env" "rk_counted d" "rk_ok rk" "ctap_rk_is_valid rk"
  shows "\<exists>d'. store_resident env rk d = (if upsert rk (rk_slots (d_flash d)) = None then CTAP2_ERR_KEY_STORE_FULL else 0, d')
    \<and> rk_slots (d_flash d') = (case upsert rk (rk_slots (d_flash d)) of None \<Rightarrow> rk_slots (d_flash d) | Some ks \<Rightarrow> ks)
    \<and> dev_ok d' \<and> rk_counted d'"
  using store_resident_upsert[OF assms] .

lemma dev0_table: "rk_slots (d_flash dev0) = replicate 50 rk_blank" "rk_counted dev0"
proof -
  show s: "rk_slots (d_flash dev0) = replicate 50 rk_blank" unfolding dev0_def
    using reset_facts[OF env0_ok power_up_ok] by blast
  have "d_st dev0 = fresh_state env0 (c_rng (d_cr (power_up (\<lambda>_. 0xff) 0)))" unfolding dev0_def
    using reset_facts[OF env0_ok power_up_ok] by blast
  then show "rk_counted dev0" using rk_blank_props(2)
    by (simp add: rk_counted_def s length_valid_slots fresh_state_def)
qed

lemma upsert_blank: "upsert rk (replicate 50 rk_blank) = Some ((replicate 50 rk_blank)[0 := rk])"
proof -
  have "valid_slots (replicate 50 rk_blank) = []"
    using length_valid_slots[of "replicate 50 rk_blank"] rk_blank_props(2) by simp
  moreover have "[0..<50] = 0 # [1..<50]" by (simp add: upt_conv_Cons)
  ultimately show ?thesis using rk_blank_props(2)
    by (simp add: upsert_def same_key_def free_slot_def)
qed

lemma resident_store_upserts_witness:
  "\<exists>d'. store_resident env0 rk1 dev0 = (0, d') \<and> rk_slots (d_flash d') = (replicate 50 rk_blank)[0 := rk1] \<and> rk_counted d'"
  using resident_store_upserts[OF dev0_ok(1) env0_ok dev0_table(2) rk1_ok] by (auto simp: dev0_table upsert_blank)

end
