(* ===== verification/MakeCredProps.thy ===== *)
theory MakeCredProps
  imports ResidentProps CtapParseProps U2fProps PinSet
begin

text \<open>
  What authenticatorMakeCredential promises: who may have a credential made, and what the credential it
  returns is worth later.
\<close>

subsection \<open>What every step leaves alone\<close>

definition keeps :: "ctap_dev \<Rightarrow> ctap_dev \<Rightarrow> bool" where
  "keeps d d' \<longleftrightarrow> crypto_ok (d_cr d') \<and> c_master (d_cr d') = c_master (d_cr d) \<and> c_transport (d_cr d') = c_transport (d_cr d)
     \<and> c_curve (d_cr d') = c_curve (d_cr d) \<and> d_up_off d' = d_up_off d \<and> as_pin_set (d_st d') = as_pin_set (d_st d)
     \<and> d_pin_token d' = d_pin_token d \<and> d_boot d' = d_boot d \<and> d_ka_priv d' = d_ka_priv d \<and> as_tries (d_st d') = as_tries (d_st d)
     \<and> as_pin_hash (d_st d') = as_pin_hash (d_st d) \<and> as_salt (d_st d') = as_salt (d_st d) \<and> as_key_space (d_st d') = as_key_space (d_st d)"

lemma keeps_refl [simp]: "crypto_ok (d_cr d) \<Longrightarrow> keeps d d"
  by (simp add: keeps_def)

lemma keeps_trans: "keeps a b \<Longrightarrow> keeps b c \<Longrightarrow> keeps a c"
  by (simp add: keeps_def)

lemma keeps_crypto: "keeps a b \<Longrightarrow> crypto_ok (d_cr b)"
  by (simp add: keeps_def)

lemma keeps_pin: "keeps a b \<Longrightarrow> ctap_is_pin_set b = ctap_is_pin_set a"
  by (simp add: keeps_def ctap_is_pin_set_def)

lemma count_sim_keeps: "count_sim d d' \<Longrightarrow> keeps d d'"
  by (simp add: keeps_def count_sim_fields)

lemma dev_sim_keeps: "dev_sim d d' \<Longrightarrow> keeps d d'"
  by (intro count_sim_keeps dev_sim_count)

lemma custom_keeps [simp]: "crypto_ok (d_cr d) \<Longrightarrow> keeps d (set_custom cs n d)"
  by (simp add: keeps_def set_custom_def)

lemma cr_keeps: "keeps d d' \<Longrightarrow> cr_loose (d_cr d') cr \<Longrightarrow> keeps d (d'\<lparr>d_cr := cr\<rparr>)"
  using cr_loose_fields[of "d_cr d'" cr] by (simp add: keeps_def)

lemma count_frame:
  assumes "crypto_ok (d_cr d)" "dev_atomic_count env amount d = Inr (w, d')"
  shows "count_sim d d'"
proof -
  define p where "p = (if amount = 0 then ctap_generate_rng env 1 d else ([0], d))"
  let ?d = "snd p"
  define q where "q = ctap_atomic_count (env_prog env) amount (fst p ! 0) (d_flash ?d, d_sc ?d)"
  have d1: "d_flash ?d = d_flash d" "d_sc ?d = d_sc d" by (simp_all add: p_def ctap_generate_rng_def Let_def)
  have s1: "count_sim d ?d" using rng_count_sim[OF assms(1)] assms(1) by (simp add: p_def)
  have "d' = ?d\<lparr>d_flash := fst (snd q), d_sc := snd (snd q)\<rparr>"
    using assms(2) unfolding dev_atomic_count_def p_def[symmetric] split_beta Let_def q_def[symmetric]
    by (auto split: option.splits)
  moreover have "fst (snd q) x = d_flash d x" if "\<not> counter_cell x" for x
    using count_frame_cell[OF that, of "env_prog env" amount "fst p ! 0" "(d_flash ?d, d_sc ?d)"] by (simp add: q_def d1)
  ultimately show ?thesis using s1 by (cases d; cases ?d) (auto simp: count_sim_def)
qed

lemma update_count_frame:
  assumes "crypto_ok (d_cr d)" "auth_data_update_count env h d = Inr (count, h', d')"
  shows "count_sim d d'" "h' = h\<lparr>ah_signCount := u32_be_bytes count\<rparr>"
proof -
  obtain c1 d1 where 1: "dev_atomic_count env 0 d = Inr (c1, d1)"
    using assms(2) by (auto simp: auth_data_update_count_def seqE_def split: sum.splits)
  note s1 = count_frame[OF assms(1) 1]
  show "count_sim d d'" "h' = h\<lparr>ah_signCount := u32_be_bytes count\<rparr>"
    using assms(2) 1 s1 count_frame[OF count_sim_fields(9)[OF s1], of env 0] count_sim_trans[OF s1]
    by (auto simp: auth_data_update_count_def seqE_def split: sum.splits if_splits)
qed

subsection \<open>The credential\<close>

text \<open>The token made this credential id for this relying party.\<close>

definition made_for :: "bytes \<Rightarrow> rp_id \<Rightarrow> credential_id \<Rightarrow> bool" where
  "made_for secret rp c \<longleftrightarrow> cid_ok c \<and> ci_rpIdHash c = sha256 (take (rp_size rp) (rp_id rp))
     \<and> ci_tag c = cred_tag secret (ci_rpIdHash c) (ci_nonce c) (ci_count c)"

lemma make_id_value:
  assumes "crypto_ok (d_cr d)" "ah_rpIdHash head = sha256 (take (rp_size rp) (rp_id rp))"
  obtains c d' where "make_credential_id env head count protect d = Inr (c, d')" "count_sim d d'"
    "made_for (c_transport (d_cr d)) rp c" "metadata_of (c_transport (d_cr d)) c = protect" "ci_count c = count"
    "d_flash d' = d_flash d" "d_sc d' = d_sc d"
proof -
  let ?s = "c_transport (d_cr d)"
  define nonce where "nonce = fst (ctap_generate_rng env 18 d)"
  define d1 where "d1 = snd (ctap_generate_rng env 18 d)"
  have r: "ctap_generate_rng env 18 d = (nonce, d1)" "length nonce = 18" "count_sim d d1"
    using rng_count_sim[OF assms(1)] by (simp_all add: nonce_def d1_def)
  let ?c = "cid_zero\<lparr>ci_nonce := nonce\<rparr>"
  have s1: "c_transport (d_cr d1) = ?s" "crypto_ok (d_cr d1)" using count_sim_fields[OF r(3)] by simp_all
  have n: "length (ci_nonce ?c) = 18" using r(2) by simp
  obtain d2 c1 where a0: "add_masked_metadata_for_credential ?c protect d1 = Inr (c1, d2)" "dev_sim d1 d2"
    "metadata_of (c_transport (d_cr d1)) c1 = protect" "c1 = set_metadata (mask_word (c_transport (d_cr d1)) ?c XOR protect) ?c"
    using add_metadata_value[OF s1(2) n] .
  note a = a0(1,2) a0(3,4)[unfolded s1(1)]
  let ?c2 = "c1\<lparr>ci_count := count, ci_rpIdHash := ah_rpIdHash head\<rparr>"
  have l: "length (ci_nonce ?c2) = 18" "length (ci_rpIdHash ?c2) = 32"
    using set_metadata_props(3)[OF n] assms(2) by (simp_all add: a(4))
  obtain d3 where t: "make_auth_tag (ah_rpIdHash head) (ci_nonce ?c2) count d2
      = Inr (cred_tag (c_transport (d_cr d2)) (ah_rpIdHash head) (ci_nonce ?c2) count, d3)" "dev_sim d2 d3"
    using make_auth_tag_value[OF dev_sim_crypto[OF a(2)], of "ah_rpIdHash head" "ci_nonce ?c2" count] l by auto
  have s2: "c_transport (d_cr d2) = ?s" using dev_sim_fields[OF a(2)] s1 by simp
  let ?c3 = "?c2\<lparr>ci_tag := cred_tag ?s (ah_rpIdHash head) (ci_nonce ?c2) count\<rparr>"
  show ?thesis
  proof (rule that[of ?c3 d3])
    show "make_credential_id env head count protect d = Inr (?c3, d3)"
      using r(1) a(1) t(1) by (simp add: make_credential_id_def Let_def s2)
    show "count_sim d d3" using count_sim_trans[OF r(3)] count_sim_trans[OF dev_sim_count[OF a(2)] dev_sim_count[OF t(2)]] by blast
    show "made_for ?s rp ?c3" using l assms(2) by (simp add: made_for_def cid_ok_def cred_tag_def)
    show "metadata_of ?s ?c3 = protect" using a(3) by (simp add: metadata_of_def metadata_value_def mask_word_def)
    show "d_flash d3 = d_flash d" "d_sc d3 = d_sc d"
      using dev_sim_fields[OF a(2)] dev_sim_fields[OF t(2)] by (simp_all add: d1_def ctap_generate_rng_def Let_def)
  qed simp
qed

lemma made_authenticates:
  assumes "crypto_ok (d_cr d)" "cd_type desc = 0x01" "made_for (c_transport (d_cr d)) rp (cr_id (cd_credential desc))"
  obtains d' where "ctap_authenticate_credential rp2 desc d = Inr
     (sha256 (take (rp_size rp2) (rp_id rp2)) = sha256 (take (rp_size rp) (rp_id rp)), d')" "dev_sim d d'"
proof -
  have m: "cid_ok (cr_id (cd_credential desc))" using assms(3) by (simp add: made_for_def)
  show ?thesis
  proof (rule authenticate_value[OF assms(1,2) m, of rp2])
    fix d' assume "ctap_authenticate_credential rp2 desc d = Inr
      (ci_rpIdHash (cr_id (cd_credential desc)) = sha256 (take (rp_size rp2) (rp_id rp2))
       \<and> ci_tag (cr_id (cd_credential desc)) = cred_tag (c_transport (d_cr d)) (ci_rpIdHash (cr_id (cd_credential desc)))
            (ci_nonce (cr_id (cd_credential desc))) (ci_count (cr_id (cd_credential desc))), d')" "dev_sim d d'"
    then show ?thesis using assms(3) by (intro that[of d']) (auto simp: made_for_def)
  qed
qed

subsection \<open>Authenticator data\<close>

text \<open>The public key of a credential, in CBOR.\<close>

definition cose_of :: "environ \<Rightarrow> bytes \<Rightarrow> credential_id \<Rightarrow> enc list" where
  "cose_of env master c =
     (let p = l_pubkey (env_lib env) (cred_key (env_lib env) master (cid_image c))
      in cose_key_calls (block p 0 32) (block p 32 32) COSE_ALG_ES256)"

text \<open>The encoder has room for a key in 185 bytes.\<close>

definition enc_room :: "environ \<Rightarrow> bool" where
  "enc_room env \<longleftrightarrow> (\<forall>x y tr z zs. length x = 32 \<longrightarrow> length y = 32 \<longrightarrow> tr @ z # zs = cose_key_calls x y COSE_ALG_ES256
     \<longrightarrow> env_enc_err env 185 tr z = 0)"

lemma emits_room:
  "(\<And>tr' z zs. tr @ xs = tr' @ z # zs \<Longrightarrow> length tr \<le> length tr' \<Longrightarrow> err tr' z = 0) \<Longrightarrow> emits err xs tr = Inr (tr @ xs)"
proof (induction xs arbitrary: tr)
  case (Cons x xs)
  have "err tr x = 0" using Cons(2)[of tr x xs] by simp
  then show ?case using Cons(1)[of "tr @ [x]"] Cons(2) by simp
qed simp

lemma cose_value:
  assumes "crypto_ok cr" "lib_ok (env_lib env)" "enc_room env"
  obtains cr' where "ctap_generate_cose_key (env_lib env) (env_enc_err env 185) (cid_image c) 1 COSE_ALG_ES256 [] cr
      = Some (Inr (cose_of env (c_master cr) c), cr')" "cr_sim cr cr'"
proof -
  let ?p = "l_pubkey (env_lib env) (cred_key (env_lib env) (c_master cr) (cid_image c))"
  obtain x y cr' where p: "crypto_ecc256_derive_public_key (env_lib env) (cid_image c) cr = Some ((x, y), cr')"
    "cr_sim cr cr'" "x @ y = ?p" "length x = 32" "length y = 32"
    using derive_value[OF assms(1), of "env_lib env" "cid_image c"] assms(2) by (auto simp: lib_ok_def)
  have b: "block ?p 0 32 = x" "block ?p 32 32 = y" using p(4,5) by (simp_all add: p(3)[symmetric] block_def)
  have "emits (env_enc_err env 185) (cose_key_calls x y COSE_ALG_ES256) [] = Inr ([] @ cose_key_calls x y COSE_ALG_ES256)"
    by (rule emits_room) (use assms(3) p(4,5) in \<open>auto simp: enc_room_def\<close>)
  then show ?thesis using p(1,2) b
    by (intro that[of cr']) (simp_all add: ctap_generate_cose_key_def ctap_add_cose_key_def PUB_KEY_CRED_PUB_KEY_def cose_of_def)
qed

lemma store_resident_keeps:
  assumes "crypto_ok (d_cr d)"
  shows "keeps d (snd (store_resident env rk d))"
  using assms by (auto simp: store_resident_def keeps_def ctap_increment_rk_store_def ctap_flush_state_def Let_def split: option.split)

text \<open>The attested part, when it ends in no abort.\<close>

lemma attested_value:
  assumes "crypto_ok (d_cr d)" "ah_rpIdHash head = sha256 (take (rp_size rp) (rp_id rp))" "lib_ok (env_lib env)" "enc_room env"
    and "in_type ci = 1" "in_alg ci = COSE_ALG_ES256" "attested_data env rp 310 head count ci protect d = Inr (r, c, cose, d')"
  shows "made_for (c_transport (d_cr d)) rp c \<and> metadata_of (c_transport (d_cr d)) c = protect \<and> ci_count c = count
    \<and> keeps d d' \<and> (r = 0 \<longrightarrow> cose = env_enc env (cose_of env (c_master (d_cr d)) c))
    \<and> (\<exists>d1. count_sim d d1 \<and> (in_rk ci = 0 \<longrightarrow> r = 0 \<and> d_flash d' = d_flash d1 \<and> d_st d' = d_st d1)
        \<and> (in_rk ci \<noteq> 0 \<longrightarrow> r = fst (store_resident env (rk_of_request rp (in_user ci) c) d1)
             \<and> d_flash d' = d_flash (snd (store_resident env (rk_of_request rp (in_user ci) c) d1))
             \<and> d_st d' = d_st (snd (store_resident env (rk_of_request rp (in_user ci) c) d1))))"
proof -
  obtain c1 d1 where m: "make_credential_id env head count protect d = Inr (c1, d1)" "count_sim d d1"
    "made_for (c_transport (d_cr d)) rp c1" "metadata_of (c_transport (d_cr d)) c1 = protect" "ci_count c1 = count"
    using make_id_value[OF assms(1,2), of env count protect] .
  define q where "q = (if in_rk ci \<noteq> 0 then store_resident env (rk_of_request rp (in_user ci) c1) d1 else (0, d1))"
  have kq: "keeps d1 (snd q)" using store_resident_keeps count_sim_fields(9)[OF m(2)] by (simp add: q_def)
  have k1: "keeps d (snd q)" using keeps_trans[OF count_sim_keeps[OF m(2)] kq] .
  have a: "attested_data env rp 310 head count ci protect d = (if fst q \<noteq> 0 then Inr (fst q, c1, [], snd q)
      else seqE (halt (snd q) (ctap_generate_cose_key (env_lib env) (env_enc_err env 185) (cid_image c1) 1 COSE_ALG_ES256 [] (d_cr (snd q))))
         (\<lambda>(k, cr). Inr (0, c1, (case k of Inl _ \<Rightarrow> [] | Inr tr \<Rightarrow> env_enc env tr), (snd q)\<lparr>d_cr := cr\<rparr>)))"
    using m(1) assms(5,6) by (simp add: attested_data_def q_def split_beta Let_def)
  obtain cr where g: "ctap_generate_cose_key (env_lib env) (env_enc_err env 185) (cid_image c1) 1 COSE_ALG_ES256 [] (d_cr (snd q))
      = Some (Inr (cose_of env (c_master (d_cr (snd q))) c1), cr)" "cr_sim (d_cr (snd q)) cr"
    using cose_value[OF keeps_crypto[OF k1] assms(3,4)] .
  have "c_master (d_cr (snd q)) = c_master (d_cr d)" using k1 by (simp add: keeps_def)
  then show ?thesis using a assms(7) g m(2-5) k1 cr_keeps[OF k1 cr_loose_sim[OF g(2)]]
    by (intro conjI exI[of _ d1]) (auto simp: q_def split: if_splits)
qed

lemma auth_data_run:
  assumes "crypto_ok (d_cr d)" "lib_ok (env_lib env)" "enc_room env" "presence_ok ps" "\<not> d_up_off d"
    and "in_type ci = 1" "in_alg ci = COSE_ALG_ES256"
    and "ctap_make_auth_data env ps rp 310 head (Some ci) protect d = Inr (r, head', att, d')"
  shows "keeps d d' \<and> (r = 0 \<longrightarrow> user_present ps \<and>
     (\<exists>c. att = Some (c, env_enc env (cose_of env (c_master (d_cr d)) c)) \<and> made_for (c_transport (d_cr d)) rp c
        \<and> metadata_of (c_transport (d_cr d)) c = protect
        \<and> head' = \<lparr>ah_rpIdHash = ci_rpIdHash c, ah_flags = (if ctap_is_pin_set d then 0x45 else 0x41), ah_signCount = u32_be_bytes (ci_count c)\<rparr>))"
proof -
  let ?h = "sha256 (take (rp_size rp) (rp_id rp))"
  obtain d1 where 1: "dev_sha [take (rp_size rp) (rp_id rp)] d = (?h, d1)" "dev_sim d d1"
    using dev_sha_value[OF assms(1), of "[take (rp_size rp) (rp_id rp)]"] by auto
  note c1 = dev_sim_crypto[OF 1(2)]
  obtain count h2 d2 where 2: "auth_data_update_count env (head\<lparr>ah_rpIdHash := ?h\<rparr>) d1 = Inr (count, h2, d2)"
    using assms(8) 1(1) by (auto simp: ctap_make_auth_data_def seqE_Inr)
  note u = update_count_frame[OF c1 2]
  have k2: "keeps d d2" using keeps_trans[OF dev_sim_keeps[OF 1(2)] count_sim_keeps[OF u(1)]] .
  have up2: "\<not> d_up_off d2" "ctap_is_pin_set d2 = ctap_is_pin_set d" using k2 keeps_pin[OF k2] assms(5) by (simp_all add: keeps_def)
  define but where "but = ctap2_user_presence_test 1 ps d2"
  have np: "but \<noteq> CTAP2_ERR_PROCESSING" using presence_test_processing[OF assms(4), of 1 d2] up2 by (simp add: but_def)
  show ?thesis
  proof (cases "but = 0")
    case False
    then show ?thesis using assms(8) 1(1) 2 np k2 by (auto simp: ctap_make_auth_data_def but_def Let_def)
  next
    case True
    let ?h3 = "h2\<lparr>ah_flags := ((1 OR (if ctap_is_pin_set d then 4 else 0)) OR 0x40)\<rparr>"
    obtain r0 c cose d3 where 3: "attested_data env rp 310 ?h3 count ci protect d2 = Inr (r0, c, cose, d3)"
      "r = r0" "head' = ?h3" "att = Some (c, cose)" "d' = d3"
      using assms(8) 1(1) 2 True np up2 by (auto simp: ctap_make_auth_data_def but_def[symmetric] Let_def seqE_Inr)
    have hh: "ah_rpIdHash ?h3 = ?h" by (simp add: u(2))
    note a = attested_value[OF keeps_crypto[OF k2] hh assms(2,3,6,7) 3(1)]
    have kc: "c_transport (d_cr d2) = c_transport (d_cr d)" "c_master (d_cr d2) = c_master (d_cr d)" using k2 by (simp_all add: keeps_def)
    have f: "head' = \<lparr>ah_rpIdHash = ?h, ah_flags = (if ctap_is_pin_set d then 0x45 else 0x41), ah_signCount = u32_be_bytes count\<rparr>"
      using 3(3) by (cases head) (simp add: u(2))
    have "user_present ps" using True presence_test_zero[OF assms(4), of 1 d2] by (auto simp: but_def user_present_def CTAP_RESET_def)
    then show ?thesis using a 3 kc f keeps_trans[OF k2] by (auto simp: made_for_def)
  qed
qed

subsection \<open>hmac-secret\<close>

lemma mac_value_sim: "dev_sim d d' \<Longrightarrow> mac_value (d_cr d') = mac_value (d_cr d)"
  by (intro ext) (simp add: mac_value_def inner_key_def outer_key_def dev_sim_fields split: key_arg.split)

lemma aes_dec_value:
  assumes "crypto_ok (d_cr d)" "length key = 32"
  obtains d' where "aes_dec env key buf d = (l_cbc_dec (env_lib env) key (replicate 16 0) buf, d')" "dev_sim d d'"
  using dev_sim_cr[OF dev_sim_refl[OF assms(1)] cr_sim_aes(1)[OF cr_sim_refl[OF assms(1)]]] assms(2)
  by (simp add: aes_dec_def crypto_aes256_init_def crypto_aes256_decrypt_def)

lemma aes_enc_value:
  assumes "crypto_ok (d_cr d)" "length key = 32"
  obtains d' where "aes_enc env key buf d = (l_cbc_enc (env_lib env) key (replicate 16 0) buf, d')" "dev_sim d d'"
  using dev_sim_cr[OF dev_sim_refl[OF assms(1)] cr_sim_aes(1)[OF cr_sim_refl[OF assms(1)]]] assms(2)
  by (simp add: aes_enc_def crypto_aes256_init_def crypto_aes256_encrypt_def Let_def)

text \<open>The per-credential secret and the answer to a salt, under the key shared with the platform.\<close>

definition cred_random :: "crypto_state \<Rightarrow> bytes \<Rightarrow> u8 \<Rightarrow> bytes" where
  "cred_random cr cred uv = mac_value cr Transport_Key2 0 (cred @ [uv])"

definition salted :: "bytes \<Rightarrow> nat \<Rightarrow> bytes \<Rightarrow> bytes" where
  "salted random n salts = take n (hmac_sha256 random (take 32 salts)
     @ (if n = 64 then hmac_sha256 random (block salts 32 32) else []))"

definition hmac_reply :: "environ \<Rightarrow> hmac_secret \<Rightarrow> bytes \<Rightarrow> bytes \<Rightarrow> int + bytes" where
  "hmac_reply env hs key random =
     (let n = unat (hs_saltLen hs); enc = take n (hs_saltEnc hs) in
      if take 16 (hs_saltAuth hs) \<noteq> take 16 (hmac_sha256 key enc) then Inl CTAP2_ERR_EXTENSION_FIRST
      else Inr (l_cbc_enc (env_lib env) key (replicate 16 0)
        (salted random n (blit (hs_saltEnc hs) 0 (l_cbc_dec (env_lib env) key (replicate 16 0) enc)))))"

lemma key_mac:
  assumes "crypto_ok (d_cr d)" "length key = 32"
  obtains d' where "dev_hmac (Key_Ptr key) 32 [msg] d = Inr (hmac_sha256 key msg, d')" "dev_sim d d'"
  using dev_hmac_value[OF assms(1), of 32 "Key_Ptr key" "[msg]"] mac_value_simps(3)[OF assms(2)] by auto

lemma opt_mac:
  assumes "crypto_ok (d_cr d)" "length key = 32"
  obtains d' where "(if b then dev_hmac (Key_Ptr key) 32 [msg] d else Inr ([], d)) = Inr (if b then hmac_sha256 key msg else [], d')" "dev_sim d d'"
proof (cases b)
  case True
  obtain d' where "dev_hmac (Key_Ptr key) 32 [msg] d = Inr (hmac_sha256 key msg, d')" "dev_sim d d'"
    using key_mac[OF assms] .
  then show ?thesis using True that by simp
qed (use that[of d] assms in simp)

lemma hmac_output_value:
  assumes "crypto_ok (d_cr d)" "crypto_ecc256_shared_secret (env_lib env) (ck_x (hs_keyAgreement hs) @ ck_y (hs_keyAgreement hs)) (d_ka_priv d) = Some z"
  obtains d' where "hmac_secret_output env hs d = Inr (hmac_reply env hs (sha256 (take 32 z))
      (cred_random (d_cr d) (hs_cred_bytes env hs d) (gs_user_verified (d_ga d))), d')" "dev_sim d d'"
proof -
  let ?n = "unat (hs_saltLen hs)" and ?key = "sha256 (take 32 z)"
  let ?rnd = "cred_random (d_cr d) (hs_cred_bytes env hs d) (gs_user_verified (d_ga d))"
  have lk: "length ?key = 32" "length ?rnd = 32" by (simp_all add: cred_random_def)
  obtain d1 where 1: "dev_sha [take 32 z] d = (?key, d1)" "dev_sim d d1" using dev_sha_value[OF assms(1), of "[take 32 z]"] by auto
  obtain d2 where 2: "dev_hmac (Key_Ptr ?key) 32 [take ?n (hs_saltEnc hs)] d1 = Inr (hmac_sha256 ?key (take ?n (hs_saltEnc hs)), d2)" "dev_sim d1 d2"
    using key_mac[OF dev_sim_crypto[OF 1(2)] lk(1)] .
  note s2 = dev_sim_trans[OF 1(2) 2(2)]
  have e2: "hs_cred_bytes env hs d2 = hs_cred_bytes env hs d" "gs_user_verified (d_ga d2) = gs_user_verified (d_ga d)"
    using dev_sim_fields[OF s2] by (simp_all add: hs_cred_bytes_def split: option.split)
  obtain d3 where 3: "dev_hmac Transport_Key2 0 [hs_cred_bytes env hs d, [gs_user_verified (d_ga d)]] d2 = Inr (?rnd, d3)" "dev_sim d2 d3"
    using dev_hmac_value[OF dev_sim_crypto[OF s2], of 0 Transport_Key2 "[hs_cred_bytes env hs d, [gs_user_verified (d_ga d)]]"]
    by (auto simp: cred_random_def mac_value_sim[OF s2])
  let ?dec = "l_cbc_dec (env_lib env) ?key (replicate 16 0) (take ?n (hs_saltEnc hs))"
  obtain d4 where 4: "aes_dec env ?key (take ?n (hs_saltEnc hs)) d3 = (?dec, d4)" "dev_sim d3 d4"
    using aes_dec_value[OF dev_sim_crypto[OF 3(2)] lk(1)] .
  let ?salts = "blit (hs_saltEnc hs) 0 ?dec"
  obtain d5 where 5: "dev_hmac (Key_Ptr ?rnd) 32 [take 32 ?salts] d4 = Inr (hmac_sha256 ?rnd (take 32 ?salts), d5)" "dev_sim d4 d5"
    using key_mac[OF dev_sim_crypto[OF 4(2)] lk(2)] .
  let ?o2 = "if ?n = 64 then hmac_sha256 ?rnd (block ?salts 32 32) else []"
  obtain d6 where 6: "(if ?n = 64 then dev_hmac (Key_Ptr ?rnd) 32 [block ?salts 32 32] d5 else Inr ([], d5)) = Inr (?o2, d6)" "dev_sim d5 d6"
    using opt_mac[OF dev_sim_crypto[OF 5(2)] lk(2)] .
  let ?out = "take ?n (hmac_sha256 ?rnd (take 32 ?salts) @ ?o2)"
  obtain d7 where 7: "aes_enc env ?key ?out d6 = (l_cbc_enc (env_lib env) ?key (replicate 16 0) ?out, d7)" "dev_sim d6 d7"
    using aes_enc_value[OF dev_sim_crypto[OF 6(2)] lk(1)] .
  note s7 = dev_sim_trans[OF s2 dev_sim_trans[OF 3(2) dev_sim_trans[OF 4(2) dev_sim_trans[OF 5(2) dev_sim_trans[OF 6(2) 7(2)]]]]]
  show ?thesis
  proof (cases "take 16 (hs_saltAuth hs) = take 16 (hmac_sha256 ?key (take ?n (hs_saltEnc hs)))")
    case True
    then have "hmac_secret_output env hs d = Inr (Inr (l_cbc_enc (env_lib env) ?key (replicate 16 0) ?out), d7)"
      unfolding hmac_secret_output_def Let_def assms(2) halt_simps seqE_simps 1(1) split_conv 2(1) e2 3(1) 4(1) 5(1) 6(1) 7(1) by simp
    then show ?thesis using s7 True by (intro that[of d7]) (simp_all add: hmac_reply_def salted_def Let_def)
  next
    case False
    then have "hmac_secret_output env hs d = Inr (Inl CTAP2_ERR_EXTENSION_FIRST, d2)"
      unfolding hmac_secret_output_def Let_def assms(2) halt_simps seqE_simps 1(1) split_conv 2(1) by simp
    then show ?thesis using s2 False by (intro that[of d2]) (simp_all add: hmac_reply_def Let_def)
  qed
qed

lemma extensions_frame:
  assumes "crypto_ok (d_cr d)" "ctap_make_extensions env ex n d = Inr (r, d')"
  shows "dev_sim d d'"
proof (cases "ex_hmac_present ex = 2")
  case False
  then show ?thesis using assms
    by (auto simp: ctap_make_extensions_def Let_def split: sum.splits if_splits)
next
  case True
  then obtain x dx where x: "hmac_secret_output env (ex_hmac ex) d = Inr (x, dx)" using assms(2)
    by (auto simp: ctap_make_extensions_def seqE_Inr)
  then obtain z where z: "crypto_ecc256_shared_secret (env_lib env) (ck_x (hs_keyAgreement (ex_hmac ex)) @ ck_y (hs_keyAgreement (ex_hmac ex))) (d_ka_priv d) = Some z"
    by (cases "crypto_ecc256_shared_secret (env_lib env) (ck_x (hs_keyAgreement (ex_hmac ex)) @ ck_y (hs_keyAgreement (ex_hmac ex))) (d_ka_priv d)")
      (simp_all add: hmac_secret_output_def Let_def)
  obtain y dy where y: "hmac_secret_output env (ex_hmac ex) d = Inr (y, dy)" "dev_sim d dy" using hmac_output_value[OF assms(1) z] by metis
  have "d' = dy" using assms(2) True y(1) by (auto simp: ctap_make_extensions_def Let_def split: sum.splits if_splits)
  then show ?thesis using y(2) by simp
qed

subsection \<open>Frames of the checks\<close>

lemma sha_frame: "crypto_ok (d_cr d) \<Longrightarrow> dev_sim d (snd (dev_sha ds d))"
  by (metis dev_sha_value snd_conv)

lemma hmac_frame: "crypto_ok (d_cr d) \<Longrightarrow> klen \<le> 64 \<Longrightarrow> dev_hmac k klen ds d = Inr (m, d') \<Longrightarrow> dev_sim d d'"
  by (metis dev_hmac_value Inr_inject prod.inject)

lemma tag_frame: "crypto_ok (d_cr d) \<Longrightarrow> make_auth_tag h n c d = Inr (t, d') \<Longrightarrow> dev_sim d d'"
  by (auto simp: make_auth_tag_def seqE_Inr dest: hmac_frame[rotated 2])

lemma u2f_tag_frame: "crypto_ok (d_cr d) \<Longrightarrow> u2f_make_auth_tag kh app d = Inr (t, d') \<Longrightarrow> dev_sim d d'"
  by (auto simp: u2f_make_auth_tag_def seqE_Inr dest: hmac_frame[rotated 2])

lemma u2f_authenticate_frame:
  "crypto_ok (d_cr d) \<Longrightarrow> u2f_authenticate_credential kh len app d = Inr (b, d') \<Longrightarrow> dev_sim d d'"
  by (auto simp: u2f_authenticate_credential_def Let_def seqE_Inr dest: tag_frame u2f_tag_frame split: if_splits)

lemma authenticate_frame:
  assumes "crypto_ok (d_cr d)" "ctap_authenticate_credential rp desc d = Inr (b, d')"
  shows "dev_sim d d'"
proof -
  let ?p = "dev_sha [take (rp_size rp) (rp_id rp)] d"
  note s = sha_frame[OF assms(1), of "[take (rp_size rp) (rp_id rp)]"]
  show ?thesis
    using assms s dev_sim_trans[OF s] tag_frame[OF dev_sim_crypto[OF s]] u2f_authenticate_frame[OF dev_sim_crypto[OF s]]
    by (auto simp: ctap_authenticate_credential_def Let_def split_beta seqE_Inr split: if_splits)
qed

lemma check_metadata_frame:
  "crypto_ok (d_cr d) \<Longrightarrow> check_credential_metadata c v l d = Inr (r, d') \<Longrightarrow> dev_sim d d'"
  by (metis check_metadata_value Inr_inject prod.inject)

lemma exclude_keeps:
  "crypto_ok (d_cr d) \<Longrightarrow> exclude_loop cb ps MC n v cred d = Inr (r, d') \<Longrightarrow> keeps d d'"
proof (induction n arbitrary: v cred d)
  case (Suc n)
  obtain ret cred1 custom csize where p: "parse_credential_descriptor cb v (cred, gs_customCredId (d_ga d), gs_customCredIdSize (d_ga d))
      = (ret, (cred1, custom, csize))" by (metis prod_cases4)
  let ?d = "set_custom custom csize d"
  have k1: "keeps d ?d" using Suc(2) by simp
  note IH = keeps_trans[OF k1 Suc(1)[OF keeps_crypto[OF k1]]]
  consider "ret = CTAP2_ERR_CBOR_UNEXPECTED_TYPE" | "ret \<noteq> CTAP2_ERR_CBOR_UNEXPECTED_TYPE" "ret \<noteq> 0" | "ret \<noteq> CTAP2_ERR_CBOR_UNEXPECTED_TYPE" "ret = 0" by blast
  then show ?case
  proof cases
    case 1 then show ?thesis using Suc(3) p IH by (simp add: Let_def)
  next
    case 2 then show ?thesis using Suc(3) p k1 by (simp add: Let_def)
  next
    case 3
    obtain ours d2 where a: "ctap_authenticate_credential (mc_rp MC) cred1 ?d = Inr (ours, d2)"
      using Suc(3) p 3 by (auto simp: Let_def seqE_Inr)
    have k2: "keeps d d2" using keeps_trans[OF k1 dev_sim_keeps[OF authenticate_frame[OF keeps_crypto[OF k1] a]]] .
    obtain code d3 where c: "(if ours then check_credential_metadata (cr_id (cd_credential cred1)) (mc_pinAuthPresent MC \<noteq> 0) True d2
        else Inr (1, d2)) = Inr (code, d3)"
      using Suc(3) p 3 a by (auto simp: Let_def seqE_Inr)
    have k3: "keeps d d3"
      using c k2 keeps_trans[OF k2 dev_sim_keeps[OF check_metadata_frame[OF keeps_crypto[OF k2]]]] by (auto split: if_splits)
    have f: "keeps d d'" if "(case cb_advance cb v of (ret, v) \<Rightarrow>
        if ret \<noteq> 0 then Inr (ERR_PARSING, d3) else exclude_loop cb ps MC n v cred1 d3) = Inr (r, d')"
      using that k3 keeps_trans[OF k3 Suc(1)[OF keeps_crypto[OF k3]]] by (cases "cb_advance cb v") (auto split: if_splits)
    show ?thesis using Suc(3) p 3 a c k3 f by (auto simp: Let_def split: if_splits)
  qed
qed simp

lemma mc_exclude_keeps: "crypto_ok (d_cr d) \<Longrightarrow> mc_exclude cb env ps MC d = Inr (r, d') \<Longrightarrow> keeps d d'"
  by (auto simp: mc_exclude_def dest: exclude_keeps split: option.splits)

text \<open>What a request must have carried to get past the checks.\<close>

definition authorised :: "ctap_dev \<Rightarrow> bytes \<Rightarrow> bytes \<Rightarrow> bool" where
  "authorised d pinAuth cdh \<longleftrightarrow> take 16 pinAuth = take 16 (hmac_sha256 (d_pin_token d) (take 32 cdh))"

lemma verify_value:
  assumes "crypto_ok (d_cr d)" "length (d_pin_token d) = 16"
  obtains d' where "verify_pin_auth pinAuth cdh d = Inr (if authorised d pinAuth cdh then 0 else CTAP2_ERR_PIN_AUTH_INVALID, d')" "dev_sim d d'"
  using verify_mac_value[OF assms, of pinAuth "take 32 cdh"] by (auto simp: verify_pin_auth_def authorised_def)

lemma mc_checks_passed:
  assumes "crypto_ok (d_cr d)" "length (d_pin_token d) = 16" "mc_checks ps MC d = Inr (0, d')"
  shows "keeps d d' \<and> mc_parsed MC AND MC_requiredMask = MC_requiredMask
    \<and> (ctap_is_pin_set d \<or> mc_pinAuthPresent MC \<noteq> 0 \<longrightarrow> authorised d (mc_pinAuth MC) (mc_clientDataHash MC))"
proof -
  obtain dv where v: "verify_pin_auth (mc_pinAuth MC) (mc_clientDataHash MC) d
      = Inr (if authorised d (mc_pinAuth MC) (mc_clientDataHash MC) then 0 else CTAP2_ERR_PIN_AUTH_INVALID, dv)" "dev_sim d dv"
    using verify_value[OF assms(1,2)] .
  show ?thesis using assms(1,3) v dev_sim_keeps[OF v(2)]
    by (auto simp: mc_checks_def Let_def CTAP2_ERR_PIN_AUTH_INVALID_def CTAP2_ERR_PIN_NOT_SET_def ERR_MISSING_def
        CTAP2_ERR_PIN_REQUIRED_def CTAP2_ERR_INVALID_OPTION_def split: if_splits)
qed

subsection \<open>The response\<close>

definition mc_reply :: "environ \<Rightarrow> bytes \<Rightarrow> bytes \<Rightarrow> enc list" where
  "mc_reply env auth sig =
     [EMap 3, EInt 1, EText ''packed'', EInt 2, EBytes auth,
      EInt 3, EMap 3, EText ''alg'', EInt COSE_ALG_ES256, EText ''sig'', EBytes sig,
      EText ''x5c'', EArr 1, EBytes (env_cert env), EClose, EClose, EClose]"

lemma mc_reply_wf: "enc_wf (mc_reply env auth sig)"
  by (simp add: mc_reply_def enc_wf_def)

text \<open>A signature under a key over some data.\<close>

definition signed_by :: "environ \<Rightarrow> bytes \<Rightarrow> ecc_curve \<Rightarrow> bytes \<Rightarrow> bytes \<Rightarrow> bool" where
  "signed_by env key curve data sig \<longleftrightarrow> (\<exists>s n. l_sign (env_lib env) curve key (sha256 data) n = Some s \<and> sig = der_bytes s)"

lemma signature_value:
  assumes "crypto_ok (d_cr d)" "ctap_calculate_signature env data cdh d = Inr (h, sd, d')"
  shows "signed_by env (c_signing_key (d_cr d)) (c_curve (d_cr d)) (data @ take 32 cdh) (take (nat (fst sd)) (snd sd))" "count_sim d d'"
proof -
  obtain d1 where 1: "dev_sha [data, take 32 cdh] d = (sha256 (data @ take 32 cdh), d1)" "dev_sim d d1"
    using dev_sha_value[OF assms(1), of "[data, take 32 cdh]"] by auto
  have s: "c_signing_key (d_cr d1) = c_signing_key (d_cr d)" "c_curve (d_cr d1) = c_curve (d_cr d)"
    using 1(2) cr_sim_fields[of "d_cr d" "d_cr d1"] by (auto simp: dev_sim_def)
  obtain sig d2 where 2: "dev_sign env (sha256 (data @ take 32 cdh)) d1 = Inr (sig, d2)" "sd = ctap_encode_der_sig sig" "d' = d2"
    using assms(2) 1(1) by (auto simp: ctap_calculate_signature_def seqE_Inr)
  from dev_sign_value[OF dev_sim_crypto[OF 1(2)], of env "sha256 (data @ take 32 cdh)"] 2
  have "l_sign (env_lib env) (c_curve (d_cr d)) (c_signing_key (d_cr d)) (sha256 (data @ take 32 cdh)) (c_rng (d_cr d1)) = Some sig" "count_sim d1 d2"
    by (auto simp: s)
  then show "signed_by env (c_signing_key (d_cr d)) (c_curve (d_cr d)) (data @ take 32 cdh) (take (nat (fst sd)) (snd sd))" "count_sim d d'"
    using 2(2,3) count_sim_trans[OF dev_sim_count[OF 1(2)]] by (auto simp: signed_by_def der_bytes_def split_beta)
qed

text \<open>The authenticator data of a new credential.\<close>

definition mc_auth :: "environ \<Rightarrow> bool \<Rightarrow> bytes \<Rightarrow> credential_id \<Rightarrow> bytes \<Rightarrow> bytes" where
  "mc_auth env pin master c ext =
     ci_rpIdHash c @ [(if pin then 0x45 else 0x41) OR (if ext \<noteq> [] then 0x80 else 0)] @ u32_be_bytes (ci_count c)
     @ env_aaguid env @ [0, 70] @ cid_image c @ env_enc env (cose_of env master c) @ ext"

lemma mc_respond_run:
  assumes "crypto_ok (d_cr d)" "lib_ok (env_lib env)" "enc_room env" "presence_ok ps" "\<not> d_up_off d"
    and "in_type (mc_credInfo MC) = 1" "in_alg (mc_credInfo MC) = COSE_ALG_ES256"
    and "mc_respond env ps err MC d = Inr (Inr tr, d')"
  shows "user_present ps \<and> keeps d d' \<and> (\<exists>c ext sig. tr = mc_reply env (mc_auth env (ctap_is_pin_set d) (c_master (d_cr d)) c ext) sig
      \<and> made_for (c_transport (d_cr d)) (mc_rp MC) c \<and> metadata_of (c_transport (d_cr d)) c = ex_cred_protect (mc_extensions MC)
      \<and> signed_by env (env_att_key env) (c_curve (d_cr d))
          (mc_auth env (ctap_is_pin_set d) (c_master (d_cr d)) c ext @ take 32 (mc_clientDataHash MC)) sig)"
proof -
  let ?h0 = "\<lparr>ah_rpIdHash = zeros 32, ah_flags = 0, ah_signCount = zeros 4\<rparr>"
  obtain t1 where t1: "emits err [EMap 3, EInt 1, EText ''packed''] [] = Inr t1" using assms(8)
    by (cases "emits err [EMap 3, EInt 1, EText ''packed''] []") (simp_all add: mc_respond_def)
  obtain r head att d1 where 1: "ctap_make_auth_data env ps (mc_rp MC) 310 ?h0 (Some (mc_credInfo MC)) (ex_cred_protect (mc_extensions MC)) d
      = Inr (r, head, att, d1)" using assms(8) t1 by (auto simp: mc_respond_def seqE_Inr)
  note a = auth_data_run[OF assms(1-7) 1]
  have r0: "r = 0" using assms(8) t1 1 by (auto simp: mc_respond_def split: if_splits)
  obtain c where c: "att = Some (c, env_enc env (cose_of env (c_master (d_cr d)) c))" "made_for (c_transport (d_cr d)) (mc_rp MC) c"
    "metadata_of (c_transport (d_cr d)) c = ex_cred_protect (mc_extensions MC)" "user_present ps" "keeps d d1"
    "head = \<lparr>ah_rpIdHash = ci_rpIdHash c, ah_flags = (if ctap_is_pin_set d then 0x45 else 0x41), ah_signCount = u32_be_bytes (ci_count c)\<rparr>"
    using a r0 by blast
  let ?n = "310 - length (auth_data_image env head att)"
  have nInl: "ctap_make_extensions env (mc_extensions MC) ?n d1 \<noteq> Inl x" "ctap_make_extensions env (mc_extensions MC) ?n d1 \<noteq> Inr (Inl y, x)" for x y
    using assms(8) t1 1 r0 by (auto simp: mc_respond_def Let_def simp del: emits.simps)
  then obtain ext d2 where 2: "ctap_make_extensions env (mc_extensions MC) ?n d1 = Inr (Inr ext, d2)"
    by (metis obj_sumE surj_pair)
  have k2: "keeps d d2" using keeps_trans[OF c(5) dev_sim_keeps[OF extensions_frame[OF keeps_crypto[OF c(5)] 2]]] .
  let ?head = "if ext \<noteq> [] then head\<lparr>ah_flags := ah_flags head OR 0x80\<rparr> else head"
  let ?auth = "auth_data_image env ?head att @ ext"
  have au: "?auth = mc_auth env (ctap_is_pin_set d) (c_master (d_cr d)) c ext"
    by (simp add: auth_data_image_def mc_auth_def head_image_def c(1,6))
  let ?d3 = "d2\<lparr>d_cr := crypto_ecc256_load_attestation_key (env_att_key env) (d_cr d2)\<rparr>"
  have e: "mc_respond env ps err MC d = (case emits err [EInt 2, EBytes ?auth] t1 of Inl e \<Rightarrow> Inr (Inl e, d2)
      | Inr tr \<Rightarrow> seqE (ctap_calculate_signature env ?auth (mc_clientDataHash MC) ?d3) (\<lambda>(_, (sigder_sz, sigder), d).
          Inr (seqE (ctap_add_attest_statement env err (take (nat sigder_sz) sigder) tr) (emits err [EClose]), d)))"
    by (simp only: mc_respond_def t1 1 r0 2 Let_def sum.case seqE_simps split_conv simp_thms if_False)
  obtain t2 where t2: "emits err [EInt 2, EBytes ?auth] t1 = Inr t2"
    using assms(8) e by (cases "emits err [EInt 2, EBytes ?auth] t1") (auto simp del: emits.simps)
  have l: "cr_loose (d_cr d2) (crypto_ecc256_load_attestation_key (env_att_key env) (d_cr d2))"
    using keeps_crypto[OF k2] cr_loose_key[OF cr_sim_refl] by (simp add: crypto_ecc256_load_attestation_key_def)
  have k3: "keeps d ?d3" using cr_keeps[OF k2 l] .
  obtain h sd d4 where 4: "ctap_calculate_signature env ?auth (mc_clientDataHash MC) ?d3 = Inr (h, sd, d4)" "d' = d4"
    "seqE (ctap_add_attest_statement env err (take (nat (fst sd)) (snd sd)) t2) (emits err [EClose]) = Inr tr"
    using assms(8) e t2 by (auto simp: seqE_Inr simp del: emits.simps)
  note sg = signature_value[OF keeps_crypto[OF k3] 4(1)]
  have key: "c_signing_key (d_cr ?d3) = env_att_key env" by (simp add: crypto_ecc256_load_attestation_key_def)
  have cv: "c_curve (d_cr ?d3) = c_curve (d_cr d)" using k3 by (simp add: keeps_def)
  have tr: "tr = mc_reply env ?auth (take (nat (fst sd)) (snd sd))"
    using 4(3) emits_Inr[OF t1] emits_Inr[OF t2]
    by (auto simp: ctap_add_attest_statement_def seqE_Inr mc_reply_def dest!: emits_Inr split: if_splits)
  have k4: "keeps d d'" using keeps_trans[OF k3 count_sim_keeps[OF sg(2)]] 4(2) by simp
  show ?thesis using sg(1)[unfolded key cv] tr c(2-4) k4 unfolding au by blast
qed

subsection \<open>The command\<close>

text \<open>Only ES256 is accepted: a parsed algorithm is that one.\<close>

definition alg_ok :: "'a make_credential_scheme \<Rightarrow> bool" where
  "alg_ok MC \<longleftrightarrow> (mc_parsed MC AND 8 = 8 \<longrightarrow> in_type (mc_credInfo MC) = 1 \<and> in_alg (mc_credInfo MC) = COSE_ALG_ES256)"

lemma params_alg: "alg_ok MC \<Longrightarrow> alg_ok (snd (parse_pub_key_cred_params cb v MC))"
proof -
  assume a: "alg_ok MC"
  define Q where "Q s \<longleftrightarrow> (snd s \<longrightarrow> fst s = (PK_CRED, COSE_ALG_ES256))" for s :: "(u8 \<times> int) \<times> bool"
  have "Q (snd (snd (param_choose cb v s)))" for v s
    by (auto simp: param_choose_def Q_def advance_end_def pub_key_cred_param_supported_def COSE_ALG_ES256_def split_beta prod_eq_iff)
  then have "Q (snd (snd (parse_loop (param_choose cb) n arr (out, False))))" for n arr out
    by (intro parse_loop_inv[where P = Q]) (simp_all add: Q_def)
  then show ?thesis using a
    by (auto simp: parse_pub_key_cred_params_def split_beta Q_def alg_ok_def PK_CRED_def prod_eq_iff)
qed

lemma alg_fields:
  assumes "alg_ok MC"
  shows "alg_ok (MC\<lparr>mc_clientDataHash := b, mc_parsed := CPARAM 0 (mc_parsed MC)\<rparr>)" "alg_ok (MC\<lparr>mc_clientDataHash := b\<rparr>)"
    "alg_ok (MC\<lparr>mc_rp := rp, mc_parsed := CPARAM (Suc 0) (mc_parsed MC)\<rparr>)" "alg_ok (MC\<lparr>mc_rp := rp\<rparr>)"
    "alg_ok (set_user u MC)" "alg_ok ((set_user u MC)\<lparr>mc_parsed := CPARAM 2 (mc_parsed (set_user u MC))\<rparr>)"
    "alg_ok (MC\<lparr>mc_extensions := e\<rparr>)" "alg_ok (MC\<lparr>mc_credInfo := (mc_credInfo MC)\<lparr>in_rk := x\<rparr>, mc_uv := y, mc_up := z\<rparr>)"
    "alg_ok (MC\<lparr>mc_pinAuthEmpty := p\<rparr>)" "alg_ok (MC\<lparr>mc_pinAuth := b\<rparr>)"
    "alg_ok (MC\<lparr>mc_pinAuth := b, mc_pinAuthPresent := p\<rparr>)" "alg_ok (MC\<lparr>mc_pinProtocol := i\<rparr>)"
proof -
  have b: "CPARAM i w AND 8 = w AND 8" if "i < 3" for i w
  proof -
    have "i = 0 \<or> i = 1 \<or> i = 2" using that by auto
    then show ?thesis by (auto simp: CPARAM_def bit.conj_disj_distrib2)
  qed
  show "alg_ok (MC\<lparr>mc_clientDataHash := b, mc_parsed := CPARAM 0 (mc_parsed MC)\<rparr>)" "alg_ok (MC\<lparr>mc_clientDataHash := b\<rparr>)"
    "alg_ok (MC\<lparr>mc_rp := rp, mc_parsed := CPARAM (Suc 0) (mc_parsed MC)\<rparr>)" "alg_ok (MC\<lparr>mc_rp := rp\<rparr>)"
    "alg_ok (set_user u MC)" "alg_ok ((set_user u MC)\<lparr>mc_parsed := CPARAM 2 (mc_parsed (set_user u MC))\<rparr>)"
    "alg_ok (MC\<lparr>mc_extensions := e\<rparr>)" "alg_ok (MC\<lparr>mc_credInfo := (mc_credInfo MC)\<lparr>in_rk := x\<rparr>, mc_uv := y, mc_up := z\<rparr>)"
    "alg_ok (MC\<lparr>mc_pinAuthEmpty := p\<rparr>)" "alg_ok (MC\<lparr>mc_pinAuth := b\<rparr>)"
    "alg_ok (MC\<lparr>mc_pinAuth := b, mc_pinAuthPresent := p\<rparr>)" "alg_ok (MC\<lparr>mc_pinProtocol := i\<rparr>)"
    using assms by (simp_all add: alg_ok_def set_user_def b)
qed

lemma alg_exclude: "alg_ok MC \<Longrightarrow> alg_ok (MC\<lparr>mp_excludeList := l\<rparr>) \<and> alg_ok (MC\<lparr>mp_excludeList := l, mp_excludeListSize := n\<rparr>)"
  by (simp add: alg_ok_def)

lemma mc_value_alg: "alg_ok (fst s) \<Longrightarrow> alg_ok (fst (snd (mc_value cb key v s)))"
  by (cases s) (simp add: mc_value_def split_beta params_alg alg_fields parse_user_def mc_exclude_value_def Let_def alg_exclude)

lemma parse_mc_alg:
  fixes cb :: "'v cbor"
  shows "alg_ok (fst (snd (ctap_parse_make_credential cb request custom)))"
proof -
  have z: "alg_ok (fst ((mc_zero :: 'v mc_parse)\<lparr>mc_up := 0xff\<rparr>, custom))" by (simp add: alg_ok_def mc_zero_def)
  show ?thesis using z int_loop_inv(1)[where P = "\<lambda>s. alg_ok (fst s)" and f = "mc_value cb", OF mc_value_alg z]
    by (simp add: ctap_parse_make_credential_def split_beta Let_def)
qed

lemma mask_has_alg: "w AND MC_requiredMask = MC_requiredMask \<Longrightarrow> w AND 8 = 8"
proof -
  assume a: "w AND MC_requiredMask = MC_requiredMask"
  have m: "MC_requiredMask AND 8 = 8" by (simp add: MC_requiredMask_def)
  then have "w AND 8 = (w AND MC_requiredMask) AND 8" by (simp add: and.assoc)
  then show ?thesis using a m by simp
qed

lemma make_credential_run:
  assumes "crypto_ok (d_cr d)" "length (d_pin_token d) = 16" "lib_ok (env_lib env)" "enc_room env" "presence_ok ps" "\<not> d_up_off d"
    and parse: "ctap_parse_make_credential cb request (gs_customCredId (d_ga d), gs_customCredIdSize (d_ga d)) = (ret, MC, cust)"
    and "ctap_make_credential cb env ps err request d = Inr (Inr tr, d')"
  shows "user_present ps \<and> (ctap_is_pin_set d \<or> mc_pinAuthPresent MC \<noteq> 0 \<longrightarrow> authorised d (mc_pinAuth MC) (mc_clientDataHash MC))
    \<and> keeps d d' \<and> (\<exists>c ext sig. tr = mc_reply env (mc_auth env (ctap_is_pin_set d) (c_master (d_cr d)) c ext) sig
      \<and> made_for (c_transport (d_cr d)) (mc_rp MC) c \<and> metadata_of (c_transport (d_cr d)) c = ex_cred_protect (mc_extensions MC)
      \<and> signed_by env (env_att_key env) (c_curve (d_cr d))
          (mc_auth env (ctap_is_pin_set d) (c_master (d_cr d)) c ext @ take 32 (mc_clientDataHash MC)) sig)"
proof -
  obtain custom csize where cu: "cust = (custom, csize)" by fastforce
  let ?d0 = "set_custom custom csize d"
  have k0: "keeps d ?d0" using assms(1) by simp
  have ret0: "ret = 0" using assms(8) parse cu by (auto simp: ctap_make_credential_def Let_def split: if_splits)
  obtain r1 d1 where c1: "mc_checks ps MC ?d0 = Inr (r1, d1)" using assms(8) parse cu ret0 by (auto simp: ctap_make_credential_def Let_def seqE_Inr)
  have r1: "r1 = 0" using assms(8) parse cu ret0 c1 by (auto simp: ctap_make_credential_def Let_def split: if_splits)
  have t0: "length (d_pin_token ?d0) = 16" using assms(2) by (simp add: set_custom_def)
  note ch = mc_checks_passed[OF keeps_crypto[OF k0] t0 c1[unfolded r1]]
  have k1: "keeps d d1" using keeps_trans[OF k0] ch by blast
  obtain r2 d2 where c2: "mc_exclude cb env ps MC d1 = Inr (r2, d2)" using assms(8) parse cu ret0 c1 r1 by (auto simp: ctap_make_credential_def Let_def seqE_Inr)
  have r2: "r2 = 0" using assms(8) parse cu ret0 c1 r1 c2 by (auto simp: ctap_make_credential_def Let_def split: if_splits)
  have k2: "keeps d d2" using keeps_trans[OF k1 mc_exclude_keeps[OF keeps_crypto[OF k1] c2]] .
  have res: "mc_respond env ps err MC d2 = Inr (Inr tr, d')" using assms(8) parse cu ret0 c1 r1 c2 r2 by (simp add: ctap_make_credential_def Let_def)
  have alg: "in_type (mc_credInfo MC) = 1" "in_alg (mc_credInfo MC) = COSE_ALG_ES256"
    using parse_mc_alg[of cb request "(gs_customCredId (d_ga d), gs_customCredIdSize (d_ga d))"] mask_has_alg ch parse by (auto simp: alg_ok_def)
  have up: "\<not> d_up_off d2" using k2 assms(6) by (simp add: keeps_def)
  note run = mc_respond_run[OF keeps_crypto[OF k2] assms(3-5) up alg res]
  have e: "c_master (d_cr d2) = c_master (d_cr d)" "c_transport (d_cr d2) = c_transport (d_cr d)" "c_curve (d_cr d2) = c_curve (d_cr d)"
    "ctap_is_pin_set d2 = ctap_is_pin_set d" using k2 keeps_pin[OF k2] by (simp_all add: keeps_def)
  have a: "ctap_is_pin_set ?d0 = ctap_is_pin_set d" "authorised ?d0 = authorised d"
    by (simp_all add: set_custom_def ctap_is_pin_set_def authorised_def fun_eq_iff)
  show ?thesis using run[unfolded e] ch[unfolded a] keeps_trans[OF k2] by blast
qed

end
