(* ===== verification/MakeCredClaims.thy ===== *)
theory MakeCredClaims
  imports MakeCredProps
begin

text \<open>
  The promises of authenticatorMakeCredential, and that it answers: a well-formed request with consent
  always produces a credential.
\<close>

subsection \<open>The command answers\<close>

lemma update_count_live:
  assumes "env_ok env" "counter_inv d" "crypto_ok (d_cr d)" "counter_floor (d_flash d) < 2 ^ 31"
  obtains w d' where "auth_data_update_count env h d = Inr (w, h\<lparr>ah_signCount := u32_be_bytes w\<rparr>, d')" "count_sim d d'"
    "w \<noteq> 0" "w \<noteq> 0xffffffff" "c_signing_key (d_cr d') = c_signing_key (d_cr d)"
    "counter_inv d'" "counter_floor (d_flash d) < unat w" "counter_floor (d_flash d') = unat w" "unat w \<le> counter_floor (d_flash d) + 256"
proof -
  obtain w d' where c: "dev_atomic_count env 0 d = Inr (w, d')" "count_sim d d'" "counter_floor (d_flash d) < unat w"
    "unat w \<le> counter_floor (d_flash d) + 256" "c_signing_key (d_cr d') = c_signing_key (d_cr d)"
    "counter_inv d'" "counter_floor (d_flash d') = unat w"
    by (rule dev_count_value[OF assms, of 0]) auto
  have "w \<noteq> 0" "w \<noteq> 0xffffffff" using c(3,4) assms(4) by auto
  then show ?thesis using c that by (simp add: auth_data_update_count_def)
qed

lemma rk_request_ok:
  assumes "user_ok u" "cid_ok c" "length (rp_id rp) = 254"
  shows "rk_ok (rk_of_request rp u c)" "rk_id (rk_of_request rp u c) = c"
  using assms by (simp_all add: rk_of_request_def rk_ok_def rk_zero_def Let_def blit_def)

lemma room_upsert:
  assumes "length (valid_slots ks) < length ks"
  shows "upsert rk ks \<noteq> None"
proof -
  have "\<exists>j<length ks. \<not> ctap_rk_is_valid (ks ! j)"
  proof (rule ccontr)
    assume "\<not> ?thesis"
    then have "filter ctap_rk_is_valid ks = ks" by (auto simp: filter_id_conv in_set_conv_nth)
    then show False using assms by (simp add: length_valid_slots)
  qed
  then have "free_slot ks \<noteq> None" by (auto simp: free_slot_def find_None_iff simp del: not_None_eq)
  then show ?thesis by (auto simp: upsert_def split: option.split)
qed

lemma attested_live:
  assumes "dev_ok d" "env_ok env" "rk_counted d" "lib_ok (env_lib env)" "enc_room env"
    and "ah_rpIdHash head = sha256 (take (rp_size rp) (rp_id rp))" "in_type ci = 1" "in_alg ci = COSE_ALG_ES256"
    and "user_ok (in_user ci)" "length (rp_id rp) = 254" "count \<noteq> 0" "count \<noteq> 0xffffffff"
    and "in_rk ci = 0 \<or> length (valid_slots (rk_slots (d_flash d))) < 50"
  obtains c cose d' where "attested_data env rp 310 head count ci protect d = Inr (0, c, cose, d')" "crypto_ok (d_cr d')"
proof -
  note cr = dev_ok_crypto[OF assms(1)]
  obtain c d1 where m: "make_credential_id env head count protect d = Inr (c, d1)" "count_sim d d1"
    "made_for (c_transport (d_cr d)) rp c" "ci_count c = count"
    using make_id_value[OF cr assms(6), of env count protect] by metis
  note ok1 = count_sim_ok[OF assms(1) m(2)] count_sim_counted[OF m(2) assms(3)]
  have cid: "cid_ok c" using m(3) by (simp add: made_for_def)
  let ?rk = "rk_of_request rp (in_user ci) c"
  note rk = rk_request_ok[OF assms(9) cid assms(10)]
  have v: "ctap_rk_is_valid ?rk" using m(4) assms(11,12) by (simp add: ctap_rk_is_valid_def rk(2) word_gt_0)
  obtain d2 where s: "(if in_rk ci \<noteq> 0 then store_resident env ?rk d1 else (0, d1)) = (0, d2)" "crypto_ok (d_cr d2)"
  proof (cases "in_rk ci = 0")
    case True
    then show ?thesis using that[of d1] dev_ok_crypto[OF ok1(1)] by simp
  next
    case False
    then have "upsert ?rk (rk_slots (d_flash d1)) \<noteq> None"
      using room_upsert[of "rk_slots (d_flash d1)"] assms(13) count_sim_table[OF m(2)] by simp
    then show ?thesis using store_resident_upsert[OF ok1(1) assms(2) ok1(2) rk(1) v] that False dev_ok_crypto by auto
  qed
  obtain cr' where g: "ctap_generate_cose_key (env_lib env) (env_enc_err env 185) (cid_image c) 1 COSE_ALG_ES256 [] (d_cr d2)
      = Some (Inr (cose_of env (c_master (d_cr d2)) c), cr')" "cr_sim (d_cr d2) cr'"
    using cose_value[OF s(2) assms(4,5)] .
  have "attested_data env rp 310 head count ci protect d = Inr (0, c, env_enc env (cose_of env (c_master (d_cr d2)) c), d2\<lparr>d_cr := cr'\<rparr>)"
    using m(1) s(1) g(1) assms(7,8) by (simp add: attested_data_def)
  then show ?thesis using that cr_sim_ok[OF g(2)] by simp
qed

lemma respond_live:
  assumes "dev_ok d" "env_ok env" "rk_counted d" "counter_inv d" "counter_floor (d_flash d) < 2 ^ 31" "lib_ok (env_lib env)" "enc_room env"
    and "\<And>k h n. l_sign (env_lib env) (c_curve (d_cr d)) k h n \<noteq> None" "length (env_cert env) \<le> 1024"
    and "presence_ok ps" "\<not> d_up_off d" "user_present ps"
    and ci: "in_type (mc_credInfo MC) = 1" "in_alg (mc_credInfo MC) = COSE_ALG_ES256" "user_ok (in_user (mc_credInfo MC))"
      "length (rp_id (mc_rp MC)) = 254"
    and rk: "in_rk (mc_credInfo MC) = 0 \<or> length (valid_slots (rk_slots (d_flash d))) < 50"
    and ex: "ex_hmac_present (mc_extensions MC) = 0" "ex_cred_protect (mc_extensions MC) \<notin> {1, 2, 3}"
  shows "\<exists>tr d'. mc_respond env ps (\<lambda>_ _. 0) MC d = Inr (Inr tr, d')"
proof -
  let ?rp = "mc_rp MC" and ?hd = "\<lparr>ah_rpIdHash = zeros 32, ah_flags = 0, ah_signCount = zeros 4\<rparr>"
  let ?h = "sha256 (take (rp_size ?rp) (rp_id ?rp))" and ?protect = "ex_cred_protect (mc_extensions MC)"
  note cr = dev_ok_crypto[OF assms(1)]
  obtain d1 where 1: "dev_sha [take (rp_size ?rp) (rp_id ?rp)] d = (?h, d1)" "dev_sim d d1"
    using dev_sha_value[OF cr, of "[take (rp_size ?rp) (rp_id ?rp)]"] by auto
  have i1: "counter_inv d1" "crypto_ok (d_cr d1)" "counter_floor (d_flash d1) < 2 ^ 31"
    using assms(4,5) dev_sim_fields[OF 1(2)] by (simp_all add: counter_inv_def)
  obtain w d2 where 2: "auth_data_update_count env (?hd\<lparr>ah_rpIdHash := ?h\<rparr>) d1 = Inr (w, ?hd\<lparr>ah_rpIdHash := ?h, ah_signCount := u32_be_bytes w\<rparr>, d2)"
    "count_sim d1 d2" "w \<noteq> 0" "w \<noteq> 0xffffffff"
    by (rule update_count_live[OF assms(2) i1, of "?hd\<lparr>ah_rpIdHash := ?h\<rparr>"]) auto
  have s2: "count_sim d d2" using count_sim_trans[OF dev_sim_count[OF 1(2)] 2(2)] .
  note ok2 = count_sim_ok[OF assms(1) s2] count_sim_counted[OF s2 assms(3)]
  have but: "ctap2_user_presence_test 1 ps d2 = 0"
    using presence_test_zero[OF assms(10)] assms(11,12) count_sim_fields(8)[OF s2] by (auto simp: user_present_def CTAP_RESET_def)
  let ?h3 = "\<lparr>ah_rpIdHash = ?h, ah_flags = ((1 OR (if ctap_is_pin_set d2 then 4 else 0)) OR 0x40), ah_signCount = u32_be_bytes w\<rparr>"
  have rk2: "in_rk (mc_credInfo MC) = 0 \<or> length (valid_slots (rk_slots (d_flash d2))) < 50" using rk count_sim_table[OF s2] by simp
  have hh: "ah_rpIdHash ?h3 = ?h" by simp
  obtain c cose d3 where 3: "attested_data env ?rp 310 ?h3 w (mc_credInfo MC) ?protect d2 = Inr (0, c, cose, d3)" "crypto_ok (d_cr d3)"
    using attested_live[OF ok2(1) assms(2) ok2(2) assms(6,7) hh ci(1-4) 2(3,4) rk2] .
  have a: "ctap_make_auth_data env ps ?rp 310 ?hd (Some (mc_credInfo MC)) ?protect d = Inr (0, ?h3, Some (c, cose), d3)"
    using 1(1) 2(1) 3(1) but by (simp add: ctap_make_auth_data_def Let_def CTAP2_ERR_PROCESSING_def)
  let ?att = "Some (c, cose)"
  have x: "ctap_make_extensions env (mc_extensions MC) n d3 = Inr (Inr [], d3)" for n
    using ex by (simp add: ctap_make_extensions_def extensions_used_def)
  let ?auth = "auth_data_image env ?h3 ?att"
  let ?d4 = "d3\<lparr>d_cr := crypto_ecc256_load_attestation_key (env_att_key env) (d_cr d3)\<rparr>"
  have k4: "crypto_ok (d_cr ?d4)" using 3(2) by (simp add: crypto_ecc256_load_attestation_key_def crypto_ok_def)
  obtain d5 where 5: "dev_sha [?auth, take 32 (mc_clientDataHash MC)] ?d4 = (sha256 (?auth @ take 32 (mc_clientDataHash MC)), d5)" "dev_sim ?d4 d5"
    using dev_sha_value[OF k4, of "[?auth, take 32 (mc_clientDataHash MC)]"] by auto
  have "keeps d d3"
    using auth_data_run[OF cr assms(6,7,10,11) ci(1,2) a] by blast
  then have "c_curve (d_cr d5) = c_curve (d_cr d)"
    using 5(2) count_sim_fields(12)[OF dev_sim_count[OF 5(2)]] by (simp add: keeps_def crypto_ecc256_load_attestation_key_def)
  then obtain sig d6 where 6: "dev_sign env (sha256 (?auth @ take 32 (mc_clientDataHash MC))) d5 = Inr (sig, d6)"
    using dev_sign_value[OF dev_sim_crypto[OF 5(2)], of env "sha256 (?auth @ take 32 (mc_clientDataHash MC))"] assms(8) by auto
  have "ctap_calculate_signature env ?auth (mc_clientDataHash MC) ?d4 = Inr (sha256 (?auth @ take 32 (mc_clientDataHash MC)), ctap_encode_der_sig sig, d6)"
    using 5(1) 6 by (simp add: ctap_calculate_signature_def)
  then show ?thesis
    using a x assms(9) by (simp add: mc_respond_def Let_def emits_no_err split_beta ctap_add_attest_statement_def)
qed

text \<open>A request that asks for nothing special.\<close>

definition plain_request :: "'v mc_parse \<Rightarrow> bool" where
  "plain_request MC \<longleftrightarrow> mc_parsed MC AND MC_requiredMask = MC_requiredMask \<and> mc_pinAuthEmpty MC = 0 \<and> mc_up MC \<notin> {0, 1}
     \<and> mp_excludeList MC = None \<and> ex_hmac_present (mc_extensions MC) = 0 \<and> ex_cred_protect (mc_extensions MC) \<notin> {1, 2, 3}"

lemma make_credential_live:
  assumes "dev_ok d" "env_ok env" "rk_counted d" "counter_inv d" "counter_floor (d_flash d) < 2 ^ 31" "lib_ok (env_lib env)" "enc_room env"
    and "\<And>k h n. l_sign (env_lib env) (c_curve (d_cr d)) k h n \<noteq> None" "length (env_cert env) \<le> 1024"
    and "presence_ok ps" "\<not> d_up_off d" "user_present ps" "cbor_ok cb" "length (gs_customCredId (d_ga d)) = 256"
    and parse: "ctap_parse_make_credential cb request (gs_customCredId (d_ga d), gs_customCredIdSize (d_ga d)) = (0, MC, cust)"
    and plain: "plain_request MC"
    and auth: "ctap_is_pin_set d \<Longrightarrow> mc_pinAuthPresent MC \<noteq> 0" "mc_pinAuthPresent MC \<noteq> 0 \<Longrightarrow> authorised d (mc_pinAuth MC) (mc_clientDataHash MC)"
    and rk: "in_rk (mc_credInfo MC) = 0 \<or> length (valid_slots (rk_slots (d_flash d))) < 50"
  shows "\<exists>tr d'. ctap_make_credential cb env ps (\<lambda>_ _. 0) request d = Inr (Inr tr, d')"
proof -
  obtain custom csize where cu: "cust = (custom, csize)" by fastforce
  let ?d0 = "set_custom custom csize d"
  have s0: "d_st ?d0 = d_st d" "d_flash ?d0 = d_flash d" "d_cr ?d0 = d_cr d" "d_pin_token ?d0 = d_pin_token d" "d_sc ?d0 = d_sc d" "d_up_off ?d0 = d_up_off d"
    by (simp_all add: set_custom_def)
  have p0: "ctap_is_pin_set ?d0 = ctap_is_pin_set d" "authorised ?d0 = authorised d"
    by (simp_all add: ctap_is_pin_set_def authorised_def fun_eq_iff s0)
  have t0: "crypto_ok (d_cr ?d0)" "length (d_pin_token ?d0) = 16" using assms(1) by (simp_all add: dev_ok_def s0)
  have ok0: "dev_ok ?d0" "rk_counted ?d0" "counter_inv ?d0" using assms(1,3,4) by (simp_all add: dev_ok_def rk_counted_def counter_inv_def s0)
  obtain dv where v: "verify_pin_auth (mc_pinAuth MC) (mc_clientDataHash MC) ?d0
      = Inr (if authorised ?d0 (mc_pinAuth MC) (mc_clientDataHash MC) then 0 else CTAP2_ERR_PIN_AUTH_INVALID, dv)" "dev_sim ?d0 dv"
    using verify_value[OF t0] .
  obtain d1 where c1: "mc_checks ps MC ?d0 = Inr (0, d1)" "dev_sim ?d0 d1"
  proof (cases "ctap_is_pin_set d \<or> mc_pinAuthPresent MC \<noteq> 0")
    case True
    then have p: "mc_pinAuthPresent MC \<noteq> 0" "authorised ?d0 (mc_pinAuth MC) (mc_clientDataHash MC)" using auth p0 by auto
    have "mc_checks ps MC ?d0 = Inr (0, dv)" using plain v(1) p p0 by (simp add: mc_checks_def plain_request_def)
    then show ?thesis using that v(2) by simp
  next
    case False
    have "mc_checks ps MC ?d0 = Inr (0, ?d0)" using plain False p0 by (simp add: mc_checks_def plain_request_def)
    then show ?thesis using that t0 by simp
  qed
  note f1 = dev_sim_fields[OF c1(2)] dev_sim_count[OF c1(2)]
  have ok1: "dev_ok d1" "rk_counted d1" "counter_inv d1" "counter_floor (d_flash d1) < 2 ^ 31" "c_curve (d_cr d1) = c_curve (d_cr d)" "\<not> d_up_off d1"
    using dev_sim_ok[OF ok0(1) c1(2)] count_sim_counted[OF f1(15) ok0(2)] ok0(3) assms(5,11) f1 count_sim_fields(12)[OF f1(15)]
    by (simp_all add: counter_inv_def s0)
  have mc: "mcs_ok (MC, cust)" using parse_mc_ok[OF assms(13), of "(gs_customCredId (d_ga d), gs_customCredIdSize (d_ga d))" request] assms(14) parse by simp
  have rq: "user_ok (in_user (mc_credInfo MC))" "length (rp_id (mc_rp MC)) = 254"
    using mc by (simp_all add: mcs_ok_def mc_ok_def get_user_def rp_ok_def)
  have alg: "in_type (mc_credInfo MC) = 1" "in_alg (mc_credInfo MC) = COSE_ALG_ES256"
    using parse_mc_alg[of cb request "(gs_customCredId (d_ga d), gs_customCredIdSize (d_ga d))"] mask_has_alg plain parse
    by (auto simp: alg_ok_def plain_request_def)
  have rk1: "in_rk (mc_credInfo MC) = 0 \<or> length (valid_slots (rk_slots (d_flash d1))) < 50" using rk f1 s0 by simp
  have ex: "ex_hmac_present (mc_extensions MC) = 0" "ex_cred_protect (mc_extensions MC) \<notin> {1, 2, 3}" "mc_exclude cb env ps MC d1 = Inr (0, d1)"
    using plain by (simp_all add: plain_request_def mc_exclude_def)
  have sg: "\<And>k h n. l_sign (env_lib env) (c_curve (d_cr d1)) k h n \<noteq> None" using assms(8) ok1(5) by simp
  have "\<exists>tr d'. mc_respond env ps (\<lambda>_ _. 0) MC d1 = Inr (Inr tr, d')"
    by (rule respond_live[OF ok1(1) assms(2) ok1(2-4) assms(6,7) sg assms(9,10) ok1(6) assms(12) alg rq rk1 ex(1,2)])
  then show ?thesis using parse cu c1(1) ex(3) by (simp add: ctap_make_credential_def)
qed

text \<open>C26 (safety). Whoever gets a credential out of authenticatorMakeCredential was present (a touch, or the NFC
  field), and, on a token with a PIN or with a PIN parameter in the request, showed a MAC of the client
  data under the current PIN token. The command leaves the PIN (whether there is one, its hash and its salt), its attempts, the
  token, the key space and the device secrets alone, and the response is a complete CBOR item.\<close>

theorem make_credential_consent:
  assumes "crypto_ok (d_cr d)" "length (d_pin_token d) = 16" "lib_ok (env_lib env)" "enc_room env" "presence_ok ps" "\<not> d_up_off d"
    and "ctap_parse_make_credential cb request (gs_customCredId (d_ga d), gs_customCredIdSize (d_ga d)) = (ret, MC, cust)"
    and "ctap_make_credential cb env ps err request d = Inr (Inr tr, d')"
  shows "user_present ps
    \<and> (ctap_is_pin_set d \<or> mc_pinAuthPresent MC \<noteq> 0 \<longrightarrow> authorised d (mc_pinAuth MC) (mc_clientDataHash MC))
    \<and> keeps d d' \<and> enc_wf tr"
  using make_credential_run[OF assms] mc_reply_wf by blast

text \<open>C27 (roundtrip). The credential id in the response is this token's for the requested relying party and for no
  other one (up to SHA-256): the check of a later request accepts it exactly there, on any device state with the same
  transport secret, the protection level that was asked for is what later requests are held to, the
  public key in the response belongs to the key later derived from the id, and the attestation signature
  covers the authenticator data and the client data hash.\<close>

theorem make_credential_then_authenticate:
  assumes "crypto_ok (d_cr d)" "length (d_pin_token d) = 16" "lib_ok (env_lib env)" "enc_room env" "presence_ok ps" "\<not> d_up_off d"
    and "ctap_parse_make_credential cb request (gs_customCredId (d_ga d), gs_customCredIdSize (d_ga d)) = (ret, MC, cust)"
    and "ctap_make_credential cb env ps err request d = Inr (Inr tr, d')"
  shows "\<exists>c ext sig. tr = mc_reply env (mc_auth env (ctap_is_pin_set d) (c_master (d_cr d)) c ext) sig
    \<and> signed_by env (env_att_key env) (c_curve (d_cr d))
        (mc_auth env (ctap_is_pin_set d) (c_master (d_cr d)) c ext @ take 32 (mc_clientDataHash MC)) sig
    \<and> (\<forall>d2 desc rp2. crypto_ok (d_cr d2) \<and> c_transport (d_cr d2) = c_transport (d_cr d) \<and> cd_type desc = 1 \<and> cr_id (cd_credential desc) = c \<longrightarrow>
         (\<exists>d3. ctap_authenticate_credential rp2 desc d2 = Inr
            (sha256 (take (rp_size rp2) (rp_id rp2)) = sha256 (take (rp_size (mc_rp MC)) (rp_id (mc_rp MC))), d3)))
    \<and> (\<forall>d2 v l. crypto_ok (d_cr d2) \<and> c_transport (d_cr d2) = c_transport (d_cr d) \<longrightarrow>
         (\<exists>d3. check_credential_metadata c v l d2 = Inr
            (if protection_lets (ex_cred_protect (mc_extensions MC)) v l then 0 else CTAP2_ERR_NOT_ALLOWED, d3)))"
proof -
  obtain c ext sig where c: "tr = mc_reply env (mc_auth env (ctap_is_pin_set d) (c_master (d_cr d)) c ext) sig"
    "made_for (c_transport (d_cr d)) (mc_rp MC) c" "metadata_of (c_transport (d_cr d)) c = ex_cred_protect (mc_extensions MC)"
    "signed_by env (env_att_key env) (c_curve (d_cr d))
        (mc_auth env (ctap_is_pin_set d) (c_master (d_cr d)) c ext @ take 32 (mc_clientDataHash MC)) sig"
    using make_credential_run[OF assms] by blast
  have 1: "\<forall>d2 desc rp2. crypto_ok (d_cr d2) \<and> c_transport (d_cr d2) = c_transport (d_cr d) \<and> cd_type desc = 1 \<and> cr_id (cd_credential desc) = c \<longrightarrow>
      (\<exists>d3. ctap_authenticate_credential rp2 desc d2 = Inr
        (sha256 (take (rp_size rp2) (rp_id rp2)) = sha256 (take (rp_size (mc_rp MC)) (rp_id (mc_rp MC))), d3))"
  proof (intro allI impI; elim conjE)
    fix d2 :: ctap_dev and desc :: cred_desc and rp2 :: rp_id
    assume d2: "crypto_ok (d_cr d2)" "c_transport (d_cr d2) = c_transport (d_cr d)" "cd_type desc = 1" "cr_id (cd_credential desc) = c"
    have "made_for (c_transport (d_cr d2)) (mc_rp MC) (cr_id (cd_credential desc))" unfolding d2(2,4) by (rule c(2))
    from made_authenticates[OF d2(1,3) this, of rp2] show "\<exists>d3. ctap_authenticate_credential rp2 desc d2 = Inr
        (sha256 (take (rp_size rp2) (rp_id rp2)) = sha256 (take (rp_size (mc_rp MC)) (rp_id (mc_rp MC))), d3)" by metis
  qed
  have 2: "\<forall>d2 v l. crypto_ok (d_cr d2) \<and> c_transport (d_cr d2) = c_transport (d_cr d) \<longrightarrow>
      (\<exists>d3. check_credential_metadata c v l d2 = Inr
        (if protection_lets (ex_cred_protect (mc_extensions MC)) v l then 0 else CTAP2_ERR_NOT_ALLOWED, d3))"
  proof (intro allI impI; elim conjE)
    fix d2 :: ctap_dev and v l
    assume d2: "crypto_ok (d_cr d2)" "c_transport (d_cr d2) = c_transport (d_cr d)"
    have m: "metadata_of (c_transport (d_cr d2)) c = ex_cred_protect (mc_extensions MC)" unfolding d2(2) by (rule c(3))
    from check_metadata_value[OF d2(1), of c v l] show "\<exists>d3. check_credential_metadata c v l d2 = Inr
        (if protection_lets (ex_cred_protect (mc_extensions MC)) v l then 0 else CTAP2_ERR_NOT_ALLOWED, d3)" unfolding m by metis
  qed
  show ?thesis
    by (rule exI[of _ c], rule exI[of _ ext], rule exI[of _ sig]) (intro conjI c(1) c(4) 1 2)
qed

text \<open>C28 (liveness). A request that parses with all its required members, with no exclude list, no hmac-secret extension, no protection
  level asked for, no up option and a PIN parameter that is not empty, is answered with a credential, if the user is present, a PIN
  parameter (which a device with a PIN needs) carries a right MAC, and the table of resident keys has a free slot or the
  credential is not to be discoverable: the command neither stops nor answers an error. This holds for any device in its invariant
  whose counter is below 2^31, with a certificate of at most 1024 bytes, an encoder that has room and a signing function that succeeds.\<close>

theorem make_credential_answers:
  assumes "dev_ok d" "env_ok env" "rk_counted d" "counter_inv d" "counter_floor (d_flash d) < 2 ^ 31" "lib_ok (env_lib env)" "enc_room env"
    and "\<And>k h n. l_sign (env_lib env) (c_curve (d_cr d)) k h n \<noteq> None" "length (env_cert env) \<le> 1024"
    and "presence_ok ps" "\<not> d_up_off d" "user_present ps" "cbor_ok cb" "length (gs_customCredId (d_ga d)) = 256"
    and "ctap_parse_make_credential cb request (gs_customCredId (d_ga d), gs_customCredIdSize (d_ga d)) = (0, MC, cust)"
    and "plain_request MC"
    and "ctap_is_pin_set d \<Longrightarrow> mc_pinAuthPresent MC \<noteq> 0" "mc_pinAuthPresent MC \<noteq> 0 \<Longrightarrow> authorised d (mc_pinAuth MC) (mc_clientDataHash MC)"
    and "in_rk (mc_credInfo MC) = 0 \<or> length (valid_slots (rk_slots (d_flash d))) < 50"
  shows "\<exists>tr d'. ctap_make_credential cb env ps (\<lambda>_ _. 0) request d = Inr (Inr tr, d')"
  using make_credential_live[OF assms] .

subsection \<open>An example\<close>

definition mc_tree :: item where
  "mc_tree = IMap [IInt 1, IBytes (zeros 32), IInt 2, IMap [IText ''id'', IText ''ex''],
     IInt 3, IMap [IText ''id'', IBytes [7]], IInt 4, IList [IMap [IText ''type'', IText ''public-key'', IText ''alg'', IInt (-7)]],
     IInt 7, IMap [IText ''rk'', IBool True]]"

lemma mc_tree_parse:
  "case ctap_parse_make_credential (tree_cbor mc_tree) [] (zeros 256, 0) of (ret, MC, cu, cs) \<Rightarrow>
     ret = 0 \<and> mc_parsed MC AND MC_requiredMask = MC_requiredMask \<and> mc_up MC = 0xff \<and> mc_pinAuthEmpty MC = 0
     \<and> mc_pinAuthPresent MC = 0 \<and> mp_excludeList MC = None \<and> ex_hmac_present (mc_extensions MC) = 0 \<and> ex_cred_protect (mc_extensions MC) = 0"
  by code_simp

lemma mc_tree_plain:
  obtains MC cust where "ctap_parse_make_credential (tree_cbor mc_tree) [] (zeros 256, 0) = (0, MC, cust)" "plain_request MC" "mc_pinAuthPresent MC = 0"
proof (cases "ctap_parse_make_credential (tree_cbor mc_tree) [] (zeros 256, 0)")
  case (fields ret MC cu cs)
  then show ?thesis using mc_tree_parse that[of MC "(cu, cs)"] by (simp add: plain_request_def)
qed

lemma cose_bytes_len: "length x = 32 \<Longrightarrow> length y = 32 \<Longrightarrow> length (enc_bytes (cose_key_calls x y COSE_ALG_ES256)) = 77"
  by (simp add: enc_bytes_def cose_key_calls_def COSE_ALG_ES256_def cbor_head_def)

lemma env0_room [simp]: "enc_room env0"
  unfolding enc_room_def
proof (intro allI impI)
  fix x y tr z zs assume a: "length x = 32" "length y = 32" "tr @ z # zs = cose_key_calls x y COSE_ALG_ES256"
  have "enc_bytes (cose_key_calls x y COSE_ALG_ES256) = enc_bytes (tr @ [z]) @ enc_bytes zs"
    unfolding a(3)[symmetric] by (simp add: enc_bytes_def)
  then have "length (enc_bytes (tr @ [z])) \<le> 77" using cose_bytes_len[OF a(1,2)] by simp
  then show "env_enc_err env0 185 tr z = 0" by (simp add: env0_def)
qed

lemma dev0_ga: "d_ga dev0 = ga_state_zero" "\<not> d_up_off dev0" "length (d_pin_token dev0) = 16"
proof -
  show "d_ga dev0 = ga_state_zero" unfolding dev0_def using reset_facts[OF env0_ok power_up_ok] by blast
  show "length (d_pin_token dev0) = 16" using dev0_ok(1) by (simp add: dev_ok_def)
  show "\<not> d_up_off dev0"
    by (simp add: dev0_def ctap_reset_def split_beta Let_def ctap_reset_state_def ctap_reset_key_agreement_def
        ctap_flush_state_def ctap_state_init_def ctap_generate_rng_def power_up_def)
qed

lemma touch_present [simp]: "presence_ok touch" "user_present touch"
  by (simp_all add: presence_ok_def touch_def user_present_def)

text \<open>The hypotheses of the three properties hold together on the example device.\<close>

lemma example_run:
  obtains MC cust tr d' where
    "ctap_parse_make_credential (tree_cbor mc_tree) [] (gs_customCredId (d_ga dev0), gs_customCredIdSize (d_ga dev0)) = (0, MC, cust)"
    "plain_request MC" "mc_pinAuthPresent MC = 0" "ctap_make_credential (tree_cbor mc_tree) env0 touch (\<lambda>_ _. 0) [] dev0 = Inr (Inr tr, d')"
proof -
  have g: "(gs_customCredId (d_ga dev0), gs_customCredIdSize (d_ga dev0)) = (zeros 256, 0)" by (simp add: dev0_ga ga_state_zero_def)
  obtain MC cust where p0: "ctap_parse_make_credential (tree_cbor mc_tree) [] (zeros 256, 0) = (0, MC, cust)" "plain_request MC" "mc_pinAuthPresent MC = 0"
    using mc_tree_plain .
  note p = p0(1)[folded g] p0(2,3)
  have v: "valid_slots (rk_slots (d_flash dev0)) = []"
    using length_valid_slots[of "replicate 50 rk_blank"] rk_blank_props(2) by (simp add: dev0_table)
  have "\<exists>tr d'. ctap_make_credential (tree_cbor mc_tree) env0 touch (\<lambda>_ _. 0) [] dev0 = Inr (Inr tr, d')"
    by (rule make_credential_live[OF dev0_ok(1) env0_ok dev0_table(2) dev0_counter(1) _ env0_lib(1) env0_room _ _ touch_present(1) dev0_ga(2)
          touch_present(2) tree_cbor_ok _ p(1,2)])
      (use p(3) v dev0_ok(2) g in \<open>simp_all add: dev0_counter toy_sign\<close>)
  then show ?thesis using that p by blast
qed

lemma make_credential_answers_witness:
  "\<exists>tr d'. ctap_make_credential (tree_cbor mc_tree) env0 touch (\<lambda>_ _. 0) [] dev0 = Inr (Inr tr, d')"
proof -
  obtain MC cust where p: "ctap_parse_make_credential (tree_cbor mc_tree) [] (gs_customCredId (d_ga dev0), gs_customCredIdSize (d_ga dev0)) = (0, MC, cust)"
    "plain_request MC" "mc_pinAuthPresent MC = 0" using example_run .
  have v: "valid_slots (rk_slots (d_flash dev0)) = []"
    using length_valid_slots[of "replicate 50 rk_blank"] rk_blank_props(2) by (simp add: dev0_table)
  show ?thesis
    by (rule make_credential_answers[OF dev0_ok(1) env0_ok dev0_table(2) dev0_counter(1) _ env0_lib(1) env0_room _ _ touch_present(1) dev0_ga(2)
          touch_present(2) tree_cbor_ok _ p(1,2)])
      (use p(3) v dev0_ok(2) dev0_ga(1) in \<open>simp_all add: dev0_counter toy_sign ga_state_zero_def\<close>)
qed

lemma make_credential_consent_witness:
  "\<exists>tr d'. ctap_make_credential (tree_cbor mc_tree) env0 touch (\<lambda>_ _. 0) [] dev0 = Inr (Inr tr, d') \<and> enc_wf tr \<and> keeps dev0 d'"
proof -
  obtain MC cust tr d' where p: "ctap_parse_make_credential (tree_cbor mc_tree) [] (gs_customCredId (d_ga dev0), gs_customCredIdSize (d_ga dev0)) = (0, MC, cust)"
    "ctap_make_credential (tree_cbor mc_tree) env0 touch (\<lambda>_ _. 0) [] dev0 = Inr (Inr tr, d')" using example_run by metis
  show ?thesis
    using make_credential_consent[OF dev0_crypto dev0_ga(3) env0_lib(1) env0_room touch_present(1) dev0_ga(2) p] p(2) by blast
qed

lemma ex3_ends:
  assumes "\<exists>a b c. P a b c \<and> Q a b c \<and> R a b c \<and> S a b c"
  obtains a b c where "P a b c" "S a b c"
  using assms by blast

lemma make_credential_then_authenticate_witness:
  "\<exists>tr d' c ext sig d3. ctap_make_credential (tree_cbor mc_tree) env0 touch (\<lambda>_ _. 0) [] dev0 = Inr (Inr tr, d')
     \<and> tr = mc_reply env0 (mc_auth env0 (ctap_is_pin_set dev0) (c_master (d_cr dev0)) c ext) sig
     \<and> check_credential_metadata c False False dev0 = Inr (0, d3)"
proof -
  obtain MC cust tr d' where p: "ctap_parse_make_credential (tree_cbor mc_tree) [] (gs_customCredId (d_ga dev0), gs_customCredIdSize (d_ga dev0)) = (0, MC, cust)"
    "plain_request MC" "ctap_make_credential (tree_cbor mc_tree) env0 touch (\<lambda>_ _. 0) [] dev0 = Inr (Inr tr, d')" using example_run by metis
  have l: "protection_lets (ex_cred_protect (mc_extensions MC)) False False" using p(2) by (simp add: plain_request_def protection_lets_def)
  from make_credential_then_authenticate[OF dev0_crypto dev0_ga(3) env0_lib(1) env0_room touch_present(1) dev0_ga(2) p(1,3)]
  obtain c ext sig where c: "tr = mc_reply env0 (mc_auth env0 (ctap_is_pin_set dev0) (c_master (d_cr dev0)) c ext) sig"
    and q: "\<forall>d2 v l. crypto_ok (d_cr d2) \<and> c_transport (d_cr d2) = c_transport (d_cr dev0) \<longrightarrow>
         (\<exists>d3. check_credential_metadata c v l d2 = Inr
            (if protection_lets (ex_cred_protect (mc_extensions MC)) v l then 0 else CTAP2_ERR_NOT_ALLOWED, d3))"
    by (rule ex3_ends)
  obtain d3 where "check_credential_metadata c False False dev0 = Inr (0, d3)"
    using q[rule_format, of dev0 False False] l by auto
  then show ?thesis using c p(3) by blast
qed

subsection \<open>What the code does not mean to do\<close>

text \<open>hmac-secret parameters in a makeCredential request: no credential is linked to them, and the secret is
  derived from the seventy bytes at address 0.\<close>

lemma make_credential_hmac_null:
  assumes "crypto_ok (d_cr d)" "hs_credential hs = None"
    and "crypto_ecc256_shared_secret (env_lib env) (ck_x (hs_keyAgreement hs) @ ck_y (hs_keyAgreement hs)) (d_ka_priv d) = Some z"
  shows "\<exists>d'. hmac_secret_output env hs d = Inr (hmac_reply env hs (sha256 (take 32 z))
     (cred_random (d_cr d) (take 70 (env_null env)) (gs_user_verified (d_ga d))), d')"
  using hmac_output_value[OF assms(1,3)] assms(2) by (auto simp: hs_cred_bytes_def)

end
