(* ===== verification/GetAssertion.thy ===== *)
theory GetAssertion
  imports MakeCred
begin

text \<open>
  authenticatorGetAssertion and authenticatorGetNextAssertion of \<^verbatim>\<open>fido2/ctap.c\<close>. The credentials of a
  request live in \<open>getAssertionState.creds\<close>, which \<open>GA.creds\<close> points to; a pointer to a descriptor is its
  index there. The authenticator data is the memory of \<open>getAssertionState.buf\<close>, where the signature's
  hash is also computed.
\<close>

subsection \<open>Descriptors and users in the response\<close>

text \<open>A credential as memory, and C strings inside the user structure.\<close>

definition cred_mem :: "credential \<Rightarrow> bytes" where
  "cred_mem c = cid_image (cr_id c) @ user_image (cr_user c)"

definition user_text :: "user_entity \<Rightarrow> nat \<Rightarrow> string" where
  "user_text u off = map (\<lambda>b. char_of (unat b)) (takeWhile (\<lambda>b. b \<noteq> 0) (drop off (user_image u)))"

definition descriptor_calls :: "credential \<Rightarrow> nat \<Rightarrow> enc list" where
  "descriptor_calls c sz = [EMap 2, EText ''id'', EBytes (take sz (cred_mem c)), EText ''type'', EText ''public-key'', EClose]"

definition ctap_add_credential_descriptor :: "enc_err \<Rightarrow> credential \<Rightarrow> u8 \<Rightarrow> ctap_dev \<Rightarrow> enc list \<Rightarrow> int + enc list" where
  "ctap_add_credential_descriptor err c ty d tr = emits err (descriptor_calls c (get_credential_id_size ty d)) tr"

definition user_calls :: "user_entity \<Rightarrow> bool \<Rightarrow> enc list" where
  "user_calls u verified =
     (let dispname = (u_name u ! 0 \<noteq> 0 \<and> verified); icon = (user_text u 162 \<noteq> []) in
      [EMap (if dispname then if icon then 4 else 3 else 1), EText ''id'', EBytes (take (unat (u_id_size u)) (user_image u))]
      @ (if dispname then
           (if icon then [EText ''icon'', EText (user_text u 162)] else [])
           @ [EText ''name'', EText (user_text u 65), EText ''displayName'', EText (user_text u 130)]
         else [])
      @ [EClose])"

definition ctap_add_user_entity :: "enc_err \<Rightarrow> user_entity \<Rightarrow> bool \<Rightarrow> enc list \<Rightarrow> int + enc list" where
  "ctap_add_user_entity err u verified tr = emits err (user_calls u verified) tr"

subsection \<open>Choosing the credentials\<close>

text \<open>The difference of two unsigned counters, converted to \<open>int\<close>.\<close>

definition cred_cmp_func :: "cred_desc \<Rightarrow> cred_desc \<Rightarrow> int" where
  "cred_cmp_func a b = sint (ci_count (cr_id (cd_credential b)) - ci_count (cr_id (cd_credential a)))"

definition set_cred :: "nat \<Rightarrow> cred_desc \<Rightarrow> ctap_dev \<Rightarrow> ctap_dev" where
  "set_cred i c d = d\<lparr>d_ga := (d_ga d)\<lparr>gs_creds := (gs_creds (d_ga d))[i := c]\<rparr>\<rparr>"

definition invalidate :: "cred_desc \<Rightarrow> cred_desc" where
  "invalidate c = c\<lparr>cd_credential := (cd_credential c)\<lparr>cr_id := (cr_id (cd_credential c))\<lparr>ci_count := 0\<rparr>\<rparr>\<rparr>"

definition set_cred_user :: "user_entity \<Rightarrow> cred_desc \<Rightarrow> cred_desc" where
  "set_cred_user u c = c\<lparr>cd_credential := (cd_credential c)\<lparr>cr_user := u\<rparr>\<rparr>"

text \<open>A credential cast to a resident key; at most 255 bytes of it are compared, all inside the user.\<close>

definition rk_of_credential :: "credential \<Rightarrow> resident_key" where
  "rk_of_credential c = \<lparr>rk_id = cr_id c, rk_user = cr_user c, rk_rpId = zeros 48, rk_rpIdSize = 0\<rparr>"

fun find_user :: "flash \<Rightarrow> credential \<Rightarrow> resident_key \<Rightarrow> nat list \<Rightarrow> user_entity option" where
  "find_user f c rk [] = None"
| "find_user f c rk (i # is) =
     (case load_nth_valid_rk f i rk of (_, rk) \<Rightarrow>
      if is_matching_rk rk (rk_of_credential c) then Some (rk_user rk) else find_user f c rk is)"

definition add_existing_user_info :: "ctap_dev \<Rightarrow> cred_desc \<Rightarrow> cred_desc" where
  "add_existing_user_info d c =
     (case find_user (d_flash d) (cd_credential c) rk_zero [0..<unat (as_rk_stored (d_st d))] of
        None \<Rightarrow> c | Some u \<Rightarrow> set_cred_user u c)"

text \<open>The loop over the allow list, and the one over the resident keys.\<close>

fun filter_listed :: "rp_id \<Rightarrow> nat list \<Rightarrow> nat \<Rightarrow> ctap_dev \<Rightarrow> ctap_dev + (nat \<times> ctap_dev)" where
  "filter_listed rp [] count d = Inr (count, d)"
| "filter_listed rp (i # is) count d =
     (let desc = gs_creds (d_ga d) ! i in
      seqE (ctap_authenticate_credential rp desc d) (\<lambda>(ours, d).
      if \<not> ours then
        if is_extension_request (cid_image (cr_id (cd_credential desc))) 70 then filter_listed rp is (count + 1) d
        else filter_listed rp is count (set_cred i (invalidate desc) d)
      else
        seqE (check_credential_metadata (cr_id (cd_credential desc)) (gs_user_verified (d_ga d) \<noteq> 0) True d) (\<lambda>(status, d).
        if status \<noteq> 0 then filter_listed rp is count (set_cred i (invalidate desc) d)
        else filter_listed rp is (count + 1) (set_cred i (add_existing_user_info d desc) d))))"

definition rk_desc :: "resident_key \<Rightarrow> cred_desc" where
  "rk_desc rk = \<lparr>cd_type = 1, cd_credential = \<lparr>cr_id = rk_id rk, cr_user = rk_user rk\<rparr>\<rparr>"

fun filter_resident :: "bytes \<Rightarrow> nat list \<Rightarrow> resident_key \<Rightarrow> nat \<Rightarrow> ctap_dev \<Rightarrow> ctap_dev + (nat \<times> ctap_dev)" where
  "filter_resident rpIdHash [] rk count d = Inr (count, d)"
| "filter_resident rpIdHash (i # is) rk count d =
     (let rk = ctap_load_rk (d_flash d) i rk in
      if \<not> ctap_rk_is_valid rk then filter_resident rpIdHash is rk count d
      else
        seqE (check_credential_metadata (rk_id rk) (gs_user_verified (d_ga d) \<noteq> 0) False d) (\<lambda>(status, d).
        if status \<noteq> 0 \<or> ci_rpIdHash (rk_id rk) \<noteq> rpIdHash then filter_resident rpIdHash is rk count d
        else if count \<ge> ALLOW_LIST_MAX_SIZE then Inr (count, d)
        else filter_resident rpIdHash is rk (count + 1) (set_cred count (rk_desc rk) d)))"

definition ctap_filter_invalid_credentials ::
    "environ \<Rightarrow> get_assertion \<Rightarrow> ctap_dev \<Rightarrow> ctap_dev + (nat \<times> get_assertion \<times> ctap_dev)" where
  "ctap_filter_invalid_credentials env GA d =
     seqE (filter_listed (ga_rp GA) [0..<nat (ga_credLen GA)] 0 d) (\<lambda>(count, d).
     seqE (if ga_credLen GA = 0 then
             let (rpIdHash, d) = dev_sha [take (rp_size (ga_rp GA)) (rp_id (ga_rp GA))] d in
             seqE (filter_resident rpIdHash [0..<ctap_rk_size] rk_zero count d) (\<lambda>(count, d).
             Inr (count, GA\<lparr>ga_credLen := int count\<rparr>, d))
           else Inr (count, GA, d)) (\<lambda>(count, GA, d).
     let n = nat (ga_credLen GA); creds = gs_creds (d_ga d) in
     Inr (count, GA, d\<lparr>d_ga := (d_ga d)\<lparr>gs_creds := env_qsort env cred_cmp_func (take n creds) @ drop n creds\<rparr>\<rparr>)))"

text \<open>The credentials after the first are kept for getNextAssertion.\<close>

definition save_credential_list :: "bytes \<Rightarrow> nat \<Rightarrow> ctap_extensions \<Rightarrow> ctap_dev \<Rightarrow> int \<times> ctap_dev" where
  "save_credential_list clientDataHash count ext d =
     (if count \<noteq> 0 \<and> count > ALLOW_LIST_MAX_SIZE - 1 then (CTAP2_ERR_TOO_MANY_ELEMENTS, d)
      else
        let gs = d_ga d;
            gs = (if count \<noteq> 0 then
              gs\<lparr>gs_clientDataHash := take 32 clientDataHash,
                 gs_creds := take count (drop 1 (gs_creds gs)) @ drop count (gs_creds gs), gs_extensions := ext\<rparr>
              else gs)
        in (0, d\<lparr>d_ga := gs\<lparr>gs_count := of_nat count, gs_index := 0\<rparr>\<rparr>))"

definition pop_credential :: "ctap_dev \<Rightarrow> nat option \<times> ctap_dev" where
  "pop_credential d =
     (let gs = d_ga d in
      if gs_count gs > 0 \<and> gs_index gs < gs_count gs then
        (Some (unat (gs_index gs)), d\<lparr>d_ga := gs\<lparr>gs_index := gs_index gs + 1\<rparr>\<rparr>)
      else (None, d))"

subsection \<open>The common end of both commands\<close>

definition ga_buf :: "ga_state \<Rightarrow> bytes" where
  "ga_buf gs = head_image (gs_head gs) @ gs_extbuf gs"

definition set_head :: "auth_header \<Rightarrow> ctap_dev \<Rightarrow> ctap_dev" where
  "set_head h d = d\<lparr>d_ga := (d_ga d)\<lparr>gs_head := h\<rparr>\<rparr>"

text \<open>The hash of the signature is left in the first 32 bytes of the buffer.\<close>

definition ga_signature ::
    "environ \<Rightarrow> presence \<Rightarrow> credential_id \<Rightarrow> bytes \<Rightarrow> bytes \<Rightarrow> ctap_dev \<Rightarrow> ctap_dev + (int \<times> bytes \<times> ctap_dev)" where
  "ga_signature env ps c auth clientDataHash d =
     seqE (extend_fido2 env ps (cid_image c) (take 72 (env_stack env)) d) (\<lambda>(ext, sigder, d).
     if ext then Inr (72, sigder, d)
     else
       seqE (ctap_calculate_signature env auth clientDataHash d) (\<lambda>(hash, (len, sigder), d).
       Inr (len, sigder, set_head ((gs_head (d_ga d))\<lparr>ah_rpIdHash := hash\<rparr>) d)))"

definition ctap_end_get_assertion ::
    "environ \<Rightarrow> presence \<Rightarrow> enc_err \<Rightarrow> nat \<Rightarrow> nat \<Rightarrow> bytes \<Rightarrow> enc list \<Rightarrow> ctap_dev \<Rightarrow> ctap_dev + reply" where
  "ctap_end_get_assertion env ps err i sz clientDataHash tr d =
     (let cred = gs_creds (d_ga d) ! i; c = cd_credential cred; auth = take sz (ga_buf (d_ga d)) in
      case seqE (emits err [EInt 1] tr) (\<lambda>tr.
           seqE (ctap_add_credential_descriptor err c (cd_type cred) d tr) (emits err [EInt 2, EBytes auth])) of
        Inl e \<Rightarrow> Inr (Inl e, d)
      | Inr tr \<Rightarrow>
        seqE (dev_load_key env (take (get_credential_id_size (cd_type cred) d) (cred_mem c)) d) (\<lambda>d.
        seqE (ga_signature env ps (cr_id c) auth clientDataHash d) (\<lambda>(sigder_sz, sigder, d).
        case emits err [EInt 3, EBytes (take (nat sigder_sz) sigder)] tr of
          Inl e \<Rightarrow> Inr (Inl e, d)
        | Inr tr \<Rightarrow>
          Inr (if u_id_size (cr_user c) \<noteq> 0 then
                 seqE (emits err [EInt 4] tr) (ctap_add_user_entity err (cr_user c) (gs_user_verified (d_ga d) \<noteq> 0))
               else Inr tr, d))))"

subsection \<open>getNextAssertion\<close>

definition clear_name :: "nat \<Rightarrow> ctap_dev \<Rightarrow> ctap_dev" where
  "clear_name i d =
     (let c = gs_creds (d_ga d) ! i in set_cred i (set_cred_user ((cr_user (cd_credential c))\<lparr>u_name := zeros 65\<rparr>) c) d)"

text \<open>The extension output in the buffer and its flag; an error leaves the size of the whole buffer.\<close>

definition next_extensions :: "environ \<Rightarrow> ctap_dev \<Rightarrow> ctap_dev + (nat \<times> ctap_dev)" where
  "next_extensions env d =
     seqE (ctap_make_extensions env (gs_extensions (d_ga d)) 80 d) (\<lambda>(r, d).
     case r of Inl e \<Rightarrow> Inr (80, d)
     | Inr ext \<Rightarrow>
         let h = gs_head (d_ga d);
             h = h\<lparr>ah_flags := (if ext \<noteq> [] then ah_flags h OR 0x80 else ah_flags h AND NOT 0x80)\<rparr>
         in Inr (length ext, d\<lparr>d_ga := (d_ga d)\<lparr>gs_head := h, gs_extbuf := blit (gs_extbuf (d_ga d)) 0 ext\<rparr>\<rparr>))"

definition ctap_get_next_assertion :: "environ \<Rightarrow> presence \<Rightarrow> enc_err \<Rightarrow> ctap_dev \<Rightarrow> ctap_dev + reply" where
  "ctap_get_next_assertion env ps err d =
     (case pop_credential d of
        (None, d) \<Rightarrow> Inr (Inl CTAP2_ERR_NOT_ALLOWED, d)
      | (Some i, d) \<Rightarrow>
        seqE (auth_data_update_count env (gs_head (d_ga d)) d) (\<lambda>(_, h, d).
        let cred = gs_creds (d_ga d) ! i;
            d = set_head (h\<lparr>ah_rpIdHash := ci_rpIdHash (cr_id (cd_credential cred))\<rparr>) d in
        case emits err [EMap (if u_id_size (cr_user (cd_credential cred)) \<noteq> 0 then 4 else 3)] [] of
          Inl e \<Rightarrow> Inr (Inl e, d)
        | Inr tr \<Rightarrow>
          let d = (if gs_user_verified (d_ga d) = 0 then clear_name i d else d) in
          seqE (next_extensions env d) (\<lambda>(n, d).
          seqE (ctap_end_get_assertion env ps err i (37 + n) (gs_clientDataHash (d_ga d)) tr d) (\<lambda>(r, d).
          Inr (seqE r (emits err [EClose]), d)))))"

subsection \<open>getAssertion\<close>

text \<open>The authenticator data: an error code, or its sz and the request with its extension state.\<close>

definition ga_auth_data ::
    "environ \<Rightarrow> presence \<Rightarrow> get_assertion \<Rightarrow> ctap_dev \<Rightarrow> ctap_dev + ((int + nat) \<times> ctap_dev)" where
  "ga_auth_data env ps GA d =
     (let cred = cd_credential (gs_creds (d_ga d) ! 0) in
      if is_extension_request (cid_image (cr_id cred)) 70 then
        let (h, d) = dev_sha [take (rp_size (ga_rp GA)) (rp_id (ga_rp GA))] d
        in Inr (Inr 37, set_head ((gs_head (d_ga d))\<lparr>ah_rpIdHash := h, ah_flags := 1 OR 4\<rparr>) d)
      else
        let d = device_disable_up (ga_up GA = 0) d in
        seqE (ctap_make_auth_data env ps (ga_rp GA) 37 (gs_head (d_ga d)) None (ex_cred_protect (ga_extensions GA)) d)
          (\<lambda>(ret, h, _, d).
        let d = device_disable_up False (set_head h d) in
        if ret \<noteq> 0 then Inr (Inl ret, d)
        else
          let h = h\<lparr>ah_flags := (ah_flags h AND NOT 4) OR push_bit 2 (gs_user_verified (d_ga d))\<rparr>;
              d = set_head h d in
          seqE (ctap_make_extensions env (ga_extensions GA) 80 d) (\<lambda>(r, d).
          case r of Inl e \<Rightarrow> Inr (Inl e, d)
          | Inr ext \<Rightarrow>
              let h = (if ext \<noteq> [] then h\<lparr>ah_flags := ah_flags h OR 0x80\<rparr> else h)
              in Inr (Inr (37 + length ext), d\<lparr>d_ga := (d_ga d)\<lparr>gs_head := h, gs_extbuf := blit (gs_extbuf (d_ga d)) 0 ext\<rparr>\<rparr>))))"

definition CTAP2_ERR_NO_CREDENTIALS :: int where "CTAP2_ERR_NO_CREDENTIALS = 0x2E"

text \<open>From the choice of the credentials on.\<close>

definition link_hmac_secret :: "get_assertion \<Rightarrow> get_assertion" where
  "link_hmac_secret GA =
     GA\<lparr>ga_extensions := (ga_extensions GA)\<lparr>ex_hmac := (ex_hmac (ga_extensions GA))\<lparr>hs_credential := Some 0\<rparr>\<rparr>\<rparr>"

definition ga_respond :: "environ \<Rightarrow> presence \<Rightarrow> enc_err \<Rightarrow> nat \<Rightarrow> get_assertion \<Rightarrow> ctap_dev \<Rightarrow> ctap_dev + reply" where
  "ga_respond env ps err valid GA d =
     (let lst = gs_creds (d_ga d) ! (valid - 1);
          map_size = 3 + (if valid > 1 then 1 else 0) + (if u_id_size (cr_user (cd_credential lst)) \<noteq> 0 then 1 else 0) in
      case emits err [EMap map_size] [] of Inl e \<Rightarrow> Inr (Inl e, d)
      | Inr tr \<Rightarrow>
        let d = (if valid < 2 \<or> gs_user_verified (d_ga d) = 0 then clear_name 0 d else d);
            GA = link_hmac_secret GA in
        seqE (ga_auth_data env ps GA d) (\<lambda>(r, d).
        case r of Inl e \<Rightarrow> Inr (Inl e, d)
        | Inr sz \<Rightarrow>
          seqE (ctap_end_get_assertion env ps err 0 sz (ga_clientDataHash GA) tr d) (\<lambda>(r, d).
          case seqE r (\<lambda>tr. seqE (if valid > 1 then emits err [EInt 5, EInt (int valid)] tr else Inr tr) (emits err [EClose])) of
            Inl e \<Rightarrow> Inr (Inl e, d)
          | Inr tr \<Rightarrow>
            case save_credential_list (ga_clientDataHash GA) (valid - 1) (ga_extensions GA) d of
              (ret, d) \<Rightarrow> Inr (if ret \<noteq> 0 then Inl ret else Inr tr, d))))"

definition set_verified :: "u8 \<Rightarrow> ctap_dev \<Rightarrow> ctap_dev" where
  "set_verified v d = d\<lparr>d_ga := (d_ga d)\<lparr>gs_user_verified := v\<rparr>\<rparr>"

definition ctap_get_assertion ::
    "'v cbor \<Rightarrow> environ \<Rightarrow> presence \<Rightarrow> enc_err \<Rightarrow> bytes \<Rightarrow> ctap_dev \<Rightarrow> ctap_dev + reply" where
  "ctap_get_assertion cb env ps err request d =
     (case ctap_parse_get_assertion cb request (d_ga d) of
        (ret, (GA, gs)) \<Rightarrow>
      let d = d\<lparr>d_ga := gs\<rparr> in
      if ret \<noteq> 0 then Inr (Inl ret, d)
      else if ga_pinAuthEmpty GA \<noteq> 0 then
        let ret = ctap2_user_presence_test 2 ps d in
        Inr (Inl (if ret \<noteq> 0 then ret else if ctap_is_pin_set d then CTAP2_ERR_PIN_AUTH_INVALID else CTAP2_ERR_PIN_NOT_SET), d)
      else
        seqE (if ga_pinAuthPresent GA \<noteq> 0 then verify_pin_auth (ga_pinAuth GA) (ga_clientDataHash GA) d else Inr (0, d)) (\<lambda>(ret, d).
        if ret \<noteq> 0 then Inr (Inl ret, d)
        else
          let d = set_verified (if ga_pinAuthPresent GA \<noteq> 0 then 1 else 0) d in
          if rp_size (ga_rp GA) = 0 \<or> ga_clientDataHashPresent GA = 0 then Inr (Inl ERR_MISSING, d)
          else
            seqE (ctap_filter_invalid_credentials env GA d) (\<lambda>(valid, GA, d).
            if valid = 0 then Inr (Inl CTAP2_ERR_NO_CREDENTIALS, d)
            else ga_respond env ps err valid GA d)))"

end
