(* ===== verification/GetChoice.thy ===== *)
theory GetChoice
  imports GetAssertion MakeCredClaims
begin

text \<open>
  Which credential a getAssertion request gets: every entry of the allow list that is not this token's, or
  that its protection level locks, is invalidated and sorted behind; without an allow list the
  resident keys of the relying party that their protection level lets go are collected.
\<close>

subsection \<open>Devices that differ in the credentials of the assertion state\<close>

definition creds_sim :: "ctap_dev \<Rightarrow> ctap_dev \<Rightarrow> bool" where
  "creds_sim d d' \<longleftrightarrow> dev_sim (d\<lparr>d_ga := d_ga d'\<rparr>) d' \<and> (d_ga d')\<lparr>gs_creds := gs_creds (d_ga d)\<rparr> = d_ga d"

lemma creds_sim_dev: "dev_sim d d' \<Longrightarrow> creds_sim d d'"
  using dev_sim_fields[of d d'] by (simp add: creds_sim_def)

lemma creds_sim_refl [simp]: "crypto_ok (d_cr d) \<Longrightarrow> creds_sim d d"
  by (rule creds_sim_dev) simp

lemma creds_sim_trans: "creds_sim a b \<Longrightarrow> creds_sim b c \<Longrightarrow> creds_sim a c"
proof -
  assume a: "creds_sim a b" and b: "creds_sim b c"
  have "dev_sim (a\<lparr>d_ga := d_ga c\<rparr>) (b\<lparr>d_ga := d_ga c\<rparr>)"
    using a by (cases a; cases b; cases c) (auto simp: creds_sim_def dev_sim_def)
  moreover have "(d_ga c)\<lparr>gs_creds := gs_creds (d_ga a)\<rparr> = d_ga a"
  proof -
    have "((d_ga c)\<lparr>gs_creds := gs_creds (d_ga b)\<rparr>)\<lparr>gs_creds := gs_creds (d_ga a)\<rparr> = d_ga a"
      using a b by (simp only: creds_sim_def)
    then show ?thesis by simp
  qed
  ultimately show ?thesis using a b dev_sim_trans[of "a\<lparr>d_ga := d_ga c\<rparr>" "b\<lparr>d_ga := d_ga c\<rparr>" c] by (simp add: creds_sim_def)
qed

lemma creds_sim_set: "creds_sim d d' \<Longrightarrow> creds_sim d (set_cred i c d')"
  by (cases d; cases d') (auto simp: creds_sim_def set_cred_def dev_sim_def)

lemma creds_sim_sort: "creds_sim d d' \<Longrightarrow> creds_sim d (d'\<lparr>d_ga := (d_ga d')\<lparr>gs_creds := cs\<rparr>\<rparr>)"
  by (cases d; cases d') (auto simp: creds_sim_def dev_sim_def)

lemma creds_sim_fields:
  assumes "creds_sim d d'"
  shows "d_st d' = d_st d" "d_flash d' = d_flash d" "d_pin_token d' = d_pin_token d" "d_boot d' = d_boot d" "d_sc d' = d_sc d"
    "d_ka_priv d' = d_ka_priv d" "d_up_off d' = d_up_off d" "crypto_ok (d_cr d')" "c_master (d_cr d') = c_master (d_cr d)"
    "c_transport (d_cr d') = c_transport (d_cr d)" "c_curve (d_cr d') = c_curve (d_cr d)" "gs_user_verified (d_ga d') = gs_user_verified (d_ga d)"
    "gs_customCredId (d_ga d') = gs_customCredId (d_ga d)" "gs_customCredIdSize (d_ga d') = gs_customCredIdSize (d_ga d)"
proof -
  have s: "dev_sim (d\<lparr>d_ga := d_ga d'\<rparr>) d'" and e: "(d_ga d')\<lparr>gs_creds := gs_creds (d_ga d)\<rparr> = d_ga d"
    using assms by (simp_all add: creds_sim_def)
  show "d_st d' = d_st d" "d_flash d' = d_flash d" "d_pin_token d' = d_pin_token d" "d_boot d' = d_boot d" "d_sc d' = d_sc d"
    "d_ka_priv d' = d_ka_priv d" "d_up_off d' = d_up_off d" "crypto_ok (d_cr d')" "c_master (d_cr d') = c_master (d_cr d)"
    "c_transport (d_cr d') = c_transport (d_cr d)" "c_curve (d_cr d') = c_curve (d_cr d)"
    using dev_sim_fields[OF s] count_sim_fields(12)[OF dev_sim_count[OF s]] by simp_all
  show "gs_user_verified (d_ga d') = gs_user_verified (d_ga d)" "gs_customCredId (d_ga d') = gs_customCredId (d_ga d)"
    "gs_customCredIdSize (d_ga d') = gs_customCredIdSize (d_ga d)"
    using arg_cong[OF e, of gs_user_verified] arg_cong[OF e, of gs_customCredId] arg_cong[OF e, of gs_customCredIdSize] by simp_all
qed

subsection \<open>Usable credentials\<close>

text \<open>This token's credential for the relying party, by the kind of its id.\<close>

definition cred_ours :: "ctap_dev \<Rightarrow> rp_id \<Rightarrow> cred_desc \<Rightarrow> bool" where
  "cred_ours d rp desc \<longleftrightarrow>
     (let c = cr_id (cd_credential desc); h = sha256 (take (rp_size rp) (rp_id rp)) in
      if cd_type desc = 0x01 then ci_rpIdHash c = h \<and> ci_tag c = cred_tag (c_transport (d_cr d)) h (ci_nonce c) (ci_count c)
      else if cd_type desc = 0x41 then handle_valid (d_cr d) (cid_image c) 48 h
      else if cd_type desc = 0x42 then is_extension_request (gs_customCredId (d_ga d)) (unat (gs_customCredIdSize (d_ga d)))
      else False)"

lemma authenticate_ours:
  assumes "crypto_ok (d_cr d)" "cid_ok (cr_id (cd_credential desc))"
  obtains d' where "ctap_authenticate_credential rp desc d = Inr (cred_ours d rp desc, d')" "dev_sim d d'"
proof -
  let ?h = "sha256 (take (rp_size rp) (rp_id rp))" and ?c = "cr_id (cd_credential desc)"
  obtain d1 where 1: "dev_sha [take (rp_size rp) (rp_id rp)] d = (?h, d1)" "dev_sim d d1"
    using dev_sha_value[OF assms(1), of "[take (rp_size rp) (rp_id rp)]"] by auto
  have cr1: "c_transport (d_cr d1) = c_transport (d_cr d)" "c_master (d_cr d1) = c_master (d_cr d)" using dev_sim_fields[OF 1(2)] by simp_all
  consider "cd_type desc = 0x01" | "cd_type desc = 0x41" | "cd_type desc \<noteq> 0x01" "cd_type desc \<noteq> 0x41" by blast
  then show ?thesis
  proof cases
    case 1
    show ?thesis by (rule authenticate_value[OF assms(1) 1 assms(2), of rp]) (rule that, auto simp: cred_ours_def 1 Let_def)
  next
    case 2
    have l: "70 \<le> length (cid_image ?c)" using length_cid_image[OF assms(2)] by simp
    obtain d2 where "u2f_authenticate_credential (cid_image ?c) 48 ?h d1 = Inr (handle_valid (d_cr d1) (cid_image ?c) 48 ?h, d2)" "dev_sim d1 d2"
      using u2f_authenticate_value[OF dev_sim_crypto[OF 1(2)] length_sha256 l] .
    then show ?thesis using that[of d2] 1 2 dev_sim_trans[OF 1(2)] cr1
      by (simp add: ctap_authenticate_credential_def cred_ours_def handle_valid_def Let_def)
  next
    case 3
    then show ?thesis using that[of d] assms(1) by (simp add: ctap_authenticate_credential_def cred_ours_def Let_def)
  qed
qed

definition listed_ok :: "ctap_dev \<Rightarrow> rp_id \<Rightarrow> cred_desc \<Rightarrow> bool" where
  "listed_ok d rp desc \<longleftrightarrow> cred_ours d rp desc
     \<and> protection_lets (metadata_of (c_transport (d_cr d)) (cr_id (cd_credential desc))) (gs_user_verified (d_ga d) \<noteq> 0) True"

definition listed_ext :: "ctap_dev \<Rightarrow> rp_id \<Rightarrow> cred_desc \<Rightarrow> bool" where
  "listed_ext d rp desc \<longleftrightarrow> \<not> cred_ours d rp desc \<and> is_extension_request (cid_image (cr_id (cd_credential desc))) 70"

text \<open>What becomes of an entry.\<close>

definition filtered :: "ctap_dev \<Rightarrow> rp_id \<Rightarrow> cred_desc \<Rightarrow> cred_desc" where
  "filtered d rp desc =
     (if listed_ok d rp desc then add_existing_user_info d desc
      else if listed_ext d rp desc then desc else invalidate desc)"

lemma filtered_sim: "creds_sim d d' \<Longrightarrow> filtered d' = filtered d" "creds_sim d d' \<Longrightarrow> listed_ok d' = listed_ok d" "creds_sim d d' \<Longrightarrow> listed_ext d' = listed_ext d"
proof -
  assume s: "creds_sim d d'"
  note f = creds_sim_fields[OF s]
  have o: "cred_ours d' = cred_ours d" by (intro ext) (simp add: cred_ours_def f handle_valid_def Let_def)
  show l: "listed_ok d' = listed_ok d" by (intro ext) (simp add: listed_ok_def o f)
  show x: "listed_ext d' = listed_ext d" by (intro ext) (simp add: listed_ext_def o)
  have "add_existing_user_info d' = add_existing_user_info d" by (intro ext) (simp add: add_existing_user_info_def f)
  then show "filtered d' = filtered d" by (intro ext) (simp add: filtered_def l x)
qed

lemma filter_step:
  assumes "crypto_ok (d_cr d)" "cid_ok (cr_id (cd_credential (gs_creds (d_ga d) ! i)))"
  obtains d' where "filter_listed rp (i # is) count d = filter_listed rp is
      (count + (if listed_ok d rp (gs_creds (d_ga d) ! i) \<or> listed_ext d rp (gs_creds (d_ga d) ! i) then 1 else 0)) d'"
    "creds_sim d d'" "gs_creds (d_ga d') = (gs_creds (d_ga d))[i := filtered d rp (gs_creds (d_ga d) ! i)]"
proof -
  let ?c = "gs_creds (d_ga d) ! i"
  obtain d1 where 1: "ctap_authenticate_credential rp ?c d = Inr (cred_ours d rp ?c, d1)" "dev_sim d d1"
    using authenticate_ours[OF assms] .
  note s1 = creds_sim_dev[OF 1(2)]
  have g1: "d_ga d1 = d_ga d" using dev_sim_fields[OF 1(2)] by simp
  show ?thesis
  proof (cases "cred_ours d rp ?c")
    case False
    show ?thesis
    proof (cases "is_extension_request (cid_image (cr_id (cd_credential ?c))) 70")
      case True
      then show ?thesis using 1(1) False s1 g1 by (intro that[of d1]) (simp_all add: Let_def listed_ok_def listed_ext_def filtered_def)
    next
      case x: False
      then show ?thesis using 1(1) False creds_sim_set[OF s1] g1
        by (intro that[of "set_cred i (invalidate ?c) d1"]) (simp_all add: Let_def listed_ok_def listed_ext_def filtered_def set_cred_def)
    qed
  next
    case True
    obtain d2 where 2: "check_credential_metadata (cr_id (cd_credential ?c)) (gs_user_verified (d_ga d1) \<noteq> 0) True d1
        = Inr (if listed_ok d rp ?c then 0 else CTAP2_ERR_NOT_ALLOWED, d2)" "dev_sim d1 d2"
      using check_metadata_value[OF dev_sim_crypto[OF 1(2)], of "cr_id (cd_credential ?c)" "gs_user_verified (d_ga d1) \<noteq> 0" True] True
        creds_sim_fields[OF s1] by (auto simp: listed_ok_def)
    note s2 = creds_sim_trans[OF s1 creds_sim_dev[OF 2(2)]]
    have g2: "d_ga d2 = d_ga d" using dev_sim_fields[OF 2(2)] g1 by simp
    have u: "add_existing_user_info d2 = add_existing_user_info d"
      using creds_sim_fields[OF s2] by (intro ext) (simp add: add_existing_user_info_def)
    show ?thesis
    proof (cases "listed_ok d rp ?c")
      case ok: True
      then show ?thesis using 1(1) 2(1) True creds_sim_set[OF s2] g1 g2 u
        by (intro that[of "set_cred i (add_existing_user_info d ?c) d2"])
          (simp_all add: Let_def filtered_def set_cred_def listed_ext_def)
    next
      case nok: False
      then show ?thesis using 1(1) 2(1) True creds_sim_set[OF s2] g1 g2
        by (intro that[of "set_cred i (invalidate ?c) d2"])
          (simp_all add: Let_def filtered_def set_cred_def listed_ext_def CTAP2_ERR_NOT_ALLOWED_def)
    qed
  qed
qed

subsection \<open>The loops\<close>

lemma filter_listed_from:
  assumes "crypto_ok (d_cr d)" "n \<le> length (gs_creds (d_ga d))" "\<forall>j<n. cid_ok (cr_id (cd_credential (gs_creds (d_ga d) ! j)))" "k \<le> n"
  shows "\<exists>d'. filter_listed rp [k..<n] count d = Inr (count + length (filter (\<lambda>j. listed_ok d rp (gs_creds (d_ga d) ! j) \<or> listed_ext d rp (gs_creds (d_ga d) ! j)) [k..<n]), d')
    \<and> creds_sim d d' \<and> length (gs_creds (d_ga d')) = length (gs_creds (d_ga d))
    \<and> (\<forall>j. gs_creds (d_ga d') ! j = (if k \<le> j \<and> j < n then filtered d rp (gs_creds (d_ga d) ! j) else gs_creds (d_ga d) ! j))"
  using assms
proof (induction "n - k" arbitrary: k count d)
  case 0
  then show ?case by auto
next
  case (Suc m)
  have k: "k < n" "m = n - Suc k" using Suc(2) by linarith+
  let ?c = "gs_creds (d_ga d) ! k"
  have ck: "cid_ok (cr_id (cd_credential ?c))" using Suc(5) k by simp
  obtain d1 where 1: "filter_listed rp (k # [Suc k..<n]) count d = filter_listed rp [Suc k..<n]
      (count + (if listed_ok d rp ?c \<or> listed_ext d rp ?c then 1 else 0)) d1" "creds_sim d d1"
    "gs_creds (d_ga d1) = (gs_creds (d_ga d))[k := filtered d rp ?c]"
    using filter_step[OF Suc(3) ck] .
  note cr1 = creds_sim_fields(8)[OF 1(2)]
  have e: "n \<le> length (gs_creds (d_ga d1))" "\<forall>j<n. j \<noteq> k \<longrightarrow> cid_ok (cr_id (cd_credential (gs_creds (d_ga d1) ! j)))"
    using Suc(4,5) by (simp_all add: 1(3))
  have ck1: "cid_ok (cr_id (cd_credential (gs_creds (d_ga d1) ! k)))"
    using ck k Suc(4) by (auto simp: 1(3) filtered_def invalidate_def add_existing_user_info_def set_cred_user_def cid_ok_def split: option.split)
  have e2: "\<forall>j<n. cid_ok (cr_id (cd_credential (gs_creds (d_ga d1) ! j)))" using e(2) ck1 by auto
  let ?P = "\<lambda>d j. listed_ok d rp (gs_creds (d_ga d) ! j) \<or> listed_ext d rp (gs_creds (d_ga d) ! j)"
  have f: "filter (?P d1) [Suc k..<n] = filter (?P d) [Suc k..<n]"
    by (rule filter_cong) (auto simp: 1(3) filtered_sim[OF 1(2)])
  obtain d2 where 2: "filter_listed rp [Suc k..<n] (count + (if ?P d k then 1 else 0)) d1
      = Inr (count + (if ?P d k then 1 else 0) + length (filter (?P d) [Suc k..<n]), d2)" "creds_sim d1 d2"
    "length (gs_creds (d_ga d2)) = length (gs_creds (d_ga d1))"
    "\<forall>j. gs_creds (d_ga d2) ! j = (if Suc k \<le> j \<and> j < n then filtered d1 rp (gs_creds (d_ga d1) ! j) else gs_creds (d_ga d1) ! j)"
    using Suc(1)[OF k(2) cr1 e(1) e2, of "count + (if ?P d k then 1 else 0)"] k f by auto
  have "gs_creds (d_ga d2) ! j = (if k \<le> j \<and> j < n then filtered d rp (gs_creds (d_ga d) ! j) else gs_creds (d_ga d) ! j)" for j
    using 2(4) k Suc(4) by (cases "j = k") (auto simp: 1(3) filtered_sim[OF 1(2)])
  then show ?case using 1(1,3) 2(1,3) creds_sim_trans[OF 1(2) 2(2)] k by (simp add: upt_conv_Cons)
qed

text \<open>A resident key that a request without an allow list may use.\<close>

definition resident_ok :: "ctap_dev \<Rightarrow> bytes \<Rightarrow> resident_key \<Rightarrow> bool" where
  "resident_ok d h rk \<longleftrightarrow> ctap_rk_is_valid rk \<and> ci_rpIdHash (rk_id rk) = h
     \<and> protection_lets (metadata_of (c_transport (d_cr d)) (rk_id rk)) (gs_user_verified (d_ga d) \<noteq> 0) False"

lemma resident_ok_sim: "creds_sim d d' \<Longrightarrow> resident_ok d' = resident_ok d"
  by (intro ext) (simp add: resident_ok_def creds_sim_fields)

lemma filter_resident_value:
  assumes "crypto_ok (d_cr d)" "set is \<subseteq> {..<50}" "length (gs_creds (d_ga d)) = 20" "count \<le> 20"
  shows "\<exists>n d'. filter_resident h is rk count d = Inr (n, d') \<and> creds_sim d d' \<and> length (gs_creds (d_ga d')) = 20 \<and> count \<le> n \<and> n \<le> 20
    \<and> (\<forall>j<count. gs_creds (d_ga d') ! j = gs_creds (d_ga d) ! j)
    \<and> (\<forall>j. count \<le> j \<and> j < n \<longrightarrow> (\<exists>i<50. resident_ok d h (rk_slots (d_flash d) ! i) \<and> gs_creds (d_ga d') ! j = rk_desc (rk_slots (d_flash d) ! i)))"
  using assms
proof (induction "is" arbitrary: rk count d)
  case Nil
  then show ?case by auto
next
  case (Cons i "is")
  have i: "i < 50" "set is \<subseteq> {..<50}" using Cons(3) by auto
  let ?rk = "rk_slots (d_flash d) ! i"
  have ld: "ctap_load_rk (d_flash d) i rk = ?rk" using i(1) by (rule load_rk_slot)
  obtain d1 where 1: "check_credential_metadata (rk_id ?rk) (gs_user_verified (d_ga d) \<noteq> 0) False d
      = Inr (if protection_lets (metadata_of (c_transport (d_cr d)) (rk_id ?rk)) (gs_user_verified (d_ga d) \<noteq> 0) False then 0 else CTAP2_ERR_NOT_ALLOWED, d1)"
    "dev_sim d d1" using check_metadata_value[OF Cons(2)] .
  note s1 = creds_sim_dev[OF 1(2)]
  have g1: "d_ga d1 = d_ga d" "d_flash d1 = d_flash d" using dev_sim_fields[OF 1(2)] by simp_all
  note cr1 = dev_sim_crypto[OF 1(2)]
  show ?case
  proof (cases "resident_ok d h ?rk")
    case False
    have "\<exists>d2. filter_resident h (i # is) rk count d = filter_resident h is ?rk count d2 \<and> creds_sim d d2 \<and> d_ga d2 = d_ga d \<and> d_flash d2 = d_flash d"
      using False ld 1(1) s1 g1 Cons(2) by (auto simp: Let_def resident_ok_def CTAP2_ERR_NOT_ALLOWED_def)
    then obtain d2 where 2: "filter_resident h (i # is) rk count d = filter_resident h is ?rk count d2" "creds_sim d d2"
      "d_ga d2 = d_ga d" "d_flash d2 = d_flash d" by blast
    have l2: "length (gs_creds (d_ga d2)) = 20" using Cons(4) 2(3) by simp
    obtain n d3 where 3: "filter_resident h is ?rk count d2 = Inr (n, d3)" "creds_sim d2 d3" "length (gs_creds (d_ga d3)) = 20" "count \<le> n" "n \<le> 20"
      "\<forall>j<count. gs_creds (d_ga d3) ! j = gs_creds (d_ga d2) ! j"
      "\<forall>j. count \<le> j \<and> j < n \<longrightarrow> (\<exists>i<50. resident_ok d2 h (rk_slots (d_flash d2) ! i) \<and> gs_creds (d_ga d3) ! j = rk_desc (rk_slots (d_flash d2) ! i))"
      using Cons(1)[OF creds_sim_fields(8)[OF 2(2)] i(2) l2 Cons(5), of ?rk] by blast
    show ?thesis
      by (rule exI[of _ n], rule exI[of _ d3])
        (use 2(1) 3 creds_sim_trans[OF 2(2) 3(2)] in \<open>simp add: resident_ok_sim[OF 2(2)] 2(3,4)\<close>)
  next
    case True
    show ?thesis
    proof (cases "count \<ge> 20")
      case full: True
      then have "filter_resident h (i # is) rk count d = Inr (count, d1)"
        using True ld 1(1) by (simp add: Let_def resident_ok_def ALLOW_LIST_MAX_SIZE_def)
      then show ?thesis using s1 g1 Cons(4,5) by auto
    next
      case room: False
      let ?d2 = "set_cred count (rk_desc ?rk) d1"
      have 2: "filter_resident h (i # is) rk count d = filter_resident h is ?rk (count + 1) ?d2"
        using True room ld 1(1) by (simp add: Let_def resident_ok_def ALLOW_LIST_MAX_SIZE_def)
      have s2: "creds_sim d ?d2" using creds_sim_set[OF s1] .
      have l2: "length (gs_creds (d_ga ?d2)) = 20" "count + 1 \<le> 20" using Cons(4) g1 room by (simp_all add: set_cred_def)
      have c2: "gs_creds (d_ga ?d2) = (gs_creds (d_ga d))[count := rk_desc ?rk]" "d_flash ?d2 = d_flash d" by (simp_all add: set_cred_def g1)
      obtain n d3 where 3: "filter_resident h is ?rk (count + 1) ?d2 = Inr (n, d3)" "creds_sim ?d2 d3" "length (gs_creds (d_ga d3)) = 20" "count + 1 \<le> n" "n \<le> 20"
        "\<forall>j<count + 1. gs_creds (d_ga d3) ! j = gs_creds (d_ga ?d2) ! j"
        "\<forall>j. count + 1 \<le> j \<and> j < n \<longrightarrow> (\<exists>i<50. resident_ok ?d2 h (rk_slots (d_flash ?d2) ! i) \<and> gs_creds (d_ga d3) ! j = rk_desc (rk_slots (d_flash ?d2) ! i))"
        using Cons(1)[OF creds_sim_fields(8)[OF s2] i(2) l2, of ?rk] by blast
      have a: "\<forall>j<count. gs_creds (d_ga d3) ! j = gs_creds (d_ga d) ! j" using 3(6) by (auto simp: c2)
      have b: "\<exists>i<50. resident_ok d h (rk_slots (d_flash d) ! i) \<and> gs_creds (d_ga d3) ! j = rk_desc (rk_slots (d_flash d) ! i)"
        if "count \<le> j" "j < n" for j
      proof (cases "j = count")
        case True
        then have "gs_creds (d_ga d3) ! j = rk_desc ?rk" using 3(6) Cons(4) room by (simp add: c2)
        then show ?thesis using \<open>resident_ok d h ?rk\<close> i(1) by blast
      next
        case False
        then show ?thesis using 3(7) that by (simp add: resident_ok_sim[OF s2] c2)
      qed
      show ?thesis
        by (rule exI[of _ n], rule exI[of _ d3]) (use 2 3(1,3-5) creds_sim_trans[OF s2 3(2)] a b in simp)
    qed
  qed
qed

subsection \<open>The choice\<close>

definition desc_count :: "cred_desc \<Rightarrow> u32" where
  "desc_count c = ci_count (cr_id (cd_credential c))"

lemma cmp_counts:
  assumes "unat (desc_count a) < 2 ^ 31" "unat (desc_count b) < 2 ^ 31"
  shows "cred_cmp_func a b \<le> 0 \<longleftrightarrow> desc_count b \<le> desc_count a"
proof -
  let ?a = "desc_count a" and ?b = "desc_count b"
  have u: "0 \<le> uint x" "uint x < 2 ^ 31" "sint x = uint x" if "unat x < 2 ^ 31" for x :: u32
  proof -
    have "int (unat x) < int (2 ^ 31)" using that by (simp only: of_nat_less_iff)
    then show b: "0 \<le> uint x" "uint x < 2 ^ 31" by simp_all
    have "- (2 ^ 31) \<le> uint x" by (rule order_trans[OF _ b(1)]) simp
    then show "sint x = uint x" using b(2) signed_take_bit_int_eq_self[of 31 "uint x"] by (simp add: sint_uint)
  qed
  note ab = u[OF assms(1)] u[OF assms(2)]
  have "sint (?b - ?a) = signed_take_bit 31 (uint ?b - uint ?a)" using ab by (simp add: sint_word_ariths)
  also have "\<dots> = uint ?b - uint ?a"
  proof (rule signed_take_bit_int_eq_self)
    have n: "(2 :: int) ^ 31 = 2147483648" by simp
    note m = ab[unfolded n]
    show "- (2 ^ 31) \<le> uint ?b - uint ?a" "uint ?b - uint ?a < 2 ^ 31" unfolding n using m by linarith+
  qed
  finally have "sint (?b - ?a) = uint ?b - uint ?a" .
  then show ?thesis by (simp add: cred_cmp_func_def desc_count_def word_le_def)
qed

lemma qsort_head:
  assumes "qsort_ok q" "\<forall>c\<in>set L. unat (desc_count c) < 2 ^ 31" "c \<in> set L" "desc_count c \<noteq> 0"
  shows "q cred_cmp_func L ! 0 \<in> set L" "desc_count (q cred_cmp_func L ! 0) \<noteq> 0"
proof -
  have c: "cred_cmp_func a b \<le> 0 \<longleftrightarrow> desc_count b \<le> desc_count a" if "a \<in> set L" "b \<in> set L" for a b
    using cmp_counts that assms(2) by blast
  have t: "cmp_total cred_cmp_func L" unfolding cmp_total_def
  proof (intro ballI conjI impI)
    fix a b assume "a \<in> set L" "b \<in> set L"
    then show "cred_cmp_func a b \<le> 0 \<or> cred_cmp_func b a \<le> 0" using c linear by simp
  next
    fix a b e assume "a \<in> set L" "b \<in> set L" "e \<in> set L" "cred_cmp_func a b \<le> 0 \<and> cred_cmp_func b e \<le> 0"
    then have "desc_count b \<le> desc_count a" "desc_count e \<le> desc_count b" "a \<in> set L" "e \<in> set L" using c by auto
    then show "cred_cmp_func a e \<le> 0" using c[of a e] order_trans by blast
  qed
  have st: "set (q cred_cmp_func L) = set L" and so: "sorted_wrt (\<lambda>a b. cred_cmp_func a b \<le> 0) (q cred_cmp_func L)"
    using assms(1) t by (auto simp: qsort_ok_def intro!: count_list_set)
  then obtain x xs where x: "q cred_cmp_func L = x # xs" using assms(3) by (cases "q cred_cmp_func L") auto
  have xl: "x \<in> set L" using st x by auto
  have "desc_count c \<le> desc_count x"
  proof (cases "c = x")
    case False
    then have "c \<in> set xs" using assms(3) st x by auto
    then show ?thesis using so x cmp_counts[of x c] assms(2,3) xl by auto
  qed simp
  then show "q cred_cmp_func L ! 0 \<in> set L" "desc_count (q cred_cmp_func L ! 0) \<noteq> 0"
    using x xl assms(4) by (auto simp: word_le_0_iff)
qed

text \<open>The counters of the request's own credentials, and no vendor request among the ids: then the first
  credential after the sort is usable.\<close>

definition sane_list :: "ctap_dev \<Rightarrow> rp_id \<Rightarrow> cred_desc list \<Rightarrow> bool" where
  "sane_list d rp cs \<longleftrightarrow> (\<forall>c\<in>set cs. \<not> listed_ext d rp c \<and> (listed_ok d rp c \<longrightarrow> desc_count c \<noteq> 0 \<and> unat (desc_count c) < 2 ^ 31))"

lemma filter_choice:
  assumes "crypto_ok (d_cr d)" "gs_ok (d_ga d)" "0 \<le> ga_credLen GA" "ga_credLen GA \<le> 20" "qsort_ok (env_qsort env)"
    and "sane_list d (ga_rp GA) (take (nat (ga_credLen GA)) (gs_creds (d_ga d)))"
    and "ctap_filter_invalid_credentials env GA d = Inr (valid, GA', d')" "valid \<noteq> 0"
  shows "creds_sim d d'" "GA' = GA\<lparr>ga_credLen := ga_credLen GA'\<rparr>" "length (gs_creds (d_ga d')) = 20" "valid \<le> 20"
    "(\<exists>c\<in>set (take (nat (ga_credLen GA)) (gs_creds (d_ga d))). listed_ok d (ga_rp GA) c \<and> gs_creds (d_ga d') ! 0 = add_existing_user_info d c)
     \<or> ga_credLen GA = 0 \<and> (\<exists>i<50. resident_ok d (sha256 (take (rp_size (ga_rp GA)) (rp_id (ga_rp GA)))) (rk_slots (d_flash d) ! i)
          \<and> gs_creds (d_ga d') ! 0 = rk_desc (rk_slots (d_flash d) ! i))"
proof -
  let ?n = "nat (ga_credLen GA)" and ?rp = "ga_rp GA" and ?cs = "gs_creds (d_ga d)"
  have l: "length ?cs = 20" and ok: "\<forall>c\<in>set ?cs. desc_ok c" using assms(2) by (simp_all add: gs_ok_def ALLOW_LIST_MAX_SIZE_def)
  have n: "?n \<le> length ?cs" using assms(3,4) l by simp
  have ci: "\<forall>j<?n. cid_ok (cr_id (cd_credential (?cs ! j)))" using ok n by (auto simp: desc_ok_def)
  obtain d1 where 1: "filter_listed ?rp [0..<?n] 0 d = Inr (length (filter (\<lambda>j. listed_ok d ?rp (?cs ! j) \<or> listed_ext d ?rp (?cs ! j)) [0..<?n]), d1)"
    "creds_sim d d1" "length (gs_creds (d_ga d1)) = length ?cs"
    "\<forall>j. gs_creds (d_ga d1) ! j = (if j < ?n then filtered d ?rp (?cs ! j) else ?cs ! j)"
    using filter_listed_from[OF assms(1) n ci, of 0 ?rp 0] by auto
  define L where "L = take ?n (gs_creds (d_ga d1))"
  have L: "L = map (filtered d ?rp) (take ?n ?cs)" using 1(3,4) n by (intro nth_equalityI) (simp_all add: L_def)
  have choice: "\<exists>c\<in>set (take ?n ?cs). listed_ok d ?rp c \<and> env_qsort env cred_cmp_func L ! 0 = add_existing_user_info d c"
    if v: "filter (\<lambda>j. listed_ok d ?rp (?cs ! j) \<or> listed_ext d ?rp (?cs ! j)) [0..<?n] \<noteq> []"
  proof -
    have cf: "desc_count (filtered d ?rp c) = (if listed_ok d ?rp c then desc_count c else 0)" if "c \<in> set (take ?n ?cs)" for c
      using assms(6) that by (auto simp: sane_list_def filtered_def desc_count_def invalidate_def add_existing_user_info_def set_cred_user_def split: option.split)
    obtain j where j: "j < ?n" "listed_ok d ?rp (?cs ! j)" using v assms(6) n by (fastforce simp: filter_empty_conv sane_list_def set_conv_nth)
    have jl: "?cs ! j \<in> set (take ?n ?cs)" using j(1) n by (auto simp: in_set_conv_nth)
    have a: "\<forall>c\<in>set L. unat (desc_count c) < 2 ^ 31" using assms(6) cf by (auto simp: L sane_list_def)
    have b: "filtered d ?rp (?cs ! j) \<in> set L" "desc_count (filtered d ?rp (?cs ! j)) \<noteq> 0"
      using jl cf[OF jl] j(2) assms(6) by (auto simp: L sane_list_def)
    note h = qsort_head[OF assms(5) a b]
    then obtain c where c: "c \<in> set (take ?n ?cs)" "env_qsort env cred_cmp_func L ! 0 = filtered d ?rp c" by (auto simp: L)
    then have "listed_ok d ?rp c" using h(2) cf[OF c(1)] by (auto split: if_splits)
    then show ?thesis using c by (auto simp: filtered_def)
  qed
  have ql: "set (env_qsort env cmp xs) = set xs" "length (env_qsort env cmp xs) = length xs" for cmp xs
  proof -
    have c: "\<forall>x. count_list (env_qsort env cmp xs) x = count_list xs x" using assms(5) by (simp add: qsort_ok_def)
    show st: "set (env_qsort env cmp xs) = set xs" using c by (intro count_list_set) simp
    show "length (env_qsort env cmp xs) = length xs" using c st sum_count_set[of xs "set xs"] sum_count_set[of "env_qsort env cmp xs" "set xs"] by simp
  qed
  note f = assms(7)[unfolded ctap_filter_invalid_credentials_def 1(1) seqE_simps split_conv]
  let ?h = "sha256 (take (rp_size ?rp) (rp_id ?rp))"
  have "creds_sim d d' \<and> GA' = GA\<lparr>ga_credLen := ga_credLen GA'\<rparr> \<and> length (gs_creds (d_ga d')) = 20 \<and> valid \<le> 20 \<and>
    ((\<exists>c\<in>set (take ?n ?cs). listed_ok d ?rp c \<and> gs_creds (d_ga d') ! 0 = add_existing_user_info d c)
     \<or> ga_credLen GA = 0 \<and> (\<exists>i<50. resident_ok d ?h (rk_slots (d_flash d) ! i) \<and> gs_creds (d_ga d') ! 0 = rk_desc (rk_slots (d_flash d) ! i)))"
  proof (cases "ga_credLen GA = 0")
    case False
    have e: "GA' = GA" "valid = length (filter (\<lambda>j. listed_ok d ?rp (?cs ! j) \<or> listed_ext d ?rp (?cs ! j)) [0..<?n])"
      "d' = d1\<lparr>d_ga := (d_ga d1)\<lparr>gs_creds := env_qsort env cred_cmp_func L @ drop ?n (gs_creds (d_ga d1))\<rparr>\<rparr>"
      using f False by (auto simp: L_def Let_def)
    have "valid \<le> ?n" using e(2) by (metis length_filter_le length_upt minus_nat.diff_0)
    moreover have "0 < length (env_qsort env cred_cmp_func L)" using ql(2) False assms(3) n by (simp add: L)
    moreover have "length (env_qsort env cred_cmp_func L) = ?n" using ql(2) n by (simp add: L)
    ultimately show ?thesis using e choice assms(4,8) 1(2,3) l n by (auto simp: nth_append creds_sim_sort)
  next
    case True
    obtain d2 where 2: "dev_sha [take (rp_size ?rp) (rp_id ?rp)] d1 = (?h, d2)" "dev_sim d1 d2"
      using dev_sha_value[OF creds_sim_fields(8)[OF 1(2)], of "[take (rp_size ?rp) (rp_id ?rp)]"] by auto
    note s2 = creds_sim_trans[OF 1(2) creds_sim_dev[OF 2(2)]]
    have l2: "length (gs_creds (d_ga d2)) = 20" using dev_sim_fields[OF 2(2)] 1(3) l by simp
    obtain m d3 where 3: "filter_resident ?h [0..<50] rk_zero 0 d2 = Inr (m, d3)" "creds_sim d2 d3" "length (gs_creds (d_ga d3)) = 20" "m \<le> 20"
      "\<forall>j<m. \<exists>i<50. resident_ok d2 ?h (rk_slots (d_flash d2) ! i) \<and> gs_creds (d_ga d3) ! j = rk_desc (rk_slots (d_flash d2) ! i)"
      using filter_resident_value[OF creds_sim_fields(8)[OF s2], of "[0..<50]" 0 ?h rk_zero] l2 by (auto simp: atLeast0LessThan)
    let ?L = "take m (gs_creds (d_ga d3))"
    have e: "GA' = GA\<lparr>ga_credLen := int m\<rparr>" "valid = m"
      "d' = d3\<lparr>d_ga := (d_ga d3)\<lparr>gs_creds := env_qsort env cred_cmp_func ?L @ drop m (gs_creds (d_ga d3))\<rparr>\<rparr>"
      using f True 2(1) 3(1) by (auto simp: Let_def ctap_rk_size_50)
    have lq: "length (env_qsort env cred_cmp_func ?L) = m" "0 < m" using ql(2)[of cred_cmp_func ?L] 3(3,4) assms(8) e(2) by simp_all
    then have "env_qsort env cred_cmp_func ?L ! 0 \<in> set ?L" using ql(1)[of cred_cmp_func ?L] nth_mem[of 0 "env_qsort env cred_cmp_func ?L"] by simp
    then obtain j where j: "j < m" "env_qsort env cred_cmp_func ?L ! 0 = gs_creds (d_ga d3) ! j" by (auto simp: in_set_conv_nth)
    then obtain i where i: "i < 50" "resident_ok d ?h (rk_slots (d_flash d) ! i)" "gs_creds (d_ga d3) ! j = rk_desc (rk_slots (d_flash d) ! i)"
      using 3(5) creds_sim_fields(2)[OF s2] by (auto simp: resident_ok_sim[OF s2])
    show ?thesis using e True lq i j 3(3,4) creds_sim_sort[OF creds_sim_trans[OF s2 3(2)]] by (auto simp: nth_append)
  qed
  then show "creds_sim d d'" "GA' = GA\<lparr>ga_credLen := ga_credLen GA'\<rparr>" "length (gs_creds (d_ga d')) = 20" "valid \<le> 20"
    "(\<exists>c\<in>set (take ?n ?cs). listed_ok d ?rp c \<and> gs_creds (d_ga d') ! 0 = add_existing_user_info d c)
     \<or> ga_credLen GA = 0 \<and> (\<exists>i<50. resident_ok d ?h (rk_slots (d_flash d) ! i) \<and> gs_creds (d_ga d') ! 0 = rk_desc (rk_slots (d_flash d) ! i))"
    by blast+
qed

end
