(* ===== verification/GetProps.thy ===== *)
theory GetProps
  imports GetChoice
begin

text \<open>
  The response of authenticatorGetAssertion: its authenticator data, the key that signs it, and what it
  leaves for getNextAssertion.
\<close>

subsection \<open>What the steps leave alone\<close>

definition buf_sim :: "ctap_dev \<Rightarrow> ctap_dev \<Rightarrow> bool" where
  "buf_sim d d' \<longleftrightarrow> count_sim (d\<lparr>d_ga := d_ga d'\<rparr>) d'
     \<and> (d_ga d')\<lparr>gs_head := gs_head (d_ga d), gs_extbuf := gs_extbuf (d_ga d)\<rparr> = d_ga d"

lemma buf_sim_count: "count_sim d d' \<Longrightarrow> buf_sim d d'"
  using count_sim_fields(6)[of d d'] by (simp add: buf_sim_def)

lemma buf_sim_refl [simp]: "crypto_ok (d_cr d) \<Longrightarrow> buf_sim d d"
  by (rule buf_sim_count) simp

lemma buf_sim_trans: "buf_sim a b \<Longrightarrow> buf_sim b c \<Longrightarrow> buf_sim a c"
proof -
  assume a: "buf_sim a b" and b: "buf_sim b c"
  have "count_sim (a\<lparr>d_ga := d_ga c\<rparr>) (b\<lparr>d_ga := d_ga c\<rparr>)"
    using a by (cases a; cases b; cases c) (auto simp: buf_sim_def count_sim_def)
  moreover have "(d_ga c)\<lparr>gs_head := gs_head (d_ga a), gs_extbuf := gs_extbuf (d_ga a)\<rparr> = d_ga a"
  proof -
    have "((d_ga c)\<lparr>gs_head := gs_head (d_ga b), gs_extbuf := gs_extbuf (d_ga b)\<rparr>)\<lparr>gs_head := gs_head (d_ga a), gs_extbuf := gs_extbuf (d_ga a)\<rparr> = d_ga a"
      using a b by (simp only: buf_sim_def)
    then show ?thesis by simp
  qed
  ultimately show ?thesis using b count_sim_trans[of "a\<lparr>d_ga := d_ga c\<rparr>" "b\<lparr>d_ga := d_ga c\<rparr>" c] by (simp add: buf_sim_def)
qed

lemma buf_sim_ga:
  assumes "buf_sim d d'" "g\<lparr>gs_head := gs_head (d_ga d), gs_extbuf := gs_extbuf (d_ga d)\<rparr> = d_ga d"
  shows "buf_sim d (d'\<lparr>d_ga := g\<rparr>)"
  using assms by (cases d; cases d') (auto simp: buf_sim_def count_sim_def)

lemma buf_sim_eq: "buf_sim d d' \<Longrightarrow> (d_ga d')\<lparr>gs_head := gs_head (d_ga d), gs_extbuf := gs_extbuf (d_ga d)\<rparr> = d_ga d"
  by (simp add: buf_sim_def)

lemma buf_sim_set: "buf_sim d d' \<Longrightarrow> buf_sim d (d'\<lparr>d_ga := (d_ga d')\<lparr>gs_head := h, gs_extbuf := b\<rparr>\<rparr>)"
  using buf_sim_eq[of d d'] by (intro buf_sim_ga) simp_all

lemma buf_sim_head: "buf_sim d d' \<Longrightarrow> buf_sim d (set_head h d')"
  using buf_sim_eq[of d d'] unfolding set_head_def by (intro buf_sim_ga) simp_all

lemma buf_sim_fields:
  assumes "buf_sim d d'"
  shows "d_st d' = d_st d" "d_pin_token d' = d_pin_token d" "d_boot d' = d_boot d" "d_ka_priv d' = d_ka_priv d"
    "d_up_off d' = d_up_off d" "crypto_ok (d_cr d')" "c_master (d_cr d') = c_master (d_cr d)"
    "c_transport (d_cr d') = c_transport (d_cr d)" "c_curve (d_cr d') = c_curve (d_cr d)"
    "gs_creds (d_ga d') = gs_creds (d_ga d)" "gs_user_verified (d_ga d') = gs_user_verified (d_ga d)"
    "gs_customCredIdSize (d_ga d') = gs_customCredIdSize (d_ga d)" "gs_customCredId (d_ga d') = gs_customCredId (d_ga d)" "d_cm d' = d_cm d"
proof -
  have c: "count_sim (d\<lparr>d_ga := d_ga d'\<rparr>) d'" using assms by (simp add: buf_sim_def)
  show "d_st d' = d_st d" "d_pin_token d' = d_pin_token d" "d_boot d' = d_boot d" "d_ka_priv d' = d_ka_priv d"
    "d_up_off d' = d_up_off d" "crypto_ok (d_cr d')" "c_master (d_cr d') = c_master (d_cr d)"
    "c_transport (d_cr d') = c_transport (d_cr d)" "c_curve (d_cr d') = c_curve (d_cr d)" "d_cm d' = d_cm d"
    using count_sim_fields[OF c] by simp_all
  note e = buf_sim_eq[OF assms]
  show "gs_creds (d_ga d') = gs_creds (d_ga d)" "gs_user_verified (d_ga d') = gs_user_verified (d_ga d)"
    "gs_customCredIdSize (d_ga d') = gs_customCredIdSize (d_ga d)" "gs_customCredId (d_ga d') = gs_customCredId (d_ga d)"
    using arg_cong[OF e, of gs_creds] arg_cong[OF e, of gs_user_verified] arg_cong[OF e, of gs_customCredIdSize] arg_cong[OF e, of gs_customCredId] by simp_all
qed

text \<open>The state and, apart from the counter pages, the flash are as they were.\<close>

definition counters_only :: "ctap_dev \<Rightarrow> ctap_dev \<Rightarrow> bool" where
  "counters_only d d' \<longleftrightarrow> d_st d' = d_st d \<and> (\<forall>x. \<not> counter_cell x \<longrightarrow> d_flash d' x = d_flash d x)"

lemma buf_sim_only: "buf_sim d d' \<Longrightarrow> counters_only d d'"
proof -
  assume a: "buf_sim d d'"
  then have "count_sim (d\<lparr>d_ga := d_ga d'\<rparr>) d'" unfolding buf_sim_def by blast
  then have "\<forall>x. \<not> counter_cell x \<longrightarrow> d_flash d' x = d_flash (d\<lparr>d_ga := d_ga d'\<rparr>) x" unfolding count_sim_def by blast
  then show ?thesis using buf_sim_fields(1)[OF a] by (simp add: counters_only_def)
qed

subsection \<open>Authenticator data\<close>

text \<open>Whether the presence test is made; without it the flag stays off.\<close>

definition asks_user :: "presence \<Rightarrow> ctap_dev \<Rightarrow> bool" where
  "asks_user ps d \<longleftrightarrow> ps_nfc ps \<or> \<not> d_up_off d"

lemma auth_head_run:
  assumes "env_ok env" "counter_inv d" "crypto_ok (d_cr d)" "counter_floor (d_flash d) < 2 ^ 31" "presence_ok ps"
    and "ctap_make_auth_data env ps rp 37 head None protect d = Inr (r, h, att, d')"
  shows "count_sim d d' \<and> (r = 0 \<longrightarrow> (asks_user ps d \<longrightarrow> user_present ps)
    \<and> (\<exists>w. counter_floor (d_flash d) < unat w \<and> unat w \<le> counter_floor (d_flash d) + 256 \<and> counter_floor (d_flash d') = unat w \<and> counter_inv d'
         \<and> h = \<lparr>ah_rpIdHash = sha256 (take (rp_size rp) (rp_id rp)),
                ah_flags = (if asks_user ps d then 1 else 0) OR (if ctap_is_pin_set d then 4 else 0), ah_signCount = u32_be_bytes w\<rparr>))"
proof -
  let ?h = "sha256 (take (rp_size rp) (rp_id rp))"
  obtain d1 where 1: "dev_sha [take (rp_size rp) (rp_id rp)] d = (?h, d1)" "dev_sim d d1"
    using dev_sha_value[OF assms(3), of "[take (rp_size rp) (rp_id rp)]"] by auto
  have i1: "counter_inv d1" "crypto_ok (d_cr d1)" "counter_floor (d_flash d1) < 2 ^ 31" "counter_floor (d_flash d1) = counter_floor (d_flash d)"
    using assms(2,4) dev_sim_fields[OF 1(2)] by (simp_all add: counter_inv_def)
  obtain w d2 where 2: "auth_data_update_count env (head\<lparr>ah_rpIdHash := ?h\<rparr>) d1 = Inr (w, head\<lparr>ah_rpIdHash := ?h, ah_signCount := u32_be_bytes w\<rparr>, d2)"
    "count_sim d1 d2" "counter_floor (d_flash d) < unat w" "counter_floor (d_flash d2) = unat w" "counter_inv d2" "unat w \<le> counter_floor (d_flash d) + 256"
    by (rule update_count_live[OF assms(1) i1(1-3), of "head\<lparr>ah_rpIdHash := ?h\<rparr>"]) (auto simp: i1(4))
  have s2: "count_sim d d2" using count_sim_trans[OF dev_sim_count[OF 1(2)] 2(2)] .
  have e2: "d_up_off d2 = d_up_off d" "ctap_is_pin_set d2 = ctap_is_pin_set d" using count_sim_fields[OF s2] by (simp_all add: ctap_is_pin_set_def)
  define but where "but = ctap2_user_presence_test 1 ps d2"
  have b: "but = 0 \<longleftrightarrow> asks_user ps d \<and> user_present ps" "but = CTAP2_ERR_PROCESSING \<longleftrightarrow> \<not> asks_user ps d"
    using presence_test_zero[OF assms(5), of 1 d2] presence_test_processing[OF assms(5), of 1 d2] e2
    by (auto simp: but_def asks_user_def user_present_def CTAP_RESET_def)
  show ?thesis
  proof (cases "but \<noteq> CTAP2_ERR_PROCESSING \<and> but \<noteq> 0")
    case True
    then show ?thesis using assms(6) 1(1) 2(1) s2 by (auto simp: ctap_make_auth_data_def but_def Let_def)
  next
    case False
    then have "r = 0 \<and> d' = d2 \<and> h = \<lparr>ah_rpIdHash = ?h, ah_flags = (if but = CTAP2_ERR_PROCESSING then 0 else 1) OR (if ctap_is_pin_set d then 4 else 0),
        ah_signCount = u32_be_bytes w\<rparr>"
      using assms(6) 1(1) 2(1) e2 by (cases head) (auto simp: ctap_make_auth_data_def but_def Let_def split: if_splits)
    moreover have "but = CTAP2_ERR_PROCESSING \<longleftrightarrow> \<not> asks_user ps d" "asks_user ps d \<longrightarrow> user_present ps" using b False by auto
    ultimately show ?thesis using s2 2(3-6) by auto
  qed
qed

lemma head_image_len [simp]: "length (head_image \<lparr>ah_rpIdHash = sha256 x, ah_flags = f, ah_signCount = u32_be_bytes w\<rparr>) = 37"
  by (simp add: head_image_def u32_be_bytes_def)

definition ga_auth :: "rp_id \<Rightarrow> bool \<Rightarrow> bool \<Rightarrow> u32 \<Rightarrow> bytes \<Rightarrow> bytes" where
  "ga_auth rp up uv w ext = sha256 (take (rp_size rp) (rp_id rp))
     @ [(if up then 1 else 0) OR (if uv then 4 else 0) OR (if ext \<noteq> [] then 0x80 else 0)] @ u32_be_bytes w @ ext"

lemma ga_auth_data_run:
  assumes "env_ok env" "counter_inv d" "crypto_ok (d_cr d)" "counter_floor (d_flash d) < 2 ^ 31" "presence_ok ps" "\<not> d_up_off d"
    and "gs_user_verified (d_ga d) = (if uv then 1 else 0)" "\<not> is_extension_request (cid_image (cr_id (cd_credential (gs_creds (d_ga d) ! 0)))) 70"
    and "ga_auth_data env ps GA d = Inr (Inr n, d')"
  shows "buf_sim d d' \<and> (ps_nfc ps \<or> ga_up GA \<noteq> 0 \<longrightarrow> user_present ps)
    \<and> (\<exists>w ext. counter_floor (d_flash d) < unat w \<and> unat w \<le> counter_floor (d_flash d) + 256 \<and> counter_floor (d_flash d') = unat w
        \<and> take n (ga_buf (d_ga d')) = ga_auth (ga_rp GA) (ps_nfc ps \<or> ga_up GA \<noteq> 0) uv w ext)"
proof -
  let ?d0 = "device_disable_up (ga_up GA = 0) d"
  have 0: "env_ok env" "counter_inv ?d0" "crypto_ok (d_cr ?d0)" "counter_floor (d_flash ?d0) < 2 ^ 31"
    using assms(1-4) by (simp_all add: device_disable_up_def counter_inv_def)
  have au: "asks_user ps ?d0 \<longleftrightarrow> ps_nfc ps \<or> ga_up GA \<noteq> 0" by (simp add: asks_user_def device_disable_up_def)
  obtain r h att d1 where 1: "ctap_make_auth_data env ps (ga_rp GA) 37 (gs_head (d_ga ?d0)) None (ex_cred_protect (ga_extensions GA)) ?d0 = Inr (r, h, att, d1)"
    using assms(8,9) by (auto simp: ga_auth_data_def Let_def seqE_Inr)
  have r: "r = 0" using assms(8,9) 1 by (auto simp: ga_auth_data_def Let_def split: if_splits)
  note a = auth_head_run[OF 0 assms(5) 1]
  obtain w where w: "counter_floor (d_flash d) < unat w" "counter_floor (d_flash d1) = unat w"
    "h = \<lparr>ah_rpIdHash = sha256 (take (rp_size (ga_rp GA)) (rp_id (ga_rp GA))),
          ah_flags = (if ps_nfc ps \<or> ga_up GA \<noteq> 0 then 1 else 0) OR (if ctap_is_pin_set d then 4 else 0), ah_signCount = u32_be_bytes w\<rparr>"
    "ps_nfc ps \<or> ga_up GA \<noteq> 0 \<longrightarrow> user_present ps" "count_sim ?d0 d1" "unat w \<le> counter_floor (d_flash d) + 256"
    using a r unfolding au by (auto simp: device_disable_up_def ctap_is_pin_set_def)
  have b1: "buf_sim d (device_disable_up False d1)"
    using w(5) assms(6) count_sim_fields(6)[OF w(5)] by (cases d; cases d1) (auto simp: buf_sim_def count_sim_def device_disable_up_def)
  let ?h2 = "h\<lparr>ah_flags := (ah_flags h AND NOT 4) OR push_bit 2 (gs_user_verified (d_ga d))\<rparr>"
  let ?d2 = "set_head ?h2 (device_disable_up False (set_head h d1))"
  have b2: "buf_sim d ?d2" using buf_sim_head[OF b1, of ?h2] by (simp add: set_head_def device_disable_up_def)
  have uv1: "gs_user_verified (d_ga d1) = gs_user_verified (d_ga d)" using count_sim_fields(6)[OF w(5)] by (simp add: device_disable_up_def)
  have nx: "ctap_make_extensions env (ga_extensions GA) 80 ?d2 \<noteq> Inl x" "ctap_make_extensions env (ga_extensions GA) 80 ?d2 \<noteq> Inr (Inl y, x)" for x y
    using assms(8,9) 1 r uv1 by (auto simp: ga_auth_data_def Let_def set_head_def device_disable_up_def)
  then obtain ext d3 where 3: "ctap_make_extensions env (ga_extensions GA) 80 ?d2 = Inr (Inr ext, d3)"
    by (metis obj_sumE surj_pair)
  note s3 = extensions_frame[OF buf_sim_fields(6)[OF b2] 3]
  let ?h3 = "if ext \<noteq> [] then ?h2\<lparr>ah_flags := ah_flags ?h2 OR 0x80\<rparr> else ?h2"
  have g: "d_ga (set_head h d1) = (d_ga d1)\<lparr>gs_head := h\<rparr>" by (simp add: set_head_def)
  have d': "n = 37 + length ext" "d' = d3\<lparr>d_ga := (d_ga d3)\<lparr>gs_head := ?h3, gs_extbuf := blit (gs_extbuf (d_ga d3)) 0 ext\<rparr>\<rparr>"
    using assms(8,9) 1 r 3 uv1 by (auto simp: ga_auth_data_def Let_def set_head_def device_disable_up_def split: if_splits)
  have b3: "buf_sim d d'" using buf_sim_set[OF buf_sim_trans[OF b2 buf_sim_count[OF dev_sim_count[OF s3]]]] d'(2) by simp
  have fl: "counter_floor (d_flash d') = unat w"
    using dev_sim_fields[OF s3] w(2) by (simp add: d'(2) set_head_def device_disable_up_def)
  have h3: "?h3 = \<lparr>ah_rpIdHash = sha256 (take (rp_size (ga_rp GA)) (rp_id (ga_rp GA))),
      ah_flags = (if ps_nfc ps \<or> ga_up GA \<noteq> 0 then 1 else 0) OR (if uv then 4 else 0) OR (if ext \<noteq> [] then 0x80 else 0), ah_signCount = u32_be_bytes w\<rparr>"
    using assms(7) by (auto simp: w(3))
  have "take n (ga_buf (d_ga d')) = ga_auth (ga_rp GA) (ps_nfc ps \<or> ga_up GA \<noteq> 0) uv w ext"
  proof -
    have l: "length (head_image ?h3) = 37" by (subst h3) simp
    have "take n (ga_buf (d_ga d')) = head_image ?h3 @ ext" using l by (simp add: d' ga_buf_def blit_def del: if_split)
    then show ?thesis by (simp only: h3 ga_auth_def head_image_def auth_header.simps append_assoc)
  qed
  then show ?thesis using b3 w(1,4,6) fl by blast
qed

subsection \<open>The rest of the response\<close>

definition signed_part :: "credential \<Rightarrow> nat \<Rightarrow> bytes \<Rightarrow> bytes \<Rightarrow> bool \<Rightarrow> enc list" where
  "signed_part c sz auth sig verified =
     EInt 1 # descriptor_calls c sz @ [EInt 2, EBytes auth, EInt 3, EBytes sig]
     @ (if u_id_size (cr_user c) \<noteq> 0 then EInt 4 # user_calls (cr_user c) verified else [])"

lemma ga_signature_value:
  assumes "crypto_ok (d_cr d)" "\<not> is_extension_request (cid_image c) 70" "ga_signature env ps c auth cdh d = Inr (len, sigder, d')"
  shows "signed_by env (c_signing_key (d_cr d)) (c_curve (d_cr d)) (auth @ take 32 cdh) (take (nat len) sigder)" "buf_sim d d'"
proof -
  obtain h sd d1 where 1: "ctap_calculate_signature env auth cdh d = Inr (h, sd, d1)" "sd = (len, sigder)"
    "d' = set_head ((gs_head (d_ga d1))\<lparr>ah_rpIdHash := h\<rparr>) d1"
    using assms(2,3) by (auto simp: ga_signature_def extend_fido2_def seqE_Inr)
  note s = signature_value[OF assms(1) 1(1)]
  show "signed_by env (c_signing_key (d_cr d)) (c_curve (d_cr d)) (auth @ take 32 cdh) (take (nat len) sigder)" "buf_sim d d'"
    using s(1) 1(2) buf_sim_head[OF buf_sim_count[OF s(2)]] by (simp_all add: 1(3))
qed

lemma end_assertion_run:
  assumes "crypto_ok (d_cr d)" "\<not> is_extension_request (cid_image (cr_id (cd_credential (gs_creds (d_ga d) ! i)))) 70"
    and "ctap_end_get_assertion env ps err i n cdh tr d = Inr (Inr tr', d')"
  shows "\<exists>sig. tr' = tr @ signed_part (cd_credential (gs_creds (d_ga d) ! i)) (get_credential_id_size (cd_type (gs_creds (d_ga d) ! i)) d)
        (take n (ga_buf (d_ga d))) sig (gs_user_verified (d_ga d) \<noteq> 0)
    \<and> signed_by env (cred_key (env_lib env) (c_master (d_cr d)) (take (get_credential_id_size (cd_type (gs_creds (d_ga d) ! i)) d)
          (cred_mem (cd_credential (gs_creds (d_ga d) ! i))))) (c_curve (d_cr d)) (take n (ga_buf (d_ga d)) @ take 32 cdh) sig
    \<and> buf_sim d d'"
proof -
  let ?c = "cd_credential (gs_creds (d_ga d) ! i)" and ?sz = "get_credential_id_size (cd_type (gs_creds (d_ga d) ! i)) d"
  let ?auth = "take n (ga_buf (d_ga d))" and ?v = "gs_user_verified (d_ga d) \<noteq> 0"
  let ?e1 = "seqE (emits err [EInt 1] tr) (\<lambda>tr. seqE (ctap_add_credential_descriptor err ?c (cd_type (gs_creds (d_ga d) ! i)) d tr) (emits err [EInt 2, EBytes ?auth]))"
  obtain t1 where t1: "?e1 = Inr t1"
    using assms(3) by (cases "?e1") (auto simp: ctap_end_get_assertion_def Let_def simp del: emits.simps)
  have t1v: "t1 = tr @ [EInt 1] @ descriptor_calls ?c ?sz @ [EInt 2, EBytes ?auth]"
    using t1 by (auto simp: seqE_Inr ctap_add_credential_descriptor_def dest!: emits_Inr simp del: emits.simps)
  obtain d1 where k: "dev_load_key env (take ?sz (cred_mem ?c)) d = Inr d1" "count_sim d d1"
    "c_signing_key (d_cr d1) = cred_key (env_lib env) (c_master (d_cr d)) (take ?sz (cred_mem ?c))"
    using dev_load_key_value[OF assms(1)] by metis
  have cv: "c_curve (d_cr d1) = c_curve (d_cr d)" using count_sim_fields(12)[OF k(2)] .
  note e = assms(3)[unfolded ctap_end_get_assertion_def Let_def t1 sum.case k(1) seqE_simps]
  obtain len sigder d2 where g: "ga_signature env ps (cr_id ?c) ?auth cdh d1 = Inr (len, sigder, d2)"
    using e by (auto simp: seqE_Inr)
  note gs = ga_signature_value[OF count_sim_fields(9)[OF k(2)] assms(2) g, unfolded k(3) cv]
  have b: "buf_sim d d2" using buf_sim_trans[OF buf_sim_count[OF k(2)] gs(2)] .
  obtain t2 where t2: "emits err [EInt 3, EBytes (take (nat len) sigder)] t1 = Inr t2"
    using e g by (cases "emits err [EInt 3, EBytes (take (nat len) sigder)] t1") (auto simp del: emits.simps)
  have f: "(if u_id_size (cr_user ?c) \<noteq> 0 then
       seqE (emits err [EInt 4] t2) (ctap_add_user_entity err (cr_user ?c) (gs_user_verified (d_ga d2) \<noteq> 0)) else Inr t2) = Inr tr'" "d' = d2"
    using e g t2 by (auto simp del: emits.simps)
  have "tr' = t2 @ (if u_id_size (cr_user ?c) \<noteq> 0 then EInt 4 # user_calls (cr_user ?c) ?v else [])"
    using f(1) buf_sim_fields(11)[OF b] by (auto simp: seqE_Inr ctap_add_user_entity_def dest!: emits_Inr split: if_splits simp del: emits.simps)
  then have "tr' = tr @ signed_part ?c ?sz ?auth (take (nat len) sigder) ?v"
    using emits_Inr[OF t2] t1v by (simp add: signed_part_def)
  then show ?thesis using gs(1) b f(2) by blast
qed

lemma end_flash:
  assumes "ctap_end_get_assertion env ps err i n cdh tr d = Inr (r, d')"
  shows "d_flash d' = d_flash d"
proof -
  have k: "dev_load_key env x e = Inr e' \<Longrightarrow> d_flash e' = d_flash e" for x e e' by (auto simp: dev_load_key_def seqE_Inr)
  have h: "d_flash (snd (dev_sha ds e)) = d_flash e" for ds e by (simp add: dev_sha_def Let_def split_beta)
  have c: "ctap_calculate_signature env au cd e = Inr (x, y, e') \<Longrightarrow> d_flash e' = d_flash e" for au cd e x y e'
    using h[of "[au, take 32 cd]" e] by (auto simp: ctap_calculate_signature_def dev_sign_def seqE_Inr split_beta)
  have x: "extend_fido2 env ps c out e = Inr (b, o2, e') \<Longrightarrow> d_flash e' = d_flash e" for c out e b o2 e'
    by (auto simp: extend_fido2_def bridge_u2f_to_solo_def seqE_Inr Let_def ctap_generate_rng_def split: if_splits prod.splits)
  have s: "ga_signature env ps c au cd e = Inr (x, y, e') \<Longrightarrow> d_flash e' = d_flash e" for c au cd e x y e'
    by (auto simp: ga_signature_def seqE_Inr set_head_def dest!: x c split: if_splits)
  define m where "m = seqE (emits err [EInt 1] tr) (\<lambda>tr. seqE (ctap_add_credential_descriptor err (cd_credential (gs_creds (d_ga d) ! i)) (cd_type (gs_creds (d_ga d) ! i)) d tr)
      (emits err [EInt 2, EBytes (take n (ga_buf (d_ga d)))]))"
  note e = assms[unfolded ctap_end_get_assertion_def Let_def, folded m_def]
  show ?thesis
  proof (cases m)
    case (Inr tr1)
    obtain d1 where 1: "dev_load_key env (take (get_credential_id_size (cd_type (gs_creds (d_ga d) ! i)) d) (cred_mem (cd_credential (gs_creds (d_ga d) ! i)))) d = Inr d1"
      using e[unfolded Inr] by (auto simp: seqE_Inr)
    obtain x sg d2 where 2: "ga_signature env ps (cr_id (cd_credential (gs_creds (d_ga d) ! i))) (take n (ga_buf (d_ga d))) cdh d1 = Inr (x, sg, d2)"
      using e[unfolded Inr] 1 by (auto simp: seqE_Inr)
    have "d' = d2" using e[unfolded Inr] 1 2 by (auto simp del: emits.simps split: sum.splits)
    then show ?thesis using k[OF 1] s[OF 2] by simp
  qed (use e in simp)
qed

text \<open>The response of getAssertion for the chosen credential.\<close>

definition ga_reply :: "nat \<Rightarrow> credential \<Rightarrow> nat \<Rightarrow> bytes \<Rightarrow> bytes \<Rightarrow> bool \<Rightarrow> nat \<Rightarrow> enc list" where
  "ga_reply n c sz auth sig verified valid =
     EMap n # signed_part c sz auth sig verified @ (if valid > 1 then [EInt 5, EInt (int valid)] else []) @ [EClose]"

lemma clear_name_fields:
  "cr_id (cd_credential (gs_creds (d_ga (clear_name i d)) ! j)) = cr_id (cd_credential (gs_creds (d_ga d) ! j))"
  "cd_type (gs_creds (d_ga (clear_name i d)) ! j) = cd_type (gs_creds (d_ga d) ! j)" "d_st (clear_name i d) = d_st d" "d_flash (clear_name i d) = d_flash d"
  "d_cr (clear_name i d) = d_cr d" "d_sc (clear_name i d) = d_sc d" "d_up_off (clear_name i d) = d_up_off d" "gs_user_verified (d_ga (clear_name i d)) = gs_user_verified (d_ga d)"
  "gs_customCredIdSize (d_ga (clear_name i d)) = gs_customCredIdSize (d_ga d)" "length (gs_creds (d_ga (clear_name i d))) = length (gs_creds (d_ga d))"
  by (cases "i < length (gs_creds (d_ga d))"; cases "j = i"; simp add: clear_name_def set_cred_def set_cred_user_def Let_def list_update_beyond)+

lemma cred_size_cong: "gs_customCredIdSize (d_ga d') = gs_customCredIdSize (d_ga d) \<Longrightarrow> get_credential_id_size t d' = get_credential_id_size t d"
  by (simp add: get_credential_id_size_def)

end
