(* ===== verification/GetClaims.thy ===== *)
theory GetClaims
  imports GetProps
begin

text \<open>
  The promises of authenticatorGetAssertion: which credential may answer, what the user had to do for it,
  and what the signature covers.
\<close>

subsection \<open>The response for the chosen credential\<close>

lemma ga_respond_run:
  assumes "env_ok env" "counter_inv d" "crypto_ok (d_cr d)" "counter_floor (d_flash d) < 2 ^ 31" "presence_ok ps" "\<not> d_up_off d"
    and "gs_user_verified (d_ga d) = (if uv then 1 else 0)" "gs_creds (d_ga d) ! 0 = desc"
    and "\<not> is_extension_request (cid_image (cr_id (cd_credential desc))) 70"
    and "ga_respond env ps err valid GA d = Inr (Inr tr, d')"
  shows "\<exists>n u w ext sig. tr = ga_reply n \<lparr>cr_id = cr_id (cd_credential desc), cr_user = u\<rparr> (get_credential_id_size (cd_type desc) d)
          (ga_auth (ga_rp GA) (ps_nfc ps \<or> ga_up GA \<noteq> 0) uv w ext) sig uv valid
      \<and> counter_floor (d_flash d) < unat w \<and> unat w \<le> counter_floor (d_flash d) + 256 \<and> counter_floor (d_flash d') = unat w \<and> counters_only d d'
      \<and> signed_by env (cred_key (env_lib env) (c_master (d_cr d)) (take (get_credential_id_size (cd_type desc) d)
            (cred_mem \<lparr>cr_id = cr_id (cd_credential desc), cr_user = u\<rparr>))) (c_curve (d_cr d))
          (ga_auth (ga_rp GA) (ps_nfc ps \<or> ga_up GA \<noteq> 0) uv w ext @ take 32 (ga_clientDataHash GA)) sig
      \<and> (u = cr_user (cd_credential desc) \<or> u = (cr_user (cd_credential desc))\<lparr>u_name := zeros 65\<rparr>)
      \<and> (ps_nfc ps \<or> ga_up GA \<noteq> 0 \<longrightarrow> user_present ps)"
proof -
  let ?up = "ps_nfc ps \<or> ga_up GA \<noteq> 0"
  define n where "n = 3 + (if valid > 1 then 1 else 0) + (if u_id_size (cr_user (cd_credential (gs_creds (d_ga d) ! (valid - 1)))) \<noteq> 0 then 1 else 0 :: nat)"
  note R = assms(10)[unfolded ga_respond_def Let_def, folded n_def]
  obtain t0 where t0: "emits err [EMap n] [] = Inr t0" using R by (cases "emits err [EMap n] []") (auto simp del: emits.simps)
  have t0v: "t0 = [EMap n]" using emits_Inr[OF t0] by simp
  define d1 where "d1 = (if valid < 2 \<or> gs_user_verified (d_ga d) = 0 then clear_name 0 d else d)"
  define GA1 where "GA1 = link_hmac_secret GA"
  have G: "ga_rp GA1 = ga_rp GA" "ga_up GA1 = ga_up GA" "ga_clientDataHash GA1 = ga_clientDataHash GA" by (simp_all add: GA1_def link_hmac_secret_def)
  let ?c = "cd_credential (gs_creds (d_ga d1) ! 0)"
  have f1: "cr_id ?c = cr_id (cd_credential desc)" "cd_type (gs_creds (d_ga d1) ! 0) = cd_type desc" "d_flash d1 = d_flash d" "d_cr d1 = d_cr d"
    "d_sc d1 = d_sc d" "d_st d1 = d_st d" "\<not> d_up_off d1" "gs_user_verified (d_ga d1) = (if uv then 1 else 0)"
    "gs_customCredIdSize (d_ga d1) = gs_customCredIdSize (d_ga d)"
    using assms(6,7,8) by (simp_all add: d1_def clear_name_fields)
  have u1: "cr_user ?c = cr_user (cd_credential desc) \<or> cr_user ?c = (cr_user (cd_credential desc))\<lparr>u_name := zeros 65\<rparr>"
    by (cases "gs_creds (d_ga d)")
      (use assms(8) in \<open>auto simp: d1_def clear_name_def set_cred_def set_cred_user_def Let_def list_update_beyond\<close>)
  have p1: "env_ok env" "counter_inv d1" "crypto_ok (d_cr d1)" "counter_floor (d_flash d1) < 2 ^ 31"
    using assms(1-4) f1 by (simp_all add: counter_inv_def)
  have ext1: "\<not> is_extension_request (cid_image (cr_id ?c)) 70" using assms(9) f1(1) by simp
  note R1 = R[unfolded t0 sum.case, folded d1_def GA1_def]
  have nx: "ga_auth_data env ps GA1 d1 \<noteq> Inl x" "ga_auth_data env ps GA1 d1 \<noteq> Inr (Inl y, x)" for x y
    using R1 by auto
  then obtain sz d2 where 2: "ga_auth_data env ps GA1 d1 = Inr (Inr sz, d2)" by (metis obj_sumE surj_pair)
  have run: "buf_sim d1 d2 \<and> (?up \<longrightarrow> user_present ps)
    \<and> (\<exists>w ext. counter_floor (d_flash d1) < unat w \<and> unat w \<le> counter_floor (d_flash d1) + 256 \<and> counter_floor (d_flash d2) = unat w
        \<and> take sz (ga_buf (d_ga d2)) = ga_auth (ga_rp GA) ?up uv w ext)"
    using ga_auth_data_run[OF p1 assms(5) f1(7,8) ext1 2] unfolding G .
  then obtain w ext where w: "buf_sim d1 d2" "?up \<longrightarrow> user_present ps" "counter_floor (d_flash d) < unat w"
    "take sz (ga_buf (d_ga d2)) = ga_auth (ga_rp GA) ?up uv w ext" "counter_floor (d_flash d2) = unat w" "unat w \<le> counter_floor (d_flash d) + 256" unfolding f1(3) by blast
  note b = buf_sim_fields[OF w(1)]
  have c2: "gs_creds (d_ga d2) ! 0 = gs_creds (d_ga d1) ! 0" using b(10) by simp
  have ext2: "\<not> is_extension_request (cid_image (cr_id (cd_credential (gs_creds (d_ga d2) ! 0)))) 70" using ext1 c2 by simp
  let ?E = "ctap_end_get_assertion env ps err 0 sz (ga_clientDataHash GA) t0 d2"
  note R2 = R1[unfolded 2 seqE_simps split_conv sum.case G]
  have ne: "?E \<noteq> Inl x" "?E \<noteq> Inr (Inl y, x)" for x y using R2 by auto
  then obtain t3 d3 where 3: "?E = Inr (Inr t3, d3)" by (metis obj_sumE surj_pair)
  let ?sz = "get_credential_id_size (cd_type desc) d"
  have sz: "get_credential_id_size (cd_type (gs_creds (d_ga d2) ! 0)) d2 = ?sz"
    using c2 f1(2,9) b(12) by (simp add: get_credential_id_size_def)
  have cr: "c_master (d_cr d2) = c_master (d_cr d)" "c_curve (d_cr d2) = c_curve (d_cr d)" using b(7,9) f1(4) by simp_all
  have v2: "(gs_user_verified (d_ga d2) \<noteq> 0) = uv" using b(11) f1(8) by simp
  obtain sig where s: "t3 = t0 @ signed_part ?c ?sz (ga_auth (ga_rp GA) ?up uv w ext) sig uv"
    "signed_by env (cred_key (env_lib env) (c_master (d_cr d)) (take ?sz (cred_mem ?c))) (c_curve (d_cr d))
      (ga_auth (ga_rp GA) ?up uv w ext @ take 32 (ga_clientDataHash GA)) sig" "buf_sim d2 d3"
    using end_assertion_run[OF b(6) ext2 3] unfolding sz w(4) cr v2 unfolding c2 by blast
  have "tr = t3 @ (if valid > 1 then [EInt 5, EInt (int valid)] else []) @ [EClose]"
    using R2[unfolded 3 seqE_simps split_conv]
    by (auto split: sum.splits prod.splits if_splits simp: seqE_Inr dest!: emits_Inr simp del: emits.simps)
  moreover have "d_flash d' = d_flash d3" "d_st d' = d_st d3"
    using R2[unfolded 3 seqE_simps split_conv]
    by (auto simp: save_credential_list_def Let_def split: sum.splits prod.splits if_splits simp del: emits.simps)
  moreover have "counters_only d1 d3" by (rule buf_sim_only[OF buf_sim_trans[OF w(1) s(3)]])
  ultimately have fl: "counter_floor (d_flash d') = unat w" "counters_only d d'" and tr: "tr = ga_reply n ?c ?sz (ga_auth (ga_rp GA) ?up uv w ext) sig uv valid"
    using s(1) t0v w(5) end_flash[OF 3] f1(3,6) by (simp_all add: ga_reply_def counters_only_def)
  have ce: "\<lparr>cr_id = cr_id (cd_credential desc), cr_user = cr_user ?c\<rparr> = ?c" using f1(1) by simp
  show ?thesis
    by (rule exI[of _ n], rule exI[of _ "cr_user ?c"], rule exI[of _ w], rule exI[of _ ext], rule exI[of _ sig], unfold ce)
      (intro conjI tr w(3,6) fl s(2) u1 w(2))
qed

subsection \<open>The whole command\<close>

text \<open>What a request must not name: ids with the tag of a vendor request, and ids of this token's that carry the
  counter 0 or one of \<open>2 ^ 31\<close> or more, which the sort would misplace.\<close>

definition no_vendor :: "ctap_dev \<Rightarrow> cred_desc list \<Rightarrow> bool" where
  "no_vendor d cs \<longleftrightarrow> (\<forall>c\<in>set cs. \<not> is_extension_request (cid_image (cr_id (cd_credential c))) 70)
     \<and> \<not> is_extension_request (gs_customCredId (d_ga d)) (unat (gs_customCredIdSize (d_ga d)))
     \<and> (\<forall>i<50. \<not> is_extension_request (cid_image (rk_id (rk_slots (d_flash d) ! i))) 70)"

definition small_counts :: "ctap_dev \<Rightarrow> rp_id \<Rightarrow> cred_desc list \<Rightarrow> bool" where
  "small_counts d rp cs \<longleftrightarrow> (\<forall>c\<in>set cs. cred_ours d rp c \<longrightarrow> desc_count c \<noteq> 0 \<and> unat (desc_count c) < 2 ^ 31)"

text \<open>The credentials a request may use: those of its list that are this token's for the relying party, or without a
  list the resident ones of the relying party, as far as their protection level allows it.\<close>

definition usable :: "ctap_dev \<Rightarrow> get_assertion \<Rightarrow> bool \<Rightarrow> u8 \<Rightarrow> credential_id \<Rightarrow> bool" where
  "usable d GA uv ty c \<longleftrightarrow>
     (\<exists>desc\<in>set (take (nat (ga_credLen GA)) (gs_creds (d_ga d))). cd_type desc = ty \<and> cr_id (cd_credential desc) = c
        \<and> cred_ours d (ga_rp GA) desc \<and> protection_lets (metadata_of (c_transport (d_cr d)) c) uv True)
     \<or> ga_credLen GA = 0 \<and> ty = 1 \<and> (\<exists>rk\<in>set (rk_slots (d_flash d)). ctap_rk_is_valid rk \<and> rk_id rk = c
        \<and> ci_rpIdHash c = sha256 (take (rp_size (ga_rp GA)) (rp_id (ga_rp GA)))
        \<and> protection_lets (metadata_of (c_transport (d_cr d)) c) uv False)"

definition id_size :: "u8 \<Rightarrow> nat" where
  "id_size ty = (if ty = 0x41 then 48 else 70)"

lemma choice_sim:
  assumes "creds_sim d d'"
  shows "cred_ours d' = cred_ours d" "no_vendor d' = no_vendor d" "small_counts d' = small_counts d"
    "gs_creds (d_ga d') = gs_creds (d_ga d) \<Longrightarrow> usable d' = usable d"
proof -
  note f = creds_sim_fields[OF assms]
  show o: "cred_ours d' = cred_ours d" by (intro ext) (simp add: cred_ours_def f handle_valid_def Let_def)
  show "no_vendor d' = no_vendor d" by (intro ext) (simp add: no_vendor_def f)
  show "small_counts d' = small_counts d" by (intro ext) (simp add: small_counts_def o)
  show "usable d' = usable d" if "gs_creds (d_ga d') = gs_creds (d_ga d)" using that by (intro ext) (simp add: usable_def o f)
qed

lemma rk_slots_cid: "rk \<in> set (rk_slots f) \<Longrightarrow> cid_ok (rk_id rk)"
  by (auto simp: rk_slots_def ctap_rk_size_50 ctap_load_rk_def rk_page_range rk_of_image_def RK_SIZE_def intro!: cid_of_image_ok)

text \<open>The chosen credential, and the size of its id.\<close>

lemma chosen_usable:
  assumes "crypto_ok (d_cr d)" "gs_ok (d_ga d)" "0 \<le> ga_credLen GA" "ga_credLen GA \<le> 20" "qsort_ok (env_qsort env)"
    and "no_vendor d (take (nat (ga_credLen GA)) (gs_creds (d_ga d)))" "small_counts d (ga_rp GA) (take (nat (ga_credLen GA)) (gs_creds (d_ga d)))"
    and "ctap_filter_invalid_credentials env GA d = Inr (valid, GA', d')" "valid \<noteq> 0" "(gs_user_verified (d_ga d) \<noteq> 0) = uv"
  shows "creds_sim d d'" "GA' = GA\<lparr>ga_credLen := ga_credLen GA'\<rparr>" "valid \<le> 20"
    "usable d GA uv (cd_type (gs_creds (d_ga d') ! 0)) (cr_id (cd_credential (gs_creds (d_ga d') ! 0)))"
    "\<not> is_extension_request (cid_image (cr_id (cd_credential (gs_creds (d_ga d') ! 0)))) 70"
    "get_credential_id_size (cd_type (gs_creds (d_ga d') ! 0)) d' = id_size (cd_type (gs_creds (d_ga d') ! 0))"
    "cid_ok (cr_id (cd_credential (gs_creds (d_ga d') ! 0)))"
proof -
  let ?cs = "take (nat (ga_credLen GA)) (gs_creds (d_ga d))"
  have s: "sane_list d (ga_rp GA) ?cs"
    using assms(6,7) by (auto simp: sane_list_def no_vendor_def small_counts_def listed_ext_def listed_ok_def)
  note f = filter_choice[OF assms(1-5) s assms(8,9)]
  show "creds_sim d d'" "GA' = GA\<lparr>ga_credLen := ga_credLen GA'\<rparr>" "valid \<le> 20" by (fact f)+
  have id: "cr_id (cd_credential (add_existing_user_info d c)) = cr_id (cd_credential c)" "cd_type (add_existing_user_info d c) = cd_type c" for c
    by (simp_all add: add_existing_user_info_def set_cred_user_def split: option.split)
  have "usable d GA uv (cd_type (gs_creds (d_ga d') ! 0)) (cr_id (cd_credential (gs_creds (d_ga d') ! 0)))
      \<and> \<not> is_extension_request (cid_image (cr_id (cd_credential (gs_creds (d_ga d') ! 0)))) 70 \<and> cd_type (gs_creds (d_ga d') ! 0) \<noteq> 0x42
      \<and> cid_ok (cr_id (cd_credential (gs_creds (d_ga d') ! 0)))"
    using f(5)
  proof
    assume "\<exists>c\<in>set ?cs. listed_ok d (ga_rp GA) c \<and> gs_creds (d_ga d') ! 0 = add_existing_user_info d c"
    then obtain c where c: "c \<in> set ?cs" "listed_ok d (ga_rp GA) c" "gs_creds (d_ga d') ! 0 = add_existing_user_info d c" by blast
    have "cd_type c \<noteq> 0x42" using c(2) assms(6) by (auto simp: listed_ok_def cred_ours_def no_vendor_def)
    moreover have "cid_ok (cr_id (cd_credential c))" using c(1) assms(2) by (auto simp: gs_ok_def desc_ok_def dest: in_set_takeD)
    ultimately show ?thesis using c assms(6,10) by (auto simp: id usable_def listed_ok_def no_vendor_def)
  next
    assume "ga_credLen GA = 0 \<and> (\<exists>i<50. resident_ok d (sha256 (take (rp_size (ga_rp GA)) (rp_id (ga_rp GA)))) (rk_slots (d_flash d) ! i)
          \<and> gs_creds (d_ga d') ! 0 = rk_desc (rk_slots (d_flash d) ! i))"
    then obtain i where i: "i < 50" "resident_ok d (sha256 (take (rp_size (ga_rp GA)) (rp_id (ga_rp GA)))) (rk_slots (d_flash d) ! i)"
      "gs_creds (d_ga d') ! 0 = rk_desc (rk_slots (d_flash d) ! i)" "ga_credLen GA = 0" by blast
    then show ?thesis using assms(6,10) nth_mem[of i "rk_slots (d_flash d)"] rk_slots_cid[of "rk_slots (d_flash d) ! i" "d_flash d"]
      by (auto simp: usable_def resident_ok_def rk_desc_def no_vendor_def)
  qed
  then show "usable d GA uv (cd_type (gs_creds (d_ga d') ! 0)) (cr_id (cd_credential (gs_creds (d_ga d') ! 0)))"
    "\<not> is_extension_request (cid_image (cr_id (cd_credential (gs_creds (d_ga d') ! 0)))) 70"
    "get_credential_id_size (cd_type (gs_creds (d_ga d') ! 0)) d' = id_size (cd_type (gs_creds (d_ga d') ! 0))"
    "cid_ok (cr_id (cd_credential (gs_creds (d_ga d') ! 0)))"
    by (simp_all add: get_credential_id_size_def id_size_def)
qed

text \<open>The state the choice starts from: the parsed credentials, and whether a PIN parameter was verified.\<close>

definition parsed_state :: "get_assertion \<Rightarrow> ga_state \<Rightarrow> ctap_dev \<Rightarrow> ctap_dev" where
  "parsed_state GA gs d = set_verified (if ga_pinAuthPresent GA \<noteq> 0 then 1 else 0) (d\<lparr>d_ga := gs\<rparr>)"

definition well_named :: "ctap_dev \<Rightarrow> get_assertion \<Rightarrow> ga_state \<Rightarrow> bool" where
  "well_named d GA gs \<longleftrightarrow>
     (let cs = take (nat (ga_credLen GA)) (gs_creds gs); d0 = parsed_state GA gs d in no_vendor d0 cs \<and> small_counts d0 (ga_rp GA) cs)"

lemma assertion_start:
  assumes "gs_ok gs" "crypto_ok (d_cr d)" "length (d_pin_token d) = 16"
    and parse: "ctap_parse_get_assertion cb request (d_ga d) = (0, GA, gs)" and "ga_pinAuthEmpty GA = 0"
    and "ga_pinAuthPresent GA \<noteq> 0 \<longrightarrow> authorised d (ga_pinAuth GA) (ga_clientDataHash GA)"
  obtains d1 where "creds_sim (parsed_state GA gs d) d1" "gs_creds (d_ga d1) = gs_creds gs" "gs_ok (d_ga d1)"
    "(gs_user_verified (d_ga d1) \<noteq> 0) = (ga_pinAuthPresent GA \<noteq> 0)"
    "ctap_get_assertion cb env ps err request d =
       (if rp_size (ga_rp GA) = 0 \<or> ga_clientDataHashPresent GA = 0 then Inr (Inl ERR_MISSING, d1)
        else seqE (ctap_filter_invalid_credentials env GA d1) (\<lambda>(valid, GA, d).
          if valid = 0 then Inr (Inl CTAP2_ERR_NO_CREDENTIALS, d) else ga_respond env ps err valid GA d))"
proof -
  let ?uv = "ga_pinAuthPresent GA \<noteq> 0" and ?d0 = "d\<lparr>d_ga := gs\<rparr>" and ?v = "if ga_pinAuthPresent GA \<noteq> 0 then 1 else 0 :: u8"
  have t0: "crypto_ok (d_cr ?d0)" "length (d_pin_token ?d0) = 16" using assms(2,3) by simp_all
  obtain dv where v: "verify_pin_auth (ga_pinAuth GA) (ga_clientDataHash GA) ?d0
      = Inr (if authorised ?d0 (ga_pinAuth GA) (ga_clientDataHash GA) then 0 else CTAP2_ERR_PIN_AUTH_INVALID, dv)" "dev_sim ?d0 dv"
    using verify_value[OF t0] .
  have au: "authorised ?d0 = authorised d" by (simp add: authorised_def fun_eq_iff)
  define d1 where "d1 = (if ?uv then dv else ?d0)"
  have s1: "dev_sim ?d0 d1" using v(2) t0 by (simp add: d1_def)
  have p: "(if ?uv then verify_pin_auth (ga_pinAuth GA) (ga_clientDataHash GA) ?d0 else Inr (0, ?d0)) = Inr (0, d1)"
    using assms(6) v(1) by (simp add: d1_def au)
  show ?thesis
  proof (rule that[of "set_verified ?v d1"])
    show "creds_sim (parsed_state GA gs d) (set_verified ?v d1)"
      using s1 by (cases d; cases d1) (auto simp: parsed_state_def creds_sim_def dev_sim_def set_verified_def)
    show "gs_creds (d_ga (set_verified ?v d1)) = gs_creds gs" "gs_ok (d_ga (set_verified ?v d1))"
      "(gs_user_verified (d_ga (set_verified ?v d1)) \<noteq> 0) = ?uv"
      using dev_sim_fields[OF s1] assms(1) by (simp_all add: set_verified_def gs_ok_def)
    show "ctap_get_assertion cb env ps err request d =
       (if rp_size (ga_rp GA) = 0 \<or> ga_clientDataHashPresent GA = 0 then Inr (Inl ERR_MISSING, set_verified ?v d1)
        else seqE (ctap_filter_invalid_credentials env GA (set_verified ?v d1)) (\<lambda>(valid, GA, d).
          if valid = 0 then Inr (Inl CTAP2_ERR_NO_CREDENTIALS, d) else ga_respond env ps err valid GA d))"
      unfolding ctap_get_assertion_def parse prod.case Let_def p using assms(5) by simp
  qed
qed

lemma get_assertion_run:
  assumes "cbor_ok cb" "gs_ok (d_ga d)" "env_ok env" "counter_inv d" "crypto_ok (d_cr d)" "counter_floor (d_flash d) < 2 ^ 31"
    and "length (d_pin_token d) = 16" "presence_ok ps" "\<not> d_up_off d" "qsort_ok (env_qsort env)"
    and parse: "ctap_parse_get_assertion cb request (d_ga d) = (ret, GA, gs)" and "well_named d GA gs"
    and run: "ctap_get_assertion cb env ps err request d = Inr (Inr tr, d')"
  shows "\<exists>n ty c u w ext sig valid.
      tr = ga_reply n \<lparr>cr_id = c, cr_user = u\<rparr> (id_size ty)
          (ga_auth (ga_rp GA) (ps_nfc ps \<or> ga_up GA \<noteq> 0) (ga_pinAuthPresent GA \<noteq> 0) w ext) sig (ga_pinAuthPresent GA \<noteq> 0) valid
    \<and> signed_by env (cred_key (env_lib env) (c_master (d_cr d)) (take (id_size ty) (cid_image c))) (c_curve (d_cr d))
        (ga_auth (ga_rp GA) (ps_nfc ps \<or> ga_up GA \<noteq> 0) (ga_pinAuthPresent GA \<noteq> 0) w ext @ take 32 (ga_clientDataHash GA)) sig
    \<and> usable (parsed_state GA gs d) GA (ga_pinAuthPresent GA \<noteq> 0) ty c
    \<and> counter_floor (d_flash d) < unat w \<and> unat w \<le> counter_floor (d_flash d) + 256 \<and> counter_floor (d_flash d') = unat w \<and> counters_only d d'
    \<and> (ps_nfc ps \<or> ga_up GA \<noteq> 0 \<longrightarrow> user_present ps)
    \<and> (ga_pinAuthPresent GA \<noteq> 0 \<longrightarrow> authorised d (ga_pinAuth GA) (ga_clientDataHash GA))"
proof -
  let ?uv = "ga_pinAuthPresent GA \<noteq> 0" and ?up = "ps_nfc ps \<or> ga_up GA \<noteq> 0"
  have gs: "gs_ok gs" "ga_ok GA" using parse_ga_ok[OF assms(1,2), of request] parse by (simp_all add: gas_ok_def)
  note R = run[unfolded ctap_get_assertion_def parse prod.case Let_def]
  have r0: "ret = 0" "ga_pinAuthEmpty GA = 0" using R by (auto split: if_splits)
  have t0: "crypto_ok (d_cr (d\<lparr>d_ga := gs\<rparr>))" "length (d_pin_token (d\<lparr>d_ga := gs\<rparr>)) = 16" using assms(5,7) by simp_all
  have au: "authorised (d\<lparr>d_ga := gs\<rparr>) = authorised d" by (simp add: authorised_def fun_eq_iff)
  have p1: "?uv \<longrightarrow> authorised d (ga_pinAuth GA) (ga_clientDataHash GA)"
    by (rule verify_value[OF t0, of "ga_pinAuth GA" "ga_clientDataHash GA"])
      (use R r0 in \<open>auto simp: au CTAP2_ERR_PIN_AUTH_INVALID_def split: if_splits\<close>)
  obtain d1 where d1: "creds_sim (parsed_state GA gs d) d1" "gs_creds (d_ga d1) = gs_creds gs" "gs_ok (d_ga d1)"
    "(gs_user_verified (d_ga d1) \<noteq> 0) = ?uv"
    "ctap_get_assertion cb env ps err request d =
       (if rp_size (ga_rp GA) = 0 \<or> ga_clientDataHashPresent GA = 0 then Inr (Inl ERR_MISSING, d1)
        else seqE (ctap_filter_invalid_credentials env GA d1) (\<lambda>(valid, GA, d).
          if valid = 0 then Inr (Inl CTAP2_ERR_NO_CREDENTIALS, d) else ga_respond env ps err valid GA d))"
    by (rule assertion_start[OF gs(1) assms(5,7) parse[unfolded r0(1)] r0(2) p1])
  have R2: "seqE (ctap_filter_invalid_credentials env GA d1) (\<lambda>(valid, GA, d).
      if valid = 0 then Inr (Inl CTAP2_ERR_NO_CREDENTIALS, d) else ga_respond env ps err valid GA d) = Inr (Inr tr, d')"
    using run d1(5) by (auto split: if_splits)
  have nf: "ctap_filter_invalid_credentials env GA d1 \<noteq> Inl x" for x using R2 by auto
  then obtain valid GA2 d2 where 2: "ctap_filter_invalid_credentials env GA d1 = Inr (valid, GA2, d2)" by (metis obj_sumE surj_pair)
  have vz: "valid \<noteq> 0" and R3: "ga_respond env ps err valid GA2 d2 = Inr (Inr tr, d')"
    using R2 2 by (auto split: if_splits)
  note fv = creds_sim_fields[OF d1(1)]
  have wn: "no_vendor d1 (take (nat (ga_credLen GA)) (gs_creds (d_ga d1)))" "small_counts d1 (ga_rp GA) (take (nat (ga_credLen GA)) (gs_creds (d_ga d1)))"
    using assms(12) d1(2) by (simp_all add: well_named_def choice_sim[OF d1(1)] Let_def)
  have len: "0 \<le> ga_credLen GA" "ga_credLen GA \<le> 20" using gs(2) by (simp_all add: ga_ok_def ALLOW_LIST_MAX_SIZE_def)
  note c = chosen_usable[OF fv(8) d1(3) len assms(10) wn 2 vz d1(4)]
  let ?desc = "gs_creds (d_ga d2) ! 0"
  have f2: "d_flash d2 = d_flash d" "d_sc d2 = d_sc d" "c_master (d_cr d2) = c_master (d_cr d)" "c_curve (d_cr d2) = c_curve (d_cr d)" "crypto_ok (d_cr d2)"
    "d_up_off d2 = d_up_off d" "gs_user_verified (d_ga d2) = (if ?uv then 1 else 0)"
    using creds_sim_fields[OF c(1)] fv by (simp_all add: parsed_state_def set_verified_def)
  have i2: "counter_inv d2" "counter_floor (d_flash d2) < 2 ^ 31" "\<not> d_up_off d2" using assms(4,6,9) f2 by (simp_all add: counter_inv_def)
  have G: "ga_rp GA2 = ga_rp GA" "ga_up GA2 = ga_up GA" "ga_clientDataHash GA2 = ga_clientDataHash GA"
    using arg_cong[OF c(2), of ga_rp] arg_cong[OF c(2), of ga_up] arg_cong[OF c(2), of ga_clientDataHash] by simp_all
  obtain n u w ext sig where r: "tr = ga_reply n \<lparr>cr_id = cr_id (cd_credential ?desc), cr_user = u\<rparr> (id_size (cd_type ?desc))
          (ga_auth (ga_rp GA) ?up ?uv w ext) sig ?uv valid"
      "counter_floor (d_flash d) < unat w" "counter_floor (d_flash d') = unat w" "counters_only d2 d'" "unat w \<le> counter_floor (d_flash d) + 256"
      "signed_by env (cred_key (env_lib env) (c_master (d_cr d)) (take (id_size (cd_type ?desc))
            (cred_mem \<lparr>cr_id = cr_id (cd_credential ?desc), cr_user = u\<rparr>))) (c_curve (d_cr d))
          (ga_auth (ga_rp GA) ?up ?uv w ext @ take 32 (ga_clientDataHash GA)) sig"
      "?up \<longrightarrow> user_present ps"
    using ga_respond_run[OF assms(3) i2(1) f2(5) i2(2) assms(8) i2(3) f2(7) refl c(5) R3, unfolded G f2(1,3,4) c(6)] by blast
  have co: "counters_only d d'" using r(4) f2(1) creds_sim_fields(1)[OF c(1)] fv(1) by (simp add: counters_only_def parsed_state_def set_verified_def)
  have us: "usable (parsed_state GA gs d) GA ?uv (cd_type ?desc) (cr_id (cd_credential ?desc))"
    using c(4) choice_sim(4)[OF d1(1)] d1(2) by (simp add: parsed_state_def set_verified_def)
  have im: "take (id_size t) (cred_mem \<lparr>cr_id = cr_id (cd_credential ?desc), cr_user = u\<rparr>) = take (id_size t) (cid_image (cr_id (cd_credential ?desc)))" for t
    using length_cid_image[OF c(7)] by (simp add: cred_mem_def id_size_def)
  show ?thesis
    by (rule exI[of _ n], rule exI[of _ "cd_type ?desc"], rule exI[of _ "cr_id (cd_credential ?desc)"], rule exI[of _ u], rule exI[of _ w],
        rule exI[of _ ext], rule exI[of _ sig], rule exI[of _ valid]) (intro conjI r(1-3,5) co us p1(1) r(7) r(6)[unfolded im])
qed

subsection \<open>The command answers\<close>

lemma filter_resident_progress:
  assumes "crypto_ok (d_cr d)" "set is \<subseteq> {..<50}" "length (gs_creds (d_ga d)) = 20" "count < 20"
    and "i \<in> set is" "resident_ok d h (rk_slots (d_flash d) ! i)"
    and "filter_resident h is rk count d = Inr (n, d')"
  shows "count < n"
  using assms
proof (induction "is" arbitrary: rk d)
  case (Cons k "is")
  have k: "k < 50" "set is \<subseteq> {..<50}" using Cons(3) by auto
  let ?rk = "rk_slots (d_flash d) ! k"
  have ld: "ctap_load_rk (d_flash d) k rk = ?rk" using k(1) by (rule load_rk_slot)
  obtain d1 where 1: "check_credential_metadata (rk_id ?rk) (gs_user_verified (d_ga d) \<noteq> 0) False d
      = Inr (if protection_lets (metadata_of (c_transport (d_cr d)) (rk_id ?rk)) (gs_user_verified (d_ga d) \<noteq> 0) False then 0 else CTAP2_ERR_NOT_ALLOWED, d1)"
    "dev_sim d d1" using check_metadata_value[OF Cons(2)] .
  have g1: "d_ga d1 = d_ga d" "d_flash d1 = d_flash d" using dev_sim_fields[OF 1(2)] by simp_all
  show ?case
  proof (cases "resident_ok d h ?rk")
    case True
    let ?d2 = "set_cred count (rk_desc ?rk) d1"
    have 2: "filter_resident h is ?rk (count + 1) ?d2 = Inr (n, d')"
      using True Cons(8) Cons(5) ld 1(1) by (simp add: Let_def resident_ok_def ALLOW_LIST_MAX_SIZE_def)
    have s2: "creds_sim d ?d2" by (rule creds_sim_set[OF creds_sim_dev[OF 1(2)]])
    have l2: "length (gs_creds (d_ga ?d2)) = 20" "count + 1 \<le> 20" using Cons(4,5) by (simp_all add: set_cred_def g1)
    have "\<exists>m e. filter_resident h is ?rk (count + 1) ?d2 = Inr (m, e) \<and> count + 1 \<le> m"
      using filter_resident_value[OF creds_sim_fields(8)[OF s2] k(2) l2, of h ?rk] by blast
    then show ?thesis using 2 by auto
  next
    case False
    then have i: "i \<in> set is" using Cons(6,7) by auto
    have "\<exists>d2. filter_resident h is ?rk count d2 = Inr (n, d') \<and> creds_sim d d2 \<and> d_ga d2 = d_ga d \<and> d_flash d2 = d_flash d"
      using False Cons(8) ld 1(1) creds_sim_dev[OF 1(2)] g1 Cons(2) by (auto simp: Let_def resident_ok_def CTAP2_ERR_NOT_ALLOWED_def split: if_splits)
    then obtain d2 where 2: "filter_resident h is ?rk count d2 = Inr (n, d')" "creds_sim d d2" "d_ga d2 = d_ga d" "d_flash d2 = d_flash d" by blast
    show ?thesis
      using Cons(1)[OF creds_sim_fields(8)[OF 2(2)] k(2) _ Cons(5) i _ 2(1)] Cons(4,7) 2(3,4) by (simp add: resident_ok_sim[OF 2(2)])
  qed
qed simp

lemma filter_runs:
  assumes "crypto_ok (d_cr d)" "gs_ok (d_ga d)" "0 \<le> ga_credLen GA" "ga_credLen GA \<le> 20" "(gs_user_verified (d_ga d) \<noteq> 0) = uv"
    and "usable d GA uv ty c"
  shows "\<exists>valid GA' d'. ctap_filter_invalid_credentials env GA d = Inr (valid, GA', d') \<and> valid \<noteq> 0"
proof -
  let ?n = "nat (ga_credLen GA)" and ?rp = "ga_rp GA" and ?cs = "gs_creds (d_ga d)"
  have l: "length ?cs = 20" and ok: "\<forall>c\<in>set ?cs. desc_ok c" using assms(2) by (simp_all add: gs_ok_def ALLOW_LIST_MAX_SIZE_def)
  have n: "?n \<le> length ?cs" using assms(3,4) l by simp
  have ci: "\<forall>j<?n. cid_ok (cr_id (cd_credential (?cs ! j)))" using ok n by (auto simp: desc_ok_def)
  let ?f = "filter (\<lambda>j. listed_ok d ?rp (?cs ! j) \<or> listed_ext d ?rp (?cs ! j)) [0..<?n]"
  obtain d1 where 1: "filter_listed ?rp [0..<?n] 0 d = Inr (length ?f, d1)"
    "creds_sim d d1" "length (gs_creds (d_ga d1)) = length ?cs"
    using filter_listed_from[OF assms(1) n ci, of 0 ?rp 0] by auto
  show ?thesis
  proof (cases "ga_credLen GA = 0")
    case False
    then obtain desc where c: "desc \<in> set (take ?n ?cs)" "listed_ok d ?rp desc"
      using assms(5,6) by (auto simp: usable_def listed_ok_def)
    then obtain j where j: "j < ?n" "?cs ! j = desc" using n by (auto simp: in_set_conv_nth)
    then have "j \<in> set ?f" using c(2) by simp
    then have "?f \<noteq> []" by force
    then show ?thesis using 1(1) False by (simp add: ctap_filter_invalid_credentials_def Let_def)
  next
    case True
    let ?h = "sha256 (take (rp_size ?rp) (rp_id ?rp))"
    obtain d2 where 2: "dev_sha [take (rp_size ?rp) (rp_id ?rp)] d1 = (?h, d2)" "dev_sim d1 d2"
      using dev_sha_value[OF creds_sim_fields(8)[OF 1(2)], of "[take (rp_size ?rp) (rp_id ?rp)]"] by auto
    note s2 = creds_sim_trans[OF 1(2) creds_sim_dev[OF 2(2)]]
    have l2: "length (gs_creds (d_ga d2)) = 20" using dev_sim_fields[OF 2(2)] 1(3) l by simp
    have sub: "set [0..<50] \<subseteq> {..<50 :: nat}" by auto
    obtain m d3 where 3: "filter_resident ?h [0..<50] rk_zero 0 d2 = Inr (m, d3)"
      using filter_resident_value[OF creds_sim_fields(8)[OF s2] sub l2, of 0 ?h rk_zero] by auto
    obtain rk where "rk \<in> set (rk_slots (d_flash d))" "resident_ok d ?h rk"
      using assms(5,6) True by (auto simp: usable_def resident_ok_def)
    then obtain i where i: "i \<in> set [0..<50]" "resident_ok d2 ?h (rk_slots (d_flash d2) ! i)"
      using creds_sim_fields(2)[OF s2] by (auto simp: in_set_conv_nth resident_ok_sim[OF s2])
    have "0 < m" by (rule filter_resident_progress[OF creds_sim_fields(8)[OF s2] sub l2 _ i 3]) simp
    then show ?thesis using 1(1) 2(1) 3 True by (simp add: ctap_filter_invalid_credentials_def Let_def ctap_rk_size_50)
  qed
qed

lemma auth_head_live:
  assumes "env_ok env" "counter_inv d" "crypto_ok (d_cr d)" "counter_floor (d_flash d) < 2 ^ 31" "presence_ok ps"
    and "asks_user ps d \<longrightarrow> user_present ps"
  shows "\<exists>h att d'. ctap_make_auth_data env ps rp 37 head None protect d = Inr (0, h, att, d')"
proof -
  let ?h = "sha256 (take (rp_size rp) (rp_id rp))"
  obtain d1 where 1: "dev_sha [take (rp_size rp) (rp_id rp)] d = (?h, d1)" "dev_sim d d1"
    using dev_sha_value[OF assms(3), of "[take (rp_size rp) (rp_id rp)]"] by auto
  have i1: "counter_inv d1" "crypto_ok (d_cr d1)" "counter_floor (d_flash d1) < 2 ^ 31"
    using assms(2,4) dev_sim_fields[OF 1(2)] by (simp_all add: counter_inv_def)
  obtain w d2 where 2: "auth_data_update_count env (head\<lparr>ah_rpIdHash := ?h\<rparr>) d1 = Inr (w, head\<lparr>ah_rpIdHash := ?h, ah_signCount := u32_be_bytes w\<rparr>, d2)"
    "count_sim d1 d2" by (rule update_count_live[OF assms(1) i1, of "head\<lparr>ah_rpIdHash := ?h\<rparr>"]) auto
  have s2: "count_sim d d2" using count_sim_trans[OF dev_sim_count[OF 1(2)] 2(2)] .
  have "ctap2_user_presence_test 1 ps d2 = 0 \<or> ctap2_user_presence_test 1 ps d2 = CTAP2_ERR_PROCESSING"
    using presence_test_zero[OF assms(5), of 1 d2] presence_test_processing[OF assms(5), of 1 d2] assms(6) count_sim_fields(8)[OF s2]
    by (auto simp: asks_user_def user_present_def CTAP_RESET_def)
  then show ?thesis using 1(1) 2(1) by (auto simp: ctap_make_auth_data_def Let_def)
qed

lemma ga_respond_live:
  assumes "env_ok env" "counter_inv d" "crypto_ok (d_cr d)" "counter_floor (d_flash d) < 2 ^ 31" "presence_ok ps" "\<not> d_up_off d"
    and "ps_nfc ps \<or> ga_up GA \<noteq> 0 \<longrightarrow> user_present ps" "ex_hmac_present (ga_extensions GA) = 0 \<and> ex_cred_protect (ga_extensions GA) \<notin> {1, 2, 3}" "valid \<le> 20"
    and "\<not> is_extension_request (cid_image (cr_id (cd_credential (gs_creds (d_ga d) ! 0)))) 70"
    and "\<And>k h n. l_sign (env_lib env) (c_curve (d_cr d)) k h n \<noteq> None"
  shows "\<exists>tr d'. ga_respond env ps (\<lambda>_ _. 0) valid GA d = Inr (Inr tr, d')"
proof -
  define d1 where "d1 = (if valid < 2 \<or> gs_user_verified (d_ga d) = 0 then clear_name 0 d else d)"
  define GA1 where "GA1 = link_hmac_secret GA"
  have G: "ga_rp GA1 = ga_rp GA" "ga_up GA1 = ga_up GA" "ga_clientDataHash GA1 = ga_clientDataHash GA" "ex_hmac_present (ga_extensions GA1) = 0 \<and> ex_cred_protect (ga_extensions GA1) \<notin> {1, 2, 3}"
    using assms(8) by (simp_all add: GA1_def link_hmac_secret_def)
  have f1: "cr_id (cd_credential (gs_creds (d_ga d1) ! 0)) = cr_id (cd_credential (gs_creds (d_ga d) ! 0))" "d_flash d1 = d_flash d" "d_cr d1 = d_cr d"
    "d_sc d1 = d_sc d" "d_up_off d1 = d_up_off d" by (simp_all add: d1_def clear_name_fields)
  let ?d0 = "device_disable_up (ga_up GA1 = 0) d1"
  have p0: "env_ok env" "counter_inv ?d0" "crypto_ok (d_cr ?d0)" "counter_floor (d_flash ?d0) < 2 ^ 31"
    using assms(1-4) f1 by (simp_all add: counter_inv_def device_disable_up_def)
  have au: "asks_user ps ?d0 \<longrightarrow> user_present ps" using assms(7) G(2) by (simp add: asks_user_def device_disable_up_def)
  obtain h att d2 where 2: "ctap_make_auth_data env ps (ga_rp GA1) 37 (gs_head (d_ga ?d0)) None (ex_cred_protect (ga_extensions GA1)) ?d0 = Inr (0, h, att, d2)"
    using auth_head_live[OF p0 assms(5) au] by blast
  have s2: "count_sim ?d0 d2" using auth_head_run[OF p0 assms(5) 2] by blast
  note f2 = count_sim_fields[OF s2]
  have x: "ctap_make_extensions env (ga_extensions GA1) 80 e = Inr (Inr [], e)" for e
    using G(4) by (simp add: ctap_make_extensions_def extensions_used_def)
  have ext1: "\<not> is_extension_request (cid_image (cr_id (cd_credential (gs_creds (d_ga d1) ! 0)))) 70" using assms(10) f1(1) by simp
  obtain n d3 where 3: "ga_auth_data env ps GA1 d1 = Inr (Inr n, d3)" "d_cr d3 = d_cr d2" "gs_creds (d_ga d3) = gs_creds (d_ga d1)"
    using 2 ext1 f2(6) by (simp add: ga_auth_data_def Let_def x set_head_def device_disable_up_def)
  let ?cred = "gs_creds (d_ga d3) ! 0"
  let ?key = "take (get_credential_id_size (cd_type ?cred) d3) (cred_mem (cd_credential ?cred))"
  have cr3: "crypto_ok (d_cr d3)" "c_curve (d_cr d3) = c_curve (d_cr d)" using f2(9,12) f1(3) 3(2) by (simp_all add: device_disable_up_def)
  obtain d4 where 4: "dev_load_key env ?key d3 = Inr d4" "count_sim d3 d4" using dev_load_key_value[OF cr3(1)] by metis
  note f4 = count_sim_fields(9,12)[OF 4(2)]
  let ?auth = "take n (ga_buf (d_ga d3))" and ?cdh = "take 32 (ga_clientDataHash GA)"
  obtain d5 where 5: "dev_sha [?auth, ?cdh] d4 = (sha256 (concat [?auth, ?cdh]), d5)" "dev_sim d4 d5"
    using dev_sha_value[OF f4(1), of "[?auth, ?cdh]"] by blast
  have c5: "c_curve (d_cr d5) = c_curve (d_cr d)" using count_sim_fields(12)[OF dev_sim_count[OF 5(2)]] f4(2) cr3(2) by simp
  obtain sig d6 where 6: "dev_sign env (sha256 (?auth @ ?cdh)) d5 = Inr (sig, d6)"
    using dev_sign_value[OF dev_sim_crypto[OF 5(2)], of env "sha256 (?auth @ ?cdh)"] assms(11) c5 by auto
  have ext3: "\<not> is_extension_request (cid_image (cr_id (cd_credential ?cred))) 70" using ext1 3(3) by simp
  have "\<exists>l s d7. ga_signature env ps (cr_id (cd_credential ?cred)) ?auth (ga_clientDataHash GA) d4 = Inr (l, s, d7)"
    using 5(1) 6 ext3 by (cases "ctap_encode_der_sig sig") (auto simp: ga_signature_def extend_fido2_def ctap_calculate_signature_def)
  then obtain l s d7 where 7: "ga_signature env ps (cr_id (cd_credential ?cred)) ?auth (ga_clientDataHash GA) d4 = Inr (l, s, d7)" by blast
  have "\<exists>tr' d'. ctap_end_get_assertion env ps (\<lambda>_ _. 0) 0 n (ga_clientDataHash GA) t0 d3 = Inr (Inr tr', d')" for t0
    using 4(1) 7 by (simp add: ctap_end_get_assertion_def Let_def emits_no_err ctap_add_credential_descriptor_def ctap_add_user_entity_def)
  define m where "m = 3 + (if valid > 1 then 1 else 0) + (if u_id_size (cr_user (cd_credential (gs_creds (d_ga d) ! (valid - 1)))) \<noteq> 0 then 1 else 0 :: nat)"
  obtain tr' d8 where 8: "ctap_end_get_assertion env ps (\<lambda>_ _. 0) 0 n (ga_clientDataHash GA) [EMap m] d3 = Inr (Inr tr', d8)"
    using \<open>\<And>t0. \<exists>tr' d'. ctap_end_get_assertion env ps (\<lambda>_ _. 0) 0 n (ga_clientDataHash GA) t0 d3 = Inr (Inr tr', d')\<close> by blast
  have sv: "\<exists>e. save_credential_list cdh k ex e' = (0, e)" if "k \<le> 19" for k cdh ex e'
    using that by (auto simp: save_credential_list_def ALLOW_LIST_MAX_SIZE_def Let_def)
  obtain e e0 where "save_credential_list (ga_clientDataHash GA) (valid - 1) (ga_extensions GA1) d8 = (0, e)"
    "save_credential_list (ga_clientDataHash GA) 0 (ga_extensions GA1) d8 = (0, e0)"
    using sv[of "valid - 1"] sv[of 0] assms(9) by force
  then show ?thesis
    unfolding ga_respond_def Let_def m_def[symmetric] d1_def[symmetric] GA1_def[symmetric]
    by (simp add: emits_no_err 3(1) G 8 del: if_split)
qed

text \<open>A request without a PIN parameter of length zero and without extensions.\<close>

definition plain_assertion :: "get_assertion \<Rightarrow> bool" where
  "plain_assertion GA \<longleftrightarrow> ga_pinAuthEmpty GA = 0 \<and> rp_size (ga_rp GA) \<noteq> 0 \<and> ga_clientDataHashPresent GA \<noteq> 0
     \<and> ex_hmac_present (ga_extensions GA) = 0 \<and> ex_cred_protect (ga_extensions GA) \<notin> {1, 2, 3}"

lemma get_assertion_live:
  assumes "cbor_ok cb" "gs_ok (d_ga d)" "env_ok env" "counter_inv d" "crypto_ok (d_cr d)" "counter_floor (d_flash d) < 2 ^ 31"
    and "length (d_pin_token d) = 16" "presence_ok ps" "\<not> d_up_off d" "qsort_ok (env_qsort env)"
    and parse: "ctap_parse_get_assertion cb request (d_ga d) = (0, GA, gs)" and "well_named d GA gs"
    and "plain_assertion GA" and au: "ga_pinAuthPresent GA \<noteq> 0 \<longrightarrow> authorised d (ga_pinAuth GA) (ga_clientDataHash GA)"
    and "ps_nfc ps \<or> ga_up GA \<noteq> 0 \<longrightarrow> user_present ps"
    and us: "usable (parsed_state GA gs d) GA (ga_pinAuthPresent GA \<noteq> 0) ty c"
    and "\<And>k h n. l_sign (env_lib env) (c_curve (d_cr d)) k h n \<noteq> None"
  shows "\<exists>tr d'. ctap_get_assertion cb env ps (\<lambda>_ _. 0) request d = Inr (Inr tr, d')"
proof -
  have gs: "gs_ok gs" "ga_ok GA" using parse_ga_ok[OF assms(1,2), of request] parse by (simp_all add: gas_ok_def)
  have pl: "ga_pinAuthEmpty GA = 0" using assms(13) by (simp add: plain_assertion_def)
  obtain d1 where d1: "creds_sim (parsed_state GA gs d) d1" "gs_creds (d_ga d1) = gs_creds gs" "gs_ok (d_ga d1)"
    "(gs_user_verified (d_ga d1) \<noteq> 0) = (ga_pinAuthPresent GA \<noteq> 0)"
    "ctap_get_assertion cb env ps (\<lambda>_ _. 0) request d =
       (if rp_size (ga_rp GA) = 0 \<or> ga_clientDataHashPresent GA = 0 then Inr (Inl ERR_MISSING, d1)
        else seqE (ctap_filter_invalid_credentials env GA d1) (\<lambda>(valid, GA, d).
          if valid = 0 then Inr (Inl CTAP2_ERR_NO_CREDENTIALS, d) else ga_respond env ps (\<lambda>_ _. 0) valid GA d))"
    by (rule assertion_start[OF gs(1) assms(5,7) parse pl au])
  note fv = creds_sim_fields[OF d1(1)]
  have len: "0 \<le> ga_credLen GA" "ga_credLen GA \<le> 20" using gs(2) by (simp_all add: ga_ok_def ALLOW_LIST_MAX_SIZE_def)
  have us1: "usable d1 GA (ga_pinAuthPresent GA \<noteq> 0) ty c" using us choice_sim(4)[OF d1(1)] d1(2) by (simp add: parsed_state_def set_verified_def)
  obtain valid GA2 d2 where 2: "ctap_filter_invalid_credentials env GA d1 = Inr (valid, GA2, d2)" "valid \<noteq> 0"
    using filter_runs[OF fv(8) d1(3) len d1(4) us1] by blast
  have wn: "no_vendor d1 (take (nat (ga_credLen GA)) (gs_creds (d_ga d1)))" "small_counts d1 (ga_rp GA) (take (nat (ga_credLen GA)) (gs_creds (d_ga d1)))"
    using assms(12) d1(2) by (simp_all add: well_named_def choice_sim[OF d1(1)] Let_def)
  note c = chosen_usable[OF fv(8) d1(3) len assms(10) wn 2 d1(4)]
  have f2: "d_flash d2 = d_flash d" "d_sc d2 = d_sc d" "c_curve (d_cr d2) = c_curve (d_cr d)" "crypto_ok (d_cr d2)" "d_up_off d2 = d_up_off d"
    using creds_sim_fields[OF c(1)] fv by (simp_all add: parsed_state_def set_verified_def)
  have i2: "counter_inv d2" "counter_floor (d_flash d2) < 2 ^ 31" "\<not> d_up_off d2" using assms(4,6,9) f2 by (simp_all add: counter_inv_def)
  have G: "ga_up GA2 = ga_up GA" "ga_extensions GA2 = ga_extensions GA" using arg_cong[OF c(2), of ga_up] arg_cong[OF c(2), of ga_extensions] by simp_all
  have "\<exists>tr d'. ga_respond env ps (\<lambda>_ _. 0) valid GA2 d2 = Inr (Inr tr, d')"
    by (rule ga_respond_live[OF assms(3) i2(1) f2(4) i2(2) assms(8) i2(3) _ _ c(3,5)])
      (use assms(13,15,17) in \<open>simp_all add: G f2(3) plain_assertion_def\<close>)
  then show ?thesis using d1(5) 2 assms(13) by (simp add: plain_assertion_def)
qed

subsection \<open>An example\<close>

text \<open>A device with one resident key, and a request without an allow list.\<close>

definition cid1 :: credential_id where
  "cid1 = (let c = \<lparr>ci_tag = zeros 16, ci_nonce = zeros 18, ci_rpIdHash = sha256 [101, 120], ci_count = 1\<rparr>
           in set_metadata (mask_word (c_transport (d_cr dev0)) c) c)"

definition login_key :: resident_key where
  "login_key = \<lparr>rk_id = cid1, rk_user = user_zero, rk_rpId = zeros 48, rk_rpIdSize = 2\<rparr>"

definition dev_login :: ctap_dev where
  "dev_login = dev0\<lparr>d_flash := ctap_store_rk (env_prog env0) 0 login_key (d_flash dev0)\<rparr>"

definition ga_tree :: item where
  "ga_tree = IMap [IInt 1, IText ''ex'', IInt 2, IBytes (zeros 32)]"

lemma ga_tree_parse:
  "case ctap_parse_get_assertion (tree_cbor ga_tree) [] ga_state_zero of (ret, GA, gs) \<Rightarrow>
     ret = 0 \<and> ga_pinAuthEmpty GA = 0 \<and> ga_pinAuthPresent GA = 0 \<and> rp_size (ga_rp GA) = 2 \<and> take 2 (rp_id (ga_rp GA)) = [101, 120]
     \<and> ga_clientDataHashPresent GA \<noteq> 0 \<and> ga_credLen GA = 0 \<and> ex_hmac_present (ga_extensions GA) = 0 \<and> ex_cred_protect (ga_extensions GA) = 0
     \<and> gs_customCredIdSize gs = 0"
  by code_simp

lemma cid1_ok: "cid_ok cid1" "ci_rpIdHash cid1 = sha256 [101, 120]" "ci_count cid1 = 1" "metadata_of (c_transport (d_cr dev0)) cid1 = 0"
  "\<not> is_extension_request (cid_image cid1) 70"
proof -
  let ?c = "\<lparr>ci_tag = zeros 16, ci_nonce = zeros 18, ci_rpIdHash = sha256 [101, 120], ci_count = 1\<rparr> :: credential_id"
  have n: "length (ci_nonce ?c) = 18" by (simp add: zeros_def)
  note p = set_metadata_props[OF n]
  show "cid_ok cid1" "ci_rpIdHash cid1 = sha256 [101, 120]" "ci_count cid1 = 1"
    using p(3) by (simp_all add: cid1_def Let_def cid_ok_def) (simp_all add: set_metadata_def)
  show "metadata_of (c_transport (d_cr dev0)) cid1 = 0"
    using p(1,2) by (simp add: cid1_def Let_def metadata_of_def mask_word_def)
  show "\<not> is_extension_request (cid_image cid1) 70"
  proof -
    have "block (cid_image cid1) 4 4 ! 0 = 0"
      by (simp add: cid1_def Let_def set_metadata_def cid_image_def block_def zeros_def nth_append)
    moreover have "WALLET_TAG ! 0 \<noteq> 0" by (simp add: WALLET_TAG_def)
    ultimately show ?thesis by (auto simp: is_extension_request_def)
  qed
qed

lemma login_device:
  "counter_inv dev_login" "counter_floor (d_flash dev_login) = 256" "d_cr dev_login = d_cr dev0" "d_ga dev_login = ga_state_zero" "\<not> d_up_off dev_login"
  "length (d_pin_token dev_login) = 16" "rk_slots (d_flash dev_login) = (replicate 50 rk_blank)[0 := login_key]"
proof -
  have p: "prog_ok (env_prog env0)" using env0_ok by (simp add: env_ok_def)
  have k: "rk_ok login_key" by (simp add: login_key_def rk_ok_def cid1_ok zeros_def)
  show "rk_slots (d_flash dev_login) = (replicate 50 rk_blank)[0 := login_key]"
    using slots_store[OF p k] by (simp add: dev_login_def dev0_table)
  have fr: "d_flash dev_login a = d_flash dev0 a" if "flash_addr COUNTER2_PAGE \<le> a" for a
    using rk_put_frame[OF p length_rk_image[OF k] that, of 0 "d_flash dev0" 1]
    by (simp add: dev_login_def ctap_store_rk_def ctap_overwrite_rk_def flash_read_def split: if_splits)
  have "ctr_view (d_flash dev_login) [] 0xffffffff"
    by (rule ctr_ok_fresh) (simp add: erased_def dev0_blank page_defs fr)
  then have c: "ctr_ok (d_flash dev_login)" "counter_floor (d_flash dev_login) = 256"
    by (auto simp: ctr_ok_def counter_floor_view floor_of_def)
  show "counter_floor (d_flash dev_login) = 256" by (fact c(2))
  have "d_sc dev_login = d_sc dev0" by (simp add: dev_login_def)
  then show "counter_inv dev_login" using dev0_counter c by (simp add: counter_inv_def)
  show "d_cr dev_login = d_cr dev0" "d_ga dev_login = ga_state_zero" "\<not> d_up_off dev_login" "length (d_pin_token dev_login) = 16"
    using dev0_ga by (simp_all add: dev_login_def)
qed

lemma gs_zero_ok: "gs_ok ga_state_zero"
  by (simp add: gs_ok_def ga_state_zero_def ALLOW_LIST_MAX_SIZE_def cred_desc_zero_def desc_ok_def ext_zero_def ext_ok_def cose_zero_def cose_ok_def hs_ok_def zeros_def)

lemma env0_qsort [simp]: "qsort_ok (env_qsort env0)"
  by (simp add: env0_def)

text \<open>What such a device has, just after it was switched on.\<close>

definition holds_login :: "ctap_dev \<Rightarrow> bool" where
  "holds_login d \<longleftrightarrow> counter_inv d \<and> counter_floor (d_flash d) < 2 ^ 31 \<and> crypto_ok (d_cr d) \<and> c_transport (d_cr d) = c_transport (d_cr dev0)
     \<and> d_ga d = ga_state_zero \<and> \<not> d_up_off d \<and> length (d_pin_token d) = 16 \<and> rk_slots (d_flash d) = (replicate 50 rk_blank)[0 := login_key]"

lemma login_holds: "holds_login dev_login"
  by (simp add: holds_login_def login_device)

lemma parsed_login:
  assumes "holds_login d"
  obtains GA gs where "ctap_parse_get_assertion (tree_cbor ga_tree) [] (d_ga d) = (0, GA, gs)" "well_named d GA gs"
    "plain_assertion GA" "ga_pinAuthPresent GA = 0" "usable (parsed_state GA gs d) GA False 1 cid1"
proof (cases "ctap_parse_get_assertion (tree_cbor ga_tree) [] ga_state_zero")
  case (fields ret GA gs)
  note f = ga_tree_parse[unfolded fields prod.case] and h = assms[unfolded holds_login_def]
  let ?d = "parsed_state GA gs d"
  have e: "d_flash ?d = d_flash d" "c_transport (d_cr ?d) = c_transport (d_cr dev0)" "gs_customCredIdSize (d_ga ?d) = 0"
    using f h by (simp_all add: parsed_state_def set_verified_def)
  have s: "rk_slots (d_flash ?d) = (replicate 50 rk_blank)[0 := login_key]" using e(1) h by simp
  have b: "\<not> is_extension_request (cid_image (rk_id rk_blank)) 70" by code_simp
  have "no_vendor ?d []"
    using cid1_ok(5) b e(3) by (auto simp: no_vendor_def s nth_list_update login_key_def is_extension_request_def WALLET_MIN_LENGTH_def)
  then have w: "well_named d GA gs" using f by (simp add: well_named_def small_counts_def Let_def)
  have "login_key \<in> set (rk_slots (d_flash ?d))" by (simp add: s set_update_memI)
  moreover have "ctap_rk_is_valid login_key" "rk_id login_key = cid1" by (simp_all add: ctap_rk_is_valid_def login_key_def cid1_ok)
  ultimately have "usable ?d GA False 1 cid1" using f cid1_ok by (auto simp: usable_def e(2) protection_lets_def)
  then show ?thesis using that[of GA gs] fields f w h by (simp add: plain_assertion_def)
qed

lemma login_run:
  assumes "holds_login d"
  obtains GA gs tr d' where "ctap_parse_get_assertion (tree_cbor ga_tree) [] (d_ga d) = (0, GA, gs)" "well_named d GA gs"
    "ga_pinAuthPresent GA = 0" "ctap_get_assertion (tree_cbor ga_tree) env0 touch (\<lambda>_ _. 0) [] d = Inr (Inr tr, d')"
proof -
  note h = assms[unfolded holds_login_def]
  obtain GA gs where p: "ctap_parse_get_assertion (tree_cbor ga_tree) [] (d_ga d) = (0, GA, gs)" "well_named d GA gs"
    "plain_assertion GA" "ga_pinAuthPresent GA = 0" "usable (parsed_state GA gs d) GA False 1 cid1" using parsed_login[OF assms] .
  have u: "usable (parsed_state GA gs d) GA (ga_pinAuthPresent GA \<noteq> 0) 1 cid1" using p(4,5) by simp
  have "\<exists>tr d'. ctap_get_assertion (tree_cbor ga_tree) env0 touch (\<lambda>_ _. 0) [] d = Inr (Inr tr, d')"
    by (rule get_assertion_live[OF tree_cbor_ok _ env0_ok _ _ _ _ touch_present(1) _ _ p(1-3) _ _ u])
      (use p(4) h in \<open>simp_all add: toy_sign gs_zero_ok touch_present\<close>)
  then show ?thesis using that p by blast
qed

text \<open>C30 (safety). A successful getAssertion answers with a credential the request may use: one of its allow list that is this
  token's for that relying party, or without a list a resident one of it, in both cases only when the protection
  level lets an unverified request have it. The response carries that credential's id; its signature is by the key
  derived from the id, over the authenticator data and the client data hash; the signature counter is above every
  earlier one. The user-presence flag is set only if the user was there, and the user-verified flag only if the
  request carried a MAC of the client data under the PIN token. The request has to be \<open>well_named\<close>: no credential of its list, no resident
  key and no custom id left in the buffer has the tag of the vendor commands, and each credential of the list that is the device's own
  carries a count between 1 and 2^31.\<close>

theorem get_assertion_sound:
  assumes "cbor_ok cb" "gs_ok (d_ga d)" "env_ok env" "counter_inv d" "crypto_ok (d_cr d)" "counter_floor (d_flash d) < 2 ^ 31"
    and "length (d_pin_token d) = 16" "presence_ok ps" "\<not> d_up_off d" "qsort_ok (env_qsort env)"
    and "ctap_parse_get_assertion cb request (d_ga d) = (ret, GA, gs)" and "well_named d GA gs"
    and "ctap_get_assertion cb env ps err request d = Inr (Inr tr, d')"
  shows "\<exists>n ty c u w ext sig valid.
      tr = ga_reply n \<lparr>cr_id = c, cr_user = u\<rparr> (id_size ty)
          (ga_auth (ga_rp GA) (ps_nfc ps \<or> ga_up GA \<noteq> 0) (ga_pinAuthPresent GA \<noteq> 0) w ext) sig (ga_pinAuthPresent GA \<noteq> 0) valid
    \<and> signed_by env (cred_key (env_lib env) (c_master (d_cr d)) (take (id_size ty) (cid_image c))) (c_curve (d_cr d))
        (ga_auth (ga_rp GA) (ps_nfc ps \<or> ga_up GA \<noteq> 0) (ga_pinAuthPresent GA \<noteq> 0) w ext @ take 32 (ga_clientDataHash GA)) sig
    \<and> usable (parsed_state GA gs d) GA (ga_pinAuthPresent GA \<noteq> 0) ty c
    \<and> counter_floor (d_flash d) < unat w \<and> unat w \<le> counter_floor (d_flash d) + 256 \<and> counter_floor (d_flash d') = unat w \<and> counters_only d d'
    \<and> (ps_nfc ps \<or> ga_up GA \<noteq> 0 \<longrightarrow> user_present ps)
    \<and> (ga_pinAuthPresent GA \<noteq> 0 \<longrightarrow> authorised d (ga_pinAuth GA) (ga_clientDataHash GA))"
  using get_assertion_run[OF assms] .

lemma get_assertion_sound_witness:
  "\<exists>tr d' n ty c u w ext sig valid rp uv up. ctap_get_assertion (tree_cbor ga_tree) env0 touch (\<lambda>_ _. 0) [] dev_login = Inr (Inr tr, d')
     \<and> tr = ga_reply n \<lparr>cr_id = c, cr_user = u\<rparr> (id_size ty) (ga_auth rp up uv w ext) sig uv valid \<and> 256 < unat w"
proof -
  obtain GA gs tr d' where p: "ctap_parse_get_assertion (tree_cbor ga_tree) [] (d_ga dev_login) = (0, GA, gs)" "well_named dev_login GA gs"
    "ga_pinAuthPresent GA = 0" "ctap_get_assertion (tree_cbor ga_tree) env0 touch (\<lambda>_ _. 0) [] dev_login = Inr (Inr tr, d')" using login_run[OF login_holds] .
  have a: "gs_ok (d_ga dev_login)" "crypto_ok (d_cr dev_login)" "counter_floor (d_flash dev_login) < 2 ^ 31" "qsort_ok (env_qsort env0)"
    by (simp_all add: login_device gs_zero_ok)
  from get_assertion_sound[OF tree_cbor_ok a(1) env0_ok login_device(1) a(2,3) login_device(6) touch_present(1) login_device(5) a(4) p(1,2,4)]
  show ?thesis
  proof (elim exE conjE)
    fix n ty c u w ext sig valid
    assume "tr = ga_reply n \<lparr>cr_id = c, cr_user = u\<rparr> (id_size ty)
      (ga_auth (ga_rp GA) (ps_nfc touch \<or> ga_up GA \<noteq> 0) (ga_pinAuthPresent GA \<noteq> 0) w ext) sig (ga_pinAuthPresent GA \<noteq> 0) valid"
      "counter_floor (d_flash dev_login) < unat w"
    then show ?thesis using p(4) login_device(2) by (intro exI conjI) (assumption | simp)+
  qed
qed



end
