(* ===== verification/CredMgmt.thy ===== *)
theory CredMgmt
  imports GetAssertion
begin

text \<open>
  authenticatorCredentialManagement of \<^verbatim>\<open>fido2/ctap.c\<close>: the scans over the resident keys, the answers, and the
  command with its cursors (\<open>d_cm\<close>, the static variables of the function). An index that a scan looks at
  next is a natural number; the indexes the code keeps are integers, with -1 for none.
\<close>

subsection \<open>Authorisation\<close>

definition CM_cmdMetadata :: int where "CM_cmdMetadata = 1"
definition CM_cmdRPBegin :: int where "CM_cmdRPBegin = 2"
definition CM_cmdRPNext :: int where "CM_cmdRPNext = 3"
definition CM_cmdRKBegin :: int where "CM_cmdRKBegin = 4"
definition CM_cmdRKNext :: int where "CM_cmdRKNext = 5"
definition CM_cmdRKDelete :: int where "CM_cmdRKDelete = 6"

lemmas cm_cmd_defs = CM_cmdMetadata_def CM_cmdRPBegin_def CM_cmdRPNext_def CM_cmdRKBegin_def CM_cmdRKNext_def CM_cmdRKDelete_def

text \<open>The MAC covers the subcommand and the copy of its parameters.\<close>

definition cm_message :: "cred_mgmt \<Rightarrow> bytes" where
  "cm_message CM = cm_hashedCmd CM # take (cm_cborSize CM) (cm_hashed CM)"

definition ctap_cred_mgmt_pinauth :: "environ \<Rightarrow> cred_mgmt \<Rightarrow> ctap_dev \<Rightarrow> ctap_dev + (int \<times> ctap_dev)" where
  "ctap_cred_mgmt_pinauth env CM d =
     (if cm_cmd CM \<notin> {CM_cmdMetadata, CM_cmdRPBegin, CM_cmdRKBegin, CM_cmdRKDelete} then Inr (0, d)
      else
        seqE (verify_pin_auth_ex (cm_pinAuth CM) (cm_message CM) d) (\<lambda>(ret, d).
        if ret = CTAP2_ERR_PIN_AUTH_INVALID then
          case ctap_decrement_pin_attempts env d of
            (_, d) \<Rightarrow> Inr (if ctap_device_boot_locked d then CTAP2_ERR_PIN_AUTH_BLOCKED else CTAP2_ERR_PIN_AUTH_INVALID, d)
        else Inr (ret, ctap_reset_pin_attempts env d)))"

subsection \<open>Scans\<close>

definition slot_hash :: "flash \<Rightarrow> nat \<Rightarrow> bytes" where
  "slot_hash f i = ci_rpIdHash (rk_id (ctap_load_rk f i rk_zero))"

definition slot_valid :: "flash \<Rightarrow> nat \<Rightarrow> bool" where
  "slot_valid f i = ctap_rk_is_valid (ctap_load_rk f i rk_zero)"

fun rk_index_from :: "flash \<Rightarrow> credential_id \<Rightarrow> nat list \<Rightarrow> int" where
  "rk_index_from f c [] = -1"
| "rk_index_from f c (i # is) =
     (if slot_valid f i \<and> cid_image (rk_id (ctap_load_rk f i rk_zero)) = cid_image c then int i else rk_index_from f c is)"

definition credentialId_to_rk_index :: "flash \<Rightarrow> credential_id \<Rightarrow> int" where
  "credentialId_to_rk_index f c = rk_index_from f c [0..<ctap_rk_size]"

text \<open>The do loop from the index it looks at next: a valid key whose relying party no earlier slot has.\<close>

function rp_loop :: "flash \<Rightarrow> nat \<Rightarrow> int" where
  "rp_loop f i =
     (if i \<ge> ctap_rk_size then -1
      else if \<not> slot_valid f i \<or> list_ex (\<lambda>j. slot_hash f j = slot_hash f i) [0..<i] then rp_loop f (i + 1)
      else int i)"
  by pat_completeness auto
termination by (relation "measure (\<lambda>(f, i). ctap_rk_size - i)") auto

declare rp_loop.simps [simp del]

definition scan_for_next_rp :: "flash \<Rightarrow> int \<Rightarrow> int" where
  "scan_for_next_rp f index =
     (if index = -1 then if slot_valid f 0 then 0 else rp_loop f 1
      else rp_loop f (nat (index + 1)))"

function rk_loop :: "flash \<Rightarrow> bytes \<Rightarrow> nat \<Rightarrow> int" where
  "rk_loop f h i =
     (if i \<ge> ctap_rk_size then -1
      else if slot_hash f i \<noteq> h then rk_loop f h (i + 1) else int i)"
  by pat_completeness auto
termination by (relation "measure (\<lambda>(f, h, i). ctap_rk_size - i)") auto

declare rk_loop.simps [simp del]

definition scan_for_next_rk :: "flash \<Rightarrow> int \<Rightarrow> bytes option \<Rightarrow> int" where
  "scan_for_next_rk f index initial =
     (case initial of
        Some h \<Rightarrow> rk_loop f h 0
      | None \<Rightarrow> rk_loop f (slot_hash f (nat index)) (nat (index + 1)))"

text \<open>A scan goes forward, so the counting loops of the command end.\<close>

lemma rp_loop_forward: "rp_loop f i = -1 \<or> int i \<le> rp_loop f i \<and> rp_loop f i < int ctap_rk_size"
  by (induction f i rule: rp_loop.induct) (subst (1 2 3) rp_loop.simps, auto)

lemma rk_loop_forward: "rk_loop f h i = -1 \<or> int i \<le> rk_loop f h i \<and> rk_loop f h i < int ctap_rk_size"
  by (induction f h i rule: rk_loop.induct) (subst (1 2 3) rk_loop.simps, auto)

lemma scan_rp_forward: "scan_for_next_rp f i = -1 \<or> i < scan_for_next_rp f i \<and> scan_for_next_rp f i < int ctap_rk_size"
  if "-1 \<le> i"
  using that rp_loop_forward[of f 1] rp_loop_forward[of f "nat (i + 1)"] by (auto simp: scan_for_next_rp_def ctap_rk_size_50)

lemma scan_rk_forward: "scan_for_next_rk f i None = -1 \<or> i < scan_for_next_rk f i None \<and> scan_for_next_rk f i None < int ctap_rk_size"
  if "0 \<le> i"
  using that rk_loop_forward[of f "slot_hash f (nat i)" "nat (i + 1)"] by (auto simp: scan_for_next_rk_def)

function count_rps :: "flash \<Rightarrow> int \<Rightarrow> nat" where
  "count_rps f i = (if i < 0 then 0 else 1 + count_rps f (scan_for_next_rp f i))"
  by pat_completeness auto
termination
proof (relation "measure (\<lambda>(f, i). if i < 0 then 0 else 1 + nat (int ctap_rk_size - i))")
  fix f and i :: int assume "\<not> i < 0"
  then show "((f, scan_for_next_rp f i), f, i) \<in> measure (\<lambda>(f, i). if i < 0 then 0 else 1 + nat (int ctap_rk_size - i))"
    using scan_rp_forward[of i f] by (auto simp: ctap_rk_size_50)
qed simp

function count_rks :: "flash \<Rightarrow> int \<Rightarrow> nat" where
  "count_rks f i = (if i < 0 then 0 else 1 + count_rks f (scan_for_next_rk f i None))"
  by pat_completeness auto
termination
proof (relation "measure (\<lambda>(f, i). if i < 0 then 0 else 1 + nat (int ctap_rk_size - i))")
  fix f and i :: int assume "\<not> i < 0"
  then show "((f, scan_for_next_rk f i None), f, i) \<in> measure (\<lambda>(f, i). if i < 0 then 0 else 1 + nat (int ctap_rk_size - i))"
    using scan_rk_forward[of i f] by (auto simp: ctap_rk_size_50)
qed simp

declare count_rps.simps [simp del] count_rks.simps [simp del]

subsection \<open>Answers\<close>

definition ctap_cred_metadata :: "enc_err \<Rightarrow> ctap_dev \<Rightarrow> enc list \<Rightarrow> int + enc list" where
  "ctap_cred_metadata err d tr =
     emits err [EMap 2, EInt 1, EInt (int (unat (as_rk_stored (d_st d)))), EInt 2,
                EInt (int ctap_rk_size - int (unat (as_rk_stored (d_st d)))), EClose] tr"

text \<open>An encoder call whose code is not looked at.\<close>

fun emits_unchecked :: "enc_err \<Rightarrow> enc list \<Rightarrow> enc list \<Rightarrow> enc list" where
  "emits_unchecked err [] tr = tr"
| "emits_unchecked err (x # xs) tr = (if err tr x \<noteq> 0 then tr else emits_unchecked err xs (tr @ [x]))"

definition rp_text :: "resident_key \<Rightarrow> string" where
  "rp_text rk = (if unat (rk_rpIdSize rk) \<le> 48 then map (\<lambda>b. char_of (unat b)) (take (unat (rk_rpIdSize rk)) (rk_rpId rk)) else [])"

definition ctap_cred_rp :: "enc_err \<Rightarrow> nat \<Rightarrow> nat \<Rightarrow> ctap_dev \<Rightarrow> enc list \<Rightarrow> int + enc list" where
  "ctap_cred_rp err rk_ind rp_count d tr =
     (let rk = ctap_load_rk (d_flash d) rk_ind rk_zero in
      seqE (emits err [EMap (if rp_count > 0 then 3 else 2), EInt 3, EMap 2, EText ''id'', EText (rp_text rk),
                       EText ''name'', EText (user_text (rk_user rk) 65), EClose, EInt 4] tr) (\<lambda>tr.
      emits err ((if rp_count > 0 then [EInt 5, EInt (int rp_count)] else []) @ [EClose])
        (emits_unchecked err [EBytes (ci_rpIdHash (rk_id rk))] tr)))"

text \<open>\<open>sizeof(CredentialId)\<close> bytes of the key make its public key; the result of the key encoder is not looked at.\<close>

definition ctap_cred_rk :: "environ \<Rightarrow> enc_err \<Rightarrow> nat \<Rightarrow> nat \<Rightarrow> ctap_dev \<Rightarrow> ctap_dev + reply" where
  "ctap_cred_rk env err rk_ind rk_count d =
     (let rk = ctap_load_rk (d_flash d) rk_ind rk_zero in
      seqE (read_metadata_from_masked_credential (rk_id rk) d) (\<lambda>(cred_protect, d).
      let cred_protect = (if cred_protect = 0 \<or> cred_protect > 3 then 1 else cred_protect) in
      case emits err ([EMap (if rk_count > 0 then 5 else 4), EInt 6] @ user_calls (rk_user rk) True @ [EInt 7]
            @ descriptor_calls \<lparr>cr_id = rk_id rk, cr_user = rk_user rk\<rparr> (get_credential_id_size 1 d) @ [EInt 8]) [] of
        Inl e \<Rightarrow> Inr (Inl e, d)
      | Inr tr \<Rightarrow>
        seqE (halt d (crypto_ecc256_derive_public_key (env_lib env) (cid_image (rk_id rk)) (d_cr d))) (\<lambda>((x, y), cr).
        Inr (emits err ((if rk_count > 0 then [EInt 9, EInt (int rk_count)] else []) @ [EInt 10, EInt (uint cred_protect), EClose])
               (emits_unchecked err (cose_key_calls x y COSE_ALG_ES256) tr), d\<lparr>d_cr := cr\<rparr>))))"

subsection \<open>The command\<close>

definition set_cursor :: "cm_cursor \<Rightarrow> ctap_dev \<Rightarrow> ctap_dev" where
  "set_cursor cs d = d\<lparr>d_cm := cs\<rparr>"

definition no_cursor :: "cm_cursor \<Rightarrow> cm_cursor" where
  "no_cursor cs = cs\<lparr>cs_rp_auth := False, cs_rk_auth := False\<rparr>"

text \<open>What a subcommand does to the cursors before its answer, and the totals it counts.\<close>

definition cm_begin :: "cred_mgmt \<Rightarrow> ctap_dev \<Rightarrow> nat \<times> nat \<times> cm_cursor" where
  "cm_begin CM d =
     (let f = d_flash d; cs = d_cm d in
      if cm_cmd CM = CM_cmdRPBegin then
        (count_rps f (scan_for_next_rp f (-1)), 0,
         \<lparr>cs_rp_ind = scan_for_next_rp f (-1), cs_rk_ind = -1, cs_rp_auth = True, cs_rk_auth = False\<rparr>)
      else if cm_cmd CM = CM_cmdRKBegin then
        let i = scan_for_next_rk f 0 (Some (cm_rpIdHash CM)) in
        (0, count_rks f i, cs\<lparr>cs_rk_ind := i, cs_rk_auth := True\<rparr>)
      else if cm_cmd CM \<noteq> CM_cmdRKNext \<and> cm_cmd CM \<noteq> CM_cmdRPNext then
        (0, 0, \<lparr>cs_rp_ind = -1, cs_rk_ind = -1, cs_rp_auth = False, cs_rk_auth = False\<rparr>)
      else (0, 0, cs))"

definition cm_rp_answer :: "enc_err \<Rightarrow> nat \<Rightarrow> ctap_dev \<Rightarrow> ctap_dev + reply" where
  "cm_rp_answer err rp_count d =
     (let cs = d_cm d in
      if cs_rp_ind cs < 0 \<or> \<not> cs_rp_auth cs then Inr (Inl CTAP2_ERR_NO_CREDENTIALS, set_cursor (no_cursor cs) d)
      else
        case ctap_cred_rp err (nat (cs_rp_ind cs)) rp_count d [] of
          Inl e \<Rightarrow> Inr (Inl e, d)
        | Inr tr \<Rightarrow> Inr (Inr tr, set_cursor (cs\<lparr>cs_rp_ind := scan_for_next_rp (d_flash d) (cs_rp_ind cs)\<rparr>) d))"

definition cm_rk_answer :: "environ \<Rightarrow> enc_err \<Rightarrow> nat \<Rightarrow> ctap_dev \<Rightarrow> ctap_dev + reply" where
  "cm_rk_answer env err rk_count d =
     (let cs = d_cm d in
      if cs_rk_ind cs < 0 \<or> \<not> cs_rk_auth cs then Inr (Inl CTAP2_ERR_NO_CREDENTIALS, set_cursor (no_cursor cs) d)
      else
        seqE (ctap_cred_rk env err (nat (cs_rk_ind cs)) rk_count d) (\<lambda>(r, d).
        case r of Inl e \<Rightarrow> Inr (Inl e, d)
        | Inr tr \<Rightarrow> Inr (Inr tr, set_cursor (cs\<lparr>cs_rk_ind := scan_for_next_rk (d_flash d) (cs_rk_ind cs) None\<rparr>) d)))"

definition cm_delete :: "environ \<Rightarrow> cred_mgmt \<Rightarrow> ctap_dev \<Rightarrow> reply" where
  "cm_delete env CM d =
     (let i = credentialId_to_rk_index (d_flash d) (cr_id (cd_credential (cm_desc CM))) in
      if i \<ge> 0 then (Inr [], ctap_decrement_rk_store env (d\<lparr>d_flash := ctap_delete_rk (env_prog env) (nat i) (d_flash d)\<rparr>))
      else (Inl CTAP2_ERR_NO_CREDENTIALS, d))"

definition CTAP1_ERR_INVALID_COMMAND :: int where "CTAP1_ERR_INVALID_COMMAND = 1"

definition cm_switch :: "environ \<Rightarrow> enc_err \<Rightarrow> cred_mgmt \<Rightarrow> nat \<Rightarrow> nat \<Rightarrow> ctap_dev \<Rightarrow> ctap_dev + reply" where
  "cm_switch env err CM rp_count rk_count d =
     (if cm_cmd CM = CM_cmdMetadata then Inr (ctap_cred_metadata err d [], d)
      else if cm_cmd CM = CM_cmdRPBegin \<or> cm_cmd CM = CM_cmdRPNext then cm_rp_answer err rp_count d
      else if cm_cmd CM = CM_cmdRKBegin \<or> cm_cmd CM = CM_cmdRKNext then cm_rk_answer env err rk_count d
      else if cm_cmd CM = CM_cmdRKDelete then Inr (cm_delete env CM d)
      else Inr (Inl CTAP1_ERR_INVALID_COMMAND, d))"

definition ctap_cred_mgmt :: "'v cbor \<Rightarrow> environ \<Rightarrow> enc_err \<Rightarrow> bytes \<Rightarrow> ctap_dev \<Rightarrow> ctap_dev + reply" where
  "ctap_cred_mgmt cb env err request d =
     (case ctap_parse_cred_mgmt cb request (gs_customCredId (d_ga d), gs_customCredIdSize (d_ga d)) of
        (ret, CM, custom, csize) \<Rightarrow>
      let d = set_custom custom csize d in
      if ret \<noteq> 0 then Inr (Inl ret, d)
      else
        seqE (ctap_cred_mgmt_pinauth env CM d) (\<lambda>(ret, d).
        if ret \<noteq> 0 then Inr (Inl ret, d)
        else if as_rk_stored (d_st d) = 0 \<and> cm_cmd CM \<noteq> CM_cmdMetadata then Inr (Inr [], d)
        else
          case cm_begin CM d of (rp_count, rk_count, cs) \<Rightarrow> cm_switch env err CM rp_count rk_count (set_cursor cs d)))"

end
