(* ===== verification/CredMgmtProps.thy ===== *)
theory CredMgmtProps
  imports CredMgmt GetClaims
begin

text \<open>
  Credential management over the table of resident keys: the scans walk the list of first keys of each
  relying party, and the list of keys of one of them, and the counted totals are the lengths of these
  lists.
\<close>

subsection \<open>Walking through a filtered range\<close>

definition cursor :: "nat list \<Rightarrow> nat \<Rightarrow> int" where
  "cursor L k = (if k < length L then int (L ! k) else -1)"

lemma filter_upt_after:
  assumes "L = filter P [0..<n]" "k < length L"
  shows "filter P [Suc (L ! k)..<n] = drop (Suc k) L"
proof -
  define x where "x = L ! k"
  have "x \<in> set L" using assms(2) by (simp add: x_def)
  then have x: "x < n" "P x" using assms(1) by auto
  have "[0..<n] = [0..<x] @ x # [Suc x..<n]" using x(1) upt_add_eq_append[of 0 x "n - x"] by (simp add: upt_conv_Cons)
  then have s: "L = filter P [0..<x] @ x # filter P [Suc x..<n]" unfolding assms(1) using x(2) arg_cong[of _ _ "filter P"] by fastforce
  let ?m = "length (filter P [0..<x])"
  have "?m < length L" "L ! ?m = x" by (subst s, simp)+
  moreover have "distinct L" using assms(1) by simp
  ultimately have "?m = k" using assms(2) unfolding x_def by (simp add: nth_eq_iff_index_eq)
  then have "drop (Suc k) L = filter P [Suc x..<n]" by (subst s) simp
  then show ?thesis by (simp add: x_def)
qed

definition first_of :: "nat list \<Rightarrow> int" where
  "first_of xs = (case xs of [] \<Rightarrow> -1 | x # _ \<Rightarrow> int x)"

lemma first_drop: "first_of (drop k L) = cursor L k"
  by (cases "k < length L") (simp_all add: first_of_def cursor_def flip: Cons_nth_drop_Suc)

lemma cursor_sign: "cursor L k < 0 \<longleftrightarrow> length L \<le> k"
  by (simp add: cursor_def)

subsection \<open>Relying parties\<close>

text \<open>The first key of each relying party.\<close>

definition rp_first :: "flash \<Rightarrow> nat \<Rightarrow> bool" where
  "rp_first f i \<longleftrightarrow> slot_valid f i \<and> (\<forall>j<i. slot_hash f j \<noteq> slot_hash f i)"

definition rp_list :: "flash \<Rightarrow> nat list" where
  "rp_list f = filter (rp_first f) [0..<50]"

lemma rp_loop_value: "rp_loop f i = first_of (filter (rp_first f) [i..<50])"
proof (induction f i rule: rp_loop.induct)
  case (1 f i)
  show ?case
  proof (cases "i < 50")
    case True
    then have "[i..<50] = i # [Suc i..<50]" by (simp add: upt_conv_Cons)
    moreover have "slot_valid f i \<and> \<not> list_ex (\<lambda>j. slot_hash f j = slot_hash f i) [0..<i] \<longleftrightarrow> rp_first f i"
      by (auto simp: rp_first_def list_ex_iff)
    ultimately show ?thesis using 1 True
      by (subst rp_loop.simps) (auto simp: ctap_rk_size_50 first_of_def)
  qed (subst rp_loop.simps, simp add: ctap_rk_size_50 first_of_def)
qed

lemma scan_rp_start: "scan_for_next_rp f (-1) = cursor (rp_list f) 0"
proof -
  have "scan_for_next_rp f (-1) = rp_loop f 0"
    by (subst rp_loop.simps) (simp add: scan_for_next_rp_def ctap_rk_size_50)
  then show ?thesis using first_drop[of 0 "rp_list f"] by (simp add: rp_loop_value rp_list_def)
qed

lemma scan_rp_next: "k < length (rp_list f) \<Longrightarrow> scan_for_next_rp f (cursor (rp_list f) k) = cursor (rp_list f) (Suc k)"
  using filter_upt_after[of "rp_list f" "rp_first f" 50 k] first_drop[of "Suc k" "rp_list f"]
  by (simp add: scan_for_next_rp_def rp_loop_value cursor_def rp_list_def nat_add_distrib)

lemma count_rps_value: "k \<le> length (rp_list f) \<Longrightarrow> count_rps f (cursor (rp_list f) k) = length (rp_list f) - k"
proof (induction "length (rp_list f) - k" arbitrary: k)
  case 0
  then show ?case by (subst count_rps.simps) (simp add: cursor_sign)
next
  case (Suc m)
  then have "k < length (rp_list f)" by simp
  then show ?case using Suc(1)[of "Suc k"] Suc(2) scan_rp_next[of k f]
    by (subst count_rps.simps) (simp add: cursor_sign)
qed

subsection \<open>The keys of one relying party\<close>

definition rk_list :: "flash \<Rightarrow> bytes \<Rightarrow> nat list" where
  "rk_list f h = filter (\<lambda>i. slot_hash f i = h) [0..<50]"

lemma rk_loop_value: "rk_loop f h i = first_of (filter (\<lambda>i. slot_hash f i = h) [i..<50])"
proof (induction f h i rule: rk_loop.induct)
  case (1 f h i)
  show ?case
  proof (cases "i < 50")
    case True
    then have "[i..<50] = i # [Suc i..<50]" by (simp add: upt_conv_Cons)
    then show ?thesis using 1 True by (subst rk_loop.simps) (simp add: ctap_rk_size_50 first_of_def)
  qed (subst rk_loop.simps, simp add: ctap_rk_size_50 first_of_def)
qed

lemma scan_rk_start: "scan_for_next_rk f i (Some h) = cursor (rk_list f h) 0"
  using first_drop[of 0 "rk_list f h"] by (simp add: scan_for_next_rk_def rk_loop_value rk_list_def)

lemma scan_rk_next:
  assumes "k < length (rk_list f h)"
  shows "scan_for_next_rk f (cursor (rk_list f h) k) None = cursor (rk_list f h) (Suc k)"
proof -
  have "rk_list f h ! k \<in> set (rk_list f h)" using assms by simp
  then have "slot_hash f (rk_list f h ! k) = h" by (simp add: rk_list_def)
  then show ?thesis
    using assms filter_upt_after[of "rk_list f h" "\<lambda>i. slot_hash f i = h" 50 k] first_drop[of "Suc k" "rk_list f h"]
    by (simp add: scan_for_next_rk_def rk_loop_value cursor_def rk_list_def nat_add_distrib)
qed

lemma count_rks_value: "k \<le> length (rk_list f h) \<Longrightarrow> count_rks f (cursor (rk_list f h) k) = length (rk_list f h) - k"
proof (induction "length (rk_list f h) - k" arbitrary: k)
  case 0
  then show ?case by (subst count_rks.simps) (simp add: cursor_sign)
next
  case (Suc m)
  then have "k < length (rk_list f h)" by simp
  then show ?case using Suc(1)[of "Suc k"] Suc(2) scan_rk_next[of k f h]
    by (subst count_rks.simps) (simp add: cursor_sign)
qed

subsection \<open>What the lists hold\<close>

lemma slot_load: "i < 50 \<Longrightarrow> ctap_load_rk f i rk = rk_slots f ! i"
  by (rule load_rk_slot)

text \<open>No key that is left over (deleted slots are all ones) has the relying party of a live one.\<close>

definition clean_table :: "flash \<Rightarrow> bool" where
  "clean_table f \<longleftrightarrow> (\<forall>i<50. \<forall>j<50. slot_valid f i \<and> slot_hash f j = slot_hash f i \<longrightarrow> slot_valid f j)"

lemma rp_list_hashes:
  assumes "clean_table f"
  shows "distinct (map (slot_hash f) (rp_list f))" "set (map (slot_hash f) (rp_list f)) = {slot_hash f i |i. i < 50 \<and> slot_valid f i}"
proof -
  have "inj_on (slot_hash f) (set (rp_list f))"
    by (rule inj_onI, rule ccontr) (auto simp: rp_list_def rp_first_def dest: linorder_neqE_nat)
  then show "distinct (map (slot_hash f) (rp_list f))" by (simp add: distinct_map rp_list_def)
  have "\<exists>k<50. rp_first f k \<and> slot_hash f k = slot_hash f i" if i: "i < 50" "slot_valid f i" for i
  proof -
    define k where "k = (LEAST k. slot_hash f k = slot_hash f i)"
    have k: "slot_hash f k = slot_hash f i" "k \<le> i" unfolding k_def by (rule LeastI[of _ i], simp) (rule Least_le, simp)
    have "\<forall>j<k. slot_hash f j \<noteq> slot_hash f k" using k(1) not_less_Least unfolding k_def by auto
    moreover have "slot_valid f k"
    proof -
      have "k < 50" using k(2) i(1) by simp
      then show ?thesis using assms i k(1) unfolding clean_table_def by blast
    qed
    ultimately have "rp_first f k" by (simp add: rp_first_def)
    moreover have "k < 50" using k(2) i(1) by simp
    ultimately show ?thesis using k(1) by blast
  qed
  then show "set (map (slot_hash f) (rp_list f)) = {slot_hash f i |i. i < 50 \<and> slot_valid f i}"
    by (auto simp: rp_list_def image_def) (metis rp_first_def, metis)
qed

lemma rk_list_valid:
  assumes "clean_table f" "i < 50" "slot_valid f i"
  shows "set (rk_list f (slot_hash f i)) = {j. j < 50 \<and> slot_valid f j \<and> slot_hash f j = slot_hash f i}"
  using assms by (auto simp: rk_list_def clean_table_def)

text \<open>All of this only looks at the table.\<close>

lemma slot_table: "i < 50 \<Longrightarrow> slot_hash f i = ci_rpIdHash (rk_id (rk_slots f ! i))" "i < 50 \<Longrightarrow> slot_valid f i = ctap_rk_is_valid (rk_slots f ! i)"
  by (simp_all add: slot_hash_def slot_valid_def slot_load)

lemma lists_table:
  assumes "rk_slots f = rk_slots g"
  shows "rp_list f = rp_list g" "rk_list f h = rk_list g h"
proof -
  have h: "slot_hash f i = slot_hash g i" "slot_valid f i = slot_valid g i" if "i < 50" for i
    using that assms by (simp_all add: slot_table)
  have r: "rp_first f i = rp_first g i" if "i < 50" for i
    using h that unfolding rp_first_def by (metis order_less_trans)
  show "rp_list f = rp_list g" unfolding rp_list_def by (rule filter_cong) (simp_all add: r)
  show "rk_list f h = rk_list g h" unfolding rk_list_def by (rule filter_cong) (simp_all add: h)
qed

subsection \<open>Requests and runs\<close>

text \<open>A request that parses to these parameters, whatever custom credential id is kept.\<close>

definition asks :: "'v cbor \<Rightarrow> bytes \<Rightarrow> cred_mgmt \<Rightarrow> bool" where
  "asks cb r CM \<longleftrightarrow> (\<forall>cust. \<exists>cust'. ctap_parse_cred_mgmt cb r cust = (0, CM, cust'))"

definition cm_authorised :: "ctap_dev \<Rightarrow> cred_mgmt \<Rightarrow> bool" where
  "cm_authorised d CM \<longleftrightarrow> take 16 (cm_pinAuth CM) = take 16 (hmac_sha256 (d_pin_token d) (cm_message CM))"

fun steps :: "('r \<Rightarrow> 'd \<Rightarrow> 'd + ('a \<times> 'd)) \<Rightarrow> 'r list \<Rightarrow> 'd \<Rightarrow> 'd + ('a list \<times> 'd)" where
  "steps step [] d = Inr ([], d)"
| "steps step (r # rs) d = seqE (step r d) (\<lambda>(a, d). seqE (steps step rs d) (\<lambda>(as, d). Inr (a # as, d)))"

text \<open>A command that lists the \<open>len\<close> answers of a listing one by one, and then says that there are no more.\<close>

locale listing =
  fixes step :: "'r \<Rightarrow> 'd \<Rightarrow> 'd + ('a \<times> 'd)" and is_next :: "'r \<Rightarrow> bool" and at :: "nat \<Rightarrow> 'd \<Rightarrow> bool"
    and len :: nat and answer :: "nat \<Rightarrow> 'a" and none :: 'a
  assumes next_answer: "is_next r \<Longrightarrow> at k d \<Longrightarrow> \<exists>d'. step r d = Inr (if k < len then answer k else none, d') \<and> at (Suc k) d'"
begin

lemma nexts:
  "list_all is_next rs \<Longrightarrow> at k d \<Longrightarrow>
   \<exists>d'. steps step rs d = Inr (map (\<lambda>j. if j < len then answer j else none) [k..<k + length rs], d') \<and> at (k + length rs) d'"
proof (induction rs arbitrary: k d)
  case (Cons r rs)
  obtain d1 where 1: "step r d = Inr (if k < len then answer k else none, d1)" "at (Suc k) d1"
    using next_answer[of r k d] Cons(2,3) by auto
  obtain d2 where 2: "steps step rs d1 = Inr (map (\<lambda>j. if j < len then answer j else none) [Suc k..<Suc k + length rs], d2)" "at (Suc k + length rs) d2"
    using Cons(1)[of "Suc k" d1] Cons(2) 1(2) by auto
  have u: "[k..<k + length (r # rs)] = k # [Suc k..<Suc k + length rs]" by (simp add: upt_conv_Cons del: upt_Suc)
  show ?case unfolding u using 1(1) 2 by simp
qed simp

text \<open>The first answer is the one of the request that begins the listing.\<close>

lemma listed:
  assumes "step r d = Inr (first, d1)" "at 1 d1" "list_all is_next rs"
  shows "\<exists>d'. steps step (r # rs) d = Inr (first # map (\<lambda>j. if j < len then answer j else none) [1..<1 + length rs], d')"
  using nexts[OF assms(3,2)] assms(1) by auto

end

text \<open>What the listing commands keep.\<close>

definition cm_sim :: "ctap_dev \<Rightarrow> ctap_dev \<Rightarrow> bool" where
  "cm_sim d d' \<longleftrightarrow> rk_slots (d_flash d') = rk_slots (d_flash d) \<and> as_rk_stored (d_st d') = as_rk_stored (d_st d)
     \<and> crypto_ok (d_cr d') \<and> c_master (d_cr d') = c_master (d_cr d) \<and> c_transport (d_cr d') = c_transport (d_cr d)"

lemma cm_sim_trans: "cm_sim a b \<Longrightarrow> cm_sim b c \<Longrightarrow> cm_sim a c"
  by (simp add: cm_sim_def)

lemma cm_sim_dev: "dev_sim d d' \<Longrightarrow> cm_sim d d'"
  using dev_sim_fields[of d d'] by (simp add: cm_sim_def)

lemma cm_sim_cursor [simp]: "cm_sim d (set_cursor cs d') = cm_sim d d'" "cm_sim (set_custom a b d) d' = cm_sim d d'"
  "d_cm (set_cursor cs d) = cs" "cm_sim d (set_custom a b d') = cm_sim d d'"
  by (simp_all add: cm_sim_def set_cursor_def set_custom_def)

lemma cm_pinauth_ok:
  assumes "env_ok env" "dev_ok d" "cm_authorised d CM"
  shows "\<exists>d'. ctap_cred_mgmt_pinauth env CM d = Inr (0, d') \<and> cm_sim d d' \<and> d_cm d' = d_cm d \<and> dev_ok d'
    \<and> d_pin_token d' = d_pin_token d"
proof (cases "cm_cmd CM \<in> {CM_cmdMetadata, CM_cmdRPBegin, CM_cmdRKBegin, CM_cmdRKDelete}")
  case True
  have t: "crypto_ok (d_cr d)" "length (d_pin_token d) = 16" using assms(2) by (simp_all add: dev_ok_def)
  obtain d1 where 1: "verify_pin_auth_ex (cm_pinAuth CM) (cm_message CM) d = Inr (0, d1)" "dev_sim d d1"
    using verify_mac_value[OF t, of "cm_pinAuth CM" "cm_message CM"] assms(3) by (auto simp: cm_authorised_def)
  let ?d = "ctap_reset_pin_attempts env d1"
  note f1 = dev_sim_fields[OF 1(2)]
  have ok1: "dev_ok d1" by (rule dev_sim_ok[OF assms(2) 1(2)])
  note r = reset_attempts[OF assms(1) ok1]
  have wf: "state_wf ((d_st d1)\<lparr>as_tries := PIN_LOCKOUT_ATTEMPTS\<rparr>)" using ok1 by (simp add: dev_ok_def state_wf_def)
  have s: "cm_sim d1 ?d" using r(2,3) flush_rk[OF assms(1), of "d1\<lparr>d_st := (d_st d1)\<lparr>as_tries := PIN_LOCKOUT_ATTEMPTS\<rparr>, d_boot := PIN_BOOT_ATTEMPTS\<rparr>"] wf
    by (simp add: cm_sim_def ctap_reset_pin_attempts_def)
  have c: "d_cm ?d = d_cm d1" by (simp add: ctap_reset_pin_attempts_def ctap_flush_state_def)
  have ok: "dev_ok ?d" "d_pin_token ?d = d_pin_token d1" using r(1) by (simp_all add: restored_def)
  show ?thesis
    by (rule exI[of _ ?d]) (use True 1(1) cm_sim_trans[OF cm_sim_dev[OF 1(2)] s] c ok f1 in
        \<open>simp add: ctap_cred_mgmt_pinauth_def CTAP2_ERR_PIN_AUTH_INVALID_def\<close>)
next
  case False
  then show ?thesis using assms(2) by (auto simp: ctap_cred_mgmt_pinauth_def cm_sim_def dev_ok_def)
qed

subsection \<open>The answers\<close>

definition rp_reply :: "resident_key \<Rightarrow> nat \<Rightarrow> enc list" where
  "rp_reply rk tot =
     [EMap (if tot > 0 then 3 else 2), EInt 3, EMap 2, EText ''id'', EText (rp_text rk),
      EText ''name'', EText (user_text (rk_user rk) 65), EClose, EInt 4, EBytes (ci_rpIdHash (rk_id rk))]
     @ (if tot > 0 then [EInt 5, EInt (int tot)] else []) @ [EClose]"

definition rk_reply :: "environ \<Rightarrow> bytes \<Rightarrow> bytes \<Rightarrow> resident_key \<Rightarrow> nat \<Rightarrow> enc list" where
  "rk_reply env master transport rk tot =
     (let p = metadata_of transport (rk_id rk) in
      [EMap (if tot > 0 then 5 else 4), EInt 6] @ user_calls (rk_user rk) True @ [EInt 7]
      @ descriptor_calls \<lparr>cr_id = rk_id rk, cr_user = rk_user rk\<rparr> 70 @ [EInt 8] @ cose_of env master (rk_id rk)
      @ (if tot > 0 then [EInt 9, EInt (int tot)] else []) @ [EInt 10, EInt (uint (if p = 0 \<or> p > 3 then 1 else p)), EClose])"

lemma emits_all: "emits_unchecked (\<lambda>_ _. 0) xs tr = tr @ xs"
  by (induction xs arbitrary: tr) simp_all

lemma cred_rp_value: "i < 50 \<Longrightarrow> ctap_cred_rp (\<lambda>_ _. 0) i tot d [] = Inr (rp_reply (rk_slots (d_flash d) ! i) tot)"
  by (simp add: ctap_cred_rp_def Let_def emits_no_err rp_reply_def load_rk_slot)

lemma cred_rk_value:
  assumes "crypto_ok (d_cr d)" "i < 50"
  shows "\<exists>d'. ctap_cred_rk env (\<lambda>_ _. 0) i tot d
      = Inr (Inr (rk_reply env (c_master (d_cr d)) (c_transport (d_cr d)) (rk_slots (d_flash d) ! i) tot), d') \<and> dev_sim d d'"
proof -
  let ?rk = "rk_slots (d_flash d) ! i"
  obtain d1 where 1: "read_metadata_from_masked_credential (rk_id ?rk) d = Inr (metadata_of (c_transport (d_cr d)) (rk_id ?rk), d1)" "dev_sim d d1"
    using read_metadata_value[OF assms(1)] by blast
  obtain cr where 2: "generate_private_key (env_lib env) (cid_image (rk_id ?rk)) [] (d_cr d1)
      = Some (cred_key (env_lib env) (c_master (d_cr d1)) (cid_image (rk_id ?rk)), cr)" "cr_sim (d_cr d1) cr"
    using private_key_sim[OF dev_sim_crypto[OF 1(2)]] .
  have m: "c_master (d_cr d1) = c_master (d_cr d)" using dev_sim_fields[OF 1(2)] by simp
  have s: "dev_sim d (d1\<lparr>d_cr := cr\<rparr>)"
    using dev_sim_trans[OF 1(2), of "d1\<lparr>d_cr := cr\<rparr>"] 2(2) by (simp add: dev_sim_def)
  have "ctap_cred_rk env (\<lambda>_ _. 0) i tot d = Inr (Inr (rk_reply env (c_master (d_cr d)) (c_transport (d_cr d)) ?rk tot), d1\<lparr>d_cr := cr\<rparr>)"
    using 1(1) 2(1) by (simp add: ctap_cred_rk_def load_rk_slot[OF assms(2)] Let_def emits_no_err emits_all crypto_ecc256_derive_public_key_def
        rk_reply_def cose_of_def m get_credential_id_size_def)
  then show ?thesis using s by blast
qed

subsection \<open>Listing the relying parties\<close>

definition rp_at :: "ctap_dev \<Rightarrow> nat \<Rightarrow> ctap_dev \<Rightarrow> bool" where
  "rp_at d0 k d \<longleftrightarrow> cm_sim d0 d \<and> as_rk_stored (d_st d0) \<noteq> 0 \<and> cs_rp_ind (d_cm d) = cursor (rp_list (d_flash d0)) k
     \<and> (k < length (rp_list (d_flash d0)) \<longrightarrow> cs_rp_auth (d_cm d))"

definition rp_answer :: "ctap_dev \<Rightarrow> nat \<Rightarrow> nat \<Rightarrow> int + enc list" where
  "rp_answer d0 tot k = Inr (rp_reply (rk_slots (d_flash d0) ! (rp_list (d_flash d0) ! k)) tot)"

lemma list_lt: "k < length (rp_list f) \<Longrightarrow> rp_list f ! k < 50" "k < length (rk_list f h) \<Longrightarrow> rk_list f h ! k < 50"
  using nth_mem[of k "rp_list f"] nth_mem[of k "rk_list f h"] by (simp_all add: rp_list_def rk_list_def del: nth_mem)

lemma rp_answer_step:
  assumes "cm_sim d0 d" "cs_rp_ind (d_cm d) = cursor (rp_list (d_flash d0)) k" "k < length (rp_list (d_flash d0)) \<longrightarrow> cs_rp_auth (d_cm d)"
    and "as_rk_stored (d_st d0) \<noteq> 0"
  shows "\<exists>d'. cm_rp_answer (\<lambda>_ _. 0) tot d = Inr (if k < length (rp_list (d_flash d0)) then rp_answer d0 tot k else Inl CTAP2_ERR_NO_CREDENTIALS, d')
     \<and> rp_at d0 (Suc k) d'"
proof -
  let ?L = "rp_list (d_flash d0)"
  have t: "rk_slots (d_flash d) = rk_slots (d_flash d0)" using assms(1) by (simp add: cm_sim_def)
  note L = lists_table(1)[OF t]
  show ?thesis
  proof (cases "k < length ?L")
    case True
    have n: "scan_for_next_rp (d_flash d) (cursor ?L k) = cursor ?L (Suc k)" using scan_rp_next[of k "d_flash d"] True L by simp
    have c: "nat (cursor ?L k) = ?L ! k" "\<not> cursor ?L k < 0" using True by (simp_all add: cursor_def)
    have "cm_rp_answer (\<lambda>_ _. 0) tot d = Inr (rp_answer d0 tot k, set_cursor ((d_cm d)\<lparr>cs_rp_ind := cursor ?L (Suc k)\<rparr>) d)"
      using True assms(2,3) n c by (simp add: cm_rp_answer_def Let_def cred_rp_value[OF list_lt(1)[OF True]] rp_answer_def t)
    then show ?thesis using True assms(1,3,4) by (auto simp: rp_at_def)
  next
    case False
    then have "cm_rp_answer (\<lambda>_ _. 0) tot d = Inr (Inl CTAP2_ERR_NO_CREDENTIALS, set_cursor (no_cursor (d_cm d)) d)"
      using assms(2) by (simp add: cm_rp_answer_def Let_def cursor_sign)
    then show ?thesis using False assms(1,2,4) by (auto simp: rp_at_def no_cursor_def cursor_def)
  qed
qed

lemma cm_next:
  assumes "asks cb r CM" "cm_cmd CM \<in> {CM_cmdRPNext, CM_cmdRKNext}" "as_rk_stored (d_st d) \<noteq> 0"
  obtains c e where "ctap_cred_mgmt cb env err r d = cm_switch env err CM 0 0 (set_custom c e d)"
proof -
  obtain c e where p: "ctap_parse_cred_mgmt cb r (gs_customCredId (d_ga d), gs_customCredIdSize (d_ga d)) = (0, CM, c, e)"
    using assms(1) unfolding asks_def by (metis surj_pair)
  have "set_cursor (d_cm d) (set_custom c e d) = set_custom c e d" by (simp add: set_cursor_def set_custom_def)
  then show ?thesis using that[of c e] p assms(2,3)
    by (auto simp: ctap_cred_mgmt_def ctap_cred_mgmt_pinauth_def cm_begin_def cm_cmd_defs set_custom_def)
qed

definition rp_next :: "'v cbor \<Rightarrow> bytes \<Rightarrow> bool" where
  "rp_next cb r \<longleftrightarrow> (\<exists>CM. asks cb r CM \<and> cm_cmd CM = CM_cmdRPNext)"

interpretation rps: listing "ctap_cred_mgmt cb env (\<lambda>_ _. 0)" "rp_next cb" "rp_at d0" "length (rp_list (d_flash d0))" "rp_answer d0 0"
  "Inl CTAP2_ERR_NO_CREDENTIALS" for cb :: "'v cbor" and env d0
proof
  fix r k d assume r: "rp_next cb r" and a: "rp_at d0 k d"
  obtain CM where CM: "asks cb r CM" "cm_cmd CM = CM_cmdRPNext" using r by (auto simp: rp_next_def)
  have st: "as_rk_stored (d_st d) \<noteq> 0" using a by (simp add: rp_at_def cm_sim_def)
  obtain c e where e: "ctap_cred_mgmt cb env (\<lambda>_ _. 0) r d = cm_switch env (\<lambda>_ _. 0) CM 0 0 (set_custom c e d)"
    using cm_next[OF CM(1) _ st] CM(2) by blast
  have "\<exists>d'. cm_rp_answer (\<lambda>_ _. 0) 0 (set_custom c e d) = Inr (if k < length (rp_list (d_flash d0)) then rp_answer d0 0 k else Inl CTAP2_ERR_NO_CREDENTIALS, d')
      \<and> rp_at d0 (Suc k) d'"
    by (rule rp_answer_step) (use a in \<open>simp_all add: rp_at_def set_custom_def cm_sim_def\<close>)
  then show "\<exists>d'. ctap_cred_mgmt cb env (\<lambda>_ _. 0) r d
      = Inr (if k < length (rp_list (d_flash d0)) then rp_answer d0 0 k else Inl CTAP2_ERR_NO_CREDENTIALS, d') \<and> rp_at d0 (Suc k) d'"
    using CM(2) by (simp add: e cm_switch_def cm_cmd_defs)
qed

subsection \<open>Listing the keys of a relying party\<close>

definition rk_at :: "ctap_dev \<Rightarrow> bytes \<Rightarrow> nat \<Rightarrow> ctap_dev \<Rightarrow> bool" where
  "rk_at d0 h k d \<longleftrightarrow> cm_sim d0 d \<and> as_rk_stored (d_st d0) \<noteq> 0 \<and> cs_rk_ind (d_cm d) = cursor (rk_list (d_flash d0) h) k
     \<and> (k < length (rk_list (d_flash d0) h) \<longrightarrow> cs_rk_auth (d_cm d))"

definition rk_answer :: "environ \<Rightarrow> ctap_dev \<Rightarrow> bytes \<Rightarrow> nat \<Rightarrow> nat \<Rightarrow> int + enc list" where
  "rk_answer env d0 h tot k =
     Inr (rk_reply env (c_master (d_cr d0)) (c_transport (d_cr d0)) (rk_slots (d_flash d0) ! (rk_list (d_flash d0) h ! k)) tot)"

lemma rk_answer_step:
  assumes "cm_sim d0 d" "cs_rk_ind (d_cm d) = cursor (rk_list (d_flash d0) h) k" "k < length (rk_list (d_flash d0) h) \<longrightarrow> cs_rk_auth (d_cm d)"
    and "as_rk_stored (d_st d0) \<noteq> 0"
  shows "\<exists>d'. cm_rk_answer env (\<lambda>_ _. 0) tot d = Inr (if k < length (rk_list (d_flash d0) h) then rk_answer env d0 h tot k else Inl CTAP2_ERR_NO_CREDENTIALS, d')
     \<and> rk_at d0 h (Suc k) d'"
proof -
  let ?L = "rk_list (d_flash d0) h"
  have t: "rk_slots (d_flash d) = rk_slots (d_flash d0)" "crypto_ok (d_cr d)" "c_master (d_cr d) = c_master (d_cr d0)" "c_transport (d_cr d) = c_transport (d_cr d0)"
    using assms(1) by (simp_all add: cm_sim_def)
  note L = lists_table(2)[OF t(1)]
  show ?thesis
  proof (cases "k < length ?L")
    case True
    have n: "scan_for_next_rk (d_flash d) (cursor ?L k) None = cursor ?L (Suc k)" using scan_rk_next[of k "d_flash d" h] True L by simp
    have c: "nat (cursor ?L k) = ?L ! k" "\<not> cursor ?L k < 0" using True by (simp_all add: cursor_def)
    obtain d1 where 1: "ctap_cred_rk env (\<lambda>_ _. 0) (?L ! k) tot d
        = Inr (Inr (rk_reply env (c_master (d_cr d)) (c_transport (d_cr d)) (rk_slots (d_flash d) ! (?L ! k)) tot), d1)" "dev_sim d d1"
      using cred_rk_value[OF t(2) list_lt(2)[OF True]] by blast
    have f: "d_flash d1 = d_flash d" using dev_sim_fields[OF 1(2)] by simp
    have "cm_rk_answer env (\<lambda>_ _. 0) tot d = Inr (rk_answer env d0 h tot k, set_cursor ((d_cm d)\<lparr>cs_rk_ind := cursor ?L (Suc k)\<rparr>) d1)"
      using True assms(2,3) n c 1(1) by (simp add: cm_rk_answer_def Let_def rk_answer_def t f)
    then show ?thesis using True assms(3,4) cm_sim_trans[OF assms(1) cm_sim_dev[OF 1(2)]] by (auto simp: rk_at_def)
  next
    case False
    then have "cm_rk_answer env (\<lambda>_ _. 0) tot d = Inr (Inl CTAP2_ERR_NO_CREDENTIALS, set_cursor (no_cursor (d_cm d)) d)"
      using assms(2) by (simp add: cm_rk_answer_def Let_def cursor_sign)
    then show ?thesis using False assms(1,2,4) by (auto simp: rk_at_def no_cursor_def cursor_def)
  qed
qed

definition rk_next :: "'v cbor \<Rightarrow> bytes \<Rightarrow> bool" where
  "rk_next cb r \<longleftrightarrow> (\<exists>CM. asks cb r CM \<and> cm_cmd CM = CM_cmdRKNext)"

interpretation rks: listing "ctap_cred_mgmt cb env (\<lambda>_ _. 0)" "rk_next cb" "rk_at d0 h" "length (rk_list (d_flash d0) h)" "rk_answer env d0 h 0"
  "Inl CTAP2_ERR_NO_CREDENTIALS" for cb :: "'v cbor" and env d0 h
proof
  fix r k d assume r: "rk_next cb r" and a: "rk_at d0 h k d"
  obtain CM where CM: "asks cb r CM" "cm_cmd CM = CM_cmdRKNext" using r by (auto simp: rk_next_def)
  have st: "as_rk_stored (d_st d) \<noteq> 0" using a by (simp add: rk_at_def cm_sim_def)
  obtain c e where e: "ctap_cred_mgmt cb env (\<lambda>_ _. 0) r d = cm_switch env (\<lambda>_ _. 0) CM 0 0 (set_custom c e d)"
    using cm_next[OF CM(1) _ st] CM(2) by blast
  have "\<exists>d'. cm_rk_answer env (\<lambda>_ _. 0) 0 (set_custom c e d) = Inr (if k < length (rk_list (d_flash d0) h) then rk_answer env d0 h 0 k else Inl CTAP2_ERR_NO_CREDENTIALS, d')
      \<and> rk_at d0 h (Suc k) d'"
    by (rule rk_answer_step) (use a in \<open>simp_all add: rk_at_def set_custom_def cm_sim_def\<close>)
  then show "\<exists>d'. ctap_cred_mgmt cb env (\<lambda>_ _. 0) r d
      = Inr (if k < length (rk_list (d_flash d0) h) then rk_answer env d0 h 0 k else Inl CTAP2_ERR_NO_CREDENTIALS, d') \<and> rk_at d0 h (Suc k) d'"
    using CM(2) by (simp add: e cm_switch_def cm_cmd_defs)
qed

subsection \<open>The requests that begin a listing\<close>

lemma cm_begins:
  assumes "env_ok env" "dev_ok d" "as_rk_stored (d_st d) \<noteq> 0" "asks cb r CM" "cm_authorised d CM"
  obtains d1 where "ctap_cred_mgmt cb env err r d =
      (case cm_begin CM d1 of (rp_count, rk_count, cs) \<Rightarrow> cm_switch env err CM rp_count rk_count (set_cursor cs d1))"
    "cm_sim d d1" "d_cm d1 = d_cm d" "dev_ok d1" "d_pin_token d1 = d_pin_token d"
proof -
  obtain c e where p: "ctap_parse_cred_mgmt cb r (gs_customCredId (d_ga d), gs_customCredIdSize (d_ga d)) = (0, CM, c, e)"
    using assms(4) unfolding asks_def by (metis surj_pair)
  let ?d = "set_custom c e d"
  have ok: "dev_ok ?d" "cm_authorised ?d CM" using assms(2,5) by (simp_all add: set_custom_def dev_ok_def cm_authorised_def)
  obtain d1 where 1: "ctap_cred_mgmt_pinauth env CM ?d = Inr (0, d1)" "cm_sim ?d d1" "d_cm d1 = d_cm ?d" "dev_ok d1" "d_pin_token d1 = d_pin_token ?d"
    using cm_pinauth_ok[OF assms(1) ok] by blast
  have st: "as_rk_stored (d_st d1) \<noteq> 0" using 1(2) assms(3) by (simp add: cm_sim_def set_custom_def)
  show ?thesis
    by (rule that[of d1]) (use p 1 st in \<open>simp_all add: ctap_cred_mgmt_def set_custom_def cm_sim_def\<close>)
qed

lemma rps_listed:
  assumes "env_ok env" "dev_ok d" "as_rk_stored (d_st d) \<noteq> 0" "asks cb r CM" "cm_cmd CM = CM_cmdRPBegin" "cm_authorised d CM"
    and "list_all (rp_next cb) rs"
  shows "\<exists>d'. steps (ctap_cred_mgmt cb env (\<lambda>_ _. 0)) (r # rs) d
    = Inr (map (\<lambda>k. if k < length (rp_list (d_flash d)) then rp_answer d (if k = 0 then length (rp_list (d_flash d)) else 0) k
                     else Inl CTAP2_ERR_NO_CREDENTIALS) [0..<Suc (length rs)], d')"
proof -
  let ?L = "rp_list (d_flash d)"
  obtain d1 where 1: "ctap_cred_mgmt cb env (\<lambda>_ _. 0) r d =
      (case cm_begin CM d1 of (rp_count, rk_count, cs) \<Rightarrow> cm_switch env (\<lambda>_ _. 0) CM rp_count rk_count (set_cursor cs d1))" "cm_sim d d1"
    by (rule cm_begins[OF assms(1-4,6)])
  have L: "rp_list (d_flash d1) = ?L" using 1(2) by (intro lists_table) (simp add: cm_sim_def)
  let ?cs = "\<lparr>cs_rp_ind = cursor ?L 0, cs_rk_ind = -1, cs_rp_auth = True, cs_rk_auth = False\<rparr>"
  have b: "cm_begin CM d1 = (length ?L, 0, ?cs)"
    using assms(5) count_rps_value[of 0 "d_flash d1"] L by (simp add: cm_begin_def scan_rp_start)
  have "\<exists>d2. cm_rp_answer (\<lambda>_ _. 0) (length ?L) (set_cursor ?cs d1)
      = Inr (if 0 < length ?L then rp_answer d (length ?L) 0 else Inl CTAP2_ERR_NO_CREDENTIALS, d2) \<and> rp_at d (Suc 0) d2"
    by (rule rp_answer_step) (use 1(2) assms(3) in simp_all)
  then obtain d2 where 2: "ctap_cred_mgmt cb env (\<lambda>_ _. 0) r d
      = Inr (if 0 < length ?L then rp_answer d (length ?L) 0 else Inl CTAP2_ERR_NO_CREDENTIALS, d2)" "rp_at d 1 d2"
    using 1(1) b assms(5) by (auto simp: cm_switch_def cm_cmd_defs)
  have m: "[0..<Suc (length rs)] = 0 # [1..<1 + length rs]" by (simp add: upt_conv_Cons del: upt_Suc)
  obtain d3 where "steps (ctap_cred_mgmt cb env (\<lambda>_ _. 0)) (r # rs) d
      = Inr ((if 0 < length ?L then rp_answer d (length ?L) 0 else Inl CTAP2_ERR_NO_CREDENTIALS)
          # map (\<lambda>j. if j < length ?L then rp_answer d 0 j else Inl CTAP2_ERR_NO_CREDENTIALS) [1..<1 + length rs], d3)"
    using rps.listed[OF 2 assms(7)] by blast
  moreover have "map (\<lambda>j. if j < length ?L then rp_answer d 0 j else Inl CTAP2_ERR_NO_CREDENTIALS) [1..<1 + length rs]
      = map (\<lambda>k. if k < length ?L then rp_answer d (if k = 0 then length ?L else 0) k else Inl CTAP2_ERR_NO_CREDENTIALS) [1..<1 + length rs]"
    by (rule map_cong) auto
  ultimately show ?thesis unfolding m by simp
qed

lemma rks_listed:
  assumes "env_ok env" "dev_ok d" "as_rk_stored (d_st d) \<noteq> 0" "asks cb r CM" "cm_cmd CM = CM_cmdRKBegin" "cm_authorised d CM"
    and "list_all (rk_next cb) rs"
  shows "\<exists>d'. steps (ctap_cred_mgmt cb env (\<lambda>_ _. 0)) (r # rs) d
    = Inr (map (\<lambda>k. if k < length (rk_list (d_flash d) (cm_rpIdHash CM))
                     then rk_answer env d (cm_rpIdHash CM) (if k = 0 then length (rk_list (d_flash d) (cm_rpIdHash CM)) else 0) k
                     else Inl CTAP2_ERR_NO_CREDENTIALS) [0..<Suc (length rs)], d')"
proof -
  let ?h = "cm_rpIdHash CM"
  let ?L = "rk_list (d_flash d) ?h"
  obtain d1 where 1: "ctap_cred_mgmt cb env (\<lambda>_ _. 0) r d =
      (case cm_begin CM d1 of (rp_count, rk_count, cs) \<Rightarrow> cm_switch env (\<lambda>_ _. 0) CM rp_count rk_count (set_cursor cs d1))" "cm_sim d d1"
    by (rule cm_begins[OF assms(1-4,6)])
  have L: "rk_list (d_flash d1) ?h = ?L" using 1(2) by (intro lists_table) (simp add: cm_sim_def)
  let ?cs = "(d_cm d1)\<lparr>cs_rk_ind := cursor ?L 0, cs_rk_auth := True\<rparr>"
  have b: "cm_begin CM d1 = (0, length ?L, ?cs)"
    using assms(5) count_rks_value[of 0 "d_flash d1" ?h] L by (simp add: cm_begin_def scan_rk_start cm_cmd_defs)
  have "\<exists>d2. cm_rk_answer env (\<lambda>_ _. 0) (length ?L) (set_cursor ?cs d1)
      = Inr (if 0 < length ?L then rk_answer env d ?h (length ?L) 0 else Inl CTAP2_ERR_NO_CREDENTIALS, d2) \<and> rk_at d ?h (Suc 0) d2"
    by (rule rk_answer_step) (use 1(2) assms(3) in simp_all)
  then obtain d2 where 2: "ctap_cred_mgmt cb env (\<lambda>_ _. 0) r d
      = Inr (if 0 < length ?L then rk_answer env d ?h (length ?L) 0 else Inl CTAP2_ERR_NO_CREDENTIALS, d2)" "rk_at d ?h 1 d2"
    using 1(1) b assms(5) by (auto simp: cm_switch_def cm_cmd_defs)
  have m: "[0..<Suc (length rs)] = 0 # [1..<1 + length rs]" by (simp add: upt_conv_Cons del: upt_Suc)
  obtain d3 where "steps (ctap_cred_mgmt cb env (\<lambda>_ _. 0)) (r # rs) d
      = Inr ((if 0 < length ?L then rk_answer env d ?h (length ?L) 0 else Inl CTAP2_ERR_NO_CREDENTIALS)
          # map (\<lambda>j. if j < length ?L then rk_answer env d ?h 0 j else Inl CTAP2_ERR_NO_CREDENTIALS) [1..<1 + length rs], d3)"
    using rks.listed[OF 2 assms(7)] by blast
  moreover have "map (\<lambda>j. if j < length ?L then rk_answer env d ?h 0 j else Inl CTAP2_ERR_NO_CREDENTIALS) [1..<1 + length rs]
      = map (\<lambda>k. if k < length ?L then rk_answer env d ?h (if k = 0 then length ?L else 0) k else Inl CTAP2_ERR_NO_CREDENTIALS) [1..<1 + length rs]"
    by (rule map_cong) auto
  ultimately show ?thesis unfolding m by simp
qed

subsection \<open>Deleting\<close>

definition id_slot :: "credential_id \<Rightarrow> resident_key list \<Rightarrow> nat option" where
  "id_slot c ks = find (\<lambda>i. ctap_rk_is_valid (ks ! i) \<and> rk_id (ks ! i) = c) [0..<length ks]"

lemma rk_index_value:
  assumes "cid_ok c" "\<forall>i\<in>set is. i < 50"
  shows "rk_index_from f c is = (case find (\<lambda>i. ctap_rk_is_valid (rk_slots f ! i) \<and> rk_id (rk_slots f ! i) = c) is of None \<Rightarrow> -1 | Some i \<Rightarrow> int i)"
  using assms(2)
proof (induction "is")
  case (Cons i "is")
  have i: "i < 50" using Cons(2) by simp
  have "cid_ok (rk_id (rk_slots f ! i))" using i by (intro rk_slots_cid[of _ f]) simp
  then have "cid_image (rk_id (rk_slots f ! i)) = cid_image c \<longleftrightarrow> rk_id (rk_slots f ! i) = c"
    using assms(1) cid_image_roundtrip by metis
  then show ?case using Cons i by (auto simp: slot_table slot_load)
qed simp

lemma index_value: "cid_ok c \<Longrightarrow> credentialId_to_rk_index f c = (case id_slot c (rk_slots f) of None \<Rightarrow> -1 | Some i \<Rightarrow> int i)"
  by (simp add: credentialId_to_rk_index_def id_slot_def rk_index_value ctap_rk_size_50)

lemma decrement_store:
  assumes "env_ok env" "dev_ok d"
  shows "dev_ok (ctap_decrement_rk_store env d)" "rk_slots (d_flash (ctap_decrement_rk_store env d)) = rk_slots (d_flash d)"
    "as_rk_stored (d_st (ctap_decrement_rk_store env d)) = as_rk_stored (d_st d) - 1"
proof -
  have ok: "state_wf ((d_st d)\<lparr>as_rk_stored := as_rk_stored (d_st d) - 1\<rparr>)" using assms(2) by (simp add: dev_ok_def state_wf_def)
  show "dev_ok (ctap_decrement_rk_store env d)" unfolding ctap_decrement_rk_store_def
    using assms(2) ok by (intro dev_ok_flush[OF assms(1)]) (simp_all add: dev_ok_def)
  show "rk_slots (d_flash (ctap_decrement_rk_store env d)) = rk_slots (d_flash d)"
    using flush_rk[OF assms(1), of "d\<lparr>d_st := (d_st d)\<lparr>as_rk_stored := as_rk_stored (d_st d) - 1\<rparr>\<rparr>"] ok by (simp add: ctap_decrement_rk_store_def)
qed (simp add: ctap_decrement_rk_store_def)

lemma delete_value:
  assumes "env_ok env" "dev_ok d" "rk_counted d" "cid_ok (cr_id (cd_credential (cm_desc CM)))"
  shows "\<exists>d'. cm_delete env CM d = (if id_slot (cr_id (cd_credential (cm_desc CM))) (rk_slots (d_flash d)) = None then Inl CTAP2_ERR_NO_CREDENTIALS else Inr [], d')
    \<and> rk_slots (d_flash d') = (case id_slot (cr_id (cd_credential (cm_desc CM))) (rk_slots (d_flash d)) of
        None \<Rightarrow> rk_slots (d_flash d) | Some i \<Rightarrow> (rk_slots (d_flash d))[i := rk_blank])
    \<and> dev_ok d' \<and> rk_counted d'"
proof (cases "id_slot (cr_id (cd_credential (cm_desc CM))) (rk_slots (d_flash d))")
  case None
  then show ?thesis using assms by (simp add: cm_delete_def index_value)
next
  case (Some i)
  let ?d1 = "d\<lparr>d_flash := ctap_delete_rk (env_prog env) i (d_flash d)\<rparr>"
  let ?ks = "rk_slots (d_flash d)"
  have i: "i < 50" "ctap_rk_is_valid (?ks ! i)" using Some by (auto simp: id_slot_def find_Some_iff)
  note s = slots_delete[of "env_prog env" i "d_flash d"]
  have s: "rk_slots (d_flash ?d1) = ?ks[i := rk_blank]" using slots_delete[of "env_prog env" i "d_flash d"] assms(1) by (simp add: env_ok_def)
  note ok = delete_rk_ok[OF assms(2,1), of i]
  note dec = decrement_store[OF assms(1) ok]
  have c: "length (valid_slots (?ks[i := rk_blank])) + 1 = length (valid_slots ?ks)"
    using valid_slots_update[of i ?ks rk_blank] i rk_blank_props(2) by simp
  then have "0 < unat (as_rk_stored (d_st d))" using assms(3) unfolding rk_counted_def by linarith
  then have "unat (as_rk_stored (d_st d) - 1) = unat (as_rk_stored (d_st d)) - 1"
    by (simp add: unat_sub word_le_nat_alt)
  then have "rk_counted (ctap_decrement_rk_store env ?d1)"
    using c assms(3) dec(2,3) s by (simp add: rk_counted_def)
  then show ?thesis using Some assms(4) dec s by (simp add: cm_delete_def index_value)
qed

subsection \<open>Requests for the examples\<close>

text \<open>A decoder that answers the empty request with one tree and every other one with another.\<close>

definition two_cbor :: "item \<Rightarrow> item \<Rightarrow> item list cbor" where
  "two_cbor t1 t2 = (tree_cbor t1)\<lparr>cb_init := (\<lambda>r. (0, [if r = [] then t1 else t2]))\<rparr>"

lemma two_simps [simp]:
  "cb_init (two_cbor t1 t2) r = (0, [if r = [] then t1 else t2])" "cb_type (two_cbor t1 t2) = tree_type" "cb_enter (two_cbor t1 t2) = tree_enter"
  "cb_map_length (two_cbor t1 t2) = tree_map_length" "cb_advance (two_cbor t1 t2) = tree_advance" "cb_int (two_cbor t1 t2) = tree_int"
  "cb_int_checked (two_cbor t1 t2) = tree_int_checked" "cb_copy_bytes (two_cbor t1 t2) = tree_copy_bytes" "cb_next_byte (two_cbor t1 t2) = (\<lambda>_. 1)"
  "cb_string_length (two_cbor t1 t2) = tree_size" "cb_calc_length (two_cbor t1 t2) = tree_size" "cb_find (two_cbor t1 t2) = tree_find"
  "cb_copy_text (two_cbor t1 t2) = tree_copy_text"
  by (simp_all add: two_cbor_def tree_cbor_def)

lemma parse_loop_num: "parse_loop body (numeral n) v s =
     (case body v s of (r, v, s) \<Rightarrow> if r \<noteq> 0 then (r, v, s) else parse_loop body (pred_numeral n) v s)"
  by (simp add: numeral_eq_Suc)

lemmas parse_simps = parse_loop_num ctap_parse_cred_mgmt_def parse_map_def with_int_key_def cm_value_def with_value_def advance_end_def int32_def
  int_value_def parse_fixed_byte_string_def check_ret_def loop_code_def copy_out_def blit_def parse_cred_mgmt_subcommandparams_def
  cm_param_value_def CM_COPY_SIZE_def cm_zero_def Let_def asks_def
  CborErrorOutOfMemory_def

definition begin_rps :: "bytes \<Rightarrow> item" where
  "begin_rps p = IMap [IInt 1, IInt 2, IInt 4, IBytes p]"

definition begin_rks :: "bytes \<Rightarrow> bytes \<Rightarrow> item" where
  "begin_rks h p = IMap [IInt 1, IInt 4, IInt 2, IMap [IInt 1, IBytes h], IInt 4, IBytes p]"

lemma asks_begin:
  "length p = 16 \<Longrightarrow> asks (two_cbor (begin_rps p) t2) [] (cm_zero\<lparr>cm_cmd := 2, cm_hashedCmd := 2, cm_pinAuth := p, cm_pinAuthPresent := 1\<rparr>)"
  "length p = 16 \<Longrightarrow> length h = 32 \<Longrightarrow> asks (two_cbor (begin_rks h p) t2) []
     (cm_zero\<lparr>cm_cmd := 4, cm_rpIdHash := h, cm_hashedCmd := 4, cm_cborSize := 1, cm_pinAuth := p, cm_pinAuthPresent := 1\<rparr>)"
  by (simp_all add: begin_rps_def begin_rks_def parse_simps block_def)

lemma asks_next:
  "asks (two_cbor t1 (IMap [IInt 1, IInt 3])) [1] (cm_zero\<lparr>cm_cmd := 3, cm_hashedCmd := 3\<rparr>)"
  "asks (two_cbor t1 (IMap [IInt 1, IInt 5])) [1] (cm_zero\<lparr>cm_cmd := 5, cm_hashedCmd := 5\<rparr>)"
  by (simp_all add: parse_simps)

text \<open>A device with one resident key in its first slot.\<close>

lemma one_key_device:
  obtains d where "dev_ok d" "rk_counted d" "rk_slots (d_flash d) = (replicate 50 rk_blank)[0 := rk1]" "as_rk_stored (d_st d) \<noteq> 0"
proof -
  obtain d where d: "dev_ok d" "rk_counted d" "rk_slots (d_flash d) = (replicate 50 rk_blank)[0 := rk1]"
    using store_resident_upsert[OF dev0_ok(1) env0_ok dev0_table(2) rk1_ok] by (auto simp: dev0_table upsert_blank)
  have "length (valid_slots ((replicate 50 rk_blank)[0 := rk1])) = 1"
    using valid_slots_update[of 0 "replicate 50 rk_blank" rk1] length_valid_slots[of "replicate 50 rk_blank"] rk_blank_props(2) rk1_ok by simp
  then have "as_rk_stored (d_st d) \<noteq> 0" using d(2,3) by (auto simp: rk_counted_def)
  then show ?thesis using that d by blast
qed

lemma one_key_table:
  assumes "rk_slots f = (replicate 50 rk_blank)[0 := rk1]" "i < 50"
  shows "slot_valid f i \<longleftrightarrow> i = 0" "slot_hash f i = (if i = 0 then zeros 32 else replicate 32 0xff)"
proof -
  have "rk_slots f ! i = (if i = 0 then rk1 else rk_blank)" using assms by (simp add: nth_list_update)
  moreover have "ci_rpIdHash (rk_id rk_blank) = replicate 32 0xff" "ci_rpIdHash (rk_id rk1) = zeros 32"
    by (simp_all add: rk_blank_def rk_of_image_def cid_of_image_def block_def RK_SIZE_def rk1_def cid_zero_def)
  ultimately show "slot_valid f i \<longleftrightarrow> i = 0" "slot_hash f i = (if i = 0 then zeros 32 else replicate 32 0xff)"
    using assms(2) rk_blank_props(2) rk1_ok by (simp_all add: slot_table)
qed

lemma one_key_clean:
  assumes "rk_slots f = (replicate 50 rk_blank)[0 := rk1]"
  shows "clean_table f" "rp_list f = [0]" "rk_list f (zeros 32) = [0]"
proof -
  note t = one_key_table[OF assms]
  have ne: "replicate 32 0xff \<noteq> zeros 32" by (simp add: zeros_def replicate_eq_replicate)
  show "clean_table f" using t ne by (auto simp: clean_table_def split: if_splits)
  have u: "[0..<50] = 0 # [Suc 0..<50]" by (simp add: upt_conv_Cons)
  have "rp_first f i \<longleftrightarrow> i = 0" if "i < 50" for i using t(1) that by (auto simp: rp_first_def)
  then have "filter (rp_first f) [Suc 0..<50] = []" "rp_first f 0" by (auto simp: filter_empty_conv)
  then show "rp_list f = [0]" unfolding rp_list_def u by simp
  have "filter (\<lambda>i. slot_hash f i = zeros 32) [Suc 0..<50] = []" using t(2) ne by (auto simp: filter_empty_conv)
  then show "rk_list f (zeros 32) = [0]" unfolding rk_list_def u using t(2)[of 0] by simp
qed

end
