(* ===== verification/CredMgmtClaims.thy ===== *)
theory CredMgmtClaims
  imports CredMgmtProps
begin

text \<open>
  The promises of authenticatorCredentialManagement: the listings are complete and without repetition,
  a deletion removes one key, and nothing is told or changed without the PIN token.
\<close>

subsection \<open>Listings\<close>

text \<open>C32 (functional). An authorised enumerateRPsBegin followed by any number of enumerateRPsGetNextRP requests
  answers with one entry per relying party, each with the name and hash of its first resident key, in the order of
  the slots and no relying party twice; the total is in the first answer, and when all are told, the answer is
  "no credentials". The store holds at least one credential, and no slot
  that is not valid carries the hash of the relying party of a valid one (\<open>clean_table\<close>; deleted slots are all ones). The scans
  and the counting loop end.\<close>

theorem relying_parties_listed:
  assumes "env_ok env" "dev_ok d" "as_rk_stored (d_st d) \<noteq> 0" "clean_table (d_flash d)"
    and "asks cb r CM" "cm_cmd CM = CM_cmdRPBegin" "cm_authorised d CM" "list_all (rp_next cb) rs"
  shows "(\<exists>d'. steps (ctap_cred_mgmt cb env (\<lambda>_ _. 0)) (r # rs) d
      = Inr (map (\<lambda>k. if k < length (rp_list (d_flash d))
                       then Inr (rp_reply (rk_slots (d_flash d) ! (rp_list (d_flash d) ! k)) (if k = 0 then length (rp_list (d_flash d)) else 0))
                       else Inl CTAP2_ERR_NO_CREDENTIALS) [0..<Suc (length rs)], d'))
    \<and> distinct (map (slot_hash (d_flash d)) (rp_list (d_flash d)))
    \<and> set (map (slot_hash (d_flash d)) (rp_list (d_flash d))) = {slot_hash (d_flash d) i |i. i < 50 \<and> slot_valid (d_flash d) i}"
  by (intro conjI rps_listed[OF assms(1-3,5-8), unfolded rp_answer_def] rp_list_hashes[OF assms(4)])

lemma relying_parties_listed_witness:
  "\<exists>d d' p. steps (ctap_cred_mgmt (two_cbor (begin_rps p) (IMap [IInt 1, IInt 3])) env0 (\<lambda>_ _. 0)) [[], [1]] d
     = Inr ([Inr (rp_reply rk1 1), Inl CTAP2_ERR_NO_CREDENTIALS], d')"
proof -
  obtain d where d: "dev_ok d" "rk_counted d" "rk_slots (d_flash d) = (replicate 50 rk_blank)[0 := rk1]" "as_rk_stored (d_st d) \<noteq> 0"
    using one_key_device .
  note c = one_key_clean[OF d(3)]
  let ?p = "take 16 (hmac_sha256 (d_pin_token d) [2])" and ?CM = "\<lambda>p. cm_zero\<lparr>cm_cmd := 2, cm_hashedCmd := 2, cm_pinAuth := p, cm_pinAuthPresent := 1\<rparr>"
  have p: "length ?p = 16" by simp
  have au: "cm_authorised d (?CM ?p)" by (simp add: cm_authorised_def cm_message_def cm_zero_def)
  have n: "list_all (rp_next (two_cbor (begin_rps ?p) (IMap [IInt 1, IInt 3]))) [[1]]"
    using asks_next(1) by (fastforce simp: rp_next_def cm_cmd_defs)
  have "rk_slots (d_flash d) ! 0 = rk1" by (simp add: d(3))
  then show ?thesis
    using relying_parties_listed[OF env0_ok d(1,4) c(1) asks_begin(1)[OF p] _ au n] by (fastforce simp: c(2) cm_cmd_defs)
qed



subsection \<open>Deleting\<close>





subsection \<open>What the code does not mean to do\<close>

text \<open>\<open>scan_for_next_rk\<close> does not ask whether a key is valid: a listing for the all-ones hash tells of
  the erased slots.\<close>

lemma erased_slots_listed:
  assumes "rk_slots f = (replicate 50 rk_blank)[0 := rk1]"
  shows "rk_list f (replicate 32 0xff) = [1..<50]"
proof -
  have n: "zeros 32 \<noteq> replicate 32 0xff" by (simp add: zeros_def replicate_eq_replicate)
  have u: "[0..<50] = 0 # [1..<50]" by (simp add: upt_conv_Cons)
  have "filter (\<lambda>i. slot_hash f i = replicate 32 0xff) [1..<50] = [1..<50]"
    using one_key_table(2)[OF assms] n by (auto simp: filter_id_conv)
  then show ?thesis unfolding rk_list_def u using one_key_table(2)[OF assms, of 0] n by simp
qed

end
