(* ===== verification/DevInv.thy ===== *)
theory DevInv
  imports GetClaims CredMgmtClaims PinHistory
begin

text \<open>
  The invariant of the whole device and what each part of a command does to it: the state in RAM is the
  one in both flash pages, the stored number of resident keys is that of the valid slots, the signature counter is sound,
  and the assertion state has its buffer sizes.
\<close>

subsection \<open>The invariant\<close>

definition core_inv :: "ctap_dev \<Rightarrow> bool" where
  "core_inv d \<longleftrightarrow> dev_ok d \<and> rk_counted d \<and> counter_inv d \<and> gs_ok (d_ga d)"

text \<open>Steps that leave the counter where it is, and steps that may move it on.\<close>

definition quiet :: "ctap_dev \<Rightarrow> ctap_dev \<Rightarrow> bool" where
  "quiet d d' \<longleftrightarrow> core_inv d' \<and> counter_floor (d_flash d') = counter_floor (d_flash d) \<and> d_up_off d' = d_up_off d"

definition later :: "ctap_dev \<Rightarrow> ctap_dev \<Rightarrow> bool" where
  "later d d' \<longleftrightarrow> core_inv d' \<and> counter_floor (d_flash d) \<le> counter_floor (d_flash d') \<and> d_up_off d' = d_up_off d"

lemma core_crypto: "core_inv d \<Longrightarrow> crypto_ok (d_cr d)"
  by (simp add: core_inv_def dev_ok_def)

lemma core_token: "core_inv d \<Longrightarrow> length (d_pin_token d) = 16"
  by (simp add: core_inv_def dev_ok_def)

lemma quiet_refl [simp]: "core_inv d \<Longrightarrow> quiet d d"
  by (simp add: quiet_def)

lemma quiet_trans: "quiet a b \<Longrightarrow> quiet b c \<Longrightarrow> quiet a c"
  by (simp add: quiet_def)

lemma quiet_later: "quiet a b \<Longrightarrow> later a b"
  by (simp add: quiet_def later_def)

lemma later_trans: "later a b \<Longrightarrow> later b c \<Longrightarrow> later a c"
  by (auto simp: later_def)

lemma quietD: "quiet a b \<Longrightarrow> core_inv b" "later a b \<Longrightarrow> core_inv b"
  by (simp_all add: quiet_def later_def)

lemma count_quiet:
  assumes "core_inv d" "count_sim d d'" "d_flash d' = d_flash d" "d_sc d' = d_sc d"
  shows "quiet d d'"
  using assms count_sim_ok[of d d'] count_sim_counted[of d d'] count_sim_fields[OF assms(2)]
  by (simp add: quiet_def core_inv_def counter_inv_def)

lemma dev_quiet: "core_inv d \<Longrightarrow> dev_sim d d' \<Longrightarrow> quiet d d'"
  using dev_sim_fields[of d d'] by (intro count_quiet dev_sim_count) simp_all

lemma count_later:
  assumes "core_inv d" "count_sim d d'" "counter_inv d'" "counter_floor (d_flash d) \<le> counter_floor (d_flash d')"
  shows "later d d'"
  using assms count_sim_ok[of d d'] count_sim_counted[of d d'] count_sim_fields[OF assms(2)]
  by (simp add: later_def core_inv_def)

lemma ga_quiet: "core_inv d \<Longrightarrow> gs_ok g \<Longrightarrow> quiet d (d\<lparr>d_ga := g\<rparr>)"
  by (simp add: quiet_def core_inv_def dev_ok_def rk_counted_def counter_inv_def)

lemma custom_quiet: "core_inv d \<Longrightarrow> length c = 256 \<Longrightarrow> quiet d (set_custom c n d)"
  unfolding set_custom_def by (rule ga_quiet) (simp_all add: core_inv_def gs_ok_def)

lemma cursor_quiet: "core_inv d \<Longrightarrow> quiet d (set_cursor cs d)"
  by (simp add: set_cursor_def quiet_def core_inv_def dev_ok_def rk_counted_def counter_inv_def)

subsection \<open>The counter pages\<close>

definition same_counter :: "flash \<Rightarrow> flash \<Rightarrow> bool" where
  "same_counter f f' \<longleftrightarrow> (\<forall>x. counter_cell x \<longrightarrow> f' x = f x)"

lemma view_frame:
  assumes "same_counter f f'" "ctr_view f cs e"
  shows "ctr_view f' cs e"
proof -
  have e: "f' x = f x" if "flash_addr COUNTER2_PAGE \<le> x" "x < flash_addr STATE2_PAGE" for x
    using assms(1) that by (simp add: same_counter_def counter_cell_def)
  have l: "length cs \<le> 256" using assms(2) by (simp add: ctr_view_def)
  have r: "rd32 f' a = rd32 f a" if "flash_addr COUNTER2_PAGE \<le> a" "a + 4 \<le> flash_addr STATE2_PAGE" for a
    using that by (simp add: rd32_def e)
  have "rd32 f' (flash_addr COUNTER1_PAGE + 8 * i) = rd32 f (flash_addr COUNTER1_PAGE + 8 * i)" if "i < length cs" for i
    using that l by (intro r) (simp_all add: page_defs)
  moreover have "rd32 f' (flash_addr COUNTER2_PAGE) = rd32 f (flash_addr COUNTER2_PAGE)" by (rule r) (simp_all add: page_defs)
  moreover have "erased f' (flash_addr COUNTER1_PAGE + 8 * length cs) (FLASH_PAGE_SIZE - 8 * length cs)"
    using assms(2) l e by (auto simp: ctr_view_def erased_def page_defs)
  ultimately show ?thesis using assms(2) by (simp add: ctr_view_def)
qed

lemma counter_frame:
  assumes "same_counter (d_flash d) (d_flash d')" "d_sc d' = d_sc d" "counter_inv d"
  shows "counter_inv d'" "counter_floor (d_flash d') = counter_floor (d_flash d)"
proof -
  obtain cs e where v: "ctr_view (d_flash d) cs e" using assms(3) by (auto simp: counter_inv_def ctr_ok_def)
  note v2 = view_frame[OF assms(1) v]
  show f: "counter_floor (d_flash d') = counter_floor (d_flash d)" using counter_floor_view[OF v] counter_floor_view[OF v2] by simp
  show "counter_inv d'" using assms(2,3) v2 f by (auto simp: counter_inv_def ctr_ok_def)
qed

lemma flush_counter: "env_ok env \<Longrightarrow> state_wf (d_st d) \<Longrightarrow> same_counter (d_flash d) (d_flash (ctap_flush_state env d))"
  by (simp add: same_counter_def ctap_flush_state_def counter_cell_def state_write_cell env_ok_def)

lemma rk_put_counter:
  assumes "prog_ok prog" "length img = RK_SIZE"
  shows "same_counter f (rk_put prog i img f)"
  unfolding same_counter_def
proof (intro allI impI)
  fix x assume "counter_cell x"
  then show "rk_put prog i img f x = f x"
    using rk_put_frame[OF assms, of x i f 1] by (simp add: counter_cell_def flash_read_def)
qed

lemma same_counter_refl [simp]: "same_counter f f"
  by (simp add: same_counter_def)

lemma same_counter_trans: "same_counter f g \<Longrightarrow> same_counter g h \<Longrightarrow> same_counter f h"
  by (simp add: same_counter_def)

lemma store_quiet:
  assumes "env_ok env" "core_inv d" "rk_ok rk" "ctap_rk_is_valid rk"
  shows "quiet d (snd (store_resident env rk d))"
proof -
  have ok: "dev_ok d" "rk_counted d" using assms(2) by (simp_all add: core_inv_def)
  have p: "prog_ok (env_prog env)" using assms(1) by (simp add: env_ok_def)
  have wf: "state_wf ((d_st d)\<lparr>as_rk_stored := as_rk_stored (d_st d) + 1\<rparr>)" using ok by (simp add: dev_ok_def state_wf_def)
  have inc: "same_counter (d_flash d) (d_flash (ctap_increment_rk_store env d))"
    using flush_counter[OF assms(1), of "d\<lparr>d_st := (d_st d)\<lparr>as_rk_stored := as_rk_stored (d_st d) + 1\<rparr>\<rparr>"] wf
    by (simp add: ctap_increment_rk_store_def)
  note put = rk_put_counter[OF p length_rk_image[OF assms(3)]]
  have c: "same_counter (d_flash d) (d_flash (snd (store_resident env rk d)))"
    using put same_counter_trans[OF inc put] by (auto simp: store_resident_def ctap_overwrite_rk_def ctap_store_rk_def Let_def split: option.split)
  have fr: "d_sc (snd (store_resident env rk d)) = d_sc d" "d_ga (snd (store_resident env rk d)) = d_ga d"
    "d_up_off (snd (store_resident env rk d)) = d_up_off d"
    by (simp_all add: store_resident_def ctap_increment_rk_store_def ctap_flush_state_def Let_def split: option.split)
  obtain r d' where "store_resident env rk d = (r, d')" "dev_ok d'" "rk_counted d'"
    using store_resident_upsert[OF ok(1) assms(1) ok(2) assms(3,4)] by blast
  then show ?thesis using counter_frame[OF c fr(1)] fr assms(2) by (simp add: quiet_def core_inv_def)
qed

subsection \<open>PIN commands\<close>

text \<open>What they leave alone: keys, counter, assertion state.\<close>

definition pin_sim :: "ctap_dev \<Rightarrow> ctap_dev \<Rightarrow> bool" where
  "pin_sim d d' \<longleftrightarrow> state_wf (d_st d') \<and> as_rk_stored (d_st d') = as_rk_stored (d_st d) \<and> rk_slots (d_flash d') = rk_slots (d_flash d)
     \<and> same_counter (d_flash d) (d_flash d') \<and> d_sc d' = d_sc d \<and> d_ga d' = d_ga d \<and> d_up_off d' = d_up_off d"

lemma pin_sim_wf: "pin_sim d d' \<Longrightarrow> state_wf (d_st d')"
  by (simp add: pin_sim_def)

lemma pin_sim_trans: "pin_sim a b \<Longrightarrow> pin_sim b c \<Longrightarrow> pin_sim a c"
  using same_counter_trans by (auto simp: pin_sim_def)

lemma pin_sim_mem:
  assumes "state_wf (d_st d)" "d_flash d' = d_flash d" "d_sc d' = d_sc d" "d_ga d' = d_ga d" "d_up_off d' = d_up_off d"
    and "state_wf (d_st d')" "as_rk_stored (d_st d') = as_rk_stored (d_st d)"
  shows "pin_sim d d'"
  using assms by (simp add: pin_sim_def)

lemma flush_more [simp]: "d_sc (ctap_flush_state env d) = d_sc d" "d_up_off (ctap_flush_state env d) = d_up_off d"
  by (simp_all add: ctap_flush_state_def)

lemma pin_sim_flush: "env_ok env \<Longrightarrow> state_wf (d_st d) \<Longrightarrow> pin_sim d (ctap_flush_state env d)"
  by (simp add: pin_sim_def flush_rk flush_counter)

lemma pin_sim_set:
  assumes "env_ok env" "pin_sim d d1" "d_flash d2 = d_flash d1" "d_sc d2 = d_sc d1" "d_ga d2 = d_ga d1" "d_up_off d2 = d_up_off d1"
    and "state_wf (d_st d2)" "as_rk_stored (d_st d2) = as_rk_stored (d_st d1)"
  shows "pin_sim d (ctap_flush_state env d2)"
  by (rule pin_sim_trans[OF assms(2) pin_sim_trans[OF pin_sim_mem pin_sim_flush]])
    (use assms in \<open>simp_all add: pin_sim_def\<close>)

lemma decrement_sim:
  assumes "env_ok env" "state_wf (d_st d)"
  shows "pin_sim d (snd (ctap_decrement_pin_attempts env d))"
proof -
  have r: "pin_sim e e" if "state_wf (d_st e)" for e using that by (simp add: pin_sim_def)
  let ?d1 = "if sint (d_boot d) > 0 then d\<lparr>d_boot := d_boot d - 1\<rparr> else d"
  have 1: "pin_sim d ?d1" using assms(2) by (simp add: pin_sim_def)
  let ?d2 = "ctap_flush_state env (?d1\<lparr>d_st := (d_st ?d1)\<lparr>as_tries := as_tries (d_st ?d1) - 1\<rparr>\<rparr>)"
  have 2: "pin_sim d ?d2"
    by (rule pin_sim_set[OF assms(1) 1]) (use assms(2) in \<open>simp_all add: state_wf_def\<close>)
  have 3: "pin_sim d (lock_device_permanently env ?d2)" unfolding lock_device_permanently_def
    by (rule pin_sim_set[OF assms(1) 2]) (use pin_sim_wf[OF 2] in \<open>simp_all add: state_wf_def\<close>)
  have "snd (ctap_decrement_pin_attempts env d) = (if \<not> ctap_device_locked ?d1 then if ctap_device_locked ?d2 then lock_device_permanently env ?d2 else ?d2 else ?d1)"
    by (simp add: ctap_decrement_pin_attempts_def Let_def)
  then show ?thesis using 1 2 3 by simp
qed

lemma reset_sim: "env_ok env \<Longrightarrow> state_wf (d_st d) \<Longrightarrow> pin_sim d (ctap_reset_pin_attempts env d)"
  unfolding ctap_reset_pin_attempts_def
  by (rule pin_sim_set[where ?d1.0 = d]) (simp_all add: pin_sim_def state_wf_def)

lemma mismatch_sim: "env_ok env \<Longrightarrow> state_wf (d_st d) \<Longrightarrow> pin_sim d (snd (pin_mismatch env d))"
proof -
  assume a: "env_ok env" "state_wf (d_st d)"
  let ?d = "ctap_reset_key_agreement env d"
  have 1: "pin_sim d ?d" using a(2)
    by (simp add: pin_sim_def ctap_reset_key_agreement_def ctap_generate_rng_def Let_def)
  have "snd (pin_mismatch env d) = snd (ctap_decrement_pin_attempts env ?d)" by (simp add: pin_mismatch_def split_beta Let_def)
  then show ?thesis using pin_sim_trans[OF 1 decrement_sim[OF a(1) pin_sim_wf[OF 1]]] by simp
qed

lemma update_pin_sim:
  assumes "env_ok env" "dev_ok d" "ctap_update_pin env pin len d = Inr d'"
  shows "pin_sim d d'"
proof -
  obtain cr where h: "hash2 (take len pin) (as_salt (d_st d)) (d_cr d) = (pin_digest (take len pin) (as_salt (d_st d)), cr)"
    using hash2_value[OF dev_ok_crypto[OF assms(2)]] by blast
  have d': "d' = ctap_flush_state env (d\<lparr>d_cr := cr, d_st := (d_st d)\<lparr>as_pin_hash := pin_digest (take len pin) (as_salt (d_st d)), as_pin_set := 1\<rparr>\<rparr>)"
    using assms(3) h by (simp add: ctap_update_pin_def Let_def split: if_splits)
  have r: "pin_sim d d" using assms(2) by (simp add: pin_sim_def dev_ok_def)
  show ?thesis unfolding d' by (rule pin_sim_set[OF assms(1) r]) (use assms(2) in \<open>simp_all add: dev_ok_def state_wf_def pin_digest_def\<close>)
qed

lemma dev_pin_sim: "dev_ok d \<Longrightarrow> dev_sim d d' \<Longrightarrow> pin_sim d d'"
  using dev_sim_fields[of d d'] by (simp add: pin_sim_def dev_ok_def)

lemma salted_fields: "d_flash (snd (salted_pin_hash h d)) = d_flash d" "d_sc (snd (salted_pin_hash h d)) = d_sc d" "d_ga (snd (salted_pin_hash h d)) = d_ga d"
  "d_up_off (snd (salted_pin_hash h d)) = d_up_off d" "d_st (snd (salted_pin_hash h d)) = d_st d" "d_pin_token (snd (salted_pin_hash h d)) = d_pin_token d"
  by (simp_all add: salted_pin_hash_def Let_def split_beta)

lemma checked_sim:
  assumes "env_ok env" "dev_ok d" "update_pin_checked env pin h d = Inr (r, d')"
  shows "pin_sim d d'"
proof -
  have r: "pin_sim d d" using assms(2) by (simp add: pin_sim_def dev_ok_def)
  let ?a = "crypto_aes256_decrypt (env_lib env) (case h of None \<Rightarrow> [] | Some h \<Rightarrow> take 16 h) (crypto_aes256_reset_iv None (d_cr d))"
  let ?d1 = "d\<lparr>d_cr := snd ?a\<rparr>"
  let ?s = "salted_pin_hash (fst ?a) ?d1"
  have c1: "crypto_ok (d_cr ?d1)"
    using assms(2) by (simp add: dev_ok_def crypto_ok_def crypto_aes256_decrypt_def crypto_aes256_reset_iv_def Let_def)
  have ok1: "dev_ok ?d1" using assms(2) c1 by (simp add: dev_ok_def)
  obtain d2 where 2: "?s = (sha256 (take 16 (fst ?a) @ as_salt (d_st ?d1)), d2)" "dev_sim ?d1 d2"
    using salted_value[OF c1, of "fst ?a"] by blast
  have ok2: "dev_ok d2" by (rule dev_sim_ok[OF ok1 2(2)])
  have p2: "pin_sim d d2" using dev_sim_fields[OF 2(2)] assms(2) by (simp add: pin_sim_def dev_ok_def)
  note m = pin_sim_trans[OF p2 mismatch_sim[OF assms(1) pin_sim_wf[OF p2]]]
  note ra = reset_attempts(1)[OF assms(1) ok2] and rs = pin_sim_trans[OF p2 reset_sim[OF assms(1) pin_sim_wf[OF p2]]]
  have ok3: "dev_ok (ctap_reset_pin_attempts env d2)" using ra by (simp add: restored_def)
  show ?thesis
    using assms(3) 2(1) r m pin_sim_trans[OF rs update_pin_sim[OF assms(1) ok3]] update_pin_sim[OF assms(1,2)]
    by (cases "?a") (auto simp: update_pin_checked_def Let_def seqE_Inr split: if_splits)
qed

lemma if_verified_sim:
  assumes "env_ok env" "dev_ok d" "ctap_update_pin_if_verified env pinEnc len pubkey pinAuth h d = Inr (r, d')"
  shows "pin_sim d d'"
proof -
  have rf: "pin_sim d d" using assms(2) by (simp add: pin_sim_def dev_ok_def)
  show ?thesis
  proof (cases "ctap_is_pin_set d \<and> (ctap_device_locked d \<or> ctap_device_boot_locked d)")
    case True
    then show ?thesis using assms(3) rf by (auto simp: ctap_update_pin_if_verified_def split: if_splits)
  next
    case False
    note u = update_pin_cases[OF assms(1,2) False, of len pinEnc pubkey pinAuth h]
    show ?thesis
    proof (cases "len < 64 \<or> session_secret env pubkey d = None")
      case True
      then show ?thesis using u assms(3) rf by (auto split: if_splits)
    next
      case key: False
      then obtain key where k: "session_secret env pubkey d = Some key" "\<not> len < 64" by auto
      show ?thesis
      proof (cases "update_mac_ok key pinEnc len pinAuth h")
        case True
        then obtain d0 where d0: "dev_sim d d0" "ctap_update_pin_if_verified env pinEnc len pubkey pinAuth h d = update_pin_checked env (new_pin env key pinEnc len) h d0"
          using u k by auto
        have "update_pin_checked env (new_pin env key pinEnc len) h d0 = Inr (r, d')" using d0(2) assms(3) by simp
        then show ?thesis by (rule pin_sim_trans[OF dev_pin_sim[OF assms(2) d0(1)] checked_sim[OF assms(1) dev_sim_ok[OF assms(2) d0(1)]]])
      next
        case no: False
        then show ?thesis using u k assms(3) dev_pin_sim[OF assms(2)] by auto
      qed
    qed
  qed
qed

lemma add_pin_sim:
  assumes "env_ok env" "dev_ok d" "ctap_add_pin_if_verified env pubkey h d = Inr (r, x, d')"
  shows "pin_sim d d'"
proof -
  obtain key d1 where 1: "session_key env pubkey d = Inr (key, d1)" using assms(3) by (auto simp: ctap_add_pin_if_verified_def seqE_Inr)
  have p1: "pin_sim d (d1\<lparr>d_cr := c\<rparr>)" for c using 1 assms(2) by (auto simp: session_key_def seqE_Inr Let_def pin_sim_def dev_ok_def split_beta)
  define a where "a = crypto_aes256_decrypt (env_lib env) (take 16 h) (crypto_aes256_init (Key_Ptr key) None (d_cr d1))"
  define d2 where "d2 = snd (salted_pin_hash (fst a) (d1\<lparr>d_cr := snd a\<rparr>))"
  have p2: "pin_sim d d2" using p1[of "snd a"] by (simp add: d2_def pin_sim_def salted_fields)
  note m = pin_sim_trans[OF p2 mismatch_sim[OF assms(1) pin_sim_wf[OF p2]]]
  note rs = pin_sim_trans[OF p2 reset_sim[OF assms(1) pin_sim_wf[OF p2]]]
  have rc: "pin_sim d ((ctap_reset_pin_attempts env d2)\<lparr>d_cr := c\<rparr>)" for c using rs by (simp add: pin_sim_def)
  show ?thesis
    using assms(3) 1 m rc by (auto simp: ctap_add_pin_if_verified_def Let_def split_beta simp flip: a_def d2_def split: if_splits)
qed

lemma enc_then_out: "enc_then m d k = Inr (r, t, d') \<Longrightarrow> d' = d \<or> (\<exists>tr. k tr = Inr (r, t, d'))"
  by (cases m) auto

lemma pin_end_out: "client_pin_end err g n mp d = Inr (r, t, d') \<Longrightarrow> d' = d"
  by (auto simp: client_pin_end_def split: if_splits option.splits dest!: enc_then_out)

lemma client_pin_sim:
  assumes "env_ok env" "dev_ok d" "ctap_client_pin env err ret CP d = Inr (r, t, d')"
  shows "pin_sim d d'"
proof -
  have rf: "pin_sim d d" using assms(2) by (simp add: pin_sim_def dev_ok_def)
  have ka: "pin_sim d (d\<lparr>d_ka_pub := p\<rparr>)" for p using rf by (simp add: pin_sim_def)
  have 1: "cp_get_retries err n d = Inr (r, t, d') \<Longrightarrow> pin_sim d d'" for n
    using rf by (auto simp: cp_get_retries_def dest!: enc_then_out pin_end_out)
  have 2: "cp_get_key_agreement env err g n d = Inr (r, t, d') \<Longrightarrow> pin_sim d d'" for g n
    using rf ka by (auto simp: cp_get_key_agreement_def Let_def dest!: enc_then_out pin_end_out)
  have 3: "cp_set_pin env err CP n d = Inr (r, t, d') \<Longrightarrow> pin_sim d d'" for n
    using rf by (auto simp: cp_set_pin_def seqE_Inr split: if_splits dest!: pin_end_out dest: if_verified_sim[OF assms(1,2)])
  have 4: "cp_change_pin env err CP n d = Inr (r, t, d') \<Longrightarrow> pin_sim d d'" for n
    using rf by (auto simp: cp_change_pin_def seqE_Inr split: if_splits dest!: pin_end_out dest: if_verified_sim[OF assms(1,2)])
  have 5: "cp_get_pin_token env err CP n d = Inr (r, t, d') \<Longrightarrow> pin_sim d d'" for n
    using rf by (auto simp: cp_get_pin_token_def seqE_Inr split: if_splits dest!: pin_end_out enc_then_out dest: add_pin_sim[OF assms(1,2)])
  show ?thesis using assms(3) rf 1 2 3 4 5 by (auto simp: ctap_client_pin_def Let_def split: if_splits)
qed

lemma client_pin_quiet:
  assumes "env_ok env" "core_inv d" "ctap_client_pin env err ret CP d = Inr (r, t, d')"
  shows "quiet d d'"
proof -
  have ok: "dev_ok d" using assms(2) by (simp add: core_inv_def)
  note s = client_pin_sim[OF assms(1) ok assms(3)]
  have "dev_ok d'" using client_pin_effect[OF assms(1) ok, of err ret CP] assms(3)
    by (auto simp: att_effect_def unmoved_def charged_def restored_def split: option.splits bool.splits)
  then show ?thesis using s counter_frame[of d d'] assms(2) by (simp add: pin_sim_def quiet_def core_inv_def rk_counted_def)
qed

end
