(* ===== verification/CtapRequest.thy ===== *)
theory CtapRequest
  imports CredMgmt PinProtocol
begin

text \<open>
  \<open>ctap_request\<close> of \<^verbatim>\<open>fido2/ctap.c\<close>: the CTAP2 commands by their number, the lock of the device before three of them,
  and \<open>lastcmd\<close>, which lets getNextAssertion run. The status indicator and the time stamps of the log
  are not modelled.
\<close>

definition CTAP_MAKE_CREDENTIAL :: u8 where "CTAP_MAKE_CREDENTIAL = 0x01"
definition CTAP_GET_ASSERTION :: u8 where "CTAP_GET_ASSERTION = 0x02"
definition CTAP_CANCEL :: u8 where "CTAP_CANCEL = 0x03"
definition CTAP_GET_INFO :: u8 where "CTAP_GET_INFO = 0x04"
definition CTAP_CLIENT_PIN :: u8 where "CTAP_CLIENT_PIN = 0x06"
definition GET_NEXT_ASSERTION :: u8 where "GET_NEXT_ASSERTION = 0x08"
definition CTAP_CBOR_CRED_MGMT :: u8 where "CTAP_CBOR_CRED_MGMT = 0x0A"
definition CTAP_CBOR_CRED_MGMT_PRE :: u8 where "CTAP_CBOR_CRED_MGMT_PRE = 0x41"

lemmas ctap_cmds = CTAP_MAKE_CREDENTIAL_def CTAP_GET_ASSERTION_def CTAP_CANCEL_def CTAP_GET_INFO_def CTAP_CLIENT_PIN_def
  CTAP_RESET_def GET_NEXT_ASSERTION_def CTAP_CBOR_CRED_MGMT_def CTAP_CBOR_CRED_MGMT_PRE_def

text \<open>A command answers its status and what it encoded.\<close>

definition as_status :: "ctap_dev + reply \<Rightarrow> ctap_dev + (int \<times> enc list \<times> ctap_dev)" where
  "as_status m = seqE m (\<lambda>(r, d). Inr (case r of Inl e \<Rightarrow> (u8_code e, [], d) | Inr tr \<Rightarrow> (0, tr, d)))"

definition request_switch ::
    "'v cbor \<Rightarrow> environ \<Rightarrow> presence \<Rightarrow> enc_err \<Rightarrow> u8 \<Rightarrow> bytes \<Rightarrow> ctap_dev \<Rightarrow> ctap_dev + (int \<times> enc list \<times> ctap_dev)" where
  "request_switch cb env ps err cmd request d =
     (if cmd = CTAP_MAKE_CREDENTIAL then as_status (ctap_make_credential cb env ps err request d)
      else if cmd = CTAP_GET_ASSERTION then as_status (ctap_get_assertion cb env ps err request d)
      else if cmd = CTAP_CANCEL then Inr (0, [], d)
      else if cmd = CTAP_GET_INFO then as_status (Inr (ctap_get_info err (env_aaguid env) (ctap_is_pin_set d) [], d))
      else if cmd = CTAP_CLIENT_PIN then
        case ctap_parse_client_pin cb request of (ret, CP) \<Rightarrow>
          seqE (ctap_client_pin env err ret CP d) (\<lambda>(r, tr, d). Inr (u8_code r, tr, d))
      else if cmd = CTAP_RESET then
        let status = u8_code (ctap2_user_presence_test CTAP_RESET ps d) in Inr (status, [], if status = 0 then ctap_reset env d else d)
      else if cmd = GET_NEXT_ASSERTION then
        if gs_lastcmd (d_ga d) = CTAP_GET_ASSERTION then as_status (ctap_get_next_assertion env ps err d)
        else Inr (CTAP2_ERR_NOT_ALLOWED, [], d)
      else if cmd = CTAP_CBOR_CRED_MGMT \<or> cmd = CTAP_CBOR_CRED_MGMT_PRE then as_status (ctap_cred_mgmt cb env err request d)
      else Inr (CTAP1_ERR_INVALID_COMMAND, [], d))"

definition set_lastcmd :: "u8 \<Rightarrow> ctap_dev \<Rightarrow> ctap_dev" where
  "set_lastcmd c d = d\<lparr>d_ga := (d_ga d)\<lparr>gs_lastcmd := c\<rparr>\<rparr>"

definition request_locked :: "u8 \<Rightarrow> ctap_dev \<Rightarrow> int" where
  "request_locked cmd d =
     (if cmd \<in> {CTAP_MAKE_CREDENTIAL, CTAP_GET_ASSERTION, CTAP_CBOR_CRED_MGMT, CTAP_CBOR_CRED_MGMT_PRE} then
        if ctap_device_locked d then CTAP2_ERR_PIN_BLOCKED else if ctap_device_boot_locked d then CTAP2_ERR_PIN_AUTH_BLOCKED else 0
      else 0)"

text \<open>\<open>cmd\<close> is the first byte of the packet, \<open>request\<close> the rest.\<close>

definition ctap_request ::
    "'v cbor \<Rightarrow> environ \<Rightarrow> presence \<Rightarrow> enc_err \<Rightarrow> u8 \<Rightarrow> bytes \<Rightarrow> ctap_dev \<Rightarrow> ctap_dev + (int \<times> enc list \<times> ctap_dev)" where
  "ctap_request cb env ps err cmd request d =
     (let lock = request_locked cmd d in
      if lock \<noteq> 0 then Inr (lock, [], set_lastcmd cmd d)
      else
        seqE (request_switch cb env ps err cmd request d) (\<lambda>(status, tr, d).
        let cmd = (if cmd = GET_NEXT_ASSERTION \<and> status = 0 then CTAP_GET_ASSERTION else cmd) in
        Inr (status, if status \<noteq> 0 then [] else tr, set_lastcmd cmd d)))"

end
