(* ===== verification/RequestInv.thy ===== *)
theory RequestInv
  imports DevInv CtapRequest
begin

text \<open>
  The invariant of the device over whole commands: every CTAP2 request that returns keeps it, and moves the
  signature counter forward or not at all. The devices a sequence of requests can reach.
\<close>

subsection \<open>What holds if a run returns\<close>

definition ends :: "('b \<Rightarrow> bool) \<Rightarrow> 'a + 'b \<Rightarrow> bool" where
  "ends P m \<longleftrightarrow> (\<forall>x. m = Inr x \<longrightarrow> P x)"

lemma ends_simps [simp]: "ends P (Inl e)" "ends P (Inr x) = P x"
  by (simp_all add: ends_def)

lemma endsI: "(\<And>x. m = Inr x \<Longrightarrow> P x) \<Longrightarrow> ends P m"
  by (simp add: ends_def)

lemma endsD: "ends P m \<Longrightarrow> m = Inr x \<Longrightarrow> P x"
  by (simp add: ends_def)

lemma ends_bind: "ends Q m \<Longrightarrow> (\<And>x. Q x \<Longrightarrow> ends P (k x)) \<Longrightarrow> ends P (seqE m k)"
  by (cases m) auto

lemma ends_mono: "ends Q m \<Longrightarrow> (\<And>x. Q x \<Longrightarrow> P x) \<Longrightarrow> ends P m"
  by (simp add: ends_def)

text \<open>A run that gives a value and the device.\<close>

abbreviation quietly :: "ctap_dev \<Rightarrow> 'e + ('x \<times> ctap_dev) \<Rightarrow> bool" where
  "quietly d m \<equiv> ends (\<lambda>(_, d'). quiet d d') m"

lemma quietly_bind:
  assumes "quiet d d1" "core_inv d1 \<Longrightarrow> quietly d1 m" "\<And>x d'. quiet d d' \<Longrightarrow> ends P (k (x, d'))"
  shows "ends P (seqE m k)"
  by (rule ends_bind[OF assms(2)[OF quietD(1)[OF assms(1)]]]) (use assms(1,3) quiet_trans in auto)

subsection \<open>The cryptographic steps\<close>

lemma cr_quiet: "core_inv d \<Longrightarrow> crypto_ok cr \<Longrightarrow> quiet d (d\<lparr>d_cr := cr\<rparr>)"
  by (simp add: quiet_def core_inv_def dev_ok_def rk_counted_def counter_inv_def)

lemma sha_quiet: "core_inv d \<Longrightarrow> quiet d (snd (dev_sha ds d))"
  by (rule dev_quiet[OF _ sha_frame[OF core_crypto]])

lemma authenticate_quiet: "core_inv d \<Longrightarrow> quietly d (ctap_authenticate_credential rp desc d)"
  by (rule endsI) (auto intro: dev_quiet authenticate_frame core_crypto)

lemma check_quiet: "core_inv d \<Longrightarrow> quietly d (check_credential_metadata c v l d)"
  by (rule endsI) (auto intro: dev_quiet check_metadata_frame core_crypto)

lemma extensions_quiet: "core_inv d \<Longrightarrow> quietly d (ctap_make_extensions env ex n d)"
  by (rule endsI) (auto intro: dev_quiet extensions_frame core_crypto)

lemma verify_ex_quiet: "core_inv d \<Longrightarrow> quietly d (verify_pin_auth_ex auth msg d)"
proof (rule endsI)
  fix x assume a: "core_inv d" "verify_pin_auth_ex auth msg d = Inr x"
  show "case x of (_, d') \<Rightarrow> quiet d d'"
    using verify_mac_value[OF core_crypto[OF a(1)] core_token[OF a(1)], of auth msg] a dev_quiet by fastforce
qed

lemma verify_quiet: "core_inv d \<Longrightarrow> quietly d (verify_pin_auth auth cdh d)"
  unfolding verify_pin_auth_def by (rule verify_ex_quiet)

lemma sign_quiet: "core_inv d \<Longrightarrow> quietly d (dev_sign env data d)"
  using dev_sign_value[OF core_crypto, of d env data] by (intro endsI) (auto intro: count_quiet)

lemma signature_quiet: "core_inv d \<Longrightarrow> ends (\<lambda>(_, _, d'). quiet d d') (ctap_calculate_signature env data cdh d)"
  using quiet_trans[OF sha_quiet] sign_quiet[OF quietD(1)[OF sha_quiet]]
  by (simp add: ctap_calculate_signature_def split_beta ends_bind ends_def seqE_Inr Let_def) blast

lemma load_key_quiet: "core_inv d \<Longrightarrow> ends (quiet d) (dev_load_key env data d)"
  by (metis core_crypto dev_load_key_value count_quiet ends_simps(2))

lemma rng_quiet: "core_inv d \<Longrightarrow> quiet d (snd (ctap_generate_rng env n d))"
  using core_crypto[of d] cr_quiet[of d "(d_cr d)\<lparr>c_rng := c_rng (d_cr d) + n\<rparr>"]
  by (simp add: ctap_generate_rng_def Let_def crypto_ok_def)

text \<open>The test of the presence switch is put back by every path that changes it.\<close>

lemma up_quiet: "core_inv d \<Longrightarrow> core_inv (d\<lparr>d_up_off := b\<rparr>)"
  by (simp add: core_inv_def dev_ok_def rk_counted_def counter_inv_def)

subsection \<open>authenticatorReset\<close>

lemma reset_counter: "same_counter f (ctap_reset_rk f)"
  by (auto simp: same_counter_def ctap_reset_rk_def fold_erase_read counter_cell_def page_defs RK_START_PAGE_def RK_NUM_PAGES_def)

lemma reset_quiet:
  assumes "env_ok env" "core_inv d"
  shows "quiet d (ctap_reset env d)"
proof -
  let ?i = "ctap_state_init env d" and ?r = "ctap_reset env d"
  note r = reset_facts[OF assms(1) core_crypto[OF assms(2)]]
  have f: "d_flash ?r = d_flash (ctap_flush_state env ?i)" by (simp add: ctap_reset_def split_beta Let_def ctap_reset_state_def)
  have sc: "d_sc ?r = d_sc d" "d_up_off ?r = d_up_off d"
    by (simp_all add: ctap_reset_def split_beta Let_def ctap_reset_state_def ctap_state_init_def ctap_generate_rng_def ctap_reset_key_agreement_def ctap_flush_state_def)
  have wf: "state_wf (d_st ?i)" by (simp add: state_init_fresh fresh_state_wf)
  have "same_counter (d_flash d) (d_flash ?i)" using reset_counter by (simp add: state_init_fresh)
  then have c: "same_counter (d_flash d) (d_flash ?r)" unfolding f by (rule same_counter_trans[OF _ flush_counter[OF assms(1) wf]])
  have "rk_counted ?r" using r by (simp add: rk_counted_def fresh_state_def valid_slots_def rk_blank_props)
  moreover have "gs_ok (d_ga ?r)" using r gs_zero_ok by simp
  ultimately show ?thesis using r counter_frame[OF c sc(1)] sc assms(2) by (simp add: quiet_def core_inv_def)
qed
subsection \<open>authenticatorCredentialManagement\<close>

lemma pin_quiet: "core_inv d \<Longrightarrow> pin_sim d d' \<Longrightarrow> dev_ok d' \<Longrightarrow> quiet d d'"
  using counter_frame[of d d'] by (simp add: pin_sim_def quiet_def core_inv_def rk_counted_def)

lemma decrement_ok:
  assumes "env_ok env" "dev_ok d"
  shows "dev_ok (snd (ctap_decrement_pin_attempts env d))"
proof -
  let ?d1 = "if sint (d_boot d) > 0 then d\<lparr>d_boot := d_boot d - 1\<rparr> else d"
  let ?d2 = "ctap_flush_state env (?d1\<lparr>d_st := (d_st ?d1)\<lparr>as_tries := as_tries (d_st ?d1) - 1\<rparr>\<rparr>)"
  have ok1: "dev_ok ?d1" using assms(2) by (simp add: dev_ok_def)
  have ok2: "dev_ok ?d2" by (rule dev_ok_flush[OF assms(1)]) (use assms(2) in \<open>simp_all add: dev_ok_def state_wf_def\<close>)
  have ok3: "dev_ok (lock_device_permanently env ?d2)" unfolding lock_device_permanently_def
    by (rule dev_ok_flush[OF assms(1)]) (use ok2 in \<open>simp_all add: dev_ok_def state_wf_def PIN_TOKEN_SIZE_def\<close>)
  have "snd (ctap_decrement_pin_attempts env d) = (if \<not> ctap_device_locked ?d1 then if ctap_device_locked ?d2 then lock_device_permanently env ?d2 else ?d2 else ?d1)"
    by (simp add: ctap_decrement_pin_attempts_def Let_def)
  then show ?thesis using ok1 ok2 ok3 by simp
qed

lemma decrement_quiet:
  assumes "env_ok env" "core_inv d"
  shows "quiet d (snd (ctap_decrement_pin_attempts env d))"
proof -
  have ok: "dev_ok d" "state_wf (d_st d)" using assms(2) by (simp_all add: core_inv_def dev_ok_def)
  show ?thesis by (rule pin_quiet[OF assms(2) decrement_sim[OF assms(1) ok(2)] decrement_ok[OF assms(1) ok(1)]])
qed

lemma attempts_quiet:
  assumes "env_ok env" "core_inv d"
  shows "quiet d (ctap_reset_pin_attempts env d)"
proof -
  have ok: "dev_ok d" "state_wf (d_st d)" using assms(2) by (simp_all add: core_inv_def dev_ok_def)
  show ?thesis using reset_attempts(1)[OF assms(1) ok(1)] pin_quiet[OF assms(2) reset_sim[OF assms(1) ok(2)]] by (simp add: restored_def)
qed

lemma cm_pinauth_quiet:
  assumes "env_ok env" "core_inv d"
  shows "quietly d (ctap_cred_mgmt_pinauth env CM d)"
proof (cases "cm_cmd CM \<in> {CM_cmdMetadata, CM_cmdRPBegin, CM_cmdRKBegin, CM_cmdRKDelete}")
  case True
  show ?thesis unfolding ctap_cred_mgmt_pinauth_def
  proof (simp only: True not_True_eq_False if_False, rule quietly_bind[OF quiet_refl[OF assms(2)] verify_ex_quiet])
    fix x d' assume q: "quiet d d'"
    note i = quietD(1)[OF q]
    show "quietly d (case (x, d') of (ret, d) \<Rightarrow>
        if ret = CTAP2_ERR_PIN_AUTH_INVALID then
          case ctap_decrement_pin_attempts env d of
            (_, d) \<Rightarrow> Inr (if ctap_device_boot_locked d then CTAP2_ERR_PIN_AUTH_BLOCKED else CTAP2_ERR_PIN_AUTH_INVALID, d)
        else Inr (ret, ctap_reset_pin_attempts env d))"
      using quiet_trans[OF q decrement_quiet[OF assms(1) i]] quiet_trans[OF q attempts_quiet[OF assms(1) i]]
      by (simp add: split_beta)
  qed
qed (use assms(2) in \<open>simp add: ctap_cred_mgmt_pinauth_def\<close>)

lemma derive_quiet:
  assumes "core_inv d" "crypto_ecc256_derive_public_key (env_lib env) data (d_cr d) = Some (p, cr)"
  shows "quiet d (d\<lparr>d_cr := cr\<rparr>)"
proof -
  obtain cr1 where 1: "generate_private_key (env_lib env) data [] (d_cr d) = Some (cred_key (env_lib env) (c_master (d_cr d)) data, cr1)" "cr_sim (d_cr d) cr1"
    using private_key_sim[OF core_crypto[OF assms(1)]] .
  have "cr = cr1" using assms(2) 1(1) by (auto simp: crypto_ecc256_derive_public_key_def Let_def split: if_splits option.splits)
  then show ?thesis using 1(2) cr_sim_ok by (intro cr_quiet[OF assms(1)]) blast
qed

lemma cred_rk_quiet:
  assumes "core_inv d"
  shows "quietly d (ctap_cred_rk env err i n d)"
proof (rule endsI, clarify)
  fix r d' assume a: "ctap_cred_rk env err i n d = Inr (r, d')"
  let ?rk = "ctap_load_rk (d_flash d) i rk_zero"
  obtain d1 where 1: "read_metadata_from_masked_credential (rk_id ?rk) d = Inr (metadata_of (c_transport (d_cr d)) (rk_id ?rk), d1)" "dev_sim d d1"
    using read_metadata_value[OF core_crypto[OF assms]] by blast
  note q = dev_quiet[OF assms 1(2)]
  show "quiet d d'"
    using a 1(1) q quiet_trans[OF q derive_quiet[OF quietD(1)[OF q]]]
    by (auto simp: ctap_cred_rk_def Let_def seqE_Inr halt_def simp del: emits.simps split: sum.splits option.splits)
qed

lemma delete_quiet:
  assumes "env_ok env" "core_inv d" "cid_ok (cr_id (cd_credential (cm_desc CM)))"
  shows "quiet d (snd (cm_delete env CM d))"
proof -
  have ok: "dev_ok d" "rk_counted d" "state_wf (d_st d)" "prog_ok (env_prog env)" using assms(1,2) by (simp_all add: core_inv_def dev_ok_def env_ok_def)
  let ?d1 = "\<lambda>i. d\<lparr>d_flash := ctap_delete_rk (env_prog env) i (d_flash d)\<rparr>"
  have c1: "same_counter (d_flash d) (d_flash (?d1 i))" for i
    using rk_put_counter[OF ok(4) length_rk_image[OF rk_blank_props(1)]] by (simp add: ctap_delete_rk_def ctap_overwrite_rk_def rk_blank_def)
  have c2: "same_counter (d_flash (?d1 i)) (d_flash (ctap_decrement_rk_store env (?d1 i)))" for i
    using flush_counter[OF assms(1), of "(?d1 i)\<lparr>d_st := (d_st d)\<lparr>as_rk_stored := as_rk_stored (d_st d) - 1\<rparr>\<rparr>"] ok(3)
    by (simp add: ctap_decrement_rk_store_def state_wf_def)
  have c: "same_counter (d_flash d) (d_flash (snd (cm_delete env CM d)))"
    using same_counter_trans[OF c1 c2] by (simp add: cm_delete_def Let_def)
  have f: "d_sc (snd (cm_delete env CM d)) = d_sc d" "d_ga (snd (cm_delete env CM d)) = d_ga d" "d_up_off (snd (cm_delete env CM d)) = d_up_off d"
    by (simp_all add: cm_delete_def ctap_decrement_rk_store_def ctap_flush_state_def Let_def)
  show ?thesis using delete_value[OF assms(1) ok(1,2) assms(3)] counter_frame[OF c f(1)] f assms(2)
    by (auto simp: quiet_def core_inv_def)
qed
lemma switch_quiet:
  assumes "env_ok env" "core_inv d" "cid_ok (cr_id (cd_credential (cm_desc CM)))"
  shows "quietly d (cm_switch env err CM n m d)"
proof -
  have 1: "quietly d (cm_rp_answer err n d)"
    using assms(2) cursor_quiet by (auto simp: cm_rp_answer_def Let_def simp del: emits.simps split: sum.split)
  have 2: "quietly d (cm_rk_answer env err m d)"
  proof (cases "cs_rk_ind (d_cm d) < 0 \<or> \<not> cs_rk_auth (d_cm d)")
    case False
    show ?thesis unfolding cm_rk_answer_def Let_def if_not_P[OF False]
    proof (rule quietly_bind[OF quiet_refl[OF assms(2)] cred_rk_quiet])
      fix x d' assume q: "quiet d d'"
      show "quietly d (case (x, d') of (r, d') \<Rightarrow> case r of Inl e \<Rightarrow> Inr (Inl e, d')
        | Inr tr \<Rightarrow> Inr (Inr tr, set_cursor ((d_cm d)\<lparr>cs_rk_ind := scan_for_next_rk (d_flash d') (cs_rk_ind (d_cm d)) None\<rparr>) d'))"
        using q quiet_trans[OF q cursor_quiet[OF quietD(1)[OF q]]] by (simp split: sum.split)
    qed
  qed (use assms(2) cursor_quiet in \<open>simp add: cm_rk_answer_def Let_def\<close>)
  have 3: "quiet d d'" if "cm_delete env CM d = (r, d')" for r d'
    using delete_quiet[OF assms] that by simp
  show ?thesis using 1 2 3 assms(2) by (auto simp: cm_switch_def ends_def)
qed

lemma cred_mgmt_quiet:
  assumes "cbor_ok cb" "env_ok env" "core_inv d"
  shows "quietly d (ctap_cred_mgmt cb env err request d)"
proof -
  obtain ret CM custom csize where p: "ctap_parse_cred_mgmt cb request (gs_customCredId (d_ga d), gs_customCredIdSize (d_ga d)) = (ret, CM, custom, csize)"
    by (metis prod_cases4)
  have "length (gs_customCredId (d_ga d)) = 256" using assms(3) by (simp add: core_inv_def gs_ok_def)
  then have "cms_ok (CM, custom, csize)" using parse_cm_ok[OF assms(1), of "(gs_customCredId (d_ga d), gs_customCredIdSize (d_ga d))" request] p by simp
  then have ok: "cid_ok (cr_id (cd_credential (cm_desc CM)))" "length custom = 256" by (simp_all add: cms_ok_def cm_ok_def desc_ok_def)
  note q0 = custom_quiet[OF assms(3) ok(2), of csize]
  show ?thesis
  proof (cases "ret = 0")
    case True
    show ?thesis unfolding ctap_cred_mgmt_def p prod.case Let_def True
    proof (simp only: simp_thms if_False, rule quietly_bind[OF q0 cm_pinauth_quiet[OF assms(2)]])
      fix x d' assume q: "quiet d d'"
      show "quietly d (case (x, d') of (ret, d) \<Rightarrow> if ret \<noteq> 0 then Inr (Inl ret, d)
         else if as_rk_stored (d_st d) = 0 \<and> cm_cmd CM \<noteq> CM_cmdMetadata then Inr (Inr [], d)
         else case cm_begin CM d of (rp_count, rk_count, cs) \<Rightarrow> cm_switch env err CM rp_count rk_count (set_cursor cs d))"
        using q cursor_quiet[OF quietD(1)[OF q]] ends_mono[OF switch_quiet[OF assms(2) quietD(1)[OF cursor_quiet[OF quietD(1)[OF q]]] ok(1)]]
          quiet_trans[OF quiet_trans[OF q cursor_quiet[OF quietD(1)[OF q]]]]
        by (fastforce split: prod.split)
    qed
  qed (use p q0 in \<open>simp add: ctap_cred_mgmt_def\<close>)
qed
subsection \<open>authenticatorMakeCredential\<close>

lemma update_later:
  assumes "env_ok env" "core_inv d" "counter_floor (d_flash d) < 2 ^ 31"
  shows "ends (\<lambda>(w, h', d'). later d d' \<and> w \<noteq> 0 \<and> w \<noteq> 0xffffffff \<and> h' = h\<lparr>ah_signCount := u32_be_bytes w\<rparr>) (auth_data_update_count env h d)"
proof -
  have c: "counter_inv d" using assms(2) by (simp add: core_inv_def)
  obtain w d' where 1: "auth_data_update_count env h d = Inr (w, h\<lparr>ah_signCount := u32_be_bytes w\<rparr>, d')" "count_sim d d'"
    "w \<noteq> 0" "w \<noteq> 0xffffffff" "counter_inv d'" "counter_floor (d_flash d) < unat w" "counter_floor (d_flash d') = unat w"
    by (rule update_count_live[OF assms(1) c core_crypto[OF assms(2)] assms(3), of h]) auto
  show ?thesis using 1 count_later[OF assms(2) 1(2)] by simp
qed

lemma cose_quiet:
  assumes "core_inv d" "ctap_generate_cose_key (env_lib env) err data ty alg tr (d_cr d) = Some (k, cr)"
  shows "quiet d (d\<lparr>d_cr := cr\<rparr>)"
  using assms derive_quiet[OF assms(1)] by (auto simp: ctap_generate_cose_key_def split: if_splits option.splits)

text \<open>What the parser leaves of a request that the command relies on.\<close>

definition info_ok :: "rp_id \<Rightarrow> cred_info \<Rightarrow> bool" where
  "info_ok rp ci \<longleftrightarrow> user_ok (in_user ci) \<and> length (rp_id rp) = 254"

lemma attested_quiet:
  assumes "env_ok env" "core_inv d" "ah_rpIdHash head = sha256 (take (rp_size rp) (rp_id rp))" "info_ok rp ci" "count \<noteq> 0" "count \<noteq> 0xffffffff"
  shows "ends (\<lambda>(_, _, _, d'). quiet d d') (attested_data env rp len head count ci protect d)"
proof -
  obtain c d1 where m: "make_credential_id env head count protect d = Inr (c, d1)" "count_sim d d1"
    "made_for (c_transport (d_cr d)) rp c" "ci_count c = count" "d_flash d1 = d_flash d" "d_sc d1 = d_sc d"
    using make_id_value[OF core_crypto[OF assms(2)] assms(3), of env count protect] by metis
  note q1 = count_quiet[OF assms(2) m(2,5,6)]
  let ?rk = "rk_of_request rp (in_user ci) c"
  have u: "user_ok (in_user ci)" "length (rp_id rp) = 254" "cid_ok c" using assms(4) m(3) by (simp_all add: info_ok_def made_for_def)
  note rk = rk_request_ok[OF u(1,3,2)]
  have v: "ctap_rk_is_valid ?rk" using m(4) assms(5,6) by (simp add: ctap_rk_is_valid_def rk(2) word_gt_0)
  define q where "q = (if in_rk ci \<noteq> 0 then store_resident env ?rk d1 else (0, d1))"
  have q2: "quiet d (snd q)"
    using quiet_trans[OF q1 store_quiet[OF assms(1) quietD(1)[OF q1] rk(1) v]] q1 by (simp add: q_def)
  have "attested_data env rp len head count ci protect d = (case q of (r, d) \<Rightarrow> if r \<noteq> 0 then Inr (r, c, [], d)
     else seqE (halt d (ctap_generate_cose_key (env_lib env) (env_enc_err env (len - 125)) (cid_image c) (uint (in_type ci)) (in_alg ci) [] (d_cr d)))
         (\<lambda>(k, cr). Inr (0, c, (case k of Inl _ \<Rightarrow> [] | Inr tr \<Rightarrow> env_enc env tr), d\<lparr>d_cr := cr\<rparr>)))"
    by (simp add: attested_data_def m(1) q_def)
  then show ?thesis
    using q2 quiet_trans[OF q2 cose_quiet[OF quietD(1)[OF q2]]]
    by (auto simp: ends_def split_beta seqE_Inr halt_def split: option.splits if_splits)
qed

lemma auth_data_later:
  assumes "env_ok env" "core_inv d" "counter_floor (d_flash d) < 2 ^ 31" "\<And>ci. ci0 = Some ci \<Longrightarrow> info_ok rp ci"
  shows "ends (\<lambda>(_, _, _, d'). later d d') (ctap_make_auth_data env ps rp len head ci0 protect d)"
proof (rule endsI, clarify)
  fix r h att d' assume a: "ctap_make_auth_data env ps rp len head ci0 protect d = Inr (r, h, att, d')"
  obtain d1 where 1: "dev_sha [take (rp_size rp) (rp_id rp)] d = (sha256 (take (rp_size rp) (rp_id rp)), d1)" "dev_sim d d1"
    using dev_sha_value[OF core_crypto[OF assms(2)], of "[take (rp_size rp) (rp_id rp)]"] by auto
  note q1 = dev_quiet[OF assms(2) 1(2)]
  have fl: "counter_floor (d_flash d1) < 2 ^ 31" using q1 assms(3) by (simp add: quiet_def)
  let ?h = "head\<lparr>ah_rpIdHash := sha256 (take (rp_size rp) (rp_id rp))\<rparr>"
  obtain w h2 d2 where 2: "auth_data_update_count env ?h d1 = Inr (w, h2, d2)"
    using a 1(1) by (auto simp: ctap_make_auth_data_def seqE_Inr split: if_splits)
  from endsD[OF update_later[OF assms(1) quietD(1)[OF q1] fl] 2]
  have u: "later d1 d2" "w \<noteq> 0" "w \<noteq> 0xffffffff" "h2 = ?h\<lparr>ah_signCount := u32_be_bytes w\<rparr>" by simp_all
  note l2 = later_trans[OF quiet_later[OF q1] u(1)]
  have att: "later d d3" if "attested_data env rp len h3 w ci protect d2 = Inr (r3, c, cose, d3)" "ci0 = Some ci"
    "ah_rpIdHash h3 = sha256 (take (rp_size rp) (rp_id rp))" for h3 ci r3 c cose d3
    using endsD[OF attested_quiet[OF assms(1) quietD(2)[OF u(1)] that(3) assms(4)[OF that(2)] u(2,3)] that(1)] later_trans[OF l2 quiet_later] by simp
  show "later d d'" using a 1(1) 2 l2 att
    by (auto simp: ctap_make_auth_data_def seqE_Inr Let_def u(4) split: if_splits option.splits)
qed

lemma respond_later:
  assumes "env_ok env" "core_inv d" "counter_floor (d_flash d) < 2 ^ 31" "info_ok (mc_rp MC) (mc_credInfo MC)"
  shows "ends (\<lambda>(_, d'). later d d') (mc_respond env ps err MC d)"
proof (rule endsI, clarify)
  fix r d' assume a: "mc_respond env ps err MC d = Inr (r, d')"
  let ?hd = "\<lparr>ah_rpIdHash = zeros 32, ah_flags = 0, ah_signCount = zeros 4\<rparr>"
  let ?e1 = "emits err [EMap 3, EInt 1, EText ''packed''] []"
  show "later d d'"
  proof (cases ?e1)
    case (Inl e)
    then show ?thesis using a assms(2) quiet_later by (simp add: mc_respond_def)
  next
    case (Inr tr)
    obtain ret head att d1 where 1: "ctap_make_auth_data env ps (mc_rp MC) 310 ?hd (Some (mc_credInfo MC)) (ex_cred_protect (mc_extensions MC)) d
        = Inr (ret, head, att, d1)" using a Inr by (auto simp: mc_respond_def seqE_Inr simp del: emits.simps)
    have l1: "later d d1" using endsD[OF auth_data_later[OF assms(1-3)] 1] assms(4) by auto
    show ?thesis
    proof (cases "ret = 0")
      case False
      then show ?thesis using a Inr 1 l1 by (simp add: mc_respond_def del: emits.simps)
    next
      case True
      let ?n = "310 - length (auth_data_image env head att)"
      obtain x d2 where 2: "ctap_make_extensions env (mc_extensions MC) ?n d1 = Inr (x, d2)"
        using a Inr 1 True by (auto simp: mc_respond_def seqE_Inr Let_def simp del: emits.simps)
      have l2: "later d d2" using endsD[OF extensions_quiet[OF quietD(2)[OF l1]] 2] later_trans[OF l1 quiet_later] by simp
      have k: "crypto_ok (crypto_ecc256_load_attestation_key key (d_cr d2))" for key
        using core_crypto[OF quietD(2)[OF l2]] by (simp add: crypto_ecc256_load_attestation_key_def crypto_ok_def)
      note l3 = later_trans[OF l2 quiet_later[OF cr_quiet[OF quietD(2)[OF l2] k]]]
      have "later d d4" if "ctap_calculate_signature env data cdh (d2\<lparr>d_cr := crypto_ecc256_load_attestation_key key (d_cr d2)\<rparr>) = Inr (h, sd, d4)"
        for data cdh key h sd d4
        using endsD[OF signature_quiet[OF quietD(2)[OF l3]] that] later_trans[OF l3 quiet_later] by simp
      then show ?thesis using a Inr 1 True 2 l2
        by (cases x) (auto simp: mc_respond_def seqE_Inr Let_def simp del: emits.simps split: sum.splits)
    qed
  qed
qed
lemma mc_checks_quiet: "core_inv d \<Longrightarrow> quietly d (mc_checks ps MC d)"
  unfolding mc_checks_def Let_def
  using verify_quiet[of d] by (auto simp: ends_def seqE_Inr split: if_splits)

lemma exclude_quiet:
  assumes "cbor_ok cb"
  shows "core_inv d \<Longrightarrow> desc_ok cred \<Longrightarrow> quietly d (exclude_loop cb ps MC n v cred d)"
proof (induction n arbitrary: v cred d)
  case (Suc n)
  obtain ret cred1 custom csize where p: "parse_credential_descriptor cb v (cred, gs_customCredId (d_ga d), gs_customCredIdSize (d_ga d))
      = (ret, (cred1, custom, csize))" by (metis prod_cases4)
  have "length (gs_customCredId (d_ga d)) = 256" using Suc(2) by (simp add: core_inv_def gs_ok_def)
  then have c: "desc_ok cred1" "length custom = 256"
    using parse_desc_ok[OF assms Suc(3), of "gs_customCredId (d_ga d)" v "gs_customCredIdSize (d_ga d)"] p by simp_all
  let ?d = "set_custom custom csize d"
  note q1 = custom_quiet[OF Suc(2) c(2), of csize]
  have IH: "quietly d (exclude_loop cb ps MC n v cred1 d2)" if "quiet d d2" for v d2
    using ends_mono[OF Suc(1)[OF quietD(1)[OF that] c(1)]] quiet_trans[OF that] by fastforce
  show ?case
  proof (cases "ret = CTAP2_ERR_CBOR_UNEXPECTED_TYPE \<or> ret \<noteq> 0")
    case True
    then show ?thesis using p q1 IH[OF q1] by (auto simp: Let_def)
  next
    case False
    have tail: "quietly d (if ours \<and> code = 0 then
          let ret = ctap2_user_presence_test 1 ps d3 in Inr (if ret \<noteq> 0 then ret else CTAP2_ERR_CREDENTIAL_EXCLUDED, d3)
        else case cb_advance cb v of (ret, v) \<Rightarrow> if ret \<noteq> 0 then Inr (ERR_PARSING, d3) else exclude_loop cb ps MC n v cred1 d3)"
      if "quiet d d3" for ours code d3
      using that IH[OF that] by (simp add: Let_def split: prod.split)
    have "quietly d (seqE (ctap_authenticate_credential (mc_rp MC) cred1 ?d) (\<lambda>(ours, d).
        seqE (if ours then check_credential_metadata (cr_id (cd_credential cred1)) (mc_pinAuthPresent MC \<noteq> 0) True d else Inr (1, d)) (\<lambda>(code, d).
        if ours \<and> code = 0 then
          let ret = ctap2_user_presence_test 1 ps d in Inr (if ret \<noteq> 0 then ret else CTAP2_ERR_CREDENTIAL_EXCLUDED, d)
        else case cb_advance cb v of (ret, v) \<Rightarrow> if ret \<noteq> 0 then Inr (ERR_PARSING, d) else exclude_loop cb ps MC n v cred1 d)))"
    proof (rule quietly_bind[OF q1 authenticate_quiet], unfold split_conv)
      fix ours d2 assume q2: "quiet d d2"
      show "quietly d (seqE (if ours then check_credential_metadata (cr_id (cd_credential cred1)) (mc_pinAuthPresent MC \<noteq> 0) True d2 else Inr (1, d2)) (\<lambda>(code, d).
        if ours \<and> code = 0 then
          let ret = ctap2_user_presence_test 1 ps d in Inr (if ret \<noteq> 0 then ret else CTAP2_ERR_CREDENTIAL_EXCLUDED, d)
        else case cb_advance cb v of (ret, v) \<Rightarrow> if ret \<noteq> 0 then Inr (ERR_PARSING, d) else exclude_loop cb ps MC n v cred1 d))"
        by (rule quietly_bind[OF q2]) (simp add: check_quiet, unfold split_conv, rule tail)
    qed
    then show ?thesis using p False by (simp add: Let_def)
  qed
qed simp

lemma zero_desc_ok: "desc_ok cred_desc_zero"
  by (simp add: desc_ok_def cred_desc_zero_def zero_ok)

lemma mc_exclude_quiet: "cbor_ok cb \<Longrightarrow> core_inv d \<Longrightarrow> quietly d (mc_exclude cb env ps MC d)"
  by (auto simp: mc_exclude_def intro!: exclude_quiet zero_desc_ok split: option.split)

lemma make_credential_later:
  assumes "cbor_ok cb" "env_ok env" "core_inv d" "counter_floor (d_flash d) < 2 ^ 31"
  shows "ends (\<lambda>(_, d'). later d d') (ctap_make_credential cb env ps err request d)"
proof -
  obtain ret MC custom csize where p: "ctap_parse_make_credential cb request (gs_customCredId (d_ga d), gs_customCredIdSize (d_ga d)) = (ret, (MC, custom, csize))"
    by (metis prod_cases4)
  have "length (gs_customCredId (d_ga d)) = 256" using assms(3) by (simp add: core_inv_def gs_ok_def)
  then have "mcs_ok (MC, custom, csize)" using parse_mc_ok[OF assms(1), of "(gs_customCredId (d_ga d), gs_customCredIdSize (d_ga d))" request] p by simp
  then have ok: "info_ok (mc_rp MC) (mc_credInfo MC)" "length custom = 256"
    by (simp_all add: mcs_ok_def mc_ok_def get_user_def rp_ok_def info_ok_def)
  note q0 = custom_quiet[OF assms(3) ok(2), of csize]
  let ?P = "\<lambda>(_, d'). later d d'"
  have respond: "ends ?P (mc_respond env ps err MC d2)" if "quiet d d2" for d2
  proof -
    have "counter_floor (d_flash d2) < 2 ^ 31" using that assms(4) by (simp add: quiet_def)
    from ends_mono[OF respond_later[OF assms(2) quietD(1)[OF that] this ok(1)]] later_trans[OF quiet_later[OF that]] show ?thesis by fastforce
  qed
  show ?thesis
  proof (cases "ret = 0")
    case True
    show ?thesis unfolding ctap_make_credential_def p prod.case Let_def True
    proof (simp only: simp_thms if_False, rule quietly_bind[OF q0 mc_checks_quiet], unfold split_conv)
      fix x d1 assume q1: "quiet d d1"
      have "ends ?P (seqE (mc_exclude cb env ps MC d1) (\<lambda>(ret, d). if ret \<noteq> 0 then Inr (Inl ret, d) else mc_respond env ps err MC d))"
        by (rule quietly_bind[OF q1 mc_exclude_quiet[OF assms(1)]]) (use respond quiet_later in auto)
      then show "ends ?P (if x \<noteq> 0 then Inr (Inl x, d1)
          else seqE (mc_exclude cb env ps MC d1) (\<lambda>(ret, d). if ret \<noteq> 0 then Inr (Inl ret, d) else mc_respond env ps err MC d))"
        using quiet_later[OF q1] by simp
    qed
  qed (use p quiet_later[OF q0] in \<open>simp add: ctap_make_credential_def\<close>)
qed
subsection \<open>The list of credentials\<close>

lemma load_rk_ok: "rk_ok rk \<Longrightarrow> rk_ok (ctap_load_rk f i rk)"
  by (simp add: ctap_load_rk_def rk_of_image_def rk_ok_def cid_of_image_ok user_of_image_def user_ok_def RK_SIZE_def block_def)

lemma load_nth_ok: "rk_ok rk \<Longrightarrow> rk_ok (snd (load_nth_from f k i v n rk))"
  by (induction f k i v n rk rule: load_nth_from.induct) (simp_all add: Let_def load_rk_ok)

lemma rk_zero_ok: "rk_ok rk_zero"
  by (simp add: rk_ok_def rk_zero_def)

lemma find_user_ok: "rk_ok rk \<Longrightarrow> find_user f c rk is = Some u \<Longrightarrow> user_ok u"
proof (induction "is" arbitrary: rk)
  case (Cons i "is")
  have "rk_ok (snd (load_nth_valid_rk f i rk))" using load_nth_ok[OF Cons(2)] by (simp add: load_nth_valid_rk_def)
  then show ?case using Cons(1,3) by (auto simp: rk_ok_def split_beta split: if_splits)
qed simp

lemma desc_ok_steps:
  "desc_ok c \<Longrightarrow> desc_ok (invalidate c)" "desc_ok c \<Longrightarrow> desc_ok (add_existing_user_info d c)" "rk_ok rk \<Longrightarrow> desc_ok (rk_desc rk)"
  using find_user_ok[OF rk_zero_ok]
  by (auto simp: desc_ok_def invalidate_def cid_ok_def add_existing_user_info_def set_cred_user_def rk_desc_def rk_ok_def split: option.split)

lemma set_cred_quiet: "core_inv d \<Longrightarrow> desc_ok c \<Longrightarrow> quiet d (set_cred i c d)"
  unfolding set_cred_def by (rule ga_quiet) (auto simp: core_inv_def gs_ok_def dest: set_update_subset_insert[THEN subsetD])

lemma gs_desc: "core_inv d \<Longrightarrow> i < 20 \<Longrightarrow> desc_ok (gs_creds (d_ga d) ! i)"
  by (simp add: core_inv_def gs_ok_def ALLOW_LIST_MAX_SIZE_def)

lemma filter_listed_quiet: "core_inv d \<Longrightarrow> set is \<subseteq> {..<20} \<Longrightarrow> quietly d (filter_listed rp is count d)"
proof (induction "is" arbitrary: count d)
  case (Cons i "is")
  let ?desc = "gs_creds (d_ga d) ! i"
  have desc: "desc_ok ?desc" using gs_desc[OF Cons(2)] Cons(3) by simp
  have IH: "quietly d (filter_listed rp is count d2)" if "quiet d d2" for count d2
    using ends_mono[OF Cons(1)[OF quietD(1)[OF that]]] quiet_trans[OF that] Cons(3) by fastforce
  have inv: "quietly d (filter_listed rp is count (set_cred i c d2))" if "quiet d d2" "desc_ok c" for c d2 count
    by (rule IH[OF quiet_trans[OF that(1) set_cred_quiet[OF quietD(1)[OF that(1)] that(2)]]])
  show ?case unfolding filter_listed.simps Let_def
  proof (rule quietly_bind[OF quiet_refl[OF Cons(2)] authenticate_quiet], unfold split_conv)
    fix ours d1 assume q1: "quiet d d1"
    have ok: "quietly d (seqE (check_credential_metadata (cr_id (cd_credential ?desc)) (gs_user_verified (d_ga d1) \<noteq> 0) True d1) (\<lambda>(status, d).
        if status \<noteq> 0 then filter_listed rp is count (set_cred i (invalidate ?desc) d)
        else filter_listed rp is (count + 1) (set_cred i (add_existing_user_info d ?desc) d)))"
      by (rule quietly_bind[OF q1]) (simp add: check_quiet, unfold split_conv, use inv desc_ok_steps(1,2)[OF desc] in simp)
    show "quietly d (if \<not> ours then
        if is_extension_request (cid_image (cr_id (cd_credential ?desc))) 70 then filter_listed rp is (count + 1) d1
        else filter_listed rp is count (set_cred i (invalidate ?desc) d1)
      else seqE (check_credential_metadata (cr_id (cd_credential ?desc)) (gs_user_verified (d_ga d1) \<noteq> 0) True d1) (\<lambda>(status, d).
        if status \<noteq> 0 then filter_listed rp is count (set_cred i (invalidate ?desc) d)
        else filter_listed rp is (count + 1) (set_cred i (add_existing_user_info d ?desc) d)))"
      using ok IH[OF q1] inv[OF q1 desc_ok_steps(1)[OF desc]] by simp
  qed
qed simp

lemma filter_resident_quiet: "core_inv d \<Longrightarrow> rk_ok rk \<Longrightarrow> count \<le> 20 \<Longrightarrow>
   ends (\<lambda>(n, d'). quiet d d' \<and> n \<le> 20) (filter_resident h is rk count d)"
proof (induction "is" arbitrary: rk count d)
  case (Cons i "is")
  let ?rk = "ctap_load_rk (d_flash d) i rk" and ?P = "\<lambda>(n, d'). quiet d d' \<and> n \<le> 20"
  have rk: "rk_ok ?rk" by (rule load_rk_ok[OF Cons(3)])
  have IH: "ends ?P (filter_resident h is ?rk n d2)" if "quiet d d2" "n \<le> 20" for n d2
    using ends_mono[OF Cons(1)[OF quietD(1)[OF that(1)] rk that(2)]] quiet_trans[OF that(1)] by fastforce
  have "ends ?P (seqE (check_credential_metadata (rk_id ?rk) (gs_user_verified (d_ga d) \<noteq> 0) False d) (\<lambda>(status, d).
        if status \<noteq> 0 \<or> ci_rpIdHash (rk_id ?rk) \<noteq> h then filter_resident h is ?rk count d
        else if count \<ge> ALLOW_LIST_MAX_SIZE then Inr (count, d)
        else filter_resident h is ?rk (count + 1) (set_cred count (rk_desc ?rk) d)))"
  proof (rule quietly_bind[OF quiet_refl[OF Cons(2)] check_quiet], unfold split_conv)
    fix st d1 assume q1: "quiet d d1"
    note q2 = quiet_trans[OF q1 set_cred_quiet[OF quietD(1)[OF q1] desc_ok_steps(3)[OF rk]]]
    show "ends ?P (if st \<noteq> 0 \<or> ci_rpIdHash (rk_id ?rk) \<noteq> h then filter_resident h is ?rk count d1
        else if count \<ge> ALLOW_LIST_MAX_SIZE then Inr (count, d1)
        else filter_resident h is ?rk (count + 1) (set_cred count (rk_desc ?rk) d1))"
      using q1 IH[OF q1 Cons(4)] IH[OF q2, of "count + 1"] Cons(4) by (simp add: ALLOW_LIST_MAX_SIZE_def)
  qed
  then show ?case using IH[OF quiet_refl[OF Cons(2)] Cons(4)] by (simp add: Let_def)
qed simp

lemma qsort_props:
  assumes "qsort_ok q"
  shows "set (q cmp xs) = set xs" "length (q cmp xs) = length xs"
proof -
  have c: "count_list (q cmp xs) x = count_list xs x" for x using assms by (simp add: qsort_ok_def)
  show s: "set (q cmp xs) = set xs" by (rule count_list_set[OF c])
  show "length (q cmp xs) = length xs"
    using sum_count_set[of "q cmp xs" "set xs"] sum_count_set[of xs "set xs"] s c by simp
qed
lemma filter_quiet:
  assumes "qsort_ok (env_qsort env)" "core_inv d" "ga_ok GA"
  shows "ends (\<lambda>(_, GA', d'). quiet d d' \<and> ga_ok GA' \<and> ga_extensions GA' = ga_extensions GA) (ctap_filter_invalid_credentials env GA d)"
proof -
  let ?P = "\<lambda>(_ :: nat, GA', d'). quiet d d' \<and> ga_ok GA' \<and> ga_extensions GA' = ga_extensions GA"
  have sort: "?P (count, G, d2\<lparr>d_ga := (d_ga d2)\<lparr>gs_creds := env_qsort env cred_cmp_func (take (nat (ga_credLen G)) (gs_creds (d_ga d2))) @ drop (nat (ga_credLen G)) (gs_creds (d_ga d2))\<rparr>\<rparr>)"
    if "quiet d d2" "ga_ok G" "ga_extensions G = ga_extensions GA" for count G d2
  proof -
    have g: "length (gs_creds (d_ga d2)) = 20" "\<forall>c\<in>set (gs_creds (d_ga d2)). desc_ok c" "gs_ok (d_ga d2)"
      using quietD(1)[OF that(1)] by (simp_all add: core_inv_def gs_ok_def ALLOW_LIST_MAX_SIZE_def)
    have s: "set (env_qsort env cred_cmp_func (take (nat (ga_credLen G)) (gs_creds (d_ga d2))) @ drop (nat (ga_credLen G)) (gs_creds (d_ga d2))) \<subseteq> set (gs_creds (d_ga d2))"
      using set_take_subset[of "nat (ga_credLen G)" "gs_creds (d_ga d2)"] set_drop_subset[of "nat (ga_credLen G)" "gs_creds (d_ga d2)"] by (auto simp: qsort_props[OF assms(1)])
    have "gs_ok ((d_ga d2)\<lparr>gs_creds := env_qsort env cred_cmp_func (take (nat (ga_credLen G)) (gs_creds (d_ga d2))) @ drop (nat (ga_credLen G)) (gs_creds (d_ga d2))\<rparr>)"
      using g s by (auto simp: gs_ok_def qsort_props[OF assms(1)] ALLOW_LIST_MAX_SIZE_def)
    then show ?thesis using quiet_trans[OF that(1) ga_quiet[OF quietD(1)[OF that(1)]]] that(2,3) by simp
  qed
  show ?thesis
  proof (cases "ga_credLen GA = 0")
    case True
    obtain h d1 where 1: "dev_sha [take (rp_size (ga_rp GA)) (rp_id (ga_rp GA))] d = (h, d1)" by fastforce
    have q1: "quiet d d1" using sha_quiet[OF assms(2), of "[take (rp_size (ga_rp GA)) (rp_id (ga_rp GA))]"] 1 by simp
    have "ends ?P (seqE (filter_resident h [0..<ctap_rk_size] rk_zero 0 d1) (\<lambda>(count, d). Inr (count, GA\<lparr>ga_credLen := int count\<rparr>,
        d\<lparr>d_ga := (d_ga d)\<lparr>gs_creds := env_qsort env cred_cmp_func (take count (gs_creds (d_ga d))) @ drop count (gs_creds (d_ga d))\<rparr>\<rparr>)))"
    proof (rule ends_bind[OF filter_resident_quiet[OF quietD(1)[OF q1] rk_zero_ok]], simp, clarsimp)
      fix n :: nat and d2 assume a: "quiet d1 d2" "n \<le> 20"
      have g: "ga_ok (GA\<lparr>ga_credLen := int n\<rparr>)" using assms(3) a(2) by (simp add: ga_ok_def ALLOW_LIST_MAX_SIZE_def)
      show "quiet d (d2\<lparr>d_ga := (d_ga d2)\<lparr>gs_creds := env_qsort env cred_cmp_func (take n (gs_creds (d_ga d2))) @ drop n (gs_creds (d_ga d2))\<rparr>\<rparr>)
          \<and> ga_ok (GA\<lparr>ga_credLen := int n\<rparr>)"
        using sort[OF quiet_trans[OF q1 a(1)] g] g by simp
    qed
    then show ?thesis using True 1
      by (cases "filter_resident h [0..<ctap_rk_size] rk_zero 0 d1")
        (simp_all add: ctap_filter_invalid_credentials_def Let_def split_beta del: upt.simps)
  next
    case False
    have c: "set [0..<nat (ga_credLen GA)] \<subseteq> {..<20}" using assms(3) by (auto simp: ga_ok_def ALLOW_LIST_MAX_SIZE_def)
    show ?thesis unfolding ctap_filter_invalid_credentials_def if_not_P[OF False]
      by (rule quietly_bind[OF quiet_refl[OF assms(2)] filter_listed_quiet[OF _ c]])
        (use sort assms(3) in \<open>simp_all add: Let_def\<close>)
  qed
qed

lemma clear_name_quiet: "core_inv d \<Longrightarrow> i < 20 \<Longrightarrow> quiet d (clear_name i d)"
  unfolding clear_name_def Let_def
  by (rule set_cred_quiet) (use gs_desc[of d i] in \<open>simp_all add: desc_ok_def set_cred_user_def user_ok_def zeros_def\<close>)

lemma set_head_quiet: "core_inv d \<Longrightarrow> quiet d (set_head h d)"
  unfolding set_head_def by (rule ga_quiet) (simp_all add: core_inv_def gs_ok_def)

lemma bufs_quiet: "core_inv d \<Longrightarrow> quiet d (d\<lparr>d_ga := (d_ga d)\<lparr>gs_head := h, gs_extbuf := b\<rparr>\<rparr>)"
  by (rule ga_quiet) (simp_all add: core_inv_def gs_ok_def)

subsection \<open>authenticatorGetAssertion\<close>

lemma bridge_quiet: "core_inv d \<Longrightarrow> ends (\<lambda>(_, _, d'). quiet d d') (bridge_u2f_to_solo env ps src out keyh d)"
  using rng_quiet[of d env 71] by (auto simp: bridge_u2f_to_solo_def Let_def split_beta ends_def split: if_splits)

lemma ga_signature_quiet: "core_inv d \<Longrightarrow> ends (\<lambda>(_, _, d'). quiet d d') (ga_signature env ps c auth cdh d)"
proof (rule endsI, clarify)
  fix n sg d' assume a: "core_inv d" "ga_signature env ps c auth cdh d = Inr (n, sg, d')"
  obtain ext sd d1 where 1: "extend_fido2 env ps (cid_image c) (take 72 (env_stack env)) d = Inr (ext, sd, d1)"
    using a(2) by (auto simp: ga_signature_def seqE_Inr)
  have q1: "quiet d d1" using endsD[OF bridge_quiet[OF a(1)]] 1 a(1) by (auto simp: extend_fido2_def seqE_Inr split: if_splits)
  have s: "quiet d (set_head h d2)" if "ctap_calculate_signature env auth cdh d1 = Inr (hs, sd2, d2)" for h hs sd2 d2
    using endsD[OF signature_quiet[OF quietD(1)[OF q1]] that] quiet_trans[OF q1] set_head_quiet quietD(1) quiet_trans by fastforce
  show "quiet d d'" using a(2) 1 q1 s by (auto simp: ga_signature_def seqE_Inr Let_def split: if_splits)
qed

lemma end_quiet: "core_inv d \<Longrightarrow> quietly d (ctap_end_get_assertion env ps err i sz cdh tr d)"
proof (rule endsI, clarify)
  fix r d' assume a: "core_inv d" "ctap_end_get_assertion env ps err i sz cdh tr d = Inr (r, d')"
  let ?desc = "gs_creds (d_ga d) ! i" and ?auth = "take sz (ga_buf (d_ga d))"
  let ?c = "cd_credential ?desc"
  define m where "m = seqE (emits err [EInt 1] tr) (\<lambda>tr. seqE (ctap_add_credential_descriptor err ?c (cd_type ?desc) d tr) (emits err [EInt 2, EBytes ?auth]))"
  note e = a(2)[unfolded ctap_end_get_assertion_def Let_def, folded m_def]
  show "quiet d d'"
  proof (cases m)
    case (Inl x)
    then show ?thesis using e a(1) by simp
  next
    case (Inr tr1)
    note f = e[unfolded Inr sum.case]
    obtain d1 where 1: "dev_load_key env (take (get_credential_id_size (cd_type ?desc) d) (cred_mem ?c)) d = Inr d1"
      using f by (auto simp: seqE_Inr)
    obtain n sg d2 where 2: "ga_signature env ps (cr_id ?c) ?auth cdh d1 = Inr (n, sg, d2)" using f 1 by (auto simp: seqE_Inr)
    have "d' = d2" using f 1 2 by (auto simp del: emits.simps split: sum.splits)
    then show ?thesis
      using endsD[OF load_key_quiet[OF a(1)] 1] endsD[OF ga_signature_quiet 2] quiet_trans quietD(1) by fastforce
  qed
qed
lemma next_extensions_quiet: "core_inv d \<Longrightarrow> quietly d (next_extensions env d)"
  unfolding next_extensions_def
  by (rule quietly_bind[OF quiet_refl extensions_quiet], assumption, assumption)
    (use quiet_trans[OF _ bufs_quiet[OF quietD(1)]] in \<open>auto simp: Let_def split: sum.split\<close>)

lemma pop_quiet:
  assumes "core_inv d" "pop_credential d = (r, d')"
  shows "quiet d d' \<and> (\<forall>i. r = Some i \<longrightarrow> i < 20)"
proof -
  have c: "unat (gs_count (d_ga d)) < 20" using assms(1) by (simp add: core_inv_def gs_ok_def ALLOW_LIST_MAX_SIZE_def)
  have g: "gs_ok ((d_ga d)\<lparr>gs_index := x\<rparr>)" for x using assms(1) by (simp add: core_inv_def gs_ok_def)
  show ?thesis using assms c ga_quiet[OF assms(1) g] by (auto simp: pop_credential_def Let_def word_less_nat_alt split: if_splits)
qed

lemma next_later:
  assumes "env_ok env" "core_inv d" "counter_floor (d_flash d) < 2 ^ 31"
  shows "ends (\<lambda>(_, d'). later d d') (ctap_get_next_assertion env ps err d)"
proof -
  obtain p d1 where p: "pop_credential d = (p, d1)" by fastforce
  note q1 = conjunct1[OF pop_quiet[OF assms(2) p]]
  let ?P = "\<lambda>(_, d'). later d d'"
  show ?thesis
  proof (cases p)
    case None
    then show ?thesis using p quiet_later[OF q1] by (simp add: ctap_get_next_assertion_def)
  next
    case (Some i)
    then have i: "i < 20" using pop_quiet[OF assms(2) p] by simp
    have fl: "counter_floor (d_flash d1) < 2 ^ 31" using q1 assms(3) by (simp add: quiet_def)
    show ?thesis unfolding ctap_get_next_assertion_def p prod.case Some option.case
    proof (rule ends_bind[OF update_later[OF assms(1) quietD(1)[OF q1] fl]], clarify, unfold split_conv Let_def)
      fix w h d2 assume l: "later d1 d2"
      let ?cred = "gs_creds (d_ga d2) ! i"
      let ?d2 = "set_head (h\<lparr>ah_rpIdHash := ci_rpIdHash (cr_id (cd_credential ?cred))\<rparr>) d2"
      let ?d3 = "if gs_user_verified (d_ga ?d2) = 0 then clear_name i ?d2 else ?d2"
      note q2 = set_head_quiet[OF quietD(2)[OF l]]
      have q3: "quiet d2 ?d3" for h using quiet_trans[OF q2 clear_name_quiet[OF quietD(1)[OF q2] i]] q2 by simp
      have l2: "later d ?d2" "later d ?d3" using later_trans[OF quiet_later[OF q1] later_trans[OF l quiet_later]] q2 q3 by blast+
      have fin: "ends ?P (seqE (next_extensions env ?d3) (\<lambda>(n, d). seqE (ctap_end_get_assertion env ps err i (37 + n) (gs_clientDataHash (d_ga d)) tr d) (\<lambda>(r, d).
          Inr (seqE r (emits err [EClose]), d))))" for tr
      proof (rule ends_bind[OF next_extensions_quiet[OF quietD(2)[OF l2(2)]]], clarify)
        fix n d4 assume q4: "quiet ?d3 d4"
        show "ends ?P (seqE (ctap_end_get_assertion env ps err i (37 + n) (gs_clientDataHash (d_ga d4)) tr d4) (\<lambda>(r, d). Inr (seqE r (emits err [EClose]), d)))"
          by (rule quietly_bind[OF q4 end_quiet], assumption) (use later_trans[OF l2(2) quiet_later] in simp)
      qed
      show "ends ?P (case emits err [EMap (if u_id_size (cr_user (cd_credential ?cred)) \<noteq> 0 then 4 else 3)] [] of Inl e \<Rightarrow> Inr (Inl e, ?d2)
        | Inr tr \<Rightarrow> seqE (next_extensions env ?d3) (\<lambda>(n, d). seqE (ctap_end_get_assertion env ps err i (37 + n) (gs_clientDataHash (d_ga d)) tr d) (\<lambda>(r, d).
          Inr (seqE r (emits err [EClose]), d))))"
        using fin l2(1) by (simp split: sum.split)
    qed
  qed
qed

lemma ga_auth_later:
  assumes "env_ok env" "core_inv d" "counter_floor (d_flash d) < 2 ^ 31" "\<not> d_up_off d"
  shows "ends (\<lambda>(_, d'). later d d') (ga_auth_data env ps GA d)"
proof (cases "is_extension_request (cid_image (cr_id (cd_credential (gs_creds (d_ga d) ! 0)))) 70")
  case True
  obtain h d1 where 1: "dev_sha [take (rp_size (ga_rp GA)) (rp_id (ga_rp GA))] d = (h, d1)" by fastforce
  have q1: "quiet d d1" using sha_quiet[OF assms(2), of "[take (rp_size (ga_rp GA)) (rp_id (ga_rp GA))]"] 1 by simp
  show ?thesis using True 1 quiet_later[OF quiet_trans[OF q1 set_head_quiet[OF quietD(1)[OF q1]]]] by (simp add: ga_auth_data_def)
next
  case False
  let ?off = "device_disable_up (ga_up GA = 0) d"
  have c0: "core_inv ?off" "counter_floor (d_flash ?off) < 2 ^ 31" using up_quiet[OF assms(2)] assms(3) by (simp_all add: device_disable_up_def)
  show ?thesis
  proof (rule endsI, clarify)
    fix r d' assume a: "ga_auth_data env ps GA d = Inr (r, d')"
    obtain ret h att d1 where 1: "ctap_make_auth_data env ps (ga_rp GA) 37 (gs_head (d_ga ?off)) None (ex_cred_protect (ga_extensions GA)) ?off = Inr (ret, h, att, d1)"
      using a False by (auto simp: ga_auth_data_def Let_def seqE_Inr)
    have l1: "later ?off d1" using endsD[OF auth_data_later[OF assms(1) c0] 1] by simp
    have l2: "later d (device_disable_up False (set_head h d1))" for h
    proof -
      have h: "core_inv (set_head h d1)" "counter_floor (d_flash (set_head h d1)) = counter_floor (d_flash d1)"
        using set_head_quiet[OF quietD(2)[OF l1], of h] by (simp_all add: quiet_def)
      then show ?thesis using l1 up_quiet[OF h(1)] assms(4) by (simp add: later_def device_disable_up_def set_head_def)
    qed
    have l3: "later d (set_head h2 (device_disable_up False (set_head h d1)))" for h2 h
      using later_trans[OF l2 quiet_later[OF set_head_quiet[OF quietD(2)[OF l2]]]] .
    have l4: "later d d2" if "ctap_make_extensions env ex 80 (set_head h2 (device_disable_up False (set_head h d1))) = Inr (x, d2)" for ex h2 h x d2
      using endsD[OF extensions_quiet[OF quietD(2)[OF l3]] that] later_trans[OF l3 quiet_later] by simp
    have l5: "later d (d2\<lparr>d_ga := (d_ga d2)\<lparr>gs_head := h3, gs_extbuf := b\<rparr>\<rparr>)" if "later d d2" for d2 h3 b
      by (rule later_trans[OF that quiet_later[OF bufs_quiet[OF quietD(2)[OF that]]]])
    have l6: "later d (d2\<lparr>d_ga := (d_ga d2)\<lparr>gs_head := h3\<rparr>\<rparr>)" if "later d d2" for d2 h3
      using later_trans[OF that quiet_later[OF set_head_quiet[OF quietD(2)[OF that]]]] by (simp add: set_head_def)
    note f = a[unfolded ga_auth_data_def Let_def if_not_P[OF False] 1 seqE_simps split_conv]
    show "later d d'"
    proof (cases "ret = 0")
      case True
      obtain x d2 where 2: "ctap_make_extensions env (ga_extensions GA) 80 (set_head (h\<lparr>ah_flags := (ah_flags h AND NOT 4)
          OR push_bit 2 (gs_user_verified (d_ga (device_disable_up False (set_head h d1))))\<rparr>) (device_disable_up False (set_head h d1))) = Inr (x, d2)"
        using f True by (auto simp: seqE_Inr)
      show ?thesis using f[unfolded True 2] l4[OF 2] l5[OF l4[OF 2]] l6[OF l4[OF 2]] by (cases x) (auto split: if_splits)
    qed (use f l2 in auto)
  qed
qed

lemma save_quiet:
  assumes "core_inv d" "ext_ok ext" "save_credential_list cdh n ext d = (r, d')"
  shows "quiet d d'"
proof -
  let ?cs = "gs_creds (d_ga d)"
  have l: "length ?cs = 20" "\<forall>c\<in>set ?cs. desc_ok c" "length (gs_customCredId (d_ga d)) = 256" "ext_ok (gs_extensions (d_ga d))"
    using assms(1) by (simp_all add: core_inv_def gs_ok_def ALLOW_LIST_MAX_SIZE_def)
  show ?thesis
  proof (cases "n \<le> 19")
    case True
    have s: "set (take n (drop 1 ?cs) @ drop n ?cs) \<subseteq> set ?cs" by (auto dest: in_set_takeD in_set_dropD)
    have u: "unat (of_nat n :: u32) < 20" using True by (simp add: unat_of_nat)
    define g where "g = (if n \<noteq> 0 then (d_ga d)\<lparr>gs_clientDataHash := take 32 cdh, gs_creds := take n (drop 1 ?cs) @ drop n ?cs, gs_extensions := ext\<rparr> else d_ga d)
      \<lparr>gs_count := of_nat n, gs_index := 0\<rparr>"
    have "gs_ok g" using l s u True assms(2) by (auto simp: g_def gs_ok_def ALLOW_LIST_MAX_SIZE_def)
    moreover have "d' = d\<lparr>d_ga := g\<rparr>" using assms(3) True by (simp add: save_credential_list_def Let_def g_def ALLOW_LIST_MAX_SIZE_def)
    ultimately show ?thesis using ga_quiet[OF assms(1)] by simp
  qed (use assms in \<open>simp add: save_credential_list_def ALLOW_LIST_MAX_SIZE_def\<close>)
qed
lemma ga_respond_later:
  assumes "env_ok env" "core_inv d" "counter_floor (d_flash d) < 2 ^ 31" "\<not> d_up_off d" "ga_ok GA"
  shows "ends (\<lambda>(_, d'). later d d') (ga_respond env ps err valid GA d)"
proof (rule endsI, clarify)
  fix r d' assume a: "ga_respond env ps err valid GA d = Inr (r, d')"
  let ?m = "emits err [EMap (3 + (if valid > 1 then 1 else 0) + (if u_id_size (cr_user (cd_credential (gs_creds (d_ga d) ! (valid - 1)))) \<noteq> 0 then 1 else 0))] []"
  let ?d0 = "if valid < 2 \<or> gs_user_verified (d_ga d) = 0 then clear_name 0 d else d"
  let ?G = "link_hmac_secret GA"
  have q0: "quiet d ?d0" using clear_name_quiet[OF assms(2), of 0] assms(2) by simp
  have c0: "counter_floor (d_flash ?d0) < 2 ^ 31" "\<not> d_up_off ?d0" using q0 assms(3,4) by (simp_all add: quiet_def)
  have ex: "ext_ok (ga_extensions ?G)" using assms(5) by (simp add: link_hmac_secret_def ga_ok_def ext_ok_def hs_ok_def)
  show "later d d'"
  proof (cases ?m)
    case (Inl e)
    then show ?thesis using a quiet_later[OF quiet_refl[OF assms(2)]] by (simp add: ga_respond_def Let_def del: emits.simps)
  next
    case (Inr tr)
    note f = a[unfolded ga_respond_def Let_def Inr sum.case]
    obtain x d1 where 1: "ga_auth_data env ps ?G ?d0 = Inr (x, d1)" using f by (auto simp: seqE_Inr)
    have l1: "later d d1"
      using endsD[OF ga_auth_later[OF assms(1) quietD(1)[OF q0] c0] 1] later_trans[OF quiet_later[OF q0]] by simp
    show ?thesis
    proof (cases x)
      case (Inl e)
      then show ?thesis using f 1 l1 by simp
    next
      case sz: (Inr sz)
      obtain y d2 where 2: "ctap_end_get_assertion env ps err 0 sz (ga_clientDataHash ?G) tr d1 = Inr (y, d2)" using f 1 sz by (auto simp: seqE_Inr)
      have l2: "later d d2" using endsD[OF end_quiet[OF quietD(2)[OF l1]] 2] later_trans[OF l1 quiet_later] by simp
      have "later d d3" if "save_credential_list cdh n (ga_extensions ?G) d2 = (ret, d3)" for cdh n ret d3
        using later_trans[OF l2 quiet_later[OF save_quiet[OF quietD(2)[OF l2] ex that]]] .
      then show ?thesis using f 1 sz 2 l2
        by (simp del: emits.simps seqE_simps add: seqE_simps(2) split: sum.splits prod.splits)
    qed
  qed
qed

lemma get_assertion_later:
  assumes "cbor_ok cb" "env_ok env" "qsort_ok (env_qsort env)" "core_inv d" "counter_floor (d_flash d) < 2 ^ 31" "\<not> d_up_off d"
  shows "ends (\<lambda>(_, d'). later d d') (ctap_get_assertion cb env ps err request d)"
proof -
  obtain ret GA gs where p: "ctap_parse_get_assertion cb request (d_ga d) = (ret, GA, gs)" by (metis prod_cases3)
  have ok: "ga_ok GA" "gs_ok gs"
    using parse_ga_ok[OF assms(1), of "d_ga d" request] assms(4) p by (simp_all add: core_inv_def gas_ok_def)
  let ?d0 = "d\<lparr>d_ga := gs\<rparr>" and ?P = "\<lambda>(_, d'). later d d'"
  note q0 = ga_quiet[OF assms(4) ok(2)]
  have ver: "quiet e (set_verified v e)" if "core_inv e" for v e
    unfolding set_verified_def by (rule ga_quiet[OF that]) (use that in \<open>simp add: core_inv_def gs_ok_def\<close>)
  have respond: "ends ?P (ga_respond env ps err valid G d2)" if "quiet d d2" "ga_ok G" for valid G d2
  proof -
    have "counter_floor (d_flash d2) < 2 ^ 31" "\<not> d_up_off d2" using that assms(5,6) by (simp_all add: quiet_def)
    from ends_mono[OF ga_respond_later[OF assms(2) quietD(1)[OF that(1)] this that(2)]] later_trans[OF quiet_later[OF that(1)]] show ?thesis by fastforce
  qed
  have choose: "ends ?P (seqE (ctap_filter_invalid_credentials env GA d2) (\<lambda>(valid, GA, d).
      if valid = 0 then Inr (Inl CTAP2_ERR_NO_CREDENTIALS, d) else ga_respond env ps err valid GA d))" if "quiet d d2" for d2
    by (rule ends_bind[OF filter_quiet[OF assms(3) quietD(1)[OF that] ok(1)]])
      (use respond quiet_trans[OF that] quiet_later in \<open>auto split: if_splits\<close>)
  have ver2: "quiet d (set_verified v d1)" if "quiet d d1" for v d1 using quiet_trans[OF that ver[OF quietD(1)[OF that]]] .
  have main: "ends ?P (seqE (if ga_pinAuthPresent GA \<noteq> 0 then verify_pin_auth (ga_pinAuth GA) (ga_clientDataHash GA) ?d0 else Inr (0, ?d0)) (\<lambda>(ret, d).
        if ret \<noteq> 0 then Inr (Inl ret, d)
        else
          let d = set_verified (if ga_pinAuthPresent GA \<noteq> 0 then 1 else 0) d in
          if rp_size (ga_rp GA) = 0 \<or> ga_clientDataHashPresent GA = 0 then Inr (Inl ERR_MISSING, d)
          else
            seqE (ctap_filter_invalid_credentials env GA d) (\<lambda>(valid, GA, d).
            if valid = 0 then Inr (Inl CTAP2_ERR_NO_CREDENTIALS, d)
            else ga_respond env ps err valid GA d)))"
    by (rule quietly_bind[OF q0], simp add: verify_quiet)
      (use choose[OF ver2] ver2 quiet_later in \<open>simp add: Let_def\<close>)
  show ?thesis using main quiet_later[OF q0] by (simp add: ctap_get_assertion_def p Let_def)
qed


end
