(* ===== verification/DeviceRuns.thy ===== *)
theory DeviceRuns
  imports RequestInv
begin

text \<open>
  The device as a state machine: its steps are CTAP2 requests, U2F requests over HID and NFC, and power cycles. Every device
  that a run reaches satisfies the invariant of \<open>DevInv\<close>, and its signature counter has not gone back.
\<close>

subsection \<open>CTAP2 requests\<close>

lemma status_later: "ends (\<lambda>(_, d'). later d d') m \<Longrightarrow> ends (\<lambda>(_, _, d'). later d d') (as_status m)"
  by (cases m) (auto simp: as_status_def split: sum.splits)

lemma lastcmd_quiet: "core_inv d \<Longrightarrow> quiet d (set_lastcmd c d)"
  unfolding set_lastcmd_def by (rule ga_quiet) (simp_all add: core_inv_def gs_ok_def)

lemma quietly_later: "quietly d m \<Longrightarrow> ends (\<lambda>(_, d'). later d d') m"
  by (auto simp: ends_def quiet_later)

lemma switch_later:
  assumes "cbor_ok cb" "env_ok env" "qsort_ok (env_qsort env)" "core_inv d" "counter_floor (d_flash d) < 2 ^ 31" "\<not> d_up_off d"
  shows "ends (\<lambda>(_, _, d'). later d d') (request_switch cb env ps err cmd request d)"
proof -
  note r = quiet_later[OF quiet_refl[OF assms(4)]]
  have pin: "ends (\<lambda>(_, _, d'). later d d') (seqE (ctap_client_pin env err ret CP d) (\<lambda>(r, tr, d). Inr (u8_code r, tr, d)))" for ret CP
    by (rule endsI) (auto simp: seqE_Inr dest!: client_pin_quiet[OF assms(2,4)] intro: quiet_later)
  note c = status_later[OF make_credential_later[OF assms(1,2,4,5)]] status_later[OF get_assertion_later[OF assms]]
    status_later[OF next_later[OF assms(2,4,5)]] status_later[OF quietly_later[OF cred_mgmt_quiet[OF assms(1,2,4)]]] pin
    quiet_later[OF reset_quiet[OF assms(2,4)]]
  have info: "ends (\<lambda>(_, _, d'). later d d') (as_status (Inr (x, d)))" for x using r by (simp add: as_status_def split: sum.split)
  show ?thesis unfolding request_switch_def Let_def using c r info by (simp split: prod.split)
qed

lemma request_later:
  assumes "cbor_ok cb" "env_ok env" "qsort_ok (env_qsort env)" "core_inv d" "counter_floor (d_flash d) < 2 ^ 31" "\<not> d_up_off d"
    and "ctap_request cb env ps err cmd request d = Inr (st, tr, d')"
  shows "later d d'"
proof (cases "request_locked cmd d = 0")
  case True
  obtain s2 t2 d2 where 2: "request_switch cb env ps err cmd request d = Inr (s2, t2, d2)" using assms(7) True by (auto simp: ctap_request_def seqE_Inr)
  have "later d d2" using endsD[OF switch_later[OF assms(1-6)] 2] by simp
  from later_trans[OF this quiet_later[OF lastcmd_quiet[OF quietD(2)[OF this]]]] show ?thesis
    using assms(7) True 2 by (auto simp: ctap_request_def Let_def)
qed (use assms(4,7) quiet_later[OF lastcmd_quiet] in \<open>auto simp: ctap_request_def\<close>)

subsection \<open>U2F requests\<close>

lemma dev_count_later:
  assumes "env_ok env" "core_inv d" "counter_floor (d_flash d) < 2 ^ 31"
  shows "ends (\<lambda>(_, d'). later d d' \<and> counter_floor (d_flash d') \<le> counter_floor (d_flash d) + 256) (dev_atomic_count env 0 d)"
proof -
  have c: "counter_inv d" using assms(2) by (simp add: core_inv_def)
  obtain w d' where 1: "dev_atomic_count env 0 d = Inr (w, d')" "count_sim d d'" "counter_inv d'"
    "counter_floor (d_flash d) < unat w" "counter_floor (d_flash d') = unat w" "unat w \<le> counter_floor (d_flash d) + 256"
    by (rule dev_count_value[OF assms(1) c core_crypto[OF assms(2)] assms(3), of 0]) auto
  then show ?thesis using count_later[OF assms(2) 1(2,3)] by simp
qed

lemma u2f_authenticate_quiet: "core_inv d \<Longrightarrow> quietly d (u2f_authenticate_credential kh len app d)"
  by (rule endsI) (auto intro: dev_quiet u2f_authenticate_frame core_crypto)

lemma tag_quiet: "core_inv d \<Longrightarrow> quietly d (u2f_make_auth_tag kh app d)"
  by (rule endsI) (auto intro: dev_quiet u2f_tag_frame core_crypto)

lemma keypair_quiet:
  assumes "core_inv d"
  shows "ends (\<lambda>(_, _, d'). quiet d d') (u2f_new_keypair env app d)"
proof (rule endsI, clarify)
  fix kh p d' assume a: "u2f_new_keypair env app d = Inr (kh, p, d')"
  obtain key d1 where 1: "ctap_generate_rng env 32 d = (key, d1)" by fastforce
  have q1: "quiet d d1" using rng_quiet[OF assms, of env 32] 1 by simp
  obtain tag d2 where 2: "u2f_make_auth_tag \<lparr>kh_tag = [], kh_key = key\<rparr> app d1 = Inr (tag, d2)" using a 1 by (auto simp: u2f_new_keypair_def seqE_Inr)
  have q2: "quiet d d2" using endsD[OF tag_quiet[OF quietD(1)[OF q1]] 2] quiet_trans[OF q1] by simp
  show "quiet d d'" using a 1 2 quiet_trans[OF q2 derive_quiet[OF quietD(1)[OF q2]]]
    by (auto simp: u2f_new_keypair_def seqE_Inr Let_def halt_def split: option.splits)
qed

lemma register_quiet:
  assumes "core_inv d"
  shows "ends (\<lambda>(_, _, d'). quiet d d') (u2f_register env ps p resp d)"
proof (rule endsI, clarify)
  fix sw r d' assume a: "u2f_register env ps p resp d = Inr (sw, r, d')"
  show "quiet d d'"
  proof (cases "length (env_cert env) > 1024 \<or> ctap_user_presence_test ps d = 0")
    case False
    obtain kh pub d1 where 1: "u2f_new_keypair env (req_app p) d = Inr (kh, pub, d1)" using a False by (auto simp: u2f_register_def Let_def seqE_Inr)
    have q1: "quiet d d1" using endsD[OF keypair_quiet[OF assms] 1] by simp
    let ?s = "dev_sha [[0x0], req_app p, req_chal p, kh_image kh, [0x04], pub] d1"
    note q2 = quiet_trans[OF q1 sha_quiet[OF quietD(1)[OF q1], of "[[0x0], req_app p, req_chal p, kh_image kh, [0x04], pub]"]]
    have k: "crypto_ok (crypto_ecc256_load_attestation_key key (d_cr (snd ?s)))" for key
      using core_crypto[OF quietD(1)[OF q2]] by (simp add: crypto_ecc256_load_attestation_key_def crypto_ok_def)
    note q3 = quiet_trans[OF q2 cr_quiet[OF quietD(1)[OF q2] k]]
    have "quiet d d3" if "dev_sign env h ((snd ?s)\<lparr>d_cr := crypto_ecc256_load_attestation_key key (d_cr (snd ?s))\<rparr>) = Inr (sg, d3)" for h key sg d3
      using endsD[OF sign_quiet[OF quietD(1)[OF q3]] that] quiet_trans[OF q3] by simp
    then show ?thesis using a False 1 by (auto simp: u2f_register_def Let_def seqE_Inr split_beta)
  qed (use a assms in \<open>auto simp: u2f_register_def Let_def split: if_splits\<close>)
qed

lemma u2f_sign_later:
  assumes "env_ok env" "core_inv d" "counter_floor (d_flash d) < 2 ^ 31"
  shows "ends (\<lambda>(_, _, d'). later d d') (u2f_sign env up p resp d)"
proof (rule endsI, clarify)
  fix sw r d' assume a: "u2f_sign env up p resp d = Inr (sw, r, d')"
  obtain w d1 where 1: "dev_atomic_count env 0 d = Inr (w, d1)" using a by (auto simp: u2f_sign_def seqE_Inr)
  have l1: "later d d1" using endsD[OF dev_count_later[OF assms] 1] by simp
  note q2 = sha_quiet[OF quietD(2)[OF l1]]
  have "quiet d1 d3" if "dev_sign env h (snd (dev_sha ds d1)) = Inr (sg, d3)" for h ds sg d3
    using endsD[OF sign_quiet[OF quietD(1)[OF q2]] that] quiet_trans[OF q2] by simp
  then show "later d d'" using a 1 later_trans[OF l1 quiet_later] by (auto simp: u2f_sign_def seqE_Inr split_beta Let_def)
qed

lemma u2f_authenticate_later:
  assumes "env_ok env" "core_inv d" "counter_floor (d_flash d) < 2 ^ 31"
  shows "ends (\<lambda>(_, _, d'). later d d') (u2f_authenticate env ps p control resp d)"
proof (rule endsI, clarify)
  fix sw r d' assume a: "u2f_authenticate env ps p control resp d = Inr (sw, r, d')"
  note refl = quiet_later[OF quiet_refl[OF assms(2)]]
  have q: "quiet d d1" if "u2f_authenticate_credential (req_kh p) (unat (req_khl p)) (req_app p) d = Inr (b, d1)" for b d1
    using endsD[OF u2f_authenticate_quiet[OF assms(2)] that] by simp
  have l: "quiet d d2" if "u2f_authenticate_credential (req_kh p) (unat (req_khl p)) (req_app p) d = Inr (b, d1)"
    "u2f_load_key env (req_kh p) (unat (req_khl p)) d1 = Inr (z, d2)" for b d1 z d2
  proof -
    have "dev_load_key env (take (unat (req_khl p)) (req_kh p)) d1 = Inr d2" using that(2) by (auto simp: u2f_load_key_def seqE_Inr)
    from endsD[OF load_key_quiet[OF quietD(1)[OF q[OF that(1)]]] this] show ?thesis by (rule quiet_trans[OF q[OF that(1)]])
  qed
  have s: "later d d3" if "quiet d d2" "u2f_sign env up p resp d2 = Inr (x, y, d3)" for d2 up x y d3
  proof -
    have "counter_floor (d_flash d2) < 2 ^ 31" using that(1) assms(3) by (simp add: quiet_def)
    from endsD[OF u2f_sign_later[OF assms(1) quietD(1)[OF that(1)] this] that(2)] show ?thesis
      using later_trans[OF quiet_later[OF that(1)]] by simp
  qed
  show "later d d'" using a refl q l s[OF l] quiet_later
    by (auto simp: u2f_authenticate_def Let_def seqE_Inr split: if_splits)
qed
lemma bridge_later:
  assumes "env_ok env" "core_inv d" "counter_floor (d_flash d) < 2 ^ 31"
  shows "ends (\<lambda>(_, _, d'). later d d' \<and> counter_floor (d_flash d') \<le> counter_floor (d_flash d) + 256) (bridge_u2f_to_extensions env ps keyh resp d)"
proof (rule endsI, clarify)
  fix sw r d' assume a: "bridge_u2f_to_extensions env ps keyh resp d = Inr (sw, r, d')"
  obtain w d1 where 1: "(if extension_needs_atomic_count keyh then dev_atomic_count env 0 d else Inr (10, d)) = Inr (w, d1)"
    using a by (auto simp: bridge_u2f_to_extensions_def seqE_Inr)
  have l1: "later d d1" "counter_floor (d_flash d1) \<le> counter_floor (d_flash d) + 256"
    using 1 endsD[OF dev_count_later[OF assms], of "(w, d1)"] quiet_later[OF quiet_refl[OF assms(2)]] by (auto split: if_splits)
  have q: "quiet d1 d2" if "bridge_u2f_to_solo env ps src out keyh d1 = Inr (z, sg, d2)" for src out z sg d2
    using endsD[OF bridge_quiet[OF quietD(2)[OF l1(1)]] that] by simp
  have l2: "later d d2 \<and> counter_floor (d_flash d2) \<le> counter_floor (d_flash d) + 256" if "quiet d1 d2" for d2
    using later_trans[OF l1(1) quiet_later[OF that]] l1(2) that by (simp add: quiet_def)
  show "later d d' \<and> counter_floor (d_flash d') \<le> counter_floor (d_flash d) + 256"
    using a 1 l2[OF q] by (auto simp: bridge_u2f_to_extensions_def seqE_Inr Let_def split: if_splits)
qed

lemma u2f_later:
  assumes "env_ok env" "core_inv d" "counter_floor (d_flash d) + 256 < 2 ^ 31" "u2f_request_ex env ps req p len d = Inr (resp, d')"
  shows "later d d'"
proof -
  note refl = quiet_later[OF quiet_refl[OF assms(2)]]
  have fl: "counter_floor (d_flash d) < 2 ^ 31" using assms(3) by linarith
  show ?thesis
  proof (cases "ah_cla req = 0")
    case True
    obtain rc rs d1 where 1: "extend_u2f env ps (ah_ins req) (ah_p1 req) p len ctap_response_init d = Inr (rc, rs, d1)"
      using assms(4) True by (auto simp: u2f_request_ex_def Let_def seqE_Inr)
    have l1: "later d d1" "counter_floor (d_flash d1) < 2 ^ 31"
    proof -
      have b: "later d d1 \<and> counter_floor (d_flash d1) \<le> counter_floor (d_flash d) + 256"
        if "bridge_u2f_to_extensions env ps keyh ctap_response_init d = Inr (rc, rs, d1)" for keyh
        using endsD[OF bridge_later[OF assms(1,2) fl] that] by simp
      have "d1 = d \<or> (\<exists>keyh. bridge_u2f_to_extensions env ps keyh ctap_response_init d = Inr (rc, rs, d1))"
        using 1 by (auto simp: extend_u2f_def split: if_splits prod.splits)
      then have "later d d1 \<and> counter_floor (d_flash d1) \<le> counter_floor (d_flash d) + 256" using b refl by auto
      then show "later d d1" "counter_floor (d_flash d1) < 2 ^ 31" using assms(3) by simp_all
    qed
    have l2: "later d d2" if "u2f_native env ps req p len rs d1 = Inr (sw, r2, d2)" for sw r2 d2
      using that l1(1) later_trans[OF l1(1)] quiet_later endsD[OF register_quiet[OF quietD(2)[OF l1(1)]]]
        endsD[OF u2f_authenticate_later[OF assms(1) quietD(2)[OF l1(1)] l1(2)]]
      by (fastforce simp: u2f_native_def split: if_splits prod.splits)
    show ?thesis using assms(4) True 1 l1 l2
      by (auto simp: u2f_request_ex_def Let_def seqE_Inr split: if_splits)
  qed (use assms(4) refl in \<open>auto simp: u2f_request_ex_def Let_def\<close>)
qed
subsection \<open>The steps of the device\<close>

definition device_inv :: "ctap_dev \<Rightarrow> bool" where
  "device_inv d \<longleftrightarrow> core_inv d \<and> \<not> d_up_off d"

text \<open>The counter is below \<open>2 ^ 31\<close> for as long as the flash lasts.\<close>

definition counter_room :: "ctap_dev \<Rightarrow> bool" where
  "counter_room d \<longleftrightarrow> counter_floor (d_flash d) + 256 < 2 ^ 31"

inductive device_step :: "'v cbor \<Rightarrow> environ \<Rightarrow> ctap_dev \<Rightarrow> ctap_dev \<Rightarrow> bool" for cb :: "'v cbor" and env :: environ where
  ctap2_step: "counter_room d \<Longrightarrow> ctap_request cb env ps err cmd request d = Inr (st, tr, d') \<Longrightarrow> device_step cb env d d'"
| u2f_step: "counter_room d \<Longrightarrow> u2f_request env ps apdu d = Inr (resp, d') \<Longrightarrow> device_step cb env d d'"
| nfc_step: "counter_room d \<Longrightarrow> u2f_request_nfc env ps req p len d = Inr (resp, d') \<Longrightarrow> device_step cb env d d'"
| power_step: "ctap_init env (power_up (d_flash d) p) = Inr d' \<Longrightarrow> device_step cb env d d'"

inductive_cases device_stepE: "device_step cb env d d'"

lemma room_floor: "counter_room d \<Longrightarrow> counter_floor (d_flash d) < 2 ^ 31"
  by (simp add: counter_room_def)

lemma init_frame:
  assumes "dev_ok d" "ctap_init env (power_up (d_flash d) p) = Inr d'"
  shows "d_st d' = d_st d" "d_flash d' = d_flash d" "d_ga d' = ga_state_zero" "crypto_ok (d_cr d')" "length (d_pin_token d') = 16"
    "d_sc d' = 0" "\<not> d_up_off d'" "c_transport (d_cr d') = block (as_key_space (d_st d)) 64 32"
proof -
  note st = assms(1)[unfolded dev_ok_def]
  obtain e where e: "ctap_init env (power_up (d_flash d) p) = Inr e" "d_st e = d_st d" "d_flash e = d_flash d" "d_ga e = ga_state_zero"
    "crypto_ok (d_cr e)" "length (d_pin_token e) = 16" "c_transport (d_cr e) = block (as_key_space (d_st d)) 64 32"
    using init_stored[of "d_st d" "d_flash d" env p] st by auto
  then show "d_st d' = d_st d" "d_flash d' = d_flash d" "d_ga d' = ga_state_zero" "crypto_ok (d_cr d')" "length (d_pin_token d') = 16"
    "c_transport (d_cr d') = block (as_key_space (d_st d)) 64 32" using assms(2) by simp_all
  show "d_sc d' = 0" "\<not> d_up_off d'"
    using assms(2) stored_found[of "d_st d" "d_flash d" "env_prog env"] st
    by (auto simp: ctap_init_def power_up_def do_migration_if_required_def split_beta Let_def ctap_reset_key_agreement_def ctap_generate_rng_def)
qed

lemma init_later:
  assumes "device_inv d" "ctap_init env (power_up (d_flash d) p) = Inr d'"
  shows "device_inv d' \<and> later d d'"
proof -
  have ok: "dev_ok d" "rk_counted d" "counter_inv d" "\<not> d_up_off d" using assms(1) by (simp_all add: device_inv_def core_inv_def)
  note f = init_frame[OF ok(1) assms(2)]
  have "dev_ok d'" using ok(1) f by (simp add: dev_ok_def)
  then show ?thesis using ok f gs_zero_ok by (simp add: device_inv_def later_def core_inv_def rk_counted_def counter_inv_def)
qed

lemma device_step_later:
  assumes "cbor_ok cb" "env_ok env" "qsort_ok (env_qsort env)" "device_inv d" "device_step cb env d d'"
  shows "device_inv d' \<and> later d d'"
proof -
  have c: "core_inv d" "\<not> d_up_off d" using assms(4) by (simp_all add: device_inv_def)
  have l: "device_inv d' \<and> later d d'" if "later d d'" using that c(2) by (simp add: device_inv_def later_def)
  show ?thesis using assms(5)
  proof (rule device_stepE)
    fix ps err cmd request st tr
    assume 1: "counter_room d" "ctap_request cb env ps err cmd request d = Inr (st, tr, d')"
    show ?thesis by (rule l[OF request_later[OF assms(1-3) c(1) room_floor[OF 1(1)] c(2) 1(2)]])
  next
    fix ps apdu resp
    assume 2: "counter_room d" "u2f_request env ps apdu d = Inr (resp, d')"
    show ?thesis using 2 l[OF u2f_later[OF assms(2) c(1)]] by (simp add: u2f_request_def Let_def counter_room_def)
  next
    fix ps req p len resp
    assume 3: "counter_room d" "u2f_request_nfc env ps req p len d = Inr (resp, d')"
    let ?d = "device_disable_up True d"
    obtain d1 where 1: "u2f_request_ex env ps req p len ?d = Inr (resp, d1)" "d' = device_disable_up False d1"
      using 3(2) by (auto simp: u2f_request_nfc_def Let_def seqE_Inr)
    have "core_inv ?d" "counter_floor (d_flash ?d) + 256 < 2 ^ 31"
      using up_quiet[OF c(1)] 3(1) by (simp_all add: device_disable_up_def counter_room_def)
    from u2f_later[OF assms(2) this 1(1)] have "later d d'"
      using up_quiet[of d1 False] c(2) by (simp add: later_def device_disable_up_def 1(2))
    then show ?thesis by (rule l)
  next
    fix p
    assume 4: "ctap_init env (power_up (d_flash d) p) = Inr d'"
    show ?thesis by (rule init_later[OF assms(4) 4])
  qed
qed

lemma device_run_later:
  assumes "cbor_ok cb" "env_ok env" "qsort_ok (env_qsort env)" "device_inv d0" "(device_step cb env)\<^sup>*\<^sup>* d0 d"
  shows "device_inv d \<and> later d0 d"
  using assms(5)
proof (induction rule: rtranclp_induct)
  case base
  then show ?case using assms(4) quiet_later by (simp add: device_inv_def)
next
  case (step y z)
  then show ?case using device_step_later[OF assms(1-3), of y z] later_trans by blast
qed


end
