(* ===== verification/DeviceClaims.thy ===== *)
theory DeviceClaims
  imports DeviceRuns
begin

text \<open>
  What holds in every run of the device: the invariant of its state, and that the signature counters of its
  assertions go up.
\<close>

subsection \<open>The counter in a response\<close>

text \<open>The authenticator data of a getAssertion response (member 2), and the number its signature counter spells.\<close>

definition auth_data_of :: "enc list \<Rightarrow> bytes" where
  "auth_data_of tr = (case dropWhile (\<lambda>x. x \<noteq> EInt 2) tr of _ # EBytes b # _ \<Rightarrow> b | _ \<Rightarrow> [])"

definition be_number :: "bytes \<Rightarrow> nat" where
  "be_number bs = fold (\<lambda>b n. 256 * n + unat b) bs 0"

definition assertion_count :: "enc list \<Rightarrow> nat" where
  "assertion_count tr = be_number (block (auth_data_of tr) 33 4)"

lemma reply_auth: "auth_data_of (ga_reply n c sz (ga_auth rp up uv w ext) sig v valid) = ga_auth rp up uv w ext"
  by (simp add: auth_data_of_def ga_reply_def signed_part_def descriptor_calls_def)

lemma be_u32: "be_number (u32_be_bytes w) = unat w"
proof -
  define n where "n = unat w"
  have n: "n < 4294967296" using unsigned_less[of w, where ?'a = nat] by (simp add: n_def)
  have b: "unat (ucast (drop_bit k w) :: u8) = n div 2 ^ k mod 256" for k
    using n by (simp add: unsigned_ucast_eq unsigned_drop_bit_eq n_def) (simp add: take_bit_eq_mod drop_bit_eq_div)
  have e: "be_number (u32_be_bytes w) = 256 * (256 * (256 * (n div 16777216 mod 256) + n div 65536 mod 256) + n div 256 mod 256) + n mod 256"
    using b[of 24] b[of 16] b[of 8] b[of 0] by (simp add: be_number_def u32_be_bytes_def)
  have "n div 16777216 mod 256 = n div 16777216" using n by simp
  moreover have "n div 65536 = 256 * (n div 16777216) + n div 65536 mod 256" using div_mult_mod_eq[of "n div 65536" 256] by (simp add: div_mult2_eq[symmetric])
  moreover have "n div 256 = 256 * (n div 65536) + n div 256 mod 256" using div_mult_mod_eq[of "n div 256" 256] by (simp add: div_mult2_eq[symmetric])
  moreover have "n = 256 * (n div 256) + n mod 256" by simp
  moreover have "p = q \<Longrightarrow> r = 256 * q + x \<Longrightarrow> s = 256 * r + y \<Longrightarrow> m = 256 * s + z \<Longrightarrow> 256 * (256 * (256 * p + x) + y) + z = m"
    for p q r x s y m z :: nat by simp
  ultimately have "256 * (256 * (256 * (n div 16777216 mod 256) + n div 65536 mod 256) + n div 256 mod 256) + n mod 256 = n" by blast
  then show ?thesis unfolding e by (simp only: n_def)
qed

lemma ga_auth_count: "block (ga_auth rp up uv w ext) 33 4 = u32_be_bytes w"
  unfolding ga_auth_def by (simp add: block_def u32_be_bytes_def del: bit.disj_zero_right)

lemma reply_count: "assertion_count (ga_reply n c sz (ga_auth rp up uv w ext) sig v valid) = unat w"
  by (simp only: assertion_count_def reply_auth ga_auth_count be_u32)
subsection \<open>The invariant\<close>

lemma dev0_inv: "device_inv dev0"
  using dev0_ok dev0_table(2) dev0_counter(1) dev0_ga gs_zero_ok by (simp add: device_inv_def core_inv_def)

text \<open>C35 (type). Whatever sequence of CTAP2 requests, U2F requests over HID and NFC and power cycles a device goes through, in any
  order and with any bytes in them: the state in RAM is well formed and is the one in both flash copies, the stored
  number of resident keys is that of the valid slots, every buffer and list of the assertion state has its size and
  the list that getNextAssertion walks stays inside it, the secrets have their lengths, the presence test is switched on
  again, and the signature counter has not gone back.\<close>

theorem reachable_devices:
  assumes "cbor_ok cb" "env_ok env" "qsort_ok (env_qsort env)" "device_inv d0" "(device_step cb env)\<^sup>*\<^sup>* d0 d"
  shows "state_wf (d_st d) \<and> stored_twice (d_st d) (d_flash d) \<and> as_version (d_st d) = STATE_VERSION
    \<and> unat (as_rk_stored (d_st d)) = length (valid_slots (rk_slots (d_flash d)))
    \<and> gs_ok (d_ga d) \<and> unat (gs_count (d_ga d)) < ALLOW_LIST_MAX_SIZE
    \<and> crypto_ok (d_cr d) \<and> length (d_pin_token d) = 16 \<and> \<not> d_up_off d
    \<and> unat (d_sc d) \<le> counter_floor (d_flash d) \<and> counter_floor (d_flash d0) \<le> counter_floor (d_flash d)"
  using device_run_later[OF assms]
  by (simp add: device_inv_def later_def core_inv_def dev_ok_def rk_counted_def counter_inv_def gs_ok_def)

definition early_touch :: presence where "early_touch = \<lparr>ps_nfc = False, ps_first10 = True, ps_wait = 1\<rparr>"

lemma touch_reset: "\<not> d_up_off d \<Longrightarrow> ctap2_user_presence_test CTAP_RESET early_touch d = 0"
  by (subst presence_test_zero) (simp_all add: early_touch_def presence_ok_def)

lemma reachable_devices_witness:
  "\<exists>d1 d2. ctap_request (tree_cbor ga_tree) env0 early_touch (\<lambda>_ _. 0) CTAP_RESET [] dev0 = Inr (0, [], d1)
     \<and> ctap_init env0 (power_up (d_flash d1) 7) = Inr d2 \<and> stored_twice (d_st d2) (d_flash d2) \<and> 256 \<le> counter_floor (d_flash d2)"
proof -
  let ?d1 = "set_lastcmd CTAP_RESET (ctap_reset env0 dev0)"
  have r: "ctap_request (tree_cbor ga_tree) env0 early_touch (\<lambda>_ _. 0) CTAP_RESET [] dev0 = Inr (0, [], ?d1)"
    by (simp add: ctap_request_def request_locked_def request_switch_def ctap_cmds touch_reset[OF dev0_ga(2), unfolded CTAP_RESET_def] Let_def u8_code_def)
  have room: "counter_room dev0" by (simp add: counter_room_def dev0_counter)
  note s1 = device_step.ctap2_step[OF room r]
  have i1: "device_inv ?d1" using device_step_later[OF tree_cbor_ok env0_ok env0_qsort dev0_inv s1] by simp
  have st: "stored_twice (d_st ?d1) (d_flash ?d1)" "state_wf (d_st ?d1)" "as_init (d_st ?d1) = INITIALIZED_MARKER" "as_version (d_st ?d1) = STATE_VERSION"
    using i1 by (simp_all add: device_inv_def core_inv_def dev_ok_def)
  obtain d2 where p: "ctap_init env0 (power_up (d_flash ?d1) 7) = Inr d2" using init_stored[OF st, of env0 7] by blast
  have "(device_step (tree_cbor ga_tree) env0)\<^sup>*\<^sup>* dev0 d2" using s1 device_step.power_step[OF p] by (metis rtranclp.simps)
  from reachable_devices[OF tree_cbor_ok env0_ok env0_qsort dev0_inv this] show ?thesis using r p by (auto simp: dev0_counter)
qed
subsection \<open>Counters of assertions\<close>

lemma request_assertion:
  assumes "ctap_request cb env ps err CTAP_GET_ASSERTION r d = Inr (0, tr, d')" "tr \<noteq> []"
  obtains d1 where "ctap_get_assertion cb env ps err r d = Inr (Inr tr, d1)" "d' = set_lastcmd CTAP_GET_ASSERTION d1"
proof -
  have l: "request_locked CTAP_GET_ASSERTION d = 0"
    using assms(1) by (auto simp: ctap_request_def Let_def split: if_splits)
  obtain st t2 d1 where 1: "request_switch cb env ps err CTAP_GET_ASSERTION r d = Inr (st, t2, d1)"
    using assms(1) l by (auto simp: ctap_request_def Let_def seqE_Inr)
  have e: "st = 0" "t2 = tr" "d' = set_lastcmd CTAP_GET_ASSERTION d1"
    using assms(1) l 1 by (auto simp: ctap_request_def Let_def ctap_cmds split: if_splits)
  have st: "as_status (ctap_get_assertion cb env ps err r d) = Inr (0, tr, d1)" using 1 e by (simp add: request_switch_def ctap_cmds)
  then obtain x d2 where x: "ctap_get_assertion cb env ps err r d = Inr (x, d2)" by (auto simp: as_status_def seqE_Inr)
  then have "ctap_get_assertion cb env ps err r d = Inr (Inr tr, d1)" using st assms(2) by (cases x) (simp_all add: as_status_def)
  then show ?thesis using that e(3) by blast
qed

lemma assertion_counts:
  assumes "cbor_ok cb" "env_ok env" "qsort_ok (env_qsort env)" "device_inv d" "counter_room d" "presence_ok ps"
    and "ctap_parse_get_assertion cb r (d_ga d) = (ret, GA, gs)" "well_named d GA gs"
    and "ctap_request cb env ps err CTAP_GET_ASSERTION r d = Inr (0, tr, d')" "tr \<noteq> []"
  shows "counter_floor (d_flash d) < assertion_count tr" "counter_floor (d_flash d') = assertion_count tr"
    "assertion_count tr \<le> counter_floor (d_flash d) + 256" "counters_only d d'" "device_inv d'"
proof -
  obtain d1 where 1: "ctap_get_assertion cb env ps err r d = Inr (Inr tr, d1)" "d' = set_lastcmd CTAP_GET_ASSERTION d1"
    using request_assertion[OF assms(9,10)] .
  have c: "gs_ok (d_ga d)" "counter_inv d" "length (d_pin_token d) = 16" "\<not> d_up_off d" "crypto_ok (d_cr d)"
    using assms(4) core_token core_crypto by (simp_all add: device_inv_def core_inv_def)
  have f: "d_flash d' = d_flash d1" "d_st d' = d_st d1" by (simp_all add: 1(2) set_lastcmd_def)
  have "counter_floor (d_flash d) < assertion_count tr \<and> assertion_count tr \<le> counter_floor (d_flash d) + 256
      \<and> counter_floor (d_flash d1) = assertion_count tr \<and> counters_only d d1"
    using get_assertion_run[OF assms(1) c(1) assms(2) c(2,5) room_floor[OF assms(5)] c(3) assms(6) c(4) assms(3,7,8) 1(1)] reply_count by auto
  then show "counter_floor (d_flash d) < assertion_count tr" "counter_floor (d_flash d') = assertion_count tr"
    "assertion_count tr \<le> counter_floor (d_flash d) + 256" "counters_only d d'"
    using f by (simp_all add: counters_only_def)
  show "device_inv d'" using device_step_later[OF assms(1-4) device_step.ctap2_step[OF assms(5,9)]] by simp
qed

text \<open>C36 (invariant). The signature counter of an assertion is higher than that of every assertion before it: of two answered
  getAssertion requests of a device, with any requests, power cycles and other credentials in between, the later one carries
  the larger counter in its signed authenticator data. A relying party may take a counter that does not grow for
  a sign of a cloned token. Both requests have to be \<open>well_named\<close> (a credential id with the tag of the vendor commands is answered without
  counting), and the counter of the device below 2^31 at both.\<close>

theorem assertion_counters_increase:
  assumes "cbor_ok cb" "env_ok env" "qsort_ok (env_qsort env)" "device_inv d1" "presence_ok ps1" "presence_ok ps2" "counter_room d1" "counter_room d2"
    and "ctap_parse_get_assertion cb r1 (d_ga d1) = (ret1, GA1, gs1)" "well_named d1 GA1 gs1"
    and "ctap_request cb env ps1 err1 CTAP_GET_ASSERTION r1 d1 = Inr (0, tr1, d1')" "tr1 \<noteq> []"
    and "(device_step cb env)\<^sup>*\<^sup>* d1' d2"
    and "ctap_parse_get_assertion cb r2 (d_ga d2) = (ret2, GA2, gs2)" "well_named d2 GA2 gs2"
    and "ctap_request cb env ps2 err2 CTAP_GET_ASSERTION r2 d2 = Inr (0, tr2, d2')" "tr2 \<noteq> []"
  shows "assertion_count tr1 < assertion_count tr2"
proof -
  note a1 = assertion_counts[OF assms(1-4,7,5,9-12)]
  note run = device_run_later[OF assms(1-3) a1(5) assms(13)]
  note a2 = assertion_counts[OF assms(1-3) conjunct1[OF run] assms(8,6,14-17)]
  show ?thesis using a1(2) a2(1) run by (simp add: later_def)
qed
text \<open>A device with one resident key, counted.\<close>

definition dev_one :: ctap_dev where
  "dev_one = ctap_increment_rk_store env0 dev_login"

lemma dev_one_ready: "holds_login dev_one" "device_inv dev_one" "counter_floor (d_flash dev_one) = 256"
  "c_transport (d_cr dev0) = block (as_key_space (d_st dev_one)) 64 32"
proof -
  let ?d = "dev_login\<lparr>d_st := (d_st dev_login)\<lparr>as_rk_stored := as_rk_stored (d_st dev_login) + 1\<rparr>\<rparr>"
  have e: "dev_one = ctap_flush_state env0 ?d" by (simp add: dev_one_def ctap_increment_rk_store_def)
  have st: "d_st dev_login = d_st dev0" by (simp add: dev_login_def)
  have wf: "state_wf (d_st ?d)" using dev0_ok(1) by (simp add: st dev_ok_def state_wf_def)
  have c: "same_counter (d_flash ?d) (d_flash dev_one)" unfolding e by (rule flush_counter[OF env0_ok wf])
  have l: "counter_inv ?d" "counter_floor (d_flash ?d) = 256" using login_device(1,2) by (simp_all add: counter_inv_def)
  have sc: "d_sc dev_one = d_sc ?d" by (simp add: e)
  have ci: "counter_inv dev_one" "counter_floor (d_flash dev_one) = 256" using counter_frame[OF c sc l(1)] l(2) by simp_all
  have rk: "rk_slots (d_flash dev_one) = (replicate 50 rk_blank)[0 := login_key]"
    using flush_rk[OF env0_ok wf] login_device(7) by (simp add: e)
  have f: "d_cr dev_one = d_cr dev0" "d_ga dev_one = ga_state_zero" "\<not> d_up_off dev_one" "length (d_pin_token dev_one) = 16" "d_st dev_one = d_st ?d"
    using login_device by (simp_all add: e ctap_flush_state_def)
  show h: "holds_login dev_one" using ci rk f by (simp add: holds_login_def)
  show "counter_floor (d_flash dev_one) = 256" by (fact ci(2))
  have ok: "dev_ok dev_one" unfolding e
    by (rule dev_ok_flush[OF env0_ok wf]) (use dev0_ok(1) in \<open>simp_all add: dev_ok_def dev_login_def\<close>)
  have "as_rk_stored (d_st dev0) = 0" using dev0_table by (simp add: rk_counted_def valid_slots_def rk_blank_props unat_eq_zero)
  moreover have "length (valid_slots ((replicate 50 rk_blank)[0 := login_key])) = 1"
  proof -
    have v: "ctap_rk_is_valid login_key" "length (valid_slots (replicate 50 rk_blank)) = 0"
      using rk_blank_props(2) by (simp_all add: ctap_rk_is_valid_def login_key_def cid1_ok(3) valid_slots_def)
    show ?thesis using valid_slots_update[of 0 "replicate 50 rk_blank" login_key] v rk_blank_props(2) by simp
  qed
  ultimately have "rk_counted dev_one" by (simp add: rk_counted_def f(5) st rk)
  then show "device_inv dev_one" using ok ci f gs_zero_ok by (simp add: device_inv_def core_inv_def)
  have "c_transport (d_cr dev0) = block (as_key_space (d_st dev0)) 64 32"
    by (simp add: dev0_def ctap_reset_def split_beta Let_def ctap_reset_state_def crypto_load_master_secret_def block_def
        ctap_reset_key_agreement_def ctap_generate_rng_def ctap_flush_state_def)
  then show "c_transport (d_cr dev0) = block (as_key_space (d_st dev_one)) 64 32" by (simp add: f(5) st)
qed
lemma login_request:
  assumes "holds_login d" "request_locked CTAP_GET_ASSERTION d = 0"
  obtains GA gs tr d' where "ctap_parse_get_assertion (tree_cbor ga_tree) [] (d_ga d) = (0, GA, gs)" "well_named d GA gs"
    "ctap_request (tree_cbor ga_tree) env0 touch (\<lambda>_ _. 0) CTAP_GET_ASSERTION [] d = Inr (0, tr, d')" "tr \<noteq> []"
proof -
  note h = assms(1)[unfolded holds_login_def]
  obtain GA gs tr d' where p: "ctap_parse_get_assertion (tree_cbor ga_tree) [] (d_ga d) = (0, GA, gs)" "well_named d GA gs"
    "ctap_get_assertion (tree_cbor ga_tree) env0 touch (\<lambda>_ _. 0) [] d = Inr (Inr tr, d')" by (rule login_run[OF assms(1)])
  have g: "gs_ok (d_ga d)" "counter_inv d" "crypto_ok (d_cr d)" "counter_floor (d_flash d) < 2 ^ 31" "length (d_pin_token d) = 16" "\<not> d_up_off d"
    using h gs_zero_ok by simp_all
  from get_assertion_run[OF tree_cbor_ok g(1) env0_ok g(2-5) touch_present(1) g(6) env0_qsort p(1,2,3)]
  have "tr \<noteq> []" by (elim exE conjE) (simp only: ga_reply_def list.distinct not_False_eq_True)
  moreover have "ctap_request (tree_cbor ga_tree) env0 touch (\<lambda>_ _. 0) CTAP_GET_ASSERTION [] d = Inr (0, tr, set_lastcmd CTAP_GET_ASSERTION d')"
    using assms(2) p(3) by (simp add: ctap_request_def request_switch_def as_status_def ctap_cmds Let_def)
  ultimately show ?thesis using that p(1,2) by blast
qed

lemma assertion_counters_increase_witness:
  "\<exists>tr1 d1 d2 tr2 d3. ctap_request (tree_cbor ga_tree) env0 touch (\<lambda>_ _. 0) CTAP_GET_ASSERTION [] dev_one = Inr (0, tr1, d1)
     \<and> ctap_init env0 (power_up (d_flash d1) 9) = Inr d2
     \<and> ctap_request (tree_cbor ga_tree) env0 touch (\<lambda>_ _. 0) CTAP_GET_ASSERTION [] d2 = Inr (0, tr2, d3)
     \<and> assertion_count tr1 < assertion_count tr2"
proof -
  have room: "counter_room dev_one" by (simp add: counter_room_def dev_one_ready(3))
  have tries: "as_tries (d_st dev_one) = as_tries (d_st dev0)" "d_boot dev_one = d_boot dev0"
    by (simp_all add: dev_one_def ctap_increment_rk_store_def dev_login_def ctap_flush_state_def)
  have t0: "sint (as_tries (d_st dev0)) = 8" using dev0_ok(3) by (simp add: ctap_leftover_pin_attempts_def)
  have free: "request_locked CTAP_GET_ASSERTION dev_one = 0"
    using dev0_ok(4) t0 by (simp add: request_locked_def ctap_device_locked_def ctap_device_boot_locked_def tries)
  obtain GA gs tr1 d1 where 1: "ctap_parse_get_assertion (tree_cbor ga_tree) [] (d_ga dev_one) = (0, GA, gs)" "well_named dev_one GA gs"
    "ctap_request (tree_cbor ga_tree) env0 touch (\<lambda>_ _. 0) CTAP_GET_ASSERTION [] dev_one = Inr (0, tr1, d1)" "tr1 \<noteq> []"
    using login_request[OF dev_one_ready(1) free] .
  note c = assertion_counts[OF tree_cbor_ok env0_ok env0_qsort dev_one_ready(2) room touch_present(1) 1]
  have ok1: "dev_ok d1" using c(5) by (simp add: device_inv_def core_inv_def)
  have st1: "d_st d1 = d_st dev_one" "rk_slots (d_flash d1) = rk_slots (d_flash dev_one)"
  proof -
    show "d_st d1 = d_st dev_one" using c(4) by (simp add: counters_only_def)
    show "rk_slots (d_flash d1) = rk_slots (d_flash dev_one)"
    proof -
      have "cr_loose (d_cr dev_one) (d_cr dev_one)"
        using count_sim_refl[of dev_one] core_crypto[of dev_one] dev_one_ready(2) by (simp add: device_inv_def count_sim_def)
      then show ?thesis using c(4) count_sim_table[of dev_one "dev_one\<lparr>d_flash := d_flash d1\<rparr>"] by (simp add: counters_only_def count_sim_def)
    qed
  qed
  obtain d2 where p: "ctap_init env0 (power_up (d_flash d1) 9) = Inr d2"
    using init_stored[of "d_st d1" "d_flash d1" env0 9] ok1 by (auto simp: dev_ok_def)
  note f = init_frame[OF ok1 p]
  have l2: "device_inv d2" using init_later[OF c(5) p] by simp
  have fl: "counter_floor (d_flash d2) \<le> 512" using c(2,3) dev_one_ready(3) by (simp add: f(2))
  have h2: "holds_login d2"
    using l2 fl f st1 dev_one_ready(1,4) by (simp add: holds_login_def device_inv_def core_inv_def)
  have "d_boot d2 = PIN_BOOT_ATTEMPTS" using init_stored[of "d_st d1" "d_flash d1" env0 9] ok1 p by (auto simp: dev_ok_def)
  then have free2: "request_locked CTAP_GET_ASSERTION d2 = 0"
    using t0 by (simp add: request_locked_def ctap_device_locked_def ctap_device_boot_locked_def f(1) st1(1) tries PIN_BOOT_ATTEMPTS_def)
  obtain GA2 gs2 tr2 d3 where 2: "ctap_parse_get_assertion (tree_cbor ga_tree) [] (d_ga d2) = (0, GA2, gs2)" "well_named d2 GA2 gs2"
    "ctap_request (tree_cbor ga_tree) env0 touch (\<lambda>_ _. 0) CTAP_GET_ASSERTION [] d2 = Inr (0, tr2, d3)" "tr2 \<noteq> []"
    using login_request[OF h2 free2] .
  have room2: "counter_room d2" using fl by (simp add: counter_room_def)
  have "(device_step (tree_cbor ga_tree) env0)\<^sup>*\<^sup>* d1 d2" using device_step.power_step[OF p] by (rule r_into_rtranclp)
  from assertion_counters_increase[OF tree_cbor_ok env0_ok env0_qsort dev_one_ready(2) touch_present(1) touch_present(1) room room2 1 this 2]
  show ?thesis using 1(3) p 2(3) by blast
qed


subsection \<open>A locked device\<close>

text \<open>C21 (error). After eight wrong PINs in all, or three since power-up, the device refuses every request that may use the PIN: makeCredential, getAssertion,
  both credential management commands, and setPIN, changePIN and getPinToken, each with the error of its state, without a response, without asking for a touch,
  and with no change but the note of the last command. A power cycle ends the second state and not the first.\<close>

theorem locked_device_refuses:
  assumes "dev_ok d" "ctap_device_locked d \<or> ctap_device_boot_locked d"
    and "cmd \<in> {CTAP_MAKE_CREDENTIAL, CTAP_GET_ASSERTION, CTAP_CBOR_CRED_MGMT, CTAP_CBOR_CRED_MGMT_PRE}
      \<or> cmd = CTAP_CLIENT_PIN \<and> cp_subCommand (snd (ctap_parse_client_pin cb request)) \<in> {CP_cmdSetPin, CP_cmdChangePin, CP_cmdGetPinToken}"
  shows "ctap_request cb env ps err cmd request d
      = Inr (if ctap_device_locked d then CTAP2_ERR_PIN_BLOCKED else CTAP2_ERR_PIN_AUTH_BLOCKED, [], set_lastcmd cmd d)
    \<and> (\<exists>d'. ctap_init env (power_up (d_flash d) p) = Inr d' \<and> ctap_device_locked d' = ctap_device_locked d \<and> \<not> ctap_device_boot_locked d')"
proof
  show "ctap_request cb env ps err cmd request d
      = Inr (if ctap_device_locked d then CTAP2_ERR_PIN_BLOCKED else CTAP2_ERR_PIN_AUTH_BLOCKED, [], set_lastcmd cmd d)"
    using assms(3)
  proof
    assume "cmd \<in> {CTAP_MAKE_CREDENTIAL, CTAP_GET_ASSERTION, CTAP_CBOR_CRED_MGMT, CTAP_CBOR_CRED_MGMT_PRE}"
    then have "request_locked cmd d = (if ctap_device_locked d then CTAP2_ERR_PIN_BLOCKED else CTAP2_ERR_PIN_AUTH_BLOCKED)"
      using assms(2) by (auto simp: request_locked_def)
    then show ?thesis by (simp add: ctap_request_def pin_codes)
  next
    assume c: "cmd = CTAP_CLIENT_PIN \<and> cp_subCommand (snd (ctap_parse_client_pin cb request)) \<in> {CP_cmdSetPin, CP_cmdChangePin, CP_cmdGetPinToken}"
    obtain ret CP where r: "ctap_parse_client_pin cb request = (ret, CP)" by fastforce
    have k: "cp_subCommand CP \<in> {CP_cmdSetPin, CP_cmdChangePin, CP_cmdGetPinToken}" using c r by simp
    show ?thesis using pin_blocked[OF k assms(2), of env err ret] c r
      by (simp add: ctap_request_def request_locked_def request_switch_def ctap_cmds u8_code_def pin_codes Let_def)
  qed
  obtain d' where d': "ctap_init env (power_up (d_flash d) p) = Inr d'" "d_st d' = d_st d" "d_boot d' = PIN_BOOT_ATTEMPTS"
    using init_stored[of "d_st d" "d_flash d" env p] assms(1) by (auto simp: dev_ok_def)
  then show "\<exists>d'. ctap_init env (power_up (d_flash d) p) = Inr d' \<and> ctap_device_locked d' = ctap_device_locked d \<and> \<not> ctap_device_boot_locked d'"
    by (intro exI[of _ d']) (simp add: ctap_device_locked_def ctap_device_boot_locked_def PIN_BOOT_ATTEMPTS_def)
qed

lemma locked_device_refuses_witness:
  "ctap_request (tree_cbor ga_tree) env0 touch (\<lambda>_ _. 0) CTAP_GET_ASSERTION [] (dev0\<lparr>d_boot := 0\<rparr>)
     = Inr (0x34, [], set_lastcmd CTAP_GET_ASSERTION (dev0\<lparr>d_boot := 0\<rparr>))"
proof -
  have "dev_ok (dev0\<lparr>d_boot := 0\<rparr>)" "ctap_device_boot_locked (dev0\<lparr>d_boot := 0\<rparr>)" "\<not> ctap_device_locked (dev0\<lparr>d_boot := 0\<rparr>)"
    using dev0_ok(1,3) by (simp_all add: dev_ok_def ctap_device_boot_locked_def ctap_device_locked_def ctap_leftover_pin_attempts_def)
  from locked_device_refuses[OF this(1) disjI2[OF this(2)] disjI1, of CTAP_GET_ASSERTION "tree_cbor ga_tree" env0 touch "\<lambda>_ _. 0" "[]" 0] this(3)
  show ?thesis by (simp add: pin_codes)
qed

end
