(* ===== verification/Nfc.thy ===== *)
theory Nfc
  imports CtapRequest U2f Apdu
begin

text \<open>
  The NFC transport of \<^verbatim>\<open>targets/stm32l432/src/nfc.c\<close>: the blocks of ISO 14443-4 (activation, I-, R- and S-blocks, block
  chaining both ways), the command chaining and GET RESPONSE of ISO 7816-4, the applets and the
  dispatch of a command to U2F and to CTAP2, down to the waits for the reader chip. The chip itself is a parameter:
  what its interrupt and buffer registers read in the polls of a wait, as a function of what was sent so far. A
  run that writes outside a buffer stops with \<open>NfcFault\<close>. Frames carry no checksum, the chip adds it.
  The clock switching around U2F registration and the log are not modelled.
\<close>

definition AMS_INT_TXE :: u8 where "AMS_INT_TXE = 0x02"
definition AMS_INT_RXE :: u8 where "AMS_INT_RXE = 0x04"
definition AMS_INT_INIT :: u8 where "AMS_INT_INIT = 0x80"
definition AMS_BUF_LEN_MASK :: u8 where "AMS_BUF_LEN_MASK = 0x1f"
definition AMS_BUF_INVALID :: u8 where "AMS_BUF_INVALID = 0x80"
definition AMS_STATE_MASK :: u8 where "AMS_STATE_MASK = 0x78"
definition AMS_STATE_SELECTED :: u8 where "AMS_STATE_SELECTED = 0x30"
definition AMS_STATE_SELECTEDX :: u8 where "AMS_STATE_SELECTEDX = 0x70"

definition NFC_CMD_REQA :: u8 where "NFC_CMD_REQA = 0x26"
definition NFC_CMD_WUPA :: u8 where "NFC_CMD_WUPA = 0x52"
definition NFC_CMD_HLTA :: u8 where "NFC_CMD_HLTA = 0x50"
definition NFC_CMD_RATS :: u8 where "NFC_CMD_RATS = 0xe0"
definition NFC_CMD_PPSS :: u8 where "NFC_CMD_PPSS = 0xd0"
definition NFC_CMD_IBLOCK :: u8 where "NFC_CMD_IBLOCK = 0x00"
definition NFC_CMD_RBLOCK :: u8 where "NFC_CMD_RBLOCK = 0xa0"
definition NFC_CMD_RBLOCK_ACK :: u8 where "NFC_CMD_RBLOCK_ACK = 0x10"
definition NFC_CMD_SBLOCK :: u8 where "NFC_CMD_SBLOCK = 0xc0"
definition NFC_SBLOCK_DESELECT :: u8 where "NFC_SBLOCK_DESELECT = 0x30"

definition IS_PPSS_CMD :: "u8 \<Rightarrow> bool" where "IS_PPSS_CMD x \<longleftrightarrow> x AND 0xf0 = NFC_CMD_PPSS"
definition IS_IBLOCK :: "u8 \<Rightarrow> bool" where "IS_IBLOCK x \<longleftrightarrow> x AND 0xc0 = NFC_CMD_IBLOCK \<and> x AND 0x02 = 0x02"
definition IS_RBLOCK :: "u8 \<Rightarrow> bool" where "IS_RBLOCK x \<longleftrightarrow> x AND 0xe0 = NFC_CMD_RBLOCK \<and> x AND 0x02 = 0x02"
definition IS_SBLOCK :: "u8 \<Rightarrow> bool" where "IS_SBLOCK x \<longleftrightarrow> x AND 0xc0 = NFC_CMD_SBLOCK \<and> x AND 0x02 = 0x02"

lemmas ams_defs = AMS_INT_TXE_def AMS_INT_RXE_def AMS_INT_INIT_def AMS_BUF_LEN_MASK_def AMS_BUF_INVALID_def
  AMS_STATE_MASK_def AMS_STATE_SELECTED_def AMS_STATE_SELECTEDX_def

lemmas nfc_cmds = NFC_CMD_REQA_def NFC_CMD_WUPA_def NFC_CMD_HLTA_def NFC_CMD_RATS_def NFC_CMD_PPSS_def NFC_CMD_IBLOCK_def
  NFC_CMD_RBLOCK_def NFC_CMD_RBLOCK_ACK_def NFC_CMD_SBLOCK_def NFC_SBLOCK_DESELECT_def

lemmas block_kinds = IS_PPSS_CMD_def IS_IBLOCK_def IS_RBLOCK_def IS_SBLOCK_def

datatype applet = APP_NOTHING | APP_NDEF_TYPE_4 | APP_MIFARE_TYPE_4 | APP_CAPABILITY_CONTAINER | APP_NDEF_TAG | APP_FIDO

subsection \<open>State\<close>

datatype nfc_out = Frame bytes | ChipSleep | ChipDefault

text \<open>The static variables of \<^verbatim>\<open>nfc.c\<close>, with what went to the chip so far and the device behind the transport. The two
  buffers are lists of their sizes; \<open>n_chain_len\<close> and \<open>n_ibuflen\<close> count in them.\<close>

record nfc =
  n_chain :: bytes
  n_chain_len :: nat
  n_chain_tx :: bool
  n_current_cid :: u8
  n_max_frame_size :: u8
  n_cid :: u8
  n_block_num :: u8
  n_applet :: applet
  n_int0 :: u8
  n_ibuf :: bytes
  n_ibuflen :: nat
  n_wtx_sent :: bool
  n_wtx_fail :: bool
  n_wtx_timer :: u32
  n_out :: "nfc_out list"
  n_dev :: ctap_dev

definition CHAIN_SIZE :: nat where "CHAIN_SIZE = 2048"
definition IBUF_SIZE :: nat where "IBUF_SIZE = 1024"

datatype nfc_stop = NfcReboot nfc | NfcExit ctap_dev | NfcFault nfc

text \<open>The chip during a wait, given what was sent: one reading of the interrupt register, the readings of the polls that
  fit into the time of a transmit wait, and the polls of a receive wait, each with the second buffer register and the bytes in the
  buffer.\<close>

record nfc_link =
  lk_now :: "nfc_out list \<Rightarrow> u8"
  lk_tx :: "nfc_out list \<Rightarrow> u8 list"
  lk_rx :: "nfc_out list \<Rightarrow> (u8 \<times> u8 \<times> bytes) list"

definition p14443_have_cid :: "u8 \<Rightarrow> bool" where
  "p14443_have_cid pcb \<longleftrightarrow> pcb AND 0x08 \<noteq> 0"

definition p14443_block_offset :: "u8 \<Rightarrow> nat" where
  "p14443_block_offset pcb = 1 + (if pcb AND 0x04 \<noteq> 0 then 1 else 0) + (if pcb AND 0x08 \<noteq> 0 then 1 else 0)"

definition nfc_state_init :: "nfc \<Rightarrow> nfc" where
  "nfc_state_init n = n\<lparr>n_max_frame_size := 32, n_cid := 0, n_block_num := 1, n_applet := APP_NOTHING\<rparr>"

definition clear_ibuf :: "nfc \<Rightarrow> nfc" where
  "clear_ibuf n = n\<lparr>n_ibuflen := 0, n_ibuf := zeros IBUF_SIZE\<rparr>"

subsection \<open>Waits and frames\<close>

primrec tx_polls :: "u8 list \<Rightarrow> u8 \<Rightarrow> bool \<times> u8" where
  "tx_polls [] g = (False, g)"
| "tx_polls (int0 # is) g = (if int0 AND AMS_INT_TXE \<noteq> 0 \<or> int0 AND AMS_INT_RXE \<noteq> 0 then (True, int0) else tx_polls is int0)"

definition ams_wait_for_tx :: "nfc_link \<Rightarrow> nfc \<Rightarrow> bool \<times> nfc" where
  "ams_wait_for_tx lk n =
     (if n_int0 n AND AMS_INT_TXE \<noteq> 0 then (True, n\<lparr>n_int0 := lk_now lk (n_out n)\<rparr>)
      else case tx_polls (lk_tx lk (n_out n)) (n_int0 n) of (ok, g) \<Rightarrow> (ok, n\<lparr>n_int0 := g\<rparr>))"

primrec rx_polls :: "(u8 \<times> u8 \<times> bytes) list \<Rightarrow> nat \<Rightarrow> u8 \<Rightarrow> bytes option \<times> u8" where
  "rx_polls [] maxlen g = (None, g)"
| "rx_polls (p # ps) maxlen g =
     (case p of (reading, buffer_status2, buf) \<Rightarrow>
      let int0 = (if g AND AMS_INT_RXE \<noteq> 0 then g else reading) in
      if buffer_status2 \<noteq> 0 \<and> int0 AND AMS_INT_RXE \<noteq> 0 \<and> buffer_status2 AND AMS_BUF_INVALID = 0 then
        let len = unat (buffer_status2 AND AMS_BUF_LEN_MASK) in (Some (take (min 32 (min maxlen len)) buf), int0)
      else rx_polls ps maxlen int0)"

definition ams_receive_with_timeout :: "nfc_link \<Rightarrow> nat \<Rightarrow> nfc \<Rightarrow> bytes option \<times> nfc" where
  "ams_receive_with_timeout lk maxlen n =
     (case rx_polls (lk_rx lk (n_out n)) maxlen (n_int0 n) of (r, g) \<Rightarrow> (r, n\<lparr>n_int0 := g\<rparr>))"

definition put_out :: "nfc_out \<Rightarrow> nfc \<Rightarrow> nfc" where
  "put_out x n = n\<lparr>n_out := n_out n @ [x]\<rparr>"

definition nfc_write_frame :: "bytes \<Rightarrow> nfc \<Rightarrow> nfc" where
  "nfc_write_frame data n = put_out (Frame (take 32 data)) n"

text \<open>The first three bytes of a block before its payload moves over the unused ones.\<close>

definition block_head :: "u8 \<Rightarrow> u8 \<Rightarrow> u8 \<Rightarrow> bytes" where
  "block_head req0 pcb cid = take (p14443_block_offset req0) [pcb, cid, 0]"

definition iblock_pcb :: "u8 \<Rightarrow> u8" where
  "iblock_pcb req0 = NFC_CMD_IBLOCK OR (req0 AND 0x0f)"

definition rblock_acknowledge :: "u8 \<Rightarrow> bool \<Rightarrow> nfc \<Rightarrow> nfc" where
  "rblock_acknowledge req0 ack n =
     (let n = n\<lparr>n_block_num := (if n_block_num n = 0 then 1 else 0)\<rparr>;
          pcb = NFC_CMD_RBLOCK OR (req0 AND 0x0f);
          pcb = (if \<not> ack then pcb OR NFC_CMD_RBLOCK_ACK else pcb)
      in nfc_write_frame (block_head req0 pcb (n_current_cid n)) n)"

text \<open>\<open>data\<close> are the \<open>len\<close> bytes to send.\<close>

definition nfc_write_response_ex :: "nfc_link \<Rightarrow> u8 \<Rightarrow> bytes \<Rightarrow> u16 \<Rightarrow> nfc \<Rightarrow> nfc_stop + (bool \<times> nfc)" where
  "nfc_write_response_ex lk req0 data resp n =
     (let off = p14443_block_offset req0; len = length data in
      if len > 32 - 3 then Inr (False, n)
      else if off + len + 2 > 32 then Inl (NfcFault n)
      else
        let n = nfc_write_frame (block_head req0 (iblock_pcb req0) (n_current_cid n) @ data @ [ucast (drop_bit 8 resp), ucast resp]) n
        in Inr (ams_wait_for_tx lk n))"

definition nfc_write_response :: "nfc_link \<Rightarrow> u8 \<Rightarrow> u16 \<Rightarrow> nfc \<Rightarrow> nfc_stop + (bool \<times> nfc)" where
  "nfc_write_response lk req0 resp n = nfc_write_response_ex lk req0 [] resp n"

subsection \<open>Responses in several blocks\<close>

text \<open>What the reader answered between two blocks: the padded frame and its length.\<close>

definition rblock_accepted :: "u8 \<Rightarrow> bytes \<Rightarrow> nat \<Rightarrow> bool" where
  "rblock_accepted pcb recbuf reclen \<longleftrightarrow>
     reclen = p14443_block_offset (recbuf ! 0)
     \<and> \<not> (recbuf ! 0 AND 0x01 = pcb AND 1 \<and> recbuf ! 0 AND 0xf6 = 0xa2)"

function send_blocks :: "nfc_link \<Rightarrow> u8 \<Rightarrow> u8 \<Rightarrow> bytes \<Rightarrow> nfc \<Rightarrow> nfc" where
  "send_blocks lk req0 iBlock rest n =
     (let off = p14443_block_offset req0;
          vlen = min (32 - off) (length rest);
          more = (vlen < length rest);
          pcb = (if more then iBlock OR 0x10 else iBlock);
          n = nfc_write_frame (block_head req0 pcb (n_current_cid n) @ take vlen rest) n;
          (ok, n) = ams_wait_for_tx lk n
      in if \<not> ok \<or> \<not> more then n
         else case ams_receive_with_timeout lk 32 n of
             (None, n) \<Rightarrow> n
           | (Some r, n) \<Rightarrow>
               let recbuf = blit (zeros 32) 0 r in
               if \<not> IS_RBLOCK (recbuf ! 0) then n
               else if recbuf ! 0 AND NFC_CMD_RBLOCK_ACK \<noteq> 0 then rblock_acknowledge (recbuf ! 0) True n
               else if \<not> rblock_accepted pcb recbuf (length r) then n
               else send_blocks lk req0 (iBlock XOR 1) (drop vlen rest) n)"
  by pat_completeness auto

termination send_blocks
  by (relation "measure (\<lambda>(lk, req0, iBlock, rest, n). length rest)") (auto simp: p14443_block_offset_def split: if_splits)

declare send_blocks.simps [simp del]

text \<open>\<open>data\<close> are the \<open>len\<close> bytes to send. A short response is built in a 32-byte array.\<close>

definition nfc_write_response_chaining_plain :: "nfc_link \<Rightarrow> u8 \<Rightarrow> bytes \<Rightarrow> nfc \<Rightarrow> nfc_stop + nfc" where
  "nfc_write_response_chaining_plain lk req0 data n =
     (if length data \<le> 31 then
        if p14443_block_offset req0 + length data > 32 then Inl (NfcFault n)
        else Inr (nfc_write_frame (block_head req0 (iblock_pcb req0) (n_current_cid n) @ data) n)
      else Inr (send_blocks lk req0 (iblock_pcb req0) data n))"

definition append_get_response :: "nat \<Rightarrow> bytes" where
  "append_get_response rest_len = [0x61, if rest_len \<le> 0xff then of_nat rest_len else 0]"

definition nfc_write_response_chaining :: "nfc_link \<Rightarrow> u8 \<Rightarrow> bytes \<Rightarrow> bool \<Rightarrow> nfc \<Rightarrow> nfc_stop + nfc" where
  "nfc_write_response_chaining lk req0 data extapdu n =
     (let n = n\<lparr>n_chain_len := 0, n_chain_tx := True\<rparr> in
      if length data \<le> 255 \<or> extapdu then nfc_write_response_chaining_plain lk req0 data n
      else
        let pcklen = min 253 (length data);
            n = n\<lparr>n_chain_len := length data - pcklen\<rparr>;
            n = n\<lparr>n_chain := blit (n_chain n) 0 (take pcklen data @ append_get_response (n_chain_len n))\<rparr>
        in seqE (nfc_write_response_chaining_plain lk req0 (take (pcklen + 2) (n_chain n)) n) (\<lambda>n.
           if n_chain_len n > CHAIN_SIZE then Inl (NfcFault n)
           else Inr (n\<lparr>n_chain := blit (n_chain n) 0 (drop pcklen data)\<rparr>)))"
subsection \<open>Waiting time extension\<close>

definition WTX_clear :: "nfc \<Rightarrow> nfc" where
  "WTX_clear n = n\<lparr>n_wtx_sent := False, n_wtx_fail := False, n_wtx_timer := 0\<rparr>"

definition WTX_on :: "u32 \<Rightarrow> nfc \<Rightarrow> bool \<times> nfc" where
  "WTX_on millis n = (True, (WTX_clear n)\<lparr>n_wtx_timer := millis\<rparr>)"

definition WTX_process :: "nfc_link \<Rightarrow> nfc \<Rightarrow> bool \<times> nfc" where
  "WTX_process lk n =
     (if n_wtx_fail n then (False, n)
      else if \<not> n_wtx_sent n then (True, (nfc_write_frame [0xf2, 0x01] n)\<lparr>n_wtx_sent := True\<rparr>)
      else case ams_receive_with_timeout lk 32 n of
          (None, n) \<Rightarrow> (False, n\<lparr>n_wtx_fail := True\<rparr>)
        | (Some r, n) \<Rightarrow>
            if length r \<noteq> 2 \<or> r ! 0 \<noteq> 0xf2 \<or> r ! 1 \<noteq> 0x01 then (False, n\<lparr>n_wtx_fail := True\<rparr>)
            else (True, n\<lparr>n_wtx_sent := False\<rparr>))"

definition WTX_off :: "nfc_link \<Rightarrow> nfc \<Rightarrow> bool \<times> nfc" where
  "WTX_off lk n =
     (let n = n\<lparr>n_wtx_timer := 0\<rparr>;
          (ok, n) = (if n_wtx_sent n then WTX_process lk n else (True, n))
      in if \<not> ok then (False, n) else if n_wtx_fail n then (False, n) else (True, WTX_clear n))"

text \<open>\<open>millis\<close> is read again after the exchange.\<close>

definition WTX_timer_exec :: "nfc_link \<Rightarrow> u32 \<Rightarrow> u32 \<Rightarrow> nfc \<Rightarrow> nfc" where
  "WTX_timer_exec lk now later n =
     (if n_wtx_timer n = 0 \<or> n_wtx_timer n + 300 > now then n
      else (snd (WTX_process lk n))\<lparr>n_wtx_timer := later\<rparr>)"

subsection \<open>Activation and applets\<close>

text \<open>The answer to RATS; the historical bytes are ''SoloKey tap''.\<close>

definition rats_answer :: bytes where
  "rats_answer = [14, 0x22, 0xc0, 0x53, 0x6f, 0x6c, 0x6f, 0x4b, 0x65, 0x79, 0x20, 0x74, 0x61, 0x70]"

definition answer_rats :: "nfc_link \<Rightarrow> u8 \<Rightarrow> nfc \<Rightarrow> nat \<times> nfc" where
  "answer_rats lk parameter n =
     (let fsdi = drop_bit 4 (parameter AND 0xf0);
          n = n\<lparr>n_cid := parameter AND 0x0f, n_max_frame_size := (if fsdi = 0 then 16 else if fsdi = 1 then 24 else 32)\<rparr>;
          n = nfc_write_frame rats_answer n;
          (ok, n) = ams_wait_for_tx lk n
      in if \<not> ok then (1, put_out ChipDefault n) else (0, n))"

definition AID_NDEF_TYPE_4 :: bytes where "AID_NDEF_TYPE_4 = [0xD2, 0x76, 0x00, 0x00, 0x85, 0x01, 0x01]"
definition AID_CAPABILITY_CONTAINER :: bytes where "AID_CAPABILITY_CONTAINER = [0xE1, 0x03]"
definition AID_NDEF_TAG :: bytes where "AID_NDEF_TAG = [0xE1, 0x04]"
definition AID_FIDO :: bytes where "AID_FIDO = [0xa0, 0x00, 0x00, 0x06, 0x47, 0x2f, 0x00, 0x01]"

definition NFC_CC :: bytes where
  "NFC_CC = [0x00, 0x0f, 0x20, 0x00, 0x7f, 0x00, 0x7f, 0x04, 0x06, 0xe1, 0x04, 0x00, 0x7f, 0x00, 0x00]"

definition NDEF_SAMPLE :: bytes where
  "NDEF_SAMPLE = [0x00, 0x14, 0xd1, 0x01, 0x0e, 0x55, 0x04, 0x73, 0x6f, 0x6c, 0x6f, 0x6b, 0x65, 0x79, 0x73, 0x2e, 0x63, 0x6f, 0x6d, 0x2f]"

primrec memcmp :: "nat \<Rightarrow> bytes \<Rightarrow> bytes \<Rightarrow> int" where
  "memcmp 0 xs ys = 0"
| "memcmp (Suc k) xs ys = (if xs ! 0 \<noteq> ys ! 0 then uint (xs ! 0) - uint (ys ! 0) else memcmp k (drop 1 xs) (drop 1 ys))"

definition applet_cmp :: "bytes \<Rightarrow> nat \<Rightarrow> bytes \<Rightarrow> int" where
  "applet_cmp aid len const_aid =
     (let const_len = length const_aid in
      if len > const_len then 10
      else if const_aid ! 0 AND 0xf0 = 0xa0 then
        if len < 5 then 11 else memcmp (min len const_len) aid const_aid
      else if len \<noteq> const_len then 11
      else memcmp const_len aid const_aid)"

definition select_applet :: "bytes \<Rightarrow> nat \<Rightarrow> nfc \<Rightarrow> applet \<times> nfc" where
  "select_applet aid len n =
     (if applet_cmp aid len AID_FIDO = 0 then (APP_FIDO, n\<lparr>n_applet := APP_FIDO\<rparr>)
      else if applet_cmp aid len AID_NDEF_TYPE_4 = 0 then (APP_NDEF_TYPE_4, n\<lparr>n_applet := APP_NDEF_TYPE_4\<rparr>)
      else if applet_cmp aid len AID_CAPABILITY_CONTAINER = 0 then
        (APP_CAPABILITY_CONTAINER, n\<lparr>n_applet := APP_CAPABILITY_CONTAINER\<rparr>)
      else if applet_cmp aid len AID_NDEF_TAG = 0 then (APP_NDEF_TAG, n\<lparr>n_applet := APP_NDEF_TAG\<rparr>)
      else (APP_NOTHING, n))"

subsection \<open>Commands\<close>

definition APDU_FIDO_U2F_REGISTER :: u8 where "APDU_FIDO_U2F_REGISTER = 0x01"
definition APDU_FIDO_U2F_AUTHENTICATE :: u8 where "APDU_FIDO_U2F_AUTHENTICATE = 0x02"
definition APDU_FIDO_U2F_VERSION :: u8 where "APDU_FIDO_U2F_VERSION = 0x03"
definition APDU_FIDO_NFCCTAP_MSG :: u8 where "APDU_FIDO_NFCCTAP_MSG = 0x10"
definition APDU_SOLO_RESET :: u8 where "APDU_SOLO_RESET = 0xee"
definition APDU_INS_SELECT :: u8 where "APDU_INS_SELECT = 0xA4"
definition APDU_INS_READ_BINARY :: u8 where "APDU_INS_READ_BINARY = 0xB0"
definition APDU_GET_RESPONSE :: u8 where "APDU_GET_RESPONSE = 0xC0"

lemmas ins_defs = APDU_FIDO_U2F_REGISTER_def APDU_FIDO_U2F_AUTHENTICATE_def APDU_FIDO_U2F_VERSION_def APDU_FIDO_NFCCTAP_MSG_def
  APDU_SOLO_RESET_def APDU_INS_SELECT_def APDU_INS_READ_BINARY_def APDU_GET_RESPONSE_def

text \<open>The write of a status word, its result dropped.\<close>

definition answer_sw :: "nfc_link \<Rightarrow> u8 \<Rightarrow> u16 \<Rightarrow> nfc \<Rightarrow> nfc_stop + nfc" where
  "answer_sw lk buf0 sw n = seqE (nfc_write_response lk buf0 sw n) (\<lambda>(r, n). Inr n)"

text \<open>\<open>pck\<close> has 255 bytes; \<open>le\<close> is the expected length.\<close>

definition get_response :: "nfc_link \<Rightarrow> u8 \<Rightarrow> u8 \<Rightarrow> u8 \<Rightarrow> u32 \<Rightarrow> nfc \<Rightarrow> nfc_stop + nfc" where
  "get_response lk buf0 p1 p2 le n =
     (if p1 \<noteq> 0 \<or> p2 \<noteq> 0 then answer_sw lk buf0 SW_INCORRECT_P1P2 n
      else if le \<noteq> 0 \<and> le \<noteq> 0x100 \<and> unat le > n_chain_len n then
        answer_sw lk buf0 (SW_WRONG_LENGTH + (if n_chain_len n \<le> 0xff then of_nat (n_chain_len n) AND 0xff else 0)) n
      else
        let pcklen = (if le \<noteq> 0 then unat le else 253);
            pcklen = (if pcklen > n_chain_len n then n_chain_len n else pcklen);
            rest_len = n_chain_len n - pcklen;
            tail = (if rest_len \<noteq> 0 then append_get_response rest_len else []) in
        if pcklen + length tail > 255 then Inl (NfcFault n)
        else
          seqE (nfc_write_response_chaining_plain lk buf0 (take pcklen (n_chain n) @ tail) n) (\<lambda>n.
          Inr (n\<lparr>n_chain_len := rest_len, n_chain := blit (n_chain n) 0 (block (n_chain n) pcklen rest_len)\<rparr>)))"

text \<open>A CTAP2 message: \<open>data\<close> is the memory at the payload and \<open>lc\<close> its length. With no payload the pointer is NULL and the
  length of the request wraps, so the parsers get all memory behind the first byte.\<close>

definition nfc_ctap ::
    "nfc_link \<Rightarrow> 'v cbor \<Rightarrow> environ \<Rightarrow> presence \<Rightarrow> u8 \<Rightarrow> bytes \<Rightarrow> nat \<Rightarrow> bool \<Rightarrow> nfc \<Rightarrow> nfc_stop + nfc" where
  "nfc_ctap lk cb env ps buf0 data lc ext n =
     (let d = device_disable_up True (n_dev n);
          request = (if lc = 0 then drop 1 data else take (lc - 1) (drop 1 data)) in
      case ctap_request cb env ps (env_enc_err env CTAP_RESPONSE_BUFFER_SIZE) (data ! 0) request d of
        Inl d \<Rightarrow> Inl (NfcExit d)
      | Inr (code, tr, d) \<Rightarrow>
          let status = (word_of_int code :: u8);
              n = n\<lparr>n_dev := device_disable_up False d\<rparr>;
              body = (if status = 0 \<and> tr \<noteq> [] then env_enc env tr else []) in
          if length body + 3 > CTAP_RESPONSE_BUFFER_SIZE then Inl (NfcFault n)
          else nfc_write_response_chaining lk buf0 (status # body @ [ucast (drop_bit 8 SW_SUCCESS), ucast SW_SUCCESS]) ext n)"

definition nfc_u2f ::
    "nfc_link \<Rightarrow> environ \<Rightarrow> presence \<Rightarrow> u8 \<Rightarrow> bytes \<Rightarrow> bytes \<Rightarrow> nat \<Rightarrow> bool \<Rightarrow> nfc \<Rightarrow> nfc_stop + nfc" where
  "nfc_u2f lk env ps buf0 apduptr data lc ext n =
     (let req = \<lparr>ah_cla = apduptr ! 0, ah_ins = apduptr ! 1, ah_p1 = apduptr ! 2\<rparr> in
      case u2f_request_nfc env ps req data lc (n_dev n) of
        Inl d \<Rightarrow> Inl (NfcExit d)
      | Inr (resp, d) \<Rightarrow> nfc_write_response_chaining lk buf0 resp ext (n\<lparr>n_dev := d\<rparr>))"

definition read_binary :: "nfc_link \<Rightarrow> u8 \<Rightarrow> u32 \<Rightarrow> nfc \<Rightarrow> nfc_stop + nfc" where
  "read_binary lk buf0 le n =
     (let reslen = unat (ucast (le AND 0xffff) :: u16);
          reply = (\<lambda>file.
            let k = (if reslen = 0 \<or> reslen > length file then length file else reslen) in
            seqE (nfc_write_response_ex lk buf0 (take k file) SW_SUCCESS n) (\<lambda>(r, n). Inr (snd (ams_wait_for_tx lk n)))) in
      case n_applet n of
        APP_CAPABILITY_CONTAINER \<Rightarrow> reply NFC_CC
      | APP_NDEF_TAG \<Rightarrow> reply NDEF_SAMPLE
      | _ \<Rightarrow> answer_sw lk buf0 SW_FILE_NOT_FOUND n)"
text \<open>\<open>apduptr\<close> is the memory at the command, \<open>data\<close> the memory at its payload.\<close>

definition apdu_process ::
    "nfc_link \<Rightarrow> 'v cbor \<Rightarrow> environ \<Rightarrow> presence \<Rightarrow> u8 \<Rightarrow> bytes \<Rightarrow> bytes \<Rightarrow> apdu_struct \<Rightarrow> nfc \<Rightarrow> nfc_stop + nfc" where
  "apdu_process lk cb env ps buf0 apduptr data apdu n =
     (let ins = a_ins apdu; lc = unat (a_lc apdu) in
      if a_cla apdu \<noteq> 0x00 \<and> a_cla apdu \<noteq> 0x80 then answer_sw lk buf0 SW_CLA_INVALID n
      else if ins = APDU_GET_RESPONSE then get_response lk buf0 (a_p1 apdu) (a_p2 apdu) (a_le apdu) n
      else if ins = APDU_INS_SELECT then
        case select_applet data lc n of (selected, n) \<Rightarrow>
          if selected = APP_FIDO then
            seqE (nfc_write_response_ex lk buf0 [0x55, 0x32, 0x46, 0x5f, 0x56, 0x32] SW_SUCCESS n) (\<lambda>(r, n). Inr n)
          else if selected \<noteq> APP_NOTHING then answer_sw lk buf0 SW_SUCCESS n
          else answer_sw lk buf0 SW_FILE_NOT_FOUND n
      else if ins = APDU_FIDO_U2F_VERSION then
        if n_applet n \<noteq> APP_FIDO then answer_sw lk buf0 SW_INS_INVALID n
        else nfc_u2f lk env ps buf0 apduptr data lc (a_ext apdu) n
      else if ins = APDU_FIDO_U2F_REGISTER then
        if n_applet n \<noteq> APP_FIDO then answer_sw lk buf0 SW_INS_INVALID n
        else if lc \<noteq> 64 then answer_sw lk buf0 SW_WRONG_LENGTH n
        else nfc_u2f lk env ps buf0 apduptr data lc (a_ext apdu) n
      else if ins = APDU_FIDO_U2F_AUTHENTICATE then
        if n_applet n \<noteq> APP_FIDO then answer_sw lk buf0 SW_INS_INVALID n
        else if lc \<noteq> 64 + 1 + unat (data ! 64) then answer_sw lk buf0 SW_WRONG_LENGTH n
        else nfc_u2f lk env ps buf0 apduptr data lc (a_ext apdu) n
      else if ins = APDU_FIDO_NFCCTAP_MSG then
        if n_applet n \<noteq> APP_FIDO then answer_sw lk buf0 SW_INS_INVALID n
        else nfc_ctap lk cb env ps buf0 data lc (a_ext apdu) n
      else if ins = APDU_INS_READ_BINARY then read_binary lk buf0 (a_le apdu) n
      else if ins = APDU_SOLO_RESET then
        if lc = 4 \<and> take 4 data = [0x12, 0x56, 0xab, 0xf0] then
          seqE (answer_sw lk buf0 SW_SUCCESS n) (\<lambda>n. Inl (NfcReboot n))
        else answer_sw lk buf0 SW_INS_INVALID n
      else answer_sw lk buf0 SW_INS_INVALID n)"

subsection \<open>Blocks\<close>

text \<open>A length that is negative as an \<open>int\<close> is a huge \<open>size_t\<close>.\<close>

definition size_of_int :: "int \<Rightarrow> nat" where
  "size_of_int i = nat (i mod 2 ^ 32)"

text \<open>The block is in \<open>ibuf\<close>; \<open>len\<close> counts its bytes. The merge writes through the payload pointer: NULL when the last command of a
  chain has no payload.\<close>

definition nfc_process_iblock ::
    "nfc_link \<Rightarrow> 'v cbor \<Rightarrow> environ \<Rightarrow> presence \<Rightarrow> nat \<Rightarrow> nfc \<Rightarrow> nfc_stop + nfc" where
  "nfc_process_iblock lk cb env ps len n =
     (let buf0 = n_ibuf n ! 0;
          block_offset = p14443_block_offset buf0;
          n = (if n_chain_tx n \<and> n_ibuf n ! (block_offset + 1) \<noteq> APDU_GET_RESPONSE
               then n\<lparr>n_chain_len := 0, n_chain_tx := False\<rparr> else n);
          (ret, apdu) = apdu_decode (drop block_offset (n_ibuf n)) (size_of_int (int len - int block_offset));
          lc = unat (a_lc apdu);
          at_data = map_option (\<lambda>k. block_offset + k) (a_data apdu) in
      if ret \<noteq> 0 then answer_sw lk buf0 ret n
      else if \<not> n_chain_tx n \<and> n_ibuf n ! block_offset AND 0x10 \<noteq> 0 then
        if n_chain_len n + len > CHAIN_SIZE then answer_sw lk buf0 SW_WRONG_LENGTH n
        else
          let payload = (case at_data of None \<Rightarrow> [] | Some k \<Rightarrow> block (n_ibuf n) k lc);
              n = n\<lparr>n_chain := blit (n_chain n) (n_chain_len n) payload, n_chain_len := n_chain_len n + lc\<rparr>
          in answer_sw lk buf0 SW_SUCCESS n
      else if \<not> n_chain_tx n \<and> n_chain_len n > 0 then
        case at_data of
          None \<Rightarrow> Inl (NfcFault n)
        | Some k \<Rightarrow>
            if k + n_chain_len n + lc > IBUF_SIZE then Inl (NfcFault n)
            else
              let buf = blit (n_ibuf n) (k + n_chain_len n) (block (n_ibuf n) k lc);
                  buf = blit buf k (take (n_chain_len n) (n_chain n));
                  apdu = apdu\<lparr>a_lc := a_lc apdu + of_nat (n_chain_len n)\<rparr>;
                  n = n\<lparr>n_ibuf := buf\<rparr>
              in apdu_process lk cb env ps buf0 (drop block_offset buf) (drop k buf) apdu n
      else
        apdu_process lk cb env ps buf0 (drop block_offset (n_ibuf n))
          (case at_data of None \<Rightarrow> env_null env | Some k \<Rightarrow> drop k (n_ibuf n)) apdu n)"

definition set_cid :: "bytes \<Rightarrow> nfc \<Rightarrow> nfc" where
  "set_cid buf n = (if p14443_have_cid (buf ! 0) then n\<lparr>n_current_cid := buf ! 1\<rparr> else n)"

text \<open>The payload of a received block goes behind what \<open>ibuf\<close> holds.\<close>

definition ibuf_append :: "bytes \<Rightarrow> nat \<Rightarrow> nfc \<Rightarrow> nfc" where
  "ibuf_append buf len n =
     (let off = p14443_block_offset (buf ! 0) in
      if len > off
      then n\<lparr>n_ibuf := blit (n_ibuf n) (n_ibuflen n) (block buf off (len - off)), n_ibuflen := n_ibuflen n + (len - off)\<rparr>
      else n)"

definition last_iblock ::
    "nfc_link \<Rightarrow> 'v cbor \<Rightarrow> environ \<Rightarrow> presence \<Rightarrow> bytes \<Rightarrow> nat \<Rightarrow> nfc \<Rightarrow> nfc_stop + nfc" where
  "last_iblock lk cb env ps buf len n =
     (let off = p14443_block_offset (buf ! 0) in
      if n_ibuflen n \<noteq> 0 then
        if n_ibuflen n + (len - off) + off > IBUF_SIZE then Inl (NfcFault n)
        else
          let n = ibuf_append buf len n;
              n = n\<lparr>n_ibuf := blit (n_ibuf n) off (take (n_ibuflen n) (n_ibuf n))\<rparr>;
              n = n\<lparr>n_ibuf := blit (n_ibuf n) 0 (take off buf), n_ibuflen := n_ibuflen n + off\<rparr>
          in seqE (nfc_process_iblock lk cb env ps (n_ibuflen n) n) (\<lambda>n. Inr (clear_ibuf n))
      else
        seqE (nfc_process_iblock lk cb env ps len (n\<lparr>n_ibuf := blit (n_ibuf n) 0 (take len buf)\<rparr>)) (\<lambda>n. Inr (clear_ibuf n)))"

text \<open>\<open>buf\<close> is the 32-byte receive buffer with \<open>len\<close> bytes received; the rest of it is what the stack held.\<close>

definition nfc_process_block ::
    "nfc_link \<Rightarrow> 'v cbor \<Rightarrow> environ \<Rightarrow> presence \<Rightarrow> bytes \<Rightarrow> nat \<Rightarrow> nfc \<Rightarrow> nfc_stop + nfc" where
  "nfc_process_block lk cb env ps buf len n =
     (let pcb = buf ! 0; off = p14443_block_offset pcb in
      if len = 0 then Inr n
      else if IS_PPSS_CMD pcb then
        Inr (nfc_write_frame (if buf ! 1 = 0x11 \<and> buf ! 2 AND 0x0f = 0 then take 1 buf else [0]) n)
      else if IS_IBLOCK pcb then
        let n = set_cid buf n in
        if pcb AND 0x10 \<noteq> 0 then
          if n_ibuflen n + len > IBUF_SIZE then answer_sw lk pcb SW_INTERNAL_EXCEPTION n
          else Inr (rblock_acknowledge pcb True (ibuf_append buf len n))
        else last_iblock lk cb env ps buf len n
      else if IS_RBLOCK pcb then Inr (rblock_acknowledge pcb True (set_cid buf n))
      else if IS_SBLOCK pcb then
        if pcb AND NFC_SBLOCK_DESELECT = 0 then
          let n = nfc_write_frame (take off buf) (set_cid buf n);
              n = put_out ChipSleep (snd (ams_wait_for_tx lk n))
          in Inr (WTX_clear (clear_ibuf (nfc_state_init n)))
        else answer_sw lk pcb SW_COND_USE_NOT_SATISFIED n
      else Inr n)"

text \<open>The registers as one round of the main loop reads them, and the bytes in the buffer of the chip.\<close>

record ams_regs =
  rg_int0 :: u8
  rg_rfid_status :: u8
  rg_buffer_status2 :: u8
  rg_data :: bytes

text \<open>\<open>stk\<close> is the receive buffer before the read.\<close>

definition nfc_loop ::
    "nfc_link \<Rightarrow> 'v cbor \<Rightarrow> environ \<Rightarrow> presence \<Rightarrow> bytes \<Rightarrow> ams_regs \<Rightarrow> nfc \<Rightarrow> nfc_stop + (nat \<times> nfc)" where
  "nfc_loop lk cb env ps stk r n =
     (let old_int0 = n_int0 n;
          n = n\<lparr>n_int0 := rg_int0 r\<rparr>;
          state = AMS_STATE_MASK AND rg_rfid_status r in
      if state \<noteq> AMS_STATE_SELECTED \<and> state \<noteq> AMS_STATE_SELECTEDX then Inr (0, n)
      else
        let n = (if rg_int0 r AND AMS_INT_INIT \<noteq> 0 \<or> old_int0 AND AMS_INT_INIT \<noteq> 0 then nfc_state_init n else n);
            len = (if (rg_int0 r AND AMS_INT_RXE \<noteq> 0 \<or> old_int0 AND AMS_INT_RXE \<noteq> 0)
                      \<and> rg_buffer_status2 r \<noteq> 0 \<and> rg_buffer_status2 r AND AMS_BUF_INVALID = 0
                   then unat (rg_buffer_status2 r AND AMS_BUF_LEN_MASK) else 0);
            buf = blit stk 0 (take len (rg_data r)) in
        if len = 0 then Inr (0, n)
        else if buf ! 0 = NFC_CMD_REQA \<or> buf ! 0 = NFC_CMD_WUPA then Inr (len, n)
        else if buf ! 0 = NFC_CMD_HLTA then Inr (len, put_out ChipSleep n)
        else if buf ! 0 = NFC_CMD_RATS then
          let n = snd (answer_rats lk (buf ! 1) n) in Inr (len, WTX_clear (clear_ibuf (n\<lparr>n_block_num := 1\<rparr>)))
        else seqE (nfc_process_block lk cb env ps buf len n) (\<lambda>n. Inr (len, n)))"

text \<open>\<open>nfc_init\<close>: the rounds that fit into its ten milliseconds. The first message found means power from the field.\<close>

definition NFC_IS_NA :: nat where "NFC_IS_NA = 0"
definition NFC_IS_ACTIVE :: nat where "NFC_IS_ACTIVE = 1"
definition NFC_IS_AVAILABLE :: nat where "NFC_IS_AVAILABLE = 2"

primrec nfc_detect ::
    "nfc_link \<Rightarrow> 'v cbor \<Rightarrow> environ \<Rightarrow> presence \<Rightarrow> (bytes \<times> ams_regs) list \<Rightarrow> nfc \<Rightarrow> nfc_stop + (bool \<times> nfc)" where
  "nfc_detect lk cb env ps [] n = Inr (False, n)"
| "nfc_detect lk cb env ps (x # xs) n =
     seqE (nfc_loop lk cb env ps (fst x) (snd x) n) (\<lambda>(len, n).
       if len > 0 then Inr (True, n) else nfc_detect lk cb env ps xs n)"

definition nfc_init ::
    "nfc_link \<Rightarrow> 'v cbor \<Rightarrow> environ \<Rightarrow> presence \<Rightarrow> bool \<Rightarrow> (bytes \<times> ams_regs) list \<Rightarrow> nfc \<Rightarrow> nfc_stop + (nat \<times> nfc)" where
  "nfc_init lk cb env ps init rounds n =
     seqE (nfc_detect lk cb env ps rounds (nfc_state_init n)) (\<lambda>(active, n).
       Inr (if active then NFC_IS_ACTIVE else if init then NFC_IS_AVAILABLE else NFC_IS_NA, n))"

end
