(* ===== verification/NfcProps.thy ===== *)
theory NfcProps
  imports Nfc
begin

text \<open>
  The NFC transport: its buffers keep their sizes; a command in chained blocks is the command in one block; a response
  in chained blocks and GET RESPONSE parts arrives whole at a reader that plays its part.
\<close>

subsection \<open>A reader that acknowledges\<close>

definition acks :: "bytes \<Rightarrow> bytes \<Rightarrow> bool" where
  "acks f r \<longleftrightarrow> length r \<le> 32 \<and> r \<noteq> [] \<and> IS_RBLOCK (r ! 0) \<and> r ! 0 AND NFC_CMD_RBLOCK_ACK = 0
     \<and> length r = p14443_block_offset (r ! 0) \<and> r ! 0 AND 1 \<noteq> f ! 0 AND 1"

definition reader_acks :: "nfc_link \<Rightarrow> bool" where
  "reader_acks lk \<longleftrightarrow> (\<forall>n. fst (ams_wait_for_tx lk n))
     \<and> (\<forall>n out f. n_out n = out @ [Frame f] \<longrightarrow> f ! 0 AND 0x10 \<noteq> 0
          \<longrightarrow> (\<exists>r. fst (ams_receive_with_timeout lk 32 n) = Some r \<and> acks f r))"

text \<open>A simple one: the transmission ends at the first poll, the acknowledgement is there at the first poll.\<close>

definition link0 :: nfc_link where
  "link0 = \<lparr>lk_now = (\<lambda>_. AMS_INT_TXE), lk_tx = (\<lambda>_. [AMS_INT_TXE]),
     lk_rx = (\<lambda>out. case out of [] \<Rightarrow> [] | _ \<Rightarrow>
       (case List.last out of Frame f \<Rightarrow> [(AMS_INT_RXE, 1, [if f ! 0 AND 1 = 0 then 0xa3 else 0xa2])] | _ \<Rightarrow> []))\<rparr>"

lemma and_1_cases: "(x :: u8) AND 1 = 0 \<or> x AND 1 = 1"
  by (simp add: and_one_eq mod2_eq_if)

lemma link0_acks: "reader_acks link0"
  unfolding reader_acks_def
proof (intro conjI allI impI)
  fix n :: nfc show "fst (ams_wait_for_tx link0 n)" by (simp add: ams_wait_for_tx_def link0_def ams_defs)
next
  fix n :: nfc and out f assume "n_out n = out @ [Frame f]"
  then have "lk_rx link0 (n_out n) = [(AMS_INT_RXE, 1, [if f ! 0 AND 1 = 0 then 0xa3 else 0xa2])]"
    by (cases out) (simp_all add: link0_def)
  then show "\<exists>r. fst (ams_receive_with_timeout link0 32 n) = Some r \<and> acks f r"
    using and_1_cases[of "f ! 0"]
    by (auto simp: ams_receive_with_timeout_def ams_defs acks_def block_kinds nfc_cmds p14443_block_offset_def)
qed

subsection \<open>A response in blocks\<close>

lemma block_offset_bounds: "1 \<le> p14443_block_offset pcb" "p14443_block_offset pcb \<le> 3"
  by (simp_all add: p14443_block_offset_def)

lemma block_head_len [simp]: "length (block_head req0 pcb cid) = p14443_block_offset req0"
  using block_offset_bounds(2)[of req0] by (simp add: block_head_def)

lemma block_head_0 [simp]: "(block_head req0 pcb cid @ xs) ! 0 = pcb"
  using block_offset_bounds(1)[of req0] by (simp add: block_head_def nth_append)

text \<open>The blocks of a response, as the standard has them: the block number alternates, all but the last are marked.\<close>

function iblocks :: "u8 \<Rightarrow> u8 \<Rightarrow> u8 \<Rightarrow> bytes \<Rightarrow> bytes list" where
  "iblocks req0 cid iBlock rest =
     (let v = 32 - p14443_block_offset req0 in
      if length rest \<le> v then [block_head req0 iBlock cid @ rest]
      else (block_head req0 (iBlock OR 0x10) cid @ take v rest) # iblocks req0 cid (iBlock XOR 1) (drop v rest))"
  by pat_completeness auto

termination iblocks
  by (relation "measure (\<lambda>(_, _, _, rest). length rest)") (auto simp: p14443_block_offset_def split: if_splits)

declare iblocks.simps [simp del]

lemma iblocks_payload: "concat (map (drop (p14443_block_offset req0)) (iblocks req0 cid iBlock rest)) = rest"
proof (induction req0 cid iBlock rest rule: iblocks.induct)
  case (1 req0 cid iBlock rest)
  show ?case
  proof (cases "length rest \<le> 32 - p14443_block_offset req0")
    case False
    then have "concat (map (drop (p14443_block_offset req0)) (iblocks req0 cid (iBlock XOR 1) (drop (32 - p14443_block_offset req0) rest)))
        = drop (32 - p14443_block_offset req0) rest" using 1 by simp
    with False show ?thesis by (subst iblocks.simps) (simp add: Let_def)
  qed (subst iblocks.simps, simp add: Let_def)
qed

definition quiet_out :: "nfc \<Rightarrow> bytes list \<Rightarrow> nfc \<Rightarrow> bool" where
  "quiet_out n fs n' \<longleftrightarrow> (\<exists>g. n' = n\<lparr>n_out := n_out n @ map Frame fs, n_int0 := g\<rparr>)"

lemma wait_quiet: "quiet_out n [] (snd (ams_wait_for_tx lk n))"
  by (auto simp: quiet_out_def ams_wait_for_tx_def split: prod.splits)

lemma receive_quiet: "quiet_out n [] (snd (ams_receive_with_timeout lk m n))"
  by (auto simp: quiet_out_def ams_receive_with_timeout_def split: prod.splits)

lemma frame_quiet: "length f \<le> 32 \<Longrightarrow> quiet_out n [f] (nfc_write_frame f n)"
  by (cases n) (auto simp: quiet_out_def nfc_write_frame_def put_out_def)

lemma quiet_out_trans: "quiet_out n fs n' \<Longrightarrow> quiet_out n' gs n'' \<Longrightarrow> quiet_out n (fs @ gs) n''"
  by (auto simp: quiet_out_def)

lemma quiet_out_cid: "quiet_out n fs n' \<Longrightarrow> n_current_cid n' = n_current_cid n"
  by (auto simp: quiet_out_def)

lemma or_16: "((x :: u8) OR 0x10) AND 0x10 \<noteq> 0" "((x :: u8) OR 0x10) AND 1 = x AND 1"
proof -
  have "bit ((x OR 0x10) AND 0x10) 4" by (simp add: bit_simps)
  then show "(x OR 0x10) AND 0x10 \<noteq> 0" by force
  show "(x OR 0x10) AND 1 = x AND 1"
    by (rule bit_word_eqI) (auto simp: bit_simps bit_1_iff)
qed

lemma ack_accepted:
  assumes "acks f r" shows "blit (zeros 32) 0 r ! 0 = r ! 0" "f ! 0 AND 1 = pcb AND 1 \<Longrightarrow> rblock_accepted pcb (blit (zeros 32) 0 r) (length r)"
proof -
  show *: "blit (zeros 32) 0 r ! 0 = r ! 0" using assms by (cases r) (simp_all add: acks_def blit_def)
  show "f ! 0 AND 1 = pcb AND 1 \<Longrightarrow> rblock_accepted pcb (blit (zeros 32) 0 r) (length r)"
    using assms by (auto simp: rblock_accepted_def * acks_def)
qed

lemma send_blocks_sends:
  assumes "reader_acks lk"
  shows "quiet_out n (iblocks req0 (n_current_cid n) iBlock rest) (send_blocks lk req0 iBlock rest n)"
proof (induction "length rest" arbitrary: rest iBlock n rule: less_induct)
  case less
  let ?off = "p14443_block_offset req0"
  let ?v = "min (32 - ?off) (length rest)"
  let ?pcb = "if ?v < length rest then iBlock OR 0x10 else iBlock"
  let ?f = "block_head req0 ?pcb (n_current_cid n) @ take ?v rest"
  define n1 where "n1 = nfc_write_frame ?f n"
  define n2 where "n2 = snd (ams_wait_for_tx lk n1)"
  define n3 where "n3 = snd (ams_receive_with_timeout lk 32 n2)"
  have off: "?off \<le> 3" by (rule block_offset_bounds)
  have len: "length ?f \<le> 32" using off by simp
  have q1: "quiet_out n [?f] n1" unfolding n1_def by (rule frame_quiet[OF len])
  have q2: "quiet_out n [?f] n2" using quiet_out_trans[OF q1 wait_quiet] unfolding n2_def by simp
  have q3: "quiet_out n [?f] n3" using quiet_out_trans[OF q2 receive_quiet] unfolding n3_def by simp
  have w: "ams_wait_for_tx lk n1 = (True, n2)"
    using assms by (auto simp: reader_acks_def n2_def prod_eq_iff)
  show ?case
  proof (cases "?v < length rest")
    case False
    then have "send_blocks lk req0 iBlock rest n = n2"
      using w unfolding n1_def by (subst send_blocks.simps) (simp add: Let_def)
    moreover have "iblocks req0 (n_current_cid n) iBlock rest = [?f]"
      using False by (subst iblocks.simps) (auto simp: Let_def)
    ultimately show ?thesis using q2 by simp
  next
    case True
    then have T: "32 - ?off < length rest" by (simp add: min_def split: if_splits)
    have o: "n_out n2 = n_out n @ [Frame ?f]" using q2 by (auto simp: quiet_out_def)
    have "?f ! 0 AND 0x10 \<noteq> 0" by (simp only: block_head_0 True if_True or_16 not_False_eq_True)
    with assms o obtain r where r: "fst (ams_receive_with_timeout lk 32 n2) = Some r" "acks ?f r"
      unfolding reader_acks_def by blast
    have "?f ! 0 AND 1 = ?pcb AND 1" by simp
    then have acc: "rblock_accepted ?pcb (blit (zeros 32) 0 r) (length r)" "blit (zeros 32) 0 r ! 0 = r ! 0"
      using ack_accepted[OF r(2)] by blast+
    have rr: "ams_receive_with_timeout lk 32 n2 = (Some r, n3)" using r(1) by (simp add: n3_def prod_eq_iff)
    have "send_blocks lk req0 iBlock rest n = send_blocks lk req0 (iBlock XOR 1) (drop ?v rest) n3"
      using w rr acc r(2) T unfolding n1_def
      by (subst send_blocks.simps) (simp add: Let_def acks_def)
    moreover have "iblocks req0 (n_current_cid n) iBlock rest
        = ?f # iblocks req0 (n_current_cid n) (iBlock XOR 1) (drop ?v rest)"
      using True by (subst iblocks.simps) (auto simp: Let_def min_def split: if_splits)
    moreover have "quiet_out n3 (iblocks req0 (n_current_cid n3) (iBlock XOR 1) (drop ?v rest))
        (send_blocks lk req0 (iBlock XOR 1) (drop ?v rest) n3)"
      using True off by (intro less) auto
    ultimately show ?thesis using quiet_out_trans[OF q3] quiet_out_cid[OF q3] by fastforce
  qed
qed
subsection \<open>A response in GET RESPONSE parts\<close>

text \<open>What the reader gets out of the frames since \<open>n\<close>.\<close>

definition answered :: "nat \<Rightarrow> nfc \<Rightarrow> nfc \<Rightarrow> bytes" where
  "answered off n n' = concat (map (\<lambda>x. case x of Frame f \<Rightarrow> drop off f | _ \<Rightarrow> []) (drop (length (n_out n)) (n_out n')))"

text \<open>A host that asks for more as long as the status is 61XX: for XX bytes, and without Le when XX is zero. \<open>ans\<close> is the last
  answer.\<close>

primrec host_fetch :: "nat \<Rightarrow> nfc_link \<Rightarrow> u8 \<Rightarrow> bytes \<Rightarrow> nfc \<Rightarrow> nfc_stop + (bytes \<times> nfc)" where
  "host_fetch 0 lk req0 ans n = Inr (ans, n)"
| "host_fetch (Suc k) lk req0 ans n =
     (if ans ! (length ans - 2) \<noteq> 0x61 then Inr (ans, n)
      else seqE (get_response lk req0 0 0 (ucast (ans ! (length ans - 1))) n) (\<lambda>n'.
           seqE (host_fetch k lk req0 (answered (p14443_block_offset req0) n n') n') (\<lambda>(rest, n'').
           Inr (take (length ans - 2) ans @ rest, n''))))"

definition pending :: "nfc \<Rightarrow> bytes \<Rightarrow> bool" where
  "pending n p \<longleftrightarrow> length (n_chain n) = CHAIN_SIZE \<and> n_chain_len n = length p \<and> length p \<le> CHAIN_SIZE \<and> take (length p) (n_chain n) = p"

lemma quiet_out_answered: "quiet_out n fs n' \<Longrightarrow> answered off n n' = concat (map (drop off) fs)"
  by (auto simp: quiet_out_def answered_def comp_def)

lemma quiet_out_chain:
  "quiet_out n fs n' \<Longrightarrow> n_chain n' = n_chain n \<and> n_chain_len n' = n_chain_len n \<and> n_chain_tx n' = n_chain_tx n"
  by (auto simp: quiet_out_def)

lemma plain_sends:
  assumes "reader_acks lk" "p14443_block_offset req0 + length data \<le> 32 \<or> 31 < length data"
  obtains fs n' where "nfc_write_response_chaining_plain lk req0 data n = Inr n'" "quiet_out n fs n'"
    "concat (map (drop (p14443_block_offset req0)) fs) = data"
proof (cases "31 < length data")
  case True
  then show ?thesis
    using send_blocks_sends[OF assms(1), of n req0 "iblock_pcb req0" data] iblocks_payload
    by (intro that[of "send_blocks lk req0 (iblock_pcb req0) data n"]) (auto simp: nfc_write_response_chaining_plain_def)
next
  case False
  with assms show ?thesis
    by (intro that[of "nfc_write_frame (block_head req0 (iblock_pcb req0) (n_current_cid n) @ data) n"
          "[block_head req0 (iblock_pcb req0) (n_current_cid n) @ data]"])
       (auto simp: nfc_write_response_chaining_plain_def intro: frame_quiet)
qed

lemma answered_chain [simp]:
  "answered off n (n'\<lparr>n_chain_len := k, n_chain := c\<rparr>) = answered off n n'" "answered off n (n'\<lparr>n_chain := c\<rparr>) = answered off n n'"
  "answered off (n\<lparr>n_chain_len := k, n_chain := c\<rparr>) n' = answered off n n'"
  by (simp_all add: answered_def)

definition part_of :: "bytes \<Rightarrow> bytes" where
  "part_of p = (if length p \<le> 255 then p else take 253 p @ append_get_response (length p - 253))"

definition rest_of :: "bytes \<Rightarrow> bytes" where
  "rest_of p = (if length p \<le> 255 then [] else drop 253 p)"

lemma pending_shift:
  assumes "pending n p" "k \<le> length p"
  shows "pending (n'\<lparr>n_chain_len := length p - k, n_chain := blit (n_chain n) 0 (block (n_chain n) k (length p - k))\<rparr>) (drop k p)"
proof -
  have "block (n_chain n) k (length p - k) = drop k p"
    using assms by (simp add: pending_def block_def take_drop[symmetric] flip: drop_take)
  with assms show ?thesis by (auto simp: pending_def blit_def)
qed

lemma take_of_take: "take m xs = p \<Longrightarrow> k \<le> m \<Longrightarrow> take k xs = take k p"
  by (auto simp: min_def)

definition xx_of :: "nat \<Rightarrow> u8" where
  "xx_of k = (if k \<le> 255 then of_nat k else 0)"

lemma xx_of_le: "0 < k \<Longrightarrow> xx_of k = 0 \<longleftrightarrow> 255 < k" "k \<le> 255 \<Longrightarrow> unat (xx_of k) = k"
  "(ucast (xx_of k) :: u32) \<noteq> 0x100"
proof -
  have u: "unat (xx_of k) = (if k \<le> 255 then k else 0)"
    by (auto simp: xx_of_def unat_of_nat take_bit_eq_mod)
  then show "k \<le> 255 \<Longrightarrow> unat (xx_of k) = k" by simp
  show "0 < k \<Longrightarrow> xx_of k = 0 \<longleftrightarrow> 255 < k" using u by (auto simp: word_unat_eq_iff)
  show "(ucast (xx_of k) :: u32) \<noteq> 0x100"
  proof
    assume "(ucast (xx_of k) :: u32) = 0x100"
    then have "unat (ucast (xx_of k) :: u32) = 256" by simp
    with unat_u8_lt[of "xx_of k"] show False by simp
  qed
qed

lemma get_response_step:
  assumes "reader_acks lk" "pending n p" "p \<noteq> []" "p14443_block_offset req0 = 1"
  obtains n' where "get_response lk req0 0 0 (ucast (xx_of (length p))) n = Inr n'"
    "answered 1 n n' = part_of p" "pending n' (rest_of p)"
proof -
  let ?k = "if length p \<le> 255 then length p else 253"
  have part: "take ?k (n_chain n) @ (if length p - ?k \<noteq> 0 then append_get_response (length p - ?k) else []) = part_of p"
    using assms(2) by (cases "length p \<le> 255") (auto simp: pending_def part_of_def intro: take_of_take)
  have "p14443_block_offset req0 + length (part_of p) \<le> 32 \<or> 31 < length (part_of p)"
    using assms(4) by auto
  from plain_sends[OF assms(1) this] obtain fs n1 where
    s: "nfc_write_response_chaining_plain lk req0 (part_of p) n = Inr n1" "quiet_out n fs n1"
      "concat (map (drop 1) fs) = part_of p"
    using assms(4) by metis
  have len: "length (if length p - ?k \<noteq> 0 then append_get_response (length p - ?k) else []) = (if length p \<le> 255 then 0 else 2)"
    by (simp add: append_get_response_def)
  have p: "n_chain_len n = length p" using assms(2) by (simp add: pending_def)
  have cond: "\<not> ((ucast (xx_of (length p)) :: u32) \<noteq> 0 \<and> (ucast (xx_of (length p)) :: u32) \<noteq> 0x100
      \<and> unat (ucast (xx_of (length p)) :: u32) > length p)"
    using xx_of_le[of "length p"] assms(3) by (cases "length p \<le> 255") auto
  have k: "(let k = (if (ucast (xx_of (length p)) :: u32) \<noteq> 0 then unat (ucast (xx_of (length p)) :: u32) else 253)
      in if k > length p then length p else k) = ?k"
    using xx_of_le[of "length p"] assms(3) by (cases "length p \<le> 255") (auto simp: Let_def)
  have fits: "\<not> ?k + length (if length p - ?k \<noteq> 0 then append_get_response (length p - ?k) else []) > 255"
    using len by (cases "length p \<le> 255") auto
  define n2 where "n2 = n1\<lparr>n_chain_len := length p - ?k, n_chain := blit (n_chain n1) 0 (block (n_chain n1) ?k (length p - ?k))\<rparr>"
  have g: "get_response lk req0 0 0 (ucast (xx_of (length p))) n = Inr n2"
    unfolding get_response_def p Let_def
    using cond k[unfolded Let_def] fits part s(1) by (simp only: if_False simp_thms seqE_simps n2_def)
  have c: "n_chain n1 = n_chain n" using quiet_out_chain[OF s(2)] by simp
  have "pending n2 (drop ?k p)" unfolding n2_def c by (rule pending_shift[OF assms(2)]) simp
  moreover have "drop ?k p = rest_of p" by (simp add: rest_of_def)
  moreover have "answered 1 n n2 = part_of p" using quiet_out_answered[OF s(2), of 1] s(3) by (simp add: n2_def answered_def)
  ultimately show ?thesis using g that by simp
qed

lemma host_fetch_all:
  assumes "reader_acks lk" "p14443_block_offset req0 = 1"
  shows "pending n p \<Longrightarrow> 3 \<le> length p \<Longrightarrow> p ! (length p - 2) \<noteq> 0x61 \<Longrightarrow> length p div 253 \<le> k
    \<Longrightarrow> \<exists>n'. host_fetch (Suc k) lk req0 (a @ append_get_response (length p)) n = Inr (a @ p, n') \<and> n_chain_len n' = 0"
proof (induction "length p" arbitrary: p a n k rule: less_induct)
  case less
  let ?ans = "a @ append_get_response (length p)"
  have ans: "?ans ! (length ?ans - 2) = 0x61" "?ans ! (length ?ans - 1) = xx_of (length p)" "take (length ?ans - 2) ?ans = a"
    by (simp_all add: append_get_response_def xx_of_def nth_append)
  obtain n' where s: "get_response lk req0 0 0 (ucast (xx_of (length p))) n = Inr n'" "answered 1 n n' = part_of p"
      "pending n' (rest_of p)"
    by (rule get_response_step[OF assms(1) less.prems(1) _ assms(2)]) (use less.prems(2) in auto)
  have f: "host_fetch (Suc k) lk req0 ?ans n =
      seqE (host_fetch k lk req0 (part_of p) n') (\<lambda>(rest, n''). Inr (a @ rest, n''))"
    using s(1,2) assms(2) ans by simp
  show ?case
  proof (cases "length p \<le> 255")
    case True
    then have "part_of p = p" "n_chain_len n' = 0" using s(3) by (simp_all add: part_of_def rest_of_def pending_def)
    moreover have "host_fetch k lk req0 p n' = Inr (p, n')" using less.prems(3) by (cases k) simp_all
    ultimately show ?thesis using f by simp
  next
    case False
    then have d: "part_of p = take 253 p @ append_get_response (length (drop 253 p))" "rest_of p = drop 253 p"
      by (simp_all add: part_of_def rest_of_def)
    from False obtain j where j: "k = Suc j" using less.prems(4) by (cases k) auto
    have b: "length (drop 253 p) div 253 \<le> j" using False j less.prems(4)
      by (simp add: le_div_geq)
    have st: "drop 253 p ! (length (drop 253 p) - 2) \<noteq> 0x61" using False less.prems(3) by simp
    have "length (drop 253 p) < length p" "3 \<le> length (drop 253 p)" using False by simp_all
    from less.hyps[OF this(1) s(3)[unfolded d(2)] this(2) st b, of "take 253 p"]
    obtain n'' where "host_fetch k lk req0 (part_of p) n' = Inr (p, n'')" "n_chain_len n'' = 0"
      using j d(1) by (auto simp del: host_fetch.simps)
    with f show ?thesis by simp
  qed
qed
subsection \<open>A command in blocks\<close>

text \<open>Frames received one after the other, each over what the stack held.\<close>

primrec run_blocks ::
    "nfc_link \<Rightarrow> 'v cbor \<Rightarrow> environ \<Rightarrow> presence \<Rightarrow> bytes \<Rightarrow> bytes list \<Rightarrow> nfc \<Rightarrow> nfc_stop + nfc" where
  "run_blocks lk cb env ps stk [] n = Inr n"
| "run_blocks lk cb env ps stk (f # fs) n =
     seqE (nfc_process_block lk cb env ps (blit stk 0 f) (length f) n) (run_blocks lk cb env ps stk fs)"

lemma run_blocks_append:
  "run_blocks lk cb env ps stk (fs @ gs) n = seqE (run_blocks lk cb env ps stk fs n) (run_blocks lk cb env ps stk gs)"
  by (induction fs arbitrary: n) (auto simp: seqE_def split: sum.splits)

definition iblock_frame :: "nat \<Rightarrow> bool \<Rightarrow> bytes \<Rightarrow> bool" where
  "iblock_frame off chained f \<longleftrightarrow> off \<le> length f \<and> length f \<le> 32 \<and> f \<noteq> [] \<and> IS_IBLOCK (f ! 0)
     \<and> p14443_block_offset (f ! 0) = off \<and> (f ! 0 AND 0x10 \<noteq> 0 \<longleftrightarrow> chained)"

definition ibuf_holds :: "bytes \<Rightarrow> nfc \<Rightarrow> bool" where
  "ibuf_holds p n \<longleftrightarrow> length p \<le> IBUF_SIZE \<and> n_ibuf n = p @ zeros (IBUF_SIZE - length p) \<and> n_ibuflen n = length p"

text \<open>The acknowledgement of one block, and what the blocks leave behind.\<close>

definition acked :: "bytes \<Rightarrow> nfc \<Rightarrow> nfc" where
  "acked f n = rblock_acknowledge (f ! 0) True (set_cid f n)"

definition holding :: "bytes \<Rightarrow> nfc \<Rightarrow> nfc" where
  "holding p n = n\<lparr>n_ibuf := p @ zeros (IBUF_SIZE - length p), n_ibuflen := length p\<rparr>"

lemma iblock_kind: "IS_IBLOCK x \<Longrightarrow> \<not> IS_PPSS_CMD x"
proof
  assume "IS_IBLOCK x" "IS_PPSS_CMD x"
  then have "(x AND 0xc0) AND 0xc0 = 0" "(x AND 0xf0) AND 0xc0 = 0xc0" by (simp_all add: block_kinds nfc_cmds)
  moreover have "(x AND 0xf0) AND 0xc0 = (x AND 0xc0) AND 0xc0" by (simp add: and.assoc)
  ultimately show False by simp
qed

lemma blit_front: "length f \<le> length stk \<Longrightarrow> i < length f \<Longrightarrow> blit stk 0 f ! i = f ! i"
  by (simp add: blit_def nth_append)

lemma set_cid_cong: "buf ! 0 = f ! 0 \<Longrightarrow> (p14443_have_cid (f ! 0) \<Longrightarrow> buf ! 1 = f ! 1) \<Longrightarrow> set_cid buf n = set_cid f n"
  by (simp add: set_cid_def)

lemma frame_bytes:
  assumes "iblock_frame off c f" "length stk = 32"
  shows "blit stk 0 f ! 0 = f ! 0" "set_cid (blit stk 0 f) n = set_cid f n" "take off (blit stk 0 f) = take off f"
    "block (blit stk 0 f) off (length f - off) = drop off f" "take (length f) (blit stk 0 f) = f"
proof -
  have l: "length f \<le> 32" "off \<le> length f" "0 < length f" "p14443_block_offset (f ! 0) = off"
    using assms(1) by (auto simp: iblock_frame_def)
  show h: "blit stk 0 f ! 0 = f ! 0" using l assms(2) by (simp add: blit_front)
  have "p14443_have_cid (f ! 0) \<Longrightarrow> 1 < length f" using l(2,4) by (auto simp: p14443_have_cid_def p14443_block_offset_def)
  then show "set_cid (blit stk 0 f) n = set_cid f n"
    using h l assms(2) by (intro set_cid_cong) (auto simp: blit_front)
qed (use assms in \<open>auto simp: iblock_frame_def blit_def block_def\<close>)

lemma holding_simps [simp]:
  "holding q (holding p n) = holding q n" "acked f (holding p n) = holding p (acked f n)" "set_cid f (holding p n) = holding p (set_cid f n)"
  "ibuf_holds p (holding p n) \<longleftrightarrow> length p \<le> IBUF_SIZE"
  by (simp_all add: holding_def acked_def rblock_acknowledge_def nfc_write_frame_def put_out_def set_cid_def Let_def ibuf_holds_def)

lemma holding_fold [simp]: "fold acked fs (holding p n) = holding p (fold acked fs n)"
  by (induction fs arbitrary: n) simp_all

lemma holding_same: "ibuf_holds p n \<Longrightarrow> holding p n = n"
  by (simp add: holding_def ibuf_holds_def)

lemma blit_end: "length p + length xs \<le> N \<Longrightarrow> blit (p @ zeros (N - length p)) (length p) xs = p @ xs @ zeros (N - (length p + length xs))"
  by (simp add: blit_def zeros_def)

lemma append_block:
  assumes "iblock_frame off c f" "length stk = 32" "ibuf_holds p n" "length p + length (drop off f) \<le> IBUF_SIZE"
  shows "ibuf_append (blit stk 0 f) (length f) n = holding (p @ drop off f) n"
proof -
  note fb = frame_bytes[OF assms(1,2)]
  have l: "p14443_block_offset (f ! 0) = off" "off \<le> length f" using assms(1) by (auto simp: iblock_frame_def)
  show ?thesis
  proof (cases "length f > off")
    case True
    then show ?thesis using assms(3,4) fb l by (simp add: ibuf_append_def holding_def ibuf_holds_def blit_end Let_def)
  next
    case False
    then show ?thesis using assms(3) fb l by (simp add: ibuf_append_def holding_def ibuf_holds_def Let_def)
  qed
qed

lemma set_cid_holds: "ibuf_holds p n \<Longrightarrow> ibuf_holds p (set_cid f n)"
  by (simp add: ibuf_holds_def set_cid_def)

lemma chained_block:
  assumes "iblock_frame off True f" "length stk = 32" "ibuf_holds p n" "off + length p + length (drop off f) \<le> IBUF_SIZE"
  shows "nfc_process_block lk cb env ps (blit stk 0 f) (length f) n = Inr (holding (p @ drop off f) (acked f n))"
proof -
  note fb = frame_bytes[OF assms(1,2)]
  have l: "IS_IBLOCK (f ! 0)" "f ! 0 AND 0x10 \<noteq> 0" "off \<le> length f" "f \<noteq> []" "\<not> IS_PPSS_CMD (f ! 0)"
    using assms(1) iblock_kind by (auto simp: iblock_frame_def)
  have "ibuf_append (blit stk 0 f) (length f) (set_cid f n) = holding (p @ drop off f) (set_cid f n)"
    using assms by (intro append_block) (auto intro: set_cid_holds)
  moreover have "\<not> n_ibuflen (set_cid f n) + length f > IBUF_SIZE"
    using assms(3,4) l(3) by (simp add: ibuf_holds_def set_cid_def)
  ultimately have "nfc_process_block lk cb env ps (blit stk 0 f) (length f) n
      = Inr (rblock_acknowledge (f ! 0) True (holding (p @ drop off f) (set_cid f n)))"
    using l fb by (simp add: nfc_process_block_def Let_def)
  then show ?thesis
    by (simp add: acked_def rblock_acknowledge_def holding_def nfc_write_frame_def put_out_def Let_def)
qed

lemma chained_blocks:
  assumes "length stk = 32"
  shows "list_all (iblock_frame off True) fs \<Longrightarrow> ibuf_holds p n \<Longrightarrow> off + length p + length (concat (map (drop off) fs)) \<le> IBUF_SIZE
    \<Longrightarrow> run_blocks lk cb env ps stk fs n = Inr (holding (p @ concat (map (drop off) fs)) (fold acked fs n))"
proof (induction fs arbitrary: p n)
  case Nil
  then show ?case by (simp add: holding_same)
next
  case (Cons f fs)
  have "nfc_process_block lk cb env ps (blit stk 0 f) (length f) n = Inr (holding (p @ drop off f) (acked f n))"
    using Cons.prems by (intro chained_block[OF _ assms]) auto
  moreover have "run_blocks lk cb env ps stk fs (holding (p @ drop off f) (acked f n))
      = Inr (holding ((p @ drop off f) @ concat (map (drop off) fs)) (fold acked fs (holding (p @ drop off f) (acked f n))))"
    using Cons.prems by (intro Cons.IH) auto
  ultimately show ?case by simp
qed

lemma last_block:
  assumes "iblock_frame off False g" "length stk = 32" "ibuf_holds p n" "off + length p + length (drop off g) \<le> IBUF_SIZE"
  shows "nfc_process_block lk cb env ps (blit stk 0 g) (length g) n =
    seqE (nfc_process_iblock lk cb env ps (off + length (p @ drop off g))
            ((holding (take off g @ p @ drop off g) (set_cid g n))\<lparr>n_ibuflen := (if p = [] then 0 else off + length (p @ drop off g))\<rparr>))
         (\<lambda>n. Inr (clear_ibuf n))"
proof -
  note fb = frame_bytes[OF assms(1,2)]
  let ?w = "p @ drop off g"
  have l: "IS_IBLOCK (g ! 0)" "g ! 0 AND 0x10 = 0" "off \<le> length g" "g \<noteq> []" "\<not> IS_PPSS_CMD (g ! 0)"
      "p14443_block_offset (g ! 0) = off" "length g \<le> 32"
    using assms(1) iblock_kind by (auto simp: iblock_frame_def)
  have n: "n_ibuflen (set_cid g n) = length p" "n_ibuf (set_cid g n) = p @ zeros (IBUF_SIZE - length p)"
    using set_cid_holds[OF assms(3)] by (simp_all add: ibuf_holds_def)
  have b: "nfc_process_block lk cb env ps (blit stk 0 g) (length g) n = last_iblock lk cb env ps (blit stk 0 g) (length g) (set_cid g n)"
    using l fb by (simp add: nfc_process_block_def Let_def)
  show ?thesis
  proof (cases "p = []")
    case True
    have "blit (zeros IBUF_SIZE) 0 g = g @ zeros (IBUF_SIZE - length g)" by (simp add: blit_def zeros_def)
    moreover have e: "(set_cid g n)\<lparr>n_ibuf := xs, n_ibuflen := 0\<rparr> = (set_cid g n)\<lparr>n_ibuf := xs\<rparr>" for xs
      using n(1) True by (cases "set_cid g n") simp
    ultimately show ?thesis using True n(2) l fb b n(1)
      by (simp add: last_iblock_def Let_def holding_def e)
  next
    case False
    have a: "ibuf_append (blit stk 0 g) (length g) (set_cid g n) = holding ?w (set_cid g n)"
      using assms by (intro append_block) (auto intro: set_cid_holds)
    have s: "blit (?w @ zeros (IBUF_SIZE - length ?w)) off ?w = take off (?w @ zeros (IBUF_SIZE - length ?w)) @ ?w @ zeros (IBUF_SIZE - (off + length ?w))"
      using assms(4) by (simp add: blit_def zeros_def)
    have s2: "blit (take off (?w @ zeros (IBUF_SIZE - length ?w)) @ ?w @ zeros (IBUF_SIZE - (off + length ?w))) 0 (take off g)
        = take off g @ ?w @ zeros (IBUF_SIZE - (off + length ?w))"
      using l(3) assms(4) by (simp add: blit_def zeros_def)
    show ?thesis using False n l fb b a s s2 assms(4)
      by (simp add: last_iblock_def Let_def holding_def add.commute)
  qed
qed
text \<open>A command other than GET RESPONSE drops what is left of the last response.\<close>

definition fresh_command :: "u8 \<Rightarrow> nfc \<Rightarrow> nfc" where
  "fresh_command ins n = (if n_chain_tx n \<and> ins \<noteq> APDU_GET_RESPONSE then n\<lparr>n_chain_len := 0, n_chain_tx := False\<rparr> else n)"

lemma size_of_nat [simp]: "k < 2 ^ 32 \<Longrightarrow> size_of_int (int k) = k"
  by (simp add: size_of_int_def)

lemma iblock_runs:
  assumes n: "n_ibuf n = h @ cmd @ z" "length h = p14443_block_offset (h ! 0)" "h \<noteq> []" and cmd: "4 \<le> length cmd" "length cmd \<le> IBUF_SIZE"
    and dec: "apdu_decode (cmd @ z) (length cmd) = (0, apdu)" "cmd ! 0 AND 0x10 = 0"
    and idle: "n_chain_tx n \<or> n_chain_len n = 0"
  shows "nfc_process_iblock lk cb env ps (length h + length cmd) n =
    apdu_process lk cb env ps (h ! 0) (cmd @ z) (case a_data apdu of None \<Rightarrow> env_null env | Some k \<Rightarrow> drop k (cmd @ z)) apdu
      (fresh_command (cmd ! 1) n)"
proof -
  have b: "n_ibuf n ! 0 = h ! 0" "n_ibuf n ! (p14443_block_offset (h ! 0) + 1) = cmd ! 1" "n_ibuf n ! p14443_block_offset (h ! 0) = cmd ! 0"
      "drop (p14443_block_offset (h ! 0)) (n_ibuf n) = cmd @ z"
    using n cmd(1) by (auto simp: nth_append simp flip: n(2))
  have s: "size_of_int (int (length h + length cmd) - int (p14443_block_offset (h ! 0))) = length cmd"
    using n(2) cmd(2) by (simp add: IBUF_SIZE_def)
  have i: "n_ibuf (fresh_command (cmd ! 1) n) = n_ibuf n" by (simp add: fresh_command_def)
  have c: "(\<not> n_chain_tx (fresh_command (cmd ! 1) n) \<and> n_chain_len (fresh_command (cmd ! 1) n) > 0) = False"
    "(\<not> n_chain_tx (fresh_command (cmd ! 1) n) \<and> cmd ! 0 AND 0x10 \<noteq> 0) = False" "((0 :: u16) \<noteq> 0) = False"
    using idle dec(2) by (auto simp: fresh_command_def)
  have d: "drop (p14443_block_offset (h ! 0) + k) (n_ibuf n) = drop k (cmd @ z)" for k
    using b(4) by (simp only: drop_drop[symmetric] add.commute[of _ k])
  show ?thesis
    unfolding nfc_process_iblock_def b Let_def fresh_command_def[symmetric] i s dec(1) split_conv c if_False
    by (cases "a_data apdu") (simp_all only: option.map option.case d)
qed

lemma blocks_run_command:
  assumes fs: "list_all (iblock_frame off True) fs" "iblock_frame off False g" "length stk = 32"
    and cmd: "concat (map (drop off) (fs @ [g])) = cmd" "4 \<le> length cmd" "off + length cmd \<le> IBUF_SIZE"
    and dec: "apdu_decode (cmd @ zeros (IBUF_SIZE - (off + length cmd))) (length cmd) = (0, apdu)" "cmd ! 0 AND 0x10 = 0"
    and n: "ibuf_holds [] n" "n_chain_tx n \<or> n_chain_len n = 0"
  shows "\<exists>n1. run_blocks lk cb env ps stk (fs @ [g]) n =
      seqE (apdu_process lk cb env ps (g ! 0) (cmd @ zeros (IBUF_SIZE - (off + length cmd)))
              (case a_data apdu of None \<Rightarrow> env_null env | Some k \<Rightarrow> drop k (cmd @ zeros (IBUF_SIZE - (off + length cmd)))) apdu n1)
           (\<lambda>n. Inr (clear_ibuf n))
    \<and> n1\<lparr>n_ibuf := [], n_ibuflen := 0\<rparr> = (fresh_command (cmd ! 1) (set_cid g (fold acked fs n)))\<lparr>n_ibuf := [], n_ibuflen := 0\<rparr>"
proof -
  let ?p = "concat (map (drop off) fs)"
  let ?z = "zeros (IBUF_SIZE - (off + length cmd))"
  let ?n2 = "holding (take off g @ cmd) (set_cid g (fold acked fs n))"
  let ?n1 = "?n2\<lparr>n_ibuflen := (if ?p = [] then 0 else off + length cmd)\<rparr>"
  have w: "?p @ drop off g = cmd" using cmd(1) by simp
  have g: "off \<le> length g" "p14443_block_offset (g ! 0) = off" "g \<noteq> []" using fs(2) by (auto simp: iblock_frame_def)
  have off: "1 \<le> off" using block_offset_bounds(1)[of "g ! 0"] g(2) by simp
  have "run_blocks lk cb env ps stk fs n = Inr (holding ([] @ ?p) (fold acked fs n))"
    using fs cmd(3) n(1) w[symmetric] by (intro chained_blocks) auto
  then have "run_blocks lk cb env ps stk (fs @ [g]) n
      = seqE (nfc_process_block lk cb env ps (blit stk 0 g) (length g) (holding ?p (fold acked fs n))) (\<lambda>n. Inr n)"
    by (simp add: run_blocks_append) (simp add: seqE_def split: sum.splits)
  also have "nfc_process_block lk cb env ps (blit stk 0 g) (length g) (holding ?p (fold acked fs n)) =
      seqE (nfc_process_iblock lk cb env ps (off + length (?p @ drop off g))
            ((holding (take off g @ ?p @ drop off g) (set_cid g (holding ?p (fold acked fs n))))\<lparr>n_ibuflen := (if ?p = [] then 0 else off + length (?p @ drop off g))\<rparr>))
         (\<lambda>n. Inr (clear_ibuf n))"
    using cmd(3) w[symmetric] by (intro last_block[OF fs(2,3)]) auto
  finally have r: "run_blocks lk cb env ps stk (fs @ [g]) n = seqE (nfc_process_iblock lk cb env ps (off + length cmd) ?n1) (\<lambda>n. Inr (clear_ibuf n))"
    unfolding w by (simp add: seqE_def split: sum.splits)
  have tx: "n_chain_tx (fold acked fs n) = n_chain_tx n \<and> n_chain_len (fold acked fs n) = n_chain_len n" for fs and n :: nfc
    by (induction fs arbitrary: n)
       (simp_all add: acked_def rblock_acknowledge_def set_cid_def nfc_write_frame_def put_out_def Let_def)
  have "nfc_process_iblock lk cb env ps (length (take off g) + length cmd) ?n1 =
      apdu_process lk cb env ps (take off g ! 0) (cmd @ ?z) (case a_data apdu of None \<Rightarrow> env_null env | Some k \<Rightarrow> drop k (cmd @ ?z)) apdu
        (fresh_command (cmd ! 1) ?n1)"
    using g off cmd dec n(2) tx[of fs n]
    by (intro iblock_runs) (auto simp: holding_def set_cid_def min_def)
  moreover have "length (take off g) = off" "take off g ! 0 = g ! 0" using g(1) off by simp_all
  moreover have "(fresh_command (cmd ! 1) ?n1)\<lparr>n_ibuf := [], n_ibuflen := 0\<rparr>
      = (fresh_command (cmd ! 1) (set_cid g (fold acked fs n)))\<lparr>n_ibuf := [], n_ibuflen := 0\<rparr>"
    by (simp add: fresh_command_def holding_def)
  ultimately show ?thesis using r by metis
qed
subsection \<open>The buffers keep their sizes\<close>

definition nfc_ok :: "nat set \<Rightarrow> nfc \<Rightarrow> bool" where
  "nfc_ok k n \<longleftrightarrow> length (n_chain n) = CHAIN_SIZE \<and> n_chain_len n \<in> k \<and> length (n_ibuf n) = IBUF_SIZE
     \<and> n_ibuflen n \<le> IBUF_SIZE \<and> (\<forall>f. Frame f \<in> set (n_out n) \<longrightarrow> length f \<le> 32)"

text \<open>\<open>k\<close> holds the lengths that may wait in \<open>n_chain\<close>: while a response is stored its length is not checked yet. A run that goes on keeps the sizes.\<close>

definition keeps_ok :: "nat set \<Rightarrow> nfc_stop + 'a \<Rightarrow> ('a \<Rightarrow> nfc) \<Rightarrow> bool" where
  "keeps_ok k m st \<longleftrightarrow> (\<forall>x. m = Inr x \<longrightarrow> nfc_ok k (st x))"

named_theorems nfc_keeps \<open>operations that keep the sizes of the buffers\<close>

lemma keeps_ok_simps [simp]: "keeps_ok k (Inl e) st" "keeps_ok k (Inr x) st \<longleftrightarrow> nfc_ok k (st x)"
  by (simp_all add: keeps_ok_def)

lemma keeps_ok_bind:
  "keeps_ok k m st \<Longrightarrow> (\<And>x. nfc_ok k (st x) \<Longrightarrow> keeps_ok k' (f x) st') \<Longrightarrow> keeps_ok k' (seqE m f) st'"
  by (auto simp: keeps_ok_def seqE_Inr)

lemma keeps_ok_if:
  "(c \<Longrightarrow> keeps_ok k a st) \<Longrightarrow> (\<not> c \<Longrightarrow> keeps_ok k b st) \<Longrightarrow> keeps_ok k (if c then a else b) st"
  by simp

lemma keeps_ok_option:
  "keeps_ok k a st \<Longrightarrow> (\<And>y. keeps_ok k (f y) st) \<Longrightarrow> keeps_ok k (case x of None \<Rightarrow> a | Some y \<Rightarrow> f y) st"
  by (cases x) simp_all

lemma ok_frames:
  "nfc_ok k n \<Longrightarrow> nfc_ok k (nfc_write_frame f n)" "nfc_ok k n \<Longrightarrow> nfc_ok k (put_out ChipSleep n)" "nfc_ok k n \<Longrightarrow> nfc_ok k (put_out ChipDefault n)"
  "nfc_ok k (n\<lparr>n_int0 := g\<rparr>) = nfc_ok k n" "nfc_ok k (n\<lparr>n_current_cid := c\<rparr>) = nfc_ok k n" "nfc_ok k (n\<lparr>n_block_num := b\<rparr>) = nfc_ok k n"
  "nfc_ok k (n\<lparr>n_applet := a\<rparr>) = nfc_ok k n" "nfc_ok k (n\<lparr>n_dev := d\<rparr>) = nfc_ok k n" "nfc_ok k (n\<lparr>n_wtx_timer := t\<rparr>) = nfc_ok k n"
  "nfc_ok k (n\<lparr>n_chain_tx := x\<rparr>) = nfc_ok k n" "nfc_ok k (nfc_state_init n) = nfc_ok k n" "nfc_ok k (WTX_clear n) = nfc_ok k n"
  "nfc_ok k n \<Longrightarrow> nfc_ok k (clear_ibuf n)" "nfc_ok k n \<Longrightarrow> j \<in> k' \<Longrightarrow> nfc_ok k' (n\<lparr>n_chain_len := j\<rparr>)"
  "nfc_ok k (n\<lparr>n_cid := c, n_max_frame_size := s\<rparr>) = nfc_ok k n"
  by (auto simp: nfc_ok_def nfc_write_frame_def put_out_def nfc_state_init_def WTX_clear_def clear_ibuf_def IBUF_SIZE_def)

lemma ok_waits [simp]:
  "nfc_ok k (snd (ams_wait_for_tx lk n)) = nfc_ok k n" "nfc_ok k (snd (ams_receive_with_timeout lk m n)) = nfc_ok k n"
  by (auto simp: ams_wait_for_tx_def ams_receive_with_timeout_def ok_frames split: prod.splits)

lemma ok_rblock: "nfc_ok k n \<Longrightarrow> nfc_ok k (rblock_acknowledge p a n)"
  by (simp add: rblock_acknowledge_def Let_def ok_frames)

lemma ok_send_blocks: "nfc_ok k n \<Longrightarrow> nfc_ok k (send_blocks lk req0 ib rest n)"
proof (induction "length rest" arbitrary: rest ib n rule: less_induct)
  case less
  let ?v = "32 - p14443_block_offset req0"
  show ?case
  proof (cases "?v < length rest")
    case True
    define n1 where "n1 = ams_wait_for_tx lk (nfc_write_frame (block_head req0 (ib OR 0x10) (n_current_cid n) @ take ?v rest) n)"
    define n2 where "n2 = ams_receive_with_timeout lk 32 (snd n1)"
    have ok: "nfc_ok k (snd n1)" "nfc_ok k (snd n2)" using less.prems by (simp_all add: n1_def n2_def ok_frames)
    have "nfc_ok k (send_blocks lk req0 (ib XOR 1) (drop ?v rest) (snd n2))"
    proof (rule less.hyps)
      show "length (drop ?v rest) < length rest" using True block_offset_bounds(2)[of req0] by auto
    qed (rule ok)
    then show ?thesis
      using ok ok_rblock[OF ok(2)] True
      by (subst send_blocks.simps) (simp add: Let_def split_beta n1_def[symmetric] n2_def[symmetric] split: option.split)
  next
    case False
    then show ?thesis using less.prems by (subst send_blocks.simps) (simp add: Let_def split_beta ok_frames)
  qed
qed

lemma ok_write [nfc_keeps]:
  "nfc_ok k n \<Longrightarrow> keeps_ok k (nfc_write_response_ex lk req0 data resp n) snd" "nfc_ok k n \<Longrightarrow> keeps_ok k (answer_sw lk req0 resp n) id"
  "nfc_ok k n \<Longrightarrow> keeps_ok k (nfc_write_response_chaining_plain lk req0 data n) id"
  by (auto simp: nfc_write_response_ex_def answer_sw_def nfc_write_response_def nfc_write_response_chaining_plain_def Let_def ok_frames
      ok_send_blocks split_beta)

abbreviation sizes :: "nat set" where "sizes \<equiv> {..CHAIN_SIZE}"

lemma ok_chain_bounds:
  "nfc_ok k n \<Longrightarrow> n_chain_len n \<in> k" "nfc_ok k n \<Longrightarrow> length (n_chain n) = CHAIN_SIZE"
  "nfc_ok k n \<Longrightarrow> length c = CHAIN_SIZE \<Longrightarrow> nfc_ok k (n\<lparr>n_chain := c\<rparr>)"
  "nfc_ok k n \<Longrightarrow> n_chain_len n \<in> k' \<Longrightarrow> nfc_ok k' n"
  by (auto simp: nfc_ok_def)

lemma ok_chaining [nfc_keeps]:
  assumes "nfc_ok sizes n" shows "keeps_ok sizes (nfc_write_response_chaining lk req0 data ext n) id"
proof -
  let ?n1 = "n\<lparr>n_chain_len := 0, n_chain_tx := True\<rparr>"
  have ok: "nfc_ok sizes ?n1" using ok_frames(14)[OF assms, of 0 sizes] by (auto simp: nfc_ok_def)
  show ?thesis
  proof (cases "length data \<le> 255 \<or> ext")
    case True
    then show ?thesis using ok_write(3)[OF ok] by (simp add: nfc_write_response_chaining_def Let_def)
  next
    case False
    let ?k = "length data - 253"
    let ?n2 = "n\<lparr>n_chain_tx := True, n_chain_len := ?k, n_chain := blit (n_chain n) 0 (take 253 data @ append_get_response ?k)\<rparr>"
    have "nfc_ok {?k} ?n2" using assms False by (simp add: nfc_ok_def append_get_response_def CHAIN_SIZE_def)
    then have w: "keeps_ok {?k} (nfc_write_response_chaining_plain lk req0 p ?n2) id" for p by (rule ok_write(3))
    have "keeps_ok sizes (seqE (nfc_write_response_chaining_plain lk req0 p ?n2) (\<lambda>n.
       if n_chain_len n > CHAIN_SIZE then Inl (NfcFault n) else Inr (n\<lparr>n_chain := blit (n_chain n) 0 (drop 253 data)\<rparr>))) id" for p
    proof (rule keeps_ok_bind[OF w])
      fix m assume m: "nfc_ok {?k} (id m)"
      then show "keeps_ok sizes (if n_chain_len m > CHAIN_SIZE then Inl (NfcFault m) else Inr (m\<lparr>n_chain := blit (n_chain m) 0 (drop 253 data)\<rparr>)) id"
        by (auto simp: nfc_ok_def)
    qed
    with False show ?thesis by (simp add: nfc_write_response_chaining_def Let_def)
  qed
qed

lemma ok_get_response [nfc_keeps]:
  assumes "nfc_ok sizes n" shows "keeps_ok sizes (get_response lk req0 p1 p2 le n) id"
proof -
  have l: "n_chain_len n \<in> {n_chain_len n}" "n_chain_len n \<le> CHAIN_SIZE" using assms by (simp_all add: nfc_ok_def)
  have ok: "nfc_ok {n_chain_len n} n" using assms l(1) by (rule ok_chain_bounds(4))
  have "keeps_ok sizes (seqE (nfc_write_response_chaining_plain lk req0 p n) (\<lambda>m.
      Inr (m\<lparr>n_chain_len := n_chain_len n - j, n_chain := blit (n_chain m) 0 (block (n_chain m) j (n_chain_len n - j))\<rparr>))) id" for p j
  proof (rule keeps_ok_bind[OF ok_write(3)[OF ok]])
    fix m assume "nfc_ok {n_chain_len n} (id m)"
    moreover have "length (block (n_chain m) j (n_chain_len n - j)) \<le> n_chain_len n" by (simp add: block_def)
    ultimately show "keeps_ok sizes (Inr (m\<lparr>n_chain_len := n_chain_len n - j, n_chain := blit (n_chain m) 0 (block (n_chain m) j (n_chain_len n - j))\<rparr>)) id"
      using l(2) by (simp add: nfc_ok_def)
  qed
  then show ?thesis unfolding get_response_def Let_def
    by (intro keeps_ok_if ok_write(2)[OF assms] keeps_ok_simps(1))
qed

lemma ok_apps [nfc_keeps]:
  assumes "nfc_ok sizes n"
  shows "keeps_ok sizes (nfc_ctap lk cb env ps b data lc ext n) id" "keeps_ok sizes (nfc_u2f lk env ps b p data lc ext n) id"
    "keeps_ok sizes (read_binary lk b le n) id"
proof -
  have d: "nfc_ok sizes (n\<lparr>n_dev := d\<rparr>)" for d using assms by (simp add: ok_frames)
  show "keeps_ok sizes (nfc_ctap lk cb env ps b data lc ext n) id"
    unfolding nfc_ctap_def Let_def using ok_chaining[OF d] by (simp split: sum.split prod.split)
  show "keeps_ok sizes (nfc_u2f lk env ps b p data lc ext n) id"
    unfolding nfc_u2f_def Let_def using ok_chaining[OF d] by (simp split: sum.split prod.split)
  have "keeps_ok sizes (seqE (nfc_write_response_ex lk b f SW_SUCCESS n) (\<lambda>(r, n). Inr (snd (ams_wait_for_tx lk n)))) id" for f
    by (rule keeps_ok_bind[OF ok_write(1)[OF assms]]) (auto simp: split_beta)
  then show "keeps_ok sizes (read_binary lk b le n) id"
    using ok_write(2)[OF assms] unfolding read_binary_def Let_def by (simp split: applet.split)
qed

lemma ok_apdu [nfc_keeps]:
  assumes "nfc_ok sizes n" shows "keeps_ok sizes (apdu_process lk cb env ps b p data a n) id"
proof -
  have sel: "nfc_ok sizes (snd (select_applet data lc n))" for lc
    using assms by (simp add: select_applet_def ok_frames)
  have fido: "keeps_ok sizes (seqE (nfc_write_response_ex lk b r SW_SUCCESS m) (\<lambda>(r, n). Inr n)) id" if "nfc_ok sizes m" for m r
    by (rule keeps_ok_bind[OF ok_write(1)[OF that]]) (auto simp: split_beta)
  have select: "keeps_ok sizes (case select_applet data lc n of (selected, n) \<Rightarrow>
      if selected = APP_FIDO then seqE (nfc_write_response_ex lk b r SW_SUCCESS n) (\<lambda>(r, n). Inr n)
      else if selected \<noteq> APP_NOTHING then answer_sw lk b SW_SUCCESS n else answer_sw lk b SW_FILE_NOT_FOUND n) id" for lc r
    unfolding split_beta by (intro keeps_ok_if fido[unfolded split_beta] ok_write(2) sel)
  have reset: "keeps_ok sizes (seqE (answer_sw lk b SW_SUCCESS n) (\<lambda>n. Inl (NfcReboot n))) id"
    by (rule keeps_ok_bind[OF ok_write(2)[OF assms]]) simp
  show ?thesis unfolding apdu_process_def Let_def
    by (intro keeps_ok_if select reset ok_write(2) ok_get_response ok_apps assms)
qed

lemma iblock_payload:
  assumes "apdu_decode d (size_of_int (int len - int off)) = (0, a)" "off \<le> 3"
  shows "off \<le> len" "unat (a_lc a) \<le> len - off"
proof -
  have l: "size_of_int (int len - int off) < 65546" using assms(1) by (rule apdu_decode_len)
  show o: "off \<le> len"
  proof (rule ccontr)
    assume c: "\<not> off \<le> len"
    have "(int len - int off) mod 2 ^ 32 = (int len - int off + 2 ^ 32) mod 2 ^ 32" by simp
    also have "\<dots> = int len - int off + 2 ^ 32" using c assms(2) by (intro mod_pos_pos_trivial) auto
    finally have "(int len - int off) mod 2 ^ 32 = int len - int off + 2 ^ 32" .
    with l c assms(2) show False by (simp add: size_of_int_def)
  qed
  have "unat (a_lc a) \<le> size_of_int (int len - int off)"
    using apdu_decode_bounds[OF assms(1)] by (cases "a_data a") auto
  moreover have "size_of_int (int len - int off) \<le> len - off"
    using o by (simp add: size_of_int_def nat_le_iff of_nat_diff zmod_le_nonneg_dividend)
  ultimately show "unat (a_lc a) \<le> len - off" by simp
qed

lemma ok_iblock [nfc_keeps]:
  assumes "nfc_ok sizes n" shows "keeps_ok sizes (nfc_process_iblock lk cb env ps len n) id"
proof -
  define off where "off = p14443_block_offset (n_ibuf n ! 0)"
  define n1 where "n1 = (if n_chain_tx n \<and> n_ibuf n ! (off + 1) \<noteq> APDU_GET_RESPONSE then n\<lparr>n_chain_len := 0, n_chain_tx := False\<rparr> else n)"
  define r where "r = apdu_decode (drop off (n_ibuf n1)) (size_of_int (int len - int off))"
  have ok: "nfc_ok sizes n1" using assms by (simp add: n1_def nfc_ok_def)
  have ib: "n_ibuf n1 = n_ibuf n" by (simp add: n1_def)
  have r0: "fst r = 0 \<Longrightarrow> unat (a_lc (snd r)) \<le> len"
    using iblock_payload(2)[of "drop off (n_ibuf n1)" len off "snd r"] block_offset_bounds(2)[of "n_ibuf n ! 0"]
    by (auto simp: r_def off_def prod_eq_iff)
  have chain: "nfc_ok sizes (n1\<lparr>n_chain := blit (n_chain n1) (n_chain_len n1) p, n_chain_len := n_chain_len n1 + unat (a_lc (snd r))\<rparr>)"
    if "fst r = 0" "n_chain_len n1 + len \<le> CHAIN_SIZE" "length p \<le> unat (a_lc (snd r))" for p
    using ok that r0 by (auto simp: nfc_ok_def)
  have merge: "nfc_ok sizes (n1\<lparr>n_ibuf := blit (blit (n_ibuf n1) (k + n_chain_len n1) (block (n_ibuf n1) k lc)) k (take (n_chain_len n1) (n_chain n1))\<rparr>)"
    if "k + n_chain_len n1 + lc \<le> IBUF_SIZE" for k lc
  proof -
    have "length (block (n_ibuf n1) k lc) \<le> lc" by (simp add: block_def)
    with that ok show ?thesis by (auto simp: nfc_ok_def min_def)
  qed
  have len: "length (case x of None \<Rightarrow> [] | Some k \<Rightarrow> block (n_ibuf n1) k lc) \<le> lc" for x lc
    by (cases x) (simp_all add: block_def)
  show ?thesis
    unfolding nfc_process_iblock_def Let_def off_def[symmetric] n1_def[symmetric] split_beta r_def[symmetric]
    by (intro keeps_ok_if keeps_ok_option ok_write(2) ok chain ok_apdu keeps_ok_simps(1) merge len) simp_all
qed
lemma ok_append:
  "nfc_ok k n \<Longrightarrow> n_ibuflen n + (len - p14443_block_offset (buf ! 0)) \<le> IBUF_SIZE \<Longrightarrow> nfc_ok k (ibuf_append buf len n)"
  by (auto simp: ibuf_append_def Let_def nfc_ok_def block_def)

lemma ok_last_iblock:
  assumes "nfc_ok sizes n" "len \<le> 32" shows "keeps_ok sizes (last_iblock lk cb env ps buf len n) id"
proof -
  let ?off = "p14443_block_offset (buf ! 0)"
  define m where "m = ibuf_append buf len n"
  have clear: "keeps_ok sizes (seqE (nfc_process_iblock lk cb env ps l x) (\<lambda>n. Inr (clear_ibuf n))) id" if "nfc_ok sizes x" for l x
    by (rule keeps_ok_bind[OF ok_iblock[OF that]]) (simp add: ok_frames)
  have first: "nfc_ok sizes (n\<lparr>n_ibuf := blit (n_ibuf n) 0 (take len buf)\<rparr>)"
    using assms by (auto simp: nfc_ok_def IBUF_SIZE_def)
  have more: "nfc_ok sizes (m\<lparr>n_ibuf := blit (blit (n_ibuf m) ?off (take (n_ibuflen m) (n_ibuf m))) 0 (take ?off buf), n_ibuflen := n_ibuflen m + ?off\<rparr>)"
    if "n_ibuflen n + (len - ?off) + ?off \<le> IBUF_SIZE"
  proof -
    have "nfc_ok sizes m" unfolding m_def using assms that by (intro ok_append) auto
    moreover have "n_ibuflen m + ?off \<le> IBUF_SIZE" using that by (auto simp: m_def ibuf_append_def Let_def)
    ultimately show ?thesis by (auto simp: nfc_ok_def)
  qed
  show ?thesis
    unfolding last_iblock_def Let_def m_def[symmetric]
    using clear[OF more] clear[OF first] by (intro keeps_ok_if) simp_all
qed

lemma ok_block:
  assumes "nfc_ok sizes n" "len \<le> 32" shows "keeps_ok sizes (nfc_process_block lk cb env ps buf len n) id"
proof -
  have cid: "nfc_ok sizes (set_cid buf n)" using assms by (simp add: set_cid_def ok_frames)
  have "nfc_ok sizes (ibuf_append buf len (set_cid buf n))" if "n_ibuflen (set_cid buf n) + len \<le> IBUF_SIZE"
    using that by (intro ok_append cid) simp
  then show ?thesis unfolding nfc_process_block_def Let_def
    by (intro keeps_ok_if ok_write(2) ok_last_iblock cid assms) (simp_all add: assms cid ok_frames ok_rblock)
qed

lemma ok_loop:
  assumes "nfc_ok sizes n" shows "keeps_ok sizes (nfc_loop lk cb env ps stk r n) snd"
proof -
  define len where "len = (if (rg_int0 r AND AMS_INT_RXE \<noteq> 0 \<or> n_int0 n AND AMS_INT_RXE \<noteq> 0)
      \<and> rg_buffer_status2 r \<noteq> 0 \<and> rg_buffer_status2 r AND AMS_BUF_INVALID = 0
    then unat (rg_buffer_status2 r AND AMS_BUF_LEN_MASK) else 0)"
  have "rg_buffer_status2 r AND AMS_BUF_LEN_MASK \<le> 31" unfolding AMS_BUF_LEN_MASK_def by (rule word_and_le1)
  then have l: "len \<le> 32" by (auto simp: len_def word_le_nat_alt)
  define n1 where "n1 = (if rg_int0 r AND AMS_INT_INIT \<noteq> 0 \<or> n_int0 n AND AMS_INT_INIT \<noteq> 0
    then nfc_state_init (n\<lparr>n_int0 := rg_int0 r\<rparr>) else n\<lparr>n_int0 := rg_int0 r\<rparr>)"
  have ok: "nfc_ok sizes n1" "nfc_ok sizes (n\<lparr>n_int0 := rg_int0 r\<rparr>)" using assms by (simp_all add: n1_def ok_frames)
  have rats: "nfc_ok sizes (snd (answer_rats lk x n1))" for x
    using ok by (auto simp: answer_rats_def Let_def split_beta ok_frames)
  have block: "keeps_ok sizes (seqE (nfc_process_block lk cb env ps buf len n1) (\<lambda>n. Inr (len, n))) snd" for buf
    by (rule keeps_ok_bind[OF ok_block[OF ok(1) l]]) simp
  show ?thesis
    unfolding nfc_loop_def Let_def len_def[symmetric] n1_def[symmetric]
    by (intro keeps_ok_if block) (simp_all add: assms ok(1) rats ok_frames)
qed

end
