(* ===== verification/NfcClaims.thy ===== *)
theory NfcClaims
  imports NfcProps "HOL-Library.Sublist"
begin

text \<open>
  The properties of the NFC transport, with the boundary cases in which it leaves its buffers or keeps stale data.
\<close>

subsection \<open>Commands\<close>

definition decoded_short :: "u8 \<Rightarrow> u8 \<Rightarrow> u8 \<Rightarrow> u8 \<Rightarrow> bytes \<Rightarrow> u8 option \<Rightarrow> apdu_struct" where
  "decoded_short cla ins p1 p2 body le =
     \<lparr>a_cla = cla, a_ins = ins, a_p1 = p1, a_p2 = p2, a_lc = of_nat (length body),
      a_data = (if body = [] then None else Some 5),
      a_le = (case le of None \<Rightarrow> 0 | Some b \<Rightarrow> le_or 0x100 (ucast b)),
      a_ext = False, a_case = short_case body le\<rparr>"

lemma encode_short_facts:
  "4 \<le> length (encode_short cla ins p1 p2 body le)" "encode_short cla ins p1 p2 body le ! 0 = cla"
  "encode_short cla ins p1 p2 body le ! 1 = ins" "length body < 256 \<Longrightarrow> length (encode_short cla ins p1 p2 body le) \<le> 261"
  by (auto simp: encode_short_def split: option.split)

lemma no_chain_bit: "cla AND 0xef = cla \<Longrightarrow> (cla :: u8) AND 0x10 = 0"
proof -
  assume "cla AND 0xef = cla"
  then have "cla AND 0x10 = (cla AND 0xef) AND 0x10" by simp
  also have "\<dots> = 0" by (simp add: and.assoc)
  finally show ?thesis .
qed

text \<open>C37 (equivalence). A short command split over any number of chained I-blocks, by a reader with or without card identifier and
  node address, is processed exactly as the command in one piece: the same header, body and Le reach \<open>apdu_process\<close>, on the state in which
  each block but the last is acknowledged, the identifier is noted and a response nobody fetched is dropped; afterwards the block buffer is empty.\<close>

theorem nfc_command_reassembled:
  assumes "list_all (iblock_frame off True) fs" "iblock_frame off False g" "length stk = 32"
    and "concat (map (drop off) (fs @ [g])) = encode_short cla ins p1 p2 body le" "cla AND 0xef = cla" "length body < 256"
    and "ibuf_holds [] n" "n_chain_tx n \<or> n_chain_len n = 0"
  shows "\<exists>n1 rest. run_blocks lk cb env ps stk (fs @ [g]) n =
      seqE (apdu_process lk cb env ps (g ! 0) (encode_short cla ins p1 p2 body le @ rest)
              (if body = [] then env_null env else drop 5 (encode_short cla ins p1 p2 body le) @ rest)
              (decoded_short cla ins p1 p2 body le) n1)
           (\<lambda>n. Inr (clear_ibuf n))
    \<and> n1\<lparr>n_ibuf := [], n_ibuflen := 0\<rparr> = (fresh_command ins (set_cid g (fold acked fs n)))\<lparr>n_ibuf := [], n_ibuflen := 0\<rparr>"
proof -
  let ?cmd = "encode_short cla ins p1 p2 body le"
  let ?z = "zeros (IBUF_SIZE - (off + length ?cmd))"
  note e = encode_short_facts[where cla = cla and ins = ins and ?p1.0 = p1 and ?p2.0 = p2 and body = body and le = le]
  have off: "off \<le> 3" using assms(2) block_offset_bounds(2)[of "g ! 0"] by (simp add: iblock_frame_def)
  have fit: "off + length ?cmd \<le> IBUF_SIZE" using e(4)[OF assms(6)] off by (simp add: IBUF_SIZE_def)
  have dec: "apdu_decode (?cmd @ ?z) (length ?cmd) = (0, decoded_short cla ins p1 p2 body le)"
    unfolding decoded_short_def by (rule apdu_short_roundtrip[OF assms(5,6)])
  have cla: "?cmd ! 0 AND 0x10 = 0" using no_chain_bit[OF assms(5)] e(2) by simp
  have l5: "body \<noteq> [] \<Longrightarrow> 5 \<le> length ?cmd" by (simp add: encode_short_def)
  from blocks_run_command[OF assms(1-4) e(1) fit dec cla assms(7,8), of lk cb env ps]
  obtain n1 where "run_blocks lk cb env ps stk (fs @ [g]) n =
      seqE (apdu_process lk cb env ps (g ! 0) (?cmd @ ?z)
        (case a_data (decoded_short cla ins p1 p2 body le) of None \<Rightarrow> env_null env | Some k \<Rightarrow> drop k (?cmd @ ?z)) (decoded_short cla ins p1 p2 body le) n1)
        (\<lambda>n. Inr (clear_ibuf n))"
      "n1\<lparr>n_ibuf := [], n_ibuflen := 0\<rparr> = (fresh_command (?cmd ! 1) (set_cid g (fold acked fs n)))\<lparr>n_ibuf := [], n_ibuflen := 0\<rparr>"
    by blast
  moreover have "(case a_data (decoded_short cla ins p1 p2 body le) of None \<Rightarrow> env_null env | Some k \<Rightarrow> drop k (?cmd @ ?z))
      = (if body = [] then env_null env else drop 5 ?cmd @ ?z)"
    using l5 by (auto simp: decoded_short_def)
  ultimately show ?thesis unfolding e(3) by (intro exI[of _ n1] exI[of _ ?z]) simp
qed

definition nfc0 :: nfc where
  "nfc0 = \<lparr>n_chain = zeros CHAIN_SIZE, n_chain_len = 0, n_chain_tx = False, n_current_cid = 0, n_max_frame_size = 32, n_cid = 0,
     n_block_num = 1, n_applet = APP_NOTHING, n_int0 = 0, n_ibuf = zeros IBUF_SIZE, n_ibuflen = 0, n_wtx_sent = False, n_wtx_fail = False,
     n_wtx_timer = 0, n_out = [], n_dev = dev0\<rparr>"

text \<open>The FIDO application selected in two blocks.\<close>

theorem nfc_command_reassembled_witness:
  "\<forall>cb ps. \<exists>n1 rest. run_blocks link0 cb env0 ps (zeros 32) ([[0x12, 0x00, 0xa4, 0x04, 0x00, 0x08, 0xa0, 0x00]] @ [[0x03, 0x00, 0x06, 0x47, 0x2f, 0x00, 0x01]]) nfc0 =
      seqE (apdu_process link0 cb env0 ps 0x03 (encode_short 0 0xa4 4 0 AID_FIDO None @ rest)
              (drop 5 (encode_short 0 0xa4 4 0 AID_FIDO None) @ rest) (decoded_short 0 0xa4 4 0 AID_FIDO None) n1)
           (\<lambda>n. Inr (clear_ibuf n))
    \<and> n_out n1 = [Frame [0xa2]]"
proof (intro allI)
  fix cb ps
  let ?fs = "[[0x12, 0x00, 0xa4, 0x04, 0x00, 0x08, 0xa0, 0x00]] :: bytes list" and ?g = "[0x03, 0x00, 0x06, 0x47, 0x2f, 0x00, 0x01] :: bytes"
  have "list_all (iblock_frame 1 True) ?fs" "iblock_frame 1 False ?g" "length (zeros 32) = 32"
      "concat (map (drop 1) (?fs @ [?g])) = encode_short 0 0xa4 4 0 AID_FIDO None" "(0 :: u8) AND 0xef = 0" "length AID_FIDO < 256"
      "ibuf_holds [] nfc0" "n_chain_tx nfc0 \<or> n_chain_len nfc0 = 0"
    by (simp_all add: iblock_frame_def block_kinds nfc_cmds p14443_block_offset_def encode_short_def AID_FIDO_def ibuf_holds_def nfc0_def)
  from nfc_command_reassembled[OF this, of link0 cb env0 ps]
  obtain n1 rest where r: "run_blocks link0 cb env0 ps (zeros 32) (?fs @ [?g]) nfc0 =
      seqE (apdu_process link0 cb env0 ps (?g ! 0) (encode_short 0 0xa4 4 0 AID_FIDO None @ rest)
              (if AID_FIDO = [] then env_null env0 else drop 5 (encode_short 0 0xa4 4 0 AID_FIDO None) @ rest)
              (decoded_short 0 0xa4 4 0 AID_FIDO None) n1) (\<lambda>n. Inr (clear_ibuf n))"
    "n1\<lparr>n_ibuf := [], n_ibuflen := 0\<rparr> = (fresh_command 0xa4 (set_cid ?g (fold acked ?fs nfc0)))\<lparr>n_ibuf := [], n_ibuflen := 0\<rparr>"
    by blast
  have "n_out n1 = n_out (n1\<lparr>n_ibuf := [], n_ibuflen := 0\<rparr>)" by simp
  also have "\<dots> = [Frame [0xa2]]" unfolding r(2)
    by (simp add: fresh_command_def nfc0_def acked_def rblock_acknowledge_def set_cid_def p14443_have_cid_def block_head_def
        p14443_block_offset_def nfc_write_frame_def put_out_def nfc_cmds)
  finally show "\<exists>n1 rest. run_blocks link0 cb env0 ps (zeros 32) (?fs @ [?g]) nfc0 =
      seqE (apdu_process link0 cb env0 ps 0x03 (encode_short 0 0xa4 4 0 AID_FIDO None @ rest)
              (drop 5 (encode_short 0 0xa4 4 0 AID_FIDO None) @ rest) (decoded_short 0 0xa4 4 0 AID_FIDO None) n1)
           (\<lambda>n. Inr (clear_ibuf n))
    \<and> n_out n1 = [Frame [0xa2]]"
    using r(1) by (auto simp: AID_FIDO_def)
qed

subsection \<open>Responses\<close>

text \<open>C38 (roundtrip). With a one-byte block header (no CID and no NAD), a response of up to 2301 bytes that does not itself end in a status 61XX, or one of any
  length to an extended command, reaches a reader that acknowledges the blocks
  and a host that fetches the rest: with Le = XX after a status 61XX, and with no Le after 6100. The payloads of all the blocks of all the parts, without the 61XX,
  are the response, and nothing is left to fetch. It takes no more GET RESPONSE commands than one for every 253 bytes and one.\<close>

theorem nfc_response_delivered:
  assumes "reader_acks lk" "p14443_block_offset req0 = 1" "length (n_chain n) = CHAIN_SIZE"
    and "2 \<le> length data" "data ! (length data - 2) \<noteq> 0x61" "ext \<or> length data \<le> 253 + CHAIN_SIZE"
  shows "\<exists>n'. seqE (nfc_write_response_chaining lk req0 data ext n)
        (\<lambda>n1. host_fetch (Suc (length data div 253)) lk req0 (answered 1 n n1) n1) = Inr (data, n') \<and> n_chain_len n' = 0"
proof (cases "length data \<le> 255 \<or> ext")
  case True
  let ?n = "n\<lparr>n_chain_len := 0, n_chain_tx := True\<rparr>"
  have "p14443_block_offset req0 + length data \<le> 32 \<or> 31 < length data" using assms(2) by auto
  from plain_sends[OF assms(1) this] obtain fs n' where s: "nfc_write_response_chaining_plain lk req0 data ?n = Inr n'" "quiet_out ?n fs n'"
      "concat (map (drop 1) fs) = data"
    using assms(2) by metis
  have "answered 1 n n' = data" using quiet_out_answered[OF s(2), of 1] s(3) by (simp add: answered_def)
  moreover have "n_chain_len n' = 0" using quiet_out_chain[OF s(2)] by simp
  ultimately show ?thesis using True s(1) assms(5) by (simp add: nfc_write_response_chaining_def)
next
  case False
  let ?k = "length data - 253"
  let ?n = "n\<lparr>n_chain_tx := True, n_chain_len := ?k, n_chain := blit (n_chain n) 0 (take 253 data @ append_get_response ?k)\<rparr>"
  have l: "length (take 253 data @ append_get_response ?k) = 255" using False by (simp add: append_get_response_def)
  have chain: "take 255 (n_chain ?n) = take 253 data @ append_get_response ?k"
    using l by (simp add: blit_def)
  have "p14443_block_offset req0 + length (take 253 data @ append_get_response ?k) \<le> 32 \<or> 31 < length (take 253 data @ append_get_response ?k)"
    using l by simp
  from plain_sends[OF assms(1) this] obtain fs n' where s:
      "nfc_write_response_chaining_plain lk req0 (take 253 data @ append_get_response ?k) ?n = Inr n'" "quiet_out ?n fs n'"
      "concat (map (drop 1) fs) = take 253 data @ append_get_response ?k"
    using assms(2) by metis
  define n2 where "n2 = n'\<lparr>n_chain := blit (n_chain n') 0 (drop 253 data)\<rparr>"
  have c: "n_chain_len n' = ?k" "length (n_chain n') = CHAIN_SIZE"
    using quiet_out_chain[OF s(2)] l assms(3) by (simp_all add: CHAIN_SIZE_def)
  have w: "nfc_write_response_chaining lk req0 data ext n = Inr n2"
    using False assms(6) s(1) c(1) chain by (simp add: nfc_write_response_chaining_def Let_def n2_def)
  have a: "answered 1 n n2 = take 253 data @ append_get_response (length (drop 253 data))"
    using quiet_out_answered[OF s(2), of 1] s(3) by (simp add: n2_def answered_def)
  have p: "pending n2 (drop 253 data)" using c assms(6) False by (simp add: pending_def n2_def blit_def)
  have st: "drop 253 data ! (length (drop 253 data) - 2) \<noteq> 0x61" using False assms(5) by simp
  have "length (drop 253 data) div 253 \<le> length data div 253" by (intro div_le_mono) simp
  moreover have "3 \<le> length (drop 253 data)" using False by auto
  ultimately show ?thesis using host_fetch_all[OF assms(1,2) p _ st, of _ "take 253 data"]
    unfolding w seqE_simps a by (simp del: host_fetch.simps)
qed

text \<open>300 bytes arrive in 255 and 47.\<close>

theorem nfc_response_delivered_witness:
  "\<exists>n'. seqE (nfc_write_response_chaining link0 0x02 (replicate 298 7 @ [0x90, 0]) False nfc0)
      (\<lambda>n1. host_fetch (Suc (300 div 253)) link0 0x02 (answered 1 nfc0 n1) n1) = Inr (replicate 298 7 @ [0x90, 0], n') \<and> n_chain_len n' = 0"
  using nfc_response_delivered[OF link0_acks, of "0x02" nfc0 "replicate 298 7 @ [0x90, 0]" False]
  by (simp add: p14443_block_offset_def nfc0_def CHAIN_SIZE_def nth_append)

subsection \<open>Any reader\<close>

text \<open>The blocks a response is sent in when the reader does what it likes: they carry a beginning of it, and at most one R-block follows.\<close>

definition offers :: "nat \<Rightarrow> nfc \<Rightarrow> nfc \<Rightarrow> bytes \<Rightarrow> bool" where
  "offers off n n' d \<longleftrightarrow> (\<exists>fs gs. n_out n' = n_out n @ map Frame (fs @ gs) \<and> prefix (concat (map (drop off) fs)) d \<and> fs \<noteq> [] \<and> length gs \<le> 1)"

definition same_chain :: "nfc \<Rightarrow> nfc \<Rightarrow> bool" where
  "same_chain n n' \<longleftrightarrow> n_chain n' = n_chain n \<and> n_chain_len n' = n_chain_len n"

lemma quiet_outD: "quiet_out n fs n' \<Longrightarrow> n_out n' = n_out n @ map Frame fs \<and> same_chain n n'"
  by (auto simp: quiet_out_def same_chain_def)

lemma send_blocks_offers:
  "offers (p14443_block_offset req0) n (send_blocks lk req0 iBlock rest n) rest \<and> same_chain n (send_blocks lk req0 iBlock rest n)"
proof (induction "length rest" arbitrary: rest iBlock n rule: less_induct)
  case less
  let ?off = "p14443_block_offset req0"
  let ?v = "min (32 - ?off) (length rest)"
  let ?pcb = "if ?v < length rest then iBlock OR 0x10 else iBlock"
  let ?f = "block_head req0 ?pcb (n_current_cid n) @ take ?v rest"
  define n1 where "n1 = nfc_write_frame ?f n"
  obtain ok n2 where w: "ams_wait_for_tx lk n1 = (ok, n2)" by fastforce
  have off: "?off \<le> 3" by (rule block_offset_bounds)
  have "quiet_out n [?f] n1" unfolding n1_def by (rule frame_quiet) (use off in simp)
  then have q2: "quiet_out n [?f] n2" using quiet_out_trans[OF _ wait_quiet[of n1 lk]] w by fastforce
  have pre: "prefix (concat (map (drop ?off) [?f])) rest" by (simp add: take_is_prefix)
  have one: "offers ?off n n' rest \<and> same_chain n n'" if "n_out n' = n_out n @ map Frame ([?f] @ gs)" "length gs \<le> 1" "same_chain n n'" for n' gs
    unfolding offers_def using that pre by (intro conjI exI[of _ "[?f]"] exI[of _ gs]) simp_all
  show ?case
  proof (cases "ok \<and> ?v < length rest")
    case False
    then have "send_blocks lk req0 iBlock rest n = n2"
      using w unfolding n1_def by (subst send_blocks.simps) (auto simp: Let_def)
    then show ?thesis using one[of n2 "[]"] quiet_outD[OF q2] by simp
  next
    case True
    obtain r n3 where rc: "ams_receive_with_timeout lk 32 n2 = (r, n3)" by fastforce
    have q3: "quiet_out n [?f] n3" using quiet_out_trans[OF q2 receive_quiet[of n2 lk 32]] rc by simp
    note s3 = quiet_outD[OF q3]
    have unf: "send_blocks lk req0 iBlock rest n = (case r of None \<Rightarrow> n3 | Some r \<Rightarrow>
        let recbuf = blit (zeros 32) 0 r in
        if \<not> IS_RBLOCK (recbuf ! 0) then n3
        else if recbuf ! 0 AND NFC_CMD_RBLOCK_ACK \<noteq> 0 then rblock_acknowledge (recbuf ! 0) True n3
        else if \<not> rblock_accepted ?pcb recbuf (length r) then n3
        else send_blocks lk req0 (iBlock XOR 1) (drop ?v rest) n3)"
      using w rc True unfolding n1_def by (subst send_blocks.simps) (simp add: Let_def)
    have ack: "offers ?off n (rblock_acknowledge b True n3) rest \<and> same_chain n (rblock_acknowledge b True n3)" for b
    proof -
      let ?m = "n3\<lparr>n_block_num := (if n_block_num n3 = 0 then 1 else 0)\<rparr>"
      let ?g = "block_head b (NFC_CMD_RBLOCK OR (b AND 0x0f)) (n_current_cid ?m)"
      have "quiet_out ?m [?g] (nfc_write_frame ?g ?m)" by (rule frame_quiet) (use block_offset_bounds[of b] in simp)
      from quiet_outD[OF this] show ?thesis
        using s3 by (intro one[of _ "[?g]"]) (simp_all add: rblock_acknowledge_def Let_def same_chain_def)
    qed
    have again: "offers ?off n (send_blocks lk req0 (iBlock XOR 1) (drop ?v rest) n3) rest
        \<and> same_chain n (send_blocks lk req0 (iBlock XOR 1) (drop ?v rest) n3)"
    proof -
      have i: "offers ?off n3 (send_blocks lk req0 (iBlock XOR 1) (drop ?v rest) n3) (drop ?v rest)
          \<and> same_chain n3 (send_blocks lk req0 (iBlock XOR 1) (drop ?v rest) n3)"
        using True off by (intro less) auto
      then obtain fs gs where x: "n_out (send_blocks lk req0 (iBlock XOR 1) (drop ?v rest) n3) = n_out n3 @ map Frame (fs @ gs)"
          "prefix (concat (map (drop ?off) fs)) (drop ?v rest)" "length gs \<le> 1" unfolding offers_def by blast
      have "prefix (take ?v rest @ concat (map (drop ?off) fs)) (take ?v rest @ drop ?v rest)" using x(2) by (simp only: same_prefix_prefix)
      then have "prefix (concat (map (drop ?off) (?f # fs))) rest" by (simp only: append_take_drop_id) simp
      then show ?thesis unfolding offers_def using x(1,3) s3 i
        by (intro conjI exI[of _ "?f # fs"] exI[of _ gs]) (simp_all add: same_chain_def)
    qed
    have here: "offers ?off n n3 rest \<and> same_chain n n3" using one[of n3 "[]"] s3 by simp
    show ?thesis unfolding unf using here ack again by (auto simp: Let_def split: option.split)
  qed
qed

lemma plain_offers:
  assumes "p14443_block_offset req0 = 1"
  obtains n' where "nfc_write_response_chaining_plain lk req0 data n = Inr n'" "offers 1 n n' data" "same_chain n n'"
proof (cases "length data \<le> 31")
  case True
  let ?f = "block_head req0 (iblock_pcb req0) (n_current_cid n) @ data"
  have "quiet_out n [?f] (nfc_write_frame ?f n)" using frame_quiet[of ?f n] assms True by simp
  note q = quiet_outD[OF this]
  then have "offers 1 n (nfc_write_frame ?f n) data" unfolding offers_def using assms by (intro exI[of _ "[?f]"] exI[of _ "[]"]) simp
  then show thesis using assms True q by (intro that[of "nfc_write_frame ?f n"]) (simp_all add: nfc_write_response_chaining_plain_def)
next
  case False
  then show thesis using send_blocks_offers[of req0 n lk "iblock_pcb req0" data] assms
    by (intro that[of "send_blocks lk req0 (iblock_pcb req0) data n"]) (simp_all add: nfc_write_response_chaining_plain_def)
qed

text \<open>What a GET RESPONSE without Le is to send when \<open>p\<close> waits.\<close>

definition next_part :: "bytes \<Rightarrow> bytes" where
  "next_part p = take 253 p @ (if 253 < length p then append_get_response (length p - 253) else [])"

lemma get_response_offers:
  assumes "p14443_block_offset req0 = 1" "pending n p"
  shows "\<exists>n'. get_response lk req0 0 0 0 n = Inr n' \<and> pending n' (drop 253 p) \<and> offers 1 n n' (next_part p)
    \<and> (reader_acks lk \<longrightarrow> answered 1 n n' = next_part p)"
proof -
  let ?k = "min 253 (length p)"
  have len: "n_chain_len n = length p" using assms(2) by (simp add: pending_def)
  have part: "take ?k (n_chain n) @ (if length p - ?k \<noteq> 0 then append_get_response (length p - ?k) else []) = next_part p"
    using assms(2) by (auto simp: next_part_def pending_def min_def intro: take_of_take)
  have fits: "\<not> ?k + length (if length p - ?k \<noteq> 0 then append_get_response (length p - ?k) else []) > 255"
    by (auto simp: append_get_response_def)
  have k: "(if 253 > length p then length p else 253) = ?k" by simp
  obtain n1 where s: "nfc_write_response_chaining_plain lk req0 (next_part p) n = Inr n1" "offers 1 n n1 (next_part p)" "same_chain n n1"
    using plain_offers[OF assms(1)] .
  define n2 where "n2 = n1\<lparr>n_chain_len := length p - ?k, n_chain := blit (n_chain n1) 0 (block (n_chain n1) ?k (length p - ?k))\<rparr>"
  have g: "get_response lk req0 0 0 0 n = Inr n2"
    unfolding get_response_def len Let_def using fits part s(1) by (simp only: k simp_thms if_False if_True not_less[symmetric] seqE_simps n2_def)
  have c: "n_chain n1 = n_chain n" using s(3) by (simp add: same_chain_def)
  have "pending n2 (drop ?k p)" unfolding n2_def c by (rule pending_shift[OF assms(2)]) simp
  moreover have "drop ?k p = drop 253 p" by (simp add: min_def)
  moreover have "offers 1 n n2 (next_part p)" using s(2) by (simp add: offers_def n2_def)
  moreover have "answered 1 n n2 = next_part p" if "reader_acks lk"
  proof -
    have "p14443_block_offset req0 + length (next_part p) \<le> 32 \<or> 31 < length (next_part p)" using assms(1) by auto
    from plain_sends[OF that this, of n] obtain fs where "quiet_out n fs n1" "concat (map (drop 1) fs) = next_part p"
      using s(1) assms(1) by (metis sum.inject(2))
    then show ?thesis using quiet_out_answered[of n fs n1 1] by (simp add: n2_def answered_def)
  qed
  ultimately show ?thesis using g by simp
qed

primrec get_rounds :: "nat \<Rightarrow> nfc_link \<Rightarrow> u8 \<Rightarrow> nfc \<Rightarrow> nfc_stop + nfc" where
  "get_rounds 0 lk req0 n = Inr n"
| "get_rounds (Suc k) lk req0 n = seqE (get_response lk req0 0 0 0 n) (get_rounds k lk req0)"

lemma get_rounds_pending:
  assumes "p14443_block_offset req0 = 1"
  shows "pending n p \<Longrightarrow> \<exists>n'. get_rounds j lk req0 n = Inr n' \<and> pending n' (drop (253 * j) p)"
proof (induction j arbitrary: n p)
  case (Suc j)
  obtain n1 where "get_response lk req0 0 0 0 n = Inr n1" "pending n1 (drop 253 p)"
    using get_response_offers[OF assms Suc.prems, of lk] by blast
  then show ?case using Suc.IH[of n1 "drop 253 p"] by (auto simp: add.commute)
qed simp

text \<open>C39 (termination). With a one-byte block header, whatever the reader does with the blocks, a host that repeats GET RESPONSE without Le gets through: every
  command runs to its end, command number \<open>j\<close> sends blocks that carry a beginning of the \<open>j\<close>-th 253 waiting bytes and their 61XX, all of them to a
  reader that acknowledges, and takes exactly these bytes off the queue; after one command for every 253 bytes nothing is left.\<close>

theorem nfc_fetch_ends:
  assumes "p14443_block_offset req0 = 1" "pending n p"
  shows "\<exists>n1 n2. get_rounds j lk req0 n = Inr n1 \<and> pending n1 (drop (253 * j) p)
    \<and> get_response lk req0 0 0 0 n1 = Inr n2 \<and> offers 1 n1 n2 (next_part (drop (253 * j) p))
    \<and> (reader_acks lk \<longrightarrow> answered 1 n1 n2 = next_part (drop (253 * j) p))
    \<and> (length p \<le> 253 * j \<longrightarrow> n_chain_len n1 = 0)"
proof -
  obtain n1 where n1: "get_rounds j lk req0 n = Inr n1" "pending n1 (drop (253 * j) p)"
    using get_rounds_pending[OF assms] by blast
  have "length p \<le> 253 * j \<longrightarrow> n_chain_len n1 = 0" using n1(2) by (simp add: pending_def)
  then show ?thesis using n1 get_response_offers[OF assms(1) n1(2), of lk] by blast
qed

theorem nfc_fetch_ends_witness:
  "\<exists>n1 n2. get_rounds 9 link0 0x02 (nfc0\<lparr>n_chain_len := 2048\<rparr>) = Inr n1 \<and> n_chain_len n1 = 0 \<and> get_response link0 0x02 0 0 0 n1 = Inr n2"
proof -
  have "pending (nfc0\<lparr>n_chain_len := 2048\<rparr>) (zeros 2048)" by (simp add: pending_def nfc0_def CHAIN_SIZE_def)
  from nfc_fetch_ends[OF _ this, of "0x02" 9 link0] show ?thesis by (auto simp: p14443_block_offset_def)
qed

subsection \<open>Where the buffers are left\<close>

text \<open>The status 6100 means 256 bytes or more, and Le = 00 in the GET RESPONSE that follows is decoded as 256: more than the 255 bytes
  of \<open>pck\<close>.\<close>

lemma get_response_256_overruns:
  "256 \<le> n_chain_len n \<Longrightarrow> get_response lk req0 0 0 0x100 n = Inl (NfcFault n)"
  by (simp add: get_response_def Let_def)

text \<open>31 bytes are sent in one block even where the header has two or three.\<close>

lemma short_response_overruns:
  "p14443_have_cid req0 \<Longrightarrow> length data = 31 \<Longrightarrow> nfc_write_response_chaining_plain lk req0 data n = Inl (NfcFault n)"
  by (simp add: nfc_write_response_chaining_plain_def p14443_have_cid_def p14443_block_offset_def)

text \<open>The last block of a chain is not checked against the space left in \<open>ibuf\<close>.\<close>

lemma last_block_overruns:
  "n_ibuflen n \<noteq> 0 \<Longrightarrow> IBUF_SIZE < n_ibuflen n + len \<Longrightarrow> last_iblock lk cb env ps buf len n = Inl (NfcFault n)"
proof -
  assume "IBUF_SIZE < n_ibuflen n + len" "n_ibuflen n \<noteq> 0"
  moreover from this have "IBUF_SIZE < n_ibuflen n + (len - p14443_block_offset (buf ! 0)) + p14443_block_offset (buf ! 0)" by simp
  ultimately show ?thesis by (simp only: last_iblock_def Let_def if_True simp_thms)
qed

text \<open>A chain of commands that ends in one without payload is written to address zero.\<close>

lemma empty_last_command_faults:
  assumes "n_chain_tx n = False" "0 < n_chain_len n" "a_data apdu = None"
    and "apdu_decode (drop (p14443_block_offset (n_ibuf n ! 0)) (n_ibuf n)) (size_of_int (int len - int (p14443_block_offset (n_ibuf n ! 0)))) = (0, apdu)"
    and "n_ibuf n ! p14443_block_offset (n_ibuf n ! 0) AND 0x10 = 0"
  shows "nfc_process_iblock lk cb env ps len n = Inl (NfcFault n)"
  using assms by (simp add: nfc_process_iblock_def Let_def)

text \<open>A refused command does not end the chain that was collected for it: the next command, if only to select the applet, gets the old bytes in front
  of its own.\<close>

lemma refused_command_keeps_chain:
  assumes "n_applet n \<noteq> APP_FIDO" "a_cla apdu = 0x80" "a_ins apdu = APDU_FIDO_NFCCTAP_MSG" "p14443_block_offset req0 = 1"
  shows "\<exists>n'. apdu_process lk cb env ps req0 p data apdu n = Inr n' \<and> n_chain_len n' = n_chain_len n \<and> n_chain n' = n_chain n
    \<and> n_chain_tx n' = n_chain_tx n"
proof -
  have "apdu_process lk cb env ps req0 p data apdu n = answer_sw lk req0 SW_INS_INVALID n"
    using assms(1-3) by (simp add: apdu_process_def Let_def ins_defs)
  moreover have z: "(27904 :: u8) = 0" by simp
  have "answer_sw lk req0 SW_INS_INVALID n
      = Inr (snd (ams_wait_for_tx lk (nfc_write_frame (block_head req0 (iblock_pcb req0) (n_current_cid n) @ [0x6d, 0]) n)))"
    using assms(4) by (simp add: answer_sw_def nfc_write_response_def nfc_write_response_ex_def Let_def split_beta SW_INS_INVALID_def z)
  moreover have "quiet_out n [block_head req0 (iblock_pcb req0) (n_current_cid n) @ [0x6d, 0]]
      (snd (ams_wait_for_tx lk (nfc_write_frame (block_head req0 (iblock_pcb req0) (n_current_cid n) @ [0x6d, 0]) n)))"
    using quiet_out_trans[OF frame_quiet wait_quiet] assms(4) by fastforce
  ultimately show ?thesis using quiet_out_chain by fastforce
qed

end
