(* ===== verification/Bootloader.thy ===== *)
theory Bootloader
  imports Flash CryptoRuns U2f
begin

text \<open>
  The bootloader (\<^verbatim>\<open>targets/stm32l432/bootloader/bootloader.c\<close>, \<^verbatim>\<open>version_check.c\<close> and the choice in its \<^verbatim>\<open>main.c\<close>), as built
  for production (without SOLO_HACKER): requests that erase and write the application pages, verify the signature over them, keep the
  version from going back, and authorise the application to boot. Addresses are \<open>uint32_t\<close> as in the code, \<open>flash_off\<close> is their offset
  in the flash. Signature verification (micro-ecc, a submodule), the flash hardware and the strings of the USB descriptor are
  parameters. The LED heartbeat and the log are not modelled.
\<close>

record boot_env =
  bv_verify :: "bytes \<Rightarrow> bytes \<Rightarrow> bytes \<Rightarrow> bool"
  bv_pubkey :: bytes
  bv_prog :: prog_fn
  bv_version :: "u8 \<times> u8 \<times> u8"
  bv_product :: bytes
  bv_manufacturer :: bytes

record boot =
  bo_flash :: flash
  bo_last :: u32
  bo_erased :: bool
  bo_reboot :: bool
  bo_cr :: crypto_state

definition FLASH_BASE :: u32 where "FLASH_BASE = 0x08000000"
definition APPLICATION_START_ADDR :: u32 where "APPLICATION_START_ADDR = 0x08005000"
definition APPLICATION_END_ADDR :: u32 where "APPLICATION_END_ADDR = 0x08035ff8"
definition LAST_PAGE :: nat where "LAST_PAGE = APPLICATION_END_PAGE - 1"
definition BOOT_VERSION_PAGE :: nat where "BOOT_VERSION_PAGE = APPLICATION_END_PAGE"

definition flash_off :: "u32 \<Rightarrow> nat" where "flash_off a = unat (a - FLASH_BASE)"

text \<open>The same places as offsets: the words that authorise the application and disable the bootloader are the last eight bytes of
  the last application page.\<close>

definition START_OFF :: nat where "START_OFF = APPLICATION_START_PAGE * FLASH_PAGE_SIZE"
definition AUTH_OFF :: nat where "AUTH_OFF = APPLICATION_END_PAGE * FLASH_PAGE_SIZE - 8"
definition LAST_OFF :: nat where "LAST_OFF = LAST_PAGE * FLASH_PAGE_SIZE"
definition BOOT_VERSION_OFF :: nat where "BOOT_VERSION_OFF = BOOT_VERSION_PAGE * FLASH_PAGE_SIZE + 8"

lemmas boot_layout = APPLICATION_START_ADDR_def APPLICATION_END_ADDR_def FLASH_BASE_def flash_off_def

lemma boot_offsets: "START_OFF = 20480" "AUTH_OFF = 221176" "LAST_OFF = 219136" "BOOT_VERSION_OFF = 221192"
  "LAST_PAGE = 107" "BOOT_VERSION_PAGE = 108" "APPLICATION_START_PAGE = 10" "APPLICATION_END_PAGE = 108"
  by (simp_all add: START_OFF_def AUTH_OFF_def LAST_OFF_def BOOT_VERSION_OFF_def LAST_PAGE_def BOOT_VERSION_PAGE_def
      APPLICATION_START_PAGE_def APPLICATION_END_PAGE_def FLASH_PAGE_SIZE_def)

lemma boot_addrs: "flash_off APPLICATION_START_ADDR = START_OFF" "flash_off APPLICATION_END_ADDR = AUTH_OFF"
  by (simp_all add: boot_layout boot_offsets)

subsection \<open>The application pages\<close>

definition erase_application_ops :: "flash_op list" where
  "erase_application_ops = map FErase [APPLICATION_START_PAGE..<APPLICATION_END_PAGE]"

definition erase_application :: "boot_env \<Rightarrow> boot \<Rightarrow> boot" where
  "erase_application bv b = b\<lparr>bo_last := 0, bo_flash := flash_run (bv_prog bv) erase_application_ops (bo_flash b)\<rparr>"

definition is_authorized_to_boot :: "flash \<Rightarrow> bool" where
  "is_authorized_to_boot f \<longleftrightarrow> flash_read f AUTH_OFF 4 = [0, 0, 0, 0]"

definition is_bootloader_disabled :: "flash \<Rightarrow> bool" where
  "is_bootloader_disabled f \<longleftrightarrow> flash_read f (AUTH_OFF + 4) 4 = [0, 0, 0, 0]"

text \<open>The last page with four bytes cleared, as the operations that write it back.\<close>

definition clear_in_last_page :: "nat \<Rightarrow> flash \<Rightarrow> flash_op list" where
  "clear_in_last_page k f =
     (let page = flash_read f LAST_OFF FLASH_PAGE_SIZE;
          page = memset page (FLASH_PAGE_SIZE - k) 0 4
      in FErase LAST_PAGE # flash_write_ops LAST_OFF page)"

definition disable_bootloader :: "boot_env \<Rightarrow> boot \<Rightarrow> boot" where
  "disable_bootloader bv b = b\<lparr>bo_flash := flash_run (bv_prog bv) (clear_in_last_page 4 (bo_flash b)) (bo_flash b)\<rparr>"

definition authorize_application :: "boot_env \<Rightarrow> boot \<Rightarrow> boot" where
  "authorize_application bv b =
     (if is_authorized_to_boot (bo_flash b) then b
      else b\<lparr>bo_flash := flash_run (bv_prog bv) (clear_in_last_page 8 (bo_flash b)) (bo_flash b)\<rparr>)"

subsection \<open>Versions\<close>

text \<open>A version is its four bytes: major, minor, patch, reserved.\<close>

definition is_newer :: "bytes \<Rightarrow> bytes \<Rightarrow> bool" where
  "is_newer newer older \<longleftrightarrow>
     newer ! 0 > older ! 0 \<or> newer ! 0 = older ! 0 \<and> newer ! 1 > older ! 1
     \<or> newer ! 0 = older ! 0 \<and> newer ! 1 = older ! 1 \<and> newer ! 2 \<ge> older ! 2"

text \<open>The version of the uploaded firmware is taken from the four bytes before the end of the last write.\<close>

definition is_firmware_version_newer_or_equal :: "boot_env \<Rightarrow> boot \<Rightarrow> bool \<times> boot" where
  "is_firmware_version_newer_or_equal bv b =
     (if bo_last b = 0 then (False, b)
      else
        let current_version = flash_read (bo_flash b) BOOT_VERSION_OFF 4;
            new_version = flash_read (bo_flash b) (flash_off (bo_last b - 8 + 4)) 4;
            allowed = (is_newer new_version current_version \<or> current_version = [0xff, 0xff, 0xff, 0xff]) in
        if allowed then
          let page = flash_read (bo_flash b) BOOT_VERSION_OFF FLASH_PAGE_SIZE;
              page = blit page 0 new_version;
              f = flash_erase_page BOOT_VERSION_PAGE (bo_flash b);
              f = flash_write (bv_prog bv) BOOT_VERSION_OFF page f
          in (True, b\<lparr>bo_flash := f\<rparr>)
        else (False, b))"

subsection \<open>Requests\<close>

definition BootWrite :: u8 where "BootWrite = 0x40"
definition BootDone :: u8 where "BootDone = 0x41"
definition BootCheck :: u8 where "BootCheck = 0x42"
definition BootErase :: u8 where "BootErase = 0x43"
definition BootVersion :: u8 where "BootVersion = 0x44"
definition BootReboot :: u8 where "BootReboot = 0x45"
definition BootDisable :: u8 where "BootDisable = 0x47"
definition BootPubkey :: u8 where "BootPubkey = 0x48"

definition BOOT_INVALID_COMMAND :: int where "BOOT_INVALID_COMMAND = 0x01"
definition BOOT_INVALID_LENGTH :: int where "BOOT_INVALID_LENGTH = 0x03"
definition BOOT_OPERATION_DENIED :: int where "BOOT_OPERATION_DENIED = 0x27"
definition BOOT_NOT_ALLOWED :: int where "BOOT_NOT_ALLOWED = 0x30"

lemmas boot_ops = BootWrite_def BootDone_def BootCheck_def BootErase_def BootVersion_def BootReboot_def BootDisable_def BootPubkey_def
lemmas boot_errs = BOOT_INVALID_COMMAND_def BOOT_INVALID_LENGTH_def BOOT_OPERATION_DENIED_def BOOT_NOT_ALLOWED_def

text \<open>The members of the request structure. The address is read as four bytes and cut to three.\<close>

definition br_op :: "bytes \<Rightarrow> u8" where "br_op keyh = keyh ! 0"
definition br_addr :: "bytes \<Rightarrow> u32" where
  "br_addr keyh = (le32 (keyh ! 1) (keyh ! 2) (keyh ! 3) (keyh ! 4) AND 0xffffff) OR FLASH_BASE"
definition br_len :: "bytes \<Rightarrow> u16" where "br_len keyh = be16 (keyh ! 8) (keyh ! 9)"
definition br_payload :: "bytes \<Rightarrow> bytes" where "br_payload keyh = drop 10 keyh"

definition boot_write :: "boot_env \<Rightarrow> u32 \<Rightarrow> bytes \<Rightarrow> u16 \<Rightarrow> boot \<Rightarrow> boot + (int \<times> boot)" where
  "boot_write bv addr payload len b =
     (if addr < APPLICATION_START_ADDR \<or> addr \<ge> APPLICATION_END_ADDR \<or> addr + ucast len > APPLICATION_END_ADDR
      then Inr (BOOT_NOT_ALLOWED, b)
      else
        let b = (if \<not> bo_erased b \<or> is_authorized_to_boot (bo_flash b) then (erase_application bv b)\<lparr>bo_erased := True\<rparr> else b) in
        if is_authorized_to_boot (bo_flash b) then Inl b
        else
          let current_address = addr + ucast len in
          if current_address < bo_last b then Inr (BOOT_NOT_ALLOWED, b\<lparr>bo_erased := False\<rparr>)
          else Inr (0, b\<lparr>bo_last := current_address,
                         bo_flash := flash_write (bv_prog bv) (flash_off addr) (take (unat len) payload) (bo_flash b)\<rparr>))"

text \<open>SHA-256 over the application pages up to the two words.\<close>

definition app_image :: "flash \<Rightarrow> bytes" where
  "app_image f = flash_read f START_OFF (AUTH_OFF - START_OFF)"

definition boot_done :: "boot_env \<Rightarrow> bytes \<Rightarrow> u16 \<Rightarrow> boot \<Rightarrow> int \<times> boot" where
  "boot_done bv payload len b =
     (if len \<noteq> 64 then (BOOT_INVALID_LENGTH, b)
      else
        let cr = crypto_sha256_init (bo_cr b);
            cr = crypto_sha256_update (app_image (bo_flash b)) cr;
            (hash, cr) = crypto_sha256_final cr;
            b = b\<lparr>bo_cr := cr\<rparr> in
        if \<not> bv_verify bv (bv_pubkey bv) hash (take 64 payload) then (BOOT_OPERATION_DENIED, b\<lparr>bo_reboot := True\<rparr>)
        else case is_firmware_version_newer_or_equal bv b of (allowed, b) \<Rightarrow>
          if \<not> allowed then (BOOT_OPERATION_DENIED, b\<lparr>bo_reboot := True\<rparr>)
          else (0, (authorize_application bv b)\<lparr>bo_reboot := True\<rparr>))"

definition boot_version_reply :: "boot_env \<Rightarrow> ctap_response \<Rightarrow> ctap_response" where
  "boot_version_reply bv resp =
     (case bv_version bv of (major, minor, patch) \<Rightarrow>
      let resp = u2f_response_writeback [major] resp;
          resp = u2f_response_writeback [minor] resp;
          resp = u2f_response_writeback [patch] resp;
          resp = u2f_response_writeback [0xff] resp;
          resp = u2f_response_writeback (bv_product bv) resp;
          resp = u2f_response_writeback [0xff] resp;
          resp = u2f_response_writeback (bv_manufacturer bv) resp
      in u2f_response_writeback [0xff] resp)"

text \<open>\<open>klen\<close> is the length of the request, \<open>keyh\<close> the memory it is in. An \<open>Inl\<close> is \<open>exit(1)\<close>.\<close>

definition bootloader_bridge ::
    "boot_env \<Rightarrow> int \<Rightarrow> bytes \<Rightarrow> ctap_response \<Rightarrow> boot \<Rightarrow> boot + (int \<times> ctap_response \<times> boot)" where
  "bootloader_bridge bv klen keyh resp b =
     (let op = br_op keyh; len = br_len keyh; payload = br_payload keyh in
      if uint len > klen - 10 then Inr (BOOT_INVALID_LENGTH, resp, b)
      else if op = BootWrite then
        seqE (boot_write bv (br_addr keyh) payload len b) (\<lambda>(r, b). Inr (r, resp, b))
      else if op = BootDone then case boot_done bv payload len b of (r, b) \<Rightarrow> Inr (r, resp, b)
      else if op = BootCheck then Inr (0, resp, b)
      else if op = BootErase then Inr (0, resp, erase_application bv b)
      else if op = BootPubkey then Inr (0, u2f_response_writeback (take (min (length (bv_pubkey bv)) 71) (bv_pubkey bv)) resp, b\<lparr>bo_erased := False\<rparr>)
      else if op = BootVersion then Inr (0, boot_version_reply bv resp, b\<lparr>bo_erased := False\<rparr>)
      else if op = BootReboot then Inr (0, resp, b\<lparr>bo_reboot := True\<rparr>)
      else if op = BootDisable then
        if take 4 payload = [0xcd, 0xde, 0xba, 0xaa] then Inr (0, u2f_response_writeback [0] resp, disable_bootloader bv b)
        else Inr (0, u2f_response_writeback [0x27] resp, b)
      else Inr (BOOT_INVALID_COMMAND, resp, b))"

subsection \<open>What starts\<close>

datatype boot_target = Application | BootloaderLoop

text \<open>\<open>watchdog\<close>: the reset was one of the independent watchdog, by which the application asks for the bootloader. \<open>boot\<close> is constantly
  1 in this build.\<close>

definition boot_choice :: "bool \<Rightarrow> flash \<Rightarrow> boot_target" where
  "boot_choice watchdog f =
     (if \<not> is_bootloader_disabled f \<and> watchdog then BootloaderLoop
      else if is_authorized_to_boot f then Application
      else BootloaderLoop)"

text \<open>The bootloader has a signature counter of its own, a static variable that starts at 1000.\<close>

definition boot_atomic_count :: "u32 \<Rightarrow> u32 \<Rightarrow> u32 \<times> u32" where
  "boot_atomic_count amount count = (let count = count + (amount + 1) in (count, count))"

text \<open>RAM of the bootloader at its start.\<close>

definition boot_start :: "crypto_state \<Rightarrow> flash \<Rightarrow> boot" where
  "boot_start cr f = \<lparr>bo_flash = f, bo_last = 0, bo_erased = False, bo_reboot = False, bo_cr = cr\<rparr>"

end
