(* ===== verification/BootClaims.thy ===== *)
theory BootClaims
  imports Bootloader
begin

text \<open>
  The bootloader only lets an application start whose pages carry a valid signature, whatever requests it gets; where
  the protection against older versions and against a power cut ends.
\<close>

subsection \<open>What the flash operations change\<close>

lemma run_erases:
  "flash_run prog (map FErase ps) f x = (if x div FLASH_PAGE_SIZE \<in> set ps then 0xff else f x)"
  by (induction ps arbitrary: f) (auto simp: flash_erase_page_def)

lemma blocks_of_eight: "0 < n \<Longrightarrow> (n + 7) div 8 = Suc ((n - 8 + 7) div (8 :: nat))"
proof (cases "8 \<le> n")
  case True
  then obtain m where "n = 8 + m" using le_Suc_ex by blast
  then have "n + 7 = 8 + (m + 7)" "n - 8 + 7 = m + 7" by simp_all
  then show ?thesis by (simp only: div_add_self1)
next
  case False
  then show "0 < n \<Longrightarrow> ?thesis" by (auto intro!: div_nat_eqI)
qed

lemma write_loop_frame:
  "x < a \<or> a + 8 * ((length data + 7) div 8) \<le> x \<Longrightarrow> flash_run prog (flash_write_loop a data) f x = f x"
proof (induction a data arbitrary: f rule: flash_write_loop.induct)
  case (1 a data)
  show ?case
  proof (cases "data = []")
    case False
    then have k: "(length data + 7) div 8 = Suc ((length (drop 8 data) + 7) div 8)" using blocks_of_eight[of "length data"] by simp
    have w: "flash_write_dword prog a d f x = f x" for d using 1(2) k by (auto simp: flash_write_dword_def Let_def)
    have "x < a + 8 \<or> a + 8 + 8 * ((length (drop 8 data) + 7) div 8) \<le> x" using 1(2) k by auto
    from 1(1)[OF False this] w show ?thesis
      using False by (subst flash_write_loop.simps) simp
  qed simp
qed

lemma flash_write_frame:
  assumes "a + length data \<le> e" "e mod 8 = 0" "s mod 8 = 0" "s \<le> a" "x < s \<or> e \<le> x"
  shows "flash_write prog a data f x = f x"
proof -
  obtain i j where ij: "e = 8 * i" "s = 8 * j" using assms(2,3) by (metis mod_0_imp_dvd dvdE)
  have a: "a - a mod 8 = 8 * (a div 8)" by (simp add: minus_mod_eq_mult_div)
  have "j * 8 div 8 \<le> a div 8" using assms(4) ij by (intro div_le_mono) simp
  then have s: "s \<le> a - a mod 8" using a ij by simp
  have q: "8 * (a div 8) + length data \<le> 8 * i" using assms(1) ij times_div_less_eq_dividend[of 8 a] by linarith
  then have "(length data + 7) div 8 \<le> (8 * (i - a div 8) + 7) div 8" by (intro div_le_mono) (simp add: algebra_simps)
  then have "(length data + 7) div 8 \<le> i - a div 8" by simp
  moreover have "a div 8 \<le> i" using q by linarith
  ultimately have "a div 8 + (length data + 7) div 8 \<le> i" by linarith
  from mult_le_mono2[OF this, of 8] have "a - a mod 8 + 8 * ((length data + 7) div 8) \<le> e"
    unfolding a ij add_mult_distrib2 .
  with s show ?thesis using assms(5) unfolding flash_write_def flash_write_ops_def
    by (intro write_loop_frame) linarith
qed

lemma erase_application_flash:
  "bo_flash (erase_application bv b) x = (if START_OFF \<le> x \<and> x < AUTH_OFF + 8 then 0xff else bo_flash b x)"
proof -
  have "x div FLASH_PAGE_SIZE \<in> set [APPLICATION_START_PAGE..<APPLICATION_END_PAGE] \<longleftrightarrow> START_OFF \<le> x \<and> x < AUTH_OFF + 8"
    unfolding set_upt boot_offsets FLASH_PAGE_SIZE_def
    by (simp add: less_eq_div_iff_mult_less_eq div_less_iff_less_mult)
  then show ?thesis by (simp add: erase_application_def erase_application_ops_def run_erases)
qed

lemma last_page_flash:
  assumes "prog_ok prog" "4 \<le> k" "k \<le> FLASH_PAGE_SIZE"
  shows "flash_run prog (clear_in_last_page k f) f x =
    (if LAST_OFF + FLASH_PAGE_SIZE - k \<le> x \<and> x < LAST_OFF + FLASH_PAGE_SIZE - k + 4 then 0 else f x)"
proof -
  let ?page = "memset (flash_read f LAST_OFF FLASH_PAGE_SIZE) (FLASH_PAGE_SIZE - k) 0 4"
  let ?g = "flash_erase_page LAST_PAGE f"
  have len: "length ?page = FLASH_PAGE_SIZE" using assms by (simp add: memset_def)
  have "erased ?g LAST_OFF FLASH_PAGE_SIZE"
    using erase_page_erased[of LAST_PAGE f] by (simp add: LAST_OFF_def flash_addr_def)
  then have "flash_write prog LAST_OFF ?page ?g =
      (\<lambda>x. if LAST_OFF \<le> x \<and> x < LAST_OFF + FLASH_PAGE_SIZE then ?page ! (x - LAST_OFF) else ?g x)"
    using flash_write_erased[OF assms(1), of LAST_OFF ?g FLASH_PAGE_SIZE ?page] len by (simp add: boot_offsets FLASH_PAGE_SIZE_def)
  moreover have "?page ! i = (if FLASH_PAGE_SIZE - k \<le> i \<and> i < FLASH_PAGE_SIZE - k + 4 then 0 else f (LAST_OFF + i))"
    if "i < FLASH_PAGE_SIZE" for i
    using assms(2,3) that by (auto simp: memset_def nth_blit flash_read_nth)
  moreover have "?g x = f x" if "\<not> (LAST_OFF \<le> x \<and> x < LAST_OFF + FLASH_PAGE_SIZE)"
    using that by (auto simp: flash_erase_page_def boot_offsets FLASH_PAGE_SIZE_def)
  ultimately show ?thesis using assms(2,3)
    by (auto simp: clear_in_last_page_def Let_def flash_write_def)
qed

lemma flash_read_cong: "(\<And>x. a \<le> x \<Longrightarrow> x < a + k \<Longrightarrow> f x = g x) \<Longrightarrow> flash_read f a k = flash_read g a k"
  by (rule flash_read_eqI)

text \<open>The two parts of the flash the decision to boot looks at.\<close>

definition same_app :: "flash \<Rightarrow> flash \<Rightarrow> bool" where
  "same_app f g \<longleftrightarrow> (\<forall>x. START_OFF \<le> x \<and> x < AUTH_OFF \<longrightarrow> g x = f x)"

definition same_auth :: "flash \<Rightarrow> flash \<Rightarrow> bool" where
  "same_auth f g \<longleftrightarrow> (\<forall>x. AUTH_OFF \<le> x \<and> x < AUTH_OFF + 4 \<longrightarrow> g x = f x)"

definition same_outside :: "flash \<Rightarrow> flash \<Rightarrow> bool" where
  "same_outside f g \<longleftrightarrow> (\<forall>x. x < START_OFF \<or> BOOT_VERSION_OFF + FLASH_PAGE_SIZE \<le> x \<longrightarrow> g x = f x)"

lemma same_app_image: "same_app f g \<Longrightarrow> app_image g = app_image f"
  unfolding app_image_def by (rule flash_read_cong) (simp add: same_app_def boot_offsets)

lemma same_auth_word: "same_auth f g \<Longrightarrow> is_authorized_to_boot g = is_authorized_to_boot f"
  unfolding is_authorized_to_boot_def by (subst flash_read_cong[of AUTH_OFF 4 g f]) (simp_all add: same_auth_def)

lemma erased_not_authorized: "(\<And>x. AUTH_OFF \<le> x \<Longrightarrow> x < AUTH_OFF + 4 \<Longrightarrow> f x = 0xff) \<Longrightarrow> \<not> is_authorized_to_boot f"
proof
  assume f: "\<And>x. AUTH_OFF \<le> x \<Longrightarrow> x < AUTH_OFF + 4 \<Longrightarrow> f x = 0xff" and a: "is_authorized_to_boot f"
  have "f AUTH_OFF = flash_read f AUTH_OFF 4 ! 0" by (simp add: flash_read_nth)
  also have "\<dots> = 0" using a by (simp add: is_authorized_to_boot_def)
  finally show False using f[of AUTH_OFF] by simp
qed
subsection \<open>One request\<close>

definition app_signed :: "boot_env \<Rightarrow> flash \<Rightarrow> bool" where
  "app_signed bv f \<longleftrightarrow> (\<exists>sig. bv_verify bv (bv_pubkey bv) (sha256 (app_image f)) sig)"

definition boot_inv :: "boot_env \<Rightarrow> boot \<Rightarrow> bool" where
  "boot_inv bv b \<longleftrightarrow> crypto_ok (bo_cr b) \<and> (is_authorized_to_boot (bo_flash b) \<longrightarrow> app_signed bv (bo_flash b))"

lemma boot_inv_flag [simp]:
  "boot_inv bv (b\<lparr>bo_erased := e\<rparr>) = boot_inv bv b" "boot_inv bv (b\<lparr>bo_reboot := e\<rparr>) = boot_inv bv b"
  "boot_inv bv (b\<lparr>bo_last := l\<rparr>) = boot_inv bv b"
  by (simp_all add: boot_inv_def)

text \<open>What a request may do to the flash.\<close>

definition boot_flash_step :: "boot_env \<Rightarrow> flash \<Rightarrow> flash \<Rightarrow> bool" where
  "boot_flash_step bv f g \<longleftrightarrow> same_outside f g
     \<and> (is_authorized_to_boot g \<longrightarrow> app_signed bv g \<or> is_authorized_to_boot f \<and> app_image g = app_image f)"

lemma boot_step_refl [simp]: "boot_flash_step bv f f"
  by (simp add: boot_flash_step_def same_outside_def)

lemma boot_step_keeps: "boot_flash_step bv f g \<Longrightarrow> (is_authorized_to_boot f \<longrightarrow> app_signed bv f) \<Longrightarrow> is_authorized_to_boot g \<longrightarrow> app_signed bv g"
  by (auto simp: boot_flash_step_def app_signed_def)

lemma erase_step: "boot_flash_step bv (bo_flash b) (bo_flash (erase_application bv b))" "\<not> is_authorized_to_boot (bo_flash (erase_application bv b))"
proof -
  show "\<not> is_authorized_to_boot (bo_flash (erase_application bv b))"
    by (rule erased_not_authorized) (simp add: erase_application_flash boot_offsets)
  then show "boot_flash_step bv (bo_flash b) (bo_flash (erase_application bv b))"
    by (simp add: boot_flash_step_def same_outside_def erase_application_flash boot_offsets FLASH_PAGE_SIZE_def)
qed

lemma write_in_app:
  assumes "\<not> (addr < APPLICATION_START_ADDR \<or> addr \<ge> APPLICATION_END_ADDR \<or> addr + ucast len > APPLICATION_END_ADDR)"
  shows "START_OFF \<le> flash_off addr" "flash_off addr + unat (len :: u16) \<le> AUTH_OFF"
proof -
  have a: "0x08005000 \<le> unat addr" "unat addr < 0x08035ff8" using assms
    by (simp_all add: APPLICATION_START_ADDR_def APPLICATION_END_ADDR_def word_less_nat_alt word_le_nat_alt)
  have l: "unat len < 65536" by (rule unat_u16_lt)
  have "unat (addr + ucast len) = unat addr + unat len"
    using a l by (simp add: unat_word_ariths)
  then have e: "unat addr + unat len \<le> 0x08035ff8" using assms
    by (simp add: APPLICATION_END_ADDR_def word_le_nat_alt not_less)
  have "flash_off addr = unat addr - 0x08000000"
    using a by (simp add: flash_off_def FLASH_BASE_def unat_sub word_le_nat_alt)
  with a e show "START_OFF \<le> flash_off addr" "flash_off addr + unat len \<le> AUTH_OFF"
    by (simp_all add: boot_offsets)
qed

lemma boot_write_step:
  obtains r b' where "boot_write bv addr payload len b = Inr (r, b')" "boot_flash_step bv (bo_flash b) (bo_flash b')" "bo_cr b' = bo_cr b"
proof (cases "addr < APPLICATION_START_ADDR \<or> addr \<ge> APPLICATION_END_ADDR \<or> addr + ucast len > APPLICATION_END_ADDR")
  case True
  then show ?thesis by (intro that[of BOOT_NOT_ALLOWED b]) (simp_all add: boot_write_def)
next
  case False
  define c where "c = (if \<not> bo_erased b \<or> is_authorized_to_boot (bo_flash b) then (erase_application bv b)\<lparr>bo_erased := True\<rparr> else b)"
  have c: "boot_flash_step bv (bo_flash b) (bo_flash c)" "\<not> is_authorized_to_boot (bo_flash c)" "bo_cr c = bo_cr b"
    using erase_step[of bv b] by (simp_all add: c_def erase_application_def)
  let ?g = "flash_write (bv_prog bv) (flash_off addr) (take (unat len) payload) (bo_flash c)"
  have w: "?g x = bo_flash c x" if "x < START_OFF \<or> AUTH_OFF \<le> x" for x
    using write_in_app[OF False] that
    by (intro flash_write_frame[of _ _ AUTH_OFF START_OFF]) (auto simp: boot_offsets)
  have "\<not> is_authorized_to_boot ?g"
    using c(2) same_auth_word[of "bo_flash c" ?g] w by (simp add: same_auth_def)
  moreover have "same_outside (bo_flash b) ?g"
    using c(1) w by (auto simp: boot_flash_step_def same_outside_def boot_offsets)
  ultimately have g: "boot_flash_step bv (bo_flash b) ?g" by (simp add: boot_flash_step_def)
  have "boot_write bv addr payload len b =
      (if addr + ucast len < bo_last c then Inr (BOOT_NOT_ALLOWED, c\<lparr>bo_erased := False\<rparr>)
       else Inr (0, c\<lparr>bo_last := addr + ucast len, bo_flash := ?g\<rparr>))"
    unfolding boot_write_def Let_def c_def[symmetric] using False c(2) by (simp only: if_False)
  then show ?thesis
    using c g by (cases "addr + ucast len < bo_last c")
      (auto intro: that[of BOOT_NOT_ALLOWED "c\<lparr>bo_erased := False\<rparr>"] that[of 0 "c\<lparr>bo_last := addr + ucast len, bo_flash := ?g\<rparr>"])
qed
lemma same_steps: "same_app f g \<Longrightarrow> same_auth f g \<Longrightarrow> same_outside f g \<Longrightarrow> boot_flash_step bv f g"
  by (simp add: boot_flash_step_def same_app_image same_auth_word)

lemma version_step:
  assumes "is_firmware_version_newer_or_equal bv b = (ok, b')"
  shows "same_app (bo_flash b) (bo_flash b')" "same_auth (bo_flash b) (bo_flash b')" "same_outside (bo_flash b) (bo_flash b')"
    "bo_cr b' = bo_cr b" "bo_last b = 0 \<Longrightarrow> \<not> ok"
proof -
  have w: "flash_write (bv_prog bv) BOOT_VERSION_OFF p (flash_erase_page BOOT_VERSION_PAGE f) x = f x"
    if "length p = FLASH_PAGE_SIZE" "x < AUTH_OFF + 8 \<or> BOOT_VERSION_OFF + FLASH_PAGE_SIZE \<le> x" for p f x
  proof -
    have "flash_write (bv_prog bv) BOOT_VERSION_OFF p (flash_erase_page BOOT_VERSION_PAGE f) x = flash_erase_page BOOT_VERSION_PAGE f x"
      using that by (intro flash_write_frame[of _ _ "BOOT_VERSION_OFF + FLASH_PAGE_SIZE" BOOT_VERSION_OFF])
        (auto simp: boot_offsets FLASH_PAGE_SIZE_def)
    moreover have "x div FLASH_PAGE_SIZE \<noteq> BOOT_VERSION_PAGE"
    proof
      assume "x div FLASH_PAGE_SIZE = BOOT_VERSION_PAGE"
      then have "108 * 2048 \<le> x \<and> x < 109 * 2048" by (simp add: boot_offsets FLASH_PAGE_SIZE_def) linarith
      with that(2) show False by (simp add: boot_offsets FLASH_PAGE_SIZE_def)
    qed
    ultimately show ?thesis by (simp add: flash_erase_page_def)
  qed
  have l: "length (blit (flash_read f BOOT_VERSION_OFF FLASH_PAGE_SIZE) 0 (flash_read f a 4)) = FLASH_PAGE_SIZE" for f a
    by (simp add: FLASH_PAGE_SIZE_def)
  have o: "START_OFF < AUTH_OFF" by (simp add: boot_offsets)
  note u = is_firmware_version_newer_or_equal_def
  show "same_app (bo_flash b) (bo_flash b')" "same_auth (bo_flash b) (bo_flash b')" "same_outside (bo_flash b) (bo_flash b')"
    using assms w[OF l] o by (auto simp: u Let_def same_app_def same_auth_def same_outside_def split: if_splits)
  show "bo_cr b' = bo_cr b" "bo_last b = 0 \<Longrightarrow> \<not> ok"
    using assms by (auto simp: u Let_def split: if_splits)
qed

lemma clear_last_step:
  assumes "prog_ok (bv_prog bv)" "k = 4 \<or> k = 8"
  shows "same_app f (flash_run (bv_prog bv) (clear_in_last_page k f) f)" "same_outside f (flash_run (bv_prog bv) (clear_in_last_page k f) f)"
    "k = 4 \<Longrightarrow> same_auth f (flash_run (bv_prog bv) (clear_in_last_page k f) f)"
    "k = 8 \<Longrightarrow> is_authorized_to_boot (flash_run (bv_prog bv) (clear_in_last_page k f) f)"
proof -
  have f: "flash_run (bv_prog bv) (clear_in_last_page k f) f x =
      (if LAST_OFF + FLASH_PAGE_SIZE - k \<le> x \<and> x < LAST_OFF + FLASH_PAGE_SIZE - k + 4 then 0 else f x)" for x
    using assms by (intro last_page_flash) (auto simp: FLASH_PAGE_SIZE_def)
  show "same_app f (flash_run (bv_prog bv) (clear_in_last_page k f) f)" "same_outside f (flash_run (bv_prog bv) (clear_in_last_page k f) f)"
    "k = 4 \<Longrightarrow> same_auth f (flash_run (bv_prog bv) (clear_in_last_page k f) f)"
    unfolding same_app_def same_outside_def same_auth_def f using assms(2) by (auto simp: boot_offsets FLASH_PAGE_SIZE_def)
  show "is_authorized_to_boot (flash_run (bv_prog bv) (clear_in_last_page k f) f)" if "k = 8"
    unfolding is_authorized_to_boot_def flash_read_def f using that
    by (simp add: boot_offsets FLASH_PAGE_SIZE_def upt_conv_Cons del: upt.simps)
qed

lemma authorize_step:
  assumes "prog_ok (bv_prog bv)"
  shows "same_app (bo_flash b) (bo_flash (authorize_application bv b))" "same_outside (bo_flash b) (bo_flash (authorize_application bv b))"
    "is_authorized_to_boot (bo_flash (authorize_application bv b))" "bo_cr (authorize_application bv b) = bo_cr b"
  using clear_last_step[OF assms, of 8 "bo_flash b"]
  by (auto simp: authorize_application_def same_app_def same_outside_def)

lemma authorize_above:
  "prog_ok (bv_prog bv) \<Longrightarrow> AUTH_OFF + 8 \<le> x \<Longrightarrow> bo_flash (authorize_application bv b) x = bo_flash b x"
  by (simp add: authorize_application_def last_page_flash boot_offsets FLASH_PAGE_SIZE_def)

lemma same_trans: "same_app f g \<Longrightarrow> same_app g h \<Longrightarrow> same_app f h" "same_outside f g \<Longrightarrow> same_outside g h \<Longrightarrow> same_outside f h"
  by (simp_all add: same_app_def same_outside_def)

lemma boot_done_step:
  assumes "prog_ok (bv_prog bv)" "crypto_ok (bo_cr b)" "boot_done bv payload len b = (r, b')"
  shows "boot_flash_step bv (bo_flash b) (bo_flash b')" "crypto_ok (bo_cr b')"
proof -
  obtain cr where h: "crypto_sha256_final (crypto_sha256_update (app_image (bo_flash b)) (crypto_sha256_init (bo_cr b)))
      = (sha256 (app_image (bo_flash b)), cr)" "crypto_ok cr"
    using sha_run1[OF assms(2)] cr_sim_ok by blast
  obtain ok c where v: "is_firmware_version_newer_or_equal bv (b\<lparr>bo_cr := cr\<rparr>) = (ok, c)" by fastforce
  note vs = version_step[OF v, simplified]
  note as = authorize_step[OF assms(1), of c]
  have a: "boot_flash_step bv (bo_flash b) (bo_flash (authorize_application bv c))"
    if "bv_verify bv (bv_pubkey bv) (sha256 (app_image (bo_flash b))) (take 64 payload)"
    using that same_trans(1)[OF vs(1) as(1)] same_trans(2)[OF vs(3) as(2)]
    by (auto simp: boot_flash_step_def app_signed_def same_app_image)
  note d = assms(3)[unfolded boot_done_def Let_def h(1) split_conv, simplified v split_conv]
  show "boot_flash_step bv (bo_flash b) (bo_flash b')" "crypto_ok (bo_cr b')"
    using d a as(4) vs(4) h(2) assms(2) same_steps[OF vs(1-3)] v by (auto split: if_splits)
qed

text \<open>No request ends in \<open>exit\<close>; each keeps the invariant and the flash outside the application and version pages.\<close>

lemma bridge_step:
  assumes "prog_ok (bv_prog bv)" "crypto_ok (bo_cr b)"
  obtains r resp' b' where "bootloader_bridge bv klen keyh resp b = Inr (r, resp', b')" "boot_flash_step bv (bo_flash b) (bo_flash b')"
    "crypto_ok (bo_cr b')"
proof -
  obtain rw bw where w: "boot_write bv (br_addr keyh) (br_payload keyh) (br_len keyh) b = Inr (rw, bw)"
      "boot_flash_step bv (bo_flash b) (bo_flash bw)" "bo_cr bw = bo_cr b"
    by (rule boot_write_step)
  obtain rd bd where d: "boot_done bv (br_payload keyh) (br_len keyh) b = (rd, bd)" by fastforce
  note ds = boot_done_step[OF assms d]
  have e: "bo_cr (erase_application bv b) = bo_cr b" by (simp add: erase_application_def)
  have dis: "boot_flash_step bv (bo_flash b) (bo_flash (disable_bootloader bv b))" "bo_cr (disable_bootloader bv b) = bo_cr b"
    using clear_last_step[OF assms(1), of 4 "bo_flash b"] by (auto simp: disable_bootloader_def intro: same_steps)
  have "\<exists>r resp' b'. bootloader_bridge bv klen keyh resp b = Inr (r, resp', b') \<and> boot_flash_step bv (bo_flash b) (bo_flash b') \<and> crypto_ok (bo_cr b')"
    using assms(2) w d ds e dis erase_step(1)[of bv b]
    by (simp add: bootloader_bridge_def Let_def)
  then show ?thesis using that by blast
qed
subsection \<open>Any requests\<close>

text \<open>The bootloader at work: requests, and restarts with the flash as it is.\<close>

inductive boot_run :: "boot_env \<Rightarrow> boot \<Rightarrow> boot \<Rightarrow> bool" for bv where
  boot_here: "boot_run bv b b"
| boot_request: "boot_run bv b c \<Longrightarrow> bootloader_bridge bv klen keyh resp c = Inr (r, resp', d) \<Longrightarrow> boot_run bv b d"
| boot_restart: "boot_run bv b c \<Longrightarrow> crypto_ok cr \<Longrightarrow> boot_run bv b (boot_start cr (bo_flash c))"

lemma boot_run_inv:
  assumes "boot_run bv b c" "prog_ok (bv_prog bv)" "boot_inv bv b"
  shows "boot_inv bv c \<and> same_outside (bo_flash b) (bo_flash c)"
  using assms
proof (induction rule: boot_run.induct)
  case (boot_here b)
  then show ?case by (simp add: same_outside_def)
next
  case (boot_request b c klen keyh resp r resp' d)
  then have c: "boot_inv bv c" "same_outside (bo_flash b) (bo_flash c)" by blast+
  then have "crypto_ok (bo_cr c)" by (simp add: boot_inv_def)
  from bridge_step[OF boot_request.prems(1) this, of klen keyh resp] boot_request.hyps(2)
  have d: "boot_flash_step bv (bo_flash c) (bo_flash d)" "crypto_ok (bo_cr d)" by (metis Inr_inject prod.inject)+
  have "same_outside (bo_flash b) (bo_flash d)" using d(1) c(2) by (simp add: boot_flash_step_def same_outside_def)
  moreover have "is_authorized_to_boot (bo_flash d) \<longrightarrow> app_signed bv (bo_flash d)"
    using boot_step_keeps[OF d(1)] c(1) by (simp add: boot_inv_def)
  ultimately show ?case using d(2) by (simp add: boot_inv_def)
next
  case (boot_restart b c cr)
  then show ?case by (simp add: boot_inv_def boot_start_def)
qed
subsection \<open>An update\<close>

text \<open>Requests as a host writes them; \<open>off\<close> is an offset in the flash.\<close>

definition boot_req :: "u8 \<Rightarrow> u32 \<Rightarrow> bytes \<Rightarrow> bytes" where
  "boot_req op a payload =
     [op, ucast a, ucast (drop_bit 8 a), ucast (drop_bit 16 a), 0, 0, 0, 0,
      ucast (drop_bit 8 (of_nat (length payload) :: u16)), ucast (of_nat (length payload) :: u16)] @ payload"

definition at_off :: "nat \<Rightarrow> u32" where "at_off off = FLASH_BASE OR of_nat off"

lemma flash_base_bit: "bit FLASH_BASE k \<longleftrightarrow> k = 27"
proof -
  have "FLASH_BASE = 2 ^ 27" by (simp add: FLASH_BASE_def)
  then show ?thesis unfolding \<open>FLASH_BASE = 2 ^ 27\<close> by (auto simp: bit_exp_iff simp del: power_numeral)
qed

lemma off_bits:
  assumes "off < (16777216 :: nat)" shows "take_bit 24 off = off" "bit off k \<Longrightarrow> k < 24"
proof -
  show t: "take_bit 24 off = off" using assms by (simp add: take_bit_nat_eq_self)
  show "bit off k \<Longrightarrow> k < 24" by (subst (asm) t[symmetric]) (simp only: bit_take_bit_iff)
qed

lemma at_off_plus: "off < 16777216 \<Longrightarrow> at_off off = FLASH_BASE + of_nat off"
  unfolding at_off_def by (rule disjunctive_add_eq_or[symmetric], rule bit_word_eqI) (auto simp: bit_simps flash_base_bit dest: off_bits(2))

lemma flash_off_at [simp]: "off < 16777216 \<Longrightarrow> flash_off (at_off off) = off"
  by (simp add: at_off_plus flash_off_def unat_of_nat)

lemma le32_take: "le32 (ucast a) (ucast (drop_bit 8 a)) (ucast (drop_bit 16 a)) 0 = take_bit 24 a"
proof (rule bit_word_eqI)
  fix n assume "n < LENGTH(32)"
  then consider "n < 8" | "8 \<le> n" "n < 16" | "16 \<le> n" "n < 24" | "24 \<le> n" "n < 32" by fastforce
  then show "bit (le32 (ucast a) (ucast (drop_bit 8 a)) (ucast (drop_bit 16 a)) 0) n \<longleftrightarrow> bit (take_bit 24 a) n"
    by cases (auto simp: le32_def bit_simps bit_u8_high)
qed

lemma boot_req_fields:
  assumes "off < 16777216" "length payload < 65536"
  shows "br_op (boot_req op (at_off off) payload) = op" "br_addr (boot_req op (at_off off) payload) = at_off off"
    "br_len (boot_req op (at_off off) payload) = of_nat (length payload)" "br_payload (boot_req op (at_off off) payload) = payload"
    "int (length (boot_req op (at_off off) payload)) = int (length payload) + 10"
proof -
  have m: "0xffffff = (mask 24 :: u32)" by (simp add: mask_eq_exp_minus_1)
  have "take_bit 24 (at_off off) AND 0xffffff = (of_nat off :: u32)"
    unfolding m by (intro bit_word_eqI) (auto simp: at_off_def bit_simps flash_base_bit dest: off_bits(2)[OF assms(1)])
  moreover have "br_addr (boot_req op (at_off off) payload) = (take_bit 24 (at_off off) AND 0xffffff) OR FLASH_BASE"
    by (simp add: br_addr_def boot_req_def le32_take)
  ultimately show "br_addr (boot_req op (at_off off) payload) = at_off off"
    by (simp only: at_off_def or.commute)
qed (simp_all add: br_op_def br_len_def br_payload_def boot_req_def)
definition write_req :: "nat \<Rightarrow> bytes \<Rightarrow> bytes" where "write_req off d = boot_req BootWrite (at_off off) d"
definition done_req :: "bytes \<Rightarrow> bytes" where "done_req sig = boot_req BootDone (at_off 0) sig"

text \<open>A host writes the pieces one behind the other, as long as no request is refused.\<close>

primrec upload :: "boot_env \<Rightarrow> nat \<Rightarrow> bytes list \<Rightarrow> boot \<Rightarrow> boot + (int \<times> boot)" where
  "upload bv off [] b = Inr (0, b)"
| "upload bv off (d # ds) b =
     seqE (bootloader_bridge bv (int (length (write_req off d))) (write_req off d) [] b) (\<lambda>(r, resp, b).
     if r \<noteq> 0 then Inr (r, b) else upload bv (off + length d) ds b)"

text \<open>The flash with an image in otherwise erased application pages.\<close>

definition with_image :: "flash \<Rightarrow> bytes \<Rightarrow> flash" where
  "with_image f img = (\<lambda>x. if START_OFF \<le> x \<and> x < START_OFF + length img then img ! (x - START_OFF)
     else if START_OFF \<le> x \<and> x < AUTH_OFF + 8 then 0xff else f x)"

definition uploaded :: "flash \<Rightarrow> crypto_state \<Rightarrow> bytes \<Rightarrow> boot \<Rightarrow> bool" where
  "uploaded f cr img b \<longleftrightarrow> bo_flash b = with_image f img \<and> bo_erased b \<and> bo_cr b = cr \<and> length img mod 8 = 0
     \<and> START_OFF + length img \<le> AUTH_OFF \<and> bo_last b = (if img = [] then 0 else at_off (START_OFF + length img))"

lemma uploaded_not_authorized: "uploaded f cr img b \<Longrightarrow> \<not> is_authorized_to_boot (bo_flash b)"
  by (rule erased_not_authorized) (auto simp: uploaded_def with_image_def boot_offsets)

lemma at_off_nat: "off < 16777216 \<Longrightarrow> unat (at_off off) = 134217728 + off"
  by (simp add: at_off_plus FLASH_BASE_def unat_word_ariths unat_of_nat)

lemma upload_step:
  assumes u: "prog_ok (bv_prog bv)" "uploaded f cr img b"
    and d: "d \<noteq> []" "length d mod 8 = 0" "length d < 65536" "START_OFF + length img + length d \<le> AUTH_OFF"
  shows "\<exists>b'. bootloader_bridge bv (int (length (write_req (START_OFF + length img) d))) (write_req (START_OFF + length img) d) [] b = Inr (0, [], b')
    \<and> uploaded f cr (img @ d) b'"
proof -
  let ?off = "START_OFF + length img"
  have o: "?off < 16777216" "?off + length d < 16777216" using d(4) by (simp_all add: boot_offsets)
  note r = boot_req_fields[OF o(1) d(3), of BootWrite]
  have a: "unat (at_off ?off) = 134217728 + ?off" by (rule at_off_nat[OF o(1)])
  have lw: "ucast (of_nat (length d) :: u16) = (of_nat (length d) :: u32)" "unat (of_nat (length d) :: u16) = length d"
    using d(3) by (simp_all add: word_unat_eq_iff unat_of_nat)
  have lu: "uint (of_nat (length d) :: u16) = int (length d)" using lw(2) by (metis uint_nat)
  have s: "at_off ?off + ucast (of_nat (length d) :: u16) = at_off (?off + length d)"
    unfolding lw(1) at_off_plus[OF o(1)] at_off_plus[OF o(2)] by (simp only: of_nat_add add.assoc)
  have lt: "START_OFF + length img < AUTH_OFF" using d(1,4) by (cases d) simp_all
  have in_app: "\<not> (at_off ?off < APPLICATION_START_ADDR \<or> at_off ?off \<ge> APPLICATION_END_ADDR
      \<or> at_off (?off + length d) > APPLICATION_END_ADDR)"
    using a at_off_nat[OF o(2)] d(4) lt
    by (simp add: word_less_nat_alt word_le_nat_alt APPLICATION_START_ADDR_def APPLICATION_END_ADDR_def boot_offsets Suc_le_eq)
  let ?g = "flash_write (bv_prog bv) ?off d (bo_flash b)"
  have b: "bo_flash b = with_image f img" "bo_erased b" "\<not> is_authorized_to_boot (bo_flash b)" "length img mod 8 = 0"
    using u(2) uploaded_not_authorized[OF u(2)] by (simp_all add: uploaded_def)
  have last: "\<not> at_off (?off + length d) < bo_last b"
    using u(2) a at_off_nat[OF o(2)] by (auto simp: uploaded_def word_less_nat_alt)
  have "bootloader_bridge bv (int (length (write_req ?off d))) (write_req ?off d) [] b
      = seqE (boot_write bv (at_off ?off) d (of_nat (length d)) b) (\<lambda>(r, b). Inr (r, [], b))"
    unfolding bootloader_bridge_def Let_def write_req_def r lu by simp
  moreover have "boot_write bv (at_off ?off) d (of_nat (length d)) b = Inr (0, b\<lparr>bo_last := at_off (?off + length d), bo_flash := ?g\<rparr>)"
    using in_app b(2,3) last o(1) lw(2) unfolding boot_write_def Let_def s by simp
  moreover have "?g = with_image f (img @ d)"
  proof -
    have "erased (with_image f img) ?off (length d)" using d(4) by (auto simp: erased_def with_image_def)
    moreover have "?off mod 8 = 0" using b(4) by (simp add: boot_offsets mod_add_eq[symmetric])
    ultimately have "?g = (\<lambda>x. if ?off \<le> x \<and> x < ?off + length d then d ! (x - ?off) else with_image f img x)"
      using flash_write_erased[OF u(1), of ?off "with_image f img" "length d" d] d(2) b(1) by simp
    then show ?thesis by (auto simp: with_image_def nth_append fun_eq_iff)
  qed
  moreover have "(length img + length d) mod 8 = 0" using b(4) d(2) by (simp add: mod_add_eq[symmetric])
  ultimately show ?thesis using u(2) d(1,4) b(2) by (auto simp: uploaded_def add.assoc)
qed
lemma upload_pieces:
  assumes "prog_ok (bv_prog bv)"
  shows "uploaded f cr img b \<Longrightarrow> \<forall>d\<in>set ds. d \<noteq> [] \<and> length d mod 8 = 0 \<and> length d < 65536
    \<Longrightarrow> START_OFF + length img + length (concat ds) \<le> AUTH_OFF
    \<Longrightarrow> \<exists>b'. upload bv (START_OFF + length img) ds b = Inr (0, b') \<and> uploaded f cr (img @ concat ds) b'"
proof (induction ds arbitrary: img b)
  case (Cons d ds)
  then obtain b1 where s: "bootloader_bridge bv (int (length (write_req (START_OFF + length img) d))) (write_req (START_OFF + length img) d) [] b = Inr (0, [], b1)"
      "uploaded f cr (img @ d) b1"
    using upload_step[OF assms Cons.prems(1), of d] by auto
  from Cons.IH[OF s(2)] Cons.prems(2,3) obtain b' where
      "upload bv (START_OFF + length (img @ d)) ds b1 = Inr (0, b')" "uploaded f cr ((img @ d) @ concat ds) b'"
    by auto
  with s show ?case by (auto simp: add.assoc)
qed simp

text \<open>The first write erases.\<close>

lemma upload_from_start:
  assumes "prog_ok (bv_prog bv)" "\<not> bo_erased b" "ds \<noteq> []" "\<forall>d\<in>set ds. d \<noteq> [] \<and> length d mod 8 = 0 \<and> length d < 65536"
    "START_OFF + length (concat ds) \<le> AUTH_OFF"
  shows "\<exists>b'. upload bv START_OFF ds b = Inr (0, b') \<and> uploaded (bo_flash b) (bo_cr b) (concat ds) b'"
proof -
  let ?e = "(erase_application bv b)\<lparr>bo_erased := True\<rparr>"
  have e: "uploaded (bo_flash b) (bo_cr b) [] ?e"
    using erase_application_flash[of bv b]
    by (auto simp: uploaded_def with_image_def fun_eq_iff boot_offsets erase_application_def)
  obtain d ds' where ds: "ds = d # ds'" using assms(3) by (cases ds) auto
  have "boot_write bv a p l b = boot_write bv a p l ?e"
    if "\<not> (a < APPLICATION_START_ADDR \<or> a \<ge> APPLICATION_END_ADDR \<or> a + ucast l > APPLICATION_END_ADDR)" for a p l
    using that assms(2) erase_step(2)[of bv b] unfolding boot_write_def Let_def by simp
  moreover have "boot_write bv a p l c = Inr (BOOT_NOT_ALLOWED, c)"
    if "a < APPLICATION_START_ADDR \<or> a \<ge> APPLICATION_END_ADDR \<or> a + ucast l > APPLICATION_END_ADDR" for a p l c
    using that by (simp add: boot_write_def)
  ultimately have w: "boot_write bv a p l ?e = Inr (0, c) \<Longrightarrow> boot_write bv a p l b = Inr (0, c)" for a p l c
    by (metis BOOT_NOT_ALLOWED_def Inr_inject prod.inject zero_neq_numeral)
  have op: "br_op (write_req START_OFF d) = BootWrite" by (simp add: write_req_def boot_req_def br_op_def)
  obtain c where c: "bootloader_bridge bv (int (length (write_req START_OFF d))) (write_req START_OFF d) [] ?e = Inr (0, [], c)"
    using upload_step[OF assms(1) e, of d] assms(4,5) ds by auto
  have "bootloader_bridge bv (int (length (write_req START_OFF d))) (write_req START_OFF d) [] b = Inr (0, [], c)"
    using c w unfolding bootloader_bridge_def Let_def op
    by (auto simp: seqE_Inr BOOT_INVALID_LENGTH_def split: if_splits)
  then have "upload bv START_OFF ds b = upload bv START_OFF ds ?e" using c ds by simp
  with upload_pieces[OF assms(1) e, of ds] assms(4,5) show ?thesis by simp
qed

lemma write_first_dword:
  assumes "prog_ok prog" "erased f a 8" "a mod 8 = 0" "8 \<le> length data" "a \<le> x" "x < a + 8"
  shows "flash_write prog a data f x = data ! (x - a)"
proof -
  have "flash_write prog a data f x = flash_run prog (flash_write_loop (a + 8) (drop 8 data)) (flash_write_dword prog a (take 8 data) f) x"
    using assms(3,4) by (subst flash_write_def, subst flash_write_ops_def, subst flash_write_loop.simps) auto
  also have "\<dots> = flash_write_dword prog a (take 8 data) f x" using assms(6) by (intro write_loop_frame) simp
  also have "\<dots> = data ! (x - a)" using write_dword_erased[OF assms(1,2), of "take 8 data"] assms(4-6) by simp
  finally show ?thesis .
qed

lemma app_image_with: "START_OFF + length img \<le> AUTH_OFF \<Longrightarrow> app_image (with_image f img) = img @ replicate (AUTH_OFF - START_OFF - length img) 0xff"
  by (intro nth_equalityI) (auto simp: app_image_def with_image_def flash_read_nth nth_append boot_offsets)

text \<open>The version check after an upload: the new version is the last four bytes written.\<close>

lemma last_written:
  assumes "uploaded f cr img b" "img \<noteq> []"
  shows "bo_last b \<noteq> 0" "flash_read (bo_flash b) (flash_off (bo_last b - 8 + 4)) 4 = drop (length img - 4) img"
    "flash_read (bo_flash b) BOOT_VERSION_OFF 4 = flash_read f BOOT_VERSION_OFF 4"
proof -
  have u: "bo_flash b = with_image f img" "length img mod 8 = 0" "START_OFF + length img \<le> AUTH_OFF"
      "bo_last b = at_off (START_OFF + length img)"
    using assms by (simp_all add: uploaded_def)
  have l: "8 \<le> length img" using u(2) assms(2) by (metis length_0_conv mod_less not_less)
  have o: "START_OFF + length img < 16777216" using u(3) by (simp add: boot_offsets)
  show "bo_last b \<noteq> 0" using at_off_nat[OF o] u(4) by (metis add_is_0 unat_0 zero_neq_numeral)
  have "bo_last b - 8 + 4 = FLASH_BASE + of_nat (START_OFF + length img - 4)"
    using l unfolding u(4) at_off_plus[OF o] by (simp add: of_nat_diff)
  then have "flash_off (bo_last b - 8 + 4) = START_OFF + length img - 4"
    using o by (simp add: flash_off_def unat_of_nat)
  then show "flash_read (bo_flash b) (flash_off (bo_last b - 8 + 4)) 4 = drop (length img - 4) img"
    using l by (intro nth_equalityI) (auto simp: u(1) flash_read_nth with_image_def)
  show "flash_read (bo_flash b) BOOT_VERSION_OFF 4 = flash_read f BOOT_VERSION_OFF 4"
    using u(3) by (intro flash_read_cong) (auto simp: u(1) with_image_def boot_offsets)
qed

lemma version_written:
  assumes "prog_ok (bv_prog bv)" "is_firmware_version_newer_or_equal bv b = (True, b')"
  shows "flash_read (bo_flash b') BOOT_VERSION_OFF 4 = flash_read (bo_flash b) (flash_off (bo_last b - 8 + 4)) 4"
proof -
  let ?new = "flash_read (bo_flash b) (flash_off (bo_last b - 8 + 4)) 4"
  let ?page = "blit (flash_read (bo_flash b) BOOT_VERSION_OFF FLASH_PAGE_SIZE) 0 ?new"
  let ?f = "flash_erase_page BOOT_VERSION_PAGE (bo_flash b)"
  have f: "bo_flash b' = flash_write (bv_prog bv) BOOT_VERSION_OFF ?page ?f"
    using assms(2) by (auto simp: is_firmware_version_newer_or_equal_def Let_def split: if_splits)
  have "erased ?f BOOT_VERSION_OFF 8" by (auto simp: erased_def flash_erase_page_def boot_offsets FLASH_PAGE_SIZE_def)
  then have "flash_write (bv_prog bv) BOOT_VERSION_OFF ?page ?f x = ?page ! (x - BOOT_VERSION_OFF)"
    if "BOOT_VERSION_OFF \<le> x" "x < BOOT_VERSION_OFF + 8" for x
    using that by (intro write_first_dword[OF assms(1)]) (auto simp: boot_offsets FLASH_PAGE_SIZE_def)
  then show ?thesis unfolding f by (intro nth_equalityI) (auto simp: flash_read_nth nth_blit FLASH_PAGE_SIZE_def)
qed

text \<open>The whole update: the image written in pieces, then the signature.\<close>

lemma update_installs:
  assumes "prog_ok (bv_prog bv)" "crypto_ok (bo_cr b)" "\<not> bo_erased b"
    and "ds \<noteq> []" "\<forall>d\<in>set ds. d \<noteq> [] \<and> length d mod 8 = 0 \<and> length d < 65536" "START_OFF + length (concat ds) \<le> AUTH_OFF"
    and "code = concat ds @ replicate (AUTH_OFF - START_OFF - length (concat ds)) 0xff" "length sig = 64"
    and "bv_verify bv (bv_pubkey bv) (sha256 code) sig"
    and "new = drop (length (concat ds) - 4) (concat ds)" "old = flash_read (bo_flash b) BOOT_VERSION_OFF 4"
    and "is_newer new old \<or> old = [0xff, 0xff, 0xff, 0xff]"
  shows "\<exists>c e. upload bv START_OFF ds b = Inr (0, c) \<and> bootloader_bridge bv 74 (done_req sig) [] c = Inr (0, [], e)
     \<and> boot_choice False (bo_flash e) = Application \<and> app_image (bo_flash e) = code \<and> flash_read (bo_flash e) BOOT_VERSION_OFF 4 = new"
proof -
  let ?img = "concat ds"
  have ne: "?img \<noteq> []" using assms(4,5) by (cases ds) auto
  obtain c where c: "upload bv START_OFF ds b = Inr (0, c)" "uploaded (bo_flash b) (bo_cr b) ?img c"
    using upload_from_start[OF assms(1,3-6)] by blast
  have img: "app_image (bo_flash c) = code"
    using c(2) app_image_with[OF assms(6)] assms(7) by (simp add: uploaded_def)
  have "bo_cr c = bo_cr b" using c(2) by (simp add: uploaded_def)
  then obtain cr where h: "crypto_sha256_final (crypto_sha256_update (app_image (bo_flash c)) (crypto_sha256_init (bo_cr c))) = (sha256 code, cr)"
    using sha_run1[of "bo_cr c"] assms(2) img by auto
  let ?c = "c\<lparr>bo_cr := cr\<rparr>"
  note l = last_written[OF c(2) ne]
  obtain c' where v: "is_firmware_version_newer_or_equal bv ?c = (True, c')"
    using l assms(10-12) by (simp add: is_firmware_version_newer_or_equal_def Let_def)
  let ?e = "(authorize_application bv c')\<lparr>bo_reboot := True\<rparr>"
  have "boot_done bv sig 64 c = (0, ?e)"
    unfolding boot_done_def Let_def h split_conv v using assms(8,9) by simp
  moreover have "br_op (done_req sig) = BootDone" "br_len (done_req sig) = 64" "br_payload (done_req sig) = sig"
    using boot_req_fields[of 0 sig BootDone] assms(8) by (simp_all add: done_req_def)
  ultimately have d: "bootloader_bridge bv 74 (done_req sig) [] c = Inr (0, [], ?e)"
    by (simp add: bootloader_bridge_def Let_def boot_ops)
  note vs = version_step[OF v, simplified] and as = authorize_step[OF assms(1), of c']
  have "is_authorized_to_boot (bo_flash ?e)" using as(3) by simp
  moreover have "app_image (bo_flash ?e) = code"
    using same_app_image[OF same_trans(1)[OF vs(1) as(1)]] img by simp
  moreover have "flash_read (bo_flash ?e) BOOT_VERSION_OFF 4 = flash_read (bo_flash c') BOOT_VERSION_OFF 4"
    using authorize_above[OF assms(1)] by (intro flash_read_cong) (simp add: boot_offsets)
  ultimately show ?thesis using c(1) d version_written[OF assms(1) v] l(2) assms(10)
    by (auto simp: boot_choice_def)
qed
subsection \<open>The properties\<close>

text \<open>C5 (safety). Whatever requests the bootloader gets, with restarts between them, starting on a flash whose authorised application, if
  any, is signed: it never stops, it changes no byte below the start of the application and none from 2048 bytes after BOOT_VERSION_ADDR on, and the
  start-up code only jumps to an application whose pages, up to the two boot words, have a signature that verifies under the bootloader's key. BOOT_VERSION_ADDR
  lies eight bytes into its page, so the first eight bytes of the page behind it are not among those left alone: writing the version back programs
  them. That page holds no data of the authenticator.\<close>

theorem only_signed_code_boots:
  assumes "prog_ok (bv_prog bv)" "crypto_ok cr" "is_authorized_to_boot f \<longrightarrow> app_signed bv f" "boot_run bv (boot_start cr f) b"
  shows "(\<forall>watchdog. boot_choice watchdog (bo_flash b) = Application \<longrightarrow>
        (\<exists>sig. bv_verify bv (bv_pubkey bv) (sha256 (app_image (bo_flash b))) sig))
    \<and> (\<forall>x. x < START_OFF \<or> BOOT_VERSION_OFF + FLASH_PAGE_SIZE \<le> x \<longrightarrow> bo_flash b x = f x)
    \<and> (\<nexists>d. bootloader_bridge bv klen keyh resp b = Inl d)"
proof -
  have "boot_inv bv (boot_start cr f)" using assms(2,3) by (simp add: boot_inv_def boot_start_def)
  from boot_run_inv[OF assms(4,1) this] have b: "boot_inv bv b" "same_outside f (bo_flash b)" by (simp_all add: boot_start_def)
  have "crypto_ok (bo_cr b)" using b(1) by (simp add: boot_inv_def)
  from bridge_step[OF assms(1) this] have "\<nexists>d. bootloader_bridge bv klen keyh resp b = Inl d" by (metis Inl_Inr_False)
  with b show ?thesis by (auto simp: boot_choice_def boot_inv_def app_signed_def same_outside_def)
qed

text \<open>A signature scheme for the example: the hash itself.\<close>

definition boot_env0 :: boot_env where
  "boot_env0 = \<lparr>bv_verify = (\<lambda>key hash sig. take 32 sig = hash), bv_pubkey = zeros 64, bv_prog = stm_prog,
     bv_version = (2, 4, 1), bv_product = [], bv_manufacturer = []\<rparr>"

definition boot0 :: boot where "boot0 = boot_start (d_cr (power_up (\<lambda>_. 0xff) 0)) (\<lambda>_. 0xff)"

lemma boot0_facts: "crypto_ok (d_cr (power_up (\<lambda>_. 0xff) 0))" "crypto_ok (bo_cr boot0)" "\<not> bo_erased boot0" "bo_flash boot0 = (\<lambda>_. 0xff)"
    "prog_ok (bv_prog boot_env0)" "\<not> is_authorized_to_boot (\<lambda>_. 0xff)"
  by (simp_all add: boot0_def boot_start_def power_up_def crypto_ok_def boot_env0_def stm_prog_ok erased_not_authorized)

definition image0 :: bytes where "image0 = [0, 0, 0, 0, 2, 4, 1, 0]"
definition code0 :: bytes where "code0 = image0 @ replicate (AUTH_OFF - START_OFF - 8) 0xff"
definition sig0 :: bytes where "sig0 = sha256 code0 @ zeros 32"

lemma image0_facts: "[image0] \<noteq> []" "\<forall>d\<in>set [image0]. d \<noteq> [] \<and> length d mod 8 = 0 \<and> length d < 65536"
    "START_OFF + length (concat [image0]) \<le> AUTH_OFF" "[2, 4, 1, 0] = drop (length (concat [image0]) - 4) (concat [image0])"
  by (simp_all add: image0_def boot_offsets)

lemma code0_facts:
  "code0 = concat [image0] @ replicate (AUTH_OFF - START_OFF - length (concat [image0])) 0xff" "length sig0 = 64"
  "bv_verify boot_env0 (bv_pubkey boot_env0) (sha256 code0) sig0"
proof -
  have "length (concat [image0]) = 8" by (simp add: image0_def)
  then show "code0 = concat [image0] @ replicate (AUTH_OFF - START_OFF - length (concat [image0])) 0xff"
    by (simp only: code0_def concat.simps append_Nil2)
qed (simp_all add: sig0_def zeros_def boot_env0_def)

lemma boot0_version: "flash_read (bo_flash boot0) BOOT_VERSION_OFF 4 = [0xff, 0xff, 0xff, 0xff]"
  by (intro nth_equalityI) (auto simp: flash_read_nth boot0_facts less_Suc_eq numeral_eq_Suc)

lemma installs0:
  "\<exists>c e. upload boot_env0 START_OFF [image0] boot0 = Inr (0, c) \<and> bootloader_bridge boot_env0 74 (done_req sig0) [] c = Inr (0, [], e)
     \<and> boot_choice False (bo_flash e) = Application"
  using update_installs[OF boot0_facts(5,2,3) image0_facts(1-3) code0_facts image0_facts(4) refl] boot0_version by blast

lemma upload_run: "upload bv off ds b = Inr (r, c) \<Longrightarrow> boot_run bv b0 b \<Longrightarrow> boot_run bv b0 c"
proof (induction ds arbitrary: off b)
  case (Cons d ds)
  then obtain r' resp' b' where s: "bootloader_bridge bv (int (length (write_req off d))) (write_req off d) [] b = Inr (r', resp', b')"
      "(if r' \<noteq> 0 then Inr (r', b') else upload bv (off + length d) ds b') = Inr (r, c)"
    by (auto simp: seqE_Inr)
  have "boot_run bv b0 b'" using boot_request[OF Cons.prems(2) s(1)] .
  with s(2) Cons.IH show ?case by (auto split: if_splits)
qed simp

theorem only_signed_code_boots_witness:
  "\<exists>b. boot_run boot_env0 boot0 b \<and> boot_choice False (bo_flash b) = Application
     \<and> (\<exists>sig. bv_verify boot_env0 (bv_pubkey boot_env0) (sha256 (app_image (bo_flash b))) sig)"
proof -
  obtain c e where u: "upload boot_env0 START_OFF [image0] boot0 = Inr (0, c)" "bootloader_bridge boot_env0 74 (done_req sig0) [] c = Inr (0, [], e)"
      "boot_choice False (bo_flash e) = Application"
    using installs0 by blast
  have r: "boot_run boot_env0 boot0 e" using boot_request[OF upload_run[OF u(1) boot_here] u(2)] .
  from only_signed_code_boots[OF boot0_facts(5,1) _ r[unfolded boot0_def]] boot0_facts(6) u(3) r show ?thesis by blast
qed

text \<open>C6 (liveness). An update by the owner of the key goes through: a host that writes an image in pieces of whole double words, from the start of the
  application and without gaps, and then sends a signature over the image filled up with 0xff, gets no refusal if the version at the end of
  the image is not older than the stored one. After it the start-up code jumps to exactly this image, and its version is the stored one.
  The state before, with an authorised application or without, does not matter.\<close>

theorem boot_update_installs:
  assumes "prog_ok (bv_prog bv)" "crypto_ok (bo_cr b)" "\<not> bo_erased b"
    and "ds \<noteq> []" "\<forall>d\<in>set ds. d \<noteq> [] \<and> length d mod 8 = 0 \<and> length d < 65536" "START_OFF + length (concat ds) \<le> AUTH_OFF"
    and "code = concat ds @ replicate (AUTH_OFF - START_OFF - length (concat ds)) 0xff" "length sig = 64"
    and "bv_verify bv (bv_pubkey bv) (sha256 code) sig"
    and "new = drop (length (concat ds) - 4) (concat ds)" "old = flash_read (bo_flash b) BOOT_VERSION_OFF 4"
    and "is_newer new old \<or> old = [0xff, 0xff, 0xff, 0xff]"
  shows "\<exists>c e. upload bv START_OFF ds b = Inr (0, c) \<and> bootloader_bridge bv 74 (done_req sig) [] c = Inr (0, [], e)
     \<and> boot_choice False (bo_flash e) = Application \<and> app_image (bo_flash e) = code \<and> flash_read (bo_flash e) BOOT_VERSION_OFF 4 = new"
  using assms by (rule update_installs)

theorem boot_update_installs_witness:
  "\<exists>c e. upload boot_env0 START_OFF [image0] boot0 = Inr (0, c) \<and> bootloader_bridge boot_env0 74 (done_req sig0) [] c = Inr (0, [], e)
     \<and> boot_choice False (bo_flash e) = Application \<and> app_image (bo_flash e) = code0 \<and> flash_read (bo_flash e) BOOT_VERSION_OFF 4 = [2, 4, 1, 0]"
  using boot_update_installs[OF boot0_facts(5,2,3) image0_facts(1-3) code0_facts image0_facts(4) refl] boot0_version by blast
subsection \<open>Where the protection ends\<close>

lemma newest_version: "is_newer [0xff, 0xff, 0xff, 0xff] old"
proof -
  have "(x :: u8) \<le> 0xff" for x using unat_u8_lt[of x] by (simp add: word_le_nat_alt)
  then show ?thesis by (auto simp: is_newer_def order_le_less)
qed

text \<open>The new version is read where the last write ended. A write of no bytes, further up in the erased rest of the pages, moves that
  place without changing the image: the bytes before it read as version 255.255.255, newer than any. So an old image with its valid signature can be
  installed over a newer one, and the stored version is all ones from then on, which switches the check off.\<close>

lemma empty_write_defeats_version_check:
  assumes "uploaded f cr img b" "START_OFF + length img + 4 \<le> off" "off < AUTH_OFF"
  shows "\<exists>b'. bootloader_bridge bv 10 (write_req off []) [] b = Inr (0, [], b') \<and> bo_flash b' = bo_flash b
    \<and> fst (is_firmware_version_newer_or_equal bv b')"
proof -
  have o: "off < 16777216" using assms(3) by (simp add: boot_offsets)
  note r = boot_req_fields[OF o, of "[]" BootWrite, simplified]
  have u: "bo_flash b = with_image f img" "bo_erased b" using assms(1) by (simp_all add: uploaded_def)
  have a: "unat (at_off off) = 134217728 + off" by (rule at_off_nat[OF o])
  have in_app: "(at_off off < APPLICATION_START_ADDR \<or> at_off off \<ge> APPLICATION_END_ADDR \<or> at_off off > APPLICATION_END_ADDR) = False"
    using a assms(2,3) by (simp add: word_less_nat_alt word_le_nat_alt APPLICATION_START_ADDR_def APPLICATION_END_ADDR_def boot_offsets)
  have last: "\<not> at_off off < bo_last b"
    using a assms(1,2) at_off_nat[of "START_OFF + length img"] by (auto simp: uploaded_def word_less_nat_alt boot_offsets)
  let ?b = "b\<lparr>bo_last := at_off off\<rparr>"
  have "boot_write bv (at_off off) [] 0 b = Inr (0, ?b)"
    using in_app u(2) uploaded_not_authorized[OF assms(1)] last
    by (simp add: boot_write_def Let_def flash_write_def flash_write_ops_def)
  then have "bootloader_bridge bv 10 (write_req off []) [] b = Inr (0, [], ?b)"
    unfolding bootloader_bridge_def Let_def write_req_def r by simp
  moreover have "fst (is_firmware_version_newer_or_equal bv ?b)"
  proof -
    have "at_off off \<noteq> 0" using a by (metis add_is_0 unat_0 zero_neq_numeral)
    moreover have "at_off off - 8 + 4 = FLASH_BASE + of_nat (off - 4)"
      using assms(2) unfolding at_off_plus[OF o] by (simp add: of_nat_diff)
    then have "flash_off (at_off off - 8 + 4) = off - 4" using o by (simp add: flash_off_def unat_of_nat)
    moreover have "flash_read (bo_flash b) (off - 4) 4 = replicate 4 0xff"
      using assms(2,3) by (intro nth_equalityI) (auto simp: u(1) flash_read_nth with_image_def boot_offsets)
    moreover have "replicate 4 (0xff :: u8) = [0xff, 0xff, 0xff, 0xff]" by (simp add: numeral_eq_Suc)
    ultimately show ?thesis by (simp add: is_firmware_version_newer_or_equal_def Let_def newest_version)
  qed
  ultimately show ?thesis by auto
qed

text \<open>The pages are erased from the first to the last, and the word that authorises the application is in the last: after a power cut in between the
  start-up code jumps into erased memory.\<close>

lemma cut_erase_stays_authorized:
  assumes "is_authorized_to_boot f" "\<not> is_bootloader_disabled f" "1 \<le> k" "k \<le> 97"
  shows "boot_choice False (flash_run prog (take k erase_application_ops) f) = Application
    \<and> flash_read (flash_run prog (take k erase_application_ops) f) START_OFF 8 = replicate 8 0xff"
proof -
  have t: "take k erase_application_ops = map FErase [10..<10 + k]"
    using assms(4) unfolding erase_application_ops_def take_map boot_offsets by (subst take_upt) simp_all
  have r: "flash_run prog (take k erase_application_ops) f x = (if x div FLASH_PAGE_SIZE \<in> {10..<10 + k} then 0xff else f x)" for x
    unfolding t run_erases set_upt ..
  have "flash_run prog (take k erase_application_ops) f x = f x" if "AUTH_OFF \<le> x" for x
  proof -
    have "107 \<le> x div FLASH_PAGE_SIZE" using that by (simp add: FLASH_PAGE_SIZE_def boot_offsets less_eq_div_iff_mult_less_eq)
    with assms(4) show ?thesis unfolding r by simp
  qed
  then have "flash_read (flash_run prog (take k erase_application_ops) f) AUTH_OFF 4 = flash_read f AUTH_OFF 4"
    by (intro flash_read_cong) simp
  moreover have "flash_run prog (take k erase_application_ops) f x = 0xff" if "START_OFF \<le> x" "x < START_OFF + 8" for x
  proof -
    have "x div FLASH_PAGE_SIZE = 10" using that by (intro div_nat_eqI) (simp_all add: FLASH_PAGE_SIZE_def boot_offsets)
    with assms(3) show ?thesis unfolding r by simp
  qed
  then have "flash_read (flash_run prog (take k erase_application_ops) f) START_OFF 8 = replicate 8 0xff"
    by (intro nth_equalityI) (auto simp: flash_read_nth)
  ultimately show ?thesis using assms(1) by (simp add: boot_choice_def is_authorized_to_boot_def)
qed

end
