(* ===== verification/Button.thy ===== *)
theory Button
  imports FwPrelude
begin

text \<open>
  The touch button and the light of \<^verbatim>\<open>targets/stm32l432/src/gpio.c\<close> and \<^verbatim>\<open>led.c\<close>, the user feedback of \<^verbatim>\<open>user_feedback.c\<close> and
  the wait for it in \<^verbatim>\<open>device.c\<close>. What the hardware shows is an input of each call: the clock at each of its readings, in their order, and
  the button pin. The state holds the static variables and a log of the readings of the pin with the time the driver takes for them.
  Interrupt locks and log messages are not modelled.
\<close>

subsection \<open>States of the button\<close>

datatype button_state =
    BST_INITIALIZING | BST_INITIALIZING_READY_TO_CLEAR | BST_META_READY_TO_USE | BST_UNPRESSED | BST_PRESSED_RECENTLY
  | BST_PRESSED_REGISTERED | BST_PRESSED_REGISTERED_TRANSITIONAL | BST_PRESSED_REGISTERED_EXT
  | BST_PRESSED_REGISTERED_EXT_INVALID | BST_PRESSED_CONSUMED_ACTIVE | BST_PRESSED_CONSUMED | BST_MAX_NUM

primrec bst_num :: "button_state \<Rightarrow> nat" where
  "bst_num BST_INITIALIZING = 0"
| "bst_num BST_INITIALIZING_READY_TO_CLEAR = 1"
| "bst_num BST_META_READY_TO_USE = 2"
| "bst_num BST_UNPRESSED = 3"
| "bst_num BST_PRESSED_RECENTLY = 4"
| "bst_num BST_PRESSED_REGISTERED = 5"
| "bst_num BST_PRESSED_REGISTERED_TRANSITIONAL = 6"
| "bst_num BST_PRESSED_REGISTERED_EXT = 7"
| "bst_num BST_PRESSED_REGISTERED_EXT_INVALID = 8"
| "bst_num BST_PRESSED_CONSUMED_ACTIVE = 9"
| "bst_num BST_PRESSED_CONSUMED = 10"
| "bst_num BST_MAX_NUM = 11"

lemma bst_num_inj: "bst_num a = bst_num b \<Longrightarrow> a = b"
  by (cases a; cases b) simp_all

text \<open>The code compares the states as the numbers the enumeration gives them.\<close>

instantiation button_state :: linorder
begin

definition less_eq_button_state :: "button_state \<Rightarrow> button_state \<Rightarrow> bool" where
  "less_eq_button_state a b \<longleftrightarrow> bst_num a \<le> bst_num b"

definition less_button_state :: "button_state \<Rightarrow> button_state \<Rightarrow> bool" where
  "less_button_state a b \<longleftrightarrow> bst_num a < bst_num b"

instance
  by standard (auto simp: less_eq_button_state_def less_button_state_def intro: bst_num_inj)

end

lemmas bst_less = less_eq_button_state_def less_button_state_def

definition BUTTON_MIN_PRESS_T_MS :: u32 where "BUTTON_MIN_PRESS_T_MS = 1000"
definition BUTTON_VALID_CONSUMED_T_MS :: u32 where "BUTTON_VALID_CONSUMED_T_MS = 10000"
definition BUTTON_MAX_PRESS_T_MS :: u32 where "BUTTON_MAX_PRESS_T_MS = 3000"
definition BUTTON_MIN_PRESS_T_MS_EXT :: u32 where "BUTTON_MIN_PRESS_T_MS_EXT = 5000"
definition BUTTON_MAX_PRESS_T_MS_EXT :: u32 where "BUTTON_MAX_PRESS_T_MS_EXT = 8000"
definition SELF_ACCEPT_MAX_T_MS :: u32 where "SELF_ACCEPT_MAX_T_MS = 2000"
definition U2F_MS_CLEAR_BUTTON_PERIOD :: u32 where "U2F_MS_CLEAR_BUTTON_PERIOD = 20000"
definition U2F_MS_INIT_BUTTON_PERIOD :: u32 where "U2F_MS_INIT_BUTTON_PERIOD = 500"
definition U2F_MS_USER_INPUT_WAIT :: u32 where "U2F_MS_USER_INPUT_WAIT = 100"

definition LED_BLINK_PERIOD :: u16 where "LED_BLINK_PERIOD = 780"
definition LED_BLINK_T_ON :: u16 where "LED_BLINK_T_ON = LED_BLINK_PERIOD div 2"
definition LED_BLINK_NUM_INF :: u8 where "LED_BLINK_NUM_INF = 255"
definition LED_COLOR_DATA_DELETION :: u32 where "LED_COLOR_DATA_DELETION = 0xFF0000"
definition LED_COLOR_SYSTEM :: u32 where "LED_COLOR_SYSTEM = 0xFFFF00"
definition LED_COLOR_TOUCH_CONSUMED :: u32 where "LED_COLOR_TOUCH_CONSUMED = 0x00FF00"
definition LED_COLOR_REGULAR :: u32 where "LED_COLOR_REGULAR = 0xFFFFFF"
definition LED_COLOR_CHARGED :: u32 where "LED_COLOR_CHARGED = 0x0000FF"
definition LED_COLOR_INIT :: u32 where "LED_COLOR_INIT = LED_COLOR_REGULAR"

lemmas press_times = BUTTON_MIN_PRESS_T_MS_def BUTTON_VALID_CONSUMED_T_MS_def BUTTON_MAX_PRESS_T_MS_def BUTTON_MIN_PRESS_T_MS_EXT_def
  BUTTON_MAX_PRESS_T_MS_EXT_def SELF_ACCEPT_MAX_T_MS_def U2F_MS_CLEAR_BUTTON_PERIOD_def U2F_MS_INIT_BUTTON_PERIOD_def U2F_MS_USER_INPUT_WAIT_def

lemmas led_consts = LED_BLINK_PERIOD_def LED_BLINK_T_ON_def LED_BLINK_NUM_INF_def LED_COLOR_DATA_DELETION_def LED_COLOR_SYSTEM_def
  LED_COLOR_TOUCH_CONSUMED_def LED_COLOR_REGULAR_def LED_COLOR_CHARGED_def LED_COLOR_INIT_def

record led =
  l_tim :: u32
  l_period :: u16
  l_on_t :: u16
  l_num :: u8
  l_default :: u32
  l_state :: bool
  l_pwm :: "u32 \<times> u32 \<times> u32"

record gpio =
  b_press_t :: u32
  b_consumed_t :: u32
  b_state :: button_state
  b_start_t :: u32
  b_first10 :: bool
  b_cleared :: u32
  b_awaiting :: bool
  b_first_accepted :: bool
  b_reset :: bool
  b_led :: led
  b_log :: "(u32 \<times> bool) list"

text \<open>What a call reads: \<open>hw_ms k\<close> is what the clock shows at its place number \<open>k\<close> that reads it.\<close>

record hw =
  hw_ms :: "nat \<Rightarrow> u32"
  hw_pin :: bool

subsection \<open>The light\<close>

definition norm_k :: bytes where
  "norm_k = [0, 80, 101, 115, 127, 137, 145, 153, 159, 166, 172, 177, 182, 187, 192, 196, 200, 205, 208, 212,
     216, 219, 223, 226, 229, 232, 235, 238, 241, 245]"

definition led_normalization :: "u8 \<Rightarrow> u32" where
  "led_normalization v = (if unat v > length norm_k - 1 then ucast v * 10 else ucast (norm_k ! unat v))"

text \<open>The compare registers of the timer: blue, red and green.\<close>

definition led_rgb :: "u32 \<Rightarrow> led \<Rightarrow> led" where
  "led_rgb hex l =
     (let r = led_normalization (ucast (drop_bit 16 hex AND 0xff));
          g = led_normalization (ucast (drop_bit 8 hex AND 0xff));
          b = led_normalization (ucast (hex AND 0xff))
      in l\<lparr>l_pwm := (1000 - (b * 100) div 256, 1000 - (r * 100) div (256 * 6), 1000 - (g * 100) div 256)\<rparr>)"

definition led_set_default_color :: "u32 \<Rightarrow> led \<Rightarrow> led" where "led_set_default_color c l = l\<lparr>l_default := c\<rparr>"
definition led_reset_default_color :: "led \<Rightarrow> led" where "led_reset_default_color l = l\<lparr>l_default := LED_COLOR_REGULAR\<rparr>"
definition led_on_color :: "u32 \<Rightarrow> led \<Rightarrow> led" where "led_on_color c l = (led_rgb c l)\<lparr>l_state := True\<rparr>"
definition led_on :: "led \<Rightarrow> led" where "led_on l = (led_rgb (l_default l) l)\<lparr>l_state := True\<rparr>"
definition led_off :: "led \<Rightarrow> led" where "led_off l = (led_rgb 0 l)\<lparr>l_state := False\<rparr>"
definition stop_blinking :: "led \<Rightarrow> led" where "stop_blinking l = l\<lparr>l_num := 1\<rparr>"
definition led_is_blinking :: "led \<Rightarrow> bool" where "led_is_blinking l \<longleftrightarrow> l_num l > 1"
definition led_change_ON_time :: "u16 \<Rightarrow> led \<Rightarrow> led" where "led_change_ON_time t l = l\<lparr>l_on_t := t\<rparr>"

definition led_blink_t_off :: "led \<Rightarrow> u32" where
  "led_blink_t_off l = ucast (l_period l - l_on_t l)"

text \<open>The part for which the button decides nothing more: the rounds of blinking. \<open>t0\<close> and \<open>t1\<close> are the two readings.\<close>

definition led_blink_round :: "u32 \<Rightarrow> u32 \<Rightarrow> bool \<Rightarrow> led \<Rightarrow> led" where
  "led_blink_round t0 t1 in_progress l =
     (if l_num l \<noteq> 0 then
        let l = (if in_progress then l\<lparr>l_period := LED_BLINK_PERIOD div 2, l_on_t := LED_BLINK_T_ON div 2\<rparr>
                 else l\<lparr>l_period := LED_BLINK_PERIOD, l_on_t := LED_BLINK_T_ON\<rparr>) in
        if l_state l \<or> l_num l = 1 then
          if t0 - l_tim l \<ge> ucast (l_on_t l) then
            let l = (led_off l)\<lparr>l_tim := t1\<rparr> in
            if l_num l \<noteq> LED_BLINK_NUM_INF then l\<lparr>l_num := l_num l - 1\<rparr> else l
          else l
        else if t0 - l_tim l \<ge> led_blink_t_off l then (led_on l)\<lparr>l_tim := t1\<rparr>
        else l
      else led_off l)"

subsection \<open>What the state tells\<close>

definition button_get_press :: "gpio \<Rightarrow> bool" where
  "button_get_press b \<longleftrightarrow> b_state b = BST_PRESSED_REGISTERED \<or> b_state b = BST_PRESSED_CONSUMED_ACTIVE"

definition button_get_press_extended :: "gpio \<Rightarrow> bool" where
  "button_get_press_extended b \<longleftrightarrow> b_state b = BST_PRESSED_REGISTERED_EXT"

definition button_ready_to_work :: "gpio \<Rightarrow> bool" where
  "button_ready_to_work b \<longleftrightarrow> b_state b > BST_META_READY_TO_USE"

definition button_press_in_progress :: "gpio \<Rightarrow> bool" where
  "button_press_in_progress b \<longleftrightarrow>
     b_state b > BST_UNPRESSED \<and> b_state b \<noteq> BST_PRESSED_CONSUMED \<and> b_state b \<noteq> BST_PRESSED_REGISTERED_EXT_INVALID"

definition button_press_is_consumed :: "gpio \<Rightarrow> bool" where
  "button_press_is_consumed b \<longleftrightarrow> b_state b = BST_PRESSED_CONSUMED"

definition button_press_set_consumed :: "button_state \<Rightarrow> gpio \<Rightarrow> gpio" where
  "button_press_set_consumed target b =
     b\<lparr>b_state := (if target = BST_PRESSED_REGISTERED then BST_PRESSED_CONSUMED_ACTIVE else BST_PRESSED_CONSUMED)\<rparr>"

definition map_led :: "(led \<Rightarrow> led) \<Rightarrow> gpio \<Rightarrow> gpio" where
  "map_led f b = b\<lparr>b_led := f (b_led b)\<rparr>"

text \<open>\<open>set_button_awaiting_up\<close>.\<close>

definition set_button_awaiting_up :: "bool \<Rightarrow> gpio \<Rightarrow> gpio" where
  "set_button_awaiting_up awaits b = b\<lparr>b_awaiting := awaits\<rparr>"

definition led_blink :: "u8 \<Rightarrow> u16 \<Rightarrow> u32 \<Rightarrow> u32 \<Rightarrow> gpio \<Rightarrow> gpio" where
  "led_blink blink_num period t0 t1 b =
     (let l = (b_led b)\<lparr>l_num := l_num (b_led b) + blink_num, l_period := period, l_on_t := LED_BLINK_T_ON\<rparr>;
          l = (if button_ready_to_work b \<and> t0 - l_tim l \<ge> led_blink_t_off l \<or> l_num l = 1 then led_on l else l)
      in b\<lparr>b_led := l\<lparr>l_tim := t1\<rparr>\<rparr>)"

definition led_blink_manager :: "hw \<Rightarrow> gpio \<Rightarrow> gpio" where
  "led_blink_manager s b =
     (let st = b_state b; rounds = (\<lambda>b. map_led (led_blink_round (hw_ms s 0) (hw_ms s 1) (button_press_in_progress b)) b) in
      if st = BST_INITIALIZING \<or> st = BST_INITIALIZING_READY_TO_CLEAR then map_led (led_on_color LED_COLOR_INIT) b
      else if st = BST_PRESSED_CONSUMED then map_led (\<lambda>l. led_on_color LED_COLOR_TOUCH_CONSUMED (stop_blinking l)) b
      else if st = BST_PRESSED_REGISTERED \<and> \<not> b_awaiting b \<or> st = BST_PRESSED_CONSUMED_ACTIVE then
        map_led (\<lambda>l. led_on_color LED_COLOR_CHARGED (stop_blinking l)) b
      else
        let b = (if st = BST_PRESSED_REGISTERED_EXT \<and> \<not> b_awaiting b
                 then map_led (\<lambda>l. led_on_color LED_COLOR_DATA_DELETION (stop_blinking l)) b else b) in
        if st < BST_META_READY_TO_USE \<and> l_num (b_led b) \<noteq> 1 then b else rounds b)"

subsection \<open>The button driver\<close>

text \<open>The switch over the states while the button is pressed, at \<open>current_time\<close>; \<open>later\<close> is the reading in the consumed state.\<close>

definition press_phase :: "u32 \<Rightarrow> u32 \<Rightarrow> gpio \<Rightarrow> gpio" where
  "press_phase current_time later b =
     (let total = current_time - b_press_t b;
          total = (if b_press_t b = 0 \<and> total \<noteq> 0 then 0 else total) in
      case b_state b of
        BST_UNPRESSED \<Rightarrow> b\<lparr>b_state := BST_PRESSED_RECENTLY, b_press_t := current_time, b_consumed_t := 0\<rparr>
      | BST_PRESSED_RECENTLY \<Rightarrow> (if total \<ge> BUTTON_MIN_PRESS_T_MS then b\<lparr>b_state := BST_PRESSED_REGISTERED\<rparr> else b)
      | BST_PRESSED_REGISTERED \<Rightarrow> (if total \<ge> BUTTON_MAX_PRESS_T_MS then b\<lparr>b_state := BST_PRESSED_REGISTERED_TRANSITIONAL\<rparr> else b)
      | BST_PRESSED_REGISTERED_TRANSITIONAL \<Rightarrow> (if total \<ge> BUTTON_MIN_PRESS_T_MS_EXT then b\<lparr>b_state := BST_PRESSED_REGISTERED_EXT\<rparr> else b)
      | BST_PRESSED_REGISTERED_EXT \<Rightarrow> (if total \<ge> BUTTON_MAX_PRESS_T_MS_EXT then b\<lparr>b_state := BST_PRESSED_REGISTERED_EXT_INVALID\<rparr> else b)
      | BST_PRESSED_CONSUMED_ACTIVE \<Rightarrow>
          (let b = (if b_consumed_t b = 0 then b\<lparr>b_consumed_t := current_time\<rparr> else b)
           in if later - b_consumed_t b \<ge> BUTTON_VALID_CONSUMED_T_MS then b\<lparr>b_state := BST_PRESSED_CONSUMED\<rparr> else b)
      | BST_PRESSED_CONSUMED \<Rightarrow> b\<lparr>b_consumed_t := 0\<rparr>
      | _ \<Rightarrow> b)"

definition button_sample :: "u32 \<Rightarrow> u32 \<Rightarrow> bool \<Rightarrow> gpio \<Rightarrow> gpio" where
  "button_sample current_time later pin b =
     (let b = b\<lparr>b_log := b_log b @ [(current_time, pin)]\<rparr> in
      if pin then press_phase current_time later b
      else b\<lparr>b_state := BST_UNPRESSED, b_press_t := 0\<rparr>)"

text \<open>The two early parts of \<open>button_manager\<close>.\<close>

definition first_ten_seconds :: "u32 \<Rightarrow> gpio \<Rightarrow> gpio" where
  "first_ten_seconds t b = (if b_first10 b \<and> t > 10000 then b\<lparr>b_first10 := False\<rparr> else b)"

text \<open>A call of the drivers in the delays of \<open>_clear_button_press\<close>. The button is past its initialisation there, so \<open>button_manager\<close> takes its
  sample; the light driver follows with the readings from number 3 on.\<close>

definition later_ms :: "nat \<Rightarrow> hw \<Rightarrow> hw" where
  "later_ms k s = s\<lparr>hw_ms := \<lambda>i. hw_ms s (k + i)\<rparr>"

definition drive_ready :: "hw \<Rightarrow> gpio \<Rightarrow> gpio" where
  "drive_ready s b =
     led_blink_manager (later_ms 3 s) (button_sample (hw_ms s 1) (hw_ms s 2) (hw_pin s) (first_ten_seconds (hw_ms s 0) b))"

text \<open>The loop of the clearing: for each round the driver calls in its delay, the clock, and the pin. The list goes as far as the readings are known.\<close>

type_synonym clear_round = "hw list \<times> u32 \<times> bool"

primrec clear_loop :: "u32 \<Rightarrow> clear_round list \<Rightarrow> gpio \<Rightarrow> gpio" where
  "clear_loop t0 [] b = b"
| "clear_loop t0 (r # rs) b =
     (case r of (drivers, now, pin) \<Rightarrow>
      let b = fold drive_ready drivers b in
      if now - t0 > 2000 \<or> \<not> pin then b else clear_loop t0 rs b)"

definition clear_button_press :: "bool \<Rightarrow> (nat \<Rightarrow> u32) \<Rightarrow> clear_round list \<Rightarrow> gpio \<Rightarrow> gpio" where
  "clear_button_press forced ms rounds b =
     (if \<not> forced \<and> b_state b \<noteq> BST_INITIALIZING_READY_TO_CLEAR \<and> ms 0 - b_cleared b < U2F_MS_CLEAR_BUTTON_PERIOD then b
      else if \<not> forced \<and> (b_state b = BST_INITIALIZING \<or> b_state b > BST_UNPRESSED) then b
      else
        let b = map_led led_off (b\<lparr>b_cleared := ms 1\<rparr>);
            b = (clear_loop (ms 2) rounds (b\<lparr>b_reset := True\<rparr>))\<lparr>b_reset := False\<rparr>
        in if b_state b = BST_INITIALIZING_READY_TO_CLEAR then b\<lparr>b_state := BST_UNPRESSED\<rparr> else b)"

definition button_manager :: "hw \<Rightarrow> clear_round list \<Rightarrow> gpio \<Rightarrow> gpio" where
  "button_manager s rounds b =
     (let b = first_ten_seconds (hw_ms s 0) b in
      if b_state b = BST_INITIALIZING \<and> b_start_t b = 0 then b\<lparr>b_start_t := hw_ms s 1, b_reset := False\<rparr>
      else if b_state b = BST_INITIALIZING \<and> hw_ms s 1 - b_start_t b \<le> U2F_MS_INIT_BUTTON_PERIOD then b
      else if b_state b = BST_INITIALIZING \<or> b_state b = BST_INITIALIZING_READY_TO_CLEAR then
        clear_button_press False (\<lambda>i. hw_ms s (2 + i)) rounds (b\<lparr>b_state := BST_META_READY_TO_USE\<rparr>)
      else button_sample (hw_ms s 1) (hw_ms s 2) (hw_pin s) b)"

text \<open>\<open>run_drivers\<close>; a delay is the calls of it that fit in.\<close>

type_synonym driver_call = "hw \<times> clear_round list"

definition run_drivers :: "driver_call \<Rightarrow> gpio \<Rightarrow> gpio" where
  "run_drivers c b = led_blink_manager (later_ms 3 (fst c)) (button_manager (fst c) (snd c) b)"

definition gpio_delay :: "driver_call list \<Rightarrow> gpio \<Rightarrow> gpio" where
  "gpio_delay cs b = fold run_drivers cs b"

definition last_button_cleared_time_delta :: "u32 \<Rightarrow> gpio \<Rightarrow> u8" where
  "last_button_cleared_time_delta now b = ucast ((now - b_cleared b) div 100)"

definition last_button_pushed_time_delta :: "u32 \<Rightarrow> gpio \<Rightarrow> u8" where
  "last_button_pushed_time_delta now b = ucast ((now - b_press_t b) div 100)"

definition ctap_get_status_data :: "bool \<Rightarrow> u32 \<Rightarrow> u32 \<Rightarrow> gpio \<Rightarrow> bytes" where
  "ctap_get_status_data pin t0 t1 b =
     [if pin then 1 else 0, of_nat (bst_num (b_state b)), last_button_cleared_time_delta t0 b, last_button_pushed_time_delta t1 b,
      if led_is_blinking (b_led b) then 1 else 0, ucast (U2F_MS_CLEAR_BUTTON_PERIOD div 100), ucast (U2F_MS_INIT_BUTTON_PERIOD div 100),
      ucast (BUTTON_MIN_PRESS_T_MS div 10)]"

end
