(* ===== verification/UserFeedback.thy ===== *)
theory UserFeedback
  imports Button
begin

text \<open>
  \<^verbatim>\<open>user_feedback.c\<close> (a request for a touch) and the wait of \<^verbatim>\<open>device.c\<close> around it, down to the driver calls in their delays.
  The loops run as far as the readings they are given; \<open>None\<close> is a loop that is not over yet. \<^verbatim>\<open>handle_packets\<close> is its
  result, with the calls of the drivers and of the light that the messages it handles make.
\<close>

text \<open>One round of the loop in \<open>_u2f_get_user_feedback\<close>: the light driver, the button driver, the clock, the driver calls in the delay.\<close>

record fb_round =
  fr_light :: hw
  fr_button :: driver_call
  fr_now :: u32
  fr_delay :: "driver_call list"

record feedback_in =
  fi_grace :: u32
  fi_reject :: "driver_call list"
  fi_blink :: "u32 \<times> u32"
  fi_start :: u32
  fi_rounds :: "fb_round list"

primrec feedback_loop :: "button_state \<Rightarrow> u32 \<Rightarrow> fb_round list \<Rightarrow> gpio \<Rightarrow> gpio option" where
  "feedback_loop target t [] b = (if b_state b = target then Some b else None)"
| "feedback_loop target t (r # rs) b =
     (if b_state b = target then Some b
      else
        let b = led_blink_manager (fr_light r) b;
            b = button_manager (fst (fr_button r)) (snd (fr_button r)) b in
        if fr_now r - t > U2F_MS_USER_INPUT_WAIT \<and> \<not> button_press_in_progress b then Some b
        else feedback_loop target t rs (gpio_delay (fr_delay r) b))"

text \<open>\<open>_u2f_get_user_feedback\<close>; 0 confirms the presence, 1 does not.\<close>

definition get_user_feedback :: "button_state \<Rightarrow> bool \<Rightarrow> feedback_in \<Rightarrow> gpio \<Rightarrow> (int \<times> gpio) option" where
  "get_user_feedback target blink fi b =
     (if \<not> b_first_accepted b \<and> fi_grace fi < SELF_ACCEPT_MAX_T_MS \<and> target = BST_PRESSED_REGISTERED then
        Some (0, map_led (\<lambda>l. stop_blinking (led_rgb LED_COLOR_TOUCH_CONSUMED l)) (b\<lparr>b_first_accepted := True\<rparr>))
      else if button_get_press b \<and> target = BST_PRESSED_REGISTERED then Some (0, b)
      else if button_press_is_consumed b \<or> b_state b < BST_META_READY_TO_USE then Some (1, gpio_delay (fi_reject fi) b)
      else
        let b = (if blink \<and> \<not> led_is_blinking (b_led b) then led_blink 50 LED_BLINK_PERIOD (fst (fi_blink fi)) (snd (fi_blink fi)) b
                 else if \<not> blink then map_led stop_blinking b else b) in
        case feedback_loop target (fi_start fi) (fi_rounds fi) b of
          None \<Rightarrow> None
        | Some b \<Rightarrow>
            if b_state b = target then Some (0, map_led stop_blinking (button_press_set_consumed target b))
            else Some (1, b))"

definition u2f_get_user_feedback :: "feedback_in \<Rightarrow> gpio \<Rightarrow> (int \<times> gpio) option" where
  "u2f_get_user_feedback fi b = get_user_feedback BST_PRESSED_REGISTERED True fi b"

definition u2f_get_user_feedback_extended_wipe :: "feedback_in \<Rightarrow> gpio \<Rightarrow> (int \<times> gpio) option" where
  "u2f_get_user_feedback_extended_wipe fi b = get_user_feedback BST_PRESSED_REGISTERED_EXT True fi b"

subsection \<open>The wait\<close>

definition timer_wait_for :: "u32 \<Rightarrow> u32 \<Rightarrow> u32" where "timer_wait_for now delay = now + delay"
definition timer_is_elapsed :: "u32 \<Rightarrow> u32 \<Rightarrow> bool" where "timer_is_elapsed now t \<longleftrightarrow> now \<ge> t"
definition timer_is_active :: "u32 \<Rightarrow> u32 \<Rightarrow> bool" where "timer_is_active now t \<longleftrightarrow> now < t"

text \<open>What the messages handled meanwhile do to the button and the light: they let the drivers run, blink, and ask for touches themselves.\<close>

datatype gpio_op = CallDrivers driver_call | CallBlink u8 u32 u32 | CallStop | CallAwaiting bool | CallColor u32
  | CallFeedback button_state feedback_in

fun gpio_call :: "gpio_op \<Rightarrow> gpio \<Rightarrow> gpio option" where
  "gpio_call (CallDrivers c) b = Some (run_drivers c b)"
| "gpio_call (CallBlink n t0 t1) b = Some (led_blink n LED_BLINK_PERIOD t0 t1 b)"
| "gpio_call CallStop b = Some (map_led stop_blinking b)"
| "gpio_call (CallAwaiting x) b = Some (set_button_awaiting_up x b)"
| "gpio_call (CallColor c) b = Some (map_led (led_set_default_color c) b)"
| "gpio_call (CallFeedback target fi) b = map_option snd (get_user_feedback target True fi b)"

primrec gpio_calls :: "gpio_op list \<Rightarrow> gpio \<Rightarrow> gpio option" where
  "gpio_calls [] b = Some b"
| "gpio_calls (c # cs) b = Option.bind (gpio_call c b) (gpio_calls cs)"

record wait_round =
  wr_now :: u32
  wr_feedback :: feedback_in
  wr_packets :: "int \<times> gpio_op list"
  wr_drivers :: driver_call
  wr_delay :: "driver_call list"

text \<open>The end of a wait: \<open>stop_blinking\<close> unless the touch came.\<close>

definition wait_over :: "bool \<Rightarrow> gpio \<Rightarrow> gpio" where
  "wait_over touched b = set_button_awaiting_up False (if touched then b else map_led stop_blinking b)"

primrec presence_loop ::
    "(feedback_in \<Rightarrow> gpio \<Rightarrow> (int \<times> gpio) option) \<Rightarrow> u32 \<Rightarrow> wait_round list \<Rightarrow> u32 \<Rightarrow> gpio \<Rightarrow> (int \<times> gpio) option" where
  "presence_loop feedback t [] final b = (if timer_is_active final t then None else Some (0, wait_over False b))"
| "presence_loop feedback t (r # rs) final b =
     (if \<not> timer_is_active (wr_now r) t then Some (0, wait_over False b)
      else case feedback (wr_feedback r) b of
          None \<Rightarrow> None
        | Some (res, b) \<Rightarrow>
            if res = 0 then Some (1, wait_over True b)
            else case gpio_calls (snd (wr_packets r)) b of
                None \<Rightarrow> None
              | Some b \<Rightarrow>
                  if fst (wr_packets r) \<noteq> 0 then Some (fst (wr_packets r), wait_over False b)
                  else presence_loop feedback t rs final (gpio_delay (wr_delay r) (run_drivers (wr_drivers r) b)))"

text \<open>\<open>nfc\<close>: powered by the field; \<open>up_off\<close>: the test is switched off. \<open>now\<close> is the clock when the wait starts.\<close>

definition presence_test_feedback ::
    "(feedback_in \<Rightarrow> gpio \<Rightarrow> (int \<times> gpio) option) \<Rightarrow> bool \<Rightarrow> bool \<Rightarrow> u32 \<Rightarrow> u32 \<Rightarrow> wait_round list \<Rightarrow> u32 \<Rightarrow> gpio \<Rightarrow> (int \<times> gpio) option" where
  "presence_test_feedback feedback nfc up_off up_delay now rounds final b =
     (if nfc then Some (1, b)
      else if up_off then Some (2, b)
      else presence_loop feedback (timer_wait_for now up_delay) rounds final (set_button_awaiting_up True b))"

definition presence_test_touch :: "bool \<Rightarrow> bool \<Rightarrow> u32 \<Rightarrow> u32 \<Rightarrow> wait_round list \<Rightarrow> u32 \<Rightarrow> gpio \<Rightarrow> (int \<times> gpio) option" where
  "presence_test_touch = presence_test_feedback u2f_get_user_feedback"

text \<open>\<open>ctap_user_presence_test_reset\<close> and \<open>ctap_user_presence_test_config\<close>.\<close>

definition presence_test_extended ::
    "u32 \<Rightarrow> bool \<Rightarrow> bool \<Rightarrow> u32 \<Rightarrow> u32 \<Rightarrow> wait_round list \<Rightarrow> u32 \<Rightarrow> gpio \<Rightarrow> (int \<times> gpio) option" where
  "presence_test_extended color nfc up_off up_delay now rounds final b =
     map_option (\<lambda>(r, b). (r, map_led led_reset_default_color b))
       (presence_test_feedback u2f_get_user_feedback_extended_wipe nfc up_off up_delay now rounds final (map_led (led_set_default_color color) b))"

end
