(* ===== verification/ButtonClaims.thy ===== *)
theory ButtonClaims
  imports ButtonProps
begin

text \<open>
  The presence test over the button driver: it reports a touch only when the pin was read as pressed long enough, and a long touch counts once.
\<close>

lemma sample_log [simp]: "b_log (button_sample now later pin b) = b_log b @ [(now, pin)]"
  by (auto simp: button_sample_def press_phase_def Let_def split: button_state.splits)

subsection \<open>Touches\<close>

definition touch_inv :: "gpio \<Rightarrow> bool" where
  "touch_inv b \<longleftrightarrow>
     (b_state b \<in> {BST_PRESSED_RECENTLY, BST_PRESSED_REGISTERED, BST_PRESSED_REGISTERED_TRANSITIONAL} \<longrightarrow> pressed_since (b_press_t b) (b_log b))
     \<and> (b_state b \<in> {BST_PRESSED_REGISTERED, BST_PRESSED_CONSUMED_ACTIVE} \<longrightarrow> touched 1000 (b_log b))
     \<and> (b_state b = BST_PRESSED_REGISTERED_EXT \<longrightarrow> touched 5000 (b_log b))"

lemma touch_sample: "touch_inv b \<Longrightarrow> touch_inv (button_sample now later pin b)"
proof (cases pin)
  case True
  assume "touch_inv b"
  with True show ?thesis
    by (cases "b_state b")
      (auto simp: touch_inv_def button_sample_def press_phase_def Let_def press_times pressed_here
        intro: pressed_goes_on touched_goes_on touched_now split: if_splits)
qed (simp add: touch_inv_def button_sample_def)

interpretation touch: gpio_inv touch_inv
proof
  fix b :: gpio and now later pin
  show "touch_inv b \<Longrightarrow> touch_inv (button_sample now later pin b)" by (rule touch_sample)
qed (auto simp: touch_inv_def button_press_set_consumed_def)

text \<open>The grace period is used up once.\<close>

interpretation grace: gpio_inv b_first_accepted
proof
  fix b :: gpio and now later pin
  show "b_first_accepted b \<Longrightarrow> b_first_accepted (button_sample now later pin b)"
    by (auto simp: button_sample_def press_phase_def Let_def split: button_state.splits)
qed (simp_all add: button_press_set_consumed_def)

text \<open>From reading number \<open>k\<close> on the button is still held after its long touch was taken, or was released.\<close>

definition spent :: "nat \<Rightarrow> gpio \<Rightarrow> bool" where
  "spent k b \<longleftrightarrow> k \<le> length (b_log b) \<and> (b_state b = BST_PRESSED_CONSUMED \<or> (\<exists>t. (t, False) \<in> set (drop k (b_log b))))"

interpretation spent: gpio_inv "spent k" for k
proof
  fix b :: gpio and now later pin
  assume s: "spent k b"
  have "b_state b = BST_PRESSED_CONSUMED \<Longrightarrow> pin \<Longrightarrow> b_state (button_sample now later pin b) = BST_PRESSED_CONSUMED"
    by (simp add: button_sample_def press_phase_def Let_def)
  with s show "spent k (button_sample now later pin b)" by (cases pin) (auto simp: spent_def)
next
  fix b :: gpio and s
  assume "spent k b" "b_state b = BST_INITIALIZING \<or> b_state b = BST_INITIALIZING_READY_TO_CLEAR"
  then show "spent k (b\<lparr>b_state := s\<rparr>)" by (auto simp: spent_def)
qed (auto simp: spent_def button_press_set_consumed_def)

subsection \<open>Requests\<close>

definition fb_target :: "button_state \<Rightarrow> bool" where
  "fb_target t \<longleftrightarrow> t = BST_PRESSED_REGISTERED \<or> t = BST_PRESSED_REGISTERED_EXT"

lemma feedback_short:
  assumes "touch_inv b" "u2f_get_user_feedback fi b = Some (0, b')"
  shows "(\<not> b_first_accepted b \<and> fi_grace fi < 2000 \<and> b_first_accepted b') \<or> touched 1000 (b_log b')"
proof -
  let ?b = "if \<not> led_is_blinking (b_led b) then led_blink 50 LED_BLINK_PERIOD (fst (fi_blink fi)) (snd (fi_blink fi)) b else b"
  have b: "touch_inv ?b" using assms(1) by (simp add: touch.blink)
  have l: "touch_inv c \<Longrightarrow> b_state c = BST_PRESSED_REGISTERED \<Longrightarrow> touched 1000 (b_log c)" for c by (simp add: touch_inv_def)
  have p: "touch_inv b \<Longrightarrow> button_get_press b \<Longrightarrow> touched 1000 (b_log b)" by (auto simp: touch_inv_def button_get_press_def)
  show ?thesis using assms p l[OF touch.request_loop[OF b]]
    by (auto simp: u2f_get_user_feedback_def get_user_feedback_def Let_def press_times map_led_def button_press_set_consumed_def
        split: if_splits option.splits)
qed

lemma feedback_extended:
  assumes "touch_inv b" "u2f_get_user_feedback_extended_wipe fi b = Some (0, b')"
  shows "touched 5000 (b_log b')" "b_state b' = BST_PRESSED_CONSUMED" "spent k b \<Longrightarrow> \<exists>t. (t, False) \<in> set (drop k (b_log b'))"
proof -
  let ?b = "if \<not> led_is_blinking (b_led b) then led_blink 50 LED_BLINK_PERIOD (fst (fi_blink fi)) (snd (fi_blink fi)) b else b"
  obtain c where c: "feedback_loop BST_PRESSED_REGISTERED_EXT (fi_start fi) (fi_rounds fi) ?b = Some c" "b_state c = BST_PRESSED_REGISTERED_EXT"
      "b' = map_led stop_blinking (button_press_set_consumed BST_PRESSED_REGISTERED_EXT c)"
    using assms(2) by (auto simp: u2f_get_user_feedback_extended_wipe_def get_user_feedback_def Let_def split: if_splits option.splits)
  have l: "b_log b' = b_log c" by (simp add: c(3) map_led_def button_press_set_consumed_def)
  have "touch_inv c" using touch.request_loop[OF _ c(1)] assms(1) by (simp add: touch.blink)
  then show "touched 5000 (b_log b')" using c(2) l by (simp add: touch_inv_def)
  show "b_state b' = BST_PRESSED_CONSUMED" by (simp add: c(3) map_led_def button_press_set_consumed_def)
  assume "spent k b"
  then have "spent k c" using spent.request_loop[OF _ c(1)] by (simp add: spent.blink)
  then show "\<exists>t. (t, False) \<in> set (drop k (b_log b'))" using c(2) l by (auto simp: spent_def)
qed

lemma feedback_keeps:
  assumes "gpio_inv I" "I b"
  shows "u2f_get_user_feedback fi b = Some (r, b') \<Longrightarrow> I b'" "u2f_get_user_feedback_extended_wipe fi b = Some (r, b') \<Longrightarrow> I b'"
  using gpio_inv.request[OF assms] by (auto simp: u2f_get_user_feedback_def u2f_get_user_feedback_extended_wipe_def)

subsection \<open>The wait\<close>

definition wait_ok :: "wait_round \<Rightarrow> bool" where
  "wait_ok r \<longleftrightarrow> fst (wr_packets r) \<in> {0, -1} \<and> list_all ok_call (snd (wr_packets r))"

text \<open>A wait that reports a touch ends in the round in which the request was granted; the rounds before it keep any invariant.\<close>

lemma wait_touched:
  assumes "gpio_inv I" "\<And>fi b r b'. I b \<Longrightarrow> feedback fi b = Some (r, b') \<Longrightarrow> I b'"
  shows "\<lbrakk>I b; list_all wait_ok rs; presence_loop feedback t rs final b = Some (1, b')\<rbrakk>
    \<Longrightarrow> \<exists>r\<in>set rs. \<exists>c c'. I c \<and> feedback (wr_feedback r) c = Some (0, c') \<and> b' = wait_over True c'"
proof (induction rs arbitrary: b)
  case Nil
  then show ?case by (simp split: if_splits)
next
  case (Cons a rs)
  obtain x b1 where f: "timer_is_active (wr_now a) t" "feedback (wr_feedback a) b = Some (x, b1)"
    using Cons.prems(3) by (auto split: if_splits option.splits)
  have i1: "I b1" by (rule assms(2)[OF Cons.prems(1) f(2)])
  show ?case
  proof (cases "x = 0")
    case True
    then show ?thesis using Cons.prems f by auto
  next
    case False
    then obtain b2 where p: "gpio_calls (snd (wr_packets a)) b1 = Some b2"
      using Cons.prems(3) f by (auto split: option.splits)
    have q: "fst (wr_packets a) = 0" using Cons.prems(2,3) f p False by (auto simp: wait_ok_def split: if_splits)
    have "I b2" using gpio_inv.calls[OF assms(1) i1 p] Cons.prems(2) by (simp add: wait_ok_def)
    then have "I (gpio_delay (wr_delay a) (run_drivers (wr_drivers a) b2))"
      by (intro gpio_inv.delay[OF assms(1)] gpio_inv.drivers[OF assms(1)])
    from Cons.IH[OF this] Cons.prems(2,3) f p q False show ?thesis by auto
  qed
qed

lemma over_log [simp]: "b_log (wait_over x c) = b_log c" "b_state (wait_over x c) = b_state c" "b_first_accepted (wait_over x c) = b_first_accepted c"
  by (simp_all add: wait_over_def set_button_awaiting_up_def map_led_def)

text \<open>The button when the power comes.\<close>

definition gpio_start :: gpio where
  "gpio_start = \<lparr>b_press_t = 0, b_consumed_t = 0, b_state = BST_INITIALIZING, b_start_t = 0, b_first10 = True, b_cleared = 0,
     b_awaiting = False, b_first_accepted = False, b_reset = False,
     b_led = \<lparr>l_tim = 0, l_period = 0, l_on_t = 0, l_num = 0, l_default = LED_COLOR_REGULAR, l_state = False, l_pwm = (0, 0, 0)\<rparr>, b_log = []\<rparr>"

lemma reached_touch: "gpio_calls cs gpio_start = Some b \<Longrightarrow> list_all ok_call cs \<Longrightarrow> touch_inv b"
  by (rule touch.calls) (auto simp: touch_inv_def gpio_start_def)


lemma short_test:
  assumes "touch_inv b" "list_all wait_ok rs" "presence_test_touch nfc off up_delay now rs final b = Some (1, b')"
  shows "nfc \<or> touch_inv b' \<and> (touched 1000 (b_log b')
      \<or> \<not> b_first_accepted b \<and> b_first_accepted b' \<and> (\<exists>r\<in>set rs. fi_grace (wr_feedback r) < 2000))"
proof -
  let ?I = "\<lambda>c. touch_inv c \<and> (b_first_accepted b \<longrightarrow> b_first_accepted c)"
  have i: "gpio_inv ?I" by (rule touch.both[OF grace.given])
  show ?thesis
  proof (cases nfc)
    case False
    then have w: "presence_loop u2f_get_user_feedback (timer_wait_for now up_delay) rs final (set_button_awaiting_up True b) = Some (1, b')"
      using assms(3) by (simp add: presence_test_touch_def presence_test_feedback_def split: if_splits)
    have "?I (set_button_awaiting_up True b)" using assms(1) by (simp add: set_button_awaiting_up_def touch.awaiting_keeps)
    note b = this
    have k: "?I c \<Longrightarrow> u2f_get_user_feedback fi c = Some (r, c') \<Longrightarrow> ?I c'" for fi c r c'
      by (rule feedback_keeps(1)[OF i])
    obtain r c c' where "r \<in> set rs" "?I c" "u2f_get_user_feedback (wr_feedback r) c = Some (0, c')" "b' = wait_over True c'"
    proof -
      have "\<exists>r\<in>set rs. \<exists>c c'. ?I c \<and> u2f_get_user_feedback (wr_feedback r) c = Some (0, c') \<and> b' = wait_over True c'"
        by (rule wait_touched[OF i _ b assms(2) w]) (rule k)
      then show ?thesis using that by blast
    qed
    moreover from this have "touch_inv c'" using feedback_keeps(1)[OF touch.contract] by blast
    ultimately show ?thesis using feedback_short[of c "wr_feedback r" c'] by (auto simp: touch.over)
  qed simp
qed

lemma extended_test:
  assumes "touch_inv b" "spent k b \<or> k = 0" "list_all wait_ok rs" "presence_test_extended color nfc off up_delay now rs final b = Some (1, b')" "\<not> nfc"
  shows "touched 5000 (b_log b')" "b_state b' = BST_PRESSED_CONSUMED" "spent k b \<Longrightarrow> \<exists>t. (t, False) \<in> set (drop k (b_log b'))" "touch_inv b'"
proof -
  let ?I = "\<lambda>c. touch_inv c \<and> (spent k b \<longrightarrow> spent k c)"
  have i: "gpio_inv ?I" by (rule touch.both[OF spent.given])
  let ?b = "set_button_awaiting_up True (map_led (led_set_default_color color) b)"
  obtain d where w: "presence_loop u2f_get_user_feedback_extended_wipe (timer_wait_for now up_delay) rs final ?b = Some (1, d)"
      "b' = map_led led_reset_default_color d"
    using assms(4,5) by (auto simp: presence_test_extended_def presence_test_feedback_def split: if_splits)
  have "?I ?b" using assms(1) by (simp add: set_button_awaiting_up_def touch.awaiting_keeps touch.light spent.awaiting_keeps spent.light)
  note b = this
  have k: "?I c \<Longrightarrow> u2f_get_user_feedback_extended_wipe fi c = Some (r, c') \<Longrightarrow> ?I c'" for fi c r c'
    by (rule feedback_keeps(2)[OF i])
  obtain r c c' where f: "r \<in> set rs" "?I c" "u2f_get_user_feedback_extended_wipe (wr_feedback r) c = Some (0, c')" "d = wait_over True c'"
  proof -
    have "\<exists>r\<in>set rs. \<exists>c c'. ?I c \<and> u2f_get_user_feedback_extended_wipe (wr_feedback r) c = Some (0, c') \<and> d = wait_over True c'"
      by (rule wait_touched[OF i _ b assms(3) w(1)]) (rule k)
    then show ?thesis using that by blast
  qed
  then have l: "b_log b' = b_log c'" "b_state b' = b_state c'" by (simp_all add: w(2) map_led_def)
  show "touched 5000 (b_log b')" "b_state b' = BST_PRESSED_CONSUMED" "spent k b \<Longrightarrow> \<exists>t. (t, False) \<in> set (drop k (b_log b'))"
    using feedback_extended[of c "wr_feedback r" c'] f l by auto
  have "touch_inv c'" using feedback_keeps(2)[OF touch.contract] f by blast
  then show "touch_inv b'" by (simp add: w(2) f(4) touch.light touch.over)
qed

subsection \<open>Claims\<close>

text \<open>The grace of the first two seconds is spent by the request it grants: whatever happens after it, the next request needs a touch.\<close>

lemma grace_once:
  assumes "touch_inv b" "list_all wait_ok rs" "presence_test_touch nfc up_off up_delay now rs final b = Some (1, b')"
    and "list_all ok_call cs'" "gpio_calls cs' b' = Some b2" "list_all wait_ok rs'"
    and "presence_test_touch nfc' up_off' up_delay' now' rs' final' b2 = Some (1, b3)"
  shows "nfc \<or> nfc' \<or> touched 1000 (b_log b') \<or> touched 1000 (b_log b3)"
proof -
  have "nfc \<or> touched 1000 (b_log b') \<or> touch_inv b' \<and> b_first_accepted b'" using short_test[OF assms(1-3)] by blast
  moreover have "nfc' \<or> touched 1000 (b_log b3)" if "touch_inv b'" "b_first_accepted b'"
    using short_test[OF touch.calls[OF that(1) assms(5,4)] assms(6,7)] grace.calls[OF that(2) assms(5,4)] by blast
  ultimately show ?thesis by blast
qed

text \<open>C8 (safety). The presence test reports a touch only for a touch: from power-up, over any calls of the drivers, any requests and any
  messages, it answers 1 only when the field powers the device, or the readings of the pin up to that moment all say pressed over at least a
  second, or it is the one request that the first two seconds after power-up grant: that grant is recorded, and of two short requests that are answered 1, whatever
  comes between them, one is for the field or for a touch. A reset and a change of the configuration
  need five seconds, whatever the time since power-up.\<close>

theorem presence_needs_touch:
  assumes "list_all ok_call cs" "gpio_calls cs gpio_start = Some b" "list_all wait_ok rs"
  shows "(presence_test_touch nfc up_off up_delay now rs final b = Some (1, b') \<longrightarrow>
        nfc \<or> touched 1000 (b_log b')
          \<or> \<not> b_first_accepted b \<and> b_first_accepted b' \<and> (\<exists>r\<in>set rs. fi_grace (wr_feedback r) < 2000))
    \<and> (presence_test_touch nfc up_off up_delay now rs final b = Some (1, b')
        \<and> list_all ok_call cs' \<and> gpio_calls cs' b' = Some b2 \<and> list_all wait_ok rs'
        \<and> presence_test_touch nfc' up_off' up_delay' now' rs' final' b2 = Some (1, b3) \<longrightarrow>
        nfc \<or> nfc' \<or> touched 1000 (b_log b') \<or> touched 1000 (b_log b3))
    \<and> (presence_test_extended color nfc up_off up_delay now rs final b = Some (1, b') \<longrightarrow> nfc \<or> touched 5000 (b_log b'))"
proof (intro conjI impI)
  note b = reached_touch[OF assms(2,1)]
  show "nfc \<or> touched 1000 (b_log b')
      \<or> \<not> b_first_accepted b \<and> b_first_accepted b' \<and> (\<exists>r\<in>set rs. fi_grace (wr_feedback r) < 2000)"
    if "presence_test_touch nfc up_off up_delay now rs final b = Some (1, b')" using short_test[OF b assms(3) that] by blast
  show "nfc \<or> nfc' \<or> touched 1000 (b_log b') \<or> touched 1000 (b_log b3)"
    if "presence_test_touch nfc up_off up_delay now rs final b = Some (1, b')
        \<and> list_all ok_call cs' \<and> gpio_calls cs' b' = Some b2 \<and> list_all wait_ok rs'
        \<and> presence_test_touch nfc' up_off' up_delay' now' rs' final' b2 = Some (1, b3)"
    using that grace_once[OF b assms(3), of nfc up_off up_delay now final b' cs' b2 rs'] by blast
  show "nfc \<or> touched 5000 (b_log b')" if "presence_test_extended color nfc up_off up_delay now rs final b = Some (1, b')"
    using extended_test(1)[OF b _ assms(3) that, of 0] by blast
qed

text \<open>Between two long touches that are granted the button is released.\<close>

lemma long_touch_once:
  assumes "list_all ok_call cs" "gpio_calls cs gpio_start = Some b" "list_all wait_ok rs" "list_all ok_call cs'" "list_all wait_ok rs'"
    and "presence_test_extended color False up_off up_delay now rs final b = Some (1, b1)"
    and "gpio_calls cs' b1 = Some b2" "presence_test_extended color' False up_off' up_delay' now' rs' final' b2 = Some (1, b3)"
  shows "\<exists>t. (t, False) \<in> set (drop (length (b_log b1)) (b_log b3))"
proof -
  let ?k = "length (b_log b1)"
  note e = extended_test[OF reached_touch[OF assms(2,1)] _ assms(3,6), of 0]
  have "touch_inv b1" "b_state b1 = BST_PRESSED_CONSUMED" using e(2,4) by simp_all
  then have "touch_inv b2" "spent ?k b2"
    using touch.calls[OF _ assms(7,4)] spent.calls[OF _ assms(7,4), of ?k] by (simp_all add: spent_def)
  then show ?thesis using extended_test(3)[OF _ _ assms(5,8), of ?k] by simp
qed
text \<open>A button held for 1.2 seconds, seen by five calls of the drivers, then a request.\<close>

definition seen :: "u32 \<Rightarrow> bool \<Rightarrow> gpio_op" where "seen t pin = CallDrivers (\<lparr>hw_ms = \<lambda>_. t, hw_pin = pin\<rparr>, [])"

definition quiet_feedback :: feedback_in where
  "quiet_feedback = \<lparr>fi_grace = 3000, fi_reject = [], fi_blink = (3000, 3000), fi_start = 3000, fi_rounds = []\<rparr>"

definition round0 :: wait_round where
  "round0 = \<lparr>wr_now = 2900, wr_feedback = quiet_feedback, wr_packets = (0, []), wr_drivers = (\<lparr>hw_ms = \<lambda>_. 3000, hw_pin = True\<rparr>, []), wr_delay = []\<rparr>"

lemma held_button:
  "\<exists>b b'. gpio_calls [seen 5 False, seen 600 False, seen 700 False, seen 800 True, seen 2000 True] gpio_start = Some b
    \<and> presence_test_touch False False 5000 2800 [round0] 0 b = Some (1, b') \<and> b_first_accepted b = False
    \<and> (\<exists>b3. presence_test_touch False False 5000 2800 [round0] 0 b' = Some (1, b3))"
  by (simp add: seen_def quiet_feedback_def round0_def gpio_start_def run_drivers_def button_manager_def first_ten_seconds_def
      led_blink_manager_def later_ms_def clear_button_press_def button_sample_def press_phase_def press_times bst_less Let_def map_led_def
      presence_test_touch_def presence_test_feedback_def timer_wait_for_def timer_is_active_def set_button_awaiting_up_def
      u2f_get_user_feedback_def get_user_feedback_def button_get_press_def)

text \<open>Just after power-up a request is granted without a touch.\<close>

definition round1 :: wait_round where
  "round1 = round0\<lparr>wr_now := 100, wr_feedback := quiet_feedback\<lparr>fi_grace := 100\<rparr>\<rparr>"

lemma graced_button: "\<exists>b'. presence_test_touch False False 5000 50 [round1] 0 gpio_start = Some (1, b')"
  by (simp add: round1_def round0_def quiet_feedback_def gpio_start_def presence_test_touch_def presence_test_feedback_def timer_wait_for_def
      timer_is_active_def set_button_awaiting_up_def u2f_get_user_feedback_def get_user_feedback_def press_times)

theorem presence_needs_touch_witness:
  "(\<exists>b b' b3. gpio_calls [seen 5 False, seen 600 False, seen 700 False, seen 800 True, seen 2000 True] gpio_start = Some b
    \<and> presence_test_touch False False 5000 2800 [round0] 0 b = Some (1, b') \<and> touched 1000 (b_log b')
    \<and> presence_test_touch False False 5000 2800 [round0] 0 b' = Some (1, b3))
   \<and> (\<exists>b'. presence_test_touch False False 5000 50 [round1] 0 gpio_start = Some (1, b') \<and> b_first_accepted b')"
proof
  let ?cs = "[seen 5 False, seen 600 False, seen 700 False, seen 800 True, seen 2000 True]"
  obtain b b' b3 where r: "gpio_calls ?cs gpio_start = Some b" "presence_test_touch False False 5000 2800 [round0] 0 b = Some (1, b')"
      "presence_test_touch False False 5000 2800 [round0] 0 b' = Some (1, b3)"
    using held_button by blast
  have w: "list_all ok_call ?cs" "list_all wait_ok [round0]" by (simp_all add: seen_def wait_ok_def round0_def)
  from presence_needs_touch[OF w(1) r(1) w(2)] r(2)
  have "touched 1000 (b_log b') \<or> (\<exists>r\<in>set [round0]. fi_grace (wr_feedback r) < 2000)" by blast
  then have "touched 1000 (b_log b')" by (simp add: round0_def quiet_feedback_def)
  with r show "\<exists>b b' b3. gpio_calls ?cs gpio_start = Some b
    \<and> presence_test_touch False False 5000 2800 [round0] 0 b = Some (1, b') \<and> touched 1000 (b_log b')
    \<and> presence_test_touch False False 5000 2800 [round0] 0 b' = Some (1, b3)" by blast
next
  obtain b' where r: "presence_test_touch False False 5000 50 [round1] 0 gpio_start = Some (1, b')" using graced_button by blast
  have w: "list_all ok_call []" "gpio_calls [] gpio_start = Some gpio_start" "list_all wait_ok [round1]"
    by (simp_all add: wait_ok_def round1_def round0_def)
  have "b_first_accepted b' \<or> touched 1000 (b_log b')" using presence_needs_touch[OF w] r by blast
  moreover have "\<not> touched 1000 (b_log b')" using r
    by (auto simp add: round1_def round0_def quiet_feedback_def gpio_start_def presence_test_touch_def presence_test_feedback_def timer_wait_for_def
      timer_is_active_def set_button_awaiting_up_def u2f_get_user_feedback_def get_user_feedback_def press_times map_led_def touched_def)
  ultimately show "\<exists>b'. presence_test_touch False False 5000 50 [round1] 0 gpio_start = Some (1, b') \<and> b_first_accepted b'" using r by blast
qed

subsection \<open>The other direction, and where the timing ends\<close>

text \<open>A button held for a second is taken by the next request.\<close>

lemma held_touch_granted:
  assumes "b_state b = BST_UNPRESSED" "t \<noteq> 0" "u - t \<ge> 1000"
  shows "\<exists>b'. u2f_get_user_feedback fi (button_sample u v True (button_sample t w True b)) = Some (0, b')"
  using assms by (simp add: button_sample_def press_phase_def Let_def press_times u2f_get_user_feedback_def get_user_feedback_def button_get_press_def)

text \<open>A wait that starts so late that the clock wraps within it is over before the first request, although a comment says the wrap does no harm.\<close>

lemma late_wait_is_over:
  assumes "2 ^ 32 \<le> unat now + unat up_delay" "now \<le> wr_now r"
  shows "presence_test_touch False False up_delay now (r # rs) final b = Some (0, wait_over False (set_button_awaiting_up True b))"
proof -
  have "unat (now + up_delay) < unat now + 1"
    using assms(1) unsigned_less[of now, where 'a = nat] unsigned_less[of up_delay, where 'a = nat] by (auto simp: unat_word_ariths mod_if)
  then have "\<not> timer_is_active (wr_now r) (timer_wait_for now up_delay)"
    using assms(2) by (simp add: timer_is_active_def timer_wait_for_def word_less_nat_alt word_le_nat_alt)
  then show ?thesis by (simp add: presence_test_touch_def presence_test_feedback_def)
qed

text \<open>The clearing of the button that should end the initialisation does not happen in the first twenty seconds: the state that would allow
  it is overwritten before the call.\<close>

lemma initial_clearing_skipped:
  assumes "b_state b = BST_INITIALIZING" "b_start_t b \<noteq> 0" "hw_ms s 1 - b_start_t b > 500" "b_cleared b = 0" "hw_ms s 2 < 20000"
  shows "button_manager s rounds b = (first_ten_seconds (hw_ms s 0) b)\<lparr>b_state := BST_META_READY_TO_USE\<rparr>"
  using assms by (auto simp: button_manager_def Let_def first_ten_seconds_def press_times clear_button_press_def numeral_2_eq_2)

end
