(* ===== verification/DeviceSettings.thy ===== *)
theory DeviceSettings
  imports Flash
begin

text \<open>
  The attestation page of the device: the key and the certificate (\<^verbatim>\<open>attestation.c\<close>), the settings word with the lock, the migration
  at each start and the lock request (\<^verbatim>\<open>device.c\<close>), and the option bytes that switch the read-out protection on (\<^verbatim>\<open>flash.c\<close>).
\<close>

subsection \<open>What the firmware ships\<close>

definition attestation_solo_cert_der :: bytes where
  "attestation_solo_cert_der = [
    0x30, 0x82, 0x02, 0x72, 0x30, 0x82, 0x02, 0x18, 0xa0, 0x03, 0x02, 0x01, 0x02, 0x02, 0x01, 0x01, 0x30, 0x0a, 0x06, 0x08, 0x2a, 0x86, 0x48, 0xce,
    0x3d, 0x04, 0x03, 0x02, 0x30, 0x4e, 0x31, 0x0b, 0x30, 0x09, 0x06, 0x03, 0x55, 0x04, 0x06, 0x13, 0x02, 0x44, 0x45, 0x31, 0x16, 0x30, 0x14, 0x06,
    0x03, 0x55, 0x04, 0x0a, 0x0c, 0x0d, 0x4e, 0x69, 0x74, 0x72, 0x6f, 0x6b, 0x65, 0x79, 0x20, 0x47, 0x6d, 0x62, 0x48, 0x31, 0x10, 0x30, 0x0e, 0x06,
    0x03, 0x55, 0x04, 0x0b, 0x0c, 0x07, 0x52, 0x6f, 0x6f, 0x74, 0x20, 0x43, 0x41, 0x31, 0x15, 0x30, 0x13, 0x06, 0x03, 0x55, 0x04, 0x03, 0x0c, 0x0c,
    0x6e, 0x69, 0x74, 0x72, 0x6f, 0x6b, 0x65, 0x79, 0x2e, 0x63, 0x6f, 0x6d, 0x30, 0x20, 0x17, 0x0d, 0x32, 0x30, 0x30, 0x35, 0x30, 0x38, 0x30, 0x39,
    0x33, 0x35, 0x33, 0x35, 0x5a, 0x18, 0x0f, 0x32, 0x30, 0x37, 0x30, 0x30, 0x34, 0x32, 0x36, 0x30, 0x39, 0x33, 0x35, 0x33, 0x35, 0x5a, 0x30, 0x60,
    0x31, 0x0b, 0x30, 0x09, 0x06, 0x03, 0x55, 0x04, 0x06, 0x13, 0x02, 0x44, 0x45, 0x31, 0x16, 0x30, 0x14, 0x06, 0x03, 0x55, 0x04, 0x0a, 0x0c, 0x0d,
    0x4e, 0x69, 0x74, 0x72, 0x6f, 0x6b, 0x65, 0x79, 0x20, 0x47, 0x6d, 0x62, 0x48, 0x31, 0x22, 0x30, 0x20, 0x06, 0x03, 0x55, 0x04, 0x0b, 0x0c, 0x19,
    0x41, 0x75, 0x74, 0x68, 0x65, 0x6e, 0x74, 0x69, 0x63, 0x61, 0x74, 0x6f, 0x72, 0x20, 0x41, 0x74, 0x74, 0x65, 0x73, 0x74, 0x61, 0x74, 0x69, 0x6f,
    0x6e, 0x31, 0x15, 0x30, 0x13, 0x06, 0x03, 0x55, 0x04, 0x03, 0x0c, 0x0c, 0x6e, 0x69, 0x74, 0x72, 0x6f, 0x6b, 0x65, 0x79, 0x2e, 0x63, 0x6f, 0x6d,
    0x30, 0x59, 0x30, 0x13, 0x06, 0x07, 0x2a, 0x86, 0x48, 0xce, 0x3d, 0x02, 0x01, 0x06, 0x08, 0x2a, 0x86, 0x48, 0xce, 0x3d, 0x03, 0x01, 0x07, 0x03,
    0x42, 0x00, 0x04, 0xb6, 0xa8, 0x02, 0x1d, 0x09, 0xdd, 0x48, 0x8f, 0x31, 0xdb, 0xe3, 0x7e, 0x26, 0xd6, 0xcd, 0xa5, 0x44, 0x11, 0xc3, 0x34, 0x27,
    0x93, 0x20, 0x6e, 0x51, 0x0a, 0x0c, 0x7f, 0x2c, 0xc8, 0x87, 0xb9, 0xa7, 0x3c, 0x4a, 0xb4, 0x64, 0x2a, 0xb7, 0x8c, 0xa1, 0xd8, 0xc3, 0x80, 0x9f,
    0x71, 0x2c, 0xc2, 0x9a, 0x73, 0x5d, 0xef, 0x2d, 0xa4, 0x66, 0x25, 0xa0, 0x3a, 0xcf, 0x49, 0x6b, 0xd2, 0x02, 0x87, 0xa3, 0x81, 0xd2, 0x30, 0x81,
    0xcf, 0x30, 0x1d, 0x06, 0x03, 0x55, 0x1d, 0x0e, 0x04, 0x16, 0x04, 0x14, 0x2e, 0x5b, 0x45, 0x7e, 0x56, 0x10, 0xb4, 0xe5, 0xdd, 0xb4, 0xa9, 0x28,
    0x0b, 0xd1, 0x1f, 0xe8, 0xfe, 0xe5, 0xc6, 0x46, 0x30, 0x73, 0x06, 0x03, 0x55, 0x1d, 0x23, 0x04, 0x6c, 0x30, 0x6a, 0xa1, 0x52, 0xa4, 0x50, 0x30,
    0x4e, 0x31, 0x0b, 0x30, 0x09, 0x06, 0x03, 0x55, 0x04, 0x06, 0x13, 0x02, 0x44, 0x45, 0x31, 0x16, 0x30, 0x14, 0x06, 0x03, 0x55, 0x04, 0x0a, 0x0c,
    0x0d, 0x4e, 0x69, 0x74, 0x72, 0x6f, 0x6b, 0x65, 0x79, 0x20, 0x47, 0x6d, 0x62, 0x48, 0x31, 0x10, 0x30, 0x0e, 0x06, 0x03, 0x55, 0x04, 0x0b, 0x0c,
    0x07, 0x52, 0x6f, 0x6f, 0x74, 0x20, 0x43, 0x41, 0x31, 0x15, 0x30, 0x13, 0x06, 0x03, 0x55, 0x04, 0x03, 0x0c, 0x0c, 0x6e, 0x69, 0x74, 0x72, 0x6f,
    0x6b, 0x65, 0x79, 0x2e, 0x63, 0x6f, 0x6d, 0x82, 0x14, 0x16, 0x62, 0x04, 0x96, 0xe9, 0xd9, 0xf4, 0xff, 0x2d, 0xa4, 0x49, 0xf1, 0x7c, 0x25, 0xf6,
    0xa8, 0x57, 0xeb, 0x66, 0xe8, 0x30, 0x09, 0x06, 0x03, 0x55, 0x1d, 0x13, 0x04, 0x02, 0x30, 0x00, 0x30, 0x0b, 0x06, 0x03, 0x55, 0x1d, 0x0f, 0x04,
    0x04, 0x03, 0x02, 0x04, 0xf0, 0x30, 0x21, 0x06, 0x0b, 0x2b, 0x06, 0x01, 0x04, 0x01, 0x82, 0xe5, 0x1c, 0x01, 0x01, 0x04, 0x04, 0x12, 0x04, 0x10,
    0xc3, 0x9e, 0xfb, 0xa6, 0xfc, 0xf4, 0x4c, 0x3e, 0x82, 0x8b, 0xfc, 0x4a, 0x61, 0x15, 0xa0, 0xff, 0x30, 0x0a, 0x06, 0x08, 0x2a, 0x86, 0x48, 0xce,
    0x3d, 0x04, 0x03, 0x02, 0x03, 0x48, 0x00, 0x30, 0x45, 0x02, 0x20, 0x24, 0x38, 0x71, 0x59, 0xc0, 0x8f, 0xe7, 0x9d, 0xef, 0xc3, 0xc8, 0xdc, 0x72,
    0x6a, 0x82, 0xc2, 0x62, 0x4b, 0xaf, 0x82, 0x6f, 0xb2, 0x74, 0x0b, 0x1c, 0x5f, 0x1f, 0x01, 0x0c, 0xbe, 0x4e, 0x54, 0x02, 0x21, 0x00, 0x9a, 0x9b,
    0x6d, 0x61, 0x4b, 0x84, 0x6f, 0x8d, 0xf7, 0xd6, 0x9a, 0x97, 0x96, 0x65, 0xe2, 0x8c, 0x4f, 0x58, 0x0c, 0x51, 0x01, 0x16, 0xc6, 0xde, 0xab, 0x56,
    0x83, 0x04, 0x5f, 0xd0, 0xbb, 0x1a]"

definition attestation_hacker_cert_der :: bytes where
  "attestation_hacker_cert_der = [
    0x30, 0x82, 0x02, 0x72, 0x30, 0x82, 0x02, 0x18, 0xa0, 0x03, 0x02, 0x01, 0x02, 0x02, 0x01, 0x01, 0x30, 0x0a, 0x06, 0x08, 0x2a, 0x86, 0x48, 0xce,
    0x3d, 0x04, 0x03, 0x02, 0x30, 0x4e, 0x31, 0x0b, 0x30, 0x09, 0x06, 0x03, 0x55, 0x04, 0x06, 0x13, 0x02, 0x44, 0x45, 0x31, 0x16, 0x30, 0x14, 0x06,
    0x03, 0x55, 0x04, 0x0a, 0x0c, 0x0d, 0x4e, 0x69, 0x74, 0x72, 0x6f, 0x6b, 0x65, 0x79, 0x20, 0x47, 0x6d, 0x62, 0x48, 0x31, 0x10, 0x30, 0x0e, 0x06,
    0x03, 0x55, 0x04, 0x0b, 0x0c, 0x07, 0x52, 0x6f, 0x6f, 0x74, 0x20, 0x43, 0x41, 0x31, 0x15, 0x30, 0x13, 0x06, 0x03, 0x55, 0x04, 0x03, 0x0c, 0x0c,
    0x6e, 0x69, 0x74, 0x72, 0x6f, 0x6b, 0x65, 0x79, 0x2e, 0x63, 0x6f, 0x6d, 0x30, 0x20, 0x17, 0x0d, 0x32, 0x30, 0x30, 0x35, 0x30, 0x38, 0x31, 0x32,
    0x30, 0x30, 0x30, 0x34, 0x5a, 0x18, 0x0f, 0x32, 0x30, 0x37, 0x30, 0x30, 0x34, 0x32, 0x36, 0x31, 0x32, 0x30, 0x30, 0x30, 0x34, 0x5a, 0x30, 0x60,
    0x31, 0x0b, 0x30, 0x09, 0x06, 0x03, 0x55, 0x04, 0x06, 0x13, 0x02, 0x44, 0x45, 0x31, 0x16, 0x30, 0x14, 0x06, 0x03, 0x55, 0x04, 0x0a, 0x0c, 0x0d,
    0x4e, 0x69, 0x74, 0x72, 0x6f, 0x6b, 0x65, 0x79, 0x20, 0x47, 0x6d, 0x62, 0x48, 0x31, 0x22, 0x30, 0x20, 0x06, 0x03, 0x55, 0x04, 0x0b, 0x0c, 0x19,
    0x41, 0x75, 0x74, 0x68, 0x65, 0x6e, 0x74, 0x69, 0x63, 0x61, 0x74, 0x6f, 0x72, 0x20, 0x41, 0x74, 0x74, 0x65, 0x73, 0x74, 0x61, 0x74, 0x69, 0x6f,
    0x6e, 0x31, 0x15, 0x30, 0x13, 0x06, 0x03, 0x55, 0x04, 0x03, 0x0c, 0x0c, 0x6e, 0x69, 0x74, 0x72, 0x6f, 0x6b, 0x65, 0x79, 0x2e, 0x63, 0x6f, 0x6d,
    0x30, 0x59, 0x30, 0x13, 0x06, 0x07, 0x2a, 0x86, 0x48, 0xce, 0x3d, 0x02, 0x01, 0x06, 0x08, 0x2a, 0x86, 0x48, 0xce, 0x3d, 0x03, 0x01, 0x07, 0x03,
    0x42, 0x00, 0x04, 0x7f, 0xbd, 0x8e, 0x19, 0x5e, 0x71, 0x19, 0xb8, 0x01, 0x3a, 0x34, 0xce, 0x3a, 0xde, 0x05, 0x58, 0xad, 0xed, 0x50, 0xf1, 0xd3,
    0xf3, 0x61, 0x21, 0xc0, 0x26, 0xa5, 0xc8, 0x6b, 0x1d, 0x67, 0x4b, 0x22, 0x33, 0xae, 0x63, 0x1c, 0x93, 0xaa, 0x7f, 0xee, 0x13, 0x71, 0xd1, 0x53,
    0x86, 0x59, 0xd1, 0xde, 0x34, 0xc2, 0x37, 0x94, 0xbe, 0x14, 0xb6, 0x23, 0xb6, 0x5c, 0x86, 0x05, 0xc5, 0x78, 0x28, 0xa3, 0x81, 0xd2, 0x30, 0x81,
    0xcf, 0x30, 0x1d, 0x06, 0x03, 0x55, 0x1d, 0x0e, 0x04, 0x16, 0x04, 0x14, 0x1c, 0xd8, 0xff, 0xeb, 0x0b, 0xe1, 0xfd, 0x29, 0xfd, 0x5f, 0xb1, 0xb2,
    0x9c, 0x3e, 0xac, 0xa6, 0x79, 0xe6, 0x72, 0xf2, 0x30, 0x73, 0x06, 0x03, 0x55, 0x1d, 0x23, 0x04, 0x6c, 0x30, 0x6a, 0xa1, 0x52, 0xa4, 0x50, 0x30,
    0x4e, 0x31, 0x0b, 0x30, 0x09, 0x06, 0x03, 0x55, 0x04, 0x06, 0x13, 0x02, 0x44, 0x45, 0x31, 0x16, 0x30, 0x14, 0x06, 0x03, 0x55, 0x04, 0x0a, 0x0c,
    0x0d, 0x4e, 0x69, 0x74, 0x72, 0x6f, 0x6b, 0x65, 0x79, 0x20, 0x47, 0x6d, 0x62, 0x48, 0x31, 0x10, 0x30, 0x0e, 0x06, 0x03, 0x55, 0x04, 0x0b, 0x0c,
    0x07, 0x52, 0x6f, 0x6f, 0x74, 0x20, 0x43, 0x41, 0x31, 0x15, 0x30, 0x13, 0x06, 0x03, 0x55, 0x04, 0x03, 0x0c, 0x0c, 0x6e, 0x69, 0x74, 0x72, 0x6f,
    0x6b, 0x65, 0x79, 0x2e, 0x63, 0x6f, 0x6d, 0x82, 0x14, 0x05, 0x13, 0xd6, 0xe6, 0xaf, 0x64, 0xd6, 0x91, 0xfc, 0x55, 0x67, 0x46, 0xd9, 0x0e, 0xc7,
    0xeb, 0x4a, 0x5e, 0xf6, 0xd7, 0x30, 0x09, 0x06, 0x03, 0x55, 0x1d, 0x13, 0x04, 0x02, 0x30, 0x00, 0x30, 0x0b, 0x06, 0x03, 0x55, 0x1d, 0x0f, 0x04,
    0x04, 0x03, 0x02, 0x04, 0xf0, 0x30, 0x21, 0x06, 0x0b, 0x2b, 0x06, 0x01, 0x04, 0x01, 0x82, 0xe5, 0x1c, 0x01, 0x01, 0x04, 0x04, 0x12, 0x04, 0x10,
    0xc3, 0x9e, 0xfb, 0xa6, 0xfc, 0xf4, 0x4c, 0x3e, 0x82, 0x8b, 0xfc, 0x4a, 0x61, 0x15, 0xa0, 0xff, 0x30, 0x0a, 0x06, 0x08, 0x2a, 0x86, 0x48, 0xce,
    0x3d, 0x04, 0x03, 0x02, 0x03, 0x48, 0x00, 0x30, 0x45, 0x02, 0x21, 0x00, 0x9f, 0x85, 0x42, 0x74, 0xd3, 0xe1, 0x23, 0xbf, 0x15, 0xdb, 0xeb, 0x41,
    0xb6, 0xe9, 0xdd, 0x43, 0xa3, 0x44, 0x75, 0xd3, 0xdd, 0x26, 0x9c, 0xb2, 0xf6, 0x09, 0x00, 0xec, 0x75, 0x87, 0x28, 0xbc, 0x02, 0x20, 0x01, 0xb2,
    0xb1, 0x64, 0x12, 0x05, 0xff, 0xf7, 0x96, 0xc6, 0x44, 0xbb, 0x26, 0x14, 0x64, 0x05, 0x5a, 0x5e, 0xdd, 0x34, 0x02, 0x34, 0xc5, 0x9f, 0x4e, 0x32,
    0x36, 0xaf, 0xb0, 0xe4, 0x6c, 0x03]"

definition solo_hacker_attestation_key_old :: bytes where
  "solo_hacker_attestation_key_old = [
    0xfc, 0x02, 0x52, 0xbe, 0x0c, 0xb6, 0x80, 0xc0, 0x4c, 0xc3, 0x45, 0xb9, 0x2b, 0x2e, 0x47, 0xe0, 0x8c, 0xde, 0x36, 0x03, 0xdf, 0x53, 0x8c, 0xb0,
    0xf9, 0x6f, 0xc3, 0xf2, 0x88, 0x50, 0x45, 0xf5]"

definition solo_hacker_attestation_key :: bytes where
  "solo_hacker_attestation_key = [
    0xdc, 0xc5, 0xce, 0x47, 0xac, 0xd6, 0x01, 0xa4, 0xab, 0x22, 0xe1, 0x30, 0x32, 0x42, 0x9d, 0xb1, 0xd5, 0x7c, 0xa1, 0x66, 0x9e, 0x40, 0xdb, 0xd7,
    0x6a, 0x5d, 0xf4, 0x7d, 0x53, 0x6e, 0x86, 0x85]"

definition global_aaguid :: bytes where
  "global_aaguid = [
    0xc3, 0x9e, 0xfb, 0xa6, 0xfc, 0xf4, 0x4c, 0x3e, 0x82, 0x8b, 0xfc, 0x4a, 0x61, 0x15, 0xa0, 0xff]"

subsection \<open>The page\<close>

text \<open>\<open>flash_attestation_page\<close>: 32 bytes of key, the settings, the size of the certificate, the certificate.\<close>

definition ATT_OFF :: nat where "ATT_OFF = ATTESTATION_PAGE * FLASH_PAGE_SIZE"
definition ATTESTATION_CONFIGURED_TAG :: u32 where "ATTESTATION_CONFIGURED_TAG = 0xaa551e79"
definition SOLO_FLAG_LOCKED :: u64 where "SOLO_FLAG_LOCKED = 0x2"

definition le64 :: "bytes \<Rightarrow> u64" where "le64 bs = foldr (\<lambda>b w. ucast b OR push_bit 8 w) bs 0"
definition le64_bytes :: "u64 \<Rightarrow> bytes" where "le64_bytes w = map (\<lambda>i. ucast (drop_bit (8 * i) w)) [0..<8]"

definition device_get_attestation_key :: "flash \<Rightarrow> bytes" where
  "device_get_attestation_key f = flash_read f ATT_OFF 32"

definition device_settings :: "flash \<Rightarrow> u64" where
  "device_settings f = le64 (flash_read f (ATT_OFF + 32) 8)"

definition device_attestation_cert_der_get_size :: "flash \<Rightarrow> u16" where
  "device_attestation_cert_der_get_size f = ucast (le64 (flash_read f (ATT_OFF + 40) 8))"

definition device_attestation_read_cert_der :: "flash \<Rightarrow> bytes" where
  "device_attestation_read_cert_der f = flash_read f (ATT_OFF + 48) (unat (device_attestation_cert_der_get_size f))"

definition device_read_aaguid :: bytes where "device_read_aaguid = take 16 global_aaguid"

subsection \<open>Lock and migration\<close>

definition solo_is_locked :: "flash \<Rightarrow> bool" where
  "solo_is_locked f \<longleftrightarrow>
     (ucast (drop_bit 32 (device_settings f)) :: u32) = ATTESTATION_CONFIGURED_TAG \<and> device_settings f AND SOLO_FLAG_LOCKED \<noteq> 0"

definition solo_lock_if_not_already :: "prog_fn \<Rightarrow> flash \<Rightarrow> flash" where
  "solo_lock_if_not_already prog f =
     (let buf = flash_read f ATT_OFF FLASH_PAGE_SIZE;
          buf = blit buf 32 (le64_bytes (le64 (block buf 32 8) OR SOLO_FLAG_LOCKED))
      in flash_write prog ATT_OFF buf (flash_erase_page ATTESTATION_PAGE f))"

text \<open>\<open>device_migrate\<close> as its operations on the flash; \<open>optr\<close> is the register of the option bytes.\<close>

definition device_migrate_ops :: "u32 \<Rightarrow> flash \<Rightarrow> flash_op list" where
  "device_migrate_ops optr f =
     (let configure_tag = (ucast (drop_bit 32 (device_settings f)) :: u32) in
      if configure_tag \<noteq> ATTESTATION_CONFIGURED_TAG
         \<or> of_nat (length attestation_solo_cert_der) \<noteq> device_attestation_cert_der_get_size f
      then
        let settings = push_bit 32 (ucast ATTESTATION_CONFIGURED_TAG);
            settings = (if optr AND 0xff \<noteq> 0xAA then settings OR SOLO_FLAG_LOCKED else settings);
            key = flash_read f ATT_OFF 32;
            shipped = (key = solo_hacker_attestation_key \<or> key = solo_hacker_attestation_key_old);
            cert = (if shipped then attestation_hacker_cert_der else attestation_solo_cert_der)
        in [FErase ATTESTATION_PAGE, FProgram (ATT_OFF + 40) (le64_bytes (of_nat (length cert)))]
           @ flash_write_ops (ATT_OFF + 48) cert
           @ flash_write_ops ATT_OFF (if shipped then solo_hacker_attestation_key else key)
           @ [FProgram (ATT_OFF + 32) (le64_bytes settings)]
      else [])"

definition device_migrate :: "prog_fn \<Rightarrow> u32 \<Rightarrow> flash \<Rightarrow> flash" where
  "device_migrate prog optr f = flash_run prog (device_migrate_ops optr f) f"

text \<open>\<open>flash_option_bytes_init\<close>: the new content of the register; it is written only when it differs. Built without test mode.\<close>

definition flash_option_bytes_init :: "bool \<Rightarrow> flash \<Rightarrow> u32 \<Rightarrow> u32" where
  "flash_option_bytes_init boot_from_dfu f optr =
     (let val = (if \<not> boot_from_dfu \<and> solo_is_locked f then 0xfffff8cc else 0xfffff8aa);
          val = val AND NOT (push_bit 26 1);
          val = val AND NOT (push_bit 25 1);
          val = val AND NOT (push_bit 24 1)
      in if optr = val then optr else val)"

text \<open>The settings over the life of the device: its starts (\<open>device_init\<close>) and the lock requests.\<close>

datatype settings_op = DeviceStart | LockRequest

fun settings_step :: "prog_fn \<Rightarrow> settings_op \<Rightarrow> flash \<times> u32 \<Rightarrow> flash \<times> u32" where
  "settings_step prog DeviceStart (f, optr) = (let f = device_migrate prog optr f in (f, flash_option_bytes_init False f optr))"
| "settings_step prog LockRequest (f, optr) = (solo_lock_if_not_already prog f, optr)"

lemma att_off: "ATT_OFF = 231424" "FLASH_PAGE_SIZE = 2048"
  by (simp_all add: ATT_OFF_def page_defs)

lemma shipped_lengths: "length attestation_solo_cert_der = 630" "length attestation_hacker_cert_der = 630"
  "length solo_hacker_attestation_key = 32"
  by (simp_all add: attestation_solo_cert_der_def attestation_hacker_cert_der_def solo_hacker_attestation_key_def)

lemma le64_part: "le64 (map (\<lambda>i. ucast (drop_bit (8 * i) w)) [k..<k + n]) = take_bit (8 * n) (drop_bit (8 * k) w)"
proof (induction n arbitrary: k)
  case (Suc n)
  have "[k..<k + Suc n] = k # [Suc k..<Suc k + n]" by (simp add: upt_conv_Cons)
  then have "le64 (map (\<lambda>i. ucast (drop_bit (8 * i) w)) [k..<k + Suc n])
      = ucast (ucast (drop_bit (8 * k) w) :: u8) OR push_bit 8 (le64 (map (\<lambda>i. ucast (drop_bit (8 * i) w)) [Suc k..<Suc k + n]))"
    by (simp add: le64_def)
  also have "\<dots> = take_bit (8 * Suc n) (drop_bit (8 * k) w)"
    unfolding Suc.IH by (rule bit_word_eqI) (auto simp: bit_simps)
  finally show ?case .
qed (simp add: le64_def)

lemma le64_roundtrip [simp]: "le64 (le64_bytes w) = w"
  using le64_part[of w 0 8] by (simp add: le64_bytes_def take_bit_word_eq_self)

lemma length_le64_bytes [simp]: "length (le64_bytes w) = 8"
  by (simp add: le64_bytes_def)

end
