(* ===== verification/SettingsClaims.thy ===== *)
theory SettingsClaims
  imports DeviceSettings
begin

text \<open>
  Every start leaves the device with its certificate and its attestation key, and a lock, once set, stays and brings the read-out protection with
  the next start.
\<close>

subsection \<open>The page after the operations\<close>

definition att_page :: "flash \<Rightarrow> bytes" where "att_page f = flash_read f ATT_OFF FLASH_PAGE_SIZE"

lemma att_read: "k + n \<le> FLASH_PAGE_SIZE \<Longrightarrow> flash_read f (ATT_OFF + k) n = block (att_page f) k n"
  by (intro nth_equalityI) (auto simp: flash_read_nth nth_block att_page_def add.assoc)

lemma att_read_0: "n \<le> FLASH_PAGE_SIZE \<Longrightarrow> flash_read f ATT_OFF n = block (att_page f) 0 n"
  using att_read[of 0 n f] by simp

lemma length_att_page [simp]: "length (att_page f) = FLASH_PAGE_SIZE"
  by (simp add: att_page_def)

lemma att_aligned: "(ATT_OFF + 8 * k) mod 8 = 0" "ATT_OFF mod 8 = 0"
proof -
  have "ATT_OFF = 8 * 28928" by (simp add: att_off)
  then show "(ATT_OFF + 8 * k) mod 8 = 0" "ATT_OFF mod 8 = 0" by (metis add_mult_distrib2 mod_mult_self1_is_0)+
qed

text \<open>A double word and a buffer programmed into an erased place.\<close>

lemma put_dword:
  "prog_ok prog \<Longrightarrow> erased f a 8 \<Longrightarrow> length d = 8 \<Longrightarrow> flash_exec prog (FProgram a d) f = (\<lambda>x. if a \<le> x \<and> x < a + 8 then d ! (x - a) else f x)"
  by (simp add: write_dword_erased)

lemma put_bytes:
  assumes "prog_ok prog" "a mod 8 = 0" "erased f a n" "length data \<le> n" "n mod 8 = 0"
  shows "flash_run prog (flash_write_ops a data) f = (\<lambda>x. if a \<le> x \<and> x < a + length data then data ! (x - a) else f x)"
  using flash_write_erased[OF assms] by (simp add: flash_write_def)

definition migrated_page :: "bytes \<Rightarrow> u64 \<Rightarrow> bytes \<Rightarrow> bytes" where
  "migrated_page key settings cert =
     key @ le64_bytes settings @ le64_bytes (of_nat (length cert)) @ cert @ replicate (2000 - length cert) 0xff"

lemma migration_flash:
  assumes "prog_ok prog" "length cert = 630" "length key = 32"
  shows "flash_run prog ([FErase ATTESTATION_PAGE, FProgram (ATT_OFF + 40) (le64_bytes (of_nat (length cert)))]
           @ flash_write_ops (ATT_OFF + 48) cert @ flash_write_ops ATT_OFF key @ [FProgram (ATT_OFF + 32) (le64_bytes settings)]) f
    = (\<lambda>x. if ATT_OFF \<le> x \<and> x < ATT_OFF + FLASH_PAGE_SIZE then migrated_page key settings cert ! (x - ATT_OFF) else f x)"
proof -
  define f1 where "f1 = flash_erase_page ATTESTATION_PAGE f"
  have f1: "f1 x = (if ATT_OFF \<le> x \<and> x < ATT_OFF + FLASH_PAGE_SIZE then 0xff else f x)" for x
  proof -
    have "x div FLASH_PAGE_SIZE = ATTESTATION_PAGE \<longleftrightarrow> 113 \<le> x div 2048 \<and> x div 2048 < 114" by (auto simp: page_defs)
    also have "\<dots> \<longleftrightarrow> ATT_OFF \<le> x \<and> x < ATT_OFF + FLASH_PAGE_SIZE"
      by (simp add: att_off less_eq_div_iff_mult_less_eq div_less_iff_less_mult)
    finally show ?thesis by (simp add: f1_def flash_erase_page_def)
  qed
  define f2 where "f2 = (\<lambda>x. if ATT_OFF + 40 \<le> x \<and> x < ATT_OFF + 40 + 8 then le64_bytes (of_nat (length cert)) ! (x - (ATT_OFF + 40)) else f1 x)"
  have r2: "flash_exec prog (FProgram (ATT_OFF + 40) (le64_bytes (of_nat (length cert)))) f1 = f2"
    unfolding f2_def by (rule put_dword[OF assms(1)]) (auto simp: erased_def f1 att_off)
  define f3 where "f3 = (\<lambda>x. if ATT_OFF + 48 \<le> x \<and> x < ATT_OFF + 48 + length cert then cert ! (x - (ATT_OFF + 48)) else f2 x)"
  have r3: "flash_run prog (flash_write_ops (ATT_OFF + 48) cert) f2 = f3"
    unfolding f3_def by (rule put_bytes[OF assms(1), where n = 2000]) (use att_aligned(1)[of 6] in \<open>auto simp: erased_def f1 f2_def att_off assms(2)\<close>)
  define f4 where "f4 = (\<lambda>x. if ATT_OFF \<le> x \<and> x < ATT_OFF + length key then key ! (x - ATT_OFF) else f3 x)"
  have r4: "flash_run prog (flash_write_ops ATT_OFF key) f3 = f4"
    unfolding f4_def by (rule put_bytes[OF assms(1), where n = 32]) (auto simp: erased_def f1 f2_def f3_def att_off assms(2,3))
  have r5: "flash_exec prog (FProgram (ATT_OFF + 32) (le64_bytes settings)) f4
      = (\<lambda>x. if ATT_OFF + 32 \<le> x \<and> x < ATT_OFF + 32 + 8 then le64_bytes settings ! (x - (ATT_OFF + 32)) else f4 x)"
    by (rule put_dword[OF assms(1)]) (auto simp: erased_def f1 f2_def f3_def f4_def att_off assms(2,3))
  have "flash_run prog ([FErase ATTESTATION_PAGE, FProgram (ATT_OFF + 40) (le64_bytes (of_nat (length cert)))]
           @ flash_write_ops (ATT_OFF + 48) cert @ flash_write_ops ATT_OFF key @ [FProgram (ATT_OFF + 32) (le64_bytes settings)]) f
      = (\<lambda>x. if ATT_OFF + 32 \<le> x \<and> x < ATT_OFF + 32 + 8 then le64_bytes settings ! (x - (ATT_OFF + 32)) else f4 x)"
    using r2 r3 r4 r5 by (simp add: f1_def del: flash_exec.simps(2))
  also have "\<dots> = (\<lambda>x. if ATT_OFF \<le> x \<and> x < ATT_OFF + FLASH_PAGE_SIZE then migrated_page key settings cert ! (x - ATT_OFF) else f x)"
  proof (rule ext)
    fix x
    let ?new = "\<lambda>x. if ATT_OFF + 32 \<le> x \<and> x < ATT_OFF + 32 + 8 then le64_bytes settings ! (x - (ATT_OFF + 32)) else f4 x"
    note d = f4_def f3_def f2_def f1 migrated_page_def nth_append assms(2,3)
    show "?new x = (if ATT_OFF \<le> x \<and> x < ATT_OFF + FLASH_PAGE_SIZE then migrated_page key settings cert ! (x - ATT_OFF) else f x)"
    proof (cases "ATT_OFF \<le> x")
      case True
      then obtain i where i: "x = ATT_OFF + i" using le_Suc_ex by blast
      consider "i < 32" | "32 \<le> i" "i < 40" | "40 \<le> i" "i < 48" | "48 \<le> i" "i < 678" | "678 \<le> i" by linarith
      then show ?thesis unfolding i by cases (auto simp: d att_off(2))
    qed (simp add: d)
  qed
  finally show ?thesis .
qed

lemma migrated_att_page:
  assumes "f = (\<lambda>x. if ATT_OFF \<le> x \<and> x < ATT_OFF + FLASH_PAGE_SIZE then migrated_page key settings cert ! (x - ATT_OFF) else g x)"
    and "length key = 32" "length cert = 630"
  shows "att_page f = migrated_page key settings cert"
  using assms(2,3) by (intro nth_equalityI) (auto simp: att_page_def flash_read_nth assms(1) migrated_page_def att_off)
subsection \<open>What the page says\<close>

lemma page_getters:
  "device_get_attestation_key f = block (att_page f) 0 32" "device_settings f = le64 (block (att_page f) 32 8)"
  "device_attestation_cert_der_get_size f = ucast (le64 (block (att_page f) 40 8))"
  by (simp_all add: device_get_attestation_key_def device_settings_def device_attestation_cert_der_get_size_def att_read att_read_0 att_off(2))

definition provisioned :: "flash \<Rightarrow> bool" where
  "provisioned f \<longleftrightarrow>
     (ucast (drop_bit 32 (device_settings f)) :: u32) = ATTESTATION_CONFIGURED_TAG \<and> device_attestation_cert_der_get_size f = 630"

lemma migrate_done: "provisioned f \<Longrightarrow> device_migrate prog optr f = f"
  by (simp add: provisioned_def device_migrate_def device_migrate_ops_def shipped_lengths)

lemma block_parts:
  assumes "length key = 32" "length cert = 630"
  shows "block (migrated_page key s cert) 0 32 = key" "block (migrated_page key s cert) 32 8 = le64_bytes s"
    "block (migrated_page key s cert) 40 8 = le64_bytes 630" "block (migrated_page key s cert) 48 630 = cert"
  using assms by (simp_all add: block_def migrated_page_def)

definition start_settings :: "u32 \<Rightarrow> u64" where
  "start_settings optr = (if optr AND 0xff \<noteq> 0xAA then 0xaa551e7900000002 else 0xaa551e7900000000)"

definition same_elsewhere :: "flash \<Rightarrow> flash \<Rightarrow> bool" where
  "same_elsewhere f g \<longleftrightarrow> (\<forall>x. x < ATT_OFF \<or> ATT_OFF + FLASH_PAGE_SIZE \<le> x \<longrightarrow> g x = f x)"

definition shipped_key :: "bytes \<Rightarrow> bool" where
  "shipped_key key \<longleftrightarrow> key = solo_hacker_attestation_key \<or> key = solo_hacker_attestation_key_old"

lemma migrate_needed:
  assumes "prog_ok prog" "\<not> provisioned f"
  defines "key \<equiv> device_get_attestation_key f"
  shows "provisioned (device_migrate prog optr f)"
    and "device_get_attestation_key (device_migrate prog optr f) = (if shipped_key key then solo_hacker_attestation_key else key)"
    and "device_attestation_read_cert_der (device_migrate prog optr f)
      = (if shipped_key key then attestation_hacker_cert_der else attestation_solo_cert_der)"
    and "solo_is_locked (device_migrate prog optr f) \<longleftrightarrow> optr AND 0xff \<noteq> 0xAA"
    and "same_elsewhere f (device_migrate prog optr f)"
proof -
  let ?cert = "if shipped_key key then attestation_hacker_cert_der else attestation_solo_cert_der"
  let ?key = "if shipped_key key then solo_hacker_attestation_key else key"
  let ?f = "device_migrate prog optr f" and ?s = "start_settings optr"
  have l: "length ?cert = 630" "length ?key = 32"
    by (simp_all add: shipped_lengths key_def device_get_attestation_key_def)
  have s: "(if optr AND 0xff \<noteq> 0xAA then push_bit 32 (ucast ATTESTATION_CONFIGURED_TAG) OR SOLO_FLAG_LOCKED else push_bit 32 (ucast ATTESTATION_CONFIGURED_TAG)) = ?s"
    by (simp add: start_settings_def ATTESTATION_CONFIGURED_TAG_def SOLO_FLAG_LOCKED_def)
  have need: "((ucast (drop_bit 32 (device_settings f)) :: u32) \<noteq> ATTESTATION_CONFIGURED_TAG
      \<or> of_nat (length attestation_solo_cert_der) \<noteq> device_attestation_cert_der_get_size f) = True"
    using assms(2) by (auto simp: provisioned_def shipped_lengths)
  have ops: "device_migrate_ops optr f = [FErase ATTESTATION_PAGE, FProgram (ATT_OFF + 40) (le64_bytes (of_nat (length ?cert)))]
      @ flash_write_ops (ATT_OFF + 48) ?cert @ flash_write_ops ATT_OFF ?key @ [FProgram (ATT_OFF + 32) (le64_bytes ?s)]"
    unfolding device_migrate_ops_def Let_def need if_True s
    by (simp only: shipped_key_def key_def device_get_attestation_key_def)
  note run = migration_flash[OF assms(1) l, of ?s f, folded ops device_migrate_def]
  have page: "att_page ?f = migrated_page ?key ?s ?cert" by (rule migrated_att_page[OF run l(2,1)])
  note g = page_getters[of ?f, unfolded page block_parts[OF l(2,1)] le64_roundtrip]
  show k: "device_get_attestation_key ?f = ?key" by (rule g(1))
  show "provisioned ?f" unfolding provisioned_def g(2,3) by (simp add: start_settings_def ATTESTATION_CONFIGURED_TAG_def)
  have "device_attestation_read_cert_der ?f = block (att_page ?f) 48 630"
    using g(3) by (simp add: device_attestation_read_cert_der_def att_read att_off(2))
  then show "device_attestation_read_cert_der ?f = ?cert" unfolding page block_parts(4)[OF l(2,1)] .
  show "solo_is_locked ?f \<longleftrightarrow> optr AND 0xff \<noteq> 0xAA"
    unfolding solo_is_locked_def g(2) by (simp add: start_settings_def ATTESTATION_CONFIGURED_TAG_def SOLO_FLAG_LOCKED_def)
  show "same_elsewhere f ?f" unfolding run by (auto simp: same_elsewhere_def)
qed

lemma lock_page:
  assumes "prog_ok prog"
  shows "att_page (solo_lock_if_not_already prog f) = blit (att_page f) 32 (le64_bytes (device_settings f OR SOLO_FLAG_LOCKED))"
    and "same_elsewhere f (solo_lock_if_not_already prog f)"
proof -
  let ?buf = "blit (att_page f) 32 (le64_bytes (device_settings f OR SOLO_FLAG_LOCKED))"
  have l: "length ?buf = FLASH_PAGE_SIZE" by (simp add: att_off(2))
  have e: "solo_lock_if_not_already prog f = flash_write prog (flash_addr ATTESTATION_PAGE) ?buf (flash_erase_page ATTESTATION_PAGE f)"
    unfolding solo_lock_if_not_already_def Let_def page_getters(2) att_page_def by (simp add: flash_addr_def ATT_OFF_def)
  have p: "flash_addr ATTESTATION_PAGE = ATT_OFF" by (simp add: flash_addr_def ATT_OFF_def)
  note w = page_store.rewrite_read[OF flash_page_store[OF assms], of ?buf ATTESTATION_PAGE f]
  show "att_page (solo_lock_if_not_already prog f) = ?buf" using w l e p by (simp add: att_page_def)
  show "same_elsewhere f (solo_lock_if_not_already prog f)"
    unfolding same_elsewhere_def
  proof (intro allI impI)
    fix x assume x: "x < ATT_OFF \<or> ATT_OFF + FLASH_PAGE_SIZE \<le> x"
    have "x + 1 \<le> flash_addr ATTESTATION_PAGE \<or> flash_addr (Suc ATTESTATION_PAGE) \<le> x" using x by (auto simp: flash_addr_def ATT_OFF_def)
    from page_store.rewrite_frame[OF flash_page_store[OF assms] _ this, of ?buf f] l
    have "flash_read (solo_lock_if_not_already prog f) x 1 = flash_read f x 1" unfolding e by simp
    then show "solo_lock_if_not_already prog f x = f x" by (simp add: flash_read_def)
  qed
qed

lemma lock_request:
  assumes "prog_ok prog" "provisioned f"
  shows "provisioned (solo_lock_if_not_already prog f)" "solo_is_locked (solo_lock_if_not_already prog f)"
    and "device_get_attestation_key (solo_lock_if_not_already prog f) = device_get_attestation_key f"
proof -
  let ?f = "solo_lock_if_not_already prog f" and ?s = "device_settings f OR SOLO_FLAG_LOCKED"
  note p = lock_page(1)[OF assms(1), of f]
  have b: "block (att_page ?f) 0 32 = block (att_page f) 0 32" "block (att_page ?f) 40 8 = block (att_page f) 40 8"
      "block (att_page ?f) 32 8 = le64_bytes ?s"
    unfolding p using length_att_page[of f] by (simp_all add: block_def blit_def att_off(2))
  show "device_get_attestation_key ?f = device_get_attestation_key f" by (simp add: page_getters(1) b)
  have s: "device_settings ?f = ?s" by (simp add: page_getters(2) b)
  have "(drop_bit 32 ?s :: u64) = drop_bit 32 (device_settings f)" by (simp add: SOLO_FLAG_LOCKED_def)
  then have t: "(ucast (drop_bit 32 (device_settings ?f)) :: u32) = ATTESTATION_CONFIGURED_TAG" using assms(2) s by (simp add: provisioned_def)
  show "provisioned ?f" using t assms(2) by (simp add: provisioned_def page_getters(3) b)
  have "?s AND SOLO_FLAG_LOCKED = SOLO_FLAG_LOCKED" by (rule bit_word_eqI) (auto simp: bit_simps)
  then show "solo_is_locked ?f" using t s by (simp add: solo_is_locked_def SOLO_FLAG_LOCKED_def)
qed

lemma option_bytes: "flash_option_bytes_init False f optr = (if solo_is_locked f then 0xf8fff8cc else 0xf8fff8aa)"
  by (simp add: flash_option_bytes_init_def Let_def)
subsection \<open>The life of a device\<close>

definition settings_run :: "prog_fn \<Rightarrow> settings_op list \<Rightarrow> flash \<times> u32 \<Rightarrow> flash \<times> u32" where
  "settings_run prog ops s = fold (settings_step prog) ops s"

lemma elsewhere_trans: "same_elsewhere f g \<Longrightarrow> same_elsewhere g h \<Longrightarrow> same_elsewhere f h"
  by (simp add: same_elsewhere_def)

lemma step_provisioned:
  assumes "prog_ok prog" "provisioned f" "settings_step prog op (f, optr) = (f', optr')"
  shows "provisioned f'" "device_get_attestation_key f' = device_get_attestation_key f" "solo_is_locked f \<or> op = LockRequest \<Longrightarrow> solo_is_locked f'"
    "same_elsewhere f f'"
  using assms lock_request[OF assms(1,2)] lock_page(2)[OF assms(1)]
  by (cases op; auto simp: migrate_done Let_def same_elsewhere_def)+

lemma run_provisioned:
  assumes "prog_ok prog"
  shows "\<lbrakk>provisioned f; settings_run prog ops (f, optr) = (f', optr')\<rbrakk> \<Longrightarrow> provisioned f'
    \<and> device_get_attestation_key f' = device_get_attestation_key f \<and> (solo_is_locked f \<or> LockRequest \<in> set ops \<longrightarrow> solo_is_locked f') \<and> same_elsewhere f f'"
proof (induction ops arbitrary: f optr)
  case (Cons op ops)
  obtain g o1 where s: "settings_step prog op (f, optr) = (g, o1)" by (cases "settings_step prog op (f, optr)")
  note st = step_provisioned[OF assms Cons.prems(1) s]
  have "settings_run prog ops (g, o1) = (f', optr')" using Cons.prems(2) s by (simp add: settings_run_def)
  from Cons.IH[OF st(1) this] st show ?case by (auto intro: elsewhere_trans)
qed (simp add: settings_run_def same_elsewhere_def)

text \<open>C40 (invariant). From the first start on, over any starts and lock requests: the device is provisioned, its attestation key is the one it had, unless that is
  a key shipped with the sources, then it is the current one of these; nothing but the attestation page changes. A lock that was set before the first start, by
  the read-out protection it was found with or by a request, stays, and every start brings the protection level 2 then.\<close>

theorem settings_history:
  assumes "prog_ok prog" "settings_run prog (DeviceStart # ops) (f0, o0) = (f, optr)"
  shows "provisioned f \<and> same_elsewhere f0 f
    \<and> (device_get_attestation_key f = device_get_attestation_key f0
       \<or> shipped_key (device_get_attestation_key f0) \<and> device_get_attestation_key f = solo_hacker_attestation_key)
    \<and> (LockRequest \<in> set ops \<or> (if provisioned f0 then solo_is_locked f0 else o0 AND 0xff \<noteq> 0xAA)
       \<longrightarrow> solo_is_locked f \<and> snd (settings_step prog DeviceStart (f, optr)) = 0xf8fff8cc)"
proof -
  let ?f1 = "device_migrate prog o0 f0"
  have p: "provisioned ?f1" using migrate_needed(1)[OF assms(1)] by (cases "provisioned f0") (simp_all add: migrate_done)
  have "settings_run prog ops (?f1, flash_option_bytes_init False ?f1 o0) = (f, optr)"
    using assms(2) by (simp add: settings_run_def Let_def)
  note r = run_provisioned[OF assms(1) p this]
  have k: "device_get_attestation_key ?f1 = device_get_attestation_key f0
      \<or> shipped_key (device_get_attestation_key f0) \<and> device_get_attestation_key ?f1 = solo_hacker_attestation_key"
    using migrate_needed(2)[OF assms(1)] by (cases "provisioned f0") (auto simp: migrate_done)
  have e: "same_elsewhere f0 ?f1" using migrate_needed(5)[OF assms(1)] by (cases "provisioned f0") (auto simp: migrate_done same_elsewhere_def)
  have l: "(if provisioned f0 then solo_is_locked f0 else o0 AND 0xff \<noteq> 0xAA) \<Longrightarrow> solo_is_locked ?f1"
    using migrate_needed(4)[OF assms(1)] by (cases "provisioned f0") (auto simp: migrate_done)
  have "solo_is_locked f \<Longrightarrow> snd (settings_step prog DeviceStart (f, optr)) = 0xf8fff8cc"
    using r by (simp add: migrate_done Let_def option_bytes)
  with r k l elsewhere_trans[OF e] show ?thesis by auto
qed

text \<open>A device that comes from production with its read-out protection set and an empty page.\<close>

theorem settings_history_witness:
  "let f = fst (settings_run stm_prog [DeviceStart, LockRequest, DeviceStart] (\<lambda>_. 0xff, 0xfffff8bb)) in provisioned f \<and> solo_is_locked f"
proof -
  obtain f optr where r: "settings_run stm_prog (DeviceStart # [LockRequest, DeviceStart]) (\<lambda>_. 0xff, 0xfffff8bb) = (f, optr)"
    by (cases "settings_run stm_prog (DeviceStart # [LockRequest, DeviceStart]) (\<lambda>_. 0xff, 0xfffff8bb)")
  then show ?thesis using settings_history[OF stm_prog_ok r] by (simp add: Let_def)
qed

text \<open>The migration erases the page before it writes the key back: cut off in between, the key is gone, and the next start takes the erased bytes for it.\<close>

lemma cut_migration_loses_key:
  assumes "prog_ok prog" "\<not> provisioned f"
  shows "device_get_attestation_key (device_migrate prog optr (flash_run prog (take 1 (device_migrate_ops optr' f)) f)) = replicate 32 0xff"
proof -
  let ?g = "flash_erase_page ATTESTATION_PAGE f"
  have "hd (device_migrate_ops optr' f) = FErase ATTESTATION_PAGE" "device_migrate_ops optr' f \<noteq> []"
    using assms(2) by (auto simp: device_migrate_ops_def provisioned_def shipped_lengths Let_def)
  then have t: "flash_run prog (take 1 (device_migrate_ops optr' f)) f = ?g" by (cases "device_migrate_ops optr' f") auto
  have e: "erased ?g ATT_OFF FLASH_PAGE_SIZE" using erase_page_erased[of ATTESTATION_PAGE f] by (simp add: ATT_OFF_def flash_addr_def)
  have pg: "att_page ?g = replicate FLASH_PAGE_SIZE 0xff"
    using e by (intro nth_equalityI) (auto simp: att_page_def flash_read_nth erased_def)
  have key: "device_get_attestation_key ?g = replicate 32 0xff" unfolding page_getters(1) pg by (simp add: block_def att_off(2))
  have "replicate 8 (0xff :: u8) = [0xff, 0xff, 0xff, 0xff, 0xff, 0xff, 0xff, 0xff]" by (simp add: numeral_eq_Suc)
  then have "le64 (replicate 8 0xff) = 0xffffffffffffffff" by (simp add: le64_def)
  then have "device_attestation_cert_der_get_size ?g \<noteq> 630" unfolding page_getters(3) pg by (simp add: block_def att_off(2))
  then have n: "\<not> provisioned ?g" by (simp add: provisioned_def)
  have "shipped_key k \<Longrightarrow> k ! 0 \<noteq> 0xff" for k
    by (auto simp: shipped_key_def solo_hacker_attestation_key_def solo_hacker_attestation_key_old_def)
  from this[of "replicate 32 0xff"] have s: "\<not> shipped_key (replicate 32 0xff)" by auto
  show ?thesis unfolding t migrate_needed(2)[OF assms(1) n] key using s by simp
qed

text \<open>A lock request does not outlive an update to a firmware with a certificate of another size before the next start: the migration takes the lock from the option
  bytes, which the start has not set yet.\<close>

lemma lock_lost_by_migration:
  assumes "prog_ok prog" "device_attestation_cert_der_get_size f \<noteq> 630"
  shows "\<not> solo_is_locked (device_migrate prog 0xf8fff8aa f)"
  using migrate_needed(4)[OF assms(1), of f "0xf8fff8aa"] assms(2) by (simp add: provisioned_def)

end
