(* ===== verification/UsbProps.thy ===== *)
theory UsbProps
  imports HidProps
begin

text \<open>
  What holds of the application behind the USB transport whatever reports arrive: the transport itself never touches its state, so a property that
  every call of the application keeps is kept by any traffic, over any nesting of reports handled during a request.
\<close>

subsection \<open>The transport leaves the application alone\<close>

lemma table_app [simp]: "h_app (snd (add_cid c now h)) = h_app h" "h_app (snd (cid_refresh c now h)) = h_app h" "h_app (snd (cid_del c h)) = h_app h"
  by (simp_all add: add_cid_def cid_refresh_def cid_del_def on_table_def split_beta)

lemma message_app [simp]: "h_app (buffer_reset h) = h_app h" "h_app (send_reports rs h) = h_app h" "h_app (ctaphid_send_error c e h) = h_app h"
  "h_app (send_init_response o1 c n h) = h_app h" "h_app (snd (get_new_cid h)) = h_app h" "h_app (ctaphid_init h) = h_app h"
  by (simp_all add: buffer_reset_def send_reports_def ctaphid_send_error_def send_init_response_def get_new_cid_def Let_def ctaphid_init_def)

lemma writer_app [simp]: "h_app (wb_write d h) = h_app h" "h_app (wb_flush h) = h_app h" "h_app (wb_set_bcnt n h) = h_app h" "h_app (emit e h) = h_app h"
  by (simp_all add: wb_write_def wb_flush_def wb_set_bcnt_def emit_def split_beta)

lemma packet_app [simp]: "h_app (snd (buffer_packet p h)) = h_app h"
  by (simp add: buffer_packet_def Let_def)

lemma buffer_init_app: "ctaphid_buffer_init now p h = (st, cmd, len, h') \<Longrightarrow> h_app h' = h_app h"
  by (auto simp: ctaphid_buffer_init_def Let_def split_beta split: if_splits)

lemma buffer_app: "ctaphid_buffer_packet now p h = Inr (st, cmd, len, h') \<Longrightarrow> h_app h' = h_app h"
  by (auto simp: ctaphid_buffer_packet_def ctaphid_buffer_data_def Let_def split_beta dest: buffer_init_app split: if_splits)

lemma handle_done_app: "handle_done cid cmd h = Inr (r, h') \<Longrightarrow> h_app h' = h_app h"
  by (auto simp: handle_done_def Let_def)

text \<open>The running of an action keeps \<open>I\<close> of the application.\<close>

definition app_keeps :: "('a \<Rightarrow> bool) \<Rightarrow> hid_stop + ('r \<times> 'a hid) \<Rightarrow> bool" where
  "app_keeps I m \<longleftrightarrow> (case m of Inl e \<Rightarrow> True | Inr (r, h) \<Rightarrow> I (h_app h))"

lemma app_keeps_simps [simp]: "app_keeps I (Inl e)" "app_keeps I (Inr (r, h)) \<longleftrightarrow> I (h_app h)"
  by (simp_all add: app_keeps_def)

lemma app_keeps_seq: "app_keeps I m \<Longrightarrow> (\<And>r h. I (h_app h) \<Longrightarrow> app_keeps J (f (r, h))) \<Longrightarrow> app_keeps J (seqE m f)"
  by (cases m) auto

locale app_inv =
  fixes app :: "'a hid_app" and I :: "'a \<Rightarrow> bool"
  assumes cbor_keeps: "I a \<Longrightarrow> ap_cbor app a req = (ps, st, resp, a') \<Longrightarrow> I a'"
    and msg_keeps: "I a \<Longrightarrow> ap_msg app a req' = (ps, resp, a') \<Longrightarrow> I a'"
    and up_keeps: "I a \<Longrightarrow> ap_up app a = (evs, a') \<Longrightarrow> I a'"
    and rng_keeps: "I a \<Longrightarrow> ap_rng app a k = (rnd, a') \<Longrightarrow> I a'"
    and lock_keeps: "I a \<Longrightarrow> I (ap_lock app a)"

context app_inv
begin

definition handler_keeps :: "'a handler \<Rightarrow> bool" where
  "handler_keeps sub \<longleftrightarrow> (\<forall>p h. I (h_app h) \<longrightarrow> app_keeps I (sub p h))"

lemma packets: "handler_keeps sub \<Longrightarrow> I (h_app h) \<Longrightarrow> run_packets sub ps h = Inr h' \<Longrightarrow> I (h_app h')"
proof (induction ps arbitrary: h)
  case (Cons p ps)
  then have "app_keeps I (sub p h)" by (simp add: handler_keeps_def)
  with Cons show ?case by (cases "sub p h") auto
qed simp

lemma waiting: "handler_keeps sub \<Longrightarrow> I (h_app h) \<Longrightarrow> app_keeps I (up_wait sub evs h)"
proof (induction evs arbitrary: h)
  case (Cons ev evs)
  have "app_keeps I (handle_packets sub (snd ev) h)"
    using Cons.prems by (auto simp: handle_packets_def handler_keeps_def split: option.splits intro!: app_keeps_seq[where I = I])
  then show ?case using Cons by (auto intro!: app_keeps_seq[where I = I])
qed simp

lemma touch: "handler_keeps sub \<Longrightarrow> I (h_app h) \<Longrightarrow> app_keeps I (ctap_user_presence_test_config app sub h)"
  by (cases "ap_up app (h_app h)") (auto simp: ctap_user_presence_test_config_def split: option.splits intro!: waiting dest: up_keeps)

lemma custom:
  assumes "handler_keeps sub" "I (h_app h)"
  shows "app_keeps I (ctaphid_custom_command app sub h)"
proof -
  obtain rnd a where r: "ap_rng app (h_app h) (if h_buf h ! 0 = 0 then 57 else unat (h_buf h ! 0)) = (rnd, a)" by fastforce
  note i = rng_keeps[OF assms(2) r] assms(2) lock_keeps[OF assms(2)]
  have e: "app_keeps I (seqE (ctap_user_presence_test_config app sub h) (\<lambda>(r, h).
      if r \<noteq> 0 then Inr (True, wb_flush (wb_set_bcnt 0 (emit EnterBoot h))) else Inr (False, h)))"
    by (rule app_keeps_seq[OF touch[OF assms]]) simp
  have b: "app_keeps I (seqE (ctap_user_presence_test_config app sub h) (\<lambda>(r, h).
      if r \<noteq> 0 then Inr (True, emit Reboot h) else Inr (True, wb_flush (wb_set_bcnt 0 h))))"
    by (rule app_keeps_seq[OF touch[OF assms]]) simp
  show ?thesis unfolding ctaphid_custom_command_def Let_def r prod.case using e b i by simp
qed

lemma cbor:
  assumes "handler_keeps sub" "I (h_app h)"
  shows "app_keeps I (run_cbor app sub cid cmd len h)"
proof -
  obtain ps st resp a where e: "ap_cbor app (h_app h) (take (nat len) (h_buf h)) = (ps, st, resp, a)" by (metis prod_cases4)
  have "I a" by (rule cbor_keeps[OF assms(2) e])
  with packets[OF assms(1), of "h\<lparr>h_app := a\<rparr>" ps] show ?thesis
    by (cases "run_packets sub ps (h\<lparr>h_app := a\<rparr>)") (auto simp: run_cbor_def e Let_def handle_done_def)
qed

lemma msg:
  assumes "handler_keeps sub" "I (h_app h)"
  shows "app_keeps I (run_msg app sub cid cmd h)"
proof -
  obtain ps resp a where e: "ap_msg app (h_app h) (h_buf h) = (ps, resp, a)" by (metis prod_cases3)
  have "I a" by (rule msg_keeps[OF assms(2) e])
  with packets[OF assms(1), of "h\<lparr>h_app := a\<rparr>" ps] show ?thesis
    by (cases "run_packets sub ps (h\<lparr>h_app := a\<rparr>)") (auto simp: run_msg_def e Let_def handle_done_def)
qed

lemma dispatching:
  assumes "handler_keeps sub" "I (h_app h)"
  shows "app_keeps I (dispatch app sub cid cmd len h)"
proof -
  have b: "I (h_app (h\<lparr>h_busy := True\<rparr>))" using assms(2) by simp
  show ?thesis unfolding dispatch_def dispatch_app_def Let_def
    using assms cbor[OF assms(1) b] msg[OF assms(1) b] custom[OF assms]
    by (auto simp: handle_done_def Let_def intro!: app_keeps_seq[where I = I])
qed

lemma handling: "handler_keeps (ctaphid_handle_packet n app now)"
proof (induction n)
  case 0
  then show ?case by (simp add: handler_keeps_def)
next
  case (Suc n)
  show ?case unfolding handler_keeps_def
  proof (intro allI impI)
    fix p and h :: "'a hid"
    assume i: "I (h_app h)"
    show "app_keeps I (ctaphid_handle_packet (Suc n) app now p h)"
    proof (cases "ctaphid_buffer_packet now p h")
      case (Inr x)
      obtain st cmd len h' where x: "x = (st, cmd, len, h')" by (metis prod_cases4)
      have "I (h_app h')" using buffer_app[of now p h] Inr x i by simp
      then have k: "I (h_app (h'\<lparr>h_wb := w, h_heard := ps\<rparr>))" for w ps by simp
      show ?thesis using dispatching[OF Suc k] k Inr
        by (auto simp: handle_with_def x Let_def)
    qed (simp add: handle_with_def)
  qed
qed

lemma traffic: "I (h_app h) \<Longrightarrow> feed n app now ps h = Inr h' \<Longrightarrow> I (h_app h')"
  unfolding feed_def by (rule packets[OF handling])

end

end
