(* ===== verification/MainLoop.thy ===== *)
theory MainLoop
  imports UsbProps Fifo "HOL-Library.Sublist"
begin

text \<open>
  The main loop of \<^verbatim>\<open>targets/stm32l432/src/main.c\<close> with the interrupts it shares state with (\<^verbatim>\<open>device.c\<close>): the USB interrupt puts reports into the
  queue, the loop takes one per round, hands it to the transport and looks for timeouts, and the timer interrupt sends keepalives. The USB interrupt may
  come at any point of a round, also in the middle of a take, and a request that waits for a touch takes from the same queue; the timer interrupt and
  the changes of the status are placed between rounds. The button, the light and NFC have theories of their own.
\<close>

subsection \<open>The clock\<close>

definition millis :: "u32 \<Rightarrow> u32 \<Rightarrow> u32" where
  "millis cnt n90 = cnt + n90 * 90"

text \<open>The timer counts from 0 to its auto-reload value of 90, so a period has 91 ticks, of which \<open>millis\<close> counts 90.\<close>

definition TIM6_RELOAD :: nat where "TIM6_RELOAD = 90"

definition clock :: "nat \<Rightarrow> u32" where
  "clock t = millis (of_nat (t mod (TIM6_RELOAD + 1))) (of_nat (t div (TIM6_RELOAD + 1)))"

lemma clock_reading: "clock t = of_nat (t - t div 91)"
proof -
  have "t mod 91 + t div 91 * 90 = t - t div 91" using div_mult_mod_eq[of t 91] by linarith
  then have "(of_nat (t mod 91 + t div 91 * 90) :: u32) = of_nat (t - t div 91)" by simp
  then show ?thesis by (simp add: clock_def millis_def TIM6_RELOAD_def)
qed

text \<open>It does not run backwards before it wraps, and stands still for one tick of 91.\<close>

lemma clock_mono:
  assumes "t \<le> t'" "t' < 2 ^ 32"
  shows "clock t \<le> clock t'"
proof -
  have "s - s div 91 \<le> Suc s - Suc s div 91" for s :: nat by (auto simp: div_Suc Suc_diff_le)
  then have "t - t div 91 \<le> t' - t' div 91" using assms(1) by (rule lift_Suc_mono_le[of "\<lambda>t. t - t div 91"])
  moreover have "unat (of_nat (s - s div 91) :: u32) = s - s div 91" if "s < 2 ^ 32" for s
    using that by (simp only: unat_of_nat) (simp add: take_bit_nat_eq_self del: of_nat_diff)
  ultimately show ?thesis unfolding clock_reading word_le_nat_alt using assms by simp
qed

lemma clock_stands_still: "clock (91 * k + 90) = clock (91 * k + 91)"
proof -
  have "91 * k + 90 - (91 * k + 90) div 91 = 91 * k + 91 - (91 * k + 91) div 91" by simp
  then show ?thesis unfolding clock_reading by (rule arg_cong)
qed

subsection \<open>Keepalives\<close>

definition CTAPHID_STATUS_IDLE :: u32 where "CTAPHID_STATUS_IDLE = 0"
definition CTAPHID_STATUS_PROCESSING :: u32 where "CTAPHID_STATUS_PROCESSING = 1"
definition CTAPHID_STATUS_UPNEEDED :: u32 where "CTAPHID_STATUS_UPNEEDED = 2"

text \<open>\<open>__device_status\<close> and \<open>__last_update\<close>. The operations return the status that is sent, if one is.\<close>

record keeper =
  kp_status :: u32
  kp_update :: u32

definition device_set_status :: "u32 \<Rightarrow> u32 \<Rightarrow> keeper \<Rightarrow> u32 option \<times> keeper" where
  "device_set_status status now k =
     (if status \<noteq> CTAPHID_STATUS_IDLE \<and> kp_status k \<noteq> status then Some status else None,
      k\<lparr>kp_update := now, kp_status := status\<rparr>)"

definition TIM6_DAC_IRQHandler :: "u32 \<Rightarrow> keeper \<Rightarrow> u32 option \<times> keeper" where
  "TIM6_DAC_IRQHandler now k =
     (if now - kp_update k > 90 \<and> kp_status k \<noteq> CTAPHID_STATUS_IDLE then (Some (kp_status k), k\<lparr>kp_update := now\<rparr>) else (None, k))"

text \<open>The interrupt comes with each overflow, when \<open>millis\<close> is a multiple of 90: after one keepalive the next overflow is just not late
  enough, and a keepalive comes with every second one (every 182 ticks).\<close>

lemma overflow_reading: "clock (91 * k) = of_nat (90 * k)"
  by (simp add: clock_reading)

lemma keepalive_every_other_overflow:
  assumes "kp_status k \<noteq> CTAPHID_STATUS_IDLE" "kp_update k = clock (91 * i)"
  shows "TIM6_DAC_IRQHandler (clock (91 * (i + 1))) k = (None, k)"
    and "TIM6_DAC_IRQHandler (clock (91 * (i + 2))) k = (Some (kp_status k), k\<lparr>kp_update := clock (91 * (i + 2))\<rparr>)"
proof -
  have c: "clock (91 * (i + 1)) - clock (91 * i) = 90" "clock (91 * (i + 2)) - clock (91 * i) = 180"
    unfolding overflow_reading by (simp_all add: algebra_simps)
  show "TIM6_DAC_IRQHandler (clock (91 * (i + 1))) k = (None, k)" by (simp only: TIM6_DAC_IRQHandler_def assms(2) c(1)) simp
  show "TIM6_DAC_IRQHandler (clock (91 * (i + 2))) k = (Some (kp_status k), k\<lparr>kp_update := clock (91 * (i + 2))\<rparr>)"
    by (simp only: TIM6_DAC_IRQHandler_def assms(2) c(2)) (use assms(1) in simp)
qed

subsection \<open>The queue and the rounds\<close>

text \<open>\<open>lp_linked\<close> is a history variable: the reports that the requests so far handled while they waited are the ones their waits took from the queue. (The
  application of the transport gets these reports as an input; a run in which they differ from the queue is none of the device.)\<close>

record 'a loop =
  lp_q :: fifo
  lp_hid :: "'a hid"
  lp_keeper :: keeper
  lp_linked :: bool

text \<open>The USB interrupt.\<close>

definition usb_hid_recieve_callback :: "bytes \<Rightarrow> 'a loop \<Rightarrow> 'a loop" where
  "usb_hid_recieve_callback hidmsg_buf l = l\<lparr>lp_q := snd (fifo_add 100 64 (lp_q l) hidmsg_buf)\<rparr>"

definition irq_all :: "take_irq \<Rightarrow> bytes list" where
  "irq_all i = ti_checked i @ ti_copied i @ ti_moved i @ ti_torn i"

text \<open>A receive with the reports that arrive during it; if it finds the queue empty, they come after the test.\<close>

definition usbhid_recv :: "take_irq \<Rightarrow> fifo \<Rightarrow> bytes \<Rightarrow> int \<times> bytes \<times> fifo" where
  "usbhid_recv i q msg =
     (if fifo_count q \<noteq> 0 then
        case fifo_take_irq 100 64 i (fifo_adds 100 64 (ti_checked i) q) of (r, msg, q) \<Rightarrow> (64, msg, q)
      else (0, msg, fifo_adds 100 64 (irq_all i) q))"

text \<open>The receives of \<open>handle_packets\<close> in the waits of a request: the reports they find.\<close>

fun wait_takes :: "take_irq list \<Rightarrow> fifo \<Rightarrow> bytes list \<times> fifo" where
  "wait_takes [] q = ([], q)"
| "wait_takes (i # is) q =
     (case usbhid_recv i q (replicate 64 0) of (got, msg, q) \<Rightarrow>
      case wait_takes is q of (msgs, q) \<Rightarrow> (if got > 0 then msg # msgs else msgs, q))"

text \<open>A round of the loop; \<open>t1\<close> and \<open>t2\<close> are the readings of the clock in the transport and in the search for timeouts, \<open>i\<close> is what arrives during
  the take, \<open>ws\<close> are the receives of the request's waits, with what arrives during them.\<close>

definition main_round :: "nat \<Rightarrow> 'a hid_app \<Rightarrow> u64 \<Rightarrow> u64 \<Rightarrow> take_irq \<Rightarrow> take_irq list \<Rightarrow> 'a loop \<Rightarrow> hid_stop + 'a loop" where
  "main_round n app t1 t2 i ws l =
     (case usbhid_recv i (lp_q l) (replicate 64 0) of (got, hidmsg, q) \<Rightarrow>
      seqE (if got > 0 then
              seqE (ctaphid_handle_packet n app t1 hidmsg (lp_hid l)) (\<lambda>(r, h).
              case wait_takes ws q of (taken, q) \<Rightarrow>
              Inr (l\<lparr>lp_q := q, lp_hid := h, lp_linked := lp_linked l \<and> h_heard h = h_heard (lp_hid l) @ hidmsg # taken\<rparr>))
            else Inr (l\<lparr>lp_q := q, lp_linked := lp_linked l \<and> ws = []\<rparr>)) (\<lambda>l.
      Inr (l\<lparr>lp_hid := ctaphid_check_timeouts t2 (lp_hid l)\<rparr>)))"

definition keepalive :: "u32 option \<Rightarrow> 'a hid \<Rightarrow> 'a hid" where
  "keepalive st h = (case st of None \<Rightarrow> h | Some s \<Rightarrow> ctaphid_update_status (ucast s) h)"

datatype loop_event = Arrives bytes | Status u32 u32 | Overflow u32 | Round u64 u64 take_irq "take_irq list"

fun loop_step :: "nat \<Rightarrow> 'a hid_app \<Rightarrow> loop_event \<Rightarrow> 'a loop \<Rightarrow> hid_stop + 'a loop" where
  "loop_step n app (Arrives p) l = Inr (usb_hid_recieve_callback p l)"
| "loop_step n app (Status st now) l =
     (case device_set_status st now (lp_keeper l) of (s, k) \<Rightarrow> Inr (l\<lparr>lp_keeper := k, lp_hid := keepalive s (lp_hid l)\<rparr>))"
| "loop_step n app (Overflow now) l =
     (case TIM6_DAC_IRQHandler now (lp_keeper l) of (s, k) \<Rightarrow> Inr (l\<lparr>lp_keeper := k, lp_hid := keepalive s (lp_hid l)\<rparr>))"
| "loop_step n app (Round t1 t2 i ws) l = main_round n app t1 t2 i ws l"

primrec main_loop :: "nat \<Rightarrow> 'a hid_app \<Rightarrow> loop_event list \<Rightarrow> 'a loop \<Rightarrow> hid_stop + 'a loop" where
  "main_loop n app [] l = Inr l"
| "main_loop n app (e # es) l = seqE (loop_step n app e l) (main_loop n app es)"

subsection \<open>What the loop does, in terms of a list of reports\<close>

text \<open>The specification of the loop: reports wait in a list of at most 100, a receive takes the first one, and the loop and the interrupts call the
  transport in this order. \<open>Handled t p ns\<close>: the report \<open>p\<close>, and \<open>ns\<close> while its request waits.\<close>

datatype loop_act = Handled u64 bytes "bytes list" | Timeouts u64 | Keepalive u8

definition alive :: "u32 option \<Rightarrow> loop_act list" where
  "alive st = (case st of None \<Rightarrow> [] | Some s \<Rightarrow> [Keepalive (ucast s)])"

definition recv_spec :: "take_irq \<Rightarrow> bytes list \<Rightarrow> bytes list \<times> bytes list" where
  "recv_spec i q = (let q' = add_all 100 (irq_all i) q in if q = [] then ([], q') else ([hd q'], tl q'))"

primrec waits_spec :: "take_irq list \<Rightarrow> bytes list \<Rightarrow> bytes list \<times> bytes list" where
  "waits_spec [] q = ([], q)"
| "waits_spec (i # is) q = (case recv_spec i q of (m, q) \<Rightarrow> case waits_spec is q of (ms, q) \<Rightarrow> (m @ ms, q))"

fun loop_spec :: "loop_event list \<Rightarrow> bytes list \<Rightarrow> keeper \<Rightarrow> loop_act list \<times> bytes list" where
  "loop_spec [] q k = ([], q)"
| "loop_spec (Arrives p # es) q k = loop_spec es (add_all 100 [p] q) k"
| "loop_spec (Status st now # es) q k =
     (case device_set_status st now k of (s, k) \<Rightarrow> case loop_spec es q k of (acts, q) \<Rightarrow> (alive s @ acts, q))"
| "loop_spec (Overflow now # es) q k =
     (case TIM6_DAC_IRQHandler now k of (s, k) \<Rightarrow> case loop_spec es q k of (acts, q) \<Rightarrow> (alive s @ acts, q))"
| "loop_spec (Round t1 t2 i ws # es) q k =
     (case recv_spec i q of
        ([], q) \<Rightarrow> (case loop_spec es q k of (acts, q) \<Rightarrow> (Timeouts t2 # acts, q))
      | (p # _, q) \<Rightarrow> (case waits_spec ws q of (ns, q) \<Rightarrow> case loop_spec es q k of (acts, q) \<Rightarrow> (Handled t1 p ns # Timeouts t2 # acts, q)))"

primrec do_act :: "nat \<Rightarrow> 'a hid_app \<Rightarrow> loop_act \<Rightarrow> 'a hid \<Rightarrow> hid_stop + 'a hid" where
  "do_act n app (Handled now p ns) h = seqE (ctaphid_handle_packet n app now p h) (\<lambda>(r, h). Inr h)"
| "do_act n app (Timeouts now) h = Inr (ctaphid_check_timeouts now h)"
| "do_act n app (Keepalive s) h = Inr (ctaphid_update_status s h)"

primrec do_acts :: "nat \<Rightarrow> 'a hid_app \<Rightarrow> loop_act list \<Rightarrow> 'a hid \<Rightarrow> hid_stop + 'a hid" where
  "do_acts n app [] h = Inr h"
| "do_acts n app (a # as) h = seqE (do_act n app a h) (do_acts n app as)"

text \<open>The reports of a run: handled, in order, and arriving.\<close>

primrec handled :: "loop_act list \<Rightarrow> bytes list" where
  "handled [] = []"
| "handled (a # as) = (case a of Handled t p ns \<Rightarrow> p # ns @ handled as | _ \<Rightarrow> handled as)"

primrec arrivals :: "loop_event list \<Rightarrow> bytes list" where
  "arrivals [] = []"
| "arrivals (e # es) = (case e of Arrives p \<Rightarrow> p # arrivals es
     | Round t1 t2 i ws \<Rightarrow> irq_all i @ concat (map irq_all ws) @ arrivals es | _ \<Rightarrow> arrivals es)"

text \<open>No interrupt falls between the load and the store of the size.\<close>

definition untorn :: "take_irq \<Rightarrow> bool" where
  "untorn i \<longleftrightarrow> ti_torn i = []"

primrec none_torn :: "loop_event list \<Rightarrow> bool" where
  "none_torn [] = True"
| "none_torn (e # es) = ((case e of Round t1 t2 i ws \<Rightarrow> untorn i \<and> list_all untorn ws | _ \<Rightarrow> True) \<and> none_torn es)"

lemma do_acts_alive: "do_acts n app (alive s @ as) h = do_acts n app as (keepalive s h)"
  by (simp add: alive_def keepalive_def split: option.splits)

lemma recv_refines:
  assumes ok: "fifo_ok 100 64 q" and n: "untorn i" and len: "list_all (\<lambda>p. length p = 64) (irq_all i)"
    and s: "recv_spec i (fifo_items 100 64 q) = (ms, xs)"
  shows "\<exists>q'. usbhid_recv i q (replicate 64 0) = (if ms = [] then (0, replicate 64 0, q') else (64, hd ms, q'))
     \<and> fifo_ok 100 64 q' \<and> fifo_items 100 64 q' = xs \<and> (ms = [] \<or> ms = [hd ms])"
proof (cases "fifo_items 100 64 q")
  case Nil
  then have "f_size q = 0" using length_fifo_items[of 100 64 q] by simp
  then show ?thesis using adds_items[OF ok len] s Nil by (simp add: usbhid_recv_def fifo_count_def recv_spec_def Let_def)
next
  case (Cons y ys)
  let ?q = "fifo_adds 100 64 (ti_checked i) q"
  have l: "list_all (\<lambda>p. length p = 64) (ti_checked i)" "list_all (\<lambda>p. length p = 64) (ti_copied i @ ti_moved i)"
    using len by (simp_all add: irq_all_def)
  obtain zs where z: "add_all 100 (ti_checked i) (y # ys) = y # zs" using add_all_head[of 100 "ti_checked i" y ys] by blast
  have q1: "fifo_ok 100 64 ?q" "fifo_items 100 64 ?q = y # zs" using adds_items[OF ok l(1)] z Cons by simp_all
  obtain q' where q': "fifo_take_irq 100 64 i ?q = (0, y, q')" "fifo_ok 100 64 q'"
      "fifo_items 100 64 q' = tl (add_all 100 (ti_copied i @ ti_moved i) (y # zs))"
    by (rule take_untorn[OF q1 _ l(2)]) (use n in \<open>simp_all add: untorn_def\<close>)
  obtain us where u: "add_all 100 (irq_all i) (y # ys) = y # us" using add_all_head[of 100 "irq_all i" y ys] by blast
  have x: "ms = [y]" "xs = us" using s Cons u by (auto simp: recv_spec_def Let_def)
  have "add_all 100 (ti_copied i @ ti_moved i) (y # zs) = y # us" using u n by (simp add: irq_all_def z untorn_def del: add_all.simps(2))
  moreover have "fifo_count q \<noteq> 0"
  proof -
    have "f_size q = Suc (length ys)" "f_size q \<le> 100" using Cons length_fifo_items[of 100 64 q] ok by (simp_all add: fifo_ok_def)
    moreover have "f_size q \<le> 100 \<Longrightarrow> unat (fifo_count q) = f_size q" by (simp add: fifo_count_def unat_of_nat take_bit_nat_eq_self)
    ultimately show ?thesis by auto
  qed
  ultimately show ?thesis using q' x by (simp add: usbhid_recv_def)
qed

lemma waits_refine:
  "fifo_ok 100 64 q \<Longrightarrow> list_all untorn ws \<Longrightarrow> list_all (\<lambda>p. length p = 64) (concat (map irq_all ws)) \<Longrightarrow>
   waits_spec ws (fifo_items 100 64 q) = (ms, xs) \<Longrightarrow>
   \<exists>q'. wait_takes ws q = (ms, q') \<and> fifo_ok 100 64 q' \<and> fifo_items 100 64 q' = xs"
proof (induction ws arbitrary: q ms)
  case (Cons i ws)
  obtain m ys where m: "recv_spec i (fifo_items 100 64 q) = (m, ys)" by fastforce
  obtain ms' where ms': "waits_spec ws ys = (ms', xs)" "ms = m @ ms'" using Cons.prems(4) m by (auto split: prod.splits)
  obtain q1 where q1: "usbhid_recv i q (replicate 64 0) = (if m = [] then (0, replicate 64 0, q1) else (64, hd m, q1))"
      "fifo_ok 100 64 q1" "fifo_items 100 64 q1 = ys" "m = [] \<or> m = [hd m]"
    using recv_refines[OF Cons.prems(1) _ _ m] Cons.prems(2,3) by auto
  obtain q' where "wait_takes ws q1 = (ms', q')" "fifo_ok 100 64 q'" "fifo_items 100 64 q' = xs"
    using Cons.IH[OF q1(2), of ms'] Cons.prems(2,3) q1(3) ms'(1) by auto
  then show ?case using q1(1,4) ms'(2) by (cases m) auto
qed simp

lemma timeouts_heard [simp]: "h_heard (ctaphid_check_timeouts now h) = h_heard h"
proof -
  have "h_heard (foldl (check_timeout_at now) h is) = h_heard h" for "is"
    by (induction "is" arbitrary: h) (simp_all add: check_timeout_at_def Let_def buffer_reset_def ctaphid_send_error_def send_reports_def)
  then show ?thesis by (simp add: ctaphid_check_timeouts_def)
qed

lemma keepalive_heard [simp]: "h_heard (keepalive s h) = h_heard h"
  by (simp add: keepalive_def ctaphid_update_status_def send_reports_def split: option.splits)

definition loop_shows :: "'a loop \<Rightarrow> hid_stop + 'a loop \<Rightarrow> hid_stop + 'a hid \<Rightarrow> loop_act list \<Rightarrow> bytes list \<Rightarrow> bool" where
  "loop_shows l0 r s as q \<longleftrightarrow> (case r of Inl e \<Rightarrow> s = Inl e
     | Inr l \<Rightarrow> s = Inr (lp_hid l) \<and> fifo_ok 100 64 (lp_q l) \<and> fifo_items 100 64 (lp_q l) = q
        \<and> (lp_linked l \<longrightarrow> lp_linked l0 \<and> h_heard (lp_hid l) = h_heard (lp_hid l0) @ handled as))"

lemma handled_alive [simp]: "handled (alive s @ as) = handled as"
  by (simp add: alive_def split: option.splits)

lemma round_refines:
  assumes ok: "fifo_ok 100 64 (lp_q l)" and n: "untorn i" "list_all untorn ws"
    and len: "list_all (\<lambda>p. length p = 64) (irq_all i)" "list_all (\<lambda>p. length p = 64) (concat (map irq_all ws))"
    and s: "recv_spec i (fifo_items 100 64 (lp_q l)) = (ms, xs)"
  shows "ms = [] \<Longrightarrow> \<exists>l'. main_round k app t1 t2 i ws l = Inr l' \<and> fifo_ok 100 64 (lp_q l') \<and> fifo_items 100 64 (lp_q l') = xs
      \<and> lp_keeper l' = lp_keeper l \<and> lp_hid l' = ctaphid_check_timeouts t2 (lp_hid l) \<and> (lp_linked l' \<longrightarrow> lp_linked l)"
    and "ms = p # ps \<Longrightarrow> waits_spec ws xs = (ns, ys) \<Longrightarrow>
      (case ctaphid_handle_packet k app t1 p (lp_hid l) of
         Inl e \<Rightarrow> main_round k app t1 t2 i ws l = Inl e
       | Inr (r, h) \<Rightarrow> \<exists>l'. main_round k app t1 t2 i ws l = Inr l' \<and> fifo_ok 100 64 (lp_q l') \<and> fifo_items 100 64 (lp_q l') = ys
           \<and> lp_keeper l' = lp_keeper l \<and> lp_hid l' = ctaphid_check_timeouts t2 h
           \<and> (lp_linked l' \<longleftrightarrow> lp_linked l \<and> h_heard h = h_heard (lp_hid l) @ p # ns))"
proof -
  obtain q' where q': "usbhid_recv i (lp_q l) (replicate 64 0) = (if ms = [] then (0, replicate 64 0, q') else (64, hd ms, q'))"
      "fifo_ok 100 64 q'" "fifo_items 100 64 q' = xs" using recv_refines[OF ok n(1) len(1) s] by blast
  show "\<exists>l'. main_round k app t1 t2 i ws l = Inr l' \<and> fifo_ok 100 64 (lp_q l') \<and> fifo_items 100 64 (lp_q l') = xs
      \<and> lp_keeper l' = lp_keeper l \<and> lp_hid l' = ctaphid_check_timeouts t2 (lp_hid l) \<and> (lp_linked l' \<longrightarrow> lp_linked l)" if "ms = []"
    using q' that by (simp add: main_round_def)
  assume m: "ms = p # ps" and w: "waits_spec ws xs = (ns, ys)"
  obtain q2 where q2: "wait_takes ws q' = (ns, q2)" "fifo_ok 100 64 q2" "fifo_items 100 64 q2 = ys"
    using waits_refine[OF q'(2) n(2) len(2)] w q'(3) by blast
  show "case ctaphid_handle_packet k app t1 p (lp_hid l) of
         Inl e \<Rightarrow> main_round k app t1 t2 i ws l = Inl e
       | Inr (r, h) \<Rightarrow> \<exists>l'. main_round k app t1 t2 i ws l = Inr l' \<and> fifo_ok 100 64 (lp_q l') \<and> fifo_items 100 64 (lp_q l') = ys
           \<and> lp_keeper l' = lp_keeper l \<and> lp_hid l' = ctaphid_check_timeouts t2 h
           \<and> (lp_linked l' \<longleftrightarrow> lp_linked l \<and> h_heard h = h_heard (lp_hid l) @ p # ns)"
    using q' q2 m by (auto simp: main_round_def split: sum.splits)
qed

lemma loop_refines:
  "fifo_ok 100 64 (lp_q l) \<Longrightarrow> list_all (\<lambda>p. length p = 64) (arrivals es) \<Longrightarrow> none_torn es \<Longrightarrow>
   loop_spec es (fifo_items 100 64 (lp_q l)) (lp_keeper l) = (as, q) \<Longrightarrow>
   loop_shows l (main_loop n app es l) (do_acts n app as (lp_hid l)) as q"
proof (induction es arbitrary: l as q)
  case Nil
  then show ?case by (simp add: loop_shows_def)
next
  case (Cons e es)
  show ?case
  proof (cases e)
    case (Arrives p)
    then have p: "list_all (\<lambda>p. length p = 64) [p]" using Cons.prems(2) by simp
    note a = adds_items[OF Cons.prems(1) p]
    show ?thesis using Cons.IH[of "usb_hid_recieve_callback p l" as q] Cons.prems a
      by (simp add: Arrives usb_hid_recieve_callback_def loop_shows_def split: sum.splits)
  next
    case (Status st now)
    obtain s k where k: "device_set_status st now (lp_keeper l) = (s, k)" by fastforce
    obtain as' q' where s: "loop_spec es (fifo_items 100 64 (lp_q l)) k = (as', q')" by fastforce
    show ?thesis using Cons.IH[of "l\<lparr>lp_keeper := k, lp_hid := keepalive s (lp_hid l)\<rparr>" as' q'] Cons.prems k s
      by (auto simp: Status do_acts_alive loop_shows_def split: sum.splits)
  next
    case (Overflow now)
    obtain s k where k: "TIM6_DAC_IRQHandler now (lp_keeper l) = (s, k)" by fastforce
    obtain as' q' where s: "loop_spec es (fifo_items 100 64 (lp_q l)) k = (as', q')" by fastforce
    show ?thesis using Cons.IH[of "l\<lparr>lp_keeper := k, lp_hid := keepalive s (lp_hid l)\<rparr>" as' q'] Cons.prems k s
      by (auto simp: Overflow do_acts_alive loop_shows_def split: sum.splits)
  next
    case (Round t1 t2 i ws)
    obtain ms xs where m: "recv_spec i (fifo_items 100 64 (lp_q l)) = (ms, xs)" by fastforce
    have c: "untorn i" "list_all untorn ws" "list_all (\<lambda>p. length p = 64) (irq_all i)" "list_all (\<lambda>p. length p = 64) (concat (map irq_all ws))"
      "list_all (\<lambda>p. length p = 64) (arrivals es)" "none_torn es"
      using Cons.prems(2,3) by (simp_all add: Round)
    note r = round_refines[OF Cons.prems(1) c(1-4) m]
    show ?thesis
    proof (cases ms)
      case Nil
      obtain as' q' where s: "loop_spec es xs (lp_keeper l) = (as', q')" by fastforce
      have as: "as = Timeouts t2 # as'" "q = q'" using Cons.prems(4) s m Nil by (simp_all add: Round)
      obtain l' where l': "main_round n app t1 t2 i ws l = Inr l'" "fifo_ok 100 64 (lp_q l')" "fifo_items 100 64 (lp_q l') = xs"
        "lp_keeper l' = lp_keeper l" "lp_hid l' = ctaphid_check_timeouts t2 (lp_hid l)" "lp_linked l' \<longrightarrow> lp_linked l"
        using r(1)[OF Nil] by blast
      show ?thesis using Cons.IH[OF l'(2) c(5,6), of as' q'] l' s
        by (auto simp: Round as loop_shows_def split: sum.splits)
    next
      case (Cons p ps)
      obtain ns ys where w: "waits_spec ws xs = (ns, ys)" by fastforce
      obtain as' q' where s: "loop_spec es ys (lp_keeper l) = (as', q')" by fastforce
      have as: "as = Handled t1 p ns # Timeouts t2 # as'" "q = q'" using Cons.prems(4) s m w Cons by (simp_all add: Round)
      show ?thesis
      proof (cases "ctaphid_handle_packet n app t1 p (lp_hid l)")
        case (Inl x)
        then show ?thesis using r(2)[OF Cons w, of n app t1 t2] by (simp add: Round as loop_shows_def)
      next
        case (Inr x)
        obtain rr h where x: "x = (rr, h)" by fastforce
        obtain l' where l': "main_round n app t1 t2 i ws l = Inr l'" "fifo_ok 100 64 (lp_q l')" "fifo_items 100 64 (lp_q l') = ys"
          "lp_keeper l' = lp_keeper l" "lp_hid l' = ctaphid_check_timeouts t2 h"
          "lp_linked l' \<longleftrightarrow> lp_linked l \<and> h_heard h = h_heard (lp_hid l) @ p # ns"
          using r(2)[OF Cons w, of n app t1 t2] Inr x by auto
        show ?thesis using Cons.IH[OF l'(2) c(5,6), of as' q'] l' s Inr x
          by (auto simp: Round as loop_shows_def split: sum.splits)
      qed
    qed
  qed
qed

subsection \<open>Order and loss\<close>

text \<open>No report arrives while 100 of them wait (and no wait takes from the queue without a request).\<close>

definition recv_room :: "take_irq \<Rightarrow> nat \<Rightarrow> bool" where
  "recv_room i n \<longleftrightarrow> n + length (irq_all i) \<le> 100"

definition recv_left :: "take_irq \<Rightarrow> nat \<Rightarrow> nat" where
  "recv_left i n = n + length (irq_all i) - (if n = 0 then 0 else 1)"

primrec waits_room :: "take_irq list \<Rightarrow> nat \<Rightarrow> bool" where
  "waits_room [] n = True"
| "waits_room (i # is) n = (recv_room i n \<and> waits_room is (recv_left i n))"

primrec waits_left :: "take_irq list \<Rightarrow> nat \<Rightarrow> nat" where
  "waits_left [] n = n"
| "waits_left (i # is) n = waits_left is (recv_left i n)"

primrec never_full :: "loop_event list \<Rightarrow> nat \<Rightarrow> bool" where
  "never_full [] n = True"
| "never_full (e # es) n = (case e of Arrives p \<Rightarrow> n < 100 \<and> never_full es (n + 1)
     | Round t1 t2 i ws \<Rightarrow> recv_room i n
         \<and> (if n = 0 then ws = [] \<and> never_full es (recv_left i n)
            else waits_room ws (recv_left i n) \<and> never_full es (waits_left ws (recv_left i n)))
     | _ \<Rightarrow> never_full es n)"

lemma add_all_subseq: "subseq (add_all n ps xs) (xs @ ps)"
proof (induction ps arbitrary: xs)
  case (Cons p ps)
  have "subseq (xs @ ps) (xs @ p # ps)" by (simp add: subseq_append' list_emb_Cons)
  then show ?case using Cons[of "xs @ [p]"] Cons[of xs] by (auto intro: subseq_order.trans)
qed simp

lemma recv_spec_all:
  assumes "recv_spec i q = (ms, q')"
  shows "ms @ q' = add_all 100 (irq_all i) q" "q = [] \<longleftrightarrow> ms = []"
proof -
  have h: "\<exists>ys. add_all 100 (irq_all i) (x # xs) = x # ys" for x :: bytes and xs by (rule add_all_head)
  show "q = [] \<longleftrightarrow> ms = []" using assms by (auto simp: recv_spec_def Let_def split: if_splits)
  show "ms @ q' = add_all 100 (irq_all i) q"
  proof (cases q)
    case (Cons x xs)
    obtain ys where "add_all 100 (irq_all i) (x # xs) = x # ys" using h by blast
    then show ?thesis using assms Cons by (auto simp: recv_spec_def Let_def)
  qed (use assms in \<open>simp add: recv_spec_def Let_def\<close>)
qed

lemma recv_lossless:
  assumes "recv_spec i q = (ms, q')" "recv_room i (length q)"
  shows "ms @ q' = q @ irq_all i" "length q' = recv_left i (length q)"
proof -
  show e: "ms @ q' = q @ irq_all i"
    using recv_spec_all(1)[OF assms(1)] add_all_room[of q "irq_all i" 100] assms(2) by (simp add: recv_room_def)
  have "length ms = (if q = [] then 0 else 1)" using assms(1) by (auto simp: recv_spec_def Let_def)
  then show "length q' = recv_left i (length q)" using arg_cong[OF e, of length] by (simp add: recv_left_def split: if_splits)
qed

lemma waits_in_order: "waits_spec ws q = (ms, q') \<Longrightarrow> subseq (ms @ q') (q @ concat (map irq_all ws))"
proof (induction ws arbitrary: q ms)
  case (Cons i ws)
  obtain m q1 where m: "recv_spec i q = (m, q1)" by fastforce
  obtain ms' where ms': "waits_spec ws q1 = (ms', q')" "ms = m @ ms'" using Cons.prems m by (auto split: prod.splits)
  have "subseq (m @ ms' @ q') (m @ q1 @ concat (map irq_all ws))"
    by (rule list_emb_append_mono[OF _ Cons.IH[OF ms'(1)]]) simp
  moreover have "subseq (m @ q1) (q @ irq_all i)" using add_all_subseq[of 100 "irq_all i" q] recv_spec_all(1)[OF m] by simp
  then have "subseq ((m @ q1) @ concat (map irq_all ws)) ((q @ irq_all i) @ concat (map irq_all ws))" by (rule list_emb_append_mono) simp
  ultimately show ?case unfolding ms'(2) by (auto intro: subseq_order.trans)
qed simp

lemma waits_lossless:
  "waits_spec ws q = (ms, q') \<Longrightarrow> waits_room ws (length q)
   \<Longrightarrow> ms @ q' = q @ concat (map irq_all ws) \<and> length q' = waits_left ws (length q)"
proof (induction ws arbitrary: q ms)
  case (Cons i ws)
  obtain m q1 where m: "recv_spec i q = (m, q1)" by fastforce
  obtain ms' where ms': "waits_spec ws q1 = (ms', q')" "ms = m @ ms'" using Cons.prems(1) m by (auto split: prod.splits)
  have l: "m @ q1 = q @ irq_all i" "length q1 = recv_left i (length q)" using recv_lossless[OF m] Cons.prems(2) by simp_all
  have "ms' @ q' = q1 @ concat (map irq_all ws) \<and> length q' = waits_left ws (length q1)"
    using Cons.IH[OF ms'(1)] Cons.prems(2) l(2) by simp
  then have "m @ ms' @ q' = (m @ q1) @ concat (map irq_all ws)" "length q' = waits_left ws (recv_left i (length q))" using l(2) by simp_all
  then show ?case by (simp add: l(1) ms'(2))
qed simp

lemma spec_in_order: "loop_spec es q k = (as, q') \<Longrightarrow> subseq (handled as @ q') (q @ arrivals es)"
proof (induction es q k arbitrary: as q' rule: loop_spec.induct)
  case (2 p es q k)
  have "subseq (handled as @ q') (add_all 100 [p] q @ arrivals es)" using 2 by simp
  moreover have "subseq (add_all 100 [p] q @ arrivals es) ((q @ [p]) @ arrivals es)"
    using add_all_subseq[of 100 "[p]" q] by (rule list_emb_append_mono) simp
  ultimately show ?case by (auto intro: subseq_order.trans)
next
  case (5 t1 t2 i ws es q k)
  obtain ms q1 where m: "recv_spec i q = (ms, q1)" by fastforce
  have s1: "subseq (ms @ q1) (q @ irq_all i)" using add_all_subseq[of 100 "irq_all i" q] recv_spec_all(1)[OF m] by simp
  let ?w = "concat (map irq_all ws)"
  show ?case
  proof (cases ms)
    case Nil
    obtain as' where as: "loop_spec es q1 k = (as', q')" "as = Timeouts t2 # as'" using 5(3) m Nil by (auto split: prod.splits)
    have "subseq (handled as' @ q') (q1 @ arrivals es)" using 5(1)[OF m[symmetric]] Nil as(1) by simp
    moreover have "subseq (q1 @ arrivals es) ((q @ irq_all i) @ ?w @ arrivals es)"
    proof (rule list_emb_append_mono)
      show "subseq q1 (q @ irq_all i)" using s1 Nil by simp
      show "subseq (arrivals es) (?w @ arrivals es)" by (rule list_emb_append2) simp
    qed
    ultimately show ?thesis by (auto simp: as(2) intro: subseq_order.trans)
  next
    case (Cons p ps)
    obtain ns q2 where w: "waits_spec ws q1 = (ns, q2)" by fastforce
    obtain as' where as: "loop_spec es q2 k = (as', q')" "as = Handled t1 p ns # Timeouts t2 # as'"
      using 5(3) m w Cons by (auto split: prod.splits)
    have ps: "ps = []" using m Cons by (auto simp: recv_spec_def Let_def split: if_splits)
    have "subseq (handled as' @ q') (q2 @ arrivals es)" using 5(2)[OF m[symmetric] Cons w[symmetric]] as(1) by simp
    from list_emb_append_mono[OF _ this, of "p # ns" "p # ns"]
    have "subseq ((p # ns) @ handled as' @ q') ((p # ns) @ q2 @ arrivals es)" by simp
    then have a: "subseq (handled as @ q') (p # ns @ q2 @ arrivals es)" by (simp add: as(2))
    have b: "subseq (((p # ns) @ q2) @ arrivals es) ((p # q1 @ ?w) @ arrivals es)"
      using waits_in_order[OF w] by (intro list_emb_append_mono) simp_all
    have c: "subseq ((p # q1) @ ?w @ arrivals es) ((q @ irq_all i) @ ?w @ arrivals es)"
      using s1 Cons ps by (intro list_emb_append_mono) simp_all
    from b have "subseq (p # ns @ q2 @ arrivals es) (p # q1 @ ?w @ arrivals es)" by simp
    moreover from c have "subseq (p # q1 @ ?w @ arrivals es) (q @ arrivals (Round t1 t2 i ws # es))" by simp
    ultimately show ?thesis by (rule subseq_order.trans[OF a subseq_order.trans])
  qed
qed (auto split: prod.splits)

lemma spec_lossless: "never_full es (length q) \<Longrightarrow> loop_spec es q k = (as, q') \<Longrightarrow> handled as @ q' = q @ arrivals es"
proof (induction es q k arbitrary: as q' rule: loop_spec.induct)
  case (5 t1 t2 i ws es q k)
  obtain ms q1 where m: "recv_spec i q = (ms, q1)" by fastforce
  have l: "ms @ q1 = q @ irq_all i" "length q1 = recv_left i (length q)" using recv_lossless[OF m] 5(3) by simp_all
  show ?case
  proof (cases ms)
    case Nil
    then have q: "q = []" "ws = []" using recv_spec_all(2)[OF m] 5(3) by simp_all
    obtain as' where as: "loop_spec es q1 k = (as', q')" "as = Timeouts t2 # as'" using 5(4) m Nil by (auto split: prod.splits)
    have "handled as' @ q' = q1 @ arrivals es" using 5(1)[OF m[symmetric]] Nil as(1) 5(3) q l(2) by simp
    then show ?thesis using l(1) by (simp add: as(2) q Nil)
  next
    case (Cons p ps)
    then have q: "q \<noteq> []" using recv_spec_all(2)[OF m] by simp
    obtain ns q2 where w: "waits_spec ws q1 = (ns, q2)" by fastforce
    obtain as' where as: "loop_spec es q2 k = (as', q')" "as = Handled t1 p ns # Timeouts t2 # as'"
      using 5(4) m w Cons by (auto split: prod.splits)
    have ps: "ps = []" using m Cons by (auto simp: recv_spec_def Let_def split: if_splits)
    have w2: "ns @ q2 = q1 @ concat (map irq_all ws)" "length q2 = waits_left ws (length q1)"
      using waits_lossless[OF w] 5(3) q l(2) by simp_all
    have "handled as' @ q' = q2 @ arrivals es" using 5(2)[OF m[symmetric] Cons w[symmetric]] as(1) 5(3) q l(2) w2(2) by simp
    then have "handled as @ q' = p # (ns @ q2) @ arrivals es" by (simp add: as(2))
    also have "\<dots> = (ms @ q1) @ concat (map irq_all ws) @ arrivals es" by (simp add: w2(1) Cons ps)
    finally show ?thesis by (simp add: l(1))
  qed
qed (auto split: prod.splits)

subsection \<open>Safety of the loop\<close>

lemma foldl_app: "(\<And>h i. h_app (f h i) = h_app h) \<Longrightarrow> h_app (foldl f h xs) = h_app h"
  by (induction xs arbitrary: h) auto

lemma timeouts_app [simp]: "h_app (ctaphid_check_timeouts now h) = h_app h"
  unfolding ctaphid_check_timeouts_def by (rule foldl_app) (simp add: check_timeout_at_def Let_def)

lemma status_app [simp]: "h_app (ctaphid_update_status s h) = h_app h" "h_app (keepalive st h) = h_app h"
  by (simp_all add: keepalive_def ctaphid_update_status_def split: option.splits)

context app_inv
begin

lemma step:
  assumes "I (h_app (lp_hid l))" "loop_step n app e l = Inr l'"
  shows "I (h_app (lp_hid l'))"
proof (cases e)
  case (Round t1 t2 i ws)
  have k: "app_keeps I (ctaphid_handle_packet n app t1 p (lp_hid l))" for p
    using handling[of n t1] assms(1) by (simp add: handler_keeps_def)
  obtain got p q where r: "usbhid_recv i (lp_q l) (replicate 64 0) = (got, p, q)" by (metis prod_cases3)
  show ?thesis using assms k[of p]
    by (cases "ctaphid_handle_packet n app t1 p (lp_hid l)") (auto simp: Round main_round_def r split: if_splits prod.splits)
qed (use assms in \<open>auto simp: usb_hid_recieve_callback_def split: prod.splits\<close>)

lemma loop: "I (h_app (lp_hid l)) \<Longrightarrow> main_loop n app es l = Inr l' \<Longrightarrow> I (h_app (lp_hid l'))"
  by (induction es arbitrary: l) (auto simp: seqE_Inr dest: step)

end

text \<open>The buffers stay within bounds wherever the interrupts fall, also in the middle of a decrement.\<close>

lemma recv_ring:
  assumes "ring_ok 100 64 q" "usbhid_recv i q msg = (got, p, q')"
  shows "ring_ok 100 64 q'" "got > 0 \<Longrightarrow> length p = 64"
proof -
  have r: "ring_ok 100 64 (fifo_adds 100 64 ps q)" for ps using assms(1) by (rule ring_adds)
  obtain c y q1 where t: "fifo_take_irq 100 64 i (fifo_adds 100 64 (ti_checked i) q) = (c, y, q1)" by (metis prod_cases3)
  show "ring_ok 100 64 q'" "got > 0 \<Longrightarrow> length p = 64"
    using assms(2) ring_take[OF r t] r t by (auto simp: usbhid_recv_def split: if_splits)
qed

lemma waits_ring: "ring_ok 100 64 q \<Longrightarrow> wait_takes ws q = (ms, q') \<Longrightarrow> ring_ok 100 64 q'"
proof (induction ws arbitrary: q ms)
  case (Cons i ws)
  obtain got p q1 where r: "usbhid_recv i q (replicate 64 0) = (got, p, q1)" by (metis prod_cases3)
  obtain ms' where w: "wait_takes ws q1 = (ms', q')" using Cons.prems(2) r by (auto split: prod.splits if_splits)
  show ?case by (rule Cons.IH[OF recv_ring(1)[OF Cons.prems(1) r] w])
qed simp

definition loop_ok :: "'a loop \<Rightarrow> bool" where
  "loop_ok l \<longleftrightarrow> hid_ok (lp_hid l) \<and> ring_ok 100 64 (lp_q l)"

lemma step_safe:
  assumes a: "app_ok app" and l: "loop_ok l"
  shows "case loop_step n app e l of Inl e \<Rightarrow> e = Deep | Inr l' \<Rightarrow> loop_ok l'"
    and "app_quiet app \<Longrightarrow> \<exists>l'. loop_step (Suc n) app e l = Inr l'"
proof -
  have d: "x \<noteq> Exit \<Longrightarrow> x = Deep" for x by (cases x) simp_all
  note h = l[unfolded loop_ok_def]
  have k: "hid_ok (keepalive s (lp_hid l))" for s using h by (simp add: keepalive_def update_status_ok split: option.splits)
  {
    fix t1 t2 i ws assume e: "e = Round t1 t2 i ws"
    obtain got p q where r: "usbhid_recv i (lp_q l) (replicate 64 0) = (got, p, q)" by (metis prod_cases3)
    obtain ms q2 where w: "wait_takes ws q = (ms, q2)" by fastforce
    note rr = recv_ring[OF _ r]
    have q2: "ring_ok 100 64 q" "ring_ok 100 64 q2" using rr(1) h waits_ring[OF _ w] by simp_all
    have sf: "got > 0 \<Longrightarrow> res_ok (ctaphid_handle_packet m app t1 p (lp_hid l))" for m
      using sub_okD[OF handle_packet_ok[OF a]] rr(2) h by blast
    have "case loop_step n app e l of Inl e \<Rightarrow> e = Deep | Inr l' \<Rightarrow> loop_ok l'"
      using sf[of n] q2 h d
      by (cases "ctaphid_handle_packet n app t1 p (lp_hid l)")
        (auto simp: e main_round_def r w loop_ok_def check_timeouts_ok)
    moreover have "\<exists>l'. loop_step (Suc n) app e l = Inr l'" if quiet: "app_quiet app"
    proof (cases "got > 0")
      case True
      then obtain rc h' where "handle_with app t1 (ctaphid_handle_packet n app t1) p (lp_hid l) = Inr (rc, h')"
        using quiet_returns[OF quiet, of "lp_hid l" p t1] rr(2) h by blast
      then show ?thesis by (simp add: e main_round_def r w True)
    qed (simp add: e main_round_def r)
    ultimately have "(case loop_step n app e l of Inl e \<Rightarrow> e = Deep | Inr l' \<Rightarrow> loop_ok l')
      \<and> (app_quiet app \<longrightarrow> (\<exists>l'. loop_step (Suc n) app e l = Inr l'))" by blast
  }
  note rnd = this
  have arr: "ring_ok 100 64 (snd (fifo_add 100 64 (lp_q l) p))" for p using ring_adds[of 100 64 "lp_q l" "[p]"] h by simp
  show "case loop_step n app e l of Inl e \<Rightarrow> e = Deep | Inr l' \<Rightarrow> loop_ok l'"
    using rnd h k arr by (cases e) (auto simp: loop_ok_def usb_hid_recieve_callback_def split: prod.splits)
  show "\<exists>l'. loop_step (Suc n) app e l = Inr l'" if "app_quiet app"
    using rnd that by (cases e) (auto split: prod.splits)
qed

lemma loop_safe:
  assumes "app_ok app"
  shows "loop_ok l \<Longrightarrow> case main_loop n app es l of Inl e \<Rightarrow> e = Deep | Inr l' \<Rightarrow> loop_ok l'"
    and "loop_ok l \<Longrightarrow> app_quiet app \<Longrightarrow> \<exists>l'. main_loop (Suc n) app es l = Inr l'"
proof -
  show "loop_ok l \<Longrightarrow> case main_loop n app es l of Inl e \<Rightarrow> e = Deep | Inr l' \<Rightarrow> loop_ok l'"
  proof (induction es arbitrary: l)
    case (Cons e es)
    then show ?case using step_safe(1)[OF assms Cons.prems, of n e] by (cases "loop_step n app e l") auto
  qed simp
  show "loop_ok l \<Longrightarrow> app_quiet app \<Longrightarrow> \<exists>l'. main_loop (Suc n) app es l = Inr l'"
  proof (induction es arbitrary: l)
    case (Cons e es)
    obtain l1 where l1: "loop_step (Suc n) app e l = Inr l1" using step_safe(2)[OF assms Cons.prems(1,2), of n e] by blast
    then have "loop_ok l1" using step_safe(1)[OF assms Cons.prems(1), of "Suc n" e] by simp
    then show ?case using Cons.IH Cons.prems(2) l1 by simp
  qed simp
qed

subsection \<open>Requests that are not interrupted\<close>

text \<open>A request of an application that never waits for a report handles its own report and no other.\<close>

lemma heard_frames [simp]:
  "h_heard (snd (add_cid c now h)) = h_heard h" "h_heard (snd (cid_refresh c now h)) = h_heard h" "h_heard (snd (cid_del c h)) = h_heard h"
  "h_heard (buffer_reset h) = h_heard h" "h_heard (send_reports rs h) = h_heard h" "h_heard (ctaphid_send_error c e h) = h_heard h"
  "h_heard (send_init_response o1 c x h) = h_heard h" "h_heard (snd (get_new_cid h)) = h_heard h" "h_heard (ctaphid_init h) = h_heard h"
  "h_heard (wb_write d h) = h_heard h" "h_heard (wb_flush h) = h_heard h" "h_heard (wb_set_bcnt k h) = h_heard h" "h_heard (emit ev h) = h_heard h"
  "h_heard (snd (buffer_packet p h)) = h_heard h"
  by (simp_all add: add_cid_def cid_refresh_def cid_del_def on_table_def split_beta buffer_reset_def send_reports_def ctaphid_send_error_def
      send_init_response_def get_new_cid_def Let_def ctaphid_init_def wb_write_def wb_flush_def wb_set_bcnt_def emit_def buffer_packet_def)

lemma buffer_init_heard: "ctaphid_buffer_init now p h = (st, cmd, len, h') \<Longrightarrow> h_heard h' = h_heard h"
  by (auto simp: ctaphid_buffer_init_def Let_def split_beta split: if_splits)

lemma buffer_heard: "ctaphid_buffer_packet now p h = Inr (st, cmd, len, h') \<Longrightarrow> h_heard h' = h_heard h"
  by (auto simp: ctaphid_buffer_packet_def ctaphid_buffer_data_def Let_def split_beta dest: buffer_init_heard split: if_splits)

lemma done_heard: "handle_done cid cmd h = Inr (r, h') \<Longrightarrow> h_heard h' = h_heard h"
  by (auto simp: handle_done_def Let_def)

lemma quiet_config_heard:
  assumes "app_quiet app" "ctap_user_presence_test_config app sub h = Inr (r, h')"
  shows "h_heard h' = h_heard h"
proof -
  obtain evs a where e: "ap_up app (h_app h) = (evs, a)" by fastforce
  then have "\<forall>ev\<in>set evs. snd ev = None" using assms(1) unfolding app_quiet_def by (metis fst_conv)
  then show ?thesis using assms(2) e by (auto simp: ctap_user_presence_test_config_def quiet_up_wait split: option.splits)
qed

lemma quiet_custom_heard:
  assumes "app_quiet app" "ctaphid_custom_command app sub h = Inr (r, h')"
  shows "h_heard h' = h_heard h"
  using assms(2) quiet_config_heard[OF assms(1), of sub h]
  by (auto simp: ctaphid_custom_command_def Let_def seqE_Inr split: if_splits prod.splits)

lemma quiet_cbor_heard:
  assumes "app_quiet app" "run_cbor app sub cid cmd len h = Inr (r, h')"
  shows "h_heard h' = h_heard h"
proof -
  obtain ps st resp a where e: "ap_cbor app (h_app h) (take (nat len) (h_buf h)) = (ps, st, resp, a)" by (metis prod_cases4)
  then have "ps = []" using assms(1) unfolding app_quiet_def by (metis fst_conv)
  with e show ?thesis using assms(2) by (auto simp: run_cbor_def Let_def dest: done_heard)
qed

lemma quiet_msg_heard:
  assumes "app_quiet app" "run_msg app sub cid cmd h = Inr (r, h')"
  shows "h_heard h' = h_heard h"
proof -
  obtain ps resp a where e: "ap_msg app (h_app h) (h_buf h) = (ps, resp, a)" by (metis prod_cases3)
  then have "ps = []" using assms(1) unfolding app_quiet_def by (metis fst_conv)
  with e show ?thesis using assms(2) by (auto simp: run_msg_def Let_def dest: done_heard)
qed

lemma quiet_dispatch_heard:
  assumes "app_quiet app" "dispatch app sub cid cmd len h = Inr (r, h')"
  shows "h_heard h' = h_heard h"
  using assms(2) quiet_cbor_heard[OF assms(1)] quiet_msg_heard[OF assms(1)] quiet_custom_heard[OF assms(1)]
  by (fastforce simp: dispatch_def dispatch_app_def Let_def seqE_Inr dest: done_heard split: if_splits)

lemma quiet_heard:
  assumes "app_quiet app" "ctaphid_handle_packet n app now p h = Inr (r, h')"
  shows "h_heard h' = h_heard h @ [p]"
proof (cases n)
  case (Suc m)
  then obtain st cmd len g where g: "ctaphid_buffer_packet now p h = Inr (st, cmd, len, g)"
    using assms(2) by (auto simp: handle_with_def seqE_Inr)
  then show ?thesis using assms(2) buffer_heard[OF g] quiet_dispatch_heard[OF assms(1)]
    by (auto simp: Suc handle_with_def Let_def split: if_splits)
qed (use assms(2) in simp)

primrec no_waits :: "loop_event list \<Rightarrow> bool" where
  "no_waits [] = True"
| "no_waits (e # es) = ((case e of Round t1 t2 i ws \<Rightarrow> ws = [] | _ \<Rightarrow> True) \<and> no_waits es)"

lemma quiet_linked:
  assumes "app_quiet app"
  shows "lp_linked l \<Longrightarrow> no_waits es \<Longrightarrow> main_loop n app es l = Inr l' \<Longrightarrow> lp_linked l'"
proof (induction es arbitrary: l)
  case (Cons e es)
  obtain l1 where l1: "loop_step n app e l = Inr l1" "main_loop n app es l1 = Inr l'" using Cons.prems(3) by (auto simp: seqE_Inr)
  have "lp_linked l1"
  proof (cases e)
    case (Round t1 t2 i ws)
    obtain got p q where r: "usbhid_recv i (lp_q l) (replicate 64 0) = (got, p, q)" by (metis prod_cases3)
    have "ws = []" using Cons.prems(2) Round by simp
    then show ?thesis using l1(1) Cons.prems(1) quiet_heard[OF assms, of n t1 p "lp_hid l"]
      by (auto simp: Round main_round_def r seqE_Inr split: if_splits)
  qed (use l1(1) Cons.prems(1) in \<open>auto simp: usb_hid_recieve_callback_def split: prod.splits\<close>)
  then show ?case using Cons.IH l1(2) Cons.prems(2) by simp
qed simp

subsection \<open>The claim\<close>

text \<open>C10 (refinement). The main loop with the USB interrupt behaves like one that keeps the waiting reports in a list of at most 100: whatever arrives
  between the rounds, in the middle of a take and while a request waits, the reports are handed to the transport one by one, the ones that the waits
  of a request take from the queue included, in the order of their arrival and none twice, and one is lost only when it arrives while 100 wait. The
  timeouts come where the specification puts them, whatever the positions in the ring buffer. No interrupt may fall between the load and the store of the size
  in a take: that window is the subject of the next lemma.\<close>

theorem main_loop_in_order:
  assumes "fifo_ok 100 64 (lp_q l)" "list_all (\<lambda>p. length p = 64) (arrivals es)" "none_torn es"
    and "fifo_items 100 64 (lp_q l) = waiting" "loop_spec es waiting (lp_keeper l) = (as, q)"
  shows "(case main_loop n app es l of
      Inl e \<Rightarrow> do_acts n app as (lp_hid l) = Inl e
    | Inr l' \<Rightarrow> do_acts n app as (lp_hid l) = Inr (lp_hid l') \<and> fifo_items 100 64 (lp_q l') = q
        \<and> (lp_linked l' \<longrightarrow> h_heard (lp_hid l') = h_heard (lp_hid l) @ handled as)
        \<and> (app_quiet app \<and> no_waits es \<and> lp_linked l \<longrightarrow> lp_linked l'))
    \<and> subseq (handled as @ q) (waiting @ arrivals es)
    \<and> (never_full es (length waiting) \<longrightarrow> handled as @ q = waiting @ arrivals es)"
proof (intro conjI impI)
  show "case main_loop n app es l of
      Inl e \<Rightarrow> do_acts n app as (lp_hid l) = Inl e
    | Inr l' \<Rightarrow> do_acts n app as (lp_hid l) = Inr (lp_hid l') \<and> fifo_items 100 64 (lp_q l') = q
        \<and> (lp_linked l' \<longrightarrow> h_heard (lp_hid l') = h_heard (lp_hid l) @ handled as)
        \<and> (app_quiet app \<and> no_waits es \<and> lp_linked l \<longrightarrow> lp_linked l')"
    using loop_refines[OF assms(1-3), of as q n app] assms(4,5) quiet_linked[of app l es n] by (auto simp: loop_shows_def split: sum.splits)
qed (rule spec_in_order[OF assms(5)], rule spec_lossless[OF _ assms(5)])

text \<open>An interrupt in that window: the loop takes the first report, the one that arrives is in the buffer but not in the count, and with no
  other report waiting the loop finds the queue empty. The next report shows it and is hidden in its place.\<close>

lemma torn_take_hides_report:
  assumes "fifo_ok 100 64 q" "fifo_items 100 64 q = [x]" "length p = 64" "length p2 = 64"
  obtains q' where "usbhid_recv (no_irq\<lparr>ti_torn := [p]\<rparr>) q msg = (64, x, q')" "usbhid_recv no_irq q' msg = (0, msg, q')"
    "fifo_items 100 64 (snd (fifo_add 100 64 q' p2)) = [p]"
proof -
  have s: "f_size q = 1" using assms(2) length_fifo_items[of 100 64 q] by simp
  have z: "length ([] :: bytes list) + 1 < 100" by simp
  obtain q1 where q1: "fifo_take_irq 100 64 (no_irq\<lparr>ti_torn := [p]\<rparr>) q = (0, x, lagging q1)" "fifo_ok 100 64 q1"
      "fifo_items 100 64 q1 = [] @ [p]" "fifo_items 100 64 (lagging q1) = []"
    by (rule torn_take[OF assms(1,2) z assms(3)])
  have "f_size q1 = 1" using q1(3) length_fifo_items[of 100 64 q1] by simp
  then have "fifo_items 100 64 (snd (fifo_add 100 64 (lagging q1) p2)) = [p]"
    using lagging_add[OF q1(2) _ _ assms(4)] q1(3) by simp
  moreover have "f_size (lagging q1) = 0" using q1(4) length_fifo_items[of 100 64 "lagging q1"] by simp
  ultimately show thesis
    using q1(1) s by (intro that[of "lagging q1"]) (simp_all add: usbhid_recv_def fifo_count_def no_irq_def irq_all_def)
qed

definition loop_start :: "'a \<Rightarrow> 'a loop" where
  "loop_start a = \<lparr>lp_q = fifo_empty 100 64, lp_hid = hid_start a, lp_keeper = \<lparr>kp_status = 0, kp_update = 0\<rparr>, lp_linked = True\<rparr>"

lemma loop_start_ok: "loop_ok (loop_start a)"
  by (simp add: loop_ok_def loop_start_def hid_start_ok fifo_ok_ring fifo_empty_ok)

text \<open>A request that handles a report while it waits: an application that answers a request after one more report, and the requests of the run.\<close>

definition stray :: bytes where "stray = u32_le_bytes CTAPHID_BROADCAST_CID @ 0x90 # replicate 59 0"

definition asking_app :: "unit hid_app" where
  "asking_app = echo_app\<lparr>ap_cbor := (\<lambda>a r. ([stray], 0, r, a))\<rparr>"

definition asking :: bytes where
  "asking = u32_le_bytes 5 @ [CTAPHID_CBOR, 0, 1] @ [4] @ replicate 56 0"

definition asking_run :: "loop_event list" where
  "asking_run = [Arrives asking, Round 5 5 (no_irq\<lparr>ti_copied := [stray]\<rparr>) [no_irq, no_irq\<lparr>ti_moved := [stray]\<rparr>]]"

lemma stray_heard: "\<exists>h'. ctaphid_handle_packet (Suc n) app now stray h = Inr (0, h') \<and> h_heard h' = h_heard h @ [stray]"
proof -
  have "p_cid stray = CTAPHID_BROADCAST_CID" "\<not> is_init_pkt stray"
    by (simp_all add: stray_def is_init_pkt_def CTAPHID_INIT_def)
  then show ?thesis
    by (simp add: handle_with_def ctaphid_buffer_packet_def ctaphid_buffer_data_def Let_def)
qed

lemma asking_heard: "\<exists>r h. ctaphid_handle_packet 2 asking_app now asking (hid_start ()) = Inr (r, h) \<and> h_heard h = [asking, stray]"
proof -
  have c: "CTAPHID_CBOR AND TYPE_INIT \<noteq> 0" "CTAPHID_CBOR \<noteq> CTAPHID_INIT" by (simp_all add: hid_cmds)
  have i: "can_use 5 (hid_start ())" "h_bcnt (hid_start ()) = 0" "(5 :: u32) \<noteq> CTAPHID_BROADCAST_CID"
    using hid_start_idle[of 5 "()"] by (simp_all add: idle_on_def CTAPHID_BROADCAST_CID_def)
  obtain h1 where h1: "ctaphid_buffer_packet now asking (hid_start ()) = Inr (buffer_status h1, CTAPHID_CBOR, 1, h1)"
      "collecting 5 CTAPHID_CBOR [4] 1 (-1) h1" "same_world (hid_start ()) h1"
    using start_packet[OF hid_start_ok i(2,3,1) c, of "[4]" asking now] by (auto simp: asking_def CTAPHID_BUFFER_SIZE_def)
  have f: "h_bcnt h1 = 1" "h_off h1 = 1" "\<not> h_busy h1" "h_heard h1 = []"
    using h1(2,3) buffer_heard[OF h1(1)] by (simp_all add: collecting_def same_world_def hid_start_def)
  then have b: "buffer_status h1 \<noteq> BUFFERING" "buffer_status h1 \<noteq> HID_IGNORE" "buffer_status h1 \<noteq> HID_ERROR" by simp_all
  have p: "p_cid asking = 5" by (simp add: asking_def)
  let ?g = "h1\<lparr>h_wb := ctaphid_write_buffer_init\<lparr>w_cid := 5, w_cmd := CTAPHID_CBOR\<rparr>, h_heard := [asking], h_busy := True, h_app := ()\<rparr>"
  define nested where "nested = ctaphid_handle_packet (Suc 0) asking_app now"
  obtain h2 where h2: "nested stray ?g = Inr (0, h2)" "h_heard h2 = [asking, stray]"
    using stray_heard[of 0 asking_app now ?g] by (auto simp: nested_def)
  have a: "ap_cbor asking_app x r = ([stray], 0, r, x)" for x r by (simp add: asking_app_def)
  have n: "ctaphid_handle_packet 2 asking_app now = handle_with asking_app now nested" by (simp add: numeral_2_eq_2 nested_def)
  show ?thesis unfolding n
    using h2 f b h1(1) p
    by (simp add: handle_with_def Let_def dispatch_def dispatch_app_def run_cbor_def a hid_cmds handle_done_def)
qed

lemma asking_linked: "\<exists>l. main_loop 2 asking_app asking_run (loop_start ()) = Inr l \<and> lp_linked l"
proof -
  let ?l = "usb_hid_recieve_callback asking (loop_start ())" and ?i = "no_irq\<lparr>ti_copied := [stray]\<rparr>"
    and ?ws = "[no_irq, no_irq\<lparr>ti_moved := [stray]\<rparr>]"
  have z: "fifo_ok 100 64 (fifo_empty 100 64)" by (simp add: fifo_empty_ok)
  have len: "length asking = 64" "length stray = 64" by (simp_all add: asking_def stray_def)
  have q: "fifo_ok 100 64 (lp_q ?l)" "fifo_items 100 64 (lp_q ?l) = [asking]"
    using adds_items[OF z, of "[asking]"] len by (simp_all add: usb_hid_recieve_callback_def loop_start_def)
  have r: "recv_spec ?i (fifo_items 100 64 (lp_q ?l)) = ([asking], [stray])" "waits_spec ?ws [stray] = ([stray], [stray])"
    by (simp_all add: q(2) recv_spec_def irq_all_def no_irq_def)
  have n: "untorn ?i" "list_all untorn ?ws" "list_all (\<lambda>p. length p = 64) (irq_all ?i)" "list_all (\<lambda>p. length p = 64) (concat (map irq_all ?ws))"
    using len by (simp_all add: untorn_def irq_all_def no_irq_def)
  obtain rc h where h: "ctaphid_handle_packet 2 asking_app 5 asking (hid_start ()) = Inr (rc, h)" "h_heard h = [asking, stray]"
    using asking_heard by blast
  have s: "lp_hid ?l = hid_start ()" "lp_linked ?l" "h_heard (hid_start ()) = []" by (simp_all add: usb_hid_recieve_callback_def loop_start_def hid_start_def)
  obtain l where "main_round 2 asking_app 5 5 ?i ?ws ?l = Inr l" "lp_linked l"
    using round_refines(2)[OF q(1) n r(1) refl r(2), of 2 asking_app 5 5] h s by auto
  then show ?thesis by (simp add: asking_run_def)
qed

text \<open>A report arrives while the first one is taken; and the run with the wait.\<close>

definition busy_take :: "loop_event list" where
  "busy_take = [Arrives (replicate 64 1), Round 5 5 (no_irq\<lparr>ti_copied := [replicate 64 2]\<rparr>) [], Overflow 90]"

lemma main_loop_in_order_witness:
  "(\<exists>l. main_loop 1 echo_app busy_take (loop_start ()) = Inr l \<and> lp_linked l
     \<and> h_heard (lp_hid l) = [replicate 64 1] \<and> fifo_items 100 64 (lp_q l) = [replicate 64 2])
   \<and> (\<exists>l. main_loop 2 asking_app asking_run (loop_start ()) = Inr l
     \<and> h_heard (lp_hid l) = [asking, stray] \<and> fifo_items 100 64 (lp_q l) = [stray])"
proof
  have l: "lp_q (loop_start ()) = fifo_empty 100 64" "lp_keeper (loop_start ()) = \<lparr>kp_status = 0, kp_update = 0\<rparr>" "lp_hid (loop_start ()) = hid_start ()"
    "lp_linked (loop_start ())" "h_heard (hid_start ()) = []"
    by (simp_all add: loop_start_def hid_start_def)
  have s: "loop_spec busy_take [] (lp_keeper (loop_start ())) = ([Handled 5 (replicate 64 1) [], Timeouts 5], [replicate 64 2])"
    by (simp add: busy_take_def l(2) TIM6_DAC_IRQHandler_def CTAPHID_STATUS_IDLE_def alive_def recv_spec_def irq_all_def no_irq_def)
  have k: "fifo_ok 100 64 (lp_q (loop_start ()))" "list_all (\<lambda>p. length p = 64) (arrivals busy_take)" "none_torn busy_take"
      "fifo_items 100 64 (lp_q (loop_start ())) = []" "no_waits busy_take"
    by (simp_all add: l(1) fifo_empty_ok busy_take_def irq_all_def no_irq_def untorn_def)
  obtain l' where l': "main_loop (Suc 0) echo_app busy_take (loop_start ()) = Inr l'"
    using loop_safe(2)[OF app_quiet_ok[OF echo_quiet] loop_start_ok echo_quiet, of 0] by blast
  have "lp_linked l' \<and> h_heard (lp_hid l') = [replicate 64 1] \<and> fifo_items 100 64 (lp_q l') = [replicate 64 2]"
    using main_loop_in_order[OF k(1-4) s, of "Suc 0" echo_app] l' l echo_quiet k(5) by simp
  then show "\<exists>l. main_loop 1 echo_app busy_take (loop_start ()) = Inr l \<and> lp_linked l
     \<and> h_heard (lp_hid l) = [replicate 64 1] \<and> fifo_items 100 64 (lp_q l) = [replicate 64 2]" using l' unfolding One_nat_def by blast
next
  have len: "length asking = 64" "length stray = 64" by (simp_all add: asking_def stray_def)
  obtain l where l: "main_loop 2 asking_app asking_run (loop_start ()) = Inr l" "lp_linked l" using asking_linked by blast
  have s: "loop_spec asking_run [] (lp_keeper (loop_start ())) = ([Handled 5 asking [stray], Timeouts 5], [stray])"
    by (simp add: asking_run_def recv_spec_def irq_all_def no_irq_def)
  have k: "fifo_ok 100 64 (lp_q (loop_start ()))" "list_all (\<lambda>p. length p = 64) (arrivals asking_run)" "none_torn asking_run"
      "fifo_items 100 64 (lp_q (loop_start ())) = []" "h_heard (lp_hid (loop_start ())) = []"
    using len by (simp_all add: loop_start_def hid_start_def fifo_empty_ok asking_run_def irq_all_def no_irq_def untorn_def)
  show "\<exists>l. main_loop 2 asking_app asking_run (loop_start ()) = Inr l
     \<and> h_heard (lp_hid l) = [asking, stray] \<and> fifo_items 100 64 (lp_q l) = [stray]"
    using main_loop_in_order[OF k(1-4) s, of 2 asking_app] l k(5) by auto
qed

end
