(* ===== verification/UsbDevice.thy ===== *)
theory UsbDevice
  imports MainLoop DeviceRuns ButtonClaims SettingsClaims
begin

text \<open>
  The device on USB: the transport of \<^verbatim>\<open>fido2/ctaphid.c\<close> with the real application behind it, that is CTAP2 (\<open>ctap_request\<close>), U2F
  (\<open>u2f_request\<close>), the random numbers, the status of the button, and the lock. What happens outside during a call is an input: the touch, the reports handled
  meanwhile, and the pin and the clock of a status request. The response bytes are what the encoder makes of the calls.
\<close>

record usb_in =
  ui_ps :: presence
  ui_reports :: "bytes list"
  ui_up :: "up_round list"
  ui_pin :: bool
  ui_ms :: "u32 \<times> u32"

text \<open>\<open>ua_calls\<close> counts the calls with an input; \<open>ua_halted\<close>: the authenticator called \<open>exit(1)\<close>, after which nothing is said of the device (the
  firmware stands still until the next power cycle; the model keeps the state it stopped in). \<open>ua_worn\<close> is a history variable: some call found the
  signature counter worn out, that is within 256 of 2^31 (\<open>counter_room\<close>).\<close>

record usb =
  ua_dev :: ctap_dev
  ua_gpio :: gpio
  ua_calls :: nat
  ua_halted :: bool
  ua_worn :: bool

definition usb_next :: "ctap_dev \<Rightarrow> usb \<Rightarrow> usb" where
  "usb_next d a = a\<lparr>ua_dev := d, ua_calls := Suc (ua_calls a), ua_worn := ua_worn a \<or> \<not> counter_room (ua_dev a)\<rparr>"

text \<open>The case CTAPHID_CBOR.\<close>

definition usb_cbor :: "'v cbor \<Rightarrow> environ \<Rightarrow> (nat \<Rightarrow> usb_in) \<Rightarrow> usb \<Rightarrow> bytes \<Rightarrow> bytes list \<times> u8 \<times> bytes \<times> usb" where
  "usb_cbor cb env inp a req =
     (let i = inp (ua_calls a) in
      if ua_halted a then ([], 0, [], a)
      else case ctap_request cb env (ui_ps i) (env_enc_err env CTAP_RESPONSE_BUFFER_SIZE) (req ! 0) (drop 1 req) (ua_dev a) of
        Inl d \<Rightarrow> ([], 0, [], a\<lparr>ua_dev := d, ua_halted := True\<rparr>)
      | Inr (code, tr, d) \<Rightarrow>
          let status = (word_of_int code :: u8) in
          (ui_reports i, status, if status = 0 \<and> tr \<noteq> [] then env_enc env tr else [], usb_next d a))"

text \<open>The case CTAPHID_MSG.\<close>

definition usb_msg :: "environ \<Rightarrow> (nat \<Rightarrow> usb_in) \<Rightarrow> usb \<Rightarrow> bytes \<Rightarrow> bytes list \<times> bytes \<times> usb" where
  "usb_msg env inp a apdu =
     (let i = inp (ua_calls a) in
      if ua_halted a then ([], [], a)
      else case u2f_request env (ui_ps i) apdu (ua_dev a) of
        Inl d \<Rightarrow> ([], [], a\<lparr>ua_dev := d, ua_halted := True\<rparr>)
      | Inr (resp, d) \<Rightarrow> (ui_reports i, resp, usb_next d a))"

definition fido_app :: "'v cbor \<Rightarrow> environ \<Rightarrow> (nat \<Rightarrow> usb_in) \<Rightarrow> usb hid_app" where
  "fido_app cb env inp =
     \<lparr>ap_cbor = usb_cbor cb env inp,
      ap_msg = usb_msg env inp,
      ap_up = (\<lambda>a. (ui_up (inp (ua_calls a)), usb_next (ua_dev a) a)),
      ap_up_skip = (\<lambda>a. if ps_nfc (ui_ps (inp (ua_calls a))) then Some 1 else if d_up_off (ua_dev a) then Some 2 else None),
      ap_rng = (\<lambda>a n. case ctap_generate_rng env n (ua_dev a) of (rnd, d) \<Rightarrow> (rnd, a\<lparr>ua_dev := d\<rparr>)),
      ap_status = (\<lambda>a. let i = inp (ua_calls a) in ctap_get_status_data (ui_pin i) (fst (ui_ms i)) (snd (ui_ms i)) (ua_gpio a)),
      ap_version = (case env_version env of (major, minor, patch) \<Rightarrow> [major, minor, patch]),
      ap_locked = (\<lambda>a. if solo_is_locked (d_flash (ua_dev a)) then 1 else 0),
      ap_lock = (\<lambda>a. a\<lparr>ua_dev := (ua_dev a)\<lparr>d_flash := solo_lock_if_not_already (env_prog env) (d_flash (ua_dev a))\<rparr>\<rparr>)\<rparr>"

subsection \<open>The lock leaves the authenticator's pages alone\<close>

lemma above_att: "ATT_OFF + FLASH_PAGE_SIZE \<le> a \<Longrightarrow> same_elsewhere f g \<Longrightarrow> flash_read g a n = flash_read f a n"
  by (intro flash_read_eqI) (auto simp: same_elsewhere_def)

lemma data_pages: "113 < p \<Longrightarrow> ATT_OFF + FLASH_PAGE_SIZE \<le> flash_addr p"
  by (simp add: att_off flash_addr_def)

lemma elsewhere_state: "same_elsewhere f g \<Longrightarrow> stored_twice s g = stored_twice s f"
  by (simp add: stored_twice_def above_att data_pages STATE1_PAGE_def STATE2_PAGE_def)

lemma elsewhere_slots: "same_elsewhere f g \<Longrightarrow> rk_slots g = rk_slots f"
proof -
  assume e: "same_elsewhere f g"
  have "ATT_OFF + FLASH_PAGE_SIZE \<le> flash_addr (rk_page i + RK_START_PAGE) + rk_offset i" for i
    using data_pages[of "rk_page i + RK_START_PAGE"] by (simp add: RK_START_PAGE_def)
  then show ?thesis using e by (simp add: rk_slots_def ctap_load_rk_def above_att)
qed

lemma elsewhere_counter:
  assumes "same_elsewhere f g" "ctr_view f cs e"
  shows "ctr_view g cs e"
proof -
  have s: "g x = f x" if "ATT_OFF + FLASH_PAGE_SIZE \<le> x" for x using assms(1) that by (simp add: same_elsewhere_def)
  have p: "ATT_OFF + FLASH_PAGE_SIZE \<le> flash_addr COUNTER1_PAGE" "ATT_OFF + FLASH_PAGE_SIZE \<le> flash_addr COUNTER2_PAGE"
    by (simp_all add: data_pages COUNTER1_PAGE_def COUNTER2_PAGE_def)
  have "rd32 g (flash_addr COUNTER1_PAGE + 8 * i) = rd32 f (flash_addr COUNTER1_PAGE + 8 * i)" for i
    by (rule rd32_cong) (use p(1) s in simp)
  moreover have "rd32 g (flash_addr COUNTER2_PAGE) = rd32 f (flash_addr COUNTER2_PAGE)"
    by (rule rd32_cong) (use p(2) s in simp)
  moreover have "erased g (flash_addr COUNTER1_PAGE + k) n = erased f (flash_addr COUNTER1_PAGE + k) n" for k n
    using p(1) s by (simp add: erased_def)
  ultimately show ?thesis using assms(2) by (simp add: ctr_view_def)
qed

lemma elsewhere_quiet:
  assumes "core_inv d" "same_elsewhere (d_flash d) f"
  shows "quiet d (d\<lparr>d_flash := f\<rparr>)"
proof -
  obtain cs e where v: "ctr_view (d_flash d) cs e" using assms(1) by (auto simp: core_inv_def counter_inv_def ctr_ok_def)
  note v2 = elsewhere_counter[OF assms(2) v]
  have fl: "counter_floor f = counter_floor (d_flash d)" using counter_floor_view[OF v] counter_floor_view[OF v2] by simp
  have "ctr_ok f" using v2 by (auto simp: ctr_ok_def)
  then show ?thesis using assms fl
    by (simp add: quiet_def core_inv_def dev_ok_def rk_counted_def counter_inv_def elsewhere_state elsewhere_slots)
qed

subsection \<open>Any traffic\<close>

text \<open>What a report can do to the device.\<close>

inductive usb_step :: "'v cbor \<Rightarrow> environ \<Rightarrow> ctap_dev \<Rightarrow> ctap_dev \<Rightarrow> bool" for cb :: "'v cbor" and env :: environ where
  usb_request: "device_step cb env d d' \<Longrightarrow> usb_step cb env d d'"
| usb_random: "usb_step cb env d (snd (ctap_generate_rng env n d))"
| usb_lock: "usb_step cb env d (d\<lparr>d_flash := solo_lock_if_not_already (env_prog env) (d_flash d)\<rparr>)"

inductive_cases usb_stepE: "usb_step cb env d d'"

lemma usb_step_later:
  assumes "cbor_ok cb" "env_ok env" "qsort_ok (env_qsort env)" "device_inv d" "usb_step cb env d d'"
  shows "device_inv d' \<and> later d d'"
proof -
  have c: "core_inv d" "\<not> d_up_off d" using assms(4) by (simp_all add: device_inv_def)
  have q: "quiet d d' \<Longrightarrow> ?thesis" using c(2) quiet_later[of d d'] by (auto simp: device_inv_def quiet_def)
  show ?thesis using assms(5)
  proof (rule usb_stepE)
    assume "device_step cb env d d'"
    then show ?thesis by (rule device_step_later[OF assms(1-4)])
  next
    fix n assume "d' = snd (ctap_generate_rng env n d)"
    then show ?thesis using c(1) by (intro q) (simp add: quiet_def core_inv_def dev_ok_def rk_counted_def counter_inv_def ctap_generate_rng_def Let_def crypto_ok_def)
  next
    assume "d' = d\<lparr>d_flash := solo_lock_if_not_already (env_prog env) (d_flash d)\<rparr>"
    then show ?thesis using elsewhere_quiet[OF c(1) lock_page(2)] assms(2) q by (simp add: env_ok_def)
  qed
qed

lemma usb_run_later:
  assumes "cbor_ok cb" "env_ok env" "qsort_ok (env_qsort env)" "device_inv d0" "(usb_step cb env)\<^sup>*\<^sup>* d0 d"
  shows "device_inv d \<and> later d0 d"
  using assms(5)
proof (induction rule: rtranclp_induct)
  case base
  then show ?case using assms(4) quiet_later by (simp add: device_inv_def)
next
  case (step y z)
  then show ?case using usb_step_later[OF assms(1-3), of y z] later_trans by blast
qed

text \<open>The device got where its steps lead, unless it stopped or was used with the counter worn out.\<close>

definition usb_reached :: "'v cbor \<Rightarrow> environ \<Rightarrow> ctap_dev \<Rightarrow> usb \<Rightarrow> bool" where
  "usb_reached cb env d0 a \<longleftrightarrow> ua_halted a \<or> ua_worn a \<or> (usb_step cb env)\<^sup>*\<^sup>* d0 (ua_dev a)"

lemma reached_step:
  assumes "usb_reached cb env d0 a" "ua_halted a \<Longrightarrow> ua_halted a'" "ua_worn a \<Longrightarrow> ua_halted a' \<or> ua_worn a'"
    and "ua_halted a' \<or> ua_worn a' \<or> ua_dev a' = ua_dev a \<or> usb_step cb env (ua_dev a) (ua_dev a')"
  shows "usb_reached cb env d0 a'"
  using assms unfolding usb_reached_def by (metis rtranclp.rtrancl_into_rtrancl)

interpretation fido: app_inv "fido_app cb env inp" "usb_reached cb env d0" for cb env inp d0
proof
  fix a a' req ps st resp
  assume i: "usb_reached cb env d0 a" and e: "ap_cbor (fido_app cb env inp) a req = (ps, st, resp, a')"
  have "ua_halted a \<Longrightarrow> ua_halted a'" using e by (auto simp: fido_app_def usb_cbor_def Let_def)
  moreover have "ua_worn a \<Longrightarrow> ua_halted a' \<or> ua_worn a'"
    using e by (auto simp: fido_app_def usb_cbor_def usb_next_def Let_def split: if_splits sum.splits)
  moreover have "ua_halted a' \<or> ua_worn a' \<or> ua_dev a' = ua_dev a \<or> usb_step cb env (ua_dev a) (ua_dev a')"
    using e by (auto simp: fido_app_def usb_cbor_def usb_next_def Let_def split: if_splits sum.splits
        intro: usb_request[OF device_step.ctap2_step])
  ultimately show "usb_reached cb env d0 a'" by (rule reached_step[OF i])
next
  fix a a' req ps resp
  assume i: "usb_reached cb env d0 a" and e: "ap_msg (fido_app cb env inp) a req = (ps, resp, a')"
  have "ua_halted a \<Longrightarrow> ua_halted a'" using e by (auto simp: fido_app_def usb_msg_def Let_def)
  moreover have "ua_worn a \<Longrightarrow> ua_halted a' \<or> ua_worn a'"
    using e by (auto simp: fido_app_def usb_msg_def usb_next_def Let_def split: if_splits sum.splits)
  moreover have "ua_halted a' \<or> ua_worn a' \<or> ua_dev a' = ua_dev a \<or> usb_step cb env (ua_dev a) (ua_dev a')"
    using e by (auto simp: fido_app_def usb_msg_def usb_next_def Let_def split: if_splits sum.splits
        intro: usb_request[OF device_step.u2f_step])
  ultimately show "usb_reached cb env d0 a'" by (rule reached_step[OF i])
next
  fix a a' evs
  assume i: "usb_reached cb env d0 a" and "ap_up (fido_app cb env inp) a = (evs, a')"
  then have "ua_dev a' = ua_dev a" "ua_halted a' = ua_halted a" "ua_worn a \<Longrightarrow> ua_worn a'" by (auto simp: fido_app_def usb_next_def)
  then show "usb_reached cb env d0 a'" by (intro reached_step[OF i]) simp_all
next
  fix a a' k rnd
  assume i: "usb_reached cb env d0 a" and "ap_rng (fido_app cb env inp) a k = (rnd, a')"
  then have "ua_dev a' = snd (ctap_generate_rng env k (ua_dev a))" "ua_halted a' = ua_halted a" "ua_worn a' = ua_worn a"
    by (auto simp: fido_app_def split_beta)
  then show "usb_reached cb env d0 a'" by (intro reached_step[OF i]) (simp_all add: usb_random)
next
  fix a
  assume i: "usb_reached cb env d0 a"
  show "usb_reached cb env d0 (ap_lock (fido_app cb env inp) a)"
    by (rule reached_step[OF i]) (simp_all add: fido_app_def usb_lock)
qed

definition usb_start :: "ctap_dev \<Rightarrow> gpio \<Rightarrow> usb" where
  "usb_start d b = \<lparr>ua_dev = d, ua_gpio = b, ua_calls = 0, ua_halted = False, ua_worn = False\<rparr>"

lemma traffic_keeps:
  assumes "cbor_ok cb" "env_ok env" "qsort_ok (env_qsort env)" "device_inv (ua_dev (h_app (lp_hid l)))"
    and "main_loop n (fido_app cb env inp) es l = Inr l'"
  shows "ua_halted (h_app (lp_hid l')) \<or> ua_worn (h_app (lp_hid l'))
    \<or> device_inv (ua_dev (h_app (lp_hid l'))) \<and> later (ua_dev (h_app (lp_hid l))) (ua_dev (h_app (lp_hid l')))"
proof -
  have "usb_reached cb env (ua_dev (h_app (lp_hid l))) (h_app (lp_hid l))" by (simp add: usb_reached_def)
  from fido.loop[OF this assms(5)] show ?thesis
    using usb_run_later[OF assms(1-4)] by (auto simp: usb_reached_def)
qed

subsection \<open>The start\<close>

text \<open>\<open>device_init\<close> without the NFC chip: the memory is zero, the transport is reset, the authenticator reads its state from the flash, and the settings
  are brought up to date; the second result is the option register. Only the authenticator can stop the start.\<close>

definition device_init :: "environ \<Rightarrow> gpio \<Rightarrow> flash \<times> u32 \<Rightarrow> nat \<Rightarrow> ctap_dev + usb loop \<times> u32" where
  "device_init env b s p =
     seqE (ctap_init env (power_up (fst s) p)) (\<lambda>d.
     case settings_step (env_prog env) DeviceStart (d_flash d, snd s) of (f, optr) \<Rightarrow>
     let l = loop_start (usb_start (d\<lparr>d_flash := f\<rparr>) b) in
     Inr (l\<lparr>lp_hid := ctaphid_init (lp_hid l)\<rparr>, optr))"

lemma migrate_elsewhere: "prog_ok prog \<Longrightarrow> same_elsewhere f (device_migrate prog optr f)"
  using migrate_needed(5) by (cases "provisioned f") (auto simp: migrate_done same_elsewhere_def)

lemma device_starts:
  assumes "env_ok env" "device_inv d"
  obtains l optr' where "device_init env b (d_flash d, optr) p = Inr (l, optr')" "loop_ok l"
    "device_inv (ua_dev (h_app (lp_hid l)))" "later d (ua_dev (h_app (lp_hid l)))"
    "\<not> ua_halted (h_app (lp_hid l))" "\<not> ua_worn (h_app (lp_hid l))"
proof -
  have st: "stored_twice (d_st d) (d_flash d)" "state_wf (d_st d)" "as_init (d_st d) = INITIALIZED_MARKER" "as_version (d_st d) = STATE_VERSION"
    using assms(2) by (simp_all add: device_inv_def core_inv_def dev_ok_def)
  obtain d1 where d1: "ctap_init env (power_up (d_flash d) p) = Inr d1" using init_stored[OF st, of env p] by blast
  note i = init_later[OF assms(2) d1]
  let ?f = "device_migrate (env_prog env) optr (d_flash d1)"
  have q: "quiet d1 (d1\<lparr>d_flash := ?f\<rparr>)"
    using i assms(1) by (intro elsewhere_quiet migrate_elsewhere) (simp_all add: device_inv_def env_ok_def)
  have dev: "device_inv (d1\<lparr>d_flash := ?f\<rparr>)" using i q by (simp add: device_inv_def quiet_def)
  let ?l = "loop_start (usb_start (d1\<lparr>d_flash := ?f\<rparr>) b)"
  have h: "hid_ok (ctaphid_init (lp_hid ?l))" by (simp add: loop_start_def ctaphid_init_def buffer_reset_ok hid_start_ok)
  have a: "h_app (ctaphid_init (lp_hid ?l)) = usb_start (d1\<lparr>d_flash := ?f\<rparr>) b" by (simp add: loop_start_def hid_start_def)
  have e: "device_init env b (d_flash d, optr) p = Inr (?l\<lparr>lp_hid := ctaphid_init (lp_hid ?l)\<rparr>, flash_option_bytes_init False ?f optr)"
    by (simp add: device_init_def d1 Let_def)
  have "later d (d1\<lparr>d_flash := ?f\<rparr>)" using later_trans[of d d1] quiet_later[OF q] i by blast
  then show thesis
    by (intro that[OF e]) (use h a dev in \<open>simp_all add: usb_start_def loop_ok_def loop_start_def fifo_empty_ok fifo_ok_ring\<close>)
qed

end
