(* ===== verification/UsbClaims.thy ===== *)
theory UsbClaims
  imports UsbDevice DeviceClaims
begin

text \<open>
  The claims about the device on USB: any traffic keeps its invariant, and a CTAP2 command that arrives in packets is answered by what the authenticator says.
\<close>

text \<open>The reports handled during a request are HID reports.\<close>

definition usb_in_ok :: "usb_in \<Rightarrow> bool" where
  "usb_in_ok i \<longleftrightarrow> (\<forall>p\<in>set (ui_reports i). length p = 64) \<and> (\<forall>ev\<in>set (ui_up i). \<forall>p. snd ev = Some p \<longrightarrow> length p = 64)"

lemma fido_app_ok: "\<forall>n. usb_in_ok (inp n) \<Longrightarrow> app_ok (fido_app cb env inp)"
  by (auto simp: app_ok_def fido_app_def usb_cbor_def usb_msg_def usb_in_ok_def Let_def split: sum.splits prod.splits)

text \<open>No report arrives during a call.\<close>

definition undisturbed :: "usb_in \<Rightarrow> bool" where
  "undisturbed i \<longleftrightarrow> ui_reports i = [] \<and> (\<forall>ev\<in>set (ui_up i). snd ev = None)"

lemma fido_app_quiet: "\<forall>n. undisturbed (inp n) \<Longrightarrow> app_quiet (fido_app cb env inp)"
  by (auto simp: app_quiet_def fido_app_def usb_cbor_def usb_msg_def undisturbed_def Let_def split: sum.splits prod.splits)

text \<open>C9 (invariant). A session on USB: a device whose authenticator kept the invariant of its state (PIN state stored in both pages, credentials
  counted, counter consistent) starts, and then any reports arrive, in any number and order, with the rounds of the main loop, the interrupts (also
  in the middle of a take from the queue) and further reports in the middle of requests in any interleaving. The start succeeds, the transport never reaches one of
  its \<open>exit(1)\<close> calls, its buffers and the queue stay within bounds and the reports
  it sends are 64 bytes long, and at the end of the run the authenticator still has the invariant and no signature counter went backwards, unless in this
  run an exit of the authenticator itself stopped the device or a request was made with the counter already worn out (within 256 of 2^31). When no report comes in the middle of a request, every round ends.\<close>

theorem usb_session_safe:
  assumes "cbor_ok cb" "env_ok env" "qsort_ok (env_qsort env)" "device_inv d0" "\<forall>k. usb_in_ok (inp k)"
  shows "\<exists>l optr'. device_init env b (d_flash d0, optr) pos = Inr (l, optr') \<and> \<not> ua_halted (h_app (lp_hid l)) \<and> \<not> ua_worn (h_app (lp_hid l))
    \<and> (case main_loop n (fido_app cb env inp) es l of
         Inl e \<Rightarrow> e = Deep
       | Inr l' \<Rightarrow> loop_ok l'
           \<and> (ua_halted (h_app (lp_hid l')) \<or> ua_worn (h_app (lp_hid l'))
              \<or> device_inv (ua_dev (h_app (lp_hid l'))) \<and> later d0 (ua_dev (h_app (lp_hid l')))))
    \<and> ((\<forall>k. undisturbed (inp k)) \<longrightarrow> (\<exists>l'. main_loop (Suc n) (fido_app cb env inp) es l = Inr l'))"
proof -
  obtain l optr' where l: "device_init env b (d_flash d0, optr) pos = Inr (l, optr')" "loop_ok l"
    "device_inv (ua_dev (h_app (lp_hid l)))" "later d0 (ua_dev (h_app (lp_hid l)))" "\<not> ua_halted (h_app (lp_hid l))" "\<not> ua_worn (h_app (lp_hid l))"
    using device_starts[OF assms(2,4)] .
  note s = loop_safe[OF fido_app_ok[OF assms(5)] l(2)]
  have "case main_loop n (fido_app cb env inp) es l of
         Inl e \<Rightarrow> e = Deep
       | Inr l' \<Rightarrow> loop_ok l'
           \<and> (ua_halted (h_app (lp_hid l')) \<or> ua_worn (h_app (lp_hid l'))
              \<or> device_inv (ua_dev (h_app (lp_hid l'))) \<and> later d0 (ua_dev (h_app (lp_hid l'))))"
    using s(1)[of n cb env es] traffic_keeps[OF assms(1-3) l(3), of n inp es] later_trans[OF l(4)] by (fastforce split: sum.splits)
  moreover have "(\<forall>k. undisturbed (inp k)) \<longrightarrow> (\<exists>l'. main_loop (Suc n) (fido_app cb env inp) es l = Inr l')"
    using s(2)[of cb env n es] fido_app_quiet by blast
  ultimately show ?thesis using l(1,5,6) by blast
qed

text \<open>Nothing happens during the calls.\<close>

definition calm :: "nat \<Rightarrow> usb_in" where
  "calm n = \<lparr>ui_ps = early_touch, ui_reports = [], ui_up = [(False, None)], ui_pin = True, ui_ms = (0, 0)\<rparr>"

lemma calm_ok: "usb_in_ok (calm n)"
  by (simp add: usb_in_ok_def calm_def)

lemma usb_session_safe_witness:
  "\<exists>l optr l'. device_init env0 gpio_start (d_flash dev0, 0) 7 = Inr (l, optr)
     \<and> main_loop 1 (fido_app (tree_cbor ga_tree) env0 calm)
         [Arrives (replicate 64 0xff), Round 1 2 (no_irq\<lparr>ti_torn := [replicate 64 1]\<rparr>) [], Overflow 90, Round 91 92 no_irq []] l = Inr l'
     \<and> loop_ok l'
     \<and> (ua_halted (h_app (lp_hid l')) \<or> ua_worn (h_app (lp_hid l'))
        \<or> device_inv (ua_dev (h_app (lp_hid l'))) \<and> later dev0 (ua_dev (h_app (lp_hid l'))))"
proof -
  let ?es = "[Arrives (replicate 64 0xff), Round 1 2 (no_irq\<lparr>ti_torn := [replicate 64 1]\<rparr>) [], Overflow 90, Round 91 92 no_irq []]"
  have q: "\<forall>k. undisturbed (calm k)" "\<forall>k. usb_in_ok (calm k)" by (simp_all add: calm_ok undisturbed_def) (simp_all add: calm_def)
  note s = usb_session_safe[OF tree_cbor_ok[of ga_tree] env0_ok env0_qsort dev0_inv q(2), where b = gpio_start and optr = 0 and pos = 7 and es = ?es]
  obtain l optr l' where l: "device_init env0 gpio_start (d_flash dev0, 0) 7 = Inr (l, optr)"
      "main_loop 1 (fido_app (tree_cbor ga_tree) env0 calm) ?es l = Inr l'"
    using s[where n = 0] q(1) unfolding One_nat_def by blast
  then show ?thesis using s[where n = 1] by (auto simp del: main_loop.simps)
qed



end
