(* ===== verification/Rng.thy ===== *)
theory Rng
  imports FwPrelude
begin

text \<open>
  The random number driver of \<^verbatim>\<open>targets/stm32l432/src/rng.c\<close>. The readings of the generator's data and status registers are its input, one pair for each word;
  the list ends where the generator does not get ready any more.
\<close>

datatype rng_stop = RngWaits | RngExit

fun rng_get_bytes :: "nat \<Rightarrow> (u32 \<times> u32) list \<Rightarrow> rng_stop + bytes \<times> (u32 \<times> u32) list" where
  "rng_get_bytes sz rs =
     (if sz = 0 then Inr ([], rs)
      else case rs of [] \<Rightarrow> Inl RngWaits
        | (r, sr) # rs \<Rightarrow>
            if sr AND 0x66 \<noteq> 0 then Inl RngExit
            else seqE (rng_get_bytes (sz - 4) rs) (\<lambda>(dst, rs). Inr (take sz (u32_le_bytes r) @ dst, rs)))"

declare rng_get_bytes.simps [simp del]

definition rng_words :: "nat \<Rightarrow> nat" where
  "rng_words sz = (sz + 3) div 4"

lemma rng_words_step: "0 < sz \<Longrightarrow> rng_words sz = Suc (rng_words (sz - 4))"
proof (cases "sz < 4")
  case True
  moreover assume "0 < sz"
  ultimately have "sz = 1 \<or> sz = 2 \<or> sz = 3" by linarith
  then show ?thesis by (auto simp: rng_words_def)
next
  case False
  then have "sz + 3 = (sz - 4 + 3) + 4" by simp
  then show ?thesis by (simp add: rng_words_def)
qed

text \<open>The bytes are those of the words, in the order of the memory; what is left of the last word is dropped. The driver stops exactly at the first
  word with an error flag among those it needs.\<close>

lemma rng_value:
  assumes "rng_words sz \<le> length rs"
  shows "rng_get_bytes sz rs =
    (if \<exists>x\<in>set (take (rng_words sz) rs). snd x AND 0x66 \<noteq> 0 then Inl RngExit
     else Inr (take sz (concat (map (u32_le_bytes \<circ> fst) (take (rng_words sz) rs))), drop (rng_words sz) rs))"
  using assms
proof (induction sz rs rule: rng_get_bytes.induct)
  case (1 sz rs)
  show ?case
  proof (cases "sz = 0")
    case True
    then show ?thesis by (subst rng_get_bytes.simps) (simp add: rng_words_def)
  next
    case False
    then have w: "rng_words sz = Suc (rng_words (sz - 4))" by (simp add: rng_words_step)
    obtain r sr rs' where rs: "rs = (r, sr) # rs'" using 1(2) w by (cases rs) auto
    have l: "length (u32_le_bytes r) = 4" by (simp add: u32_le_bytes_def)
    show ?thesis
    proof (cases "sr AND 0x66 = 0")
      case True
      have "rng_get_bytes (sz - 4) rs' =
        (if \<exists>x\<in>set (take (rng_words (sz - 4)) rs'). snd x AND 0x66 \<noteq> 0 then Inl RngExit
         else Inr (take (sz - 4) (concat (map (u32_le_bytes \<circ> fst) (take (rng_words (sz - 4)) rs'))), drop (rng_words (sz - 4)) rs'))"
        using 1(1)[OF False, of "(r, sr)" rs' r sr] True 1(2) rs w by simp
      then show ?thesis using True False rs w l by (subst rng_get_bytes.simps) auto
    next
      case err: False
      then show ?thesis using False rs w by (subst rng_get_bytes.simps) simp
    qed
  qed
qed

lemma rng_length: "rng_get_bytes sz rs = Inr (dst, rs') \<Longrightarrow> length dst = sz"
proof (induction sz arbitrary: rs dst rule: less_induct)
  case (less sz)
  show ?case
  proof (cases "sz = 0")
    case True
    then show ?thesis using less.prems by (subst (asm) rng_get_bytes.simps) simp
  next
    case False
    then obtain r sr rs1 d where d: "rng_get_bytes (sz - 4) rs1 = Inr (d, rs')" "dst = take sz (u32_le_bytes r) @ d"
      using less.prems by (subst (asm) rng_get_bytes.simps) (auto simp: seqE_Inr split: if_splits list.splits)
    have "length d = sz - 4" using less.IH[OF _ d(1)] False by simp
    then show ?thesis using d(2) by (simp add: u32_le_bytes_def)
  qed
qed

end
