(* ===== verification/Ams.thy ===== *)
theory Ams
  imports FwPrelude
begin

text \<open>
  The commands of the NFC chip AS3956 over SPI (\<^verbatim>\<open>targets/stm32l432/src/ams.c\<close>) and its configuration. The chip is a parameter: what it answers to a
  byte, and what it does when it is deselected and selected again.
\<close>

record 's spi =
  spi_xfer :: "'s \<Rightarrow> u8 \<Rightarrow> u8 \<times> 's"
  spi_reselect :: "'s \<Rightarrow> 's"

definition send_recv :: "'s spi \<Rightarrow> u8 \<Rightarrow> 's \<Rightarrow> u8 \<times> 's" where
  "send_recv bus b s = spi_xfer bus s b"

text \<open>The bytes of a command, each with its answer.\<close>

primrec send_all :: "'s spi \<Rightarrow> bytes \<Rightarrow> 's \<Rightarrow> bytes \<times> 's" where
  "send_all bus [] s = ([], s)"
| "send_all bus (b # bs) s = (case send_recv bus b s of (r, s) \<Rightarrow> case send_all bus bs s of (rs, s) \<Rightarrow> (r # rs, s))"

definition ams_write_reg :: "'s spi \<Rightarrow> u8 \<Rightarrow> u8 \<Rightarrow> 's \<Rightarrow> 's" where
  "ams_write_reg bus addr tx s = spi_reselect bus (snd (send_all bus [0x00 OR addr, tx] s))"

definition ams_read_reg :: "'s spi \<Rightarrow> u8 \<Rightarrow> 's \<Rightarrow> u8 \<times> 's" where
  "ams_read_reg bus addr s = (case send_all bus [0x20 OR (addr AND 0x1f), 0] s of (rs, s) \<Rightarrow> (rs ! 1, spi_reselect bus s))"

text \<open>The registers 4 to 12 are read into the structure at their own addresses.\<close>

definition read_reg_block :: "'s spi \<Rightarrow> bytes \<Rightarrow> 's \<Rightarrow> bytes \<times> 's" where
  "read_reg_block bus buf s = (case send_all bus ((0x20 OR 4) # replicate 9 0) s of (rs, s) \<Rightarrow> (blit buf 4 (tl rs), spi_reselect bus s))"

definition ams_read_buffer :: "'s spi \<Rightarrow> nat \<Rightarrow> 's \<Rightarrow> bytes \<times> 's" where
  "ams_read_buffer bus len s = (case send_all bus (0xa0 # replicate len 0) s of (rs, s) \<Rightarrow> (tl rs, spi_reselect bus s))"

definition ams_write_buffer :: "'s spi \<Rightarrow> bytes \<Rightarrow> 's \<Rightarrow> 's" where
  "ams_write_buffer bus data s = spi_reselect bus (snd (send_all bus (0x80 # data) s))"

definition ams_read_eeprom_block :: "'s spi \<Rightarrow> u8 \<Rightarrow> 's \<Rightarrow> bytes \<times> 's" where
  "ams_read_eeprom_block bus blk s = (case send_all bus [0x7f, push_bit 1 blk, 0, 0, 0, 0] s of (rs, s) \<Rightarrow> (drop 2 rs, spi_reselect bus s))"

definition ams_write_eeprom_block :: "'s spi \<Rightarrow> u8 \<Rightarrow> bytes \<Rightarrow> 's \<Rightarrow> 's" where
  "ams_write_eeprom_block bus blk data s = spi_reselect bus (snd (send_all bus ([0x40, push_bit 1 blk] @ take 4 data) s))"

definition ams_write_command :: "'s spi \<Rightarrow> u8 \<Rightarrow> 's \<Rightarrow> 's" where
  "ams_write_command bus cmd s = spi_reselect bus (snd (send_all bus [0xc0 OR cmd] s))"

definition AMS_REG_IC_CONF1 :: u8 where "AMS_REG_IC_CONF1 = 0x01"
definition AMS_REG_IC_CONF2 :: u8 where "AMS_REG_IC_CONF2 = 0x02"
definition AMS_REG_PRODUCT_TYPE :: u8 where "AMS_REG_PRODUCT_TYPE = 0x1c"
definition AMS_CONFIG_UID_ADDR :: u8 where "AMS_CONFIG_UID_ADDR = 0x00"
definition AMS_CONFIG_BLOCK0_ADDR :: u8 where "AMS_CONFIG_BLOCK0_ADDR = 0x7e"
definition AMS_CONFIG_BLOCK1_ADDR :: u8 where "AMS_CONFIG_BLOCK1_ADDR = 0x7f"
definition AMS_CFG1_VOLTAGE_LEVEL_2V0 :: u8 where "AMS_CFG1_VOLTAGE_LEVEL_2V0 = push_bit 2 0x01"
definition AMS_CFG1_OUTPUT_RESISTANCE_100 :: u8 where "AMS_CFG1_OUTPUT_RESISTANCE_100 = 0x01"
definition AMS_CFG2_TUN_MOD :: u8 where "AMS_CFG2_TUN_MOD = push_bit 6 1"

text \<open>The answer tells whether the chip is there.\<close>

definition ams_init :: "'s spi \<Rightarrow> 's \<Rightarrow> int \<times> 's" where
  "ams_init bus s = (case ams_read_reg bus AMS_REG_PRODUCT_TYPE (spi_reselect bus s) of (productType, s) \<Rightarrow>
     (if productType = 0x14 then 1 else 0, s))"

definition configure_block0 :: "'s spi \<Rightarrow> bytes \<Rightarrow> 's \<Rightarrow> 's" where
  "configure_block0 bus conf s =
     (if conf ! 0 \<noteq> 0x44 \<or> conf ! 1 \<noteq> 0x00 \<or> conf ! 2 \<noteq> 0x20 then
        let s = ams_write_eeprom_block bus AMS_CONFIG_BLOCK0_ADDR [0x44, 0x00, 0x20, 0x00] s;
            s = spi_reselect bus s
        in snd (ams_read_eeprom_block bus AMS_CONFIG_BLOCK0_ADDR s)
      else s)"

definition configure_block1 :: "'s spi \<Rightarrow> bytes \<Rightarrow> 's \<Rightarrow> 's" where
  "configure_block1 bus conf s =
     (let ic_cfg1 = AMS_CFG1_OUTPUT_RESISTANCE_100 OR AMS_CFG1_VOLTAGE_LEVEL_2V0;
          ic_cfg2 = AMS_CFG2_TUN_MOD in
      if conf ! 0 \<noteq> ic_cfg1 \<or> conf ! 1 \<noteq> ic_cfg2 then
        let s = ams_write_reg bus AMS_REG_IC_CONF1 ic_cfg1 s;
            s = ams_write_reg bus AMS_REG_IC_CONF2 ic_cfg2 s;
            s = ams_write_eeprom_block bus AMS_CONFIG_BLOCK1_ADDR [ic_cfg1, ic_cfg2, 0x80, 0] s;
            s = spi_reselect bus s
        in snd (ams_read_eeprom_block bus 0x7F s)
      else s)"

text \<open>A wrong product type is only printed.\<close>

definition ams_configure :: "'s spi \<Rightarrow> 's \<Rightarrow> 's" where
  "ams_configure bus s =
     (case ams_read_reg bus AMS_REG_PRODUCT_TYPE s of (productType, s) \<Rightarrow>
      case ams_read_eeprom_block bus AMS_CONFIG_UID_ADDR s of (uid, s) \<Rightarrow>
      case ams_read_eeprom_block bus AMS_CONFIG_BLOCK0_ADDR s of (conf, s) \<Rightarrow>
      let s = configure_block0 bus conf s in
      case ams_read_eeprom_block bus AMS_CONFIG_BLOCK1_ADDR s of (conf, s) \<Rightarrow>
      configure_block1 bus conf s)"

subsection \<open>The state of the chip as a number\<close>

definition AMS_STATE_INVALID :: u8 where "AMS_STATE_INVALID = 0x04"

text \<open>The eleven states the source lists, by their bits in the register.\<close>

definition ams_states :: "u8 list" where
  "ams_states = map (push_bit 3) [0, 1, 3, 2, 6, 7, 0xf, 0xe, 0xa, 0xb, 0x9]"

definition ams_state_is_valid :: "u8 \<Rightarrow> int" where
  "ams_state_is_valid regval =
     (if regval AND AMS_STATE_INVALID \<noteq> 0 then 0 else if regval AND 0x78 \<in> set ams_states then 1 else 0)"

subsection \<open>The configuration\<close>

text \<open>What the data sheet says of the commands the configuration uses: reading leaves registers and EEPROM as they are, a write changes
  the one register or block. \<open>regs\<close> and \<open>rom\<close> read the chip's memory, \<open>idle\<close> says that it is selected and waits for a command.\<close>

definition chip_ok :: "'s spi \<Rightarrow> ('s \<Rightarrow> bool) \<Rightarrow> ('s \<Rightarrow> u8 \<Rightarrow> u8) \<Rightarrow> ('s \<Rightarrow> u8 \<Rightarrow> bytes) \<Rightarrow> bool" where
  "chip_ok bus idle regs rom \<longleftrightarrow> (\<forall>s. idle s \<longrightarrow>
     (let r = spi_reselect bus s in idle r \<and> regs r = regs s \<and> rom r = rom s)
     \<and> (\<forall>a. case ams_read_reg bus a s of (v, r) \<Rightarrow> v = regs s (a AND 0x1f) \<and> idle r \<and> regs r = regs s \<and> rom r = rom s)
     \<and> (\<forall>a v. a < 0x20 \<longrightarrow> (let r = ams_write_reg bus a v s in idle r \<and> regs r = (regs s)(a := v) \<and> rom r = rom s))
     \<and> (\<forall>blk. blk < 0x80 \<longrightarrow> (case ams_read_eeprom_block bus blk s of (v, r) \<Rightarrow> v = rom s blk \<and> idle r \<and> regs r = regs s \<and> rom r = rom s))
     \<and> (\<forall>blk d. blk < 0x80 \<longrightarrow> length d = 4 \<longrightarrow>
          (let r = ams_write_eeprom_block bus blk d s in idle r \<and> regs r = regs s \<and> rom r = (rom s)(blk := d))))"

definition configured :: "(u8 \<Rightarrow> bytes) \<Rightarrow> bool" where
  "configured m \<longleftrightarrow> m 0x7e ! 0 = 0x44 \<and> m 0x7e ! 1 = 0 \<and> m 0x7e ! 2 = 0x20 \<and> m 0x7f ! 0 = 0x05 \<and> m 0x7f ! 1 = 0x40"

lemmas ams_addrs = AMS_REG_IC_CONF1_def AMS_REG_IC_CONF2_def AMS_REG_PRODUCT_TYPE_def AMS_CONFIG_UID_ADDR_def
  AMS_CONFIG_BLOCK0_ADDR_def AMS_CONFIG_BLOCK1_ADDR_def AMS_CFG1_VOLTAGE_LEVEL_2V0_def AMS_CFG1_OUTPUT_RESISTANCE_100_def AMS_CFG2_TUN_MOD_def

lemma chip_laws:
  assumes "chip_ok bus idle regs rom" "idle s"
  shows "idle (spi_reselect bus s)" "regs (spi_reselect bus s) = regs s" "rom (spi_reselect bus s) = rom s"
    "fst (ams_read_reg bus a s) = regs s (a AND 0x1f)" "idle (snd (ams_read_reg bus a s))"
    "regs (snd (ams_read_reg bus a s)) = regs s" "rom (snd (ams_read_reg bus a s)) = rom s"
    "a < 0x20 \<Longrightarrow> idle (ams_write_reg bus a v s)" "a < 0x20 \<Longrightarrow> regs (ams_write_reg bus a v s) = (regs s)(a := v)" "a < 0x20 \<Longrightarrow> rom (ams_write_reg bus a v s) = rom s"
    "blk < 0x80 \<Longrightarrow> fst (ams_read_eeprom_block bus blk s) = rom s blk" "blk < 0x80 \<Longrightarrow> idle (snd (ams_read_eeprom_block bus blk s))"
    "blk < 0x80 \<Longrightarrow> regs (snd (ams_read_eeprom_block bus blk s)) = regs s" "blk < 0x80 \<Longrightarrow> rom (snd (ams_read_eeprom_block bus blk s)) = rom s"
    "blk < 0x80 \<Longrightarrow> length d = 4 \<Longrightarrow> idle (ams_write_eeprom_block bus blk d s)"
    "blk < 0x80 \<Longrightarrow> length d = 4 \<Longrightarrow> regs (ams_write_eeprom_block bus blk d s) = regs s"
    "blk < 0x80 \<Longrightarrow> length d = 4 \<Longrightarrow> rom (ams_write_eeprom_block bus blk d s) = (rom s)(blk := d)"
  using assms(1)[unfolded chip_ok_def, rule_format, OF assms(2)] by (auto simp: Let_def split_beta)

lemma configure_block0_result:
  assumes "chip_ok bus idle regs rom" "idle s" "conf = rom s 0x7e"
  shows "idle (configure_block0 bus conf s)"
    and "rom (configure_block0 bus conf s)
      = (if conf ! 0 = 0x44 \<and> conf ! 1 = 0 \<and> conf ! 2 = 0x20 then rom s else (rom s)(0x7e := [0x44, 0, 0x20, 0]))"
    and "regs (configure_block0 bus conf s) = regs s"
  using assms(2,3) by (simp_all add: configure_block0_def Let_def chip_laws[OF assms(1)] ams_addrs)

lemma configure_block1_result:
  assumes "chip_ok bus idle regs rom" "idle s" "conf = rom s 0x7f"
  shows "idle (configure_block1 bus conf s)"
    and "rom (configure_block1 bus conf s)
      = (if conf ! 0 = 0x05 \<and> conf ! 1 = 0x40 then rom s else (rom s)(0x7f := [0x05, 0x40, 0x80, 0]))"
    and "regs (configure_block1 bus conf s)
      = (if conf ! 0 = 0x05 \<and> conf ! 1 = 0x40 then regs s else (regs s)(1 := 0x05, 2 := 0x40))"
  using assms(2,3) by (simp_all add: configure_block1_def Let_def chip_laws[OF assms(1)] ams_addrs)

text \<open>After the configuration both blocks hold the wanted values, every other block is as it was, and a chip that is configured already is
  not written again.\<close>

lemma ams_configures:
  assumes "chip_ok bus idle regs rom" "idle s"
  shows "idle (ams_configure bus s)" "configured (rom (ams_configure bus s))"
    "blk \<notin> {0x7e, 0x7f} \<Longrightarrow> rom (ams_configure bus s) blk = rom s blk"
    "configured (rom s) \<Longrightarrow> rom (ams_configure bus s) = rom s \<and> regs (ams_configure bus s) = regs s"
proof -
  define s3 where "s3 = snd (ams_read_eeprom_block bus 0x7e (snd (ams_read_eeprom_block bus 0x00 (snd (ams_read_reg bus 0x1c s)))))"
  define s4 where "s4 = configure_block0 bus (rom s 0x7e) s3"
  define s5 where "s5 = snd (ams_read_eeprom_block bus 0x7f s4)"
  have 3: "idle s3" "rom s3 = rom s" "regs s3 = regs s" unfolding s3_def using assms(2) by (simp_all add: chip_laws[OF assms(1)])
  note 4 = configure_block0_result[OF assms(1) 3(1), of "rom s 0x7e", folded s4_def, simplified 3, OF refl]
  have 5: "idle s5" "rom s5 = rom s4" "regs s5 = regs s4" unfolding s5_def using 4(1) by (simp_all add: chip_laws[OF assms(1)])
  note 6 = configure_block1_result[OF assms(1) 5(1), of "rom s4 0x7f", unfolded 5, OF refl]
  have e: "ams_configure bus s = configure_block1 bus (rom s4 0x7f) s5"
    using assms(2) 3 4(1) by (simp add: ams_configure_def split_beta Let_def ams_addrs s3_def[symmetric] s4_def[symmetric] s5_def[symmetric] chip_laws[OF assms(1)])
  show "idle (ams_configure bus s)" "configured (rom (ams_configure bus s))"
    "blk \<notin> {0x7e, 0x7f} \<Longrightarrow> rom (ams_configure bus s) blk = rom s blk"
    "configured (rom s) \<Longrightarrow> rom (ams_configure bus s) = rom s \<and> regs (ams_configure bus s) = regs s"
    unfolding e using 4 6 by (auto simp: configured_def)
qed

end
