(* ===== verification/Spec2Isabelle.thy ===== *)
theory Spec2Isabelle
  imports Fifo Apdu DerSig Sha256Vectors Counter HidProps DevProps CtapParseProps U2fProps MakeCredClaims DeviceClaims NfcClaims BootClaims ButtonClaims SettingsClaims UsbClaims Rng Ams
begin

text \<open>
  A verification library for the Nitrokey FIDO2 firmware: the program in C under \<^verbatim>\<open>src/fido2\<close> (the CTAP2 and U2F authenticator and its USB transport),
  \<^verbatim>\<open>src/targets/stm32l432/src\<close> (the device: flash, button, light, NFC, main loop) and \<^verbatim>\<open>src/targets/stm32l432/bootloader\<close>.

  \<^bold>\<open>The program.\<close> Reports of 64 bytes arrive by USB interrupt in a ring buffer. The main loop takes them out one by one and hands them to the CTAPHID transport, which
  collects messages per channel and dispatches them: to CTAP2, to U2F, or to the vendor commands. A CTAP2 request is parsed from CBOR into a structure and answered
  by an encoder; it may ask the user for a touch, and while it waits the main loop's work goes on, so that further reports are handled in the middle of the request. The
  authenticator keeps its state (PIN, key space, number of resident keys) twice in flash, its signature counter in two more pages, and up to 50
  resident keys in ten pages; other credentials are held by the relying parties, in key handles under the device's keys. By NFC the same two applications are reached with APDUs, over a
  block protocol. The bootloader accepts an update, checks its signature and version, and decides at power-up whether the application runs.

  \<^bold>\<open>How the model is made.\<close> A struct is a record with the same members, an array a list of its length, an integer a word of its width (\<open>u8\<close>, \<open>u16\<close>, \<open>u32\<close>,
  \<open>u64\<close>) or \<open>nat\<close>/\<open>int\<close> where nothing wraps around. A function of the source is a definition of the same name that takes the state and returns it. Return codes are
  integers, as in the source; where the source ends in \<open>exit(1)\<close>, an endless loop or a fault, the result is the left side of a sum. \<open>seqE\<close> puts steps in a row that may end so. A write outside an array of the source is
  written out as a fault, or the theorems show that there is none.

  \<^bold>\<open>Parameters.\<close> Code that is not in the repository is an argument of the definitions. The record \<open>environ\<close> (\<open>DevState\<close>) holds: the random numbers,
  the flash programming of one double word (\<open>prog_fn\<close>, of which \<open>prog_ok\<close> says that it clears bits as the flash of the chip does), the elliptic curves and AES (\<open>crypto_lib\<close>), the CBOR
  encoder's bytes and errors (\<open>env_enc\<close>, \<open>env_enc_err\<close>), \<open>qsort\<close> (\<open>qsort_ok\<close>: it sorts), the constants of the build, and, where the source reads what it never wrote, the bytes found there (\<open>env_null\<close>, \<open>env_stack\<close>). The CBOR decoder of tinycbor is the record \<open>cbor\<close> of
  the calls the parsers make, and \<open>cbor_ok\<close> what its documentation promises of them; \<open>tree_cbor\<close> decodes a tree of items and shows that the promises can be kept. The NFC
  chip is the record \<open>nfc_link\<close> of what it answers to what was sent. What the user and the surroundings do is an input: the reading of the clock and of the pin at every call, the
  reports that come during a request, the touch.

  \<^bold>\<open>The theories, from the bottom up.\<close>
  \<^item> \<open>FwPrelude\<close>: bytes, blocks of a buffer, byte orders, sums as results, and the collections of simplification rules.
  \<^item> \<open>Fifo\<close> (\<^verbatim>\<open>fifo.c\<close>, \<^verbatim>\<open>fifo.h\<close>): the ring buffers, with the contract of a bounded queue, \<open>bounded_queue\<close>, interpreted on the three buffers of the firmware;
  a take with an interrupt that adds elements between its steps (\<open>fifo_take_irq\<close>), which is a take of the bounded queue (\<open>take_untorn\<close>) unless something is added between the
  load and the store of \<open>SIZE --\<close> (\<open>torn_take\<close>).
  \<^item> \<open>Apdu\<close> (\<^verbatim>\<open>apdu.c\<close>), \<open>DerSig\<close> (\<open>ctap_encode_der_sig\<close>).
  \<^item> \<open>Sha256\<close>, \<open>Sha256Vectors\<close> (\<^verbatim>\<open>sha256.c\<close> of the crypto directory): the incremental hash is the hash of the concatenation (\<open>stream_hash\<close>); the test vectors of the standard.
  \<open>Crypto\<close>, \<open>CryptoRuns\<close> (\<^verbatim>\<open>crypto.c\<close>): the state of the wrappers, HMAC, and that no run of them depends on what was left in the hash state.
  \<^item> \<open>Flash\<close> (\<^verbatim>\<open>flash.c\<close>): erase and write as operations that can be cut by a power failure, with the contract of a page that is rewritten, \<open>page_store\<close>.
  \<open>Counter\<close>, \<open>CountDev\<close> (\<open>ctap_atomic_count\<close>): the signature counter. \<open>AuthState\<close> (the two copies of the state).
  \<^item> \<open>CtapTypes\<close> (\<^verbatim>\<open>ctap.h\<close>), \<open>CborEnc\<close> (responses as sequences of encoder calls, getInfo), \<open>CborRead\<close> (the decoder), \<open>RkStore\<close>, \<open>ResidentProps\<close> (resident keys).
  \<^item> \<open>DevState\<close> (the authenticator's state, reset, migration, start), \<open>DevInv\<close> (its invariant \<open>device_inv\<close> and the orders \<open>later\<close>, \<open>quiet\<close> on states), \<open>DevProps\<close>, \<open>Presence\<close> (the touch).
  \<^item> \<open>PinProtocol\<close> (\<open>ctap_client_pin\<close> and what it calls), \<open>PinProps\<close>, \<open>PinHistory\<close> (histories of PIN requests, \<open>pin_hist\<close>), \<open>PinSet\<close> (the life of
  a PIN that was set, \<open>pin_life\<close>: PIN requests and power cycles).
  \<^item> \<open>CtapParse\<close> (\<^verbatim>\<open>ctap_parse.c\<close>), \<open>CtapParseSafe\<close> (no parser writes outside its structure), \<open>CtapParseProps\<close>.
  \<^item> \<open>Credential\<close> (credential ids and their tags), \<open>U2f\<close>, \<open>U2fProps\<close> (\<^verbatim>\<open>u2f.c\<close>, \<^verbatim>\<open>extensions.c\<close>, \<^verbatim>\<open>solo.c\<close>), \<open>MakeCred\<close>, \<open>MakeCredProps\<close>, \<open>MakeCredClaims\<close>, \<open>GetAssertion\<close>, \<open>GetChoice\<close>,
  \<open>GetProps\<close>, \<open>GetClaims\<close>, \<open>CredMgmt\<close>, \<open>CredMgmtProps\<close>, \<open>CredMgmtClaims\<close> (\<^verbatim>\<open>ctap.c\<close>). The contract of an enumeration with Begin and Next is \<open>listing\<close>.
  \<^item> \<open>CtapRequest\<close> (\<open>ctap_request\<close>), \<open>RequestInv\<close>, \<open>DeviceRuns\<close> (steps of the whole authenticator, \<open>device_step\<close>: requests by CTAP2, by U2F, by NFC, and power cycles), \<open>DeviceClaims\<close>.
  \<^item> \<open>HidChannel\<close>, \<open>HidDispatch\<close>, \<open>HidProps\<close> (\<^verbatim>\<open>ctaphid.c\<close>): channels, reassembly, the writer of responses, the dispatcher. The application is the record \<open>hid_app\<close> of the calls the transport makes.
  \<^item> \<open>MainLoop\<close> (\<^verbatim>\<open>main.c\<close>, \<open>handle_packets\<close> and the interrupts of \<^verbatim>\<open>device.c\<close>: the USB interrupt at any point of a take and during the waits of a request, the
  timer interrupt between the rounds), \<open>UsbProps\<close> (what calls of the application keep, traffic keeps: \<open>app_inv\<close>), \<open>UsbDevice\<close> (the transport with CTAP2 and U2F behind it, and
  its start), \<open>UsbClaims\<close>.
  \<^item> \<open>Nfc\<close>, \<open>NfcProps\<close>, \<open>NfcClaims\<close> (\<^verbatim>\<open>nfc.c\<close>): the block protocol, the applications, chained commands and responses. \<open>Ams\<close> (\<^verbatim>\<open>ams.c\<close>): the commands
  of the NFC chip, and that its configuration ends with the wanted blocks and is not repeated.
  \<^item> \<open>Rng\<close> (\<^verbatim>\<open>rng.c\<close>): the random number driver, over the readings of its registers.
  \<^item> \<open>Bootloader\<close>, \<open>BootClaims\<close> (\<^verbatim>\<open>bootloader.c\<close>, \<^verbatim>\<open>version_check.c\<close>, the decision of the bootloader's \<^verbatim>\<open>main.c\<close>).
  \<^item> \<open>Button\<close>, \<open>UserFeedback\<close>, \<open>ButtonProps\<close>, \<open>ButtonClaims\<close> (\<^verbatim>\<open>gpio.c\<close>, \<^verbatim>\<open>led.c\<close>, \<^verbatim>\<open>user_feedback.c\<close>, the wait of \<^verbatim>\<open>device.c\<close>); \<open>gpio_inv\<close> is the contract of a property that all driver calls keep.
  \<^item> \<open>DeviceSettings\<close>, \<open>SettingsClaims\<close> (\<^verbatim>\<open>attestation.c\<close>, the migration, the lock and the option bytes).

  \<^bold>\<open>What is shown.\<close> Claims are numbered; each stands under its number before its theorem.
  \<^item> PIN: wrong guesses are bounded over any history, a token is released only for the PIN, a PIN that was set gives a token in every later session (over other PIN requests and power
  cycles, as long as it is not changed and attempts are left), a locked device refuses.
  \<^item> Update and start: the start-up code jumps only to an application whose pages have a signature that verifies, and an update that is signed and not older is installed.
  \<^item> Touch: the presence test says yes only after a press of full length, or in the named short cuts; the one of the first two seconds is given once.
  \<^item> USB: the traffic of a whole session keeps the invariant, a request in packets is answered by the authenticator's answer, reports are handled in order, the packets of another channel, INIT excepted, do not disturb a message.
  \<^item> Flash: counters grow over requests and power cuts, the old or the new state is found after a power cut before or after the primary page is written (a cut in the middle of it is
  the subject of a lemma and a finding), the store of resident keys is a finite map of slots, settings and lock persist.
  \<^item> Cryptography: SHA-256 in pieces, HMAC, the encoding of signatures.
  \<^item> Requests: parsers stay in bounds, registrations and assertions carry the consent they report and only for credentials of the device, what was registered authenticates,
  the enumerations list every credential once, deletion deletes one. Every device reachable by requests and power cycles has the invariant, and the counters of its assertions increase.
  \<^item> NFC: commands and responses pass the block protocol unchanged, and fetching a response ends; for responses with a one-byte block header.

  \<^bold>\<open>Bounds and fuel.\<close> \<open>ctaphid_handle_packet\<close> calls itself through the user presence wait; its first argument bounds the depth of that nesting, and \<open>Deep\<close> is the result
  when it is used up. One level is enough without reports during requests, and the theorems about traffic hold for every depth. The search for a free slot walks the 50 slots. Waiting loops (button, user feedback, NFC) run over the list of readings they are given; None
  says that the wait is not over at the end of the list. Signature counters are followed up to 2^31 (\<open>counter_room\<close>); beyond it nothing is said.

  \<^bold>\<open>History variables.\<close> Some fields of the states have no counterpart in the program; they make a property of a run sayable: \<open>h_heard\<close> (the reports the transport
  handled), \<open>lp_linked\<close> (the reports handled inside requests are those the waits took from the queue), \<open>ua_halted\<close> and \<open>ua_worn\<close> (the authenticator ended in an
  \<open>exit(1)\<close>; a request was made with a counter near its bound), \<open>b_log\<close> (the readings of the pin).

  \<^bold>\<open>Requests that are well named.\<close> The properties of getAssertion hold for requests that are \<open>well_named\<close>: no credential id in the list, in the buffer of custom ids or in the
  store has the tag of the vendor commands (such an id is not looked up but run as a command), and the count in each listed credential of the device is from 1 to below 2^31 (the
  comparison the list is sorted with subtracts counts).

  \<^bold>\<open>What is modelled coarsely.\<close> Reports that arrive in the middle of a request are handled, in the model, when the authenticator's part of the request is done: what they do to the transport's
  state is followed, what they would do to a request in work is not. That they are the reports the waits took from the queue is stated (\<open>lp_linked\<close>), as the application gets them as an
  input. The keepalives of the timer interrupt and the changes of the status fall between the rounds. The claims on the loop leave out an interrupt between the load and the
  store of \<open>SIZE --\<close>, which hides a report (\<open>torn_take_hides_report\<close>). Log output is left out. A power cut is
  modelled for the flash writes of the state, the counter and the settings, and otherwise falls between requests.

  \<^bold>\<open>Not modelled.\<close> Register drivers have no logic to state without the chip: clocks and pins (\<^verbatim>\<open>init.c\<close>, \<^verbatim>\<open>system_stm32l4xx.c\<close>), the touch electrodes (\<^verbatim>\<open>sense.c\<close>), the USB stack. Vendor headers and the libraries tinycbor, micro-ecc, tiny-AES and cifra are not the program's own code. No build reaches \<^verbatim>\<open>wallet.c\<close> (its calls are compiled with
  ENABLE_WALLET only), \<^verbatim>\<open>test_power.c\<close> (TEST_POWER), \<^verbatim>\<open>stubs.c\<close> and \<^verbatim>\<open>aes_gcm.c\<close>; \<^verbatim>\<open>src/pc\<close> and the weak defaults of \<^verbatim>\<open>fido2/device.c\<close> belong to the
  simulation on a PC; \<^verbatim>\<open>log.c\<close>, \<^verbatim>\<open>util.c\<close> and \<^verbatim>\<open>redirect.c\<close> print. In \<^verbatim>\<open>device.c\<close> the old presence wait \<^verbatim>\<open>_ctap_user_presence_test\<close> has no caller.
\<close>

end
